(* ===== verification/Prelude.thy ===== *)
theory Prelude
  imports
    Complex_Main
    "HOL-Library.Word"
    "HOL-Library.Monad_Syntax"
begin

text \<open>
  Shared vocabulary of the development: the simulation time type, the error values of
  fallible operations, the named collections the component proofs draw on, and generic
  lemmas on words, maps and lists.

  \<^item> \<open>simtime\<close> and \<open>clocktime\<close> are raw tick counts (the \<open>raw()\<close> value of the
    OMNeT++ \<open>SimTime\<close> and of INET's \<open>ClockTime\<close>), modelled as unbounded integers;
    the range check of the 64-bit tick counter is not modelled.
  \<^item> A C++ exception (\<open>throw cRuntimeError\<close>, a failed \<open>ASSERT\<close>) is the value
    \<open>None\<close> of an option type.
\<close>

section \<open>Time\<close>

type_synonym simtime = int
type_synonym clocktime = int

section \<open>Named collections\<close>

named_theorems step_simps \<open>unfolding rules of the operations of a component\<close>
named_theorems inv_intros \<open>preservation of component invariants\<close>

section \<open>Fallible steps\<close>

text \<open>\<open>ASSERT\<close> and guarded \<open>throw\<close>: continue only when the condition holds.\<close>

definition ensure :: "bool \<Rightarrow> unit option" where
  "ensure b = (if b then Some () else None)"

lemma ensure_simps [simp]:
  "ensure True = Some ()"
  "ensure False = None"
  by (simp_all add: ensure_def)

lemma ensure_bind_Some [simp]:
  "(ensure b \<bind> f = Some y) \<longleftrightarrow> b \<and> f () = Some y"
  by (cases b) simp_all

text \<open>A \<open>for\<close> loop over a list whose body may throw.\<close>

fun fold_opt :: "('a \<Rightarrow> 's \<Rightarrow> 's option) \<Rightarrow> 'a list \<Rightarrow> 's \<Rightarrow> 's option" where
  "fold_opt f [] s = Some s"
| "fold_opt f (x # xs) s = (case f x s of None \<Rightarrow> None | Some s' \<Rightarrow> fold_opt f xs s')"

lemma fold_opt_inv:
  assumes "fold_opt f xs s = Some s'"
    and "P s"
    and "\<And>x t t'. x \<in> set xs \<Longrightarrow> P t \<Longrightarrow> f x t = Some t' \<Longrightarrow> P t'"
  shows "P s'"
  using assms
proof (induction xs arbitrary: s)
  case Nil
  then show ?case by simp
next
  case (Cons x xs)
  from Cons.prems(1) obtain t where t: "f x s = Some t" "fold_opt f xs t = Some s'"
    by (auto split: option.splits)
  from Cons.prems(3)[of x s t] Cons.prems(2) t(1) have "P t" by simp
  with t(2) Cons.prems(3) show ?case by (intro Cons.IH) auto
qed

lemma fold_opt_total:
  assumes "P s"
    and "\<And>x t. x \<in> set xs \<Longrightarrow> P t \<Longrightarrow> \<exists>t'. f x t = Some t' \<and> P t'"
  shows "\<exists>s'. fold_opt f xs s = Some s' \<and> P s'"
  using assms
proof (induction xs arbitrary: s)
  case Nil
  then show ?case by simp
next
  case (Cons x xs)
  obtain t where t: "f x s = Some t" "P t" using Cons.prems by force
  have "\<exists>s'. fold_opt f xs t = Some s' \<and> P s'" by (rule Cons.IH) (use t Cons.prems in auto)
  with t show ?case by simp
qed

lemma fold_inv:
  assumes "P s"
    and "\<And>x t. x \<in> set xs \<Longrightarrow> P t \<Longrightarrow> P (f x t)"
  shows "P (fold f xs s)"
  using assms by (induction xs arbitrary: s) auto

section \<open>Words\<close>

lemma bit_255: "bit (255 :: int) n \<longleftrightarrow> n < 8"
proof -
  have "(255 :: int) = mask 8" by (simp add: mask_eq_exp_minus_1)
  then have "bit (255 :: int) n \<longleftrightarrow> bit (mask 8 :: int) n" by simp
  then show ?thesis by (simp only: bit_mask_iff possible_bit_def) simp
qed

lemma unat_byte_less [simp]: "unat (b :: 8 word) < 256"
  by (rule order.strict_trans2 [OF unsigned_less]) simp

section \<open>Maps\<close>

text \<open>Erase every entry whose value satisfies a predicate; rewrite every value.\<close>

definition map_erase :: "('v \<Rightarrow> bool) \<Rightarrow> ('k \<Rightarrow> 'v option) \<Rightarrow> ('k \<Rightarrow> 'v option)" where
  "map_erase P m = (\<lambda>k. case m k of None \<Rightarrow> None | Some v \<Rightarrow> if P v then None else Some v)"

lemma map_erase_Some [simp]:
  "map_erase P m k = Some v \<longleftrightarrow> m k = Some v \<and> \<not> P v"
  by (auto simp: map_erase_def split: option.splits)

lemma map_erase_None:
  "map_erase P m k = None \<longleftrightarrow> (\<forall>v. m k = Some v \<longrightarrow> P v)"
  by (auto simp: map_erase_def split: option.splits)

lemma map_erase_idem [simp]: "map_erase P (map_erase P m) = map_erase P m"
  by (rule ext) (simp add: map_erase_def split: option.splits)

lemma map_erase_commute: "map_erase P (map_erase Q m) = map_erase Q (map_erase P m)"
  by (rule ext) (auto simp: map_erase_def split: option.splits)

section \<open>Lists\<close>

lemma sum_list_take_Suc:
  "i < length xs \<Longrightarrow> sum_list (take (Suc i) xs) = sum_list (take i xs) + xs ! i"
  for xs :: "'a::monoid_add list"
  by (simp add: take_Suc_conv_app_nth)

lemma sum_list_nonneg_int: "\<forall>x \<in> set xs. 0 < x \<Longrightarrow> 0 \<le> sum_list xs"
  for xs :: "int list"
  by (induction xs) auto

end
