(* ===== verification/Mac_Address.thy ===== *)
theory Mac_Address
  imports Prelude
begin

unbundle bit_operations_syntax

text \<open>
  \<open>MacAddress\<close> (src/inet/src/inet/linklayer/common/MacAddress.h and .cc): a 48-bit address
  kept in the low bits of a 64-bit word. The class keeps the highest 16 bits zero; that
  class invariant is \<open>mac_valid\<close>. Reading or writing a byte with an index out of range throws.
\<close>

section \<open>Data\<close>

datatype mac_address = MacAddress (address: "64 word")

definition MAC_ADDRESS_SIZE :: nat where
  "MAC_ADDRESS_SIZE = 6"

definition MAC_ADDRESS_MASK :: "64 word" where
  "MAC_ADDRESS_MASK = 0xffffffffffff"

definition mac_of_bits :: "64 word \<Rightarrow> mac_address" where
  "mac_of_bits bits = MacAddress (bits AND MAC_ADDRESS_MASK)"

definition UNSPECIFIED_ADDRESS :: mac_address where
  "UNSPECIFIED_ADDRESS = MacAddress 0"

definition BROADCAST_ADDRESS :: mac_address where
  "BROADCAST_ADDRESS = MacAddress 0xffffffffffff"

definition STP_MULTICAST_ADDRESS :: mac_address where
  "STP_MULTICAST_ADDRESS = MacAddress 0x0180C2000000"

definition mac_valid :: "mac_address \<Rightarrow> bool" where
  "mac_valid a \<longleftrightarrow> address a AND MAC_ADDRESS_MASK = address a"

instantiation mac_address :: linorder
begin

definition less_eq_mac_address :: "mac_address \<Rightarrow> mac_address \<Rightarrow> bool" where
  "less_eq_mac_address a b \<longleftrightarrow> address a \<le> address b"

definition less_mac_address :: "mac_address \<Rightarrow> mac_address \<Rightarrow> bool" where
  "less_mac_address a b \<longleftrightarrow> address a < address b"

instance
  by standard
    (auto simp: less_eq_mac_address_def less_mac_address_def intro: mac_address.expand)

end

section \<open>Operations\<close>

definition byte_offset :: "nat \<Rightarrow> nat" where
  "byte_offset k = (MAC_ADDRESS_SIZE - k - 1) * 8"

definition getAddressByte :: "mac_address \<Rightarrow> nat \<Rightarrow> 8 word option" where
  "getAddressByte a k =
     (if k \<ge> MAC_ADDRESS_SIZE then None
      else Some (ucast (0xff AND drop_bit (byte_offset k) (address a))))"

definition setAddressByte :: "mac_address \<Rightarrow> nat \<Rightarrow> 8 word \<Rightarrow> mac_address option" where
  "setAddressByte a k addrbyte =
     (if k \<ge> MAC_ADDRESS_SIZE then None
      else Some (MacAddress
        ((address a AND NOT (push_bit (byte_offset k) 0xff))
          OR push_bit (byte_offset k) (ucast addrbyte))))"

definition isBroadcast :: "mac_address \<Rightarrow> bool" where
  "isBroadcast a \<longleftrightarrow> address a = MAC_ADDRESS_MASK"

definition isMulticast :: "mac_address \<Rightarrow> bool" where
  "isMulticast a \<longleftrightarrow>
     (case getAddressByte a 0 of None \<Rightarrow> False | Some b \<Rightarrow> b AND 0x01 \<noteq> 0)"

definition isLocal :: "mac_address \<Rightarrow> bool" where
  "isLocal a \<longleftrightarrow>
     (case getAddressByte a 0 of None \<Rightarrow> False | Some b \<Rightarrow> b AND 0x02 \<noteq> 0)"

definition isUnspecified :: "mac_address \<Rightarrow> bool" where
  "isUnspecified a \<longleftrightarrow> address a = 0"

definition compareTo :: "mac_address \<Rightarrow> mac_address \<Rightarrow> int" where
  "compareTo a other =
     (if address a < address other then -1 else if address a = address other then 0 else 1)"

text \<open>\<open>getAddressBytes\<close> and \<open>setAddressBytes\<close>: the whole address as six bytes.\<close>

definition getAddressBytes :: "mac_address \<Rightarrow> 8 word list" where
  "getAddressBytes a = map (\<lambda>i. the (getAddressByte a i)) [0..<MAC_ADDRESS_SIZE]"

definition setAddressBytes :: "8 word list \<Rightarrow> mac_address" where
  "setAddressBytes bs =
     fold (\<lambda>i a. the (setAddressByte a i (bs ! i))) [0..<MAC_ADDRESS_SIZE] (MacAddress 0)"

section \<open>Text form\<close>

definition isxdigit :: "char \<Rightarrow> bool" where
  "isxdigit c \<longleftrightarrow>
     (let n = of_char c :: nat
      in (48 \<le> n \<and> n \<le> 57) \<or> (65 \<le> n \<and> n \<le> 70) \<or> (97 \<le> n \<and> n \<le> 102))"

definition hexval :: "char \<Rightarrow> 8 word" where
  "hexval c =
     (let n = of_char c :: nat
      in if 48 \<le> n \<and> n \<le> 57 then of_nat (n - 48)
         else if 97 \<le> n \<and> n \<le> 122 then of_nat (n - 97 + 10)
         else of_nat n - 65 + 10)"

definition hexchar :: "nat \<Rightarrow> char" where
  "hexchar n = (if n < 10 then char_of (48 + n) else char_of (55 + n))"

text \<open>
  The conversion loop of \<open>tryParse\<close>. The text still to be read is the pointer \<open>s\<close>; a missing
  digit clears the byte and goes on with the next position.
\<close>

definition set_byte :: "nat \<Rightarrow> 8 word \<Rightarrow> mac_address \<Rightarrow> mac_address" where
  "set_byte pos d a = the (setAddressByte a pos d)"

fun parse_bytes :: "nat list \<Rightarrow> string \<Rightarrow> mac_address \<Rightarrow> mac_address" where
  "parse_bytes [] s a = a"
| "parse_bytes (pos # ps) s a =
     (case dropWhile (\<lambda>c. \<not> isxdigit c) s of
        [] \<Rightarrow> parse_bytes ps [] (set_byte pos 0 a)
      | c # s1 \<Rightarrow>
          (case dropWhile (\<lambda>c. \<not> isxdigit c) s1 of
             [] \<Rightarrow> parse_bytes ps [] (set_byte pos 0 a)
           | c' # s2 \<Rightarrow>
               parse_bytes ps s2 (set_byte pos (push_bit 4 (hexval c) + hexval c') a)))"

definition syntax_ok :: "string \<Rightarrow> bool" where
  "syntax_ok s \<longleftrightarrow>
     list_all (\<lambda>c. isxdigit c \<or> c = CHR '' '' \<or> c = CHR '':'' \<or> c = CHR ''-'') s
     \<and> length (filter isxdigit s) = 2 * MAC_ADDRESS_SIZE"

definition tryParse :: "mac_address \<Rightarrow> string \<Rightarrow> bool \<times> mac_address" where
  "tryParse a hexstr =
     (if \<not> syntax_ok hexstr then (False, a)
      else (True, parse_bytes [0..<MAC_ADDRESS_SIZE] hexstr (MacAddress 0)))"

definition setAddress :: "mac_address \<Rightarrow> string \<Rightarrow> mac_address option" where
  "setAddress a hexstr =
     (case tryParse a hexstr of (ok, a') \<Rightarrow> if ok then Some a' else None)"

definition hex_byte :: "8 word \<Rightarrow> string" where
  "hex_byte b = [hexchar (unat b div 16), hexchar (unat b mod 16)]"

definition mac_str :: "mac_address \<Rightarrow> string" where
  "mac_str a =
     butlast (concat (map (\<lambda>i. hex_byte (the (getAddressByte a i)) @ ''-'') [0..<MAC_ADDRESS_SIZE]))"

text \<open>
  \<open>formInterfaceIdentifier\<close>: the EUI-64 identifier as its high and low 32-bit halves, with the
  universal/local bit flipped.
\<close>

definition formInterfaceIdentifier :: "mac_address \<Rightarrow> 32 word \<times> 32 word" where
  "formInterfaceIdentifier a =
     (let high = ucast ((drop_bit 16 (address a) OR 0xff) XOR 0x02000000) :: 32 word;
          low = ucast (push_bit 24 (0xfe :: 64 word) OR (address a AND 0xffffff)) :: 32 word
      in (low, high))"

section \<open>Byte access\<close>

lemma getAddressByte_some [simp]:
  "k < MAC_ADDRESS_SIZE \<Longrightarrow> getAddressByte a k = Some (ucast (drop_bit (byte_offset k) (address a)))"
  by (auto simp: getAddressByte_def bit_255 bit_simps intro!: bit_word_eqI)

lemma set_byte_address:
  "k < MAC_ADDRESS_SIZE \<Longrightarrow> address (set_byte k b a) =
     (address a AND NOT (push_bit (byte_offset k) 0xff)) OR push_bit (byte_offset k) (ucast b)"
  by (simp add: set_byte_def setAddressByte_def)

lemma bit_getAddressByte:
  assumes "k < MAC_ADDRESS_SIZE"
  shows "bit (the (getAddressByte a k)) n \<longleftrightarrow> n < 8 \<and> bit (address a) (byte_offset k + n)"
  using assms by (simp add: bit_simps)

lemma bit_set_byte:
  assumes "k < MAC_ADDRESS_SIZE"
  shows "bit (address (set_byte k b a)) n \<longleftrightarrow>
    (if byte_offset k \<le> n \<and> n < byte_offset k + 8 then bit b (n - byte_offset k)
     else bit (address a) n)"
proof -
  have "byte_offset k + 8 \<le> 48"
    using assms by (auto simp: byte_offset_def MAC_ADDRESS_SIZE_def)
  then show ?thesis
    using assms
    by (auto simp: set_byte_address bit_simps bit_255 dest: bit_imp_le_length)
qed

lemma byte_offset_disjoint:
  assumes "j < MAC_ADDRESS_SIZE" "k < MAC_ADDRESS_SIZE" "j \<noteq> k" "n < 8"
  shows "\<not> (byte_offset j \<le> byte_offset k + n \<and> byte_offset k + n < byte_offset j + 8)"
  using assms by (auto simp: byte_offset_def MAC_ADDRESS_SIZE_def)

text \<open>Reading back a byte after writing one: the written byte, or the old one elsewhere.\<close>

lemma get_set_byte:
  assumes "j < MAC_ADDRESS_SIZE" "k < MAC_ADDRESS_SIZE"
  shows "the (getAddressByte (set_byte k b a) j) =
    (if j = k then b else the (getAddressByte a j))"
proof (rule bit_word_eqI)
  fix n assume n: "n < LENGTH(8)"
  show "bit (the (getAddressByte (set_byte k b a) j)) n =
    bit (if j = k then b else the (getAddressByte a j)) n"
    using assms n byte_offset_disjoint[of k j n]
    by (auto simp: bit_getAddressByte bit_set_byte simp del: getAddressByte_some)
qed

lemma mac_valid_bits: "mac_valid a \<longleftrightarrow> (\<forall>n \<ge> 48. \<not> bit (address a) n)"
proof -
  have m: "MAC_ADDRESS_MASK = mask 48"
    by (simp add: MAC_ADDRESS_MASK_def mask_eq_exp_minus_1)
  have "mac_valid a \<longleftrightarrow> (\<forall>n < 64. bit (address a) n \<longrightarrow> n < 48)"
    unfolding mac_valid_def m by (auto simp: bit_eq_iff bit_simps)
  also have "\<dots> \<longleftrightarrow> (\<forall>n \<ge> 48. \<not> bit (address a) n)"
    using bit_imp_le_length[of "address a"] by (simp add: linorder_not_less [symmetric]) blast
  finally show ?thesis .
qed

lemma mac_valid_set_byte [inv_intros]:
  assumes "mac_valid a" "k < MAC_ADDRESS_SIZE"
  shows "mac_valid (set_byte k b a)"
proof -
  have "byte_offset k + 8 \<le> 48"
    using assms(2) by (auto simp: byte_offset_def MAC_ADDRESS_SIZE_def)
  then show ?thesis
    using assms by (auto simp: mac_valid_bits bit_set_byte)
qed

lemma mac_valid_of_bits [simp]: "mac_valid (mac_of_bits w)"
  by (simp add: mac_valid_def mac_of_bits_def word_bw_assocs)

lemma mac_valid_0 [simp]: "mac_valid (MacAddress 0)"
  by (simp add: mac_valid_def)

text \<open>Two valid addresses with the same six bytes are equal.\<close>

lemma mac_eqI:
  assumes "mac_valid a" "mac_valid b"
    and bytes: "\<And>k. k < MAC_ADDRESS_SIZE \<Longrightarrow> the (getAddressByte a k) = the (getAddressByte b k)"
  shows "a = b"
proof (rule mac_address.expand, rule bit_word_eqI)
  fix n assume "n < LENGTH(64)"
  show "bit (address a) n = bit (address b) n"
  proof (cases "n < 48")
    case False
    then show ?thesis using assms(1,2) by (simp add: mac_valid_bits)
  next
    case True
    define k where "k = 5 - n div 8"
    have k: "k < MAC_ADDRESS_SIZE" by (simp add: k_def MAC_ADDRESS_SIZE_def)
    have off: "byte_offset k + n mod 8 = n"
    proof -
      have "n div 8 \<le> 5" using True by simp
      then have "byte_offset k = n div 8 * 8"
        by (simp add: byte_offset_def k_def MAC_ADDRESS_SIZE_def)
      then show ?thesis by simp
    qed
    from bytes[OF k] have "bit (the (getAddressByte a k)) (n mod 8) = bit (the (getAddressByte b k)) (n mod 8)"
      by simp
    then show ?thesis using k off by (simp add: bit_getAddressByte del: getAddressByte_some)
  qed
qed

lemma mac_size_upt: "[0..<MAC_ADDRESS_SIZE] = [0, 1, 2, 3, 4, 5]"
  by (simp add: MAC_ADDRESS_SIZE_def upt_rec)

lemma less_mac_size: "k < MAC_ADDRESS_SIZE \<longleftrightarrow> k \<in> {0, 1, 2, 3, 4, 5}"
  by (auto simp: MAC_ADDRESS_SIZE_def)

section \<open>Text form\<close>

lemma isxdigit_hexchar: "n < 16 \<Longrightarrow> isxdigit (hexchar n)"
  by (auto simp: isxdigit_def hexchar_def of_char_of)

lemma hexval_hexchar: "n < 16 \<Longrightarrow> hexval (hexchar n) = of_nat n"
  by (auto simp: hexval_def hexchar_def of_char_of word_of_nat_eq_iff)

lemma hex_byte_value:
  "push_bit 4 (of_nat (unat b div 16)) + of_nat (unat b mod 16) = b" for b :: "8 word"
proof -
  have "push_bit 4 (of_nat (unat b div 16)) + of_nat (unat b mod 16)
      = (of_nat (unat b div 16 * 16 + unat b mod 16) :: 8 word)"
    by (simp only: push_bit_eq_mult of_nat_add of_nat_mult) simp
  then show ?thesis by (simp only: div_mult_mod_eq) simp
qed

lemma hex_pair_value:
  "push_bit 4 (hexval (hexchar (unat b div 16))) + hexval (hexchar (unat b mod 16)) = b"
  for b :: "8 word"
proof -
  have "unat b < 256" by simp
  then have "unat b div 16 < 16" by linarith
  then show ?thesis by (simp add: hexval_hexchar hex_byte_value del: of_nat_mod of_nat_div)
qed

text \<open>What a chain of byte writes leaves in a byte position.\<close>

lemma set_bytes_eq:
  assumes "mac_valid a"
  shows "set_byte 5 (the (getAddressByte a 5)) (set_byte 4 (the (getAddressByte a 4))
    (set_byte 3 (the (getAddressByte a 3)) (set_byte 2 (the (getAddressByte a 2))
    (set_byte 1 (the (getAddressByte a 1)) (set_byte 0 (the (getAddressByte a 0))
      (MacAddress 0)))))) = a"
  by (rule mac_eqI)
    (auto simp: get_set_byte less_mac_size assms simp del: getAddressByte_some
      intro!: mac_valid_set_byte)

lemma parse_hex_byte:
  assumes "filter isxdigit sep = []"
  shows "parse_bytes (p # ps) (sep @ hex_byte b @ s) a = parse_bytes ps s (set_byte p b a)"
proof -
  have lt: "unat b < 256" by simp
  then have "unat b div 16 < 16" by linarith
  then have x: "isxdigit (hexchar (unat b div 16))" "isxdigit (hexchar (unat b mod 16))"
    by (simp_all add: isxdigit_hexchar)
  have d: "dropWhile (\<lambda>c. \<not> isxdigit c) (sep @ hex_byte b @ s) = hex_byte b @ s"
    using assms x(1) by (induction sep) (auto simp: hex_byte_def split: if_splits)
  show ?thesis
    unfolding parse_bytes.simps d using x by (simp add: hex_byte_def hex_pair_value)
qed

lemma not_isxdigit_dash [simp]: "\<not> isxdigit (CHR ''-'')"
  by (simp add: isxdigit_def)

lemma isxdigit_hex_byte [simp]: "c \<in> set (hex_byte b) \<Longrightarrow> isxdigit c"
proof -
  assume c: "c \<in> set (hex_byte b)"
  have "unat b < 256" by simp
  then have "unat b div 16 < 16" by linarith
  with c show ?thesis by (auto simp: hex_byte_def isxdigit_hexchar)
qed

lemma filter_hex_byte [simp]: "filter isxdigit (hex_byte b) = hex_byte b"
  by (simp add: filter_id_conv)

lemma length_hex_byte [simp]: "length (hex_byte b) = 2"
  by (simp add: hex_byte_def)

lemma mac_str_unfold:
  "mac_str a = hex_byte (the (getAddressByte a 0)) @ ''-'' @ hex_byte (the (getAddressByte a 1))
    @ ''-'' @ hex_byte (the (getAddressByte a 2)) @ ''-'' @ hex_byte (the (getAddressByte a 3))
    @ ''-'' @ hex_byte (the (getAddressByte a 4)) @ ''-'' @ hex_byte (the (getAddressByte a 5))"
  by (simp add: mac_str_def mac_size_upt butlast_append del: getAddressByte_some)

lemma syntax_ok_mac_str: "syntax_ok (mac_str a)"
  by (auto simp: syntax_ok_def mac_str_unfold list_all_iff MAC_ADDRESS_SIZE_def
      simp del: getAddressByte_some)

lemma parse_mac_str:
  assumes "mac_valid a"
  shows "parse_bytes [0..<MAC_ADDRESS_SIZE] (mac_str a) (MacAddress 0) = a"
proof -
  let ?b = "\<lambda>i. the (getAddressByte a i)"
  have h1: "parse_bytes (p # ps) (hex_byte b @ s) x = parse_bytes ps s (set_byte p b x)"
    and h2: "parse_bytes (p # ps) (''-'' @ hex_byte b @ s) x = parse_bytes ps s (set_byte p b x)"
    and h3: "parse_bytes (p # ps) (''-'' @ hex_byte b) x = parse_bytes ps [] (set_byte p b x)"
    for p ps b s x
    using parse_hex_byte[of "[]" p ps b s x] parse_hex_byte[of "''-''" p ps b s x]
      parse_hex_byte[of "''-''" p ps b "[]" x] by simp_all
  have "parse_bytes [0, 1, 2, 3, 4, 5] (mac_str a) (MacAddress 0)
    = set_byte 5 (?b 5) (set_byte 4 (?b 4) (set_byte 3 (?b 3) (set_byte 2 (?b 2)
        (set_byte 1 (?b 1) (set_byte 0 (?b 0) (MacAddress 0))))))"
    unfolding mac_str_unfold
    by (simp only: h1 h2 h3 parse_bytes.simps(1))
  then show ?thesis
    unfolding mac_size_upt by (simp only: set_bytes_eq [OF assms])
qed

lemma tryParse_mac_str: "mac_valid a \<Longrightarrow> tryParse a0 (mac_str a) = (True, a)"
  by (simp add: tryParse_def syntax_ok_mac_str parse_mac_str)

lemma mac_valid_parse_bytes:
  "mac_valid a \<Longrightarrow> set ps \<subseteq> {..<MAC_ADDRESS_SIZE} \<Longrightarrow> mac_valid (parse_bytes ps s a)"
  by (induction ps s a rule: parse_bytes.induct)
    (simp_all add: mac_valid_set_byte split: list.splits)

lemma mac_valid_tryParse [inv_intros]:
  "mac_valid a \<Longrightarrow> mac_valid (snd (tryParse a s))"
  by (auto simp: tryParse_def intro!: mac_valid_parse_bytes)

section \<open>Predicates and order\<close>

lemma isMulticast_bit: "isMulticast a \<longleftrightarrow> bit (address a) 40"
proof -
  have "(1 :: 8 word) = mask 1" by simp
  then show ?thesis
    by (simp add: isMulticast_def MAC_ADDRESS_SIZE_def byte_offset_def
        and_one_eq odd_iff_mod_2_eq_one [symmetric] bit_simps even_drop_bit_iff_not_bit
        flip: bit_0)
qed

lemma isMulticast_broadcast [simp]: "isBroadcast a \<Longrightarrow> isMulticast a"
  by (simp add: isMulticast_bit isBroadcast_def MAC_ADDRESS_MASK_def)

lemma compareTo_simps:
  "compareTo a b = 0 \<longleftrightarrow> a = b"
  "compareTo a b < 0 \<longleftrightarrow> a < b"
  "compareTo a b > 0 \<longleftrightarrow> b < a"
  by (auto simp: compareTo_def less_mac_address_def intro: mac_address.expand)

lemma compareTo_swap: "compareTo b a = - compareTo a b"
  by (auto simp: compareTo_def)

text \<open>
  Printing an address and parsing the text gives the address back, whatever value the
  parsed object held before: \<open>tryParse\<close> accepts the output of \<open>str\<close> for every 48-bit address.
\<close>

theorem mac_str_parse_roundtrip:
  assumes "mac_valid a"
  shows "tryParse old (mac_str a) = (True, a) \<and> setAddress old (mac_str a) = Some a"
  using assms by (simp add: setAddress_def tryParse_mac_str)

theorem mac_str_parse_roundtrip_witness:
  "tryParse UNSPECIFIED_ADDRESS (mac_str STP_MULTICAST_ADDRESS) = (True, STP_MULTICAST_ADDRESS)
    \<and> setAddress UNSPECIFIED_ADDRESS (mac_str STP_MULTICAST_ADDRESS) = Some STP_MULTICAST_ADDRESS"
  by (rule mac_str_parse_roundtrip)
    (simp add: mac_valid_def STP_MULTICAST_ADDRESS_def MAC_ADDRESS_MASK_def)

end
