(* ===== verification/Forwarding_Table.thy ===== *)
theory Forwarding_Table
  imports Mac_Address
begin

text \<open>
  \<open>MacForwardingTable\<close> (src/inet/src/inet/linklayer/ethernet/common/MacForwardingTable.cc and
  .h): the filtering database of a bridge. An entry maps a VLAN id and a unicast address to an
  interface id and the time it was learned; entries older than the ageing time are ignored and
  purged; multicast addresses map to a list of interface ids.

  The locale \<open>filtering_db\<close> is the interface (\<open>IMacForwardingTable\<close>) the relay and the spanning
  tree protocols rely on; it is interpreted on the table model at the end of the theory.
\<close>

section \<open>State\<close>

type_synonym vlan = nat
type_synonym ft_key = "vlan \<times> mac_address"

record address_entry =
  ae_interfaceId :: int
  ae_insertionTime :: simtime

record mac_table =
  agingTime :: simtime
  lastPurge :: simtime
  forwardingTable :: "ft_key \<Rightarrow> address_entry option"
  multicastForwardingTable :: "ft_key \<Rightarrow> int list option"

text \<open>\<open>SimTime::getMaxTime()\<close>, and one second in the raw unit (picoseconds).\<close>

definition simtime_max :: simtime where
  "simtime_max = 2 ^ 63 - 1"

definition SECOND :: simtime where
  "SECOND = 10 ^ 12"

definition address_entry :: "int \<Rightarrow> simtime \<Rightarrow> address_entry" where
  "address_entry i t = \<lparr>ae_interfaceId = i, ae_insertionTime = t\<rparr>"

definition init_table :: "simtime \<Rightarrow> mac_table" where
  "init_table aging = \<lparr>agingTime = aging, lastPurge = 0,
     forwardingTable = Map.empty, multicastForwardingTable = Map.empty\<rparr>"

section \<open>Ageing\<close>

definition aged :: "simtime \<Rightarrow> mac_table \<Rightarrow> address_entry \<Rightarrow> bool" where
  "aged now tab e \<longleftrightarrow> ae_insertionTime e \<le> now - agingTime tab"

definition removeAgedEntriesFromAllVlans :: "simtime \<Rightarrow> mac_table \<Rightarrow> mac_table" where
  "removeAgedEntriesFromAllVlans now tab =
     tab\<lparr>forwardingTable := map_erase (aged now tab) (forwardingTable tab)\<rparr>"

definition removeAgedEntriesIfNeeded :: "simtime \<Rightarrow> mac_table \<Rightarrow> mac_table" where
  "removeAgedEntriesIfNeeded now tab =
     (let tab' = (if now \<ge> lastPurge tab + SECOND then removeAgedEntriesFromAllVlans now tab else tab)
      in tab'\<lparr>lastPurge := now\<rparr>)"

section \<open>Unicast entries\<close>

text \<open>The lookup itself, after the \<open>ASSERT\<close>; -1 stands for no interface.\<close>

definition find_interface :: "simtime \<Rightarrow> mac_table \<Rightarrow> ft_key \<Rightarrow> int" where
  "find_interface now tab key =
     (case forwardingTable tab key of
        None \<Rightarrow> -1
      | Some e \<Rightarrow> if ae_insertionTime e \<le> now - agingTime tab then -1 else ae_interfaceId e)"

definition getUnicastAddressForwardingInterface ::
    "simtime \<Rightarrow> mac_table \<Rightarrow> mac_address \<Rightarrow> vlan \<Rightarrow> int option" where
  "getUnicastAddressForwardingInterface now tab a vid =
     do { ensure (\<not> isMulticast a); Some (find_interface now tab (vid, a)) }"

definition setUnicastAddressForwardingInterface ::
    "int \<Rightarrow> mac_address \<Rightarrow> vlan \<Rightarrow> mac_table \<Rightarrow> mac_table option" where
  "setUnicastAddressForwardingInterface i a vid tab =
     do {
       ensure (\<not> isMulticast a);
       Some (case forwardingTable tab (vid, a) of
               None \<Rightarrow>
                 tab\<lparr>forwardingTable := (forwardingTable tab)((vid, a) \<mapsto> address_entry i (- SECOND))\<rparr>
             | Some e \<Rightarrow>
                 tab\<lparr>forwardingTable := (forwardingTable tab)
                   ((vid, a) \<mapsto> address_entry i simtime_max)\<rparr>)
     }"

definition removeUnicastAddressForwardingInterface ::
    "int \<Rightarrow> mac_address \<Rightarrow> vlan \<Rightarrow> mac_table \<Rightarrow> mac_table option" where
  "removeUnicastAddressForwardingInterface i a vid tab =
     do {
       ensure (\<not> isMulticast a);
       ensure (forwardingTable tab (vid, a) \<noteq> None);
       Some (tab\<lparr>forwardingTable := (forwardingTable tab)((vid, a) := None)\<rparr>)
     }"

definition learn_entry :: "simtime \<Rightarrow> int \<Rightarrow> ft_key \<Rightarrow> mac_table \<Rightarrow> mac_table" where
  "learn_entry now i key tab0 =
     (let tab = removeAgedEntriesIfNeeded now tab0 in
      case forwardingTable tab key of
        None \<Rightarrow> tab\<lparr>forwardingTable := (forwardingTable tab)(key \<mapsto> address_entry i now)\<rparr>
      | Some e \<Rightarrow>
          if ae_insertionTime e \<noteq> simtime_max
          then tab\<lparr>forwardingTable := (forwardingTable tab)(key \<mapsto> address_entry i now)\<rparr>
          else tab)"

definition learnUnicastAddressForwardingInterface ::
    "simtime \<Rightarrow> int \<Rightarrow> mac_address \<Rightarrow> vlan \<Rightarrow> mac_table \<Rightarrow> mac_table option" where
  "learnUnicastAddressForwardingInterface now i a vid tab =
     do { ensure (\<not> isMulticast a); Some (learn_entry now i (vid, a) tab) }"

section \<open>Multicast entries\<close>

definition getMulticastAddressForwardingInterfaces ::
    "mac_table \<Rightarrow> mac_address \<Rightarrow> vlan \<Rightarrow> int list option" where
  "getMulticastAddressForwardingInterfaces tab a vid =
     do {
       ensure (isMulticast a);
       Some (case multicastForwardingTable tab (vid, a) of None \<Rightarrow> [] | Some ids \<Rightarrow> ids)
     }"

definition addMulticastAddressForwardingInterface ::
    "int \<Rightarrow> mac_address \<Rightarrow> vlan \<Rightarrow> mac_table \<Rightarrow> mac_table option" where
  "addMulticastAddressForwardingInterface i a vid tab =
     do {
       ensure (isMulticast a);
       (case multicastForwardingTable tab (vid, a) of
          None \<Rightarrow> Some (tab\<lparr>multicastForwardingTable :=
            (multicastForwardingTable tab)((vid, a) \<mapsto> [i])\<rparr>)
        | Some ids \<Rightarrow>
            do {
              ensure (i \<notin> set ids);
              Some (tab\<lparr>multicastForwardingTable :=
                (multicastForwardingTable tab)((vid, a) \<mapsto> ids @ [i])\<rparr>)
            })
     }"

text \<open>
  The guard is the source's: it throws "Cannot find interface" when the interface IS in the
  list. \<open>remove\<close> of stlutils erases every occurrence.
\<close>

definition removeMulticastAddressForwardingInterface ::
    "int \<Rightarrow> mac_address \<Rightarrow> vlan \<Rightarrow> mac_table \<Rightarrow> mac_table option" where
  "removeMulticastAddressForwardingInterface i a vid tab =
     do {
       ensure (isMulticast a);
       ids \<leftarrow> multicastForwardingTable tab (vid, a);
       ensure (\<not> i \<in> set ids);
       Some (tab\<lparr>multicastForwardingTable :=
         (multicastForwardingTable tab)((vid, a) \<mapsto> removeAll i ids)\<rparr>)
     }"

section \<open>Topology changes and configuration\<close>

definition removeForwardingInterface :: "int \<Rightarrow> mac_table \<Rightarrow> mac_table" where
  "removeForwardingInterface i tab =
     tab\<lparr>forwardingTable := map_erase (\<lambda>e. ae_interfaceId e = i) (forwardingTable tab)\<rparr>"

definition replaceForwardingInterface :: "int \<Rightarrow> int \<Rightarrow> mac_table \<Rightarrow> mac_table" where
  "replaceForwardingInterface oldId newId tab =
     tab\<lparr>forwardingTable := (\<lambda>k. map_option
       (\<lambda>e. if ae_interfaceId e = oldId then e\<lparr>ae_interfaceId := newId\<rparr> else e)
       (forwardingTable tab k))\<rparr>"

definition clearTable :: "mac_table \<Rightarrow> mac_table" where
  "clearTable tab =
     tab\<lparr>forwardingTable := Map.empty, multicastForwardingTable := Map.empty\<rparr>"

text \<open>\<open>setAgingTime\<close>: -1 restores the module parameter.\<close>

definition setAgingTime :: "simtime \<Rightarrow> simtime \<Rightarrow> mac_table \<Rightarrow> mac_table" where
  "setAgingTime par_agingTime t tab = tab\<lparr>agingTime := (if t = -1 then par_agingTime else t)\<rparr>"

text \<open>
  \<open>parseForwardingTableParameter\<close>: one entry of the configuration at a time. The address
  resolver and the interface table are arguments; the VLAN defaults to 0.
\<close>

record ft_config =
  fc_vlan :: "vlan option"
  fc_address :: string
  fc_interface :: string

definition parse_entry ::
    "(string \<Rightarrow> mac_address option) \<Rightarrow> (string \<Rightarrow> int option) \<Rightarrow> ft_config \<Rightarrow> mac_table \<Rightarrow>
     mac_table option" where
  "parse_entry resolve ifByName entry tab =
     do {
       let vid = (case fc_vlan entry of None \<Rightarrow> 0 | Some v \<Rightarrow> v);
       a \<leftarrow> resolve (fc_address entry);
       i \<leftarrow> ifByName (fc_interface entry);
       (if isMulticast a then addMulticastAddressForwardingInterface i a vid tab
        else do {
          ensure (forwardingTable tab (vid, a) = None);
          setUnicastAddressForwardingInterface i a vid tab
        })
     }"

definition parseForwardingTableParameter ::
    "(string \<Rightarrow> mac_address option) \<Rightarrow> (string \<Rightarrow> int option) \<Rightarrow> ft_config list \<Rightarrow> mac_table \<Rightarrow>
     mac_table option" where
  "parseForwardingTableParameter resolve ifByName entries tab =
     fold_opt (parse_entry resolve ifByName) entries tab"

section \<open>The interface of a filtering database\<close>

text \<open>
  What the bridge relay and the spanning tree protocols rely on: a learned address is found
  until it ages, learning does not disturb other addresses, flushing an interface hides exactly
  its addresses, and moving the addresses of an interface to another one.
\<close>

locale filtering_db =
  fixes lookup :: "simtime \<Rightarrow> 't \<Rightarrow> 'k \<Rightarrow> int"
    and learn :: "simtime \<Rightarrow> int \<Rightarrow> 'k \<Rightarrow> 't \<Rightarrow> 't"
    and flush :: "int \<Rightarrow> 't \<Rightarrow> 't"
    and move :: "int \<Rightarrow> int \<Rightarrow> 't \<Rightarrow> 't"
    and aging :: "'t \<Rightarrow> simtime"
    and static :: "'t \<Rightarrow> 'k \<Rightarrow> bool"
  assumes lookup_learn:
      "\<not> static t k \<Longrightarrow> now \<le> later \<Longrightarrow>
       lookup later (learn now i k t) k = (if later < now + aging t then i else -1)"
    and lookup_learn_other:
      "k' \<noteq> k \<Longrightarrow> now \<le> later \<Longrightarrow> lookup later (learn now i k t) k' = lookup later t k'"
    and static_learn: "static t k' \<Longrightarrow> now < simtime_max \<Longrightarrow> 0 < aging t \<Longrightarrow> static (learn now i k t) k'"
    and dynamic_learn: "\<not> static t k \<Longrightarrow> now < simtime_max \<Longrightarrow> \<not> static (learn now i k t) k"
    and lookup_flush: "lookup now (flush i t) k = (if lookup now t k = i then -1 else lookup now t k)"
    and lookup_move:
      "i \<noteq> -1 \<Longrightarrow> lookup now (move i j t) k = (if lookup now t k = i then j else lookup now t k)"
    and aging_learn [simp]: "aging (learn now i k t) = aging t"
    and aging_flush [simp]: "aging (flush i t) = aging t"
    and aging_move [simp]: "aging (move i j t) = aging t"
begin

text \<open>A flushed interface is no longer the answer of any lookup, whatever was flushed before.\<close>

lemma flush_hides: "i \<noteq> -1 \<Longrightarrow> lookup now (flush i t) k \<noteq> i"
  by (simp add: lookup_flush)

lemma flush_all_hides:
  assumes "i \<in> set ids" "i \<noteq> -1"
  shows "lookup now (fold flush ids t) k \<noteq> i"
proof -
  have "lookup now (fold flush ids t) k = (if lookup now t k \<in> set ids then -1 else lookup now t k)"
    by (induction ids arbitrary: t) (auto simp: lookup_flush)
  with assms show ?thesis by auto
qed

lemma move_hides: "i \<noteq> -1 \<Longrightarrow> i \<noteq> j \<Longrightarrow> lookup now (move i j t) k \<noteq> i"
  by (simp add: lookup_move)

text \<open>A station that moves: the last interface it was heard on wins.\<close>

lemma relearn:
  assumes "\<not> static t k" "now \<le> now'" "now' \<le> later" "now < simtime_max"
  shows "lookup later (learn now' j k (learn now i k t)) k = (if later < now' + aging t then j else -1)"
  using assms dynamic_learn[of t k now i] by (simp add: lookup_learn)

lemma learn_then_flush_others:
  assumes "\<not> static t k" "now \<le> later" "later < now + aging t" "i \<notin> set ids"
  shows "lookup later (fold flush ids (learn now i k t)) k = i"
  using assms
proof (induction ids rule: rev_induct)
  case Nil
  then show ?case by (simp add: lookup_learn)
next
  case (snoc x xs)
  then show ?case by (auto simp: lookup_flush)
qed

end

section \<open>The table implements the interface\<close>

definition is_static :: "mac_table \<Rightarrow> ft_key \<Rightarrow> bool" where
  "is_static tab key \<longleftrightarrow>
     (\<exists>e. forwardingTable tab key = Some e \<and> ae_insertionTime e = simtime_max)"

lemma address_entry_simps [simp]:
  "ae_interfaceId (address_entry i t) = i"
  "ae_insertionTime (address_entry i t) = t"
  by (simp_all add: address_entry_def)

lemma find_interface_purged:
  "forwardingTable (removeAgedEntriesIfNeeded now tab) k =
     (if lastPurge tab + SECOND \<le> now then map_erase (aged now tab) (forwardingTable tab) k
      else forwardingTable tab k)"
  by (simp add: removeAgedEntriesIfNeeded_def removeAgedEntriesFromAllVlans_def Let_def)

lemma agingTime_purged [simp]: "agingTime (removeAgedEntriesIfNeeded now tab) = agingTime tab"
  by (simp add: removeAgedEntriesIfNeeded_def removeAgedEntriesFromAllVlans_def Let_def)

text \<open>Purging never changes the answer of a later lookup: it drops only entries already ignored.\<close>

lemma find_interface_after_purge:
  "now \<le> later \<Longrightarrow>
   find_interface later (removeAgedEntriesIfNeeded now tab) k = find_interface later tab k"
  by (auto simp: find_interface_def find_interface_purged map_erase_def aged_def
      split: option.splits)

lemma agingTime_learn [simp]: "agingTime (learn_entry now i k tab) = agingTime tab"
  by (simp add: learn_entry_def Let_def split: option.splits)

lemma agingTime_remove [simp]: "agingTime (removeForwardingInterface i tab) = agingTime tab"
  by (simp add: removeForwardingInterface_def)

lemma agingTime_replace [simp]: "agingTime (replaceForwardingInterface i j tab) = agingTime tab"
  by (simp add: replaceForwardingInterface_def)

lemma forwardingTable_learn_other:
  "k' \<noteq> k \<Longrightarrow> forwardingTable (learn_entry now i k tab) k' =
     forwardingTable (removeAgedEntriesIfNeeded now tab) k'"
  by (simp add: learn_entry_def Let_def split: option.splits)

lemma find_interface_cong:
  "forwardingTable t k = forwardingTable t' k \<Longrightarrow> agingTime t = agingTime t' \<Longrightarrow>
   find_interface now t k = find_interface now t' k"
  by (simp add: find_interface_def split: option.split)

lemma find_learn_other:
  assumes "k' \<noteq> k" "now \<le> later"
  shows "find_interface later (learn_entry now i k tab) k' = find_interface later tab k'"
proof -
  have "find_interface later (learn_entry now i k tab) k' =
    find_interface later (removeAgedEntriesIfNeeded now tab) k'"
    using assms(1) by (intro find_interface_cong) (simp_all add: forwardingTable_learn_other)
  then show ?thesis using assms(2) by (simp add: find_interface_after_purge)
qed

lemma not_static_purged:
  "\<not> is_static tab k \<Longrightarrow> forwardingTable (removeAgedEntriesIfNeeded now tab) k = Some e \<Longrightarrow>
   ae_insertionTime e \<noteq> simtime_max"
  by (auto simp: is_static_def find_interface_purged split: if_splits)

lemma forwardingTable_learn:
  assumes "\<not> is_static tab k"
  shows "forwardingTable (learn_entry now i k tab) k = Some (address_entry i now)"
  using not_static_purged[OF assms, of now]
  by (auto simp: learn_entry_def Let_def split: option.splits)

lemma find_learn:
  "\<not> is_static tab k \<Longrightarrow> now \<le> later \<Longrightarrow>
   find_interface later (learn_entry now i k tab) k = (if later < now + agingTime tab then i else -1)"
  by (simp add: find_interface_def forwardingTable_learn)

lemma static_learn_keep:
  assumes "is_static tab k'" "now < simtime_max" "0 < agingTime tab"
  shows "forwardingTable (learn_entry now i k tab) k' = forwardingTable tab k'"
proof -
  from assms(1) obtain e where e: "forwardingTable tab k' = Some e" "ae_insertionTime e = simtime_max"
    by (auto simp: is_static_def)
  have p: "forwardingTable (removeAgedEntriesIfNeeded now tab) k' = Some e"
    using e assms(2,3) by (auto simp: find_interface_purged aged_def)
  show ?thesis
  proof (cases "k' = k")
    case True
    with p e show ?thesis by (simp add: learn_entry_def Let_def)
  next
    case False
    with p e show ?thesis by (simp add: forwardingTable_learn_other)
  qed
qed

lemma find_remove:
  "find_interface now (removeForwardingInterface i tab) k =
     (if find_interface now tab k = i then -1 else find_interface now tab k)"
  by (auto simp: find_interface_def removeForwardingInterface_def map_erase_def
      split: option.splits)

lemma find_replace:
  "i \<noteq> -1 \<Longrightarrow> find_interface now (replaceForwardingInterface i j tab) k =
     (if find_interface now tab k = i then j else find_interface now tab k)"
  by (auto simp: find_interface_def replaceForwardingInterface_def split: option.splits)

interpretation mac_db: filtering_db find_interface learn_entry removeForwardingInterface
  replaceForwardingInterface agingTime is_static
proof (unfold_locales, goal_cases)
  case (3 t k' now i k)
  then show ?case using static_learn_keep[of t k' now i k] by (simp add: is_static_def)
next
  case (4 t k now i)
  then show ?case using forwardingTable_learn[of t k now i] by (simp add: is_static_def)
qed (simp_all add: find_learn find_learn_other find_remove find_replace)

section \<open>Properties\<close>

text \<open>
  A dynamically learned address is answered with the interface it was learned on until it
  is \<open>agingTime\<close> old, and with no interface (-1) from then on; if the station is heard again
  on another interface the new interface is answered. All other addresses and VLANs keep their
  answers.
\<close>

theorem learned_address_lookup:
  assumes "\<not> isMulticast a"
    and "\<not> is_static tab (vid, a)"
    and "now \<le> now'" and "now' \<le> later" and "now < simtime_max"
    and "learnUnicastAddressForwardingInterface now i a vid tab = Some tab1"
    and "learnUnicastAddressForwardingInterface now' j a vid tab1 = Some tab2"
  shows "getUnicastAddressForwardingInterface later tab1 a vid =
      Some (if later < now + agingTime tab then i else -1)
    \<and> getUnicastAddressForwardingInterface later tab2 a vid =
      Some (if later < now' + agingTime tab then j else -1)
    \<and> (\<forall>vid' b. (vid', b) \<noteq> (vid, a) \<longrightarrow>
         getUnicastAddressForwardingInterface later tab2 b vid' =
         getUnicastAddressForwardingInterface later tab b vid')"
  using assms mac_db.relearn[of tab "(vid, a)" now now' later j i]
  by (auto simp: learnUnicastAddressForwardingInterface_def
      getUnicastAddressForwardingInterface_def find_learn find_learn_other)

theorem learned_address_lookup_witness:
  "getUnicastAddressForwardingInterface 125
     (learn_entry 3 7 (0, MacAddress 10) (init_table 120)) (MacAddress 10) 0 = Some (-1)
   \<and> getUnicastAddressForwardingInterface 125 (learn_entry 100 9 (0, MacAddress 10)
       (learn_entry 3 7 (0, MacAddress 10) (init_table 120))) (MacAddress 10) 0 = Some 9"
proof -
  let ?a = "MacAddress 10" and ?t = "init_table 120"
  have m: "\<not> isMulticast ?a" by (simp add: isMulticast_bit)
  have s: "\<not> is_static ?t (0, ?a)" by (simp add: is_static_def init_table_def)
  show ?thesis
    using learned_address_lookup [OF m s, of 3 100 125 7 "learn_entry 3 7 (0, ?a) ?t" 9
        "learn_entry 100 9 (0, ?a) (learn_entry 3 7 (0, ?a) ?t)"] m
    by (simp add: learnUnicastAddressForwardingInterface_def simtime_max_def init_table_def)
qed

text \<open>
  \<open>setUnicastAddressForwardingInterface\<close> is meant to install a permanent, manually configured
  entry, and does so for an address that is already in the table: the entry never ages and is
  never overwritten by learning. For an address that is not in the table yet it stores the time
  stamp of -1 second instead, so the configured interface is ignored as soon as the time reaches
  \<open>agingTime\<close> less a second, and the first frame of that station replaces it.
\<close>

theorem set_unicast_entry_permanence:
  assumes "\<not> isMulticast a" and "0 < agingTime tab" and "now < simtime_max"
    and "setUnicastAddressForwardingInterface i a vid tab = Some tab'"
  shows "getUnicastAddressForwardingInterface now tab' a vid =
      Some (if forwardingTable tab (vid, a) = None \<and> agingTime tab \<le> now + SECOND then -1 else i)
    \<and> getUnicastAddressForwardingInterface now (learn_entry now j (vid, a) tab') a vid =
      Some (if forwardingTable tab (vid, a) = None then j else i)"
proof (cases "forwardingTable tab (vid, a)")
  case None
  with assms have t': "tab' = tab\<lparr>forwardingTable :=
      (forwardingTable tab)((vid, a) \<mapsto> address_entry i (- SECOND))\<rparr>"
    by (simp add: setUnicastAddressForwardingInterface_def)
  then have "\<not> is_static tab' (vid, a)" by (simp add: is_static_def simtime_max_def SECOND_def)
  then show ?thesis
    using assms(1,2) None t'
    by (simp add: getUnicastAddressForwardingInterface_def find_learn)
      (auto simp: find_interface_def)
next
  case (Some e)
  with assms have t': "tab' = tab\<lparr>forwardingTable :=
      (forwardingTable tab)((vid, a) \<mapsto> address_entry i simtime_max)\<rparr>"
    by (simp add: setUnicastAddressForwardingInterface_def)
  then have "is_static tab' (vid, a)" by (simp add: is_static_def)
  then have "forwardingTable (learn_entry now j (vid, a) tab') (vid, a) = forwardingTable tab' (vid, a)"
    using assms(2,3) t' by (intro static_learn_keep) simp_all
  then show ?thesis
    using assms(1-3) Some t'
    by (simp add: getUnicastAddressForwardingInterface_def find_interface_def)
qed

theorem set_unicast_entry_permanence_witness:
  "getUnicastAddressForwardingInterface 200 ((init_table 120)\<lparr>forwardingTable :=
     Map.empty((0, MacAddress 10) \<mapsto> address_entry 4 (- SECOND))\<rparr>) (MacAddress 10) 0 = Some (-1)"
proof -
  let ?a = "MacAddress 10" and ?t = "init_table 120"
  have m: "\<not> isMulticast ?a" by (simp add: isMulticast_bit)
  show ?thesis
    using set_unicast_entry_permanence [of ?a ?t 200 4 0 "?t\<lparr>forwardingTable :=
     Map.empty((0, ?a) \<mapsto> address_entry 4 (- SECOND))\<rparr>" 5] m
    by (simp add: setUnicastAddressForwardingInterface_def simtime_max_def init_table_def SECOND_def)
qed

text \<open>
  The guard of \<open>removeMulticastAddressForwardingInterface\<close> is inverted: a registered
  interface can never be removed (the call throws), and the call succeeds, changing nothing,
  exactly when the interface is not registered.
\<close>

theorem remove_multicast_guard_inverted:
  assumes "isMulticast a" and "multicastForwardingTable tab (vid, a) = Some ids"
  shows "removeMulticastAddressForwardingInterface i a vid tab =
    (if i \<in> set ids then None else Some tab)"
proof (cases "i \<in> set ids")
  case True
  then show ?thesis
    using assms by (simp add: removeMulticastAddressForwardingInterface_def)
next
  case False
  then have "(multicastForwardingTable tab)((vid, a) \<mapsto> removeAll i ids) = multicastForwardingTable tab"
    using assms(2) by (simp add: removeAll_id fun_upd_idem)
  then show ?thesis
    using assms False by (simp add: removeMulticastAddressForwardingInterface_def)
qed

theorem remove_multicast_guard_inverted_witness:
  "removeMulticastAddressForwardingInterface 3 BROADCAST_ADDRESS 0
     ((init_table 120)\<lparr>multicastForwardingTable := Map.empty((0, BROADCAST_ADDRESS) \<mapsto> [3, 4])\<rparr>) = None"
  using remove_multicast_guard_inverted [of BROADCAST_ADDRESS
      "(init_table 120)\<lparr>multicastForwardingTable := Map.empty((0, BROADCAST_ADDRESS) \<mapsto> [3, 4])\<rparr>"
      0 "[3, 4]" 3]
  by (simp add: isMulticast_bit BROADCAST_ADDRESS_def)

end
