(* ===== verification/Bridge_Data.thy ===== *)
theory Bridge_Data
  imports Forwarding_Table "HOL-Library.Product_Lexorder"
begin

text \<open>
  The data the bridge components share (src/inet/src/inet/linklayer/configurator/
  Ieee8021dInterfaceData.h and .cc, linklayer/ieee8021d/common/Ieee8021dBpdu): the spanning tree
  state of a port, the configuration BPDU, and the comparison of the two priority vectors of RSTP
  (\<open>Rstp::compareRSTPData\<close>) and of STP (\<open>Stp::comparePorts\<close>).

  Priorities, costs and port numbers are 32-bit unsigned fields; RSTP compares them as signed
  \<open>int\<close> parameters, STP as unsigned ones. The locale \<open>vector_order\<close> states what the selection
  of a root or an alternate port needs of such a comparison; both comparisons are interpreted.
\<close>

section \<open>Port data\<close>

type_synonym u16 = "16 word"
type_synonym u32 = "32 word"

datatype port_role = ALTERNATE | NOTASSIGNED | DISABLED | DESIGNATED | BACKUP | ROOT

datatype port_state = DISCARDING | LEARNING | FORWARDING

record port_info =
  p_priority :: u32
  p_linkCost :: u32
  p_edge :: bool
  p_state :: port_state
  p_role :: port_role
  p_rootPriority :: u32
  p_rootAddress :: mac_address
  p_rootPathCost :: u32
  p_bridgePriority :: u32
  p_bridgeAddress :: mac_address
  p_portPriority :: u32
  p_portNum :: u32
  p_age :: simtime
  p_maxAge :: simtime
  p_fdWhile :: simtime
  p_fwdDelay :: simtime
  p_helloTime :: simtime
  p_TCWhile :: simtime
  p_lostBPDU :: u32
  p_nextUpgrade :: simtime

text \<open>The constructor \<open>PortInfo()\<close>; the \<open>simtime_t\<close> members start at 0.\<close>

definition PortInfo :: port_info where
  "PortInfo = \<lparr>p_priority = 0, p_linkCost = 1, p_edge = False, p_state = FORWARDING,
     p_role = NOTASSIGNED, p_rootPriority = 0, p_rootAddress = UNSPECIFIED_ADDRESS,
     p_rootPathCost = 0, p_bridgePriority = 0, p_bridgeAddress = UNSPECIFIED_ADDRESS,
     p_portPriority = 0, p_portNum = -1, p_age = 0, p_maxAge = 0, p_fdWhile = 0, p_fwdDelay = 0,
     p_helloTime = 0, p_TCWhile = 0, p_lostBPDU = 0, p_nextUpgrade = 0\<rparr>"

definition isLearning :: "port_info \<Rightarrow> bool" where
  "isLearning p \<longleftrightarrow> p_state p = LEARNING \<or> p_state p = FORWARDING"

definition isForwarding :: "port_info \<Rightarrow> bool" where
  "isForwarding p \<longleftrightarrow> p_state p = FORWARDING"

fun getRoleName :: "port_role \<Rightarrow> string" where
  "getRoleName ALTERNATE = ''ALTERNATE''"
| "getRoleName NOTASSIGNED = ''NOTASSIGNED''"
| "getRoleName DISABLED = ''DISABLED''"
| "getRoleName DESIGNATED = ''DESIGNATED''"
| "getRoleName BACKUP = ''BACKUP''"
| "getRoleName ROOT = ''ROOT''"

fun getStateName :: "port_state \<Rightarrow> string" where
  "getStateName DISCARDING = ''DISCARDING''"
| "getStateName LEARNING = ''LEARNING''"
| "getStateName FORWARDING = ''FORWARDING''"

section \<open>The configuration BPDU\<close>

record bpdu =
  b_tcaFlag :: bool
  b_tcFlag :: bool
  b_rootPriority :: u16
  b_rootAddress :: mac_address
  b_rootPathCost :: u32
  b_bridgePriority :: u16
  b_bridgeAddress :: mac_address
  b_portPriority :: u32
  b_portNum :: u32
  b_messageAge :: simtime
  b_maxAge :: simtime
  b_helloTime :: simtime
  b_forwardDelay :: simtime

text \<open>The default values of \<open>BpduCfg\<close>.\<close>

definition BpduCfg :: bpdu where
  "BpduCfg = \<lparr>b_tcaFlag = False, b_tcFlag = False, b_rootPriority = 0,
     b_rootAddress = UNSPECIFIED_ADDRESS, b_rootPathCost = 0, b_bridgePriority = 0,
     b_bridgeAddress = UNSPECIFIED_ADDRESS, b_portPriority = 0, b_portNum = 0,
     b_messageAge = 0, b_maxAge = 0, b_helloTime = 0, b_forwardDelay = 0\<rparr>"

section \<open>The RSTP comparison\<close>

datatype CompareResult = WORSE_PORT | WORSE_SRC | WORSE_RPC | WORSE_ROOT | SIMILAR
  | BETTER_ROOT | BETTER_RPC | BETTER_SRC | BETTER_PORT

fun result_code :: "CompareResult \<Rightarrow> int" where
  "result_code WORSE_PORT = -4"
| "result_code WORSE_SRC = -3"
| "result_code WORSE_RPC = -2"
| "result_code WORSE_ROOT = -1"
| "result_code SIMILAR = 0"
| "result_code BETTER_ROOT = 1"
| "result_code BETTER_RPC = 2"
| "result_code BETTER_SRC = 3"
| "result_code BETTER_PORT = 4"

definition compareRSTPData ::
    "int \<Rightarrow> int \<Rightarrow> mac_address \<Rightarrow> mac_address \<Rightarrow> int \<Rightarrow> int \<Rightarrow> int \<Rightarrow> int \<Rightarrow>
     mac_address \<Rightarrow> mac_address \<Rightarrow> int \<Rightarrow> int \<Rightarrow> int \<Rightarrow> int \<Rightarrow> CompareResult" where
  "compareRSTPData rootPriority1 rootPriority2 rootAddress1 rootAddress2
     rootPathCost1 rootPathCost2 bridgePriority1 bridgePriority2
     bridgeAddress1 bridgeAddress2 portPriority1 portPriority2 portNum1 portNum2 =
   (if rootPriority1 \<noteq> rootPriority2
    then (if rootPriority1 < rootPriority2 then WORSE_ROOT else BETTER_ROOT)
    else if compareTo rootAddress1 rootAddress2 \<noteq> 0
    then (if compareTo rootAddress1 rootAddress2 < 0 then WORSE_ROOT else BETTER_ROOT)
    else if rootPathCost1 \<noteq> rootPathCost2
    then (if rootPathCost1 < rootPathCost2 then WORSE_RPC else BETTER_RPC)
    else if bridgePriority1 \<noteq> bridgePriority2
    then (if bridgePriority1 < bridgePriority2 then WORSE_SRC else BETTER_SRC)
    else if compareTo bridgeAddress1 bridgeAddress2 \<noteq> 0
    then (if compareTo bridgeAddress1 bridgeAddress2 < 0 then WORSE_SRC else BETTER_SRC)
    else if portPriority1 \<noteq> portPriority2
    then (if portPriority1 < portPriority2 then WORSE_PORT else BETTER_PORT)
    else if portNum1 \<noteq> portNum2
    then (if portNum1 < portNum2 then WORSE_PORT else BETTER_PORT)
    else SIMILAR)"

text \<open>The vector stored at a port, compared with the one stored at another port.\<close>

definition compare_ports_rstp :: "port_info \<Rightarrow> port_info \<Rightarrow> CompareResult" where
  "compare_ports_rstp p q =
     compareRSTPData (sint (p_rootPriority p)) (sint (p_rootPriority q))
       (p_rootAddress p) (p_rootAddress q)
       (sint (p_rootPathCost p)) (sint (p_rootPathCost q))
       (sint (p_bridgePriority p)) (sint (p_bridgePriority q))
       (p_bridgeAddress p) (p_bridgeAddress q)
       (sint (p_portPriority p)) (sint (p_portPriority q))
       (sint (p_portNum p)) (sint (p_portNum q))"

section \<open>The STP comparison\<close>

definition compareBridgeIDs :: "u32 \<Rightarrow> mac_address \<Rightarrow> u32 \<Rightarrow> mac_address \<Rightarrow> int" where
  "compareBridgeIDs aPriority aAddress bPriority bAddress =
     (if aPriority < bPriority then 1
      else if aPriority > bPriority then -1
      else if compareTo aAddress bAddress = -1 then 1
      else if compareTo aAddress bAddress = 1 then -1
      else 0)"

definition comparePortIDs :: "u32 \<Rightarrow> u32 \<Rightarrow> u32 \<Rightarrow> u32 \<Rightarrow> int" where
  "comparePortIDs aPriority aNum bPriority bNum =
     (if aPriority < bPriority then 1
      else if aPriority > bPriority then -1
      else if aNum < bNum then 1
      else if aNum > bNum then -1
      else 0)"

definition comparePorts :: "port_info \<Rightarrow> port_info \<Rightarrow> int" where
  "comparePorts portA portB =
     (let result = compareBridgeIDs (p_rootPriority portA) (p_rootAddress portA)
                     (p_rootPriority portB) (p_rootAddress portB) in
      if result \<noteq> 0 then result
      else if p_rootPathCost portA < p_rootPathCost portB then 1
      else if p_rootPathCost portA > p_rootPathCost portB then -1
      else
        (let result = compareBridgeIDs (p_bridgePriority portA) (p_bridgeAddress portA)
                        (p_bridgePriority portB) (p_bridgeAddress portB) in
         if result \<noteq> 0 then result
         else
           (let result = comparePortIDs (p_portPriority portA) (p_portNum portA)
                           (p_portPriority portB) (p_portNum portB) in
            if result \<noteq> 0 then result else 0)))"

section \<open>Comparisons as a total order\<close>

text \<open>
  The reference: the two vectors as tuples under the lexicographic order, smaller is better.
\<close>

definition rstp_key :: "port_info \<Rightarrow> int \<times> mac_address \<times> int \<times> int \<times> mac_address \<times> int \<times> int" where
  "rstp_key p = (sint (p_rootPriority p), p_rootAddress p, sint (p_rootPathCost p),
     sint (p_bridgePriority p), p_bridgeAddress p, sint (p_portPriority p), sint (p_portNum p))"

definition stp_key :: "port_info \<Rightarrow> u32 \<times> mac_address \<times> u32 \<times> u32 \<times> mac_address \<times> u32 \<times> u32" where
  "stp_key p = (p_rootPriority p, p_rootAddress p, p_rootPathCost p,
     p_bridgePriority p, p_bridgeAddress p, p_portPriority p, p_portNum p)"

lemma lex_less:
  "((a :: 'a::linorder, b :: 'b::linorder) < (c, d)) = (if a = c then b < d else a < c)"
  by auto

lemma lex_eq: "((a, b) = (c, d)) = (if a = c then b = d else False)"
  by simp

lemma compareRSTPData_lex:
  "(result_code (compareRSTPData rp1 rp2 ra1 ra2 c1 c2 bp1 bp2 ba1 ba2 pp1 pp2 n1 n2) < 0) =
     ((rp1, ra1, c1, bp1, ba1, pp1, n1) < (rp2, ra2, c2, bp2, ba2, pp2, n2))"
  unfolding compareRSTPData_def lex_less if_distrib [of result_code]
    if_distrib [of "\<lambda>x. x < 0"]
  by (simp add: compareTo_simps split del: if_split cong: if_cong) auto

lemma compareRSTPData_swap:
  "result_code (compareRSTPData rp2 rp1 ra2 ra1 c2 c1 bp2 bp1 ba2 ba1 pp2 pp1 n2 n1) =
   - result_code (compareRSTPData rp1 rp2 ra1 ra2 c1 c2 bp1 bp2 ba1 ba2 pp1 pp2 n1 n2)"
proof -
  have c: "(if y \<noteq> x then if y < x then - a else a else r') = - (if x \<noteq> y then if x < y then - a else a else r)"
    if "r' = - r" for x y :: "'x::linorder" and a r r' :: int
    using that by (auto simp: not_less)
  have m: "(if compareTo y x \<noteq> 0 then if compareTo y x < 0 then - a else a else r') =
     - (if compareTo x y \<noteq> 0 then if compareTo x y < 0 then - a else a else r)"
    if "r' = - r" for x y and a r r' :: int
    using that compareTo_swap[of x y] by auto
  show ?thesis
    unfolding compareRSTPData_def if_distrib [of result_code] result_code.simps
    by (intro c m) simp
qed

lemma compareBridgeIDs_alt:
  "compareBridgeIDs ap aa bp ba =
     (if ap = bp then (if aa = ba then 0 else if aa < ba then 1 else -1)
      else if ap < bp then 1 else -1)"
  by (auto simp: compareBridgeIDs_def compareTo_def less_mac_address_def
      intro: mac_address.expand)

lemma comparePortIDs_alt:
  "comparePortIDs ap an bp bn =
     (if ap = bp then (if an = bn then 0 else if an < bn then 1 else -1)
      else if ap < bp then 1 else -1)"
  by (auto simp: comparePortIDs_def)

lemma comparePorts_alt:
  "comparePorts p q = (if stp_key p = stp_key q then 0 else if stp_key p < stp_key q then 1 else -1)"
  unfolding comparePorts_def Let_def stp_key_def lex_less lex_eq
    compareBridgeIDs_alt comparePortIDs_alt
  by (cases "p_rootPriority p = p_rootPriority q"; cases "p_rootAddress p = p_rootAddress q";
      cases "p_rootPathCost p = p_rootPathCost q"; cases "p_bridgePriority p = p_bridgePriority q";
      cases "p_bridgeAddress p = p_bridgeAddress q") simp_all

lemma comparePorts_sign:
  "comparePorts p q > 0 \<longleftrightarrow> stp_key p < stp_key q"
  "comparePorts p q < 0 \<longleftrightarrow> stp_key q < stp_key p"
  "comparePorts p q = 0 \<longleftrightarrow> stp_key p = stp_key q"
  by (auto simp: comparePorts_alt)

section \<open>Selecting the best vector\<close>

text \<open>
  What \<open>getBestAlternate\<close> and \<open>selectRootPort\<close> need of a comparison: its sign is that of a
  linear order on keys. A scan that replaces the candidate only by a strictly better element
  then returns the first of the best elements.
\<close>

locale vector_order =
  fixes better :: "'v \<Rightarrow> 'v \<Rightarrow> bool"
    and key :: "'v \<Rightarrow> 'k::linorder"
  assumes better_key: "better x y \<longleftrightarrow> key x < key y"
begin

lemma better_irrefl: "\<not> better x x"
  by (simp add: better_key)

lemma better_asym: "better x y \<Longrightarrow> \<not> better y x"
  by (simp add: better_key)

lemma better_trans: "better x y \<Longrightarrow> better y z \<Longrightarrow> better x z"
  by (simp add: better_key)

lemma not_better_trans: "\<not> better x y \<Longrightarrow> \<not> better y z \<Longrightarrow> \<not> better x z"
  by (simp add: better_key)

text \<open>A scan over ports \<open>v i\<close> that keeps the best candidate seen so far.\<close>

lemma scan_best:
  assumes "fold (\<lambda>i c. if P i then (case c of None \<Rightarrow> Some i
      | Some k \<Rightarrow> if better (v i) (v k) then Some i else Some k) else c) is c0 = Some b"
  shows "(Some b = c0 \<or> b \<in> set is \<and> P b)
    \<and> (\<forall>i \<in> set is. P i \<longrightarrow> \<not> better (v i) (v b))
    \<and> (\<forall>k. c0 = Some k \<longrightarrow> \<not> better (v k) (v b))"
  using assms
proof (induction "is" arbitrary: c0)
  case Nil
  then show ?case by (simp add: better_irrefl)
next
  case (Cons i "is")
  show ?case
  proof (cases "P i")
    case False
    with Cons show ?thesis by fastforce
  next
    case True
    show ?thesis
    proof (cases c0)
      case None
      with Cons.prems Cons.IH[of "Some i"] True show ?thesis by auto
    next
      case (Some k)
      show ?thesis
      proof (cases "better (v i) (v k)")
        case b: True
        with Cons.prems Cons.IH[of "Some i"] True Some
        have *: "Some b = Some i \<or> b \<in> set is \<and> P b" "\<not> better (v i) (v b)"
          "\<forall>i \<in> set is. P i \<longrightarrow> \<not> better (v i) (v b)" by auto
        with b have "\<not> better (v k) (v b)" by (meson better_trans)
        with * True Some show ?thesis by auto
      next
        case b: False
        with Cons.prems Cons.IH[of "Some k"] True Some
        have *: "Some b = Some k \<or> b \<in> set is \<and> P b" "\<not> better (v k) (v b)"
          "\<forall>i \<in> set is. P i \<longrightarrow> \<not> better (v i) (v b)" by auto
        with b have "\<not> better (v i) (v b)" by (meson not_better_trans)
        with * Some show ?thesis by auto
      qed
    qed
  qed
qed

lemma scan_none:
  "fold (\<lambda>i c. if P i then (case c of None \<Rightarrow> Some i
      | Some k \<Rightarrow> if better (v i) (v k) then Some i else Some k) else c) is c0 = None
   \<longleftrightarrow> c0 = None \<and> (\<forall>i \<in> set is. \<not> P i)"
  by (induction "is" arbitrary: c0) (auto split: option.splits if_splits)

end

definition better_rstp :: "port_info \<Rightarrow> port_info \<Rightarrow> bool" where
  "better_rstp p q \<longleftrightarrow> result_code (compare_ports_rstp p q) < 0"

definition better_stp :: "port_info \<Rightarrow> port_info \<Rightarrow> bool" where
  "better_stp p q \<longleftrightarrow> comparePorts p q > 0"

lemma rstp_key_less:
  "rstp_key p < rstp_key q \<longleftrightarrow> result_code (compare_ports_rstp p q) < 0"
  unfolding compare_ports_rstp_def compareRSTPData_lex rstp_key_def ..

interpretation rstp_vec: vector_order better_rstp rstp_key
  by unfold_locales (simp add: better_rstp_def rstp_key_less)

interpretation stp_vec: vector_order better_stp stp_key
  by unfold_locales (simp add: better_stp_def comparePorts_sign)

section \<open>Properties\<close>

text \<open>
  \<open>compareRSTPData\<close> is the lexicographic comparison of the two priority vectors (root
  priority, root address, root path cost, bridge priority, bridge address, port priority, port
  number), smaller values being better for the first argument: its sign is negative, zero or
  positive exactly as the first vector is smaller than, equal to or greater than the second, and
  exchanging the two vectors negates the result code.
\<close>

theorem compareRSTPData_total_order:
  "sgn (result_code (compareRSTPData rp1 rp2 ra1 ra2 c1 c2 bp1 bp2 ba1 ba2 pp1 pp2 n1 n2)) =
     (if (rp1, ra1, c1, bp1, ba1, pp1, n1) < (rp2, ra2, c2, bp2, ba2, pp2, n2) then -1
      else if (rp1, ra1, c1, bp1, ba1, pp1, n1) = (rp2, ra2, c2, bp2, ba2, pp2, n2) then 0 else 1)
   \<and> result_code (compareRSTPData rp2 rp1 ra2 ra1 c2 c1 bp2 bp1 ba2 ba1 pp2 pp1 n2 n1) =
     - result_code (compareRSTPData rp1 rp2 ra1 ra2 c1 c2 bp1 bp2 ba1 ba2 pp1 pp2 n1 n2)"
proof -
  let ?v1 = "(rp1, ra1, c1, bp1, ba1, pp1, n1)" and ?v2 = "(rp2, ra2, c2, bp2, ba2, pp2, n2)"
  let ?r = "result_code (compareRSTPData rp1 rp2 ra1 ra2 c1 c2 bp1 bp2 ba1 ba2 pp1 pp2 n1 n2)"
  have lt: "?r < 0 \<longleftrightarrow> ?v1 < ?v2" by (rule compareRSTPData_lex)
  have gt: "0 < ?r \<longleftrightarrow> ?v2 < ?v1"
    using compareRSTPData_swap[of rp2 rp1 ra2 ra1 c2 c1 bp2 bp1 ba2 ba1 pp2 pp1 n2 n1]
      compareRSTPData_lex[of rp2 rp1 ra2 ra1 c2 c1 bp2 bp1 ba2 ba1 pp2 pp1 n2 n1]
    by simp
  consider "?v1 < ?v2" | "?v1 = ?v2" | "?v2 < ?v1" by (rule linorder_cases)
  then have "sgn ?r = (if ?v1 < ?v2 then -1 else if ?v1 = ?v2 then 0 else 1)"
  proof cases
    case 1
    with lt have "?r < 0" by blast
    with 1 show ?thesis by (simp only: if_True sgn_neg)
  next
    case 2
    with lt gt have "\<not> ?r < 0" "\<not> 0 < ?r" by (metis less_irrefl)+
    then have "?r = 0" by linarith
    then show ?thesis unfolding 2 by (simp only: sgn_0 less_irrefl if_False if_True refl)
  next
    case 3
    with gt have "0 < ?r" by blast
    moreover have "\<not> ?v1 < ?v2" "?v1 \<noteq> ?v2"
      using 3 by (metis less_asym, metis less_irrefl)
    ultimately show ?thesis by (simp only: if_False sgn_pos)
  qed
  then show ?thesis by (intro conjI compareRSTPData_swap)
qed

end
