(* ===== verification/Rstp.thy ===== *)
theory Rstp
  imports Bridge_Data
begin

text \<open>
  \<open>Rstp\<close> (src/inet/src/inet/linklayer/ieee8021d/rstp/Rstp.cc, with the helpers of
  linklayer/ieee8021d/common/StpBase.cc): the rapid spanning tree module of one bridge.

  The state record holds the per-interface port data, the filtering database, the configuration,
  the two timers and the BPDUs sent so far. A loop over the ports is a fold over the interface ids
  in the order of the interface table. \<open>None\<close> is an exception: an interface id that is not in the
  table (\<open>getPortNetworkInterface\<close>), or a timer scheduled in the past (\<open>scheduleAt\<close>).
\<close>

section \<open>State\<close>

record rstp =
  r_now :: simtime
  r_ids :: "int list"
  r_ports :: "int \<Rightarrow> port_info"
  r_carrier :: "int \<Rightarrow> bool"
  r_mac :: mac_table
  r_bridgePriority :: u32
  r_bridgeAddress :: mac_address
  r_maxAge :: simtime
  r_helloTime :: simtime
  r_forwardDelay :: simtime
  r_migrateTime :: simtime
  r_tcWhileTime :: simtime
  r_upgradeTimer :: "simtime option"
  r_helloTimer :: "simtime option"
  r_sent :: "(int \<times> bpdu) list"

text \<open>\<open>getPortNetworkInterface\<close> throws for an unknown id; \<open>getRootInterfaceId\<close> is -1 when there is
  no root port.\<close>

definition getPortInterfaceData :: "rstp \<Rightarrow> int \<Rightarrow> port_info option" where
  "getPortInterfaceData s i = (if i \<in> set (r_ids s) then Some (r_ports s i) else None)"

definition getRootInterfaceId :: "rstp \<Rightarrow> int" where
  "getRootInterfaceId s =
     (case find (\<lambda>i. p_role (r_ports s i) = ROOT) (r_ids s) of None \<Rightarrow> -1 | Some i \<Rightarrow> i)"

definition upd_port :: "int \<Rightarrow> (port_info \<Rightarrow> port_info) \<Rightarrow> rstp \<Rightarrow> rstp" where
  "upd_port i f s = s\<lparr>r_ports := (r_ports s)(i := f (r_ports s i))\<rparr>"

definition upd_mac :: "(mac_table \<Rightarrow> mac_table) \<Rightarrow> rstp \<Rightarrow> rstp" where
  "upd_mac f s = s\<lparr>r_mac := f (r_mac s)\<rparr>"

text \<open>Role and state of a port are always set together in the source.\<close>

definition set_role :: "port_role \<Rightarrow> port_state \<Rightarrow> port_info \<Rightarrow> port_info" where
  "set_role ro st p = p\<lparr>p_role := ro, p_state := st\<rparr>"

definition set_lost :: "u32 \<Rightarrow> port_info \<Rightarrow> port_info" where
  "set_lost n p = p\<lparr>p_lostBPDU := n\<rparr>"

definition set_upgrade :: "simtime \<Rightarrow> port_info \<Rightarrow> port_info" where
  "set_upgrade t p = p\<lparr>p_nextUpgrade := t\<rparr>"

section \<open>The upgrade timer\<close>

text \<open>Ports that wait for an upgrade: not assigned, or designated and not forwarding yet.\<close>

definition upgrade_candidate :: "port_info \<Rightarrow> bool" where
  "upgrade_candidate p \<longleftrightarrow>
     p_role p = NOTASSIGNED \<or>
     (p_role p = DESIGNATED \<and> (p_state p = DISCARDING \<or> p_state p = LEARNING))"

definition next_upgrade_port :: "rstp \<Rightarrow> int option" where
  "next_upgrade_port s =
     fold (\<lambda>i nxt. if r_carrier s i \<and> upgrade_candidate (r_ports s i)
       then (case nxt of None \<Rightarrow> Some i
             | Some k \<Rightarrow> if p_nextUpgrade (r_ports s i) < p_nextUpgrade (r_ports s k)
                        then Some i else Some k)
       else nxt) (r_ids s) None"

definition scheduleNextUpgrade :: "rstp \<Rightarrow> rstp option" where
  "scheduleNextUpgrade s =
     (case next_upgrade_port s of
        None \<Rightarrow> Some (s\<lparr>r_upgradeTimer := None\<rparr>)
      | Some k \<Rightarrow>
          (if p_nextUpgrade (r_ports s k) < r_now s then None
           else Some (s\<lparr>r_upgradeTimer := Some (p_nextUpgrade (r_ports s k))\<rparr>)))"

section \<open>Stored vectors\<close>

definition initInterfacedata :: "int \<Rightarrow> rstp \<Rightarrow> rstp" where
  "initInterfacedata i s = upd_port i
     (\<lambda>p. p\<lparr>p_rootPriority := r_bridgePriority s, p_rootAddress := r_bridgeAddress s,
        p_rootPathCost := 0, p_age := 0, p_bridgePriority := r_bridgePriority s,
        p_bridgeAddress := r_bridgeAddress s, p_portPriority := -1, p_portNum := -1,
        p_lostBPDU := 0\<rparr>) s"

definition updateInterfacedata :: "bpdu \<Rightarrow> int \<Rightarrow> rstp \<Rightarrow> rstp" where
  "updateInterfacedata frame i s = upd_port i
     (\<lambda>p. p\<lparr>p_rootPriority := ucast (b_rootPriority frame), p_rootAddress := b_rootAddress frame,
        p_rootPathCost := b_rootPathCost frame + p_linkCost p,
        p_age := b_messageAge frame + SECOND,
        p_bridgePriority := ucast (b_bridgePriority frame),
        p_bridgeAddress := b_bridgeAddress frame,
        p_portPriority := b_portPriority frame, p_portNum := b_portNum frame,
        p_lostBPDU := 0\<rparr>) s"

definition init_port :: "int \<Rightarrow> rstp \<Rightarrow> rstp" where
  "init_port j s =
     (let s = upd_port j (\<lambda>p. if \<not> p_edge p
                then set_upgrade (r_now s + r_migrateTime s) (set_role NOTASSIGNED DISCARDING p)
                else set_role DESIGNATED FORWARDING p) s;
          s = initInterfacedata j s
      in upd_mac (removeForwardingInterface j) s)"

definition initPorts :: "rstp \<Rightarrow> rstp option" where
  "initPorts s = scheduleNextUpgrade (fold init_port (r_ids s) s)"

section \<open>Comparisons\<close>

text \<open>The port's best vector against a frame (\<open>compareInterfacedata\<close>).\<close>

definition compareInterfacedata :: "rstp \<Rightarrow> int \<Rightarrow> bpdu \<Rightarrow> u32 \<Rightarrow> CompareResult option" where
  "compareInterfacedata s i msg linkCost =
     do {
       ifd \<leftarrow> getPortInterfaceData s i;
       Some (compareRSTPData (sint (p_rootPriority ifd)) (uint (b_rootPriority msg))
         (p_rootAddress ifd) (b_rootAddress msg)
         (sint (p_rootPathCost ifd)) (sint (b_rootPathCost msg + linkCost))
         (sint (p_bridgePriority ifd)) (uint (b_bridgePriority msg))
         (p_bridgeAddress ifd) (b_bridgeAddress msg)
         (sint (p_portPriority ifd)) (sint (b_portPriority msg))
         (sint (p_portNum ifd)) (sint (b_portNum msg)))
     }"

text \<open>
  The two overloads of \<open>contestInterfacedata\<close>: the vector this bridge would send through the port,
  against the port's best vector and against a frame.
\<close>

definition contest_port :: "rstp \<Rightarrow> int \<Rightarrow> CompareResult option" where
  "contest_port s portNum =
     do {
       rootPort \<leftarrow> getPortInterfaceData s (getRootInterfaceId s);
       ifd \<leftarrow> getPortInterfaceData s portNum;
       Some (compareRSTPData (sint (p_rootPriority rootPort)) (sint (p_rootPriority ifd))
         (p_rootAddress rootPort) (p_rootAddress ifd)
         (sint (p_rootPathCost rootPort + p_linkCost ifd)) (sint (p_rootPathCost ifd))
         (sint (r_bridgePriority s)) (sint (p_bridgePriority ifd))
         (r_bridgeAddress s) (p_bridgeAddress ifd)
         (sint (p_portPriority ifd)) (sint (p_portPriority ifd))
         portNum (sint (p_portNum ifd)))
     }"

definition contest_frame :: "rstp \<Rightarrow> bpdu \<Rightarrow> int \<Rightarrow> CompareResult option" where
  "contest_frame s msg i =
     do {
       rootPort \<leftarrow> getPortInterfaceData s (getRootInterfaceId s);
       ifd \<leftarrow> getPortInterfaceData s i;
       Some (compareRSTPData (sint (p_rootPriority rootPort)) (uint (b_rootPriority msg))
         (p_rootAddress rootPort) (b_rootAddress msg)
         (sint (p_rootPathCost rootPort)) (sint (b_rootPathCost msg))
         (sint (r_bridgePriority s)) (uint (b_bridgePriority msg))
         (r_bridgeAddress s) (b_bridgeAddress msg)
         (sint (p_portPriority ifd)) (sint (b_portPriority msg))
         i (sint (b_portNum msg)))
     }"

definition getBestAlternate :: "rstp \<Rightarrow> int option" where
  "getBestAlternate s =
     fold (\<lambda>j candidate. if p_role (r_ports s j) = ALTERNATE
       then (case candidate of None \<Rightarrow> Some j
             | Some c \<Rightarrow> if better_rstp (r_ports s j) (r_ports s c) then Some j else Some c)
       else candidate) (r_ids s) None"

section \<open>Sending\<close>

definition flush_port :: "int \<Rightarrow> int \<Rightarrow> rstp \<Rightarrow> rstp" where
  "flush_port portId i s =
     (let s = upd_port i (\<lambda>p. p\<lparr>p_TCWhile := r_now s + r_tcWhileTime s\<rparr>) s
      in if i \<noteq> portId then upd_mac (removeForwardingInterface i) s else s)"

definition flushOtherPorts :: "int \<Rightarrow> rstp \<Rightarrow> rstp" where
  "flushOtherPorts portId s = fold (flush_port portId) (r_ids s) s"

definition sendOut :: "int \<Rightarrow> bpdu \<Rightarrow> rstp \<Rightarrow> rstp" where
  "sendOut i frame s = s\<lparr>r_sent := r_sent s @ [(i, frame)]\<rparr>"

definition own_bpdu :: "rstp \<Rightarrow> int \<Rightarrow> bpdu" where
  "own_bpdu s i = BpduCfg\<lparr>b_bridgePriority := ucast (r_bridgePriority s), b_tcaFlag := False,
     b_portNum := word_of_int i, b_bridgeAddress := r_bridgeAddress s, b_maxAge := r_maxAge s,
     b_helloTime := r_helloTime s, b_forwardDelay := r_forwardDelay s\<rparr>"

definition sendBPDU :: "int \<Rightarrow> rstp \<Rightarrow> rstp option" where
  "sendBPDU i s =
     do {
       iport \<leftarrow> getPortInterfaceData s i;
       let r = getRootInterfaceId s;
       Some (if p_role iport \<noteq> DISABLED then
         (let frame = own_bpdu s i;
              frame = (if r \<noteq> -1
                then (let rootPort = r_ports s r in
                  frame\<lparr>b_rootPriority := ucast (p_rootPriority rootPort),
                    b_rootAddress := p_rootAddress rootPort,
                    b_messageAge := p_age rootPort,
                    b_rootPathCost := p_rootPathCost rootPort\<rparr>)
                else frame\<lparr>b_rootPriority := ucast (r_bridgePriority s),
                    b_rootAddress := r_bridgeAddress s, b_messageAge := 0,
                    b_rootPathCost := 0\<rparr>);
              frame = frame\<lparr>b_tcFlag := r_now s < p_TCWhile iport\<rparr>
          in sendOut i frame s)
        else s)
     }"

definition sends_bpdu :: "port_info \<Rightarrow> bool" where
  "sends_bpdu p \<longleftrightarrow> p_role p \<noteq> ROOT \<and> p_role p \<noteq> ALTERNATE \<and> p_role p \<noteq> DISABLED \<and> \<not> p_edge p"

definition sendBPDUs :: "rstp \<Rightarrow> rstp option" where
  "sendBPDUs s = fold_opt (\<lambda>i s. if sends_bpdu (r_ports s i) then sendBPDU i s else Some s) (r_ids s) s"

definition sendTCNtoRoot :: "rstp \<Rightarrow> rstp" where
  "sendTCNtoRoot s =
     (let r = getRootInterfaceId s in
      if r \<ge> 0 then
        (let rootPort = r_ports s r in
         if p_role rootPort \<noteq> DISABLED \<and> r_now s < p_TCWhile rootPort
         then sendOut r ((own_bpdu s r)\<lparr>b_rootPriority := ucast (p_rootPriority rootPort),
                b_rootAddress := p_rootAddress rootPort, b_messageAge := p_age rootPort,
                b_rootPathCost := p_rootPathCost rootPort, b_tcFlag := True\<rparr>) s
         else s)
      else s)"

section \<open>Better information on a port\<close>

text \<open>The steps several branches share.\<close>

definition become_root :: "int \<Rightarrow> rstp \<Rightarrow> rstp" where
  "become_root a s = upd_port a (\<lambda>p. set_lost 0 (set_role ROOT FORWARDING p)) s"

definition become_designated :: "int \<Rightarrow> rstp \<Rightarrow> rstp option" where
  "become_designated a s = scheduleNextUpgrade
     (upd_port a (\<lambda>p. set_upgrade (r_now s + r_forwardDelay s) (set_role DESIGNATED DISCARDING p)) s)"

text \<open>\<open>SIMILAR\<close>: a double link to the same port of the root source.\<close>

definition bs_similar :: "int \<Rightarrow> int \<Rightarrow> rstp \<Rightarrow> rstp" where
  "bs_similar r a s =
     (let rootPort = r_ports s r; arrivalPort = r_ports s a in
      if p_portPriority rootPort < p_portPriority arrivalPort
         \<or> (p_portPriority rootPort = p_portPriority arrivalPort \<and> r < a)
      then upd_port a (\<lambda>p. set_lost 0 (set_role ALTERNATE DISCARDING p))
             (upd_mac (removeForwardingInterface a) s)
      else
        (let s = (if p_state arrivalPort \<noteq> FORWARDING then flushOtherPorts a s
                  else upd_mac (removeForwardingInterface r) s);
             s = upd_port r (set_role ALTERNATE DISCARDING) s;
             s = become_root a s
         in upd_mac (replaceForwardingInterface r a) s))"

definition reset_other_port :: "int \<Rightarrow> int \<Rightarrow> rstp \<Rightarrow> rstp option" where
  "reset_other_port a i s =
     (if \<not> p_edge (r_ports s i) then
        do {
          let s = (if p_state (r_ports s a) \<noteq> FORWARDING
            then upd_port i (\<lambda>p. p\<lparr>p_TCWhile := r_now s + r_tcWhileTime s\<rparr>) s else s);
          let s = upd_mac (removeForwardingInterface i) s;
          (if i \<noteq> a then
             do {
               s \<leftarrow> scheduleNextUpgrade (upd_port i (\<lambda>p. set_upgrade (r_now s + r_migrateTime s)
                      (set_role NOTASSIGNED DISCARDING p)) s);
               Some (initInterfacedata i s)
             }
           else Some s)
        }
      else Some s)"

definition bs_better_root :: "int \<Rightarrow> rstp \<Rightarrow> rstp option" where
  "bs_better_root a s =
     do {
       s \<leftarrow> fold_opt (reset_other_port a) (r_ids s) s;
       Some (become_root a s)
     }"

definition bs_better_route :: "int \<Rightarrow> int \<Rightarrow> rstp \<Rightarrow> rstp option" where
  "bs_better_route r a s =
     do {
       let s = (if p_state (r_ports s a) \<noteq> FORWARDING then flushOtherPorts a s else s);
       let s = become_root a s;
       let s = upd_port r (\<lambda>p. p\<lparr>p_role := ALTERNATE\<rparr>) s;
       let s = upd_mac (replaceForwardingInterface r a) s;
       case3 \<leftarrow> contest_port s r;
       (if result_code case3 \<ge> 0
        then Some (upd_mac (removeForwardingInterface r)
               (upd_port r (set_role ALTERNATE DISCARDING) s))
        else become_designated r s)
     }"

definition bs_worse_route :: "bpdu \<Rightarrow> int \<Rightarrow> rstp \<Rightarrow> rstp option" where
  "bs_worse_route frame a s =
     do {
       case3 \<leftarrow> contest_frame s frame a;
       (if result_code case3 < 0
        then do { s \<leftarrow> become_designated a s; sendBPDU a s }
        else Some (upd_port a (\<lambda>p. set_lost 0 (set_role ALTERNATE DISCARDING p))
               (upd_mac (removeForwardingInterface a) s)))
     }"

definition processBetterSource :: "bpdu \<Rightarrow> int \<Rightarrow> rstp \<Rightarrow> (bool \<times> rstp) option" where
  "processBetterSource frame a s =
     do {
       ensure (a \<in> set (r_ids s));
       let s = updateInterfacedata frame a s;
       let r = getRootInterfaceId s;
       (if r = -1 then Some (True, flushOtherPorts a (become_root a s))
        else
          do {
            case2 \<leftarrow> compareInterfacedata s r frame (p_linkCost (r_ports s a));
            (case case2 of
               SIMILAR \<Rightarrow> Some (False, bs_similar r a s)
             | BETTER_ROOT \<Rightarrow> map_option (Pair True) (bs_better_root a s)
             | BETTER_RPC \<Rightarrow> map_option (Pair True) (bs_better_route r a s)
             | BETTER_SRC \<Rightarrow> map_option (Pair True) (bs_better_route r a s)
             | BETTER_PORT \<Rightarrow> map_option (Pair True) (bs_better_route r a s)
             | WORSE_ROOT \<Rightarrow> map_option (Pair False) (sendBPDU a s)
             | WORSE_RPC \<Rightarrow> map_option (Pair False) (bs_worse_route frame a s)
             | WORSE_SRC \<Rightarrow> map_option (Pair False) (bs_worse_route frame a s)
             | WORSE_PORT \<Rightarrow> map_option (Pair False) (bs_worse_route frame a s))
          })
     }"

section \<open>News from the source already known\<close>

definition ss_worse_root :: "bpdu \<Rightarrow> int \<Rightarrow> rstp \<Rightarrow> (bool \<times> rstp) option" where
  "ss_worse_root frame a s =
     (if p_role (r_ports s a) = ROOT then
        (case getBestAlternate s of
           Some alternative \<Rightarrow>
             do {
               s \<leftarrow> become_designated a s;
               let s = upd_mac (replaceForwardingInterface a alternative) s;
               let s = flushOtherPorts alternative s;
               let s = upd_port alternative (set_role ROOT FORWARDING) s;
               let s = updateInterfacedata frame a s;
               map_option (Pair False) (sendBPDU a s)
             }
         | None \<Rightarrow>
             do {
               s \<leftarrow> initPorts s;
               let s = fold (\<lambda>j. upd_mac (removeForwardingInterface j)) (r_ids s) s;
               case2 \<leftarrow> compareInterfacedata s a frame (p_linkCost (r_ports s a));
               Some (True, if result_code case2 > 0
                 then upd_port a (set_role ROOT FORWARDING) (updateInterfacedata frame a s)
                 else s)
             })
      else if p_role (r_ports s a) = ALTERNATE then
        do {
          s \<leftarrow> become_designated a s;
          let s = updateInterfacedata frame a s;
          map_option (Pair False) (sendBPDU a s)
        }
      else Some (False, s))"

text \<open>The root port has lost quality: an alternate that is now better takes over.\<close>

definition ss_reelect :: "bpdu \<Rightarrow> int \<Rightarrow> rstp \<Rightarrow> rstp option" where
  "ss_reelect frame a s =
     (case getBestAlternate s of
        None \<Rightarrow> Some s
      | Some alternative \<Rightarrow>
          do {
            case2 \<leftarrow> compareInterfacedata s alternative frame (p_linkCost (r_ports s a));
            (if result_code case2 < 0 then
               do {
                 let s = upd_port alternative (set_role ROOT FORWARDING) s;
                 let s = upd_port a (\<lambda>p. p\<lparr>p_role := DESIGNATED\<rparr>) s;
                 case3 \<leftarrow> contest_frame s frame a;
                 s \<leftarrow> (if result_code case3 < 0 then become_designated a s
                       else Some (upd_port a (set_role ALTERNATE DISCARDING) s));
                 let s = flushOtherPorts alternative s;
                 Some (upd_mac (replaceForwardingInterface a alternative) s)
               }
             else Some s)
          })"

definition ss_worse_route :: "bpdu \<Rightarrow> int \<Rightarrow> rstp \<Rightarrow> (bool \<times> rstp) option" where
  "ss_worse_route frame a s =
     (if p_role (r_ports s a) = ROOT then
        do {
          s \<leftarrow> ss_reelect frame a (upd_port a (set_lost 0) s);
          Some (True, updateInterfacedata frame a s)
        }
      else if p_role (r_ports s a) = ALTERNATE then
        do {
          case2 \<leftarrow> contest_frame s frame a;
          s \<leftarrow> (if result_code case2 < 0
               then do { s \<leftarrow> become_designated a s; sendBPDU a s }
               else Some (upd_port a (set_lost 0) s));
          Some (False, updateInterfacedata frame a s)
        }
      else Some (False, updateInterfacedata frame a s))"

definition processSameSource :: "bpdu \<Rightarrow> int \<Rightarrow> rstp \<Rightarrow> (bool \<times> rstp) option" where
  "processSameSource frame a s =
     do {
       case0 \<leftarrow> compareInterfacedata s a frame (p_linkCost (r_ports s a));
       (case case0 of
          SIMILAR \<Rightarrow> Some (False, upd_port a (set_lost 0) s)
        | WORSE_ROOT \<Rightarrow> ss_worse_root frame a s
        | WORSE_RPC \<Rightarrow> ss_worse_route frame a s
        | WORSE_SRC \<Rightarrow> ss_worse_route frame a s
        | WORSE_PORT \<Rightarrow> ss_worse_route frame a s
        | _ \<Rightarrow> Some (False, s))
     }"

section \<open>Incoming BPDUs\<close>

definition checkTC :: "bpdu \<Rightarrow> int \<Rightarrow> rstp \<Rightarrow> rstp option" where
  "checkTC frame a s =
     do {
       port \<leftarrow> getPortInterfaceData s a;
       Some (if b_tcFlag frame \<and> p_state port = FORWARDING
         then fold (\<lambda>i s. if i \<noteq> a
             then upd_port i (\<lambda>p. p\<lparr>p_TCWhile := r_now s + r_tcWhileTime s\<rparr>)
                    (upd_mac (removeForwardingInterface i) s)
             else s) (r_ids s) s
         else s)
     }"

definition handleBackup :: "bpdu \<Rightarrow> int \<Rightarrow> rstp \<Rightarrow> rstp option" where
  "handleBackup frame a s =
     do {
       port \<leftarrow> getPortInterfaceData s a;
       (if b_portPriority frame < p_portPriority port
           \<or> (b_portPriority frame = p_portPriority port \<and> uint (b_portNum frame) < a)
        then Some (upd_port a (\<lambda>p. set_lost 0 (set_role BACKUP DISCARDING p))
               (upd_mac (removeForwardingInterface a) s))
        else
          do {
            let n = sint (b_portNum frame);
            ensure (n \<in> set (r_ids s));
            Some (if b_portPriority frame > p_portPriority port
                \<or> (b_portPriority frame = p_portPriority port \<and> uint (b_portNum frame) > a)
              then upd_port n (\<lambda>p. set_lost 0 (set_role BACKUP DISCARDING p))
                     (upd_mac (removeForwardingInterface n) s)
              else upd_port n (set_role DISABLED DISCARDING)
                     (upd_mac (removeForwardingInterface n) s))
          })
     }"

definition processBPDU :: "bpdu \<Rightarrow> int \<Rightarrow> rstp \<Rightarrow> rstp option" where
  "processBPDU frame a s =
     do {
       arrivalPort \<leftarrow> getPortInterfaceData s a;
       c \<leftarrow> compareInterfacedata s a frame (p_linkCost arrivalPort);
       (flood, s) \<leftarrow>
         (if result_code c > 0 \<and> compareTo (b_rootAddress frame) (r_bridgeAddress s) \<noteq> 0
          then processBetterSource frame a s
          else if compareTo (b_bridgeAddress frame) (p_bridgeAddress arrivalPort) = 0
              \<and> compareTo (b_rootAddress frame) (r_bridgeAddress s) \<noteq> 0
          then processSameSource frame a s
          else Some (False, s));
       (if flood then do { s \<leftarrow> sendBPDUs s; Some (sendTCNtoRoot s) } else Some s)
     }"

definition handleIncomingFrame :: "mac_address \<Rightarrow> bpdu \<Rightarrow> int \<Rightarrow> rstp \<Rightarrow> rstp option" where
  "handleIncomingFrame src frame a s =
     (if b_messageAge frame < r_maxAge s then
        do {
          s \<leftarrow> checkTC frame a s;
          (if compareTo src (r_bridgeAddress s) = 0
           then handleBackup frame a s
           else processBPDU frame a s)
        }
      else Some s)"

section \<open>Timers, carrier changes, lifecycle\<close>

text \<open>The reaction to more than three missing BPDUs, and the hello tick of one port.\<close>

definition hello_lost :: "int \<Rightarrow> rstp \<Rightarrow> rstp option" where
  "hello_lost i s =
     (if p_role (r_ports s i) = ROOT then
        (case getBestAlternate s of
           Some candidate \<Rightarrow>
             do {
               s \<leftarrow> become_designated i s;
               let s = initInterfacedata i s;
               let s = become_root candidate s;
               let s = flushOtherPorts candidate s;
               Some (upd_mac (replaceForwardingInterface i candidate) s)
             }
         | None \<Rightarrow> initPorts s)
      else
        do {
          s \<leftarrow> become_designated i s;
          Some (initInterfacedata i s)
        })"

definition hello_port :: "int \<Rightarrow> rstp \<Rightarrow> rstp option" where
  "hello_port i s =
     (let p = r_ports s i in
      if \<not> p_edge p \<and> (p_role p = ROOT \<or> p_role p = ALTERNATE \<or> p_role p = BACKUP) then
        do {
          let s = upd_port i (set_lost (p_lostBPDU p + 1)) s;
          (if p_lostBPDU p + 1 > 3 then
             do {
               s \<leftarrow> hello_lost i s;
               Some (upd_port i (set_lost 0) s)
             }
           else Some s)
        }
      else Some s)"

definition handleHelloTime :: "rstp \<Rightarrow> rstp option" where
  "handleHelloTime s =
     do {
       s \<leftarrow> fold_opt hello_port (r_ids s) s;
       s \<leftarrow> sendBPDUs s;
       let s = sendTCNtoRoot s;
       Some (s\<lparr>r_helloTimer := Some (r_now s + r_helloTime s)\<rparr>)
     }"

definition upgrade_port :: "int \<Rightarrow> rstp \<Rightarrow> rstp" where
  "upgrade_port i s =
     (let p = r_ports s i in
      if r_carrier s i \<and> p_nextUpgrade p = r_now s then
        (if p_role p = NOTASSIGNED
         then upd_port i (\<lambda>p. set_upgrade (r_now s + r_forwardDelay s)
                (set_role DESIGNATED DISCARDING p)) s
         else if p_role p = DESIGNATED then
           (if p_state p = DISCARDING
            then upd_port i (\<lambda>p. set_upgrade (r_now s + r_forwardDelay s) (p\<lparr>p_state := LEARNING\<rparr>)) s
            else if p_state p = LEARNING
            then flushOtherPorts i (upd_port i (\<lambda>p. p\<lparr>p_state := FORWARDING\<rparr>) s)
            else s)
         else s)
      else s)"

definition handleUpgrade :: "rstp \<Rightarrow> rstp option" where
  "handleUpgrade s = scheduleNextUpgrade (fold upgrade_port (r_ids s) s)"

text \<open>
  \<open>receiveSignal\<close> for a state change of interface \<open>i\<close> (ids are unique, so one port matches); the
  carrier flag has changed before the signal is emitted.
\<close>

definition carrier_changed :: "int \<Rightarrow> rstp \<Rightarrow> rstp option" where
  "carrier_changed i s =
     (if i \<in> set (r_ids s) \<and> r_carrier s i then
        scheduleNextUpgrade
          (upd_port i (\<lambda>p.
             if p_role p = NOTASSIGNED then set_upgrade (r_now s + r_migrateTime s) p
             else if p_role p = DESIGNATED \<and> (p_state p = DISCARDING \<or> p_state p = LEARNING)
             then set_upgrade (r_now s + r_forwardDelay s) p
             else p) s)
      else Some s)"

definition rstp_start :: "mac_address \<Rightarrow> rstp \<Rightarrow> rstp option" where
  "rstp_start bridge s =
     do {
       s \<leftarrow> initPorts (s\<lparr>r_bridgeAddress := bridge\<rparr>);
       Some (s\<lparr>r_helloTimer := Some (r_now s)\<rparr>)
     }"

definition rstp_stop :: "rstp \<Rightarrow> rstp" where
  "rstp_stop s = s\<lparr>r_helloTimer := None, r_upgradeTimer := None\<rparr>"

text \<open>
  \<open>handleMessageWhenUp\<close> and the signal handler, one event at a time. A timer event finds its timer
  no longer scheduled, since the kernel has just delivered it.
\<close>

datatype rstp_event =
    FrameArrival mac_address bpdu int
  | HelloTime
  | Upgrade
  | CarrierChange int bool

fun rstp_handle :: "rstp_event \<Rightarrow> rstp \<Rightarrow> rstp option" where
  "rstp_handle (FrameArrival src frame a) s = handleIncomingFrame src frame a s"
| "rstp_handle HelloTime s = handleHelloTime (s\<lparr>r_helloTimer := None\<rparr>)"
| "rstp_handle Upgrade s = handleUpgrade (s\<lparr>r_upgradeTimer := None\<rparr>)"
| "rstp_handle (CarrierChange i up) s = carrier_changed i (s\<lparr>r_carrier := (r_carrier s)(i := up)\<rparr>)"

end
