(* ===== verification/Rstp_Invariant.thy ===== *)
theory Rstp_Invariant
  imports Rstp
begin

text \<open>
  Invariants of the RSTP module: at most one root port, roles and states that fit together, and an
  upgrade timer that is armed for, and never later than, every pending upgrade. Operations that
  touch only the filtering database, the stored vectors, the topology change timers or the output
  are \<open>neutral\<close>: they leave roles, states, upgrade times and the configuration alone.
\<close>

section \<open>Neutral operations\<close>

definition neutral :: "rstp \<Rightarrow> rstp \<Rightarrow> bool" where
  "neutral s t \<longleftrightarrow>
     r_now t = r_now s \<and> r_ids t = r_ids s \<and> r_carrier t = r_carrier s \<and>
     r_forwardDelay t = r_forwardDelay s \<and> r_migrateTime t = r_migrateTime s \<and>
     r_bridgeAddress t = r_bridgeAddress s \<and> r_bridgePriority t = r_bridgePriority s \<and>
     r_maxAge t = r_maxAge s \<and> r_helloTime t = r_helloTime s \<and>
     r_upgradeTimer t = r_upgradeTimer s \<and> r_helloTimer t = r_helloTimer s \<and>
     (\<forall>i. p_role (r_ports t i) = p_role (r_ports s i) \<and>
          p_state (r_ports t i) = p_state (r_ports s i) \<and>
          p_nextUpgrade (r_ports t i) = p_nextUpgrade (r_ports s i) \<and>
          p_edge (r_ports t i) = p_edge (r_ports s i))"

lemma neutralD:
  assumes "neutral s t"
  shows "r_now t = r_now s" "r_ids t = r_ids s" "r_carrier t = r_carrier s"
    "r_forwardDelay t = r_forwardDelay s" "r_migrateTime t = r_migrateTime s"
    "r_bridgeAddress t = r_bridgeAddress s" "r_bridgePriority t = r_bridgePriority s"
    "r_maxAge t = r_maxAge s" "r_helloTime t = r_helloTime s"
    "r_upgradeTimer t = r_upgradeTimer s" "r_helloTimer t = r_helloTimer s"
    "p_role (r_ports t i) = p_role (r_ports s i)"
    "p_state (r_ports t i) = p_state (r_ports s i)"
    "p_nextUpgrade (r_ports t i) = p_nextUpgrade (r_ports s i)"
    "p_edge (r_ports t i) = p_edge (r_ports s i)"
  using assms by (simp_all add: neutral_def)

lemma neutral_refl [simp]: "neutral s s"
  by (simp add: neutral_def)

lemma neutral_trans: "neutral s t \<Longrightarrow> neutral t u \<Longrightarrow> neutral s u"
  by (simp add: neutral_def)

lemma neutral_upd_mac: "neutral s (upd_mac f s)"
  by (simp add: neutral_def upd_mac_def)

lemma neutral_sendOut: "neutral s (sendOut i b s)"
  by (simp add: neutral_def sendOut_def)

lemma neutral_upd_port:
  assumes "\<And>p. p_role (f p) = p_role p \<and> p_state (f p) = p_state p \<and>
      p_nextUpgrade (f p) = p_nextUpgrade p \<and> p_edge (f p) = p_edge p"
  shows "neutral s (upd_port i f s)"
  using assms by (simp add: neutral_def upd_port_def)

lemma neutral_lost: "neutral s (upd_port i (set_lost n) s)"
  by (rule neutral_upd_port) (simp add: set_lost_def)

lemma neutral_TCWhile: "neutral s (upd_port i (\<lambda>p. p\<lparr>p_TCWhile := t\<rparr>) s)"
  by (rule neutral_upd_port) simp

lemma neutral_init: "neutral s (initInterfacedata i s)"
  unfolding initInterfacedata_def by (rule neutral_upd_port) simp

lemma neutral_update: "neutral s (updateInterfacedata b i s)"
  unfolding updateInterfacedata_def by (rule neutral_upd_port) simp

lemma neutral_fold:
  assumes "\<And>x t. neutral t (f x t)"
  shows "neutral s (fold f xs s)"
  by (rule fold_inv) (auto intro: neutral_trans assms)

lemma neutral_flush: "neutral s (flushOtherPorts a s)"
  unfolding flushOtherPorts_def
  by (rule neutral_fold)
    (auto simp: flush_port_def Let_def intro: neutral_TCWhile neutral_trans neutral_upd_mac)

lemma neutral_TCN: "neutral s (sendTCNtoRoot s)"
  by (simp add: sendTCNtoRoot_def Let_def neutral_sendOut)

lemma neutral_remove_all:
  "neutral s (fold (\<lambda>j. upd_mac (removeForwardingInterface j)) js s)"
  by (rule neutral_fold) (rule neutral_upd_mac)

lemmas upd_mac_simps [simp] = neutralD [OF neutral_upd_mac]
lemmas init_simps [simp] = neutralD [OF neutral_init]
lemmas update_simps [simp] = neutralD [OF neutral_update]
lemmas flush_simps [simp] = neutralD [OF neutral_flush]
lemmas lost_simps [simp] = neutralD [OF neutral_lost]
lemmas TCN_simps [simp] = neutralD [OF neutral_TCN]
lemmas remove_all_simps [simp] = neutralD [OF neutral_remove_all]

lemma upd_port_simps [simp]:
  "r_now (upd_port i f s) = r_now s" "r_ids (upd_port i f s) = r_ids s"
  "r_carrier (upd_port i f s) = r_carrier s"
  "r_forwardDelay (upd_port i f s) = r_forwardDelay s"
  "r_migrateTime (upd_port i f s) = r_migrateTime s"
  "r_tcWhileTime (upd_port i f s) = r_tcWhileTime s"
  "r_bridgeAddress (upd_port i f s) = r_bridgeAddress s"
  "r_bridgePriority (upd_port i f s) = r_bridgePriority s"
  "r_maxAge (upd_port i f s) = r_maxAge s" "r_helloTime (upd_port i f s) = r_helloTime s"
  "r_upgradeTimer (upd_port i f s) = r_upgradeTimer s"
  "r_helloTimer (upd_port i f s) = r_helloTimer s"
  by (simp_all add: upd_port_def)

lemma r_ports_upd_port:
  "r_ports (upd_port i f s) j = (if j = i then f (r_ports s i) else r_ports s j)"
  by (simp add: upd_port_def)

lemma set_role_simps [simp]:
  "p_role (set_role ro st p) = ro" "p_state (set_role ro st p) = st"
  "p_nextUpgrade (set_role ro st p) = p_nextUpgrade p" "p_edge (set_role ro st p) = p_edge p"
  "p_role (set_upgrade t p) = p_role p" "p_state (set_upgrade t p) = p_state p"
  "p_nextUpgrade (set_upgrade t p) = t" "p_edge (set_upgrade t p) = p_edge p"
  "p_role (set_lost n p) = p_role p" "p_state (set_lost n p) = p_state p"
  "p_nextUpgrade (set_lost n p) = p_nextUpgrade p" "p_edge (set_lost n p) = p_edge p"
  by (simp_all add: set_role_def set_upgrade_def set_lost_def)

text \<open>Sending a BPDU to a known port never fails and is neutral.\<close>

lemma sendBPDU_ok: "i \<in> set (r_ids s) \<Longrightarrow> \<exists>t. sendBPDU i s = Some t \<and> neutral s t"
  by (auto simp: sendBPDU_def getPortInterfaceData_def Let_def intro: neutral_sendOut)

lemma sendBPDU_neutral: "sendBPDU i s = Some t \<Longrightarrow> neutral s t"
  by (auto simp: sendBPDU_def getPortInterfaceData_def Let_def neutral_sendOut
      split: if_splits)

lemma sendBPDUs_ok: "\<exists>t. sendBPDUs s = Some t \<and> neutral s t"
proof -
  have "\<exists>t. fold_opt (\<lambda>i s. if sends_bpdu (r_ports s i) then sendBPDU i s else Some s) is u = Some t
      \<and> neutral s t"
    if "neutral s u" "set is \<subseteq> set (r_ids s)" for "is" u
    using that
  proof (induction "is" arbitrary: u)
    case Nil
    then show ?case by simp
  next
    case (Cons i "is")
    from Cons.prems have "i \<in> set (r_ids u)" by (simp add: neutralD(2))
    then have "\<exists>v. (if sends_bpdu (r_ports u i) then sendBPDU i u else Some u) = Some v \<and> neutral u v"
      using sendBPDU_ok[of i u] by simp
    then obtain v where v: "(if sends_bpdu (r_ports u i) then sendBPDU i u else Some u) = Some v"
      "neutral u v" by blast
    from Cons.IH[of v] Cons.prems v show ?case by (auto intro: neutral_trans)
  qed
  from this[of s "r_ids s"] show ?thesis by (simp add: sendBPDUs_def)
qed

section \<open>The invariants\<close>

definition wf_rstp :: "rstp \<Rightarrow> bool" where
  "wf_rstp s \<longleftrightarrow> distinct (r_ids s) \<and> (\<forall>i \<in> set (r_ids s). 0 \<le> i) \<and>
     0 \<le> r_forwardDelay s \<and> 0 \<le> r_migrateTime s"

definition one_root :: "rstp \<Rightarrow> bool" where
  "one_root s \<longleftrightarrow> (\<forall>i \<in> set (r_ids s). \<forall>j \<in> set (r_ids s).
     p_role (r_ports s i) = ROOT \<longrightarrow> p_role (r_ports s j) = ROOT \<longrightarrow> i = j)"

text \<open>A root port forwards; alternate, backup, disabled and unassigned ports discard.\<close>

definition role_fits_state :: "port_info \<Rightarrow> bool" where
  "role_fits_state p \<longleftrightarrow>
     (p_role p = ROOT \<longrightarrow> p_state p = FORWARDING) \<and>
     (p_role p \<in> {ALTERNATE, BACKUP, DISABLED, NOTASSIGNED} \<longrightarrow> p_state p = DISCARDING)"

definition edge_quiet :: "rstp \<Rightarrow> bool" where
  "edge_quiet s \<longleftrightarrow> (\<forall>i \<in> set (r_ids s). p_edge (r_ports s i) \<longrightarrow>
     p_role (r_ports s i) \<noteq> ROOT \<and> p_role (r_ports s i) \<noteq> ALTERNATE)"

definition pending :: "rstp \<Rightarrow> int \<Rightarrow> bool" where
  "pending s i \<longleftrightarrow> i \<in> set (r_ids s) \<and> r_carrier s i \<and> upgrade_candidate (r_ports s i)"

definition no_past_upgrade :: "rstp \<Rightarrow> bool" where
  "no_past_upgrade s \<longleftrightarrow> (\<forall>i. pending s i \<longrightarrow> r_now s \<le> p_nextUpgrade (r_ports s i))"

definition timer_armed :: "rstp \<Rightarrow> bool" where
  "timer_armed s \<longleftrightarrow> (\<forall>i. pending s i \<longrightarrow>
     (\<exists>t. r_upgradeTimer s = Some t \<and> t \<le> p_nextUpgrade (r_ports s i)))"

definition port_inv :: "rstp \<Rightarrow> bool" where
  "port_inv s \<longleftrightarrow> wf_rstp s \<and> one_root s \<and> edge_quiet s \<and>
     (\<forall>i \<in> set (r_ids s). role_fits_state (r_ports s i)) \<and> no_past_upgrade s"

definition rstp_inv :: "rstp \<Rightarrow> bool" where
  "rstp_inv s \<longleftrightarrow> port_inv s \<and> timer_armed s"

text \<open>An alternate port only exists beside a root port.\<close>

definition alternate_has_root :: "rstp \<Rightarrow> bool" where
  "alternate_has_root s \<longleftrightarrow>
     (\<exists>i \<in> set (r_ids s). p_role (r_ports s i) = ALTERNATE) \<longrightarrow>
     (\<exists>i \<in> set (r_ids s). p_role (r_ports s i) = ROOT)"

lemmas inv_defs = port_inv_def wf_rstp_def one_root_def edge_quiet_def role_fits_state_def
  no_past_upgrade_def pending_def upgrade_candidate_def

lemma neutral_candidate: "neutral s t \<Longrightarrow> upgrade_candidate (r_ports t i) = upgrade_candidate (r_ports s i)"
  by (simp add: upgrade_candidate_def neutralD)

lemma neutral_port_inv: "neutral s t \<Longrightarrow> port_inv t \<longleftrightarrow> port_inv s"
  by (simp add: inv_defs neutralD)

lemma neutral_timer: "neutral s t \<Longrightarrow> timer_armed t \<longleftrightarrow> timer_armed s"
  by (simp add: timer_armed_def pending_def neutralD neutral_candidate)

lemma neutral_rstp_inv: "neutral s t \<Longrightarrow> rstp_inv t \<longleftrightarrow> rstp_inv s"
  by (simp add: rstp_inv_def neutral_port_inv neutral_timer)

lemma neutral_alt: "neutral s t \<Longrightarrow> alternate_has_root t \<longleftrightarrow> alternate_has_root s"
  by (simp add: alternate_has_root_def neutralD)

section \<open>The upgrade timer\<close>

text \<open>The scan for the next upgrade is a best-element scan over upgrade times.\<close>

definition earlier :: "port_info \<Rightarrow> port_info \<Rightarrow> bool" where
  "earlier p q \<longleftrightarrow> p_nextUpgrade p < p_nextUpgrade q"

interpretation upgrade_order: vector_order earlier p_nextUpgrade
  by unfold_locales (simp add: earlier_def)

lemma next_upgrade_port_Some:
  "next_upgrade_port s = Some k \<Longrightarrow> pending s k \<and>
     (\<forall>i. pending s i \<longrightarrow> p_nextUpgrade (r_ports s k) \<le> p_nextUpgrade (r_ports s i))"
  using upgrade_order.scan_best[of "\<lambda>i. r_carrier s i \<and> upgrade_candidate (r_ports s i)"
      "r_ports s" "r_ids s" None k, unfolded earlier_def]
  by (auto simp: next_upgrade_port_def pending_def not_less)

lemma next_upgrade_port_None: "next_upgrade_port s = None \<Longrightarrow> \<not> pending s i"
  using upgrade_order.scan_none[of "\<lambda>i. r_carrier s i \<and> upgrade_candidate (r_ports s i)"
      "r_ports s" "r_ids s" None, unfolded earlier_def]
  by (auto simp: next_upgrade_port_def pending_def)

definition with_timer :: "rstp \<Rightarrow> rstp \<Rightarrow> bool" where
  "with_timer s t \<longleftrightarrow> (\<exists>u. t = s\<lparr>r_upgradeTimer := u\<rparr>) \<and> timer_armed t"

lemma schedule_Some: "scheduleNextUpgrade s = Some t \<Longrightarrow> with_timer s t"
  using next_upgrade_port_Some[of s] next_upgrade_port_None[of s]
  by (fastforce simp: scheduleNextUpgrade_def with_timer_def timer_armed_def pending_def
      split: option.splits if_splits)

text \<open>Scheduling never reaches into the past while pending upgrades lie in the future.\<close>

lemma schedule_ok:
  assumes "no_past_upgrade s"
  shows "\<exists>t. scheduleNextUpgrade s = Some t \<and> with_timer s t"
proof -
  have "\<exists>t. scheduleNextUpgrade s = Some t"
    using assms next_upgrade_port_Some[of s]
    by (fastforce simp: scheduleNextUpgrade_def no_past_upgrade_def split: option.splits)
  then show ?thesis using schedule_Some by blast
qed

section \<open>Shared steps\<close>

definition same_cfg :: "rstp \<Rightarrow> rstp \<Rightarrow> bool" where
  "same_cfg s t \<longleftrightarrow> r_now t = r_now s \<and> r_ids t = r_ids s \<and> r_carrier t = r_carrier s \<and>
     r_bridgeAddress t = r_bridgeAddress s \<and> r_maxAge t = r_maxAge s \<and>
     r_helloTime t = r_helloTime s \<and> r_helloTimer t = r_helloTimer s \<and>
     (\<forall>i. p_edge (r_ports t i) = p_edge (r_ports s i))"

lemma same_cfg_refl [simp]: "same_cfg s s"
  by (simp add: same_cfg_def)

lemma same_cfg_trans: "same_cfg s t \<Longrightarrow> same_cfg t u \<Longrightarrow> same_cfg s u"
  by (simp add: same_cfg_def)

lemma neutral_same_cfg: "neutral s t \<Longrightarrow> same_cfg s t"
  by (simp add: same_cfg_def neutralD)

text \<open>What every handler establishes: the invariants, and the configuration untouched.\<close>

definition settled :: "rstp \<Rightarrow> rstp \<Rightarrow> bool" where
  "settled s t \<longleftrightarrow> rstp_inv t \<and> alternate_has_root t \<and> same_cfg s t"

lemma settled_neutral: "settled s t \<Longrightarrow> neutral t u \<Longrightarrow> settled s u"
  by (auto simp: settled_def neutral_rstp_inv neutral_alt intro: same_cfg_trans neutral_same_cfg)

lemma settled_trans: "settled s t \<Longrightarrow> settled t u \<Longrightarrow> settled s u"
  by (auto simp: settled_def intro: same_cfg_trans)

lemma settled_pre: "neutral s s' \<Longrightarrow> settled s' t \<Longrightarrow> settled s t"
  by (auto simp: settled_def intro: same_cfg_trans neutral_same_cfg)

lemma find_SomeD: "find P xs = Some x \<Longrightarrow> x \<in> set xs \<and> P x"
  by (auto simp: find_Some_iff)

lemma getRoot_cases:
  obtains (none) "getRootInterfaceId s = -1" "\<forall>i \<in> set (r_ids s). p_role (r_ports s i) \<noteq> ROOT"
  | (root) "getRootInterfaceId s \<in> set (r_ids s)" "p_role (r_ports s (getRootInterfaceId s)) = ROOT"
proof (cases "find (\<lambda>i. p_role (r_ports s i) = ROOT) (r_ids s)")
  case None
  with none show ?thesis by (simp add: getRootInterfaceId_def find_None_iff)
next
  case (Some k)
  with root find_SomeD[OF Some] show ?thesis by (simp add: getRootInterfaceId_def)
qed

lemma getRoot_none:
  "\<forall>i \<in> set (r_ids s). 0 \<le> i \<Longrightarrow>
   getRootInterfaceId s = -1 \<longleftrightarrow> (\<forall>i \<in> set (r_ids s). p_role (r_ports s i) \<noteq> ROOT)"
  by (cases rule: getRoot_cases[of s]) fastforce+

lemma getRoot_some:
  assumes "i \<in> set (r_ids s)" "p_role (r_ports s i) = ROOT"
  shows "getRootInterfaceId s \<in> set (r_ids s) \<and> p_role (r_ports s (getRootInterfaceId s)) = ROOT"
  using assms by (cases rule: getRoot_cases[of s]) auto

lemma getRoot_root:
  assumes "wf_rstp s" "getRootInterfaceId s \<noteq> -1"
  shows "getRootInterfaceId s \<in> set (r_ids s) \<and> p_role (r_ports s (getRootInterfaceId s)) = ROOT"
  using assms getRoot_none[of s] getRoot_some[of _ s] by (auto simp: wf_rstp_def)

lemma contest_ok:
  assumes "i \<in> set (r_ids s)" "p_role (r_ports s i) = ROOT" "j \<in> set (r_ids s)"
  shows "\<exists>c. contest_port s j = Some c" "\<exists>c. contest_frame s b j = Some c"
  using getRoot_some[OF assms(1,2)] assms(3)
  by (simp_all add: contest_port_def contest_frame_def getPortInterfaceData_def)

lemma compareInterfacedata_ok:
  "j \<in> set (r_ids s) \<Longrightarrow> \<exists>c. compareInterfacedata s j b l = Some c"
  by (simp add: compareInterfacedata_def getPortInterfaceData_def)

lemma become_designated_ok:
  assumes "no_past_upgrade s" "0 \<le> r_forwardDelay s"
  shows "\<exists>u. become_designated a s = Some ((upd_port a (\<lambda>p. set_upgrade (r_now s + r_forwardDelay s)
      (set_role DESIGNATED DISCARDING p)) s)\<lparr>r_upgradeTimer := u\<rparr>) \<and>
    timer_armed ((upd_port a (\<lambda>p. set_upgrade (r_now s + r_forwardDelay s)
      (set_role DESIGNATED DISCARDING p)) s)\<lparr>r_upgradeTimer := u\<rparr>)"
proof -
  let ?s = "upd_port a (\<lambda>p. set_upgrade (r_now s + r_forwardDelay s) (set_role DESIGNATED DISCARDING p)) s"
  have "no_past_upgrade ?s"
    using assms by (auto simp: no_past_upgrade_def pending_def r_ports_upd_port)
  from schedule_ok[OF this] show ?thesis
    by (auto simp: become_designated_def with_timer_def)
qed

lemma getBestAlternate_Some:
  "getBestAlternate s = Some c \<Longrightarrow> c \<in> set (r_ids s) \<and> p_role (r_ports s c) = ALTERNATE \<and>
     (\<forall>i \<in> set (r_ids s). p_role (r_ports s i) = ALTERNATE \<longrightarrow>
        \<not> better_rstp (r_ports s i) (r_ports s c))"
  using rstp_vec.scan_best[of "\<lambda>j. p_role (r_ports s j) = ALTERNATE" "r_ports s" "r_ids s" None c]
  by (auto simp: getBestAlternate_def)

lemma getBestAlternate_None:
  "getBestAlternate s = None \<longleftrightarrow> (\<forall>i \<in> set (r_ids s). p_role (r_ports s i) \<noteq> ALTERNATE)"
  using rstp_vec.scan_none[of "\<lambda>j. p_role (r_ports s j) = ALTERNATE" "r_ports s" "r_ids s" None]
  by (auto simp: getBestAlternate_def)

section \<open>Port initialisation\<close>

lemma init_port_cfg:
  "same_cfg s (init_port j s)" "r_forwardDelay (init_port j s) = r_forwardDelay s"
  "r_migrateTime (init_port j s) = r_migrateTime s"
  by (auto simp: same_cfg_def r_ports_upd_port init_port_def Let_def)

lemma init_port_role:
  "p_role (r_ports (init_port j s) i) = (if i = j then if p_edge (r_ports s j) then DESIGNATED
     else NOTASSIGNED else p_role (r_ports s i))"
  "p_state (r_ports (init_port j s) i) = (if i = j then if p_edge (r_ports s j) then FORWARDING
     else DISCARDING else p_state (r_ports s i))"
  "p_nextUpgrade (r_ports (init_port j s) i) = (if i = j \<and> \<not> p_edge (r_ports s j)
     then r_now s + r_migrateTime s else p_nextUpgrade (r_ports s i))"
  by (auto simp: r_ports_upd_port init_port_def Let_def)

definition initialised :: "rstp \<Rightarrow> rstp \<Rightarrow> int \<Rightarrow> bool" where
  "initialised s t i \<longleftrightarrow>
     p_role (r_ports t i) = (if p_edge (r_ports s i) then DESIGNATED else NOTASSIGNED) \<and>
     p_state (r_ports t i) = (if p_edge (r_ports s i) then FORWARDING else DISCARDING) \<and>
     (\<not> p_edge (r_ports s i) \<longrightarrow> p_nextUpgrade (r_ports t i) = r_now s + r_migrateTime s)"

lemma init_loop:
  "same_cfg s (fold init_port is s) \<and> r_forwardDelay (fold init_port is s) = r_forwardDelay s \<and>
   r_migrateTime (fold init_port is s) = r_migrateTime s \<and>
   (\<forall>i \<in> set is. initialised s (fold init_port is s) i)"
proof (induction "is" rule: rev_induct)
  case Nil
  then show ?case by simp
next
  case (snoc j js)
  let ?t = "fold init_port js s"
  have "same_cfg s (init_port j ?t)"
    using snoc init_port_cfg(1) by (blast intro: same_cfg_trans)
  moreover have "initialised s (init_port j ?t) i" if "i \<in> set js \<or> i = j" for i
    using that snoc by (auto simp: initialised_def init_port_role same_cfg_def)
  ultimately show ?case using snoc by (simp add: init_port_cfg)
qed

end
