(* ===== verification/Rstp_Steps.thy ===== *)
theory Rstp_Steps
  imports Rstp_Invariant
begin

text \<open>
  Every branch of the RSTP handlers, applied to a state that satisfies the invariants, returns
  normally and restores the invariants (\<open>settled\<close>). The proofs go branch by branch; each ends in
  an invariant check over the explicit role changes of the branch.
\<close>

section \<open>Initialisation\<close>

lemma init_loop_inv:
  assumes "wf_rstp s" and t: "t = fold init_port (r_ids s) s"
  shows "port_inv t \<and> alternate_has_root t \<and> same_cfg s t"
proof -
  have l: "same_cfg s t" "r_forwardDelay t = r_forwardDelay s" "r_migrateTime t = r_migrateTime s"
    "\<forall>i \<in> set (r_ids s). initialised s t i"
    using init_loop[of s "r_ids s"] t by simp_all
  from l(1) have c: "r_ids t = r_ids s" "r_now t = r_now s"
    "\<And>i. p_edge (r_ports t i) = p_edge (r_ports s i)" by (simp_all add: same_cfg_def)
  have "role_fits_state (r_ports t i)" if "i \<in> set (r_ids s)" for i
    using l(4) that by (auto simp: role_fits_state_def initialised_def)
  moreover have "p_role (r_ports t i) \<noteq> ROOT \<and> p_role (r_ports t i) \<noteq> ALTERNATE"
    if "i \<in> set (r_ids s)" for i
    using l(4) that by (auto simp: initialised_def)
  moreover have "r_now t \<le> p_nextUpgrade (r_ports t i)" if "pending t i" for i
    using l(4) that assms(1) c by (auto simp: pending_def upgrade_candidate_def initialised_def
        wf_rstp_def split: if_splits)
  ultimately show ?thesis
    using assms(1) l c
    by (auto simp: port_inv_def wf_rstp_def one_root_def edge_quiet_def no_past_upgrade_def
        alternate_has_root_def)
qed

lemma port_inv_timer [simp]:
  "port_inv (s\<lparr>r_upgradeTimer := u\<rparr>) = port_inv s"
  "alternate_has_root (s\<lparr>r_upgradeTimer := u\<rparr>) = alternate_has_root s"
  "same_cfg s' (s\<lparr>r_upgradeTimer := u\<rparr>) = same_cfg s' s"
  by (simp_all add: inv_defs alternate_has_root_def same_cfg_def)

lemma with_timer_settled:
  assumes "port_inv t" "alternate_has_root t" "same_cfg s t" "with_timer t u"
  shows "settled s u"
proof -
  obtain x where "u = t\<lparr>r_upgradeTimer := x\<rparr>" "timer_armed u"
    using assms(4) by (auto simp: with_timer_def)
  with assms(1-3) show ?thesis by (simp add: settled_def rstp_inv_def)
qed

lemma port_inv_past: "port_inv s \<Longrightarrow> no_past_upgrade s"
  by (simp add: port_inv_def)

lemma reschedule_settled:
  assumes "port_inv t" "alternate_has_root t" "same_cfg s t"
  shows "\<exists>u. scheduleNextUpgrade t = Some u \<and> settled s u"
  using schedule_ok[OF port_inv_past[OF assms(1)]] with_timer_settled[OF assms] by blast

lemma initPorts_ok:
  assumes "wf_rstp s"
  shows "\<exists>t. initPorts s = Some t \<and> settled s t \<and> (\<forall>i \<in> set (r_ids t). p_role (r_ports t i) \<noteq> ROOT)"
proof -
  let ?t = "fold init_port (r_ids s) s"
  have i: "port_inv ?t" "alternate_has_root ?t" "same_cfg s ?t"
    using init_loop_inv[OF assms refl] by simp_all
  obtain u where u: "scheduleNextUpgrade ?t = Some u" "with_timer ?t u"
    using schedule_ok[OF port_inv_past[OF i(1)]] by blast
  have "settled s u" using with_timer_settled[OF i u(2)] .
  moreover have "\<forall>j \<in> set (r_ids u). p_role (r_ports u j) \<noteq> ROOT"
    using u(2) init_loop[of s "r_ids s"] i(3)
    by (auto simp: with_timer_def initialised_def same_cfg_def split: if_splits)
  ultimately show ?thesis using u(1) by (auto simp: initPorts_def)
qed

lemma port_inv_wf: "port_inv s \<Longrightarrow> wf_rstp s"
  by (simp add: port_inv_def)

section \<open>Role changes\<close>

text \<open>
  \<open>keeps C s t\<close>: outside \<open>C\<close> no port has changed its role, state or upgrade time. The invariants of
  \<open>t\<close> then only have to be checked at the ports of \<open>C\<close>.
\<close>

definition keeps :: "int set \<Rightarrow> rstp \<Rightarrow> rstp \<Rightarrow> bool" where
  "keeps C s t \<longleftrightarrow> same_cfg s t \<and> r_forwardDelay t = r_forwardDelay s \<and>
     r_migrateTime t = r_migrateTime s \<and>
     (\<forall>i. i \<notin> C \<longrightarrow> p_role (r_ports t i) = p_role (r_ports s i) \<and>
        p_state (r_ports t i) = p_state (r_ports s i) \<and>
        p_nextUpgrade (r_ports t i) = p_nextUpgrade (r_ports s i))"

definition port_ok :: "rstp \<Rightarrow> rstp \<Rightarrow> int \<Rightarrow> bool" where
  "port_ok s t i \<longleftrightarrow> role_fits_state (r_ports t i) \<and>
     (p_role (r_ports t i) = ROOT \<or> p_role (r_ports t i) = ALTERNATE \<longrightarrow> \<not> p_edge (r_ports s i)) \<and>
     (pending t i \<longrightarrow> r_now s \<le> p_nextUpgrade (r_ports t i))"

lemma keeps_cfg:
  assumes "keeps C s t"
  shows "r_ids t = r_ids s" "r_now t = r_now s" "same_cfg s t" "r_carrier t = r_carrier s"
    "r_forwardDelay t = r_forwardDelay s" "r_migrateTime t = r_migrateTime s"
    "\<And>i. p_edge (r_ports t i) = p_edge (r_ports s i)"
    "\<And>i. i \<notin> C \<Longrightarrow> p_role (r_ports t i) = p_role (r_ports s i)"
    "\<And>i. i \<notin> C \<Longrightarrow> p_state (r_ports t i) = p_state (r_ports s i)"
    "\<And>i. i \<notin> C \<Longrightarrow> p_nextUpgrade (r_ports t i) = p_nextUpgrade (r_ports s i)"
  using assms by (simp_all add: keeps_def same_cfg_def)

lemma keeps_pending: "keeps C s t \<Longrightarrow> i \<notin> C \<Longrightarrow> pending t i = pending s i"
  by (simp add: pending_def upgrade_candidate_def keeps_cfg)

lemma keeps_port_inv:
  assumes "port_inv s" "keeps C s t" "\<forall>i \<in> C. i \<in> set (r_ids s) \<longrightarrow> port_ok s t i" "one_root t"
  shows "port_inv t"
proof -
  note k = keeps_cfg[OF assms(2)]
  have "role_fits_state (r_ports t i)" if "i \<in> set (r_ids s)" for i
    using assms(1,3) that k(8,9)[of i]
    by (cases "i \<in> C") (auto simp: port_ok_def port_inv_def role_fits_state_def)
  moreover have "p_role (r_ports t i) = ROOT \<or> p_role (r_ports t i) = ALTERNATE \<longrightarrow> \<not> p_edge (r_ports s i)" if "i \<in> set (r_ids s)" for i
    using assms(1,3) that k(8)[of i]
    by (cases "i \<in> C") (auto simp: port_ok_def port_inv_def edge_quiet_def)
  moreover have "r_now s \<le> p_nextUpgrade (r_ports t i)" if "pending t i" for i
  proof (cases "i \<in> C")
    case True
    with assms(3) that k(1) show ?thesis by (auto simp: port_ok_def pending_def)
  next
    case False
    with assms(1) that keeps_pending[OF assms(2) False] k(10) show ?thesis
      by (auto simp: port_inv_def no_past_upgrade_def)
  qed
  ultimately show ?thesis using assms(1,4) k
    by (auto simp: port_inv_def wf_rstp_def edge_quiet_def no_past_upgrade_def)
qed

text \<open>One port ends as the only root: the normal result of an election.\<close>

lemma elect:
  assumes "port_inv s" "keeps C s t" "\<forall>i \<in> C. i \<in> set (r_ids s) \<longrightarrow> port_ok s t i"
    and "k \<in> set (r_ids s)" "p_role (r_ports t k) = ROOT"
    and "\<And>i. i \<in> set (r_ids s) \<Longrightarrow> p_role (r_ports s i) = ROOT \<Longrightarrow> i \<in> C"
    and "\<And>i. i \<in> C \<Longrightarrow> p_role (r_ports t i) = ROOT \<Longrightarrow> i = k"
  shows "port_inv t \<and> alternate_has_root t \<and> same_cfg s t"
proof -
  have "i = k" if "i \<in> set (r_ids s)" "p_role (r_ports t i) = ROOT" for i
    using that assms(6,7)[of i] keeps_cfg(8)[OF assms(2), of i] by (cases "i \<in> C") auto
  then have "one_root t" unfolding one_root_def keeps_cfg(1)[OF assms(2)] by metis
  with keeps_port_inv[OF assms(1-3)] assms(4,5) keeps_cfg(1,3)[OF assms(2)] show ?thesis
    by (auto simp: alternate_has_root_def)
qed

text \<open>A port other than the root gives up its role.\<close>

lemma demote:
  assumes "port_inv s" "alternate_has_root s" "keeps {i} s t" "port_ok s t i"
    and "p_role (r_ports s i) \<noteq> ROOT" "p_role (r_ports t i) \<noteq> ROOT" "p_role (r_ports t i) \<noteq> ALTERNATE"
  shows "port_inv t \<and> alternate_has_root t \<and> same_cfg s t"
proof -
  note k = keeps_cfg[OF assms(3)]
  have r: "p_role (r_ports t j) = ROOT \<longleftrightarrow> p_role (r_ports s j) = ROOT" for j
    using k(8)[of j] assms(5,6) by (cases "j = i") auto
  have "one_root t" using assms(1) k(1) r by (simp add: one_root_def port_inv_def)
  moreover have "alternate_has_root t"
    using assms(2,7) k(1) r k(8) by (auto simp: alternate_has_root_def) (metis singletonD)
  ultimately show ?thesis
    using keeps_port_inv[OF assms(1,3)] assms(4) k(3) by auto
qed

lemma keeps_upd_port: "(\<And>p. p_edge (f p) = p_edge p) \<Longrightarrow> keeps {i} s (upd_port i f s)"
  by (auto simp: keeps_def same_cfg_def r_ports_upd_port)

lemma keeps_neutral: "neutral s t \<Longrightarrow> keeps {} s t"
  by (auto simp: keeps_def same_cfg_def neutralD)

lemma keeps_timer: "keeps {} s (s\<lparr>r_upgradeTimer := u\<rparr>)"
  by (auto simp: keeps_def same_cfg_def)

lemma keeps_trans: "keeps C s t \<Longrightarrow> keeps D t u \<Longrightarrow> keeps (C \<union> D) s u"
  by (auto simp: keeps_def same_cfg_def)

lemma keeps_mono: "keeps C s t \<Longrightarrow> C \<subseteq> D \<Longrightarrow> keeps D s t"
  by (auto simp: keeps_def)

lemma armed_mono:
  assumes "timer_armed s" "r_upgradeTimer t = r_upgradeTimer s"
    and "\<And>i. pending t i \<Longrightarrow> pending s i \<and> p_nextUpgrade (r_ports t i) = p_nextUpgrade (r_ports s i)"
  shows "timer_armed t"
  using assms by (fastforce simp: timer_armed_def)

lemma keeps_armed:
  assumes "timer_armed s" "keeps C s t" "r_upgradeTimer t = r_upgradeTimer s" "\<forall>i \<in> C. \<not> pending t i"
  shows "timer_armed t"
  using assms(1,3)
proof (rule armed_mono)
  fix i assume p: "pending t i"
  with assms(4) have "i \<notin> C" by auto
  with p show "pending s i \<and> p_nextUpgrade (r_ports t i) = p_nextUpgrade (r_ports s i)"
    using keeps_pending[OF assms(2)] keeps_cfg(10)[OF assms(2)] by auto
qed

lemma settledI: "port_inv t \<and> alternate_has_root t \<and> same_cfg s t \<Longrightarrow> timer_armed t \<Longrightarrow> settled s t"
  by (simp add: settled_def rstp_inv_def)

lemma settled_refl: "rstp_inv s \<Longrightarrow> alternate_has_root s \<Longrightarrow> settled s s"
  by (simp add: settled_def)

text \<open>What a candidate for promotion is known to satisfy.\<close>

lemma root_unique:
  "port_inv s \<Longrightarrow> r \<in> set (r_ids s) \<Longrightarrow> p_role (r_ports s r) = ROOT \<Longrightarrow>
   i \<in> set (r_ids s) \<Longrightarrow> p_role (r_ports s i) = ROOT \<Longrightarrow> i = r"
  by (auto simp: port_inv_def one_root_def)

lemma root_not_pending: "p_role (r_ports s i) \<in> {ROOT, ALTERNATE, BACKUP} \<Longrightarrow> \<not> pending s i"
  by (auto simp: pending_def upgrade_candidate_def)

lemma root_not_edge:
  "port_inv s \<Longrightarrow> r \<in> set (r_ids s) \<Longrightarrow> p_role (r_ports s r) = ROOT \<Longrightarrow> \<not> p_edge (r_ports s r)"
  by (auto simp: port_inv_def edge_quiet_def)

lemma port_okI:
  "p_role (r_ports t i) = ROOT \<Longrightarrow> p_state (r_ports t i) = FORWARDING \<Longrightarrow> \<not> p_edge (r_ports s i) \<Longrightarrow> port_ok s t i"
  "p_role (r_ports t i) = ALTERNATE \<Longrightarrow> p_state (r_ports t i) = DISCARDING \<Longrightarrow> \<not> p_edge (r_ports s i) \<Longrightarrow> port_ok s t i"
  "p_role (r_ports t i) = DESIGNATED \<Longrightarrow>
    (pending t i \<Longrightarrow> r_now s \<le> p_nextUpgrade (r_ports t i)) \<Longrightarrow> port_ok s t i"
  by (auto simp: port_ok_def role_fits_state_def pending_def upgrade_candidate_def)

section \<open>Better information\<close>

lemmas explicit = keeps_def same_cfg_def r_ports_upd_port become_root_def

lemma first_root_ok:
  assumes "rstp_inv s" "a \<in> set (r_ids s)" "\<not> p_edge (r_ports s a)" "getRootInterfaceId s = -1"
  shows "settled s (flushOtherPorts a (become_root a s))"
proof -
  have i: "port_inv s" "timer_armed s" using assms(1) by (simp_all add: rstp_inv_def)
  have none: "\<forall>i \<in> set (r_ids s). p_role (r_ports s i) \<noteq> ROOT"
    using getRoot_none[of s] assms(4) port_inv_wf[OF i(1)] by (simp add: wf_rstp_def)
  let ?t = "flushOtherPorts a (become_root a s)"
  have k: "keeps {a} s ?t" by (simp add: explicit)
  have role: "p_role (r_ports ?t a) = ROOT" "p_state (r_ports ?t a) = FORWARDING"
    by (simp_all add: explicit)
  show ?thesis
  proof (rule settledI)
    show "port_inv ?t \<and> alternate_has_root ?t \<and> same_cfg s ?t"
      by (rule elect[OF i(1) k _ assms(2) role(1)]) (use assms none role port_okI(1) in auto)
    show "timer_armed ?t"
      by (rule keeps_armed[OF i(2) k]) (use role root_not_pending in \<open>auto simp: become_root_def\<close>)
  qed
qed

lemma swap_root_ok:
  assumes "port_inv s" "keeps {a, r} s t" "a \<in> set (r_ids s)" "\<not> p_edge (r_ports s a)"
    and "r \<in> set (r_ids s)" "p_role (r_ports s r) = ROOT"
    and "p_role (r_ports t a) = ROOT" "p_state (r_ports t a) = FORWARDING"
    and "p_role (r_ports t r) = ALTERNATE \<and> p_state (r_ports t r) = DISCARDING \<or>
      p_role (r_ports t r) = DESIGNATED \<and> r_now s \<le> p_nextUpgrade (r_ports t r) \<or> a = r"
  shows "port_inv t \<and> alternate_has_root t \<and> same_cfg s t"
proof (rule elect[OF assms(1,2) _ assms(3,7)])
  show "\<forall>i\<in>{a, r}. i \<in> set (r_ids s) \<longrightarrow> port_ok s t i"
    using assms(4,7,8,9) port_okI root_not_edge[OF assms(1,5,6)] by auto
  show "i \<in> {a, r}" if "i \<in> set (r_ids s)" "p_role (r_ports s i) = ROOT" for i
    using root_unique[OF assms(1,5,6) that] by simp
  show "i = a" if "i \<in> {a, r}" "p_role (r_ports t i) = ROOT" for i
    using that assms(9) by auto
qed

lemma keep_root_ok:
  assumes "port_inv s" "keeps {a} s t" "\<not> p_edge (r_ports s a)"
    and "r \<in> set (r_ids s)" "p_role (r_ports s r) = ROOT" "a \<noteq> r"
    and "p_role (r_ports t a) = ALTERNATE \<and> p_state (r_ports t a) = DISCARDING \<or>
      p_role (r_ports t a) = DESIGNATED \<and> r_now s \<le> p_nextUpgrade (r_ports t a)"
  shows "port_inv t \<and> alternate_has_root t \<and> same_cfg s t"
proof (rule elect[OF assms(1) keeps_mono[OF assms(2), of "{a, r}"] _ assms(4)])
  have rr: "p_role (r_ports t r) = ROOT" "p_state (r_ports t r) = p_state (r_ports s r)"
    using keeps_cfg(8,9)[OF assms(2), of r] assms(5,6) by auto
  moreover have "p_state (r_ports s r) = FORWARDING" "\<not> p_edge (r_ports s r)"
    using assms(1,4,5) by (auto simp: port_inv_def role_fits_state_def edge_quiet_def)
  ultimately show "\<forall>i\<in>{a, r}. i \<in> set (r_ids s) \<longrightarrow> port_ok s t i"
    using assms(3,7) port_okI by auto
  show "p_role (r_ports t r) = ROOT" by fact
  show "i \<in> {a, r}" if "i \<in> set (r_ids s)" "p_role (r_ports s i) = ROOT" for i
    using root_unique[OF assms(1,4,5) that] by simp
  show "i = r" if "i \<in> {a, r}" "p_role (r_ports t i) = ROOT" for i
    using that assms(7) by auto
qed simp

lemma bs_similar_ok:
  assumes "rstp_inv s" "a \<in> set (r_ids s)" "\<not> p_edge (r_ports s a)"
    and r: "r \<in> set (r_ids s)" "p_role (r_ports s r) = ROOT"
  shows "settled s (bs_similar r a s)"
proof -
  have i: "port_inv s" "timer_armed s" using assms(1) by (simp_all add: rstp_inv_def)
  let ?t = "bs_similar r a s"
  let ?c = "p_portPriority (r_ports s r) < p_portPriority (r_ports s a)
      \<or> p_portPriority (r_ports s r) = p_portPriority (r_ports s a) \<and> r < a"
  show ?thesis
  proof (cases ?c)
    case True
    then have ar: "a \<noteq> r" by auto
    have k: "keeps {a} s ?t" using True by (simp add: explicit bs_similar_def Let_def)
    have role: "p_role (r_ports ?t a) = ALTERNATE" "p_state (r_ports ?t a) = DISCARDING"
      "r_upgradeTimer ?t = r_upgradeTimer s"
      using True by (simp_all add: explicit bs_similar_def Let_def)
    have "timer_armed ?t" by (rule keeps_armed[OF i(2) k]) (use role root_not_pending in auto)
    with keep_root_ok[OF i(1) k assms(3) r ar] role show ?thesis by (intro settledI) auto
  next
    case False
    have k: "keeps {a, r} s ?t"
      unfolding bs_similar_def Let_def if_not_P[OF False] by (simp add: explicit)
    have role: "p_role (r_ports ?t a) = ROOT" "p_state (r_ports ?t a) = FORWARDING"
      "a \<noteq> r \<Longrightarrow> p_role (r_ports ?t r) = ALTERNATE" "a \<noteq> r \<Longrightarrow> p_state (r_ports ?t r) = DISCARDING"
      "r_upgradeTimer ?t = r_upgradeTimer s"
      unfolding bs_similar_def Let_def if_not_P[OF False] by (simp_all add: explicit)
    have "timer_armed ?t"
      by (rule keeps_armed[OF i(2) k]) (use role root_not_pending in \<open>cases "a = r", auto\<close>)
    with swap_root_ok[OF i(1) k assms(2,3) r role(1,2)] role show ?thesis by (intro settledI) auto
  qed
qed

lemma bs_better_route_ok:
  assumes "rstp_inv s" "a \<in> set (r_ids s)" "\<not> p_edge (r_ports s a)"
    and r: "r \<in> set (r_ids s)" "p_role (r_ports s r) = ROOT" and ar: "a \<noteq> r"
  shows "\<exists>t. bs_better_route r a s = Some t \<and> settled s t"
proof -
  have i: "port_inv s" "timer_armed s" using assms(1) by (simp_all add: rstp_inv_def)
  define s1 where "s1 = upd_mac (replaceForwardingInterface r a) (upd_port r (\<lambda>p. p\<lparr>p_role := ALTERNATE\<rparr>)
    (become_root a (if p_state (r_ports s a) \<noteq> FORWARDING then flushOtherPorts a s else s)))"
  have k: "keeps {a, r} s s1" by (simp add: explicit s1_def)
  have roles: "p_role (r_ports s1 a) = ROOT" "p_role (r_ports s1 r) = ALTERNATE"
    "p_state (r_ports s1 a) = FORWARDING" "r_upgradeTimer s1 = r_upgradeTimer s"
    using ar by (simp_all add: explicit s1_def)
  have ids: "r_ids s1 = r_ids s" using keeps_cfg[OF k] by simp
  obtain c where c: "contest_port s1 r = Some c"
    using contest_ok(1)[of a s1 r] assms(2) r(1) roles ids by auto
  have eq: "bs_better_route r a s = (if result_code c \<ge> 0
      then Some (upd_mac (removeForwardingInterface r) (upd_port r (set_role ALTERNATE DISCARDING) s1))
      else become_designated r s1)"
    using c by (simp add: bs_better_route_def s1_def Let_def)
  show ?thesis
  proof (cases "result_code c \<ge> 0")
    case True
    let ?t = "upd_mac (removeForwardingInterface r) (upd_port r (set_role ALTERNATE DISCARDING) s1)"
    have kt: "keeps {a, r} s ?t" using k by (simp add: explicit)
    have rt: "p_role (r_ports ?t a) = ROOT" "p_state (r_ports ?t a) = FORWARDING"
      "p_role (r_ports ?t r) = ALTERNATE" "p_state (r_ports ?t r) = DISCARDING"
      "r_upgradeTimer ?t = r_upgradeTimer s"
      using roles ar by (simp_all add: r_ports_upd_port)
    have "timer_armed ?t"
      by (rule keeps_armed[OF i(2) kt]) (use rt root_not_pending in auto)
    with swap_root_ok[OF i(1) kt assms(2,3) r rt(1,2)] rt(3,4) eq True show ?thesis
      by (auto intro: settledI)
  next
    case False
    have past: "no_past_upgrade s1"
      unfolding no_past_upgrade_def
    proof (intro allI impI)
      fix j assume p: "pending s1 j"
      then have "j \<notin> {a, r}" using roles root_not_pending[of s1 j] by auto
      with p i(1) show "r_now s1 \<le> p_nextUpgrade (r_ports s1 j)"
        using keeps_cfg(2,10)[OF k] keeps_pending[OF k] by (auto simp: port_inv_def no_past_upgrade_def)
    qed
    define s2 where "s2 = upd_port r (\<lambda>p. set_upgrade (r_now s1 + r_forwardDelay s1)
      (set_role DESIGNATED DISCARDING p)) s1"
    obtain x where x: "become_designated r s1 = Some (s2\<lparr>r_upgradeTimer := x\<rparr>)"
      "timer_armed (s2\<lparr>r_upgradeTimer := x\<rparr>)"
      using become_designated_ok[OF past, of r] i(1) keeps_cfg[OF k]
      unfolding s2_def by (auto simp: port_inv_def wf_rstp_def)
    have kt: "keeps {a, r} s s2" using k by (simp add: explicit s2_def)
    have rt: "p_role (r_ports s2 a) = ROOT" "p_state (r_ports s2 a) = FORWARDING"
      "p_role (r_ports s2 r) = DESIGNATED" "r_now s \<le> p_nextUpgrade (r_ports s2 r)"
      using roles ar i(1) keeps_cfg[OF k]
      by (simp_all add: r_ports_upd_port s2_def port_inv_def wf_rstp_def)
    have "settled s (s2\<lparr>r_upgradeTimer := x\<rparr>)"
      by (rule settledI) (use swap_root_ok[OF i(1) kt assms(2,3) r rt(1,2)] rt(3,4) x(2) in auto)
    with x eq False show ?thesis by auto
  qed
qed

lemma sendBPDU_settled:
  "i \<in> set (r_ids s) \<Longrightarrow> settled s0 s \<Longrightarrow> \<exists>t. sendBPDU i s = Some t \<and> settled s0 t"
  using sendBPDU_ok settled_neutral by blast

lemma designated_ok:
  assumes "port_inv s"
  obtains x where "become_designated a s = Some ((upd_port a (\<lambda>p. set_upgrade (r_now s + r_forwardDelay s)
      (set_role DESIGNATED DISCARDING p)) s)\<lparr>r_upgradeTimer := x\<rparr>)"
    "timer_armed ((upd_port a (\<lambda>p. set_upgrade (r_now s + r_forwardDelay s)
      (set_role DESIGNATED DISCARDING p)) s)\<lparr>r_upgradeTimer := x\<rparr>)"
  using become_designated_ok[of s a] assms by (auto simp: port_inv_def wf_rstp_def)

text \<open>An ordinary port becomes designated, whatever it was before (but not the root).\<close>

lemma give_up_ok:
  assumes "rstp_inv s" "alternate_has_root s" "p_role (r_ports s a) \<noteq> ROOT"
  shows "\<exists>t. become_designated a s = Some t \<and> settled s t"
proof -
  have i: "port_inv s" using assms(1) by (simp add: rstp_inv_def)
  let ?t = "upd_port a (\<lambda>p. set_upgrade (r_now s + r_forwardDelay s) (set_role DESIGNATED DISCARDING p)) s"
  obtain x where x: "become_designated a s = Some (?t\<lparr>r_upgradeTimer := x\<rparr>)"
    "timer_armed (?t\<lparr>r_upgradeTimer := x\<rparr>)" using designated_ok[OF i] by blast
  have k: "keeps {a} s ?t" by (simp add: explicit)
  have "port_ok s ?t a" using i
    by (intro port_okI(3)) (simp_all add: r_ports_upd_port port_inv_def wf_rstp_def)
  with demote[OF i assms(2) k _ assms(3)] x show ?thesis
    by (auto simp: r_ports_upd_port intro: settledI)
qed

lemma bs_worse_route_ok:
  assumes "rstp_inv s" "alternate_has_root s" "a \<in> set (r_ids s)" "\<not> p_edge (r_ports s a)"
    and r: "r \<in> set (r_ids s)" "p_role (r_ports s r) = ROOT" and ar: "a \<noteq> r"
  shows "\<exists>t. bs_worse_route frame a s = Some t \<and> settled s t"
proof -
  have i: "port_inv s" "timer_armed s" using assms(1) by (simp_all add: rstp_inv_def)
  obtain c where c: "contest_frame s frame a = Some c" using contest_ok(2)[OF r assms(3)] by blast
  have na: "p_role (r_ports s a) \<noteq> ROOT" using root_unique[OF i(1) r assms(3)] ar by blast
  show ?thesis
  proof (cases "result_code c < 0")
    case True
    obtain t where "become_designated a s = Some t" "settled s t"
      using give_up_ok[OF assms(1,2) na] by blast
    with True c sendBPDU_settled[of a t s] assms(3) show ?thesis
      by (auto simp: bs_worse_route_def settled_def same_cfg_def)
  next
    case False
    let ?t = "upd_port a (\<lambda>p. set_lost 0 (set_role ALTERNATE DISCARDING p))
        (upd_mac (removeForwardingInterface a) s)"
    have k: "keeps {a} s ?t" by (simp add: explicit)
    have "timer_armed ?t"
      by (rule keeps_armed[OF i(2) k]) (auto simp: root_not_pending r_ports_upd_port)
    with keep_root_ok[OF i(1) k assms(4) r ar] have "settled s ?t"
      by (intro settledI) (auto simp: r_ports_upd_port)
    with False c show ?thesis by (simp add: bs_worse_route_def)
  qed
qed

text \<open>One round of the loop of the \<open>BETTER_ROOT\<close> case.\<close>

lemma reset_other_port_ok:
  assumes "port_inv s" "timer_armed s"
  shows "\<exists>t. reset_other_port a i s = Some t \<and> port_inv t \<and> timer_armed t \<and> same_cfg s t \<and>
    (\<forall>j. j \<noteq> i \<or> i = a \<longrightarrow> p_role (r_ports t j) = p_role (r_ports s j)) \<and>
    (i \<noteq> a \<longrightarrow> \<not> p_edge (r_ports s i) \<longrightarrow> p_role (r_ports t i) = NOTASSIGNED)"
proof (cases "p_edge (r_ports s i)")
  case True
  with assms show ?thesis by (simp add: reset_other_port_def)
next
  case False
  define s1 where "s1 = upd_mac (removeForwardingInterface i)
    (if p_state (r_ports s a) \<noteq> FORWARDING
     then upd_port i (\<lambda>p. p\<lparr>p_TCWhile := r_now s + r_tcWhileTime s\<rparr>) s else s)"
  have n: "neutral s s1"
    unfolding s1_def by (auto intro: neutral_trans neutral_upd_mac neutral_TCWhile)
  have i1: "port_inv s1" "timer_armed s1"
    using assms n by (simp_all add: neutral_port_inv neutral_timer)
  show ?thesis
  proof (cases "i = a")
    case True
    then have "reset_other_port a i s = Some s1"
      using False by (simp add: reset_other_port_def s1_def Let_def)
    with True i1 n show ?thesis by (simp add: neutralD neutral_same_cfg)
  next
    case ia: False
    let ?f = "\<lambda>p. set_upgrade (r_now s1 + r_migrateTime s1) (set_role NOTASSIGNED DISCARDING p)"
    let ?s2 = "upd_port i ?f s1"
    have k: "keeps {i} s1 ?s2" by (simp add: explicit)
    have "one_root ?s2" using i1(1) by (auto simp: port_inv_def one_root_def r_ports_upd_port)
    moreover have "port_ok s1 ?s2 i"
      using i1(1) by (auto simp: port_ok_def role_fits_state_def r_ports_upd_port port_inv_def wf_rstp_def)
    ultimately have p2: "port_inv ?s2" using keeps_port_inv[OF i1(1) k] by auto
    obtain x where x: "scheduleNextUpgrade ?s2 = Some (?s2\<lparr>r_upgradeTimer := x\<rparr>)"
      "timer_armed (?s2\<lparr>r_upgradeTimer := x\<rparr>)"
      using schedule_ok[OF port_inv_past[OF p2]] by (auto simp: with_timer_def)
    let ?t = "initInterfacedata i (?s2\<lparr>r_upgradeTimer := x\<rparr>)"
    have "reset_other_port a i s = Some ?t"
      using False ia x(1) by (simp add: reset_other_port_def s1_def Let_def)
    moreover have "port_inv ?t" "timer_armed ?t"
      using p2 x(2) by (simp_all add: neutral_port_inv[OF neutral_init] neutral_timer[OF neutral_init])
    ultimately show ?thesis
      using ia n by (auto simp: r_ports_upd_port same_cfg_def neutralD)
  qed
qed

lemma reset_loop_ok:
  assumes "port_inv s" "timer_armed s"
  shows "\<exists>t. fold_opt (reset_other_port a) is s = Some t \<and> port_inv t \<and> timer_armed t \<and> same_cfg s t \<and>
    (\<forall>j. j \<noteq> a \<longrightarrow> \<not> p_edge (r_ports s j) \<longrightarrow>
       p_role (r_ports t j) = (if j \<in> set is then NOTASSIGNED else p_role (r_ports s j)))"
  using assms
proof (induction "is" arbitrary: s)
  case Nil
  then show ?case by simp
next
  case (Cons i js)
  obtain u where u: "reset_other_port a i s = Some u" "port_inv u" "timer_armed u" "same_cfg s u"
    "\<And>j. j \<noteq> i \<or> i = a \<Longrightarrow> p_role (r_ports u j) = p_role (r_ports s j)"
    "i \<noteq> a \<Longrightarrow> \<not> p_edge (r_ports s i) \<Longrightarrow> p_role (r_ports u i) = NOTASSIGNED"
    using reset_other_port_ok[OF Cons.prems] by metis
  obtain t where t: "fold_opt (reset_other_port a) js u = Some t" "port_inv t" "timer_armed t" "same_cfg u t"
    "\<And>j. j \<noteq> a \<Longrightarrow> \<not> p_edge (r_ports u j) \<Longrightarrow>
       p_role (r_ports t j) = (if j \<in> set js then NOTASSIGNED else p_role (r_ports u j))"
    using Cons.IH[OF u(2,3)] by metis
  have e: "p_edge (r_ports u j) = p_edge (r_ports s j)" for j using u(4) by (simp add: same_cfg_def)
  have "p_role (r_ports t j) = (if j \<in> set (i # js) then NOTASSIGNED else p_role (r_ports s j))"
    if "j \<noteq> a" "\<not> p_edge (r_ports s j)" for j
    using that t(5)[of j] u(5)[of j] u(6) e by (cases "j = i") auto
  with u(1) t(1-4) same_cfg_trans[OF u(4) t(4)] show ?case by auto
qed

lemma bs_better_root_ok:
  assumes "rstp_inv s" "a \<in> set (r_ids s)" "\<not> p_edge (r_ports s a)"
  shows "\<exists>t. bs_better_root a s = Some t \<and> settled s t"
proof -
  obtain u where u: "fold_opt (reset_other_port a) (r_ids s) s = Some u" "port_inv u" "timer_armed u"
    "same_cfg s u" "\<forall>j. j \<noteq> a \<longrightarrow> \<not> p_edge (r_ports s j) \<longrightarrow>
       p_role (r_ports u j) = (if j \<in> set (r_ids s) then NOTASSIGNED else p_role (r_ports s j))"
    using reset_loop_ok[of s a "r_ids s"] assms(1) by (auto simp: rstp_inv_def)
  let ?t = "become_root a u"
  have c: "r_ids u = r_ids s" "\<And>j. p_edge (r_ports u j) = p_edge (r_ports s j)"
    using u(4) by (simp_all add: same_cfg_def)
  have k: "keeps {a} u ?t" by (simp add: explicit)
  have role: "p_role (r_ports ?t a) = ROOT" "p_state (r_ports ?t a) = FORWARDING"
    "r_upgradeTimer ?t = r_upgradeTimer u"
    by (simp_all add: explicit)
  have only: "i \<in> {a}" if "i \<in> set (r_ids u)" "p_role (r_ports u i) = ROOT" for i
    using that u(2,5) c by (auto simp: port_inv_def edge_quiet_def)
  have "port_inv ?t \<and> alternate_has_root ?t \<and> same_cfg u ?t"
    by (rule elect[OF u(2) k _ _ role(1) only])
      (use assms(2,3) c role port_okI(1) in auto)
  moreover have "timer_armed ?t"
    by (rule keeps_armed[OF u(3) k role(3)]) (use role root_not_pending in auto)
  ultimately have "settled u ?t" by (rule settledI)
  then have "settled s ?t" using u(4) by (auto simp: settled_def intro: same_cfg_trans)
  with u(1) show ?thesis by (simp add: bs_better_root_def)
qed

lemma sint_u16: "sint (ucast w :: u32) = uint w" for w :: u16
proof -
  have "uint w < 65536" using uint_bounded[of w] by simp
  moreover have "- 2147483648 \<le> uint w"
    by (rule order_trans[OF _ unsigned_greater_eq]) simp
  ultimately have "signed_take_bit (LENGTH(32) - Suc 0) (uint w) = uint w"
    by (intro signed_take_bit_int_eq_self) simp_all
  then show ?thesis by (simp add: sint_uint uint_up_ucast is_up)
qed

lemma compare_updated:
  "i \<in> set (r_ids s) \<Longrightarrow> l = p_linkCost (r_ports s i) \<Longrightarrow>
   compareInterfacedata (updateInterfacedata b i s) i b l = Some SIMILAR"
  by (simp add: compareInterfacedata_def getPortInterfaceData_def updateInterfacedata_def
      r_ports_upd_port compareRSTPData_def compareTo_simps sint_u16)

lemma processBetterSource_ok:
  assumes "rstp_inv s" "alternate_has_root s" "a \<in> set (r_ids s)" "\<not> p_edge (r_ports s a)"
  shows "\<exists>f t. processBetterSource frame a s = Some (f, t) \<and> settled s t"
proof -
  define u where "u = updateInterfacedata frame a s"
  have n: "neutral s u" unfolding u_def by (rule neutral_update)
  have i: "rstp_inv u" "alternate_has_root u"
    using assms by (simp_all add: neutral_rstp_inv[OF n] neutral_alt[OF n])
  have a: "a \<in> set (r_ids u)" "\<not> p_edge (r_ports u a)" using assms by (simp_all add: neutralD[OF n])
  define l where "l = p_linkCost (r_ports u a)"
  let ?r = "getRootInterfaceId u"
  have "\<exists>f t. processBetterSource frame a s = Some (f, t) \<and> settled u t"
  proof (cases "?r = -1")
    case True
    with first_root_ok[OF i(1) a] assms(3) show ?thesis
      by (auto simp: processBetterSource_def u_def)
  next
    case False
    have r: "?r \<in> set (r_ids u)" "p_role (r_ports u ?r) = ROOT"
      using getRoot_root[OF _ False] i(1) by (auto simp: rstp_inv_def port_inv_def)
    obtain c where c: "compareInterfacedata u ?r frame l = Some c"
      using compareInterfacedata_ok[OF r(1)] by blast
    have ar: "c \<noteq> SIMILAR \<Longrightarrow> a \<noteq> ?r"
      using c compare_updated[OF assms(3), of l frame]
      by (auto simp: u_def l_def updateInterfacedata_def r_ports_upd_port)
    have eq: "processBetterSource frame a s =
      (case c of SIMILAR \<Rightarrow> Some (False, bs_similar ?r a u)
       | BETTER_ROOT \<Rightarrow> map_option (Pair True) (bs_better_root a u)
       | BETTER_RPC \<Rightarrow> map_option (Pair True) (bs_better_route ?r a u)
       | BETTER_SRC \<Rightarrow> map_option (Pair True) (bs_better_route ?r a u)
       | BETTER_PORT \<Rightarrow> map_option (Pair True) (bs_better_route ?r a u)
       | WORSE_ROOT \<Rightarrow> map_option (Pair False) (sendBPDU a u)
       | _ \<Rightarrow> map_option (Pair False) (bs_worse_route frame a u))"
      using c False assms(3) by (cases c) (simp_all add: processBetterSource_def u_def l_def Let_def)
    note similar = bs_similar_ok[OF i(1) a r]
      and root = bs_better_root_ok[OF i(1) a]
      and route = bs_better_route_ok[OF i(1) a r]
      and worse = bs_worse_route_ok[OF i a r, of frame]
      and send = sendBPDU_settled[OF a(1) settled_refl[OF i]]
    show ?thesis
    proof (cases c)
      case SIMILAR
      with similar show ?thesis by (auto simp: eq)
    next
      case BETTER_ROOT
      with root show ?thesis by (auto simp: eq)
    next
      case WORSE_ROOT
      with send show ?thesis by (auto simp: eq)
    qed (use route worse ar in \<open>auto simp: eq\<close>)
  qed
  then show ?thesis using settled_pre[OF n] by blast
qed

section \<open>News from a known source\<close>

text \<open>The root port hands its role to another port \<open>c\<close>, itself becoming designated.\<close>

lemma handover_ok:
  assumes "rstp_inv s" and r: "r \<in> set (r_ids s)" "p_role (r_ports s r) = ROOT"
    and c: "c \<in> set (r_ids s)" "p_role (r_ports s c) = ALTERNATE"
  shows "\<exists>u. become_designated r s = Some u \<and>
    (\<forall>v w. neutral u v \<longrightarrow> neutral (upd_port c (set_role ROOT FORWARDING) v) w \<longrightarrow> settled s w)"
proof -
  have i: "port_inv s" using assms(1) by (simp add: rstp_inv_def)
  have rc: "r \<noteq> c" using r c by auto
  have edge: "\<not> p_edge (r_ports s c)" using i c by (auto simp: port_inv_def edge_quiet_def)
  obtain x where x: "become_designated r s = Some ((upd_port r (\<lambda>p. set_upgrade (r_now s + r_forwardDelay s)
      (set_role DESIGNATED DISCARDING p)) s)\<lparr>r_upgradeTimer := x\<rparr>)"
    "timer_armed ((upd_port r (\<lambda>p. set_upgrade (r_now s + r_forwardDelay s)
      (set_role DESIGNATED DISCARDING p)) s)\<lparr>r_upgradeTimer := x\<rparr>)"
    using designated_ok[OF i] by blast
  let ?u = "(upd_port r (\<lambda>p. set_upgrade (r_now s + r_forwardDelay s)
      (set_role DESIGNATED DISCARDING p)) s)\<lparr>r_upgradeTimer := x\<rparr>"
  have "settled s w" if v: "neutral ?u v" and w: "neutral (upd_port c (set_role ROOT FORWARDING) v) w" for v w
  proof -
    let ?t = "upd_port c (set_role ROOT FORWARDING) v"
    have k: "keeps {c, r} s ?t"
      using v rc by (auto simp: keeps_def same_cfg_def r_ports_upd_port neutralD)
    have role: "p_role (r_ports ?t c) = ROOT" "p_state (r_ports ?t c) = FORWARDING"
      "p_role (r_ports ?t r) = DESIGNATED" "r_now s \<le> p_nextUpgrade (r_ports ?t r)"
      using v rc i by (simp_all add: r_ports_upd_port neutralD port_inv_def wf_rstp_def)
    have "timer_armed v" using x(2) by (simp add: neutral_timer[OF v])
    then have "timer_armed ?t"
      by (rule keeps_armed[where C = "{c}"])
        (use role root_not_pending in \<open>auto simp: keeps_upd_port\<close>)
    then have "settled s ?t"
      using swap_root_ok[OF i k c(1) edge r role(1,2)] role(3,4) by (auto intro: settledI)
    then show ?thesis using w by (rule settled_neutral)
  qed
  with x(1) show ?thesis by blast
qed

lemma best_alternate:
  "rstp_inv s \<Longrightarrow> getBestAlternate s = Some c \<Longrightarrow>
   c \<in> set (r_ids s) \<and> p_role (r_ports s c) = ALTERNATE \<and> \<not> p_edge (r_ports s c)"
  using getBestAlternate_Some[of s c]
  by (auto simp: rstp_inv_def port_inv_def edge_quiet_def)

lemma rstp_inv_wf: "rstp_inv s \<Longrightarrow> wf_rstp s"
  by (simp add: rstp_inv_def port_inv_def)

lemma settled_ids: "settled s t \<Longrightarrow> r_ids t = r_ids s"
  by (simp add: settled_def same_cfg_def)

text \<open>After a reinitialisation the arrival port may be elected at once.\<close>

lemma reelect_ok:
  assumes "rstp_inv s" "alternate_has_root s" "a \<in> set (r_ids s)" "\<not> p_edge (r_ports s a)"
    and "\<forall>i \<in> set (r_ids s). p_role (r_ports s i) \<noteq> ROOT"
  shows "settled s (upd_port a (set_role ROOT FORWARDING) s)"
proof -
  have i: "port_inv s" "timer_armed s" using assms(1) by (simp_all add: rstp_inv_def)
  let ?t = "upd_port a (set_role ROOT FORWARDING) s"
  have k: "keeps {a} s ?t" by (simp add: explicit)
  have role: "p_role (r_ports ?t a) = ROOT" "p_state (r_ports ?t a) = FORWARDING"
    by (simp_all add: r_ports_upd_port)
  show ?thesis
  proof (rule settledI)
    show "port_inv ?t \<and> alternate_has_root ?t \<and> same_cfg s ?t"
      by (rule elect[OF i(1) k _ assms(3) role(1)]) (use assms role port_okI(1) in auto)
    show "timer_armed ?t"
      by (rule keeps_armed[OF i(2) k]) (use role root_not_pending in auto)
  qed
qed

lemma ss_worse_root_ok:
  assumes "rstp_inv s" "alternate_has_root s" "a \<in> set (r_ids s)" "\<not> p_edge (r_ports s a)"
  shows "\<exists>f t. ss_worse_root frame a s = Some (f, t) \<and> settled s t"
proof (cases "p_role (r_ports s a) = ROOT")
  case root: True
  show ?thesis
  proof (cases "getBestAlternate s")
    case (Some c)
    obtain u where u: "become_designated a s = Some u"
      "\<And>v w. neutral u v \<Longrightarrow> neutral (upd_port c (set_role ROOT FORWARDING) v) w \<Longrightarrow> settled s w"
      using handover_ok[OF assms(1,3) root, of c] best_alternate[OF assms(1) Some] by blast
    let ?v = "flushOtherPorts c (upd_mac (replaceForwardingInterface a c) u)"
    let ?w = "updateInterfacedata frame a (upd_port c (set_role ROOT FORWARDING) ?v)"
    have w: "settled s ?w"
      by (rule u(2)[OF neutral_trans[OF neutral_upd_mac neutral_flush] neutral_update])
    then obtain t where "sendBPDU a ?w = Some t" "settled s t"
      using sendBPDU_settled[of a ?w s] assms(3) settled_ids[OF w] by auto
    with root Some u(1) show ?thesis by (auto simp: ss_worse_root_def Let_def)
  next
    case None
    obtain u where u: "initPorts s = Some u" "settled s u"
      "\<forall>i \<in> set (r_ids u). p_role (r_ports u i) \<noteq> ROOT"
      using initPorts_ok[OF rstp_inv_wf[OF assms(1)]] by blast
    define v where "v = fold (\<lambda>j. upd_mac (removeForwardingInterface j)) (r_ids u) u"
    have n: "neutral u v" unfolding v_def by (rule neutral_remove_all)
    have v: "settled s v" by (rule settled_neutral[OF u(2) n])
    have av: "a \<in> set (r_ids v)" "\<not> p_edge (r_ports v a)"
      using v assms(3,4) by (simp_all add: settled_def same_cfg_def)
    obtain c where c: "compareInterfacedata v a frame (p_linkCost (r_ports v a)) = Some c"
      using compareInterfacedata_ok[OF av(1)] by blast
    define x where "x = updateInterfacedata frame a v"
    have nx: "neutral v x" unfolding x_def by (rule neutral_update)
    have x: "settled s x" by (rule settled_neutral[OF v nx])
    have "settled x (upd_port a (set_role ROOT FORWARDING) x)"
      by (rule reelect_ok)
        (use x av u(3) in \<open>auto simp: settled_def neutralD[OF nx] neutralD[OF n]\<close>)
    then have "settled s (upd_port a (set_role ROOT FORWARDING) x)" by (rule settled_trans[OF x])
    with root None u(1) c v show ?thesis
      by (auto simp: ss_worse_root_def v_def x_def Let_def)
  qed
next
  case notroot: False
  show ?thesis
  proof (cases "p_role (r_ports s a) = ALTERNATE")
    case True
    obtain u where u: "become_designated a s = Some u" "settled s u"
      using give_up_ok[OF assms(1,2) notroot] by blast
    let ?w = "updateInterfacedata frame a u"
    have w: "settled s ?w" by (rule settled_neutral[OF u(2) neutral_update])
    then obtain t where "sendBPDU a ?w = Some t" "settled s t"
      using sendBPDU_settled[of a ?w s] assms(3) settled_ids[OF w] by auto
    with True u(1) show ?thesis by (auto simp: ss_worse_root_def Let_def)
  next
    case False
    with notroot settled_refl[OF assms(1,2)] show ?thesis by (auto simp: ss_worse_root_def)
  qed
qed

text \<open>The old root \<open>a\<close> steps down in favour of the alternate \<open>c\<close>; then it contests the frame.\<close>

lemma step_down_ok:
  assumes "rstp_inv s" "a \<in> set (r_ids s)" "p_role (r_ports s a) = ROOT"
    and "c \<in> set (r_ids s)" "p_role (r_ports s c) = ALTERNATE" "\<not> p_edge (r_ports s c)"
  shows "settled s (upd_port a (\<lambda>p. p\<lparr>p_role := DESIGNATED\<rparr>) (upd_port c (set_role ROOT FORWARDING) s))"
    (is "settled s ?t")
proof -
  have i: "port_inv s" "timer_armed s" using assms(1) by (simp_all add: rstp_inv_def)
  have ac: "a \<noteq> c" using assms by auto
  have k: "keeps {c, a} s ?t" by (auto simp: explicit)
  have fw: "p_state (r_ports s a) = FORWARDING"
    using i(1) assms(2,3) by (auto simp: port_inv_def role_fits_state_def)
  have role: "p_role (r_ports ?t c) = ROOT" "p_state (r_ports ?t c) = FORWARDING"
    "p_role (r_ports ?t a) = DESIGNATED" "p_state (r_ports ?t a) = FORWARDING"
    using ac fw by (simp_all add: r_ports_upd_port)
  have np: "\<not> pending ?t a" "\<not> pending ?t c"
    using role by (auto simp: pending_def upgrade_candidate_def)
  have ok: "port_ok s ?t a" using role np by (simp add: port_ok_def role_fits_state_def)
  show ?thesis
  proof (rule settledI)
    show "port_inv ?t \<and> alternate_has_root ?t \<and> same_cfg s ?t"
    proof (rule elect[OF i(1) k _ assms(4) role(1)])
      show "\<forall>i\<in>{c, a}. i \<in> set (r_ids s) \<longrightarrow> port_ok s ?t i"
        using ok port_okI(1)[OF role(1,2) assms(6)] by auto
      show "i \<in> {c, a}" if "i \<in> set (r_ids s)" "p_role (r_ports s i) = ROOT" for i
        using root_unique[OF i(1) assms(2,3) that] by simp
      show "i = c" if "i \<in> {c, a}" "p_role (r_ports ?t i) = ROOT" for i
        using that role(3) by auto
    qed
    show "timer_armed ?t" by (rule keeps_armed[OF i(2) k]) (use np in auto)
  qed
qed

lemma stay_alternate_ok:
  assumes "rstp_inv s" "a \<in> set (r_ids s)" "\<not> p_edge (r_ports s a)"
    and r: "r \<in> set (r_ids s)" "p_role (r_ports s r) = ROOT" "a \<noteq> r"
  shows "settled s (upd_port a (set_role ALTERNATE DISCARDING) s)" (is "settled s ?t")
proof -
  have i: "port_inv s" "timer_armed s" using assms(1) by (simp_all add: rstp_inv_def)
  have k: "keeps {a} s ?t" by (simp add: explicit)
  have "timer_armed ?t"
    by (rule keeps_armed[OF i(2) k]) (auto simp: root_not_pending r_ports_upd_port)
  with keep_root_ok[OF i(1) k assms(3) r] show ?thesis
    by (intro settledI) (auto simp: r_ports_upd_port)
qed

lemma ss_reelect_ok:
  assumes i: "rstp_inv u" "alternate_has_root u"
    and a: "a \<in> set (r_ids u)" "p_role (r_ports u a) = ROOT" "\<not> p_edge (r_ports u a)"
  shows "\<exists>t. ss_reelect frame a u = Some t \<and> settled u t"
proof (cases "getBestAlternate u")
  case None
  then show ?thesis using settled_refl[OF i] by (simp add: ss_reelect_def)
next
  case (Some c)
  have c: "c \<in> set (r_ids u)" "p_role (r_ports u c) = ALTERNATE" "\<not> p_edge (r_ports u c)"
    using best_alternate[OF i(1) Some] by simp_all
  have ac: "a \<noteq> c" using a(2) c(2) by auto
  obtain k where k: "compareInterfacedata u c frame (p_linkCost (r_ports u a)) = Some k"
    using compareInterfacedata_ok[OF c(1)] by blast
  define v where "v = upd_port a (\<lambda>p. p\<lparr>p_role := DESIGNATED\<rparr>) (upd_port c (set_role ROOT FORWARDING) u)"
  have v: "settled u v" unfolding v_def by (rule step_down_ok[OF i(1) a(1,2) c])
  then have vi: "rstp_inv v" "alternate_has_root v" by (simp_all add: settled_def)
  have vc: "c \<in> set (r_ids v)" "p_role (r_ports v c) = ROOT" "a \<in> set (r_ids v)"
    "p_role (r_ports v a) \<noteq> ROOT" "\<not> p_edge (r_ports v a)"
    using a c ac by (simp_all add: v_def r_ports_upd_port)
  obtain k3 where k3: "contest_frame v frame a = Some k3"
    using contest_ok(2)[OF vc(1-3)] by blast
  obtain w where w: "(if result_code k3 < 0 then become_designated a v
        else Some (upd_port a (set_role ALTERNATE DISCARDING) v)) = Some w" "settled v w"
    using give_up_ok[OF vi vc(4)] stay_alternate_ok[OF vi(1) vc(3,5,1,2) ac]
    by (cases "result_code k3 < 0") auto
  have end_ok: "settled u (upd_mac (replaceForwardingInterface a c) (flushOtherPorts c w))"
    by (rule settled_neutral[OF settled_trans[OF v w(2)] neutral_trans[OF neutral_flush neutral_upd_mac]])
  have "ss_reelect frame a u = (if result_code k < 0
      then Some (upd_mac (replaceForwardingInterface a c) (flushOtherPorts c w)) else Some u)"
    unfolding ss_reelect_def using Some k k3 w(1)
    by (cases "result_code k3 < 0") (simp_all add: v_def[symmetric] Let_def)
  with end_ok settled_refl[OF i] show ?thesis by simp
qed

lemma ss_worse_route_ok:
  assumes "rstp_inv s" "alternate_has_root s" "a \<in> set (r_ids s)" "\<not> p_edge (r_ports s a)"
  shows "\<exists>f t. ss_worse_route frame a s = Some (f, t) \<and> settled s t"
proof -
  note upd = settled_neutral[OF _ neutral_update]
  consider (root) "p_role (r_ports s a) = ROOT" | (alt) "p_role (r_ports s a) = ALTERNATE"
    | (other) "p_role (r_ports s a) \<noteq> ROOT" "p_role (r_ports s a) \<noteq> ALTERNATE" by blast
  then show ?thesis
  proof cases
    case root
    define u where "u = upd_port a (set_lost 0) s"
    have n: "neutral s u" unfolding u_def by (rule neutral_lost)
    obtain v where v: "ss_reelect frame a u = Some v" "settled u v"
      using ss_reelect_ok[of u a frame] assms root
      by (auto simp: neutral_rstp_inv[OF n] neutral_alt[OF n] neutralD[OF n])
    have "ss_worse_route frame a s = Some (True, updateInterfacedata frame a v)"
      using v(1) root by (simp add: ss_worse_route_def u_def)
    with upd[OF settled_pre[OF n v(2)]] show ?thesis by blast
  next
    case alt
    then obtain r where r: "r \<in> set (r_ids s)" "p_role (r_ports s r) = ROOT"
      using assms(2,3) by (auto simp: alternate_has_root_def)
    obtain c where c: "contest_frame s frame a = Some c" using contest_ok(2)[OF r assms(3)] by blast
    have na: "p_role (r_ports s a) \<noteq> ROOT" using alt by simp
    obtain u where u: "become_designated a s = Some u" "settled s u"
      using give_up_ok[OF assms(1,2) na] by blast
    obtain v where "sendBPDU a u = Some v" "settled s v"
      using sendBPDU_settled[of a u s] u(2) assms(3) settled_ids[OF u(2)] by auto
    moreover have "settled s (upd_port a (set_lost 0) s)"
      by (rule settled_neutral[OF settled_refl[OF assms(1,2)] neutral_lost])
    ultimately show ?thesis using alt c u(1) upd by (auto simp: ss_worse_route_def)
  next
    case other
    then show ?thesis using upd[OF settled_refl[OF assms(1,2)]] by (auto simp: ss_worse_route_def)
  qed
qed

section \<open>Frames\<close>

lemma processSameSource_ok:
  assumes "rstp_inv s" "alternate_has_root s" "a \<in> set (r_ids s)" "\<not> p_edge (r_ports s a)"
  shows "\<exists>f t. processSameSource frame a s = Some (f, t) \<and> settled s t"
proof -
  obtain c where c: "compareInterfacedata s a frame (p_linkCost (r_ports s a)) = Some c"
    using compareInterfacedata_ok[OF assms(3)] by blast
  note refl = settled_refl[OF assms(1,2)]
  note lost = settled_neutral[OF refl neutral_lost]
  show ?thesis
    using c ss_worse_root_ok[OF assms, of frame] ss_worse_route_ok[OF assms, of frame] refl lost
    by (cases c) (auto simp: processSameSource_def)
qed

lemma processBPDU_ok:
  assumes "rstp_inv s" "alternate_has_root s" "a \<in> set (r_ids s)" "\<not> p_edge (r_ports s a)"
  shows "\<exists>t. processBPDU frame a s = Some t \<and> settled s t"
proof -
  obtain c where c: "compareInterfacedata s a frame (p_linkCost (r_ports s a)) = Some c"
    using compareInterfacedata_ok[OF assms(3)] by blast
  define step where "step =
    (if result_code c > 0 \<and> compareTo (b_rootAddress frame) (r_bridgeAddress s) \<noteq> 0
     then processBetterSource frame a s
     else if compareTo (b_bridgeAddress frame) (p_bridgeAddress (r_ports s a)) = 0
         \<and> compareTo (b_rootAddress frame) (r_bridgeAddress s) \<noteq> 0
     then processSameSource frame a s
     else Some (False, s))"
  obtain f u where u: "step = Some (f, u)" "settled s u"
    using processBetterSource_ok[OF assms, of frame] processSameSource_ok[OF assms, of frame]
      settled_refl[OF assms(1,2)]
    by (fastforce simp: step_def split: if_splits)
  have eq: "processBPDU frame a s = (if f then do { s \<leftarrow> sendBPDUs u; Some (sendTCNtoRoot s) } else Some u)"
    using c u(1) assms(3) by (simp add: processBPDU_def getPortInterfaceData_def step_def)
  obtain v where v: "sendBPDUs u = Some v" "neutral u v" using sendBPDUs_ok by blast
  show ?thesis
    using eq v u(2) settled_neutral[OF u(2) neutral_trans[OF v(2) neutral_TCN]] by auto
qed

lemma checkTC_ok:
  assumes "a \<in> set (r_ids s)"
  shows "\<exists>t. checkTC frame a s = Some t \<and> neutral s t"
proof -
  have "neutral s (fold (\<lambda>i s. if i \<noteq> a
      then upd_port i (\<lambda>p. p\<lparr>p_TCWhile := r_now s + r_tcWhileTime s\<rparr>)
             (upd_mac (removeForwardingInterface i) s)
      else s) (r_ids s) s)"
    by (rule neutral_fold) (auto intro: neutral_trans[OF neutral_upd_mac neutral_TCWhile])
  with assms show ?thesis by (simp add: checkTC_def getPortInterfaceData_def)
qed

lemma handleIncomingFrame_ok:
  assumes "rstp_inv s" "alternate_has_root s" "a \<in> set (r_ids s)" "\<not> p_edge (r_ports s a)"
    and "src \<noteq> r_bridgeAddress s"
  shows "\<exists>t. handleIncomingFrame src frame a s = Some t \<and> settled s t"
proof (cases "b_messageAge frame < r_maxAge s")
  case False
  then show ?thesis using settled_refl[OF assms(1,2)] by (simp add: handleIncomingFrame_def)
next
  case True
  obtain u where u: "checkTC frame a s = Some u" "neutral s u" using checkTC_ok[OF assms(3)] by blast
  have src: "compareTo src (r_bridgeAddress u) \<noteq> 0"
    using assms(5) by (simp add: compareTo_simps neutralD[OF u(2)])
  obtain t where t: "processBPDU frame a u = Some t" "settled u t"
    using processBPDU_ok[of u a frame] assms(1-4)
    by (auto simp: neutral_rstp_inv[OF u(2)] neutral_alt[OF u(2)] neutralD[OF u(2)])
  then show ?thesis using True u(1) src settled_pre[OF u(2) t(2)]
    by (simp add: handleIncomingFrame_def)
qed

section \<open>Timers\<close>

lemma initData_settled: "settled s t \<Longrightarrow> settled s (initInterfacedata i t)"
  by (rule settled_neutral[OF _ neutral_init])

lemma lost_settled: "settled s t \<Longrightarrow> settled s (upd_port i (set_lost n) t)"
  by (rule settled_neutral[OF _ neutral_lost])

lemma neutral_become_root: "neutral (upd_port c (set_role ROOT FORWARDING) s) (become_root c s)"
  by (auto simp: neutral_def become_root_def upd_port_def)

lemma hello_lost_ok:
  assumes "rstp_inv s" "alternate_has_root s" "i \<in> set (r_ids s)"
  shows "\<exists>t. hello_lost i s = Some t \<and> settled s t"
proof (cases "p_role (r_ports s i) = ROOT")
  case root: True
  show ?thesis
  proof (cases "getBestAlternate s")
    case None
    with root initPorts_ok[OF rstp_inv_wf[OF assms(1)]] show ?thesis by (auto simp: hello_lost_def)
  next
    case (Some c)
    obtain u where u: "become_designated i s = Some u"
      "\<And>v w. neutral u v \<Longrightarrow> neutral (upd_port c (set_role ROOT FORWARDING) v) w \<Longrightarrow> settled s w"
      using handover_ok[OF assms(1,3) root, of c] best_alternate[OF assms(1) Some] by blast
    have "settled s (upd_mac (replaceForwardingInterface i c) (flushOtherPorts c
        (become_root c (initInterfacedata i u))))"
      by (rule u(2)[OF neutral_init])
        (rule neutral_trans[OF neutral_become_root neutral_trans[OF neutral_flush neutral_upd_mac]])
    with root Some u(1) show ?thesis by (simp add: hello_lost_def Let_def)
  qed
next
  case False
  with give_up_ok[OF assms(1,2) False] initData_settled show ?thesis
    by (auto simp: hello_lost_def)
qed

lemma hello_port_ok:
  assumes "rstp_inv s" "alternate_has_root s" "i \<in> set (r_ids s)"
  shows "\<exists>t. hello_port i s = Some t \<and> settled s t"
proof -
  let ?u = "upd_port i (set_lost (p_lostBPDU (r_ports s i) + 1)) s"
  have u: "settled s ?u" using lost_settled[OF settled_refl[OF assms(1,2)]] .
  then obtain v where v: "hello_lost i ?u = Some v" "settled ?u v"
    using hello_lost_ok[of ?u i] assms(3) by (auto simp: settled_def)
  have "settled s (upd_port i (set_lost 0) v)" by (rule lost_settled[OF settled_trans[OF u v(2)]])
  with u v(1) settled_refl[OF assms(1,2)] show ?thesis by (auto simp: hello_port_def Let_def)
qed

lemma fold_settled:
  assumes "\<And>i t. settled s t \<Longrightarrow> i \<in> set is \<Longrightarrow> \<exists>u. f i t = Some u \<and> settled t u" "settled s t"
  shows "\<exists>u. fold_opt f is t = Some u \<and> settled s u"
  using assms
proof (induction "is" arbitrary: t)
  case Nil
  then show ?case by simp
next
  case (Cons i "is")
  obtain u where u: "f i t = Some u" "settled t u" using Cons.prems(1)[of t i] Cons.prems(2) by auto
  have "settled s u" by (rule settled_trans[OF Cons.prems(2) u(2)])
  then show ?case using Cons.IH[of u] Cons.prems(1) u(1) by simp
qed

lemma hello_timer_inv [simp]:
  "rstp_inv (s\<lparr>r_helloTimer := x\<rparr>) = rstp_inv s"
  "alternate_has_root (s\<lparr>r_helloTimer := x\<rparr>) = alternate_has_root s"
  by (simp_all add: rstp_inv_def inv_defs timer_armed_def alternate_has_root_def)

lemma handleHelloTime_ok:
  assumes "rstp_inv s" "alternate_has_root s"
  shows "\<exists>t. handleHelloTime s = Some t \<and> rstp_inv t \<and> alternate_has_root t \<and>
    same_cfg (s\<lparr>r_helloTimer := Some (r_now s + r_helloTime s)\<rparr>) t"
proof -
  have "\<exists>u. hello_port i t = Some u \<and> settled t u" if "settled s t" "i \<in> set (r_ids s)" for i t
    by (rule hello_port_ok) (use that in \<open>auto simp: settled_def same_cfg_def\<close>)
  then obtain u where u: "fold_opt hello_port (r_ids s) s = Some u" "settled s u"
    using fold_settled[of s "r_ids s" hello_port s] settled_refl[OF assms] by blast
  obtain v where v: "sendBPDUs u = Some v" "neutral u v" using sendBPDUs_ok by blast
  define w where "w = sendTCNtoRoot v"
  have w: "settled s w" unfolding w_def
    by (rule settled_neutral[OF u(2) neutral_trans[OF v(2) neutral_TCN]])
  have "handleHelloTime s = Some (w\<lparr>r_helloTimer := Some (r_now w + r_helloTime w)\<rparr>)"
    using u(1) v(1) by (simp add: handleHelloTime_def Let_def w_def)
  with w show ?thesis by (simp add: settled_def same_cfg_def)
qed

text \<open>The upgrade timer: every port whose time has come moves one state forward.\<close>

lemma upgrade_port_other: "j \<noteq> i \<Longrightarrow> p_role (r_ports (upgrade_port i s) j) = p_role (r_ports s j) \<and>
    p_state (r_ports (upgrade_port i s) j) = p_state (r_ports s j) \<and>
    p_nextUpgrade (r_ports (upgrade_port i s) j) = p_nextUpgrade (r_ports s j)"
  by (simp add: upgrade_port_def Let_def r_ports_upd_port)

lemma upgrade_port_keeps: "keeps {i} s (upgrade_port i s)"
  by (auto simp: explicit upgrade_port_def Let_def)

lemma upgrade_port_inv:
  assumes "port_inv s" "alternate_has_root s"
  shows "port_inv (upgrade_port i s) \<and> alternate_has_root (upgrade_port i s) \<and> same_cfg s (upgrade_port i s)"
proof (cases "r_carrier s i \<and> p_nextUpgrade (r_ports s i) = r_now s \<and>
    (p_role (r_ports s i) = NOTASSIGNED \<or> p_role (r_ports s i) = DESIGNATED)")
  case False
  then have "upgrade_port i s = s" by (auto simp: upgrade_port_def Let_def)
  with assms show ?thesis by simp
next
  case True
  have role: "p_role (r_ports (upgrade_port i s) i) = DESIGNATED"
    using True by (auto simp: upgrade_port_def Let_def r_ports_upd_port)
  have "port_ok s (upgrade_port i s) i"
    by (rule port_okI(3)[OF role])
      (use True assms(1) in \<open>auto simp: upgrade_port_def Let_def r_ports_upd_port port_inv_def wf_rstp_def\<close>)
  then show ?thesis
    by (rule demote[OF assms upgrade_port_keeps]) (use True role in auto)
qed

lemma handleUpgrade_ok:
  assumes "port_inv s" "alternate_has_root s"
  shows "\<exists>t. handleUpgrade s = Some t \<and> settled s t"
proof -
  have "port_inv (fold upgrade_port is s) \<and> alternate_has_root (fold upgrade_port is s) \<and>
      same_cfg s (fold upgrade_port is s)" for "is"
    by (rule fold_inv) (use assms upgrade_port_inv in \<open>auto intro: same_cfg_trans\<close>)
  then show ?thesis using reschedule_settled unfolding handleUpgrade_def by blast
qed

section \<open>Carrier changes\<close>

lemma carrier_changed_ok:
  assumes "rstp_inv s" "alternate_has_root s"
  shows "\<exists>t. rstp_handle (CarrierChange i up) s = Some t \<and> rstp_inv t \<and> alternate_has_root t \<and>
    same_cfg (s\<lparr>r_carrier := (r_carrier s)(i := up)\<rparr>) t"
proof -
  define u where "u = s\<lparr>r_carrier := (r_carrier s)(i := up)\<rparr>"
  have alt: "alternate_has_root u" using assms(2) by (simp add: u_def alternate_has_root_def)
  show ?thesis
  proof (cases "i \<in> set (r_ids s) \<and> up")
    case False
    then have "rstp_inv u" using assms(1)
      by (auto simp: u_def rstp_inv_def inv_defs timer_armed_def split: if_splits)
    with alt False show ?thesis by (auto simp: carrier_changed_def u_def)
  next
    case True
    let ?f = "\<lambda>p. if p_role p = NOTASSIGNED then set_upgrade (r_now u + r_migrateTime u) p
             else if p_role p = DESIGNATED \<and> (p_state p = DISCARDING \<or> p_state p = LEARNING)
             then set_upgrade (r_now u + r_forwardDelay u) p
             else p"
    have wf: "wf_rstp u" "one_root u" "edge_quiet u"
      "\<forall>i \<in> set (r_ids u). role_fits_state (r_ports u i)"
      using assms(1) by (auto simp: u_def rstp_inv_def inv_defs)
    have past: "pending u j \<Longrightarrow> j \<noteq> i \<Longrightarrow> r_now u \<le> p_nextUpgrade (r_ports u j)" for j
      using assms(1) by (auto simp: u_def rstp_inv_def inv_defs)
    have same: "p_role (r_ports (upd_port i ?f u) j) = p_role (r_ports u j)"
      "p_state (r_ports (upd_port i ?f u) j) = p_state (r_ports u j)"
      "p_edge (r_ports (upd_port i ?f u) j) = p_edge (r_ports u j)" for j
      by (simp_all add: r_ports_upd_port)
    have "r_now u \<le> p_nextUpgrade (r_ports (upd_port i ?f u) j)" if "pending (upd_port i ?f u) j" for j
    proof (cases "j = i")
      case True
      with that wf(1) show ?thesis
        by (auto simp: pending_def upgrade_candidate_def r_ports_upd_port wf_rstp_def split: if_splits)
    next
      case False
      with that past[of j] show ?thesis
        by (simp add: pending_def upgrade_candidate_def r_ports_upd_port)
    qed
    then have "port_inv (upd_port i ?f u)"
      using wf unfolding port_inv_def wf_rstp_def one_root_def edge_quiet_def role_fits_state_def
        no_past_upgrade_def same upd_port_simps by blast
    moreover have "alternate_has_root (upd_port i ?f u)"
      using alt unfolding alternate_has_root_def same upd_port_simps .
    moreover have "same_cfg u (upd_port i ?f u)" by (auto simp: same_cfg_def r_ports_upd_port)
    ultimately obtain t where "scheduleNextUpgrade (upd_port i ?f u) = Some t" "settled u t"
      using reschedule_settled by blast
    moreover have "rstp_handle (CarrierChange i up) s = scheduleNextUpgrade (upd_port i ?f u)"
    proof -
      have "up = True" "i \<in> set (r_ids s)" using True by simp_all
      then show ?thesis unfolding u_def by (simp only: rstp_handle.simps carrier_changed_def)
        simp
    qed
    ultimately show ?thesis by (simp add: settled_def u_def[symmetric])
  qed
qed

section \<open>Runs\<close>

text \<open>
  The events the environment may deliver: a BPDU of another bridge on a port that is not an edge
  port, a timer at its time, a carrier change at any time. Between events time passes, but not
  beyond a scheduled timer.
\<close>

fun rstp_enabled :: "rstp_event \<Rightarrow> rstp \<Rightarrow> bool" where
  "rstp_enabled (FrameArrival src frame a) s \<longleftrightarrow>
     a \<in> set (r_ids s) \<and> \<not> p_edge (r_ports s a) \<and> src \<noteq> r_bridgeAddress s"
| "rstp_enabled HelloTime s \<longleftrightarrow> r_helloTimer s = Some (r_now s)"
| "rstp_enabled Upgrade s \<longleftrightarrow> r_upgradeTimer s = Some (r_now s)"
| "rstp_enabled (CarrierChange i up) s \<longleftrightarrow> True"

definition before_timer :: "int \<Rightarrow> int option \<Rightarrow> bool" where
  "before_timer t timer = (case timer of None \<Rightarrow> True | Some u \<Rightarrow> t \<le> u)"

inductive rstp_reachable :: "rstp \<Rightarrow> bool" where
  start: "wf_rstp s \<Longrightarrow> rstp_start bridge s = Some t \<Longrightarrow> rstp_reachable t"
| elapse: "rstp_reachable s \<Longrightarrow> r_now s \<le> t \<Longrightarrow> before_timer t (r_upgradeTimer s) \<Longrightarrow>
    before_timer t (r_helloTimer s) \<Longrightarrow> rstp_reachable (s\<lparr>r_now := t\<rparr>)"
| event: "rstp_reachable s \<Longrightarrow> rstp_enabled e s \<Longrightarrow> rstp_handle e s = Some t \<Longrightarrow> rstp_reachable t"

lemma start_ok:
  assumes "wf_rstp s"
  shows "\<exists>t. rstp_start bridge s = Some t \<and> rstp_inv t \<and> alternate_has_root t"
proof -
  have "wf_rstp (s\<lparr>r_bridgeAddress := bridge\<rparr>)" using assms by (simp add: wf_rstp_def)
  from initPorts_ok[OF this] show ?thesis by (auto simp: rstp_start_def settled_def)
qed

lemma elapse_ok:
  assumes "rstp_inv s" "alternate_has_root s" "r_now s \<le> t" "before_timer t (r_upgradeTimer s)"
  shows "rstp_inv (s\<lparr>r_now := t\<rparr>) \<and> alternate_has_root (s\<lparr>r_now := t\<rparr>)"
proof -
  have "t \<le> p_nextUpgrade (r_ports s i)" if "pending s i" for i
    using assms(1,4) that by (fastforce simp: rstp_inv_def timer_armed_def before_timer_def)
  with assms(1,2) show ?thesis
    by (auto simp: rstp_inv_def inv_defs timer_armed_def alternate_has_root_def)
qed

lemma port_inv_stop [simp]:
  "port_inv (s\<lparr>r_helloTimer := x\<rparr>) = port_inv s"
  by (simp add: inv_defs)

lemma event_ok:
  assumes "rstp_inv s" "alternate_has_root s" "rstp_enabled e s"
  shows "\<exists>t. rstp_handle e s = Some t \<and> rstp_inv t \<and> alternate_has_root t"
proof (cases e)
  case (FrameArrival src frame a)
  with assms handleIncomingFrame_ok[of s a src frame] show ?thesis by (auto simp: settled_def)
next
  case HelloTime
  with assms handleHelloTime_ok[of "s\<lparr>r_helloTimer := None\<rparr>"] show ?thesis by auto
next
  case Upgrade
  with assms handleUpgrade_ok[of "s\<lparr>r_upgradeTimer := None\<rparr>"] show ?thesis
    by (auto simp: settled_def rstp_inv_def)
next
  case (CarrierChange i up)
  with carrier_changed_ok[OF assms(1,2), of i up] show ?thesis by auto
qed

lemma reachable_inv:
  assumes "rstp_reachable s"
  shows "rstp_inv s \<and> alternate_has_root s"
  using assms
proof induction
  case (start s bridge t)
  with start_ok[of s bridge] show ?case by auto
next
  case (elapse s t)
  then show ?case using elapse_ok by blast
next
  case (event s e t)
  then show ?case using event_ok[of s e] by auto
qed

section \<open>Properties\<close>

text \<open>A bridge with two ports at time 0, used by the witnesses.\<close>

definition two_ports :: rstp where
  "two_ports = \<lparr>r_now = 0, r_ids = [1, 2], r_ports = (\<lambda>_. PortInfo), r_carrier = (\<lambda>_. True),
     r_mac = \<lparr>agingTime = 300 * SECOND, lastPurge = 0, forwardingTable = (\<lambda>_. None),
       multicastForwardingTable = (\<lambda>_. None)\<rparr>,
     r_bridgePriority = 32768, r_bridgeAddress = MacAddress 0, r_maxAge = 20 * SECOND,
     r_helloTime = 2 * SECOND, r_forwardDelay = 6 * SECOND, r_migrateTime = 3 * SECOND,
     r_tcWhileTime = 3 * SECOND, r_upgradeTimer = None, r_helloTimer = None, r_sent = []\<rparr>"

definition started :: rstp where
  "started = the (rstp_start (MacAddress 1) two_ports)"

lemma two_ports_start: "rstp_start (MacAddress 1) two_ports = Some started"
  using start_ok[of two_ports "MacAddress 1"]
  by (auto simp: started_def two_ports_def wf_rstp_def SECOND_def)

lemma started_reachable: "rstp_reachable started"
  by (rule rstp_reachable.start[OF _ two_ports_start]) (simp add: two_ports_def wf_rstp_def SECOND_def)

lemma started_cfg:
  "r_now started = 0" "r_ids started = [1, 2]" "r_bridgeAddress started = MacAddress 1"
  "p_edge (r_ports started i) = False" "r_helloTimer started = Some 0"
proof -
  have "wf_rstp (two_ports\<lparr>r_bridgeAddress := MacAddress 1\<rparr>)"
    by (simp add: two_ports_def wf_rstp_def SECOND_def)
  from initPorts_ok[OF this] obtain t where
    t: "initPorts (two_ports\<lparr>r_bridgeAddress := MacAddress 1\<rparr>) = Some t"
    "same_cfg (two_ports\<lparr>r_bridgeAddress := MacAddress 1\<rparr>) t" by (auto simp: settled_def)
  have st: "started = t\<lparr>r_helloTimer := Some (r_now t)\<rparr>"
    using t(1) by (simp add: started_def rstp_start_def)
  show "r_now started = 0" "r_ids started = [1, 2]" "r_bridgeAddress started = MacAddress 1"
    "p_edge (r_ports started i) = False" "r_helloTimer started = Some 0"
    unfolding st using t(2) by (simp_all add: same_cfg_def two_ports_def PortInfo_def)
qed

text \<open>
  C13. In every state an RSTP bridge can reach (any BPDUs of other bridges on ports that are not
  edge ports, any timer expiries and carrier changes, in any order), at most one port is the root
  port; a root port forwards and alternate, backup, disabled and unassigned ports discard; an
  alternate port exists only beside a root port; and every port that waits for an upgrade has its
  upgrade time in the future with the upgrade timer scheduled no later.
\<close>

theorem rstp_reachable_invariant:
  assumes "rstp_reachable s"
  shows "(\<forall>i \<in> set (r_ids s). \<forall>j \<in> set (r_ids s).
        p_role (r_ports s i) = ROOT \<longrightarrow> p_role (r_ports s j) = ROOT \<longrightarrow> i = j) \<and>
    (\<forall>i \<in> set (r_ids s). p_role (r_ports s i) = ROOT \<longrightarrow> isForwarding (r_ports s i)) \<and>
    (\<forall>i \<in> set (r_ids s). p_role (r_ports s i) \<in> {ALTERNATE, BACKUP, DISABLED, NOTASSIGNED} \<longrightarrow>
        \<not> isLearning (r_ports s i)) \<and>
    ((\<exists>i \<in> set (r_ids s). p_role (r_ports s i) = ALTERNATE) \<longrightarrow> getRootInterfaceId s \<in> set (r_ids s)) \<and>
    (\<forall>i \<in> set (r_ids s). r_carrier s i \<and> upgrade_candidate (r_ports s i) \<longrightarrow>
        r_now s \<le> p_nextUpgrade (r_ports s i) \<and>
        (\<exists>t. r_upgradeTimer s = Some t \<and> t \<le> p_nextUpgrade (r_ports s i)))"
proof -
  have i: "rstp_inv s" "alternate_has_root s" using reachable_inv[OF assms] by auto
  have "getRootInterfaceId s \<in> set (r_ids s)" if "\<exists>i \<in> set (r_ids s). p_role (r_ports s i) = ALTERNATE"
    using i(2) that getRoot_some by (auto simp: alternate_has_root_def)
  with i(1) show ?thesis
    by (auto simp: rstp_inv_def timer_armed_def inv_defs isForwarding_def isLearning_def)
qed

theorem rstp_reachable_invariant_witness:
  "\<not> (p_role (r_ports started 1) = ROOT \<and> p_role (r_ports started 2) = ROOT)"
  using rstp_reachable_invariant[OF started_reachable] by (auto simp: started_cfg)

text \<open>
  C14. As long as a bridge receives only BPDUs of other bridges, on ports that are not edge ports, the RSTP module
  does not throw: in every state reached that way each such BPDU, the hello and the upgrade timer at their time and
  each carrier change (\<open>rstp_enabled\<close>) is handled to the end; no timer is scheduled in the past and no unknown interface
  id is looked up. The resulting state satisfies the invariants again. BPDUs with the bridge's own address
  (\<open>handleBackup\<close>) and BPDUs on edge ports are not covered; \<open>own_bpdu_then_throw\<close> shows that the module can throw
  after one of its own.
\<close>

theorem rstp_handlers_total:
  assumes "rstp_reachable s" "rstp_enabled e s"
  shows "\<exists>t. rstp_handle e s = Some t \<and> rstp_reachable t \<and> rstp_inv t \<and> alternate_has_root t"
  using event_ok[of s e] reachable_inv[OF assms(1)] assms rstp_reachable.event by blast

theorem rstp_handlers_total_witness:
  "\<exists>t. rstp_handle (FrameArrival (MacAddress 7) BpduCfg 2) started = Some t \<and> rstp_reachable t
     \<and> rstp_inv t \<and> alternate_has_root t"
  by (rule rstp_handlers_total[OF started_reachable]) (simp add: started_cfg)

text \<open>
  A bridge (address 9) with two ports on one segment: port 1 designated, port 2 the root port,
  port 3 an alternate towards bridge 6. \<open>echo\<close> is its own BPDU of port 1, \<open>costlier\<close> a BPDU of
  bridge 6 with a higher root path cost than before.
\<close>

definition shared_segment :: rstp where
  "shared_segment = \<lparr>r_now = 0, r_ids = [1, 2, 3], r_ports = (\<lambda>i.
       if i = 2 then PortInfo\<lparr>p_role := ROOT, p_rootAddress := MacAddress 5, p_rootPathCost := 1,
         p_bridgeAddress := MacAddress 5, p_portNum := 1\<rparr>
       else if i = 3 then PortInfo\<lparr>p_role := ALTERNATE, p_state := DISCARDING,
         p_rootAddress := MacAddress 5, p_rootPathCost := 2, p_bridgeAddress := MacAddress 6, p_portNum := 1\<rparr>
       else PortInfo\<lparr>p_role := DESIGNATED\<rparr>),
     r_carrier = (\<lambda>_. True),
     r_mac = \<lparr>agingTime = 300 * SECOND, lastPurge = 0, forwardingTable = (\<lambda>_. None),
       multicastForwardingTable = (\<lambda>_. None)\<rparr>,
     r_bridgePriority = 32768, r_bridgeAddress = MacAddress 9, r_maxAge = 20 * SECOND,
     r_helloTime = 2 * SECOND, r_forwardDelay = 6 * SECOND, r_migrateTime = 3 * SECOND,
     r_tcWhileTime = 3 * SECOND, r_upgradeTimer = None, r_helloTimer = None, r_sent = []\<rparr>"

definition echo :: bpdu where
  "echo = BpduCfg\<lparr>b_rootAddress := MacAddress 5, b_rootPathCost := 1, b_bridgePriority := 32768,
     b_bridgeAddress := MacAddress 9, b_portNum := 1\<rparr>"

definition costlier :: bpdu where
  "costlier = BpduCfg\<lparr>b_rootAddress := MacAddress 5, b_rootPathCost := 5,
     b_bridgeAddress := MacAddress 6, b_portNum := 1\<rparr>"

lemma shared_segment_inv: "rstp_inv shared_segment \<and> alternate_has_root shared_segment"
  by (simp add: rstp_inv_def inv_defs timer_armed_def alternate_has_root_def shared_segment_def
      SECOND_def PortInfo_def)

text \<open>
  The excluded event is a defect: when the bridge hears its own BPDU on its root port, the
  port becomes a backup port while an alternate port remains, and the next BPDU of the alternate's
  own source with a higher cost makes the module throw, since \<open>contestInterfacedata\<close> looks up
  the interface of a root port that does not exist.
\<close>

theorem own_bpdu_then_throw:
  "rstp_inv shared_segment \<and> alternate_has_root shared_segment \<and>
   (\<exists>t. handleIncomingFrame (MacAddress 9) echo 2 shared_segment = Some t \<and>
        p_role (r_ports t 2) = BACKUP \<and> p_role (r_ports t 3) = ALTERNATE \<and>
        handleIncomingFrame (MacAddress 6) costlier 3 t = None)"
proof -
  let ?t = "upd_port 2 (\<lambda>p. set_lost 0 (set_role BACKUP DISCARDING p))
    (upd_mac (removeForwardingInterface 2) shared_segment)"
  have 1: "handleIncomingFrame (MacAddress 9) echo 2 shared_segment = Some ?t"
    by (simp add: handleIncomingFrame_def checkTC_def getPortInterfaceData_def handleBackup_def
        compareTo_simps echo_def BpduCfg_def shared_segment_def SECOND_def PortInfo_def)
  have roles: "p_role (r_ports ?t 2) = BACKUP" "p_role (r_ports ?t 3) = ALTERNATE"
    by (simp_all add: r_ports_upd_port shared_segment_def PortInfo_def)
  have root: "getRootInterfaceId ?t = -1"
    by (simp add: getRootInterfaceId_def r_ports_upd_port shared_segment_def PortInfo_def)
  have cmp: "compareInterfacedata ?t 3 costlier 1 = Some WORSE_RPC"
    by (simp add: compareInterfacedata_def getPortInterfaceData_def compareRSTPData_def
        compareTo_simps costlier_def BpduCfg_def shared_segment_def PortInfo_def upd_port_def upd_mac_def)
  have 2: "handleIncomingFrame (MacAddress 6) costlier 3 ?t = None"
    using root cmp
    by (simp add: handleIncomingFrame_def checkTC_def getPortInterfaceData_def processBPDU_def
        processSameSource_def ss_worse_route_def contest_frame_def compareTo_simps
        costlier_def BpduCfg_def shared_segment_def PortInfo_def upd_port_def upd_mac_def SECOND_def)
  show ?thesis using shared_segment_inv 1 roles 2 by blast
qed

text \<open>The part of a port the upgrade works on, and what one upgrade makes of it.\<close>

definition stage :: "rstp \<Rightarrow> int \<Rightarrow> port_role \<times> port_state \<times> simtime" where
  "stage s i = (p_role (r_ports s i), p_state (r_ports s i), p_nextUpgrade (r_ports s i))"

lemma stage_upgrade_cong:
  assumes "stage t i = stage s i" "r_now t = r_now s" "r_carrier t = r_carrier s"
    "r_forwardDelay t = r_forwardDelay s"
  shows "stage (upgrade_port i t) i = stage (upgrade_port i s) i"
  using assms by (auto simp: stage_def upgrade_port_def Let_def r_ports_upd_port)

lemma fold_upgrade_keeps: "keeps (set is) s (fold upgrade_port is s)"
proof (induction "is" arbitrary: s)
  case Nil
  then show ?case by (simp add: keeps_neutral)
next
  case (Cons i "is")
  have "keeps ({i} \<union> set is) s (fold upgrade_port is (upgrade_port i s))"
    by (rule keeps_trans[OF upgrade_port_keeps Cons.IH])
  then show ?case by simp
qed

lemma fold_upgrade_stage:
  assumes "distinct is" "i \<in> set is"
  shows "stage (fold upgrade_port is s) i = stage (upgrade_port i s) i"
  using assms
proof (induction "is" rule: rev_induct)
  case Nil
  then show ?case by simp
next
  case (snoc j js)
  let ?u = "fold upgrade_port js s"
  note k = keeps_cfg[OF fold_upgrade_keeps[of js s]]
  show ?case
  proof (cases "i = j")
    case True
    then have "i \<notin> set js" using snoc.prems(1) by simp
    then have "stage ?u i = stage s i" using k(8-10)[of i] by (simp add: stage_def)
    then have "stage (upgrade_port i ?u) i = stage (upgrade_port i s) i"
      by (rule stage_upgrade_cong) (rule k)+
    with True show ?thesis by simp
  next
    case False
    then have "stage ?u i = stage (upgrade_port i s) i" using snoc by simp
    with upgrade_port_other[OF False, of ?u] show ?thesis by (simp add: stage_def)
  qed
qed

lemma schedule_exact:
  "scheduleNextUpgrade s = Some t \<Longrightarrow> r_upgradeTimer t = Some u \<Longrightarrow>
   \<exists>k. pending s k \<and> p_nextUpgrade (r_ports s k) = u"
  using next_upgrade_port_Some[of s]
  by (auto simp: scheduleNextUpgrade_def split: option.splits if_splits)

lemma schedule_stage: "scheduleNextUpgrade s = Some t \<Longrightarrow> stage t i = stage s i \<and> r_now t = r_now s"
  by (auto simp: scheduleNextUpgrade_def stage_def split: option.splits if_splits)

text \<open>
  Progress of the upgrade timer: when it expires in a reachable state, every port with carrier
  whose time has come moves on by one stage (unassigned to designated discarding, discarding to
  learning, learning to forwarding, the next upgrade one forward delay later), and the timer is
  not scheduled again for the same instant.
\<close>

theorem upgrade_advances_ports:
  assumes "rstp_reachable s" "0 < r_forwardDelay s" "rstp_handle Upgrade s = Some t"
  shows "(\<forall>i \<in> set (r_ids s). r_carrier s i \<longrightarrow> p_nextUpgrade (r_ports s i) = r_now s \<longrightarrow>
      (p_role (r_ports s i) = NOTASSIGNED \<longrightarrow>
         stage t i = (DESIGNATED, DISCARDING, r_now s + r_forwardDelay s)) \<and>
      (p_role (r_ports s i) = DESIGNATED \<longrightarrow> p_state (r_ports s i) = DISCARDING \<longrightarrow>
         stage t i = (DESIGNATED, LEARNING, r_now s + r_forwardDelay s)) \<and>
      (p_role (r_ports s i) = DESIGNATED \<longrightarrow> p_state (r_ports s i) = LEARNING \<longrightarrow>
         stage t i = (DESIGNATED, FORWARDING, r_now s))) \<and>
    (\<forall>u. r_upgradeTimer t = Some u \<longrightarrow> r_now s < u)"
proof -
  let ?s = "s\<lparr>r_upgradeTimer := None\<rparr>" and ?f = "fold upgrade_port (r_ids s) (s\<lparr>r_upgradeTimer := None\<rparr>)"
  have inv: "rstp_inv s" using reachable_inv[OF assms(1)] by blast
  have sched: "scheduleNextUpgrade ?f = Some t" using assms(3) by (simp add: handleUpgrade_def)
  note k = keeps_cfg[OF fold_upgrade_keeps[of "r_ids s" ?s], simplified]
  have st: "stage ?f i = stage (upgrade_port i ?s) i" if "i \<in> set (r_ids s)" for i
    using fold_upgrade_stage[OF _ that] inv by (simp add: rstp_inv_def inv_defs)
  have t: "stage t i = stage (upgrade_port i ?s) i" if "i \<in> set (r_ids s)" for i
    using st[OF that] schedule_stage[OF sched] by simp
  have "r_now s < u" if u: "r_upgradeTimer t = Some u" for u
  proof -
    obtain j where j: "pending ?f j" "p_nextUpgrade (r_ports ?f j) = u"
      using schedule_exact[OF sched u] by blast
    then have ids: "j \<in> set (r_ids s)" "r_carrier s j" using k by (simp_all add: pending_def)
    have past: "pending s j \<Longrightarrow> r_now s \<le> p_nextUpgrade (r_ports s j)"
      using inv by (simp add: rstp_inv_def port_inv_def no_past_upgrade_def)
    have "stage (upgrade_port j ?s) j = stage ?f j" using st[OF ids(1)] by simp
    with j have "upgrade_candidate (r_ports (upgrade_port j ?s) j)"
      "p_nextUpgrade (r_ports (upgrade_port j ?s) j) = u"
      by (simp_all add: stage_def pending_def upgrade_candidate_def)
    with past ids assms(2) show ?thesis
      by (auto simp: upgrade_port_def Let_def r_ports_upd_port pending_def upgrade_candidate_def
          split: if_splits)
  qed
  with t show ?thesis
    by (auto simp: stage_def upgrade_port_def Let_def r_ports_upd_port)
qed

lemma initPorts_delay: "initPorts s = Some t \<Longrightarrow> r_forwardDelay t = r_forwardDelay s"
  using init_loop[of s "r_ids s"] by (auto simp: initPorts_def with_timer_def dest!: schedule_Some)

lemma started_delay: "r_forwardDelay started = 6 * SECOND"
proof -
  obtain t where t: "initPorts (two_ports\<lparr>r_bridgeAddress := MacAddress 1\<rparr>) = Some t"
    using initPorts_ok[of "two_ports\<lparr>r_bridgeAddress := MacAddress 1\<rparr>"]
    by (auto simp: two_ports_def wf_rstp_def SECOND_def)
  have st: "started = t\<lparr>r_helloTimer := Some (r_now t)\<rparr>" using t by (simp add: started_def rstp_start_def)
  show ?thesis unfolding st using initPorts_delay[OF t] by (simp add: two_ports_def)
qed

theorem upgrade_advances_ports_witness:
  "\<exists>t. rstp_handle Upgrade started = Some t \<and> r_upgradeTimer t \<noteq> Some 0"
proof -
  have "port_inv (started\<lparr>r_upgradeTimer := None\<rparr>)" "alternate_has_root (started\<lparr>r_upgradeTimer := None\<rparr>)"
    using reachable_inv[OF started_reachable] by (simp_all add: rstp_inv_def)
  from handleUpgrade_ok[OF this] obtain t where t: "rstp_handle Upgrade started = Some t" by auto
  have "0 < r_forwardDelay started" by (simp add: started_delay SECOND_def)
  from upgrade_advances_ports[OF started_reachable this t] t started_cfg(1) show ?thesis by auto
qed

end
