(* ===== verification/Stp.thy ===== *)
theory Stp
  imports Bridge_Data
begin

text \<open>
  \<open>Stp\<close> (src/inet/src/inet/linklayer/ieee8021d/stp/Stp.cc): the spanning tree protocol of one bridge.

  The state is that of \<open>Rstp\<close> without the RSTP timers, with the discovered root and the topology change
  flags. All interfaces of the table are taken to be ports of the bridge. A loop over the ports is a fold
  over the interface ids in the order of the table. The ticks are events; the messages sent so far are a
  list. \<open>None\<close> is an exception: an interface id that is not in the table. \<open>st_helloTime\<close> is the member of
  \<open>Stp\<close> itself, which hides the member of \<open>StpBase\<close> that holds the parameter of that name.
\<close>

section \<open>State\<close>

datatype stp_message = SentCfg int mac_address bpdu | SentTcn int mac_address

record stp =
  st_ids :: "int list"
  st_ports :: "int \<Rightarrow> port_info"
  st_mac :: mac_table
  st_par_agingTime :: simtime
  st_bridgePriority :: u32
  st_bridgeAddress :: mac_address
  st_maxAge :: simtime
  st_helloTime :: simtime
  st_forwardDelay :: simtime
  st_isRoot :: bool
  st_rootInterfaceId :: int
  st_desPorts :: "int list"
  st_rootPathCost :: u32
  st_rootPriority :: u32
  st_rootAddress :: mac_address
  st_currentMaxAge :: simtime
  st_currentFwdDelay :: simtime
  st_currentHelloTime :: simtime
  st_currentBridgePriority :: u32
  st_topologyChangeNotification :: bool
  st_topologyChangeRecvd :: bool
  st_sent :: "stp_message list"

definition stp_port :: "stp \<Rightarrow> int \<Rightarrow> port_info option" where
  "stp_port s i = (if i \<in> set (st_ids s) then Some (st_ports s i) else None)"

definition stp_upd :: "int \<Rightarrow> (port_info \<Rightarrow> port_info) \<Rightarrow> stp \<Rightarrow> stp" where
  "stp_upd i f s = s\<lparr>st_ports := (st_ports s)(i := f (st_ports s i))\<rparr>"

definition STP_MULTICAST :: mac_address where
  "STP_MULTICAST = STP_MULTICAST_ADDRESS"

section \<open>Sending\<close>

definition generateBPDU :: "int \<Rightarrow> mac_address \<Rightarrow> bool \<Rightarrow> bool \<Rightarrow> stp \<Rightarrow> stp option" where
  "generateBPDU i addr tcFlag tcaFlag s =
     do {
       port \<leftarrow> stp_port s i;
       let bpdu = BpduCfg\<lparr>b_bridgeAddress := st_bridgeAddress s, b_bridgePriority := ucast (st_bridgePriority s),
         b_rootPathCost := st_rootPathCost s, b_rootAddress := st_rootAddress s,
         b_rootPriority := ucast (st_rootPriority s), b_portNum := word_of_int i,
         b_portPriority := p_priority port, b_messageAge := 0, b_maxAge := st_currentMaxAge s,
         b_helloTime := st_currentHelloTime s, b_forwardDelay := st_currentFwdDelay s\<rparr>;
       let bpdu = (if st_topologyChangeNotification s then
           (if st_isRoot s \<or> tcFlag then bpdu\<lparr>b_tcFlag := True, b_tcaFlag := False\<rparr>
            else if tcaFlag then bpdu\<lparr>b_tcFlag := False, b_tcaFlag := True\<rparr> else bpdu) else bpdu);
       Some (s\<lparr>st_sent := st_sent s @ [SentCfg i addr bpdu]\<rparr>)
     }"

definition generateTCN :: "stp \<Rightarrow> stp option" where
  "generateTCN s =
     (if st_topologyChangeNotification s \<or> \<not> st_topologyChangeRecvd s then
        do {
          port \<leftarrow> stp_port s (st_rootInterfaceId s);
          Some (if p_role port = ROOT
            then s\<lparr>st_topologyChangeNotification := False,
              st_sent := st_sent s @ [SentTcn (st_rootInterfaceId s) STP_MULTICAST]\<rparr>
            else s)
        }
      else Some s)"

definition generateHelloBPDUs :: "stp \<Rightarrow> stp option" where
  "generateHelloBPDUs s = fold_opt (\<lambda>i s. generateBPDU i STP_MULTICAST False False s) (st_ids s) s"

section \<open>Received vectors\<close>

definition setSuperiorBPDU :: "int \<Rightarrow> bpdu \<Rightarrow> stp \<Rightarrow> stp" where
  "setSuperiorBPDU i b s =
     (if b_messageAge b \<ge> b_maxAge b then s
      else stp_upd i (\<lambda>p. p\<lparr>p_rootPriority := ucast (b_rootPriority b), p_rootAddress := b_rootAddress b,
        p_rootPathCost := b_rootPathCost b + p_linkCost p, p_bridgePriority := ucast (b_bridgePriority b),
        p_bridgeAddress := b_bridgeAddress b, p_portPriority := b_portPriority b, p_portNum := b_portNum b,
        p_maxAge := b_maxAge b, p_fwdDelay := b_forwardDelay b, p_helloTime := b_helloTime b, p_age := 0\<rparr>) s)"

definition bpdu_vector :: "port_info \<Rightarrow> bpdu \<Rightarrow> port_info" where
  "bpdu_vector port b = PortInfo\<lparr>p_rootPriority := ucast (b_rootPriority b), p_rootAddress := b_rootAddress b,
     p_rootPathCost := b_rootPathCost b + p_linkCost port, p_bridgePriority := ucast (b_bridgePriority b),
     p_bridgeAddress := b_bridgeAddress b, p_portPriority := b_portPriority b, p_portNum := b_portNum b\<rparr>"

definition isSuperiorBPDU :: "int \<Rightarrow> bpdu \<Rightarrow> stp \<Rightarrow> (bool \<times> stp) option" where
  "isSuperiorBPDU i b s =
     do {
       port \<leftarrow> stp_port s i;
       let result = comparePorts port (bpdu_vector port b);
       Some (if result > 0 then (False, s)
         else if result < 0
         then (True, setSuperiorBPDU i b (stp_upd i (\<lambda>p. p\<lparr>p_fdWhile := 0, p_state := DISCARDING\<rparr>) s))
         else (True, setSuperiorBPDU i b s))
     }"

section \<open>Roles\<close>

text \<open>The best port so far; an equal vector is beaten by a smaller port priority.\<close>

definition root_candidate :: "stp \<Rightarrow> int \<Rightarrow> int \<Rightarrow> int" where
  "root_candidate s i best =
     (let result = comparePorts (st_ports s i) (st_ports s best)
      in if result > 0 then i else if result < 0 then best
         else if p_priority (st_ports s i) < p_priority (st_ports s best) then i else best)"

definition selectRootPort :: "stp \<Rightarrow> stp option" where
  "selectRootPort s =
     (case st_ids s of [] \<Rightarrow> None
      | first_id # _ \<Rightarrow>
         (let s = s\<lparr>st_desPorts := []\<rparr>;
              (s, best) = fold (\<lambda>i (s, best).
                 let s = stp_upd i (\<lambda>p. p\<lparr>p_role := NOTASSIGNED\<rparr>) s
                 in (s, root_candidate s i best)) (st_ids s) (s, first_id);
              s = (if st_rootInterfaceId s \<noteq> best then s\<lparr>st_topologyChangeNotification := True\<rparr> else s);
              s = stp_upd best (\<lambda>p. p\<lparr>p_role := ROOT\<rparr>) (s\<lparr>st_rootInterfaceId := best\<rparr>);
              p = st_ports s best
          in Some (s\<lparr>st_rootPathCost := p_rootPathCost p, st_rootAddress := p_rootAddress p,
               st_rootPriority := p_rootPriority p, st_currentMaxAge := p_maxAge p,
               st_currentFwdDelay := p_fwdDelay p, st_currentHelloTime := p_helloTime p\<rparr>)))"

definition bridge_vector :: "stp \<Rightarrow> int \<Rightarrow> port_info" where
  "bridge_vector s i = PortInfo\<lparr>p_bridgePriority := st_bridgePriority s, p_bridgeAddress := st_bridgeAddress s,
     p_rootAddress := st_rootAddress s, p_rootPriority := st_rootPriority s,
     p_portPriority := p_priority (st_ports s i), p_portNum := word_of_int i,
     p_rootPathCost := st_rootPathCost s + p_linkCost (st_ports s i)\<rparr>"

definition select_designated :: "int \<Rightarrow> stp \<Rightarrow> stp" where
  "select_designated i s =
     (if p_role (st_ports s i) = ROOT \<or> p_role (st_ports s i) = DISABLED then s
      else
        (let result = comparePorts (bridge_vector s i) (st_ports s i)
         in if result > 0
            then stp_upd i (\<lambda>p. p\<lparr>p_role := DESIGNATED\<rparr>) (s\<lparr>st_desPorts := st_desPorts s @ [i]\<rparr>)
            else if result < 0 then stp_upd i (\<lambda>p. p\<lparr>p_role := ALTERNATE\<rparr>) s
            else s))"

definition selectDesignatedPorts :: "stp \<Rightarrow> stp" where
  "selectDesignatedPorts s = fold select_designated (st_ids s) (s\<lparr>st_desPorts := []\<rparr>)"

definition set_designated :: "int \<Rightarrow> stp \<Rightarrow> stp" where
  "set_designated i s =
     (if p_role (st_ports s i) = DISABLED then s
      else (stp_upd i (\<lambda>p. p\<lparr>p_role := DESIGNATED\<rparr>) s)\<lparr>st_desPorts := st_desPorts s @ [i]\<rparr>)"

definition setAllDesignated :: "stp \<Rightarrow> stp" where
  "setAllDesignated s = fold set_designated (st_ids s) (s\<lparr>st_desPorts := []\<rparr>)"

definition checkRootEligibility :: "stp \<Rightarrow> bool" where
  "checkRootEligibility s \<longleftrightarrow> list_all (\<lambda>i. \<not> compareBridgeIDs (p_rootPriority (st_ports s i)) (p_rootAddress (st_ports s i))
     (st_bridgePriority s) (st_bridgeAddress s) > 0) (st_ids s)"

definition become_root_bridge :: "stp \<Rightarrow> stp" where
  "become_root_bridge s = s\<lparr>st_rootPriority := st_bridgePriority s, st_rootAddress := st_bridgeAddress s,
     st_rootPathCost := 0, st_currentHelloTime := st_helloTime s, st_currentMaxAge := st_maxAge s,
     st_currentFwdDelay := st_forwardDelay s\<rparr>"

definition tryRoot :: "stp \<Rightarrow> stp option" where
  "tryRoot s =
     (if checkRootEligibility s
      then Some (become_root_bridge (setAllDesignated (s\<lparr>st_isRoot := True\<rparr>)))
      else do { s \<leftarrow> selectRootPort (s\<lparr>st_isRoot := False\<rparr>); Some (selectDesignatedPorts s) })"

definition stp_initInterfacedata :: "int \<Rightarrow> stp \<Rightarrow> stp" where
  "stp_initInterfacedata i s = stp_upd i
     (\<lambda>p. p\<lparr>p_role := NOTASSIGNED, p_state := DISCARDING, p_rootPriority := st_bridgePriority s,
        p_rootAddress := st_bridgeAddress s, p_rootPathCost := 0, p_age := 0,
        p_bridgePriority := st_bridgePriority s, p_bridgeAddress := st_bridgeAddress s,
        p_portPriority := -1, p_portNum := -1, p_lostBPDU := 0\<rparr>) s"

definition lostRoot :: "stp \<Rightarrow> stp option" where
  "lostRoot s = tryRoot (s\<lparr>st_topologyChangeNotification := True\<rparr>)"

definition lostAlternate :: "stp \<Rightarrow> stp" where
  "lostAlternate s = (selectDesignatedPorts s)\<lparr>st_topologyChangeNotification := True\<rparr>"

definition stp_reset :: "stp \<Rightarrow> stp" where
  "stp_reset s = setAllDesignated (become_root_bridge (s\<lparr>st_isRoot := True\<rparr>))"

section \<open>Messages\<close>

definition handleBPDU :: "int \<Rightarrow> bpdu \<Rightarrow> stp \<Rightarrow> stp option" where
  "handleBPDU i b s =
     do {
       _ \<leftarrow> stp_port s i;
       let s = (if b_tcaFlag b then s\<lparr>st_topologyChangeRecvd := True, st_topologyChangeNotification := False\<rparr> else s);
       (superior, s) \<leftarrow> isSuperiorBPDU i b s;
       port \<leftarrow> stp_port s i;
       s \<leftarrow> (if \<not> superior then
               (if p_role port = DESIGNATED then generateBPDU i STP_MULTICAST False False s else Some s)
             else if p_role port = ROOT then
               (if b_tcFlag b then
                  fold_opt (\<lambda>i s. generateBPDU i STP_MULTICAST True False s) (st_desPorts s)
                    (s\<lparr>st_mac := setAgingTime (st_par_agingTime s) (st_currentFwdDelay s) (st_mac s)\<rparr>)
                else
                  fold_opt (\<lambda>i s. generateBPDU i STP_MULTICAST False False s) (st_desPorts s)
                    (s\<lparr>st_mac := setAgingTime (st_par_agingTime s) (-1) (st_mac s)\<rparr>))
             else Some s);
       tryRoot s
     }"

definition handleTCN :: "int \<Rightarrow> mac_address \<Rightarrow> mac_address \<Rightarrow> stp \<Rightarrow> stp option" where
  "handleTCN i srcAddress destAddress s =
     do {
       s \<leftarrow> generateBPDU i srcAddress False True (s\<lparr>st_topologyChangeNotification := True\<rparr>);
       Some (if \<not> st_isRoot s then s\<lparr>st_sent := st_sent s @ [SentTcn (st_rootInterfaceId s) destAddress]\<rparr> else s)
     }"

section \<open>The tick\<close>

definition age_port :: "int \<Rightarrow> stp \<Rightarrow> stp" where
  "age_port i s =
     (if p_role (st_ports s i) = DISABLED then s
      else
        (let s = (if p_role (st_ports s i) \<noteq> DESIGNATED then stp_upd i (\<lambda>p. p\<lparr>p_age := p_age p + SECOND\<rparr>) s else s)
         in if p_role (st_ports s i) = ROOT \<or> p_role (st_ports s i) = DESIGNATED
            then stp_upd i (\<lambda>p. p\<lparr>p_fdWhile := p_fdWhile p + SECOND\<rparr>) s else s))"

definition check_age :: "int \<Rightarrow> stp \<Rightarrow> stp option" where
  "check_age i s =
     (if p_age (st_ports s i) \<ge> st_currentMaxAge s then
        (if p_role (st_ports s i) = ROOT then lostRoot (stp_initInterfacedata i s)
         else Some (lostAlternate (stp_initInterfacedata i s)))
      else Some s)"

definition check_fdWhile :: "int \<Rightarrow> stp \<Rightarrow> stp" where
  "check_fdWhile i s =
     (if p_role (st_ports s i) = ROOT \<or> p_role (st_ports s i) = DESIGNATED then
        (if p_fdWhile (st_ports s i) \<ge> st_currentFwdDelay s then
           stp_upd i (\<lambda>p. case p_state p of
               DISCARDING \<Rightarrow> p\<lparr>p_state := LEARNING, p_fdWhile := 0\<rparr>
             | LEARNING \<Rightarrow> p\<lparr>p_state := FORWARDING, p_fdWhile := 0\<rparr>
             | _ \<Rightarrow> p\<lparr>p_fdWhile := 0\<rparr>) s
         else s)
      else stp_upd i (\<lambda>p. p\<lparr>p_fdWhile := 0, p_state := DISCARDING\<rparr>) s)"

definition checkTimers :: "stp \<Rightarrow> stp option" where
  "checkTimers s =
     do {
       s \<leftarrow> (if st_helloTime s \<ge> st_currentHelloTime s then
               do {
                 s \<leftarrow> (if st_isRoot s then generateHelloBPDUs s else Some s);
                 Some (s\<lparr>st_helloTime := 0\<rparr>)
               }
             else Some s);
       s \<leftarrow> fold_opt check_age (st_ids s) s;
       Some (fold check_fdWhile (st_ids s) s)
     }"

definition checkParametersChange :: "stp \<Rightarrow> stp" where
  "checkParametersChange s =
     (let s = (if st_isRoot s then s\<lparr>st_currentHelloTime := st_helloTime s, st_currentMaxAge := st_maxAge s,
                 st_currentFwdDelay := st_forwardDelay s\<rparr> else s)
      in if st_currentBridgePriority s \<noteq> st_bridgePriority s
         then stp_reset (s\<lparr>st_currentBridgePriority := st_bridgePriority s\<rparr>) else s)"

definition handleTick :: "stp \<Rightarrow> stp option" where
  "handleTick s =
     do {
       let s = (if st_isRoot s then s\<lparr>st_helloTime := st_helloTime s + SECOND\<rparr> else s\<lparr>st_helloTime := 0\<rparr>);
       let s = fold age_port (st_ids s) s;
       s \<leftarrow> checkTimers s;
       generateTCN (checkParametersChange s)
     }"

text \<open>Starting the bridge; the address is that of the interface chosen.\<close>

definition stp_start :: "stp \<Rightarrow> stp option" where
  "stp_start s =
     (case st_ids s of [] \<Rightarrow> None
      | first_id # _ \<Rightarrow>
         (let s = fold stp_initInterfacedata (st_ids s) s;
              s = s\<lparr>st_currentBridgePriority := st_bridgePriority s, st_isRoot := True,
                st_topologyChangeNotification := True, st_topologyChangeRecvd := True, st_rootInterfaceId := first_id\<rparr>;
              s = (become_root_bridge s)\<lparr>st_helloTime := 0\<rparr>
          in Some (setAllDesignated s)))"

definition stp_stop :: "stp \<Rightarrow> stp" where
  "stp_stop s = s\<lparr>st_isRoot := False, st_topologyChangeNotification := True\<rparr>"

datatype stp_event = StpTick | StpBpdu int bpdu | StpTcn int mac_address mac_address

fun stp_handle :: "stp_event \<Rightarrow> stp \<Rightarrow> stp option" where
  "stp_handle StpTick s = handleTick s"
| "stp_handle (StpBpdu i b) s = handleBPDU i b s"
| "stp_handle (StpTcn i src dst) s = handleTCN i src dst s"

fun event_port :: "stp_event \<Rightarrow> stp \<Rightarrow> bool" where
  "event_port StpTick s = True"
| "event_port (StpBpdu i b) s = (i \<in> set (st_ids s))"
| "event_port (StpTcn i src dst) s = (i \<in> set (st_ids s))"

section \<open>The reachable states\<close>

inductive stp_reachable :: "stp \<Rightarrow> bool" where
  stp_started: "distinct (st_ids s) \<Longrightarrow> stp_start s = Some t \<Longrightarrow> stp_reachable t"
| stp_event: "stp_reachable s \<Longrightarrow> event_port e s \<Longrightarrow> stp_handle e s = Some t \<Longrightarrow> stp_reachable t"

definition role_of :: "stp \<Rightarrow> int \<Rightarrow> port_role" where
  "role_of s i = p_role (st_ports s i)"

text \<open>The roles fit together: the root bridge has no root port and its own root vector; any other bridge
  has exactly one root port, the one it forwards notifications to; configuration messages go to designated
  ports only.\<close>

definition stp_inv :: "stp \<Rightarrow> bool" where
  "stp_inv s \<longleftrightarrow> st_ids s \<noteq> [] \<and> distinct (st_ids s) \<and> st_rootInterfaceId s \<in> set (st_ids s) \<and>
     distinct (st_desPorts s) \<and> set (st_desPorts s) \<subseteq> {i \<in> set (st_ids s). role_of s i = DESIGNATED} \<and>
     {i \<in> set (st_ids s). role_of s i = ROOT} = (if st_isRoot s then {} else {st_rootInterfaceId s}) \<and>
     (st_isRoot s \<longrightarrow> st_rootPriority s = st_bridgePriority s \<and> st_rootAddress s = st_bridgeAddress s \<and> st_rootPathCost s = 0)"

section \<open>What the loops change\<close>

lemma stp_upd_simps [simp]:
  "st_ports (stp_upd i f s) = (st_ports s)(i := f (st_ports s i))" "st_ids (stp_upd i f s) = st_ids s"
  "st_desPorts (stp_upd i f s) = st_desPorts s" "st_isRoot (stp_upd i f s) = st_isRoot s"
  "st_rootInterfaceId (stp_upd i f s) = st_rootInterfaceId s" "st_bridgePriority (stp_upd i f s) = st_bridgePriority s"
  "st_bridgeAddress (stp_upd i f s) = st_bridgeAddress s" "st_rootPriority (stp_upd i f s) = st_rootPriority s"
  "st_rootAddress (stp_upd i f s) = st_rootAddress s" "st_rootPathCost (stp_upd i f s) = st_rootPathCost s"
  by (simp_all add: stp_upd_def)

text \<open>A step that gives the ports new roles and designates ports, and changes nothing else.\<close>

definition with_roles :: "(int \<Rightarrow> port_role) \<Rightarrow> int list \<Rightarrow> stp \<Rightarrow> stp" where
  "with_roles ro ds s = s\<lparr>st_ports := (\<lambda>i. (st_ports s i)\<lparr>p_role := ro i\<rparr>), st_desPorts := ds\<rparr>"

lemma with_roles_simps [simp]:
  "st_ports (with_roles ro ds s) i = (st_ports s i)\<lparr>p_role := ro i\<rparr>" "st_desPorts (with_roles ro ds s) = ds"
  "st_ids (with_roles ro ds s) = st_ids s" "st_isRoot (with_roles ro ds s) = st_isRoot s"
  "st_rootInterfaceId (with_roles ro ds s) = st_rootInterfaceId s"
  "st_bridgePriority (with_roles ro ds s) = st_bridgePriority s" "st_bridgeAddress (with_roles ro ds s) = st_bridgeAddress s"
  "st_rootPriority (with_roles ro ds s) = st_rootPriority s" "st_rootAddress (with_roles ro ds s) = st_rootAddress s"
  "st_rootPathCost (with_roles ro ds s) = st_rootPathCost s"
  "st_currentMaxAge (with_roles ro ds s) = st_currentMaxAge s"
  "role_of (with_roles ro ds s) = ro"
  "with_roles ro' ds' (with_roles ro ds s) = with_roles ro' ds' s"
  by (simp_all add: with_roles_def role_of_def fun_eq_iff)

lemma with_roles_same: "with_roles (role_of s) (st_desPorts s) s = s"
  by (simp add: with_roles_def role_of_def)

lemma stp_key_role [simp]: "stp_key (p\<lparr>p_role := r\<rparr>) = stp_key p"
  by (simp add: stp_key_def)

lemma comparePorts_role [simp]:
  "comparePorts (p\<lparr>p_role := r\<rparr>) q = comparePorts p q" "comparePorts q (p\<lparr>p_role := r\<rparr>) = comparePorts q p"
  by (simp_all add: comparePorts_alt)

lemma stp_upd_role:
  "stp_upd i (\<lambda>p. p\<lparr>p_role := r\<rparr>) (with_roles ro ds s) = with_roles (ro(i := r)) ds s"
  by (auto simp: stp_upd_def with_roles_def fun_eq_iff)

lemma set_designated_roles:
  "set_designated i (with_roles ro ds s) =
     (if ro i = DISABLED then with_roles ro ds s else with_roles (ro(i := DESIGNATED)) (ds @ [i]) s)"
  unfolding set_designated_def stp_upd_role by (simp add: with_roles_def)

lemma fold_set_designated:
  "distinct is \<Longrightarrow> fold set_designated is (with_roles ro ds s) =
     with_roles (\<lambda>i. if i \<in> set is \<and> ro i \<noteq> DISABLED then DESIGNATED else ro i)
       (ds @ filter (\<lambda>i. ro i \<noteq> DISABLED) is) s"
proof (induction "is" arbitrary: ro ds)
  case (Cons i "is")
  then have "filter (\<lambda>j. (ro(i := DESIGNATED)) j \<noteq> DISABLED) is = filter (\<lambda>j. ro j \<noteq> DISABLED) is"
    by (intro filter_cong) auto
  with Cons show ?case by (auto simp: set_designated_roles intro!: arg_cong2[of _ _ _ _ "\<lambda>r. with_roles r _"])
qed simp

lemma with_roles_start: "s\<lparr>st_desPorts := []\<rparr> = with_roles (role_of s) [] s"
  by (simp add: with_roles_def role_of_def)

lemma setAllDesignated_eq:
  "distinct (st_ids s) \<Longrightarrow> setAllDesignated s =
     with_roles (\<lambda>i. if i \<in> set (st_ids s) \<and> role_of s i \<noteq> DISABLED then DESIGNATED else role_of s i)
       (filter (\<lambda>i. role_of s i \<noteq> DISABLED) (st_ids s)) s"
  by (simp add: setAllDesignated_def with_roles_start fold_set_designated)

text \<open>How this bridge compares with what a port has heard; roles do not matter.\<close>

definition contest :: "stp \<Rightarrow> int \<Rightarrow> int" where
  "contest s i = comparePorts (bridge_vector s i) (st_ports s i)"

definition contested :: "port_role \<Rightarrow> bool" where
  "contested r \<longleftrightarrow> r \<noteq> ROOT \<and> r \<noteq> DISABLED"

definition new_role :: "stp \<Rightarrow> int \<Rightarrow> port_role \<Rightarrow> port_role" where
  "new_role s i r = (if \<not> contested r then r else if contest s i > 0 then DESIGNATED
     else if contest s i < 0 then ALTERNATE else r)"

lemma contest_roles: "contest (with_roles ro ds s) i = contest s i"
  by (simp add: contest_def bridge_vector_def)

lemma select_designated_roles:
  "select_designated i (with_roles ro ds s) =
     with_roles (ro(i := new_role s i (ro i))) (if contested (ro i) \<and> contest s i > 0 then ds @ [i] else ds) s"
proof -
  have c: "comparePorts (bridge_vector (with_roles ro ds s) i) (st_ports (with_roles ro ds s) i) = contest s i"
    using contest_roles[of ro ds s i] unfolding contest_def .
  have d: "(with_roles ro ds s)\<lparr>st_desPorts := ds @ [i]\<rparr> = with_roles ro (ds @ [i]) s"
    by (simp add: with_roles_def)
  have u: "with_roles ro ds s = with_roles (ro(i := ro i)) ds s" by simp
  show ?thesis
    unfolding select_designated_def c Let_def
    by (auto simp: d stp_upd_role new_role_def contested_def)
qed

lemma fold_select_designated:
  "distinct is \<Longrightarrow> fold select_designated is (with_roles ro ds s) =
     with_roles (\<lambda>i. if i \<in> set is then new_role s i (ro i) else ro i)
       (ds @ filter (\<lambda>i. contested (ro i) \<and> contest s i > 0) is) s"
proof (induction "is" arbitrary: ro ds)
  case (Cons i "is")
  let ?ro = "ro(i := new_role s i (ro i))"
  have f: "filter (\<lambda>j. contested (?ro j) \<and> contest s j > 0) is = filter (\<lambda>j. contested (ro j) \<and> contest s j > 0) is"
    using Cons.prems by (intro filter_cong) auto
  have r: "(\<lambda>j. if j \<in> set is then new_role s j (?ro j) else ?ro j) =
      (\<lambda>j. if j \<in> set (i # is) then new_role s j (ro j) else ro j)"
    using Cons.prems by (auto simp: fun_eq_iff)
  have "fold select_designated (i # is) (with_roles ro ds s) =
      fold select_designated is (with_roles ?ro (if contested (ro i) \<and> contest s i > 0 then ds @ [i] else ds) s)"
    by (simp add: select_designated_roles)
  also have "\<dots> = with_roles (\<lambda>j. if j \<in> set is then new_role s j (?ro j) else ?ro j)
      ((if contested (ro i) \<and> contest s i > 0 then ds @ [i] else ds) @
       filter (\<lambda>j. contested (?ro j) \<and> contest s j > 0) is) s"
    by (rule Cons.IH) (use Cons.prems in simp)
  also have "\<dots> = with_roles (\<lambda>j. if j \<in> set (i # is) then new_role s j (ro j) else ro j)
      (ds @ filter (\<lambda>j. contested (ro j) \<and> contest s j > 0) (i # is)) s"
    unfolding f r by simp
  finally show ?case .
qed simp

lemma selectDesignatedPorts_eq:
  "distinct (st_ids s) \<Longrightarrow> selectDesignatedPorts s =
     with_roles (\<lambda>i. if i \<in> set (st_ids s) then new_role s i (role_of s i) else role_of s i)
       (filter (\<lambda>i. contested (role_of s i) \<and> contest s i > 0) (st_ids s)) s"
  by (simp add: selectDesignatedPorts_def with_roles_start fold_select_designated)

text \<open>The scan for the root port ends at a best port.\<close>

lemma root_candidate_roles: "root_candidate (with_roles ro ds s) i best = root_candidate s i best"
  by (simp add: root_candidate_def)

lemma fold_root:
  "fold (\<lambda>i (s, best). let s = stp_upd i (\<lambda>p. p\<lparr>p_role := NOTASSIGNED\<rparr>) s in (s, root_candidate s i best)) is
     (with_roles ro ds s, b) =
   (with_roles (\<lambda>i. if i \<in> set is then NOTASSIGNED else ro i) ds s, fold (root_candidate s) is b)"
  by (induction "is" arbitrary: ro b)
    (auto simp: stp_upd_role root_candidate_roles Let_def intro!: arg_cong[of _ _ "\<lambda>r. with_roles r ds s"])

lemma root_candidate_key:
  "stp_key (st_ports s (root_candidate s i b)) \<le> stp_key (st_ports s i)"
  "stp_key (st_ports s (root_candidate s i b)) \<le> stp_key (st_ports s b)"
  by (auto simp: root_candidate_def Let_def comparePorts_alt not_less split: if_splits intro: less_imp_le)

lemma fold_root_candidate:
  "fold (root_candidate s) is b \<in> insert b (set is) \<and>
   (\<forall>i \<in> insert b (set is). stp_key (st_ports s (fold (root_candidate s) is b)) \<le> stp_key (st_ports s i))"
proof (induction "is" arbitrary: b)
  case (Cons i "is")
  have m: "root_candidate s i b \<in> {i, b}" by (auto simp: root_candidate_def Let_def)
  note ih = Cons.IH[of "root_candidate s i b"]
  have "stp_key (st_ports s (fold (root_candidate s) (i # is) b)) \<le> stp_key (st_ports s (root_candidate s i b))"
    using ih by simp
  then have "stp_key (st_ports s (fold (root_candidate s) (i # is) b)) \<le> stp_key (st_ports s i)"
    "stp_key (st_ports s (fold (root_candidate s) (i # is) b)) \<le> stp_key (st_ports s b)"
    using root_candidate_key order_trans by blast+
  with ih m show ?case by auto
qed simp

text \<open>What the election of a root port leaves.\<close>

definition elected :: "stp \<Rightarrow> int \<Rightarrow> stp \<Rightarrow> bool" where
  "elected s b t \<longleftrightarrow> b \<in> set (st_ids s) \<and> (\<forall>i \<in> set (st_ids s). stp_key (st_ports s b) \<le> stp_key (st_ports s i)) \<and>
     st_ids t = st_ids s \<and> st_isRoot t = st_isRoot s \<and> st_rootInterfaceId t = b \<and> st_desPorts t = [] \<and>
     st_ports t = (\<lambda>i. (st_ports s i)\<lparr>p_role := (if i = b then ROOT else if i \<in> set (st_ids s) then NOTASSIGNED else role_of s i)\<rparr>) \<and>
     st_bridgePriority t = st_bridgePriority s \<and> st_bridgeAddress t = st_bridgeAddress s \<and>
     st_rootPriority t = p_rootPriority (st_ports s b) \<and> st_rootAddress t = p_rootAddress (st_ports s b) \<and>
     st_rootPathCost t = p_rootPathCost (st_ports s b) \<and> st_currentMaxAge t = p_maxAge (st_ports s b) \<and>
     st_currentFwdDelay t = p_fwdDelay (st_ports s b) \<and> st_currentHelloTime t = p_helloTime (st_ports s b)"

lemma selectRootPort_elects:
  assumes "st_ids s \<noteq> []"
  shows "\<exists>b t. selectRootPort s = Some t \<and> elected s b t"
proof -
  obtain f fs where ids: "st_ids s = f # fs" using assms by (cases "st_ids s") auto
  let ?b = "fold (root_candidate s) (st_ids s) f"
  have b: "?b \<in> set (st_ids s)" "\<forall>i \<in> set (st_ids s). stp_key (st_ports s ?b) \<le> stp_key (st_ports s i)"
    using fold_root_candidate[of s "st_ids s" f] ids by auto
  have "fold (\<lambda>i (s, best). let s = stp_upd i (\<lambda>p. p\<lparr>p_role := NOTASSIGNED\<rparr>) s in (s, root_candidate s i best)) (st_ids s)
      (s\<lparr>st_desPorts := []\<rparr>, f) =
      (with_roles (\<lambda>i. if i \<in> set (st_ids s) then NOTASSIGNED else role_of s i) [] s, ?b)"
    unfolding with_roles_start fold_root ..
  with b ids show ?thesis
    by (auto simp: selectRootPort_def elected_def fun_eq_iff)
qed

section \<open>The invariant is kept\<close>

definition stp_neutral :: "stp \<Rightarrow> stp \<Rightarrow> bool" where
  "stp_neutral s t \<longleftrightarrow> st_ids t = st_ids s \<and> role_of t = role_of s \<and> st_isRoot t = st_isRoot s \<and>
     st_rootInterfaceId t = st_rootInterfaceId s \<and> st_desPorts t = st_desPorts s \<and>
     st_bridgePriority t = st_bridgePriority s \<and> st_bridgeAddress t = st_bridgeAddress s \<and>
     st_rootPriority t = st_rootPriority s \<and> st_rootAddress t = st_rootAddress s \<and> st_rootPathCost t = st_rootPathCost s"

lemma stp_neutral_inv: "stp_neutral s t \<Longrightarrow> stp_inv s \<Longrightarrow> stp_inv t"
  by (simp add: stp_neutral_def stp_inv_def)

lemma stp_neutral_refl: "stp_neutral s s"
  by (simp add: stp_neutral_def)

lemma stp_neutral_trans: "stp_neutral s t \<Longrightarrow> stp_neutral t u \<Longrightarrow> stp_neutral s u"
  by (simp add: stp_neutral_def)

lemma stp_neutral_upd: "(\<And>p. p_role (f p) = p_role p) \<Longrightarrow> stp_neutral s (stp_upd i f s)"
  by (auto simp: stp_neutral_def role_of_def fun_eq_iff)

lemma generateBPDU_ok:
  assumes "i \<in> set (st_ids s)"
  obtains b where "generateBPDU i a tc tca s = Some (s\<lparr>st_sent := st_sent s @ [SentCfg i a b]\<rparr>)"
  using assms by (auto simp: generateBPDU_def stp_port_def Let_def)

lemma stp_neutral_sent: "stp_neutral s (s\<lparr>st_sent := x\<rparr>)"
  by (simp add: stp_neutral_def role_of_def fun_eq_iff)

lemma generate_all_ok:
  assumes "set is \<subseteq> set (st_ids s)"
  shows "\<exists>t. fold_opt (\<lambda>i s. generateBPDU i a tc tca s) is s = Some t \<and> stp_neutral s t"
proof (rule fold_opt_total[of "stp_neutral s"])
  fix i t assume i: "i \<in> set is" and t: "stp_neutral s t"
  have "i \<in> set (st_ids t)" using i assms t by (auto simp: stp_neutral_def)
  then show "\<exists>t'. generateBPDU i a tc tca t = Some t' \<and> stp_neutral s t'"
    by (rule generateBPDU_ok) (use t stp_neutral_sent stp_neutral_trans in blast)
qed (rule stp_neutral_refl)

lemma isSuperior_ok:
  assumes "i \<in> set (st_ids s)"
  shows "\<exists>b' t. isSuperiorBPDU i b s = Some (b', t) \<and> stp_neutral s t"
proof -
  have n: "stp_neutral s (setSuperiorBPDU i b s)" for s
    unfolding setSuperiorBPDU_def by (auto intro: stp_neutral_upd stp_neutral_refl)
  have "stp_neutral s (stp_upd i (\<lambda>p. p\<lparr>p_fdWhile := 0, p_state := DISCARDING\<rparr>) s)"
    by (rule stp_neutral_upd) simp
  then have "stp_neutral s (setSuperiorBPDU i b (stp_upd i (\<lambda>p. p\<lparr>p_fdWhile := 0, p_state := DISCARDING\<rparr>) s))"
    using n stp_neutral_trans by blast
  with n assms show ?thesis by (auto simp: isSuperiorBPDU_def stp_port_def Let_def stp_neutral_refl)
qed

lemma all_designated_inv:
  assumes "st_ids s \<noteq> []" "distinct (st_ids s)" "st_rootInterfaceId s \<in> set (st_ids s)" "st_isRoot s"
    "st_rootPriority s = st_bridgePriority s" "st_rootAddress s = st_bridgeAddress s" "st_rootPathCost s = 0"
  shows "stp_inv (setAllDesignated s)"
  using assms unfolding setAllDesignated_eq[OF assms(2)] stp_inv_def by (auto split: if_splits)

lemma tryRoot_root:
  assumes "st_ids s \<noteq> []" "distinct (st_ids s)" "st_rootInterfaceId s \<in> set (st_ids s)" "checkRootEligibility s"
  shows "\<exists>t. tryRoot s = Some t \<and> stp_inv t \<and> st_isRoot t \<and> st_ids t = st_ids s \<and>
    st_bridgePriority t = st_bridgePriority s \<and> st_bridgeAddress t = st_bridgeAddress s \<and>
    (\<forall>i. stp_key (st_ports t i) = stp_key (st_ports s i))"
proof -
  let ?s = "s\<lparr>st_isRoot := True\<rparr>"
  have e: "setAllDesignated ?s = with_roles
       (\<lambda>i. if i \<in> set (st_ids ?s) \<and> role_of ?s i \<noteq> DISABLED then DESIGNATED else role_of ?s i)
       (filter (\<lambda>i. role_of ?s i \<noteq> DISABLED) (st_ids ?s)) ?s"
    by (rule setAllDesignated_eq) (use assms(2) in simp)
  have "role_of (become_root_bridge (setAllDesignated ?s)) = role_of (setAllDesignated ?s)"
    by (simp add: role_of_def become_root_bridge_def fun_eq_iff)
  then have "stp_inv (become_root_bridge (setAllDesignated ?s))"
    using assms(1-3) unfolding stp_inv_def
    by (auto simp: become_root_bridge_def e split: if_splits)
  with assms(4) show ?thesis by (simp add: tryRoot_def become_root_bridge_def e)
qed

text \<open>The bridge may be the root when no port has heard of a root with a smaller priority, or with the same
  priority and a smaller address.\<close>

lemma checkRootEligibility_iff:
  "checkRootEligibility s \<longleftrightarrow> (\<forall>i \<in> set (st_ids s).
     \<not> (p_rootPriority (st_ports s i) < st_bridgePriority s \<or>
        p_rootPriority (st_ports s i) = st_bridgePriority s \<and> p_rootAddress (st_ports s i) < st_bridgeAddress s))"
  by (auto simp: checkRootEligibility_def list_all_iff compareBridgeIDs_alt split: if_splits)

text \<open>A bridge that is not the root elects the best port.\<close>

definition best_root :: "stp \<Rightarrow> bool" where
  "best_root t \<longleftrightarrow> (\<forall>i \<in> set (st_ids t). stp_key (st_ports t (st_rootInterfaceId t)) \<le> stp_key (st_ports t i)) \<and>
     st_rootPriority t = p_rootPriority (st_ports t (st_rootInterfaceId t)) \<and>
     st_rootAddress t = p_rootAddress (st_ports t (st_rootInterfaceId t)) \<and>
     st_rootPathCost t = p_rootPathCost (st_ports t (st_rootInterfaceId t))"

lemma tryRoot_port:
  assumes "st_ids s \<noteq> []" "distinct (st_ids s)" "\<not> checkRootEligibility s"
  shows "\<exists>t. tryRoot s = Some t \<and> stp_inv t \<and> \<not> st_isRoot t \<and> st_ids t = st_ids s \<and> best_root t \<and>
    st_bridgePriority t = st_bridgePriority s \<and> st_bridgeAddress t = st_bridgeAddress s \<and>
    (\<forall>i. stp_key (st_ports t i) = stp_key (st_ports s i))"
proof -
  let ?s = "s\<lparr>st_isRoot := False\<rparr>"
  obtain b u where u: "selectRootPort ?s = Some u" "elected ?s b u"
    using selectRootPort_elects[of ?s] assms(1) by auto
  have d: "distinct (st_ids u)" using u(2) assms(2) by (simp add: elected_def)
  define t where "t = selectDesignatedPorts u"
  have roles: "role_of u = (\<lambda>i. if i = b then ROOT else if i \<in> set (st_ids s) then NOTASSIGNED else role_of s i)"
    using u(2) by (auto simp: elected_def role_of_def fun_eq_iff)
  have t: "t = with_roles (\<lambda>i. if i \<in> set (st_ids u) then new_role u i (role_of u i) else role_of u i)
       (filter (\<lambda>i. contested (role_of u i) \<and> contest u i > 0) (st_ids u)) u"
    unfolding t_def by (rule selectDesignatedPorts_eq[OF d])
  have k: "stp_key (st_ports t i) = stp_key (st_ports s i)" "p_rootPriority (st_ports t i) = p_rootPriority (st_ports s i)"
    "p_rootAddress (st_ports t i) = p_rootAddress (st_ports s i)" "p_rootPathCost (st_ports t i) = p_rootPathCost (st_ports s i)" for i
    using u(2) by (simp_all add: t elected_def)
  have r: "st_isRoot t = False" "st_ids t = st_ids s" "st_rootInterfaceId t = b" "b \<in> set (st_ids s)"
    "st_bridgePriority t = st_bridgePriority s" "st_bridgeAddress t = st_bridgeAddress s"
    "st_rootPriority t = p_rootPriority (st_ports s b)" "st_rootAddress t = p_rootAddress (st_ports s b)"
    "st_rootPathCost t = p_rootPathCost (st_ports s b)"
    "\<forall>i \<in> set (st_ids s). stp_key (st_ports s b) \<le> stp_key (st_ports s i)"
    using u(2) by (simp_all add: t elected_def)
  have "role_of t i = ROOT \<longleftrightarrow> i = b" if "i \<in> set (st_ids s)" for i
    using that u(2) by (auto simp: t roles new_role_def contested_def elected_def)
  moreover have "distinct (st_desPorts t)" "set (st_desPorts t) \<subseteq> {i \<in> set (st_ids s). role_of t i = DESIGNATED}"
    using d u(2) by (auto simp: t new_role_def elected_def)
  ultimately have "stp_inv t" using r(1-4) assms(1,2) by (auto simp: stp_inv_def)
  moreover have "best_root t" using r k by (simp add: best_root_def)
  ultimately show ?thesis using u(1) assms(3) r k t_def by (simp add: tryRoot_def)
qed

lemma tryRoot_ok:
  assumes "st_ids s \<noteq> []" "distinct (st_ids s)" "st_rootInterfaceId s \<in> set (st_ids s)"
  shows "\<exists>t. tryRoot s = Some t \<and> stp_inv t"
proof (cases "checkRootEligibility s")
  case True
  show ?thesis using tryRoot_root[OF assms True] by blast
next
  case False
  show ?thesis using tryRoot_port[OF assms(1,2) False] by blast
qed

lemma stp_inv_parts:
  assumes "stp_inv s"
  shows "st_ids s \<noteq> []" "distinct (st_ids s)" "st_rootInterfaceId s \<in> set (st_ids s)"
  using assms by (simp_all add: stp_inv_def)

lemma init_simps [simp]:
  "st_ids (stp_initInterfacedata i s) = st_ids s" "st_isRoot (stp_initInterfacedata i s) = st_isRoot s"
  "st_rootInterfaceId (stp_initInterfacedata i s) = st_rootInterfaceId s"
  "st_bridgePriority (stp_initInterfacedata i s) = st_bridgePriority s"
  "st_bridgeAddress (stp_initInterfacedata i s) = st_bridgeAddress s"
  "st_rootPriority (stp_initInterfacedata i s) = st_rootPriority s"
  "st_rootAddress (stp_initInterfacedata i s) = st_rootAddress s"
  "st_rootPathCost (stp_initInterfacedata i s) = st_rootPathCost s"
  "role_of (stp_initInterfacedata i s) = (role_of s)(i := NOTASSIGNED)"
  by (simp_all add: stp_initInterfacedata_def role_of_def fun_eq_iff)

lemma lostAlternate_ok:
  assumes "stp_inv s" "role_of s i \<noteq> ROOT"
  shows "stp_inv (lostAlternate (stp_initInterfacedata i s))"
proof -
  let ?s = "stp_initInterfacedata i s"
  have d: "distinct (st_ids ?s)" using stp_inv_parts[OF assms(1)] by simp
  define t where "t = selectDesignatedPorts ?s"
  have t: "t = with_roles (\<lambda>j. if j \<in> set (st_ids ?s) then new_role ?s j (role_of ?s j) else role_of ?s j)
       (filter (\<lambda>j. contested (role_of ?s j) \<and> contest ?s j > 0) (st_ids ?s)) ?s"
    unfolding t_def by (rule selectDesignatedPorts_eq[OF d])
  have "role_of t j = ROOT \<longleftrightarrow> role_of s j = ROOT" if "j \<in> set (st_ids s)" for j
    using that assms(2) by (auto simp: t new_role_def contested_def)
  moreover have "set (st_desPorts t) \<subseteq> {j \<in> set (st_ids s). role_of t j = DESIGNATED}"
    by (auto simp: t new_role_def)
  ultimately have "stp_inv t" using assms(1) d unfolding stp_inv_def
    by (auto simp: t)
  moreover have "stp_neutral t (lostAlternate ?s)"
    by (simp add: lostAlternate_def t_def stp_neutral_def role_of_def fun_eq_iff)
  ultimately show ?thesis by (rule stp_neutral_inv[rotated])
qed

lemma check_age_ok:
  assumes "stp_inv s" shows "\<exists>t. check_age i s = Some t \<and> stp_inv t"
proof (cases "role_of s i = ROOT")
  case True
  have "\<exists>t. lostRoot (stp_initInterfacedata i s) = Some t \<and> stp_inv t"
    unfolding lostRoot_def by (rule tryRoot_ok) (use stp_inv_parts[OF assms] in simp_all)
  with True assms show ?thesis by (simp add: check_age_def role_of_def)
next
  case False
  with lostAlternate_ok[OF assms False] assms show ?thesis by (simp add: check_age_def role_of_def)
qed

lemma age_port_neutral: "stp_neutral s (age_port i s)"
  by (auto simp: age_port_def Let_def stp_neutral_def role_of_def fun_eq_iff)

lemma check_fdWhile_neutral: "stp_neutral s (check_fdWhile i s)"
  by (auto simp: check_fdWhile_def intro!: stp_neutral_upd stp_neutral_refl split: port_state.split)

lemma fold_neutral:
  assumes "\<And>i s. stp_neutral s (f i s)" shows "stp_neutral s (fold f is s)"
  by (rule fold_inv[of "stp_neutral s"]) (use assms stp_neutral_refl stp_neutral_trans in blast)+

lemma checkTimers_ok:
  assumes "stp_inv s" shows "\<exists>t. checkTimers s = Some t \<and> stp_inv t"
proof -
  let ?hello = "if st_helloTime s \<ge> st_currentHelloTime s
      then do { s \<leftarrow> (if st_isRoot s then generateHelloBPDUs s else Some s); Some (s\<lparr>st_helloTime := 0\<rparr>) } else Some s"
  have h: "stp_neutral s (s\<lparr>st_helloTime := 0\<rparr>)" for s by (simp add: stp_neutral_def role_of_def fun_eq_iff)
  obtain u where u: "generateHelloBPDUs s = Some u" "stp_neutral s u"
    using generate_all_ok[of "st_ids s" s STP_MULTICAST False False] by (auto simp: generateHelloBPDUs_def)
  then have "\<exists>v. ?hello = Some v \<and> stp_neutral s v"
    using h stp_neutral_trans[OF u(2) h] stp_neutral_refl by auto
  then obtain v where v: "?hello = Some v" "stp_inv v" using stp_neutral_inv[OF _ assms] by blast
  obtain w where w: "fold_opt check_age (st_ids v) v = Some w" "stp_inv w"
    using fold_opt_total[of stp_inv v "st_ids v" check_age] v(2) check_age_ok by blast
  have "stp_inv (fold check_fdWhile (st_ids w) w)"
    using stp_neutral_inv[OF fold_neutral[of check_fdWhile] w(2)] check_fdWhile_neutral by blast
  then show ?thesis unfolding checkTimers_def v(1) using w(1) by simp
qed

lemma checkParametersChange_ok:
  assumes "stp_inv s" shows "stp_inv (checkParametersChange s)"
proof -
  let ?s = "if st_isRoot s then s\<lparr>st_currentHelloTime := st_helloTime s, st_currentMaxAge := st_maxAge s,
      st_currentFwdDelay := st_forwardDelay s\<rparr> else s"
  have n: "stp_neutral s ?s" by (simp add: stp_neutral_def role_of_def fun_eq_iff)
  have "stp_inv (stp_reset (?s\<lparr>st_currentBridgePriority := st_bridgePriority ?s\<rparr>))"
    unfolding stp_reset_def by (rule all_designated_inv) (use stp_inv_parts[OF assms] in \<open>simp_all add: become_root_bridge_def\<close>)
  then show ?thesis using stp_neutral_inv[OF n assms] by (simp add: checkParametersChange_def Let_def)
qed

lemma generateTCN_ok:
  assumes "st_rootInterfaceId s \<in> set (st_ids s)" shows "\<exists>t. generateTCN s = Some t \<and> stp_neutral s t"
  using assms by (auto simp: generateTCN_def stp_port_def stp_neutral_def role_of_def fun_eq_iff)

lemma handleTick_ok:
  assumes "stp_inv s" shows "\<exists>t. handleTick s = Some t \<and> stp_inv t"
proof -
  let ?h = "if st_isRoot s then s\<lparr>st_helloTime := st_helloTime s + SECOND\<rparr> else s\<lparr>st_helloTime := 0\<rparr>"
  have "stp_neutral s ?h" by (simp add: stp_neutral_def role_of_def fun_eq_iff)
  then have "stp_inv ?h" using stp_neutral_inv assms by blast
  then have "stp_inv (fold age_port (st_ids ?h) ?h)"
    using stp_neutral_inv[OF fold_neutral[of age_port]] age_port_neutral by blast
  then obtain u where u: "checkTimers (fold age_port (st_ids ?h) ?h) = Some u" "stp_inv u"
    using checkTimers_ok by blast
  have c: "stp_inv (checkParametersChange u)" by (rule checkParametersChange_ok[OF u(2)])
  obtain t where "generateTCN (checkParametersChange u) = Some t" "stp_neutral (checkParametersChange u) t"
    using generateTCN_ok[OF stp_inv_parts(3)[OF c]] by blast
  with u(1) stp_neutral_inv[OF _ c] show ?thesis by (auto simp: handleTick_def Let_def)
qed

text \<open>What a configuration message changes before the roles are chosen again.\<close>

definition answer_bpdu :: "int \<Rightarrow> bpdu \<Rightarrow> bool \<Rightarrow> port_info \<Rightarrow> stp \<Rightarrow> stp option" where
  "answer_bpdu i b superior port s =
     (if \<not> superior then
        (if p_role port = DESIGNATED then generateBPDU i STP_MULTICAST False False s else Some s)
      else if p_role port = ROOT then
        (if b_tcFlag b then
           fold_opt (\<lambda>i s. generateBPDU i STP_MULTICAST True False s) (st_desPorts s)
             (s\<lparr>st_mac := setAgingTime (st_par_agingTime s) (st_currentFwdDelay s) (st_mac s)\<rparr>)
         else
           fold_opt (\<lambda>i s. generateBPDU i STP_MULTICAST False False s) (st_desPorts s)
             (s\<lparr>st_mac := setAgingTime (st_par_agingTime s) (-1) (st_mac s)\<rparr>))
      else Some s)"

lemma answer_bpdu_ok:
  assumes "stp_inv s" "i \<in> set (st_ids s)"
  shows "\<exists>t. answer_bpdu i b superior port s = Some t \<and> stp_neutral s t"
proof -
  have d: "set (st_desPorts s) \<subseteq> set (st_ids s)" using assms(1) by (auto simp: stp_inv_def)
  have m: "stp_neutral s (s\<lparr>st_mac := x\<rparr>)" for x by (simp add: stp_neutral_def role_of_def fun_eq_iff)
  have g: "\<exists>t. fold_opt (\<lambda>i s. generateBPDU i STP_MULTICAST tc False s) (st_desPorts s) (s\<lparr>st_mac := x\<rparr>) = Some t \<and>
      stp_neutral s t" for tc x
    using generate_all_ok[of "st_desPorts s" "s\<lparr>st_mac := x\<rparr>" STP_MULTICAST tc False] d stp_neutral_trans[OF m] by auto
  have r: "\<exists>t. generateBPDU i STP_MULTICAST False False s = Some t \<and> stp_neutral s t"
    using generate_all_ok[of "[i]" s STP_MULTICAST False False] assms(2) by (auto split: option.splits)
  show ?thesis using g r stp_neutral_refl by (simp add: answer_bpdu_def)
qed

lemma handleBPDU_parts:
  assumes "stp_inv s" "i \<in> set (st_ids s)"
  obtains u where "handleBPDU i b s = tryRoot u" "stp_neutral s u"
proof -
  let ?s = "if b_tcaFlag b then s\<lparr>st_topologyChangeRecvd := True, st_topologyChangeNotification := False\<rparr> else s"
  have n: "stp_neutral s ?s" by (simp add: stp_neutral_def role_of_def fun_eq_iff)
  then have i: "i \<in> set (st_ids ?s)" using assms(2) by (simp add: stp_neutral_def)
  obtain sup v where v: "isSuperiorBPDU i b ?s = Some (sup, v)" "stp_neutral ?s v"
    using isSuperior_ok[OF i] by blast
  have sv: "stp_neutral s v" by (rule stp_neutral_trans[OF n v(2)])
  then have iv: "stp_inv v" "i \<in> set (st_ids v)" using stp_neutral_inv[OF sv assms(1)] assms(2) by (simp_all add: stp_neutral_def)
  then obtain u where u: "answer_bpdu i b sup (st_ports v i) v = Some u" "stp_neutral v u"
    using answer_bpdu_ok by blast
  have "handleBPDU i b s = tryRoot u"
    unfolding handleBPDU_def Let_def using assms(2) iv(2) u(1) v(1) by (simp add: stp_port_def answer_bpdu_def)
  with that stp_neutral_trans[OF sv u(2)] show ?thesis by blast
qed

lemma handleBPDU_ok:
  assumes "stp_inv s" "i \<in> set (st_ids s)" shows "\<exists>t. handleBPDU i b s = Some t \<and> stp_inv t"
proof -
  obtain u where u: "handleBPDU i b s = tryRoot u" "stp_neutral s u" using handleBPDU_parts[OF assms] .
  have "stp_inv u" by (rule stp_neutral_inv[OF u(2) assms(1)])
  then show ?thesis unfolding u(1) using tryRoot_ok stp_inv_parts by blast
qed

lemma handleTCN_ok:
  assumes "stp_inv s" "i \<in> set (st_ids s)" shows "\<exists>t. handleTCN i src dst s = Some t \<and> stp_inv t"
proof -
  let ?s = "s\<lparr>st_topologyChangeNotification := True\<rparr>"
  have n: "stp_neutral s ?s" by (simp add: stp_neutral_def role_of_def fun_eq_iff)
  obtain u where u: "generateBPDU i src False True ?s = Some u" "stp_neutral ?s u"
    using generate_all_ok[of "[i]" ?s src False True] assms(2) by (auto split: option.splits)
  have "stp_inv u" by (rule stp_neutral_inv[OF u(2) stp_neutral_inv[OF n assms(1)]])
  then have "stp_inv (u\<lparr>st_sent := x\<rparr>)" for x using stp_neutral_inv[OF stp_neutral_sent] by blast
  with u(1) \<open>stp_inv u\<close> show ?thesis by (simp add: handleTCN_def)
qed

lemma stp_handle_ok: "stp_inv s \<Longrightarrow> event_port e s \<Longrightarrow> \<exists>t. stp_handle e s = Some t \<and> stp_inv t"
  by (cases e) (simp_all add: handleTick_ok handleBPDU_ok handleTCN_ok)

lemma fold_init:
  "st_ids (fold stp_initInterfacedata is s) = st_ids s \<and> st_bridgePriority (fold stp_initInterfacedata is s) = st_bridgePriority s \<and>
   st_bridgeAddress (fold stp_initInterfacedata is s) = st_bridgeAddress s \<and>
   (\<forall>i. role_of (fold stp_initInterfacedata is s) i = (if i \<in> set is then NOTASSIGNED else role_of s i))"
  by (induction "is" arbitrary: s) auto

lemma stp_start_inv:
  assumes "distinct (st_ids s)" "stp_start s = Some t" shows "stp_inv t"
proof -
  obtain f fs where ids: "st_ids s = f # fs" using assms(2) by (auto simp: stp_start_def split: list.splits)
  let ?u = "fold stp_initInterfacedata (st_ids s) s"
  let ?v = "(become_root_bridge (?u\<lparr>st_currentBridgePriority := st_bridgePriority ?u, st_isRoot := True,
      st_topologyChangeNotification := True, st_topologyChangeRecvd := True, st_rootInterfaceId := f\<rparr>))\<lparr>st_helloTime := 0\<rparr>"
  have t: "t = setAllDesignated ?v" using assms(2) ids by (simp add: stp_start_def Let_def)
  show ?thesis unfolding t
    by (rule all_designated_inv) (use fold_init[of "st_ids s" s] assms(1) ids in \<open>simp_all add: become_root_bridge_def\<close>)
qed

lemma stp_reachable_inv: "stp_reachable s \<Longrightarrow> stp_inv s"
proof (induction rule: stp_reachable.induct)
  case (stp_started s t) then show ?case by (rule stp_start_inv)
next
  case (stp_event s e t) then show ?case using stp_handle_ok by fastforce
qed

section \<open>What a tick of the root bridge sends\<close>

definition quiet :: "stp \<Rightarrow> stp \<Rightarrow> bool" where
  "quiet s t \<longleftrightarrow> st_ids t = st_ids s \<and> st_isRoot t = st_isRoot s \<and> st_sent t = st_sent s \<and>
     st_helloTime t = st_helloTime s \<and> st_currentHelloTime t = st_currentHelloTime s"

lemma quiet_refl: "quiet s s"
  by (simp add: quiet_def)

lemma quiet_trans: "quiet s t \<Longrightarrow> quiet t u \<Longrightarrow> quiet s u"
  by (simp add: quiet_def)

lemma quiet_upd: "quiet s (stp_upd i f s)"
  by (simp add: quiet_def stp_upd_def)

lemma quiet_roles: "quiet s (with_roles ro ds s)"
  by (simp add: quiet_def with_roles_def)

lemma fold_quiet:
  assumes "\<And>i s. quiet s (f i s)" shows "quiet s (fold f is s)"
  by (rule fold_inv[of "quiet s"]) (use assms quiet_refl quiet_trans in blast)+

lemma age_port_quiet: "quiet s (age_port i s)"
  by (auto simp: age_port_def Let_def quiet_def stp_upd_def)

lemma check_fdWhile_quiet: "quiet s (check_fdWhile i s)"
  by (auto simp: check_fdWhile_def quiet_upd quiet_refl)

text \<open>The root bridge has no root port: the age check cannot make it lose its role.\<close>

lemma check_age_quiet:
  assumes "stp_inv s" "st_isRoot s" "i \<in> set (st_ids s)"
  shows "\<exists>t. check_age i s = Some t \<and> stp_inv t \<and> quiet s t"
proof -
  have r: "role_of s i \<noteq> ROOT" using assms by (auto simp: stp_inv_def)
  let ?s = "stp_initInterfacedata i s"
  have d: "distinct (st_ids ?s)" using stp_inv_parts[OF assms(1)] by simp
  have "quiet s ?s" by (simp add: stp_initInterfacedata_def quiet_upd)
  then have "quiet s (lostAlternate ?s)"
    unfolding lostAlternate_def selectDesignatedPorts_eq[OF d]
    by (simp add: quiet_def with_roles_def)
  with r lostAlternate_ok[OF assms(1) r] assms(1) show ?thesis
    by (simp add: check_age_def role_of_def quiet_refl)
qed

lemma ages_quiet:
  assumes "stp_inv s" "st_isRoot s"
  shows "\<exists>t. fold_opt check_age (st_ids s) s = Some t \<and> stp_inv t \<and> quiet s t"
proof (rule fold_opt_total)
  fix i t assume i: "i \<in> set (st_ids s)" and t: "stp_inv t \<and> quiet s t"
  then have "st_isRoot t" "i \<in> set (st_ids t)" using assms(2) by (simp_all add: quiet_def)
  then obtain u where "check_age i t = Some u" "stp_inv u" "quiet t u" using check_age_quiet t by blast
  with t show "\<exists>t'. check_age i t = Some t' \<and> stp_inv t' \<and> quiet s t'" using quiet_trans by blast
qed (use assms quiet_refl in blast)

lemma hellos_sent:
  assumes "set is \<subseteq> set (st_ids s)"
  shows "\<exists>t bs. fold_opt (\<lambda>i s. generateBPDU i a False False s) is s = Some t \<and> length bs = length is \<and>
    t = s\<lparr>st_sent := st_sent s @ map2 (\<lambda>i b. SentCfg i a b) is bs\<rparr>"
  using assms
proof (induction "is" arbitrary: s)
  case Nil then show ?case by simp
next
  case (Cons i "is")
  obtain b where b: "generateBPDU i a False False s = Some (s\<lparr>st_sent := st_sent s @ [SentCfg i a b]\<rparr>)"
    using generateBPDU_ok[of i s a False False] Cons.prems by auto
  let ?s = "s\<lparr>st_sent := st_sent s @ [SentCfg i a b]\<rparr>"
  obtain t bs where t: "fold_opt (\<lambda>i s. generateBPDU i a False False s) is ?s = Some t" "length bs = length is"
      "t = ?s\<lparr>st_sent := st_sent ?s @ map2 (\<lambda>i b. SentCfg i a b) is bs\<rparr>"
    using Cons.IH[of ?s] Cons.prems by auto
  then show ?case using b by (intro exI[of _ t] exI[of _ "b # bs"]) simp
qed

text \<open>One tick of the root bridge: after it, the hello time of the bridge is the counter of the ticks.\<close>

lemma root_tick:
  assumes "stp_inv s" "st_isRoot s"
  shows "\<exists>t bs. handleTick s = Some t \<and> stp_inv t \<and> st_isRoot t \<and> st_ids t = st_ids s \<and>
    st_currentHelloTime t = st_helloTime t \<and> 
    (if st_helloTime s + SECOND \<ge> st_currentHelloTime s
     then st_helloTime t = 0 \<and> length bs = length (st_ids s) \<and>
       st_sent t = st_sent s @ map2 (\<lambda>i b. SentCfg i STP_MULTICAST b) (st_ids s) bs
     else st_helloTime t = st_helloTime s + SECOND \<and> st_sent t = st_sent s)"
proof -
  let ?h = "s\<lparr>st_helloTime := st_helloTime s + SECOND\<rparr>"
  define a where "a = fold age_port (st_ids s) ?h"
  have qa: "quiet ?h a" unfolding a_def by (rule fold_quiet[OF age_port_quiet])
  have "stp_inv ?h" using stp_neutral_inv[OF _ assms(1)] by (simp add: stp_neutral_def role_of_def fun_eq_iff)
  then have ia: "stp_inv a" unfolding a_def
    using stp_neutral_inv[OF fold_neutral[of age_port]] age_port_neutral by blast
  obtain v bs where v: "generateHelloBPDUs a = Some v" "length bs = length (st_ids a)"
      "v = a\<lparr>st_sent := st_sent a @ map2 (\<lambda>i b. SentCfg i STP_MULTICAST b) (st_ids a) bs\<rparr>"
    using hellos_sent[of "st_ids a" a STP_MULTICAST] by (auto simp: generateHelloBPDUs_def)
  define w where "w = (if st_helloTime a \<ge> st_currentHelloTime a then v\<lparr>st_helloTime := 0\<rparr> else a)"
  have "stp_neutral a w" by (simp add: w_def v(3) stp_neutral_def role_of_def fun_eq_iff)
  then have iw: "stp_inv w" by (rule stp_neutral_inv[OF _ ia])
  have rw: "st_isRoot w" "st_ids w = st_ids s" using assms(2) qa by (simp_all add: w_def v(3) quiet_def)
  obtain x where x: "fold_opt check_age (st_ids w) w = Some x" "stp_inv x" "quiet w x"
    using ages_quiet[OF iw rw(1)] by blast
  define y where "y = fold check_fdWhile (st_ids x) x"
  have qy: "quiet x y" unfolding y_def by (rule fold_quiet[OF check_fdWhile_quiet])
  have iy: "stp_inv y" unfolding y_def
    using stp_neutral_inv[OF fold_neutral[of check_fdWhile]] check_fdWhile_neutral x(2) by blast
  have ct: "checkTimers a = Some y"
    using x(1) v(1) qa assms(2) by (cases "st_currentHelloTime a \<le> st_helloTime a") (simp_all add: checkTimers_def w_def y_def quiet_def)
  have ry: "st_isRoot y" using qy x(3) rw by (simp add: quiet_def)
  define z where "z = checkParametersChange y"
  have iz: "stp_inv z" unfolding z_def by (rule checkParametersChange_ok[OF iy])
  have d: "distinct (st_ids y)" by (rule stp_inv_parts(2)[OF iy])
  have rz: "st_isRoot z" "st_ids z = st_ids y" "st_sent z = st_sent y" "st_helloTime z = st_helloTime y"
    "st_currentHelloTime z = st_helloTime y"
    using ry d by (simp_all add: z_def checkParametersChange_def Let_def stp_reset_def setAllDesignated_eq become_root_bridge_def with_roles_def)
  have nt: "generateTCN z = Some z"
  proof -
    have "st_rootInterfaceId z \<in> set (st_ids z)" by (rule stp_inv_parts(3)[OF iz])
    moreover have "role_of z (st_rootInterfaceId z) \<noteq> ROOT" using iz rz(1) calculation by (auto simp: stp_inv_def)
    ultimately show ?thesis by (simp add: generateTCN_def stp_port_def role_of_def)
  qed
  have "handleTick s = Some z"
    using assms(2) ct nt by (simp add: handleTick_def a_def z_def Let_def)
  moreover have "st_ids z = st_ids s" using rz qy x(3) rw by (simp add: quiet_def)
  moreover have "st_helloTime z = st_helloTime w" "st_sent z = st_sent w" using rz qy x(3) by (simp_all add: quiet_def)
  ultimately show ?thesis using iz rz qa v(2) by (intro exI[of _ z] exI[of _ bs]) (simp add: w_def v(3) quiet_def)
qed

section \<open>Ports that are neither root nor designated are blocked by the tick\<close>

definition blocked :: "stp \<Rightarrow> int \<Rightarrow> bool" where
  "blocked s i \<longleftrightarrow> p_role (st_ports s i) \<noteq> ROOT \<and> p_role (st_ports s i) \<noteq> DESIGNATED \<longrightarrow> p_state (st_ports s i) = DISCARDING"

lemma check_fdWhile_blocks: "i = j \<or> blocked s j \<Longrightarrow> blocked (check_fdWhile i s) j"
  by (auto simp: check_fdWhile_def blocked_def split: port_state.splits)

lemma fold_blocks: "j \<in> set is \<or> blocked s j \<Longrightarrow> blocked (fold check_fdWhile is s) j"
proof (induction "is" arbitrary: s)
  case (Cons i "is")
  then show ?case using check_fdWhile_blocks[of i j s] by (cases "j \<in> set is") auto
qed simp

lemma checkParametersChange_blocked:
  assumes "distinct (st_ids s)" "\<forall>i \<in> set (st_ids s). blocked s i" "i \<in> set (st_ids s)"
  shows "blocked (checkParametersChange s) i"
  using assms by (auto simp: checkParametersChange_def Let_def stp_reset_def setAllDesignated_eq become_root_bridge_def
      blocked_def role_of_def)

lemma checkTimers_blocked:
  assumes "stp_inv s" "checkTimers s = Some t"
  shows "\<forall>i \<in> set (st_ids t). blocked t i"
proof -
  obtain w where "t = fold check_fdWhile (st_ids w) w"
    using assms(2) by (auto simp: checkTimers_def bind_eq_Some_conv)
  moreover have "st_ids (fold check_fdWhile (st_ids w) w) = st_ids w"
    using fold_quiet[of check_fdWhile, OF check_fdWhile_quiet] by (simp add: quiet_def)
  ultimately show ?thesis using fold_blocks by simp
qed

lemma generateTCN_same: "generateTCN s = Some t \<Longrightarrow> st_ports t = st_ports s \<and> st_ids t = st_ids s"
  by (cases "stp_port s (st_rootInterfaceId s)") (auto simp: generateTCN_def split: if_splits)

text \<open>A bridge with two ports, before and after it starts.\<close>

definition stp_boot :: stp where
  "stp_boot = \<lparr>st_ids = [1, 2], st_ports = (\<lambda>i. PortInfo),
     st_mac = \<lparr>agingTime = 0, lastPurge = 0, forwardingTable = Map.empty, multicastForwardingTable = Map.empty\<rparr>,
     st_par_agingTime = 120 * SECOND, st_bridgePriority = 32768, st_bridgeAddress = MacAddress 5, st_maxAge = 20 * SECOND,
     st_helloTime = 0, st_forwardDelay = 15 * SECOND, st_isRoot = False, st_rootInterfaceId = 0,
     st_desPorts = [], st_rootPathCost = 0, st_rootPriority = 0, st_rootAddress = MacAddress 0, st_currentMaxAge = 0,
     st_currentFwdDelay = 0, st_currentHelloTime = 0, st_currentBridgePriority = 0,
     st_topologyChangeNotification = False, st_topologyChangeRecvd = False, st_sent = []\<rparr>"

definition stp_booted :: stp where
  "stp_booted = the (stp_start stp_boot)"

lemma stp_booted: "stp_reachable stp_booted" "st_ids stp_booted = [1, 2]" "st_isRoot stp_booted"
proof -
  have i: "distinct (st_ids stp_boot)" "st_ids stp_boot = [1, 2]" by (simp_all add: stp_boot_def)
  have s: "stp_start stp_boot = Some stp_booted" by (simp add: stp_booted_def stp_start_def i(2) Let_def)
  show "stp_reachable stp_booted" by (rule stp_started[OF i(1) s])
  have "stp_inv stp_booted" by (rule stp_start_inv[OF i(1) s])
  show "st_ids stp_booted = [1, 2]" "st_isRoot stp_booted"
    using fold_init[of "[1, 2]" stp_boot]
    by (simp_all add: stp_booted_def stp_start_def i(2) Let_def setAllDesignated_eq become_root_bridge_def)
qed

section \<open>Properties of the bridge\<close>

text \<open>
  C24. On a bridge that has been started, every tick and every message of a known port is handled without an
  exception, and the roles fit together afterwards: the root bridge has no root port and announces itself as
  the root; any other bridge has exactly one root port; messages are only sent to ports that are designated.
\<close>
theorem stp_roles_consistent:
  assumes "stp_reachable s" "event_port e s"
  shows "\<exists>t. stp_handle e s = Some t \<and> stp_inv t"
  using stp_handle_ok[OF stp_reachable_inv[OF assms(1)] assms(2)] .

text \<open>
  C25. After a configuration message on one of its ports a started bridge is the root exactly when no port
  has heard of a better root: of one with a smaller priority than the bridge's own, or with the same
  priority and a smaller address. A root announces its own address at cost zero. Any other bridge has as its
  root port a port with the least vector of all ports, and announces the root and the cost of that vector.
\<close>
theorem stp_root_election:
  assumes "stp_reachable s" "i \<in> set (st_ids s)"
  shows "\<exists>t. handleBPDU i b s = Some t \<and> st_ids t = st_ids s \<and>
    (if \<exists>k \<in> set (st_ids t). p_rootPriority (st_ports t k) < st_bridgePriority t \<or>
         p_rootPriority (st_ports t k) = st_bridgePriority t \<and> p_rootAddress (st_ports t k) < st_bridgeAddress t
     then \<not> st_isRoot t \<and> best_root t
     else st_isRoot t \<and> st_rootAddress t = st_bridgeAddress t \<and> st_rootPathCost t = 0)"
proof -
  obtain u where u: "handleBPDU i b s = tryRoot u" "stp_neutral s u"
    using handleBPDU_parts[OF stp_reachable_inv[OF assms(1)] assms(2)] .
  note p = stp_inv_parts[OF stp_neutral_inv[OF u(2) stp_reachable_inv[OF assms(1)]]]
  have el: "checkRootEligibility t = checkRootEligibility u"
    if "st_ids t = st_ids u" "st_bridgePriority t = st_bridgePriority u" "st_bridgeAddress t = st_bridgeAddress u"
      "\<forall>i. stp_key (st_ports t i) = stp_key (st_ports u i)" for t
    using that by (simp add: checkRootEligibility_def stp_key_def)
  have i: "st_ids u = st_ids s" using u(2) by (simp add: stp_neutral_def)
  have "\<exists>t. handleBPDU i b s = Some t \<and> st_ids t = st_ids s \<and>
    (if \<not> checkRootEligibility t then \<not> st_isRoot t \<and> best_root t
     else st_isRoot t \<and> st_rootAddress t = st_bridgeAddress t \<and> st_rootPathCost t = 0)"
  proof (cases "checkRootEligibility u")
    case True
    obtain t where "tryRoot u = Some t" "stp_inv t" "st_isRoot t" "st_ids t = st_ids u" "checkRootEligibility t"
      using tryRoot_root[OF p True] el True by auto
    then show ?thesis unfolding u(1) using i by (auto simp: stp_inv_def)
  next
    case False
    obtain t where "tryRoot u = Some t" "\<not> st_isRoot t" "st_ids t = st_ids u" "best_root t" "\<not> checkRootEligibility t"
      using tryRoot_port[OF p(1,2) False] el False by auto
    then show ?thesis unfolding u(1) using i by auto
  qed
  then show ?thesis unfolding checkRootEligibility_iff by simp
qed

text \<open>
  The root bridge sends its configuration messages on every port at every tick from the second on,
  whatever hello time is configured: the module compares its counter of ticks with a copy of that counter,
  not with the parameter, which its own member hides.
\<close>
theorem root_hellos_every_tick:
  assumes "stp_reachable s" "st_isRoot s"
  shows "\<exists>t u bs. handleTick s = Some t \<and> handleTick t = Some u \<and> st_isRoot u \<and>
    length bs = length (st_ids s) \<and>
    st_sent u = st_sent t @ map2 (\<lambda>i b. SentCfg i STP_MULTICAST b) (st_ids s) bs"
proof -
  obtain t where t: "handleTick s = Some t" "stp_inv t" "st_isRoot t" "st_ids t = st_ids s"
      "st_currentHelloTime t = st_helloTime t"
    using root_tick[OF stp_reachable_inv[OF assms(1)] assms(2)] by blast
  have "st_helloTime t + SECOND \<ge> st_currentHelloTime t" using t(5) by (simp add: SECOND_def)
  then show ?thesis using root_tick[OF t(2,3)] t(1,4) by auto
qed

text \<open>
  After a tick only root and designated ports can forward: every other port of a reachable bridge is
  discarding, whatever messages came before.
\<close>
theorem stp_tick_blocks:
  assumes "stp_reachable s"
  shows "\<exists>t. handleTick s = Some t \<and> (\<forall>i \<in> set (st_ids t).
    role_of t i = ROOT \<or> role_of t i = DESIGNATED \<or> p_state (st_ports t i) = DISCARDING)"
proof -
  obtain t where t: "handleTick s = Some t" "stp_inv t" using handleTick_ok[OF stp_reachable_inv[OF assms]] by blast
  define a where "a = (let h = (if st_isRoot s then s\<lparr>st_helloTime := st_helloTime s + SECOND\<rparr> else s\<lparr>st_helloTime := 0\<rparr>)
    in fold age_port (st_ids h) h)"
  obtain y where y: "checkTimers a = Some y" "generateTCN (checkParametersChange y) = Some t"
    using t(1) by (auto simp: handleTick_def a_def Let_def bind_eq_Some_conv)
  have "stp_neutral s (if st_isRoot s then s\<lparr>st_helloTime := st_helloTime s + SECOND\<rparr> else s\<lparr>st_helloTime := 0\<rparr>)"
    by (simp add: stp_neutral_def role_of_def fun_eq_iff)
  then have "stp_neutral s a" unfolding a_def Let_def using fold_neutral[of age_port, OF age_port_neutral] stp_neutral_trans by blast
  then have ia: "stp_inv a" by (rule stp_neutral_inv[OF _ stp_reachable_inv[OF assms]])
  then have iy: "stp_inv y" using checkTimers_ok y(1) by fastforce
  have b: "\<forall>i \<in> set (st_ids y). blocked (checkParametersChange y) i"
    using checkParametersChange_blocked[OF stp_inv_parts(2)[OF iy]] checkTimers_blocked[OF ia y(1)] by blast
  have "st_ids (checkParametersChange y) = st_ids y"
    using stp_inv_parts(2)[OF iy]
    by (simp add: checkParametersChange_def Let_def stp_reset_def setAllDesignated_eq become_root_bridge_def)
  with b generateTCN_same[OF y(2)] have "\<forall>i \<in> set (st_ids t). blocked t i"
    by (simp add: blocked_def)
  with t(1) show ?thesis by (auto simp: blocked_def role_of_def)
qed

section \<open>The properties at a concrete bridge\<close>

theorem stp_roles_consistent_witness:
  "\<exists>t. stp_handle (StpBpdu 2 (BpduCfg\<lparr>b_maxAge := SECOND\<rparr>)) stp_booted = Some t \<and> stp_inv t"
  by (rule stp_roles_consistent[OF stp_booted(1)]) (simp add: stp_booted(2))

theorem stp_root_election_witness:
  "\<exists>t. handleBPDU 2 (BpduCfg\<lparr>b_maxAge := SECOND\<rparr>) stp_booted = Some t \<and> st_ids t = [1, 2] \<and>
    (if \<exists>k \<in> {1, 2}. p_rootPriority (st_ports t k) < st_bridgePriority t \<or>
         p_rootPriority (st_ports t k) = st_bridgePriority t \<and> p_rootAddress (st_ports t k) < st_bridgeAddress t
     then \<not> st_isRoot t \<and> best_root t
     else st_isRoot t \<and> st_rootAddress t = st_bridgeAddress t \<and> st_rootPathCost t = 0)"
proof -
  obtain t where "handleBPDU 2 (BpduCfg\<lparr>b_maxAge := SECOND\<rparr>) stp_booted = Some t" "st_ids t = st_ids stp_booted"
    "if \<exists>k \<in> set (st_ids t). p_rootPriority (st_ports t k) < st_bridgePriority t \<or>
         p_rootPriority (st_ports t k) = st_bridgePriority t \<and> p_rootAddress (st_ports t k) < st_bridgeAddress t
     then \<not> st_isRoot t \<and> best_root t
     else st_isRoot t \<and> st_rootAddress t = st_bridgeAddress t \<and> st_rootPathCost t = 0"
    using stp_root_election[OF stp_booted(1), of 2 "BpduCfg\<lparr>b_maxAge := SECOND\<rparr>"] by (force simp: stp_booted(2))
  then show ?thesis by (intro exI[of _ t]) (simp add: stp_booted(2) cong: if_cong)
qed

theorem root_hellos_every_tick_witness:
  "\<exists>t u b c. handleTick stp_booted = Some t \<and> handleTick t = Some u \<and> st_isRoot u \<and>
    st_sent u = st_sent t @ [SentCfg 1 STP_MULTICAST b, SentCfg 2 STP_MULTICAST c]"
proof -
  obtain t u bs where r: "handleTick stp_booted = Some t" "handleTick t = Some u" "st_isRoot u" "length bs = length [1::int, 2]"
    "st_sent u = st_sent t @ map2 (\<lambda>i b. SentCfg i STP_MULTICAST b) [1, 2] bs"
    using root_hellos_every_tick[OF stp_booted(1,3)] unfolding stp_booted(2) by blast
  obtain b c where "bs = [b, c]" using r(4) by (auto simp: length_Suc_conv)
  with r show ?thesis by auto
qed

theorem stp_tick_blocks_witness:
  "\<exists>t. handleTick stp_booted = Some t \<and> (\<forall>i \<in> set (st_ids t).
    role_of t i = ROOT \<or> role_of t i = DESIGNATED \<or> p_state (st_ports t i) = DISCARDING)"
  by (rule stp_tick_blocks[OF stp_booted(1)])

end
