(* ===== verification/Relay.thy ===== *)
theory Relay
  imports Bridge_Data
begin

text \<open>
  The relay units of a bridge: \<open>Ieee8021dRelay\<close> (src/inet/src/inet/linklayer/ieee8021d/relay), its
  base class \<open>MacRelayUnitBase\<close> (linklayer/base) and the plain \<open>MacRelayUnit\<close>
  (linklayer/ethernet/common). A handler maps the relay state and the received packet to the new
  state and the list of its actions in order: copies sent, packets dropped, packet objects
  released. \<open>None\<close> is an exception (a missing tag) or the dereference of an unknown interface.
\<close>

section \<open>Packets, interfaces, state\<close>

text \<open>The tags of a packet the relay reads or writes; the payload is kept as it is.\<close>

record packet =
  k_protocol :: "nat option"
  k_macInd :: "(mac_address \<times> mac_address) option"
  k_interfaceInd :: "int option"
  k_vlanInd :: "nat option"
  k_pcpInd :: "nat option"
  k_macReq :: "(mac_address \<times> mac_address) option"
  k_vlanReq :: "nat option"
  k_pcpReq :: "nat option"
  k_interfaceReq :: "int option"
  k_outbound :: bool
  k_dispatch :: "nat option"
  k_payload :: "8 word list"

record interface =
  if_id :: int
  if_loopback :: bool
  if_broadcast :: bool
  if_mac :: mac_address
  if_multicastAddresses :: "mac_address list"
  if_protocol :: "nat option"
  if_data :: "port_info option"

record relay =
  rl_interfaces :: "interface list"
  rl_table :: mac_table
  rl_bridgeAddress :: mac_address
  rl_bridgeInterface :: "int option"
  rl_registered :: "(mac_address \<times> mac_address) list"
  rl_numReceivedNetworkFrames :: nat
  rl_numDroppedFrames :: nat
  rl_numProcessedFrames :: nat

text \<open>The two packet objects a handler owns: the one received, and the copy it prepares.\<close>

datatype obj = Incoming | Outgoing

datatype action = SendUp packet | SendLower int packet | Dropped | Release obj

definition clearTags :: "packet \<Rightarrow> packet" where
  "clearTags p = \<lparr>k_protocol = None, k_macInd = None, k_interfaceInd = None, k_vlanInd = None,
     k_pcpInd = None, k_macReq = None, k_vlanReq = None, k_pcpReq = None, k_interfaceReq = None,
     k_outbound = False, k_dispatch = None, k_payload = k_payload p\<rparr>"

definition matchesMacAddress :: "interface \<Rightarrow> mac_address \<Rightarrow> bool" where
  "matchesMacAddress ifc a \<longleftrightarrow>
     isBroadcast a \<or> (isMulticast a \<and> a \<in> set (if_multicastAddresses ifc)) \<or> if_mac ifc = a"

definition getInterfaceById :: "relay \<Rightarrow> int \<Rightarrow> interface option" where
  "getInterfaceById r i = find (\<lambda>ifc. if_id ifc = i) (rl_interfaces r)"

section \<open>Registered addresses\<close>

text \<open>
  The comparison of the \<open>std::set\<close> of registered ranges. Two ranges neither of which is below the
  other are equivalent: an equivalent range is not inserted, and \<open>in_range\<close> looks for a range
  equivalent to the single address.
\<close>

definition range_comp :: "mac_address \<times> mac_address \<Rightarrow> mac_address \<times> mac_address \<Rightarrow> bool" where
  "range_comp x y \<longleftrightarrow> fst x < fst y \<and> snd x < fst y"

definition range_equiv :: "mac_address \<times> mac_address \<Rightarrow> mac_address \<times> mac_address \<Rightarrow> bool" where
  "range_equiv x y \<longleftrightarrow> \<not> range_comp x y \<and> \<not> range_comp y x"

definition in_range :: "(mac_address \<times> mac_address) list \<Rightarrow> mac_address \<Rightarrow> bool" where
  "in_range ranges v \<longleftrightarrow> (\<exists>x \<in> set ranges. range_equiv x (v, v))"

definition registerAddresses :: "mac_address \<Rightarrow> mac_address \<Rightarrow> relay \<Rightarrow> relay" where
  "registerAddresses startMac endMac r =
     (if \<exists>x \<in> set (rl_registered r). range_equiv x (startMac, endMac) then r
      else r\<lparr>rl_registered := rl_registered r @ [(startMac, endMac)]\<rparr>)"

definition registerAddress :: "mac_address \<Rightarrow> relay \<Rightarrow> relay" where
  "registerAddress mac = registerAddresses mac mac"

definition chooseBridgeInterface :: "relay \<Rightarrow> interface option" where
  "chooseBridgeInterface r = find (\<lambda>ifc. \<not> if_loopback ifc) (rl_interfaces r)"

definition handleStartOperation :: "relay \<Rightarrow> relay option" where
  "handleStartOperation r =
     do {
       ifc \<leftarrow> chooseBridgeInterface r;
       Some (registerAddress (if_mac ifc)
         (r\<lparr>rl_bridgeInterface := Some (if_id ifc), rl_bridgeAddress := if_mac ifc\<rparr>))
     }"

definition handleStopOperation :: "relay \<Rightarrow> relay" where
  "handleStopOperation r = r\<lparr>rl_bridgeInterface := None\<rparr>"

section \<open>The base class\<close>

definition base_isForwardingInterface :: "interface \<Rightarrow> bool" where
  "base_isForwardingInterface ifc \<longleftrightarrow> \<not> if_loopback ifc \<and> if_broadcast ifc"

definition sendPacket :: "packet \<Rightarrow> interface \<Rightarrow> action" where
  "sendPacket p ifc = SendLower (if_id ifc)
     (p\<lparr>k_outbound := True, k_interfaceReq := Some (if_id ifc), k_dispatch := if_protocol ifc\<rparr>)"

text \<open>
  \<open>broadcastPacket\<close> with the forwarding test of the class it runs in; it releases the packet object
  it was given. The incoming interface is \<open>nullptr\<close> for packets from the upper layer.
\<close>

definition broadcastPacket ::
    "(interface \<Rightarrow> bool) \<Rightarrow> relay \<Rightarrow> obj \<Rightarrow> packet \<Rightarrow> int option \<Rightarrow> action list" where
  "broadcastPacket fwd r ob p incoming =
     map (sendPacket p) (filter (\<lambda>ifc. incoming \<noteq> Some (if_id ifc) \<and> fwd ifc) (rl_interfaces r))
     @ [Release ob]"

definition base_updatePeerAddress :: "simtime \<Rightarrow> int \<Rightarrow> mac_address \<Rightarrow> nat \<Rightarrow> relay \<Rightarrow> relay option" where
  "base_updatePeerAddress now i src vid r =
     (if \<not> isMulticast src then
        do {
          tab \<leftarrow> learnUnicastAddressForwardingInterface now i src vid (rl_table r);
          Some (r\<lparr>rl_table := tab\<rparr>)
        }
      else Some r)"

text \<open>The copy both relays prepare: the indications turned into requests.\<close>

definition prepare_outgoing :: "packet \<Rightarrow> mac_address \<Rightarrow> mac_address \<Rightarrow> packet" where
  "prepare_outgoing p src dest =
     (clearTags p)\<lparr>k_protocol := k_protocol p, k_vlanReq := k_vlanInd p, k_pcpReq := k_pcpInd p,
        k_macReq := Some (src, dest)\<rparr>"

section \<open>The 802.1D relay\<close>

definition isForwardingInterface :: "interface \<Rightarrow> bool" where
  "isForwardingInterface ifc \<longleftrightarrow> base_isForwardingInterface ifc \<and>
     (case if_data ifc of None \<Rightarrow> True | Some d \<Rightarrow> isForwarding d)"

definition updatePeerAddress :: "simtime \<Rightarrow> interface \<Rightarrow> mac_address \<Rightarrow> nat \<Rightarrow> relay \<Rightarrow> relay option" where
  "updatePeerAddress now ifc src vid r =
     (if (case if_data ifc of None \<Rightarrow> True | Some d \<Rightarrow> isLearning d)
      then base_updatePeerAddress now (if_id ifc) src vid r else Some r)"

text \<open>One destination interface of the multicast loop, and of the unicast branch.\<close>

definition relay_to :: "relay \<Rightarrow> packet \<Rightarrow> int \<Rightarrow> int \<Rightarrow> action option" where
  "relay_to r out incoming i =
     (if i \<noteq> incoming then
        do {
          ifc \<leftarrow> getInterfaceById r i;
          Some (if isForwardingInterface ifc then sendPacket out ifc else Dropped)
        }
      else Some Dropped)"

definition drops :: "action list \<Rightarrow> nat" where
  "drops acts = length (filter (\<lambda>x. x = Dropped) acts)"

definition relay_forward :: "simtime \<Rightarrow> relay \<Rightarrow> packet \<Rightarrow> mac_address \<Rightarrow> int \<Rightarrow> action list option" where
  "relay_forward now r out dest incoming =
     (if isBroadcast dest then Some (broadcastPacket isForwardingInterface r Outgoing out (Some incoming))
      else if isMulticast dest then
        do {
          ids \<leftarrow> getMulticastAddressForwardingInterfaces (rl_table r) dest 0;
          (if ids = [] then Some (broadcastPacket isForwardingInterface r Outgoing out (Some incoming))
           else do { acts \<leftarrow> those (map (relay_to r out incoming) ids); Some (acts @ [Release Outgoing]) })
        }
      else
        do {
          i \<leftarrow> getUnicastAddressForwardingInterface now (rl_table r) dest 0;
          (if i = -1 then Some (broadcastPacket isForwardingInterface r Outgoing out (Some incoming))
           else do { act \<leftarrow> relay_to r out incoming i; Some [act, Release Outgoing] })
        })"

text \<open>The test for frames addressed to the bridge itself.\<close>

definition for_bridge :: "relay \<Rightarrow> interface \<Rightarrow> mac_address \<Rightarrow> bool" where
  "for_bridge r ifc dest \<longleftrightarrow>
     (case if_data ifc of None \<Rightarrow> True | Some d \<Rightarrow> p_role d \<noteq> DISABLED) \<and>
     (dest = rl_bridgeAddress r \<or> in_range (rl_registered r) dest \<or> matchesMacAddress ifc dest) \<and>
     \<not> isBroadcast dest"

definition ingress_blocked :: "interface \<Rightarrow> bool" where
  "ingress_blocked ifc \<longleftrightarrow> (case if_data ifc of None \<Rightarrow> False | Some d \<Rightarrow> \<not> isForwarding d)"

definition handleLowerPacket :: "simtime \<Rightarrow> packet \<Rightarrow> relay \<Rightarrow> (relay \<times> action list) option" where
  "handleLowerPacket now p r =
     do {
       ensure (k_protocol p \<noteq> None);
       (src, dest) \<leftarrow> k_macInd p;
       incoming \<leftarrow> k_interfaceInd p;
       ifc \<leftarrow> getInterfaceById r incoming;
       let vid = (case k_vlanInd p of None \<Rightarrow> 0 | Some v \<Rightarrow> v);
       let r = r\<lparr>rl_numReceivedNetworkFrames := rl_numReceivedNetworkFrames r + 1\<rparr>;
       r \<leftarrow> updatePeerAddress now ifc src vid r;
       (if for_bridge r ifc dest then Some (r, [SendUp p, Release Incoming])
        else if ingress_blocked ifc
        then Some (r\<lparr>rl_numDroppedFrames := rl_numDroppedFrames r + 1\<rparr>, [Dropped, Release Incoming])
        else
          do {
            acts \<leftarrow> relay_forward now r (prepare_outgoing p src dest) dest incoming;
            Some (r\<lparr>rl_numDroppedFrames := rl_numDroppedFrames r + drops acts\<rparr>, acts @ [Release Incoming])
          })
     }"

definition handleUpperPacket :: "simtime \<Rightarrow> packet \<Rightarrow> relay \<Rightarrow> action list option" where
  "handleUpperPacket now p r =
     do {
       (src, dest) \<leftarrow> k_macReq p;
       (case k_interfaceReq p of
          Some i \<Rightarrow> do { ifc \<leftarrow> getInterfaceById r i; Some [sendPacket p ifc, Release Incoming] }
        | None \<Rightarrow>
            (if isBroadcast dest then Some (broadcastPacket isForwardingInterface r Incoming p None)
             else if isMulticast dest then
               do {
                 ids \<leftarrow> getMulticastAddressForwardingInterfaces (rl_table r) dest 0;
                 (if ids = [] then Some (broadcastPacket isForwardingInterface r Incoming p None)
                  else do {
                    acts \<leftarrow> those (map (\<lambda>i. map_option (sendPacket p) (getInterfaceById r i)) ids);
                    Some (acts @ [Release Incoming])
                  })
               }
             else
               do {
                 i \<leftarrow> getUnicastAddressForwardingInterface now (rl_table r) dest 0;
                 (if i = -1 then Some (broadcastPacket isForwardingInterface r Incoming p None)
                  else do { ifc \<leftarrow> getInterfaceById r i; Some [sendPacket p ifc, Release Incoming] })
               }))
     }"

section \<open>The plain relay unit\<close>

text \<open>
  \<open>MacRelayUnit::handleLowerPacket\<close>. In the multicast branch the source broadcasts, or duplicates,
  the incoming packet instead of the prepared copy, and releases it; the last statement of the
  handler releases it once more.
\<close>

definition unit_forward :: "simtime \<Rightarrow> relay \<Rightarrow> packet \<Rightarrow> packet \<Rightarrow> mac_address \<Rightarrow> nat \<Rightarrow> int \<Rightarrow>
    action list option" where
  "unit_forward now r p out dest vid incoming =
     (if isBroadcast dest then Some (broadcastPacket base_isForwardingInterface r Outgoing out (Some incoming))
      else if isMulticast dest then
        do {
          ids \<leftarrow> getMulticastAddressForwardingInterfaces (rl_table r) dest vid;
          (if ids = [] then Some (broadcastPacket base_isForwardingInterface r Incoming p (Some incoming))
           else do {
             acts \<leftarrow> those (map (\<lambda>i. map_option (sendPacket p) (getInterfaceById r i))
                       (filter (\<lambda>i. i \<noteq> incoming) ids));
             Some (acts @ [Release Incoming])
           })
        }
      else
        do {
          i \<leftarrow> getUnicastAddressForwardingInterface now (rl_table r) dest 0;
          (if incoming = i then Some [Dropped, Release Outgoing]
           else if i \<noteq> -1 then
             do { ifc \<leftarrow> getInterfaceById r i; Some [sendPacket out ifc, Release Outgoing] }
           else Some (broadcastPacket base_isForwardingInterface r Outgoing out (Some incoming)))
        })"

definition unit_handleLowerPacket :: "simtime \<Rightarrow> packet \<Rightarrow> relay \<Rightarrow> (relay \<times> action list) option" where
  "unit_handleLowerPacket now p r =
     do {
       ensure (k_protocol p \<noteq> None);
       (src, dest) \<leftarrow> k_macInd p;
       incoming \<leftarrow> k_interfaceInd p;
       ifc \<leftarrow> getInterfaceById r incoming;
       let vid = (case k_vlanInd p of None \<Rightarrow> 0 | Some v \<Rightarrow> v);
       r \<leftarrow> base_updatePeerAddress now (if_id ifc) src vid r;
       acts \<leftarrow> unit_forward now r p (prepare_outgoing p src dest) dest vid incoming;
       Some (r\<lparr>rl_numDroppedFrames := rl_numDroppedFrames r + drops acts,
               rl_numProcessedFrames := rl_numProcessedFrames r + 1\<rparr>, acts @ [Release Incoming])
     }"

section \<open>Lemmas\<close>

lemma getInterfaceById_Some: "getInterfaceById r i = Some ifc \<Longrightarrow> ifc \<in> set (rl_interfaces r) \<and> if_id ifc = i"
  by (auto simp: getInterfaceById_def find_Some_iff)

lemma interfaces_keep [simp]:
  "getInterfaceById (r\<lparr>rl_table := t\<rparr>) = getInterfaceById r"
  "getInterfaceById (r\<lparr>rl_numReceivedNetworkFrames := n\<rparr>) = getInterfaceById r"
  by (rule ext, simp add: getInterfaceById_def)+

text \<open>The filtering database after a frame from \<open>src\<close>.\<close>

definition learned_table :: "simtime \<Rightarrow> interface \<Rightarrow> mac_address \<Rightarrow> nat \<Rightarrow> mac_table \<Rightarrow> mac_table" where
  "learned_table now ifc src vid tab =
     (if (case if_data ifc of None \<Rightarrow> True | Some d \<Rightarrow> isLearning d) \<and> \<not> isMulticast src
      then learn_entry now (if_id ifc) (vid, src) tab else tab)"

lemma updatePeerAddress_eq:
  "updatePeerAddress now ifc src vid r =
     Some (r\<lparr>rl_table := learned_table now ifc src vid (rl_table r)\<rparr>)"
  by (auto simp: updatePeerAddress_def base_updatePeerAddress_def learned_table_def
      learnUnicastAddressForwardingInterface_def)

lemma those_member: "those xs = Some ys \<Longrightarrow> y \<in> set ys \<Longrightarrow> Some y \<in> set xs"
  by (induction xs arbitrary: ys) (auto split: option.splits)

lemma broadcast_member:
  "SendLower i q \<in> set (broadcastPacket fwd r ob p inc) \<longleftrightarrow>
   (\<exists>ifc \<in> set (rl_interfaces r). i = if_id ifc \<and> inc \<noteq> Some i \<and> fwd ifc \<and> sendPacket p ifc = SendLower i q)"
  by (auto simp: broadcastPacket_def sendPacket_def)

lemma relay_to_member:
  "relay_to r out inc i = Some (SendLower j q) \<Longrightarrow>
   j = i \<and> i \<noteq> inc \<and> (\<exists>ifc \<in> set (rl_interfaces r). if_id ifc = i \<and> isForwardingInterface ifc \<and>
     sendPacket out ifc = SendLower i q)"
  by (auto simp: relay_to_def sendPacket_def split: if_splits bind_splits
      dest!: getInterfaceById_Some)

lemma relay_forward_member:
  assumes "relay_forward now r out dest inc = Some acts" "SendLower i q \<in> set acts"
  shows "i \<noteq> inc \<and> (\<exists>ifc \<in> set (rl_interfaces r). if_id ifc = i \<and> isForwardingInterface ifc \<and>
    sendPacket out ifc = SendLower i q)"
proof -
  have "SendLower i q \<in> set (broadcastPacket isForwardingInterface r Outgoing out (Some inc)) \<or>
      (\<exists>j. relay_to r out inc j = Some (SendLower i q))"
    using assms
    by (auto simp: relay_forward_def eq_commute[of "Some (SendLower i q)"]
        split: if_splits bind_splits dest!: those_member)
  then show ?thesis
    using relay_to_member[of r out inc _ i q] by (auto simp: broadcast_member dest: sym)
qed

lemma sendPacket_SendLower:
  "sendPacket p ifc = SendLower i q \<longleftrightarrow> i = if_id ifc \<and>
     q = p\<lparr>k_outbound := True, k_interfaceReq := Some (if_id ifc), k_dispatch := if_protocol ifc\<rparr>"
  by (auto simp: sendPacket_def)

text \<open>The handler, with the learning step resolved.\<close>

lemma handleLowerPacket_cases:
  assumes "handleLowerPacket now p r = Some (r', acts)"
  obtains ifc src dest where
    "k_macInd p = Some (src, dest)" "k_interfaceInd p = Some (if_id ifc)"
    "getInterfaceById r (if_id ifc) = Some ifc" "rl_interfaces r' = rl_interfaces r"
    "rl_bridgeAddress r' = rl_bridgeAddress r" "rl_registered r' = rl_registered r"
    "rl_table r' = learned_table now ifc src (case k_vlanInd p of None \<Rightarrow> 0 | Some v \<Rightarrow> v) (rl_table r)"
    "(for_bridge r ifc dest \<and> acts = [SendUp p, Release Incoming]) \<or>
     (\<not> for_bridge r ifc dest \<and> ingress_blocked ifc \<and> acts = [Dropped, Release Incoming]) \<or>
     (\<not> for_bridge r ifc dest \<and> \<not> ingress_blocked ifc \<and> (\<exists>sent.
        relay_forward now (r\<lparr>rl_numReceivedNetworkFrames := rl_numReceivedNetworkFrames r + 1, rl_table := rl_table r'\<rparr>)
          (prepare_outgoing p src dest) dest (if_id ifc) = Some sent \<and> acts = sent @ [Release Incoming]))"
proof -
  obtain src dest i ifc where a: "k_macInd p = Some (src, dest)" "k_interfaceInd p = Some i"
    "getInterfaceById r i = Some ifc"
    using assms by (auto simp: handleLowerPacket_def split: bind_splits prod.splits)
  have i: "i = if_id ifc" using getInterfaceById_Some[OF a(3)] by simp
  let ?r = "r\<lparr>rl_numReceivedNetworkFrames := rl_numReceivedNetworkFrames r + 1\<rparr>"
  have fb: "for_bridge (?r\<lparr>rl_table := tab\<rparr>) ifc dest = for_bridge r ifc dest" for tab
    by (simp add: for_bridge_def)
  show ?thesis
    by (rule that[of src dest ifc])
      (use assms a i fb in \<open>auto simp: handleLowerPacket_def Let_def updatePeerAddress_eq
         split: if_splits bind_splits\<close>)
qed

lemma relay_forward_releases:
  assumes "relay_forward now r out dest inc = Some acts"
  shows "filter (\<lambda>x. \<exists>ob. x = Release ob) acts = [Release Outgoing] \<and> (\<forall>q. SendUp q \<notin> set acts)"
proof -
  have relay: "(\<forall>ob. relay_to r out inc i \<noteq> Some (Release ob)) \<and> (\<forall>q. relay_to r out inc i \<noteq> Some (SendUp q))" for i
    by (auto simp: relay_to_def sendPacket_def split: if_splits bind_splits)
  have none: "filter (\<lambda>x. \<exists>ob. x = Release ob) xs = [] \<and> (\<forall>q. SendUp q \<notin> set xs)"
    if "those (map (relay_to r out inc) ids) = Some xs" for ids xs
  proof -
    have "\<exists>i. relay_to r out inc i = Some y" if "y \<in> set xs" for y
      using those_member[OF \<open>those _ = _\<close> that] by auto
    with relay show ?thesis by (auto simp: filter_empty_conv) metis+
  qed
  have bc: "filter (\<lambda>x. \<exists>ob. x = Release ob) (broadcastPacket fwd r ob p i) = [Release ob]
      \<and> (\<forall>q. SendUp q \<notin> set (broadcastPacket fwd r ob p i))" for fwd ob p i
    by (auto simp: broadcastPacket_def sendPacket_def filter_empty_conv)
  show ?thesis
    using assms none bc relay by (auto simp: relay_forward_def split: if_splits bind_splits)
qed

section \<open>Properties\<close>

text \<open>
  C30. The 802.1D relay never reflects or leaks a frame: every copy it sends goes to an interface of
  the bridge other than the one the frame came in on, which is a broadcast interface, not a
  loopback and in the forwarding state; the ingress interface is forwarding too; and the copy
  carries the addresses, the VLAN, the priority and the payload of the received frame.
\<close>

theorem relay_sends_only_to_forwarding:
  assumes "handleLowerPacket now p r = Some (r', acts)" "SendLower i q \<in> set acts"
  shows "k_interfaceInd p \<noteq> Some i
    \<and> (\<exists>ifc \<in> set (rl_interfaces r). if_id ifc = i \<and> isForwardingInterface ifc \<and> \<not> if_loopback ifc)
    \<and> (\<exists>ifc \<in> set (rl_interfaces r). k_interfaceInd p = Some (if_id ifc) \<and> \<not> ingress_blocked ifc)
    \<and> k_macReq q = k_macInd p \<and> k_vlanReq q = k_vlanInd p \<and> k_pcpReq q = k_pcpInd p
    \<and> k_payload q = k_payload p \<and> k_interfaceReq q = Some i"
  using assms(1)
proof (cases rule: handleLowerPacket_cases)
  case (1 ifc src dest)
  let ?r = "r\<lparr>rl_numReceivedNetworkFrames := rl_numReceivedNetworkFrames r + 1, rl_table := rl_table r'\<rparr>"
  from 1(8) assms(2) obtain sent where
    "relay_forward now ?r (prepare_outgoing p src dest) dest (if_id ifc) = Some sent"
    "SendLower i q \<in> set sent" "\<not> ingress_blocked ifc" by auto
  with relay_forward_member[OF this(1,2)] 1(1-3) getInterfaceById_Some[OF 1(3)] show ?thesis
    by (auto simp: sendPacket_SendLower prepare_outgoing_def clearTags_def
        isForwardingInterface_def base_isForwardingInterface_def)
qed

text \<open>
  The 802.1D relay releases the received packet object exactly once on every path, and the copy
  it prepares exactly once on the paths that prepare one; a frame is delivered to the upper layer
  or relayed, never both.
\<close>

theorem relay_releases_once:
  assumes "handleLowerPacket now p r = Some (r', acts)"
  shows "filter (\<lambda>x. \<exists>ob. x = Release ob) acts \<in> {[Release Incoming], [Release Outgoing, Release Incoming]}
    \<and> ((\<exists>q. SendUp q \<in> set acts) \<longrightarrow> acts = [SendUp p, Release Incoming])"
  using assms
proof (cases rule: handleLowerPacket_cases)
  case (1 ifc src dest)
  from 1(8) show ?thesis by (auto dest!: relay_forward_releases)
qed

text \<open>
  C31. Learning and forwarding of untagged traffic together: once a station \<open>a\<close> that has no static entry in the
  forwarding table has been heard, with an untagged frame, on a forwarding interface \<open>i\<close>, a frame for \<open>a\<close> from another
  station that arrives within the ageing time on another interface that admits it leaves through \<open>i\<close> and through no
  other interface. The relay looks up destinations in VLAN 0 only, so that a station heard in a VLAN is not reached this way
  but flooded (\<open>tagged_station_is_flooded\<close>).
\<close>

theorem learned_station_path:
  assumes first: "handleLowerPacket t1 p1 r = Some (r1, acts1)"
      "k_macInd p1 = Some (a, d)" "k_interfaceInd p1 = Some i" "k_vlanInd p1 = None"
    and a: "\<not> isMulticast a" "\<not> is_static (rl_table r) (0, a)"
    and out: "getInterfaceById r i = Some ifc_i" "isForwardingInterface ifc_i" "i \<noteq> -1"
    and second: "handleLowerPacket t2 p2 r1 = Some (r2, acts2)"
      "k_macInd p2 = Some (b, a)" "k_interfaceInd p2 = Some j" "j \<noteq> i" "b \<noteq> a"
    and ingress: "getInterfaceById r j = Some ifc_j" "\<not> ingress_blocked ifc_j" "\<not> for_bridge r ifc_j a"
    and time: "t1 \<le> t2" "t2 < t1 + agingTime (rl_table r)"
  shows "acts2 = [sendPacket (prepare_outgoing p2 b a) ifc_i, Release Outgoing, Release Incoming]"
proof -
  have id: "if_id ifc_i = i" "if_id ifc_j = j"
    using getInterfaceById_Some[OF out(1)] getInterfaceById_Some[OF ingress(1)] by simp_all
  have learn: "case if_data ifc_i of None \<Rightarrow> True | Some d \<Rightarrow> isLearning d"
    using out(2) by (auto simp: isForwardingInterface_def isForwarding_def isLearning_def split: option.splits)
  have "rl_table r1 = learn_entry t1 i (0, a) (rl_table r) \<and> rl_interfaces r1 = rl_interfaces r
      \<and> rl_bridgeAddress r1 = rl_bridgeAddress r \<and> rl_registered r1 = rl_registered r"
    using first(1)
  proof (cases rule: handleLowerPacket_cases)
    case (1 ifc src dest)
    then have e: "ifc = ifc_i" "src = a" using first(2,3) out(1) by simp_all
    show ?thesis using 1(4-7) first(4) a(1) learn unfolding e by (simp add: learned_table_def id)
  qed
  then have t1: "rl_table r1 = learn_entry t1 i (0, a) (rl_table r)" and same: "rl_interfaces r1 = rl_interfaces r"
      "rl_bridgeAddress r1 = rl_bridgeAddress r" "rl_registered r1 = rl_registered r" by blast+
  have "find_interface t2 (rl_table r1) (0, a) = i"
    unfolding t1 using mac_db.lookup_learn[OF a(2) time(1)] time(2) by simp
  then have lookup: "find_interface t2 (learned_table t2 ifc_j b vid (rl_table r1)) (0, a) = i" for vid
    using mac_db.lookup_learn_other[of "(0, a)" "(vid, b)" t2 t2 j "rl_table r1"] second(5)
    by (auto simp: learned_table_def id)
  have fb: "\<not> for_bridge r1 ifc_j a" using ingress(3) same by (simp add: for_bridge_def)
  have nb: "\<not> isBroadcast a" using a(1) isMulticast_broadcast by blast
  have gi: "getInterfaceById r1 = getInterfaceById r" by (rule ext) (simp add: getInterfaceById_def same)
  from second(1) show ?thesis
  proof (cases rule: handleLowerPacket_cases)
    case (1 ifc src dest)
    then have e: "ifc = ifc_j" "src = b" "dest = a"
      using second(2,3) ingress(1) gi by simp_all
    define s where "s = r1\<lparr>rl_numReceivedNetworkFrames := rl_numReceivedNetworkFrames r1 + 1, rl_table := rl_table r2\<rparr>"
    have s: "getInterfaceById s = getInterfaceById r" "rl_table s = rl_table r2"
      unfolding s_def by (simp_all add: gi)
    from 1(8) fb ingress(2) e obtain sent where
      sent: "relay_forward t2 s (prepare_outgoing p2 b a) a j = Some sent" "acts2 = sent @ [Release Incoming]"
      using id by (auto simp: s_def)
    have "find_interface t2 (rl_table s) (0, a) = i" using lookup 1(7) e s(2) by simp
    with sent(1) nb a(1) out s(1) second(4) have "sent = [sendPacket (prepare_outgoing p2 b a) ifc_i, Release Outgoing]"
      by (simp add: relay_forward_def getUnicastAddressForwardingInterface_def relay_to_def)
    with sent(2) show ?thesis by simp
  qed
qed

text \<open>
  Learning is per VLAN but forwarding looks in VLAN 0 only: after a station \<open>a\<close> has been learned
  from a frame tagged with a VLAN \<open>v\<close> other than 0, a frame for \<open>a\<close> in the same VLAN is still flooded
  to every other forwarding interface.
\<close>

theorem tagged_station_is_flooded:
  assumes first: "handleLowerPacket t1 p1 r = Some (r1, acts1)"
      "k_macInd p1 = Some (a, d)" "k_vlanInd p1 = Some v" "v \<noteq> 0"
    and a: "\<not> isMulticast a" "find_interface t2 (rl_table r) (0, a) = -1" "t1 \<le> t2"
    and second: "handleLowerPacket t2 p2 r1 = Some (r2, acts2)"
      "k_macInd p2 = Some (b, a)" "k_interfaceInd p2 = Some j" "b \<noteq> a"
    and ingress: "getInterfaceById r j = Some ifc_j" "\<not> ingress_blocked ifc_j" "\<not> for_bridge r ifc_j a"
  shows "acts2 = map (sendPacket (prepare_outgoing p2 b a))
      (filter (\<lambda>ifc. j \<noteq> if_id ifc \<and> isForwardingInterface ifc) (rl_interfaces r))
    @ [Release Outgoing, Release Incoming]"
proof -
  have "find_interface t2 (rl_table r1) (0, a) = -1 \<and> rl_interfaces r1 = rl_interfaces r
      \<and> rl_bridgeAddress r1 = rl_bridgeAddress r \<and> rl_registered r1 = rl_registered r"
    using first(1)
  proof (cases rule: handleLowerPacket_cases)
    case (1 ifc src dest)
    then have e: "src = a" using first(2) by simp
    show ?thesis using 1(4-7) first(3,4) a mac_db.lookup_learn_other[of "(0, a)" "(v, a)" t1 t2 "if_id ifc" "rl_table r"]
      unfolding e by (simp add: learned_table_def)
  qed
  then have l1: "find_interface t2 (rl_table r1) (0, a) = -1" and same: "rl_interfaces r1 = rl_interfaces r"
      "rl_bridgeAddress r1 = rl_bridgeAddress r" "rl_registered r1 = rl_registered r" by blast+
  have lookup: "find_interface t2 (learned_table t2 ifc_j b vid (rl_table r1)) (0, a) = -1" for vid
    using mac_db.lookup_learn_other[of "(0, a)" "(vid, b)" t2 t2 "if_id ifc_j" "rl_table r1"] second(4) l1
    by (auto simp: learned_table_def)
  have fb: "\<not> for_bridge r1 ifc_j a" using ingress(3) same by (simp add: for_bridge_def)
  have nb: "\<not> isBroadcast a" using a(1) isMulticast_broadcast by blast
  have gi: "getInterfaceById r1 = getInterfaceById r" by (rule ext) (simp add: getInterfaceById_def same)
  from second(1) show ?thesis
  proof (cases rule: handleLowerPacket_cases)
    case (1 ifc src dest)
    then have e: "ifc = ifc_j" "src = b" "dest = a"
      using second(2,3) ingress(1) gi by simp_all
    define s where "s = r1\<lparr>rl_numReceivedNetworkFrames := rl_numReceivedNetworkFrames r1 + 1, rl_table := rl_table r2\<rparr>"
    have s: "rl_interfaces s = rl_interfaces r" "rl_table s = rl_table r2"
      unfolding s_def by (simp_all add: same)
    from 1(8) fb ingress(2) e obtain sent where
      sent: "relay_forward t2 s (prepare_outgoing p2 b a) a j = Some sent" "acts2 = sent @ [Release Incoming]"
      using 1(2) second(3) by (auto simp: s_def)
    have "find_interface t2 (rl_table s) (0, a) = -1" using lookup 1(7) e s(2) by simp
    with sent(1) nb a(1) have "sent = broadcastPacket isForwardingInterface s Outgoing (prepare_outgoing p2 b a) (Some j)"
      by (simp add: relay_forward_def getUnicastAddressForwardingInterface_def)
    with sent(2) s(1) show ?thesis by (auto simp: broadcastPacket_def intro: filter_cong)
  qed
qed

text \<open>
  The plain relay unit mishandles multicast: for every multicast frame it accepts that is not a
  broadcast, it releases the received packet object twice and never the copy it prepared, and no
  copy it sends carries the requested MAC addresses.
\<close>

theorem relay_unit_multicast_releases_twice:
  assumes "unit_handleLowerPacket now p r = Some (r', acts)"
    and "k_macInd p = Some (src, dest)" "isMulticast dest" "\<not> isBroadcast dest" "k_macReq p = None"
  shows "filter (\<lambda>x. \<exists>ob. x = Release ob) acts = [Release Incoming, Release Incoming]
    \<and> (\<forall>x \<in> set acts. case x of SendLower i q \<Rightarrow> k_macReq q = None | _ \<Rightarrow> True)"
proof -
  obtain inc vid rr acts1 where f: "unit_forward now rr p (prepare_outgoing p src dest) dest vid inc = Some acts1"
    "acts = acts1 @ [Release Incoming]"
    using assms(1,2) by (auto simp: unit_handleLowerPacket_def Let_def split: bind_splits)
  have "\<exists>ifcs. acts1 = map (sendPacket p) ifcs @ [Release Incoming]"
  proof -
    have "\<exists>ifcs. xs = map (sendPacket p) ifcs"
      if "those (map (\<lambda>i. map_option (sendPacket p) (getInterfaceById rr i)) ids) = Some xs" for ids xs
      using that
    proof (induction ids arbitrary: xs)
      case Nil
      then show ?case by simp
    next
      case (Cons i ids)
      from Cons.prems obtain ifc ys where "getInterfaceById rr i = Some ifc"
        "those (map (\<lambda>i. map_option (sendPacket p) (getInterfaceById rr i)) ids) = Some ys"
        "xs = sendPacket p ifc # ys" by (auto split: option.splits)
      moreover from Cons.IH[OF this(2)] obtain ifcs where "ys = map (sendPacket p) ifcs" by blast
      ultimately have "xs = map (sendPacket p) (ifc # ifcs)" by simp
      then show ?case by blast
    qed
    then show ?thesis using f(1) assms(3,4)
      by (auto simp: unit_forward_def broadcastPacket_def split: if_splits bind_splits)
  qed
  then obtain ifcs where "acts = map (sendPacket p) ifcs @ [Release Incoming, Release Incoming]"
    using f(2) by auto
  then show ?thesis using assms(5) by (auto simp: sendPacket_def filter_empty_conv)
qed

text \<open>
  What registering an address range adds: exactly the addresses of the range, provided no range
  registered before overlaps it; otherwise the whole new range is dropped.
\<close>

theorem registered_range_lookup:
  assumes "\<forall>x \<in> set (rl_registered r). fst x \<le> snd x" "s \<le> e"
  shows "in_range (rl_registered (registerAddresses s e r)) v \<longleftrightarrow>
    in_range (rl_registered r) v \<or>
    (s \<le> v \<and> v \<le> e \<and> \<not> (\<exists>x \<in> set (rl_registered r). fst x \<le> e \<and> s \<le> snd x))"
proof -
  have overlap: "range_equiv x (s, e) \<longleftrightarrow> fst x \<le> e \<and> s \<le> snd x" if "x \<in> set (rl_registered r)" for x
    using assms that by (auto simp: range_equiv_def range_comp_def not_less)
  have new: "range_equiv (s, e) (v, v) \<longleftrightarrow> s \<le> v \<and> v \<le> e"
    using assms(2) by (auto simp: range_equiv_def range_comp_def not_less)
  have "(\<exists>x \<in> set (rl_registered r). range_equiv x (s, e)) \<longleftrightarrow>
      (\<exists>x \<in> set (rl_registered r). fst x \<le> e \<and> s \<le> snd x)"
    using overlap by blast
  with new show ?thesis by (auto simp: registerAddresses_def in_range_def)
qed

section \<open>Witnesses\<close>

text \<open>A bridge with three forwarding interfaces, an empty filtering database and 300 s of ageing.\<close>

definition port_interface :: "int \<Rightarrow> interface" where
  "port_interface i = \<lparr>if_id = i, if_loopback = False, if_broadcast = True,
     if_mac = MacAddress 255, if_multicastAddresses = [], if_protocol = Some 0, if_data = None\<rparr>"

definition bridge3 :: relay where
  "bridge3 = \<lparr>rl_interfaces = map port_interface [1, 2, 3],
     rl_table = init_table (300 * SECOND), rl_bridgeAddress = MacAddress 255, rl_bridgeInterface = Some 1,
     rl_registered = [(MacAddress 255, MacAddress 255)], rl_numReceivedNetworkFrames = 0,
     rl_numDroppedFrames = 0, rl_numProcessedFrames = 0\<rparr>"

definition frame :: "mac_address \<Rightarrow> mac_address \<Rightarrow> int \<Rightarrow> nat option \<Rightarrow> packet" where
  "frame src dest i v = \<lparr>k_protocol = Some 0, k_macInd = Some (src, dest), k_interfaceInd = Some i,
     k_vlanInd = v, k_pcpInd = None, k_macReq = None, k_vlanReq = None, k_pcpReq = None,
     k_interfaceReq = None, k_outbound = False, k_dispatch = None, k_payload = [1, 2, 3]\<rparr>"

lemma small_unicast:
  "\<not> isMulticast (MacAddress 16)" "\<not> isMulticast (MacAddress 32)"
  "\<not> isBroadcast (MacAddress 16)" "\<not> isBroadcast (MacAddress 32)"
  by (simp_all add: isMulticast_bit isBroadcast_def MAC_ADDRESS_MASK_def)

lemma bridge3_lookup:
  "getInterfaceById bridge3 1 = Some (port_interface 1)"
  "getInterfaceById bridge3 2 = Some (port_interface 2)"
  "rl_interfaces bridge3 = [port_interface 1, port_interface 2, port_interface 3]"
  by (simp_all add: getInterfaceById_def bridge3_def port_interface_def)

lemma bridge3_ports:
  "isForwardingInterface (port_interface i)" "\<not> ingress_blocked (port_interface i)"
  "if_id (port_interface i) = i" "if_data (port_interface i) = None"
  by (simp_all add: isForwardingInterface_def base_isForwardingInterface_def ingress_blocked_def port_interface_def)

lemma bridge3_not_addressed:
  "\<not> for_bridge bridge3 (port_interface i) (MacAddress 16)"
  "\<not> for_bridge bridge3 (port_interface i) (MacAddress 32)"
  by (simp_all add: for_bridge_def in_range_def range_equiv_def range_comp_def matchesMacAddress_def
      bridge3_def port_interface_def less_mac_address_def small_unicast)

lemma bridge3_frame:
  assumes "i \<in> {1, 2}" "\<not> isMulticast dest" "\<not> for_bridge r (port_interface i) dest"
    and "rl_interfaces r = rl_interfaces bridge3"
    and "find_interface now (learned_table now (port_interface i) src (case v of None \<Rightarrow> 0 | Some v \<Rightarrow> v)
      (rl_table r)) (0, dest) \<in> {-1, 1, 2}"
  shows "\<exists>x. handleLowerPacket now (frame src dest i v) r = Some x"
proof -
  have nb: "\<not> isBroadcast dest" using assms(2) isMulticast_broadcast by blast
  have gi: "getInterfaceById r = getInterfaceById bridge3"
    by (rule ext) (simp add: getInterfaceById_def assms(4))
  then have g: "getInterfaceById (r\<lparr>rl_numReceivedNetworkFrames := n, rl_table := tab\<rparr>) k = getInterfaceById bridge3 k"
    for n tab k by (simp add: getInterfaceById_def)
  have fb: "for_bridge (r\<lparr>rl_numReceivedNetworkFrames := n, rl_table := tab\<rparr>) f dest = for_bridge r f dest" for n tab f
    by (simp add: for_bridge_def)
  show ?thesis
    using assms(1,2,3,5) nb
    by (auto simp: handleLowerPacket_def Let_def frame_def updatePeerAddress_eq gi g fb bridge3_lookup
        bridge3_ports relay_forward_def getUnicastAddressForwardingInterface_def relay_to_def
        split: option.splits)
qed

theorem relay_sends_only_to_forwarding_witness:
  "\<exists>r' acts. handleLowerPacket 5 (frame (MacAddress 16) (MacAddress 32) 1 None) bridge3 = Some (r', acts)
    \<and> (\<forall>q. SendLower 1 q \<notin> set acts)"
proof -
  have "find_interface 5 (learned_table 5 (port_interface 1) (MacAddress 16) 0 (rl_table bridge3)) (0, MacAddress 32) = -1"
    using mac_db.lookup_learn_other[of "(0, MacAddress 32)" "(0, MacAddress 16)" 5 5 1 "rl_table bridge3"]
    by (simp add: learned_table_def bridge3_ports small_unicast) (simp add: find_interface_def bridge3_def init_table_def)
  then obtain r' acts where h: "handleLowerPacket 5 (frame (MacAddress 16) (MacAddress 32) 1 None) bridge3 = Some (r', acts)"
    using bridge3_frame[of 1 "MacAddress 32" bridge3 5 "MacAddress 16" None] bridge3_not_addressed small_unicast
    by fastforce
  have "SendLower 1 q \<notin> set acts" for q
    using relay_sends_only_to_forwarding[OF h, of 1 q] by (auto simp: frame_def)
  with h show ?thesis by blast
qed

theorem relay_releases_once_witness:
  "\<exists>r' acts. handleLowerPacket 5 (frame (MacAddress 16) (MacAddress 32) 1 None) bridge3 = Some (r', acts)
    \<and> filter (\<lambda>x. \<exists>ob. x = Release ob) acts \<in> {[Release Incoming], [Release Outgoing, Release Incoming]}"
proof -
  have "find_interface 5 (learned_table 5 (port_interface 1) (MacAddress 16) 0 (rl_table bridge3)) (0, MacAddress 32) = -1"
    using mac_db.lookup_learn_other[of "(0, MacAddress 32)" "(0, MacAddress 16)" 5 5 1 "rl_table bridge3"]
    by (simp add: learned_table_def bridge3_ports small_unicast) (simp add: find_interface_def bridge3_def init_table_def)
  then obtain r' acts where h: "handleLowerPacket 5 (frame (MacAddress 16) (MacAddress 32) 1 None) bridge3 = Some (r', acts)"
    using bridge3_frame[of 1 "MacAddress 32" bridge3 5 "MacAddress 16" None] bridge3_not_addressed small_unicast
    by fastforce
  with relay_releases_once[OF h] show ?thesis by blast
qed

text \<open>Station 16 is heard on port 1 at time 5, tagged or not; then station 32 answers on port 2.\<close>

lemma bridge3_exchange:
  obtains r1 acts1 r2 acts2 where
    "handleLowerPacket 5 (frame (MacAddress 16) (MacAddress 32) 1 v) bridge3 = Some (r1, acts1)"
    "handleLowerPacket 9 (frame (MacAddress 32) (MacAddress 16) 2 v) r1 = Some (r2, acts2)"
proof -
  let ?vid = "case v of None \<Rightarrow> 0 | Some v \<Rightarrow> v"
  have empty: "find_interface t (rl_table bridge3) k = -1" for t k
    by (simp add: find_interface_def bridge3_def init_table_def)
  have nostat: "\<not> is_static (rl_table bridge3) k" for k
    by (simp add: is_static_def bridge3_def init_table_def)
  have t1: "learned_table 5 (port_interface 1) (MacAddress 16) ?vid (rl_table bridge3)
      = learn_entry 5 1 (?vid, MacAddress 16) (rl_table bridge3)"
    by (simp add: learned_table_def bridge3_ports small_unicast)
  have "find_interface 5 (learned_table 5 (port_interface 1) (MacAddress 16) ?vid (rl_table bridge3)) (0, MacAddress 32) = -1"
    unfolding t1 using mac_db.lookup_learn_other[of "(0, MacAddress 32)" "(?vid, MacAddress 16)" 5 5 1 "rl_table bridge3"]
    by (simp add: empty)
  then obtain r1 acts1 where h1: "handleLowerPacket 5 (frame (MacAddress 16) (MacAddress 32) 1 v) bridge3 = Some (r1, acts1)"
    using bridge3_frame[of 1 "MacAddress 32" bridge3 5 "MacAddress 16" v] bridge3_not_addressed small_unicast
    by fastforce
  have r1: "rl_interfaces r1 = rl_interfaces bridge3 \<and> rl_bridgeAddress r1 = rl_bridgeAddress bridge3 \<and>
      rl_registered r1 = rl_registered bridge3 \<and>
      rl_table r1 = learn_entry 5 1 (?vid, MacAddress 16) (rl_table bridge3)"
    using h1
  proof (cases rule: handleLowerPacket_cases)
    case (1 ifc src dest)
    then have "if_id ifc = 1" "src = MacAddress 16" by (simp_all add: frame_def)
    moreover from this 1(3) have "ifc = port_interface 1" by (simp add: bridge3_lookup)
    ultimately show ?thesis using 1(4-7) t1 by (simp add: frame_def)
  qed
  have "find_interface 9 (rl_table r1) (0, MacAddress 16) \<in> {-1, 1}"
    using mac_db.lookup_learn[OF nostat, of 5 9 1 "(0, MacAddress 16)"]
      mac_db.lookup_learn_other[of "(0, MacAddress 16)" "(?vid, MacAddress 16)" 5 9 1 "rl_table bridge3"]
      r1 empty by (cases "?vid = 0") auto
  then have "find_interface 9 (learned_table 9 (port_interface 2) (MacAddress 32) ?vid (rl_table r1)) (0, MacAddress 16) \<in> {-1, 1, 2}"
    using mac_db.lookup_learn_other[of "(0, MacAddress 16)" "(?vid, MacAddress 32)" 9 9 2 "rl_table r1"]
    by (auto simp: learned_table_def bridge3_ports small_unicast)
  moreover have "\<not> for_bridge r1 (port_interface 2) (MacAddress 16)"
    using r1 bridge3_not_addressed(1)[of 2] by (simp add: for_bridge_def)
  ultimately obtain r2 acts2 where "handleLowerPacket 9 (frame (MacAddress 32) (MacAddress 16) 2 v) r1 = Some (r2, acts2)"
    using bridge3_frame[of 2 "MacAddress 16" r1 9 "MacAddress 32" v] small_unicast r1 by fastforce
  with h1 that show ?thesis by blast
qed

theorem learned_station_path_witness:
  "\<exists>r1 acts1 r2. handleLowerPacket 5 (frame (MacAddress 16) (MacAddress 32) 1 None) bridge3 = Some (r1, acts1) \<and>
     handleLowerPacket 9 (frame (MacAddress 32) (MacAddress 16) 2 None) r1 = Some (r2,
       [sendPacket (prepare_outgoing (frame (MacAddress 32) (MacAddress 16) 2 None) (MacAddress 32) (MacAddress 16))
          (port_interface 1), Release Outgoing, Release Incoming])"
proof -
  obtain r1 acts1 r2 acts2 where h:
    "handleLowerPacket 5 (frame (MacAddress 16) (MacAddress 32) 1 None) bridge3 = Some (r1, acts1)"
    "handleLowerPacket 9 (frame (MacAddress 32) (MacAddress 16) 2 None) r1 = Some (r2, acts2)"
    by (rule bridge3_exchange)
  have "acts2 = [sendPacket (prepare_outgoing (frame (MacAddress 32) (MacAddress 16) 2 None) (MacAddress 32) (MacAddress 16))
      (port_interface 1), Release Outgoing, Release Incoming]"
    by (rule learned_station_path[OF h(1) _ _ _ _ _ bridge3_lookup(1) _ _ h(2) _ _ _ _ bridge3_lookup(2)])
      (simp_all add: frame_def small_unicast bridge3_ports bridge3_not_addressed,
       simp_all add: is_static_def bridge3_def init_table_def SECOND_def)
  with h show ?thesis by blast
qed

theorem tagged_station_is_flooded_witness:
  "\<exists>r1 acts1 r2. handleLowerPacket 5 (frame (MacAddress 16) (MacAddress 32) 1 (Some 7)) bridge3 = Some (r1, acts1) \<and>
     handleLowerPacket 9 (frame (MacAddress 32) (MacAddress 16) 2 (Some 7)) r1 = Some (r2,
       map (sendPacket (prepare_outgoing (frame (MacAddress 32) (MacAddress 16) 2 (Some 7)) (MacAddress 32) (MacAddress 16)))
          [port_interface 1, port_interface 3] @ [Release Outgoing, Release Incoming])"
proof -
  obtain r1 acts1 r2 acts2 where h:
    "handleLowerPacket 5 (frame (MacAddress 16) (MacAddress 32) 1 (Some 7)) bridge3 = Some (r1, acts1)"
    "handleLowerPacket 9 (frame (MacAddress 32) (MacAddress 16) 2 (Some 7)) r1 = Some (r2, acts2)"
    by (rule bridge3_exchange)
  have "acts2 = map (sendPacket (prepare_outgoing (frame (MacAddress 32) (MacAddress 16) 2 (Some 7)) (MacAddress 32) (MacAddress 16)))
      (filter (\<lambda>ifc. 2 \<noteq> if_id ifc \<and> isForwardingInterface ifc) (rl_interfaces bridge3))
      @ [Release Outgoing, Release Incoming]"
    by (rule tagged_station_is_flooded[OF h(1) _ _ _ _ _ _ h(2) _ _ _ bridge3_lookup(2)])
      (simp_all add: frame_def small_unicast bridge3_ports bridge3_not_addressed,
       simp_all add: find_interface_def bridge3_def init_table_def)
  then show ?thesis using h by (simp add: bridge3_lookup bridge3_ports)
qed

theorem relay_unit_multicast_releases_twice_witness:
  "\<exists>r' acts. unit_handleLowerPacket 5 (frame (MacAddress 16) (MacAddress 0x010000000000) 1 None) bridge3 = Some (r', acts)
     \<and> filter (\<lambda>x. \<exists>ob. x = Release ob) acts = [Release Incoming, Release Incoming]"
proof -
  have m: "isMulticast (MacAddress 0x010000000000)" "\<not> isBroadcast (MacAddress 0x010000000000)"
    by (simp_all add: isMulticast_bit isBroadcast_def MAC_ADDRESS_MASK_def)
  have tab: "multicastForwardingTable (learn_entry 5 1 (0, MacAddress 16) (rl_table bridge3)) k = None" for k
    by (auto simp: learn_entry_def removeAgedEntriesIfNeeded_def removeAgedEntriesFromAllVlans_def Let_def
        bridge3_def init_table_def split: option.splits)
  have "\<exists>x. unit_handleLowerPacket 5 (frame (MacAddress 16) (MacAddress 0x010000000000) 1 None) bridge3 = Some x"
    using m small_unicast
    by (simp add: unit_handleLowerPacket_def frame_def bridge3_lookup base_updatePeerAddress_def bridge3_ports
        learnUnicastAddressForwardingInterface_def unit_forward_def getMulticastAddressForwardingInterfaces_def tab)
  then obtain r' acts where h: "unit_handleLowerPacket 5 (frame (MacAddress 16) (MacAddress 0x010000000000) 1 None) bridge3 = Some (r', acts)"
    by fastforce
  have "filter (\<lambda>x. \<exists>ob. x = Release ob) acts = [Release Incoming, Release Incoming]"
    using relay_unit_multicast_releases_twice[OF h _ m(1) m(2), of "MacAddress 16"] by (simp add: frame_def)
  with h show ?thesis by blast
qed

theorem registered_range_lookup_witness:
  "\<not> in_range (rl_registered (registerAddresses (MacAddress 100) (MacAddress 300) bridge3)) (MacAddress 200)"
  by (subst registered_range_lookup)
    (simp_all add: bridge3_def less_eq_mac_address_def in_range_def range_equiv_def range_comp_def less_mac_address_def)

end
