(* ===== verification/Periodic_Gate.thy ===== *)
theory Periodic_Gate
  imports Prelude
begin

text \<open>
  Transmission gates: \<open>PacketGateBase\<close> (src/inet/src/inet/queueing/base/PacketGateBase.cc),
  \<open>PeriodicGate\<close> (queueing/gate/PeriodicGate.cc) and \<open>InteractiveGate\<close>. A periodic gate steps
  through a list of durations, changing its state after each; the reference is the cyclic schedule
  \<open>cyclic_open\<close>, a function of the position in the schedule alone.

  Times are raw clock times. A packet is its data length in bits; the time a packet needs to flow
  through the gate (its length and \<open>extraLength\<close> at the bitrate, rounded by the time type, plus
  \<open>extraDuration\<close>) is the field \<open>pg_flowTime\<close>; \<open>None\<close> stands for a NaN bitrate. \<open>ASSERT\<close> failures
  and errors are \<open>None\<close>.
\<close>

section \<open>Schedules\<close>

text \<open>The state at a position of a list of alternating phases, and of its cyclic repetition.\<close>

fun phase_open :: "bool \<Rightarrow> int list \<Rightarrow> int \<Rightarrow> bool" where
  "phase_open b [] t = b"
| "phase_open b (d # ds) t = (if t < d then b else phase_open (\<not> b) ds (t - d))"

definition cyclic_open :: "bool \<Rightarrow> int list \<Rightarrow> int \<Rightarrow> bool" where
  "cyclic_open b ds t = (if ds = [] then b else phase_open b ds (t mod sum_list ds))"

section \<open>State\<close>

type_synonym gate_packet = nat

record gate =
  pg_isOpen :: bool
  pg_index :: nat
  pg_initiallyOpen :: bool
  pg_initialOffset :: clocktime
  pg_offset :: clocktime
  pg_totalDuration :: clocktime
  pg_durations :: "clocktime list"
  pg_scheduleForAbsoluteTime :: bool
  pg_enableImplicitGuardBand :: bool
  pg_openSchedulingPriority :: int
  pg_closeSchedulingPriority :: int
  pg_timerPriority :: int
  pg_flowTime :: "(gate_packet \<Rightarrow> clocktime) option"
  pg_isInGuardBand :: bool
  pg_changeTimer :: "clocktime option"

section \<open>The base gate\<close>

definition base_open :: "gate \<Rightarrow> gate option" where
  "base_open g = do { ensure (\<not> pg_isOpen g); Some (g\<lparr>pg_isOpen := True\<rparr>) }"

definition base_close :: "gate \<Rightarrow> gate option" where
  "base_close g = do { ensure (pg_isOpen g); Some (g\<lparr>pg_isOpen := False\<rparr>) }"

definition processPacket :: "gate_packet \<Rightarrow> gate \<Rightarrow> gate_packet option" where
  "processPacket p g = (if \<not> pg_isOpen g then None else Some p)"

definition base_canPacketFlowThrough :: "gate_packet option \<Rightarrow> gate \<Rightarrow> bool option" where
  "base_canPacketFlowThrough p g = do { ensure (pg_isOpen g); Some True }"

text \<open>\<open>InteractiveGate::handleParameterChange\<close> for the parameter \<open>open\<close>.\<close>

definition interactive_setOpen :: "bool \<Rightarrow> gate \<Rightarrow> gate option" where
  "interactive_setOpen b g = (if b then base_open g else base_close g)"

section \<open>The periodic gate\<close>

definition readDurationsPar :: "clocktime list \<Rightarrow> gate \<Rightarrow> gate option" where
  "readDurationsPar ds g =
     do {
       ensure (length ds mod 2 = 0);
       ensure (\<forall>d \<in> set ds. 0 < d);
       Some (g\<lparr>pg_durations := ds, pg_totalDuration := sum_list ds\<rparr>)
     }"

text \<open>\<open>canPacketFlowThrough\<close>; \<open>extraLength\<close> and \<open>extraDuration\<close> are part of the flow time.\<close>

definition canPacketFlowThrough :: "clocktime \<Rightarrow> gate_packet option \<Rightarrow> gate \<Rightarrow> bool option" where
  "canPacketFlowThrough now p g =
     do {
       ensure (pg_isOpen g);
       (case pg_flowTime g of
          None \<Rightarrow> base_canPacketFlowThrough p g
        | Some flow \<Rightarrow>
            (case p of
               None \<Rightarrow> Some False
             | Some pk \<Rightarrow>
                 (if pg_enableImplicitGuardBand g then
                    Some (case pg_changeTimer g of None \<Rightarrow> True | Some e \<Rightarrow> now + flow pk \<le> e)
                  else base_canPacketFlowThrough p g)))
     }"

text \<open>The packet the provider offers, if there is one, is an argument.\<close>

definition updateIsInGuardBand :: "clocktime \<Rightarrow> gate_packet option \<Rightarrow> gate \<Rightarrow> gate option" where
  "updateIsInGuardBand now offered g =
     do {
       b \<leftarrow> (if pg_isOpen g then
               (case offered of
                  None \<Rightarrow> Some False
                | Some pk \<Rightarrow> map_option Not (canPacketFlowThrough now (Some pk) g))
             else Some False);
       Some (g\<lparr>pg_isInGuardBand := b\<rparr>)
     }"

definition gate_open :: "clocktime \<Rightarrow> gate_packet option \<Rightarrow> gate \<Rightarrow> gate option" where
  "gate_open now offered g = do { g \<leftarrow> base_open g; updateIsInGuardBand now offered g }"

definition gate_close :: "clocktime \<Rightarrow> gate_packet option \<Rightarrow> gate \<Rightarrow> gate option" where
  "gate_close now offered g = do { g \<leftarrow> base_close g; updateIsInGuardBand now offered g }"

text \<open>
  Both ways of scheduling give the same arrival time on the gate's own clock. An event in the past
  is an error.
\<close>

definition scheduleChangeTimer :: "clocktime \<Rightarrow> gate \<Rightarrow> gate option" where
  "scheduleChangeTimer now g =
     do {
       ensure (pg_index g < length (pg_durations g));
       let duration = pg_durations g ! pg_index g;
       let g = g\<lparr>pg_index := (pg_index g + 1) mod length (pg_durations g)\<rparr>;
       let g = g\<lparr>pg_timerPriority :=
         (if pg_isOpen g then pg_closeSchedulingPriority g else pg_openSchedulingPriority g)\<rparr>;
       ensure (0 \<le> duration - pg_offset g);
       Some (g\<lparr>pg_changeTimer :=
         Some (if pg_scheduleForAbsoluteTime g then now + duration - pg_offset g
               else now + (duration - pg_offset g)), pg_offset := 0\<rparr>)
     }"

definition processChangeTimer :: "clocktime \<Rightarrow> gate_packet option \<Rightarrow> gate \<Rightarrow> gate option" where
  "processChangeTimer now offered g =
     (if pg_isOpen g then gate_close now offered g else gate_open now offered g)"

text \<open>
  The loop of \<open>initializeGating\<close> over the remaining offset. Each round consumes a positive
  duration, so the offset itself bounds the number of rounds.
\<close>

function skip_offset :: "int list \<Rightarrow> int \<times> bool \<times> nat \<Rightarrow> int \<times> bool \<times> nat" where
  "skip_offset ds (off, b, i) =
     (if 0 < off \<and> i < length ds \<and> 0 < ds ! i \<and> ds ! i \<le> off
      then skip_offset ds (off - ds ! i, \<not> b, (i + 1) mod length ds)
      else (off, b, i))"
  by pat_completeness auto
termination by (relation "measure (\<lambda>(ds, off, b, i). nat off)") auto

declare skip_offset.simps [simp del]

text \<open>\<open>%\<close> on the raw 64-bit ticks truncates towards zero.\<close>

definition raw_rem :: "int \<Rightarrow> int \<Rightarrow> int" where
  "raw_rem a b = sgn a * (\<bar>a\<bar> mod \<bar>b\<bar>)"

definition initializeGating :: "clocktime \<Rightarrow> gate \<Rightarrow> gate option" where
  "initializeGating now g =
     (let off0 = (if pg_totalDuration g \<noteq> 0 then raw_rem (pg_initialOffset g) (pg_totalDuration g) else 0);
          (off, b, i) = skip_offset (pg_durations g) (off0, pg_initiallyOpen g, 0);
          g = g\<lparr>pg_index := i, pg_isOpen := b, pg_offset := off, pg_changeTimer := None\<rparr>
      in if pg_durations g \<noteq> [] then scheduleChangeTimer now g else Some g)"

text \<open>\<open>handleMessage\<close> for the change timer, which has just expired.\<close>

definition handleChangeTimer :: "clocktime \<Rightarrow> gate_packet option \<Rightarrow> gate \<Rightarrow> gate option" where
  "handleChangeTimer now offered g =
     do {
       g \<leftarrow> scheduleChangeTimer now (g\<lparr>pg_changeTimer := None\<rparr>);
       processChangeTimer now offered g
     }"

text \<open>\<open>handleParameterChange\<close>, by the parameter that changed.\<close>

datatype gate_param = Offset clocktime | InitiallyOpen bool | Durations "clocktime list" | OtherParam

definition handleParameterChange :: "clocktime \<Rightarrow> gate_param \<Rightarrow> gate \<Rightarrow> gate option" where
  "handleParameterChange now p g =
     do {
       g \<leftarrow> (case p of
          Offset t \<Rightarrow> Some (g\<lparr>pg_initialOffset := t\<rparr>)
        | InitiallyOpen b \<Rightarrow> Some (g\<lparr>pg_initiallyOpen := b\<rparr>)
        | Durations ds \<Rightarrow> readDurationsPar ds g
        | OtherParam \<Rightarrow> Some g);
       initializeGating now g
     }"

section \<open>Pushing and pulling\<close>

text \<open>
  The queries of \<open>PacketGateBase\<close>; whether the neighbour could accept or provide a packet is an
  argument. The C++ conjunctions are short-circuit.
\<close>

definition gate_canPushSomePacket :: "clocktime \<Rightarrow> bool \<Rightarrow> gate \<Rightarrow> bool option" where
  "gate_canPushSomePacket now next_accepts g =
     (if pg_isOpen g then
        do { b \<leftarrow> canPacketFlowThrough now None g; Some (b \<and> next_accepts) }
      else Some False)"

definition gate_canPushPacket :: "clocktime \<Rightarrow> gate_packet \<Rightarrow> bool \<Rightarrow> gate \<Rightarrow> bool option" where
  "gate_canPushPacket now p next_accepts g =
     (if pg_isOpen g then
        do { b \<leftarrow> canPacketFlowThrough now (Some p) g; Some (b \<and> next_accepts) }
      else Some False)"

definition gate_canPullPacket :: "clocktime \<Rightarrow> gate_packet option \<Rightarrow> gate \<Rightarrow> gate_packet option option" where
  "gate_canPullPacket now offered g =
     (if pg_isOpen g then
        do { b \<leftarrow> canPacketFlowThrough now offered g; Some (if b then offered else None) }
      else Some None)"

definition gate_canPullSomePacket :: "clocktime \<Rightarrow> gate_packet option \<Rightarrow> gate \<Rightarrow> bool option" where
  "gate_canPullSomePacket now offered g =
     (if pg_isOpen g then
        do { b \<leftarrow> canPacketFlowThrough now offered g; Some (b \<and> offered \<noteq> None) }
      else Some False)"

section \<open>Phases\<close>

lemma phase_open_take:
  assumes "\<forall>d \<in> set ds. 0 < d" "i < length ds"
    and "sum_list (take i ds) \<le> t" "t < sum_list (take i ds) + ds ! i"
  shows "phase_open b ds t = (if even i then b else \<not> b)"
  using assms
proof (induction ds arbitrary: b i t)
  case Nil
  then show ?case by simp
next
  case (Cons d ds)
  show ?case
  proof (cases i)
    case 0
    with Cons.prems show ?thesis by simp
  next
    case (Suc k)
    have "0 \<le> sum_list (take k ds)"
      using Cons.prems(1) by (intro sum_list_nonneg_int) (auto dest: in_set_takeD)
    with Suc Cons.prems have "\<not> t < d" by simp
    moreover have "phase_open (\<not> b) ds (t - d) = (if even k then \<not> b else \<not> \<not> b)"
      using Suc Cons.prems by (intro Cons.IH) auto
    ultimately show ?thesis using Suc by simp
  qed
qed

text \<open>The start of a phase within the cycle.\<close>

abbreviation phase_start :: "int list \<Rightarrow> nat \<Rightarrow> int" where
  "phase_start ds i \<equiv> sum_list (take i ds)"

lemma phase_start_bound:
  assumes "\<forall>d \<in> set ds. 0 < d" "i < length ds"
  shows "0 \<le> phase_start ds i" "phase_start ds i + ds ! i \<le> sum_list ds" "0 < ds ! i"
proof -
  show "0 \<le> phase_start ds i" using assms(1) by (intro sum_list_nonneg_int) (auto dest: in_set_takeD)
  have "sum_list ds = sum_list (take (Suc i) ds) + sum_list (drop (Suc i) ds)"
    by (metis append_take_drop_id sum_list_append)
  moreover have "0 \<le> sum_list (drop (Suc i) ds)"
    using assms(1) by (intro sum_list_nonneg_int) (auto dest: in_set_dropD)
  ultimately show "phase_start ds i + ds ! i \<le> sum_list ds"
    using assms(2) by (simp add: sum_list_take_Suc)
  show "0 < ds ! i" using assms by simp
qed

lemma cyclic_open_phase:
  assumes "\<forall>d \<in> set ds. 0 < d" "i < length ds"
    and "k * sum_list ds + phase_start ds i \<le> t" "t < k * sum_list ds + phase_start ds i + ds ! i"
  shows "cyclic_open b ds t = (if even i then b else \<not> b)"
proof -
  note p = phase_start_bound[OF assms(1,2)]
  have "t mod sum_list ds = t - k * sum_list ds"
    using assms(3,4) p by (intro int_mod_pos_eq[of _ _ k]) auto
  with assms p phase_open_take[OF assms(1,2), of "t - k * sum_list ds" b] show ?thesis
    by (auto simp: cyclic_open_def)
qed

text \<open>What is left of the offset when the loop of \<open>initializeGating\<close> stops.\<close>

lemma skip_offset_result:
  assumes "\<forall>d \<in> set ds. 0 < d" "i < length ds" "0 \<le> off" "phase_start ds i + off < sum_list ds"
    and "skip_offset ds (off, b, i) = (o', b', j)"
  shows "j < length ds \<and> phase_start ds j + o' = phase_start ds i + off \<and> 0 \<le> o' \<and> o' < ds ! j \<and>
    (if even j then b' else \<not> b') = (if even i then b else \<not> b)"
  using assms
proof (induction ds "(off, b, i)" arbitrary: off b i rule: skip_offset.induct)
  case (1 ds off b i)
  have d: "0 < ds ! i" using 1(2,3) by simp
  show ?case
  proof (cases "0 < off \<and> ds ! i \<le> off")
    case False
    then have "skip_offset ds (off, b, i) = (off, b, i)" by (subst skip_offset.simps) auto
    with 1(3-6) False d show ?thesis by auto
  next
    case True
    have "Suc i \<noteq> length ds"
    proof
      assume "Suc i = length ds"
      then have "sum_list ds = phase_start ds i + ds ! i" using sum_list_take_Suc[OF 1(3)] by simp
      with True 1(5) show False by simp
    qed
    then have i: "Suc i < length ds" "(i + 1) mod length ds = Suc i" using 1(3) by simp_all
    have "skip_offset ds (off, b, i) = skip_offset ds (off - ds ! i, \<not> b, Suc i)"
      using True 1(3) d i by (subst skip_offset.simps) simp
    with 1(1)[unfolded i(2)] 1(2-6) True d i show ?thesis
      by (auto simp: sum_list_take_Suc split: if_splits)
  qed
qed

section \<open>Running gates\<close>

text \<open>
  A gate in the middle of its schedule: phase \<open>i\<close> is in progress, the index points to the next one,
  and the timer expires when the phase ends. \<open>origin\<close> is the time at which the schedule is (or would
  have been) at position 0.
\<close>

definition running :: "bool \<Rightarrow> int list \<Rightarrow> clocktime \<Rightarrow> nat \<Rightarrow> clocktime \<Rightarrow> gate \<Rightarrow> bool" where
  "running b ds origin i e g \<longleftrightarrow>
     i < length ds \<and> pg_durations g = ds \<and> pg_offset g = 0 \<and>
     pg_index g = (i + 1) mod length ds \<and> pg_isOpen g = (if even i then b else \<not> b) \<and>
     pg_changeTimer g = Some e \<and> (\<exists>k. e = origin + k * sum_list ds + phase_start ds i + ds ! i)"

lemma running_state:
  assumes "\<forall>d \<in> set ds. 0 < d" "running b ds origin i e g" "e - ds ! i \<le> t" "t < e"
  shows "pg_isOpen g = cyclic_open b ds (t - origin)"
proof -
  obtain k where k: "e = origin + k * sum_list ds + phase_start ds i + ds ! i"
    using assms(2) by (auto simp: running_def)
  have "cyclic_open b ds (t - origin) = (if even i then b else \<not> b)"
    by (rule cyclic_open_phase[OF assms(1), of i k]) (use assms(2-4) k in \<open>auto simp: running_def\<close>)
  with assms(2) show ?thesis by (simp add: running_def)
qed

lemma guard_update_total: "\<exists>b. updateIsInGuardBand now offered g = Some (g\<lparr>pg_isInGuardBand := b\<rparr>)"
  by (auto simp: updateIsInGuardBand_def canPacketFlowThrough_def base_canPacketFlowThrough_def
      split: option.splits)

lemma processChangeTimer_total:
  "\<exists>b. processChangeTimer now offered g = Some (g\<lparr>pg_isOpen := \<not> pg_isOpen g, pg_isInGuardBand := b\<rparr>)"
  using guard_update_total[of now offered "g\<lparr>pg_isOpen := \<not> pg_isOpen g\<rparr>"]
  by (auto simp: processChangeTimer_def gate_close_def gate_open_def base_close_def base_open_def)

lemma next_phase:
  assumes "\<forall>d \<in> set ds. 0 < d" "i < length ds" "j = (i + 1) mod length ds"
  shows "\<exists>k'. origin + k * sum_list ds + phase_start ds i + ds ! i + ds ! j =
    origin + k' * sum_list ds + phase_start ds j + ds ! j"
proof (cases "Suc i < length ds")
  case True
  then have "phase_start ds j = phase_start ds i + ds ! i"
    using assms by (simp add: sum_list_take_Suc)
  then show ?thesis by (intro exI[of _ k]) simp
next
  case False
  then have "Suc i = length ds" using assms(2) by simp
  then have "j = 0" "sum_list ds = phase_start ds i + ds ! i"
    using assms sum_list_take_Suc[of i ds] by simp_all
  then show ?thesis by (intro exI[of _ "k + 1"]) (simp add: algebra_simps)
qed

lemma running_step:
  assumes "\<forall>d \<in> set ds. 0 < d" "even (length ds)" "running b ds origin i e g"
  shows "\<exists>h. handleChangeTimer e offered g = Some h \<and>
    running b ds origin ((i + 1) mod length ds) (e + ds ! ((i + 1) mod length ds)) h \<and>
    pg_flowTime h = pg_flowTime g \<and> pg_enableImplicitGuardBand h = pg_enableImplicitGuardBand g"
proof -
  let ?j = "(i + 1) mod length ds"
  have j: "i < length ds" using assms(3) by (simp add: running_def)
  then have "0 < length ds" by linarith
  with j have j: "?j < length ds" "i < length ds" by (simp_all only: mod_less_divisor)
  have d: "0 < ds ! ?j" using assms(1) j by simp
  define g1 where "g1 = g\<lparr>pg_changeTimer := Some (e + ds ! ?j), pg_index := (?j + 1) mod length ds,
    pg_timerPriority := (if pg_isOpen g then pg_closeSchedulingPriority g else pg_openSchedulingPriority g), pg_offset := 0\<rparr>"
  have s: "scheduleChangeTimer e (g\<lparr>pg_changeTimer := None\<rparr>) = Some g1"
    using assms(3) j d by (simp add: scheduleChangeTimer_def running_def g1_def Let_def)
  obtain gb where p: "processChangeTimer e offered g1 = Some (g1\<lparr>pg_isOpen := \<not> pg_isOpen g1, pg_isInGuardBand := gb\<rparr>)"
    using processChangeTimer_total by blast
  have flip: "even ?j \<longleftrightarrow> odd i"
  proof (cases "Suc i < length ds")
    case True
    then show ?thesis by simp
  next
    case False
    with j(2) have "Suc i = length ds" by simp
    with assms(2) show ?thesis by (metis Suc_eq_plus1 even_Suc even_zero mod_self)
  qed
  obtain k where "e = origin + k * sum_list ds + phase_start ds i + ds ! i"
    using assms(3) by (auto simp: running_def)
  with next_phase[OF assms(1) j(2) refl, of origin k]
  have "\<exists>k'. e + ds ! ?j = origin + k' * sum_list ds + phase_start ds ?j + ds ! ?j" by simp
  with assms(3) j flip have "running b ds origin ?j (e + ds ! ?j)
      (g1\<lparr>pg_isOpen := \<not> pg_isOpen g1, pg_isInGuardBand := gb\<rparr>)"
    by (simp add: running_def g1_def)
  with s p show ?thesis by (simp add: handleChangeTimer_def g1_def)
qed

text \<open>All changes up to and including time \<open>t\<close>; each one moves time on, so the fuel can be bounded.\<close>

fun gate_until :: "nat \<Rightarrow> (clocktime \<Rightarrow> gate_packet option) \<Rightarrow> clocktime \<Rightarrow> gate \<Rightarrow> gate option" where
  "gate_until 0 offered t g = None"
| "gate_until (Suc n) offered t g =
     (case pg_changeTimer g of
        None \<Rightarrow> Some g
      | Some e \<Rightarrow> if e \<le> t then do { g \<leftarrow> handleChangeTimer e (offered e) g; gate_until n offered t g }
                 else Some g)"

lemma gate_until_running:
  assumes "\<forall>d \<in> set ds. 0 < d" "even (length ds)" "running b ds origin i e g"
    and "e - ds ! i \<le> t" "nat (t - e + 1) < n"
  shows "\<exists>h j e'. gate_until n offered t g = Some h \<and> running b ds origin j e' h \<and> e' - ds ! j \<le> t \<and> t < e' \<and>
    pg_flowTime h = pg_flowTime g \<and> pg_enableImplicitGuardBand h = pg_enableImplicitGuardBand g"
  using assms(3-5)
proof (induction n arbitrary: g i e)
  case 0
  then show ?case by simp
next
  case (Suc n)
  have timer: "pg_changeTimer g = Some e" using Suc.prems(1) by (simp add: running_def)
  show ?case
  proof (cases "e \<le> t")
    case False
    with Suc.prems timer show ?thesis by (intro exI[of _ g] exI[of _ i] exI[of _ e]) simp
  next
    case True
    let ?j = "(i + 1) mod length ds"
    obtain h where h: "handleChangeTimer e (offered e) g = Some h" "running b ds origin ?j (e + ds ! ?j) h"
      "pg_flowTime h = pg_flowTime g" "pg_enableImplicitGuardBand h = pg_enableImplicitGuardBand g"
      using running_step[OF assms(1,2) Suc.prems(1)] by blast
    have "0 < ds ! ?j" using h(2) assms(1) by (simp add: running_def)
    then have "nat (t - (e + ds ! ?j) + 1) < n" using Suc.prems(3) True by linarith
    with Suc.IH[OF h(2)] True h timer show ?thesis by simp
  qed
qed

lemma initializeGating_running:
  assumes "\<forall>d \<in> set ds. 0 < d" "ds \<noteq> []" "pg_durations g = ds" "pg_totalDuration g = sum_list ds"
    and "0 \<le> pg_initialOffset g"
  shows "\<exists>h i e. initializeGating now g = Some h \<and> running (pg_initiallyOpen g) ds (now - pg_initialOffset g) i e h \<and>
    e - ds ! i \<le> now \<and> now < e \<and>
    pg_flowTime h = pg_flowTime g \<and> pg_enableImplicitGuardBand h = pg_enableImplicitGuardBand g"
proof -
  let ?T = "sum_list ds" and ?o = "pg_initialOffset g"
  have "0 < ds ! 0" "0 < length ds" using assms(1,2) by simp_all
  then have T: "0 < ?T" using phase_start_bound(2)[OF assms(1), of 0] by simp
  then have o: "raw_rem ?o ?T = ?o mod ?T" using assms(5)
    by (cases "?o = 0") (auto simp: raw_rem_def)
  have m: "0 \<le> ?o mod ?T" "?o mod ?T < ?T" using T by simp_all
  obtain off b' j where sk: "skip_offset ds (?o mod ?T, pg_initiallyOpen g, 0) = (off, b', j)"
    by (metis prod_cases3)
  have r: "j < length ds" "phase_start ds j + off = ?o mod ?T" "0 \<le> off" "off < ds ! j"
    "(if even j then b' else \<not> b') = pg_initiallyOpen g"
    using skip_offset_result[OF assms(1) _ m(1) _ sk] m(2) assms(2) by auto
  let ?g = "g\<lparr>pg_index := j, pg_isOpen := b', pg_offset := off, pg_changeTimer := None\<rparr>"
  have init: "initializeGating now g = scheduleChangeTimer now ?g"
    using assms(2-4) T o sk by (simp add: initializeGating_def)
  obtain h where h: "scheduleChangeTimer now ?g = Some h" "pg_durations h = ds" "pg_isOpen h = b'"
    "pg_index h = (j + 1) mod length ds" "pg_offset h = 0" "pg_changeTimer h = Some (now + ds ! j - off)"
    "pg_flowTime h = pg_flowTime g" "pg_enableImplicitGuardBand h = pg_enableImplicitGuardBand g"
    using r assms(3) by (simp add: scheduleChangeTimer_def Let_def)
  have "now + ds ! j - off = now - ?o + (?o div ?T) * ?T + phase_start ds j + ds ! j"
    using r(2) div_mult_mod_eq[of ?o ?T] by linarith
  with r h have "running (pg_initiallyOpen g) ds (now - ?o) j (now + ds ! j - off) h"
    by (auto simp: running_def split: if_splits)
  with init h r show ?thesis by (intro exI[of _ h] exI[of _ j] exI[of _ "now + ds ! j - off"]) auto
qed

section \<open>Properties\<close>

lemma readDurationsPar_Some:
  "readDurationsPar ds g = Some h \<Longrightarrow> (\<forall>d \<in> set ds. 0 < d) \<and> even (length ds) \<and>
     h = g\<lparr>pg_durations := ds, pg_totalDuration := sum_list ds\<rparr>"
  by (auto simp: readDurationsPar_def mod_eq_0_iff_dvd split: if_splits)

lemma gate_at_time:
  assumes "readDurationsPar ds g0 = Some g" "ds \<noteq> []" "0 \<le> pg_initialOffset g0"
    and "initializeGating T0 g = Some g1" "T0 \<le> t" "nat (t - T0) + 1 < n"
  shows "\<exists>h j e. gate_until n offered t g1 = Some h \<and>
    running (pg_initiallyOpen g0) ds (T0 - pg_initialOffset g0) j e h \<and> e - ds ! j \<le> t \<and> t < e \<and>
    pg_flowTime h = pg_flowTime g0 \<and> pg_enableImplicitGuardBand h = pg_enableImplicitGuardBand g0"
proof -
  have r: "\<forall>d \<in> set ds. 0 < d" "even (length ds)"
    and g: "g = g0\<lparr>pg_durations := ds, pg_totalDuration := sum_list ds\<rparr>"
    using readDurationsPar_Some[OF assms(1)] by simp_all
  obtain i e where i: "running (pg_initiallyOpen g0) ds (T0 - pg_initialOffset g0) i e g1"
    "e - ds ! i \<le> T0" "T0 < e" "pg_flowTime g1 = pg_flowTime g0"
    "pg_enableImplicitGuardBand g1 = pg_enableImplicitGuardBand g0"
    using initializeGating_running[OF r(1) assms(2), of g T0] assms(3,4) g by auto
  have "e - ds ! i \<le> t" "nat (t - e + 1) < n" using i(2,3) assms(5,6) by linarith+
  from gate_until_running[OF r i(1) this] i(4,5) show ?thesis by fastforce
qed

lemma periodic_gate_at_time:
  assumes "readDurationsPar ds g0 = Some g" "ds \<noteq> []" "0 \<le> pg_initialOffset g0"
    and "initializeGating T0 g = Some g1" "T0 \<le> t" "nat (t - T0) + 1 < n"
  shows "\<exists>h e. gate_until n offered t g1 = Some h \<and>
    pg_isOpen h = cyclic_open (pg_initiallyOpen g0) ds (pg_initialOffset g0 + (t - T0)) \<and>
    pg_changeTimer h = Some e \<and> t < e"
proof -
  obtain h j e where h: "gate_until n offered t g1 = Some h"
    "running (pg_initiallyOpen g0) ds (T0 - pg_initialOffset g0) j e h" "e - ds ! j \<le> t" "t < e"
    using gate_at_time[OF assms] by blast
  have "t - (T0 - pg_initialOffset g0) = pg_initialOffset g0 + (t - T0)" by simp
  with running_state[OF _ h(2-4)] readDurationsPar_Some[OF assms(1)] h show ?thesis
    by (auto simp: running_def)
qed

text \<open>
  C1. Refinement of the schedule: for every list of positive durations of even length and every
  non-negative offset, the gate initialised at time \<open>T0\<close> has, at each later time \<open>t\<close> and after all
  change timers up to \<open>t\<close> (whatever packets its provider offers meanwhile), exactly the state the
  cyclic schedule has at position \<open>offset + (t - T0)\<close>; no assertion fails on the way, and the next
  change is still ahead.
\<close>

theorem periodic_gate_follows_schedule:
  assumes "readDurationsPar ds g0 = Some g" "ds \<noteq> []" "0 \<le> pg_initialOffset g0"
    and "initializeGating T0 g = Some g1" "T0 \<le> t" "nat (t - T0) + 1 < n"
  shows "\<exists>h e. gate_until n offered t g1 = Some h \<and>
    pg_isOpen h = cyclic_open (pg_initiallyOpen g0) ds (pg_initialOffset g0 + (t - T0)) \<and>
    pg_changeTimer h = Some e \<and> t < e"
  by (rule periodic_gate_at_time[OF assms])

text \<open>A gate closed first, 3 and 5 ticks per phase, entered at position 4 of its schedule.\<close>

definition example_gate :: gate where
  "example_gate = \<lparr>pg_isOpen = False, pg_index = 0, pg_initiallyOpen = False, pg_initialOffset = 4,
     pg_offset = 0, pg_totalDuration = 8, pg_durations = [3, 5], pg_scheduleForAbsoluteTime = False,
     pg_enableImplicitGuardBand = True, pg_openSchedulingPriority = 0, pg_closeSchedulingPriority = 0,
     pg_timerPriority = 0, pg_flowTime = Some int, pg_isInGuardBand = False, pg_changeTimer = None\<rparr>"

definition example_started :: gate where
  "example_started = example_gate\<lparr>pg_index := 0, pg_isOpen := True, pg_changeTimer := Some 14\<rparr>"

lemma example_start:
  "readDurationsPar [3, 5] example_gate = Some example_gate"
  "initializeGating 10 example_gate = Some example_started"
  by (simp_all add: readDurationsPar_def initializeGating_def raw_rem_def example_gate_def example_started_def
      skip_offset.simps scheduleChangeTimer_def Let_def)

theorem periodic_gate_follows_schedule_witness:
  "\<exists>h e. gate_until 20 (\<lambda>_. None) 16 example_started = Some h \<and> \<not> pg_isOpen h \<and> pg_changeTimer h = Some e \<and> 16 < e"
  using periodic_gate_follows_schedule[OF example_start(1) _ _ example_start(2), of 16 20 "\<lambda>_. None"]
  by (simp add: example_gate_def cyclic_open_def)

text \<open>
  The implicit guard band keeps transmissions inside the open window: if at time \<open>t\<close> the gate
  lets a packet through that needs \<open>flow p\<close> time, then the schedule keeps the gate open from \<open>t\<close>
  until the packet has flowed through.
\<close>

theorem guard_band_fits_window:
  assumes "readDurationsPar ds g0 = Some g" "ds \<noteq> []" "0 \<le> pg_initialOffset g0"
    and "initializeGating T0 g = Some g1" "T0 \<le> t" "nat (t - T0) + 1 < n"
    and "pg_enableImplicitGuardBand g0" "pg_flowTime g0 = Some flow"
    and "gate_until n offered t g1 = Some h" "canPacketFlowThrough t (Some p) h = Some True"
    and "t \<le> u" "u < t + flow p"
  shows "cyclic_open (pg_initiallyOpen g0) ds (pg_initialOffset g0 + (u - T0))"
proof -
  obtain j e where h: "running (pg_initiallyOpen g0) ds (T0 - pg_initialOffset g0) j e h"
    "e - ds ! j \<le> t" "t < e" "pg_flowTime h = pg_flowTime g0"
    "pg_enableImplicitGuardBand h = pg_enableImplicitGuardBand g0"
    using gate_at_time[OF assms(1-6), of offered] assms(9) by auto
  have f: "pg_isOpen h" "t + flow p \<le> e"
    using assms(7,8,10) h by (auto simp: canPacketFlowThrough_def running_def split: if_splits)
  have "pg_isOpen h = cyclic_open (pg_initiallyOpen g0) ds (u - (T0 - pg_initialOffset g0))"
    by (rule running_state[OF _ h(1)])
      (use readDurationsPar_Some[OF assms(1)] h assms(11,12) f in auto)
  moreover have "u - (T0 - pg_initialOffset g0) = pg_initialOffset g0 + (u - T0)" by simp
  ultimately show ?thesis using f by simp
qed

theorem guard_band_fits_window_witness:
  "cyclic_open False [3, 5] (4 + (13 - 10))"
proof -
  have "gate_until (Suc (Suc (Suc 0))) (\<lambda>_. None) 11 example_started = Some example_started"
    by (simp add: example_started_def)
  then show ?thesis
    using guard_band_fits_window[OF example_start(1) _ _ example_start(2), of 11 "Suc (Suc (Suc 0))" int "\<lambda>_. None" example_started 3 13]
    by (simp add: example_gate_def example_started_def canPacketFlowThrough_def)
qed

end
