(* ===== verification/Gate_Control_List.thy ===== *)
theory Gate_Control_List
  imports Periodic_Gate
begin

text \<open>
  \<open>GateControlList\<close> (src/inet/src/inet/queueing/gate/GateControlList.cc): a list of entries, each a
  duration and one state per gate, compiled into the initial state, the offset and the list of
  phase durations of every \<open>PeriodicGate\<close>. The compiled gates follow the control list.

  Durations are raw times (the source sums \<open>double\<close> seconds). \<open>None\<close> is \<open>cRuntimeError\<close>.
\<close>

section \<open>Parsing\<close>

definition digit :: "char \<Rightarrow> int" where
  "digit c = of_char c - of_char (CHR ''0'')"

definition set_gate :: "nat \<Rightarrow> char \<times> char \<Rightarrow> bool list \<Rightarrow> bool list option" where
  "set_gate numGates m result =
     (let ch = fst m; index = digit (snd m) in
      if index < 0 \<or> nat index \<ge> numGates then None
      else if ch = CHR ''1'' then Some (result[nat index := True])
      else if ch = CHR ''0'' then Some (result[nat index := False])
      else None)"

definition parseGclLine :: "nat \<Rightarrow> string \<Rightarrow> string \<Rightarrow> bool list option" where
  "parseGclLine numGates mapping gateStates =
     do {
       ensure (length gateStates = numGates);
       fold_opt (set_gate numGates) (zip gateStates mapping) (replicate numGates False)
     }"

text \<open>
  The compilation of one gate: finished phases, current state, length of the current phase. The
  inner loop over the gates treats each of them independently.
\<close>

type_synonym compile_state = "int list \<times> bool \<times> int"

fun compile_entry :: "int \<times> bool \<Rightarrow> compile_state \<Rightarrow> compile_state" where
  "compile_entry (duration, entry) (ds, cur, len) =
     (if entry \<noteq> cur then (ds @ [len], \<not> cur, 0 + duration) else (ds, cur, len + duration))"

definition compile_end :: "compile_state \<Rightarrow> int list \<times> int" where
  "compile_end st =
     (case st of (ds, cur, len) \<Rightarrow>
        if length ds mod 2 \<noteq> 0 then (ds @ [len], 0)
        else if length ds \<noteq> 0 then (ds[0 := ds ! 0 + len], len)
        else (ds, 0))"

definition compile_gate :: "bool \<Rightarrow> (int \<times> bool) list \<Rightarrow> int list \<times> int" where
  "compile_gate init entries = compile_end (fold compile_entry entries ([], init, 0))"

text \<open>The result: initial states, offsets and durations, by gate.\<close>

definition parseGcl :: "nat \<Rightarrow> string \<Rightarrow> (int \<times> string) list \<Rightarrow> (bool \<times> int \<times> int list) list option" where
  "parseGcl numGates mapping gcl =
     do {
       ensure (length mapping = numGates);
       ensure (gcl \<noteq> []);
       initiallyOpens \<leftarrow> parseGclLine numGates mapping (snd (hd gcl));
       entries \<leftarrow> those (map (\<lambda>(d, s). map_option (Pair d) (parseGclLine numGates mapping s)) gcl);
       Some (map (\<lambda>j.
         let (ds, off) = compile_gate (initiallyOpens ! j) (map (\<lambda>(d, e). (d, e ! j)) entries)
         in (initiallyOpens ! j, off, ds)) [0..<numGates])
     }"

text \<open>\<open>initialize\<close> writes the three parameters of each gate.\<close>

definition configure_gate :: "bool \<times> int \<times> int list \<Rightarrow> gate \<Rightarrow> gate option" where
  "configure_gate c g =
     (case c of (b, off, ds) \<Rightarrow>
        readDurationsPar ds (g\<lparr>pg_initiallyOpen := b, pg_initialOffset := off\<rparr>))"

section \<open>The control list as a schedule\<close>

text \<open>The state of one gate at a time of the cycle: that of the entry in force.\<close>

fun entry_at :: "(int \<times> bool) list \<Rightarrow> int \<Rightarrow> bool" where
  "entry_at [] t = False"
| "entry_at ((d, b) # es) t = (if t < d then b else entry_at es (t - d))"

definition cycle :: "(int \<times> bool) list \<Rightarrow> int" where
  "cycle es = sum_list (map fst es)"


lemma cycle_simps [simp]:
  "cycle [] = 0" "cycle (e # es) = fst e + cycle es" "cycle (es @ fs) = cycle es + cycle fs"
  by (simp_all add: cycle_def)

lemma cycle_nonneg: "\<forall>e \<in> set es. 0 < fst e \<Longrightarrow> 0 \<le> cycle es"
  by (induction es) auto

lemma entry_at_append:
  "\<forall>e \<in> set es. 0 < fst e \<Longrightarrow> 0 \<le> t \<Longrightarrow>
   entry_at (es @ fs) t = (if t < cycle es then entry_at es t else entry_at fs (t - cycle es))"
proof (induction es arbitrary: t)
  case Nil
  then show ?case by simp
next
  case (Cons e es)
  obtain d b where e: "e = (d, b)" by (cases e)
  have "0 \<le> cycle es" using Cons.prems(1) by (intro cycle_nonneg) simp
  with Cons.IH[of "t - d"] Cons.prems e show ?case by (auto simp: algebra_simps)
qed

lemma phase_open_append:
  "\<forall>d \<in> set xs. 0 < d \<Longrightarrow> 0 \<le> t \<Longrightarrow>
   phase_open b (xs @ ys) t =
     (if t < sum_list xs then phase_open b xs t
      else phase_open (if even (length xs) then b else \<not> b) ys (t - sum_list xs))"
proof (induction xs arbitrary: b t)
  case Nil
  then show ?case by simp
next
  case (Cons d xs)
  have "0 \<le> sum_list xs" using Cons.prems(1) by (intro sum_list_nonneg_int) simp
  with Cons.IH[of "t - d" "\<not> b"] Cons.prems show ?case by (auto simp: algebra_simps)
qed

section \<open>The compilation loop\<close>

definition compiled :: "bool \<Rightarrow> (int \<times> bool) list \<Rightarrow> compile_state \<Rightarrow> bool" where
  "compiled init es st \<longleftrightarrow> (case st of (ds, cur, len) \<Rightarrow>
     (\<forall>d \<in> set ds. 0 < d) \<and> (if es = [] then ds = [] \<and> len = 0 else 0 < len) \<and>
     cur = (if even (length ds) then init else \<not> init) \<and> sum_list ds + len = cycle es \<and>
     (\<forall>t. 0 \<le> t \<longrightarrow> t < cycle es \<longrightarrow> phase_open init (ds @ [len]) t = entry_at es t))"

lemma phase_open_last:
  assumes "\<forall>d \<in> set ds. 0 < d" "0 \<le> t" "sum_list ds \<le> t" "t < sum_list ds + len"
  shows "phase_open b (ds @ [len]) t = (if even (length ds) then b else \<not> b)"
  using assms by (simp add: phase_open_append)

lemma phase_open_first:
  assumes "\<forall>d \<in> set ds. 0 < d" "0 \<le> t" "t < sum_list ds"
  shows "phase_open b (ds @ xs) t = phase_open b ds t"
  using assms by (simp add: phase_open_append)

lemma compiled_step:
  assumes c: "compiled init es (ds, cur, len)" and pos: "\<forall>e \<in> set es. 0 < fst e" "0 < d"
    and first: "es = [] \<Longrightarrow> b = init"
  shows "compiled init (es @ [(d, b)]) (compile_entry (d, b) (ds, cur, len))"
proof -
  from c have ds: "\<forall>d \<in> set ds. 0 < d" and len: "if es = [] then ds = [] \<and> len = 0 else 0 < len"
    and cur: "cur = (if even (length ds) then init else \<not> init)" and sum: "sum_list ds + len = cycle es"
    and ph: "\<And>t. 0 \<le> t \<Longrightarrow> t < cycle es \<Longrightarrow> phase_open init (ds @ [len]) t = entry_at es t"
    by (simp_all add: compiled_def)
  have nonneg: "0 \<le> cycle es" "0 \<le> sum_list ds" "0 \<le> len"
    using cycle_nonneg[OF pos(1)] sum_list_nonneg_int[OF ds] len by (auto split: if_splits)
  have new: "entry_at (es @ [(d, b)]) t = (if t < cycle es then entry_at es t else b)"
    if "0 \<le> t" "t < cycle es + d" for t
    using that by (simp add: entry_at_append[OF pos(1)])
  show ?thesis
  proof (cases "b = cur")
    case True
    have "phase_open init (ds @ [len + d]) t = entry_at (es @ [(d, b)]) t"
      if t: "0 \<le> t" "t < cycle es + d" for t
    proof (cases "t < sum_list ds")
      case True
      then show ?thesis
        using phase_open_first[OF ds t(1) True] new[OF t] ph[OF t(1)] sum nonneg by simp
    next
      case False
      then have "phase_open init (ds @ [len + d]) t = cur"
        using phase_open_last[OF ds t(1), of "len + d"] t sum cur by simp
      moreover have "entry_at es t = cur" if "t < cycle es"
        using ph[OF t(1) that] phase_open_last[OF ds t(1), of len] False that sum cur by simp
      ultimately show ?thesis using new[OF t] True by simp
    qed
    with True ds cur sum len pos(2) nonneg show ?thesis by (simp add: compiled_def)
  next
    case False
    then have ne: "es \<noteq> []" using first cur len by auto
    then have ds': "\<forall>x \<in> set (ds @ [len]). 0 < x" using ds len by auto
    have "phase_open init ((ds @ [len]) @ [d]) t = entry_at (es @ [(d, b)]) t"
      if t: "0 \<le> t" "t < cycle es + d" for t
    proof (cases "t < cycle es")
      case True
      then show ?thesis using phase_open_first[OF ds' t(1), of init "[d]"] new[OF t] ph[OF t(1)] sum by simp
    next
      case f: False
      then have "phase_open init ((ds @ [len]) @ [d]) t = (\<not> cur)"
        using phase_open_last[OF ds' t(1), of d init] t sum cur by simp
      then show ?thesis using new[OF t] f False by auto
    qed
    with False ds' cur sum pos(2) show ?thesis by (simp add: compiled_def)
  qed
qed

lemma compiled_fold:
  assumes "\<forall>e \<in> set es. 0 < fst e" "es \<noteq> []" "snd (hd es) = init"
  shows "compiled init es (fold compile_entry es ([], init, 0))"
  using assms
proof (induction es rule: rev_induct)
  case Nil
  then show ?case by simp
next
  case (snoc e es)
  obtain d b where e: "e = (d, b)" by (cases e)
  obtain ds cur len where st: "fold compile_entry es ([], init, 0) = (ds, cur, len)" by (metis prod_cases3)
  have "compiled init es (ds, cur, len)"
  proof (cases "es = []")
    case True
    with st show ?thesis by (simp add: compiled_def)
  next
    case False
    with snoc st show ?thesis by simp
  qed
  then have "compiled init (es @ [(d, b)]) (compile_entry (d, b) (ds, cur, len))"
    by (rule compiled_step) (use snoc.prems e in auto)
  with e st show ?case by simp
qed

text \<open>The compiled phases repeat the cycle of the control list, shifted by the offset.\<close>

lemma compile_gate_correct:
  assumes pos: "\<forall>e \<in> set es. 0 < fst e" and es: "es \<noteq> []" "snd (hd es) = init"
    and c: "compile_gate init es = (ds, off)"
  shows "(\<forall>d \<in> set ds. 0 < d) \<and> even (length ds) \<and> 0 \<le> off \<and>
    (\<forall>t. cyclic_open init ds (off + t) = entry_at es (t mod cycle es))"
proof -
  obtain xs cur len where st: "fold compile_entry es ([], init, 0) = (xs, cur, len)" by (metis prod_cases3)
  have "compiled init es (xs, cur, len)" using compiled_fold[OF pos es] st by simp
  then have xs: "\<forall>d \<in> set xs. 0 < d" and len: "0 < len" and sum: "sum_list xs + len = cycle es"
    and ph: "\<And>t. 0 \<le> t \<Longrightarrow> t < cycle es \<Longrightarrow> phase_open init (xs @ [len]) t = entry_at es t"
    using es(1) by (simp_all add: compiled_def)
  have r: "(ds, off) = compile_end (xs, cur, len)" using c st by (simp add: compile_gate_def)
  have cyc: "0 < cycle es" using sum len sum_list_nonneg_int[OF xs] by simp
  have m: "0 \<le> t mod cycle es" "t mod cycle es < cycle es" for t using cyc by simp_all
  consider (odd) "odd (length xs)" | (none) "xs = []" | (even) "even (length xs)" "xs \<noteq> []" by auto
  then show ?thesis
  proof cases
    case odd
    then have d: "ds = xs @ [len]" "off = 0" using r by (simp_all add: compile_end_def odd_iff_mod_2_eq_one)
    have "cyclic_open init ds t = entry_at es (t mod cycle es)" for t
      using ph[OF m] d sum by (simp add: cyclic_open_def)
    with d odd xs len show ?thesis by auto
  next
    case none
    then have d: "ds = []" "off = 0" using r by (simp_all add: compile_end_def)
    have "entry_at es (t mod cycle es) = init" for t
      using ph[OF m, of t] m(2)[of t] none sum by simp
    with d show ?thesis by (simp add: cyclic_open_def)
  next
    case even
    obtain x ys where x: "xs = x # ys" using even(2) by (cases xs) auto
    then have d: "ds = (x + len) # ys" "off = len" using r even by (auto simp: compile_end_def)
    have tot: "sum_list ds = cycle es" using d x sum by simp
    have x0: "0 < x" "\<forall>d \<in> set ys. 0 < d" using xs x by simp_all
    have "cyclic_open init ds (len + t) = entry_at es (t mod cycle es)" for t
    proof -
      let ?u = "t mod cycle es"
      have pos_mod: "(len + t) mod cycle es = (len + ?u) mod cycle es" by (simp add: mod_add_right_eq)
      show ?thesis
      proof (cases "len + ?u < cycle es")
        case True
        then have u: "?u < sum_list xs" using sum by simp
        have "(len + t) mod cycle es = len + ?u" using pos_mod True m(1)[of t] len by simp
        moreover have "phase_open init ds (len + ?u) = phase_open init xs ?u" using d x by simp
        moreover have "phase_open init xs ?u = entry_at es ?u"
          using phase_open_first[OF xs m(1) u, of init "[len]"] ph[OF m(1) m(2)] by simp
        ultimately show ?thesis using d tot by (simp add: cyclic_open_def)
      next
        case False
        have "len + ?u - cycle es < len" "0 \<le> len + ?u - cycle es" using m(2)[of t] False by linarith+
        moreover have "len + ?u - cycle es < cycle es"
          using calculation sum sum_list_nonneg_int[OF xs] by linarith
        ultimately have "(len + t) mod cycle es = len + ?u - cycle es"
          using pos_mod by (metis minus_mod_self2 mod_pos_pos_trivial)
        moreover have "phase_open init ds (len + ?u - cycle es) = init"
          using d x0 \<open>len + ?u - cycle es < len\<close> by simp
        moreover have "phase_open init (xs @ [len]) ?u = init"
          using phase_open_last[OF xs m(1), of t len init] False m(2)[of t] sum even(1) by simp
        ultimately show ?thesis using d tot ph[OF m(1) m(2)] by (simp add: cyclic_open_def)
      qed
    qed
    with d x0 even(1) x len show ?thesis by auto
  qed
qed

lemma those_map_the: "those (map f xs) = Some ys \<Longrightarrow> ys = map (\<lambda>x. the (f x)) xs \<and> (\<forall>x \<in> set xs. f x \<noteq> None)"
  by (induction xs arbitrary: ys) (auto split: option.splits)

text \<open>The schedule of gate \<open>j\<close> as written in the control list.\<close>

definition gcl_entries :: "nat \<Rightarrow> string \<Rightarrow> (int \<times> string) list \<Rightarrow> nat \<Rightarrow> (int \<times> bool) list" where
  "gcl_entries numGates mapping gcl j =
     map (\<lambda>(d, s). (d, the (parseGclLine numGates mapping s) ! j)) gcl"

lemma parseGcl_gate:
  assumes "parseGcl n mapping gcl = Some cfg" "j < n"
  shows "\<exists>b off ds. cfg ! j = (b, off, ds) \<and> gcl \<noteq> [] \<and> b = snd (hd (gcl_entries n mapping gcl j)) \<and>
    compile_gate b (gcl_entries n mapping gcl j) = (ds, off)"
proof -
  obtain inits entries where p: "gcl \<noteq> []" "parseGclLine n mapping (snd (hd gcl)) = Some inits"
    "those (map (\<lambda>(d, s). map_option (Pair d) (parseGclLine n mapping s)) gcl) = Some entries"
    "cfg = map (\<lambda>j. let (ds, off) = compile_gate (inits ! j) (map (\<lambda>(d, e). (d, e ! j)) entries)
         in (inits ! j, off, ds)) [0..<n]"
    using assms(1) by (auto simp: parseGcl_def split: bind_splits)
  have "entries = map (\<lambda>x. the (case x of (d, s) \<Rightarrow> map_option (Pair d) (parseGclLine n mapping s))) gcl"
    and some: "\<forall>x \<in> set gcl. (case x of (d, s) \<Rightarrow> map_option (Pair d) (parseGclLine n mapping s)) \<noteq> None"
    using those_map_the[OF p(3)] by blast+
  then have "map (\<lambda>(d, e). (d, e ! j)) entries = gcl_entries n mapping gcl j"
    by (auto simp: gcl_entries_def)
  moreover have "inits ! j = snd (hd (gcl_entries n mapping gcl j))"
    using p(1,2) by (cases gcl) (auto simp: gcl_entries_def split: prod.splits)
  moreover obtain ds off where "compile_gate (inits ! j) (gcl_entries n mapping gcl j) = (ds, off)" by fastforce
  ultimately show ?thesis using p(1,4) assms(2) by (auto simp: Let_def)
qed

text \<open>A gate configured with positive durations follows the cyclic schedule.\<close>

lemma configured_gate_at:
  assumes "\<forall>d \<in> set ds. 0 < d" "even (length ds)" "0 \<le> off" "T0 \<le> t" "nat (t - T0) + 1 < fuel"
  shows "\<exists>g g1 h. configure_gate (b, off, ds) g0 = Some g \<and> initializeGating T0 g = Some g1 \<and>
    gate_until fuel offered t g1 = Some h \<and> pg_isOpen h = cyclic_open b ds (off + (t - T0))"
proof -
  let ?base = "g0\<lparr>pg_initiallyOpen := b, pg_initialOffset := off\<rparr>"
  let ?g = "?base\<lparr>pg_durations := ds, pg_totalDuration := sum_list ds\<rparr>"
  have read: "readDurationsPar ds ?base = Some ?g"
    using assms(1,2) by (simp add: readDurationsPar_def even_iff_mod_2_eq_zero)
  have cfg: "configure_gate (b, off, ds) g0 = Some ?g" unfolding configure_gate_def prod.case by (rule read)
  show ?thesis
  proof (cases "ds = []")
    case False
    obtain g1 where g1: "initializeGating T0 ?g = Some g1"
      using initializeGating_running[OF assms(1) False, of ?g T0] assms(3) by auto
    from periodic_gate_at_time[OF read False _ g1 assms(4,5), of offered] assms(3)
    obtain h where "gate_until fuel offered t g1 = Some h" "pg_isOpen h = cyclic_open b ds (off + (t - T0))"
      by auto
    with cfg g1 show ?thesis by auto
  next
    case True
    let ?g1 = "?g\<lparr>pg_index := 0, pg_isOpen := b, pg_offset := 0, pg_changeTimer := None\<rparr>"
    have g1: "initializeGating T0 ?g = Some ?g1"
      using True by (simp add: initializeGating_def skip_offset.simps)
    have "gate_until fuel offered t ?g1 = Some ?g1" using assms(5) by (cases fuel) simp_all
    with cfg g1 True show ?thesis by (auto simp: cyclic_open_def)
  qed
qed

section \<open>Properties\<close>

text \<open>
  C2. Refinement of the gate control list: when the list is well-formed and its durations are
  positive, every gate configured from it is accepted, initialises without error, and at every
  later time (after all its change timers so far) is open exactly when the entry of the control
  list in force, the list being repeated cyclically from the start, says so.
\<close>

theorem gate_control_list_implemented:
  assumes "parseGcl n mapping gcl = Some cfg" "\<forall>e \<in> set gcl. 0 < fst e" "j < n"
    and "T0 \<le> t" "nat (t - T0) + 1 < fuel"
  shows "\<exists>g g1 h. configure_gate (cfg ! j) g0 = Some g \<and> initializeGating T0 g = Some g1 \<and>
    gate_until fuel offered t g1 = Some h \<and>
    pg_isOpen h = entry_at (gcl_entries n mapping gcl j) ((t - T0) mod sum_list (map fst gcl))"
proof -
  let ?es = "gcl_entries n mapping gcl j"
  obtain b off ds where c: "cfg ! j = (b, off, ds)" "gcl \<noteq> []" "b = snd (hd ?es)" "compile_gate b ?es = (ds, off)"
    using parseGcl_gate[OF assms(1,3)] by blast
  have es: "\<forall>e \<in> set ?es. 0 < fst e" "?es \<noteq> []" "cycle ?es = sum_list (map fst gcl)"
    using assms(2) c(2) by (auto simp: gcl_entries_def cycle_def comp_def case_prod_unfold)
  have d: "\<forall>d \<in> set ds. 0 < d" "even (length ds)" "0 \<le> off"
    "\<And>t. cyclic_open b ds (off + t) = entry_at ?es (t mod cycle ?es)"
    using compile_gate_correct[OF es(1,2) c(3)[symmetric] c(4)] by blast+
  from configured_gate_at[OF d(1-3) assms(4,5), of b g0 offered] obtain g g1 h where g: "configure_gate (b, off, ds) g0 = Some g"
    "initializeGating T0 g = Some g1" "gate_until fuel offered t g1 = Some h" "pg_isOpen h = cyclic_open b ds (off + (t - T0))"
    by blast
  from g(4) d(4)[of "t - T0"] es(3) have "pg_isOpen h = entry_at ?es ((t - T0) mod sum_list (map fst gcl))" by simp
  with g(1-3) show ?thesis unfolding c(1) by blast
qed

theorem gate_control_list_implemented_witness:
  "\<exists>cfg g g1 h. parseGcl 2 ''01'' [(3, ''10''), (5, ''11''), (2, ''10'')] = Some cfg \<and>
     configure_gate (cfg ! 1) example_gate = Some g \<and> initializeGating 0 g = Some g1 \<and>
     gate_until 40 (\<lambda>_. None) 14 g1 = Some h \<and> pg_isOpen h"
proof -
  have line: "parseGclLine 2 ''01'' ''10'' = Some [True, False]" "parseGclLine 2 ''01'' ''11'' = Some [True, True]"
    by (simp_all add: parseGclLine_def set_gate_def digit_def Let_def numeral_2_eq_2)
  obtain cfg where cfg: "parseGcl 2 ''01'' [(3, ''10''), (5, ''11''), (2, ''10'')] = Some cfg"
    by (simp add: parseGcl_def line)
  have "entry_at (gcl_entries 2 ''01'' [(3, ''10''), (5, ''11''), (2, ''10'')] 1) (14 mod 10)"
    by (simp add: gcl_entries_def line)
  with cfg gate_control_list_implemented[OF cfg, of 1 0 14 40 example_gate "\<lambda>_. None"] show ?thesis by auto
qed

end
