(* ===== verification/Gate_Scheduling.thy ===== *)
theory Gate_Scheduling
  imports Gate_Control_List "HOL-Library.Multiset"
begin

text \<open>
  The eager gate scheduler (src/inet/src/inet/linklayer/configurator/gatescheduling/common/EagerGateScheduleConfigurator.cc)
  and the configuration of the gates from a schedule (base/GateScheduleConfiguratorBase.cc).

  The topology of the network is read by the simulator: the interface of a node towards a neighbour, data rates and
  delays are the functions of a \<open>sched_net\<close>; \<open>conv\<close> converts a \<open>double\<close> number of seconds to a time. Slots are kept per
  interface in the order of their reservation. \<open>None\<close> is a thrown error.
\<close>

section \<open>Input\<close>

type_synonym node = string
type_synonym iface = nat

record sched_net =
  sn_linkOut :: "node \<Rightarrow> node \<Rightarrow> iface"
  sn_datarate :: "iface \<Rightarrow> real"
  sn_delay :: "iface \<Rightarrow> simtime"

record eager_flow =
  fl_gateIndex :: int
  fl_source :: node
  fl_destination :: node
  fl_packetLength :: int
  fl_packetInterval :: simtime
  fl_maxLatency :: simtime
  fl_pathFragments :: "node list list"

record eslot =
  gateOpenIndex :: int
  gateOpenTime :: simtime
  gateCloseTime :: simtime

type_synonym iface_schedules = "iface \<Rightarrow> eslot list"

section \<open>Reservation of a slot\<close>

text \<open>
  The loop over the slots of an interface: a collision moves the gate behind the slot and starts again; the loop
  counter is set to 0 and then incremented.
\<close>

function find_slot :: "simtime \<Rightarrow> simtime \<Rightarrow> eslot list \<Rightarrow> nat \<Rightarrow> simtime \<Rightarrow> simtime" where
  "find_slot interFrameGap gateOpenDuration slots i gateOpenTm =
     (if i < length slots
      then if gateCloseTime (slots ! i) + interFrameGap \<le> gateOpenTm \<or>
             gateOpenTm + gateOpenDuration + interFrameGap \<le> gateOpenTime (slots ! i)
           then find_slot interFrameGap gateOpenDuration slots (i + 1) gateOpenTm
           else find_slot interFrameGap gateOpenDuration slots 1 (gateCloseTime (slots ! i) + interFrameGap)
      else gateOpenTm)"
  by pat_completeness auto
termination
proof (relation "measures [\<lambda>(gap, d, slots, i, t). card {j. j < length slots \<and> t < gateCloseTime (slots ! j) + gap},
    \<lambda>(gap, d, slots, i, t). length slots - i]", goal_cases)
  case 1
  show ?case by simp
next
  case (2 gap d slots i t)
  then have "length slots - (i + 1) < length slots - i" by simp
  then show ?case by simp
next
  case (3 gap d slots i t)
  let ?A = "\<lambda>t. {j. j < length slots \<and> t < gateCloseTime (slots ! j) + gap}"
  have "i \<in> ?A t" "i \<notin> ?A (gateCloseTime (slots ! i) + gap)" "t \<le> gateCloseTime (slots ! i) + gap" using 3 by simp_all
  then have "?A (gateCloseTime (slots ! i) + gap) \<subset> ?A t" by fastforce
  then have "card (?A (gateCloseTime (slots ! i) + gap)) < card (?A t)" by (intro psubset_card_mono) auto
  then show ?case by simp
qed

declare find_slot.simps [simp del]

text \<open>The slot of a hop: its interface, and when the gate opens and closes.\<close>

definition hop_gap :: "(real \<Rightarrow> int) \<Rightarrow> sched_net \<Rightarrow> iface \<Rightarrow> simtime" where
  "hop_gap conv net ifc = conv (96 / sn_datarate net ifc)"

definition hop_duration :: "(real \<Rightarrow> int) \<Rightarrow> sched_net \<Rightarrow> eager_flow \<Rightarrow> iface \<Rightarrow> simtime" where
  "hop_duration conv net flow ifc = conv (of_int (fl_packetLength flow) / sn_datarate net ifc)"

definition hop_slot ::
  "(real \<Rightarrow> int) \<Rightarrow> sched_net \<Rightarrow> eager_flow \<Rightarrow> iface_schedules \<Rightarrow> node \<Rightarrow> node \<Rightarrow> simtime \<Rightarrow> iface \<times> simtime \<times> simtime" where
  "hop_slot conv net flow sched a b nextGateOpenTime =
     (let ifc = sn_linkOut net a b;
          gateOpenTm = find_slot (hop_gap conv net ifc) (hop_duration conv net flow ifc) (sched ifc) 0 nextGateOpenTime
      in (ifc, gateOpenTm, gateOpenTm + hop_duration conv net flow ifc))"

section \<open>The start offset\<close>

text \<open>
  Along one path fragment: the shift that the first hop with a delay asks for, when the packet arrives, and the nodes that
  were passed. A fragment has at least one node.
\<close>

fun offset_hops ::
  "(real \<Rightarrow> int) \<Rightarrow> sched_net \<Rightarrow> eager_flow \<Rightarrow> iface_schedules \<Rightarrow> node list \<Rightarrow> simtime \<Rightarrow> simtime \<times> simtime \<times> node list" where
  "offset_hops conv net flow sched (a # b # ns) nextGateOpenTime =
     (let (ifc, gateOpenTm, gateCloseTm) = hop_slot conv net flow sched a b nextGateOpenTime;
          gateOpenDelay = gateOpenTm - nextGateOpenTime
      in if gateOpenDelay \<noteq> 0 then (gateOpenDelay, nextGateOpenTime, [a])
         else (let (shift, arrival, path) = offset_hops conv net flow sched (b # ns) (gateCloseTm + sn_delay net ifc)
               in (shift, arrival, a # path)))"
| "offset_hops conv net flow sched ns nextGateOpenTime = (0, nextGateOpenTime, [])"

type_synonym todo = "node \<times> simtime \<times> node list"

definition next_todos :: "eager_flow \<Rightarrow> node list \<Rightarrow> simtime \<Rightarrow> node list \<Rightarrow> todo list" where
  "next_todos flow fragment arrival extendedPath =
     (if last fragment \<noteq> fl_destination flow \<and> last fragment \<notin> set extendedPath
      then [(last fragment, arrival, extendedPath)] else [])"

definition offset_fragment ::
  "(real \<Rightarrow> int) \<Rightarrow> sched_net \<Rightarrow> eager_flow \<Rightarrow> iface_schedules \<Rightarrow> todo \<Rightarrow> node list \<Rightarrow> simtime \<times> todo list" where
  "offset_fragment conv net flow sched td fragment =
     (case td of (nd, time, path) \<Rightarrow>
        if hd fragment = nd
        then (let (shift, arrival, passed) = offset_hops conv net flow sched fragment time
              in (shift, next_todos flow fragment arrival (path @ passed)))
        else (0, []))"

partial_function (option) offset_todos ::
  "(real \<Rightarrow> int) \<Rightarrow> sched_net \<Rightarrow> eager_flow \<Rightarrow> iface_schedules \<Rightarrow> todo list \<Rightarrow> simtime \<Rightarrow> simtime option" where
  [code]: "offset_todos conv net flow sched todos result =
     (case todos of [] \<Rightarrow> Some result
      | td # tds \<Rightarrow>
          let rs = map (offset_fragment conv net flow sched td) (fl_pathFragments flow)
          in offset_todos conv net flow sched (tds @ concat (map snd rs)) (result + sum_list (map fst rs)))"

definition computeStartOffsetForPathFragments ::
  "(real \<Rightarrow> int) \<Rightarrow> sched_net \<Rightarrow> eager_flow \<Rightarrow> iface_schedules \<Rightarrow> node \<Rightarrow> simtime \<Rightarrow> simtime option" where
  "computeStartOffsetForPathFragments conv net flow sched nd startTime =
     offset_todos conv net flow sched [(nd, startTime, [])] 0"

partial_function (option) start_offset_loop ::
  "(real \<Rightarrow> int) \<Rightarrow> sched_net \<Rightarrow> eager_flow \<Rightarrow> iface_schedules \<Rightarrow> simtime \<Rightarrow> simtime option" where
  [code]: "start_offset_loop conv net flow sched startOffset =
     Option.bind (computeStartOffsetForPathFragments conv net flow sched (fl_source flow) startOffset) (\<lambda>startOffsetShift.
       if startOffsetShift = 0 then Some startOffset
       else start_offset_loop conv net flow sched (startOffset + startOffsetShift))"

definition computeStreamStartOffset :: "(real \<Rightarrow> int) \<Rightarrow> sched_net \<Rightarrow> eager_flow \<Rightarrow> iface_schedules \<Rightarrow> simtime option" where
  "computeStreamStartOffset conv net flow sched = start_offset_loop conv net flow sched 0"

section \<open>Adding the slots of a flow\<close>

fun add_hops ::
  "(real \<Rightarrow> int) \<Rightarrow> sched_net \<Rightarrow> simtime \<Rightarrow> eager_flow \<Rightarrow> simtime \<Rightarrow> node list \<Rightarrow> simtime \<Rightarrow> iface_schedules \<Rightarrow>
   (simtime \<times> node list \<times> iface_schedules) option" where
  "add_hops conv net gateCycleDuration flow startTime (a # b # ns) nextGateOpenTime sched =
     (let (ifc, gateOpenTm, gateCloseTm) = hop_slot conv net flow sched a b nextGateOpenTime
      in do {
        ensure (\<not> gateCloseTm > startTime + gateCycleDuration);
        (arrival, path, sched) \<leftarrow> add_hops conv net gateCycleDuration flow startTime (b # ns) (gateCloseTm + sn_delay net ifc)
          (sched(ifc := sched ifc @
            [\<lparr>gateOpenIndex = fl_gateIndex flow, gateOpenTime = gateOpenTm, gateCloseTime = gateCloseTm\<rparr>]));
        Some (arrival, a # path, sched)
      })"
| "add_hops conv net gateCycleDuration flow startTime ns nextGateOpenTime sched = Some (nextGateOpenTime, [], sched)"

definition add_fragment ::
  "(real \<Rightarrow> int) \<Rightarrow> sched_net \<Rightarrow> simtime \<Rightarrow> eager_flow \<Rightarrow> simtime \<Rightarrow> todo \<Rightarrow> node list \<Rightarrow> todo list \<times> iface_schedules \<Rightarrow>
   (todo list \<times> iface_schedules) option" where
  "add_fragment conv net gateCycleDuration flow startTime td fragment st =
     (case (td, st) of ((nd, time, path), (todos, sched)) \<Rightarrow>
        if hd fragment = nd
        then do {
          (arrival, passed, sched) \<leftarrow> add_hops conv net gateCycleDuration flow startTime fragment time sched;
          ensure (\<not> (last fragment = fl_destination flow \<and> arrival - startTime > fl_maxLatency flow));
          Some (todos @ next_todos flow fragment arrival (path @ passed), sched)
        }
        else Some (todos, sched))"

partial_function (option) add_todos ::
  "(real \<Rightarrow> int) \<Rightarrow> sched_net \<Rightarrow> simtime \<Rightarrow> eager_flow \<Rightarrow> simtime \<Rightarrow> todo list \<Rightarrow> iface_schedules \<Rightarrow> iface_schedules option" where
  [code]: "add_todos conv net gateCycleDuration flow startTime todos sched =
     (case todos of [] \<Rightarrow> Some sched
      | td # tds \<Rightarrow>
          Option.bind (fold_opt (add_fragment conv net gateCycleDuration flow startTime td) (fl_pathFragments flow) (tds, sched))
            (\<lambda>(tds, sched). add_todos conv net gateCycleDuration flow startTime tds sched))"

definition addGateSchedulingForPathFragments ::
  "(real \<Rightarrow> int) \<Rightarrow> sched_net \<Rightarrow> simtime \<Rightarrow> eager_flow \<Rightarrow> node \<Rightarrow> simtime \<Rightarrow> iface_schedules \<Rightarrow> iface_schedules option" where
  "addGateSchedulingForPathFragments conv net gateCycleDuration flow nd startTime sched =
     add_todos conv net gateCycleDuration flow startTime [(nd, startTime, [])] sched"

definition addGateScheduling ::
  "(real \<Rightarrow> int) \<Rightarrow> sched_net \<Rightarrow> simtime \<Rightarrow> eager_flow \<Rightarrow> nat \<Rightarrow> nat \<Rightarrow> simtime \<Rightarrow> iface_schedules \<Rightarrow> iface_schedules option" where
  "addGateScheduling conv net gateCycleDuration flow startIndex endIndex startOffset sched =
     fold_opt (\<lambda>index sched. addGateSchedulingForPathFragments conv net gateCycleDuration flow (fl_source flow)
         (startOffset + int index * fl_packetInterval flow) sched)
       [startIndex..<endIndex] sched"

section \<open>The schedule\<close>

text \<open>The two loops over the flows: the first packets with their start offsets, then the others.\<close>

fun first_packets ::
  "(real \<Rightarrow> int) \<Rightarrow> sched_net \<Rightarrow> simtime \<Rightarrow> eager_flow list \<Rightarrow> iface_schedules \<Rightarrow> (simtime list \<times> iface_schedules) option" where
  "first_packets conv net gateCycleDuration [] sched = Some ([], sched)"
| "first_packets conv net gateCycleDuration (flow # flows) sched =
     do {
       startOffset \<leftarrow> computeStreamStartOffset conv net flow sched;
       sched \<leftarrow> addGateScheduling conv net gateCycleDuration flow 0 1 startOffset sched;
       (offsets, sched) \<leftarrow> first_packets conv net gateCycleDuration flows sched;
       Some (startOffset # offsets, sched)
     }"

definition other_packets ::
  "(real \<Rightarrow> int) \<Rightarrow> sched_net \<Rightarrow> simtime \<Rightarrow> eager_flow \<times> simtime \<Rightarrow> iface_schedules \<Rightarrow> iface_schedules option" where
  "other_packets conv net gateCycleDuration fo sched =
     (case fo of (flow, startOffset) \<Rightarrow>
       let count = gateCycleDuration div fl_packetInterval flow
       in do {
         ensure (gateCycleDuration = count * fl_packetInterval flow);
         addGateScheduling conv net gateCycleDuration flow 1 (nat count) startOffset sched
       })"

definition eager_slots ::
  "(real \<Rightarrow> int) \<Rightarrow> sched_net \<Rightarrow> simtime \<Rightarrow> eager_flow list \<Rightarrow> (simtime list \<times> iface_schedules) option" where
  "eager_slots conv net gateCycleDuration flows =
     do {
       (offsets, sched) \<leftarrow> first_packets conv net gateCycleDuration flows (\<lambda>_. []);
       sched \<leftarrow> fold_opt (other_packets conv net gateCycleDuration) (zip flows offsets) sched;
       Some (offsets, sched)
     }"

record gate_schedule =
  sc_gateIndex :: int
  sc_cycleStart :: simtime
  sc_cycleDuration :: simtime
  sc_slots :: "(simtime \<times> simtime) list"
  sc_open :: bool

text \<open>A slot that crosses the end of the cycle is split; the others are taken modulo the cycle.\<close>

definition cycle_slots :: "simtime \<Rightarrow> eslot \<Rightarrow> (simtime \<times> simtime) list" where
  "cycle_slots gateCycleDuration slot =
     (let slotStart = gateOpenTime slot; slotEnd = gateCloseTime slot; slotDuration = gateCloseTime slot - gateOpenTime slot
      in if slotStart < gateCycleDuration \<and> slotEnd > gateCycleDuration
         then [(slotStart, gateCycleDuration - slotStart), (0, slotDuration - (gateCycleDuration - slotStart))]
         else [(raw_rem slotStart gateCycleDuration, slotDuration)])"

definition gate_schedule_of :: "simtime \<Rightarrow> eslot list \<Rightarrow> int \<Rightarrow> gate_schedule" where
  "gate_schedule_of gateCycleDuration slots gateIndex =
     \<lparr>sc_gateIndex = gateIndex, sc_cycleStart = 0, sc_cycleDuration = gateCycleDuration,
      sc_slots = sort_key fst (concat (map (cycle_slots gateCycleDuration) (filter (\<lambda>slot. gateOpenIndex slot = gateIndex) slots))),
      sc_open = True\<rparr>"

definition computeGateScheduling ::
  "(real \<Rightarrow> int) \<Rightarrow> sched_net \<Rightarrow> simtime \<Rightarrow> eager_flow list \<Rightarrow> (iface \<times> int) list \<Rightarrow> (simtime list \<times> (iface \<times> gate_schedule list) list) option" where
  "computeGateScheduling conv net gateCycleDuration flows ports =
     do {
       (offsets, sched) \<leftarrow> eager_slots conv net gateCycleDuration flows;
       Some (offsets, map (\<lambda>(port, numGates). (port, map (gate_schedule_of gateCycleDuration (sched port)) [0..numGates - 1])) ports)
     }"

text \<open>The other scheduler leaves all gates open.\<close>

definition always_open :: "simtime \<Rightarrow> (iface \<times> int) list \<Rightarrow> (iface \<times> gate_schedule list) list" where
  "always_open gateCycleDuration ports =
     map (\<lambda>(port, numGates). (port, map (\<lambda>gateIndex. \<lparr>sc_gateIndex = gateIndex, sc_cycleStart = 0,
       sc_cycleDuration = gateCycleDuration, sc_slots = [], sc_open = False\<rparr>) [0..numGates - 1])) ports"

section \<open>Configuring the gates\<close>

text \<open>The durations of the alternating phases so far, whether the gate is open initially, and the end of the last slot.\<close>

definition configure_slot ::
  "simtime \<Rightarrow> bool \<Rightarrow> simtime \<times> simtime \<Rightarrow> bool \<times> int list \<times> simtime \<Rightarrow> (bool \<times> int list \<times> simtime) option" where
  "configure_slot gateCycleDuration op slot st =
     (case (slot, st) of ((slotStart, slotDuration), (initiallyOpen, durations, slotEnd)) \<Rightarrow>
        do {
          ensure (\<not> (slotStart < 0 \<or> slotStart + slotDuration > gateCycleDuration));
          (if slotStart = 0 then Some (op, durations @ [slotDuration], slotStart + slotDuration)
           else do {
             ensure (slotStart - slotEnd \<ge> 0);
             Some (initiallyOpen, durations @ [slotStart - slotEnd, slotDuration], slotStart + slotDuration)
           })
        })"

definition close_durations :: "simtime \<Rightarrow> simtime \<Rightarrow> int list \<Rightarrow> int list \<times> int" where
  "close_durations cycleDuration slotEnd durations =
     (if slotEnd \<noteq> 0
      then (let ds = (if cycleDuration - slotEnd \<noteq> 0 then durations @ [cycleDuration - slotEnd] else durations)
            in if length ds mod 2 \<noteq> 0
               then (if length ds > 1 then (butlast (ds[0 := ds ! 0 + last ds]), last ds) else (butlast ds, 0))
               else (ds, 0))
      else (durations, 0))"

definition gate_parameters :: "simtime \<Rightarrow> gate_schedule \<Rightarrow> (bool \<times> int \<times> int list) option" where
  "gate_parameters gateCycleDuration schedule =
     do {
       (initiallyOpen, durations, slotEnd) \<leftarrow> fold_opt (configure_slot gateCycleDuration (sc_open schedule)) (sc_slots schedule)
         (\<not> sc_open schedule, [], 0);
       let (durations, offset) = close_durations (sc_cycleDuration schedule) slotEnd durations;
       Some (initiallyOpen, offset, durations)
     }"

definition configureGateScheduling ::
  "simtime \<Rightarrow> (iface \<times> gate_schedule list) list \<Rightarrow> iface \<Rightarrow> nat \<Rightarrow> gate \<Rightarrow> gate option" where
  "configureGateScheduling gateCycleDuration gateSchedules port gateIndex g =
     do {
       schedules \<leftarrow> map_of gateSchedules port;
       ensure (\<not> gateIndex \<ge> length schedules);
       c \<leftarrow> gate_parameters gateCycleDuration (schedules ! gateIndex);
       configure_gate c g
     }"


section \<open>Finding a slot\<close>

definition slot_free :: "simtime \<Rightarrow> simtime \<Rightarrow> simtime \<Rightarrow> eslot \<Rightarrow> bool" where
  "slot_free gap d t s \<longleftrightarrow> gateCloseTime s + gap \<le> t \<or> t + d + gap \<le> gateOpenTime s"

lemma find_slot_end: "\<not> i < length slots \<Longrightarrow> find_slot gap d slots i t = t"
  by (subst find_slot.simps) simp

lemma find_slot_next:
  "i < length slots \<Longrightarrow> slot_free gap d t (slots ! i) \<Longrightarrow> find_slot gap d slots i t = find_slot gap d slots (i + 1) t"
  by (subst find_slot.simps) (simp add: slot_free_def)

lemma find_slot_move:
  "i < length slots \<Longrightarrow> \<not> slot_free gap d t (slots ! i) \<Longrightarrow>
   find_slot gap d slots i t = find_slot gap d slots 1 (gateCloseTime (slots ! i) + gap)"
  by (subst find_slot.simps) (simp add: slot_free_def)

lemma collision_moves: "\<not> slot_free gap d t s \<Longrightarrow> t < gateCloseTime s + gap"
  by (simp add: slot_free_def)

lemma find_slot_induct [case_names stop skip move]:
  assumes "\<And>i t. \<not> i < length slots \<Longrightarrow> P i t"
    and "\<And>i t. i < length slots \<Longrightarrow> slot_free gap d t (slots ! i) \<Longrightarrow> P (i + 1) t \<Longrightarrow> P i t"
    and "\<And>i t. i < length slots \<Longrightarrow> \<not> slot_free gap d t (slots ! i) \<Longrightarrow> P 1 (gateCloseTime (slots ! i) + gap) \<Longrightarrow> P i t"
  shows "P i t"
proof -
  have "gap' = gap \<Longrightarrow> d' = d \<Longrightarrow> s = slots \<Longrightarrow> P i t" for gap' d' s
  proof (induction gap' d' s i t rule: find_slot.induct)
    case (1 gap' d' s i t)
    show ?case
    proof (cases "i < length slots")
      case False
      then show ?thesis by (rule assms(1))
    next
      case i: True
      show ?thesis
      proof (cases "slot_free gap d t (slots ! i)")
        case True
        with 1 i show ?thesis by (intro assms(2)[OF i True]) (simp add: slot_free_def)
      next
        case False
        with 1 i show ?thesis by (intro assms(3)[OF i False]) (simp add: slot_free_def)
      qed
    qed
  qed
  then show ?thesis by blast
qed

lemma find_slot_ge: "t \<le> find_slot gap d slots i t"
proof (induction i t rule: find_slot_induct[where slots = slots and gap = gap and d = d])
  case (move i t)
  from find_slot_move[OF move(1,2)] collision_moves[OF move(2)] move(3) show ?case by linarith
qed (simp_all add: find_slot_end find_slot_next)

text \<open>The wanted time is kept exactly when it is free, for every slot that is looked at.\<close>

lemma find_slot_same:
  "find_slot gap d slots i t = t \<longleftrightarrow> (\<forall>j. i \<le> j \<and> j < length slots \<longrightarrow> slot_free gap d t (slots ! j))"
proof (induction i t rule: find_slot_induct[where slots = slots and gap = gap and d = d])
  case (skip i t)
  have e: "i \<le> j \<longleftrightarrow> j = i \<or> i + 1 \<le> j" for j by auto
  have "(\<forall>j. i \<le> j \<and> j < length slots \<longrightarrow> slot_free gap d t (slots ! j)) \<longleftrightarrow>
      (\<forall>j. i + 1 \<le> j \<and> j < length slots \<longrightarrow> slot_free gap d t (slots ! j))"
    unfolding e using skip(2) by blast
  with skip(3) find_slot_next[OF skip(1,2)] show ?case by (simp only:)
next
  case (move i t)
  have "t < find_slot gap d slots i t"
    using find_slot_move[OF move(1,2)] collision_moves[OF move(2)]
      find_slot_ge[of "gateCloseTime (slots ! i) + gap" gap d slots 1] by linarith
  then show ?case using move(1,2) by auto
qed (auto simp: find_slot_end)

text \<open>The result does not collide with any slot but the first, which is not looked at again after a collision.\<close>

lemma find_slot_free:
  assumes "\<And>k. 1 \<le> k \<Longrightarrow> k < i \<Longrightarrow> k < length slots \<Longrightarrow> slot_free gap d t (slots ! k)" "1 \<le> j" "j < length slots"
  shows "slot_free gap d (find_slot gap d slots i t) (slots ! j)"
  using assms(1)
proof (induction i t rule: find_slot_induct[where slots = slots and gap = gap and d = d])
  case (stop i t)
  then show ?case using assms(2,3) by (simp add: find_slot_end)
next
  case (skip i t)
  have "slot_free gap d (find_slot gap d slots (i + 1) t) (slots ! j)"
    by (rule skip.IH) (use skip in \<open>auto simp: less_Suc_eq\<close>)
  then show ?case by (simp only: find_slot_next[OF skip(1,2)])
next
  case (move i t)
  have "slot_free gap d (find_slot gap d slots 1 (gateCloseTime (slots ! i) + gap)) (slots ! j)"
    by (rule move.IH) simp
  then show ?case by (simp only: find_slot_move[OF move(1,2)])
qed

text \<open>If the first slot is the earliest one, the result does not collide with it either.\<close>

lemma find_slot_free_first_from_1:
  assumes "\<forall>s \<in> set slots. gateOpenTime (slots ! 0) \<le> gateOpenTime s"
    and "slot_free gap d t (slots ! 0)"
  shows "slot_free gap d (find_slot gap d slots i t) (slots ! 0)"
  using assms(2)
proof (induction i t rule: find_slot_induct[where slots = slots and gap = gap and d = d])
  case (stop i t)
  then show ?case by (simp add: find_slot_end)
next
  case (skip i t)
  then show ?case by (simp only: find_slot_next[OF skip(1,2)])
next
  case (move i t)
  have "gateOpenTime (slots ! 0) \<le> gateOpenTime (slots ! i)" using assms(1) move(1) by simp
  then have "slot_free gap d (gateCloseTime (slots ! i) + gap) (slots ! 0)"
    using move(2,4) by (auto simp: slot_free_def)
  then show ?case by (simp only: find_slot_move[OF move(1,2)] move(3))
qed

lemma find_slot_free_first:
  assumes "\<forall>s \<in> set slots. gateOpenTime (slots ! 0) \<le> gateOpenTime s" "slots \<noteq> []"
  shows "slot_free gap d (find_slot gap d slots 0 t) (slots ! 0)"
proof (cases "slot_free gap d t (slots ! 0)")
  case True
  then show ?thesis by (rule find_slot_free_first_from_1[OF assms(1)])
next
  case False
  have "slot_free gap d (gateCloseTime (slots ! 0) + gap) (slots ! 0)" by (simp add: slot_free_def)
  from find_slot_free_first_from_1[OF assms(1) this, of 1] find_slot_move[OF _ False] assms(2) show ?thesis by simp
qed

text \<open>Otherwise it may: the gate moves behind the second slot and into the first.\<close>

lemma find_slot_collides:
  "let slots = [\<lparr>gateOpenIndex = 0, gateOpenTime = 10, gateCloseTime = 20\<rparr>, \<lparr>gateOpenIndex = 0, gateOpenTime = 0, gateCloseTime = 5\<rparr>]
   in find_slot 0 8 slots 0 0 = 5 \<and> \<not> slot_free 0 8 5 (slots ! 0)"
  by (simp add: find_slot.simps[of 0 8] slot_free_def)

section \<open>The slots of an interface\<close>

definition apart :: "simtime \<Rightarrow> eslot \<Rightarrow> eslot \<Rightarrow> bool" where
  "apart gap a b \<longleftrightarrow> gateCloseTime a + gap \<le> gateOpenTime b \<or> gateCloseTime b + gap \<le> gateOpenTime a"

definition earliest_first :: "eslot list \<Rightarrow> bool" where
  "earliest_first slots \<longleftrightarrow> (\<forall>s \<in> set slots. gateOpenTime (slots ! 0) \<le> gateOpenTime s)"

definition slots_apart :: "simtime \<Rightarrow> eslot list \<Rightarrow> bool" where
  "slots_apart gap slots \<longleftrightarrow> sorted_wrt (apart gap) (tl slots) \<and> (earliest_first slots \<longrightarrow> sorted_wrt (apart gap) slots)"

lemma add_slot_apart:
  assumes "slots_apart gap slots" "t = find_slot gap d slots 0 t0"
  shows "slots_apart gap (slots @ [\<lparr>gateOpenIndex = g, gateOpenTime = t, gateCloseTime = t + d\<rparr>])"
    (is "slots_apart gap (slots @ [?s])")
proof (cases "slots = []")
  case True
  then show ?thesis by (simp add: slots_apart_def)
next
  case False
  have free: "slot_free gap d t s \<Longrightarrow> apart gap s ?s" for s by (auto simp: slot_free_def apart_def)
  have tl: "apart gap s ?s" if "s \<in> set (tl slots)" for s
  proof -
    from that obtain k where k: "k < length (tl slots)" "s = tl slots ! k" by (auto simp: in_set_conv_nth)
    then have "s = slots ! Suc k" by (simp add: nth_tl)
    then show ?thesis using find_slot_free[of 0 slots gap d t0 "Suc k"] k(1) unfolding assms(2) by (intro free[unfolded assms(2)]) simp
  qed
  have hd: "apart gap (hd slots) ?s" if "earliest_first (slots @ [?s])"
  proof -
    have "earliest_first slots" using that False by (simp add: earliest_first_def nth_append)
    from find_slot_free_first[OF this[unfolded earliest_first_def] False, of gap d t0] show ?thesis
      using False by (intro free) (simp add: assms(2) hd_conv_nth)
  qed
  have "earliest_first slots" if "earliest_first (slots @ [?s])" using that False by (simp add: earliest_first_def nth_append)
  moreover have "set slots \<subseteq> insert (hd slots) (set (tl slots))" using False by (cases slots) auto
  ultimately show ?thesis using assms(1) False tl hd
    by (auto simp: slots_apart_def sorted_wrt_append)
qed

definition sched_apart :: "(real \<Rightarrow> int) \<Rightarrow> sched_net \<Rightarrow> iface_schedules \<Rightarrow> bool" where
  "sched_apart conv net sched \<longleftrightarrow> (\<forall>ifc. slots_apart (hop_gap conv net ifc) (sched ifc))"

lemma add_hops_apart:
  "add_hops conv net c flow start ns t sched = Some (arrival, path, sched') \<Longrightarrow> sched_apart conv net sched \<Longrightarrow>
   sched_apart conv net sched'"
proof (induction conv net c flow start ns t sched arbitrary: arrival path rule: add_hops.induct)
  case (1 conv net c flow start a b ns t sched)
  obtain ifc op cl where h: "hop_slot conv net flow sched a b t = (ifc, op, cl)" by (metis prod_cases3)
  let ?s = "sched(ifc := sched ifc @ [\<lparr>gateOpenIndex = fl_gateIndex flow, gateOpenTime = op, gateCloseTime = cl\<rparr>])"
  from 1(2) obtain p where r: "add_hops conv net c flow start (b # ns) (cl + sn_delay net ifc) ?s = Some (arrival, p, sched')"
    by (auto simp: h split: Option.bind_splits)
  have op: "op = find_slot (hop_gap conv net ifc) (hop_duration conv net flow ifc) (sched ifc) 0 t"
    "cl = op + hop_duration conv net flow ifc" using h by (auto simp: hop_slot_def Let_def)
  have s: "slots_apart (hop_gap conv net i) (sched i)" for i using 1(3) by (simp add: sched_apart_def)
  have "sched_apart conv net ?s" unfolding sched_apart_def
  proof
    fix i
    show "slots_apart (hop_gap conv net i) (?s i)"
      using s add_slot_apart[OF s op(1), of "fl_gateIndex flow"] by (simp add: op(2))
  qed
  from 1(1)[OF h[symmetric] refl refl _ r this] show ?case by (cases "cl > start + c") (use 1(2) h in auto)
qed simp_all

lemma add_fragment_apart:
  assumes "add_fragment conv net c flow start td fragment (todos, sched) = Some (todos', sched')" "sched_apart conv net sched"
  shows "sched_apart conv net sched'"
  using assms by (auto simp: add_fragment_def split: prod.splits if_splits Option.bind_splits intro: add_hops_apart)

lemma add_todos_apart:
  assumes "add_todos conv net c flow start todos sched = Some sched'" "sched_apart conv net sched"
  shows "sched_apart conv net sched'"
proof -
  from assms(1) have "sched_apart conv net sched \<longrightarrow> sched_apart conv net sched'"
  proof (rule add_todos.raw_induct[rotated], goal_cases)
    case (1 add conv net c flow start todos sched sched')
    show ?case
    proof (cases todos)
      case Nil
      then show ?thesis using 1(2) by simp
    next
      case (Cons td tds)
      with 1(2) obtain tds1 sched1 where f: "fold_opt (add_fragment conv net c flow start td) (fl_pathFragments flow) (tds, sched) = Some (tds1, sched1)"
        "add conv net c flow start tds1 sched1 = Some sched'" by (auto split: Option.bind_splits)
      have "sched_apart conv net sched \<Longrightarrow> sched_apart conv net (snd (tds1, sched1))"
        by (rule fold_opt_inv[OF f(1), where P = "\<lambda>st. sched_apart conv net (snd st)"])
          (auto intro: add_fragment_apart)
      then show ?thesis using 1(1)[OF f(2)] by simp
    qed
  qed
  then show ?thesis using assms(2) by blast
qed

lemma addGateScheduling_apart:
  assumes "addGateScheduling conv net c flow i n start sched = Some sched'" "sched_apart conv net sched"
  shows "sched_apart conv net sched'"
  using assms(1) unfolding addGateScheduling_def
  by (rule fold_opt_inv) (auto simp: assms(2) addGateSchedulingForPathFragments_def intro: add_todos_apart)

lemma first_packets_apart:
  "first_packets conv net c flows sched = Some (offsets, sched') \<Longrightarrow> sched_apart conv net sched \<Longrightarrow> sched_apart conv net sched'"
  by (induction flows arbitrary: sched offsets) (auto split: Option.bind_splits intro: addGateScheduling_apart)

lemma eager_slots_apart_base:
  assumes "eager_slots conv net c flows = Some (offsets, sched)"
  shows "slots_apart (hop_gap conv net ifc) (sched ifc)"
proof -
  from assms obtain sched1 where f: "first_packets conv net c flows (\<lambda>_. []) = Some (offsets, sched1)"
    "fold_opt (other_packets conv net c) (zip flows offsets) sched1 = Some sched"
    by (auto simp: eager_slots_def split: Option.bind_splits)
  have "sched_apart conv net (\<lambda>_. [])" by (simp add: sched_apart_def slots_apart_def)
  with f(1) have "sched_apart conv net sched1" by (rule first_packets_apart)
  from f(2) this have "sched_apart conv net sched"
    by (rule fold_opt_inv[where P = "sched_apart conv net"]) (auto simp: other_packets_def Let_def split: prod.splits Option.bind_splits intro: addGateScheduling_apart)
  then show ?thesis by (simp add: sched_apart_def)
qed

section \<open>The start offset exists\<close>

definition net_ok :: "(real \<Rightarrow> int) \<Rightarrow> sched_net \<Rightarrow> bool" where
  "net_ok conv net \<longleftrightarrow> (\<forall>x \<ge> 0. 0 \<le> conv x) \<and> (\<forall>ifc. 0 < sn_datarate net ifc \<and> 0 \<le> sn_delay net ifc)"

definition flow_ok :: "eager_flow \<Rightarrow> bool" where
  "flow_ok flow \<longleftrightarrow> 0 \<le> fl_packetLength flow \<and> (\<forall>f \<in> set (fl_pathFragments flow). 2 \<le> length f)"

text \<open>After all reservations.\<close>

definition all_past :: "(real \<Rightarrow> int) \<Rightarrow> sched_net \<Rightarrow> iface_schedules \<Rightarrow> simtime \<Rightarrow> bool" where
  "all_past conv net sched t \<longleftrightarrow> (\<forall>ifc. \<forall>s \<in> set (sched ifc). gateCloseTime s + hop_gap conv net ifc \<le> t)"

lemma all_past_exists:
  assumes "finite {ifc. sched ifc \<noteq> []}"
  shows "\<exists>t. all_past conv net sched t"
proof -
  let ?T = "\<Union>ifc \<in> {ifc. sched ifc \<noteq> []}. (\<lambda>s. gateCloseTime s + hop_gap conv net ifc) ` set (sched ifc)"
  have fin: "finite ?T" using assms by blast
  have "gateCloseTime s + hop_gap conv net ifc \<le> Max ?T" if "s \<in> set (sched ifc)" for s ifc
    by (rule Max_ge[OF fin]) (use that in force)
  then show ?thesis unfolding all_past_def by blast
qed

lemma hop_duration_nonneg: "net_ok conv net \<Longrightarrow> flow_ok flow \<Longrightarrow> 0 \<le> hop_duration conv net flow ifc"
  unfolding net_ok_def flow_ok_def hop_duration_def by (simp add: less_imp_le)

lemma offset_hops_facts:
  assumes "net_ok conv net" "flow_ok flow" "offset_hops conv net flow sched ns t = (shift, arrival, path)"
  shows "0 \<le> shift \<and> (ns \<noteq> [] \<and> tl ns \<noteq> [] \<longrightarrow> hd ns \<in> set path) \<and>
    (\<forall>B. all_past conv net sched B \<longrightarrow> B \<le> t \<longrightarrow> shift = 0 \<and> B \<le> arrival)"
  using assms
proof (induction conv net flow sched ns t arbitrary: shift arrival path rule: offset_hops.induct)
  case (1 conv net flow sched a b ns t)
  obtain ifc op cl where h: "hop_slot conv net flow sched a b t = (ifc, op, cl)" by (metis prod_cases3)
  then have op: "op = find_slot (hop_gap conv net ifc) (hop_duration conv net flow ifc) (sched ifc) 0 t"
    "cl = op + hop_duration conv net flow ifc" by (auto simp: hop_slot_def Let_def)
  have ge: "t \<le> op" unfolding op(1) by (rule find_slot_ge)
  have past: "op = t" if B: "all_past conv net sched B" "B \<le> t" for B
  proof -
    have "slot_free (hop_gap conv net ifc) d t (sched ifc ! j)" if "j < length (sched ifc)" for j d
      using B that unfolding all_past_def slot_free_def by (meson nth_mem order_trans)
    then show ?thesis unfolding op(1) by (simp add: find_slot_same)
  qed
  show ?case
  proof (cases "op = t")
    case False
    then show ?thesis using 1(4) h ge past by auto
  next
    case True
    obtain sh ar p where r: "offset_hops conv net flow sched (b # ns) (cl + sn_delay net ifc) = (sh, ar, p)" by (metis prod_cases3)
    have "\<not> op - t \<noteq> 0" using True by simp
    note ih = 1(1)[OF refl h[symmetric] refl refl this 1(2,3) r]
    have "t \<le> cl + sn_delay net ifc" using True op(2) hop_duration_nonneg[OF 1(2,3), of ifc] 1(2) by (simp add: net_ok_def)
    moreover have "shift = sh" "arrival = ar" "path = a # p" using 1(4) h r True by auto
    ultimately show ?thesis using ih True by fastforce
  qed
qed auto

definition todo_nodes :: "eager_flow \<Rightarrow> node set" where
  "todo_nodes flow = insert (fl_source flow) (last ` set (fl_pathFragments flow))"

definition todo_ok :: "eager_flow \<Rightarrow> todo \<Rightarrow> bool" where
  "todo_ok flow td \<longleftrightarrow> (case td of (nd, t, path) \<Rightarrow> nd \<in> todo_nodes flow \<and> nd \<notin> set path)"

definition todo_weight :: "eager_flow \<Rightarrow> todo \<Rightarrow> nat" where
  "todo_weight flow td = (case td of (nd, t, path) \<Rightarrow> (length (fl_pathFragments flow) + 1) ^ card (todo_nodes flow - set path))"

lemma offset_fragment_facts:
  assumes ok: "net_ok conv net" "flow_ok flow" and td: "todo_ok flow td" and f: "fragment \<in> set (fl_pathFragments flow)"
    and r: "offset_fragment conv net flow sched td fragment = (shift, tds)"
  shows "0 \<le> shift \<and> (\<forall>td' \<in> set tds. todo_ok flow td') \<and>
    sum_list (map (todo_weight flow) tds) * (length (fl_pathFragments flow) + 1) \<le> todo_weight flow td \<and>
    (\<forall>B. all_past conv net sched B \<longrightarrow> B \<le> fst (snd td) \<longrightarrow> shift = 0 \<and> (\<forall>td' \<in> set tds. B \<le> fst (snd td')))"
proof -
  obtain nd t path where n: "td = (nd, t, path)" by (metis prod_cases3)
  show ?thesis
  proof (cases "hd fragment = nd")
    case False
    then show ?thesis using r n by (simp add: offset_fragment_def)
  next
    case True
    obtain sh ar p where h: "offset_hops conv net flow sched fragment t = (sh, ar, p)" by (metis prod_cases3)
    have l: "2 \<le> length fragment" using ok(2) f by (simp add: flow_ok_def)
    then have ne: "fragment \<noteq> [] \<and> tl fragment \<noteq> []" by (cases fragment; cases "tl fragment") simp_all
    note facts = offset_hops_facts[OF ok h]
    have hd: "nd \<in> set p" using facts ne True by blast
    have st: "shift = sh" "tds = next_todos flow fragment ar (path @ p)"
      using r n True h by (simp_all add: offset_fragment_def)
    have "todo_ok flow td'" if "td' \<in> set tds" for td'
      using that f by (auto simp: st next_todos_def todo_ok_def todo_nodes_def split: if_splits)
    moreover have "sum_list (map (todo_weight flow) tds) * (length (fl_pathFragments flow) + 1) \<le> todo_weight flow td"
    proof -
      have "nd \<in> todo_nodes flow" "nd \<notin> set path" using td n by (simp_all add: todo_ok_def)
      then have "todo_nodes flow - set (path @ p) \<subset> todo_nodes flow - set path" using hd by auto
      then have "card (todo_nodes flow - set (path @ p)) < card (todo_nodes flow - set path)"
        by (intro psubset_card_mono) (simp_all add: todo_nodes_def)
      then have le: "Suc (card (todo_nodes flow - set (path @ p))) \<le> card (todo_nodes flow - set path)" by simp
      let ?K = "length (fl_pathFragments flow) + 1"
      have "?K ^ card (todo_nodes flow - set (path @ p)) * ?K = ?K ^ Suc (card (todo_nodes flow - set (path @ p)))" by simp
      also have "\<dots> \<le> ?K ^ card (todo_nodes flow - set path)" by (rule power_increasing[OF le]) simp
      finally show ?thesis by (simp add: st next_todos_def todo_weight_def n)
    qed
    moreover have "\<forall>B. all_past conv net sched B \<longrightarrow> B \<le> t \<longrightarrow> shift = 0 \<and> (\<forall>td' \<in> set tds. B \<le> fst (snd td'))"
      using facts by (auto simp: st next_todos_def)
    ultimately show ?thesis using facts st(1) n by simp
  qed
qed

lemma sum_concat: "sum_list (map w (concat (map f xs))) = sum_list (map (\<lambda>x. sum_list (map w (f x))) xs)"
  by (induction xs) simp_all

lemma sum_weights:
  fixes w :: "'b \<Rightarrow> nat"
  assumes "\<And>x. x \<in> set xs \<Longrightarrow> w x * (length xs + 1) \<le> W" "0 < W"
  shows "sum_list (map w xs) < W"
proof -
  have "sum_list (map w ys) * k \<le> length ys * W" if "\<forall>x \<in> set ys. w x * k \<le> W" for ys k
    using that by (induction ys) (auto simp: add_mult_distrib intro: add_mono)
  from this[of xs "length xs + 1"] assms have "sum_list (map w xs) * (length xs + 1) \<le> length xs * W" by blast
  also have "\<dots> < W * (length xs + 1)" using assms(2) by simp
  finally show ?thesis by (rule mult_less_cancel2[THEN iffD1, THEN conjunct2])
qed

lemma offset_todos_total:
  assumes ok: "net_ok conv net" "flow_ok flow" and "\<forall>td \<in> set todos. todo_ok flow td"
  shows "\<exists>r. offset_todos conv net flow sched todos result = Some r \<and> result \<le> r \<and>
    (\<forall>B. all_past conv net sched B \<longrightarrow> (\<forall>td \<in> set todos. B \<le> fst (snd td)) \<longrightarrow> r = result)"
  using assms(3)
proof (induction "sum_list (map (todo_weight flow) todos)" arbitrary: todos result rule: less_induct)
  case less
  show ?case
  proof (cases todos)
    case Nil
    then show ?thesis by (subst offset_todos.simps) simp
  next
    case (Cons td tds)
    define rs where "rs = map (offset_fragment conv net flow sched td) (fl_pathFragments flow)"
    have td: "todo_ok flow td" using less.prems Cons by simp
    have fr: "0 \<le> fst x" "\<forall>td' \<in> set (snd x). todo_ok flow td'"
        "sum_list (map (todo_weight flow) (snd x)) * (length rs + 1) \<le> todo_weight flow td"
        "\<forall>B. all_past conv net sched B \<longrightarrow> B \<le> fst (snd td) \<longrightarrow> fst x = 0 \<and> (\<forall>td' \<in> set (snd x). B \<le> fst (snd td'))"
      if "x \<in> set rs" for x
      using that offset_fragment_facts[OF ok td, of _ sched "fst x" "snd x"] by (auto simp: rs_def)
    let ?new = "concat (map snd rs)"
    have new_ok: "\<forall>td' \<in> set (tds @ ?new). todo_ok flow td'" using less.prems Cons fr(2) by auto
    have "0 < todo_weight flow td" by (cases td) (simp add: todo_weight_def)
    from sum_weights[OF fr(3) this] have "sum_list (map (todo_weight flow) (tds @ ?new)) < sum_list (map (todo_weight flow) todos)"
      using Cons by (simp add: sum_concat)
    note ih = less.hyps[OF this new_ok, of "result + sum_list (map fst rs)"]
    have shift: "0 \<le> sum_list (map fst rs)" by (rule sum_list_nonneg) (use fr(1) in auto)
    have same: "sum_list (map fst rs) = 0 \<and> (\<forall>td \<in> set (tds @ ?new). B \<le> fst (snd td))"
      if B: "all_past conv net sched B" "\<forall>td \<in> set todos. B \<le> fst (snd td)" for B
    proof
      have "B \<le> fst (snd td)" using B(2) Cons by simp
      then have z: "fst x = 0 \<and> (\<forall>td' \<in> set (snd x). B \<le> fst (snd td'))" if "x \<in> set rs" for x using fr(4)[OF that] B(1) by blast
      then have "map fst rs = map (\<lambda>_. 0) rs" by simp
      then show "sum_list (map fst rs) = 0" by (simp only: sum_list_0)
      show "\<forall>td \<in> set (tds @ ?new). B \<le> fst (snd td)" using z B(2) Cons by auto
    qed
    have e: "offset_todos conv net flow sched todos result = offset_todos conv net flow sched (tds @ ?new) (result + sum_list (map fst rs))"
      by (subst offset_todos.simps) (simp add: Cons rs_def Let_def)
    from ih obtain r where r: "offset_todos conv net flow sched (tds @ ?new) (result + sum_list (map fst rs)) = Some r"
      "result + sum_list (map fst rs) \<le> r" "\<forall>B. all_past conv net sched B \<longrightarrow> (\<forall>td \<in> set (tds @ ?new). B \<le> fst (snd td)) \<longrightarrow>
        r = result + sum_list (map fst rs)" by blast
    show ?thesis
    proof (intro exI[of _ r] conjI allI impI)
      show "offset_todos conv net flow sched todos result = Some r" using e r(1) by (rule trans)
      show "result \<le> r" using r(2) shift by simp
      fix B assume B: "all_past conv net sched B" "\<forall>td \<in> set todos. B \<le> fst (snd td)"
      from same[OF B] r(3)[rule_format, OF B(1)] show "r = result" by simp
    qed
  qed
qed

lemma start_offset_loop_total:
  assumes ok: "net_ok conv net" "flow_ok flow" and past: "all_past conv net sched B"
  shows "\<exists>u. start_offset_loop conv net flow sched t = Some u \<and> t \<le> u \<and>
    computeStartOffsetForPathFragments conv net flow sched (fl_source flow) u = Some 0"
proof (induction "nat (B - t)" arbitrary: t rule: less_induct)
  case less
  have "todo_ok flow (fl_source flow, t, [])" by (simp add: todo_ok_def todo_nodes_def)
  then obtain r where r: "computeStartOffsetForPathFragments conv net flow sched (fl_source flow) t = Some r" "0 \<le> r" "B \<le> t \<longrightarrow> r = 0"
    using offset_todos_total[OF ok, of "[(fl_source flow, t, [])]" sched 0] past
    unfolding computeStartOffsetForPathFragments_def by auto
  show ?case
  proof (cases "r = 0")
    case True
    then show ?thesis using r(1) by (subst start_offset_loop.simps) simp
  next
    case False
    then have "nat (B - (t + r)) < nat (B - t)" using r(2,3) by auto
    from less.hyps[OF this] obtain u where u: "start_offset_loop conv net flow sched (t + r) = Some u" "t + r \<le> u"
      "computeStartOffsetForPathFragments conv net flow sched (fl_source flow) u = Some 0" by blast
    have "start_offset_loop conv net flow sched t = Some u"
      using r(1) False u(1) by (subst start_offset_loop.simps) simp
    with u r(2) show ?thesis by (intro exI[of _ u]) simp
  qed
qed

text \<open>A path the first packet travels without waiting: the interface and the times of the gate of each hop.\<close>

fun travel ::
  "(real \<Rightarrow> int) \<Rightarrow> sched_net \<Rightarrow> eager_flow \<Rightarrow> node list \<Rightarrow> simtime \<Rightarrow> (iface \<times> simtime \<times> simtime) list" where
  "travel conv net flow (a # b # ns) t =
     (let ifc = sn_linkOut net a b; cl = t + hop_duration conv net flow ifc
      in (ifc, t, cl) # travel conv net flow (b # ns) (cl + sn_delay net ifc))"
| "travel conv net flow ns t = []"

fun travel_end :: "(real \<Rightarrow> int) \<Rightarrow> sched_net \<Rightarrow> eager_flow \<Rightarrow> node list \<Rightarrow> simtime \<Rightarrow> simtime" where
  "travel_end conv net flow (a # b # ns) t =
     (let ifc = sn_linkOut net a b in travel_end conv net flow (b # ns) (t + hop_duration conv net flow ifc + sn_delay net ifc))"
| "travel_end conv net flow ns t = t"

definition reserve :: "eager_flow \<Rightarrow> iface \<times> simtime \<times> simtime \<Rightarrow> iface_schedules \<Rightarrow> iface_schedules" where
  "reserve flow hop sched = (case hop of (ifc, op, cl) \<Rightarrow> sched(ifc := sched ifc @
     [\<lparr>gateOpenIndex = fl_gateIndex flow, gateOpenTime = op, gateCloseTime = cl\<rparr>]))"

lemma offset_hops_zero:
  "offset_hops conv net flow sched ns t = (0, arrival, path) \<Longrightarrow>
   arrival = travel_end conv net flow ns t \<and> path = butlast ns \<and>
   (\<forall>(ifc, op, cl) \<in> set (travel conv net flow ns t).
      find_slot (hop_gap conv net ifc) (hop_duration conv net flow ifc) (sched ifc) 0 op = op)"
proof (induction conv net flow sched ns t arbitrary: arrival path rule: offset_hops.induct)
  case (1 conv net flow sched a b ns t)
  let ?ifc = "sn_linkOut net a b"
  let ?op = "find_slot (hop_gap conv net ?ifc) (hop_duration conv net flow ?ifc) (sched ?ifc) 0 t"
  have h: "hop_slot conv net flow sched a b t = (?ifc, ?op, ?op + hop_duration conv net flow ?ifc)"
    by (simp add: hop_slot_def Let_def)
  obtain sh ar p where r: "offset_hops conv net flow sched (b # ns) (?op + hop_duration conv net flow ?ifc + sn_delay net ?ifc) = (sh, ar, p)"
    by (metis prod_cases3)
  have z: "?op - t = 0" using 1(2) h by (auto split: if_splits)
  then have e: "sh = 0" "arrival = ar" "path = a # p" using 1(2) h r by auto
  have "\<not> ?op - t \<noteq> 0" using z by simp
  from 1(1)[OF refl h[symmetric] refl refl this r[unfolded e(1)]] z e show ?case by (simp add: Let_def)
qed auto

text \<open>The reservation finds the same slots when no interface comes twice.\<close>

lemma add_hops_travel:
  assumes "distinct (map fst (travel conv net flow ns t))"
    and "\<forall>(ifc, op, cl) \<in> set (travel conv net flow ns t).
      find_slot (hop_gap conv net ifc) (hop_duration conv net flow ifc) (sched ifc) 0 op = op"
  shows "add_hops conv net c flow start ns t sched =
    (if \<forall>(ifc, op, cl) \<in> set (travel conv net flow ns t). cl \<le> start + c
     then Some (travel_end conv net flow ns t, butlast ns, fold (reserve flow) (travel conv net flow ns t) sched) else None)"
  using assms
proof (induction conv net flow ns t arbitrary: sched rule: travel.induct)
  case (1 conv net flow a b ns t)
  let ?ifc = "sn_linkOut net a b"
  let ?cl = "t + hop_duration conv net flow ?ifc"
  let ?s = "reserve flow (?ifc, t, ?cl) sched"
  have op: "find_slot (hop_gap conv net ?ifc) (hop_duration conv net flow ?ifc) (sched ?ifc) 0 t = t"
    using 1(3) by (simp add: Let_def)
  have h: "hop_slot conv net flow sched a b t = (?ifc, t, ?cl)" by (simp add: hop_slot_def Let_def op)
  let ?rest = "travel conv net flow (b # ns) (?cl + sn_delay net ?ifc)"
  have d: "distinct (map fst ?rest)" "?ifc \<notin> fst ` set ?rest" using 1(2) by (simp_all add: Let_def)
  have "\<forall>(ifc, op, cl) \<in> set ?rest. find_slot (hop_gap conv net ifc) (hop_duration conv net flow ifc) (?s ifc) 0 op = op"
    using 1(3) d(2) by (force simp: Let_def reserve_def)
  note ih = 1(1)[OF refl refl d(1) this]
  have s: "sched(?ifc := sched ?ifc @ [\<lparr>gateOpenIndex = fl_gateIndex flow, gateOpenTime = t, gateCloseTime = ?cl\<rparr>]) = ?s"
    by (simp add: reserve_def)
  have tr: "travel conv net flow (a # b # ns) t = (?ifc, t, ?cl) # ?rest" by (simp add: Let_def)
  have te: "travel_end conv net flow (a # b # ns) t = travel_end conv net flow (b # ns) (?cl + sn_delay net ?ifc)"
    by (simp add: Let_def)
  show ?case unfolding add_hops.simps(1) h Let_def prod.case s ih tr te by simp
qed auto

lemma offset_todos_simps:
  "offset_todos conv net flow sched [] result = Some result"
  "offset_todos conv net flow sched (td # tds) result =
    (let rs = map (offset_fragment conv net flow sched td) (fl_pathFragments flow)
     in offset_todos conv net flow sched (tds @ concat (map snd rs)) (result + sum_list (map fst rs)))"
  by (subst offset_todos.simps, simp)+

lemma add_todos_simps:
  "add_todos conv net c flow start [] sched = Some sched"
  "add_todos conv net c flow start (td # tds) sched =
    Option.bind (fold_opt (add_fragment conv net c flow start td) (fl_pathFragments flow) (tds, sched))
      (\<lambda>(tds, sched). add_todos conv net c flow start tds sched)"
  by (subst add_todos.simps, simp)+

text \<open>The start offset of a flow along one path, and the reservation of its first packet there.\<close>

lemma first_packet_base:
  assumes "net_ok conv net" "flow_ok flow" "finite {ifc. sched ifc \<noteq> []}"
    and "fl_pathFragments flow = [path]" "hd path = fl_source flow" "last path = fl_destination flow"
    and "\<And>t. distinct (map fst (travel conv net flow path t))"
  shows "\<exists>u \<ge> 0. computeStreamStartOffset conv net flow sched = Some u \<and>
    addGateScheduling conv net c flow 0 1 u sched =
      (if (\<forall>(ifc, op, cl) \<in> set (travel conv net flow path u). cl \<le> u + c) \<and> travel_end conv net flow path u - u \<le> fl_maxLatency flow
       then Some (fold (reserve flow) (travel conv net flow path u) sched) else None)"
proof -
  from all_past_exists[OF assms(3), of conv net] obtain B where "all_past conv net sched B" by blast
  from start_offset_loop_total[OF assms(1,2) this, of 0] obtain u where u: "computeStreamStartOffset conv net flow sched = Some u" "0 \<le> u"
    "computeStartOffsetForPathFragments conv net flow sched (fl_source flow) u = Some 0"
    unfolding computeStreamStartOffset_def by blast
  obtain sh ar p where h: "offset_hops conv net flow sched path u = (sh, ar, p)" by (metis prod_cases3)
  have "sh = 0" using u(3) by (simp add: computeStartOffsetForPathFragments_def offset_todos_simps assms(4-6) offset_fragment_def
      h next_todos_def)
  from offset_hops_zero[OF h[unfolded this]] have z: "\<forall>(ifc, op, cl) \<in> set (travel conv net flow path u).
      find_slot (hop_gap conv net ifc) (hop_duration conv net flow ifc) (sched ifc) 0 op = op" by blast
  define fits where "fits \<longleftrightarrow> (\<forall>(ifc, op, cl) \<in> set (travel conv net flow path u). cl \<le> u + c)"
  note hops = add_hops_travel[OF assms(7) z, of c u, folded fits_def]
  have "addGateScheduling conv net c flow 0 1 u sched = add_todos conv net c flow u [(fl_source flow, u, [])] sched"
    by (simp add: addGateScheduling_def addGateSchedulingForPathFragments_def split: option.splits)
  also have "\<dots> = (if fits \<and> travel_end conv net flow path u - u \<le> fl_maxLatency flow
       then Some (fold (reserve flow) (travel conv net flow path u) sched) else None)"
    by (cases fits; cases "travel_end conv net flow path u - u \<le> fl_maxLatency flow")
      (simp_all add: add_todos_simps assms(4-6) add_fragment_def hops next_todos_def not_less)
  finally show ?thesis using u unfolding fits_def by blast
qed

text \<open>
  C10. For a flow with a single path fragment, from its source to its destination, that visits each interface at most once, the
  first packet never waits: the search for its start offset ends, whatever is reserved already, and at that offset the packet
  finds every interface of its path free, so that the reservation of this packet, when it is accepted at all (it fits the
  cycle and the latency), opens each gate exactly when the packet arrives from the hop before. (Rates are positive and
  delays and the packet length are not negative. Flows with several fragments, for redundant trees, are not covered.)
\<close>

theorem eager_first_packet:
  assumes "net_ok conv net" "flow_ok flow" "finite {ifc. sched ifc \<noteq> []}"
    and "fl_pathFragments flow = [path]" "hd path = fl_source flow" "last path = fl_destination flow"
    and "\<And>t. distinct (map fst (travel conv net flow path t))"
  shows "\<exists>u \<ge> 0. computeStreamStartOffset conv net flow sched = Some u \<and>
    addGateScheduling conv net c flow 0 1 u sched =
      (if (\<forall>(ifc, op, cl) \<in> set (travel conv net flow path u). cl \<le> u + c) \<and> travel_end conv net flow path u - u \<le> fl_maxLatency flow
       then Some (fold (reserve flow) (travel conv net flow path u) sched) else None)"
  by (rule first_packet_base[OF assms])

lemma travel_end_ge: "net_ok conv net \<Longrightarrow> flow_ok flow \<Longrightarrow> t \<le> travel_end conv net flow ns t"
proof (induction conv net flow ns t rule: travel_end.induct)
  case (1 conv net flow a b ns t)
  let ?ifc = "sn_linkOut net a b"
  have "0 \<le> hop_duration conv net flow ?ifc" "0 \<le> sn_delay net ?ifc"
    using hop_duration_nonneg[OF 1(2,3)] 1(2) by (simp_all add: net_ok_def)
  then show ?case using 1(1)[OF refl 1(2,3)] by (simp add: Let_def)
qed simp_all

text \<open>A flow without a maximum latency, for which the configurator sets -1, is always refused.\<close>

lemma unset_latency_refused:
  assumes "net_ok conv net" "flow_ok flow" "finite {ifc. sched ifc \<noteq> []}"
    and "fl_pathFragments flow = [path]" "hd path = fl_source flow" "last path = fl_destination flow"
    and "\<And>t. distinct (map fst (travel conv net flow path t))" and "fl_maxLatency flow < 0"
  shows "first_packets conv net c (flow # flows) sched = None"
proof -
  from first_packet_base[OF assms(1-7), of c] obtain u where u: "computeStreamStartOffset conv net flow sched = Some u"
    "addGateScheduling conv net c flow 0 1 u sched =
      (if (\<forall>(ifc, op, cl) \<in> set (travel conv net flow path u). cl \<le> u + c) \<and> travel_end conv net flow path u - u \<le> fl_maxLatency flow
       then Some (fold (reserve flow) (travel conv net flow path u) sched) else None)" by blast
  have "\<not> travel_end conv net flow path u - u \<le> fl_maxLatency flow" using travel_end_ge[OF assms(1,2), of u path] assms(8) by linarith
  then have "addGateScheduling conv net c flow 0 1 u sched = None" using u(2) by simp
  then show ?thesis by (simp add: u(1))
qed

text \<open>
  C11. Slots on an interface keep their distance: whatever the flows, their paths and their packet intervals, two slots that the
  scheduler reserves on the same interface are at least an interframe gap apart, except that a slot may collide with
  the first one reserved there when that is not the earliest (lemma \<open>find_slot_collides\<close>).
\<close>

theorem eager_slots_keep_distance:
  assumes "eager_slots conv net c flows = Some (offsets, sched)"
    and "i < j" "j < length (sched ifc)" "0 < i \<or> earliest_first (sched ifc)"
  shows "apart (hop_gap conv net ifc) (sched ifc ! i) (sched ifc ! j)"
proof -
  have s: "slots_apart (hop_gap conv net ifc) (sched ifc)" by (rule eager_slots_apart_base[OF assms(1)])
  show ?thesis
  proof (cases "earliest_first (sched ifc)")
    case True
    with s assms(2,3) show ?thesis by (simp add: slots_apart_def sorted_wrt_iff_nth_less)
  next
    case False
    then have i: "0 < i" using assms(4) by simp
    have t: "sorted_wrt (apart (hop_gap conv net ifc)) (tl (sched ifc))" using s by (simp add: slots_apart_def)
    from i obtain i' where i': "i = Suc i'" by (cases i) simp_all
    from assms(2) obtain j' where j': "j = Suc j'" by (cases j) simp_all
    have "apart (hop_gap conv net ifc) (tl (sched ifc) ! i') (tl (sched ifc) ! j')"
      using t assms(2,3) i' j' by (simp add: sorted_wrt_iff_nth_less)
    then show ?thesis using assms(2,3) i' j' by (simp add: nth_tl)
  qed
qed

section \<open>Examples\<close>

definition ticks :: "real \<Rightarrow> int" where
  "ticks x = \<lfloor>x\<rfloor>"

text \<open>Two interfaces, a link with a long delay and one with none; a packet takes 20 ticks and the gap is one.\<close>

definition sample_net :: sched_net where
  "sample_net = \<lparr>sn_linkOut = \<lambda>a b. if a = ''x'' then 2 else 3, sn_datarate = \<lambda>_. 96, sn_delay = \<lambda>ifc. if ifc = 2 then 60 else 0\<rparr>"

definition sample_flow :: "int \<Rightarrow> node list \<Rightarrow> eager_flow" where
  "sample_flow g path = \<lparr>fl_gateIndex = g, fl_source = hd path, fl_destination = last path, fl_packetLength = 1920,
     fl_packetInterval = 100, fl_maxLatency = 100, fl_pathFragments = [path]\<rparr>"

lemmas eager_eval = eager_slots_def computeGateScheduling_def computeStreamStartOffset_def computeStartOffsetForPathFragments_def
  start_offset_loop.simps offset_todos_simps add_todos_simps addGateScheduling_def addGateSchedulingForPathFragments_def
  other_packets_def offset_fragment_def add_fragment_def next_todos_def hop_slot_def hop_gap_def hop_duration_def
  find_slot.simps Let_def ticks_def sample_net_def sample_flow_def

text \<open>
  The slots of one interface overlap in the cycle: the third flow reaches interface 3 at time 101 of a cycle of 100, where
  the first flow has it from 0 to 20.
\<close>

lemma wrapped_slots_overlap:
  "\<exists>sched. eager_slots ticks sample_net 100
      [sample_flow 0 [''y'', ''z''], sample_flow 1 [''x'', ''w''], sample_flow 1 [''x'', ''y'', ''z'']] = Some ([0, 0, 21], sched) \<and>
    map (cycle_slots 100) (sched 3) = [[(0, 20)], [(1, 20)]]"
  by (simp add: eager_eval cycle_slots_def raw_rem_def)

section \<open>Configured gates\<close>

text \<open>Slots in the order of time, with time between them, in a cycle.\<close>

fun slots_ordered :: "simtime \<Rightarrow> simtime \<Rightarrow> (simtime \<times> simtime) list \<Rightarrow> bool" where
  "slots_ordered e c [] \<longleftrightarrow> True"
| "slots_ordered e c ((s, d) # slots) \<longleftrightarrow> e < s \<and> 0 < d \<and> s + d \<le> c \<and> slots_ordered (s + d) c slots"

definition in_slot :: "(simtime \<times> simtime) list \<Rightarrow> simtime \<Rightarrow> bool" where
  "in_slot slots t \<longleftrightarrow> (\<exists>(s, d) \<in> set slots. s \<le> t \<and> t < s + d)"

text \<open>The phases between the end of a slot and the end of the last one.\<close>

fun phases :: "simtime \<Rightarrow> (simtime \<times> simtime) list \<Rightarrow> int list" where
  "phases e [] = []"
| "phases e ((s, d) # slots) = (s - e) # d # phases (s + d) slots"

fun slots_end :: "simtime \<Rightarrow> (simtime \<times> simtime) list \<Rightarrow> simtime" where
  "slots_end e [] = e"
| "slots_end e ((s, d) # slots) = slots_end (s + d) slots"

fun alternate :: "bool \<Rightarrow> int list \<Rightarrow> (int \<times> bool) list" where
  "alternate b [] = []"
| "alternate b (d # ds) = (d, b) # alternate (\<not> b) ds"

lemma configure_slots:
  "slots_ordered e c slots \<Longrightarrow> 0 \<le> e \<Longrightarrow>
   fold_opt (configure_slot c True) slots (b, ds, e) = Some (b, ds @ phases e slots, slots_end e slots)"
  by (induction slots arbitrary: e ds) (auto simp: configure_slot_def)

lemma slots_end_le: "slots_ordered e c slots \<Longrightarrow> e \<le> c \<Longrightarrow> slots_end e slots \<le> c \<and> e \<le> slots_end e slots"
proof (induction slots arbitrary: e)
  case (Cons sd slots)
  obtain s d where sd: "sd = (s, d)" by (cases sd)
  from Cons.IH[of "s + d"] Cons.prems show ?case by (simp add: sd)
qed simp

lemma phases_facts:
  "slots_ordered e c slots \<Longrightarrow> (\<forall>d \<in> set (phases e slots). 0 < d) \<and> even (length (phases e slots)) \<and>
   sum_list (phases e slots) = slots_end e slots - e"
  by (induction slots arbitrary: e) auto

lemma phases_open:
  "slots_ordered e c slots \<Longrightarrow> e \<le> t \<Longrightarrow>
   entry_at (alternate False (phases e slots @ rest)) (t - e) =
     (in_slot slots t \<or> slots_end e slots \<le> t \<and> entry_at (alternate False rest) (t - slots_end e slots))"
proof (induction slots arbitrary: e)
  case Nil
  then show ?case by (simp add: in_slot_def)
next
  case (Cons sd slots)
  obtain s d where sd: "sd = (s, d)" by (cases sd)
  have o: "slots_ordered (s + d) c slots" "e < s" "0 < d" using Cons.prems(1) by (simp_all add: sd)
  have le: "u \<le> slots_end u slots" "in_slot slots t \<Longrightarrow> u \<le> t" if "slots_ordered u c slots" for u
    using that by (induction slots arbitrary: u) (force simp: in_slot_def)+
  show ?case
  proof (cases "s + d \<le> t")
    case True
    have "entry_at (alternate False (phases e (sd # slots) @ rest)) (t - e) = entry_at (alternate False (phases (s + d) slots @ rest)) (t - (s + d))"
      using True o(2,3) by (simp add: sd algebra_simps)
    then show ?thesis unfolding Cons.IH[OF o(1) True] using True o(2,3) by (auto simp: sd in_slot_def)
  next
    case False
    with le[OF o(1)] o show ?thesis by (auto simp: sd in_slot_def)
  qed
qed

lemma cycle_alternate: "cycle (alternate b ds) = sum_list ds"
  by (induction ds arbitrary: b) auto

lemma alternate_pos: "\<forall>d \<in> set ds. 0 < d \<Longrightarrow> \<forall>e \<in> set (alternate b ds). 0 < fst e"
  by (induction ds arbitrary: b) auto

lemma fold_alternate:
  "fold compile_entry (alternate (\<not> cur) ds) (acc, cur, len) =
     (acc @ butlast (len # ds), (if even (length ds) then cur else \<not> cur), last (len # ds))"
proof (induction ds arbitrary: acc cur len)
  case (Cons d ds)
  from Cons.IH[of "\<not> cur" "acc @ [len]" d] show ?case by (auto simp: butlast_append)
qed simp

lemma compile_alternate:
  "compile_gate b (alternate b (d # ds)) = compile_end (butlast (d # ds), (if even (length ds) then b else \<not> b), last (d # ds))"
  using fold_alternate[of b ds "[]" d] by (simp add: compile_gate_def)

text \<open>The end of \<open>configureGateScheduling\<close> is the end of the compilation of a control list.\<close>

lemma close_is_compile_end:
  assumes "ds \<noteq> []"
  shows "(if length ds mod 2 \<noteq> 0 then (if length ds > 1 then (butlast (ds[0 := ds ! 0 + last ds]), last ds) else (butlast ds, 0)) else (ds, 0)) =
    compile_end (butlast ds, cur, last ds)"
proof (cases "butlast ds = []")
  case True
  then have "length ds = 1" using assms by (cases ds) (auto split: if_splits)
  with True show ?thesis by (simp add: compile_end_def)
next
  case False
  obtain x xs y where ds: "ds = x # xs @ [y]" using assms False by (cases ds; cases "tl ds" rule: rev_cases) auto
  then show ?thesis by (cases "even (length xs)") (auto simp: compile_end_def butlast_append even_iff_mod_2_eq_zero odd_iff_mod_2_eq_one mod_Suc)
qed

lemma gate_parameters_correct:
  assumes "sc_open schedule" "sc_cycleDuration schedule = c" "0 < c" "slots_ordered (-1) c (sc_slots schedule)"
  shows "\<exists>b off ds. gate_parameters c schedule = Some (b, off, ds) \<and> (\<forall>d \<in> set ds. 0 < d) \<and> even (length ds) \<and> 0 \<le> off \<and>
    (\<forall>t. cyclic_open b ds (off + t) = in_slot (sc_slots schedule) (t mod c))"
proof (cases "sc_slots schedule")
  case Nil
  then show ?thesis using assms
    by (intro exI[of _ False] exI[of _ 0] exI[of _ "[]"]) (simp add: gate_parameters_def close_durations_def cyclic_open_def in_slot_def)
next
  case (Cons sd slots)
  obtain s d where sd: "sd = (s, d)" by (cases sd)
  have o: "0 \<le> s" "0 < d" "s + d \<le> c" "slots_ordered (s + d) c slots" using assms(4) by (simp_all add: Cons sd)
  define b where "b \<longleftrightarrow> s = 0"
  define rest where "rest = (if c - slots_end (s + d) slots = 0 then [] else [c - slots_end (s + d) slots])"
  define D where "D = (if b then [d] else [s, d]) @ phases (s + d) slots @ rest"
  have e: "slots_end (s + d) slots \<le> c" "s + d \<le> slots_end (s + d) slots" using slots_end_le[OF o(4,3)] by simp_all
  have pos: "\<forall>x \<in> set D. 0 < x" using o e phases_facts[OF o(4)] by (auto simp: D_def b_def rest_def)
  have ne: "D \<noteq> []" by (simp add: D_def)
  have sum: "sum_list D = c" using phases_facts[OF o(4)] by (simp add: D_def b_def rest_def)
  have no_rest: "\<not> entry_at (alternate False rest) u" for u by (simp add: rest_def)
  have open_at: "entry_at (alternate b D) t = in_slot (sc_slots schedule) t" if "0 \<le> t" for t
  proof (cases b)
    case True
    then have s0: "s = 0" by (simp add: b_def)
    then have a: "alternate b D = (d, True) # alternate False (phases d slots @ rest)" using True by (simp add: D_def)
    show ?thesis
    proof (cases "t < d")
      case True
      then show ?thesis using a that by (auto simp: Cons sd s0 in_slot_def)
    next
      case False
      then show ?thesis using a phases_open[OF o(4), of t rest] no_rest by (auto simp: Cons sd s0 in_slot_def)
    qed
  next
    case False
    then have "slots_ordered 0 c (sc_slots schedule)" using o by (simp add: Cons sd b_def)
    from phases_open[OF this that, of rest] no_rest False show ?thesis by (simp add: D_def Cons sd)
  qed
  obtain ds off where cg: "compile_gate b (alternate b D) = (ds, off)" by fastforce
  obtain x xs where D: "D = x # xs" using ne by (cases D) simp_all
  have "close_durations c (slots_end (s + d) slots) ((if b then [d] else [s, d]) @ phases (s + d) slots) = (ds, off)"
  proof -
    have "slots_end (s + d) slots \<noteq> 0" using e o by simp
    moreover have "(if c - slots_end (s + d) slots \<noteq> 0 then ((if b then [d] else [s, d]) @ phases (s + d) slots) @ [c - slots_end (s + d) slots]
        else (if b then [d] else [s, d]) @ phases (s + d) slots) = D" by (simp add: D_def rest_def)
    ultimately have "close_durations c (slots_end (s + d) slots) ((if b then [d] else [s, d]) @ phases (s + d) slots) =
        (if length D mod 2 \<noteq> 0 then (if length D > 1 then (butlast (D[0 := D ! 0 + last D]), last D) else (butlast D, 0)) else (D, 0))"
      unfolding close_durations_def Let_def by presburger
    also have "\<dots> = compile_end (butlast D, (if even (length xs) then b else \<not> b), last D)" by (rule close_is_compile_end[OF ne])
    also have "\<dots> = (ds, off)" using compile_alternate[of b x xs] cg by (simp add: D)
    finally show ?thesis .
  qed
  moreover have "fold_opt (configure_slot c True) (sc_slots schedule) (False, [], 0) =
      Some (b, (if b then [d] else [s, d]) @ phases (s + d) slots, slots_end (s + d) slots)"
  proof -
    have "configure_slot c True (s, d) (False, [], 0) = Some (b, (if b then [d] else [s, d]), s + d)"
      using o by (simp add: configure_slot_def b_def)
    then show ?thesis using configure_slots[OF o(4)] o(1,2) by (simp add: Cons sd)
  qed
  ultimately have g: "gate_parameters c schedule = Some (b, off, ds)" using assms(1,2) by (simp add: gate_parameters_def)
  have "alternate b D \<noteq> []" "snd (hd (alternate b D)) = b" by (simp_all add: D)
  from compile_gate_correct[OF alternate_pos[OF pos] this cg] have r: "\<forall>d \<in> set ds. 0 < d" "even (length ds)" "0 \<le> off"
    "\<And>t. cyclic_open b ds (off + t) = entry_at (alternate b D) (t mod c)" by (simp_all add: cycle_alternate sum)
  have "cyclic_open b ds (off + t) = in_slot (sc_slots schedule) (t mod c)" for t
    using r(4)[of t] open_at[of "t mod c"] assms(3) by simp
  with g r(1-3) show ?thesis by blast
qed

text \<open>A gate that is configured, starts at time \<open>T0\<close> and runs until time \<open>t\<close>.\<close>

definition gate_at ::
  "simtime \<Rightarrow> (iface \<times> gate_schedule list) list \<Rightarrow> iface \<Rightarrow> nat \<Rightarrow> gate \<Rightarrow> clocktime \<Rightarrow> nat \<Rightarrow> (clocktime \<Rightarrow> gate_packet option) \<Rightarrow> clocktime \<Rightarrow> gate option" where
  "gate_at c schedules port i g0 T0 fuel offered t =
     do {
       g \<leftarrow> configureGateScheduling c schedules port i g0;
       g \<leftarrow> initializeGating T0 g;
       gate_until fuel offered t g
     }"

lemma scheduled_gate_base:
  assumes "sc_open schedule" "sc_cycleDuration schedule = c" "0 < c" "slots_ordered (-1) c (sc_slots schedule)"
    and "map_of schedules port = Some ss" "i < length ss" "ss ! i = schedule"
    and "T0 \<le> t" "nat (t - T0) + 1 < fuel"
  shows "\<exists>h. gate_at c schedules port i g0 T0 fuel offered t = Some h \<and> pg_isOpen h = in_slot (sc_slots schedule) ((t - T0) mod c)"
proof -
  from gate_parameters_correct[OF assms(1-4)] obtain b off ds where p: "gate_parameters c schedule = Some (b, off, ds)"
    "\<forall>d \<in> set ds. 0 < d" "even (length ds)" "0 \<le> off" "\<And>t. cyclic_open b ds (off + t) = in_slot (sc_slots schedule) (t mod c)" by blast
  from configured_gate_at[OF p(2-4) assms(8,9), of b g0 offered] obtain g g1 h where g: "configure_gate (b, off, ds) g0 = Some g"
    "initializeGating T0 g = Some g1" "gate_until fuel offered t g1 = Some h" "pg_isOpen h = cyclic_open b ds (off + (t - T0))" by blast
  have "configureGateScheduling c schedules port i g0 = Some g" using assms(5-7) p(1) g(1) by (simp add: configureGateScheduling_def)
  with g p(5) show ?thesis by (simp add: gate_at_def)
qed

text \<open>
  C6. Refinement of a schedule by gates: for every list of slots in the order of time, with time between them and within the
  cycle, the parameters that are written to a gate are accepted, and the gate is open, at every later time and after all
  its changes so far, exactly when the time of the cycle is in one of the slots.
\<close>

theorem scheduled_gate_follows_slots:
  assumes "sc_open schedule" "sc_cycleDuration schedule = c" "0 < c" "slots_ordered (-1) c (sc_slots schedule)"
    and "map_of schedules port = Some ss" "i < length ss" "ss ! i = schedule"
    and "T0 \<le> t" "nat (t - T0) + 1 < fuel"
  shows "\<exists>h. gate_at c schedules port i g0 T0 fuel offered t = Some h \<and> pg_isOpen h = in_slot (sc_slots schedule) ((t - T0) mod c)"
  by (rule scheduled_gate_base[OF assms])

definition sample_schedule :: gate_schedule where
  "sample_schedule = \<lparr>sc_gateIndex = 0, sc_cycleStart = 0, sc_cycleDuration = 20, sc_slots = [(3, 4), (10, 5)], sc_open = True\<rparr>"

theorem scheduled_gate_follows_slots_witness:
  "\<exists>h. gate_at 20 [(7, [sample_schedule])] 7 0 example_gate 0 60 (\<lambda>_. None) 52 = Some h \<and> pg_isOpen h"
  using scheduled_gate_follows_slots[of sample_schedule 20 "[(7, [sample_schedule])]" 7 "[sample_schedule]" 0 0 52 60 example_gate "\<lambda>_. None"]
  by (simp add: sample_schedule_def in_slot_def)

section \<open>The gates of an interface\<close>

definition inside_cycle :: "simtime \<Rightarrow> eslot list \<Rightarrow> bool" where
  "inside_cycle c slots \<longleftrightarrow> (\<forall>s \<in> set slots. 0 \<le> gateOpenTime s \<and> gateOpenTime s < gateCloseTime s \<and> gateCloseTime s \<le> c)"

definition plain_slot :: "eslot \<Rightarrow> simtime \<times> simtime" where
  "plain_slot s = (gateOpenTime s, gateCloseTime s - gateOpenTime s)"

definition plain_apart :: "simtime \<Rightarrow> simtime \<times> simtime \<Rightarrow> simtime \<times> simtime \<Rightarrow> bool" where
  "plain_apart gap a b \<longleftrightarrow> fst a + snd a + gap \<le> fst b \<or> fst b + snd b + gap \<le> fst a"

lemma cycle_slots_inside:
  assumes "inside_cycle c slots" "s \<in> set slots"
  shows "cycle_slots c s = [plain_slot s]"
proof -
  have s: "0 \<le> gateOpenTime s" "gateOpenTime s < c" "gateCloseTime s \<le> c" using assms by (auto simp: inside_cycle_def)
  then have "raw_rem (gateOpenTime s) c = gateOpenTime s" by (cases "gateOpenTime s = 0") (simp_all add: raw_rem_def)
  then show ?thesis using s by (simp add: cycle_slots_def plain_slot_def)
qed

lemma gate_slots_inside:
  assumes "inside_cycle c slots"
  shows "sc_slots (gate_schedule_of c slots i) = sort_key fst (map plain_slot (filter (\<lambda>s. gateOpenIndex s = i) slots))"
proof -
  have "concat (map (cycle_slots c) xs) = map plain_slot xs" if "set xs \<subseteq> set slots" for xs
    using that by (induction xs) (simp_all add: cycle_slots_inside[OF assms])
  from this[of "filter (\<lambda>s. gateOpenIndex s = i) slots"] show ?thesis by (simp add: gate_schedule_of_def)
qed

lemma sorted_wrt_symmetric:
  assumes "\<And>a b. P a b \<Longrightarrow> P b a" "sorted_wrt P xs" "mset xs = mset ys"
  shows "sorted_wrt P ys"
  using assms(2,3)
proof (induction xs arbitrary: ys)
  case (Cons x xs)
  have "x \<in> set ys" using Cons.prems(2) by (metis list.set_intros(1) set_mset_mset)
  then obtain us vs where ys: "ys = us @ x # vs" by (meson split_list)
  have m: "mset xs = mset (us @ vs)" using Cons.prems(2) by (simp add: ys)
  then have "set xs = set (us @ vs)" by (metis set_mset_mset)
  moreover have "sorted_wrt P (us @ vs)" using Cons.IH[OF _ m] Cons.prems(1) by simp
  ultimately show ?case using Cons.prems(1) assms(1) by (auto simp: ys sorted_wrt_append)
qed simp

lemma plain_ordered:
  assumes "sorted (map fst xs)" "sorted_wrt (plain_apart gap) xs" "0 < gap" "\<forall>(s, d) \<in> set xs. e < s \<and> 0 < d \<and> s + d \<le> c"
  shows "slots_ordered e c xs"
  using assms(1,2,4)
proof (induction xs arbitrary: e)
  case (Cons x xs)
  obtain s d where x: "x = (s, d)" by (cases x)
  have "s + d < s'" if "(s', d') \<in> set xs" for s' d'
  proof -
    have "s \<le> s'" "plain_apart gap (s, d) (s', d')" "0 < d'" using that Cons.prems by (force simp: x)+
    then show ?thesis using assms(3) by (auto simp: plain_apart_def)
  qed
  then have "\<forall>(s', d') \<in> set xs. s + d < s' \<and> 0 < d' \<and> s' + d' \<le> c" using Cons.prems(3) by auto
  with Cons.IH[of "s + d"] Cons.prems show ?case by (auto simp: x)
qed simp

lemma gate_slots_ordered:
  assumes "inside_cycle c slots" "sorted_wrt (apart gap) slots" "0 < gap"
  shows "slots_ordered (-1) c (sc_slots (gate_schedule_of c slots i))"
proof -
  let ?xs = "map plain_slot (filter (\<lambda>s. gateOpenIndex s = i) slots)"
  have "sorted_wrt (apart gap) (filter (\<lambda>s. gateOpenIndex s = i) slots)" by (rule sorted_wrt_filter[OF assms(2)])
  then have "sorted_wrt (plain_apart gap) ?xs"
    by (simp add: sorted_wrt_map plain_slot_def plain_apart_def apart_def[abs_def])
  then have "sorted_wrt (plain_apart gap) (sort_key fst ?xs)"
    by (rule sorted_wrt_symmetric[rotated]) (auto simp: plain_apart_def)
  moreover have "\<forall>(s, d) \<in> set (sort_key fst ?xs). - 1 < s \<and> 0 < d \<and> s + d \<le> c"
    using assms(1) by (auto simp: inside_cycle_def plain_slot_def)
  ultimately show ?thesis unfolding gate_slots_inside[OF assms(1)] by (intro plain_ordered[OF _ _ assms(3)]) simp_all
qed

lemma gate_slots_in:
  assumes "inside_cycle c slots"
  shows "in_slot (sc_slots (gate_schedule_of c slots i)) t \<longleftrightarrow>
    (\<exists>s \<in> set slots. gateOpenIndex s = i \<and> gateOpenTime s \<le> t \<and> t < gateCloseTime s)"
  unfolding gate_slots_inside[OF assms] in_slot_def by (auto simp: plain_slot_def)

text \<open>
  C7. When the slots of an eager schedule on an interface do not run past the end of the cycle, and the first reserved one is
  the earliest, only one gate of the interface is open at any time. The conditions on the slots of the interface are: each lies
  inside the cycle (\<open>inside_cycle\<close>), which the scheduler does not check for later packets or flows, and the first reserved one
  is also the earliest (\<open>earliest_first\<close>); \<open>wrapped_slots_overlap\<close> shows slots that overlap without the first
  condition, which the scheduler accepts. Then the gates, configured from the schedule and run to any time, are open exactly
  during their own slots, and two different gates are never open together.
\<close>

theorem eager_gates_exclusive:
  assumes "eager_slots conv net c flows = Some (offsets, sched)" "computeGateScheduling conv net c flows ports = Some (offsets, schedules)"
    and "distinct (map fst ports)" "(port, numGates) \<in> set ports" "0 < c" "0 < hop_gap conv net port"
    and "inside_cycle c (sched port)" "earliest_first (sched port)"
    and "i \<noteq> j" "int i < numGates" "int j < numGates" "T0 \<le> t" "nat (t - T0) + 1 < fuel"
  shows "\<exists>h h'. gate_at c schedules port i g0 T0 fuel offered t = Some h \<and> gate_at c schedules port j g0' T0 fuel offered' t = Some h' \<and>
    (pg_isOpen h \<longleftrightarrow> (\<exists>s \<in> set (sched port). gateOpenIndex s = int i \<and> gateOpenTime s \<le> (t - T0) mod c \<and> (t - T0) mod c < gateCloseTime s)) \<and>
    \<not> (pg_isOpen h \<and> pg_isOpen h')"
proof -
  have ap: "sorted_wrt (apart (hop_gap conv net port)) (sched port)"
    using eager_slots_apart_base[OF assms(1), of port] assms(8) by (simp add: slots_apart_def)
  let ?ss = "map (gate_schedule_of c (sched port)) [0..numGates - 1]"
  have "schedules = map (\<lambda>(port, numGates). (port, map (gate_schedule_of c (sched port)) [0..numGates - 1])) ports"
    using assms(1,2) by (simp add: computeGateScheduling_def)
  moreover have "map_of (map (\<lambda>(port, numGates). (port, f port numGates)) ports) port = Some (f port numGates)" for f :: "iface \<Rightarrow> int \<Rightarrow> gate_schedule list"
    using assms(3,4) by (induction ports) force+
  ultimately have m: "map_of schedules port = Some ?ss" by simp
  have nth: "k < length ?ss \<and> ?ss ! k = gate_schedule_of c (sched port) (int k)" if "int k < numGates" for k
    using that by simp
  let ?u = "(t - T0) mod c"
  have gate: "\<exists>h. gate_at c schedules port k g T0 fuel off t = Some h \<and>
      pg_isOpen h = (\<exists>s \<in> set (sched port). gateOpenIndex s = int k \<and> gateOpenTime s \<le> ?u \<and> ?u < gateCloseTime s)"
    if k: "int k < numGates" for k g off
    using scheduled_gate_base[OF _ _ assms(5) gate_slots_ordered[OF assms(7) ap assms(6)] m _ _ assms(12,13), of "int k" k g off]
      nth[OF k] gate_slots_in[OF assms(7)] by (simp add: gate_schedule_of_def)
  have "s = s'" if s: "s \<in> set (sched port)" "s' \<in> set (sched port)" "gateOpenTime s \<le> ?u" "?u < gateCloseTime s"
      "gateOpenTime s' \<le> ?u" "?u < gateCloseTime s'" for s s'
  proof (rule ccontr)
    assume ne: "s \<noteq> s'"
    obtain a b where ab: "a < length (sched port)" "s = sched port ! a" "b < length (sched port)" "s' = sched port ! b"
      using s(1,2) by (metis in_set_conv_nth)
    with ne have "a < b \<or> b < a" by (metis linorder_neqE_nat)
    then have "apart (hop_gap conv net port) s s' \<or> apart (hop_gap conv net port) s' s"
      using ap ab by (auto simp: sorted_wrt_iff_nth_less)
    then show False using s(3-6) assms(6) by (auto simp: apart_def)
  qed
  then have "\<not> ((\<exists>s \<in> set (sched port). gateOpenIndex s = int i \<and> gateOpenTime s \<le> ?u \<and> ?u < gateCloseTime s) \<and>
      (\<exists>s \<in> set (sched port). gateOpenIndex s = int j \<and> gateOpenTime s \<le> ?u \<and> ?u < gateCloseTime s))"
    using assms(9) by (metis of_nat_eq_iff)
  with gate[OF assms(10), of g0 offered] gate[OF assms(11), of g0' offered'] show ?thesis by metis
qed

section \<open>Witnesses\<close>

definition two_flows :: "eager_flow list" where
  "two_flows = [sample_flow 0 [''y'', ''z''], sample_flow 1 [''y'', ''z'']]"

lemma two_flows_slots:
  "\<exists>sched. eager_slots ticks sample_net 100 two_flows = Some ([0, 21], sched) \<and>
     sched 3 = [\<lparr>gateOpenIndex = 0, gateOpenTime = 0, gateCloseTime = 20\<rparr>, \<lparr>gateOpenIndex = 1, gateOpenTime = 21, gateCloseTime = 41\<rparr>]"
  by (simp add: eager_eval two_flows_def)

lemma sample_gap: "hop_gap ticks sample_net ifc = 1"
  by (simp add: hop_gap_def ticks_def sample_net_def)

theorem eager_slots_keep_distance_witness:
  "\<exists>offsets sched. eager_slots ticks sample_net 100 two_flows = Some (offsets, sched) \<and> apart 1 (sched 3 ! 0) (sched 3 ! 1)"
proof -
  from two_flows_slots obtain sched where s: "eager_slots ticks sample_net 100 two_flows = Some ([0, 21], sched)"
    "sched 3 = [\<lparr>gateOpenIndex = 0, gateOpenTime = 0, gateCloseTime = 20\<rparr>, \<lparr>gateOpenIndex = 1, gateOpenTime = 21, gateCloseTime = 41\<rparr>]" by blast
  have "apart (hop_gap ticks sample_net 3) (sched 3 ! 0) (sched 3 ! 1)"
    by (rule eager_slots_keep_distance[OF s(1)]) (simp_all add: s(2) earliest_first_def)
  then show ?thesis unfolding sample_gap using s(1) by blast
qed

theorem eager_first_packet_witness:
  "let busy = (\<lambda>_. [])(3 := [\<lparr>gateOpenIndex = 0, gateOpenTime = 0, gateCloseTime = 20\<rparr>]); f = sample_flow 1 [''y'', ''z''] in
   computeStreamStartOffset ticks sample_net f busy = Some 21 \<and>
   addGateScheduling ticks sample_net 100 f 0 1 21 busy = Some (reserve f (3, 21, 41) busy)"
proof -
  let ?busy = "(\<lambda>_. [])(3 := [\<lparr>gateOpenIndex = 0, gateOpenTime = 0, gateCloseTime = 20\<rparr>]) :: iface_schedules"
  let ?f = "sample_flow 1 [''y'', ''z'']"
  have n: "net_ok ticks sample_net" "flow_ok ?f" by (simp_all add: net_ok_def flow_ok_def ticks_def sample_net_def sample_flow_def)
  have "{ifc. ?busy ifc \<noteq> []} \<subseteq> {3}" by auto
  then have fin: "finite {ifc. ?busy ifc \<noteq> []}" by (rule finite_subset) simp
  have p: "fl_pathFragments ?f = [[''y'', ''z'']]" "hd [''y'', ''z''] = fl_source ?f" "last [''y'', ''z''] = fl_destination ?f"
    "\<And>t. distinct (map fst (travel ticks sample_net ?f [''y'', ''z''] t))" by (simp_all add: sample_flow_def Let_def)
  have c: "computeStreamStartOffset ticks sample_net ?f ?busy = Some 21" by (simp add: eager_eval)
  have t: "travel ticks sample_net ?f [''y'', ''z''] 21 = [(3, 21, 41)]" "travel_end ticks sample_net ?f [''y'', ''z''] 21 = 41"
    by (simp_all add: sample_net_def sample_flow_def hop_duration_def ticks_def Let_def)
  from eager_first_packet[OF n fin p, of 100] obtain u where u: "computeStreamStartOffset ticks sample_net ?f ?busy = Some u"
    "addGateScheduling ticks sample_net 100 ?f 0 1 u ?busy =
      (if (\<forall>(ifc, op, cl) \<in> set (travel ticks sample_net ?f [''y'', ''z''] u). cl \<le> u + 100) \<and>
          travel_end ticks sample_net ?f [''y'', ''z''] u - u \<le> fl_maxLatency ?f
       then Some (fold (reserve ?f) (travel ticks sample_net ?f [''y'', ''z''] u) ?busy) else None)" by blast
  have u21: "u = 21" using u(1) c by simp
  have l: "fl_maxLatency ?f = 100" by (simp add: sample_flow_def)
  have "addGateScheduling ticks sample_net 100 ?f 0 1 21 ?busy = Some (reserve ?f (3, 21, 41) ?busy)"
    using u(2) unfolding u21 t l by simp
  with c show ?thesis unfolding Let_def by blast
qed

theorem eager_gates_exclusive_witness:
  "\<exists>offsets schedules h h'. computeGateScheduling ticks sample_net 100 two_flows [(3, 2)] = Some (offsets, schedules) \<and>
     gate_at 100 schedules 3 0 example_gate 0 140 (\<lambda>_. None) 130 = Some h \<and>
     gate_at 100 schedules 3 1 example_gate 0 140 (\<lambda>_. None) 130 = Some h' \<and> \<not> pg_isOpen h"
proof -
  from two_flows_slots obtain sched where s: "eager_slots ticks sample_net 100 two_flows = Some ([0, 21], sched)"
    "sched 3 = [\<lparr>gateOpenIndex = 0, gateOpenTime = 0, gateCloseTime = 20\<rparr>, \<lparr>gateOpenIndex = 1, gateOpenTime = 21, gateCloseTime = 41\<rparr>]" by blast
  obtain schedules where c: "computeGateScheduling ticks sample_net 100 two_flows [(3, 2)] = Some ([0, 21], schedules)"
    using s(1) by (simp add: computeGateScheduling_def)
  have "inside_cycle 100 (sched 3)" "earliest_first (sched 3)" by (simp_all add: s(2) inside_cycle_def earliest_first_def)
  from eager_gates_exclusive[OF s(1) c _ _ _ _ this, of 2 0 1 0 130 140 example_gate "\<lambda>_. None" example_gate "\<lambda>_. None"] s(2) c
  show ?thesis by (auto simp: sample_gap)
qed

end
