(* ===== verification/Goose_Source.thy ===== *)
theory Goose_Source
  imports Prelude
begin

text \<open>
  \<open>ActivePacketSource\<close> (src/inet/src/inet/queueing/source/ActivePacketSource.cc) with the GOOSE mode
  of the thesis: events at random times, up to four copies of an event after 1, 2, 102 and 352 ms,
  and heartbeats every 500 ms while nothing else is due.

  Times are raw picoseconds. The random numbers are an argument. Reading the front of an empty
  vector is undefined in C++: the value read is the field \<open>gs_junk\<close>, about which nothing is known;
  erasing from an empty vector and scheduling into the past are \<open>None\<close>.
\<close>

section \<open>State\<close>

datatype goose_kind = GooseHeartbeat | GooseEvent | GooseCopy nat | PeriodicPacket

record goose =
  gs_now :: clocktime
  gs_productionTimer :: "clocktime option"
  gs_initialProductionOffset :: clocktime
  gs_initialProductionOffsetScheduled :: bool
  gs_productionInterval :: clocktime
  gs_scheduleForAbsoluteTime :: bool
  gs_useGoose :: bool
  gs_randomTimes :: "clocktime list"
  gs_heartbeatTimes :: "clocktime list"
  gs_gooseCopyPeriods :: "clocktime list"
  gs_gooseCopiesSent :: nat
  gs_currentCopyDelay :: clocktime
  gs_pastEventTime :: clocktime
  gs_lastHeartbeatTime :: clocktime
  gs_previousWasHeartbeat :: bool
  gs_heartbeat :: bool
  gs_oldIndex :: nat
  gs_junk :: clocktime
  gs_produced :: "(clocktime \<times> goose_kind) list"

text \<open>The constants 1 ms, 0.5 s and 0.352 s in picoseconds.\<close>

definition MS :: clocktime where
  "MS = 10 ^ 9"

definition HEARTBEAT_INTERVAL :: clocktime where
  "HEARTBEAT_INTERVAL = 500 * MS"

definition COPY_WINDOW :: clocktime where
  "COPY_WINDOW = 352 * MS"

definition copy_periods :: "clocktime list" where
  "copy_periods = [1 * MS, 1 * MS, 100 * MS, 250 * MS]"

definition front :: "clocktime \<Rightarrow> clocktime list \<Rightarrow> clocktime" where
  "front junk xs = (case xs of [] \<Rightarrow> junk | x # _ \<Rightarrow> x)"

definition erase_front :: "clocktime list \<Rightarrow> clocktime list option" where
  "erase_front xs = (case xs of [] \<Rightarrow> None | _ # ys \<Rightarrow> Some ys)"

definition goose_scheduleAt :: "clocktime \<Rightarrow> goose \<Rightarrow> goose option" where
  "goose_scheduleAt t s = do { ensure (gs_now s \<le> t); Some (s\<lparr>gs_productionTimer := Some t\<rparr>) }"

section \<open>Operations\<close>

text \<open>
  The event times drawn in \<open>initialize\<close>: \<open>perSec\<close> draws in each of the \<open>seconds\<close> one-second
  intervals below the simulation time limit.
\<close>

definition random_times :: "(nat \<Rightarrow> nat \<Rightarrow> clocktime) \<Rightarrow> nat \<Rightarrow> nat \<Rightarrow> clocktime list" where
  "random_times draw seconds perSec =
     sort (concat (map (\<lambda>j. map (draw j) [0..<perSec]) [0..<seconds]))"

definition heartbeat_times :: "clocktime list" where
  "heartbeat_times = map (\<lambda>i. int i * HEARTBEAT_INTERVAL) [0..<21]"

definition goose_initialize :: "(nat \<Rightarrow> nat \<Rightarrow> clocktime) \<Rightarrow> nat \<Rightarrow> nat \<Rightarrow> goose \<Rightarrow> goose option" where
  "goose_initialize draw seconds perSec s =
     (if gs_useGoose s then
        do {
          let s = s\<lparr>gs_randomTimes := random_times draw seconds perSec, gs_gooseCopyPeriods := copy_periods,
            gs_heartbeatTimes := heartbeat_times\<rparr>;
          s \<leftarrow> goose_scheduleAt (front (gs_junk s) (gs_heartbeatTimes s)) s;
          hb \<leftarrow> erase_front (gs_heartbeatTimes s);
          Some (s\<lparr>gs_lastHeartbeatTime := 0, gs_heartbeatTimes := hb\<rparr>)
        }
      else Some s)"

text \<open>The two ways \<open>scheduleProductionTimer\<close> schedules the next event and the next heartbeat.\<close>

definition schedule_next_event :: "goose \<Rightarrow> goose option" where
  "schedule_next_event s =
     do {
       let nextEventTime = front (gs_junk s) (gs_randomTimes s);
       s \<leftarrow> goose_scheduleAt nextEventTime s;
       rest \<leftarrow> erase_front (gs_randomTimes s);
       Some (s\<lparr>gs_pastEventTime := nextEventTime, gs_randomTimes := rest, gs_gooseCopiesSent := 0,
         gs_currentCopyDelay := 0, gs_previousWasHeartbeat := False\<rparr>)
     }"

definition schedule_heartbeat :: "clocktime \<Rightarrow> goose \<Rightarrow> goose option" where
  "schedule_heartbeat nextHeartbeatTime s =
     do {
       s \<leftarrow> goose_scheduleAt nextHeartbeatTime s;
       hb \<leftarrow> erase_front (gs_heartbeatTimes s);
       Some (s\<lparr>gs_lastHeartbeatTime := nextHeartbeatTime, gs_heartbeatTimes := hb,
         gs_previousWasHeartbeat := True\<rparr>)
     }"

text \<open>
  A heartbeat at most 352 ms after the next event is suppressed. The result tells whether a
  heartbeat may be scheduled now.
\<close>

definition suppress_heartbeat :: "clocktime \<Rightarrow> goose \<Rightarrow> (bool \<times> goose) option" where
  "suppress_heartbeat nextHeartbeatTime s =
     (let nextEventTime = front (gs_junk s) (gs_randomTimes s) in
      if nextEventTime \<le> nextHeartbeatTime then
        (if nextEventTime + COPY_WINDOW \<ge> nextHeartbeatTime then
           do { hb \<leftarrow> erase_front (gs_heartbeatTimes s); Some (False, s\<lparr>gs_heartbeatTimes := hb\<rparr>) }
         else Some (False, s))
      else Some (True, s))"

definition scheduleProductionTimer :: "clocktime \<Rightarrow> goose \<Rightarrow> goose option" where
  "scheduleProductionTimer delay s0 =
     (let s = s0\<lparr>gs_productionTimer := None\<rparr>;
          nextHeartbeatTime = front (gs_junk s) (gs_heartbeatTimes s) in
      if gs_randomTimes s \<noteq> [] then
        do {
          let timeBetweenEvents = front (gs_junk s) (gs_randomTimes s) - gs_pastEventTime s;
          (shouldScheduleHeartbeat, s) \<leftarrow> suppress_heartbeat nextHeartbeatTime s;
          (if gs_scheduleForAbsoluteTime s then
             (if gs_gooseCopiesSent s < 4 \<and> \<not> gs_previousWasHeartbeat s then
                do {
                  let d = gs_currentCopyDelay s + gs_gooseCopyPeriods s ! gs_gooseCopiesSent s;
                  let s = s\<lparr>gs_currentCopyDelay := d\<rparr>;
                  (if timeBetweenEvents > d then
                     do {
                       s \<leftarrow> goose_scheduleAt (gs_pastEventTime s + d) s;
                       Some (s\<lparr>gs_gooseCopiesSent := gs_gooseCopiesSent s + 1, gs_previousWasHeartbeat := False\<rparr>)
                     }
                   else schedule_next_event s)
                }
              else if shouldScheduleHeartbeat then schedule_heartbeat nextHeartbeatTime s
              else schedule_next_event s)
           else Some s)
        }
      else
        (if gs_scheduleForAbsoluteTime s then goose_scheduleAt (gs_now s + delay) s
         else do { ensure (0 \<le> delay); Some (s\<lparr>gs_productionTimer := Some (gs_now s + delay)\<rparr>) }))"

definition produced_kind :: "goose \<Rightarrow> goose_kind" where
  "produced_kind s =
     (if gs_useGoose s then
        (if gs_heartbeat s then GooseHeartbeat
         else if gs_oldIndex s = 0 then GooseEvent else GooseCopy (gs_oldIndex s))
      else PeriodicPacket)"

definition producePacket :: "goose \<Rightarrow> goose" where
  "producePacket s =
     (let s' = s\<lparr>gs_produced := gs_produced s @ [(gs_now s, produced_kind s)]\<rparr> in
      if gs_useGoose s
      then s'\<lparr>gs_heartbeat := gs_previousWasHeartbeat s, gs_oldIndex := gs_gooseCopiesSent s\<rparr>
      else s')"

text \<open>
  The consumer's readiness is the argument \<open>ready\<close>; the timer has just expired when
  \<open>goose_handleMessage\<close> runs.
\<close>

definition goose_handleMessage :: "bool \<Rightarrow> goose \<Rightarrow> goose option" where
  "goose_handleMessage ready s =
     (if ready then
        do { s \<leftarrow> scheduleProductionTimer (gs_productionInterval s) s; Some (producePacket s) }
      else Some s)"

definition scheduleProductionTimerAndProducePacket :: "bool \<Rightarrow> goose \<Rightarrow> goose option" where
  "scheduleProductionTimerAndProducePacket ready s =
     (if \<not> gs_initialProductionOffsetScheduled s \<and> gs_initialProductionOffset s \<ge> 0 then
        do {
          s \<leftarrow> scheduleProductionTimer (gs_initialProductionOffset s) s;
          Some (s\<lparr>gs_initialProductionOffsetScheduled := True\<rparr>)
        }
      else if ready then
        do { s \<leftarrow> scheduleProductionTimer (gs_productionInterval s) s; Some (producePacket s) }
      else Some s)"

text \<open>\<open>handleCanPushPacketChanged\<close>, and the queueing stage of \<open>initialize\<close>.\<close>

definition goose_canPushPacketChanged :: "bool \<Rightarrow> goose \<Rightarrow> goose option" where
  "goose_canPushPacketChanged ready s =
     (if gs_productionTimer s = None then scheduleProductionTimerAndProducePacket ready s else Some s)"

section \<open>Runs\<close>

text \<open>The next timer expiry, and \<open>n\<close> of them; the consumer is always ready.\<close>

definition goose_step :: "goose \<Rightarrow> goose option" where
  "goose_step s =
     do {
       t \<leftarrow> gs_productionTimer s;
       goose_handleMessage True (s\<lparr>gs_now := t, gs_productionTimer := None\<rparr>)
     }"

fun goose_run :: "nat \<Rightarrow> goose \<Rightarrow> goose option" where
  "goose_run 0 s = Some s"
| "goose_run (Suc n) s = do { s \<leftarrow> goose_step s; goose_run n s }"

section \<open>The schedule of a run\<close>

definition events_of :: "(clocktime \<times> goose_kind) list \<Rightarrow> clocktime list" where
  "events_of hist = map fst (filter (\<lambda>p. snd p = GooseEvent) hist)"

text \<open>The time of the \<open>i\<close>-th copy after its event, and the copies of an event at \<open>r\<close>: the first
  \<open>c\<close>, and those that come before the next event at \<open>r'\<close>.\<close>

definition copy_delay :: "nat \<Rightarrow> clocktime" where
  "copy_delay i = sum_list (take i copy_periods)"

definition copies_sent :: "clocktime \<Rightarrow> nat \<Rightarrow> (clocktime \<times> goose_kind) list" where
  "copies_sent r c = map (\<lambda>i. (r + copy_delay i, GooseCopy i)) [1..<Suc c]"

definition copies_until :: "clocktime \<Rightarrow> clocktime \<Rightarrow> (clocktime \<times> goose_kind) list" where
  "copies_until r r' = filter (\<lambda>p. fst p < r') (copies_sent r 4)"

text \<open>What a source has to send for its events, up to the last of them: each event at its time, followed
  by every one of its four copies whose time comes before the next event.\<close>

fun goose_log :: "clocktime list \<Rightarrow> (clocktime \<times> goose_kind) list" where
  "goose_log [] = []"
| "goose_log [r] = [(r, GooseEvent)]"
| "goose_log (r # r' # rs) = (r, GooseEvent) # copies_until r r' @ goose_log (r' # rs)"

definition without_heartbeats :: "(clocktime \<times> goose_kind) list \<Rightarrow> (clocktime \<times> goose_kind) list" where
  "without_heartbeats hist = filter (\<lambda>p. snd p \<noteq> GooseHeartbeat) hist"

lemma without_heartbeats_simps [simp]:
  "without_heartbeats [] = []"
  "without_heartbeats (hist @ hist') = without_heartbeats hist @ without_heartbeats hist'"
  "without_heartbeats ((t, k) # hist) = (if k = GooseHeartbeat then [] else [(t, k)]) @ without_heartbeats hist"
  by (simp_all add: without_heartbeats_def)

lemma goose_log_snoc:
  "es \<noteq> [] \<Longrightarrow> goose_log (es @ [r']) = goose_log es @ copies_until (last es) r' @ [(r', GooseEvent)]"
  by (induction es rule: goose_log.induct) auto

lemma copies_sent_Suc: "copies_sent r (Suc c) = copies_sent r c @ [(r + copy_delay (Suc c), GooseCopy (Suc c))]"
  by (simp add: copies_sent_def)

lemma events_of_append [simp]: "events_of (xs @ ys) = events_of xs @ events_of ys"
  by (simp add: events_of_def)

lemma events_of_Cons [simp]: "events_of ((t, k) # hist) = (if k = GooseEvent then t # events_of hist else events_of hist)"
  by (simp add: events_of_def)

lemma events_of_nil [simp]: "events_of [] = []"
  by (simp add: events_of_def)

lemma events_of_without_heartbeats: "events_of (without_heartbeats hist) = events_of hist"
  unfolding events_of_def without_heartbeats_def filter_filter
  by (intro arg_cong[of _ _ "map fst"] filter_cong) auto

lemma events_of_copies: "events_of (copies_until r r') = []"
  by (auto simp: events_of_def copies_until_def copies_sent_def filter_empty_conv)

lemma events_of_log: "events_of (goose_log rs) = rs"
  by (induction rs rule: goose_log.induct) (simp_all add: events_of_copies)

lemma copy_delay_mono: "i \<le> j \<Longrightarrow> j \<le> 4 \<Longrightarrow> copy_delay i \<le> copy_delay j"
proof -
  assume "i \<le> j" "j \<le> 4"
  then have "i \<in> {0, 1, 2, 3, 4}" "j \<in> {0, 1, 2, 3, 4}" by auto
  with \<open>i \<le> j\<close> show ?thesis by (auto simp: copy_delay_def copy_periods_def MS_def)
qed

text \<open>The copies sent when the next event is due are those whose time comes before it.\<close>

lemma copies_until_sent:
  assumes "c \<le> 4" "0 < c \<longrightarrow> r + copy_delay c < r'" "c < 4 \<longrightarrow> r' \<le> r + copy_delay (Suc c)"
  shows "copies_until r r' = copies_sent r c"
proof -
  have e: "[1..<Suc 4] = [1..<Suc c] @ [Suc c..<Suc 4]" using assms(1) upt_add_eq_append[of 1 "Suc c" "4 - c"] by simp
  have "\<forall>i \<in> set [1..<Suc c]. r + copy_delay i < r'"
  proof
    fix i assume "i \<in> set [1..<Suc c]"
    then have "0 < c" "copy_delay i \<le> copy_delay c" using copy_delay_mono[of i c] assms(1) by auto
    with assms(2) show "r + copy_delay i < r'" by simp
  qed
  moreover have "\<forall>i \<in> set [Suc c..<Suc 4]. \<not> r + copy_delay i < r'"
  proof
    fix i assume "i \<in> set [Suc c..<Suc 4]"
    then have "c < 4" "copy_delay (Suc c) \<le> copy_delay i" using copy_delay_mono[of "Suc c" i] by auto
    with assms(3) show "\<not> r + copy_delay i < r'" by simp
  qed
  ultimately show ?thesis
    unfolding copies_until_def copies_sent_def e map_append filter_append
    by (simp add: filter_map comp_def filter_id_conv filter_empty_conv del: upt_Suc)
qed

text \<open>
  The state between two timer expiries: \<open>T\<close> is the scheduled time, \<open>k\<close> the number of the next
  heartbeat.
\<close>

definition goose_mode :: "goose \<Rightarrow> bool" where
  "goose_mode s \<longleftrightarrow> gs_useGoose s \<and> gs_scheduleForAbsoluteTime s \<and> gs_gooseCopyPeriods s = copy_periods \<and>
     0 \<le> gs_productionInterval s"

definition scheduled :: "goose \<Rightarrow> clocktime \<Rightarrow> nat \<Rightarrow> bool" where
  "scheduled s T k \<longleftrightarrow>
     gs_productionTimer s = Some T \<and> gs_now s \<le> T \<and> sorted (gs_randomTimes s) \<and>
     (\<forall>r \<in> set (gs_randomTimes s). T \<le> r \<and> r < 9648 * MS) \<and>
     gs_heartbeatTimes s = map (\<lambda>i. int i * HEARTBEAT_INTERVAL) [k..<21] \<and> k < 21 \<and>
     gs_gooseCopiesSent s \<le> 4 \<and>
     gs_currentCopyDelay s = sum_list (take (gs_gooseCopiesSent s) copy_periods) \<and>
     (if gs_previousWasHeartbeat s then T < int k * HEARTBEAT_INTERVAL
      else T = gs_pastEventTime s + gs_currentCopyDelay s \<and>
        gs_pastEventTime s + COPY_WINDOW < int k * HEARTBEAT_INTERVAL) \<and>
     gs_heartbeat s = gs_previousWasHeartbeat s \<and> gs_oldIndex s = gs_gooseCopiesSent s"

text \<open>The packets sent and the one about to be sent, without heartbeats, are what the events \<open>es\<close> so far and
  the copies of the last of them ask for.\<close>

definition sent_log :: "goose \<Rightarrow> clocktime \<Rightarrow> (clocktime \<times> goose_kind) list" where
  "sent_log s T = without_heartbeats (gs_produced s @ [(T, produced_kind s)])"

definition event_log_ok :: "clocktime list \<Rightarrow> goose \<Rightarrow> clocktime \<Rightarrow> bool" where
  "event_log_ok es s T \<longleftrightarrow>
     (if es = [] then sent_log s T = [] \<and> gs_previousWasHeartbeat s
      else sent_log s T = goose_log es @ copies_sent (last es) (gs_gooseCopiesSent s) \<and>
        gs_pastEventTime s = last es \<and> (gs_previousWasHeartbeat s \<longrightarrow> gs_gooseCopiesSent s = 4) \<and>
        (0 < gs_gooseCopiesSent s \<longrightarrow> (\<forall>r \<in> set (gs_randomTimes s). last es + copy_delay (gs_gooseCopiesSent s) < r)) \<and>
        (gs_randomTimes s = [] \<longrightarrow> gs_gooseCopiesSent s = 0 \<and> \<not> gs_previousWasHeartbeat s))"

definition log_ok :: "clocktime list \<Rightarrow> goose \<Rightarrow> clocktime \<Rightarrow> bool" where
  "log_ok rs s T \<longleftrightarrow> (\<exists>es. es @ gs_randomTimes s = rs \<and> event_log_ok es s T)"

lemma copy_delay_step:
  assumes "n < 4"
  shows "sum_list (take (Suc n) copy_periods) = sum_list (take n copy_periods) + copy_periods ! n"
    "0 < copy_periods ! n" "sum_list (take (Suc n) copy_periods) \<le> COPY_WINDOW"
    "0 \<le> sum_list (take n copy_periods)"
proof -
  show "sum_list (take (Suc n) copy_periods) = sum_list (take n copy_periods) + copy_periods ! n"
    using assms by (intro sum_list_take_Suc) (simp add: copy_periods_def)
  have "n \<in> {0, 1, 2, 3}" using assms by auto
  then show "0 < copy_periods ! n" "sum_list (take (Suc n) copy_periods) \<le> COPY_WINDOW"
    "0 \<le> sum_list (take n copy_periods)"
    by (auto simp: copy_periods_def COPY_WINDOW_def MS_def)
qed

lemma copy_delay_full: "sum_list (take 4 copy_periods) = COPY_WINDOW"
  by (simp add: copy_periods_def COPY_WINDOW_def MS_def)

lemma heartbeats_front:
  "k < 21 \<Longrightarrow> map (\<lambda>i. int i * HEARTBEAT_INTERVAL) [k..<21] =
     int k * HEARTBEAT_INTERVAL # map (\<lambda>i. int i * HEARTBEAT_INTERVAL) [Suc k..<21]"
  by (simp add: upt_conv_Cons)

lemma front_Cons [simp]: "front junk (x # xs) = x"
  by (simp add: front_def)

lemma suppress_ok:
  assumes "k < 21" "gs_heartbeatTimes s = map (\<lambda>i. int i * HEARTBEAT_INTERVAL) [k..<21]"
    and "gs_randomTimes s = r # rest" "r < 9648 * MS"
  shows "\<exists>b k2. suppress_heartbeat (int k * HEARTBEAT_INTERVAL) s =
      Some (b, s\<lparr>gs_heartbeatTimes := map (\<lambda>i. int i * HEARTBEAT_INTERVAL) [k2..<21]\<rparr>) \<and>
    k \<le> k2 \<and> k2 < 21 \<and> (b \<longleftrightarrow> int k * HEARTBEAT_INTERVAL < r) \<and> (b \<longrightarrow> k2 = k) \<and>
    (\<not> b \<longrightarrow> r + COPY_WINDOW < int k2 * HEARTBEAT_INTERVAL)"
proof -
  consider (keep) "int k * HEARTBEAT_INTERVAL < r"
    | (erase) "r \<le> int k * HEARTBEAT_INTERVAL" "int k * HEARTBEAT_INTERVAL \<le> r + COPY_WINDOW"
    | (far) "r \<le> int k * HEARTBEAT_INTERVAL" "r + COPY_WINDOW < int k * HEARTBEAT_INTERVAL" by linarith
  then show ?thesis
  proof cases
    case keep
    then show ?thesis using assms
      by (intro exI[of _ True] exI[of _ k]) (simp add: suppress_heartbeat_def front_def)
  next
    case erase
    have "k < 20"
    proof (rule ccontr)
      assume "\<not> k < 20"
      then have "20 * HEARTBEAT_INTERVAL \<le> int k * HEARTBEAT_INTERVAL"
        by (intro mult_right_mono) (simp_all add: HEARTBEAT_INTERVAL_def MS_def)
      with erase(2) assms(4) show False
        by (simp add: HEARTBEAT_INTERVAL_def COPY_WINDOW_def MS_def)
    qed
    moreover have "r + COPY_WINDOW < int (Suc k) * HEARTBEAT_INTERVAL"
      using erase(1) by (simp add: algebra_simps HEARTBEAT_INTERVAL_def COPY_WINDOW_def MS_def)
    ultimately show ?thesis using assms erase
      by (intro exI[of _ False] exI[of _ "Suc k"])
        (simp add: suppress_heartbeat_def front_def erase_front_def heartbeats_front)
  next
    case far
    then show ?thesis using assms
      by (intro exI[of _ False] exI[of _ k]) (simp add: suppress_heartbeat_def front_def)
  qed
qed

text \<open>The three outcomes of a timer expiry.\<close>

lemma schedule_cases:
  assumes m: "goose_mode s" and sch: "scheduled s T k" and r: "gs_randomTimes s = r # rest"
    and u: "u = s\<lparr>gs_now := T, gs_productionTimer := None\<rparr>"
  shows "\<exists>v k'. scheduleProductionTimer d u = Some v \<and> goose_mode v \<and> gs_now v = T \<and>
    gs_heartbeat v = gs_heartbeat s \<and> gs_oldIndex v = gs_oldIndex s \<and> gs_produced v = gs_produced s \<and>
    gs_heartbeatTimes v = map (\<lambda>i. int i * HEARTBEAT_INTERVAL) [k'..<21] \<and> k \<le> k' \<and> k' < 21 \<and>
    ((gs_productionTimer v = Some (gs_pastEventTime s + gs_currentCopyDelay v) \<and> gs_gooseCopiesSent s < 4 \<and>
        \<not> gs_previousWasHeartbeat s \<and> \<not> gs_previousWasHeartbeat v \<and> gs_randomTimes v = r # rest \<and>
        gs_pastEventTime v = gs_pastEventTime s \<and> gs_gooseCopiesSent v = Suc (gs_gooseCopiesSent s) \<and>
        gs_currentCopyDelay v = gs_currentCopyDelay s + copy_periods ! gs_gooseCopiesSent s \<and>
        gs_pastEventTime s + gs_currentCopyDelay v < r) \<or>
     (gs_productionTimer v = Some r \<and> gs_randomTimes v = rest \<and> gs_pastEventTime v = r \<and>
        gs_gooseCopiesSent v = 0 \<and> gs_currentCopyDelay v = 0 \<and> \<not> gs_previousWasHeartbeat v \<and>
        r + COPY_WINDOW < int k' * HEARTBEAT_INTERVAL \<and>
        (gs_gooseCopiesSent s < 4 \<and> \<not> gs_previousWasHeartbeat s \<longrightarrow>
           r \<le> gs_pastEventTime s + gs_currentCopyDelay s + copy_periods ! gs_gooseCopiesSent s)) \<or>
     (gs_productionTimer v = Some (int k * HEARTBEAT_INTERVAL) \<and> gs_previousWasHeartbeat v \<and>
        T \<le> int k * HEARTBEAT_INTERVAL \<and> int k * HEARTBEAT_INTERVAL < r \<and> gs_randomTimes v = r # rest \<and>
        k' = Suc k \<and> gs_pastEventTime v = gs_pastEventTime s \<and>
        gs_gooseCopiesSent v = gs_gooseCopiesSent s \<and> gs_currentCopyDelay v = gs_currentCopyDelay s \<and>
        \<not> (gs_gooseCopiesSent s < 4 \<and> \<not> gs_previousWasHeartbeat s)))"
proof -
  let ?HB = "\<lambda>k. map (\<lambda>i. int i * HEARTBEAT_INTERVAL) [k..<21]"
  have s: "T \<le> r" "r < 9648 * MS" "gs_heartbeatTimes s = ?HB k" "k < 21"
    using sch r by (simp_all add: scheduled_def)
  have ab: "gs_scheduleForAbsoluteTime s" "gs_gooseCopyPeriods s = copy_periods"
    using m by (simp_all add: goose_mode_def)
  obtain b k2 where b: "suppress_heartbeat (int k * HEARTBEAT_INTERVAL) u = Some (b, u\<lparr>gs_heartbeatTimes := ?HB k2\<rparr>)"
    "k \<le> k2" "k2 < 21" "b \<longleftrightarrow> int k * HEARTBEAT_INTERVAL < r" "b \<longrightarrow> k2 = k"
    "\<not> b \<longrightarrow> r + COPY_WINDOW < int k2 * HEARTBEAT_INTERVAL"
    using suppress_ok[of k u r rest] s r u by auto
  have fr: "front (gs_junk u) (gs_heartbeatTimes u) = int k * HEARTBEAT_INTERVAL"
    using s u by (simp add: heartbeats_front)
  have ut: "u\<lparr>gs_productionTimer := None\<rparr> = u" using u by simp
  let ?d = "gs_currentCopyDelay s + copy_periods ! gs_gooseCopiesSent s"
  show ?thesis
  proof (cases "gs_gooseCopiesSent s < 4 \<and> \<not> gs_previousWasHeartbeat s")
    case copying: True
    have T: "T = gs_pastEventTime s + gs_currentCopyDelay s"
      "gs_pastEventTime s + COPY_WINDOW < int k * HEARTBEAT_INTERVAL"
      "gs_currentCopyDelay s = sum_list (take (gs_gooseCopiesSent s) copy_periods)"
      using sch copying by (simp_all add: scheduled_def)
    have cd: "0 < copy_periods ! gs_gooseCopiesSent s" "?d \<le> COPY_WINDOW"
      using copy_delay_step[of "gs_gooseCopiesSent s"] copying T(3) by simp_all
    show ?thesis
    proof (cases "?d < r - gs_pastEventTime s")
      case True
      let ?v = "u\<lparr>gs_heartbeatTimes := ?HB k2, gs_currentCopyDelay := ?d,
        gs_productionTimer := Some (gs_pastEventTime s + ?d), gs_gooseCopiesSent := gs_gooseCopiesSent s + 1,
        gs_previousWasHeartbeat := False\<rparr>"
      have "scheduleProductionTimer d u = Some ?v"
        using copying True b(1) fr ut r ab T(1) cd(1) unfolding u
        by (simp add: scheduleProductionTimer_def Let_def goose_scheduleAt_def)
      then show ?thesis using b(2,3) m copying True r u
        by (intro exI[of _ ?v] exI[of _ k2]) (simp add: goose_mode_def)
    next
      case False
      then have "r \<le> int k * HEARTBEAT_INTERVAL" using T(2) cd(2) by linarith
      with b(4,6) have nb: "r + COPY_WINDOW < int k2 * HEARTBEAT_INTERVAL" by auto
      let ?v = "u\<lparr>gs_heartbeatTimes := ?HB k2, gs_currentCopyDelay := 0,
        gs_productionTimer := Some r, gs_pastEventTime := r, gs_randomTimes := rest, gs_gooseCopiesSent := 0,
        gs_previousWasHeartbeat := False\<rparr>"
      have "scheduleProductionTimer d u = Some ?v"
        using copying False b(1) fr ut r ab s(1) unfolding u
        by (simp add: scheduleProductionTimer_def Let_def goose_scheduleAt_def
            schedule_next_event_def erase_front_def)
      then show ?thesis using b(2,3) m nb u False
        by (intro exI[of _ ?v] exI[of _ k2]) (simp add: goose_mode_def)
    qed
  next
    case nocopy: False
    show ?thesis
    proof (cases b)
      case True
      then have k: "k2 = k" "int k * HEARTBEAT_INTERVAL < r" using b(4,5) by simp_all
      have kk: "k < 20"
      proof (rule ccontr)
        assume "\<not> k < 20"
        then have "20 * HEARTBEAT_INTERVAL \<le> int k * HEARTBEAT_INTERVAL"
          by (intro mult_right_mono) (simp_all add: HEARTBEAT_INTERVAL_def MS_def)
        with k(2) s(2) show False by (simp add: HEARTBEAT_INTERVAL_def MS_def)
      qed
      have T: "T \<le> int k * HEARTBEAT_INTERVAL"
      proof (cases "gs_previousWasHeartbeat s")
        case True
        with sch show ?thesis by (simp add: scheduled_def)
      next
        case False
        with nocopy sch have "gs_gooseCopiesSent s = 4" by (simp add: scheduled_def)
        with False sch show ?thesis using copy_delay_full by (simp add: scheduled_def)
      qed
      let ?v = "u\<lparr>gs_heartbeatTimes := ?HB (Suc k), gs_productionTimer := Some (int k * HEARTBEAT_INTERVAL),
        gs_lastHeartbeatTime := int k * HEARTBEAT_INTERVAL, gs_previousWasHeartbeat := True\<rparr>"
      have "scheduleProductionTimer d u = Some ?v"
        using nocopy True b(1) fr ut r ab T k s(4) unfolding u
        by (auto simp: scheduleProductionTimer_def Let_def goose_scheduleAt_def
            schedule_heartbeat_def erase_front_def heartbeats_front)
      then show ?thesis using m r u T k kk nocopy
        by (intro exI[of _ ?v] exI[of _ "Suc k"]) (simp add: goose_mode_def)
    next
      case False
      then have nb: "r + COPY_WINDOW < int k2 * HEARTBEAT_INTERVAL" using b(6) by simp
      let ?v = "u\<lparr>gs_heartbeatTimes := ?HB k2, gs_currentCopyDelay := 0,
        gs_productionTimer := Some r, gs_pastEventTime := r, gs_randomTimes := rest, gs_gooseCopiesSent := 0,
        gs_previousWasHeartbeat := False\<rparr>"
      have "scheduleProductionTimer d u = Some ?v"
        using nocopy False b(1) fr ut r ab s(1) unfolding u
        by (auto simp: scheduleProductionTimer_def Let_def goose_scheduleAt_def
            schedule_next_event_def erase_front_def)
      then show ?thesis using b(2,3) m nb u nocopy
        by (intro exI[of _ ?v] exI[of _ k2]) (auto simp: goose_mode_def)
    qed
  qed
qed

definition work_left :: "goose \<Rightarrow> nat" where
  "work_left s = 5 * length (gs_randomTimes s) + (4 - gs_gooseCopiesSent s) + length (gs_heartbeatTimes s)"

text \<open>The log after each of the three outcomes.\<close>

lemma sent_log_step:
  "gs_produced t = gs_produced s @ [(T, produced_kind s)] \<Longrightarrow>
   sent_log t T' = sent_log s T @ (if produced_kind t = GooseHeartbeat then [] else [(T', produced_kind t)])"
  by (simp add: sent_log_def)

lemma log_copy:
  assumes "log_ok rs s T" "gs_produced t = gs_produced s @ [(T, produced_kind s)]"
    "\<not> gs_previousWasHeartbeat s" "gs_randomTimes s = r # rest" "sorted (r # rest)" "gs_randomTimes t = r # rest"
    "gs_pastEventTime t = gs_pastEventTime s" "gs_gooseCopiesSent t = Suc (gs_gooseCopiesSent s)"
    "\<not> gs_previousWasHeartbeat t" "produced_kind t = GooseCopy (gs_gooseCopiesSent t)"
    "T' = gs_pastEventTime s + copy_delay (gs_gooseCopiesSent t)" "T' < r"
  shows "log_ok rs t T'"
proof -
  obtain es where es: "es @ r # rest = rs" "event_log_ok es s T" using assms(1,4) by (auto simp: log_ok_def)
  have ne: "es \<noteq> []" and l: "sent_log s T = goose_log es @ copies_sent (last es) (gs_gooseCopiesSent s)"
    "gs_pastEventTime s = last es"
    using es(2) assms(3) by (auto simp: event_log_ok_def split: if_splits)
  have "sent_log t T' = goose_log es @ copies_sent (last es) (gs_gooseCopiesSent t)"
    using assms(8,10,11) l by (simp add: sent_log_step[OF assms(2)] copies_sent_Suc)
  moreover have "\<forall>x \<in> set (gs_randomTimes t). last es + copy_delay (gs_gooseCopiesSent t) < x"
    using assms(5,6,11,12) l(2) by auto
  ultimately have "event_log_ok es t T'" using ne l(2) assms(6,7,9) by (simp add: event_log_ok_def)
  with es(1) assms(6) show ?thesis by (auto simp: log_ok_def)
qed

lemma log_event:
  assumes "log_ok rs s T" "gs_produced t = gs_produced s @ [(T, produced_kind s)]" "gs_randomTimes s = r # rest"
    "gs_randomTimes t = rest" "gs_pastEventTime t = r" "gs_gooseCopiesSent t = 0" "\<not> gs_previousWasHeartbeat t"
    "produced_kind t = GooseEvent" "gs_gooseCopiesSent s \<le> 4"
    "gs_gooseCopiesSent s < 4 \<and> \<not> gs_previousWasHeartbeat s \<longrightarrow>
      r \<le> gs_pastEventTime s + copy_delay (Suc (gs_gooseCopiesSent s))"
  shows "log_ok rs t r"
proof -
  obtain es where es: "es @ r # rest = rs" "event_log_ok es s T" using assms(1,3) by (auto simp: log_ok_def)
  have "sent_log t r = goose_log (es @ [r])"
  proof (cases "es = []")
    case True
    then show ?thesis using es(2) assms(8) by (simp add: sent_log_step[OF assms(2)] event_log_ok_def)
  next
    case False
    then have l: "sent_log s T = goose_log es @ copies_sent (last es) (gs_gooseCopiesSent s)" "gs_pastEventTime s = last es"
      "gs_previousWasHeartbeat s \<longrightarrow> gs_gooseCopiesSent s = 4"
      "0 < gs_gooseCopiesSent s \<longrightarrow> last es + copy_delay (gs_gooseCopiesSent s) < r"
      using es(2) assms(3) by (auto simp: event_log_ok_def)
    have "copies_until (last es) r = copies_sent (last es) (gs_gooseCopiesSent s)"
      by (rule copies_until_sent) (use assms(9,10) l(2-4) in auto)
    then show ?thesis using assms(8) l(1) False by (simp add: sent_log_step[OF assms(2)] goose_log_snoc)
  qed
  then have "event_log_ok (es @ [r]) t r" using assms(5-7) by (simp add: event_log_ok_def copies_sent_def)
  moreover have "(es @ [r]) @ gs_randomTimes t = rs" using es(1) assms(4) by simp
  ultimately show ?thesis unfolding log_ok_def by blast
qed

lemma log_heartbeat:
  assumes "log_ok rs s T" "gs_produced t = gs_produced s @ [(T, produced_kind s)]" "gs_randomTimes s = r # rest"
    "gs_randomTimes t = r # rest" "gs_pastEventTime t = gs_pastEventTime s" "gs_gooseCopiesSent t = gs_gooseCopiesSent s"
    "gs_previousWasHeartbeat t" "produced_kind t = GooseHeartbeat" "gs_gooseCopiesSent s \<le> 4"
    "\<not> (gs_gooseCopiesSent s < 4 \<and> \<not> gs_previousWasHeartbeat s)"
  shows "log_ok rs t T'"
proof -
  obtain es where es: "es @ r # rest = rs" "event_log_ok es s T" using assms(1,3) by (auto simp: log_ok_def)
  have "event_log_ok es t T'"
    using es(2) assms(3-10) unfolding event_log_ok_def sent_log_step[OF assms(2)] by (auto split: if_splits)
  with es(1) assms(4) show ?thesis by (auto simp: log_ok_def)
qed

lemma goose_step_ok:
  assumes m: "goose_mode s" and sch: "scheduled s T k" and rnd: "gs_randomTimes s \<noteq> []" and lok: "log_ok rs s T"
  shows "\<exists>t T' k'. goose_step s = Some t \<and> goose_mode t \<and> scheduled t T' k' \<and> log_ok rs t T' \<and>
    work_left t < work_left s"
proof -
  obtain r rest where r: "gs_randomTimes s = r # rest" using rnd by (cases "gs_randomTimes s") auto
  let ?u = "s\<lparr>gs_now := T, gs_productionTimer := None\<rparr>"
  obtain v k' where v: "scheduleProductionTimer (gs_productionInterval s) ?u = Some v" "goose_mode v" "gs_now v = T"
    "gs_heartbeat v = gs_heartbeat s" "gs_oldIndex v = gs_oldIndex s" "gs_produced v = gs_produced s"
    "gs_heartbeatTimes v = map (\<lambda>i. int i * HEARTBEAT_INTERVAL) [k'..<21]" "k \<le> k'" "k' < 21"
    and c: "(gs_productionTimer v = Some (gs_pastEventTime s + gs_currentCopyDelay v) \<and> gs_gooseCopiesSent s < 4 \<and>
        \<not> gs_previousWasHeartbeat s \<and> \<not> gs_previousWasHeartbeat v \<and> gs_randomTimes v = r # rest \<and>
        gs_pastEventTime v = gs_pastEventTime s \<and> gs_gooseCopiesSent v = Suc (gs_gooseCopiesSent s) \<and>
        gs_currentCopyDelay v = gs_currentCopyDelay s + copy_periods ! gs_gooseCopiesSent s \<and>
        gs_pastEventTime s + gs_currentCopyDelay v < r) \<or>
     (gs_productionTimer v = Some r \<and> gs_randomTimes v = rest \<and> gs_pastEventTime v = r \<and>
        gs_gooseCopiesSent v = 0 \<and> gs_currentCopyDelay v = 0 \<and> \<not> gs_previousWasHeartbeat v \<and>
        r + COPY_WINDOW < int k' * HEARTBEAT_INTERVAL \<and>
        (gs_gooseCopiesSent s < 4 \<and> \<not> gs_previousWasHeartbeat s \<longrightarrow>
           r \<le> gs_pastEventTime s + gs_currentCopyDelay s + copy_periods ! gs_gooseCopiesSent s)) \<or>
     (gs_productionTimer v = Some (int k * HEARTBEAT_INTERVAL) \<and> gs_previousWasHeartbeat v \<and>
        T \<le> int k * HEARTBEAT_INTERVAL \<and> int k * HEARTBEAT_INTERVAL < r \<and> gs_randomTimes v = r # rest \<and>
        k' = Suc k \<and> gs_pastEventTime v = gs_pastEventTime s \<and>
        gs_gooseCopiesSent v = gs_gooseCopiesSent s \<and> gs_currentCopyDelay v = gs_currentCopyDelay s \<and>
        \<not> (gs_gooseCopiesSent s < 4 \<and> \<not> gs_previousWasHeartbeat s))"
    using schedule_cases[OF m sch r refl, of "gs_productionInterval s"] by blast
  let ?t = "producePacket v"
  have t: "gs_productionTimer ?t = gs_productionTimer v" "gs_randomTimes ?t = gs_randomTimes v"
    "gs_heartbeatTimes ?t = gs_heartbeatTimes v" "gs_gooseCopiesSent ?t = gs_gooseCopiesSent v"
    "gs_currentCopyDelay ?t = gs_currentCopyDelay v" "gs_pastEventTime ?t = gs_pastEventTime v"
    "gs_previousWasHeartbeat ?t = gs_previousWasHeartbeat v" "gs_heartbeat ?t = gs_previousWasHeartbeat v"
    "gs_oldIndex ?t = gs_gooseCopiesSent v" "gs_now ?t = T"
    "gs_produced ?t = gs_produced s @ [(T, produced_kind s)]" "goose_mode ?t" "gs_useGoose ?t"
    using v m by (auto simp: producePacket_def Let_def goose_mode_def produced_kind_def)
  have step: "goose_step s = Some ?t"
    using sch v(1) by (simp add: goose_step_def goose_handleMessage_def scheduled_def)
  have old: "sorted (r # rest)" "\<forall>x \<in> set (r # rest). T \<le> x \<and> x < 9648 * MS" "gs_gooseCopiesSent s \<le> 4"
    "gs_heartbeat s = gs_previousWasHeartbeat s" "gs_oldIndex s = gs_gooseCopiesSent s" "k < 21"
    "gs_heartbeatTimes s = map (\<lambda>i. int i * HEARTBEAT_INTERVAL) [k..<21]"
    "gs_currentCopyDelay s = sum_list (take (gs_gooseCopiesSent s) copy_periods)"
    "\<not> gs_previousWasHeartbeat s \<Longrightarrow> T = gs_pastEventTime s + gs_currentCopyDelay s"
    "\<not> gs_previousWasHeartbeat s \<Longrightarrow> gs_pastEventTime s + COPY_WINDOW < int k * HEARTBEAT_INTERVAL"
    using sch r unfolding scheduled_def by auto
  have kind: "produced_kind s = (if gs_previousWasHeartbeat s then GooseHeartbeat
      else if gs_gooseCopiesSent s = 0 then GooseEvent else GooseCopy (gs_gooseCopiesSent s))"
    using m old(4,5) by (simp add: produced_kind_def goose_mode_def)
  have kind': "produced_kind ?t = (if gs_previousWasHeartbeat v then GooseHeartbeat
      else if gs_gooseCopiesSent v = 0 then GooseEvent else GooseCopy (gs_gooseCopiesSent v))"
    using t by (simp add: produced_kind_def)
  from c show ?thesis
  proof (elim disjE conjE)
    assume c: "gs_productionTimer v = Some (gs_pastEventTime s + gs_currentCopyDelay v)" "gs_gooseCopiesSent s < 4"
      "\<not> gs_previousWasHeartbeat s" "\<not> gs_previousWasHeartbeat v" "gs_randomTimes v = r # rest"
      "gs_pastEventTime v = gs_pastEventTime s" "gs_gooseCopiesSent v = Suc (gs_gooseCopiesSent s)"
      "gs_currentCopyDelay v = gs_currentCopyDelay s + copy_periods ! gs_gooseCopiesSent s"
      "gs_pastEventTime s + gs_currentCopyDelay v < r"
    note cd = copy_delay_step[OF c(2)]
    have "int k * HEARTBEAT_INTERVAL \<le> int k' * HEARTBEAT_INTERVAL"
      using v(8) by (intro mult_right_mono) (simp_all add: HEARTBEAT_INTERVAL_def MS_def)
    then have "scheduled ?t (gs_pastEventTime s + gs_currentCopyDelay v) k'"
      using c old t v cd by (auto simp: scheduled_def)
    moreover have "log_ok rs ?t (gs_pastEventTime s + gs_currentCopyDelay v)"
      by (rule log_copy[OF lok t(11) c(3) r old(1)]) (use c t kind' old(8) cd(1) in \<open>simp_all add: copy_delay_def\<close>)
    moreover have "work_left ?t < work_left s"
      using c t v old r by (simp add: work_left_def)
    ultimately show ?thesis using step t(12) by blast
  next
    assume c: "gs_productionTimer v = Some r" "gs_randomTimes v = rest" "gs_pastEventTime v = r"
      "gs_gooseCopiesSent v = 0" "gs_currentCopyDelay v = 0" "\<not> gs_previousWasHeartbeat v"
      "r + COPY_WINDOW < int k' * HEARTBEAT_INTERVAL"
      "gs_gooseCopiesSent s < 4 \<and> \<not> gs_previousWasHeartbeat s \<longrightarrow>
         r \<le> gs_pastEventTime s + gs_currentCopyDelay s + copy_periods ! gs_gooseCopiesSent s"
    have "scheduled ?t r k'" using c(1-7) old t v by (auto simp: scheduled_def)
    moreover have "log_ok rs ?t r"
      by (rule log_event[OF lok t(11) r])
        (use c t kind' old(3,8) copy_delay_step(1)[of "gs_gooseCopiesSent s"] in \<open>auto simp: copy_delay_def\<close>)
    moreover have "work_left ?t < work_left s" using c t v old r by (simp add: work_left_def)
    ultimately show ?thesis using step t(12) by blast
  next
    assume c: "gs_productionTimer v = Some (int k * HEARTBEAT_INTERVAL)" "gs_previousWasHeartbeat v"
      "T \<le> int k * HEARTBEAT_INTERVAL" "int k * HEARTBEAT_INTERVAL < r" "gs_randomTimes v = r # rest"
      "k' = Suc k" "gs_pastEventTime v = gs_pastEventTime s"
      "gs_gooseCopiesSent v = gs_gooseCopiesSent s" "gs_currentCopyDelay v = gs_currentCopyDelay s"
      "\<not> (gs_gooseCopiesSent s < 4 \<and> \<not> gs_previousWasHeartbeat s)"
    have "int k * HEARTBEAT_INTERVAL < int k' * HEARTBEAT_INTERVAL"
      using c(6) by (simp add: algebra_simps HEARTBEAT_INTERVAL_def MS_def)
    then have "scheduled ?t (int k * HEARTBEAT_INTERVAL) k'" using c(1-9) old t v by (auto simp: scheduled_def)
    moreover have "log_ok rs ?t (int k * HEARTBEAT_INTERVAL)"
      by (rule log_heartbeat[OF lok t(11) r]) (use c t kind' old(3) in simp_all)
    moreover have "work_left ?t < work_left s" using c t v old r by (simp add: work_left_def)
    ultimately show ?thesis using step t(12) by blast
  qed
qed

text \<open>When the event list is used up, the source falls back to its periodic interval.\<close>

lemma periodic_step:
  assumes "goose_mode s" "gs_randomTimes s = []" "gs_productionTimer s = Some T"
  shows "\<exists>t. goose_step s = Some t \<and> goose_mode t \<and> gs_randomTimes t = [] \<and>
    gs_productionTimer t = Some (T + gs_productionInterval s) \<and>
    gs_produced t = gs_produced s @ [(T, produced_kind s)]"
  using assms
  by (auto simp: goose_step_def goose_handleMessage_def scheduleProductionTimer_def Let_def goose_mode_def
      goose_scheduleAt_def producePacket_def produced_kind_def)

lemma goose_run_total:
  assumes "goose_mode s" "(\<exists>T k. scheduled s T k \<and> log_ok rs s T) \<or> (gs_randomTimes s = [] \<and> gs_productionTimer s \<noteq> None)"
  shows "\<exists>t. goose_run n s = Some t"
  using assms
proof (induction n arbitrary: s)
  case 0
  then show ?case by simp
next
  case (Suc n)
  have "\<exists>t. goose_step s = Some t \<and> goose_mode t \<and>
      ((\<exists>T k. scheduled t T k \<and> log_ok rs t T) \<or> (gs_randomTimes t = [] \<and> gs_productionTimer t \<noteq> None))"
  proof (cases "gs_randomTimes s = []")
    case True
    then obtain T where "gs_productionTimer s = Some T" using Suc.prems(2) by (auto simp: scheduled_def)
    with periodic_step[OF Suc.prems(1) True] show ?thesis by auto
  next
    case False
    with Suc.prems obtain T k where "scheduled s T k" "log_ok rs s T" by auto
    with goose_step_ok[OF Suc.prems(1) _ False] show ?thesis by blast
  qed
  then obtain t where t: "goose_step s = Some t" "goose_mode t"
    "(\<exists>T k. scheduled t T k \<and> log_ok rs t T) \<or> (gs_randomTimes t = [] \<and> gs_productionTimer t \<noteq> None)" by blast
  from Suc.IH[OF t(2,3)] t(1) show ?case by simp
qed

lemma goose_run_to_last_event:
  assumes "goose_mode s" "scheduled s T k" "log_ok rs s T"
  shows "\<exists>n t T k. goose_run n s = Some t \<and> goose_mode t \<and> scheduled t T k \<and> log_ok rs t T \<and> gs_randomTimes t = []"
  using assms
proof (induction "work_left s" arbitrary: s T k rule: less_induct)
  case less
  show ?case
  proof (cases "gs_randomTimes s = []")
    case True
    with less.prems show ?thesis by (intro exI[of _ 0]) auto
  next
    case False
    obtain u T' k' where u: "goose_step s = Some u" "goose_mode u" "scheduled u T' k'" "log_ok rs u T'"
      "work_left u < work_left s"
      using goose_step_ok[OF less.prems(1,2) False less.prems(3)] by blast
    obtain n t T'' k'' where "goose_run n u = Some t" "goose_mode t" "scheduled t T'' k''" "log_ok rs t T''" "gs_randomTimes t = []"
      using less.hyps[OF u(5,2-4)] by blast
    with u(1) show ?thesis by (intro exI[of _ "Suc n"]) auto
  qed
qed

lemma goose_run_add: "goose_run (m + n) s = do { t \<leftarrow> goose_run m s; goose_run n t }"
  by (induction m arbitrary: s) (simp_all add: bind_assoc split: bind_splits)

lemma goose_run_all_events:
  assumes "goose_mode s" "scheduled s T k" "log_ok rs s T"
  shows "\<exists>n t. goose_run n s = Some t \<and> without_heartbeats (gs_produced t) = goose_log rs"
proof -
  obtain n t T k where t: "goose_run n s = Some t" "goose_mode t" "scheduled t T k" "log_ok rs t T" "gs_randomTimes t = []"
    using goose_run_to_last_event[OF assms] by blast
  have e: "event_log_ok rs t T" using t(4,5) by (simp add: log_ok_def)
  then have "sent_log t T = goose_log rs"
    using t(5) by (simp add: event_log_ok_def copies_sent_def split: if_splits)
  moreover obtain u where u: "goose_step t = Some u" "gs_produced u = gs_produced t @ [(T, produced_kind t)]"
    using periodic_step[OF t(2,5), of T] t(3) by (auto simp: scheduled_def)
  moreover have "goose_run (n + Suc 0) s = Some u" using t(1) u(1) unfolding goose_run_add by simp
  ultimately show ?thesis unfolding sent_log_def by metis
qed

section \<open>Start\<close>

text \<open>A GOOSE source as the constructor and the parameters leave it, at time 0.\<close>

definition goose_fresh :: "goose \<Rightarrow> bool" where
  "goose_fresh s \<longleftrightarrow> gs_now s = 0 \<and> gs_useGoose s \<and> gs_scheduleForAbsoluteTime s \<and> 0 \<le> gs_productionInterval s \<and>
     gs_gooseCopiesSent s = 0 \<and> gs_currentCopyDelay s = 0 \<and> gs_previousWasHeartbeat s \<and> gs_heartbeat s \<and>
     gs_oldIndex s = 0 \<and> gs_produced s = []"

text \<open>Each draw lies in its interval of one second.\<close>

definition draws_ok :: "(nat \<Rightarrow> nat \<Rightarrow> clocktime) \<Rightarrow> bool" where
  "draws_ok draw \<longleftrightarrow> (\<forall>j k. int j * 1000 * MS \<le> draw j k \<and> draw j k < (int j + 1) * 1000 * MS)"

lemma goose_start:
  assumes "goose_fresh s0" "draws_ok draw" "seconds \<le> 9" "goose_initialize draw seconds perSec s0 = Some s"
  shows "goose_mode s \<and> scheduled s 0 1 \<and> log_ok (random_times draw seconds perSec) s 0"
proof -
  have r: "0 \<le> x \<and> x < 9648 * MS" if x: "x \<in> set (random_times draw seconds perSec)" for x
  proof -
    obtain j k where "j < seconds" "x = draw j k" using x by (auto simp: random_times_def)
    then have "int j \<le> 8" "int j * 1000 * MS \<le> x" "x < (int j + 1) * 1000 * MS"
      using assms(2,3) by (auto simp: draws_ok_def)
    moreover have "0 \<le> int j * 1000 * MS" by (simp add: MS_def)
    moreover have "(int j + 1) * 1000 * MS \<le> 9000 * MS" using \<open>int j \<le> 8\<close> by (simp add: MS_def)
    moreover have "9000 * MS < 9648 * MS" by (simp add: MS_def)
    ultimately show ?thesis by linarith
  qed
  have hb: "heartbeat_times = 0 # map (\<lambda>i. int i * HEARTBEAT_INTERVAL) [1..<21]"
    unfolding heartbeat_times_def by (subst heartbeats_front) simp_all
  have "s = s0\<lparr>gs_randomTimes := random_times draw seconds perSec, gs_gooseCopyPeriods := copy_periods,
      gs_heartbeatTimes := map (\<lambda>i. int i * HEARTBEAT_INTERVAL) [1..<21], gs_productionTimer := Some 0,
      gs_lastHeartbeatTime := 0\<rparr>"
    using assms(1,4) by (auto simp: goose_initialize_def goose_fresh_def hb goose_scheduleAt_def erase_front_def)
  moreover have "sorted (random_times draw seconds perSec)" by (simp add: random_times_def)
  ultimately show ?thesis using assms(1) r
    by (simp add: goose_mode_def scheduled_def log_ok_def event_log_ok_def sent_log_def goose_fresh_def produced_kind_def
        HEARTBEAT_INTERVAL_def MS_def)
qed

section \<open>Properties\<close>

text \<open>
  A GOOSE source never schedules into the past and never reads or erases an exhausted vector
  while it has events: started at time 0 with random event times of up to 9 seconds, it handles
  every number \<open>n\<close> of timer expiries without error.
\<close>

theorem goose_source_never_fails:
  assumes "goose_fresh s0" "draws_ok draw" "seconds \<le> 9" "goose_initialize draw seconds perSec s0 = Some s"
  shows "\<exists>t. goose_run n s = Some t"
  using goose_start[OF assms] goose_run_total by blast

text \<open>
  C40. No GOOSE event is lost, duplicated, reordered or delayed, and none of its copies is: started at time 0
  with event times in the first 9 seconds (the vector of heartbeat times is used up after 10), a source
  handles timer expiries without error until it has sent, apart from heartbeats, exactly its events at
  the sorted random event times, and after each event but the last every one of its copies, 1, 2, 102 and
  352 ms after the event, whose time comes before the next event, in this order, and nothing else.
\<close>

theorem goose_events_and_copies:
  assumes "goose_fresh s0" "draws_ok draw" "seconds \<le> 9" "goose_initialize draw seconds perSec s0 = Some s"
  shows "\<exists>n t. goose_run n s = Some t \<and> events_of (gs_produced t) = random_times draw seconds perSec \<and>
    without_heartbeats (gs_produced t) = goose_log (random_times draw seconds perSec)"
  using goose_start[OF assms] goose_run_all_events events_of_log events_of_without_heartbeats by metis

text \<open>
  The last event gets no copy: with its event list used up, the source falls back to its periodic interval
  at once, and the packets of that interval are marked as events.
\<close>

theorem last_event_has_no_copies:
  assumes "goose_mode s" "gs_randomTimes s = []" "gs_productionTimer s = Some T" "produced_kind s = GooseEvent"
    "gs_gooseCopiesSent s = 0" "\<not> gs_previousWasHeartbeat s"
  shows "\<exists>t u. goose_step s = Some t \<and> goose_step t = Some u \<and>
    gs_produced u = gs_produced s @ [(T, GooseEvent), (T + gs_productionInterval s, GooseEvent)]"
proof -
  obtain t where t: "goose_step s = Some t" "goose_mode t" "gs_randomTimes t = []"
    "gs_productionTimer t = Some (T + gs_productionInterval s)" "gs_produced t = gs_produced s @ [(T, GooseEvent)]"
    using periodic_step[OF assms(1-3)] assms(4) by auto
  have "produced_kind t = GooseEvent"
    using t(1) assms
    by (auto simp: goose_step_def goose_handleMessage_def scheduleProductionTimer_def Let_def goose_mode_def
        goose_scheduleAt_def producePacket_def produced_kind_def)
  with periodic_step[OF t(2-4)] t(1,5) show ?thesis by fastforce
qed

text \<open>A source with one event in each of the first two seconds.\<close>

definition example_source :: goose where
  "example_source = \<lparr>gs_now = 0, gs_productionTimer = None, gs_initialProductionOffset = -1,
     gs_initialProductionOffsetScheduled = False, gs_productionInterval = 1000 * MS,
     gs_scheduleForAbsoluteTime = True, gs_useGoose = True, gs_randomTimes = [], gs_heartbeatTimes = [],
     gs_gooseCopyPeriods = [], gs_gooseCopiesSent = 0, gs_currentCopyDelay = 0, gs_pastEventTime = 0,
     gs_lastHeartbeatTime = 0, gs_previousWasHeartbeat = True, gs_heartbeat = True, gs_oldIndex = 0,
     gs_junk = 0, gs_produced = []\<rparr>"

definition example_draw :: "nat \<Rightarrow> nat \<Rightarrow> clocktime" where
  "example_draw j k = (int j * 1000 + 700) * MS"

lemma example_source_starts:
  "goose_fresh example_source" "draws_ok example_draw"
  "\<exists>s. goose_initialize example_draw 2 1 example_source = Some s"
  by (simp_all add: goose_fresh_def example_source_def draws_ok_def example_draw_def MS_def
      goose_initialize_def goose_scheduleAt_def heartbeat_times_def erase_front_def upt_conv_Cons)

theorem goose_source_never_fails_witness:
  "\<exists>s t. goose_initialize example_draw 2 1 example_source = Some s \<and> goose_run 40 s = Some t"
  using goose_source_never_fails[OF example_source_starts(1,2), of 2 1] example_source_starts(3) by fastforce

theorem goose_events_and_copies_witness:
  "\<exists>s n t. goose_initialize example_draw 2 1 example_source = Some s \<and> goose_run n s = Some t \<and>
     without_heartbeats (gs_produced t) = [(700 * MS, GooseEvent), (701 * MS, GooseCopy 1), (702 * MS, GooseCopy 2),
       (802 * MS, GooseCopy 3), (1052 * MS, GooseCopy 4), (1700 * MS, GooseEvent)]"
proof -
  have "random_times example_draw 2 1 = [700 * MS, 1700 * MS]"
    by (simp add: random_times_def example_draw_def MS_def numeral_2_eq_2)
  moreover have "goose_log [700 * MS, 1700 * MS] = [(700 * MS, GooseEvent), (701 * MS, GooseCopy 1),
      (702 * MS, GooseCopy 2), (802 * MS, GooseCopy 3), (1052 * MS, GooseCopy 4), (1700 * MS, GooseEvent)]"
    by (simp add: copies_until_def copies_sent_def copy_delay_def copy_periods_def MS_def numeral_eq_Suc)
  ultimately show ?thesis
    using goose_events_and_copies[OF example_source_starts(1,2), of 2 1] example_source_starts(3) by fastforce
qed

text \<open>
  The 21 heartbeat times end at 10 s. From then on \<open>scheduleProductionTimer\<close> reads the front of
  an empty vector while events are left, and depending on the value it reads it then erases from
  the empty vector as well, although it was called with a valid event list.
\<close>

theorem goose_heartbeats_run_out:
  assumes "gs_heartbeatTimes s = []" "gs_randomTimes s = r # rest" "gs_now s \<le> r"
  shows "(\<exists>junk. scheduleProductionTimer d (s\<lparr>gs_junk := junk\<rparr>) = None) \<and> last heartbeat_times = 10000 * MS"
proof -
  have "scheduleProductionTimer d (s\<lparr>gs_junk := r\<rparr>) = None"
    using assms by (simp add: scheduleProductionTimer_def Let_def suppress_heartbeat_def front_def
        erase_front_def COPY_WINDOW_def MS_def)
  moreover have "last heartbeat_times = 10000 * MS"
    by (simp add: heartbeat_times_def last_map HEARTBEAT_INTERVAL_def)
  ultimately show ?thesis by blast
qed

theorem goose_heartbeats_run_out_witness:
  "\<exists>junk. scheduleProductionTimer 0 (example_source\<lparr>gs_randomTimes := [10500 * MS], gs_junk := junk\<rparr>) = None"
  using goose_heartbeats_run_out[of "example_source\<lparr>gs_randomTimes := [10500 * MS]\<rparr>" "10500 * MS" "[]" 0]
  by (simp add: example_source_def MS_def)

end
