(* ===== verification/Credit_Gate.thy ===== *)
theory Credit_Gate
  imports Prelude
begin

text \<open>
  \<open>CreditBasedGate\<close> (src/inet/src/inet/queueing/gate/CreditBasedGate.cc): the credit-based shaper of
  802.1Qav. The credit is stored with the time of its last notification and extrapolated with the
  current gain rate; the gate is open when the credit reaches the transmit limit.

  Credits, rates and times are exact rational numbers (the rounding of \<open>double\<close> is not modelled;
  times are seconds). The conversion of a \<open>double\<close> to \<open>simtime_t\<close>, which rounds it to the ticks of the
  simulation time, is code of the simulation kernel: a parameter \<open>conv\<close> of every operation that sets the
  change timer. The state of the optional \<open>PeriodicGate\<close> behind the
  gate and the availability of a packet are inputs, fields that only events change. \<open>None\<close> is a
  failed \<open>ASSERT\<close>. Notifications of the neighbours by \<open>open\<close> and \<open>close\<close> are left out.
\<close>

section \<open>State\<close>

record credit_gate =
  cg_now :: rat
  cg_idleCreditGainRate :: rat
  cg_transmitCreditSpendRate :: rat
  cg_transmitCreditLimit :: rat
  cg_minCredit :: rat
  cg_maxCredit :: rat
  cg_accumulateCreditInGuardBand :: bool
  cg_periodicGate :: "(bool \<times> bool) option" \<comment> \<open>open, in the guard band\<close>
  cg_hasAvailablePacket :: bool
  cg_isOpen :: bool
  cg_isTransmitting :: bool
  cg_isInterpacketGap :: bool
  cg_currentCredit :: rat
  cg_currentCreditGainRate :: rat
  cg_lastCurrentCreditEmitted :: rat
  cg_lastCurrentCreditEmittedTime :: rat
  cg_changeTimer :: "rat option"

section \<open>Operations\<close>

definition cg_open :: "credit_gate \<Rightarrow> credit_gate option" where
  "cg_open g = do { ensure (\<not> cg_isOpen g); Some (g\<lparr>cg_isOpen := True\<rparr>) }"

definition cg_close :: "credit_gate \<Rightarrow> credit_gate option" where
  "cg_close g = do { ensure (cg_isOpen g); Some (g\<lparr>cg_isOpen := False\<rparr>) }"

definition setCurrentCredit :: "rat \<Rightarrow> credit_gate \<Rightarrow> credit_gate option" where
  "setCurrentCredit v g =
     (if cg_currentCredit g \<noteq> v then
        (let g = g\<lparr>cg_currentCredit := v\<rparr> in
         if cg_currentCredit g \<ge> cg_transmitCreditLimit g
         then (if \<not> cg_isOpen g then cg_open g else Some g)
         else (if cg_isOpen g then cg_close g else Some g))
      else Some g)"

definition setCurrentCreditGainRate :: "rat \<Rightarrow> credit_gate \<Rightarrow> credit_gate" where
  "setCurrentCreditGainRate v g =
     (if cg_currentCreditGainRate g \<noteq> v then g\<lparr>cg_currentCreditGainRate := v\<rparr> else g)"

definition updateCurrentCredit :: "credit_gate \<Rightarrow> credit_gate option" where
  "updateCurrentCredit g =
     (let v = cg_lastCurrentCreditEmitted g
            + cg_currentCreditGainRate g * (cg_now g - cg_lastCurrentCreditEmittedTime g)
      in setCurrentCredit (max (cg_minCredit g) (min (cg_maxCredit g) v)) g)"

text \<open>The condition of \<open>emitCurrentCredit\<close> only suppresses an update that changes nothing.\<close>

definition emitCurrentCredit :: "bool \<Rightarrow> credit_gate \<Rightarrow> credit_gate" where
  "emitCurrentCredit initialized g =
     (if \<not> initialized \<or> cg_lastCurrentCreditEmitted g \<noteq> cg_currentCredit g
         \<or> cg_lastCurrentCreditEmittedTime g \<noteq> cg_now g
      then g\<lparr>cg_lastCurrentCreditEmitted := cg_currentCredit g, cg_lastCurrentCreditEmittedTime := cg_now g\<rparr>
      else g)"

definition updateCurrentCreditGainRate :: "credit_gate \<Rightarrow> credit_gate" where
  "updateCurrentCreditGainRate g =
     (if cg_isTransmitting g \<or> cg_isInterpacketGap g
      then setCurrentCreditGainRate (- cg_transmitCreditSpendRate g) g
      else if (case cg_periodicGate g of None \<Rightarrow> False
               | Some (is_open, guard) \<Rightarrow> \<not> is_open \<or> (\<not> cg_accumulateCreditInGuardBand g \<and> guard))
      then setCurrentCreditGainRate 0 g
      else if cg_currentCredit g < 0 \<or> cg_hasAvailablePacket g
      then setCurrentCreditGainRate (cg_idleCreditGainRate g) g
      else setCurrentCreditGainRate 0 g)"

definition updateCurrentState :: "credit_gate \<Rightarrow> credit_gate option" where
  "updateCurrentState g =
     do {
       g \<leftarrow> updateCurrentCredit g;
       let g = updateCurrentCreditGainRate g;
       Some (emitCurrentCredit True g)
     }"

text \<open>The exact time to the crossing is a \<open>double\<close>; it is rounded to ticks before it is added to the
  current time and compared with it.\<close>

definition cg_scheduleChangeTimer :: "(rat \<Rightarrow> rat) \<Rightarrow> credit_gate \<Rightarrow> credit_gate option" where
  "cg_scheduleChangeTimer conv g =
     do {
       ensure (cg_lastCurrentCreditEmitted g = cg_currentCredit g);
       ensure (cg_lastCurrentCreditEmittedTime g = cg_now g);
       Some (if cg_currentCreditGainRate g = 0 then g\<lparr>cg_changeTimer := None\<rparr>
         else
           (let changeTime = cg_now g + conv ((cg_transmitCreditLimit g - cg_currentCredit g) / cg_currentCreditGainRate g)
            in if changeTime \<le> cg_now g then g\<lparr>cg_changeTimer := None\<rparr>
               else g\<lparr>cg_changeTimer := Some changeTime\<rparr>))
     }"

definition update_and_schedule :: "(rat \<Rightarrow> rat) \<Rightarrow> credit_gate \<Rightarrow> credit_gate option" where
  "update_and_schedule conv g = do { g \<leftarrow> updateCurrentState g; cg_scheduleChangeTimer conv g }"

text \<open>The two initialisation stages that set the credit.\<close>

definition cg_initialize :: "(rat \<Rightarrow> rat) \<Rightarrow> rat \<Rightarrow> credit_gate \<Rightarrow> credit_gate option" where
  "cg_initialize conv initialCredit g =
     update_and_schedule conv (g\<lparr>cg_currentCredit := initialCredit,
       cg_currentCreditGainRate := cg_idleCreditGainRate g,
       cg_lastCurrentCreditEmitted := initialCredit, cg_lastCurrentCreditEmittedTime := cg_now g,
       cg_isOpen := (initialCredit \<ge> cg_transmitCreditLimit g),
       cg_isTransmitting := False, cg_isInterpacketGap := False, cg_changeTimer := None\<rparr>)"

text \<open>The change timer; it has just expired.\<close>

definition cg_handleMessage :: "(rat \<Rightarrow> rat) \<Rightarrow> credit_gate \<Rightarrow> credit_gate option" where
  "cg_handleMessage conv g =
     do {
       g \<leftarrow> setCurrentCredit (cg_transmitCreditLimit g) (g\<lparr>cg_changeTimer := None\<rparr>);
       let g = emitCurrentCredit True g;
       let g = updateCurrentCreditGainRate g;
       cg_scheduleChangeTimer conv g
     }"

definition cg_gapEnded :: "(rat \<Rightarrow> rat) \<Rightarrow> credit_gate \<Rightarrow> credit_gate option" where
  "cg_gapEnded conv g =
     (if cg_isInterpacketGap g then
        do {
          g \<leftarrow> updateCurrentState g;
          let g = g\<lparr>cg_isInterpacketGap := False\<rparr>;
          g \<leftarrow> (if \<not> cg_hasAvailablePacket g then
                 do {
                   g \<leftarrow> setCurrentCredit (min (cg_transmitCreditLimit g) (cg_currentCredit g)) g;
                   Some (emitCurrentCredit True g)
                 }
               else Some g);
          update_and_schedule conv g
        }
      else Some g)"

text \<open>Transmission signals; \<open>own\<close> tells whether the packet carries this gate's tag.\<close>

definition cg_transmissionStarted :: "(rat \<Rightarrow> rat) \<Rightarrow> bool \<Rightarrow> credit_gate \<Rightarrow> credit_gate option" where
  "cg_transmissionStarted conv own g =
     (if own then
        do {
          g \<leftarrow> updateCurrentState g;
          update_and_schedule conv (g\<lparr>cg_isTransmitting := True\<rparr>)
        }
      else Some g)"

definition cg_transmissionEnded :: "(rat \<Rightarrow> rat) \<Rightarrow> bool \<Rightarrow> credit_gate \<Rightarrow> credit_gate option" where
  "cg_transmissionEnded conv own g =
     (if own then
        do {
          g \<leftarrow> updateCurrentState g;
          update_and_schedule conv (g\<lparr>cg_isTransmitting := False, cg_isInterpacketGap := True\<rparr>)
        }
      else Some g)"

datatype credit_event =
    ChangeTimer
  | PeriodicGateChanged "bool \<times> bool"
  | InterpacketGapEnded
  | TransmissionStarted bool
  | TransmissionEnded bool
  | CanPullPacketChanged bool

fun cg_handle :: "(rat \<Rightarrow> rat) \<Rightarrow> credit_event \<Rightarrow> credit_gate \<Rightarrow> credit_gate option" where
  "cg_handle conv ChangeTimer g = cg_handleMessage conv g"
| "cg_handle conv (PeriodicGateChanged st) g = update_and_schedule conv (g\<lparr>cg_periodicGate := Some st\<rparr>)"
| "cg_handle conv InterpacketGapEnded g = cg_gapEnded conv g"
| "cg_handle conv (TransmissionStarted own) g = cg_transmissionStarted conv own g"
| "cg_handle conv (TransmissionEnded own) g = cg_transmissionEnded conv own g"
| "cg_handle conv (CanPullPacketChanged b) g = update_and_schedule conv (g\<lparr>cg_hasAvailablePacket := b\<rparr>)"

section \<open>Invariant\<close>

text \<open>The credit at a time, extrapolated from the last notification.\<close>

definition credit_at :: "credit_gate \<Rightarrow> rat \<Rightarrow> rat" where
  "credit_at g t = max (cg_minCredit g) (min (cg_maxCredit g)
     (cg_lastCurrentCreditEmitted g + cg_currentCreditGainRate g * (t - cg_lastCurrentCreditEmittedTime g)))"

definition params_ok :: "credit_gate \<Rightarrow> bool" where
  "params_ok g \<longleftrightarrow> cg_minCredit g \<le> cg_transmitCreditLimit g \<and> cg_transmitCreditLimit g \<le> cg_maxCredit g"

definition credit_ok :: "credit_gate \<Rightarrow> bool" where
  "credit_ok g \<longleftrightarrow> params_ok g \<and> cg_minCredit g \<le> cg_currentCredit g \<and> cg_currentCredit g \<le> cg_maxCredit g \<and>
     (cg_isOpen g \<longleftrightarrow> cg_transmitCreditLimit g \<le> cg_currentCredit g)"

definition crossing :: "(rat \<Rightarrow> rat) \<Rightarrow> credit_gate \<Rightarrow> rat \<Rightarrow> rat" where
  "crossing conv g t = t + conv ((cg_transmitCreditLimit g - cg_currentCredit g) / cg_currentCreditGainRate g)"

definition timer_ok :: "(rat \<Rightarrow> rat) \<Rightarrow> credit_gate \<Rightarrow> bool" where
  "timer_ok conv g \<longleftrightarrow> cg_lastCurrentCreditEmitted g = cg_currentCredit g \<and>
     cg_changeTimer g = (let t = cg_lastCurrentCreditEmittedTime g in
       if cg_currentCreditGainRate g \<noteq> 0 \<and> t < crossing conv g t then Some (crossing conv g t) else None)"

text \<open>Just notified: the credit is up to date.\<close>

definition settled :: "credit_gate \<Rightarrow> bool" where
  "settled g \<longleftrightarrow> cg_lastCurrentCreditEmitted g = cg_currentCredit g \<and> cg_lastCurrentCreditEmittedTime g = cg_now g"

definition credit_inv :: "(rat \<Rightarrow> rat) \<Rightarrow> credit_gate \<Rightarrow> bool" where
  "credit_inv conv g \<longleftrightarrow> credit_ok g \<and> timer_ok conv g"

lemma setCurrentCredit_ok:
  assumes "credit_ok g" "cg_minCredit g \<le> v" "v \<le> cg_maxCredit g"
  shows "\<exists>b. setCurrentCredit v g = Some (g\<lparr>cg_currentCredit := v, cg_isOpen := b\<rparr>) \<and>
    credit_ok (g\<lparr>cg_currentCredit := v, cg_isOpen := b\<rparr>)"
proof -
  have "\<exists>b. setCurrentCredit v g = Some (g\<lparr>cg_currentCredit := v, cg_isOpen := b\<rparr>) \<and>
      (b \<longleftrightarrow> cg_transmitCreditLimit g \<le> v)"
    using assms(1)
    by (cases g) (auto simp: setCurrentCredit_def cg_open_def cg_close_def credit_ok_def Let_def)
  with assms show ?thesis by (auto simp: credit_ok_def params_ok_def)
qed

lemma clamp_bounds:
  "params_ok g \<Longrightarrow> cg_minCredit g \<le> max (cg_minCredit g) (min (cg_maxCredit g) v) \<and>
   max (cg_minCredit g) (min (cg_maxCredit g) v) \<le> cg_maxCredit g"
  by (auto simp: params_ok_def)

text \<open>An update moves the credit to its extrapolated value, and notifies it.\<close>

lemma updateCurrentState_ok:
  assumes "credit_ok g"
  shows "\<exists>b r. updateCurrentState g = Some (g\<lparr>cg_currentCredit := credit_at g (cg_now g), cg_isOpen := b,
      cg_currentCreditGainRate := r, cg_lastCurrentCreditEmitted := credit_at g (cg_now g),
      cg_lastCurrentCreditEmittedTime := cg_now g\<rparr>) \<and>
    credit_ok (g\<lparr>cg_currentCredit := credit_at g (cg_now g), cg_isOpen := b,
      cg_currentCreditGainRate := r, cg_lastCurrentCreditEmitted := credit_at g (cg_now g),
      cg_lastCurrentCreditEmittedTime := cg_now g\<rparr>)"
proof -
  let ?v = "credit_at g (cg_now g)"
  have "cg_minCredit g \<le> ?v" "?v \<le> cg_maxCredit g"
    using assms clamp_bounds unfolding credit_at_def credit_ok_def by blast+
  then obtain b where b: "setCurrentCredit ?v g = Some (g\<lparr>cg_currentCredit := ?v, cg_isOpen := b\<rparr>)"
    "credit_ok (g\<lparr>cg_currentCredit := ?v, cg_isOpen := b\<rparr>)"
    using setCurrentCredit_ok[OF assms] by blast
  have u: "updateCurrentCredit g = Some (g\<lparr>cg_currentCredit := ?v, cg_isOpen := b\<rparr>)"
    using b(1) by (simp add: updateCurrentCredit_def credit_at_def)
  obtain r where r: "updateCurrentCreditGainRate (g\<lparr>cg_currentCredit := ?v, cg_isOpen := b\<rparr>) =
      g\<lparr>cg_currentCredit := ?v, cg_isOpen := b, cg_currentCreditGainRate := r\<rparr>"
  proof -
    have "\<exists>r. updateCurrentCreditGainRate h = h\<lparr>cg_currentCreditGainRate := r\<rparr>" for h
    proof -
      have "\<exists>r. setCurrentCreditGainRate v h = h\<lparr>cg_currentCreditGainRate := r\<rparr>" for v
        by (cases h) (auto simp: setCurrentCreditGainRate_def)
      then show ?thesis unfolding updateCurrentCreditGainRate_def by (auto split: option.splits)
    qed
    with that show ?thesis by fastforce
  qed
  have e: "emitCurrentCredit True (g\<lparr>cg_currentCredit := ?v, cg_isOpen := b, cg_currentCreditGainRate := r\<rparr>) =
      g\<lparr>cg_currentCredit := ?v, cg_isOpen := b, cg_currentCreditGainRate := r,
        cg_lastCurrentCreditEmitted := ?v, cg_lastCurrentCreditEmittedTime := cg_now g\<rparr>"
    by (cases g) (auto simp: emitCurrentCredit_def)
  have "updateCurrentState g = Some (g\<lparr>cg_currentCredit := ?v, cg_isOpen := b, cg_currentCreditGainRate := r,
        cg_lastCurrentCreditEmitted := ?v, cg_lastCurrentCreditEmittedTime := cg_now g\<rparr>)"
    unfolding updateCurrentState_def u by (simp add: r e)
  moreover have "credit_ok (g\<lparr>cg_currentCredit := ?v, cg_isOpen := b, cg_currentCreditGainRate := r,
        cg_lastCurrentCreditEmitted := ?v, cg_lastCurrentCreditEmittedTime := cg_now g\<rparr>)"
    using b(2) by (simp add: credit_ok_def params_ok_def)
  ultimately show ?thesis by blast
qed

text \<open>The parts an update leaves alone.\<close>

definition same_input :: "credit_gate \<Rightarrow> credit_gate \<Rightarrow> bool" where
  "same_input g h \<longleftrightarrow> cg_now h = cg_now g \<and> cg_hasAvailablePacket h = cg_hasAvailablePacket g \<and>
     cg_periodicGate h = cg_periodicGate g \<and> cg_isTransmitting h = cg_isTransmitting g \<and>
     cg_isInterpacketGap h = cg_isInterpacketGap g \<and> cg_transmitCreditLimit h = cg_transmitCreditLimit g \<and>
     cg_minCredit h = cg_minCredit g \<and> cg_maxCredit h = cg_maxCredit g"

lemma update_settles:
  assumes "credit_ok g"
  obtains h where "updateCurrentState g = Some h" "credit_ok h" "settled h" "same_input g h"
    "cg_currentCredit h = credit_at g (cg_now g)"
  using updateCurrentState_ok[OF assms] by (force simp: settled_def same_input_def)

lemma credit_at_settled: "settled g \<Longrightarrow> credit_ok g \<Longrightarrow> credit_at g (cg_now g) = cg_currentCredit g"
  by (auto simp: credit_at_def settled_def credit_ok_def)

lemma timer_scheduled:
  assumes "credit_ok g" "settled g"
  obtains h where "cg_scheduleChangeTimer conv g = Some h" "credit_inv conv h" "settled h"
    "cg_currentCredit h = cg_currentCredit g" "same_input g h"
proof -
  let ?h = "g\<lparr>cg_changeTimer := (if cg_currentCreditGainRate g \<noteq> 0 \<and> cg_now g < crossing conv g (cg_now g)
      then Some (crossing conv g (cg_now g)) else None)\<rparr>"
  have "cg_scheduleChangeTimer conv g = Some ?h"
    using assms(2) by (auto simp: cg_scheduleChangeTimer_def settled_def crossing_def Let_def not_less)
  moreover have "credit_ok ?h" using assms(1) by (simp add: credit_ok_def params_ok_def)
  moreover have "timer_ok conv ?h" using assms(2) by (simp add: timer_ok_def settled_def crossing_def Let_def)
  ultimately show ?thesis using assms(2) that by (simp add: credit_inv_def settled_def same_input_def)
qed

lemma update_schedule_ok:
  assumes "credit_ok g"
  obtains h where "update_and_schedule conv g = Some h" "credit_inv conv h" "settled h" "same_input g h"
    "cg_currentCredit h = credit_at g (cg_now g)"
proof -
  obtain k where k: "updateCurrentState g = Some k" "credit_ok k" "settled k" "same_input g k"
    "cg_currentCredit k = credit_at g (cg_now g)" by (rule update_settles[OF assms])
  obtain h where h: "cg_scheduleChangeTimer conv k = Some h" "credit_inv conv h" "settled h"
    "cg_currentCredit h = cg_currentCredit k" "same_input k h" by (rule timer_scheduled[OF k(2,3)])
  show ?thesis by (rule that[of h]) (use k h in \<open>auto simp: update_and_schedule_def same_input_def\<close>)
qed

lemma set_emit_ok:
  assumes "credit_ok g" "cg_minCredit g \<le> v" "v \<le> cg_maxCredit g"
  obtains h where "setCurrentCredit v g = Some h" "credit_ok (emitCurrentCredit True h)"
    "settled (emitCurrentCredit True h)" "same_input g (emitCurrentCredit True h)"
    "cg_currentCredit (emitCurrentCredit True h) = v"
    "cg_currentCreditGainRate (emitCurrentCredit True h) = cg_currentCreditGainRate g"
proof -
  obtain b where b: "setCurrentCredit v g = Some (g\<lparr>cg_currentCredit := v, cg_isOpen := b\<rparr>)"
    "credit_ok (g\<lparr>cg_currentCredit := v, cg_isOpen := b\<rparr>)"
    using setCurrentCredit_ok[OF assms] by blast
  have "emitCurrentCredit True (g\<lparr>cg_currentCredit := v, cg_isOpen := b\<rparr>) =
    g\<lparr>cg_currentCredit := v, cg_isOpen := b, cg_lastCurrentCreditEmitted := v, cg_lastCurrentCreditEmittedTime := cg_now g\<rparr>"
    by (cases g) (auto simp: emitCurrentCredit_def)
  with b show ?thesis by (intro that) (auto simp: credit_ok_def params_ok_def settled_def same_input_def)
qed

lemma gain_rate_keeps:
  "credit_ok (updateCurrentCreditGainRate g) = credit_ok g"
  "settled (updateCurrentCreditGainRate g) = settled g"
  "same_input h (updateCurrentCreditGainRate g) = same_input h g"
  "cg_currentCredit (updateCurrentCreditGainRate g) = cg_currentCredit g"
  by (auto simp: updateCurrentCreditGainRate_def setCurrentCreditGainRate_def credit_ok_def params_ok_def
      settled_def same_input_def split: option.splits)

section \<open>The handlers\<close>

text \<open>What an event makes of the credit: the extrapolated value, except at the end of the gap of an own
  transmission with nothing left to send, where it is cut off at the limit, and at the change timer, which
  sets it to the limit.\<close>

fun credit_after :: "credit_event \<Rightarrow> credit_gate \<Rightarrow> rat" where
  "credit_after InterpacketGapEnded g = (let c = credit_at g (cg_now g) in
     if cg_hasAvailablePacket g then c else min (cg_transmitCreditLimit g) c)"
| "credit_after ChangeTimer g = cg_transmitCreditLimit g"
| "credit_after _ g = credit_at g (cg_now g)"

text \<open>The event concerns this gate.\<close>

fun relevant :: "credit_event \<Rightarrow> credit_gate \<Rightarrow> bool" where
  "relevant InterpacketGapEnded g = cg_isInterpacketGap g"
| "relevant (TransmissionStarted own) g = own"
| "relevant (TransmissionEnded own) g = own"
| "relevant _ g = True"

text \<open>The kernel delivers the change timer when it expires, and no event later than a pending timer.\<close>

definition due :: "credit_event \<Rightarrow> credit_gate \<Rightarrow> bool" where
  "due e g \<longleftrightarrow> cg_lastCurrentCreditEmittedTime g \<le> cg_now g \<and>
     (case cg_changeTimer g of None \<Rightarrow> e \<noteq> ChangeTimer
      | Some T \<Rightarrow> cg_now g \<le> T \<and> (e = ChangeTimer \<longrightarrow> cg_now g = T))"

text \<open>The conversion to \<open>simtime_t\<close> rounds to the resolution of the simulation time: it is off by at most
  the resolution.\<close>

definition simtime_conversion :: "rat \<Rightarrow> (rat \<Rightarrow> rat) \<Rightarrow> bool" where
  "simtime_conversion tick conv \<longleftrightarrow> 0 \<le> tick \<and> (\<forall>x. \<bar>conv x - x\<bar> \<le> tick)"

lemma clamp_lipschitz:
  fixes lo hi x y :: rat
  shows "\<bar>max lo (min hi x) - max lo (min hi y)\<bar> \<le> \<bar>x - y\<bar>"
  by (auto simp: max_def min_def abs_if)

text \<open>So at the time of the timer the extrapolated credit is at the limit, up to what is gained in a tick.\<close>

lemma timer_reaches_limit:
  assumes "credit_inv conv g" "cg_changeTimer g = Some T" "simtime_conversion tick conv"
  shows "\<bar>credit_at g T - cg_transmitCreditLimit g\<bar> \<le> \<bar>cg_currentCreditGainRate g\<bar> * tick"
proof -
  let ?r = "cg_currentCreditGainRate g" and ?t = "cg_lastCurrentCreditEmittedTime g"
  let ?d = "(cg_transmitCreditLimit g - cg_currentCredit g) / ?r"
  have p: "?r \<noteq> 0" "T = ?t + conv ?d" "cg_lastCurrentCreditEmitted g = cg_currentCredit g" "params_ok g"
    using assms(1,2) by (auto simp: credit_inv_def timer_ok_def credit_ok_def crossing_def Let_def split: if_splits)
  let ?x = "cg_lastCurrentCreditEmitted g + ?r * (T - ?t)"
  have "?x - cg_transmitCreditLimit g = ?r * (conv ?d - ?d)" using p(1-3) by (simp add: field_simps)
  then have "\<bar>?x - cg_transmitCreditLimit g\<bar> = \<bar>?r\<bar> * \<bar>conv ?d - ?d\<bar>" by (simp add: abs_mult)
  also have "\<dots> \<le> \<bar>?r\<bar> * tick"
    using assms(3) by (intro mult_left_mono) (simp_all add: simtime_conversion_def)
  finally have x: "\<bar>?x - cg_transmitCreditLimit g\<bar> \<le> \<bar>?r\<bar> * tick" .
  have "cg_transmitCreditLimit g = max (cg_minCredit g) (min (cg_maxCredit g) (cg_transmitCreditLimit g))"
    using p(4) by (auto simp: params_ok_def)
  with x clamp_lipschitz[of "cg_minCredit g" "cg_maxCredit g" ?x "cg_transmitCreditLimit g"] show ?thesis
    by (simp add: credit_at_def)
qed

lemma handle_irrelevant: "\<not> relevant e g \<Longrightarrow> cg_handle conv e g = Some g"
  by (cases e) (auto simp: cg_gapEnded_def cg_transmissionStarted_def cg_transmissionEnded_def)

text \<open>Changing an input field of the gate changes neither its credit nor its openness.\<close>

lemma input_keeps:
  "credit_ok (g\<lparr>cg_isTransmitting := a, cg_isInterpacketGap := b\<rparr>) = credit_ok g"
  "credit_ok (g\<lparr>cg_isTransmitting := a\<rparr>) = credit_ok g" "credit_ok (g\<lparr>cg_isInterpacketGap := b\<rparr>) = credit_ok g"
  "credit_ok (g\<lparr>cg_hasAvailablePacket := c\<rparr>) = credit_ok g" "credit_ok (g\<lparr>cg_periodicGate := d\<rparr>) = credit_ok g"
  "credit_ok (g\<lparr>cg_changeTimer := e\<rparr>) = credit_ok g"
  "settled (g\<lparr>cg_isTransmitting := a, cg_isInterpacketGap := b\<rparr>) = settled g"
  "settled (g\<lparr>cg_isTransmitting := a\<rparr>) = settled g" "settled (g\<lparr>cg_isInterpacketGap := b\<rparr>) = settled g"
  "credit_at (g\<lparr>cg_isTransmitting := a, cg_isInterpacketGap := b\<rparr>) = credit_at g"
  "credit_at (g\<lparr>cg_isTransmitting := a\<rparr>) = credit_at g" "credit_at (g\<lparr>cg_isInterpacketGap := b\<rparr>) = credit_at g"
  "credit_at (g\<lparr>cg_hasAvailablePacket := c\<rparr>) = credit_at g" "credit_at (g\<lparr>cg_periodicGate := d\<rparr>) = credit_at g"
  by (auto simp: credit_ok_def params_ok_def settled_def credit_at_def fun_eq_iff)

text \<open>Update, change an input, update again: the second update moves no credit.\<close>

lemma update_input_update:
  assumes "credit_ok g" and f: "\<And>h. credit_ok (f h) = credit_ok h" "\<And>h. credit_at (f h) = credit_at h"
    "\<And>h. cg_now (f h) = cg_now h"
  obtains k where "do { h \<leftarrow> updateCurrentState g; update_and_schedule conv (f h) } = Some k"
    "credit_inv conv k" "settled k" "cg_now k = cg_now g" "cg_currentCredit k = credit_at g (cg_now g)"
proof -
  obtain h where h: "updateCurrentState g = Some h" "credit_ok h" "settled h" "same_input g h"
    "cg_currentCredit h = credit_at g (cg_now g)" by (rule update_settles[OF assms(1)])
  have "credit_ok (f h)" using h(2) f(1) by simp
  then obtain k where k: "update_and_schedule conv (f h) = Some k" "credit_inv conv k" "settled k" "same_input (f h) k"
    "cg_currentCredit k = credit_at (f h) (cg_now (f h))" by (rule update_schedule_ok)
  have "cg_currentCredit k = cg_currentCredit h"
    using k(5) f credit_at_settled[OF h(3,2)] by simp
  with h k f show ?thesis by (intro that[of k]) (auto simp: same_input_def)
qed

lemma gap_ended_ok:
  assumes "credit_ok g" "cg_isInterpacketGap g"
  obtains k where "cg_gapEnded conv g = Some k" "credit_inv conv k" "settled k" "cg_now k = cg_now g"
    "cg_currentCredit k = credit_after InterpacketGapEnded g"
proof -
  obtain h0 where h0: "updateCurrentState g = Some h0" "credit_ok h0" "settled h0" "same_input g h0"
    "cg_currentCredit h0 = credit_at g (cg_now g)" by (rule update_settles[OF assms(1)])
  define h where "h = h0\<lparr>cg_isInterpacketGap := False\<rparr>"
  have h: "credit_ok h" "settled h" "cg_currentCredit h = credit_at g (cg_now g)"
    "cg_hasAvailablePacket h = cg_hasAvailablePacket g" "cg_now h = cg_now g"
    "cg_transmitCreditLimit h = cg_transmitCreditLimit g"
    using h0 by (auto simp: h_def input_keeps same_input_def)
  obtain m where m: "(if \<not> cg_hasAvailablePacket h then
       do { g \<leftarrow> setCurrentCredit (min (cg_transmitCreditLimit h) (cg_currentCredit h)) h;
            Some (emitCurrentCredit True g) } else Some h) = Some m"
    "credit_ok m" "settled m" "cg_now m = cg_now g" "cg_currentCredit m = credit_after InterpacketGapEnded g"
  proof (cases "cg_hasAvailablePacket h")
    case True
    with h that[of h] show ?thesis by (simp add: Let_def)
  next
    case False
    have b: "cg_minCredit h \<le> min (cg_transmitCreditLimit h) (cg_currentCredit h)"
      "min (cg_transmitCreditLimit h) (cg_currentCredit h) \<le> cg_maxCredit h"
      using h(1) by (auto simp: credit_ok_def params_ok_def)
    show ?thesis
      by (rule set_emit_ok[OF h(1) b], rule that) (use False h in \<open>auto simp: same_input_def Let_def\<close>)
  qed
  obtain k where k: "update_and_schedule conv m = Some k" "credit_inv conv k" "settled k" "same_input m k"
    "cg_currentCredit k = credit_at m (cg_now m)" by (rule update_schedule_ok[OF m(2)])
  have "cg_gapEnded conv g = Some k"
    unfolding cg_gapEnded_def if_P[OF assms(2)] h0(1) Option.bind.bind_lunit Let_def h_def[symmetric] m(1) k(1) ..
  moreover have "cg_currentCredit k = credit_after InterpacketGapEnded g"
    using k(5) credit_at_settled[OF m(3,2)] m(5) by simp
  ultimately show ?thesis using that k m(4) by (simp add: same_input_def)
qed

lemma change_timer_ok:
  assumes "credit_inv conv g"
  obtains k where "cg_handleMessage conv g = Some k" "credit_inv conv k" "settled k" "cg_now k = cg_now g"
    "cg_currentCredit k = cg_transmitCreditLimit g" "cg_isOpen k"
proof -
  let ?g = "g\<lparr>cg_changeTimer := None\<rparr>"
  have c: "credit_ok ?g" using assms(1) by (simp add: credit_inv_def input_keeps)
  have b: "cg_minCredit ?g \<le> cg_transmitCreditLimit g" "cg_transmitCreditLimit g \<le> cg_maxCredit ?g"
    using assms(1) by (simp_all add: credit_inv_def credit_ok_def params_ok_def)
  obtain h where h: "setCurrentCredit (cg_transmitCreditLimit g) ?g = Some h" "credit_ok (emitCurrentCredit True h)"
    "settled (emitCurrentCredit True h)" "same_input ?g (emitCurrentCredit True h)"
    "cg_currentCredit (emitCurrentCredit True h) = cg_transmitCreditLimit g"
    by (rule set_emit_ok[OF c b])
  define m where "m = updateCurrentCreditGainRate (emitCurrentCredit True h)"
  have m: "credit_ok m" "settled m" "same_input ?g m" "cg_currentCredit m = cg_transmitCreditLimit g"
    using h unfolding m_def gain_rate_keeps by blast+
  obtain k where k: "cg_scheduleChangeTimer conv m = Some k" "credit_inv conv k" "settled k"
    "cg_currentCredit k = cg_currentCredit m" "same_input m k" by (rule timer_scheduled[OF m(1,2)])
  have e: "cg_handleMessage conv g = Some k"
    unfolding cg_handleMessage_def h(1) by (simp add: Let_def m_def[symmetric] k(1))
  have "cg_transmitCreditLimit k = cg_transmitCreditLimit g" "cg_now k = cg_now g"
    using k(5) m(3) by (auto simp: same_input_def)
  moreover from this have "cg_isOpen k" using k(2,4) m(4) by (simp add: credit_inv_def credit_ok_def)
  ultimately show ?thesis using that e k m(4) by simp
qed

lemma handle_ok:
  assumes "credit_inv conv g" "due e g" "relevant e g"
  obtains k where "cg_handle conv e g = Some k" "credit_inv conv k" "settled k" "cg_now k = cg_now g"
    "cg_currentCredit k = credit_after e g"
proof -
  have c: "credit_ok g" using assms(1) by (simp add: credit_inv_def)
  note res = that
  have quiet: thesis if h: "cg_handle conv e g = update_and_schedule conv h" "credit_ok h" "cg_now h = cg_now g"
    "credit_at h (cg_now h) = credit_after e g" for h
    by (rule update_schedule_ok[OF h(2)], rule res) (use h in \<open>auto simp: same_input_def\<close>)
  show ?thesis
  proof (cases e)
    case ChangeTimer
    show ?thesis
      by (rule change_timer_ok[OF assms(1)], rule res)
        (auto simp: ChangeTimer)
  next
    case (PeriodicGateChanged st)
    then show ?thesis by (intro quiet[of "g\<lparr>cg_periodicGate := Some st\<rparr>"]) (auto simp: c input_keeps)
  next
    case InterpacketGapEnded
    show ?thesis
      by (rule gap_ended_ok[OF c], use assms(3) InterpacketGapEnded in simp, rule res)
        (auto simp: InterpacketGapEnded)
  next
    case (TransmissionStarted own)
    show ?thesis
      by (rule update_input_update[OF c, where f = "\<lambda>g. g\<lparr>cg_isTransmitting := True\<rparr>"],
          simp_all add: input_keeps, rule res)
        (use assms(3) in \<open>auto simp: TransmissionStarted cg_transmissionStarted_def\<close>)
  next
    case (TransmissionEnded own)
    show ?thesis
      by (rule update_input_update[OF c, where f = "\<lambda>g. g\<lparr>cg_isTransmitting := False, cg_isInterpacketGap := True\<rparr>"],
          simp_all add: input_keeps, rule res)
        (use assms(3) in \<open>auto simp: TransmissionEnded cg_transmissionEnded_def\<close>)
  next
    case (CanPullPacketChanged b)
    then show ?thesis by (intro quiet[of "g\<lparr>cg_hasAvailablePacket := b\<rparr>"]) (auto simp: c input_keeps)
  qed
qed

section \<open>Runs\<close>

text \<open>The gate reached from its initialisation by events, each at its time.\<close>

definition initial_ok :: "rat \<Rightarrow> credit_gate \<Rightarrow> bool" where
  "initial_ok c g \<longleftrightarrow> params_ok g \<and> cg_minCredit g \<le> c \<and> c \<le> cg_maxCredit g"

inductive credit_reachable :: "(rat \<Rightarrow> rat) \<Rightarrow> credit_gate \<Rightarrow> bool" for conv :: "rat \<Rightarrow> rat" where
  cg_start: "initial_ok c g \<Longrightarrow> cg_initialize conv c g = Some h \<Longrightarrow> credit_reachable conv h"
| cg_event: "credit_reachable conv g \<Longrightarrow> cg_now g \<le> t \<Longrightarrow> due e (g\<lparr>cg_now := t\<rparr>) \<Longrightarrow>
    cg_handle conv e (g\<lparr>cg_now := t\<rparr>) = Some h \<Longrightarrow> credit_reachable conv h"

lemma credit_inv_now: "credit_inv conv (g\<lparr>cg_now := t\<rparr>) = credit_inv conv g"
  by (simp add: credit_inv_def credit_ok_def params_ok_def timer_ok_def crossing_def)

lemma initialize_ok:
  assumes "initial_ok c g"
  obtains h where "cg_initialize conv c g = Some h" "credit_inv conv h" "settled h" "cg_currentCredit h = c"
proof -
  let ?g = "g\<lparr>cg_currentCredit := c, cg_currentCreditGainRate := cg_idleCreditGainRate g,
       cg_lastCurrentCreditEmitted := c, cg_lastCurrentCreditEmittedTime := cg_now g,
       cg_isOpen := (c \<ge> cg_transmitCreditLimit g),
       cg_isTransmitting := False, cg_isInterpacketGap := False, cg_changeTimer := None\<rparr>"
  have c: "credit_ok ?g" "credit_at ?g (cg_now ?g) = c"
    using assms by (auto simp: initial_ok_def credit_ok_def params_ok_def credit_at_def)
  obtain h where "update_and_schedule conv ?g = Some h" "credit_inv conv h" "settled h"
    "cg_currentCredit h = credit_at ?g (cg_now ?g)" by (rule update_schedule_ok[OF c(1)])
  with c(2) show ?thesis by (intro that) (simp_all only: cg_initialize_def)
qed

lemma credit_reachable_inv: "credit_reachable conv g \<Longrightarrow> credit_inv conv g \<and> cg_lastCurrentCreditEmittedTime g \<le> cg_now g"
proof (induction rule: credit_reachable.induct)
  case (cg_start c g h)
  obtain k where "cg_initialize conv c g = Some k" "credit_inv conv k" "settled k" by (rule initialize_ok[OF cg_start(1)])
  with cg_start(2) show ?case by (simp add: settled_def)
next
  case (cg_event g t e h)
  let ?g = "g\<lparr>cg_now := t\<rparr>"
  have i: "credit_inv conv ?g" using cg_event.IH by (simp add: credit_inv_now)
  show ?case
  proof (cases "relevant e ?g")
    case True
    show ?thesis
      by (rule handle_ok[OF i cg_event.hyps(3) True]) (use cg_event.hyps(4) in \<open>auto simp: settled_def\<close>)
  next
    case False
    then have "h = ?g" using cg_event.hyps(4) by (simp add: handle_irrelevant)
    with i cg_event.hyps(2) cg_event.IH show ?thesis by auto
  qed
qed

lemma timer_not_past: "credit_reachable conv g \<Longrightarrow> cg_changeTimer g = Some T \<Longrightarrow> cg_lastCurrentCreditEmittedTime g < T"
  using credit_reachable_inv[of conv g] by (auto simp: credit_inv_def timer_ok_def Let_def split: if_splits)

text \<open>
  C17. In every reachable state of the credit-based gate the credit lies between its bounds and the gate
  is open exactly when the credit has reached the transmit limit, however the kernel rounds a time to ticks.
  Every event that is due is handled without a failed assertion (\<open>open\<close> on an open gate, \<open>close\<close> on a
  closed one, a timer computed from a stale credit), and an event that concerns the gate moves the credit
  exactly to its extrapolated value, except that it is cut off at the limit at the end of the gap when
  nothing is left to send, and that the change timer sets it to the limit, which is the extrapolated value
  up to what is gained or spent in one tick (exactly that value where times are not rounded, \<open>tick = 0\<close>).
\<close>

theorem credit_gate_accounts:
  assumes "credit_reachable conv g" "cg_now g \<le> t" "due e (g\<lparr>cg_now := t\<rparr>)"
  shows "cg_minCredit g \<le> cg_currentCredit g \<and> cg_currentCredit g \<le> cg_maxCredit g \<and>
    (cg_isOpen g \<longleftrightarrow> cg_transmitCreditLimit g \<le> cg_currentCredit g) \<and>
    (\<exists>h. cg_handle conv e (g\<lparr>cg_now := t\<rparr>) = Some h \<and> credit_reachable conv h \<and>
       cg_currentCredit h = (if relevant e g then credit_after e (g\<lparr>cg_now := t\<rparr>) else cg_currentCredit g)) \<and>
    (e = ChangeTimer \<and> simtime_conversion tick conv \<longrightarrow>
       \<bar>credit_at g t - cg_transmitCreditLimit g\<bar> \<le> \<bar>cg_currentCreditGainRate g\<bar> * tick)"
proof -
  let ?g = "g\<lparr>cg_now := t\<rparr>"
  have i: "credit_inv conv g" and i': "credit_inv conv ?g"
    using credit_reachable_inv[OF assms(1)] by (simp_all add: credit_inv_now)
  have r: "relevant e ?g = relevant e g" by (cases e) auto
  have "\<exists>h. cg_handle conv e ?g = Some h \<and>
       cg_currentCredit h = (if relevant e g then credit_after e ?g else cg_currentCredit g)"
  proof (cases "relevant e ?g")
    case True
    then show ?thesis unfolding r[symmetric] by (auto elim!: handle_ok[OF i' assms(3)])
  qed (simp add: handle_irrelevant flip: r)
  moreover have "\<bar>credit_at g t - cg_transmitCreditLimit g\<bar> \<le> \<bar>cg_currentCreditGainRate g\<bar> * tick"
    if "e = ChangeTimer \<and> simtime_conversion tick conv"
    using that assms(3) by (intro timer_reaches_limit[OF i]) (auto simp: due_def split: option.splits)
  ultimately show ?thesis
    using i assms by (auto simp: credit_inv_def credit_ok_def intro: credit_reachable.cg_event)
qed

text \<open>
  C39. A closed gate that gains credit has its change timer pending whenever the time to the transmit limit
  is not rounded to zero ticks: at the last update plus the rounded time, which is off the exact crossing by
  at most a tick and where the extrapolated credit is off the limit by at most what is gained in a tick; when
  the timer expires, the gate opens with the credit at the limit. If the time is rounded to zero, no timer is
  pending, and the gate is within a tick of the limit. (The conversion of times is a parameter, off by at most
  the resolution \<open>tick\<close> of the simulation time.)
\<close>

theorem credit_gate_reopens:
  assumes "credit_reachable conv g" "\<not> cg_isOpen g" "cg_currentCreditGainRate g > 0" "simtime_conversion tick conv"
  shows "let d = (cg_transmitCreditLimit g - cg_currentCredit g) / cg_currentCreditGainRate g;
             T = cg_lastCurrentCreditEmittedTime g + conv d
    in if conv d > 0
       then cg_changeTimer g = Some T \<and> \<bar>T - (cg_lastCurrentCreditEmittedTime g + d)\<bar> \<le> tick \<and>
         \<bar>credit_at g T - cg_transmitCreditLimit g\<bar> \<le> cg_currentCreditGainRate g * tick \<and>
         (\<exists>h. cg_handle conv ChangeTimer (g\<lparr>cg_now := T\<rparr>) = Some h \<and> cg_isOpen h \<and>
           cg_currentCredit h = cg_transmitCreditLimit g)
       else cg_changeTimer g = None \<and> 0 < d \<and> d \<le> tick"
proof -
  let ?t = "cg_lastCurrentCreditEmittedTime g"
  define d where "d = (cg_transmitCreditLimit g - cg_currentCredit g) / cg_currentCreditGainRate g"
  have i: "credit_inv conv g" using credit_reachable_inv[OF assms(1)] by simp
  have d: "0 < d" "\<bar>conv d - d\<bar> \<le> tick"
    using i assms(2-4) by (auto simp: d_def credit_inv_def credit_ok_def simtime_conversion_def)
  have T: "cg_changeTimer g = (if conv d > 0 then Some (?t + conv d) else None)"
    using i assms(3) by (auto simp: credit_inv_def timer_ok_def crossing_def d_def Let_def)
  have "credit_inv conv (g\<lparr>cg_now := ?t + conv d\<rparr>)" using i by (simp add: credit_inv_now)
  then obtain h where "cg_handleMessage conv (g\<lparr>cg_now := ?t + conv d\<rparr>) = Some h" "cg_isOpen h"
      "cg_currentCredit h = cg_transmitCreditLimit g"
    by (rule change_timer_ok) simp
  with T timer_reaches_limit[OF i _ assms(4), of "?t + conv d"] d assms(3) show ?thesis
    unfolding d_def[symmetric] Let_def by (auto simp: abs_le_iff)
qed

text \<open>A class with an idle slope of 75 units and a send slope of 25, which starts empty and has a packet.\<close>

definition idle_gate :: credit_gate where
  "idle_gate = \<lparr>cg_now = 0, cg_idleCreditGainRate = 75, cg_transmitCreditSpendRate = 25, cg_transmitCreditLimit = 0,
     cg_minCredit = -100, cg_maxCredit = 100, cg_accumulateCreditInGuardBand = True, cg_periodicGate = None,
     cg_hasAvailablePacket = True, cg_isOpen = False, cg_isTransmitting = False, cg_isInterpacketGap = False,
     cg_currentCredit = 0, cg_currentCreditGainRate = 0, cg_lastCurrentCreditEmitted = 0,
     cg_lastCurrentCreditEmittedTime = 0, cg_changeTimer = None\<rparr>"

lemmas credit_defs = cg_initialize_def update_and_schedule_def updateCurrentState_def updateCurrentCredit_def
  setCurrentCredit_def updateCurrentCreditGainRate_def setCurrentCreditGainRate_def emitCurrentCredit_def
  cg_scheduleChangeTimer_def cg_open_def cg_close_def Let_def

definition waiting_gate :: credit_gate where
  "waiting_gate = idle_gate\<lparr>cg_currentCredit := -75, cg_currentCreditGainRate := 75,
     cg_lastCurrentCreditEmitted := -75, cg_changeTimer := Some 1\<rparr>"

text \<open>A conversion that rounds to the nearest tick.\<close>

definition nearest_tick :: "rat \<Rightarrow> rat \<Rightarrow> rat" where
  "nearest_tick tick x = tick * of_int (round (x / tick))"

lemma nearest_tick_conversion: "0 < tick \<Longrightarrow> simtime_conversion tick (nearest_tick tick)"
proof -
  assume t: "0 < tick"
  have "\<bar>nearest_tick tick x - x\<bar> \<le> tick" for x
  proof -
    have "nearest_tick tick x - x = tick * (of_int (round (x / tick)) - x / tick)"
      using t by (simp add: nearest_tick_def field_simps)
    then have "\<bar>nearest_tick tick x - x\<bar> = tick * \<bar>of_int (round (x / tick)) - x / tick\<bar>"
      using t by (simp add: abs_mult)
    also have "\<dots> \<le> tick * 1"
      using of_int_round_abs_le[of "x / tick"] t by (intro mult_left_mono) auto
    finally show ?thesis by simp
  qed
  with t show ?thesis by (simp add: simtime_conversion_def)
qed

lemma nearest_tick_one: "nearest_tick (1/4) 1 = 1"
  by (simp add: nearest_tick_def)

lemma waiting_gate_reachable: "credit_reachable (nearest_tick (1/4)) waiting_gate"
proof (rule cg_start)
  show "initial_ok (-75) idle_gate" by (simp add: initial_ok_def params_ok_def idle_gate_def)
  show "cg_initialize (nearest_tick (1/4)) (-75) idle_gate = Some waiting_gate"
    by (simp add: credit_defs idle_gate_def waiting_gate_def nearest_tick_one)
qed

text \<open>A gate whose time to the limit is rounded to zero ticks: it stays closed with no timer pending, and
  gains credit until the next event.\<close>

lemma short_wait_has_no_timer:
  "\<exists>g. credit_reachable (nearest_tick (1/4)) g \<and> \<not> cg_isOpen g \<and> cg_currentCreditGainRate g = 75 \<and>
     cg_changeTimer g = None \<and> credit_at g 1 > cg_transmitCreditLimit g"
proof -
  have "round (4 / 75 :: rat) = 0" by (intro round_unique') simp
  then have "cg_initialize (nearest_tick (1/4)) (-1) idle_gate =
    Some (waiting_gate\<lparr>cg_currentCredit := -1, cg_lastCurrentCreditEmitted := -1, cg_changeTimer := None\<rparr>)"
    by (simp add: credit_defs idle_gate_def waiting_gate_def nearest_tick_def)
  moreover have "initial_ok (-1) idle_gate" by (simp add: initial_ok_def params_ok_def idle_gate_def)
  ultimately show ?thesis
    by (intro exI[of _ "waiting_gate\<lparr>cg_currentCredit := -1, cg_lastCurrentCreditEmitted := -1, cg_changeTimer := None\<rparr>"])
      (auto simp: waiting_gate_def idle_gate_def credit_at_def intro: cg_start)
qed

lemma credit_gate_accounts_witness:
  "\<exists>h. cg_handle (nearest_tick (1/4)) ChangeTimer (waiting_gate\<lparr>cg_now := 1\<rparr>) = Some h \<and>
    credit_reachable (nearest_tick (1/4)) h \<and> cg_currentCredit h = 0"
  using credit_gate_accounts[OF waiting_gate_reachable, of 1 ChangeTimer]
  by (auto simp: due_def waiting_gate_def idle_gate_def)

lemma credit_gate_reopens_witness:
  "\<exists>h. cg_changeTimer waiting_gate = Some 1 \<and>
    cg_handle (nearest_tick (1/4)) ChangeTimer (waiting_gate\<lparr>cg_now := 1\<rparr>) = Some h \<and> cg_isOpen h"
proof -
  have "\<not> cg_isOpen waiting_gate" "cg_currentCreditGainRate waiting_gate > 0"
    "cg_transmitCreditLimit waiting_gate = 0" "cg_currentCredit waiting_gate = - 75"
    "cg_currentCreditGainRate waiting_gate = 75" "cg_lastCurrentCreditEmittedTime waiting_gate = 0"
    by (simp_all add: waiting_gate_def idle_gate_def)
  with credit_gate_reopens[OF waiting_gate_reachable _ _ nearest_tick_conversion[of "1/4"]] show ?thesis
    by (auto simp: nearest_tick_one Let_def)
qed

end
