(* ===== verification/Token_Bucket.thy ===== *)
theory Token_Bucket
  imports Prelude
begin

text \<open>
  Token buckets (src/inet/src/inet/queueing/common/TokenBucket.cc), the modules with one bucket or with
  several (\<open>base/TokenBucketMixin.h\<close>, \<open>base/MultiTokenBucketMixin.h\<close>), and the meters and classifiers
  that are built on them (\<open>meter/\<close>, \<open>classifier/\<close>).

  A chain of buckets is a list: the excess storage of a bucket is the rest of the list, and the empty
  list is the null pointer. Numbers of tokens, rates and times are exact rational numbers. A bound that
  is not positive means an unlimited bucket, as in the code (whose default is an infinite bound). \<open>None\<close>
  is a failed \<open>ASSERT\<close> or a \<open>throw\<close>. Excess storages that are other modules are not modelled.
\<close>

section \<open>Buckets\<close>

record token_bucket =
  tb_numTokens :: rat
  tb_maxNumTokens :: rat
  tb_tokenProductionRate :: rat
  tb_excessTokenProductionRate :: rat
  tb_lastUpdate :: rat

fun addTokenProductionRate :: "rat \<Rightarrow> token_bucket list \<Rightarrow> token_bucket list option" where
  "addTokenProductionRate r [] = None"
| "addTokenProductionRate r (b # ex) =
     do {
       ensure (r \<ge> 0);
       if r > 0 then do {
         (b, ex) \<leftarrow> (if tb_numTokens b = tb_maxNumTokens b \<and> ex \<noteq> [] then do {
               ensure (tb_tokenProductionRate b = tb_excessTokenProductionRate b);
               ex \<leftarrow> addTokenProductionRate r ex;
               Some (b\<lparr>tb_excessTokenProductionRate := tb_excessTokenProductionRate b + r\<rparr>, ex) }
             else Some (b, ex));
         let b = b\<lparr>tb_tokenProductionRate := tb_tokenProductionRate b + r\<rparr>;
         ensure (tb_tokenProductionRate b \<ge> 0);
         Some (b # ex) }
       else Some (b # ex)
     }"

fun removeTokenProductionRate :: "rat \<Rightarrow> token_bucket list \<Rightarrow> token_bucket list option" where
  "removeTokenProductionRate r [] = None"
| "removeTokenProductionRate r (b # ex) =
     do {
       ensure (r \<ge> 0);
       if r > 0 then do {
         (b, ex) \<leftarrow> (if tb_numTokens b = tb_maxNumTokens b \<and> ex \<noteq> [] then do {
               ensure (tb_tokenProductionRate b = tb_excessTokenProductionRate b);
               ex \<leftarrow> removeTokenProductionRate r ex;
               Some (b\<lparr>tb_excessTokenProductionRate := tb_excessTokenProductionRate b - r\<rparr>, ex) }
             else Some (b, ex));
         let b = b\<lparr>tb_tokenProductionRate := tb_tokenProductionRate b - r\<rparr>;
         ensure (tb_tokenProductionRate b \<ge> 0);
         Some (b # ex) }
       else Some (b # ex)
     }"

fun addTokens :: "rat \<Rightarrow> token_bucket list \<Rightarrow> token_bucket list option" where
  "addTokens a [] = None"
| "addTokens a (b # ex) =
     do {
       ensure (a \<ge> 0);
       if a > 0 then
         (let n = tb_numTokens b + a in
          if tb_maxNumTokens b > 0 \<and> n \<ge> tb_maxNumTokens b then do {
            (b, ex) \<leftarrow> (if ex \<noteq> [] then do {
                  ex \<leftarrow> addTokens (n - tb_maxNumTokens b) ex;
                  ex \<leftarrow> addTokenProductionRate (tb_tokenProductionRate b - tb_excessTokenProductionRate b) ex;
                  Some (b\<lparr>tb_excessTokenProductionRate := tb_tokenProductionRate b\<rparr>, ex) }
                else Some (b, ex));
            Some (b\<lparr>tb_numTokens := tb_maxNumTokens b\<rparr> # ex) }
          else Some (b\<lparr>tb_numTokens := n\<rparr> # ex))
       else Some (b # ex)
     }"

fun removeTokens :: "rat \<Rightarrow> token_bucket list \<Rightarrow> token_bucket list option" where
  "removeTokens a [] = None"
| "removeTokens a (b # ex) =
     do {
       ensure (a \<ge> 0);
       if a > 0 then do {
         (b, ex) \<leftarrow> (if tb_numTokens b = tb_maxNumTokens b \<and> ex \<noteq> [] then do {
               ensure (tb_tokenProductionRate b = tb_excessTokenProductionRate b);
               ex \<leftarrow> removeTokenProductionRate (tb_excessTokenProductionRate b) ex;
               Some (b\<lparr>tb_excessTokenProductionRate := 0\<rparr>, ex) }
             else Some (b, ex));
         ensure (\<not> tb_numTokens b < a);
         Some (b\<lparr>tb_numTokens := tb_numTokens b - a\<rparr> # ex) }
       else Some (b # ex)
     }"

fun updateNumTokens :: "rat \<Rightarrow> token_bucket list \<Rightarrow> token_bucket list option" where
  "updateNumTokens now [] = None"
| "updateNumTokens now (b # ex) =
     do {
       c \<leftarrow> addTokens (tb_tokenProductionRate b * (now - tb_lastUpdate b)) (b # ex);
       Some ((hd c)\<lparr>tb_lastUpdate := now\<rparr> # tl c)
     }"

text \<open>\<open>getNumTokens\<close> updates the bucket first.\<close>

definition tb_getNumTokens :: "rat \<Rightarrow> token_bucket list \<Rightarrow> (rat \<times> token_bucket list) option" where
  "tb_getNumTokens now c = do { c \<leftarrow> updateNumTokens now c; Some (tb_numTokens (hd c), c) }"

text \<open>A bucket is constructed empty and the initial tokens are added.\<close>

definition new_bucket :: "rat \<Rightarrow> rat \<Rightarrow> rat \<Rightarrow> token_bucket list \<Rightarrow> token_bucket list option" where
  "new_bucket n m r ex = addTokens n (\<lparr>tb_numTokens = 0, tb_maxNumTokens = m, tb_tokenProductionRate = r,
     tb_excessTokenProductionRate = 0, tb_lastUpdate = 0\<rparr> # ex)"

text \<open>The time at which the bucket is full, rounded up by one tick; \<open>-1\<close> when it does not fill.
  \<open>None\<close> is the overflow of the time type when nothing is produced.\<close>

definition tick :: rat where "tick = 1 / 10 ^ 12"

definition getOverflowTime :: "rat \<Rightarrow> token_bucket list \<Rightarrow> (rat \<times> token_bucket list) option" where
  "getOverflowTime now c =
     do {
       (n, c) \<leftarrow> tb_getNumTokens now c;
       let b = hd c;
       if tb_maxNumTokens b > 0 \<and> tb_maxNumTokens b \<noteq> n then do {
         ensure (tb_tokenProductionRate b \<noteq> 0);
         Some (now + (tb_maxNumTokens b - n) / tb_tokenProductionRate b + tick, c) }
       else Some (-1, c)
     }"

section \<open>Modules\<close>

text \<open>\<open>MultiTokenBucketMixin\<close>: the buckets are created from the last to the first, each with the next one
  as its excess storage; asking for the tokens asks every bucket in turn. The configuration gives the
  initial and maximal number and the rate.\<close>

fun create_buckets :: "(rat \<times> rat \<times> rat) list \<Rightarrow> token_bucket list option" where
  "create_buckets [] = Some []"
| "create_buckets ((n, m, r) # cfg) = do { ex \<leftarrow> create_buckets cfg; new_bucket n m r ex }"

definition at_bucket :: "nat \<Rightarrow> (token_bucket list \<Rightarrow> token_bucket list option) \<Rightarrow> token_bucket list \<Rightarrow> token_bucket list option" where
  "at_bucket i f c = do { s \<leftarrow> f (drop i c); Some (take i c @ s) }"

fun update_from :: "nat \<Rightarrow> nat \<Rightarrow> rat \<Rightarrow> token_bucket list \<Rightarrow> token_bucket list option" where
  "update_from 0 i now c = Some c"
| "update_from (Suc k) i now c = do { c \<leftarrow> at_bucket i (updateNumTokens now) c; update_from k (Suc i) now c }"

definition multi_getNumTokens :: "rat \<Rightarrow> token_bucket list \<Rightarrow> (rat \<times> token_bucket list) option" where
  "multi_getNumTokens now c =
     do { c \<leftarrow> update_from (length c) 0 now c; Some (sum_list (map tb_numTokens c), c) }"

definition multi_addTokens :: "rat \<Rightarrow> rat \<Rightarrow> token_bucket list \<Rightarrow> token_bucket list option" where
  "multi_addTokens now a c =
     do {
       (_, c) \<leftarrow> multi_getNumTokens now c;
       c \<leftarrow> addTokens a c;
       (_, c) \<leftarrow> multi_getNumTokens now c;
       Some c
     }"

definition multi_removeTokens :: "rat \<Rightarrow> rat \<Rightarrow> token_bucket list \<Rightarrow> token_bucket list option" where
  "multi_removeTokens now a c =
     do {
       (_, c) \<leftarrow> multi_getNumTokens now c;
       c \<leftarrow> removeTokens a c;
       (_, c) \<leftarrow> multi_getNumTokens now c;
       Some c
     }"

text \<open>The tokens a packet needs.\<close>

definition getNumPacketTokens :: "rat \<Rightarrow> rat \<Rightarrow> nat \<Rightarrow> rat" where
  "getNumPacketTokens perPacket perBit dataLength = of_nat dataLength * perBit + perPacket"

text \<open>\<open>TokenBucketMeter\<close> and \<open>TokenBucketClassifier\<close>: one bucket; the verdict is whether the packet was
  paid. The meter needs enough tokens, the classifier more than enough.\<close>

definition tb_pay :: "(rat \<Rightarrow> rat \<Rightarrow> bool) \<Rightarrow> rat \<Rightarrow> rat \<Rightarrow> token_bucket list \<Rightarrow> (bool \<times> token_bucket list) option" where
  "tb_pay enough now need c =
     do {
       (n, c) \<leftarrow> tb_getNumTokens now c;
       if enough n need then do { c \<leftarrow> removeTokens need c; Some (True, c) } else Some (False, c)
     }"

definition meter_packet :: "rat \<Rightarrow> rat \<Rightarrow> token_bucket list \<Rightarrow> (bool \<times> token_bucket list) option" where
  "meter_packet now need c = do { (_, c) \<leftarrow> tb_getNumTokens now c; tb_pay (\<lambda>n k. n \<ge> k) now need c }"

definition classify_packet :: "rat \<Rightarrow> rat \<Rightarrow> token_bucket list \<Rightarrow> (nat \<times> token_bucket list) option" where
  "classify_packet now need c =
     do {
       (_, c) \<leftarrow> tb_getNumTokens now c;
       (paid, c) \<leftarrow> tb_pay (\<lambda>n k. n > k) now need c;
       Some (if paid then 0 else 1, c)
     }"

text \<open>\<open>MultiTokenBucketMeter\<close> and \<open>MultiTokenBucketClassifier\<close>: the first bucket that can pay.\<close>

fun pay_from :: "(rat \<Rightarrow> rat \<Rightarrow> bool) \<Rightarrow> nat \<Rightarrow> nat \<Rightarrow> rat \<Rightarrow> rat \<Rightarrow> token_bucket list \<Rightarrow> (nat option \<times> token_bucket list) option" where
  "pay_from enough 0 i now need c = Some (None, c)"
| "pay_from enough (Suc k) i now need c =
     do {
       (n, s) \<leftarrow> tb_getNumTokens now (drop i c);
       let c = take i c @ s;
       if enough n need then do {
         c \<leftarrow> at_bucket i (removeTokens need) c;
         (_, c) \<leftarrow> multi_getNumTokens now c;
         Some (Some i, c) }
       else pay_from enough k (Suc i) now need c
     }"

definition multi_meter_packet :: "rat \<Rightarrow> rat \<Rightarrow> token_bucket list \<Rightarrow> (nat option \<times> token_bucket list) option" where
  "multi_meter_packet now need c =
     do { (_, c) \<leftarrow> multi_getNumTokens now c; pay_from (\<lambda>n k. n \<ge> k) (length c) 0 now need c }"

definition multi_classify_packet :: "nat \<Rightarrow> rat \<Rightarrow> rat \<Rightarrow> token_bucket list \<Rightarrow> (nat \<times> token_bucket list) option" where
  "multi_classify_packet numOutputGates now need c =
     do {
       (_, c) \<leftarrow> multi_getNumTokens now c;
       (i, c) \<leftarrow> pay_from (\<lambda>n k. n > k) (length c) 0 now need c;
       Some (case i of Some i \<Rightarrow> i | None \<Rightarrow> numOutputGates - 1, c)
     }"

text \<open>\<open>labelPacket\<close> of the meters with a priority order of labels: a label of a lower rank is replaced,
  one of the same or a higher rank is kept. Erasing shifts the array under the loop, so the entry after
  an erased one is skipped.\<close>

fun find_index :: "'a \<Rightarrow> 'a list \<Rightarrow> nat" where
  "find_index x [] = 0"
| "find_index x (y # ys) = (if x = y then 0 else Suc (find_index x ys))"

function label_loop :: "string list \<Rightarrow> nat \<Rightarrow> nat \<Rightarrow> string list \<Rightarrow> bool \<times> string list" where
  "label_loop prio new i labels =
     (if i < length labels then
        (let old = find_index (labels ! i) prio in
         if old < length prio
         then (if old < new then label_loop prio new (Suc i) (take i labels @ drop (Suc i) labels) else (False, labels))
         else label_loop prio new (Suc i) labels)
      else (True, labels))"
  by pat_completeness auto
termination by (relation "measure (\<lambda>(prio, new, i, labels). length labels - i)") auto

declare label_loop.simps [simp del]

definition labelPacket :: "string list \<Rightarrow> string \<Rightarrow> string list \<Rightarrow> string list" where
  "labelPacket prio label labels =
     (if prio = [] then labels @ [label]
      else (case label_loop prio (find_index label prio) 0 labels of
          (goon, labels) \<Rightarrow> if goon then labels @ [label] else labels))"

section \<open>Invariant\<close>

text \<open>Tokens within the bound; a bucket feeds its whole rate to its excess storage exactly when it is full.\<close>

fun chain_ok :: "token_bucket list \<Rightarrow> bool" where
  "chain_ok [] \<longleftrightarrow> True"
| "chain_ok (b # ex) \<longleftrightarrow>
     0 \<le> tb_numTokens b \<and> tb_maxNumTokens b \<noteq> 0 \<and> 0 \<le> tb_tokenProductionRate b \<and>
     (tb_maxNumTokens b > 0 \<longrightarrow> tb_numTokens b \<le> tb_maxNumTokens b) \<and>
     (ex \<noteq> [] \<longrightarrow> tb_excessTokenProductionRate b =
         (if tb_numTokens b = tb_maxNumTokens b then tb_tokenProductionRate b else 0) \<and>
       tb_excessTokenProductionRate b \<le> tb_tokenProductionRate (hd ex)) \<and>
     chain_ok ex"

text \<open>What no operation but the update changes.\<close>

definition same_shape :: "token_bucket list \<Rightarrow> token_bucket list \<Rightarrow> bool" where
  "same_shape c d \<longleftrightarrow> map tb_maxNumTokens d = map tb_maxNumTokens c \<and> map tb_lastUpdate d = map tb_lastUpdate c"

lemma same_shape_refl [simp]: "same_shape c c"
  by (simp add: same_shape_def)

lemma same_shape_trans: "same_shape c d \<Longrightarrow> same_shape d e \<Longrightarrow> same_shape c e"
  by (simp add: same_shape_def)

lemma same_shape_length: "same_shape c d \<Longrightarrow> length d = length c"
  unfolding same_shape_def by (metis length_map)

lemma same_shape_Nil: "same_shape c d \<Longrightarrow> (d = []) = (c = [])"
  using same_shape_length by fastforce

lemma same_shape_Cons:
  "same_shape (b # c) (b' # d) \<longleftrightarrow> tb_maxNumTokens b' = tb_maxNumTokens b \<and> tb_lastUpdate b' = tb_lastUpdate b \<and> same_shape c d"
  by (auto simp: same_shape_def)

lemma addRate_ok:
  assumes "chain_ok c" "0 \<le> r" "c \<noteq> []"
  shows "\<exists>d. addTokenProductionRate r c = Some d \<and> chain_ok d \<and> same_shape c d \<and>
    tb_tokenProductionRate (hd d) = tb_tokenProductionRate (hd c) + r \<and> map tb_numTokens d = map tb_numTokens c"
  using assms
proof (induction c)
  case Nil
  then show ?case by simp
next
  case (Cons b ex)
  show ?case
  proof (cases "r > 0 \<and> tb_numTokens b = tb_maxNumTokens b \<and> ex \<noteq> []")
    case True
    with Cons obtain d where d: "addTokenProductionRate r ex = Some d" "chain_ok d" "same_shape ex d"
      "tb_tokenProductionRate (hd d) = tb_tokenProductionRate (hd ex) + r" "map tb_numTokens d = map tb_numTokens ex"
      by auto
    with True Cons.prems show ?thesis by (auto simp: same_shape_Cons dest: same_shape_Nil)
  next
    case False
    with Cons.prems show ?thesis by (cases "r > 0") (auto simp: same_shape_Cons)
  qed
qed

lemma removeRate_ok:
  assumes "chain_ok c" "0 \<le> r" "c \<noteq> []" "r \<le> tb_tokenProductionRate (hd c)"
  shows "\<exists>d. removeTokenProductionRate r c = Some d \<and> chain_ok d \<and> same_shape c d \<and>
    tb_tokenProductionRate (hd d) = tb_tokenProductionRate (hd c) - r \<and> map tb_numTokens d = map tb_numTokens c"
  using assms
proof (induction c)
  case Nil
  then show ?case by simp
next
  case (Cons b ex)
  show ?case
  proof (cases "r > 0 \<and> tb_numTokens b = tb_maxNumTokens b \<and> ex \<noteq> []")
    case True
    with Cons obtain d where d: "removeTokenProductionRate r ex = Some d" "chain_ok d" "same_shape ex d"
      "tb_tokenProductionRate (hd d) = tb_tokenProductionRate (hd ex) - r" "map tb_numTokens d = map tb_numTokens ex"
      by auto
    with True Cons.prems show ?thesis by (auto simp: same_shape_Cons dest: same_shape_Nil)
  next
    case False
    with Cons.prems show ?thesis by (cases "r > 0") (auto simp: same_shape_Cons)
  qed
qed

text \<open>The number of tokens after adding some: the overflow is cut off.\<close>

definition filled :: "token_bucket \<Rightarrow> rat \<Rightarrow> rat" where
  "filled b a = (if tb_maxNumTokens b > 0 then min (tb_maxNumTokens b) (tb_numTokens b + a) else tb_numTokens b + a)"

lemma addTokens_ok:
  assumes "chain_ok c" "0 \<le> a" "c \<noteq> []"
  shows "\<exists>d. addTokens a c = Some d \<and> chain_ok d \<and> same_shape c d \<and>
    tb_tokenProductionRate (hd d) = tb_tokenProductionRate (hd c) \<and> tb_numTokens (hd d) = filled (hd c) a"
  using assms
proof (induction c arbitrary: a)
  case Nil
  then show ?case by simp
next
  case (Cons b ex)
  consider "a = 0" | "a > 0" "\<not> (tb_maxNumTokens b > 0 \<and> tb_numTokens b + a \<ge> tb_maxNumTokens b)"
    | "a > 0" "tb_maxNumTokens b > 0 \<and> tb_numTokens b + a \<ge> tb_maxNumTokens b" "ex = []"
    | "a > 0" "tb_maxNumTokens b > 0 \<and> tb_numTokens b + a \<ge> tb_maxNumTokens b" "ex \<noteq> []"
    using Cons.prems(2) by fastforce
  then show ?case
  proof cases
    case 4
    let ?o = "tb_numTokens b + a - tb_maxNumTokens b"
    let ?r = "tb_tokenProductionRate b - tb_excessTokenProductionRate b"
    obtain d where d: "addTokens ?o ex = Some d" "chain_ok d" "same_shape ex d"
      "tb_tokenProductionRate (hd d) = tb_tokenProductionRate (hd ex)"
      using Cons.IH[of ?o] Cons.prems 4 by auto
    have "0 \<le> ?r" "d \<noteq> []" using Cons.prems(1) 4(3) same_shape_Nil[OF d(3)] by auto
    then obtain e where e: "addTokenProductionRate ?r d = Some e" "chain_ok e" "same_shape d e"
      "tb_tokenProductionRate (hd e) = tb_tokenProductionRate (hd ex) + ?r"
      using addRate_ok[OF d(2)] d(4) by metis
    have "same_shape ex e" using d(3) e(3) by (rule same_shape_trans)
    with d(1) e(1,2,4) 4 Cons.prems show ?thesis
      by (auto simp: same_shape_Cons filled_def Let_def)
  qed (use Cons.prems in \<open>auto simp: same_shape_Cons filled_def Let_def split: if_splits\<close>)
qed

lemma removeTokens_ok:
  assumes "chain_ok c" "0 \<le> a" "c \<noteq> []" "a \<le> tb_numTokens (hd c)"
  shows "\<exists>d. removeTokens a c = Some d \<and> chain_ok d \<and> same_shape c d \<and>
    tb_tokenProductionRate (hd d) = tb_tokenProductionRate (hd c) \<and>
    tb_numTokens (hd d) = tb_numTokens (hd c) - a \<and> map tb_numTokens (tl d) = map tb_numTokens (tl c)"
proof -
  obtain b ex where c: "c = b # ex" using assms(3) by (cases c) auto
  show ?thesis
  proof (cases "a > 0 \<and> tb_numTokens b = tb_maxNumTokens b \<and> ex \<noteq> []")
    case True
    let ?r = "tb_excessTokenProductionRate b"
    obtain d where d: "removeTokenProductionRate ?r ex = Some d" "chain_ok d" "same_shape ex d"
      "tb_tokenProductionRate (hd d) = tb_tokenProductionRate (hd ex) - ?r" "map tb_numTokens d = map tb_numTokens ex"
      using removeRate_ok[of ex ?r] assms(1) True c by auto
    from d(2,4) have "0 \<le> tb_tokenProductionRate (hd d)" using True same_shape_Nil[OF d(3)] by (cases d) auto
    with d True assms c show ?thesis by (auto simp: same_shape_Cons)
  next
    case False
    with assms c show ?thesis by (cases "a > 0") (auto simp: same_shape_Cons not_less)
  qed
qed

lemma update_ok:
  assumes "chain_ok c" "c \<noteq> []" "tb_lastUpdate (hd c) \<le> now"
  shows "\<exists>d. updateNumTokens now c = Some d \<and> chain_ok d \<and> map tb_maxNumTokens d = map tb_maxNumTokens c \<and>
    map tb_lastUpdate d = now # map tb_lastUpdate (tl c) \<and>
    tb_tokenProductionRate (hd d) = tb_tokenProductionRate (hd c) \<and>
    tb_numTokens (hd d) = filled (hd c) (tb_tokenProductionRate (hd c) * (now - tb_lastUpdate (hd c)))"
proof -
  obtain b ex where c: "c = b # ex" using assms(2) by (cases c) auto
  let ?a = "tb_tokenProductionRate b * (now - tb_lastUpdate b)"
  have "0 \<le> ?a" using assms(1,3) c by simp
  then obtain d where d: "addTokens ?a c = Some d" "chain_ok d" "same_shape c d"
    "tb_tokenProductionRate (hd d) = tb_tokenProductionRate b" "tb_numTokens (hd d) = filled b ?a"
    using addTokens_ok[OF assms(1)] assms(2) c by (metis list.sel(1))
  then obtain b' ex' where "d = b' # ex'" using c same_shape_Nil by (cases d) auto
  with d c show ?thesis by (auto simp: same_shape_def)
qed

text \<open>No bucket was updated later than a time.\<close>

definition all_before :: "rat \<Rightarrow> token_bucket list \<Rightarrow> bool" where
  "all_before now c \<longleftrightarrow> (\<forall>t \<in> set (map tb_lastUpdate c). t \<le> now)"

lemma all_before_shape: "same_shape c d \<Longrightarrow> all_before now d = all_before now c"
  by (simp add: same_shape_def all_before_def)

lemma all_before_mono: "all_before s c \<Longrightarrow> s \<le> t \<Longrightarrow> all_before t c"
  by (fastforce simp: all_before_def)

definition bounds_of :: "token_bucket list \<Rightarrow> rat list" where
  "bounds_of c = map tb_maxNumTokens c"

text \<open>An operation on the chain from a bucket on, which leaves the rate of that bucket alone.\<close>

lemma chain_ok_splice:
  assumes "chain_ok c" "i < length c" "chain_ok s" "s \<noteq> []"
    "tb_tokenProductionRate (hd s) = tb_tokenProductionRate (hd (drop i c))"
  shows "chain_ok (take i c @ s)"
  using assms
proof (induction i arbitrary: c)
  case 0
  then show ?case by simp
next
  case (Suc i)
  then obtain b ex where c: "c = b # ex" by (cases c) auto
  with Suc have "chain_ok (take i ex @ s)" by auto
  with Suc.prems c show ?case by (cases i) (auto simp: hd_append hd_drop_conv_nth)
qed

lemma chain_ok_drop: "chain_ok c \<Longrightarrow> chain_ok (drop i c)"
proof (induction c arbitrary: i)
  case (Cons b ex)
  then show ?case by (cases i) auto
qed simp

definition well :: "rat \<Rightarrow> rat list \<Rightarrow> token_bucket list \<Rightarrow> bool" where
  "well now ms c \<longleftrightarrow> chain_ok c \<and> all_before now c \<and> bounds_of c = ms"

lemma well_length: "well now ms c \<Longrightarrow> length c = length ms"
  unfolding well_def bounds_of_def by (metis length_map)

lemma well_splice:
  assumes "well now ms c" "i < length c" "well now (drop i ms) s"
    "tb_tokenProductionRate (hd s) = tb_tokenProductionRate (hd (drop i c))"
  shows "well now ms (take i c @ s)"
proof -
  have "s \<noteq> []" using assms(2,3) well_length[OF assms(1)] well_length[OF assms(3)] by auto
  then have "chain_ok (take i c @ s)"
    using chain_ok_splice assms by (simp add: well_def)
  moreover have "bounds_of (take i c @ s) = ms"
    using assms(1,3) by (simp add: well_def bounds_of_def take_map) (metis append_take_drop_id take_map)
  moreover have "all_before now (take i c @ s)"
    using assms(1,3) by (auto simp: well_def all_before_def dest: in_set_takeD)
  ultimately show ?thesis by (simp add: well_def)
qed

lemma well_drop: "well now ms c \<Longrightarrow> well now (drop i ms) (drop i c)"
  by (auto simp: well_def chain_ok_drop all_before_def bounds_of_def drop_map dest: in_set_dropD)

lemma well_update:
  assumes "well now ms c" "c \<noteq> []"
  obtains d where "updateNumTokens now c = Some d" "well now ms d" "d \<noteq> []"
    "tb_tokenProductionRate (hd d) = tb_tokenProductionRate (hd c)"
    "tb_numTokens (hd d) = filled (hd c) (tb_tokenProductionRate (hd c) * (now - tb_lastUpdate (hd c)))"
    "tb_lastUpdate (hd d) = now"
proof -
  obtain b ex where c: "c = b # ex" using assms(2) by (cases c) auto
  have "chain_ok c" "tb_lastUpdate (hd c) \<le> now" using assms by (auto simp: well_def all_before_def)
  then obtain d where d: "updateNumTokens now c = Some d" "chain_ok d" "map tb_maxNumTokens d = map tb_maxNumTokens c"
    "map tb_lastUpdate d = now # map tb_lastUpdate (tl c)"
    "tb_tokenProductionRate (hd d) = tb_tokenProductionRate (hd c)"
    "tb_numTokens (hd d) = filled (hd c) (tb_tokenProductionRate (hd c) * (now - tb_lastUpdate (hd c)))"
    using update_ok assms(2) by metis
  have "well now ms d" "d \<noteq> []" "tb_lastUpdate (hd d) = now"
    using d assms c by (auto simp: well_def bounds_of_def all_before_def)
  with d that show ?thesis by blast
qed

lemma well_remove:
  assumes "well now ms c" "c \<noteq> []" "0 \<le> a" "a \<le> tb_numTokens (hd c)"
  obtains d where "removeTokens a c = Some d" "well now ms d" "d \<noteq> []"
    "tb_tokenProductionRate (hd d) = tb_tokenProductionRate (hd c)" "tb_numTokens (hd d) = tb_numTokens (hd c) - a"
    "tb_lastUpdate (hd d) = tb_lastUpdate (hd c)"
proof -
  have "chain_ok c" using assms(1) by (simp add: well_def)
  then obtain d where d: "removeTokens a c = Some d" "chain_ok d" "same_shape c d"
    "tb_tokenProductionRate (hd d) = tb_tokenProductionRate (hd c)" "tb_numTokens (hd d) = tb_numTokens (hd c) - a"
    using removeTokens_ok assms by metis
  then have "well now ms d" "d \<noteq> []" "tb_lastUpdate (hd d) = tb_lastUpdate (hd c)"
    using assms(1,2) all_before_shape[OF d(3)] same_shape_Nil[OF d(3)]
    by (auto simp: well_def bounds_of_def same_shape_def) (metis hd_map)
  with d that show ?thesis by blast
qed

lemma well_add:
  assumes "well now ms c" "c \<noteq> []" "0 \<le> a"
  obtains d where "addTokens a c = Some d" "well now ms d" "d \<noteq> []"
proof -
  have "chain_ok c" using assms(1) by (simp add: well_def)
  then obtain d where d: "addTokens a c = Some d" "chain_ok d" "same_shape c d"
    using addTokens_ok assms by metis
  then have "well now ms d" "d \<noteq> []"
    using assms(1,2) all_before_shape[OF d(3)] same_shape_Nil[OF d(3)]
    by (auto simp: well_def bounds_of_def same_shape_def)
  with d that show ?thesis by blast
qed

lemma well_update_from:
  assumes "well now ms c" "i + k = length c"
  obtains d where "update_from k i now c = Some d" "well now ms d"
  using assms
proof (induction k arbitrary: i c thesis)
  case 0
  then show ?case by simp
next
  case (Suc k)
  have i: "i < length c" using Suc.prems(3) by simp
  obtain s where s: "updateNumTokens now (drop i c) = Some s" "well now (drop i ms) s"
    "tb_tokenProductionRate (hd s) = tb_tokenProductionRate (hd (drop i c))"
    by (rule well_update[OF well_drop[OF Suc.prems(2), of i]]) (use i in auto)
  have w: "well now ms (take i c @ s)" by (rule well_splice[OF Suc.prems(2) i s(2,3)])
  moreover have "length (take i c @ s) = length c"
    using well_length[OF w] well_length[OF Suc.prems(2)] by simp
  ultimately obtain d where "update_from k (Suc i) now (take i c @ s) = Some d" "well now ms d"
    using Suc.IH[where c = "take i c @ s" and i = "Suc i"] Suc.prems(3) by auto
  with Suc.prems(1) s(1) show ?case by (simp add: at_bucket_def)
qed

lemma well_multi_get:
  assumes "well now ms c"
  obtains d where "multi_getNumTokens now c = Some (sum_list (map tb_numTokens d), d)" "well now ms d"
proof -
  obtain d where "update_from (length c) 0 now c = Some d" "well now ms d"
    by (rule well_update_from[OF assms, of 0 "length c"]) auto
  with that show ?thesis by (simp add: multi_getNumTokens_def)
qed

lemma well_pay_from:
  assumes "well now ms c" "i + k = length c" "0 \<le> need" "\<And>n. enough n need \<Longrightarrow> need \<le> n"
  obtains v d where "pay_from enough k i now need c = Some (v, d)" "well now ms d"
    "\<forall>j. v = Some j \<longrightarrow> i \<le> j \<and> j < length c"
  using assms
proof (induction k arbitrary: i c thesis)
  case 0
  then show ?case by simp
next
  case (Suc k)
  note w0 = Suc.prems(2)
  have i: "i < length c" using Suc.prems(3) by simp
  obtain s where s: "updateNumTokens now (drop i c) = Some s" "well now (drop i ms) s" "s \<noteq> []"
    "tb_tokenProductionRate (hd s) = tb_tokenProductionRate (hd (drop i c))"
    by (rule well_update[OF well_drop[OF w0, of i]]) (use i in auto)
  have w: "well now ms (take i c @ s)" by (rule well_splice[OF w0 i s(2,4)])
  have len: "length (take i c @ s) = length c" using well_length[OF w] well_length[OF w0] by simp
  show ?case
  proof (cases "enough (tb_numTokens (hd s)) need")
    case True
    obtain r where r: "removeTokens need s = Some r" "well now (drop i ms) r"
      "tb_tokenProductionRate (hd r) = tb_tokenProductionRate (hd s)"
      by (rule well_remove[OF s(2,3) Suc.prems(4)]) (use Suc.prems(5) True in auto)
    have d: "drop i (take i c @ s) = s" "take i (take i c @ s) = take i c" using i by simp_all
    have "well now ms (take i (take i c @ s) @ r)"
      by (rule well_splice[OF w _ r(2)]) (use i len r(3) d(1) in simp_all)
    then have "well now ms (take i c @ r)" unfolding d(2) .
    then obtain e where "multi_getNumTokens now (take i c @ r) = Some (sum_list (map tb_numTokens e), e)" "well now ms e"
      by (rule well_multi_get)
    with True s(1) r(1) d i show ?thesis
      by (intro Suc.prems(1)[of "Some i" e]) (simp_all add: tb_getNumTokens_def at_bucket_def)
  next
    case False
    obtain v d where "pay_from enough k (Suc i) now need (take i c @ s) = Some (v, d)" "well now ms d"
      "\<forall>j. v = Some j \<longrightarrow> Suc i \<le> j \<and> j < length c"
      using Suc.IH[OF _ w, where i = "Suc i"] Suc.prems(3-5) len by auto
    with False s(1) show ?thesis
      by (intro Suc.prems(1)[of v d]) (auto simp: tb_getNumTokens_def Suc_le_eq intro: less_imp_le)
  qed
qed

section \<open>Reachable states of a module with several buckets\<close>

definition buckets_ok :: "(rat \<times> rat \<times> rat) list \<Rightarrow> bool" where
  "buckets_ok cfg \<longleftrightarrow> cfg \<noteq> [] \<and> (\<forall>(n, m, r) \<in> set cfg. 0 \<le> n \<and> m \<noteq> 0 \<and> 0 \<le> r)"

inductive token_reachable :: "(rat \<times> rat \<times> rat) list \<Rightarrow> rat \<Rightarrow> token_bucket list \<Rightarrow> bool" for cfg where
  tb_start: "create_buckets cfg = Some c \<Longrightarrow> token_reachable cfg 0 c"
| tb_meter: "token_reachable cfg s c \<Longrightarrow> s \<le> t \<Longrightarrow> 0 \<le> need \<Longrightarrow>
    multi_meter_packet t need c = Some (v, d) \<Longrightarrow> token_reachable cfg t d"
| tb_classify: "token_reachable cfg s c \<Longrightarrow> s \<le> t \<Longrightarrow> 0 \<le> need \<Longrightarrow>
    multi_classify_packet k t need c = Some (i, d) \<Longrightarrow> token_reachable cfg t d"
| tb_add: "token_reachable cfg s c \<Longrightarrow> s \<le> t \<Longrightarrow> 0 \<le> a \<Longrightarrow>
    multi_addTokens t a c = Some d \<Longrightarrow> token_reachable cfg t d"
| tb_query: "token_reachable cfg s c \<Longrightarrow> s \<le> t \<Longrightarrow>
    multi_getNumTokens t c = Some (n, d) \<Longrightarrow> token_reachable cfg t d"

abbreviation max_of :: "(rat \<times> rat \<times> rat) list \<Rightarrow> rat list" where
  "max_of cfg \<equiv> map (\<lambda>(n, m, r). m) cfg"

lemma create_well:
  assumes "\<forall>(n, m, r) \<in> set cfg. 0 \<le> n \<and> m \<noteq> 0 \<and> 0 \<le> r"
  shows "\<exists>c. create_buckets cfg = Some c \<and> well 0 (max_of cfg) c"
  using assms
proof (induction cfg)
  case Nil
  then show ?case by (simp add: well_def all_before_def bounds_of_def)
next
  case (Cons x cfg)
  obtain n m r where x: "x = (n, m, r)" by (cases x)
  obtain ex where ex: "create_buckets cfg = Some ex" "well 0 (max_of cfg) ex" using Cons by auto
  let ?b = "\<lparr>tb_numTokens = 0, tb_maxNumTokens = m, tb_tokenProductionRate = r,
     tb_excessTokenProductionRate = 0, tb_lastUpdate = 0\<rparr>"
  have "0 \<le> tb_tokenProductionRate (hd ex)" if "ex \<noteq> []" using that ex(2) by (cases ex) (auto simp: well_def)
  then have "well 0 (m # max_of cfg) (?b # ex)"
    using ex(2) Cons.prems x by (auto simp: well_def all_before_def bounds_of_def)
  then obtain d where "addTokens n (?b # ex) = Some d" "well 0 (m # max_of cfg) d"
    using Cons.prems x by (auto elim: well_add)
  with ex(1) x show ?case by (simp add: new_bucket_def)
qed

lemma well_mono: "well s ms c \<Longrightarrow> s \<le> t \<Longrightarrow> well t ms c"
  by (auto simp: well_def intro: all_before_mono)

lemma well_meter:
  assumes "well t ms c" "0 \<le> need"
  obtains v d where "multi_meter_packet t need c = Some (v, d)" "well t ms d" "\<forall>j. v = Some j \<longrightarrow> j < length ms"
proof -
  obtain e where e: "multi_getNumTokens t c = Some (sum_list (map tb_numTokens e), e)" "well t ms e"
    by (rule well_multi_get[OF assms(1)])
  obtain v d where "pay_from (\<lambda>n k. n \<ge> k) (length e) 0 t need e = Some (v, d)" "well t ms d"
    "\<forall>j. v = Some j \<longrightarrow> 0 \<le> j \<and> j < length e"
    by (rule well_pay_from[OF e(2) _ assms(2)]) auto
  with e well_length[OF e(2)] that show ?thesis by (simp add: multi_meter_packet_def)
qed

lemma well_classify:
  assumes "well t ms c" "0 \<le> need"
  obtains i d where "multi_classify_packet k t need c = Some (i, d)" "well t ms d" "i < length ms \<or> i = k - 1"
proof -
  obtain e where e: "multi_getNumTokens t c = Some (sum_list (map tb_numTokens e), e)" "well t ms e"
    by (rule well_multi_get[OF assms(1)])
  obtain v d where v: "pay_from (\<lambda>n k. n > k) (length e) 0 t need e = Some (v, d)" "well t ms d"
    "\<forall>j. v = Some j \<longrightarrow> 0 \<le> j \<and> j < length e"
    by (rule well_pay_from[OF e(2), of 0 "length e" need "\<lambda>n k. n > k"]) (use assms(2) in auto)
  with e well_length[OF e(2)] show ?thesis
    by (intro that[of "case v of Some i \<Rightarrow> i | None \<Rightarrow> k - 1" d])
      (auto simp: multi_classify_packet_def split: option.splits)
qed

lemma well_multi_add:
  assumes "well t ms c" "ms \<noteq> []" "0 \<le> a"
  obtains d where "multi_addTokens t a c = Some d" "well t ms d"
proof -
  obtain e where e: "multi_getNumTokens t c = Some (sum_list (map tb_numTokens e), e)" "well t ms e"
    by (rule well_multi_get[OF assms(1)])
  have "e \<noteq> []" using well_length[OF e(2)] assms(2) by auto
  then obtain f where f: "addTokens a e = Some f" "well t ms f" using well_add[OF e(2) _ assms(3)] by blast
  obtain g where "multi_getNumTokens t f = Some (sum_list (map tb_numTokens g), g)" "well t ms g"
    by (rule well_multi_get[OF f(2)])
  with e f that show ?thesis by (simp add: multi_addTokens_def)
qed

lemma token_reachable_well:
  assumes "token_reachable cfg s c" "buckets_ok cfg"
  shows "well s (max_of cfg) c"
  using assms
proof (induction rule: token_reachable.induct)
  case (tb_start c)
  then show ?case using create_well[of cfg] by (auto simp: buckets_ok_def)
next
  case (tb_meter s c t need v d)
  then show ?case by (auto elim: well_meter[OF well_mono])
next
  case (tb_classify s c t need k i d)
  have w: "well t (max_of cfg) c" by (rule well_mono[OF tb_classify.IH[OF tb_classify.prems] tb_classify.hyps(2)])
  show ?case by (rule well_classify[OF w tb_classify.hyps(3), of k]) (use tb_classify.hyps(4) in simp)
next
  case (tb_add s c t a d)
  then show ?case by (auto simp: buckets_ok_def elim: well_multi_add[OF well_mono])
next
  case (tb_query s c t n d)
  then show ?case by (auto elim: well_multi_get[OF well_mono])
qed

lemma chain_ok_bounds: "chain_ok c \<Longrightarrow> b \<in> set c \<Longrightarrow>
  0 \<le> tb_numTokens b \<and> (tb_maxNumTokens b > 0 \<longrightarrow> tb_numTokens b \<le> tb_maxNumTokens b)"
  by (induction c) auto

text \<open>
  C22. In every reachable state of a module with a chain of token buckets (at least one, with non-negative
  initial numbers and rates and no zero bound) every bucket holds between zero and its maximal number of
  tokens, and metering or classifying a packet, adding tokens and asking for tokens at any later time
  succeed: no assertion about rates fails and no bucket is asked for more tokens than it has. A meter
  answers with one of its buckets, or none.
\<close>

theorem token_chain_never_fails:
  assumes "token_reachable cfg s c" "buckets_ok cfg" "s \<le> t" "0 \<le> need"
  shows "(\<forall>b \<in> set c. 0 \<le> tb_numTokens b \<and> (tb_maxNumTokens b > 0 \<longrightarrow> tb_numTokens b \<le> tb_maxNumTokens b)) \<and>
    map tb_maxNumTokens c = map (\<lambda>(n, m, r). m) cfg \<and>
    (\<exists>v d. multi_meter_packet t need c = Some (v, d) \<and> (\<forall>i. v = Some i \<longrightarrow> i < length cfg)) \<and>
    (\<exists>i d. multi_classify_packet (Suc (length cfg)) t need c = Some (i, d) \<and> i \<le> length cfg) \<and>
    (\<exists>d. multi_addTokens t need c = Some d) \<and> (\<exists>n d. multi_getNumTokens t c = Some (n, d) \<and> 0 \<le> n)"
proof -
  have w0: "well s (max_of cfg) c" by (rule token_reachable_well[OF assms(1,2)])
  then have w: "well t (max_of cfg) c" using assms(3) by (rule well_mono)
  have "\<exists>v d. multi_meter_packet t need c = Some (v, d) \<and> (\<forall>i. v = Some i \<longrightarrow> i < length cfg)"
    by (rule well_meter[OF w assms(4)]) auto
  moreover have "\<exists>i d. multi_classify_packet (Suc (length cfg)) t need c = Some (i, d) \<and> i \<le> length cfg"
    by (rule well_classify[OF w assms(4), of "Suc (length cfg)"]) auto
  moreover have "\<exists>d. multi_addTokens t need c = Some d"
    by (rule well_multi_add[OF w _ assms(4)]) (use assms(2) in \<open>auto simp: buckets_ok_def\<close>)
  moreover have "\<exists>n d. multi_getNumTokens t c = Some (n, d) \<and> 0 \<le> n"
    by (rule well_multi_get[OF w]) (auto simp: well_def intro!: sum_list_nonneg dest: chain_ok_bounds)
  ultimately show ?thesis using w0 by (auto simp: well_def bounds_of_def dest: chain_ok_bounds)
qed

section \<open>Conformance\<close>

text \<open>A meter with one bucket and its arrivals, each with its time and the tokens it needs.\<close>

fun meter_run :: "(rat \<times> rat) list \<Rightarrow> token_bucket list \<Rightarrow> (bool list \<times> token_bucket list) option" where
  "meter_run [] c = Some ([], c)"
| "meter_run ((t, need) # arr) c =
     do { (v, c) \<leftarrow> meter_packet t need c; (vs, c) \<leftarrow> meter_run arr c; Some (v # vs, c) }"

definition paid :: "(rat \<times> rat) list \<Rightarrow> bool list \<Rightarrow> rat" where
  "paid arr vs = sum_list (map (\<lambda>((t, need), v). if v then need else 0) (zip arr vs))"

lemma paid_simps [simp]:
  "paid [] vs = 0" "paid (a # arr) (v # vs) = (if v then snd a else 0) + paid arr vs"
  by (auto simp: paid_def split: prod.splits)

definition arrivals_ok :: "rat \<Rightarrow> (rat \<times> rat) list \<Rightarrow> bool" where
  "arrivals_ok t arr \<longleftrightarrow> sorted (t # map fst arr) \<and> (\<forall>(s, need) \<in> set arr. 0 \<le> need)"

lemma filled_zero: "chain_ok (b # ex) \<Longrightarrow> filled b 0 = tb_numTokens b"
  by (auto simp: filled_def)

lemma filled_le: "filled b a \<le> tb_numTokens b + a" "tb_maxNumTokens b > 0 \<Longrightarrow> filled b a \<le> tb_maxNumTokens b"
  by (auto simp: filled_def)

lemma meter_head:
  assumes "well t ms c" "c \<noteq> []" "0 \<le> need"
  obtains v d where "meter_packet t need c = Some (v, d)" "well t ms d" "d \<noteq> []"
    "tb_tokenProductionRate (hd d) = tb_tokenProductionRate (hd c)" "tb_lastUpdate (hd d) = t"
    "tb_numTokens (hd d) + (if v then need else 0) =
       filled (hd c) (tb_tokenProductionRate (hd c) * (t - tb_lastUpdate (hd c)))"
    "v \<longleftrightarrow> need \<le> filled (hd c) (tb_tokenProductionRate (hd c) * (t - tb_lastUpdate (hd c)))"
proof -
  let ?n = "filled (hd c) (tb_tokenProductionRate (hd c) * (t - tb_lastUpdate (hd c)))"
  obtain d where d: "updateNumTokens t c = Some d" "well t ms d" "d \<noteq> []"
    "tb_tokenProductionRate (hd d) = tb_tokenProductionRate (hd c)" "tb_numTokens (hd d) = ?n" "tb_lastUpdate (hd d) = t"
    by (rule well_update[OF assms(1,2)])
  obtain e where e: "updateNumTokens t d = Some e" "well t ms e" "e \<noteq> []"
    "tb_tokenProductionRate (hd e) = tb_tokenProductionRate (hd c)"
    "tb_numTokens (hd e) = filled (hd d) (tb_tokenProductionRate (hd d) * (t - tb_lastUpdate (hd d)))"
    "tb_lastUpdate (hd e) = t"
    by (rule well_update[OF d(2,3)]) (use d(4) in auto)
  have "chain_ok (hd d # tl d)" using d(2,3) by (simp add: well_def del: chain_ok.simps)
  note z = filled_zero[OF this]
  have n: "tb_numTokens (hd e) = ?n" using e(5) d(5,6) z by simp
  show ?thesis
  proof (cases "need \<le> ?n")
    case True
    obtain f where f: "removeTokens need e = Some f" "well t ms f" "f \<noteq> []"
      "tb_tokenProductionRate (hd f) = tb_tokenProductionRate (hd e)" "tb_numTokens (hd f) = tb_numTokens (hd e) - need"
      "tb_lastUpdate (hd f) = tb_lastUpdate (hd e)"
      by (rule well_remove[OF e(2,3) assms(3)]) (use True n in auto)
    show ?thesis
      by (rule that[of True f]) (use d e f n True in \<open>simp_all add: meter_packet_def tb_pay_def tb_getNumTokens_def\<close>)
  next
    case False
    show ?thesis
      by (rule that[of False e]) (use d e n False in \<open>simp_all add: meter_packet_def tb_pay_def tb_getNumTokens_def\<close>)
  qed
qed

lemma head_nonneg: "well t ms c \<Longrightarrow> c \<noteq> [] \<Longrightarrow> 0 \<le> tb_numTokens (hd c)"
  by (cases c) (auto simp: well_def)

lemma meter_run_ok:
  assumes "well t ms c" "c \<noteq> []" "arrivals_ok t arr"
  shows "\<exists>vs d. meter_run arr c = Some (vs, d) \<and> well (last (t # map fst arr)) ms d \<and> d \<noteq> [] \<and> length vs = length arr \<and>
    tb_tokenProductionRate (hd d) = tb_tokenProductionRate (hd c) \<and>
    (arr \<noteq> [] \<longrightarrow> paid arr vs \<le> tb_numTokens (hd c)
      + tb_tokenProductionRate (hd c) * (last (t # map fst arr) - tb_lastUpdate (hd c)))"
  using assms
proof (induction arr arbitrary: t c)
  case Nil
  then show ?case by simp
next
  case (Cons a arr)
  obtain s need where a: "a = (s, need)" by (cases a)
  have ok: "arrivals_ok s arr" "t \<le> s" "0 \<le> need" using Cons.prems(3) a by (auto simp: arrivals_ok_def)
  have w: "well s ms c" using Cons.prems(1) ok(2) by (rule well_mono)
  obtain v d where d: "meter_packet s need c = Some (v, d)" "well s ms d" "d \<noteq> []"
    "tb_tokenProductionRate (hd d) = tb_tokenProductionRate (hd c)" "tb_lastUpdate (hd d) = s"
    "tb_numTokens (hd d) + (if v then need else 0) =
       filled (hd c) (tb_tokenProductionRate (hd c) * (s - tb_lastUpdate (hd c)))"
    by (rule meter_head[OF w Cons.prems(2) ok(3)])
  obtain vs e where e: "meter_run arr d = Some (vs, e)" "well (last (s # map fst arr)) ms e" "e \<noteq> []"
    "length vs = length arr" "tb_tokenProductionRate (hd e) = tb_tokenProductionRate (hd d)"
    "arr \<noteq> [] \<longrightarrow> paid arr vs \<le> tb_numTokens (hd d) + tb_tokenProductionRate (hd d) * (last (s # map fst arr) - s)"
    using Cons.IH[OF d(2,3) ok(1)] d(5) by auto
  let ?r = "tb_tokenProductionRate (hd c)"
  have "paid arr vs \<le> tb_numTokens (hd d) + ?r * (last (s # map fst arr) - s)"
    using e(6) d(4) head_nonneg[OF d(2,3)] by (cases "arr = []") auto
  moreover have "tb_numTokens (hd d) + (if v then need else 0) \<le> tb_numTokens (hd c) + ?r * (s - tb_lastUpdate (hd c))"
    unfolding d(6) by (rule filled_le)
  ultimately have "paid (a # arr) (v # vs) \<le> tb_numTokens (hd c) + ?r * (last (s # map fst arr) - tb_lastUpdate (hd c))"
    using a by (auto simp: algebra_simps split: if_splits)
  with a d e show ?case by auto
qed

text \<open>
  C23. A token bucket meter shapes traffic: whatever arrived before, the packets of any further window of
  arrivals that it marks as conforming need together at most the size of the bucket plus the production
  rate times the length of the window. The run never fails.
\<close>

theorem token_meter_conformance:
  assumes "create_buckets [(n, m, r)] = Some c" "0 \<le> n" "0 < m" "0 \<le> r"
    "arrivals_ok 0 (before @ window)" "window \<noteq> []"
  shows "\<exists>us d vs e. meter_run before c = Some (us, d) \<and> meter_run window d = Some (vs, e) \<and>
    length vs = length window \<and> paid window vs \<le> m + r * (fst (last window) - fst (hd window))"
proof -
  have w: "well 0 [m] c" using create_well[of "[(n, m, r)]"] assms(1-4) by auto
  have ne: "c \<noteq> []" and bm: "tb_maxNumTokens (hd c) = m"
    using w by (auto simp: well_def bounds_of_def)
  have rate: "tb_tokenProductionRate (hd c) = r"
    using assms(1-4) by (auto simp: new_bucket_def Let_def split: if_splits)
  have "sorted ((0 # map fst before) @ map fst window)" using assms(5) by (simp add: arrivals_ok_def)
  then have "sorted (last (0 # map fst before) # map fst window)"
    unfolding sorted_append sorted_simps using last_in_set[of "0 # map fst before"] by blast
  with assms(5) have ok: "arrivals_ok 0 before" "arrivals_ok (last (0 # map fst before)) window"
    by (auto simp: arrivals_ok_def sorted_append)
  obtain us d where d: "meter_run before c = Some (us, d)" "well (last (0 # map fst before)) [m] d" "d \<noteq> []"
    "tb_tokenProductionRate (hd d) = r"
    using meter_run_ok[OF w ne ok(1)] rate by auto
  obtain s need rest where win: "window = (s, need) # rest" using assms(6) by (cases window) auto
  have ok': "arrivals_ok s rest" "last (0 # map fst before) \<le> s" "0 \<le> need"
    using ok(2) win by (auto simp: arrivals_ok_def)
  have wd: "well s [m] d" using d(2) ok'(2) by (rule well_mono)
  then have bd: "tb_maxNumTokens (hd d) = m" by (auto simp: well_def bounds_of_def)
  obtain v e where e: "meter_packet s need d = Some (v, e)" "well s [m] e" "e \<noteq> []"
    "tb_tokenProductionRate (hd e) = r" "tb_lastUpdate (hd e) = s"
    "tb_numTokens (hd e) + (if v then need else 0) = filled (hd d) (r * (s - tb_lastUpdate (hd d)))"
    by (rule meter_head[OF wd d(3) ok'(3)]) (use d(4) in auto)
  obtain vs f where f: "meter_run rest e = Some (vs, f)" "length vs = length rest"
    "rest \<noteq> [] \<longrightarrow> paid rest vs \<le> tb_numTokens (hd e) + r * (last (s # map fst rest) - s)"
    using meter_run_ok[OF e(2,3) ok'(1)] e(4,5) by auto
  have "paid rest vs \<le> tb_numTokens (hd e) + r * (last (s # map fst rest) - s)"
    using f(3) head_nonneg[OF e(2,3)] by (cases "rest = []") auto
  moreover have "tb_numTokens (hd e) + (if v then need else 0) \<le> m"
    unfolding e(6) using filled_le(2)[of "hd d"] bd assms(3) by simp
  ultimately have "paid window (v # vs) \<le> m + r * (last (s # map fst rest) - s)"
    using win by (auto split: if_splits)
  moreover have "fst (last window) = last (s # map fst rest)" using win by (simp add: last_map)
  ultimately have "paid window (v # vs) \<le> m + r * (fst (last window) - fst (hd window))"
    using win by simp
  moreover have "meter_run window d = Some (v # vs, f)" using win e(1) f(1) by simp
  ultimately show ?thesis using d(1) f(2) win by auto
qed

section \<open>What an excess storage receives\<close>

text \<open>
  Tokens produced while a bucket is full are credited twice to its excess storage: the bucket pushes
  the overflow as tokens, although the excess storage already produces them at the rate it was given when
  the bucket became full. Two buckets, the first full and the second unlimited, gain in a time \<open>T\<close> the
  production of both rates plus once more the production of the first.
\<close>

theorem excess_credited_twice:
  assumes "chain_ok [a, b]" "tb_numTokens a = tb_maxNumTokens a" "tb_maxNumTokens b < 0"
    "tb_lastUpdate a = t" "tb_lastUpdate b = t" "0 \<le> T"
    "own = tb_tokenProductionRate b - tb_tokenProductionRate a"
  shows "\<exists>d. multi_getNumTokens (t + T) [a, b] =
    Some (tb_numTokens a + tb_numTokens b + (tb_tokenProductionRate a + own) * T + tb_tokenProductionRate a * T, d)"
  using assms
  by (cases "tb_tokenProductionRate a * T = 0"; cases "tb_tokenProductionRate b * T = 0")
    (auto simp: multi_getNumTokens_def at_bucket_def numeral_2_eq_2 Let_def algebra_simps zero_less_mult_iff)

section \<open>Labels\<close>

lemma find_index_less: "find_index x xs < length xs \<longleftrightarrow> x \<in> set xs"
  by (induction xs) auto

lemma label_loop_unranked:
  assumes "\<forall>l \<in> set (drop i labels). l \<notin> set prio"
  shows "label_loop prio new i labels = (True, labels)"
  using assms
proof (induction prio new i labels rule: label_loop.induct)
  case (1 prio new i labels)
  show ?case
  proof (cases "i < length labels")
    case True
    then have "labels ! i \<in> set (drop i labels)" by (metis Cons_nth_drop_Suc list.set_intros(1))
    then have u: "\<not> find_index (labels ! i) prio < length prio" using 1(3) by (simp add: find_index_less)
    have "\<forall>l \<in> set (drop (Suc i) labels). l \<notin> set prio"
      using 1(3) set_drop_subset_set_drop[of i "Suc i" labels] by auto
    with 1(2)[OF True refl u] True u show ?thesis by (simp add: label_loop.simps[of prio new i])
  qed (simp add: label_loop.simps)
qed

lemma label_loop_ranked:
  assumes "i \<le> length us" "\<forall>l \<in> set us \<union> set vs. l \<notin> set prio" "x \<in> set prio"
  shows "label_loop prio new i (us @ x # vs) =
    (if find_index x prio < new then (True, us @ vs) else (False, us @ x # vs))"
  using assms(1)
proof (induction "length us - i" arbitrary: i)
  case 0
  then have i: "i = length us" by simp
  have "label_loop prio new (Suc i) (us @ vs) = (True, us @ vs)"
    by (rule label_loop_unranked) (use assms(2) in \<open>auto dest: in_set_dropD\<close>)
  with assms(3) show ?case
    unfolding i by (simp add: label_loop.simps[of prio new "length us"] Let_def find_index_less)
next
  case (Suc k)
  then have i: "i < length us" by simp
  then have "(us @ x # vs) ! i \<notin> set prio" using assms(2) by (simp add: nth_append)
  with i Suc show ?case by (simp add: label_loop.simps[of prio new i] Let_def find_index_less)
qed

text \<open>
  With a priority order of labels, a packet that carries at most one of the ranked labels still carries
  exactly one after it is labelled with a ranked label: the one of the higher rank, so a packet is only ever
  promoted. The other labels keep their order.
\<close>

theorem label_only_promotes:
  assumes "label \<in> set prio" "\<forall>l \<in> set us \<union> set vs. l \<notin> set prio" "old \<in> set prio"
  shows "labelPacket prio label (us @ vs) = us @ vs @ [label] \<and>
    labelPacket prio label (us @ old # vs) =
      (if find_index old prio < find_index label prio then us @ vs @ [label] else us @ old # vs)"
proof -
  have "label_loop prio (find_index label prio) 0 (us @ vs) = (True, us @ vs)"
    by (rule label_loop_unranked) (use assms(2) in auto)
  moreover have "label_loop prio (find_index label prio) 0 (us @ old # vs) =
    (if find_index old prio < find_index label prio then (True, us @ vs) else (False, us @ old # vs))"
    by (rule label_loop_ranked) (use assms in auto)
  ultimately show ?thesis using assms(1) by (auto simp: labelPacket_def)
qed

section \<open>Witnesses\<close>

definition two_rates :: "(rat \<times> rat \<times> rat) list" where
  "two_rates = [(1, 2, 1), (0, -1, 3)]"

lemma token_chain_never_fails_witness:
  "\<exists>c v d. create_buckets two_rates = Some c \<and> multi_meter_packet 5 1 c = Some (v, d)"
proof -
  have ok: "buckets_ok two_rates" by (simp add: buckets_ok_def two_rates_def)
  obtain c where c: "create_buckets two_rates = Some c"
    using create_well[of two_rates] by (auto simp: two_rates_def)
  have "(0::rat) \<le> 5" "(0::rat) \<le> 1" by simp_all
  from token_chain_never_fails[OF tb_start[OF c] ok this] c show ?thesis by blast
qed

lemma token_meter_conformance_witness:
  "\<exists>us vs d e c. create_buckets [(4, 4, 1)] = Some c \<and> meter_run [(1, 3)] c = Some (us, d) \<and>
     meter_run [(2, 2), (3, 2), (4, 2)] d = Some (vs, e) \<and> paid [(2, 2), (3, 2), (4, 2)] vs \<le> 4 + 1 * (4 - 2)"
proof -
  obtain c where c: "create_buckets [(4, 4, 1)] = Some c"
    using create_well[of "[(4, 4, 1)]"] by auto
  have a: "arrivals_ok 0 ([(1, 3)] @ [(2, 2), (3, 2), (4, 2)])" by (simp add: arrivals_ok_def)
  show ?thesis using token_meter_conformance[OF c _ _ _ a] c by fastforce
qed

lemma excess_credited_twice_witness:
  "\<exists>d. multi_getNumTokens (0 + 10)
     [\<lparr>tb_numTokens = 1, tb_maxNumTokens = 1, tb_tokenProductionRate = 1, tb_excessTokenProductionRate = 1, tb_lastUpdate = 0\<rparr>,
      \<lparr>tb_numTokens = 0, tb_maxNumTokens = -1, tb_tokenProductionRate = 1, tb_excessTokenProductionRate = 0, tb_lastUpdate = 0\<rparr>]
   = Some (21, d)"
  using excess_credited_twice[of
    "\<lparr>tb_numTokens = 1, tb_maxNumTokens = 1, tb_tokenProductionRate = 1, tb_excessTokenProductionRate = 1, tb_lastUpdate = 0\<rparr>"
    "\<lparr>tb_numTokens = 0, tb_maxNumTokens = -1, tb_tokenProductionRate = 1, tb_excessTokenProductionRate = 0, tb_lastUpdate = 0\<rparr>"
    0 10 0] by simp

lemma label_only_promotes_witness:
  "labelPacket [''red'', ''yellow'', ''green''] ''yellow'' [''x'', ''red'', ''y''] = [''x'', ''y'', ''yellow''] \<and>
   labelPacket [''red'', ''yellow'', ''green''] ''yellow'' [''x'', ''green'', ''y''] = [''x'', ''green'', ''y'']"
  using label_only_promotes[of "''yellow''" "[''red'', ''yellow'', ''green'']" "[''x'']" "[''y'']" "''red''"]
    label_only_promotes[of "''yellow''" "[''red'', ''yellow'', ''green'']" "[''x'']" "[''y'']" "''green''"]
  by simp

end
