(* ===== verification/Packet_Filter.thy ===== *)
theory Packet_Filter
  imports Prelude
begin

text \<open>
  \<open>PacketFilterBase\<close> (src/inet/src/inet/queueing/base/PacketFilterBase.cc): the module that passes the
  packets that match and drops the others, by pushing, by streaming and by pulling. The virtual functions
  \<open>matchesPacket\<close>, \<open>processPacket\<close> and \<open>dropPacket\<close> of the concrete filter are arguments that act on the
  filter's own state; the locale \<open>packet_filter\<close> states what the base class relies on, and every modelled
  filter interprets it. A provider to pull from is the list of its packets in order. Signals and
  display strings are left out; \<open>None\<close> is a \<open>throw\<close>.
\<close>

section \<open>State\<close>

record pkt =
  pk_treeId :: int
  pk_totalLength :: nat
  pk_dataLength :: nat

record 'm filter_base =
  pf_backpressure :: bool
  pf_inProgressStreamId :: int
  pf_numProcessedPackets :: nat
  pf_processedTotalLength :: nat
  pf_numDroppedPackets :: nat
  pf_droppedTotalLength :: nat
  pf_module :: 'm

datatype 'p pf_output = PfPushed 'p | PfStarted 'p | PfEnded 'p | PfProgressed 'p

type_synonym ('m, 'p) matcher = "'m \<Rightarrow> 'p \<Rightarrow> bool option"
type_synonym ('m, 'p) processor = "'m \<Rightarrow> 'p \<Rightarrow> ('m \<times> 'p) option"
type_synonym ('m, 'p) dropper = "'m \<Rightarrow> 'p \<Rightarrow> 'm option"

section \<open>Operations\<close>

definition checkPacketStreaming :: "'p pkt_scheme option \<Rightarrow> 'm filter_base \<Rightarrow> unit option" where
  "checkPacketStreaming p s = ensure (\<not> (pf_inProgressStreamId s \<noteq> -1 \<and>
     (case p of None \<Rightarrow> True | Some p \<Rightarrow> pk_treeId p \<noteq> pf_inProgressStreamId s)))"

definition startPacketStreaming :: "'p pkt_scheme \<Rightarrow> 'm filter_base \<Rightarrow> 'm filter_base" where
  "startPacketStreaming p s = s\<lparr>pf_inProgressStreamId := pk_treeId p\<rparr>"

definition handlePacketProcessed :: "'p pkt_scheme \<Rightarrow> 'm filter_base \<Rightarrow> 'm filter_base" where
  "handlePacketProcessed p s = s\<lparr>pf_numProcessedPackets := pf_numProcessedPackets s + 1,
     pf_processedTotalLength := pf_processedTotalLength s + pk_dataLength p\<rparr>"

definition endPacketStreaming :: "'p pkt_scheme \<Rightarrow> 'm filter_base \<Rightarrow> 'm filter_base" where
  "endPacketStreaming p s = (handlePacketProcessed p s)\<lparr>pf_inProgressStreamId := -1\<rparr>"

text \<open>The override of the concrete filter runs first and then calls the base class.\<close>

definition pf_dropPacket :: "('m, 'p pkt_scheme) dropper \<Rightarrow> 'p pkt_scheme \<Rightarrow> 'm filter_base \<Rightarrow> 'm filter_base option" where
  "pf_dropPacket discard p s =
     do {
       m \<leftarrow> discard (pf_module s) p;
       Some (s\<lparr>pf_module := m, pf_numDroppedPackets := pf_numDroppedPackets s + 1,
          pf_droppedTotalLength := pf_droppedTotalLength s + pk_totalLength p\<rparr>)
     }"

definition pf_processPacket :: "('m, 'p) processor \<Rightarrow> 'p \<Rightarrow> 'm filter_base \<Rightarrow> ('p \<times> 'm filter_base) option" where
  "pf_processPacket process p s =
     do { (m, p) \<leftarrow> process (pf_module s) p; Some (p, s\<lparr>pf_module := m\<rparr>) }"

text \<open>\<open>canPush\<close> is the answer of the consumer, \<open>None\<close> when there is no consumer to ask.\<close>

definition pf_canPushPacket ::
  "('m, 'p) matcher \<Rightarrow> ('p \<Rightarrow> bool) option \<Rightarrow> 'p \<Rightarrow> 'm filter_base \<Rightarrow> bool option" where
  "pf_canPushPacket matches canPush p s =
     do {
       b \<leftarrow> matches (pf_module s) p;
       Some (if pf_backpressure s
             then b \<and> (case canPush of None \<Rightarrow> False | Some f \<Rightarrow> f p)
             else \<not> b \<or> (case canPush of None \<Rightarrow> True | Some f \<Rightarrow> f p))
     }"

definition pf_pushPacket :: "('m, 'p pkt_scheme) matcher \<Rightarrow> ('m, 'p pkt_scheme) processor \<Rightarrow> ('m, 'p pkt_scheme) dropper \<Rightarrow>
    'p pkt_scheme \<Rightarrow> 'm filter_base \<Rightarrow> ('p pkt_scheme pf_output list \<times> 'm filter_base) option" where
  "pf_pushPacket matches process discard p s =
     do {
       checkPacketStreaming (None :: 'p pkt_scheme option) s;
       b \<leftarrow> matches (pf_module s) p;
       if b then do {
         (p, s) \<leftarrow> pf_processPacket process p s;
         let s = handlePacketProcessed p s;
         Some ([PfPushed p], s) }
       else do {
         let s = handlePacketProcessed p s;
         s \<leftarrow> pf_dropPacket discard p s;
         Some ([], s) }
     }"

definition pf_pushPacketStart :: "('m, 'p pkt_scheme) matcher \<Rightarrow> ('m, 'p pkt_scheme) processor \<Rightarrow> ('m, 'p pkt_scheme) dropper \<Rightarrow>
    'p pkt_scheme \<Rightarrow> 'm filter_base \<Rightarrow> ('p pkt_scheme pf_output list \<times> 'm filter_base) option" where
  "pf_pushPacketStart matches process discard p s =
     do {
       checkPacketStreaming (Some p) s;
       let s = startPacketStreaming p s;
       b \<leftarrow> matches (pf_module s) p;
       if b then do {
         (p, s) \<leftarrow> pf_processPacket process p s;
         Some ([PfStarted p], s) }
       else do { s \<leftarrow> pf_dropPacket discard p s; Some ([], s) }
     }"

definition pf_pushPacketEnd :: "('m, 'p pkt_scheme) matcher \<Rightarrow> ('m, 'p pkt_scheme) processor \<Rightarrow> ('m, 'p pkt_scheme) dropper \<Rightarrow>
    'p pkt_scheme \<Rightarrow> 'm filter_base \<Rightarrow> ('p pkt_scheme pf_output list \<times> 'm filter_base) option" where
  "pf_pushPacketEnd matches process discard p s =
     do {
       s \<leftarrow> (if pf_inProgressStreamId s = -1 then Some (startPacketStreaming p s)
             else do { checkPacketStreaming (Some p) s; Some s });
       b \<leftarrow> matches (pf_module s) p;
       if b then do {
         (p, s) \<leftarrow> pf_processPacket process p s;
         Some ([PfEnded p], endPacketStreaming p s) }
       else do {
         s \<leftarrow> pf_dropPacket discard p (endPacketStreaming p s);
         Some ([], s) }
     }"

definition pf_pushPacketProgress :: "('m, 'p pkt_scheme) matcher \<Rightarrow> ('m, 'p pkt_scheme) processor \<Rightarrow> ('m, 'p pkt_scheme) dropper \<Rightarrow>
    'p pkt_scheme \<Rightarrow> nat \<Rightarrow> nat \<Rightarrow> 'm filter_base \<Rightarrow> ('p pkt_scheme pf_output list \<times> 'm filter_base) option" where
  "pf_pushPacketProgress matches process discard p position extraProcessableLength s =
     do {
       s \<leftarrow> (if pf_inProgressStreamId s = -1 then Some (startPacketStreaming p s)
             else do { checkPacketStreaming (Some p) s; Some s });
       b \<leftarrow> matches (pf_module s) p;
       if b then do {
         (p, s) \<leftarrow> pf_processPacket process p s;
         let s = (if pk_totalLength p = position + extraProcessableLength then endPacketStreaming p s else s);
         Some ([PfProgressed p], s) }
       else do {
         s \<leftarrow> pf_dropPacket discard p (endPacketStreaming p s);
         Some ([], s) }
     }"

text \<open>Pulling: the packets that do not match are pulled and dropped on the way, when asked whether a
  packet can be pulled already. With backpressure the first packet decides.\<close>

fun pf_canPullPacket :: "('m, 'p pkt_scheme) matcher \<Rightarrow> ('m, 'p pkt_scheme) dropper \<Rightarrow> 'p pkt_scheme list \<Rightarrow> 'm filter_base \<Rightarrow>
    ('p pkt_scheme option \<times> 'p pkt_scheme list \<times> 'm filter_base) option" where
  "pf_canPullPacket matches discard [] s = Some (None, [], s)"
| "pf_canPullPacket matches discard (p # ps) s =
     do {
       b \<leftarrow> matches (pf_module s) p;
       if b then Some (Some p, p # ps, s)
       else if pf_backpressure s then Some (None, p # ps, s)
       else do { s \<leftarrow> pf_dropPacket discard p (handlePacketProcessed p s); pf_canPullPacket matches discard ps s }
     }"

fun pf_pullPacket :: "('m, 'p pkt_scheme) matcher \<Rightarrow> ('m, 'p pkt_scheme) processor \<Rightarrow> ('m, 'p pkt_scheme) dropper \<Rightarrow>
    'p pkt_scheme list \<Rightarrow> 'm filter_base \<Rightarrow> ('p pkt_scheme \<times> 'p pkt_scheme list \<times> 'm filter_base) option" where
  "pf_pullPacket matches process discard [] s = None"
| "pf_pullPacket matches process discard (p # ps) s =
     do {
       b \<leftarrow> matches (pf_module s) p;
       if b then do {
         (p, s) \<leftarrow> pf_processPacket process p s;
         Some (p, ps, handlePacketProcessed p s) }
       else do { s \<leftarrow> pf_dropPacket discard p (handlePacketProcessed p s); pf_pullPacket matches process discard ps s }
     }"

text \<open>A sequence of pushed packets.\<close>

fun pf_push_all :: "('m, 'p pkt_scheme) matcher \<Rightarrow> ('m, 'p pkt_scheme) processor \<Rightarrow> ('m, 'p pkt_scheme) dropper \<Rightarrow>
    'p pkt_scheme list \<Rightarrow> 'm filter_base \<Rightarrow> ('p pkt_scheme pf_output list \<times> 'm filter_base) option" where
  "pf_push_all matches process discard [] s = Some ([], s)"
| "pf_push_all matches process discard (p # ps) s =
     do {
       (out, s) \<leftarrow> pf_pushPacket matches process discard p s;
       (outs, s) \<leftarrow> pf_push_all matches process discard ps s;
       Some (out @ outs, s)
     }"

section \<open>The contract of a filter\<close>

locale packet_filter =
  fixes matches :: "'m \<Rightarrow> 'p pkt_scheme \<Rightarrow> bool option"
    and process :: "'m \<Rightarrow> 'p pkt_scheme \<Rightarrow> ('m \<times> 'p pkt_scheme) option"
    and discard :: "'m \<Rightarrow> 'p pkt_scheme \<Rightarrow> 'm option"
    and inv :: "'m \<Rightarrow> bool"
    and ok :: "'p pkt_scheme \<Rightarrow> bool"
  assumes matches_total: "inv m \<Longrightarrow> ok p \<Longrightarrow> matches m p \<noteq> None"
    and process_total: "inv m \<Longrightarrow> ok p \<Longrightarrow> matches m p = Some True \<Longrightarrow> \<exists>m' p'. process m p = Some (m', p') \<and> inv m'"
    and drop_total: "inv m \<Longrightarrow> ok p \<Longrightarrow> matches m p = Some False \<Longrightarrow> \<exists>m'. discard m p = Some m' \<and> inv m'"
begin

lemma push_ok:
  assumes "inv (pf_module s)" "ok p" "pf_inProgressStreamId s = -1"
  obtains out t where "pf_pushPacket matches process discard p s = Some (out, t)" "inv (pf_module t)"
    "pf_inProgressStreamId t = -1" "pf_numProcessedPackets t = pf_numProcessedPackets s + 1"
    "pf_numDroppedPackets t + length out = pf_numDroppedPackets s + 1"
proof -
  obtain b where b: "matches (pf_module s) p = Some b" using matches_total[OF assms(1,2)] by auto
  show ?thesis
  proof (cases b)
    case True
    then obtain m q where "process (pf_module s) p = Some (m, q)" "inv m"
      using process_total[OF assms(1,2)] b by auto
    then show ?thesis using that b True assms(3)
      by (auto simp: pf_pushPacket_def checkPacketStreaming_def pf_processPacket_def handlePacketProcessed_def Let_def)
  next
    case False
    then obtain m where "discard (pf_module s) p = Some m" "inv m"
      using drop_total[OF assms(1,2)] b by auto
    then show ?thesis using that b False assms(3)
      by (auto simp: pf_pushPacket_def checkPacketStreaming_def pf_dropPacket_def handlePacketProcessed_def Let_def)
  qed
qed

lemma push_all_ok:
  assumes "inv (pf_module s)" "\<forall>p \<in> set ps. ok p" "pf_inProgressStreamId s = -1"
  shows "\<exists>outs t. pf_push_all matches process discard ps s = Some (outs, t) \<and> inv (pf_module t) \<and>
    pf_inProgressStreamId t = -1 \<and> pf_numProcessedPackets t = pf_numProcessedPackets s + length ps \<and>
    pf_numDroppedPackets t + length outs = pf_numDroppedPackets s + length ps"
  using assms
proof (induction ps arbitrary: s)
  case (Cons p ps)
  obtain out t where t: "pf_pushPacket matches process discard p s = Some (out, t)" "inv (pf_module t)"
    "pf_inProgressStreamId t = -1" "pf_numProcessedPackets t = pf_numProcessedPackets s + 1"
    "pf_numDroppedPackets t + length out = pf_numDroppedPackets s + 1"
    using push_ok[OF Cons.prems(1) _ Cons.prems(3), of p] Cons.prems(2) by auto
  with Cons.IH[of t] Cons.prems(2) show ?case by fastforce
qed simp

text \<open>Asking first does not change what is pulled.\<close>

lemma pull_after_can_pull:
  assumes "inv (pf_module s)" "\<forall>p \<in> set ps. ok p" "pf_canPullPacket matches discard ps s = Some (Some p, qs, t)"
  shows "pf_pullPacket matches process discard qs t = pf_pullPacket matches process discard ps s \<and>
    (\<exists>q rest u. pf_pullPacket matches process discard ps s = Some (q, rest, u) \<and> qs = p # rest \<and>
       (\<exists>m. process (pf_module t) p = Some (m, q)))"
  using assms
proof (induction ps arbitrary: s)
  case (Cons p' ps)
  obtain b where b: "matches (pf_module s) p' = Some b" using matches_total Cons.prems(1,2) by fastforce
  show ?case
  proof (cases b)
    case True
    then obtain m q where "process (pf_module s) p' = Some (m, q)"
      using process_total[OF Cons.prems(1), of p'] b Cons.prems(2) by auto
    with True b Cons.prems(3) show ?thesis by (auto simp: pf_processPacket_def)
  next
    case False
    then obtain m where m: "discard (pf_module s) p' = Some m" "inv m"
      using drop_total[OF Cons.prems(1), of p'] b Cons.prems(2) by auto
    define r where "r = (handlePacketProcessed p' s)\<lparr>pf_module := m, pf_numDroppedPackets := pf_numDroppedPackets s + 1,
      pf_droppedTotalLength := pf_droppedTotalLength s + pk_totalLength p'\<rparr>"
    have d: "pf_dropPacket discard p' (handlePacketProcessed p' s) = Some r"
      using m by (simp add: pf_dropPacket_def handlePacketProcessed_def r_def)
    have "\<not> pf_backpressure s" using Cons.prems(3) b False by auto
    with Cons.prems(3) b False d have "pf_canPullPacket matches discard ps r = Some (Some p, qs, t)" by simp
    moreover have "inv (pf_module r)" using m(2) by (simp add: r_def)
    ultimately show ?thesis using Cons.IH[of r] Cons.prems(2) b False d by simp
  qed
qed simp

end

section \<open>A filter by ordinal numbers\<close>

text \<open>\<open>OrdinalBasedDropper\<close>: drops the packets whose ordinal numbers are listed in ascending order. The
  empty vector at the time of a discard is an out-of-range access.\<close>

record ordinal_dropper =
  od_numPackets :: nat
  od_numDropped :: nat
  od_generateFurtherDrops :: bool
  od_dropsVector :: "nat list"

definition od_initialize :: "nat list \<Rightarrow> ordinal_dropper option" where
  "od_initialize v = do { ensure (sorted_wrt (<) v);
     Some \<lparr>od_numPackets = 0, od_numDropped = 0, od_generateFurtherDrops = (v \<noteq> []), od_dropsVector = v\<rparr> }"

definition od_matchesPacket :: "ordinal_dropper \<Rightarrow> 'p \<Rightarrow> bool option" where
  "od_matchesPacket d p =
     (if \<not> od_generateFurtherDrops d then Some True
      else (case od_dropsVector d of [] \<Rightarrow> None | v # _ \<Rightarrow> Some (od_numPackets d \<noteq> v)))"

definition od_processPacket :: "ordinal_dropper \<Rightarrow> 'p \<Rightarrow> (ordinal_dropper \<times> 'p) option" where
  "od_processPacket d p = Some (d\<lparr>od_numPackets := od_numPackets d + 1\<rparr>, p)"

definition od_dropPacket :: "ordinal_dropper \<Rightarrow> 'p \<Rightarrow> ordinal_dropper option" where
  "od_dropPacket d p =
     do {
       ensure (od_dropsVector d \<noteq> []);
       let v = tl (od_dropsVector d);
       Some (d\<lparr>od_numPackets := od_numPackets d + 1, od_numDropped := od_numDropped d + 1, od_dropsVector := v,
          od_generateFurtherDrops := (if v = [] then False else od_generateFurtherDrops d)\<rparr>)
     }"

definition od_inv :: "ordinal_dropper \<Rightarrow> bool" where
  "od_inv d \<longleftrightarrow> sorted_wrt (<) (od_dropsVector d) \<and> (\<forall>v \<in> set (od_dropsVector d). od_numPackets d \<le> v) \<and>
     od_generateFurtherDrops d = (od_dropsVector d \<noteq> [])"

interpretation ordinal: packet_filter od_matchesPacket od_processPacket od_dropPacket od_inv "\<lambda>p :: 'p pkt_scheme. True"
proof
  fix m :: ordinal_dropper and p :: "'p pkt_scheme"
  assume i: "od_inv m"
  show "od_matchesPacket m p \<noteq> None"
    using i by (auto simp: od_matchesPacket_def od_inv_def split: list.splits)
  show "\<exists>m' p'. od_processPacket m p = Some (m', p') \<and> od_inv m'" if "od_matchesPacket m p = Some True"
    using i that by (cases "od_dropsVector m")
      (auto simp: od_matchesPacket_def od_processPacket_def od_inv_def Suc_le_eq split: if_splits
        dest!: bspec intro: le_neq_implies_less)
  show "\<exists>m'. od_dropPacket m p = Some m' \<and> od_inv m'" if "od_matchesPacket m p = Some False"
    using i that by (cases "od_dropsVector m")
      (auto simp: od_matchesPacket_def od_dropPacket_def od_inv_def Suc_le_eq split: if_splits)
qed

end
