(* ===== verification/Protocol_Tags.thy ===== *)
theory Protocol_Tags
  imports Packet_Filter Mac_Address
begin

text \<open>
  Packets with their tags, the protocol bookkeeping on them (src/inet/src/inet/common/ProtocolUtils.cc and
  ProtocolGroup.cc), and the modules that insert and check the headers of the 802.1Q VLAN tags and of
  the 802.1CB redundancy tag (linklayer/ieee8021q, linklayer/ieee8021r), with the classifiers by priority.

  A packet is the list of its front headers before its data, with its tags as options. Requests and
  indications are the \<open>Req\<close> and \<open>Ind\<close> tags of the code. \<open>None\<close> is a \<open>throw\<close> or a failed \<open>ASSERT\<close>. The offsets of
  the protocol tag are left out.
\<close>

section \<open>Protocols\<close>

datatype protocol =
    P_ipv4 | P_arp | P_cdp | P_srp | P_tsn | P_trill | P_l2isis | P_flooding | P_ieee8021qCTag | P_ipv6
  | P_probabilistic | P_unknown | P_wiseRoute | P_nextHopForwarding | P_ethernetFlowCtrl | P_mpls
  | P_ieee8021qSTag | P_lldp | P_gptp | P_ieee8021ae | P_tteth | P_ieee8021rTag
  | P_ieee8022llc | P_ethernetMac | P_other nat

definition ethertypeProtocols :: "(int \<times> protocol) list" where
  "ethertypeProtocols =
    [(0x0800, P_ipv4), (0x0806, P_arp), (0x2000, P_cdp), (0x22EA, P_srp), (0x22F0, P_tsn), (0x22F3, P_trill),
     (0x22F4, P_l2isis), (0x36FC, P_flooding), (0x8100, P_ieee8021qCTag), (0x86DD, P_ipv6),
     (0x86FD, P_probabilistic), (0x86F0, P_unknown), (0x86FE, P_wiseRoute), (0x86FF, P_nextHopForwarding),
     (0x8808, P_ethernetFlowCtrl), (0x8847, P_mpls), (0x88A8, P_ieee8021qSTag), (0x88CC, P_lldp),
     (0x88F7, P_gptp), (0x88E5, P_ieee8021ae), (0x891D, P_tteth), (0xF1C1, P_ieee8021rTag)]"

definition findProtocol :: "(int \<times> protocol) list \<Rightarrow> int \<Rightarrow> protocol option" where
  "findProtocol g n = map_of g n"

definition findProtocolNumber :: "(int \<times> protocol) list \<Rightarrow> protocol \<Rightarrow> int" where
  "findProtocolNumber g p = (case map_of (map prod.swap g) p of Some n \<Rightarrow> n | None \<Rightarrow> -1)"

definition isIeee8023Length :: "int \<Rightarrow> bool" where
  "isIeee8023Length n \<longleftrightarrow> n > 0 \<and> n < 0x600"

section \<open>Packets\<close>

datatype frame_header =
    QTagTpid (qt_tpid: "16 word") (qt_pcp: "8 word") (qt_dei: bool) (qt_vid: "16 word")
  | QTagEpd (qe_pcp: "8 word") (qe_dei: bool) (qe_vid: "16 word") (qe_type: "16 word")
  | RTagEpd (re_seq: "16 word") (re_type: "16 word")

fun chunkLength :: "frame_header \<Rightarrow> nat" where
  "chunkLength (QTagTpid _ _ _ _) = 4"
| "chunkLength (QTagEpd _ _ _ _) = 4"
| "chunkLength (RTagEpd _ _) = 6"

record packet_tags = pkt +
  tg_headers :: "frame_header list"
  tg_streamReq :: "string option"
  tg_streamInd :: "string option"
  tg_seqReq :: "int option"
  tg_seqInd :: "int option"
  tg_userPriorityReq :: "int option"
  tg_userPriorityInd :: "int option"
  tg_pcpReq :: "int option"
  tg_pcpInd :: "int option"
  tg_vlanReq :: "int option"
  tg_vlanInd :: "int option"
  tg_deiReq :: "bool option"
  tg_deiInd :: "bool option"
  tg_macInd :: "(mac_address \<times> mac_address) option" \<comment> \<open>source, destination\<close>
  tg_interfaceInd :: "int option"
  tg_encapReq :: "protocol list option"
  tg_encapInd :: "protocol list option"
  tg_dispatch :: "protocol option"
  tg_protocol :: "protocol option"

text \<open>The packet's length in bytes: its data and its front headers.\<close>

definition getByteLength :: "packet_tags \<Rightarrow> nat" where
  "getByteLength p = pk_dataLength p div 8 + sum_list (map chunkLength (tg_headers p))"

section \<open>\<open>ProtocolUtils\<close>\<close>

definition tag_list :: "protocol list option \<Rightarrow> protocol list" where
  "tag_list t = (case t of None \<Rightarrow> [] | Some l \<Rightarrow> l)"

definition prependEncapsulationProtocolReq :: "protocol \<Rightarrow> packet_tags \<Rightarrow> packet_tags" where
  "prependEncapsulationProtocolReq pr p = p\<lparr>tg_encapReq := Some (pr # tag_list (tg_encapReq p))\<rparr>"

definition appendEncapsulationProtocolReq :: "protocol \<Rightarrow> packet_tags \<Rightarrow> packet_tags" where
  "appendEncapsulationProtocolReq pr p = p\<lparr>tg_encapReq := Some (tag_list (tg_encapReq p) @ [pr])\<rparr>"

text \<open>Reading the first entry of an empty tag throws.\<close>

definition peekEncapsulationProtocolReq :: "packet_tags \<Rightarrow> protocol option option" where
  "peekEncapsulationProtocolReq p =
     (case tg_encapReq p of None \<Rightarrow> Some None | Some [] \<Rightarrow> None | Some (pr # _) \<Rightarrow> Some (Some pr))"

definition popEncapsulationProtocolReq :: "packet_tags \<Rightarrow> (protocol option \<times> packet_tags) option" where
  "popEncapsulationProtocolReq p =
     (case tg_encapReq p of None \<Rightarrow> Some (None, p) | Some [] \<Rightarrow> None
      | Some (pr # l) \<Rightarrow> Some (Some pr, p\<lparr>tg_encapReq := (if l = [] then None else Some l)\<rparr>))"

text \<open>Asking adds the tag when it is absent.\<close>

definition hasEncapsulationProtocolReq :: "protocol \<Rightarrow> packet_tags \<Rightarrow> bool \<times> packet_tags" where
  "hasEncapsulationProtocolReq pr p =
     (pr \<in> set (tag_list (tg_encapReq p)), p\<lparr>tg_encapReq := Some (tag_list (tg_encapReq p))\<rparr>)"

definition removeEncapsulationProtocolReq :: "protocol \<Rightarrow> packet_tags \<Rightarrow> packet_tags" where
  "removeEncapsulationProtocolReq pr p = p\<lparr>tg_encapReq := Some (remove1 pr (tag_list (tg_encapReq p)))\<rparr>"

definition ensureEncapsulationProtocolReq :: "protocol \<Rightarrow> bool \<Rightarrow> bool \<Rightarrow> packet_tags \<Rightarrow> packet_tags" where
  "ensureEncapsulationProtocolReq pr present prepend p =
     (let (has, p) = hasEncapsulationProtocolReq pr p in
      if present then
        (if \<not> has then (if prepend then prependEncapsulationProtocolReq pr p else appendEncapsulationProtocolReq pr p) else p)
      else (if has then removeEncapsulationProtocolReq pr p else p))"

definition appendEncapsulationProtocolInd :: "protocol \<Rightarrow> packet_tags \<Rightarrow> packet_tags" where
  "appendEncapsulationProtocolInd pr p = p\<lparr>tg_encapInd := Some (tag_list (tg_encapInd p) @ [pr])\<rparr>"

definition setDispatchProtocol :: "protocol option \<Rightarrow> packet_tags \<Rightarrow> packet_tags option" where
  "setDispatchProtocol deflt p =
     do {
       e \<leftarrow> peekEncapsulationProtocolReq p;
       Some (p\<lparr>tg_dispatch := (case e of Some pr \<Rightarrow> Some pr | None \<Rightarrow> deflt)\<rparr>)
     }"

definition removeDispatchProtocol :: "protocol \<Rightarrow> packet_tags \<Rightarrow> packet_tags option" where
  "removeDispatchProtocol expected p =
     do {
       p \<leftarrow> (case tg_dispatch p of None \<Rightarrow> Some p
             | Some pr \<Rightarrow> do { ensure (pr = expected); Some (p\<lparr>tg_dispatch := None\<rparr>) });
       (case tg_encapReq p of None \<Rightarrow> Some p
        | Some l \<Rightarrow> do { ensure (l \<noteq> [] \<and> hd l = expected); (_, p) \<leftarrow> popEncapsulationProtocolReq p; Some p })
     }"

section \<open>802.1Q tags\<close>

record qtag_inserter =
  qi_qtagProtocol :: protocol
  qi_tpid :: "16 word"
  qi_nextProtocol :: "protocol option"
  qi_defaultVlanId :: int
  qi_defaultPcp :: int
  qi_defaultUserPriority :: int
  qi_defaultDropEligible :: int

text \<open>The four requests are consumed and become indications and header fields; the priority of \<open>PcpReq\<close>
  overrides the user priority. The result is the packet and the fields \<open>pcp\<close>, \<open>dei\<close> and \<open>vid\<close>.\<close>

definition qtag_fields :: "qtag_inserter \<Rightarrow> packet_tags \<Rightarrow> packet_tags \<times> 8 word \<times> bool \<times> 16 word" where
  "qtag_fields c p =
     (let up = (case tg_userPriorityReq p of Some v \<Rightarrow> v | None \<Rightarrow> qi_defaultUserPriority c);
          h_pcp = (if up \<noteq> -1 then word_of_int up else 0);
          p = p\<lparr>tg_userPriorityReq := None, tg_userPriorityInd := (if up \<noteq> -1 then Some up else tg_userPriorityInd p)\<rparr>;
          pcp = (case tg_pcpReq p of Some v \<Rightarrow> v | None \<Rightarrow> qi_defaultPcp c);
          h_pcp = (if pcp \<noteq> -1 then word_of_int pcp else h_pcp);
          p = p\<lparr>tg_pcpReq := None, tg_pcpInd := (if pcp \<noteq> -1 then Some pcp else tg_pcpInd p)\<rparr>;
          vlan = (case tg_vlanReq p of Some v \<Rightarrow> v | None \<Rightarrow> qi_defaultVlanId c);
          h_vid = (if vlan \<noteq> -1 then word_of_int vlan else 0);
          p = p\<lparr>tg_vlanReq := None, tg_vlanInd := (if vlan \<noteq> -1 then Some vlan else tg_vlanInd p)\<rparr>;
          de = (case tg_deiReq p of Some v \<Rightarrow> (if v then 1 else 0) | None \<Rightarrow> qi_defaultDropEligible c);
          h_dei = (if de \<ge> 0 then de > 0 else False);
          p = p\<lparr>tg_deiReq := None, tg_deiInd := (if de \<ge> 0 then Some (de \<noteq> 0) else tg_deiInd p)\<rparr>
      in (p, h_pcp, h_dei, h_vid))"

text \<open>The type or length field for the current protocol of the packet.\<close>

definition type_or_length :: "protocol \<Rightarrow> packet_tags \<Rightarrow> 16 word" where
  "type_or_length pr p = (if pr = P_ieee8022llc then of_nat (getByteLength p)
     else word_of_int (findProtocolNumber ethertypeProtocols pr))"

definition next_or_mac :: "protocol option \<Rightarrow> protocol option" where
  "next_or_mac nxt = Some (case nxt of Some pr \<Rightarrow> pr | None \<Rightarrow> P_ethernetMac)"

definition qtag_epd_insert :: "qtag_inserter \<Rightarrow> packet_tags \<Rightarrow> packet_tags option" where
  "qtag_epd_insert c p =
     (case qtag_fields c p of (p, pcp, dei, vid) \<Rightarrow>
        do {
          pr \<leftarrow> tg_protocol p;
          let h = QTagEpd pcp dei vid (type_or_length pr p);
          let p = p\<lparr>tg_headers := h # tg_headers p, tg_protocol := Some (qi_qtagProtocol c)\<rparr>;
          p \<leftarrow> removeDispatchProtocol (qi_qtagProtocol c) p;
          setDispatchProtocol (next_or_mac (qi_nextProtocol c)) p
        })"

definition qtag_tpid_insert :: "qtag_inserter \<Rightarrow> packet_tags \<Rightarrow> packet_tags option" where
  "qtag_tpid_insert c p =
     (case qtag_fields c p of (p, pcp, dei, vid) \<Rightarrow>
        do {
          let p = p\<lparr>tg_headers := QTagTpid (qi_tpid c) pcp dei vid # tg_headers p\<rparr>;
          _ \<leftarrow> tg_protocol p;
          Some (case qi_nextProtocol c of None \<Rightarrow> p | Some pr \<Rightarrow> p\<lparr>tg_dispatch := Some pr\<rparr>)
        })"

text \<open>The checkers are filters on the VLAN identifier; an empty list accepts every one.\<close>

record qtag_checker =
  qc_qtagProtocol :: protocol
  qc_tpid :: "16 word"
  qc_vlanIdFilter :: "int list"

definition vlan_accepted :: "int list \<Rightarrow> 16 word \<Rightarrow> bool" where
  "vlan_accepted f vid \<longleftrightarrow> f = [] \<or> uint vid \<in> set f"

definition type_known :: "16 word \<Rightarrow> bool" where
  "type_known t \<longleftrightarrow> isIeee8023Length (uint t) \<or> findProtocol ethertypeProtocols (uint t) \<noteq> None"

definition type_protocol :: "16 word \<Rightarrow> protocol option" where
  "type_protocol t = (if isIeee8023Length (uint t) then Some P_ieee8022llc else findProtocol ethertypeProtocols (uint t))"

definition qtag_epd_matches :: "qtag_checker \<Rightarrow> packet_tags \<Rightarrow> bool option" where
  "qtag_epd_matches c p = (case tg_headers p of QTagEpd pcp dei vid t # _ \<Rightarrow>
       Some (type_known t \<and> vlan_accepted (qc_vlanIdFilter c) vid) | _ \<Rightarrow> None)"

definition qtag_indications :: "8 word \<Rightarrow> bool \<Rightarrow> 16 word \<Rightarrow> packet_tags \<Rightarrow> packet_tags" where
  "qtag_indications pcp dei vid p =
     p\<lparr>tg_userPriorityInd := Some (uint pcp), tg_pcpInd := Some (uint pcp), tg_vlanInd := Some (uint vid), tg_deiInd := Some dei\<rparr>"

definition qtag_epd_check :: "qtag_checker \<Rightarrow> packet_tags \<Rightarrow> (qtag_checker \<times> packet_tags) option" where
  "qtag_epd_check c p = (case tg_headers p of QTagEpd pcp dei vid t # hs \<Rightarrow>
       do {
         let p = appendEncapsulationProtocolInd (qc_qtagProtocol c) (p\<lparr>tg_headers := hs\<rparr>);
         let p = qtag_indications pcp dei vid p;
         pr \<leftarrow> type_protocol t;
         Some (c, p\<lparr>tg_protocol := Some pr, tg_dispatch := Some pr\<rparr>)
       } | _ \<Rightarrow> None)"

definition qtag_tpid_matches :: "qtag_checker \<Rightarrow> packet_tags \<Rightarrow> bool option" where
  "qtag_tpid_matches c p = (case tg_headers p of QTagTpid tpid pcp dei vid # _ \<Rightarrow>
       Some (tpid = qc_tpid c \<and> vlan_accepted (qc_vlanIdFilter c) vid) | _ \<Rightarrow> None)"

definition qtag_tpid_check :: "qtag_checker \<Rightarrow> packet_tags \<Rightarrow> (qtag_checker \<times> packet_tags) option" where
  "qtag_tpid_check c p = (case tg_headers p of QTagTpid tpid pcp dei vid # hs \<Rightarrow>
       Some (c, qtag_indications pcp dei vid (p\<lparr>tg_headers := hs\<rparr>)) | _ \<Rightarrow> None)"

section \<open>The redundancy tag\<close>

definition rtag_insert :: "protocol option \<Rightarrow> packet_tags \<Rightarrow> packet_tags option" where
  "rtag_insert nextProtocol p =
     do {
       let s = tg_seqReq p;
       let p = p\<lparr>tg_seqReq := None, tg_seqInd := (case s of Some n \<Rightarrow> Some n | None \<Rightarrow> tg_seqInd p)\<rparr>;
       pr \<leftarrow> tg_protocol p;
       let h = RTagEpd (case s of Some n \<Rightarrow> word_of_int n | None \<Rightarrow> 0) (type_or_length pr p);
       let p = p\<lparr>tg_headers := h # tg_headers p, tg_protocol := Some P_ieee8021rTag\<rparr>;
       p \<leftarrow> removeDispatchProtocol P_ieee8021rTag p;
       setDispatchProtocol (next_or_mac nextProtocol) p
     }"

definition rtag_matches :: "unit \<Rightarrow> packet_tags \<Rightarrow> bool option" where
  "rtag_matches c p = (case tg_headers p of RTagEpd s t # _ \<Rightarrow> Some (type_known t) | _ \<Rightarrow> None)"

definition rtag_check :: "unit \<Rightarrow> packet_tags \<Rightarrow> (unit \<times> packet_tags) option" where
  "rtag_check c p = (case tg_headers p of RTagEpd s t # hs \<Rightarrow>
       do {
         let p = appendEncapsulationProtocolInd P_ieee8021rTag (p\<lparr>tg_headers := hs\<rparr>);
         let p = p\<lparr>tg_seqInd := Some (uint s)\<rparr>;
         pr \<leftarrow> type_protocol t;
         Some (c, p\<lparr>tg_protocol := Some pr, tg_dispatch := Some pr\<rparr>)
       } | _ \<Rightarrow> None)"

section \<open>Classifiers by priority\<close>

datatype tag_mode = ModeReq | ModeInd | ModeBoth

fun select_tag :: "tag_mode \<Rightarrow> 'a option \<Rightarrow> 'a option \<Rightarrow> 'a option" where
  "select_tag ModeReq req ind = req"
| "select_tag ModeInd req ind = ind"
| "select_tag ModeBoth req ind = (case req of Some v \<Rightarrow> Some v | None \<Rightarrow> ind)"

text \<open>An index out of range throws.\<close>

definition list_get :: "'a list \<Rightarrow> int \<Rightarrow> 'a option" where
  "list_get xs i = (if 0 \<le> i \<and> i < int (length xs) then Some (xs ! nat i) else None)"

definition pcp_classify :: "tag_mode \<Rightarrow> int list \<Rightarrow> int \<Rightarrow> packet_tags \<Rightarrow> int option" where
  "pcp_classify mode pcpToGateIndex defaultGateIndex p =
     (case select_tag mode (tg_pcpReq p) (tg_pcpInd p) of
        Some pcp \<Rightarrow> if pcp \<noteq> -1 then list_get pcpToGateIndex pcp else Some defaultGateIndex
      | None \<Rightarrow> Some defaultGateIndex)"

definition pcp_traffic_class :: "tag_mode \<Rightarrow> int list list \<Rightarrow> int \<Rightarrow> nat \<Rightarrow> packet_tags \<Rightarrow> int option" where
  "pcp_traffic_class mode mapping defaultGateIndex numTrafficClasses p =
     (case select_tag mode (tg_pcpReq p) (tg_pcpInd p) of
        Some pcp \<Rightarrow> if pcp \<noteq> -1 then
            do { row \<leftarrow> list_get mapping pcp; list_get row (int numTrafficClasses - 1) }
          else Some defaultGateIndex
      | None \<Rightarrow> Some defaultGateIndex)"

definition table_8_5 :: "int list list" where
  "table_8_5 =
    [[0, 0, 0, 0, 0, 1, 1, 1], [0, 0, 0, 0, 0, 0, 0, 0], [0, 0, 0, 1, 1, 2, 2, 2], [0, 0, 0, 1, 1, 2, 3, 3],
     [0, 1, 1, 2, 2, 3, 4, 4], [0, 1, 1, 2, 2, 3, 4, 5], [0, 1, 2, 3, 3, 4, 5, 6], [0, 1, 2, 3, 4, 5, 6, 7]]"

section \<open>The checkers keep the contract of a filter\<close>

definition epd_front :: "packet_tags \<Rightarrow> bool" where
  "epd_front p = (case tg_headers p of QTagEpd _ _ _ _ # _ \<Rightarrow> True | _ \<Rightarrow> False)"

definition tpid_front :: "packet_tags \<Rightarrow> bool" where
  "tpid_front p = (case tg_headers p of QTagTpid _ _ _ _ # _ \<Rightarrow> True | _ \<Rightarrow> False)"

definition rtag_front :: "packet_tags \<Rightarrow> bool" where
  "rtag_front p = (case tg_headers p of RTagEpd _ _ # _ \<Rightarrow> True | _ \<Rightarrow> False)"

lemma type_known_protocol: "type_known t \<longleftrightarrow> (\<exists>pr. type_protocol t = Some pr)"
  by (auto simp: type_known_def type_protocol_def)

definition no_drop :: "'m \<Rightarrow> 'p \<Rightarrow> 'm option" where
  "no_drop m p = Some m"

interpretation qtag_epd: packet_filter qtag_epd_matches qtag_epd_check no_drop "\<lambda>_. True" epd_front
  by unfold_locales
    (auto simp: epd_front_def qtag_epd_matches_def qtag_epd_check_def no_drop_def type_known_protocol Let_def
      split: list.splits frame_header.splits)

interpretation qtag_tpid: packet_filter qtag_tpid_matches qtag_tpid_check no_drop "\<lambda>_. True" tpid_front
  by unfold_locales (auto simp: tpid_front_def qtag_tpid_matches_def qtag_tpid_check_def no_drop_def
      split: list.splits frame_header.splits)

interpretation rtag: packet_filter rtag_matches rtag_check no_drop "\<lambda>_. True" rtag_front
  by unfold_locales
    (auto simp: rtag_front_def rtag_matches_def rtag_check_def no_drop_def type_known_protocol Let_def
      split: list.splits frame_header.splits)

section \<open>Types survive the round trip\<close>

text \<open>A protocol of the table is found again under its number, and a number is never a length.\<close>

lemma ethertype_roundtrip:
  assumes "pr \<in> snd ` set ethertypeProtocols"
  shows "type_protocol (word_of_int (findProtocolNumber ethertypeProtocols pr)) = Some pr"
  using assms unfolding ethertypeProtocols_def
  by (simp, elim disjE)
    (simp_all add: findProtocolNumber_def type_protocol_def findProtocol_def isIeee8023Length_def
      ethertypeProtocols_def prod.swap_def)

end
