(* ===== verification/Stream_Redundancy.thy ===== *)
theory Stream_Redundancy
  imports Protocol_Tags
begin

text \<open>
  Frame replication and elimination for reliability, 802.1CB
  (src/inet/src/inet/protocolelement/redundancy): the modules that identify, split, encode, decode,
  filter, classify and merge streams. Filters on packets and names of the configuration are predicates.
  The merger is a \<open>packet_filter\<close>. \<open>None\<close> is a \<open>throw\<close>.
\<close>

section \<open>\<open>StreamIdentifier\<close>\<close>

record identifier_entry =
  ie_packetFilter :: "packet_tags \<Rightarrow> bool"
  ie_stream :: string
  ie_sequenceNumbering :: bool

record stream_identifier =
  si_hasSequenceNumbering :: bool
  si_mapping :: "identifier_entry list"
  si_sequenceNumbers :: "string \<Rightarrow> int option"

definition incrementSequenceNumber :: "string \<Rightarrow> stream_identifier \<Rightarrow> int \<times> stream_identifier" where
  "incrementSequenceNumber st s =
     (let n = (case si_sequenceNumbers s st of None \<Rightarrow> 0 | Some n \<Rightarrow> n)
      in (n, s\<lparr>si_sequenceNumbers := (si_sequenceNumbers s)(st \<mapsto> n + 1)\<rparr>))"

definition identify_packet :: "stream_identifier \<Rightarrow> packet_tags \<Rightarrow> (stream_identifier \<times> packet_tags) option" where
  "identify_packet s p =
     (if tg_streamReq p \<noteq> None then Some (s, p)
      else (case filter (\<lambda>e. ie_packetFilter e p) (si_mapping s) of
          [] \<Rightarrow> Some (s, p)
        | e # _ \<Rightarrow>
            (let p = p\<lparr>tg_streamReq := Some (ie_stream e)\<rparr>;
                 (n, s) = incrementSequenceNumber (ie_stream e) s
             in if si_hasSequenceNumbering s \<and> ie_sequenceNumbering e
                then do { ensure (tg_seqReq p = None); Some (s, p\<lparr>tg_seqReq := Some n\<rparr>) }
                else Some (s, p))))"

section \<open>\<open>StreamSplitter\<close>\<close>

definition split_packet :: "(string \<Rightarrow> string list option) \<Rightarrow> packet_tags \<Rightarrow> packet_tags list" where
  "split_packet mapping p =
     (case tg_streamReq p of None \<Rightarrow> [p]
      | Some st \<Rightarrow> (case mapping st of None \<Rightarrow> [p]
          | Some outs \<Rightarrow> map (\<lambda>out. p\<lparr>tg_streamReq := Some out\<rparr>) outs))"

definition getNumPacketDuplicates :: "(string \<Rightarrow> string list option) \<Rightarrow> packet_tags \<Rightarrow> int" where
  "getNumPacketDuplicates mapping p =
     (let st = (case tg_streamReq p of None \<Rightarrow> '''' | Some st \<Rightarrow> st)
      in case mapping st of None \<Rightarrow> 0 | Some outs \<Rightarrow> int (length outs) - 1)"

section \<open>\<open>StreamEncoder\<close> and \<open>StreamDecoder\<close>\<close>

record encoder_entry =
  ee_vlanId :: int
  ee_pcp :: int
  ee_stream :: string

definition encode_packet :: "encoder_entry list \<Rightarrow> packet_tags \<Rightarrow> packet_tags option" where
  "encode_packet mappings p =
     (case tg_streamReq p of None \<Rightarrow> Some p
      | Some st \<Rightarrow> (case filter (\<lambda>e. ee_stream e = st) mappings of [] \<Rightarrow> Some p
          | e # _ \<Rightarrow>
             (let p = (if ee_pcp e \<noteq> -1 then p\<lparr>tg_pcpReq := Some (ee_pcp e)\<rparr> else p);
                  p = (if ee_vlanId e \<noteq> -1 then p\<lparr>tg_vlanReq := Some (ee_vlanId e)\<rparr> else p);
                  p = (if tg_seqReq p \<noteq> None then ensureEncapsulationProtocolReq P_ieee8021rTag True True p else p);
                  p = (if ee_pcp e \<noteq> -1 \<or> ee_vlanId e \<noteq> -1
                       then ensureEncapsulationProtocolReq P_ieee8021qCTag True True p else p)
              in setDispatchProtocol None p)))"

record decoder_entry =
  de_packetFilter :: "packet_tags \<Rightarrow> bool"
  de_interfaceNameMatcher :: "(string \<Rightarrow> bool) option"
  de_source :: mac_address
  de_destination :: mac_address
  de_vlanId :: int
  de_pcp :: int
  de_stream :: string

definition decoder_matches :: "(int \<Rightarrow> string) \<Rightarrow> packet_tags \<Rightarrow> decoder_entry \<Rightarrow> bool" where
  "decoder_matches ifname p e \<longleftrightarrow>
     de_packetFilter e p \<and>
     (case de_interfaceNameMatcher e of None \<Rightarrow> True
      | Some f \<Rightarrow> (case tg_interfaceInd p of None \<Rightarrow> False | Some i \<Rightarrow> f (ifname i))) \<and>
     (isUnspecified (de_source e) \<or> (case tg_macInd p of None \<Rightarrow> False | Some (src, dst) \<Rightarrow> src = de_source e)) \<and>
     (isUnspecified (de_destination e) \<or> (case tg_macInd p of None \<Rightarrow> False | Some (src, dst) \<Rightarrow> dst = de_destination e)) \<and>
     (de_vlanId e = -1 \<or> tg_vlanInd p = Some (de_vlanId e)) \<and>
     (de_pcp e = -1 \<or> tg_pcpInd p = Some (de_pcp e))"

definition decode_packet :: "(int \<Rightarrow> string) \<Rightarrow> decoder_entry list \<Rightarrow> packet_tags \<Rightarrow> packet_tags option" where
  "decode_packet ifname mappings p =
     (case filter (decoder_matches ifname p) mappings of [] \<Rightarrow> Some p
      | e # _ \<Rightarrow> do { ensure (tg_streamInd p = None); Some (p\<lparr>tg_streamInd := Some (de_stream e)\<rparr>) })"

section \<open>\<open>StreamFilter\<close> and \<open>StreamClassifier\<close>\<close>

definition stream_filter_matches :: "tag_mode \<times> (string \<Rightarrow> bool) \<Rightarrow> packet_tags \<Rightarrow> bool option" where
  "stream_filter_matches c p =
     (case select_tag (fst c) (tg_streamReq p) (tg_streamInd p) of None \<Rightarrow> Some False | Some st \<Rightarrow> Some (snd c st))"

definition stream_classify ::
  "tag_mode \<Rightarrow> (string \<Rightarrow> int option) \<Rightarrow> int \<Rightarrow> int \<Rightarrow> (packet_tags \<Rightarrow> bool) list \<Rightarrow> packet_tags \<Rightarrow> int option" where
  "stream_classify mode mapping gateIndexOffset defaultGateIndex consumers p =
     (case select_tag mode (tg_streamReq p) (tg_streamInd p) of None \<Rightarrow> Some defaultGateIndex
      | Some st \<Rightarrow> (case mapping st of None \<Rightarrow> Some defaultGateIndex
          | Some g \<Rightarrow> do {
              canPush \<leftarrow> list_get consumers (g + gateIndexOffset);
              Some (if canPush p then g + gateIndexOffset else defaultGateIndex) }))"

section \<open>\<open>StreamMerger\<close>\<close>

record stream_merger =
  sm_mapping :: "string \<Rightarrow> string option"
  sm_bufferSize :: nat
  sm_sequenceNumbers :: "string \<Rightarrow> int list option"

definition matchesInputStream :: "stream_merger \<Rightarrow> string \<Rightarrow> bool" where
  "matchesInputStream m st \<longleftrightarrow> sm_mapping m st \<noteq> None"

definition matchesSequenceNumber :: "stream_merger \<Rightarrow> string \<Rightarrow> int \<Rightarrow> bool" where
  "matchesSequenceNumber m st n =
     (case sm_sequenceNumbers m st of None \<Rightarrow> True | Some l \<Rightarrow> n \<notin> set l)"

definition merger_matches :: "stream_merger \<Rightarrow> packet_tags \<Rightarrow> bool option" where
  "merger_matches m p =
     (case tg_streamInd p of None \<Rightarrow> Some True
      | Some st \<Rightarrow> (case sm_mapping m st of None \<Rightarrow> Some True
          | Some out \<Rightarrow> if \<not> matchesInputStream m st then None
              else do { n \<leftarrow> tg_seqInd p; Some (matchesSequenceNumber m out n) }))"

definition trim :: "nat \<Rightarrow> 'a list \<Rightarrow> 'a list" where
  "trim k l = (if length l > k then drop (length l - k) l else l)"

definition merger_process :: "stream_merger \<Rightarrow> packet_tags \<Rightarrow> (stream_merger \<times> packet_tags) option" where
  "merger_process m p =
     (case tg_streamInd p of None \<Rightarrow> Some (m, p)
      | Some st \<Rightarrow> (case sm_mapping m st of None \<Rightarrow> Some (m, p)
          | Some out \<Rightarrow>
              do {
                n \<leftarrow> tg_seqInd p;
                let l = (case sm_sequenceNumbers m out of None \<Rightarrow> [] | Some l \<Rightarrow> l) @ [n];
                let m = m\<lparr>sm_sequenceNumbers := (sm_sequenceNumbers m)(out \<mapsto> trim (sm_bufferSize m) l)\<rparr>;
                Some (m, if out \<noteq> '''' then p\<lparr>tg_streamInd := Some out\<rparr>
                         else p\<lparr>tg_streamInd := None, tg_seqInd := None\<rparr>)
              }))"

interpretation stream_filter: packet_filter stream_filter_matches "\<lambda>m p. Some (m, p)" no_drop "\<lambda>_. True" "\<lambda>_. True"
  by unfold_locales (auto simp: stream_filter_matches_def no_drop_def split: option.splits)

interpretation merger: packet_filter merger_matches merger_process no_drop "\<lambda>_. True" "\<lambda>p. tg_seqInd p \<noteq> None"
  by unfold_locales
    (auto simp: merger_matches_def merger_process_def matchesInputStream_def no_drop_def Let_def split: option.splits)

section \<open>Elimination\<close>

text \<open>A list without the later copies of its elements.\<close>

definition first_copies :: "'a list \<Rightarrow> 'a list" where
  "first_copies xs = rev (remdups (rev xs))"

lemma first_copies_snoc [simp]:
  "first_copies (xs @ [x]) = (if x \<in> set xs then first_copies xs else first_copies xs @ [x])"
  by (simp add: first_copies_def)

lemma set_first_copies [simp]: "set (first_copies xs) = set xs"
  by (simp add: first_copies_def)

lemma distinct_first_copies [simp]: "distinct (first_copies xs)"
  by (simp add: first_copies_def)

text \<open>Between two copies of a number fewer different numbers arrive than the buffer holds.\<close>

definition skew_bounded :: "nat \<Rightarrow> 'a list \<Rightarrow> bool" where
  "skew_bounded k xs \<longleftrightarrow> (\<forall>j < length xs. \<forall>i < j. xs ! i = xs ! j \<longrightarrow> card (set (drop (Suc i) (take j xs))) < k)"

lemma skew_bounded_snoc:
  "skew_bounded k (xs @ [x]) \<longleftrightarrow> skew_bounded k xs \<and>
     (\<forall>i < length xs. xs ! i = x \<longrightarrow> card (set (drop (Suc i) xs)) < k)"
  by (auto simp: skew_bounded_def nth_append less_Suc_eq)

text \<open>The first copies seen since the first occurrence of a number are among those that arrived since.\<close>

lemma first_copies_split:
  assumes "x \<in> set xs"
  shows "\<exists>i A B. i < length xs \<and> xs ! i = x \<and> first_copies xs = A @ x # B \<and> set B \<subseteq> set (drop (Suc i) xs)"
  using assms
proof (induction xs rule: rev_induct)
  case (snoc y xs)
  show ?case
  proof (cases "x \<in> set xs")
    case True
    then obtain i A B where i: "i < length xs" "xs ! i = x" "first_copies xs = A @ x # B"
      "set B \<subseteq> set (drop (Suc i) xs)" using snoc.IH by blast
    then show ?thesis
      by (intro exI[of _ i] exI[of _ A] exI[of _ "if y \<in> set xs then B else B @ [y]"])
        (auto simp: nth_append Suc_le_eq)
  next
    case False
    with snoc.prems show ?thesis
      by (intro exI[of _ "length xs"] exI[of _ "first_copies xs"] exI[of _ "[]"]) auto
  qed
qed simp

lemma trim_append: "trim k (trim k l @ [x]) = trim k (l @ [x])"
proof -
  consider "length l < k" | "length l = k" | "length l > k" by linarith
  then show ?thesis by cases (auto simp: trim_def Suc_diff_le)
qed

lemma recent_in_trim:
  assumes "length B < k"
  shows "x \<in> set (trim k (A @ x # B))"
  using assms by (auto simp: trim_def)

lemma old_not_in_trim: "x \<notin> set l \<Longrightarrow> x \<notin> set (trim k l)"
  by (auto simp: trim_def dest: in_set_dropD)

definition fresh_filter :: "'m \<Rightarrow> 'm filter_base" where
  "fresh_filter m = \<lparr>pf_backpressure = False, pf_inProgressStreamId = -1, pf_numProcessedPackets = 0,
     pf_processedTotalLength = 0, pf_numDroppedPackets = 0, pf_droppedTotalLength = 0, pf_module = m\<rparr>"

text \<open>A packet of a member stream of an output stream.\<close>

definition member_packet :: "stream_merger \<Rightarrow> string \<Rightarrow> packet_tags \<Rightarrow> bool" where
  "member_packet m out p \<longleftrightarrow> (\<exists>st. tg_streamInd p = Some st \<and> sm_mapping m st = Some out) \<and> tg_seqInd p \<noteq> None"

definition seq_of :: "packet_tags \<Rightarrow> int" where
  "seq_of p = (case tg_seqInd p of Some n \<Rightarrow> n | None \<Rightarrow> 0)"

fun pushed :: "'p pf_output \<Rightarrow> 'p" where
  "pushed (PfPushed p) = p" | "pushed (PfStarted p) = p" | "pushed (PfEnded p) = p" | "pushed (PfProgressed p) = p"

lemma pf_push_all_snoc:
  "pf_push_all f g h (ps @ [p]) s =
     do { (outs, s) \<leftarrow> pf_push_all f g h ps s; (out, s) \<leftarrow> pf_pushPacket f g h p s; Some (outs @ out, s) }"
proof (induction ps arbitrary: s)
  case Nil
  show ?case by (cases "pf_pushPacket f g h p s") auto
next
  case (Cons q ps)
  show ?case by (cases "pf_pushPacket f g h q s") (auto simp: Cons.IH split: bind_splits)
qed

lemma merger_push_member:
  assumes "member_packet (pf_module s) out p" "out \<noteq> ''''" "pf_inProgressStreamId s = -1"
    "sm_sequenceNumbers (pf_module s) out = l" "ns = (case l of None \<Rightarrow> [] | Some l \<Rightarrow> l)"
  shows "\<exists>t. pf_pushPacket merger_matches merger_process no_drop p s =
      Some (if seq_of p \<in> set ns then [] else [PfPushed (p\<lparr>tg_streamInd := Some out\<rparr>)], t) \<and>
    pf_inProgressStreamId t = -1 \<and> sm_mapping (pf_module t) = sm_mapping (pf_module s) \<and>
    sm_bufferSize (pf_module t) = sm_bufferSize (pf_module s) \<and>
    sm_sequenceNumbers (pf_module t) out =
      (if seq_of p \<in> set ns then l else Some (trim (sm_bufferSize (pf_module s)) (ns @ [seq_of p])))"
  using assms
  by (auto simp: member_packet_def pf_pushPacket_def checkPacketStreaming_def merger_matches_def
      matchesInputStream_def matchesSequenceNumber_def seq_of_def merger_process_def pf_processPacket_def
      pf_dropPacket_def handlePacketProcessed_def no_drop_def Let_def split: option.splits)

lemma member_packet_mapping: "sm_mapping m = sm_mapping n \<Longrightarrow> member_packet m out p = member_packet n out p"
  by (simp add: member_packet_def)

lemma merger_run:
  assumes "\<forall>p \<in> set ps. member_packet m out p" "out \<noteq> ''''" "sm_sequenceNumbers m out = None"
    "skew_bounded (sm_bufferSize m) (map seq_of ps)"
  shows "\<exists>outs s. pf_push_all merger_matches merger_process no_drop ps (fresh_filter m) = Some (outs, s) \<and>
    map (\<lambda>x. seq_of (pushed x)) outs = first_copies (map seq_of ps) \<and>
    (\<forall>x \<in> set outs. \<exists>p \<in> set ps. x = PfPushed (p\<lparr>tg_streamInd := Some out\<rparr>)) \<and>
    pf_inProgressStreamId s = -1 \<and> sm_mapping (pf_module s) = sm_mapping m \<and>
    sm_bufferSize (pf_module s) = sm_bufferSize m \<and>
    (case sm_sequenceNumbers (pf_module s) out of None \<Rightarrow> [] | Some l \<Rightarrow> l) =
      trim (sm_bufferSize m) (first_copies (map seq_of ps))"
  using assms
proof (induction ps rule: rev_induct)
  case Nil
  then show ?case by (simp add: fresh_filter_def first_copies_def trim_def)
next
  case (snoc p ps)
  let ?k = "sm_bufferSize m" and ?xs = "map seq_of ps" and ?x = "seq_of p"
  obtain outs s where s: "pf_push_all merger_matches merger_process no_drop ps (fresh_filter m) = Some (outs, s)"
    "map (\<lambda>x. seq_of (pushed x)) outs = first_copies ?xs"
    "\<forall>x \<in> set outs. \<exists>p \<in> set ps. x = PfPushed (p\<lparr>tg_streamInd := Some out\<rparr>)"
    "pf_inProgressStreamId s = -1" "sm_mapping (pf_module s) = sm_mapping m" "sm_bufferSize (pf_module s) = ?k"
    "(case sm_sequenceNumbers (pf_module s) out of None \<Rightarrow> [] | Some l \<Rightarrow> l) = trim ?k (first_copies ?xs)"
    using snoc by (auto simp: skew_bounded_snoc)
  have mem: "member_packet (pf_module s) out p"
    using snoc.prems(1) member_packet_mapping[OF s(5)] by simp
  have dup: "?x \<in> set (trim ?k (first_copies ?xs)) \<longleftrightarrow> ?x \<in> set ?xs"
  proof
    show "?x \<in> set (trim ?k (first_copies ?xs)) \<Longrightarrow> ?x \<in> set ?xs"
      using old_not_in_trim[of ?x "first_copies ?xs" ?k] unfolding set_first_copies by blast
    assume x: "?x \<in> set ?xs"
    obtain i A B where i: "i < length ?xs" "?xs ! i = ?x" "first_copies ?xs = A @ ?x # B"
      "set B \<subseteq> set (drop (Suc i) ?xs)" using first_copies_split[OF x] by (elim exE conjE)
    have "distinct (A @ ?x # B)" using distinct_first_copies[of ?xs] unfolding i(3) .
    then have "distinct B" by simp
    then have "length B = card (set B)" by (rule distinct_card[symmetric])
    also have "\<dots> \<le> card (set (drop (Suc i) ?xs))" by (rule card_mono) (use i(4) in auto)
    also have "\<dots> < ?k" using snoc.prems(4) i(1,2) by (auto simp: skew_bounded_snoc)
    finally show "?x \<in> set (trim ?k (first_copies ?xs))" unfolding i(3) by (rule recent_in_trim)
  qed
  obtain t where t: "pf_pushPacket merger_matches merger_process no_drop p s =
      Some (if ?x \<in> set ?xs then [] else [PfPushed (p\<lparr>tg_streamInd := Some out\<rparr>)], t)"
    "pf_inProgressStreamId t = -1" "sm_mapping (pf_module t) = sm_mapping m" "sm_bufferSize (pf_module t) = ?k"
    "sm_sequenceNumbers (pf_module t) out = (if ?x \<in> set ?xs then sm_sequenceNumbers (pf_module s) out
       else Some (trim ?k (trim ?k (first_copies ?xs) @ [?x])))"
    using merger_push_member[OF mem snoc.prems(2) s(4) refl s(7)[symmetric]] s(5,6) unfolding dup by auto
  have q: "seq_of (p\<lparr>tg_streamInd := Some out\<rparr>) = ?x" by (simp add: seq_of_def)
  show ?case
    by (intro exI[of _ "outs @ (if ?x \<in> set ?xs then [] else [PfPushed (p\<lparr>tg_streamInd := Some out\<rparr>)])"] exI[of _ t])
      (use s t q in \<open>auto simp: pf_push_all_snoc trim_append\<close>)
qed

text \<open>
  C26. The stream merger eliminates duplicates: of the packets of the member streams of an output stream it
  forwards, in the order of arrival, exactly the first copy of every sequence number, renamed to the
  output stream, provided that fewer different numbers than its buffer holds arrive between two copies.
\<close>

theorem merger_forwards_first_copies:
  assumes "\<forall>p \<in> set ps. member_packet m out p" "out \<noteq> ''''" "sm_sequenceNumbers m out = None"
    "skew_bounded (sm_bufferSize m) (map seq_of ps)"
  shows "\<exists>outs s. pf_push_all merger_matches merger_process no_drop ps (fresh_filter m) = Some (outs, s) \<and>
    map (\<lambda>x. seq_of (pushed x)) outs = first_copies (map seq_of ps) \<and>
    (\<forall>x \<in> set outs. \<exists>p \<in> set ps. x = PfPushed (p\<lparr>tg_streamInd := Some out\<rparr>)) \<and>
    pf_numDroppedPackets s + length outs = length ps"
proof -
  have ok: "\<forall>p \<in> set ps. tg_seqInd p \<noteq> None" using assms(1) by (simp add: member_packet_def)
  show ?thesis
    using merger_run[OF assms] merger.push_all_ok[where s = "fresh_filter m" and ps = ps] ok
    by (auto simp: fresh_filter_def)
qed

section \<open>From the source to the sink\<close>

fun identify_all :: "stream_identifier \<Rightarrow> packet_tags list \<Rightarrow> (stream_identifier \<times> packet_tags list) option" where
  "identify_all s [] = Some (s, [])"
| "identify_all s (p # ps) =
     do { (s, p) \<leftarrow> identify_packet s p; (s, ps) \<leftarrow> identify_all s ps; Some (s, p # ps) }"

text \<open>The packets of an application: not labelled yet, and identified as a stream with sequence numbers.\<close>

definition identified :: "stream_identifier \<Rightarrow> string \<Rightarrow> packet_tags \<Rightarrow> bool" where
  "identified s st p \<longleftrightarrow> tg_streamReq p = None \<and> tg_seqReq p = None \<and>
     (case filter (\<lambda>e. ie_packetFilter e p) (si_mapping s) of [] \<Rightarrow> False
      | e # _ \<Rightarrow> ie_stream e = st \<and> ie_sequenceNumbering e)"

text \<open>The number that the receiver reads for a packet: the R-tag carries 16 bits of it
  (\<open>stream_tags_survive\<close> below).\<close>

definition number_on_wire :: "int option \<Rightarrow> int option" where
  "number_on_wire n = map_option (\<lambda>n. n mod 65536) n"

text \<open>What the network makes of the copies: some are lost, the others arrive in some order with their
  stream and the 16 bits of their sequence number as indications, and of every packet at least one copy
  arrives.\<close>

definition delivered :: "(string \<Rightarrow> string list option) \<Rightarrow> packet_tags list \<Rightarrow> packet_tags list \<Rightarrow> bool" where
  "delivered split sent arr \<longleftrightarrow>
     (\<forall>a \<in> set arr. \<exists>c \<in> set (concat (map (split_packet split) sent)).
        tg_streamInd a = tg_streamReq c \<and> tg_seqInd a = number_on_wire (tg_seqReq c)) \<and>
     (\<forall>p \<in> set sent. \<exists>a \<in> set arr. tg_seqInd a = number_on_wire (tg_seqReq p))"

lemma identify_all_ok:
  assumes "\<forall>p \<in> set ps. identified s st p" "si_hasSequenceNumbering s"
    "(case si_sequenceNumbers s st of None \<Rightarrow> 0 | Some k \<Rightarrow> k) = n"
  shows "\<exists>t sent. identify_all s ps = Some (t, sent) \<and>
    map tg_seqReq sent = map Some (map (\<lambda>i. n + int i) [0..<length ps]) \<and> (\<forall>p \<in> set sent. tg_streamReq p = Some st)"
  using assms
proof (induction ps arbitrary: s n)
  case (Cons p ps)
  let ?s = "s\<lparr>si_sequenceNumbers := (si_sequenceNumbers s)(st \<mapsto> n + 1)\<rparr>"
  have p: "identify_packet s p = Some (?s, p\<lparr>tg_streamReq := Some st, tg_seqReq := Some n\<rparr>)"
    using Cons.prems by (auto simp: identified_def identify_packet_def incrementSequenceNumber_def Let_def
        split: list.splits if_splits)
  have "\<exists>t sent. identify_all ?s ps = Some (t, sent) \<and>
    map tg_seqReq sent = map Some (map (\<lambda>i. n + 1 + int i) [0..<length ps]) \<and> (\<forall>p \<in> set sent. tg_streamReq p = Some st)"
    by (rule Cons.IH) (use Cons.prems in \<open>auto simp: identified_def\<close>)
  moreover have "map (\<lambda>i. n + int i) [0..<length (p # ps)] = n # map (\<lambda>i. n + 1 + int i) [0..<length ps]"
    by (simp add: upt_conv_Cons map_Suc_upt[symmetric] o_def del: upt_Suc)
  ultimately show ?case using p by auto
qed simp

lemma delivered_members:
  assumes "delivered split sent arr" "\<forall>p \<in> set sent. tg_streamReq p = Some st" "split st = Some paths" "a \<in> set arr"
  obtains p path where "p \<in> set sent" "path \<in> set paths" "tg_streamInd a = Some path"
    "tg_seqInd a = number_on_wire (tg_seqReq p)"
proof -
  obtain c where "c \<in> set (concat (map (split_packet split) sent))"
    "tg_streamInd a = tg_streamReq c" "tg_seqInd a = number_on_wire (tg_seqReq c)"
    using assms(1,4) unfolding delivered_def by blast
  then show ?thesis using that assms(2,3) by (auto simp: split_packet_def)
qed

lemma delivered_numbers:
  assumes "delivered split sent arr" "\<forall>p \<in> set sent. tg_streamReq p = Some st" "split st = Some paths"
    "tg_seqReq ` set sent = Some ` N" "N \<subseteq> {0 ..< 65536}"
  shows "(\<forall>a \<in> set arr. \<exists>path \<in> set paths. tg_streamInd a = Some path \<and> tg_seqInd a \<noteq> None) \<and> seq_of ` set arr = N"
proof -
  have wire: "number_on_wire (Some n) = Some n" if "n \<in> N" for n
    using that assms(5) by (auto simp: number_on_wire_def)
  have a: "\<exists>path \<in> set paths. \<exists>n \<in> N. tg_streamInd a = Some path \<and> tg_seqInd a = Some n" if m: "a \<in> set arr" for a
  proof -
    obtain p path where p: "p \<in> set sent" "path \<in> set paths" "tg_streamInd a = Some path"
      "tg_seqInd a = number_on_wire (tg_seqReq p)"
      by (rule delivered_members[OF assms(1-3) m])
    have "tg_seqReq p \<in> Some ` N" using p(1) assms(4) by blast
    with p wire show ?thesis by auto
  qed
  have "n \<in> seq_of ` set arr" if "n \<in> N" for n
  proof -
    have "Some n \<in> tg_seqReq ` set sent" using that assms(4) by simp
    then obtain p where p: "p \<in> set sent" "tg_seqReq p = Some n" by auto
    have w: "number_on_wire (tg_seqReq p) = Some n" using p(2) wire[OF that] by simp
    obtain b where b: "b \<in> set arr" "tg_seqInd b = Some n"
      using assms(1) p(1) w unfolding delivered_def by metis
    from b show ?thesis by (force simp: seq_of_def image_iff)
  qed
  moreover have "seq_of ` set arr \<subseteq> N" using a by (fastforce simp: seq_of_def)
  ultimately show ?thesis using a by blast
qed

text \<open>
  C27. Frame replication and elimination is seamless: the packets that the source identifies as a stream get
  the sequence numbers from zero on; when they are split to member streams, whatever the network loses as
  long as one copy of each arrives, and the copies are not skewed by more than the merger's buffer, the
  merger forwards every packet exactly once on the output stream. The receiver sees the 16 bits of a number
  that the R-tag carries, and the claim is about up to \<open>2^16\<close> packets, whose numbers do not wrap.
\<close>

theorem replication_delivers_once:
  assumes "\<forall>p \<in> set ps. identified s st p" "si_hasSequenceNumbering s" "si_sequenceNumbers s st = None"
    and "split st = Some paths" "\<forall>path \<in> set paths. sm_mapping m path = Some out" "out \<noteq> ''''"
    and "sm_sequenceNumbers m out = None" "length ps \<le> 65536"
  shows "\<exists>t sent. identify_all s ps = Some (t, sent) \<and> length sent = length ps \<and>
    (\<forall>arr. delivered split sent arr \<and> skew_bounded (sm_bufferSize m) (map seq_of arr) \<longrightarrow>
      (\<exists>outs u. pf_push_all merger_matches merger_process no_drop arr (fresh_filter m) = Some (outs, u) \<and>
        distinct (map (\<lambda>x. seq_of (pushed x)) outs) \<and>
        set (map (\<lambda>x. seq_of (pushed x)) outs) = {0 ..< int (length ps)} \<and>
        (\<forall>x \<in> set outs. tg_streamInd (pushed x) = Some out)))"
proof -
  obtain t sent where sent: "identify_all s ps = Some (t, sent)"
    "map tg_seqReq sent = map Some (map int [0..<length ps])" "\<forall>p \<in> set sent. tg_streamReq p = Some st"
    using identify_all_ok[OF assms(1,2), of 0] assms(3) by auto
  have nums: "tg_seqReq ` set sent = Some ` {0 ..< int (length ps)}"
  proof -
    have "tg_seqReq ` set sent = set (map tg_seqReq sent)" by simp
    also have "\<dots> = Some ` int ` {0 ..< length ps}" unfolding sent(2) by auto
    also have "int ` {0 ..< length ps} = {0 ..< int (length ps)}"
      using image_int_atLeastLessThan[of 0 "length ps"] by simp
    finally show ?thesis .
  qed
  have "\<exists>outs u. pf_push_all merger_matches merger_process no_drop arr (fresh_filter m) = Some (outs, u) \<and>
        distinct (map (\<lambda>x. seq_of (pushed x)) outs) \<and>
        set (map (\<lambda>x. seq_of (pushed x)) outs) = {0 ..< int (length ps)} \<and>
        (\<forall>x \<in> set outs. tg_streamInd (pushed x) = Some out)"
    if d: "delivered split sent arr" and k: "skew_bounded (sm_bufferSize m) (map seq_of arr)" for arr
  proof -
    have "{0 ..< int (length ps)} \<subseteq> {0 ..< 65536}" using assms(8) by auto
    note n = delivered_numbers[OF d sent(3) assms(4) nums this]
    have mem: "\<forall>a \<in> set arr. member_packet m out a" using n assms(5) by (fastforce simp: member_packet_def)
    obtain outs u where o: "pf_push_all merger_matches merger_process no_drop arr (fresh_filter m) = Some (outs, u)"
      "map (\<lambda>x. seq_of (pushed x)) outs = first_copies (map seq_of arr)"
      "\<forall>x \<in> set outs. \<exists>p \<in> set arr. x = PfPushed (p\<lparr>tg_streamInd := Some out\<rparr>)"
      using merger_run[OF mem assms(6,7) k] by (elim exE conjE)
    have "\<forall>x \<in> set outs. tg_streamInd (pushed x) = Some out" using o(3) by fastforce
    with o(1) n show ?thesis unfolding o(2)
      by (intro exI[of _ outs] exI[of _ u]) (simp only: o(2) distinct_first_copies set_first_copies set_map simp_thms)
  qed
  moreover have "length sent = length ps" using arg_cong[OF sent(2), of length] by simp
  ultimately show ?thesis using sent(1) by blast
qed

text \<open>
  A packet that is streamed through the merger loses its end: the first copy is started downstream and
  its sequence number is remembered, so the end of the same packet no longer matches and is dropped; the
  downstream transmission is never ended.
\<close>

theorem streamed_packet_loses_end:
  assumes "member_packet (pf_module s) out p" "out \<noteq> ''''" "pf_inProgressStreamId s = -1"
    "sm_bufferSize (pf_module s) > 0" "matchesSequenceNumber (pf_module s) out (seq_of p)"
  shows "\<exists>s1 s2. pf_pushPacketStart merger_matches merger_process no_drop p s =
      Some ([PfStarted (p\<lparr>tg_streamInd := Some out\<rparr>)], s1) \<and>
    pf_pushPacketEnd merger_matches merger_process no_drop p s1 = Some ([], s2) \<and>
    pf_numDroppedPackets s2 = pf_numDroppedPackets s + 1"
proof -
  obtain st n where p: "tg_streamInd p = Some st" "sm_mapping (pf_module s) st = Some out" "tg_seqInd p = Some n"
    using assms(1) by (auto simp: member_packet_def)
  let ?l = "(case sm_sequenceNumbers (pf_module s) out of None \<Rightarrow> [] | Some l \<Rightarrow> l)"
  let ?k = "sm_bufferSize (pf_module s)"
  define m where "m = (pf_module s)\<lparr>sm_sequenceNumbers := (sm_sequenceNumbers (pf_module s))(out \<mapsto> trim ?k (?l @ [n]))\<rparr>"
  define s1 where "s1 = s\<lparr>pf_inProgressStreamId := pk_treeId p, pf_module := m\<rparr>"
  have "merger_matches (pf_module s) p = Some True" "merger_process (pf_module s) p = Some (m, p\<lparr>tg_streamInd := Some out\<rparr>)"
    using assms(2,5) p by (simp_all add: merger_matches_def matchesInputStream_def merger_process_def seq_of_def m_def)
  then have st: "pf_pushPacketStart merger_matches merger_process no_drop p s =
      Some ([PfStarted (p\<lparr>tg_streamInd := Some out\<rparr>)], s1)"
    using assms(3) by (simp add: pf_pushPacketStart_def checkPacketStreaming_def startPacketStreaming_def
        pf_processPacket_def s1_def)
  have "n \<in> set (trim ?k (?l @ [n]))" using recent_in_trim[of "[]" ?k n ?l] assms(4) by simp
  then have "merger_matches m p = Some False"
    using p by (simp add: merger_matches_def matchesInputStream_def matchesSequenceNumber_def m_def)
  then have "\<exists>s2. pf_pushPacketEnd merger_matches merger_process no_drop p s1 = Some ([], s2) \<and>
      pf_numDroppedPackets s2 = pf_numDroppedPackets s + 1"
    by (simp add: pf_pushPacketEnd_def checkPacketStreaming_def startPacketStreaming_def endPacketStreaming_def
        handlePacketProcessed_def pf_dropPacket_def no_drop_def s1_def)
  with st show ?thesis by blast
qed

section \<open>The tags on the wire\<close>

lemma encode_packet_ok:
  assumes "tg_streamReq p = Some st" "filter (\<lambda>e. ee_stream e = st) maps = e # es" "tg_seqReq p = Some n"
    "tg_encapReq p = None" "ee_pcp e \<noteq> -1" "ee_vlanId e \<noteq> -1"
  shows "encode_packet maps p = Some (p\<lparr>tg_pcpReq := Some (ee_pcp e), tg_vlanReq := Some (ee_vlanId e),
    tg_encapReq := Some [P_ieee8021qCTag, P_ieee8021rTag], tg_dispatch := Some P_ieee8021qCTag\<rparr>)"
  using assms
  by (simp add: encode_packet_def Let_def ensureEncapsulationProtocolReq_def hasEncapsulationProtocolReq_def
      tag_list_def prependEncapsulationProtocolReq_def setDispatchProtocol_def peekEncapsulationProtocolReq_def)

lemma qtag_insert_ok:
  assumes "tg_pcpReq p = Some pcp" "tg_vlanReq p = Some vlan" "pcp \<noteq> -1" "vlan \<noteq> -1"
    "tg_encapReq p = Some [P_ieee8021qCTag, P_ieee8021rTag]" "tg_dispatch p = Some P_ieee8021qCTag"
    "tg_protocol p = Some pr" "pr \<noteq> P_ieee8022llc" "qi_qtagProtocol c = P_ieee8021qCTag"
  shows "\<exists>f dei. qtag_epd_insert c p = Some f \<and> tg_headers f = QTagEpd (word_of_int pcp) dei (word_of_int vlan)
      (word_of_int (findProtocolNumber ethertypeProtocols pr)) # tg_headers p \<and>
    tg_encapReq f = Some [P_ieee8021rTag] \<and> tg_dispatch f = Some P_ieee8021rTag \<and>
    tg_protocol f = Some P_ieee8021qCTag \<and> tg_seqReq f = tg_seqReq p"
  using assms
  by (simp add: qtag_epd_insert_def qtag_fields_def Let_def type_or_length_def removeDispatchProtocol_def
      popEncapsulationProtocolReq_def setDispatchProtocol_def peekEncapsulationProtocolReq_def)

lemma rtag_insert_ok:
  assumes "tg_seqReq p = Some n" "tg_encapReq p = Some [P_ieee8021rTag]" "tg_dispatch p = Some P_ieee8021rTag"
    "tg_protocol p = Some P_ieee8021qCTag"
  shows "\<exists>f. rtag_insert None p = Some f \<and> tg_headers f = RTagEpd (word_of_int n)
      (word_of_int (findProtocolNumber ethertypeProtocols P_ieee8021qCTag)) # tg_headers p \<and>
    tg_encapReq f = None \<and> tg_dispatch f = Some P_ethernetMac \<and> tg_protocol f = Some P_ieee8021rTag"
  using assms
  by (simp add: rtag_insert_def Let_def type_or_length_def removeDispatchProtocol_def
      popEncapsulationProtocolReq_def setDispatchProtocol_def peekEncapsulationProtocolReq_def next_or_mac_def)

text \<open>What a sender does to a packet of a stream, and a receiver to a frame.\<close>

definition send_tagged :: "encoder_entry list \<Rightarrow> qtag_inserter \<Rightarrow> packet_tags \<Rightarrow> packet_tags option" where
  "send_tagged maps c p = do { p \<leftarrow> encode_packet maps p; p \<leftarrow> qtag_epd_insert c p; rtag_insert None p }"

definition receive_tagged :: "qtag_checker \<Rightarrow> packet_tags \<Rightarrow> packet_tags option" where
  "receive_tagged c q =
     do {
       b \<leftarrow> rtag_matches () q; ensure b; (_, q) \<leftarrow> rtag_check () q;
       b \<leftarrow> qtag_epd_matches c q; ensure b; (_, q) \<leftarrow> qtag_epd_check c q;
       Some q
     }"

text \<open>
  The tags of a stream survive the wire: a packet of a stream that is encoded with a priority and a VLAN
  and carries a sequence number leaves the inserters as a frame for the MAC with no request left, and any
  packet that arrives with the headers of that frame passes the checkers (with a VLAN filter that admits
  it) and is indicated with the same priority, VLAN and protocol and with the sequence number modulo
  \<open>2^16\<close>, its headers removed.
\<close>

theorem stream_tags_survive:
  assumes "tg_streamReq p = Some st" "filter (\<lambda>e. ee_stream e = st) maps = e # es" "tg_seqReq p = Some n"
    "tg_encapReq p = None" "0 \<le> ee_pcp e" "ee_pcp e < 8" "0 \<le> ee_vlanId e" "ee_vlanId e < 4096"
    "tg_protocol p = Some pr" "pr \<in> snd ` set ethertypeProtocols"
    "qi_qtagProtocol ci = P_ieee8021qCTag" "qc_vlanIdFilter c = [] \<or> ee_vlanId e \<in> set (qc_vlanIdFilter c)"
  shows "\<exists>f. send_tagged maps ci p = Some f \<and> tg_encapReq f = None \<and> tg_dispatch f = Some P_ethernetMac \<and>
    (\<forall>q. tg_headers q = tg_headers f \<longrightarrow>
      (\<exists>r. receive_tagged c q = Some r \<and> tg_headers r = tg_headers p \<and> tg_protocol r = Some pr \<and>
        tg_seqInd r = Some (n mod 65536) \<and> tg_vlanInd r = Some (ee_vlanId e) \<and> tg_pcpInd r = Some (ee_pcp e)))"
proof -
  let ?type = "word_of_int (findProtocolNumber ethertypeProtocols pr) :: 16 word"
  have ne: "ee_pcp e \<noteq> -1" "ee_vlanId e \<noteq> -1" using assms(5,7) by auto
  have llc: "pr \<noteq> P_ieee8022llc" using assms(10) by (auto simp: ethertypeProtocols_def)
  let ?p = "p\<lparr>tg_pcpReq := Some (ee_pcp e), tg_vlanReq := Some (ee_vlanId e),
    tg_encapReq := Some [P_ieee8021qCTag, P_ieee8021rTag], tg_dispatch := Some P_ieee8021qCTag\<rparr>"
  have enc: "encode_packet maps p = Some ?p" by (rule encode_packet_ok[OF assms(1-4) ne])
  obtain f dei where f: "qtag_epd_insert ci ?p = Some f"
    "tg_headers f = QTagEpd (word_of_int (ee_pcp e)) dei (word_of_int (ee_vlanId e)) ?type # tg_headers p"
    "tg_encapReq f = Some [P_ieee8021rTag]" "tg_dispatch f = Some P_ieee8021rTag"
    "tg_protocol f = Some P_ieee8021qCTag" "tg_seqReq f = Some n"
    using qtag_insert_ok[of ?p "ee_pcp e" "ee_vlanId e" pr ci] ne assms(3,9,11) llc by auto
  obtain g where g: "rtag_insert None f = Some g" "tg_headers g = RTagEpd (word_of_int n)
      (word_of_int (findProtocolNumber ethertypeProtocols P_ieee8021qCTag)) # tg_headers f"
    "tg_encapReq g = None" "tg_dispatch g = Some P_ethernetMac"
    using rtag_insert_ok[OF f(6,3,4,5)] by auto
  have ty: "type_protocol ?type = Some pr" by (rule ethertype_roundtrip[OF assms(10)])
  have rt: "type_protocol (word_of_int (findProtocolNumber ethertypeProtocols P_ieee8021qCTag) :: 16 word) = Some P_ieee8021qCTag"
    by (rule ethertype_roundtrip) (simp add: ethertypeProtocols_def)
  have known: "type_known ?type" "type_known (word_of_int (findProtocolNumber ethertypeProtocols P_ieee8021qCTag))"
    using ty rt by (auto simp: type_known_protocol)
  have u: "uint (word_of_int (ee_pcp e) :: 8 word) = ee_pcp e" "uint (word_of_int (ee_vlanId e) :: 16 word) = ee_vlanId e"
    "uint (word_of_int n :: 16 word) = n mod 65536"
    using assms(5-8) by (simp_all add: uint_word_of_int)
  have "\<exists>r. receive_tagged c q = Some r \<and> tg_headers r = tg_headers p \<and> tg_protocol r = Some pr \<and>
        tg_seqInd r = Some (n mod 65536) \<and> tg_vlanInd r = Some (ee_vlanId e) \<and> tg_pcpInd r = Some (ee_pcp e)"
    if "tg_headers q = tg_headers g" for q
    using that f(2) g(2) ty rt known u assms(12)
    by (simp add: receive_tagged_def rtag_matches_def rtag_check_def qtag_epd_matches_def qtag_epd_check_def Let_def
        appendEncapsulationProtocolInd_def qtag_indications_def vlan_accepted_def)
  then show ?thesis using enc f(1) g(1,3,4) by (auto simp: send_tagged_def)
qed

section \<open>Witnesses\<close>

definition plain_packet :: packet_tags where
  "plain_packet = \<lparr>pk_treeId = 1, pk_totalLength = 800, pk_dataLength = 800, tg_headers = [], tg_streamReq = None,
     tg_streamInd = None, tg_seqReq = None, tg_seqInd = None, tg_userPriorityReq = None, tg_userPriorityInd = None,
     tg_pcpReq = None, tg_pcpInd = None, tg_vlanReq = None, tg_vlanInd = None, tg_deiReq = None, tg_deiInd = None,
     tg_macInd = None, tg_interfaceInd = None, tg_encapReq = None, tg_encapInd = None, tg_dispatch = None,
     tg_protocol = Some P_ipv4\<rparr>"

definition copy_on :: "string \<Rightarrow> int \<Rightarrow> packet_tags" where
  "copy_on st n = plain_packet\<lparr>tg_streamInd := Some st, tg_seqInd := Some n\<rparr>"

definition example_merger :: stream_merger where
  "example_merger = \<lparr>sm_mapping = [''s1'' \<mapsto> ''s'', ''s2'' \<mapsto> ''s''], sm_bufferSize = 3, sm_sequenceNumbers = Map.empty\<rparr>"

definition example_arrivals :: "packet_tags list" where
  "example_arrivals = [copy_on ''s1'' 0, copy_on ''s2'' 0, copy_on ''s2'' 1, copy_on ''s1'' 2, copy_on ''s1'' 1]"

lemmas example_defs = example_merger_def example_arrivals_def copy_on_def plain_packet_def

lemma example_members: "\<forall>p \<in> set example_arrivals. member_packet example_merger ''s'' p"
  by (simp add: example_defs member_packet_def)

lemma example_numbers: "map seq_of example_arrivals = [0, 0, 1, 2, 1]"
  by (simp add: example_defs seq_of_def)

lemma example_skew: "skew_bounded 3 [0, 0, 1, 2, 1 :: int]"
  unfolding skew_bounded_def by (auto simp: less_Suc_eq numeral_eq_Suc nth_Cons')

lemma merger_forwards_first_copies_witness:
  "\<exists>outs s. pf_push_all merger_matches merger_process no_drop example_arrivals (fresh_filter example_merger) = Some (outs, s) \<and>
    map (\<lambda>x. seq_of (pushed x)) outs = [0, 1, 2] \<and> pf_numDroppedPackets s = 2"
proof -
  have p: "''s'' \<noteq> ''''" "sm_sequenceNumbers example_merger ''s'' = None"
    "skew_bounded (sm_bufferSize example_merger) (map seq_of example_arrivals)"
    using example_skew example_numbers by (simp_all add: example_merger_def)
  obtain outs s where o: "pf_push_all merger_matches merger_process no_drop example_arrivals (fresh_filter example_merger) = Some (outs, s)"
    "map (\<lambda>x. seq_of (pushed x)) outs = first_copies (map seq_of example_arrivals)"
    "pf_numDroppedPackets s + length outs = length example_arrivals"
    using merger_forwards_first_copies[OF example_members p] by blast
  have "map (\<lambda>x. seq_of (pushed x)) outs = [0, 1, 2]"
    using o(2) by (simp add: example_numbers first_copies_def)
  moreover from arg_cong[OF this, of length] have "length outs = 3" by simp
  ultimately show ?thesis using o(1,3) by (simp add: example_arrivals_def)
qed

definition example_identifier :: stream_identifier where
  "example_identifier = \<lparr>si_hasSequenceNumbering = True,
     si_mapping = [\<lparr>ie_packetFilter = (\<lambda>p. True), ie_stream = ''s0'', ie_sequenceNumbering = True\<rparr>],
     si_sequenceNumbers = Map.empty\<rparr>"

lemma replication_delivers_once_witness:
  "\<exists>t sent. identify_all example_identifier [plain_packet, plain_packet, plain_packet] = Some (t, sent) \<and>
    delivered [''s0'' \<mapsto> [''s1'', ''s2'']] sent example_arrivals \<and>
    (\<exists>outs u. pf_push_all merger_matches merger_process no_drop example_arrivals (fresh_filter example_merger) = Some (outs, u) \<and>
      set (map (\<lambda>x. seq_of (pushed x)) outs) = {0 ..< 3})"
proof -
  let ?ps = "[plain_packet, plain_packet, plain_packet]" and ?split = "[''s0'' \<mapsto> [''s1'', ''s2'']]"
  have a: "\<forall>p \<in> set ?ps. identified example_identifier ''s0'' p" "si_hasSequenceNumbering example_identifier"
    "si_sequenceNumbers example_identifier ''s0'' = None" "?split ''s0'' = Some [''s1'', ''s2'']"
    "\<forall>path \<in> set [''s1'', ''s2'']. sm_mapping example_merger path = Some ''s''" "''s'' \<noteq> ''''"
    "sm_sequenceNumbers example_merger ''s'' = None" "length ?ps \<le> 65536"
    by (simp_all add: identified_def example_identifier_def plain_packet_def example_merger_def)
  obtain t sent where s: "identify_all example_identifier ?ps = Some (t, sent)"
    "\<And>arr. delivered ?split sent arr \<and> skew_bounded (sm_bufferSize example_merger) (map seq_of arr) \<Longrightarrow>
      \<exists>outs u. pf_push_all merger_matches merger_process no_drop arr (fresh_filter example_merger) = Some (outs, u) \<and>
        set (map (\<lambda>x. seq_of (pushed x)) outs) = {0 ..< int (length ?ps)}"
    using replication_delivers_once[where split = ?split, OF a] by blast
  have d: "delivered ?split sent example_arrivals"
    using s(1) by (auto simp: delivered_def number_on_wire_def split_packet_def identify_packet_def incrementSequenceNumber_def Let_def
        example_identifier_def example_defs)
  moreover have "skew_bounded (sm_bufferSize example_merger) (map seq_of example_arrivals)"
    using example_skew example_numbers by (simp add: example_merger_def)
  ultimately have "\<exists>outs u. pf_push_all merger_matches merger_process no_drop example_arrivals (fresh_filter example_merger) = Some (outs, u) \<and>
      set (map (\<lambda>x. seq_of (pushed x)) outs) = {0 ..< 3}"
    using s(2)[of example_arrivals] by simp
  with s(1) d show ?thesis by blast
qed

lemma streamed_packet_loses_end_witness:
  "\<exists>s1 s2. pf_pushPacketStart merger_matches merger_process no_drop (copy_on ''s1'' 0) (fresh_filter example_merger) =
      Some ([PfStarted ((copy_on ''s1'' 0)\<lparr>tg_streamInd := Some ''s''\<rparr>)], s1) \<and>
    pf_pushPacketEnd merger_matches merger_process no_drop (copy_on ''s1'' 0) s1 = Some ([], s2)"
proof -
  have "member_packet (pf_module (fresh_filter example_merger)) ''s'' (copy_on ''s1'' 0)" "''s'' \<noteq> ''''"
    "pf_inProgressStreamId (fresh_filter example_merger) = -1"
    "sm_bufferSize (pf_module (fresh_filter example_merger)) > 0"
    "matchesSequenceNumber (pf_module (fresh_filter example_merger)) ''s'' (seq_of (copy_on ''s1'' 0))"
    by (simp_all add: example_defs member_packet_def fresh_filter_def matchesSequenceNumber_def)
  from streamed_packet_loses_end[OF this] show ?thesis by blast
qed

lemma stream_tags_survive_witness:
  "\<exists>f r. send_tagged [\<lparr>ee_vlanId = 10, ee_pcp = 5, ee_stream = ''s1''\<rparr>]
      \<lparr>qi_qtagProtocol = P_ieee8021qCTag, qi_tpid = 0x8100, qi_nextProtocol = None, qi_defaultVlanId = -1, qi_defaultPcp = -1,
       qi_defaultUserPriority = -1, qi_defaultDropEligible = -1\<rparr>
      (plain_packet\<lparr>tg_streamReq := Some ''s1'', tg_seqReq := Some 65537\<rparr>) = Some f \<and>
    receive_tagged \<lparr>qc_qtagProtocol = P_ieee8021qCTag, qc_tpid = 0x8100, qc_vlanIdFilter = [10]\<rparr> f = Some r \<and>
    tg_seqInd r = Some 1 \<and> tg_vlanInd r = Some 10"
proof -
  let ?e = "\<lparr>ee_vlanId = 10, ee_pcp = 5, ee_stream = ''s1''\<rparr>"
  let ?ci = "\<lparr>qi_qtagProtocol = P_ieee8021qCTag, qi_tpid = 0x8100, qi_nextProtocol = None, qi_defaultVlanId = -1, qi_defaultPcp = -1,
       qi_defaultUserPriority = -1, qi_defaultDropEligible = -1\<rparr>"
  let ?c = "\<lparr>qc_qtagProtocol = P_ieee8021qCTag, qc_tpid = 0x8100, qc_vlanIdFilter = [10]\<rparr>"
  let ?p = "plain_packet\<lparr>tg_streamReq := Some ''s1'', tg_seqReq := Some 65537\<rparr>"
  have a: "tg_streamReq ?p = Some ''s1''" "filter (\<lambda>e. ee_stream e = ''s1'') [?e] = ?e # []" "tg_seqReq ?p = Some 65537"
    "tg_encapReq ?p = None" "0 \<le> ee_pcp ?e" "ee_pcp ?e < 8" "0 \<le> ee_vlanId ?e" "ee_vlanId ?e < 4096"
    "tg_protocol ?p = Some P_ipv4" "P_ipv4 \<in> snd ` set ethertypeProtocols"
    "qi_qtagProtocol ?ci = P_ieee8021qCTag" "qc_vlanIdFilter ?c = [] \<or> ee_vlanId ?e \<in> set (qc_vlanIdFilter ?c)"
    by (simp_all add: plain_packet_def ethertypeProtocols_def)
  from stream_tags_survive[OF a] show ?thesis by auto
qed

end
