(* ===== verification/Memory_Stream.thy ===== *)
theory Memory_Stream
  imports Mac_Address "HOL-Library.State_Monad"
begin

unbundle bit_operations_syntax

text \<open>
  \<open>MemoryOutputStream\<close> and \<open>MemoryInputStream\<close> (src/inet/src/inet/common/): the byte vectors with a
  length or a position in bits that the serializers write to and read from. A writer is a function on
  streams, a reader a computation in the state monad over the stream.

  The abstraction of a stream is a list of bits: those written so far (\<open>os_bits\<close>), those not yet read
  (\<open>is_rest\<close>). \<open>writes f bs\<close> and \<open>reads m bs x\<close> say that an operation appends or consumes the bits \<open>bs\<close>;
  they compose along the monad, and the header codecs are built from them.
\<close>

section \<open>The output stream\<close>

record ostream =
  os_data :: "8 word list"
  os_length :: nat

definition empty_ostream :: ostream where
  "empty_ostream = \<lparr>os_data = [], os_length = 0\<rparr>"

definition or_byte :: "nat \<Rightarrow> 8 word \<Rightarrow> 8 word list \<Rightarrow> 8 word list" where
  "or_byte k m d = d[k := (d ! k) OR m]"

definition writeBit :: "bool \<Rightarrow> ostream \<Rightarrow> ostream" where
  "writeBit v s =
     (let i = os_length s; byteIndex = i div 8; bitIndex = i mod 8;
          d = (if bitIndex = 0 then os_data s @ [0] else os_data s);
          d = (if v then or_byte byteIndex (push_bit (7 - bitIndex) 1) d else d)
      in \<lparr>os_data = d, os_length = os_length s + 1\<rparr>)"

definition writeBits :: "bool list \<Rightarrow> ostream \<Rightarrow> ostream" where
  "writeBits bs s = fold writeBit bs s"

definition writeBitRepeatedly :: "bool \<Rightarrow> nat \<Rightarrow> ostream \<Rightarrow> ostream" where
  "writeBitRepeatedly v n s = fold (\<lambda>_. writeBit v) [0..<n] s"

text \<open>\<open>0xFF << l2\<close> and \<open>0xFF >> l1\<close> are computed at \<open>int\<close>; the byte takes part in the mask.\<close>

definition writeByte :: "8 word \<Rightarrow> ostream \<Rightarrow> ostream" where
  "writeByte v s =
     (if os_length s mod 8 = 0 then \<lparr>os_data = os_data s @ [v], os_length = os_length s + 8\<rparr>
      else
        (let l1 = os_length s mod 8; l2 = 8 - l1;
             d = or_byte (length (os_data s) - 1) (drop_bit l2 (v AND push_bit l2 0xFF)) (os_data s)
         in \<lparr>os_data = d @ [push_bit l1 (v AND drop_bit l1 0xFF)], os_length = os_length s + 8\<rparr>))"

definition writeByteRepeatedly :: "8 word \<Rightarrow> nat \<Rightarrow> ostream \<Rightarrow> ostream" where
  "writeByteRepeatedly v n s = fold (\<lambda>_. writeByte v) [0..<n] s"

text \<open>Bytes are only written at a byte boundary.\<close>

definition writeBytes :: "8 word list \<Rightarrow> ostream \<Rightarrow> ostream option" where
  "writeBytes bs s =
     (if os_length s mod 8 = 0 then Some \<lparr>os_data = os_data s @ bs, os_length = os_length s + 8 * length bs\<rparr> else None)"

definition writeUint2 :: "8 word \<Rightarrow> ostream \<Rightarrow> ostream" where
  "writeUint2 v s = writeBit (v AND 0x1 \<noteq> 0) (writeBit (v AND 0x2 \<noteq> 0) s)"

definition writeUint4 :: "8 word \<Rightarrow> ostream \<Rightarrow> ostream" where
  "writeUint4 v s = writeBit (v AND 0x1 \<noteq> 0) (writeBit (v AND 0x2 \<noteq> 0)
     (writeBit (v AND 0x4 \<noteq> 0) (writeBit (v AND 0x8 \<noteq> 0) s)))"

definition writeUint8 :: "8 word \<Rightarrow> ostream \<Rightarrow> ostream" where
  "writeUint8 v s = writeByte v s"

definition writeUint16Be :: "16 word \<Rightarrow> ostream \<Rightarrow> ostream" where
  "writeUint16Be v s = writeByte (ucast v) (writeByte (ucast (drop_bit 8 v)) s)"

definition writeUint16Le :: "16 word \<Rightarrow> ostream \<Rightarrow> ostream" where
  "writeUint16Le v s = writeByte (ucast (drop_bit 8 v)) (writeByte (ucast v) s)"

definition writeUint24Be :: "32 word \<Rightarrow> ostream \<Rightarrow> ostream" where
  "writeUint24Be v s = writeByte (ucast v) (writeByte (ucast (drop_bit 8 v)) (writeByte (ucast (drop_bit 16 v)) s))"

definition writeUint24Le :: "32 word \<Rightarrow> ostream \<Rightarrow> ostream" where
  "writeUint24Le v s = writeByte (ucast (drop_bit 16 v)) (writeByte (ucast (drop_bit 8 v)) (writeByte (ucast v) s))"

definition writeUint32Be :: "32 word \<Rightarrow> ostream \<Rightarrow> ostream" where
  "writeUint32Be v s = fold (\<lambda>k. writeByte (ucast (drop_bit k v))) [24, 16, 8, 0] s"

definition writeUint32Le :: "32 word \<Rightarrow> ostream \<Rightarrow> ostream" where
  "writeUint32Le v s = fold (\<lambda>k. writeByte (ucast (drop_bit k v))) [0, 8, 16, 24] s"

definition writeUint48Be :: "64 word \<Rightarrow> ostream \<Rightarrow> ostream" where
  "writeUint48Be v s = fold (\<lambda>k. writeByte (ucast (drop_bit k v))) [40, 32, 24, 16, 8, 0] s"

definition writeUint48Le :: "64 word \<Rightarrow> ostream \<Rightarrow> ostream" where
  "writeUint48Le v s = fold (\<lambda>k. writeByte (ucast (drop_bit k v))) [0, 8, 16, 24, 32, 40] s"

definition writeUint64Be :: "64 word \<Rightarrow> ostream \<Rightarrow> ostream" where
  "writeUint64Be v s = fold (\<lambda>k. writeByte (ucast (drop_bit k v))) [56, 48, 40, 32, 24, 16, 8, 0] s"

definition writeUint64Le :: "64 word \<Rightarrow> ostream \<Rightarrow> ostream" where
  "writeUint64Le v s = fold (\<lambda>k. writeByte (ucast (drop_bit k v))) [0, 8, 16, 24, 32, 40, 48, 56] s"

definition writeMacAddress :: "mac_address \<Rightarrow> ostream \<Rightarrow> ostream" where
  "writeMacAddress a s = fold (\<lambda>i. writeByte (the (getAddressByte a i))) [0..<MAC_ADDRESS_SIZE] s"

section \<open>The input stream\<close>

record istream =
  is_data :: "8 word list"
  is_length :: nat
  is_position :: nat
  is_beyond :: bool

definition open_istream :: "8 word list \<Rightarrow> nat \<Rightarrow> istream" where
  "open_istream d len = \<lparr>is_data = d, is_length = len, is_position = 0, is_beyond = False\<rparr>"

definition stream_bit :: "8 word list \<Rightarrow> nat \<Rightarrow> bool" where
  "stream_bit d k = bit (d ! (k div 8)) (7 - k mod 8)"

definition readBit :: "(istream, bool) state" where
  "readBit = State (\<lambda>s.
     if is_position s = is_length s then (False, s\<lparr>is_beyond := True\<rparr>)
     else (stream_bit (is_data s) (is_position s), s\<lparr>is_position := is_position s + 1\<rparr>))"

definition readByte :: "(istream, 8 word) state" where
  "readByte = State (\<lambda>s.
     if is_position s + 8 > is_length s then (0, s\<lparr>is_beyond := True, is_position := is_length s\<rparr>)
     else
       (let l1 = is_position s mod 8; l2 = 8 - l1;
            result = (if l1 = 0 then is_data s ! (is_position s div 8)
              else push_bit l1 (is_data s ! ((is_position s - l1) div 8))
                OR drop_bit l2 (is_data s ! ((is_position s + l2) div 8)))
        in (result, s\<lparr>is_position := is_position s + 8\<rparr>)))"

definition seek :: "nat \<Rightarrow> (istream, unit) state" where
  "seek p = State (\<lambda>s. ((), s\<lparr>is_position := p\<rparr>))"

text \<open>\<open>readByteRepeatedly\<close> tells whether all the bytes had the expected value.\<close>

fun readByteRepeatedly :: "8 word \<Rightarrow> nat \<Rightarrow> (istream, bool) state" where
  "readByteRepeatedly v 0 = State_Monad.return True"
| "readByteRepeatedly v (Suc n) =
     do { b \<leftarrow> readByte; r \<leftarrow> readByteRepeatedly v n; State_Monad.return (v = b \<and> r) }"

definition readUint2 :: "(istream, 8 word) state" where
  "readUint2 = do { a \<leftarrow> readBit; b \<leftarrow> readBit;
     State_Monad.return ((if a then 0x2 else 0) OR (if b then 0x1 else 0)) }"

definition readUint4 :: "(istream, 8 word) state" where
  "readUint4 = do { a \<leftarrow> readBit; b \<leftarrow> readBit; c \<leftarrow> readBit; d \<leftarrow> readBit;
     State_Monad.return ((if a then 0x8 else 0) OR (if b then 0x4 else 0) OR (if c then 0x2 else 0)
       OR (if d then 0x1 else 0)) }"

definition readUint8 :: "(istream, 8 word) state" where
  "readUint8 = readByte"

text \<open>\<open>value |= readByte() << shift\<close> for each shift in turn.\<close>

fun read_bytes_into :: "nat list \<Rightarrow> 'w word \<Rightarrow> (istream, 'w::len word) state" where
  "read_bytes_into [] v = State_Monad.return v"
| "read_bytes_into (k # ks) v = do { b \<leftarrow> readByte; read_bytes_into ks (v OR push_bit k (ucast b)) }"

definition readUint16Be :: "(istream, 16 word) state" where
  "readUint16Be = read_bytes_into [8, 0] 0"

definition readUint16Le :: "(istream, 16 word) state" where
  "readUint16Le = read_bytes_into [0, 8] 0"

definition readUint24Be :: "(istream, 32 word) state" where
  "readUint24Be = read_bytes_into [16, 8, 0] 0"

definition readUint24Le :: "(istream, 32 word) state" where
  "readUint24Le = read_bytes_into [0, 8, 16] 0"

definition readUint32Be :: "(istream, 32 word) state" where
  "readUint32Be = read_bytes_into [24, 16, 8, 0] 0"

definition readUint32Le :: "(istream, 32 word) state" where
  "readUint32Le = read_bytes_into [0, 8, 16, 24] 0"

definition readUint48Be :: "(istream, 64 word) state" where
  "readUint48Be = read_bytes_into [40, 32, 24, 16, 8, 0] 0"

definition readUint48Le :: "(istream, 64 word) state" where
  "readUint48Le = read_bytes_into [0, 8, 16, 24, 32, 40] 0"

definition readUint64Be :: "(istream, 64 word) state" where
  "readUint64Be = read_bytes_into [56, 48, 40, 32, 24, 16, 8, 0] 0"

definition readUint64Le :: "(istream, 64 word) state" where
  "readUint64Le = read_bytes_into [0, 8, 16, 24, 32, 40, 48, 56] 0"

fun read_address_bytes :: "nat list \<Rightarrow> mac_address \<Rightarrow> (istream, mac_address) state" where
  "read_address_bytes [] a = State_Monad.return a"
| "read_address_bytes (k # ks) a = do { b \<leftarrow> readByte; read_address_bytes ks (set_byte k b a) }"

definition readMacAddress :: "(istream, mac_address) state" where
  "readMacAddress = read_address_bytes [0..<MAC_ADDRESS_SIZE] UNSPECIFIED_ADDRESS"

text \<open>
  \<open>readNBitsToUint64Be\<close>: \<open>1 << (n - 1)\<close> is an \<open>int\<close>, shifted at 32 bits and then extended with its sign;
  a shift by 32 or more is undefined and not modelled (\<open>None\<close>, like the exception of the guard).
\<close>

fun read_n_bits :: "nat \<Rightarrow> 64 word \<Rightarrow> 64 word \<Rightarrow> (istream, 64 word) state" where
  "read_n_bits 0 mul num = State_Monad.return num"
| "read_n_bits (Suc n) mul num =
     do { b \<leftarrow> readBit; read_n_bits n (drop_bit 1 mul) (if b then num OR mul else num) }"

definition readNBitsToUint64Be :: "nat \<Rightarrow> (istream, 64 word) state option" where
  "readNBitsToUint64Be n =
     (if n = 0 \<or> n > 32 then None
      else Some (read_n_bits n (scast (push_bit (n - 1) (1 :: 32 word))) 0))"

section \<open>Streams as lists of bits\<close>

definition stream_bits :: "8 word list \<Rightarrow> nat \<Rightarrow> nat \<Rightarrow> bool list" where
  "stream_bits d a b = map (stream_bit d) [a..<b]"

definition os_bits :: "ostream \<Rightarrow> bool list" where
  "os_bits s = stream_bits (os_data s) 0 (os_length s)"

text \<open>There is just room for the bits, and the free bits of the last byte are clear.\<close>

definition os_wf :: "ostream \<Rightarrow> bool" where
  "os_wf s \<longleftrightarrow> length (os_data s) = (os_length s + 7) div 8 \<and>
     (\<forall>k. os_length s \<le> k \<longrightarrow> k < 8 * length (os_data s) \<longrightarrow> \<not> stream_bit (os_data s) k)"

definition word_bits :: "nat \<Rightarrow> 'a::len word \<Rightarrow> bool list" where
  "word_bits n w = map (\<lambda>j. bit w (n - Suc j)) [0..<n]"

abbreviation byte_bits :: "8 word \<Rightarrow> bool list" where
  "byte_bits \<equiv> word_bits 8"

definition is_rest :: "istream \<Rightarrow> bool list" where
  "is_rest s = stream_bits (is_data s) (is_position s) (is_length s)"

lemma length_stream_bits [simp]: "length (stream_bits d a b) = b - a"
  by (simp add: stream_bits_def)

lemma length_word_bits [simp]: "length (word_bits n w) = n"
  by (simp add: word_bits_def)

lemma nth_stream_bits [simp]: "j < b - a \<Longrightarrow> stream_bits d a b ! j = stream_bit d (a + j)"
  by (simp add: stream_bits_def)

lemma nth_word_bits [simp]: "j < n \<Longrightarrow> word_bits n w ! j = bit w (n - Suc j)"
  by (simp add: word_bits_def)

lemma stream_bits_append:
  "a \<le> b \<Longrightarrow> b \<le> c \<Longrightarrow> stream_bits d a b @ stream_bits d b c = stream_bits d a c"
  by (rule nth_equalityI) (auto simp: nth_append add.commute)

lemma os_wf_empty [simp]: "os_wf empty_ostream" "os_bits empty_ostream = []" "os_length empty_ostream = 0"
  by (simp_all add: os_wf_def os_bits_def empty_ostream_def stream_bits_def)

lemma length_os_bits [simp]: "length (os_bits s) = os_length s"
  by (simp add: os_bits_def)

lemma stream_bit_append1:
  "k < 8 * length d \<Longrightarrow> stream_bit (d @ [b]) k = stream_bit d k"
  by (simp add: stream_bit_def nth_append less_mult_imp_div_less mult.commute)

lemma stream_bit_append2:
  "j < 8 \<Longrightarrow> stream_bit (d @ [b]) (8 * length d + j) = bit b (7 - j)"
  by (simp add: stream_bit_def nth_append)

lemma stream_bit_or_byte:
  "i < length d \<Longrightarrow> stream_bit (or_byte i m d) k \<longleftrightarrow> stream_bit d k \<or> k div 8 = i \<and> bit m (7 - k mod 8)"
  by (auto simp: or_byte_def stream_bit_def nth_list_update bit_simps)

lemma length_or_byte [simp]: "length (or_byte i m d) = length d"
  by (simp add: or_byte_def)

text \<open>To append, it is enough to say what every bit of the new vector is.\<close>

lemma os_append:
  assumes "os_wf s" "os_length t = os_length s + length bs" "length (os_data t) = (os_length t + 7) div 8"
    and bits: "\<And>k. k < 8 * length (os_data t) \<Longrightarrow> stream_bit (os_data t) k \<longleftrightarrow>
      (if k < os_length s then stream_bit (os_data s) k else k < os_length t \<and> bs ! (k - os_length s))"
  shows "os_wf t \<and> os_bits t = os_bits s @ bs"
proof -
  have len: "os_length t \<le> 8 * length (os_data t)" using assms(3) by simp
  have "os_bits t = os_bits s @ bs"
    by (rule nth_equalityI) (use len bits assms(2) in \<open>auto simp: os_bits_def nth_append\<close>)
  moreover have "os_wf t" using assms(2,3) bits by (auto simp: os_wf_def)
  ultimately show ?thesis by simp
qed

lemma div8_eq: "k < 8 * Suc n \<Longrightarrow> \<not> k < 8 * n \<Longrightarrow> k div 8 = n" for k n :: nat
  by (simp add: div_nat_eqI)

lemma writeBit_ok:
  assumes "os_wf s" shows "os_wf (writeBit v s) \<and> os_bits (writeBit v s) = os_bits s @ [v]"
proof (rule os_append[OF assms])
  let ?n = "os_length s" and ?d = "os_data s"
  define e where "e = (if ?n mod 8 = 0 then ?d @ [0] else ?d)"
  have ld: "length ?d = (?n + 7) div 8" using assms by (simp add: os_wf_def)
  have le: "length e = Suc (?n div 8)" unfolding e_def using ld by (auto; presburger)
  have d: "os_data (writeBit v s) = (if v then or_byte (?n div 8) (push_bit (7 - ?n mod 8) 1) e else e)"
    by (simp add: writeBit_def Let_def e_def)
  show "os_length (writeBit v s) = ?n + length [v]" by (simp add: writeBit_def Let_def)
  show "length (os_data (writeBit v s)) = (os_length (writeBit v s) + 7) div 8"
    using le by (simp add: d) (simp add: writeBit_def Let_def)
  fix k assume "k < 8 * length (os_data (writeBit v s))"
  then have k: "k < 8 * length e" by (simp add: d split: if_splits)
  have old: "stream_bit e k \<longleftrightarrow> k < ?n \<and> stream_bit ?d k"
  proof (cases "k < 8 * length ?d")
    case True
    then have "stream_bit e k = stream_bit ?d k" by (simp add: e_def stream_bit_append1)
    moreover have "\<not> k < ?n \<Longrightarrow> \<not> stream_bit ?d k" using assms True by (simp add: os_wf_def)
    ultimately show ?thesis by blast
  next
    case False
    then have "?n mod 8 = 0" using k by (simp add: e_def split: if_splits)
    moreover have "k div 8 = length ?d" using k False by (simp add: e_def div8_eq split: if_splits)
    ultimately have "stream_bit e k = False" by (simp add: e_def stream_bit_def)
    moreover have "\<not> k < ?n" using False ld by presburger
    ultimately show ?thesis by simp
  qed
  have new: "k div 8 = ?n div 8 \<and> bit (push_bit (7 - ?n mod 8) 1 :: 8 word) (7 - k mod 8) \<longleftrightarrow> k = ?n"
  proof -
    have "7 - ?n mod 8 = 7 - k mod 8 \<longleftrightarrow> ?n mod 8 = k mod 8"
      using pos_mod_bound[of 8 "int k"] mod_less_divisor[of 8 ?n] mod_less_divisor[of 8 k] by linarith
    moreover have "k = ?n \<longleftrightarrow> k div 8 = ?n div 8 \<and> k mod 8 = ?n mod 8" by (metis div_mult_mod_eq)
    ultimately show ?thesis by (auto simp: bit_simps)
  qed
  have "stream_bit (os_data (writeBit v s)) k \<longleftrightarrow> stream_bit e k \<or> v \<and> k = ?n"
    unfolding d using stream_bit_or_byte[of "?n div 8" e "push_bit (7 - ?n mod 8) 1" k] le new by simp
  then show "stream_bit (os_data (writeBit v s)) k \<longleftrightarrow>
      (if k < ?n then stream_bit ?d k else k < os_length (writeBit v s) \<and> [v] ! (k - ?n))"
    using old by (auto simp: writeBit_def Let_def)
qed

text \<open>A byte is written as eight bits at offsets 0 and 4 within the bytes of the stream.\<close>

lemma writeByte_aligned:
  assumes "os_wf s" "os_length s mod 8 = 0"
  shows "os_wf (writeByte v s) \<and> os_bits (writeByte v s) = os_bits s @ byte_bits v"
proof (rule os_append[OF assms(1)])
  have n: "os_length s = 8 * length (os_data s)" using assms by (auto simp: os_wf_def)
  have t: "os_data (writeByte v s) = os_data s @ [v]" "os_length (writeByte v s) = os_length s + 8"
    using assms(2) by (simp_all add: writeByte_def)
  show "os_length (writeByte v s) = os_length s + length (byte_bits v)" by (simp add: t)
  show "length (os_data (writeByte v s)) = (os_length (writeByte v s) + 7) div 8" by (simp add: t n)
  fix k assume k: "k < 8 * length (os_data (writeByte v s))"
  show "stream_bit (os_data (writeByte v s)) k \<longleftrightarrow> (if k < os_length s then stream_bit (os_data s) k
      else k < os_length (writeByte v s) \<and> byte_bits v ! (k - os_length s))"
  proof (cases "k < os_length s")
    case True then show ?thesis using n by (simp add: t stream_bit_append1)
  next
    case False
    define j where "j = k - os_length s"
    then have "k = 8 * length (os_data s) + j" "j < 8" using n k False by (auto simp: t)
    then show ?thesis using n by (simp add: t stream_bit_append2)
  qed
qed

lemma byte_masks:
  "drop_bit l2 (v AND push_bit l2 0xFF) = drop_bit l2 v" "push_bit l1 (v AND drop_bit l1 0xFF) = push_bit l1 v"
  for v :: "8 word"
proof -
  have f: "(0xFF :: 8 word) = - 1" by simp
  show "drop_bit l2 (v AND push_bit l2 0xFF) = drop_bit l2 v" "push_bit l1 (v AND drop_bit l1 0xFF) = push_bit l1 v"
    unfolding f by (rule bit_word_eqI, auto simp: bit_simps dest: bit_imp_le_length)+
qed

lemma writeByte_alt:
  "writeByte v s =
     (if os_length s mod 8 = 0 then \<lparr>os_data = os_data s @ [v], os_length = os_length s + 8\<rparr>
      else \<lparr>os_data = or_byte (length (os_data s) - 1) (drop_bit (8 - os_length s mod 8) v) (os_data s)
          @ [push_bit (os_length s mod 8) v], os_length = os_length s + 8\<rparr>)"
  by (simp only: writeByte_def Let_def byte_masks)

lemma writeByte_stream_bit:
  assumes "os_wf s" "os_length s mod 8 \<noteq> 0" "k < 8 * Suc (length (os_data s))"
  shows "stream_bit (os_data (writeByte v s)) k \<longleftrightarrow>
    (let l1 = os_length s mod 8; l2 = 8 - l1 in
     if k < 8 * length (os_data s)
     then stream_bit (os_data s) k \<or>
       k div 8 = length (os_data s) - 1 \<and> bit (drop_bit l2 v) (7 - k mod 8)
     else bit (push_bit l1 v) (7 - k mod 8))"
proof -
  have ne: "length (os_data s) - 1 < length (os_data s)"
    using assms(1,2) by (cases "os_data s") (auto simp: os_wf_def)
  show ?thesis
  proof (cases "k < 8 * length (os_data s)")
    case True
    then show ?thesis using assms(2) ne
      by (simp add: writeByte_alt Let_def stream_bit_append1 stream_bit_or_byte)
  next
    case False
    define j where "j = k - 8 * length (os_data s)"
    have j: "k = 8 * length (os_data s) + j" "j < 8" using False assms(3) by (auto simp: j_def)
    have "stream_bit (d @ [b]) (8 * length (os_data s) + j) = bit b (7 - j)" if "length d = length (os_data s)" for d b
      using stream_bit_append2[OF j(2), of d b] that by simp
    then show ?thesis using assms(2) j by (simp add: writeByte_alt Let_def)
  qed
qed

lemma writeByte_half:
  assumes "os_wf s" "os_length s mod 8 = 4"
  shows "os_wf (writeByte v s) \<and> os_bits (writeByte v s) = os_bits s @ byte_bits v"
proof (rule os_append[OF assms(1)])
  define m where "m = os_length s div 8"
  have n: "os_length s = 8 * m + 4" using assms(2) unfolding m_def by presburger
  then have ld: "length (os_data s) = Suc m" using assms(1) by (simp add: os_wf_def)
  have ne: "os_length s mod 8 \<noteq> 0" using assms(2) by simp
  have t: "length (os_data (writeByte v s)) = Suc (Suc m)" "os_length (writeByte v s) = os_length s + 8"
    using assms(2) ld by (simp_all add: writeByte_def Let_def)
  show "os_length (writeByte v s) = os_length s + length (byte_bits v)" by (simp add: t)
  show "length (os_data (writeByte v s)) = (os_length (writeByte v s) + 7) div 8" by (simp add: t n)
  fix k assume k: "k < 8 * length (os_data (writeByte v s))"
  define i where "i = k mod 8"
  have ki: "k = 8 * (k div 8) + i" "i < 8" by (simp_all add: i_def)
  have free: "\<not> stream_bit (os_data s) k" if "\<not> k < os_length s" "k < 8 * Suc m"
    using assms(1) that ld by (simp add: os_wf_def)
  note sb = writeByte_stream_bit[OF assms(1) ne, of k v, unfolded assms(2) Let_def ld]
  consider "k < 8 * m" | "k div 8 = m" | "k div 8 = Suc m"
    using k t(1) by (cases "k < 8 * m"; cases "k < 8 * Suc m") (auto intro: div_nat_eqI)
  then show "stream_bit (os_data (writeByte v s)) k \<longleftrightarrow> (if k < os_length s then stream_bit (os_data s) k
      else k < os_length (writeByte v s) \<and> byte_bits v ! (k - os_length s))"
  proof cases
    case 1
    then have "k div 8 \<noteq> m" by (simp add: less_mult_imp_div_less mult.commute order_less_imp_not_eq)
    then show ?thesis using 1 sb n by simp
  next
    case 2
    then have kk: "k = 8 * m + i" using ki by simp
    have "stream_bit (os_data (writeByte v s)) k \<longleftrightarrow> stream_bit (os_data s) k \<or> 4 \<le> i \<and> bit v (11 - i)"
      using sb kk ki(2) 2 unfolding i_def[symmetric] by (auto simp: bit_simps dest: bit_imp_le_length)
    then show ?thesis using kk n free ki(2) t(2) by (auto simp: word_bits_def)
  next
    case 3
    then have kk: "k = 8 * Suc m + i" using ki by simp
    have "stream_bit (os_data (writeByte v s)) k \<longleftrightarrow> i < 4 \<and> bit v (3 - i)"
      using sb kk ki(2) unfolding i_def[symmetric] by (auto simp: bit_simps)
    then show ?thesis using kk n t(2) by (auto simp: word_bits_def)
  qed
qed

text \<open>At every other offset the two parts of the byte have each other's sizes: the first free bit is not
  the top bit of the byte.\<close>

lemma writeByte_splits:
  assumes "os_wf s" "os_length s mod 4 \<noteq> 0"
  shows "os_bits (writeByte 0x80 s) \<noteq> os_bits s @ byte_bits 0x80"
proof
  assume eq: "os_bits (writeByte 0x80 s) = os_bits s @ byte_bits 0x80"
  define l1 where "l1 = os_length s mod 8"
  have l1: "l1 < 8" "l1 \<noteq> 0" "l1 \<noteq> 4" using assms(2) unfolding l1_def by presburger+
  define m where "m = os_length s div 8"
  have n: "os_length s = 8 * m + l1" unfolding m_def l1_def by simp
  have "(8 * m + l1 + 7) div 8 = Suc m" using l1 by (intro div_nat_eqI) auto
  then have ld: "length (os_data s) = Suc m" using assms(1) n by (simp add: os_wf_def)
  have free: "\<not> stream_bit (os_data s) (os_length s)" using assms(1) n l1(1) ld by (simp add: os_wf_def)
  have m7: "os_length s mod 8 = l1" "os_length s div 8 = m" by (simp_all add: l1_def m_def)
  have b80: "bit (0x80 :: 8 word) j \<longleftrightarrow> j = 7" for j
  proof -
    have "(0x80 :: 8 word) = 2 ^ 7" by simp
    then have "bit (0x80 :: 8 word) j \<longleftrightarrow> bit (2 ^ 7 :: 8 word) j" by simp
    then show ?thesis by (simp only: bit_exp_iff possible_bit_def) auto
  qed
  have "stream_bit (os_data (writeByte 0x80 s)) (os_length s) \<longleftrightarrow> bit (0x80 :: 8 word) (8 - l1 + (7 - l1))"
    using writeByte_stream_bit[OF assms(1), of "os_length s" "0x80"] free l1 n ld
    by (simp add: m7 Let_def bit_drop_bit_eq)
  then have "\<not> stream_bit (os_data (writeByte 0x80 s)) (os_length s)" using l1 b80 by simp
  moreover have "os_length (writeByte 0x80 s) = os_length s + 8" by (simp add: writeByte_alt)
  ultimately have "\<not> os_bits (writeByte 0x80 s) ! os_length s" by (simp add: os_bits_def)
  then have "\<not> (os_bits s @ byte_bits 0x80) ! os_length s" unfolding eq .
  then show False by (simp add: nth_append b80)
qed

lemma writeByte_ok:
  assumes "os_wf s" "4 dvd os_length s"
  shows "os_wf (writeByte v s) \<and> os_bits (writeByte v s) = os_bits s @ byte_bits v"
proof -
  have "os_length s mod 8 = 0 \<or> os_length s mod 8 = 4" using assms(2) by presburger
  then show ?thesis by (elim disjE) (rule writeByte_aligned[OF assms(1)] writeByte_half[OF assms(1)], assumption)+
qed

section \<open>Writers\<close>

definition writes :: "(ostream \<Rightarrow> ostream) \<Rightarrow> bool list \<Rightarrow> bool" where
  "writes f bs \<longleftrightarrow> 4 dvd length bs \<and>
     (\<forall>s. os_wf s \<longrightarrow> 4 dvd os_length s \<longrightarrow> os_wf (f s) \<and> os_bits (f s) = os_bits s @ bs)"

lemma writesI:
  assumes "4 dvd length bs" "\<And>s. os_wf s \<Longrightarrow> 4 dvd os_length s \<Longrightarrow> os_wf (f s) \<and> os_bits (f s) = os_bits s @ bs"
  shows "writes f bs"
  using assms by (simp add: writes_def)

lemma writes_length: "writes f bs \<Longrightarrow> os_wf s \<Longrightarrow> 4 dvd os_length s \<Longrightarrow> os_length (f s) = os_length s + length bs"
  using length_os_bits[of "f s"] by (simp add: writes_def)

lemma writes_id [intro]: "writes (\<lambda>s. s) []"
  by (simp add: writes_def)

lemma writes_comp:
  assumes "writes f bs" "writes g cs" shows "writes (\<lambda>s. g (f s)) (bs @ cs)"
proof (rule writesI)
  show "4 dvd length (bs @ cs)" using assms by (simp add: writes_def)
  fix s assume s: "os_wf s" "4 dvd os_length s"
  moreover have "4 dvd os_length (f s)" using writes_length[OF assms(1) s] s(2) assms(1) by (simp add: writes_def)
  ultimately show "os_wf (g (f s)) \<and> os_bits (g (f s)) = os_bits s @ bs @ cs" using assms by (simp add: writes_def)
qed

lemma writes_fold:
  assumes "\<And>x. x \<in> set xs \<Longrightarrow> writes (f x) (g x)"
  shows "writes (fold f xs) (concat (map g xs))"
  using assms
proof (induction xs)
  case Nil then show ?case using writes_id by (simp add: id_def)
next
  case (Cons x xs)
  then have "writes (\<lambda>s. fold f xs (f x s)) (g x @ concat (map g xs))" by (intro writes_comp) auto
  then show ?case by (simp add: comp_def)
qed

lemma writes_byte: "writes (writeByte v) (byte_bits v)"
  by (rule writesI) (use writeByte_ok in auto)

lemma writes_Uint8: "writes (writeUint8 v) (byte_bits v)"
  using writes_byte by (simp add: writeUint8_def[abs_def])

lemma bit_and_literal: "v AND push_bit n 1 \<noteq> 0 \<longleftrightarrow> bit v n" for v :: "8 word"
  by (simp add: and_exp_eq_0_iff_not_bit push_bit_eq_mult)

lemma and_bits: "v AND 0x1 \<noteq> 0 \<longleftrightarrow> bit v 0" "v AND 0x2 \<noteq> 0 \<longleftrightarrow> bit v 1" "v AND 0x4 \<noteq> 0 \<longleftrightarrow> bit v 2" "v AND 0x8 \<noteq> 0 \<longleftrightarrow> bit v 3"
  for v :: "8 word"
  using bit_and_literal[of v 0] bit_and_literal[of v 1] bit_and_literal[of v 2] bit_and_literal[of v 3] by simp_all

lemma writes_Uint4: "writes (writeUint4 v) (word_bits 4 v)"
proof (rule writesI)
  fix s assume "os_wf s"
  then have "os_wf (writeUint4 v s) \<and> os_bits (writeUint4 v s) = os_bits s @ [bit v 3, bit v 2, bit v 1, bit v 0]"
    by (simp add: writeUint4_def and_bits writeBit_ok del: One_nat_def)
  then show "os_wf (writeUint4 v s) \<and> os_bits (writeUint4 v s) = os_bits s @ word_bits 4 v"
    by (simp add: word_bits_def upt_rec numeral_eq_Suc)
qed simp

text \<open>The big-endian writers: a word of \<open>n\<close> bits, \<open>n\<close> a multiple of eight, is its bits from the top.\<close>

lemma word_bits_split: "word_bits (8 + k) w = byte_bits (ucast (drop_bit k w)) @ word_bits k w"
  for w :: "'a::len word"
proof (rule nth_equalityI)
  fix i assume i: "i < length (word_bits (8 + k) w)"
  show "word_bits (8 + k) w ! i = (byte_bits (ucast (drop_bit k w)) @ word_bits k w) ! i"
  proof (cases "i < 8")
    case True
    then have e: "8 + k - Suc i = k + (8 - Suc i)" by simp
    show ?thesis using True by (simp only: nth_append length_word_bits nth_word_bits trans_less_add1 e) (auto simp: bit_simps)
  next
    case False
    with i have "8 + k - Suc i = k - Suc (i - 8)" "i - 8 < k" by auto
    with False i show ?thesis by (simp add: nth_append)
  qed
qed simp

lemma word_bits_0 [simp]: "word_bits 0 w = []"
  by (simp add: word_bits_def)

lemma word_bits_last: "word_bits 8 w = byte_bits (ucast w)" for w :: "'a::len word"
  using word_bits_split[of 0 w] by simp

lemmas word_bits_bytes = word_bits_split[of 8, simplified] word_bits_split[of 16, simplified] word_bits_split[of 24, simplified]
  word_bits_split[of 32, simplified] word_bits_split[of 40, simplified] word_bits_split[of 48, simplified]
  word_bits_split[of 56, simplified] word_bits_last[where 'a = 16] word_bits_last[where 'a = 32] word_bits_last[where 'a = 64]

lemma writes_bytes: "writes (fold (\<lambda>k. writeByte (ucast (drop_bit k v))) ks) (concat (map (\<lambda>k. byte_bits (ucast (drop_bit k v))) ks))"
  by (rule writes_fold) (rule writes_byte)

lemma writes_Uint16Be: "writes (writeUint16Be v) (word_bits 16 v)"
  using writes_comp[OF writes_byte[of "ucast (drop_bit 8 v)"] writes_byte[of "ucast v"]]
  by (simp add: writeUint16Be_def[abs_def] word_bits_bytes)

lemma writes_Uint24Be: "writes (writeUint24Be v) (word_bits 24 v)"
  using writes_comp[OF writes_comp[OF writes_byte[of "ucast (drop_bit 16 v)"] writes_byte[of "ucast (drop_bit 8 v)"]] writes_byte[of "ucast v"]]
  by (simp add: writeUint24Be_def[abs_def] word_bits_bytes)

lemma writes_Uint32Be: "writes (writeUint32Be v) (word_bits 32 v)"
  using writes_bytes[of v "[24, 16, 8, 0]"] by (simp add: writeUint32Be_def[abs_def] word_bits_bytes comp_def)

lemma writes_Uint48Be: "writes (writeUint48Be v) (word_bits 48 v)"
  using writes_bytes[of v "[40, 32, 24, 16, 8, 0]"] by (simp add: writeUint48Be_def[abs_def] word_bits_bytes comp_def)

lemma writes_Uint64Be: "writes (writeUint64Be v) (word_bits 64 v)"
  using writes_bytes[of v "[56, 48, 40, 32, 24, 16, 8, 0]"] by (simp add: writeUint64Be_def[abs_def] word_bits_bytes comp_def)

definition mac_bits :: "mac_address \<Rightarrow> bool list" where
  "mac_bits a = concat (map (\<lambda>i. byte_bits (the (getAddressByte a i))) [0..<MAC_ADDRESS_SIZE])"

lemma writes_MacAddress: "writes (writeMacAddress a) (mac_bits a)"
  unfolding writeMacAddress_def[abs_def] mac_bits_def by (rule writes_fold) (rule writes_byte)

lemma writes_byteRepeatedly: "writes (writeByteRepeatedly v n) (concat (replicate n (byte_bits v)))"
  using writes_fold[of "[0..<n]" "\<lambda>_. writeByte v" "\<lambda>_. byte_bits v"] writes_byte
  by (simp add: writeByteRepeatedly_def[abs_def] map_replicate_const)

lemmas writes_rules = writes_Uint8 writes_Uint4 writes_Uint16Be writes_Uint24Be writes_Uint32Be writes_Uint48Be
  writes_Uint64Be writes_MacAddress writes_byteRepeatedly

section \<open>Readers\<close>

definition is_wf :: "istream \<Rightarrow> bool" where
  "is_wf s \<longleftrightarrow> is_position s \<le> is_length s \<and> is_length s \<le> 8 * length (is_data s)"

definition advance :: "nat \<Rightarrow> istream \<Rightarrow> istream" where
  "advance n s = s\<lparr>is_position := is_position s + n\<rparr>"

definition reads :: "(istream, 'a) state \<Rightarrow> bool list \<Rightarrow> 'a \<Rightarrow> bool" where
  "reads m bs x \<longleftrightarrow> (\<forall>s r. is_wf s \<longrightarrow> is_rest s = bs @ r \<longrightarrow> run_state m s = (x, advance (length bs) s))"

lemma length_is_rest [simp]: "length (is_rest s) = is_length s - is_position s"
  by (simp add: is_rest_def)

lemma advance_0 [simp]: "advance 0 s = s"
  by (simp add: advance_def)

lemma advance_add [simp]: "advance a (advance b s) = advance (b + a) s"
  by (simp add: advance_def)

lemma advance_ok:
  assumes "is_wf s" "is_rest s = bs @ r"
  shows "is_wf (advance (length bs) s)" "is_rest (advance (length bs) s) = r"
proof -
  have "length (is_rest s) = length bs + length r" using assms(2) by simp
  then have l: "is_length s - is_position s = length bs + length r" by simp
  then show "is_wf (advance (length bs) s)" using assms(1) by (auto simp: is_wf_def advance_def)
  have p: "is_position s + length bs \<le> is_length s" using l assms(1) unfolding is_wf_def by linarith
  have "stream_bits (is_data s) (is_position s) (is_position s + length bs) @ is_rest (advance (length bs) s) = bs @ r"
    using stream_bits_append[of "is_position s" "is_position s + length bs" "is_length s" "is_data s"] p assms(2)
    by (simp add: is_rest_def advance_def)
  then show "is_rest (advance (length bs) s) = r" by (simp add: append_eq_append_conv)
qed

lemma reads_return [intro]: "reads (State_Monad.return x) [] x"
  by (simp add: reads_def State_Monad.return_def)

lemma reads_bind:
  assumes "reads m bs x" "reads (f x) cs y" shows "reads (State_Monad.bind m f) (bs @ cs) y"
proof -
  have "run_state (State_Monad.bind m f) s = (y, advance (length (bs @ cs)) s)"
    if "is_wf s" "is_rest s = (bs @ cs) @ r" for s r
  proof -
    have r1: "is_rest s = bs @ (cs @ r)" using that(2) by simp
    have "run_state m s = (x, advance (length bs) s)" using assms(1) that(1) r1 by (simp add: reads_def)
    moreover have "run_state (f x) (advance (length bs) s) = (y, advance (length cs) (advance (length bs) s))"
      using assms(2) advance_ok[OF that(1) r1] by (simp add: reads_def)
    ultimately show ?thesis by (simp add: State_Monad.bind_def)
  qed
  then show ?thesis by (simp add: reads_def)
qed

lemma reads_bind_return: "reads m bs x \<Longrightarrow> reads (State_Monad.bind m (\<lambda>x. State_Monad.return (f x))) bs (f x)"
  using reads_bind[where m = m and bs = bs and x = x and cs = "[]" and f = "\<lambda>x. State_Monad.return (f x)" and y = "f x"]
  by (simp add: reads_return)

lemma reads_bit: "reads readBit [b] b"
proof -
  have "run_state readBit s = (b, advance 1 s)" if "is_wf s" "is_rest s = b # r" for s r
  proof -
    have "length (is_rest s) = Suc (length r)" using that(2) by simp
    then have p: "is_position s < is_length s" by simp
    have "is_rest s ! 0 = b" using that(2) by simp
    then have "stream_bit (is_data s) (is_position s) = b" using p by (simp add: is_rest_def)
    with p show ?thesis by (simp add: readBit_def advance_def)
  qed
  then show ?thesis by (simp add: reads_def)
qed

text \<open>A byte is read across the bytes of the vector at any offset.\<close>

lemma reads_byte: "reads readByte (byte_bits v) v"
proof -
  have "run_state readByte s = (v, advance 8 s)" if wf: "is_wf s" and r: "is_rest s = byte_bits v @ r" for s r
  proof -
    have "length (is_rest s) = 8 + length r" using r by simp
    then have p: "is_position s + 8 \<le> is_length s" by simp
    define q where "q = is_position s div 8"
    define l where "l = is_position s mod 8"
    have ql: "is_position s = 8 * q + l" "l < 8" by (simp_all add: q_def l_def)
    have sb: "stream_bit (is_data s) (is_position s + (7 - n)) = bit v n" if "n < 8" for n
    proof -
      have l: "7 - n < 8" "8 - Suc (7 - n) = n" using that by linarith+
      then have "is_rest s ! (7 - n) = bit v n" using r nth_word_bits[OF l(1), of v] by (simp only: nth_append length_word_bits if_True)
      moreover have "7 - n < is_length s - is_position s" using l p by linarith
      ultimately show ?thesis by (simp add: is_rest_def)
    qed
    have low: "bit v n = bit (is_data s ! q) (n - l)" if "n < 8" "l \<le> n" for n
    proof -
      define j where "j = l + (7 - n)"
      have "j < 8" "7 - j = n - l" using that unfolding j_def by linarith+
      then have "(8 * q + (l + (7 - n))) div 8 = q" "(8 * q + (l + (7 - n))) mod 8 = j" "7 - j = n - l"
        unfolding j_def[symmetric] by auto
      with sb[OF that(1)] show ?thesis by (simp add: stream_bit_def ql(1) add.assoc)
    qed
    have high: "bit v n = bit (is_data s ! Suc q) (8 - l + n)" if "n < l" for n
    proof -
      define j where "j = l - n - 1"
      have j: "j < 8" "7 - j = 8 - l + n" "l + (7 - n) = 8 + j" using that ql(2) unfolding j_def by linarith+
      then have e: "8 * q + (l + (7 - n)) = 8 * Suc q + j" by simp
      have "(8 * Suc q + j) div 8 = Suc q" using j(1) by (auto intro: div_nat_eqI)
      moreover have "(8 * Suc q + j) mod 8 = j" using j(1) by (simp only: mod_mult_self4 mod_less)
      moreover note j(2)
      moreover have "n < 8" using that ql(2) by linarith
      ultimately show ?thesis using sb[of n] by (simp only: stream_bit_def ql(1) add.assoc e)
    qed
    have "(if l = 0 then is_data s ! q else push_bit l (is_data s ! q) OR drop_bit (8 - l) (is_data s ! Suc q)) = v"
    proof (rule bit_word_eqI)
      fix n assume "n < LENGTH(8)"
      then have n: "n < 8" by simp
      then show "bit (if l = 0 then is_data s ! q else push_bit l (is_data s ! q) OR drop_bit (8 - l) (is_data s ! Suc q)) n = bit v n"
        using low[of n] high[of n] ql(2) by (cases "l \<le> n") (auto simp: bit_simps dest: bit_imp_le_length)
    qed
    moreover have "is_position s - l = 8 * q" "(is_position s + (8 - l)) div 8 = Suc q" using ql by auto
    ultimately show ?thesis using p
      by (cases "l = 0") (simp_all add: readByte_def Let_def advance_def l_def[symmetric] q_def[symmetric] not_less)
  qed
  then show ?thesis by (simp add: reads_def)
qed

lemma reads_Uint8: "reads readUint8 (byte_bits v) v"
  using reads_byte by (simp add: readUint8_def)

lemma reads_Uint4: "v < 16 \<Longrightarrow> reads readUint4 (word_bits 4 v) v"
proof -
  assume v: "v < 16"
  have "take_bit 4 v = v" using v by (simp add: take_bit_eq_mod mod_word_less)
  then have top: "\<not> bit v n" if "4 \<le> n" for n using that by (metis bit_take_bit_iff not_less)
  have e: "(if bit v 3 then 0x8 else 0) OR (if bit v 2 then 0x4 else 0) OR (if bit v 1 then 0x2 else 0)
      OR (if bit v 0 then 0x1 else 0) = v"
  proof (rule bit_word_eqI)
    fix n assume "n < LENGTH(8)"
    then consider "n = 0" | "n = 1" | "n = 2" | "n = 3" | "4 \<le> n" "n = 4 \<or> n = 5 \<or> n = 6 \<or> n = 7" by fastforce
    then show "bit ((if bit v 3 then 0x8 else 0) OR (if bit v 2 then 0x4 else 0) OR (if bit v 1 then 0x2 else 0)
      OR (if bit v 0 then 0x1 else 0) :: 8 word) n = bit v n"
      by cases (auto simp: top bit_or_iff)
  qed
  have b: "word_bits 4 v = [bit v 3] @ [bit v 2] @ [bit v 1] @ [bit v 0] @ []" by (simp add: word_bits_def upt_rec numeral_eq_Suc)
  show ?thesis unfolding readUint4_def b
    by (intro reads_bind[OF reads_bit]) (use e in \<open>simp add: reads_return\<close>)
qed

text \<open>The bytes of a word, read at the shifts they were taken from, are the word.\<close>

fun or_bytes :: "nat list \<Rightarrow> 'w::len word \<Rightarrow> 'w word \<Rightarrow> 'w word" where
  "or_bytes [] w v = v"
| "or_bytes (k # ks) w v = or_bytes ks w (v OR push_bit k (ucast (ucast (drop_bit k w) :: 8 word)))"

lemma reads_bytes_into:
  "reads (read_bytes_into ks v) (concat (map (\<lambda>k. byte_bits (ucast (drop_bit k w))) ks)) (or_bytes ks w v)"
  by (induction ks arbitrary: v) (auto intro!: reads_bind[OF reads_byte] reads_return)

lemma bit_or_bytes:
  "bit (or_bytes ks w v) n \<longleftrightarrow> bit v n \<or> (\<exists>k \<in> set ks. k \<le> n \<and> n < k + 8 \<and> bit w n)"
  by (induction ks arbitrary: v) (auto simp: bit_simps dest: bit_imp_le_length)

lemma or_bytes_word:
  assumes "\<And>n. bit w n \<Longrightarrow> \<exists>k \<in> set ks. k \<le> n \<and> n < k + 8" shows "or_bytes ks w 0 = w"
  by (rule bit_word_eqI) (use assms in \<open>auto simp: bit_or_bytes\<close>)

text \<open>Bit \<open>n\<close> of a word that fits in \<open>8 * m\<close> bits belongs to byte \<open>n div 8\<close>.\<close>

lemma or_bytes_all:
  assumes "\<And>n. bit w n \<Longrightarrow> n < 8 * m" "set ks = (\<lambda>i. 8 * i) ` {0..<m}" shows "or_bytes ks w 0 = w"
proof (rule or_bytes_word)
  fix n assume "bit w n"
  then have "n < 8 * m" by (rule assms(1))
  then have "8 * (n div 8) \<in> set ks" "8 * (n div 8) \<le> n" "n < 8 * (n div 8) + 8"
    unfolding assms(2) by (auto intro: imageI)
  then show "\<exists>k \<in> set ks. k \<le> n \<and> n < k + 8" by blast
qed

lemma reads_Uint16Be: "reads readUint16Be (word_bits 16 v) v"
proof -
  have "or_bytes [8, 0] v 0 = v"
    by (rule or_bytes_all[of _ 2]) (auto dest: bit_imp_le_length simp: numeral_2_eq_2 atLeast0_lessThan_Suc)
  then show ?thesis using reads_bytes_into[of "[8, 0]" 0 v] by (simp add: readUint16Be_def word_bits_bytes)
qed

lemma bit_below: "bit w n \<Longrightarrow> take_bit k w = w \<Longrightarrow> n < k" for w :: "'a::len word"
  by (metis bit_take_bit_iff)

lemma reads_Uint24Be: "take_bit 24 v = v \<Longrightarrow> reads readUint24Be (word_bits 24 v) v"
proof -
  assume v: "take_bit 24 v = v"
  have "or_bytes [16, 8, 0] v 0 = v"
    by (rule or_bytes_all[of _ 3]) (use bit_below[OF _ v] in \<open>auto simp: numeral_eq_Suc atLeast0_lessThan_Suc\<close>)
  then show ?thesis using reads_bytes_into[of "[16, 8, 0]" 0 v] by (simp add: readUint24Be_def word_bits_bytes)
qed

lemma reads_Uint32Be: "reads readUint32Be (word_bits 32 v) v"
proof -
  have "or_bytes [24, 16, 8, 0] v 0 = v"
    by (rule or_bytes_all[of _ 4]) (auto dest: bit_imp_le_length simp: numeral_eq_Suc atLeast0_lessThan_Suc)
  then show ?thesis using reads_bytes_into[of "[24, 16, 8, 0]" 0 v] by (simp add: readUint32Be_def word_bits_bytes)
qed

lemma reads_Uint48Be: "take_bit 48 v = v \<Longrightarrow> reads readUint48Be (word_bits 48 v) v"
proof -
  assume v: "take_bit 48 v = v"
  have "or_bytes [40, 32, 24, 16, 8, 0] v 0 = v"
    by (rule or_bytes_all[of _ 6]) (use bit_below[OF _ v] in \<open>auto simp: numeral_eq_Suc atLeast0_lessThan_Suc\<close>)
  then show ?thesis using reads_bytes_into[of "[40, 32, 24, 16, 8, 0]" 0 v] by (simp add: readUint48Be_def word_bits_bytes)
qed

lemma reads_Uint64Be: "reads readUint64Be (word_bits 64 v) v"
proof -
  have "or_bytes [56, 48, 40, 32, 24, 16, 8, 0] v 0 = v"
    by (rule or_bytes_all[of _ 8]) (auto dest: bit_imp_le_length simp: numeral_eq_Suc atLeast0_lessThan_Suc)
  then show ?thesis using reads_bytes_into[of "[56, 48, 40, 32, 24, 16, 8, 0]" 0 v]
    by (simp add: readUint64Be_def word_bits_bytes)
qed

lemma reads_address_bytes:
  "reads (read_address_bytes ks a) (concat (map (\<lambda>k. byte_bits (f k)) ks)) (fold (\<lambda>k. set_byte k (f k)) ks a)"
  by (induction ks arbitrary: a) (auto intro!: reads_bind[OF reads_byte] reads_return)

lemma reads_MacAddress:
  assumes "mac_valid a" shows "reads readMacAddress (mac_bits a) a"
proof -
  have "fold (\<lambda>k. set_byte k (the (getAddressByte a k))) [0..<MAC_ADDRESS_SIZE] UNSPECIFIED_ADDRESS = a"
    using set_bytes_eq[OF assms] by (simp add: mac_size_upt UNSPECIFIED_ADDRESS_def del: getAddressByte_some)
  then show ?thesis
    using reads_address_bytes[of "[0..<MAC_ADDRESS_SIZE]" UNSPECIFIED_ADDRESS "\<lambda>i. the (getAddressByte a i)"]
    by (simp add: readMacAddress_def mac_bits_def)
qed

lemma reads_byteRepeatedly: "reads (readByteRepeatedly v n) (concat (replicate n (byte_bits v))) True"
proof (induction n)
  case (Suc n)
  have "reads (State_Monad.bind readByte (\<lambda>b. State_Monad.bind (readByteRepeatedly v n) (\<lambda>r. State_Monad.return (v = b \<and> r))))
      (byte_bits v @ concat (replicate n (byte_bits v))) True"
    by (rule reads_bind[OF reads_byte]) (use reads_bind_return[OF Suc, of "\<lambda>r. v = v \<and> r"] in simp)
  then show ?case by simp
qed (simp add: reads_return)

section \<open>From the writer to the reader\<close>

definition reopen :: "ostream \<Rightarrow> istream" where
  "reopen s = open_istream (os_data s) (os_length s)"

lemma reopen_ok:
  assumes "os_wf s" shows "is_wf (reopen s)" "is_rest (reopen s) = os_bits s"
  using assms by (auto simp: reopen_def open_istream_def is_wf_def os_wf_def is_rest_def os_bits_def)

lemma write_read:
  assumes "writes f bs" "reads m bs x"
  shows "run_state m (reopen (f empty_ostream)) = (x, advance (length bs) (reopen (f empty_ostream)))"
    "is_rest (advance (length bs) (reopen (f empty_ostream))) = []"
proof -
  have f: "os_wf (f empty_ostream)" "os_bits (f empty_ostream) = bs" using assms(1) by (simp_all add: writes_def)
  then have i: "is_wf (reopen (f empty_ostream))" "is_rest (reopen (f empty_ostream)) = bs @ []" using reopen_ok by auto
  then show "run_state m (reopen (f empty_ostream)) = (x, advance (length bs) (reopen (f empty_ostream)))"
    using assms(2) by (simp add: reads_def)
  show "is_rest (advance (length bs) (reopen (f empty_ostream))) = []" by (rule advance_ok(2)[OF i])
qed

section \<open>Sequences of fields\<close>

text \<open>One call of a writer of the stream with its argument.\<close>

datatype field = F4 "8 word" | F8 "8 word" | F16 "16 word" | F24 "32 word" | F32 "32 word" | F48 "64 word" | F64 "64 word"
  | FMac mac_address

fun write_field :: "field \<Rightarrow> ostream \<Rightarrow> ostream" where
  "write_field (F4 v) = writeUint4 v"
| "write_field (F8 v) = writeUint8 v"
| "write_field (F16 v) = writeUint16Be v"
| "write_field (F24 v) = writeUint24Be v"
| "write_field (F32 v) = writeUint32Be v"
| "write_field (F48 v) = writeUint48Be v"
| "write_field (F64 v) = writeUint64Be v"
| "write_field (FMac a) = writeMacAddress a"

text \<open>The reader of the same width; the value of the field is not used.\<close>

fun read_field :: "field \<Rightarrow> (istream, field) state" where
  "read_field (F4 _) = do { v \<leftarrow> readUint4; State_Monad.return (F4 v) }"
| "read_field (F8 _) = do { v \<leftarrow> readUint8; State_Monad.return (F8 v) }"
| "read_field (F16 _) = do { v \<leftarrow> readUint16Be; State_Monad.return (F16 v) }"
| "read_field (F24 _) = do { v \<leftarrow> readUint24Be; State_Monad.return (F24 v) }"
| "read_field (F32 _) = do { v \<leftarrow> readUint32Be; State_Monad.return (F32 v) }"
| "read_field (F48 _) = do { v \<leftarrow> readUint48Be; State_Monad.return (F48 v) }"
| "read_field (F64 _) = do { v \<leftarrow> readUint64Be; State_Monad.return (F64 v) }"
| "read_field (FMac _) = do { v \<leftarrow> readMacAddress; State_Monad.return (FMac v) }"

fun read_fields :: "field list \<Rightarrow> (istream, field list) state" where
  "read_fields [] = State_Monad.return []"
| "read_fields (f # fs) = do { v \<leftarrow> read_field f; vs \<leftarrow> read_fields fs; State_Monad.return (v # vs) }"

text \<open>The value fits the width it is written with.\<close>

fun field_fits :: "field \<Rightarrow> bool" where
  "field_fits (F4 v) = (v < 16)"
| "field_fits (F24 v) = (take_bit 24 v = v)"
| "field_fits (F48 v) = (take_bit 48 v = v)"
| "field_fits (FMac a) = mac_valid a"
| "field_fits _ = True"

fun field_bits :: "field \<Rightarrow> bool list" where
  "field_bits (F4 v) = word_bits 4 v"
| "field_bits (F8 v) = byte_bits v"
| "field_bits (F16 v) = word_bits 16 v"
| "field_bits (F24 v) = word_bits 24 v"
| "field_bits (F32 v) = word_bits 32 v"
| "field_bits (F48 v) = word_bits 48 v"
| "field_bits (F64 v) = word_bits 64 v"
| "field_bits (FMac a) = mac_bits a"

lemma writes_field: "writes (write_field f) (field_bits f)"
  by (cases f) (simp_all add: writes_rules)

lemma reads_field: "field_fits f \<Longrightarrow> reads (read_field f) (field_bits f) f"
  by (cases f) (auto intro!: reads_bind_return reads_Uint4 reads_Uint8 reads_Uint16Be reads_Uint24Be reads_Uint32Be
      reads_Uint48Be reads_Uint64Be reads_MacAddress)

lemma reads_fields: "\<forall>f \<in> set fs. field_fits f \<Longrightarrow> reads (read_fields fs) (concat (map field_bits fs)) fs"
  by (induction fs) (auto intro!: reads_bind[OF reads_field] reads_bind_return)

section \<open>Properties of the streams\<close>

text \<open>
  C28. Fields of half a byte, whole bytes, words and addresses, written one after the other in any order, are
  read back as they were written, with nothing left over: a byte that starts in the middle of another one
  included.
\<close>
theorem stream_fields_roundtrip:
  assumes "\<forall>f \<in> set fs. field_fits f"
  shows "\<exists>s. run_state (read_fields fs) (reopen (fold write_field fs empty_ostream)) = (fs, s) \<and>
    is_rest s = [] \<and> \<not> is_beyond s"
proof -
  have w: "writes (fold write_field fs) (concat (map field_bits fs))" by (rule writes_fold) (rule writes_field)
  show ?thesis
    using write_read[OF w reads_fields[OF assms]] by (auto simp: reopen_def open_istream_def advance_def)
qed

theorem stream_fields_roundtrip_witness:
  "\<exists>s. run_state (read_fields [F4 3, F16 0x1234, F4 7, FMac STP_MULTICAST_ADDRESS])
      (reopen (fold write_field [F4 3, F16 0x1234, F4 7, FMac STP_MULTICAST_ADDRESS] empty_ostream)) =
      ([F4 3, F16 0x1234, F4 7, FMac STP_MULTICAST_ADDRESS], s) \<and> is_rest s = [] \<and> \<not> is_beyond s"
  by (rule stream_fields_roundtrip) (simp add: mac_valid_def STP_MULTICAST_ADDRESS_def MAC_ADDRESS_MASK_def)

text \<open>
  A byte is written as its eight bits exactly when the stream is at a multiple of four bits: at any other
  position \<open>writeByte\<close> splits the byte at the wrong place, although \<open>readByte\<close> reads at every position.
\<close>
theorem writeByte_positions:
  assumes "os_wf s"
  shows "(\<forall>v. os_bits (writeByte v s) = os_bits s @ byte_bits v) \<longleftrightarrow> 4 dvd os_length s"
  using writeByte_ok[OF assms] writeByte_splits[OF assms] by (auto simp: dvd_eq_mod_eq_0)

theorem writeByte_positions_witness:
  "\<not> (\<forall>v. os_bits (writeByte v (writeBit True empty_ostream)) = os_bits (writeBit True empty_ostream) @ byte_bits v)"
proof -
  have "os_wf (writeBit True empty_ostream)" using writeBit_ok by simp
  from writeByte_positions[OF this] show ?thesis by (simp add: writeBit_def empty_ostream_def Let_def)
qed

end
