(* ===== verification/Header_Codec.thy ===== *)
theory Header_Codec
  imports Memory_Stream Protocol_Tags Bridge_Data
begin

text \<open>
  The serializers of the link layer headers (src/inet/src/inet/linklayer/ and protocolelement/): a header is
  written to an output stream and read from an input stream. The locale \<open>codec\<close> is the contract of a pair of
  them; it is interpreted on the serializers of the code, and two codecs one after the other are again one, so
  that a whole stack of headers is read back.
\<close>

section \<open>The contract of a serializer\<close>

locale codec =
  fixes ser :: "'a \<Rightarrow> ostream \<Rightarrow> ostream"
    and des :: "(istream, 'a) state"
    and fits :: "'a \<Rightarrow> bool"
    and bits :: "'a \<Rightarrow> bool list"
  assumes ser_bits: "fits a \<Longrightarrow> writes (ser a) (bits a)"
    and des_bits: "fits a \<Longrightarrow> reads des (bits a) a"
begin

lemma roundtrip:
  assumes "fits a"
  shows "\<exists>s. run_state des (reopen (ser a empty_ostream)) = (a, s) \<and> is_rest s = [] \<and> \<not> is_beyond s"
  using write_read[OF ser_bits[OF assms] des_bits[OF assms]]
  by (auto simp: reopen_def open_istream_def advance_def)

text \<open>Two headers that are written alike are the same header.\<close>

lemma ser_inj:
  assumes "fits a" "fits b" "os_data (ser a empty_ostream) = os_data (ser b empty_ostream)"
    "os_length (ser a empty_ostream) = os_length (ser b empty_ostream)"
  shows "a = b"
proof -
  have "reopen (ser a empty_ostream) = reopen (ser b empty_ostream)" using assms(3,4) by (simp add: reopen_def)
  moreover obtain s where "run_state des (reopen (ser a empty_ostream)) = (a, s)" using roundtrip[OF assms(1)] by blast
  moreover obtain t where "run_state des (reopen (ser b empty_ostream)) = (b, t)" using roundtrip[OF assms(2)] by blast
  ultimately have "(a, s) = (b, t)" by (simp only:)
  then show ?thesis by simp
qed

end

locale codec_seq = one: codec ser1 des1 fits1 bits1 + two: codec ser2 des2 fits2 bits2
  for ser1 :: "'a \<Rightarrow> ostream \<Rightarrow> ostream" and des1 fits1 bits1
    and ser2 :: "'b \<Rightarrow> ostream \<Rightarrow> ostream" and des2 fits2 bits2

sublocale codec_seq \<subseteq> codec "\<lambda>(a, b) s. ser2 b (ser1 a s)"
  "State_Monad.bind des1 (\<lambda>a. State_Monad.bind des2 (\<lambda>b. State_Monad.return (a, b)))"
  "\<lambda>(a, b). fits1 a \<and> fits2 b" "\<lambda>(a, b). bits1 a @ bits2 b"
proof
  fix p :: "'a \<times> 'b"
  assume f: "case p of (a, b) \<Rightarrow> fits1 a \<and> fits2 b"
  obtain a b where p: "p = (a, b)" "fits1 a" "fits2 b" using f by (cases p) auto
  show "writes (case p of (a, b) \<Rightarrow> \<lambda>s. ser2 b (ser1 a s)) (case p of (a, b) \<Rightarrow> bits1 a @ bits2 b)"
    using writes_comp[OF one.ser_bits two.ser_bits] p by simp
  show "reads (State_Monad.bind des1 (\<lambda>a. State_Monad.bind des2 (\<lambda>b. State_Monad.return (a, b))))
      (case p of (a, b) \<Rightarrow> bits1 a @ bits2 b) p"
    using reads_bind[OF one.des_bits[OF p(2)], of "\<lambda>a. State_Monad.bind des2 (\<lambda>b. State_Monad.return (a, b))",
        OF reads_bind_return[OF two.des_bits[OF p(3)]]] p(1) by simp
qed

section \<open>Ethernet\<close>

record ethernet_header =
  eh_dest :: mac_address
  eh_src :: mac_address
  eh_typeOrLength :: "16 word"

definition serialize_ethernet :: "ethernet_header \<Rightarrow> ostream \<Rightarrow> ostream" where
  "serialize_ethernet h s = writeUint16Be (eh_typeOrLength h) (writeMacAddress (eh_src h) (writeMacAddress (eh_dest h) s))"

definition deserialize_ethernet :: "(istream, ethernet_header) state" where
  "deserialize_ethernet = do { dest \<leftarrow> readMacAddress; src \<leftarrow> readMacAddress; t \<leftarrow> readUint16Be;
     State_Monad.return \<lparr>eh_dest = dest, eh_src = src, eh_typeOrLength = t\<rparr> }"

datatype fcs_mode = FCS_MODE_UNDEFINED | FCS_DISABLED | FCS_DECLARED_CORRECT | FCS_DECLARED_INCORRECT | FCS_COMPUTED

record ethernet_fcs =
  ef_fcs :: "32 word"
  ef_fcsMode :: fcs_mode

definition serialize_fcs :: "ethernet_fcs \<Rightarrow> ostream \<Rightarrow> ostream option" where
  "serialize_fcs f s = (if ef_fcsMode f \<noteq> FCS_COMPUTED then None else Some (writeUint32Be (ef_fcs f) s))"

definition deserialize_fcs :: "(istream, ethernet_fcs) state" where
  "deserialize_fcs = do { v \<leftarrow> readUint32Be; State_Monad.return \<lparr>ef_fcs = v, ef_fcsMode = FCS_COMPUTED\<rparr> }"

text \<open>A control frame has an operation code, a pause frame a time too.\<close>

datatype control_frame = PauseFrame "16 word" "16 word" | OtherControl "16 word"

definition ETHERNET_CONTROL_PAUSE :: "16 word" where
  "ETHERNET_CONTROL_PAUSE = 1"

fun serialize_control :: "control_frame \<Rightarrow> ostream \<Rightarrow> ostream option" where
  "serialize_control (PauseFrame opCode pauseTime) s =
     (if opCode = ETHERNET_CONTROL_PAUSE then Some (writeUint16Be pauseTime (writeUint16Be opCode s)) else None)"
| "serialize_control (OtherControl opCode) s = None"

definition deserialize_control :: "(istream, control_frame) state" where
  "deserialize_control = do {
     opCode \<leftarrow> readUint16Be;
     if opCode = ETHERNET_CONTROL_PAUSE
     then do { t \<leftarrow> readUint16Be; State_Monad.return (PauseFrame opCode t) }
     else State_Monad.return (OtherControl opCode) }"

section \<open>VLAN and redundancy tags\<close>

definition tag_control :: "8 word \<Rightarrow> bool \<Rightarrow> 16 word \<Rightarrow> 16 word" where
  "tag_control pcp dei vid = (vid AND 0xFFF) OR push_bit 13 (ucast (pcp AND 7)) OR (if dei then 0x1000 else 0)"

definition control_pcp :: "16 word \<Rightarrow> 8 word" where
  "control_pcp v = ucast (drop_bit 13 v AND 7)"

fun serialize_tag :: "frame_header \<Rightarrow> ostream \<Rightarrow> ostream" where
  "serialize_tag (QTagTpid tpid pcp dei vid) s = writeUint16Be (tag_control pcp dei vid) (writeUint16Be tpid s)"
| "serialize_tag (QTagEpd pcp dei vid t) s = writeUint16Be t (writeUint16Be (tag_control pcp dei vid) s)"
| "serialize_tag (RTagEpd seq t) s = writeUint16Be t (writeUint16Be seq (writeUint16Be 0 s))"

definition deserialize_qtag_tpid :: "(istream, frame_header) state" where
  "deserialize_qtag_tpid = do { tpid \<leftarrow> readUint16Be; v \<leftarrow> readUint16Be;
     State_Monad.return (QTagTpid tpid (control_pcp v) (v AND 0x1000 \<noteq> 0) (v AND 0xFFF)) }"

definition deserialize_qtag_epd :: "(istream, frame_header) state" where
  "deserialize_qtag_epd = do { v \<leftarrow> readUint16Be; t \<leftarrow> readUint16Be;
     State_Monad.return (QTagEpd (control_pcp v) (v AND 0x1000 \<noteq> 0) (v AND 0xFFF) t) }"

text \<open>The flag says that the reserved field was not zero (\<open>markIncorrect\<close>).\<close>

definition deserialize_rtag_epd :: "(istream, frame_header \<times> bool) state" where
  "deserialize_rtag_epd = do { reserved \<leftarrow> readUint16Be; seq \<leftarrow> readUint16Be; t \<leftarrow> readUint16Be;
     State_Monad.return (RTagEpd seq t, reserved \<noteq> 0) }"

definition serialize_rtag_tpid :: "16 word \<Rightarrow> ostream \<Rightarrow> ostream" where
  "serialize_rtag_tpid seq s = writeUint16Be seq (writeUint16Be 0 (writeUint16Be 0xF1C1 s))"

definition deserialize_rtag_tpid :: "(istream, 16 word \<times> bool) state" where
  "deserialize_rtag_tpid = do { tpid \<leftarrow> readUint16Be; reserved \<leftarrow> readUint16Be; seq \<leftarrow> readUint16Be;
     State_Monad.return (seq, tpid \<noteq> 0xF1C1 \<or> reserved \<noteq> 0) }"

section \<open>Sequence and fragment numbers\<close>

text \<open>The members are \<open>int\<close>; the streams take their low bits.\<close>

definition serialize_sequence_number :: "int \<Rightarrow> ostream \<Rightarrow> ostream" where
  "serialize_sequence_number n s = writeUint16Be (word_of_int n) s"

definition deserialize_sequence_number :: "(istream, int) state" where
  "deserialize_sequence_number = do { v \<leftarrow> readUint16Be; State_Monad.return (uint v) }"

definition fragment_byte :: "int \<Rightarrow> bool \<Rightarrow> 8 word" where
  "fragment_byte n last_fragment = word_of_int (n AND 0x7F) + (if last_fragment then 0x80 else 0)"

definition serialize_fragment_number :: "int \<times> bool \<Rightarrow> ostream \<Rightarrow> ostream" where
  "serialize_fragment_number h s = writeUint8 (fragment_byte (fst h) (snd h)) s"

definition deserialize_fragment_number :: "(istream, int \<times> bool) state" where
  "deserialize_fragment_number = do { v \<leftarrow> readUint8; State_Monad.return (uint (v AND 0x7F), v AND 0x80 \<noteq> 0) }"

section \<open>The serializers keep the contract\<close>

lemma reads_then_return:
  assumes "reads m bs x" "y = f x" shows "reads (State_Monad.bind m (\<lambda>x. State_Monad.return (f x))) bs y"
  using reads_bind_return[OF assms(1), of f] assms(2) by simp

lemmas reads_16 = reads_bind[OF reads_Uint16Be]
lemmas writes_16 = writes_comp[OF _ writes_Uint16Be]

definition ethernet_bits :: "ethernet_header \<Rightarrow> bool list" where
  "ethernet_bits h = mac_bits (eh_dest h) @ mac_bits (eh_src h) @ word_bits 16 (eh_typeOrLength h)"

definition ethernet_fits :: "ethernet_header \<Rightarrow> bool" where
  "ethernet_fits h \<longleftrightarrow> mac_valid (eh_dest h) \<and> mac_valid (eh_src h)"

interpretation ethernet: codec serialize_ethernet deserialize_ethernet ethernet_fits ethernet_bits
proof
  fix h
  show "writes (serialize_ethernet h) (ethernet_bits h)"
    using writes_comp[OF writes_comp[OF writes_MacAddress writes_MacAddress] writes_Uint16Be]
    by (simp add: serialize_ethernet_def[abs_def] ethernet_bits_def)
  assume "ethernet_fits h"
  then show "reads deserialize_ethernet (ethernet_bits h) h"
    unfolding deserialize_ethernet_def ethernet_bits_def ethernet_fits_def
    by (intro reads_bind[OF reads_MacAddress] reads_then_return[OF reads_Uint16Be]) auto
qed

definition qtag_fits :: "8 word \<Rightarrow> 16 word \<Rightarrow> bool" where
  "qtag_fits pcp vid \<longleftrightarrow> take_bit 3 pcp = pcp \<and> take_bit 12 vid = vid"

text \<open>The masks as truncations.\<close>

lemma masks:
  "v AND 0xFFF = take_bit 12 v" "w AND 7 = take_bit 3 w" "v AND 7 = take_bit 3 v"
  "v AND 0x1000 \<noteq> 0 \<longleftrightarrow> bit v 12"
  for v :: "16 word" and w :: "8 word"
proof -
  have m: "(0xFFF :: 16 word) = mask 12" "(7 :: 8 word) = mask 3" "(7 :: 16 word) = mask 3" "(0x1000 :: 16 word) = 2 ^ 12"
    by (simp_all add: mask_eq_exp_minus_1)
  show "v AND 0xFFF = take_bit 12 v" "w AND 7 = take_bit 3 w" "v AND 7 = take_bit 3 v" "v AND 0x1000 \<noteq> 0 \<longleftrightarrow> bit v 12"
    unfolding m by (simp_all only: take_bit_eq_mask and_exp_eq_0_iff_not_bit not_not)
qed

lemma bit_tag_control:
  "bit (tag_control pcp dei vid) n \<longleftrightarrow>
     (if n < 12 then bit vid n else if n = 12 then dei else n < 16 \<and> bit (take_bit 3 pcp) (n - 13))"
proof -
  have l: "(if dei then 0x1000 else 0 :: 16 word) = (if dei then push_bit 12 1 else 0)" by simp
  show ?thesis unfolding tag_control_def masks l
    by (auto simp: bit_simps simp del: push_bit_of_1 dest: bit_imp_le_length)
qed

text \<open>The three fields of the tag come back from the control word.\<close>

lemma control_fields:
  assumes "qtag_fits pcp vid"
  shows "control_pcp (tag_control pcp dei vid) = pcp" "tag_control pcp dei vid AND 0x1000 \<noteq> 0 \<longleftrightarrow> dei"
    "tag_control pcp dei vid AND 0xFFF = vid"
proof -
  have p: "bit pcp n \<Longrightarrow> n < 3" "bit vid n \<Longrightarrow> n < 12" for n
    using assms bit_below unfolding qtag_fits_def by blast+
  show "control_pcp (tag_control pcp dei vid) = pcp"
    unfolding control_pcp_def masks by (rule bit_word_eqI) (auto simp: bit_simps bit_tag_control dest: p)
  show "tag_control pcp dei vid AND 0x1000 \<noteq> 0 \<longleftrightarrow> dei" by (simp add: masks bit_tag_control)
  show "tag_control pcp dei vid AND 0xFFF = vid"
    unfolding masks by (rule bit_word_eqI) (auto simp: bit_simps bit_tag_control dest: p)
qed

fun tag_fits :: "frame_header \<Rightarrow> bool" where
  "tag_fits (QTagTpid _ pcp _ vid) = qtag_fits pcp vid"
| "tag_fits (QTagEpd pcp _ vid _) = qtag_fits pcp vid"
| "tag_fits (RTagEpd _ _) = True"

fun tag_bits :: "frame_header \<Rightarrow> bool list" where
  "tag_bits (QTagTpid tpid pcp dei vid) = word_bits 16 tpid @ word_bits 16 (tag_control pcp dei vid)"
| "tag_bits (QTagEpd pcp dei vid t) = word_bits 16 (tag_control pcp dei vid) @ word_bits 16 t"
| "tag_bits (RTagEpd seq t) = word_bits 16 (0 :: 16 word) @ word_bits 16 seq @ word_bits 16 t"

lemma writes_tag: "writes (serialize_tag h) (tag_bits h)"
proof (cases h)
  case (RTagEpd seq t)
  then show ?thesis using writes_16[OF writes_16[OF writes_Uint16Be[of 0], of seq], of t]
    by (simp add: serialize_tag.simps[abs_def])
qed (auto simp: serialize_tag.simps[abs_def] intro!: writes_16 writes_Uint16Be)

definition is_qtag_tpid :: "frame_header \<Rightarrow> bool" where
  "is_qtag_tpid h \<longleftrightarrow> (case h of QTagTpid _ _ _ _ \<Rightarrow> tag_fits h | _ \<Rightarrow> False)"

definition is_qtag_epd :: "frame_header \<Rightarrow> bool" where
  "is_qtag_epd h \<longleftrightarrow> (case h of QTagEpd _ _ _ _ \<Rightarrow> tag_fits h | _ \<Rightarrow> False)"

interpretation qtag_tpid_codec: codec serialize_tag deserialize_qtag_tpid is_qtag_tpid tag_bits
proof
  fix h assume "is_qtag_tpid h"
  then obtain tpid pcp dei vid where h: "h = QTagTpid tpid pcp dei vid" "qtag_fits pcp vid"
    by (auto simp: is_qtag_tpid_def split: frame_header.splits)
  show "reads deserialize_qtag_tpid (tag_bits h) h"
    unfolding deserialize_qtag_tpid_def h(1) tag_bits.simps
    by (intro reads_16 reads_then_return[OF reads_Uint16Be]) (simp add: control_fields[OF h(2)])
qed (rule writes_tag)

interpretation qtag_epd_codec: codec serialize_tag deserialize_qtag_epd is_qtag_epd tag_bits
proof
  fix h assume "is_qtag_epd h"
  then obtain t pcp dei vid where h: "h = QTagEpd pcp dei vid t" "qtag_fits pcp vid"
    by (auto simp: is_qtag_epd_def split: frame_header.splits)
  show "reads deserialize_qtag_epd (tag_bits h) h"
    unfolding deserialize_qtag_epd_def h(1) tag_bits.simps
    by (intro reads_16 reads_then_return[OF reads_Uint16Be]) (simp add: control_fields[OF h(2)])
qed (rule writes_tag)

text \<open>The redundancy tags are read with a flag that says whether they were well formed.\<close>

interpretation rtag_epd_codec: codec "\<lambda>(h, incorrect). serialize_tag h" deserialize_rtag_epd
  "\<lambda>(h, incorrect). is_RTagEpd h \<and> \<not> incorrect" "\<lambda>(h, incorrect). tag_bits h"
proof (unfold_locales, goal_cases)
  case (1 p) then show ?case using writes_tag by (cases p) simp
next
  case (2 p)
  then obtain seq t where p: "p = (RTagEpd seq t, False)" by (cases p; cases "fst p") auto
  show ?case unfolding deserialize_rtag_epd_def p tag_bits.simps prod.case
    by (intro reads_16 reads_then_return[OF reads_Uint16Be]) simp
qed

interpretation rtag_tpid_codec: codec "\<lambda>(seq, incorrect). serialize_rtag_tpid seq" deserialize_rtag_tpid
  "\<lambda>(seq, incorrect). \<not> incorrect" "\<lambda>(seq, incorrect). word_bits 16 (0xF1C1 :: 16 word) @ word_bits 16 (0 :: 16 word) @ word_bits 16 seq"
proof (unfold_locales, goal_cases)
  case (1 p) then show ?case
    using writes_comp[OF writes_Uint16Be[of "0xF1C1"] writes_comp[OF writes_Uint16Be[of 0] writes_Uint16Be[of "fst p"]]]
    by (cases p) (simp add: serialize_rtag_tpid_def[abs_def])
next
  case (2 p)
  then show ?case unfolding deserialize_rtag_tpid_def
    by (cases p) (auto intro!: reads_16 reads_then_return[OF reads_Uint16Be])
qed

definition sequence_number_fits :: "int \<Rightarrow> bool" where
  "sequence_number_fits n \<longleftrightarrow> 0 \<le> n \<and> n < 2 ^ 16"

interpretation sequence_number: codec serialize_sequence_number deserialize_sequence_number sequence_number_fits
  "\<lambda>n. word_bits 16 (word_of_int n :: 16 word)"
proof
  fix n
  show "writes (serialize_sequence_number n) (word_bits 16 (word_of_int n :: 16 word))"
    unfolding serialize_sequence_number_def[abs_def] by (rule writes_Uint16Be)
  assume "sequence_number_fits n"
  then have "uint (word_of_int n :: 16 word) = n" by (simp add: sequence_number_fits_def uint_word_of_int_eq take_bit_int_eq_self)
  then show "reads deserialize_sequence_number (word_bits 16 (word_of_int n :: 16 word)) n"
    unfolding deserialize_sequence_number_def by (intro reads_then_return[OF reads_Uint16Be]) simp
qed

definition fragment_number_fits :: "int \<times> bool \<Rightarrow> bool" where
  "fragment_number_fits h \<longleftrightarrow> 0 \<le> fst h \<and> fst h < 128"

lemma fragment_byte_bits: "fragment_byte n l = word_of_int (take_bit 7 n) OR (if l then push_bit 7 1 else 0)"
proof -
  have f: "(0x7F :: int) = mask 7" by (simp add: mask_eq_exp_minus_1)
  have a: "word_of_int (take_bit 7 n) AND (push_bit 7 1 :: 8 word) = 0"
    by (rule bit_word_eqI) (auto simp: bit_simps simp del: push_bit_of_1)
  have d: "word_of_int (take_bit 7 n) + (push_bit 7 1 :: 8 word) = word_of_int (take_bit 7 n) OR push_bit 7 1"
    using disjunctive_add_eq_or[OF a] .
  have l: "(0x80 :: 8 word) = push_bit 7 1" by simp
  show ?thesis unfolding fragment_byte_def f take_bit_eq_mask[symmetric] l
    by (cases l) (simp_all only: d if_True if_False add_0_right or.right_neutral)
qed

lemma fragment_fields:
  "uint (fragment_byte n l AND 0x7F) = n mod 128" "fragment_byte n l AND 0x80 \<noteq> 0 \<longleftrightarrow> l"
proof -
  have m: "(0x7F :: 8 word) = mask 7" "(0x80 :: 8 word) = 2 ^ 7" by (simp_all add: mask_eq_exp_minus_1)
  have "fragment_byte n l AND 0x7F = (word_of_int (take_bit 7 n) :: 8 word)"
    unfolding m fragment_byte_bits by (rule bit_word_eqI) (auto simp: bit_simps simp del: push_bit_of_1)
  then show "uint (fragment_byte n l AND 0x7F) = n mod 128"
    by (simp add: uint_word_of_int_eq take_bit_eq_mod)
  have "bit (fragment_byte n l) 7 \<longleftrightarrow> l" unfolding fragment_byte_bits by (auto simp: bit_simps simp del: push_bit_of_1)
  then show "fragment_byte n l AND 0x80 \<noteq> 0 \<longleftrightarrow> l" unfolding m by (simp only: and_exp_eq_0_iff_not_bit not_not)
qed

interpretation fragment_number: codec serialize_fragment_number deserialize_fragment_number fragment_number_fits
  "\<lambda>h. byte_bits (fragment_byte (fst h) (snd h))"
proof
  fix h
  show "writes (serialize_fragment_number h) (byte_bits (fragment_byte (fst h) (snd h)))"
    unfolding serialize_fragment_number_def[abs_def] by (rule writes_Uint8)
  assume "fragment_number_fits h"
  then have "(fst h) mod 128 = fst h" by (simp add: fragment_number_fits_def)
  then show "reads deserialize_fragment_number (byte_bits (fragment_byte (fst h) (snd h))) h"
    unfolding deserialize_fragment_number_def
    by (intro reads_then_return[OF reads_Uint8]) (simp add: fragment_fields prod_eq_iff)
qed

interpretation fcs: codec "\<lambda>f s. the (serialize_fcs f s)" deserialize_fcs "\<lambda>f. ef_fcsMode f = FCS_COMPUTED" "\<lambda>f. word_bits 32 (ef_fcs f)"
proof
  fix f :: ethernet_fcs assume f: "ef_fcsMode f = FCS_COMPUTED"
  then show "writes (\<lambda>s. the (serialize_fcs f s)) (word_bits 32 (ef_fcs f))"
    using writes_Uint32Be by (simp add: serialize_fcs_def)
  show "reads deserialize_fcs (word_bits 32 (ef_fcs f)) f"
    unfolding deserialize_fcs_def by (intro reads_then_return[OF reads_Uint32Be]) (simp add: f)
qed

fun is_pause :: "control_frame \<Rightarrow> bool" where
  "is_pause (PauseFrame opCode pauseTime) = (opCode = ETHERNET_CONTROL_PAUSE)"
| "is_pause (OtherControl opCode) = False"

fun control_bits :: "control_frame \<Rightarrow> bool list" where
  "control_bits (PauseFrame opCode pauseTime) = word_bits 16 opCode @ word_bits 16 pauseTime"
| "control_bits (OtherControl opCode) = word_bits 16 opCode"

interpretation control: codec "\<lambda>f s. the (serialize_control f s)" deserialize_control is_pause control_bits
proof
  fix f assume "is_pause f"
  then obtain t where f: "f = PauseFrame ETHERNET_CONTROL_PAUSE t" by (cases f) auto
  show "writes (\<lambda>s. the (serialize_control f s)) (control_bits f)"
    using writes_16[OF writes_Uint16Be] by (simp add: f)
  show "reads deserialize_control (control_bits f) f"
    unfolding deserialize_control_def f control_bits.simps
    by (rule reads_16) (auto intro!: reads_then_return[OF reads_Uint16Be])
qed

section \<open>Stacks of headers\<close>

interpretation inner_tags: codec_seq serialize_tag deserialize_qtag_epd is_qtag_epd tag_bits
  "\<lambda>(h, incorrect). serialize_tag h" deserialize_rtag_epd "\<lambda>(h, incorrect). is_RTagEpd h \<and> \<not> incorrect" "\<lambda>(h, incorrect). tag_bits h"
  by unfold_locales

interpretation tagged_frame: codec_seq serialize_ethernet deserialize_ethernet ethernet_fits ethernet_bits
  "\<lambda>(q, r) s. case r of (h, incorrect) \<Rightarrow> serialize_tag h (serialize_tag q s)"
  "do { q \<leftarrow> deserialize_qtag_epd; r \<leftarrow> deserialize_rtag_epd; State_Monad.return (q, r) }"
  "\<lambda>(q, r). is_qtag_epd q \<and> (case r of (h, incorrect) \<Rightarrow> is_RTagEpd h \<and> \<not> incorrect)"
  "\<lambda>(q, r). tag_bits q @ (case r of (h, incorrect) \<Rightarrow> tag_bits h)"
  using inner_tags.codec_axioms by (simp add: codec_seq_def ethernet.codec_axioms split_def)

text \<open>
  A frame header with a VLAN tag and a redundancy tag, written to a stream, is read back with every field,
  and with nothing left over.
\<close>
theorem tagged_frame_roundtrip:
  assumes "mac_valid (eh_dest eth)" "mac_valid (eh_src eth)" "take_bit 3 pcp = pcp" "take_bit 12 vid = vid"
  shows "\<exists>s. run_state
      (do { eth' \<leftarrow> deserialize_ethernet; q \<leftarrow> deserialize_qtag_epd; r \<leftarrow> deserialize_rtag_epd;
            State_Monad.return (eth', q, r) })
      (reopen (serialize_tag (RTagEpd seq t2) (serialize_tag (QTagEpd pcp dei vid t1) (serialize_ethernet eth empty_ostream)))) =
      ((eth, QTagEpd pcp dei vid t1, RTagEpd seq t2, False), s) \<and> is_rest s = [] \<and> \<not> is_beyond s"
  using tagged_frame.roundtrip[of "(eth, QTagEpd pcp dei vid t1, RTagEpd seq t2, False)"] assms
  by (simp add: ethernet_fits_def is_qtag_epd_def qtag_fits_def)

theorem tagged_frame_roundtrip_witness:
  "\<exists>s. run_state
      (do { eth' \<leftarrow> deserialize_ethernet; q \<leftarrow> deserialize_qtag_epd; r \<leftarrow> deserialize_rtag_epd;
            State_Monad.return (eth', q, r) })
      (reopen (serialize_tag (RTagEpd 9 0x0800) (serialize_tag (QTagEpd 5 True 100 0xF1C1)
        (serialize_ethernet \<lparr>eh_dest = MacAddress 1, eh_src = MacAddress 2, eh_typeOrLength = 0x8100\<rparr> empty_ostream)))) =
      ((\<lparr>eh_dest = MacAddress 1, eh_src = MacAddress 2, eh_typeOrLength = 0x8100\<rparr>, QTagEpd 5 True 100 0xF1C1,
        RTagEpd 9 0x0800, False), s) \<and> is_rest s = [] \<and> \<not> is_beyond s"
proof (rule tagged_frame_roundtrip)
  show "take_bit 3 (5 :: 8 word) = 5" "take_bit 12 (100 :: 16 word) = 100" by (simp_all add: take_bit_eq_mod)
qed (simp_all add: mac_valid_def MAC_ADDRESS_MASK_def)

text \<open>
  The fragment number has seven bits: fragments whose numbers differ by a multiple of 128 have the same
  header, and the reader gives the number modulo 128, with the flag of the last fragment.
\<close>
theorem fragment_number_wraps:
  "\<exists>s. run_state deserialize_fragment_number (reopen (serialize_fragment_number (n, l) empty_ostream)) = ((n mod 128, l), s)"
proof -
  have "reads deserialize_fragment_number (byte_bits (fragment_byte n l)) (n mod 128, l)"
    unfolding deserialize_fragment_number_def
    by (intro reads_then_return[OF reads_Uint8]) (simp add: fragment_fields)
  from write_read(1)[OF _ this, of "serialize_fragment_number (n, l)"] show ?thesis
    unfolding serialize_fragment_number_def[abs_def] fst_conv snd_conv using writes_Uint8 by blast
qed

end
