(* ===== verification/Message_Codec.thy ===== *)
theory Message_Codec
  imports Header_Codec "HOL-Library.Signed_Division"
begin

text \<open>
  The serializers of the spanning tree messages (\<open>Ieee8021dBpduSerializer\<close>) and of the time synchronization
  messages (\<open>GptpPacketSerializer\<close>), src/inet/src/inet/linklayer/ieee8021d/common/ and ieee8021as/.

  Times are in picoseconds (the default resolution, \<open>SimTime::getScale()\<close> = \<open>10 ^ 12\<close>); \<open>split\<close> truncates
  towards zero, like the division of C++. The double arithmetic is exact where it is used: a multiple of
  1/256 second, and the rate offset in units of \<open>2 ^ -41\<close>.
\<close>

section \<open>Spanning tree messages\<close>

text \<open>The class of a message gives its type; the type decides what is written.\<close>

datatype bpdu_message =
    CfgMessage (bm_protocol: "16 word") (bm_version: "8 word") (bm_reserved: "8 word") (bm_cfg: bpdu)
  | TcnMessage (bm_protocol: "16 word") (bm_version: "8 word")

definition BPDU_CFG :: "8 word" where "BPDU_CFG = 0"

definition BPDU_TCN :: "8 word" where "BPDU_TCN = 0x80"

definition serialize_bpdu_base :: "16 word \<Rightarrow> 8 word \<Rightarrow> 8 word \<Rightarrow> ostream \<Rightarrow> ostream" where
  "serialize_bpdu_base protocol version type s = writeUint8 type (writeUint8 version (writeUint16Be protocol s))"

text \<open>The case of the configuration message leaves the switch before it writes its fields.\<close>

fun serialize_bpdu :: "bpdu_message \<Rightarrow> ostream \<Rightarrow> ostream" where
  "serialize_bpdu (CfgMessage protocol version reserved b) s = serialize_bpdu_base protocol version BPDU_CFG s"
| "serialize_bpdu (TcnMessage protocol version) s = serialize_bpdu_base protocol version BPDU_TCN s"

definition time_of_256 :: "16 word \<Rightarrow> simtime" where
  "time_of_256 v = uint v * (10 ^ 12 div 256)"

definition deserialize_bpdu_fields :: "16 word \<Rightarrow> 8 word \<Rightarrow> bool \<Rightarrow> (istream, bpdu_message) state" where
  "deserialize_bpdu_fields protocol version tca = do {
     reserved \<leftarrow> the (readNBitsToUint64Be 6);
     tc \<leftarrow> readBit;
     rootPriority \<leftarrow> readUint16Be;
     rootAddress \<leftarrow> readMacAddress;
     rootPathCost \<leftarrow> readUint32Be;
     bridgePriority \<leftarrow> readUint16Be;
     bridgeAddress \<leftarrow> readMacAddress;
     portPriority \<leftarrow> readByte;
     portNum \<leftarrow> readByte;
     messageAge \<leftarrow> readUint16Be;
     maxAge \<leftarrow> readUint16Be;
     helloTime \<leftarrow> readUint16Be;
     forwardDelay \<leftarrow> readUint16Be;
     State_Monad.return (CfgMessage protocol version (ucast reserved)
       \<lparr>b_tcaFlag = tca, b_tcFlag = tc, b_rootPriority = rootPriority, b_rootAddress = rootAddress,
        b_rootPathCost = rootPathCost, b_bridgePriority = bridgePriority, b_bridgeAddress = bridgeAddress,
        b_portPriority = ucast portPriority, b_portNum = ucast portNum, b_messageAge = time_of_256 messageAge,
        b_maxAge = time_of_256 maxAge, b_helloTime = time_of_256 helloTime,
        b_forwardDelay = time_of_256 forwardDelay\<rparr>)
   }"

definition deserialize_bpdu_cfg :: "16 word \<Rightarrow> 8 word \<Rightarrow> (istream, bpdu_message) state" where
  "deserialize_bpdu_cfg protocol version = do { tca \<leftarrow> readBit; deserialize_bpdu_fields protocol version tca }"

definition deserialize_bpdu :: "(istream, bpdu_message option) state" where
  "deserialize_bpdu = do {
     protocol \<leftarrow> readUint16Be;
     version \<leftarrow> readUint8;
     type \<leftarrow> readUint8;
     if type = BPDU_CFG then do { m \<leftarrow> deserialize_bpdu_cfg protocol version; State_Monad.return (Some m) }
     else if type = BPDU_TCN then State_Monad.return (Some (TcnMessage protocol version))
     else State_Monad.return None
   }"

section \<open>Time synchronization messages\<close>

record port_identity =
  pi_clockIdentity :: "64 word"
  pi_portNumber :: "16 word"

record gptp_base =
  gb_majorSdoId :: "8 word"
  gb_minorVersionPTP :: "8 word"
  gb_versionPTP :: "8 word"
  gb_messageLengthField :: "16 word"
  gb_domainNumber :: "8 word"
  gb_minorSdoId :: "8 word"
  gb_flags :: "16 word"
  gb_correctionField :: clocktime
  gb_messageTypeSpecific :: "32 word"
  gb_sourcePortIdentity :: port_identity
  gb_sequenceId :: "16 word"
  gb_controlField :: "8 word"
  gb_logMessageInterval :: "8 word"

record gptp_tlv =
  tlv_tlvType :: "16 word"
  tlv_lengthField :: "16 word"
  tlv_organizationId :: "32 word"
  tlv_organizationSubType :: "32 word"
  tlv_cumulativeScaledRateOffset :: "32 word"
  tlv_gmTimeBaseIndicator :: "16 word"
  tlv_lastGmPhaseChange :: clocktime
  tlv_scaledLastGmFreqChange :: "32 word"

text \<open>The message classes with their members; a sync message has none.\<close>

datatype gptp_body =
    SyncPart
  | FollowUpPart clocktime gptp_tlv
  | PdelayReqPart
  | PdelayRespPart clocktime port_identity
  | PdelayRespFollowUpPart clocktime port_identity

fun messageType :: "gptp_body \<Rightarrow> 8 word" where
  "messageType SyncPart = 0x0"
| "messageType (FollowUpPart _ _) = 0x8"
| "messageType PdelayReqPart = 0x2"
| "messageType (PdelayRespPart _ _) = 0x3"
| "messageType (PdelayRespFollowUpPart _ _) = 0xA"

definition twoStepFlag :: "16 word" where
  "twoStepFlag = 2"

subsection \<open>Times on the wire\<close>

definition split_time :: "int \<Rightarrow> int \<Rightarrow> int \<times> int" where
  "split_time unit_raw t = (t sdiv unit_raw, t smod unit_raw)"

text \<open>\<open>ns16\<close> is what is left below a nanosecond, in whole nanoseconds.\<close>

definition clock_word :: "clocktime \<Rightarrow> 64 word" where
  "clock_word clock = (let (outValue, outRemainder) = split_time 1000 clock;
     ns16 = outRemainder * 1000000000 sdiv 10 ^ 12 in word_of_int (push_bit 16 outValue + ns16))"

definition word_clock :: "64 word \<Rightarrow> clocktime" where
  "word_clock v = (let ns16 = sint v; t1 = drop_bit 16 ns16 * 1000;
     fraction = (ns16 AND 0xFFFF) * 10 ^ 12 sdiv 1000000000 in t1 + drop_bit 16 fraction)"

definition writeClock8 :: "clocktime \<Rightarrow> ostream \<Rightarrow> ostream" where
  "writeClock8 clock s = writeUint64Be (clock_word clock) s"

definition readClock8 :: "(istream, clocktime) state" where
  "readClock8 = do { v \<leftarrow> readUint64Be; State_Monad.return (word_clock v) }"

definition writeTimestamp :: "clocktime \<Rightarrow> ostream \<Rightarrow> ostream" where
  "writeTimestamp clock s =
     (let (seconds, t) = split_time (10 ^ 12) clock; (ns, t') = split_time 1000 t
      in writeUint32Be (word_of_int ns) (writeUint48Be (word_of_int seconds) s))"

definition readTimestamp :: "(istream, clocktime) state" where
  "readTimestamp = do { seconds \<leftarrow> readUint48Be; ns \<leftarrow> readUint32Be;
     State_Monad.return (sint seconds * 10 ^ 12 + uint ns * 1000) }"

definition writeScaledNS :: "clocktime \<Rightarrow> ostream \<Rightarrow> ostream" where
  "writeScaledNS clock s = writeUint64Be (clock_word clock) (writeUint32Be (if clock \<ge> 0 then 0 else 0xFFFFFFFF) s)"

text \<open>\<open>None\<close> is the exception for a number that does not fit.\<close>

definition readScaledNS :: "(istream, clocktime option) state" where
  "readScaledNS = do { x \<leftarrow> readUint32Be; v \<leftarrow> readUint64Be;
     State_Monad.return (if (sint v < 0 \<and> sint x \<noteq> -1) \<or> (sint v \<ge> 0 \<and> sint x \<noteq> 0) then None else Some (word_clock v)) }"

subsection \<open>Parts\<close>

definition writePortIdentity :: "port_identity \<Rightarrow> ostream \<Rightarrow> ostream" where
  "writePortIdentity p s = writeUint16Be (pi_portNumber p) (writeUint64Be (pi_clockIdentity p) s)"

definition readPortIdentity :: "(istream, port_identity) state" where
  "readPortIdentity = do { c \<leftarrow> readUint64Be; n \<leftarrow> readUint16Be;
     State_Monad.return \<lparr>pi_clockIdentity = c, pi_portNumber = n\<rparr> }"

definition writeGptpBase :: "8 word \<Rightarrow> gptp_base \<Rightarrow> ostream \<Rightarrow> ostream" where
  "writeGptpBase type g s =
     (let s = writeUint4 (gb_majorSdoId g) s; s = writeUint4 type s;
          s = writeUint4 (gb_minorVersionPTP g) s; s = writeUint4 (gb_versionPTP g) s;
          s = writeUint16Be (gb_messageLengthField g) s; s = writeUint8 (gb_domainNumber g) s;
          s = writeUint8 (gb_minorSdoId g) s; s = writeUint16Be (gb_flags g) s;
          s = writeClock8 (gb_correctionField g) s; s = writeUint32Be (gb_messageTypeSpecific g) s;
          s = writePortIdentity (gb_sourcePortIdentity g) s; s = writeUint16Be (gb_sequenceId g) s;
          s = writeUint8 (gb_controlField g) s
      in writeUint8 (gb_logMessageInterval g) s)"

definition readGptpBase :: "(istream, 8 word \<times> gptp_base) state" where
  "readGptpBase = do {
     majorSdoId \<leftarrow> readUint4; type \<leftarrow> readUint4; minorVersion \<leftarrow> readUint4; version \<leftarrow> readUint4;
     len \<leftarrow> readUint16Be; domain \<leftarrow> readUint8; minorSdoId \<leftarrow> readUint8; flags \<leftarrow> readUint16Be;
     correction \<leftarrow> readClock8; specific \<leftarrow> readUint32Be; port \<leftarrow> readPortIdentity; seq \<leftarrow> readUint16Be;
     control \<leftarrow> readUint8; interval \<leftarrow> readUint8;
     State_Monad.return (type, \<lparr>gb_majorSdoId = majorSdoId, gb_minorVersionPTP = minorVersion, gb_versionPTP = version,
       gb_messageLengthField = len, gb_domainNumber = domain, gb_minorSdoId = minorSdoId, gb_flags = flags,
       gb_correctionField = correction, gb_messageTypeSpecific = specific, gb_sourcePortIdentity = port,
       gb_sequenceId = seq, gb_controlField = control, gb_logMessageInterval = interval\<rparr>) }"

definition writeFollowUpInformationTlv :: "gptp_tlv \<Rightarrow> ostream \<Rightarrow> ostream" where
  "writeFollowUpInformationTlv v s =
     (let s = writeUint16Be (tlv_tlvType v) s; s = writeUint16Be (tlv_lengthField v) s;
          s = writeUint24Be (tlv_organizationId v) s; s = writeUint24Be (tlv_organizationSubType v) s;
          s = writeUint32Be (tlv_cumulativeScaledRateOffset v) s; s = writeUint16Be (tlv_gmTimeBaseIndicator v) s;
          s = writeScaledNS (tlv_lastGmPhaseChange v) s
      in writeUint32Be (tlv_scaledLastGmFreqChange v) s)"

definition readFollowUpInformationTlv :: "(istream, gptp_tlv option) state" where
  "readFollowUpInformationTlv = do {
     type \<leftarrow> readUint16Be; len \<leftarrow> readUint16Be; org \<leftarrow> readUint24Be; sub \<leftarrow> readUint24Be;
     rate \<leftarrow> readUint32Be; base \<leftarrow> readUint16Be; phase \<leftarrow> readScaledNS; freq \<leftarrow> readUint32Be;
     State_Monad.return (map_option (\<lambda>c. \<lparr>tlv_tlvType = type, tlv_lengthField = len, tlv_organizationId = org,
       tlv_organizationSubType = sub, tlv_cumulativeScaledRateOffset = rate, tlv_gmTimeBaseIndicator = base,
       tlv_lastGmPhaseChange = c, tlv_scaledLastGmFreqChange = freq\<rparr>) phase) }"

subsection \<open>Messages\<close>

text \<open>A sync message without the two-step flag is not implemented: \<open>None\<close>.\<close>

fun serialize_gptp :: "gptp_base \<times> gptp_body \<Rightarrow> ostream \<Rightarrow> ostream option" where
  "serialize_gptp (g, b) s =
     (let s = writeGptpBase (messageType b) g s in
      case b of
        SyncPart \<Rightarrow> if gb_flags g AND twoStepFlag \<noteq> 0 then Some (writeByteRepeatedly 0 10 s) else None
      | FollowUpPart t tlv \<Rightarrow> Some (writeFollowUpInformationTlv tlv (writeTimestamp t s))
      | PdelayReqPart \<Rightarrow> Some (writeByteRepeatedly 0 10 (writeByteRepeatedly 0 10 s))
      | PdelayRespPart t p \<Rightarrow> Some (writePortIdentity p (writeTimestamp t s))
      | PdelayRespFollowUpPart t p \<Rightarrow> Some (writePortIdentity p (writeTimestamp t s)))"

text \<open>The reader after the common part, by the message type.\<close>

definition read_gptp_body :: "8 word \<Rightarrow> gptp_base \<Rightarrow> (istream, gptp_body option) state" where
  "read_gptp_body type g =
     (if type = 0x8 then do { t \<leftarrow> readTimestamp; tlv \<leftarrow> readFollowUpInformationTlv;
          State_Monad.return (map_option (FollowUpPart t) tlv) }
      else if type = 0x2 then do { _ \<leftarrow> readByteRepeatedly 0 10; _ \<leftarrow> readByteRepeatedly 0 10;
          State_Monad.return (Some PdelayReqPart) }
      else if type = 0x3 then do { t \<leftarrow> readTimestamp; p \<leftarrow> readPortIdentity;
          State_Monad.return (Some (PdelayRespPart t p)) }
      else if type = 0xA then do { t \<leftarrow> readTimestamp; p \<leftarrow> readPortIdentity;
          State_Monad.return (Some (PdelayRespFollowUpPart t p)) }
      else if gb_flags g AND twoStepFlag \<noteq> 0
        then do { _ \<leftarrow> readByteRepeatedly 0 10; State_Monad.return (Some SyncPart) }
        else State_Monad.return None)"

definition stream_position :: "(istream, nat) state" where
  "stream_position = State (\<lambda>s. (is_position s, s))"

text \<open>The message type is read first; then the stream is set back.\<close>

definition deserialize_gptp :: "(istream, (gptp_base \<times> gptp_body) option) state" where
  "deserialize_gptp = do {
     startPos \<leftarrow> stream_position;
     _ \<leftarrow> readUint4;
     type \<leftarrow> readUint4;
     _ \<leftarrow> seek startPos;
     if type \<in> {0x0, 0x8, 0x2, 0x3, 0xA}
     then do { (type', g) \<leftarrow> readGptpBase; b \<leftarrow> read_gptp_body type g;
          State_Monad.return (map_option (\<lambda>b. (g, b)) b) }
     else State_Monad.return None
   }"

section \<open>Times survive to the nanosecond\<close>

definition whole_ns :: "clocktime \<Rightarrow> clocktime" where
  "whole_ns c = c sdiv 1000 * 1000"

definition clock_fits :: "clocktime \<Rightarrow> bool" where
  "clock_fits c \<longleftrightarrow> - (2 ^ 47) \<le> c sdiv 1000 \<and> c sdiv 1000 < 2 ^ 47"

lemma smod_1000: "\<bar>c smod 1000\<bar> < 1000" for c :: int
  by (simp add: signed_modulo_int_def abs_mult)

lemma below_ns: "c smod 1000 * 1000000000 sdiv 10 ^ 12 = 0" for c :: int
proof -
  have "\<bar>c smod 1000 * 1000000000\<bar> < 10 ^ 12" using smod_1000[of c] by (simp add: abs_mult)
  then have "\<bar>c smod 1000 * 1000000000\<bar> div 10 ^ 12 = 0" by simp
  then show ?thesis by (simp add: signed_divide_int_def)
qed

lemma clock_word_eq: "clock_word c = word_of_int (c sdiv 1000 * 2 ^ 16)"
  unfolding clock_word_def split_time_def Let_def prod.case below_ns by (simp add: push_bit_eq_mult)

lemma sint_of_int: "- (2 ^ 63) \<le> x \<Longrightarrow> x < 2 ^ 63 \<Longrightarrow> sint (word_of_int x :: 64 word) = x"
  unfolding sint_sbintrunc' by (rule signed_take_bit_int_eq_self) simp_all

lemma sint_clock_word: "clock_fits c \<Longrightarrow> sint (clock_word c) = c sdiv 1000 * 2 ^ 16"
  unfolding clock_word_eq clock_fits_def by (rule sint_of_int) auto

lemma div_nonneg:
  fixes a b :: int
  assumes "0 \<le> a" "0 < b" shows "a sdiv b = a div b" "a smod b = a mod b"
  using assms by (cases "a = 0"; simp add: signed_divide_int_def signed_modulo_int_def)+

lemma word_clock_word:
  assumes "clock_fits c" shows "word_clock (clock_word c) = whole_ns c"
proof -
  let ?q = "c sdiv 1000"
  have m: "(0xFFFF :: int) = mask 16" by (simp add: mask_eq_exp_minus_1)
  have "?q * 2 ^ 16 AND mask 16 = 0" unfolding take_bit_eq_mask[symmetric] by (simp add: take_bit_eq_mod)
  moreover have "drop_bit 16 (?q * 2 ^ 16) = ?q" by (simp add: drop_bit_eq_div)
  ultimately show ?thesis
    unfolding word_clock_def Let_def sint_clock_word[OF assms] m whole_ns_def by simp
qed

lemma reads_Clock8: "clock_fits c \<Longrightarrow> reads readClock8 (word_bits 64 (clock_word c)) (whole_ns c)"
  unfolding readClock8_def by (intro reads_then_return[OF reads_Uint64Be]) (simp add: word_clock_word)

definition timestamp_fits :: "clocktime \<Rightarrow> bool" where
  "timestamp_fits c \<longleftrightarrow> 0 \<le> c \<and> c < 2 ^ 47 * 10 ^ 12"

definition timestamp_bits :: "clocktime \<Rightarrow> bool list" where
  "timestamp_bits c = word_bits 48 (word_of_int (c sdiv 10 ^ 12) :: 64 word)
     @ word_bits 32 (word_of_int (c smod 10 ^ 12 sdiv 1000) :: 32 word)"

lemma writes_Timestamp: "writes (writeTimestamp c) (timestamp_bits c)"
  using writes_comp[OF writes_Uint48Be writes_Uint32Be]
  by (simp add: writeTimestamp_def[abs_def] split_time_def timestamp_bits_def)

lemma reads_Timestamp:
  assumes "timestamp_fits c" shows "reads readTimestamp (timestamp_bits c) (whole_ns c)"
proof -
  define q where "q = c div 10 ^ 12"
  define r where "r = c mod 10 ^ 12 div 1000"
  have c: "0 \<le> c" using assms by (simp add: timestamp_fits_def)
  have sd: "c sdiv 10 ^ 12 = q" "c smod 10 ^ 12 sdiv 1000 = r" "c sdiv 1000 = c div 1000"
    using c by (simp_all add: q_def r_def div_nonneg)
  have "c div 10 ^ 12 \<le> (2 ^ 47 * 10 ^ 12 - 1) div 10 ^ 12"
    by (rule zdiv_mono1) (use assms in \<open>auto simp: timestamp_fits_def\<close>)
  then have q: "0 \<le> q" "q < 2 ^ 47" using c by (simp_all add: q_def pos_imp_zdiv_nonneg_iff)
  have r: "0 \<le> r" "r < 2 ^ 32" using pos_mod_bound[of "10 ^ 12" c] pos_mod_sign[of "10 ^ 12" c] unfolding r_def by (simp_all add: pos_imp_zdiv_nonneg_iff)
  have "take_bit 48 q = q" using q by (intro take_bit_int_eq_self) auto
  then have b: "n < 48" if "bit q n" for n using that by (metis bit_take_bit_iff)
  have wq: "take_bit 48 (word_of_int q :: 64 word) = word_of_int q"
    by (rule bit_word_eqI) (auto simp: bit_simps dest: b)
  have "sint (word_of_int q :: 64 word) = q" by (rule sint_of_int) (use q in auto)
  moreover have "uint (word_of_int r :: 32 word) = r" using r by (simp add: uint_word_of_int_eq take_bit_int_eq_self)
  moreover have "q * 10 ^ 12 + r * 1000 = c div 1000 * 1000"
  proof -
    define m where "m = c mod 10 ^ 12"
    have "c = m + (q * 10 ^ 9) * 1000" unfolding m_def q_def using mod_div_mult_eq[of c "10 ^ 12"] by simp
    then have "c div 1000 = (m + (q * 10 ^ 9) * 1000) div 1000" by simp
    also have "\<dots> = q * 10 ^ 9 + m div 1000" by (rule div_mult_self1) simp
    finally show ?thesis unfolding r_def m_def[symmetric] by (simp add: algebra_simps)
  qed
  ultimately show ?thesis
    unfolding readTimestamp_def timestamp_bits_def sd whole_ns_def
    by (intro reads_bind[OF reads_Uint48Be[OF wq]] reads_then_return[OF reads_Uint32Be]) simp
qed

definition scaled_fits :: "clocktime \<Rightarrow> bool" where
  "scaled_fits c \<longleftrightarrow> clock_fits c \<and> (0 \<le> c \<or> c \<le> -1000)"

definition scaled_bits :: "clocktime \<Rightarrow> bool list" where
  "scaled_bits c = word_bits 32 (if c \<ge> 0 then 0 else 0xFFFFFFFF :: 32 word) @ word_bits 64 (clock_word c)"

lemma writes_ScaledNS: "writes (writeScaledNS c) (scaled_bits c)"
  using writes_comp[OF writes_Uint32Be writes_Uint64Be] by (simp add: writeScaledNS_def[abs_def] scaled_bits_def)

lemma sdiv_sign: "c sdiv 1000 < 0 \<longleftrightarrow> c \<le> -1000" for c :: int
proof (cases "0 \<le> c")
  case True then show ?thesis by (simp add: div_nonneg pos_imp_zdiv_neg_iff)
next
  case False
  then have "c sdiv 1000 = - ((- c) div 1000)" by (simp add: signed_divide_int_def)
  moreover have "0 < (- c) div 1000 \<longleftrightarrow> 1000 \<le> - c" by (simp add: pos_imp_zdiv_pos_iff)
  moreover have "1000 \<le> - c \<longleftrightarrow> c \<le> -1000" by linarith
  ultimately show ?thesis by simp
qed

lemma reads_ScaledNS_any:
  assumes "clock_fits c"
  shows "reads readScaledNS (scaled_bits c) (if 0 \<le> c \<or> c \<le> -1000 then Some (whole_ns c) else None)"
proof -
  have s: "sint (clock_word c) < 0 \<longleftrightarrow> c \<le> -1000" unfolding sint_clock_word[OF assms] using sdiv_sign[of c] by simp
  have m: "sint (0xFFFFFFFF :: 32 word) = -1" by simp
  show ?thesis unfolding readScaledNS_def scaled_bits_def
    by (intro reads_bind[OF reads_Uint32Be] reads_then_return[OF reads_Uint64Be])
      (use s in \<open>auto simp: word_clock_word[OF assms] m not_less\<close>)
qed

lemma reads_ScaledNS: "scaled_fits c \<Longrightarrow> reads readScaledNS (scaled_bits c) (Some (whole_ns c))"
  using reads_ScaledNS_any[of c] by (simp add: scaled_fits_def)

section \<open>A message is read back\<close>

definition port_bits :: "port_identity \<Rightarrow> bool list" where
  "port_bits p = word_bits 64 (pi_clockIdentity p) @ word_bits 16 (pi_portNumber p)"

lemma writes_PortIdentity: "writes (writePortIdentity p) (port_bits p)"
  using writes_comp[OF writes_Uint64Be writes_Uint16Be] by (simp add: writePortIdentity_def[abs_def] port_bits_def)

lemma reads_PortIdentity: "reads readPortIdentity (port_bits p) p"
  unfolding readPortIdentity_def port_bits_def
  by (intro reads_bind[OF reads_Uint64Be] reads_then_return[OF reads_Uint16Be]) simp

lemma writes_Clock8: "writes (writeClock8 c) (word_bits 64 (clock_word c))"
  unfolding writeClock8_def[abs_def] by (rule writes_Uint64Be)

text \<open>The bits of the common part, from the first field to the last.\<close>

definition base_bits :: "8 word \<Rightarrow> gptp_base \<Rightarrow> bool list" where
  "base_bits type g = word_bits 4 (gb_majorSdoId g) @ word_bits 4 type @ word_bits 4 (gb_minorVersionPTP g)
     @ word_bits 4 (gb_versionPTP g) @ word_bits 16 (gb_messageLengthField g) @ byte_bits (gb_domainNumber g)
     @ byte_bits (gb_minorSdoId g) @ word_bits 16 (gb_flags g) @ word_bits 64 (clock_word (gb_correctionField g))
     @ word_bits 32 (gb_messageTypeSpecific g) @ port_bits (gb_sourcePortIdentity g) @ word_bits 16 (gb_sequenceId g)
     @ byte_bits (gb_controlField g) @ byte_bits (gb_logMessageInterval g)"

definition base_fits :: "gptp_base \<Rightarrow> bool" where
  "base_fits g \<longleftrightarrow> gb_majorSdoId g < 16 \<and> gb_minorVersionPTP g < 16 \<and> gb_versionPTP g < 16 \<and> clock_fits (gb_correctionField g)"

definition whole_base :: "gptp_base \<Rightarrow> gptp_base" where
  "whole_base g = g\<lparr>gb_correctionField := whole_ns (gb_correctionField g)\<rparr>"

lemma writes_GptpBase: "writes (writeGptpBase type g) (base_bits type g)"
  unfolding writeGptpBase_def[abs_def] base_bits_def Let_def
  using writes_comp[OF writes_Uint4[of "gb_majorSdoId g"] writes_comp[OF writes_Uint4[of type]
    writes_comp[OF writes_Uint4[of "gb_minorVersionPTP g"] writes_comp[OF writes_Uint4[of "gb_versionPTP g"]
    writes_comp[OF writes_Uint16Be[of "gb_messageLengthField g"] writes_comp[OF writes_Uint8[of "gb_domainNumber g"]
    writes_comp[OF writes_Uint8[of "gb_minorSdoId g"] writes_comp[OF writes_Uint16Be[of "gb_flags g"]
    writes_comp[OF writes_Clock8[of "gb_correctionField g"] writes_comp[OF writes_Uint32Be[of "gb_messageTypeSpecific g"]
    writes_comp[OF writes_PortIdentity[of "gb_sourcePortIdentity g"] writes_comp[OF writes_Uint16Be[of "gb_sequenceId g"]
    writes_comp[OF writes_Uint8[of "gb_controlField g"] writes_Uint8[of "gb_logMessageInterval g"]]]]]]]]]]]]]] .

lemma reads_GptpBase:
  assumes "base_fits g" "type < 16" shows "reads readGptpBase (base_bits type g) (type, whole_base g)"
  using assms unfolding readGptpBase_def base_bits_def base_fits_def
  by (elim conjE) (intro reads_bind[OF reads_Uint4] reads_bind[OF reads_Uint16Be] reads_bind[OF reads_Uint8]
      reads_bind[OF reads_Clock8] reads_bind[OF reads_Uint32Be] reads_bind[OF reads_PortIdentity]
      reads_then_return[OF reads_Uint8]; simp add: whole_base_def)

definition tlv_bits :: "gptp_tlv \<Rightarrow> bool list" where
  "tlv_bits v = word_bits 16 (tlv_tlvType v) @ word_bits 16 (tlv_lengthField v) @ word_bits 24 (tlv_organizationId v)
     @ word_bits 24 (tlv_organizationSubType v) @ word_bits 32 (tlv_cumulativeScaledRateOffset v)
     @ word_bits 16 (tlv_gmTimeBaseIndicator v) @ scaled_bits (tlv_lastGmPhaseChange v)
     @ word_bits 32 (tlv_scaledLastGmFreqChange v)"

definition tlv_fits :: "gptp_tlv \<Rightarrow> bool" where
  "tlv_fits v \<longleftrightarrow> take_bit 24 (tlv_organizationId v) = tlv_organizationId v \<and>
     take_bit 24 (tlv_organizationSubType v) = tlv_organizationSubType v \<and> scaled_fits (tlv_lastGmPhaseChange v)"

definition whole_tlv :: "gptp_tlv \<Rightarrow> gptp_tlv" where
  "whole_tlv v = v\<lparr>tlv_lastGmPhaseChange := whole_ns (tlv_lastGmPhaseChange v)\<rparr>"

lemma writes_Tlv: "writes (writeFollowUpInformationTlv v) (tlv_bits v)"
  unfolding writeFollowUpInformationTlv_def[abs_def] tlv_bits_def Let_def
  using writes_comp[OF writes_Uint16Be[of "tlv_tlvType v"] writes_comp[OF writes_Uint16Be[of "tlv_lengthField v"]
    writes_comp[OF writes_Uint24Be[of "tlv_organizationId v"] writes_comp[OF writes_Uint24Be[of "tlv_organizationSubType v"]
    writes_comp[OF writes_Uint32Be[of "tlv_cumulativeScaledRateOffset v"] writes_comp[OF writes_Uint16Be[of "tlv_gmTimeBaseIndicator v"]
    writes_comp[OF writes_ScaledNS[of "tlv_lastGmPhaseChange v"] writes_Uint32Be[of "tlv_scaledLastGmFreqChange v"]]]]]]]] .

lemma reads_Tlv:
  assumes "tlv_fits v" shows "reads readFollowUpInformationTlv (tlv_bits v) (Some (whole_tlv v))"
  using assms unfolding readFollowUpInformationTlv_def tlv_bits_def tlv_fits_def
  by (elim conjE) (intro reads_bind[OF reads_Uint16Be] reads_bind[OF reads_Uint24Be] reads_bind[OF reads_Uint32Be]
      reads_bind[OF reads_ScaledNS] reads_then_return[OF reads_Uint32Be]; simp add: whole_tlv_def)

fun body_bits :: "gptp_body \<Rightarrow> bool list" where
  "body_bits SyncPart = concat (replicate 10 (byte_bits 0))"
| "body_bits (FollowUpPart t v) = timestamp_bits t @ tlv_bits v"
| "body_bits PdelayReqPart = concat (replicate 10 (byte_bits 0)) @ concat (replicate 10 (byte_bits 0))"
| "body_bits (PdelayRespPart t p) = timestamp_bits t @ port_bits p"
| "body_bits (PdelayRespFollowUpPart t p) = timestamp_bits t @ port_bits p"

fun body_fits :: "gptp_base \<Rightarrow> gptp_body \<Rightarrow> bool" where
  "body_fits g SyncPart = (gb_flags g AND twoStepFlag \<noteq> 0)"
| "body_fits g (FollowUpPart t v) = (timestamp_fits t \<and> tlv_fits v)"
| "body_fits g PdelayReqPart = True"
| "body_fits g (PdelayRespPart t p) = timestamp_fits t"
| "body_fits g (PdelayRespFollowUpPart t p) = timestamp_fits t"

fun whole_body :: "gptp_body \<Rightarrow> gptp_body" where
  "whole_body (FollowUpPart t v) = FollowUpPart (whole_ns t) (whole_tlv v)"
| "whole_body (PdelayRespPart t p) = PdelayRespPart (whole_ns t) p"
| "whole_body (PdelayRespFollowUpPart t p) = PdelayRespFollowUpPart (whole_ns t) p"
| "whole_body b = b"

lemma reads_body:
  assumes "body_fits g b"
  shows "reads (read_gptp_body (messageType b) (whole_base g)) (body_bits b) (Some (whole_body b))"
proof (cases b)
  case SyncPart
  then show ?thesis using assms
    by (auto simp: read_gptp_body_def whole_base_def intro!: reads_then_return[OF reads_byteRepeatedly])
next
  case (FollowUpPart t v)
  then show ?thesis using assms
    by (auto simp: read_gptp_body_def intro!: reads_bind[OF reads_Timestamp] reads_then_return[OF reads_Tlv])
next
  case PdelayReqPart
  then show ?thesis unfolding read_gptp_body_def
    by (auto intro!: reads_bind[OF reads_byteRepeatedly] reads_then_return[OF reads_byteRepeatedly])
next
  case (PdelayRespPart t p)
  then show ?thesis using assms
    by (auto simp: read_gptp_body_def intro!: reads_bind[OF reads_Timestamp] reads_then_return[OF reads_PortIdentity])
next
  case (PdelayRespFollowUpPart t p)
  then show ?thesis using assms
    by (auto simp: read_gptp_body_def intro!: reads_bind[OF reads_Timestamp] reads_then_return[OF reads_PortIdentity])
qed

lemma writes_gptp:
  assumes "body_fits g b"
  shows "writes (\<lambda>s. the (serialize_gptp (g, b) s)) (base_bits (messageType b) g @ body_bits b)"
proof (cases b)
  case SyncPart
  then show ?thesis using assms writes_comp[OF writes_GptpBase writes_byteRepeatedly[of 0 10]] by simp
next
  case (FollowUpPart t v)
  then show ?thesis using writes_comp[OF writes_GptpBase writes_comp[OF writes_Timestamp writes_Tlv]] by simp
next
  case PdelayReqPart
  then show ?thesis
    using writes_comp[OF writes_GptpBase writes_comp[OF writes_byteRepeatedly[of 0 10] writes_byteRepeatedly[of 0 10]]] by simp
next
  case (PdelayRespPart t p)
  then show ?thesis using writes_comp[OF writes_GptpBase writes_comp[OF writes_Timestamp writes_PortIdentity]] by simp
next
  case (PdelayRespFollowUpPart t p)
  then show ?thesis using writes_comp[OF writes_GptpBase writes_comp[OF writes_Timestamp writes_PortIdentity]] by simp
qed

lemma messageType_small: "messageType b < 16"
  by (cases b) simp_all

lemma messageType_known: "messageType b \<in> {0x0, 0x8, 0x2, 0x3, 0xA}"
  by (cases b) simp_all

text \<open>Looking at the type moves the stream forth and back.\<close>

lemma deserialize_gptp_peek:
  assumes "is_wf s" "is_rest s = base_bits type g @ r" "gb_majorSdoId g < 16" "type < 16"
    "type \<in> {0x0, 0x8, 0x2, 0x3, 0xA}"
  shows "run_state deserialize_gptp s = run_state (do { (type', g) \<leftarrow> readGptpBase; b \<leftarrow> read_gptp_body type g;
    State_Monad.return (map_option (\<lambda>b. (g, b)) b) }) s"
proof -
  obtain r' where r: "is_rest s = word_bits 4 (gb_majorSdoId g) @ word_bits 4 type @ r'"
    using assms(2) by (auto simp: base_bits_def)
  have a: "run_state readUint4 s = (gb_majorSdoId g, advance 4 s)"
    using reads_Uint4[OF assms(3)] assms(1) r by (simp add: reads_def)
  have "is_wf (advance 4 s)" "is_rest (advance 4 s) = word_bits 4 type @ r'"
    using advance_ok[OF assms(1) r] by simp_all
  then have b: "run_state readUint4 (advance 4 s) = (type, advance 4 (advance 4 s))"
    using reads_Uint4[OF assms(4)] by (simp add: reads_def del: advance_add)
  have c: "(advance 4 (advance 4 s))\<lparr>is_position := is_position s\<rparr> = s" by (simp add: advance_def)
  show ?thesis unfolding deserialize_gptp_def
    using a b c assms(5) by (simp add: State_Monad.bind_def stream_position_def seek_def del: advance_add)
qed

lemma reads_gptp:
  assumes "base_fits g" "body_fits g b"
  shows "reads deserialize_gptp (base_bits (messageType b) g @ body_bits b) (Some (whole_base g, whole_body b))"
proof -
  let ?m = "do { (type', g) \<leftarrow> readGptpBase; b' \<leftarrow> read_gptp_body (messageType b) g;
    State_Monad.return (map_option (\<lambda>b. (g, b)) b') }"
  have m: "reads ?m (base_bits (messageType b) g @ body_bits b) (Some (whole_base g, whole_body b))"
    by (rule reads_bind[OF reads_GptpBase[OF assms(1) messageType_small]])
      (use reads_then_return[OF reads_body[OF assms(2)], of "Some (whole_base g, whole_body b)" "map_option (Pair (whole_base g))"] in simp)
  have g: "gb_majorSdoId g < 16" using assms(1) by (simp add: base_fits_def)
  have "run_state deserialize_gptp s = run_state ?m s" if "is_wf s" "is_rest s = (base_bits (messageType b) g @ body_bits b) @ r" for s r
    by (rule deserialize_gptp_peek[OF that(1) _ g messageType_small messageType_known]) (use that(2) in simp)
  with m show ?thesis by (simp add: reads_def)
qed

text \<open>
  C29. A time synchronization message of any of the five kinds is read back from the stream it was written to:
  every field as it was, and every time rounded towards zero to a whole nanosecond, although the wire format
  of the correction field and of the phase change has sixteen bits below the nanosecond.
\<close>
theorem gptp_message_roundtrip:
  assumes "base_fits g" "body_fits g b"
  shows "\<exists>t s. serialize_gptp (g, b) empty_ostream = Some t \<and>
    run_state deserialize_gptp (reopen t) = (Some (whole_base g, whole_body b), s) \<and> is_rest s = [] \<and> \<not> is_beyond s"
proof -
  have "serialize_gptp (g, b) empty_ostream \<noteq> None" using assms(2) by (cases b) (auto simp: Let_def)
  then obtain t where t: "serialize_gptp (g, b) empty_ostream = Some t" by blast
  then show ?thesis using write_read[OF writes_gptp[OF assms(2)] reads_gptp[OF assms]]
    by (auto simp: reopen_def open_istream_def advance_def simp del: serialize_gptp.simps)
qed

definition follow_up_base :: gptp_base where
  "follow_up_base = \<lparr>gb_majorSdoId = 1, gb_minorVersionPTP = 1, gb_versionPTP = 2, gb_messageLengthField = 76,
     gb_domainNumber = 0, gb_minorSdoId = 0, gb_flags = 0, gb_correctionField = -1234567, gb_messageTypeSpecific = 0,
     gb_sourcePortIdentity = \<lparr>pi_clockIdentity = 7, pi_portNumber = 1\<rparr>, gb_sequenceId = 3, gb_controlField = 0,
     gb_logMessageInterval = 0\<rparr>"

theorem gptp_message_roundtrip_witness:
  "\<exists>t s. serialize_gptp (follow_up_base, PdelayRespPart 1999 \<lparr>pi_clockIdentity = 8, pi_portNumber = 2\<rparr>) empty_ostream = Some t \<and>
    run_state deserialize_gptp (reopen t) = (Some (follow_up_base\<lparr>gb_correctionField := -1234000\<rparr>,
      PdelayRespPart 1000 \<lparr>pi_clockIdentity = 8, pi_portNumber = 2\<rparr>), s) \<and> is_rest s = [] \<and> \<not> is_beyond s"
proof -
  have "base_fits follow_up_base" by (simp add: base_fits_def follow_up_base_def clock_fits_def)
  moreover have "body_fits follow_up_base (PdelayRespPart 1999 \<lparr>pi_clockIdentity = 8, pi_portNumber = 2\<rparr>)"
    by (simp add: timestamp_fits_def)
  moreover have "whole_base follow_up_base = follow_up_base\<lparr>gb_correctionField := -1234000\<rparr>"
    by (simp add: whole_base_def follow_up_base_def whole_ns_def)
  ultimately show ?thesis
    using gptp_message_roundtrip[of follow_up_base "PdelayRespPart 1999 \<lparr>pi_clockIdentity = 8, pi_portNumber = 2\<rparr>"]
    by (simp add: whole_ns_def del: serialize_gptp.simps)
qed

text \<open>
  A phase change between zero and minus one nanosecond is written with the high word of a negative number
  and the low word zero, which the reader refuses with an exception: the message of such a clock step is lost.
\<close>
theorem scaled_ns_small_negative:
  assumes "-1000 < c" "c < 0"
  shows "fst (run_state readScaledNS (reopen (writeScaledNS c empty_ostream))) = None"
proof -
  have "c sdiv 1000 = 0" using assms by (simp add: signed_divide_int_def)
  then have "clock_fits c" by (simp add: clock_fits_def)
  then have r: "reads readScaledNS (scaled_bits c) None" using reads_ScaledNS_any[of c] assms by simp
  show ?thesis using write_read(1)[OF writes_ScaledNS r] by simp
qed

theorem scaled_ns_small_negative_witness:
  "fst (run_state readScaledNS (reopen (writeScaledNS (-500) empty_ostream))) = None"
  by (rule scaled_ns_small_negative) simp_all

section \<open>A configuration message loses its body\<close>

text \<open>Past its end a stream gives zeros and stays as it is.\<close>

definition past_end :: "istream \<Rightarrow> bool" where
  "past_end s \<longleftrightarrow> is_position s = is_length s \<and> is_beyond s"

definition dry :: "(istream, 'a) state \<Rightarrow> 'a \<Rightarrow> bool" where
  "dry m x \<longleftrightarrow> (\<forall>s. past_end s \<longrightarrow> run_state m s = (x, s))"

lemma dry_return: "dry (State_Monad.return x) x"
  by (simp add: dry_def State_Monad.return_def)

lemma dry_bind: "dry m x \<Longrightarrow> dry (f x) y \<Longrightarrow> dry (State_Monad.bind m f) y"
  by (simp add: dry_def State_Monad.bind_def)

lemma dry_bit: "dry readBit False"
  by (simp add: dry_def past_end_def readBit_def)

lemma dry_byte: "dry readByte 0"
  by (simp add: dry_def past_end_def readByte_def)

lemma dry_bytes_into: "dry (read_bytes_into ks v) v"
  by (induction ks arbitrary: v) (auto intro!: dry_return dry_bind[OF dry_byte])

lemma dry_Uint16Be: "dry readUint16Be 0"
  unfolding readUint16Be_def by (rule dry_bytes_into)

lemma dry_Uint32Be: "dry readUint32Be 0"
  unfolding readUint32Be_def by (rule dry_bytes_into)

lemma dry_MacAddress: "dry readMacAddress UNSPECIFIED_ADDRESS"
proof -
  have "dry (read_address_bytes ks UNSPECIFIED_ADDRESS) UNSPECIFIED_ADDRESS" if "\<forall>k \<in> set ks. k < MAC_ADDRESS_SIZE" for ks
    using that
  proof (induction ks)
    case (Cons k ks)
    then have "set_byte k 0 UNSPECIFIED_ADDRESS = UNSPECIFIED_ADDRESS"
      by (simp add: set_byte_def setAddressByte_def UNSPECIFIED_ADDRESS_def)
    with Cons show ?case by (auto intro!: dry_bind[OF dry_byte])
  qed (simp add: dry_return)
  then show ?thesis by (simp add: readMacAddress_def)
qed

lemma dry_n_bits: "dry (read_n_bits n mul num) num"
  by (induction n arbitrary: mul) (auto intro!: dry_return dry_bind[OF dry_bit])

lemma dry_reserved: "dry (the (readNBitsToUint64Be 6)) 0"
  by (simp add: readNBitsToUint64Be_def dry_n_bits)

lemma cfg_from_nothing:
  assumes "is_position s = is_length s"
  shows "run_state (deserialize_bpdu_cfg p v) s = (CfgMessage p v 0 BpduCfg, s\<lparr>is_beyond := True\<rparr>)"
proof -
  have "dry (deserialize_bpdu_fields p v False) (CfgMessage p v 0 BpduCfg)"
    unfolding deserialize_bpdu_fields_def BpduCfg_def
    by (auto intro!: dry_bind[OF dry_bit] dry_bind[OF dry_reserved] dry_bind[OF dry_Uint16Be]
      dry_bind[OF dry_MacAddress] dry_bind[OF dry_Uint32Be] dry_bind[OF dry_byte] simp: dry_return time_of_256_def)
  moreover have "run_state readBit s = (False, s\<lparr>is_beyond := True\<rparr>)" using assms by (simp add: readBit_def)
  ultimately show ?thesis using assms by (simp add: deserialize_bpdu_cfg_def State_Monad.bind_def dry_def past_end_def)
qed

definition bpdu_base_bits :: "16 word \<Rightarrow> 8 word \<Rightarrow> 8 word \<Rightarrow> bool list" where
  "bpdu_base_bits p v type = word_bits 16 p @ byte_bits v @ byte_bits type"

lemma writes_bpdu_base: "writes (serialize_bpdu_base p v type) (bpdu_base_bits p v type)"
  using writes_comp[OF writes_Uint16Be[of p] writes_comp[OF writes_Uint8[of v] writes_Uint8[of type]]]
  by (simp add: serialize_bpdu_base_def[abs_def] bpdu_base_bits_def)

text \<open>After the common part the type chooses what is read.\<close>

lemma deserialize_bpdu_base:
  fixes p :: "16 word" and v type :: "8 word"
  defines "s \<equiv> advance 32 (reopen (serialize_bpdu_base p v type empty_ostream))"
  shows "run_state deserialize_bpdu (reopen (serialize_bpdu_base p v type empty_ostream)) =
    run_state (if type = BPDU_CFG then do { m \<leftarrow> deserialize_bpdu_cfg p v; State_Monad.return (Some m) }
      else if type = BPDU_TCN then State_Monad.return (Some (TcnMessage p v)) else State_Monad.return None) s"
    "is_position s = is_length s" "\<not> is_beyond s"
proof -
  let ?r = "reopen (serialize_bpdu_base p v type empty_ostream)"
  have w: "is_wf ?r" "is_rest ?r = bpdu_base_bits p v type"
    using writes_bpdu_base[of p v type] reopen_ok by (simp_all add: writes_def)
  have a: "run_state readUint16Be ?r = (p, advance 16 ?r)"
    using reads_Uint16Be[of p] w by (simp add: reads_def bpdu_base_bits_def)
  have w1: "is_wf (advance 16 ?r)" "is_rest (advance 16 ?r) = byte_bits v @ byte_bits type"
    using advance_ok[OF w(1), of "word_bits 16 p"] w(2) by (simp_all add: bpdu_base_bits_def)
  have b: "run_state readUint8 (advance 16 ?r) = (v, advance 24 ?r)"
    using reads_Uint8[of v] w1 by (simp add: reads_def)
  have w2: "is_wf (advance 24 ?r)" "is_rest (advance 24 ?r) = byte_bits type @ []"
    using advance_ok[OF w1] by simp_all
  have c: "run_state readUint8 (advance 24 ?r) = (type, s)"
    using reads_Uint8[of type] w2 by (simp add: reads_def s_def)
  show "run_state deserialize_bpdu ?r =
    run_state (if type = BPDU_CFG then do { m \<leftarrow> deserialize_bpdu_cfg p v; State_Monad.return (Some m) }
      else if type = BPDU_TCN then State_Monad.return (Some (TcnMessage p v)) else State_Monad.return None) s"
    unfolding deserialize_bpdu_def by (simp add: State_Monad.bind_def a b c)
  have "is_rest s = []" "is_wf s" using advance_ok[OF w2] by (simp_all add: s_def)
  moreover have "length (is_rest s) = is_length s - is_position s" by simp
  ultimately show "is_position s = is_length s" by (simp add: is_wf_def)
  show "\<not> is_beyond s" by (simp add: s_def advance_def reopen_def open_istream_def)
qed

text \<open>
  Whatever configuration message a bridge sends, the four octets that are written are read back as a
  message whose root, bridge, costs, port and times are all zero, and the stream is marked as read beyond its
  end: the serializer leaves the switch before it writes the body. The notification message survives.
\<close>
theorem bpdu_body_lost:
  "(\<exists>s. run_state deserialize_bpdu (reopen (serialize_bpdu (CfgMessage p v r b) empty_ostream)) =
     (Some (CfgMessage p v 0 BpduCfg), s) \<and> is_beyond s) \<and>
   (\<exists>s. run_state deserialize_bpdu (reopen (serialize_bpdu (TcnMessage p v) empty_ostream)) =
     (Some (TcnMessage p v), s) \<and> \<not> is_beyond s)"
proof
  note d = deserialize_bpdu_base[of p v BPDU_CFG]
  show "\<exists>s. run_state deserialize_bpdu (reopen (serialize_bpdu (CfgMessage p v r b) empty_ostream)) =
     (Some (CfgMessage p v 0 BpduCfg), s) \<and> is_beyond s"
    unfolding serialize_bpdu.simps d(1) using cfg_from_nothing[OF d(2), of p v]
    by (simp add: State_Monad.bind_def State_Monad.return_def)
  note e = deserialize_bpdu_base[of p v BPDU_TCN]
  show "\<exists>s. run_state deserialize_bpdu (reopen (serialize_bpdu (TcnMessage p v) empty_ostream)) =
     (Some (TcnMessage p v), s) \<and> \<not> is_beyond s"
    unfolding serialize_bpdu.simps e(1) using e(3) by (simp add: BPDU_CFG_def BPDU_TCN_def State_Monad.return_def)
qed

end
