(* ===== verification/Fragmentation.thy ===== *)
theory Fragmentation
  imports Prelude
begin

text \<open>
  Fragmentation (src/inet/src/inet/protocolelement/fragmentation/): the policy that computes the lengths of the
  fragments, the fragmenters and the defragmenters, by fragment number header and by fragment tag.

  Lengths are in bits (\<open>b\<close>), the data of a packet is the list of its bits. The part of a packet that was popped
  from its front counts for \<open>getTotalLength\<close>, not for the data. \<open>None\<close> is an exception, or for the policy a
  loop that never ends.
\<close>

section \<open>Packets\<close>

record fragment_tag =
  ft_firstFragment :: bool
  ft_lastFragment :: bool
  ft_fragmentNumber :: int
  ft_numFragments :: int

record fpacket =
  fp_name :: string
  fp_popped :: nat
  fp_data :: "bool list"
  fp_header :: "(int \<times> bool) option"
  fp_tag :: "fragment_tag option"

definition new_packet :: "string \<Rightarrow> fpacket" where
  "new_packet n = \<lparr>fp_name = n, fp_popped = 0, fp_data = [], fp_header = None, fp_tag = None\<rparr>"

definition getTotalLength :: "fpacket \<Rightarrow> int" where
  "getTotalLength p = int (fp_popped p + length (fp_data p))"

definition peekDataAt :: "int \<Rightarrow> int \<Rightarrow> fpacket \<Rightarrow> bool list option" where
  "peekDataAt offset len p =
     (if 0 \<le> offset \<and> 0 \<le> len \<and> offset + len \<le> int (length (fp_data p))
      then Some (take (nat len) (drop (nat offset) (fp_data p))) else None)"

section \<open>The policy\<close>

record fragmenter_policy =
  maxFragmentLength :: int
  fragmentHeaderLength :: int

text \<open>The loop; it does not end when the header leaves no room in a fragment.\<close>

partial_function (option) fragment_loop :: "fragmenter_policy \<Rightarrow> int \<Rightarrow> int list \<Rightarrow> int list option" where
  "fragment_loop c remaining acc =
     (if fragmentHeaderLength c + remaining > maxFragmentLength c
      then (let fragmentLength = maxFragmentLength c - fragmentHeaderLength c
            in fragment_loop c (remaining - fragmentLength) (acc @ [fragmentLength]))
      else Some (if remaining \<noteq> 0 then acc @ [remaining] else acc))"

definition computeFragmentLengths :: "fragmenter_policy \<Rightarrow> fpacket \<Rightarrow> int list option" where
  "computeFragmentLengths c p =
     (if maxFragmentLength c \<ge> getTotalLength p then Some [getTotalLength p]
      else fragment_loop c (getTotalLength p) [])"

section \<open>The fragmenters\<close>

text \<open>Decimal digits (\<open>std::to_string\<close> of a number that is not negative).\<close>

fun to_string :: "nat \<Rightarrow> string" where
  "to_string n = (if n < 10 then [char_of (48 + n)] else to_string (n div 10) @ [char_of (48 + n mod 10)])"

declare to_string.simps [simp del]

definition base_fragment :: "fpacket \<Rightarrow> int \<Rightarrow> int \<Rightarrow> nat \<Rightarrow> fpacket option" where
  "base_fragment p offset len number =
     do { data \<leftarrow> peekDataAt offset len p;
          Some ((new_packet (fp_name p @ ''-frag'' @ to_string number))\<lparr>fp_data := data, fp_tag := fp_tag p\<rparr>) }"

definition header_fragment :: "fpacket \<Rightarrow> int \<Rightarrow> int \<Rightarrow> nat \<Rightarrow> nat \<Rightarrow> fpacket option" where
  "header_fragment p offset len number num =
     do { f \<leftarrow> base_fragment p offset len number;
          Some (f\<lparr>fp_header := Some (int number, number + 1 = num)\<rparr>) }"

text \<open>\<open>addTag\<close> throws when the packet has the tag already.\<close>

definition tag_fragment :: "fpacket \<Rightarrow> int \<Rightarrow> int \<Rightarrow> nat \<Rightarrow> nat \<Rightarrow> fpacket option" where
  "tag_fragment p offset len number num =
     do { f \<leftarrow> base_fragment p offset len number;
          ensure (fp_tag f = None);
          Some (f\<lparr>fp_tag := Some \<lparr>ft_firstFragment = number = 0, ft_lastFragment = number + 1 = num,
            ft_fragmentNumber = int number, ft_numFragments = int num\<rparr>\<rparr>) }"

type_synonym make_fragment = "fpacket \<Rightarrow> int \<Rightarrow> int \<Rightarrow> nat \<Rightarrow> nat \<Rightarrow> fpacket option"

fun push_fragments :: "make_fragment \<Rightarrow> fpacket \<Rightarrow> nat \<Rightarrow> int \<Rightarrow> nat \<Rightarrow> int list \<Rightarrow> fpacket list option" where
  "push_fragments mk p num offset number [] = Some []"
| "push_fragments mk p num offset number (len # lens) =
     do { f \<leftarrow> mk p offset len number num;
          fs \<leftarrow> push_fragments mk p num (offset + len) (number + 1) lens;
          Some (f # fs) }"

definition fragmenter_pushPacket :: "make_fragment \<Rightarrow> fragmenter_policy \<Rightarrow> fpacket \<Rightarrow> fpacket list option" where
  "fragmenter_pushPacket mk c p =
     do { lens \<leftarrow> computeFragmentLengths c p; push_fragments mk p (length lens) 0 0 lens }"

section \<open>The defragmenters\<close>

record defragmenter =
  df_expectedFragmentNumber :: int
  df_defragmentedPacket :: "fpacket option"

definition idle_defragmenter :: defragmenter where
  "idle_defragmenter = \<lparr>df_expectedFragmentNumber = 0, df_defragmentedPacket = None\<rparr>"

text \<open>The name up to the first \<open>-frag\<close>.\<close>

fun cut_frag :: "string \<Rightarrow> string" where
  "cut_frag [] = []"
| "cut_frag (c # cs) = (if take 5 (c # cs) = ''-frag'' then [] else c # cut_frag cs)"

definition startDefragmentation :: "fpacket \<Rightarrow> defragmenter \<Rightarrow> defragmenter option" where
  "startDefragmentation f d =
     do { ensure (df_defragmentedPacket d = None);
          Some (d\<lparr>df_defragmentedPacket := Some (new_packet (cut_frag (fp_name f)))\<rparr>) }"

definition continueDefragmentation :: "fpacket \<Rightarrow> defragmenter \<Rightarrow> defragmenter option" where
  "continueDefragmentation f d =
     do { p \<leftarrow> df_defragmentedPacket d;
          Some (d\<lparr>df_defragmentedPacket := Some (p\<lparr>fp_data := fp_data p @ fp_data f\<rparr>),
            df_expectedFragmentNumber := df_expectedFragmentNumber d + 1\<rparr>) }"

definition endDefragmentation :: "defragmenter \<Rightarrow> defragmenter" where
  "endDefragmentation d = d\<lparr>df_defragmentedPacket := None, df_expectedFragmentNumber := 0\<rparr>"

definition defragmentPacket :: "fpacket \<Rightarrow> bool \<Rightarrow> bool \<Rightarrow> bool \<Rightarrow> defragmenter \<Rightarrow> (fpacket list \<times> defragmenter) option" where
  "defragmentPacket f firstFragment lastFragment expectedFragment d =
     (if \<not> expectedFragment
      then Some ([], if df_defragmentedPacket d \<noteq> None then endDefragmentation d else d)
      else do {
        d \<leftarrow> (if firstFragment then startDefragmentation f d else Some d);
        d \<leftarrow> continueDefragmentation f d;
        p \<leftarrow> df_defragmentedPacket d;
        Some (if lastFragment then ([p], endDefragmentation d) else ([], d)) })"

definition header_defragmenter_pushPacket :: "fpacket \<Rightarrow> defragmenter \<Rightarrow> (fpacket list \<times> defragmenter) option" where
  "header_defragmenter_pushPacket f d =
     do { (number, lastFragment) \<leftarrow> fp_header f;
          defragmentPacket (f\<lparr>fp_header := None\<rparr>) (number = 0) lastFragment (number = df_expectedFragmentNumber d) d }"

definition tag_defragmenter_pushPacket :: "fpacket \<Rightarrow> defragmenter \<Rightarrow> (fpacket list \<times> defragmenter) option" where
  "tag_defragmenter_pushPacket f d =
     do { t \<leftarrow> fp_tag f;
          defragmentPacket f (ft_firstFragment t) (ft_lastFragment t)
            (ft_fragmentNumber t = -1 \<or> ft_fragmentNumber t = df_expectedFragmentNumber d) d }"

fun defragment_all :: "(fpacket \<Rightarrow> defragmenter \<Rightarrow> (fpacket list \<times> defragmenter) option) \<Rightarrow> fpacket list \<Rightarrow> defragmenter
    \<Rightarrow> (fpacket list \<times> defragmenter) option" where
  "defragment_all push [] d = Some ([], d)"
| "defragment_all push (f # fs) d =
     do { (out, d) \<leftarrow> push f d; (outs, d) \<leftarrow> defragment_all push fs d; Some (out @ outs, d) }"

text \<open>Moving the fragment number between the header and the tag.\<close>

definition insert_fragment_header :: "fpacket \<Rightarrow> fpacket option" where
  "insert_fragment_header p =
     do { t \<leftarrow> fp_tag p; Some (p\<lparr>fp_header := Some (ft_fragmentNumber t, ft_lastFragment t)\<rparr>) }"

definition check_fragment_header :: "fpacket \<Rightarrow> fpacket option" where
  "check_fragment_header p =
     do { (number, lastFragment) \<leftarrow> fp_header p;
          Some (p\<lparr>fp_header := None, fp_tag := Some \<lparr>ft_firstFragment = number = 0, ft_lastFragment = lastFragment,
            ft_fragmentNumber = number, ft_numFragments = -1\<rparr>\<rparr>) }"

section \<open>The lengths\<close>

abbreviation room :: "fragmenter_policy \<Rightarrow> int" where
  "room c \<equiv> maxFragmentLength c - fragmentHeaderLength c"

lemma fragment_loop_ends:
  assumes "0 < room c" "0 < r"
  shows "\<exists>n rest. fragment_loop c r acc = Some (acc @ replicate n (room c) @ [rest]) \<and>
    r = int n * room c + rest \<and> 0 < rest \<and> rest \<le> room c"
  using assms(2)
proof (induction "nat r" arbitrary: r acc rule: less_induct)
  case less
  show ?case
  proof (cases "fragmentHeaderLength c + r > maxFragmentLength c")
    case True
    then have "nat (r - room c) < nat r" "0 < r - room c" using assms(1) by auto
    then obtain n rest where "fragment_loop c (r - room c) (acc @ [room c]) = Some ((acc @ [room c]) @ replicate n (room c) @ [rest])"
        "r - room c = int n * room c + rest" "0 < rest" "rest \<le> room c"
      using less.hyps by blast
    then show ?thesis using True
      by (intro exI[of _ "Suc n"] exI[of _ rest]) (subst fragment_loop.simps, simp add: Let_def algebra_simps)
  next
    case False
    then show ?thesis using less.prems by (intro exI[of _ 0] exI[of _ r]) (subst fragment_loop.simps, simp)
  qed
qed

lemma fragment_loop_runs_on:
  assumes "fragment_loop c r acc = Some y" "room c \<le> 0"
  shows "fragmentHeaderLength c + r \<le> maxFragmentLength c"
proof -
  have "\<not> (room c \<le> 0 \<and> fragmentHeaderLength c + r > maxFragmentLength c)"
    using assms(1)
  proof (rule fragment_loop.raw_induct[rotated], goal_cases)
    case (1 f c r acc y)
    show ?case
    proof (cases "fragmentHeaderLength c + r > maxFragmentLength c")
      case True
      then have "f c (r - room c) (acc @ [room c]) = Some y" using 1(2) by (simp add: Let_def)
      from 1(1)[OF this] show ?thesis using True by auto
    qed simp
  qed
  with assms(2) show ?thesis by simp
qed

lemma computeFragmentLengths_cases:
  assumes "0 \<le> fragmentHeaderLength c" "computeFragmentLengths c p = Some lens"
  shows "lens = [getTotalLength p] \<and> getTotalLength p \<le> maxFragmentLength c \<or>
    maxFragmentLength c < getTotalLength p \<and> (\<exists>n rest. lens = replicate n (room c) @ [rest] \<and> 0 < room c \<and>
      getTotalLength p = int n * room c + rest \<and> 0 < rest \<and> rest \<le> room c)"
proof (cases "getTotalLength p \<le> maxFragmentLength c")
  case True then show ?thesis using assms(2) by (simp add: computeFragmentLengths_def)
next
  case False
  then have l: "fragment_loop c (getTotalLength p) [] = Some lens" using assms(2) by (simp add: computeFragmentLengths_def)
  have r: "0 < room c" using fragment_loop_runs_on[OF l] False assms(1) by fastforce
  then have "0 < getTotalLength p" using False assms(1) by simp
  from fragment_loop_ends[OF r this, of "[]"] l r False show ?thesis by auto
qed

lemma sum_lengths:
  assumes "0 \<le> fragmentHeaderLength c" "computeFragmentLengths c p = Some lens"
  shows "sum_list lens = getTotalLength p" "lens \<noteq> []" "\<forall>l \<in> set lens. 0 \<le> l"
  using computeFragmentLengths_cases[OF assms]
  by (auto simp: sum_list_replicate getTotalLength_def)

section \<open>Fragments and back\<close>

lemma push_fragments_parts:
  assumes "\<And>offset len number. mk p offset len number num = Some (frag offset len number)"
    "push_fragments mk p num offset number lens = Some fs"
  shows "length fs = length lens"
  using assms(2) by (induction lens arbitrary: offset number fs) (auto simp: bind_eq_Some_conv)

text \<open>The name of a fragment gives the name of the packet back when that has no \<open>-frag\<close> in it.\<close>

definition plain_name :: "string \<Rightarrow> bool" where
  "plain_name n \<longleftrightarrow> cut_frag n = n"

lemma cut_frag_prefix: "\<exists>k. cut_frag n = take k n"
  by (induction n) (metis cut_frag.simps take_0 take_Suc_Cons)+

lemma plain_name_Cons: "plain_name (c # n) \<longleftrightarrow> take 5 (c # n) \<noteq> ''-frag'' \<and> plain_name n"
  by (simp add: plain_name_def)

lemma cut_frag_append: "plain_name n \<Longrightarrow> cut_frag (n @ ''-frag'' @ x) = n"
proof (induction n)
  case Nil then show ?case by (simp add: eval_nat_numeral)
next
  case (Cons c n)
  have "take 5 (c # n @ ''-frag'' @ x) \<noteq> ''-frag''"
  proof
    assume t: "take 5 (c # n @ ''-frag'' @ x) = ''-frag''"
    consider "n = []" | a where "n = [a]" | a b where "n = [a, b]" | a b d where "n = [a, b, d]" | "4 \<le> length n"
      by (cases n; cases "tl n"; cases "tl (tl n)"; cases "tl (tl (tl n))") (auto simp: eval_nat_numeral)
    then show False
    proof cases
      case 5
      then have "take 5 (c # n @ ''-frag'' @ x) = take 5 (c # n)" by (simp add: eval_nat_numeral take_Cons')
      then show False using t Cons.prems plain_name_Cons by metis
    qed (use t in \<open>simp_all add: eval_nat_numeral\<close>)
  qed
  moreover have "cut_frag (n @ ''-frag'' @ x) = n" using Cons plain_name_Cons by metis
  ultimately show ?case by simp
qed

text \<open>What the pieces of a packet look like: the data cut at the offsets, numbered in order.\<close>

definition header_piece :: "fpacket \<Rightarrow> bool list \<Rightarrow> nat \<Rightarrow> nat \<Rightarrow> fpacket" where
  "header_piece p d number num = (new_packet (fp_name p @ ''-frag'' @ to_string number))
     \<lparr>fp_data := d, fp_tag := fp_tag p, fp_header := Some (int number, number + 1 = num)\<rparr>"

lemma header_fragment_piece:
  assumes "offset + len \<le> length (fp_data p)"
  shows "header_fragment p (int offset) (int len) number num =
    Some (header_piece p (take len (drop offset (fp_data p))) number num)"
  using assms by (simp add: header_fragment_def base_fragment_def peekDataAt_def header_piece_def new_packet_def)

lemma push_header_fragments:
  assumes "offset + sum_list ls \<le> length (fp_data p)"
  shows "\<exists>fs. push_fragments (header_fragment) p num (int offset) number (map int ls) = Some fs \<and> length fs = length ls \<and>
    (\<forall>k < length ls. \<exists>d. fs ! k = header_piece p d (number + k) num) \<and>
    concat (map fp_data fs) = take (sum_list ls) (drop offset (fp_data p))"
  using assms
proof (induction ls arbitrary: offset number)
  case Nil then show ?case by simp
next
  case (Cons l ls)
  let ?f = "header_piece p (take l (drop offset (fp_data p))) number num"
  have f: "header_fragment p (int offset) (int l) number num = Some ?f"
    by (rule header_fragment_piece) (use Cons.prems in simp)
  obtain fs where fs: "push_fragments header_fragment p num (int (offset + l)) (number + 1) (map int ls) = Some fs"
      "length fs = length ls" "\<forall>k < length ls. \<exists>d. fs ! k = header_piece p d (number + 1 + k) num"
      "concat (map fp_data fs) = take (sum_list ls) (drop (offset + l) (fp_data p))"
    using Cons.IH[of "offset + l" "number + 1"] Cons.prems by auto
  have "\<forall>k < length (l # ls). \<exists>d. (?f # fs) ! k = header_piece p d (number + k) num"
    using fs(3) by (auto simp: nth_Cons less_Suc_eq_0_disj)
  moreover have "fp_data ?f = take l (drop offset (fp_data p))" by (simp add: header_piece_def new_packet_def)
  then have "concat (map fp_data (?f # fs)) = take (sum_list (l # ls)) (drop offset (fp_data p))"
    using fs(4) by (simp add: take_add add.commute)
  ultimately show ?case using f fs(1,2) by (intro exI[of _ "?f # fs"]) (simp add: add.commute)
qed

text \<open>The defragmenter on the pieces from number \<open>k\<close> on.\<close>

definition collecting :: "string \<Rightarrow> nat \<Rightarrow> bool list \<Rightarrow> defragmenter" where
  "collecting n k d = \<lparr>df_expectedFragmentNumber = int k,
     df_defragmentedPacket = (if k = 0 then None else Some ((new_packet n)\<lparr>fp_data := d\<rparr>))\<rparr>"

lemma collecting_0: "collecting n 0 d = idle_defragmenter"
  by (simp add: collecting_def idle_defragmenter_def)

lemma defragment_piece:
  assumes "plain_name (fp_name p)" "k < num" "k = 0 \<longrightarrow> d = []"
  shows "header_defragmenter_pushPacket (header_piece p e k num) (collecting (fp_name p) k d) =
    Some (if k + 1 = num then ([(new_packet (fp_name p))\<lparr>fp_data := d @ e\<rparr>], idle_defragmenter)
          else ([], collecting (fp_name p) (k + 1) (d @ e)))"
  using assms cut_frag_append[OF assms(1)]
  by (simp add: header_defragmenter_pushPacket_def header_piece_def new_packet_def collecting_def defragmentPacket_def
      startDefragmentation_def continueDefragmentation_def endDefragmentation_def idle_defragmenter_def)

lemma defragment_pieces:
  assumes "plain_name (fp_name p)" "k + length fs = num" "fs \<noteq> []"
    "\<forall>i < length fs. \<exists>e. fs ! i = header_piece p e (k + i) num" "k = 0 \<longrightarrow> d = []"
  shows "defragment_all header_defragmenter_pushPacket fs (collecting (fp_name p) k d) =
    Some ([(new_packet (fp_name p))\<lparr>fp_data := d @ concat (map fp_data fs)\<rparr>], idle_defragmenter)"
  using assms(2-5)
proof (induction fs arbitrary: k d)
  case (Cons f fs)
  obtain e where f: "f = header_piece p e k num" using Cons.prems(3) by fastforce
  have e: "fp_data f = e" by (simp add: f header_piece_def new_packet_def)
  have rest: "\<forall>i < length fs. \<exists>e. fs ! i = header_piece p e (k + 1 + i) num"
    using Cons.prems(3) by fastforce
  have step: "header_defragmenter_pushPacket f (collecting (fp_name p) k d) =
      Some (if k + 1 = num then ([(new_packet (fp_name p))\<lparr>fp_data := d @ e\<rparr>], idle_defragmenter)
          else ([], collecting (fp_name p) (k + 1) (d @ e)))"
    unfolding f by (rule defragment_piece[OF assms(1)]) (use Cons.prems in auto)
  show ?case
  proof (cases "fs = []")
    case True
    then show ?thesis using step Cons.prems(1) e by simp
  next
    case False
    then have "k + 1 \<noteq> num" using Cons.prems(1) by (cases fs) auto
    moreover have "defragment_all header_defragmenter_pushPacket fs (collecting (fp_name p) (k + 1) (d @ e)) =
        Some ([(new_packet (fp_name p))\<lparr>fp_data := (d @ e) @ concat (map fp_data fs)\<rparr>], idle_defragmenter)"
      by (rule Cons.IH) (use Cons.prems rest False in auto)
    ultimately show ?thesis using step e by simp
  qed
qed simp

text \<open>A packet with a popped front is fragmented by its total length, beyond the end of its data: an exception.\<close>

lemma push_fragments_inside:
  assumes "push_fragments header_fragment p num offset number lens = Some fs" "lens \<noteq> []"
  shows "offset + sum_list lens \<le> int (length (fp_data p))"
  using assms
proof (induction lens arbitrary: offset number fs)
  case (Cons l ls)
  obtain f gs where f: "header_fragment p offset l number num = Some f"
      and gs: "push_fragments header_fragment p num (offset + l) (number + 1) ls = Some gs"
    using Cons.prems(1) by (cases "header_fragment p offset l number num";
        cases "push_fragments header_fragment p num (offset + l) (number + 1) ls") auto
  from f have "peekDataAt offset l p \<noteq> None" by (cases "peekDataAt offset l p") (simp_all add: header_fragment_def base_fragment_def)
  then have "offset + l \<le> int (length (fp_data p))" by (simp add: peekDataAt_def split: if_splits)
  then show ?case using Cons.IH[OF gs] by (cases "ls = []") (auto simp: algebra_simps)
qed simp

lemma popped_packet_throws:
  assumes "0 \<le> fragmentHeaderLength c" "0 < fp_popped p"
  shows "fragmenter_pushPacket header_fragment c p = None"
proof (cases "computeFragmentLengths c p")
  case (Some lens)
  note s = sum_lengths[OF assms(1) Some]
  have "push_fragments header_fragment p (length lens) 0 0 lens = None"
  proof (rule ccontr)
    assume "push_fragments header_fragment p (length lens) 0 0 lens \<noteq> None"
    then obtain fs where "push_fragments header_fragment p (length lens) 0 0 lens = Some fs" by blast
    from push_fragments_inside[OF this s(2)] show False using s(1) assms(2) by (simp add: getTotalLength_def)
  qed
  with Some show ?thesis by (simp add: fragmenter_pushPacket_def)
qed (simp add: fragmenter_pushPacket_def)

section \<open>Properties\<close>

text \<open>
  The policy ends exactly when a fragment has room for data besides its header or the packet needs no
  fragmenting: else its loop never ends. When it ends the lengths add up to the packet, and every fragment but a
  packet sent whole fits the maximum together with its header.
\<close>
theorem fragmentation_terminates:
  assumes "0 \<le> fragmentHeaderLength c"
  shows "(computeFragmentLengths c p \<noteq> None \<longleftrightarrow>
      fragmentHeaderLength c < maxFragmentLength c \<or> getTotalLength p \<le> maxFragmentLength c) \<and>
    (\<forall>lens. computeFragmentLengths c p = Some lens \<longrightarrow> sum_list lens = getTotalLength p \<and>
      (lens = [getTotalLength p] \<or> (\<forall>l \<in> set lens. 0 < l \<and> fragmentHeaderLength c + l \<le> maxFragmentLength c)))"
proof (intro conjI allI impI)
  show "computeFragmentLengths c p \<noteq> None \<longleftrightarrow>
      fragmentHeaderLength c < maxFragmentLength c \<or> getTotalLength p \<le> maxFragmentLength c"
  proof (cases "getTotalLength p \<le> maxFragmentLength c")
    case False
    show ?thesis
    proof (cases "0 < room c")
      case True
      then have "0 < getTotalLength p" using False assms by simp
      from fragment_loop_ends[OF True this] False True show ?thesis by (fastforce simp: computeFragmentLengths_def)
    next
      case r: False
      then have "fragment_loop c (getTotalLength p) [] = None"
        using fragment_loop_runs_on[of c "getTotalLength p" "[]"] False assms by (cases "fragment_loop c (getTotalLength p) []") auto
      then show ?thesis using False r by (simp add: computeFragmentLengths_def)
    qed
  qed (simp add: computeFragmentLengths_def)
  fix lens assume l: "computeFragmentLengths c p = Some lens"
  show "sum_list lens = getTotalLength p" by (rule sum_lengths(1)[OF assms l])
  show "lens = [getTotalLength p] \<or> (\<forall>l \<in> set lens. 0 < l \<and> fragmentHeaderLength c + l \<le> maxFragmentLength c)"
    using computeFragmentLengths_cases[OF assms l] by auto
qed

theorem fragmentation_terminates_witness:
  "computeFragmentLengths \<lparr>maxFragmentLength = 16, fragmentHeaderLength = 16\<rparr> ((new_packet ''p'')\<lparr>fp_data := replicate 17 True\<rparr>) = None"
  using fragmentation_terminates[of "\<lparr>maxFragmentLength = 16, fragmentHeaderLength = 16\<rparr>" "(new_packet ''p'')\<lparr>fp_data := replicate 17 True\<rparr>"]
  by (simp add: getTotalLength_def new_packet_def)

text \<open>
  C32. A packet that the header based fragmenter cuts up and the header based defragmenter puts together again
  comes out with its name and its data, once, and leaves the defragmenter idle.
\<close>
theorem fragments_reassemble:
  assumes "0 \<le> fragmentHeaderLength c" "fragmentHeaderLength c < maxFragmentLength c" "fp_popped p = 0"
    "plain_name (fp_name p)"
  shows "\<exists>fs. fragmenter_pushPacket header_fragment c p = Some fs \<and>
    defragment_all header_defragmenter_pushPacket fs idle_defragmenter =
      Some ([(new_packet (fp_name p))\<lparr>fp_data := fp_data p\<rparr>], idle_defragmenter)"
proof -
  obtain lens where l: "computeFragmentLengths c p = Some lens"
    using fragmentation_terminates[OF assms(1), of p] assms(2) by blast
  define ls where "ls = map nat lens"
  note sl = sum_lengths[OF assms(1) l]
  have lens: "lens = map int ls" using sl(3) unfolding ls_def by (induction lens) auto
  have "int (sum_list ls) = sum_list lens" unfolding lens by (induction ls) auto
  then have s: "sum_list ls = length (fp_data p)" using sl(1) assms(3) by (simp add: getTotalLength_def)
  obtain fs where fs: "push_fragments header_fragment p (length ls) 0 0 (map int ls) = Some fs" "length fs = length ls"
      "\<forall>k < length ls. \<exists>d. fs ! k = header_piece p d k (length ls)" "concat (map fp_data fs) = fp_data p"
    using push_header_fragments[of 0 ls p "length ls" 0] s by auto
  have "fs \<noteq> []" using sl(2) fs(2) lens by auto
  then have "defragment_all header_defragmenter_pushPacket fs (collecting (fp_name p) 0 []) =
      Some ([(new_packet (fp_name p))\<lparr>fp_data := [] @ concat (map fp_data fs)\<rparr>], idle_defragmenter)"
    by (intro defragment_pieces[OF assms(4)]) (use fs in auto)
  with fs l lens show ?thesis by (simp add: fragmenter_pushPacket_def collecting_0)
qed

theorem fragments_reassemble_witness:
  "\<exists>fs. fragmenter_pushPacket header_fragment \<lparr>maxFragmentLength = 24, fragmentHeaderLength = 8\<rparr>
      ((new_packet ''p'')\<lparr>fp_data := replicate 40 True\<rparr>) = Some fs \<and>
    defragment_all header_defragmenter_pushPacket fs idle_defragmenter =
      Some ([(new_packet ''p'')\<lparr>fp_data := replicate 40 True\<rparr>], idle_defragmenter)"
  using fragments_reassemble[of "\<lparr>maxFragmentLength = 24, fragmentHeaderLength = 8\<rparr>" "(new_packet ''p'')\<lparr>fp_data := replicate 40 True\<rparr>"]
  by (simp add: new_packet_def plain_name_def)

text \<open>
  The defragmenter only looks at the fragment number. When the end of one packet and the beginning of the
  next are lost it delivers a packet made of both; and when the last fragment of a packet is lost, the next
  packet is dropped whole although all its fragments arrive.
\<close>
theorem lost_fragments_splice:
  assumes "plain_name (fp_name p)" "plain_name (fp_name q)"
  shows "defragment_all header_defragmenter_pushPacket [header_piece p a 0 3, header_piece p b 1 3, header_piece q c 2 3] idle_defragmenter =
      Some ([(new_packet (fp_name p))\<lparr>fp_data := a @ b @ c\<rparr>], idle_defragmenter) \<and>
    defragment_all header_defragmenter_pushPacket [header_piece p a 0 2, header_piece q b 0 2, header_piece q c 1 2] idle_defragmenter =
      Some ([], idle_defragmenter)"
  using cut_frag_append[OF assms(1)]
  by (simp add: header_defragmenter_pushPacket_def header_piece_def new_packet_def defragmentPacket_def
      startDefragmentation_def continueDefragmentation_def endDefragmentation_def idle_defragmenter_def)

theorem lost_fragments_splice_witness:
  "defragment_all header_defragmenter_pushPacket [header_piece (new_packet ''p'') [True] 0 3,
      header_piece (new_packet ''p'') [] 1 3, header_piece (new_packet ''q'') [False] 2 3] idle_defragmenter =
    Some ([(new_packet ''p'')\<lparr>fp_data := [True, False]\<rparr>], idle_defragmenter)"
  using lost_fragments_splice[of "new_packet ''p''" "new_packet ''q''" "[True]" "[]" "[False]"]
  by (simp add: new_packet_def plain_name_def)

end
