(* ===== verification/Ordering.thy ===== *)
theory Ordering
  imports Prelude "HOL-Library.AList"
begin

text \<open>
  Sequence numbers (src/inet/src/inet/protocolelement/ordering/): numbering, removal of repeated packets and
  restoring the order.

  A packet is a payload with the sequence number header in front of it. \<open>std::map\<close> is an association list with
  distinct keys. \<open>expectedSequenceNumber\<close> of \<open>Reordering\<close> has no initial value in the code, so the initial
  state is given its value as an argument.
\<close>

section \<open>Numbering\<close>

record 'p sequence_numbering =
  sn_sequenceNumber :: int

definition sequence_processPacket :: "'p \<Rightarrow> 'p sequence_numbering \<Rightarrow> (int \<times> 'p) \<times> 'p sequence_numbering" where
  "sequence_processPacket p s = ((sn_sequenceNumber s, p), s\<lparr>sn_sequenceNumber := sn_sequenceNumber s + 1\<rparr>)"

fun number_all :: "'p list \<Rightarrow> 'p sequence_numbering \<Rightarrow> (int \<times> 'p) list" where
  "number_all [] s = []"
| "number_all (p # ps) s = (let (x, s) = sequence_processPacket p s in x # number_all ps s)"

section \<open>Removal of duplicates\<close>

record duplicate_removal =
  dr_lastSequenceNumber :: int

definition duplicate_pushPacket :: "int \<times> 'p \<Rightarrow> duplicate_removal \<Rightarrow> (int \<times> 'p) list \<times> duplicate_removal" where
  "duplicate_pushPacket p s =
     (if dr_lastSequenceNumber s = fst p then ([], s)
      else ([p], s\<lparr>dr_lastSequenceNumber := fst p\<rparr>))"

section \<open>Reordering\<close>

record 'p reordering =
  ro_expectedSequenceNumber :: int
  ro_packets :: "(int \<times> 'p) list"

lemma delete_shorter: "map_of xs k = Some v \<Longrightarrow> length (AList.delete k xs) < length xs"
  by (induction xs) (auto simp: AList.delete_eq split: if_splits intro: le_imp_less_Suc)

text \<open>The loop sends the packets that follow on the expected number.\<close>

function send_expected :: "'p reordering \<Rightarrow> 'p list \<times> 'p reordering" where
  "send_expected s =
     (case map_of (ro_packets s) (ro_expectedSequenceNumber s) of
        None \<Rightarrow> ([], s)
      | Some p \<Rightarrow>
          (let s' = s\<lparr>ro_packets := AList.delete (ro_expectedSequenceNumber s) (ro_packets s),
                 ro_expectedSequenceNumber := ro_expectedSequenceNumber s + 1\<rparr>;
               (out, s'') = send_expected s'
           in (p # out, s'')))"
  by pat_completeness auto

termination
  by (relation "measure (\<lambda>s. length (ro_packets s))") (simp_all add: delete_shorter)

declare send_expected.simps [simp del]

definition reordering_pushPacket :: "int \<times> 'p \<Rightarrow> 'p reordering \<Rightarrow> 'p list \<times> 'p reordering" where
  "reordering_pushPacket p s =
     (let s = s\<lparr>ro_packets := AList.update (fst p) (snd p) (ro_packets s)\<rparr>
      in if fst p = ro_expectedSequenceNumber s then send_expected s else ([], s))"

fun reorder_all :: "(int \<times> 'p) list \<Rightarrow> 'p reordering \<Rightarrow> 'p list \<times> 'p reordering" where
  "reorder_all [] s = ([], s)"
| "reorder_all (p # ps) s =
     (let (out, s) = reordering_pushPacket p s; (outs, s) = reorder_all ps s in (out @ outs, s))"

definition start_reordering :: "int \<Rightarrow> 'p reordering" where
  "start_reordering e = \<lparr>ro_expectedSequenceNumber = e, ro_packets = []\<rparr>"

section \<open>What comes out\<close>

text \<open>The numbers from \<open>e\<close> up to the first gap.\<close>

definition first_gap :: "int \<Rightarrow> int set \<Rightarrow> int \<Rightarrow> bool" where
  "first_gap e A g \<longleftrightarrow> e \<le> g \<and> g \<notin> A \<and> {e..<g} \<subseteq> A"

lemma first_gap_unique: "first_gap e A g \<Longrightarrow> first_gap e A h \<Longrightarrow> g = h"
  unfolding first_gap_def by (metis atLeastLessThan_iff linorder_neqE subsetD)

text \<open>The state after the numbers \<open>A\<close> arrived: those not sent are waiting.\<close>

definition waiting :: "(int \<Rightarrow> 'p) \<Rightarrow> int \<Rightarrow> int set \<Rightarrow> 'p reordering \<Rightarrow> bool" where
  "waiting f e A s \<longleftrightarrow> e \<le> ro_expectedSequenceNumber s \<and> {e..<ro_expectedSequenceNumber s} \<subseteq> A \<and>
     (\<forall>k \<ge> ro_expectedSequenceNumber s. map_of (ro_packets s) k = (if k \<in> A then Some (f k) else None))"

lemma send_expected_run:
  assumes "waiting f e A s"
  shows "\<exists>s'. send_expected s = (map f [ro_expectedSequenceNumber s..ro_expectedSequenceNumber s' - 1], s') \<and>
    waiting f e A s' \<and> ro_expectedSequenceNumber s \<le> ro_expectedSequenceNumber s' \<and> ro_expectedSequenceNumber s' \<notin> A"
  using assms
proof (induction "length (ro_packets s)" arbitrary: s rule: less_induct)
  case less
  let ?e = "ro_expectedSequenceNumber s"
  show ?case
  proof (cases "?e \<in> A")
    case False
    then have "map_of (ro_packets s) ?e = None" using less.prems by (simp add: waiting_def)
    then have "send_expected s = ([], s)" by (subst send_expected.simps) simp
    then show ?thesis using less.prems False by (intro exI[of _ s]) simp
  next
    case True
    then have m: "map_of (ro_packets s) ?e = Some (f ?e)" using less.prems by (simp add: waiting_def)
    let ?s = "s\<lparr>ro_packets := AList.delete ?e (ro_packets s), ro_expectedSequenceNumber := ?e + 1\<rparr>"
    have "{e..<?e + 1} \<subseteq> insert ?e {e..<?e}" by auto
    then have "waiting f e A ?s" using less.prems True by (auto simp: waiting_def AList.delete_conv' )
    moreover have "length (ro_packets ?s) < length (ro_packets s)" using delete_shorter[OF m] by simp
    ultimately obtain s' where s': "send_expected ?s = (map f [ro_expectedSequenceNumber ?s..ro_expectedSequenceNumber s' - 1], s')"
        "waiting f e A s'" "ro_expectedSequenceNumber ?s \<le> ro_expectedSequenceNumber s'" "ro_expectedSequenceNumber s' \<notin> A"
      using less.hyps by blast
    have "[?e..ro_expectedSequenceNumber s' - 1] = ?e # [?e + 1..ro_expectedSequenceNumber s' - 1]"
      by (rule upto_rec1) (use s'(3) in simp)
    then have "send_expected s = (map f [?e..ro_expectedSequenceNumber s' - 1], s')"
      using m s'(1) by (subst send_expected.simps) (simp add: Let_def)
    with s' show ?thesis by auto
  qed
qed

lemma push_waiting:
  assumes "waiting f e A s" "ro_expectedSequenceNumber s \<notin> A"
  shows "\<exists>s'. reordering_pushPacket (k, f k) s = (map f [ro_expectedSequenceNumber s..ro_expectedSequenceNumber s' - 1], s') \<and>
    waiting f e (insert k A) s' \<and> ro_expectedSequenceNumber s \<le> ro_expectedSequenceNumber s' \<and>
    ro_expectedSequenceNumber s' \<notin> insert k A"
proof -
  let ?s = "s\<lparr>ro_packets := AList.update k (f k) (ro_packets s)\<rparr>"
  have w: "waiting f e (insert k A) ?s" using assms(1) by (auto simp: waiting_def AList.update_conv')
  show ?thesis
  proof (cases "k = ro_expectedSequenceNumber s")
    case True
    then show ?thesis using send_expected_run[OF w] by (simp add: reordering_pushPacket_def Let_def)
  next
    case False
    then show ?thesis using w assms(2) by (intro exI[of _ ?s]) (simp add: reordering_pushPacket_def Let_def)
  qed
qed

lemma upto_split: "i \<le> j \<Longrightarrow> j \<le> k \<Longrightarrow> [i..j - 1] @ [j..k - 1] = [i..k - 1]" for i j k :: int
proof (induction "nat (j - i)" arbitrary: i)
  case 0 then show ?case by simp
next
  case (Suc n)
  then have "i < j" by simp
  then have "[i..j - 1] = i # [i + 1..j - 1]" "[i..k - 1] = i # [i + 1..k - 1]" using Suc.prems by (simp_all add: upto_rec1)
  moreover have "[i + 1..j - 1] @ [j..k - 1] = [i + 1..k - 1]" by (rule Suc.hyps(1)) (use Suc \<open>i < j\<close> in auto)
  ultimately show ?case by simp
qed

lemma reorder_waiting:
  assumes "waiting f e A s" "ro_expectedSequenceNumber s \<notin> A"
  shows "\<exists>s'. reorder_all (map (\<lambda>k. (k, f k)) ks) s = (map f [ro_expectedSequenceNumber s..ro_expectedSequenceNumber s' - 1], s') \<and>
    waiting f e (A \<union> set ks) s' \<and> ro_expectedSequenceNumber s \<le> ro_expectedSequenceNumber s' \<and>
    ro_expectedSequenceNumber s' \<notin> A \<union> set ks"
  using assms
proof (induction ks arbitrary: A s)
  case Nil
  then show ?case by (intro exI[of _ s]) simp
next
  case (Cons k ks)
  obtain u where u: "reordering_pushPacket (k, f k) s = (map f [ro_expectedSequenceNumber s..ro_expectedSequenceNumber u - 1], u)"
      "waiting f e (insert k A) u" "ro_expectedSequenceNumber s \<le> ro_expectedSequenceNumber u"
      "ro_expectedSequenceNumber u \<notin> insert k A"
    using push_waiting[OF Cons.prems] by blast
  obtain v where v: "reorder_all (map (\<lambda>k. (k, f k)) ks) u = (map f [ro_expectedSequenceNumber u..ro_expectedSequenceNumber v - 1], v)"
      "waiting f e (insert k A \<union> set ks) v" "ro_expectedSequenceNumber u \<le> ro_expectedSequenceNumber v"
      "ro_expectedSequenceNumber v \<notin> insert k A \<union> set ks"
    using Cons.IH[OF u(2,4)] by blast
  have "map f [ro_expectedSequenceNumber s..ro_expectedSequenceNumber u - 1] @ map f [ro_expectedSequenceNumber u..ro_expectedSequenceNumber v - 1]
      = map f [ro_expectedSequenceNumber s..ro_expectedSequenceNumber v - 1]"
    using upto_split[OF u(3) v(3)] by (metis map_append)
  with u v show ?case by (intro exI[of _ v]) simp
qed

text \<open>
  C34. Packets with sequence numbers, in any order and with any repetitions, come out of the reordering in the
  order of their numbers: each once, from the number it expects up to the first that is missing.
\<close>
theorem reordering_delivers_in_order:
  assumes "first_gap e (set ks) g"
  shows "fst (reorder_all (map (\<lambda>k. (k, f k)) ks) (start_reordering e)) = map f [e..g - 1]"
proof -
  have w: "waiting f e {} (start_reordering e)" by (simp add: waiting_def start_reordering_def)
  have e: "ro_expectedSequenceNumber (start_reordering e) = e" by (simp add: start_reordering_def)
  obtain s where s: "reorder_all (map (\<lambda>k. (k, f k)) ks) (start_reordering e) =
      (map f [e..ro_expectedSequenceNumber s - 1], s)" "waiting f e (set ks) s" "ro_expectedSequenceNumber s \<notin> set ks"
    using reorder_waiting[OF w, of ks] unfolding e by auto
  then have "first_gap e (set ks) (ro_expectedSequenceNumber s)" by (simp add: first_gap_def waiting_def)
  then have "ro_expectedSequenceNumber s = g" using first_gap_unique assms by blast
  with s show ?thesis by simp
qed

theorem reordering_delivers_in_order_witness:
  "fst (reorder_all (map (\<lambda>k. (k, k * k)) [7, 5, 5, 6, 9]) (start_reordering 5)) = [25, 36, 49]"
proof -
  have "{5..<8 :: int} = {5, 6, 7}" by auto
  then have "first_gap 5 (set [7, 5, 5, 6, 9]) 8" by (simp add: first_gap_def)
  from reordering_delivers_in_order[OF this, of "\<lambda>k. k * k"] show ?thesis by (simp add: upto_rec1)
qed

end
