(* ===== verification/Ats_Shaper.thy ===== *)
theory Ats_Shaper
  imports Prelude
begin

text \<open>
  The asynchronous traffic shaper (src/inet/src/inet/protocolelement/shaper/): the meter that gives packets their
  eligibility times, the filter behind it, the comparator that orders the queue, and the gate that opens when the
  first packet is eligible.

  Times are in seconds and rates in bits per second, both real. The code computes durations in \<open>double\<close>, whose
  rounding is not modelled, and converts them to clock times, which rounds them to ticks: the conversion is code
  of the simulation kernel, a parameter \<open>conv\<close> of the meter. The queue behind the filter is the packet queue with the
  comparator of this module; the \<open>cQueue\<close> of the simulator inserts behind equal elements.
\<close>

section \<open>The meter\<close>

record ats_meter =
  am_packetOverheadLength :: real
  am_committedInformationRate :: real
  am_committedBurstSize :: real
  am_maxResidenceTime :: real
  am_groupEligibilityTime :: real
  am_bucketEmptyTime :: real

definition ats_meter_initialize :: "(real \<Rightarrow> real) \<Rightarrow> real \<Rightarrow> real \<Rightarrow> real \<Rightarrow> real \<Rightarrow> ats_meter" where
  "ats_meter_initialize conv overhead rate burst residence =
     \<lparr>am_packetOverheadLength = overhead, am_committedInformationRate = rate, am_committedBurstSize = burst,
      am_maxResidenceTime = residence, am_groupEligibilityTime = 0, am_bucketEmptyTime = conv (- burst / rate)\<rparr>"

record ats_packet =
  ap_length :: real
  ap_eligibility :: "real option"

definition ats_meterPacket :: "(real \<Rightarrow> real) \<Rightarrow> real \<Rightarrow> ats_packet \<Rightarrow> ats_meter \<Rightarrow> ats_packet \<times> ats_meter" where
  "ats_meterPacket conv arrivalTime p m =
     (let lengthRecoveryDuration = conv ((ap_length p + am_packetOverheadLength m) / am_committedInformationRate m);
          emptyToFullDuration = conv (am_committedBurstSize m / am_committedInformationRate m);
          schedulerEligibilityTime = am_bucketEmptyTime m + lengthRecoveryDuration;
          bucketFullTime = am_bucketEmptyTime m + emptyToFullDuration;
          eligibilityTime = max (max arrivalTime (am_groupEligibilityTime m)) schedulerEligibilityTime
      in if am_maxResidenceTime m = -1 \<or> eligibilityTime \<le> arrivalTime + am_maxResidenceTime m
         then (p\<lparr>ap_eligibility := Some eligibilityTime\<rparr>,
               m\<lparr>am_groupEligibilityTime := eligibilityTime,
                 am_bucketEmptyTime := (if eligibilityTime < bucketFullTime then schedulerEligibilityTime
                   else schedulerEligibilityTime + eligibilityTime - bucketFullTime)\<rparr>)
         else (p, m))"

text \<open>The time the bucket takes to recover from a packet, and to fill from empty to full.\<close>

definition recovery_time :: "(real \<Rightarrow> real) \<Rightarrow> ats_meter \<Rightarrow> real \<Rightarrow> real" where
  "recovery_time conv m len = conv ((len + am_packetOverheadLength m) / am_committedInformationRate m)"

definition full_time :: "(real \<Rightarrow> real) \<Rightarrow> ats_meter \<Rightarrow> real" where
  "full_time conv m = conv (am_committedBurstSize m / am_committedInformationRate m)"

text \<open>The tokens shown for a time, from the empty time: the burst size when full, none of the signal below zero.\<close>

definition ats_numTokens :: "(real \<Rightarrow> real) \<Rightarrow> real \<Rightarrow> ats_meter \<Rightarrow> real option" where
  "ats_numTokens conv t m =
     (let alpha = (t - am_bucketEmptyTime m) / conv (am_committedBurstSize m / am_committedInformationRate m)
      in if alpha > 1 then Some (am_committedBurstSize m)
         else if alpha < 0 then None
         else Some (am_committedBurstSize m * alpha))"

section \<open>Filter and comparator\<close>

definition ats_matchesPacket :: "real \<Rightarrow> real \<Rightarrow> ats_packet \<Rightarrow> bool" where
  "ats_matchesPacket maxResidenceTime t p =
     (case ap_eligibility p of None \<Rightarrow> False
      | Some e \<Rightarrow> maxResidenceTime = -1 \<or> e \<le> t + maxResidenceTime)"

definition getPacketEligibilityTime :: "ats_packet \<Rightarrow> real" where
  "getPacketEligibilityTime p = the (ap_eligibility p)"

definition comparePacketsByEligibilityTime :: "ats_packet \<Rightarrow> ats_packet \<Rightarrow> int" where
  "comparePacketsByEligibilityTime a b =
     (let dt = getPacketEligibilityTime a - getPacketEligibilityTime b
      in if dt < 0 then -1 else if dt > 0 then 1 else 0)"

fun queue_insert :: "ats_packet \<Rightarrow> ats_packet list \<Rightarrow> ats_packet list" where
  "queue_insert p [] = [p]"
| "queue_insert p (q # qs) = (if comparePacketsByEligibilityTime p q < 0 then p # q # qs else q # queue_insert p qs)"

section \<open>The gate\<close>

record ats_gate =
  ag_isOpen :: bool
  ag_timer :: "real option"

text \<open>The argument is what the provider would give: the first packet of the queue.\<close>

definition updateOpen :: "real \<Rightarrow> ats_packet option \<Rightarrow> ats_gate \<Rightarrow> ats_gate" where
  "updateOpen t packet g =
     (let g = (case packet of
            None \<Rightarrow> g\<lparr>ag_isOpen := True\<rparr>
          | Some p \<Rightarrow> if getPacketEligibilityTime p \<le> t then g\<lparr>ag_isOpen := True\<rparr> else g\<lparr>ag_isOpen := False\<rparr>)
      in case packet of
           None \<Rightarrow> g
         | Some p \<Rightarrow> if getPacketEligibilityTime p > t then g\<lparr>ag_timer := Some (getPacketEligibilityTime p)\<rparr> else g)"

section \<open>The shaper\<close>

text \<open>Meter, filter, queue and gate together; \<open>ats_sent\<close> are the packets taken by the server with their times.\<close>

record ats =
  ats_now :: real
  ats_meter :: ats_meter
  ats_filterResidence :: real
  ats_queue :: "ats_packet list"
  ats_gate :: ats_gate
  ats_sent :: "(ats_packet \<times> real) list"

definition queue_head :: "ats_packet list \<Rightarrow> ats_packet option" where
  "queue_head q = (case q of [] \<Rightarrow> None | p # _ \<Rightarrow> Some p)"

definition ats_arrive :: "(real \<Rightarrow> real) \<Rightarrow> real \<Rightarrow> ats \<Rightarrow> ats" where
  "ats_arrive conv len s =
     (let (p, m) = ats_meterPacket conv (ats_now s) \<lparr>ap_length = len, ap_eligibility = None\<rparr> (ats_meter s)
      in if ats_matchesPacket (ats_filterResidence s) (ats_now s) p
         then (let q = queue_insert p (ats_queue s)
               in s\<lparr>ats_meter := m, ats_queue := q, ats_gate := updateOpen (ats_now s) (queue_head q) (ats_gate s)\<rparr>)
         else s\<lparr>ats_meter := m\<rparr>)"

definition ats_timer :: "ats \<Rightarrow> ats" where
  "ats_timer s = s\<lparr>ats_gate := updateOpen (ats_now s) (queue_head (ats_queue s)) ((ats_gate s)\<lparr>ag_timer := None\<rparr>)\<rparr>"

text \<open>The server pulls the first packet through an open gate.\<close>

definition ats_pull :: "ats \<Rightarrow> ats" where
  "ats_pull s =
     (case ats_queue s of [] \<Rightarrow> s
      | p # q \<Rightarrow>
          if ag_isOpen (ats_gate s)
          then s\<lparr>ats_queue := q, ats_gate := updateOpen (ats_now s) (queue_head q) (ats_gate s),
                 ats_sent := ats_sent s @ [(p, ats_now s)]\<rparr>
          else s)"

text \<open>Time passes up to the pending timer, which is handled at its time.\<close>

inductive ats_step :: "(real \<Rightarrow> real) \<Rightarrow> ats \<Rightarrow> ats \<Rightarrow> bool" for conv :: "real \<Rightarrow> real" where
  step_arrive: "0 \<le> len \<Longrightarrow> ats_step conv s (ats_arrive conv len s)"
| step_timer: "ag_timer (ats_gate s) = Some (ats_now s) \<Longrightarrow> ats_step conv s (ats_timer s)"
| step_pull: "ats_step conv s (ats_pull s)"
| step_elapse: "ats_now s \<le> t \<Longrightarrow> (\<forall>u. ag_timer (ats_gate s) = Some u \<longrightarrow> t \<le> u) \<Longrightarrow> ats_step conv s (s\<lparr>ats_now := t\<rparr>)"

definition ats_start :: "ats_meter \<Rightarrow> real \<Rightarrow> ats" where
  "ats_start m residence = \<lparr>ats_now = 0, ats_meter = m, ats_filterResidence = residence, ats_queue = [],
     ats_gate = updateOpen 0 None \<lparr>ag_isOpen = False, ag_timer = None\<rparr>, ats_sent = []\<rparr>"

inductive ats_reachable :: "(real \<Rightarrow> real) \<Rightarrow> ats \<Rightarrow> bool" for conv :: "real \<Rightarrow> real" where
  ats_started: "m = ats_meter_initialize conv overhead rate burst residence \<Longrightarrow> 0 \<le> overhead \<Longrightarrow> 0 < rate \<Longrightarrow> 0 < burst \<Longrightarrow>
    ats_reachable conv (ats_start m filter_residence)"
| ats_stepped: "ats_reachable conv s \<Longrightarrow> ats_step conv s t \<Longrightarrow> ats_reachable conv t"

section \<open>The gate opens at the eligibility time\<close>

definition eligible :: "ats_packet \<Rightarrow> bool" where
  "eligible p \<longleftrightarrow> ap_eligibility p \<noteq> None"

definition gate_ok :: "real \<Rightarrow> ats_packet list \<Rightarrow> ats_gate \<Rightarrow> bool" where
  "gate_ok t q g \<longleftrightarrow> (\<forall>u. ag_timer g = Some u \<longrightarrow> t \<le> u) \<and>
     (ag_isOpen g \<longrightarrow> q = [] \<or> getPacketEligibilityTime (hd q) \<le> t) \<and>
     (\<not> ag_isOpen g \<longrightarrow> q \<noteq> [] \<and> ag_timer g = Some (getPacketEligibilityTime (hd q)))"

lemma updateOpen_ok:
  assumes "\<forall>u. ag_timer g = Some u \<longrightarrow> t \<le> u"
  shows "gate_ok t q (updateOpen t (queue_head q) g)"
  using assms by (cases q) (auto simp: gate_ok_def updateOpen_def queue_head_def Let_def)

definition by_eligibility :: "ats_packet list \<Rightarrow> bool" where
  "by_eligibility q = sorted (map getPacketEligibilityTime q)"

lemma queue_insert_last:
  assumes "\<forall>r \<in> set q. getPacketEligibilityTime r \<le> getPacketEligibilityTime p"
  shows "queue_insert p q = q @ [p]"
  using assms by (induction q) (auto simp: comparePacketsByEligibilityTime_def Let_def)

definition ats_inv :: "ats \<Rightarrow> bool" where
  "ats_inv s \<longleftrightarrow> gate_ok (ats_now s) (ats_queue s) (ats_gate s) \<and>
     by_eligibility (map fst (ats_sent s) @ ats_queue s) \<and>
     (\<forall>p \<in> set (map fst (ats_sent s) @ ats_queue s). eligible p \<and> getPacketEligibilityTime p \<le> am_groupEligibilityTime (ats_meter s)) \<and>
     (\<forall>(p, t) \<in> set (ats_sent s). getPacketEligibilityTime p \<le> t)"

lemma meterPacket_cases:
  obtains e where "ats_meterPacket conv t p m = (p\<lparr>ap_eligibility := Some e\<rparr>, m\<lparr>am_groupEligibilityTime := e,
      am_bucketEmptyTime := (if e < am_bucketEmptyTime m + full_time conv m
        then am_bucketEmptyTime m + recovery_time conv m (ap_length p)
        else am_bucketEmptyTime m + recovery_time conv m (ap_length p) + e - (am_bucketEmptyTime m + full_time conv m))\<rparr>)"
    "t \<le> e" "am_groupEligibilityTime m \<le> e" "am_bucketEmptyTime m + recovery_time conv m (ap_length p) \<le> e"
    "am_maxResidenceTime m = -1 \<or> e \<le> t + am_maxResidenceTime m"
  | "ats_meterPacket conv t p m = (p, m)"
proof (cases "am_maxResidenceTime m = -1 \<or> max (max t (am_groupEligibilityTime m))
    (am_bucketEmptyTime m + recovery_time conv m (ap_length p)) \<le> t + am_maxResidenceTime m")
  case True
  then show ?thesis by (intro that(1)) (auto simp: ats_meterPacket_def Let_def recovery_time_def full_time_def)
next
  case False
  then show ?thesis by (intro that(2)) (simp only: ats_meterPacket_def Let_def if_False recovery_time_def full_time_def)
qed

lemma ats_inv_arrive:
  assumes "ats_inv s" shows "ats_inv (ats_arrive conv len s)"
proof (cases rule: meterPacket_cases[of conv "ats_now s" "\<lparr>ap_length = len, ap_eligibility = None\<rparr>" "ats_meter s"])
  case 2
  then show ?thesis using assms by (simp add: ats_arrive_def ats_matchesPacket_def ats_inv_def)
next
  case (1 e)
  define p where "p = \<lparr>ap_length = len, ap_eligibility = Some e\<rparr>"
  define m where "m = snd (ats_meterPacket conv (ats_now s) \<lparr>ap_length = len, ap_eligibility = None\<rparr> (ats_meter s))"
  have mp: "ats_meterPacket conv (ats_now s) \<lparr>ap_length = len, ap_eligibility = None\<rparr> (ats_meter s) = (p, m)"
    using 1(1) by (simp add: p_def m_def)
  have e: "getPacketEligibilityTime p = e" "eligible p" "am_groupEligibilityTime m = e"
    using 1(1) by (simp_all add: p_def m_def getPacketEligibilityTime_def eligible_def)
  have le: "\<forall>r \<in> set (map fst (ats_sent s) @ ats_queue s). getPacketEligibilityTime r \<le> getPacketEligibilityTime p"
    using assms 1(3) e(1) by (auto simp: ats_inv_def intro: order_trans)
  then have q: "queue_insert p (ats_queue s) = ats_queue s @ [p]" by (intro queue_insert_last) simp
  have t: "\<forall>u. ag_timer (ats_gate s) = Some u \<longrightarrow> ats_now s \<le> u" using assms by (simp add: ats_inv_def gate_ok_def)
  have b: "by_eligibility (map fst (ats_sent s) @ ats_queue s @ [p])"
    using assms le by (simp add: ats_inv_def by_eligibility_def sorted_append)
  have i: "ats_inv (s\<lparr>ats_meter := m\<rparr>)"
    using assms 1(3) e(3) unfolding ats_inv_def by (auto intro: order_trans)
  have j: "ats_inv (s\<lparr>ats_meter := m, ats_queue := ats_queue s @ [p],
      ats_gate := updateOpen (ats_now s) (queue_head (ats_queue s @ [p])) (ats_gate s)\<rparr>)"
    using i b e updateOpen_ok[OF t] unfolding ats_inv_def by simp
  show ?thesis using i j by (simp add: ats_arrive_def mp q Let_def)
qed

lemma ats_inv_timer:
  assumes "ats_inv s" shows "ats_inv (ats_timer s)"
  using assms updateOpen_ok[of "(ats_gate s)\<lparr>ag_timer := None\<rparr>" "ats_now s" "ats_queue s"]
  by (simp add: ats_inv_def ats_timer_def)

lemma ats_inv_pull:
  assumes "ats_inv s" shows "ats_inv (ats_pull s)"
proof (cases "ats_queue s")
  case (Cons p q)
  have t: "\<forall>u. ag_timer (ats_gate s) = Some u \<longrightarrow> ats_now s \<le> u" using assms by (simp add: ats_inv_def gate_ok_def)
  show ?thesis
  proof (cases "ag_isOpen (ats_gate s)")
    case True
    then have "getPacketEligibilityTime p \<le> ats_now s" using assms Cons by (simp add: ats_inv_def gate_ok_def)
    then show ?thesis using assms Cons True updateOpen_ok[OF t, of q]
      by (simp add: ats_pull_def ats_inv_def)
  qed (use assms Cons in \<open>simp add: ats_pull_def\<close>)
qed (use assms in \<open>simp add: ats_pull_def\<close>)

lemma ats_inv_elapse:
  assumes "ats_inv s" "ats_now s \<le> t" "\<forall>u. ag_timer (ats_gate s) = Some u \<longrightarrow> t \<le> u"
  shows "ats_inv (s\<lparr>ats_now := t\<rparr>)"
proof -
  have "gate_ok t (ats_queue s) (ats_gate s)" using assms by (auto simp: ats_inv_def gate_ok_def)
  then show ?thesis using assms(1) by (simp add: ats_inv_def)
qed

lemma ats_inv_step: "ats_step conv s t \<Longrightarrow> ats_inv s \<Longrightarrow> ats_inv t"
  by (induction rule: ats_step.induct) (simp_all add: ats_inv_arrive ats_inv_timer ats_inv_pull ats_inv_elapse)

lemma ats_reachable_inv: "ats_reachable conv s \<Longrightarrow> ats_inv s"
proof (induction rule: ats_reachable.induct)
  case (ats_started m overhead rate burst residence filter_residence)
  have "gate_ok 0 [] (updateOpen 0 None \<lparr>ag_isOpen = False, ag_timer = None\<rparr>)" by (simp add: gate_ok_def updateOpen_def)
  then show ?case by (simp add: ats_inv_def ats_start_def by_eligibility_def)
qed (rule ats_inv_step)

section \<open>The eligibility times conform to the bucket\<close>

text \<open>The packets that are given an eligibility time, with it and their lengths.\<close>

fun ats_meter_run :: "(real \<Rightarrow> real) \<Rightarrow> (real \<times> real) list \<Rightarrow> ats_meter \<Rightarrow> (real \<times> real) list" where
  "ats_meter_run conv [] m = []"
| "ats_meter_run conv ((t, len) # xs) m =
     (let (p, m') = ats_meterPacket conv t \<lparr>ap_length = len, ap_eligibility = None\<rparr> m
      in case ap_eligibility p of None \<Rightarrow> ats_meter_run conv xs m' | Some e \<Rightarrow> (e, len) # ats_meter_run conv xs m')"

text \<open>The time the bucket has been filling at the last eligibility time. It is negative after a packet that is
  longer than the burst size, which the code admits all the same.\<close>

definition bucket_time :: "ats_meter \<Rightarrow> real" where
  "bucket_time m = am_groupEligibilityTime m - am_bucketEmptyTime m"

lemma meterPacket_bucket:
  assumes "ats_meterPacket conv t \<lparr>ap_length = len, ap_eligibility = None\<rparr> m = (p, m')" "ap_eligibility p = Some e"
  shows "am_groupEligibilityTime m' = e" "recovery_time conv m' = recovery_time conv m" "full_time conv m' = full_time conv m"
    "bucket_time m' \<le> bucket_time m + (e - am_groupEligibilityTime m) - recovery_time conv m len"
    "bucket_time m' \<le> full_time conv m - recovery_time conv m len"
    "recovery_time conv m len \<le> bucket_time m + (e - am_groupEligibilityTime m)"
  using assms
  by (cases rule: meterPacket_cases[of conv t "\<lparr>ap_length = len, ap_eligibility = None\<rparr>" m];
      auto simp: bucket_time_def recovery_time_def full_time_def fun_eq_iff split: if_splits)+

text \<open>The first packet of a run that is admitted.\<close>

lemma meter_run_Cons:
  assumes "ats_meter_run conv (x # xs) m = us" "us \<noteq> []"
  shows "ats_meter_run conv xs m = us \<or>
    (\<exists>e len us' m'. us = (e, len) # us' \<and> ats_meter_run conv xs m' = us' \<and> am_groupEligibilityTime m' = e \<and>
      recovery_time conv m' = recovery_time conv m \<and> full_time conv m' = full_time conv m \<and>
      bucket_time m' \<le> bucket_time m + (e - am_groupEligibilityTime m) - recovery_time conv m len \<and>
      bucket_time m' \<le> full_time conv m - recovery_time conv m len \<and>
      recovery_time conv m len \<le> bucket_time m + (e - am_groupEligibilityTime m))"
proof -
  obtain t len where x: "x = (t, len)" by (cases x)
  obtain p m' where pm: "ats_meterPacket conv t \<lparr>ap_length = len, ap_eligibility = None\<rparr> m = (p, m')" by fastforce
  show ?thesis
  proof (cases "ap_eligibility p")
    case None
    then have "m' = m" using pm
      by (cases rule: meterPacket_cases[of conv t "\<lparr>ap_length = len, ap_eligibility = None\<rparr>" m]) auto
    then show ?thesis using assms(1) pm None x by simp
  next
    case (Some e)
    with assms(1) pm x meterPacket_bucket[OF pm Some] show ?thesis by auto
  qed
qed

text \<open>The durations of the packets of a run up to one of them fit the time the bucket has been filling, and from
  the first packet on the time to fill it.\<close>

lemma meter_run_prefix:
  assumes "ats_meter_run conv xs m = ys @ zs" "ys \<noteq> []"
  shows "(\<Sum>(e, len) \<leftarrow> ys. recovery_time conv m len) \<le> bucket_time m + (fst (last ys) - am_groupEligibilityTime m)"
  using assms
proof (induction xs arbitrary: m ys)
  case (Cons x xs)
  obtain y us where ys: "ys = y # us" using Cons.prems(2) by (cases ys) auto
  have ne: "ys @ zs \<noteq> []" using ys by simp
  from meter_run_Cons[OF Cons.prems(1) ne] show ?case
  proof (elim disjE exE conjE)
    assume "ats_meter_run conv xs m = ys @ zs"
    then show ?thesis by (rule Cons.IH[OF _ Cons.prems(2)])
  next
    fix e len us' m'
    assume m': "ys @ zs = (e, len) # us'" "ats_meter_run conv xs m' = us'" "am_groupEligibilityTime m' = e"
      "recovery_time conv m' = recovery_time conv m"
      "bucket_time m' \<le> bucket_time m + (e - am_groupEligibilityTime m) - recovery_time conv m len"
      "recovery_time conv m len \<le> bucket_time m + (e - am_groupEligibilityTime m)"
    show ?thesis
    proof (cases "us = []")
      case False
      with Cons.IH[of m' us] m' ys show ?thesis by simp
    qed (use m' ys in simp)
  qed
qed simp

lemma meter_run_window:
  assumes "ats_meter_run conv xs m = us @ ys @ zs" "2 \<le> length ys"
  shows "(\<Sum>(e, len) \<leftarrow> ys. recovery_time conv m len) \<le> full_time conv m + (fst (last ys) - fst (hd ys))"
  using assms
proof (induction xs arbitrary: m us)
  case (Cons x xs)
  obtain y ys' where ys: "ys = y # ys'" "ys' \<noteq> []" using Cons.prems(2) by (cases ys) force+
  have ne: "us @ ys @ zs \<noteq> []" using ys by simp
  from meter_run_Cons[OF Cons.prems(1) ne] show ?case
  proof (elim disjE exE conjE)
    assume "ats_meter_run conv xs m = us @ ys @ zs"
    then show ?thesis by (rule Cons.IH[OF _ Cons.prems(2)])
  next
    fix e len us' m'
    assume m': "us @ ys @ zs = (e, len) # us'" "ats_meter_run conv xs m' = us'" "am_groupEligibilityTime m' = e"
      "recovery_time conv m' = recovery_time conv m" "full_time conv m' = full_time conv m"
      "bucket_time m' \<le> full_time conv m - recovery_time conv m len"
    show ?thesis
    proof (cases us)
      case Nil
      with m' ys have "y = (e, len)" "ats_meter_run conv xs m' = ys' @ zs" by simp_all
      with meter_run_prefix[OF this(2) ys(2)] m'(3,4,6) ys show ?thesis by simp
    next
      case (Cons u us2)
      with m' have "ats_meter_run conv xs m' = us2 @ ys @ zs" by simp
      from Cons.IH[OF this Cons.prems(2)] m'(4,5) show ?thesis by simp
    qed
  qed
qed simp

text \<open>The conversion of a duration is off by at most the resolution of the clock time.\<close>

definition clocktime_conversion :: "real \<Rightarrow> (real \<Rightarrow> real) \<Rightarrow> bool" where
  "clocktime_conversion tick conv \<longleftrightarrow> 0 \<le> tick \<and> (\<forall>x. \<bar>conv x - x\<bar> \<le> tick)"

lemma clocktime_bounds:
  assumes "clocktime_conversion tick conv"
  shows "x \<le> conv x + tick" "conv x \<le> x + tick"
proof -
  have "\<bar>conv x - x\<bar> \<le> tick" using assms by (simp add: clocktime_conversion_def)
  then show "x \<le> conv x + tick" "conv x \<le> x + tick" by (simp_all add: abs_le_iff)
qed

lemma recovery_sum:
  assumes "clocktime_conversion tick conv" "0 < am_committedInformationRate m"
  shows "(\<Sum>(e, len) \<leftarrow> ys. len + am_packetOverheadLength m) \<le>
    am_committedInformationRate m * ((\<Sum>(e, len) \<leftarrow> ys. recovery_time conv m len) + tick * length ys)"
proof (induction ys)
  case (Cons y ys)
  obtain e len where y: "y = (e, len)" by (cases y)
  have "(len + am_packetOverheadLength m) / am_committedInformationRate m \<le> recovery_time conv m len + tick"
    unfolding recovery_time_def by (rule clocktime_bounds[OF assms(1)])
  then have "len + am_packetOverheadLength m \<le> am_committedInformationRate m * (recovery_time conv m len + tick)"
    using assms(2) by (simp add: pos_divide_le_eq mult.commute)
  with Cons.IH show ?case by (simp add: y algebra_simps)
qed simp

text \<open>
  C36. The packets that the meter admits from one packet to a later one, both counted, are together at most as
  long as the burst size and what the information rate gives in the time between their eligibility times, plus
  what it gives in the ticks by which their durations are rounded (nothing where durations are exact,
  \<open>tick = 0\<close>). This holds for packets of any length. For a single packet it holds unless it is longer
  than the burst size: the meter does not look at the size, and admits it.
\<close>
theorem ats_meter_conformance:
  assumes "m = ats_meter_initialize conv overhead rate burst residence" "0 < rate" "clocktime_conversion tick conv"
    "ats_meter_run conv xs m = us @ ys @ zs" "2 \<le> length ys \<or> length ys = 1 \<and> snd (hd ys) + overhead \<le> burst"
  shows "(\<Sum>(e, len) \<leftarrow> ys. len + overhead) \<le>
    burst + rate * (fst (last ys) - fst (hd ys)) + rate * tick * (length ys + 1)"
proof (cases "2 \<le> length ys")
  case True
  have m: "am_committedInformationRate m = rate" "am_packetOverheadLength m = overhead" "am_committedBurstSize m = burst"
    by (simp_all add: assms(1) ats_meter_initialize_def)
  have "full_time conv m \<le> burst / rate + tick"
    unfolding full_time_def m by (rule clocktime_bounds[OF assms(3)])
  with meter_run_window[OF assms(4) True] have "(\<Sum>(e, len) \<leftarrow> ys. recovery_time conv m len) + tick * length ys \<le>
      burst / rate + (fst (last ys) - fst (hd ys)) + tick * (length ys + 1)"
    by (simp add: algebra_simps)
  then have "rate * ((\<Sum>(e, len) \<leftarrow> ys. recovery_time conv m len) + tick * length ys) \<le>
      rate * (burst / rate + (fst (last ys) - fst (hd ys)) + tick * (length ys + 1))"
    using assms(2) by (intro mult_left_mono) simp_all
  also have "\<dots> = burst + rate * (fst (last ys) - fst (hd ys)) + rate * tick * (length ys + 1)"
    using assms(2) by (simp add: algebra_simps)
  finally show ?thesis
    using recovery_sum[OF assms(3), of m ys] assms(2) unfolding m by linarith
next
  case False
  then obtain y where y: "ys = [y]" using assms(5) by (cases ys) auto
  have "0 \<le> rate * tick" using assms(2,3) by (simp add: clocktime_conversion_def)
  with False assms(5) show ?thesis by (cases y) (simp add: y)
qed

text \<open>A packet longer than the burst size is given an eligibility time.\<close>

lemma oversized_packet_admitted:
  assumes "m = ats_meter_initialize id overhead rate burst (-1)" "0 < rate" "burst < len + overhead" "0 \<le> t"
  shows "ats_meter_run id [(t, len)] m = [(max t ((len + overhead - burst) / rate), len)]"
  using assms by (simp add: ats_meterPacket_def ats_meter_initialize_def Let_def diff_divide_distrib)

text \<open>
  C35. The shaper never lets a packet through before its eligibility time, it keeps the order of the packets, and
  when the first packet has to wait the gate is closed with its timer at just that packet's eligibility time.
\<close>
theorem ats_opens_at_eligibility:
  assumes "ats_reachable conv s"
  shows "(\<forall>(p, t) \<in> set (ats_sent s). getPacketEligibilityTime p \<le> t) \<and>
    sorted (map (getPacketEligibilityTime \<circ> fst) (ats_sent s)) \<and>
    (\<forall>p q. ats_queue s = p # q \<longrightarrow> ats_now s < getPacketEligibilityTime p \<longrightarrow>
      \<not> ag_isOpen (ats_gate s) \<and> ag_timer (ats_gate s) = Some (getPacketEligibilityTime p)) \<and>
    (\<not> ag_isOpen (ats_gate s) \<longrightarrow> (\<exists>p q. ats_queue s = p # q \<and> ats_now s \<le> getPacketEligibilityTime p))"
proof -
  have i: "ats_inv s" by (rule ats_reachable_inv[OF assms])
  have s: "sorted (map (getPacketEligibilityTime \<circ> fst) (ats_sent s))"
    using i by (simp add: ats_inv_def by_eligibility_def sorted_append)
  have g: "gate_ok (ats_now s) (ats_queue s) (ats_gate s)" using i by (simp add: ats_inv_def)
  have "\<exists>p q. ats_queue s = p # q \<and> ats_now s \<le> getPacketEligibilityTime p" if "\<not> ag_isOpen (ats_gate s)"
    using g that by (cases "ats_queue s") (auto simp: gate_ok_def)
  then show ?thesis using i s g by (auto simp: ats_inv_def gate_ok_def)
qed

section \<open>The properties at concrete traffic\<close>

theorem ats_meter_conformance_witness:
  "(\<Sum>(e, len) \<leftarrow> [(0 :: real, 800 :: real), (0.6, 800)]. len + 0) \<le> 1000 + 1000 * (0.6 - 0)"
proof -
  have r: "ats_meter_run id [(0, 800), (0, 800)] (ats_meter_initialize id 0 1000 1000 (-1)) = [] @ [(0, 800), (0.6, 800)] @ []"
    by (simp add: ats_meter_initialize_def ats_meterPacket_def Let_def)
  have "clocktime_conversion 0 id" by (simp add: clocktime_conversion_def)
  from ats_meter_conformance[OF refl _ this r] show ?thesis by simp
qed

definition two_packets :: ats where
  "two_packets = ats_pull (ats_arrive id 800 (ats_arrive id 800 (ats_start (ats_meter_initialize id 0 1000 1000 (-1)) (-1))))"

lemma two_packets_reachable: "ats_reachable id two_packets"
  unfolding two_packets_def
  by (intro ats_stepped[OF _ step_pull] ats_stepped[OF _ step_arrive] ats_started[OF refl]) simp_all

lemma two_packets_queue: "ats_queue two_packets = [\<lparr>ap_length = 800, ap_eligibility = Some 0.6\<rparr>]" "ats_now two_packets = 0"
  by (simp_all add: two_packets_def ats_pull_def ats_arrive_def ats_start_def ats_meter_initialize_def ats_meterPacket_def
      ats_matchesPacket_def comparePacketsByEligibilityTime_def getPacketEligibilityTime_def updateOpen_def queue_head_def Let_def)

theorem ats_opens_at_eligibility_witness:
  "\<not> ag_isOpen (ats_gate two_packets) \<and> ag_timer (ats_gate two_packets) = Some 0.6"
  using ats_opens_at_eligibility[OF two_packets_reachable] two_packets_queue
  by (simp add: getPacketEligibilityTime_def)

end
