(* ===== verification/Packet_Queue.thy ===== *)
theory Packet_Queue
  imports Prelude "HOL-Library.Multiset" "HOL-Library.Sublist"
begin

text \<open>
  Packet queues (src/inet/src/inet/queueing/queue/PacketQueue.cc), the interface of packet collections
  (contract/IPacketCollection.h) and the functions that compare, classify and select packets
  (queueing/function/).

  The contents of the \<open>cPacketQueue\<close> of the simulator are a list, front first. Where it puts a new packet is a
  parameter \<open>ins\<close> of the model: \<open>storage_insert\<close> is its documented behaviour (behind all packets that the
  comparator does not order behind the new one; at the end without a comparator).
\<close>

section \<open>Packets\<close>

text \<open>\<open>qk_id\<close> is the identity of the packet object; \<open>getBitLength\<close> is the data length.\<close>

record qpacket =
  qk_id :: nat
  qk_dataLength :: int
  qk_totalLength :: int
  qk_creationTime :: simtime
  qk_bytes :: "8 word list"
  qk_userPriorityReq :: "int option"
  qk_userPriorityInd :: "int option"
  qk_labels :: "string list option"

section \<open>Comparators and classifiers\<close>

definition comparePacketCreationTime :: "qpacket \<Rightarrow> qpacket \<Rightarrow> int" where
  "comparePacketCreationTime packet1 packet2 =
     (let d = qk_creationTime packet2 - qk_creationTime packet1
      in if d = 0 then 0 else if d > 0 then 1 else -1)"

text \<open>\<open>peekDataAt\<close> throws when the packet has no first byte.\<close>

definition first_byte :: "qpacket \<Rightarrow> int option" where
  "first_byte p = (case qk_bytes p of [] \<Rightarrow> None | b # _ \<Rightarrow> Some (uint b))"

definition comparePacketByData :: "qpacket \<Rightarrow> qpacket \<Rightarrow> int option" where
  "comparePacketByData packet1 packet2 =
     do { byte1 \<leftarrow> first_byte packet1; byte2 \<leftarrow> first_byte packet2; Some (byte2 - byte1) }"

definition classifyPacketByData :: "qpacket \<Rightarrow> int option" where
  "classifyPacketByData p = first_byte p"

definition classifyPacketAsCharacterOrEnter :: "qpacket \<Rightarrow> int option" where
  "classifyPacketAsCharacterOrEnter p = do { byte \<leftarrow> first_byte p; Some (if byte \<noteq> 13 then 0 else 1) }"

definition classifyPacketByUserPriorityReq :: "qpacket \<Rightarrow> int option" where
  "classifyPacketByUserPriorityReq p = qk_userPriorityReq p"

definition classifyPacketByUserPriorityInd :: "qpacket \<Rightarrow> int option" where
  "classifyPacketByUserPriorityInd p = Some (case qk_userPriorityInd p of None \<Rightarrow> 0 | Some n \<Rightarrow> n)"

section \<open>Collections and droppers\<close>

datatype dropper = AtCollectionEnd | AtCollectionBegin | LowestOwnerModuleId | HighestOwnerModuleId

definition selectPacketAtEnd :: "('c \<Rightarrow> int) \<Rightarrow> ('c \<Rightarrow> int \<Rightarrow> qpacket option) \<Rightarrow> 'c \<Rightarrow> qpacket option" where
  "selectPacketAtEnd num get c = get c (num c - 1)"

definition selectPacketAtBegin :: "('c \<Rightarrow> int) \<Rightarrow> ('c \<Rightarrow> int \<Rightarrow> qpacket option) \<Rightarrow> 'c \<Rightarrow> qpacket option" where
  "selectPacketAtBegin num get c = get c 0"

text \<open>
  The two selections by owner scan the collection and keep the packet of the first smallest or largest module
  id; the start values are \<open>INT_MAX\<close> and \<open>INT_MIN\<close>. \<open>None\<close> in the accumulator is the null pointer.
\<close>

definition selectPacketWithLowestOwnerModuleId ::
  "(qpacket \<Rightarrow> int) \<Rightarrow> ('c \<Rightarrow> int) \<Rightarrow> ('c \<Rightarrow> int \<Rightarrow> qpacket option) \<Rightarrow> 'c \<Rightarrow> qpacket option" where
  "selectPacketWithLowestOwnerModuleId owner num get c =
     do {
       packets \<leftarrow> those (map (get c) [0..num c - 1]);
       snd (fold (\<lambda>p (lowestId, result). if owner p < lowestId then (owner p, Some p) else (lowestId, result))
              packets (2 ^ 31 - 1, None))
     }"

definition selectPacketWithHighestOwnerModuleId ::
  "(qpacket \<Rightarrow> int) \<Rightarrow> ('c \<Rightarrow> int) \<Rightarrow> ('c \<Rightarrow> int \<Rightarrow> qpacket option) \<Rightarrow> 'c \<Rightarrow> qpacket option" where
  "selectPacketWithHighestOwnerModuleId owner num get c =
     do {
       packets \<leftarrow> those (map (get c) [0..num c - 1]);
       snd (fold (\<lambda>p (highestId, result). if owner p > highestId then (owner p, Some p) else (highestId, result))
              packets (- (2 ^ 31), None))
     }"

fun selectPacket ::
  "dropper \<Rightarrow> ('c \<Rightarrow> qpacket \<Rightarrow> int) \<Rightarrow> ('c \<Rightarrow> int) \<Rightarrow> ('c \<Rightarrow> int \<Rightarrow> qpacket option) \<Rightarrow> 'c \<Rightarrow> qpacket option" where
  "selectPacket AtCollectionEnd owner num get c = selectPacketAtEnd num get c"
| "selectPacket AtCollectionBegin owner num get c = selectPacketAtBegin num get c"
| "selectPacket LowestOwnerModuleId owner num get c = selectPacketWithLowestOwnerModuleId (owner c) num get c"
| "selectPacket HighestOwnerModuleId owner num get c = selectPacketWithHighestOwnerModuleId (owner c) num get c"

text \<open>
  The loop that drops packets while a collection is overloaded, which queues, compound queues and buffers share;
  the result \<open>None\<close> is an exception or a loop that never ends.
\<close>

partial_function (option) drop_excess ::
  "('c \<Rightarrow> bool) \<Rightarrow> ('c \<Rightarrow> qpacket option) \<Rightarrow> (qpacket \<Rightarrow> 'c \<Rightarrow> 'c option) \<Rightarrow> 'c \<Rightarrow> (qpacket list \<times> 'c) option" where
  "drop_excess overloaded select remove c =
     (if overloaded c
      then Option.bind (select c) (\<lambda>p. Option.bind (remove p c) (\<lambda>c'.
             Option.bind (drop_excess overloaded select remove c') (\<lambda>(ds, c''). Some (p # ds, c''))))
      else Some ([], c))"

declare drop_excess.simps [code]

section \<open>The queue\<close>

record packetq =
  pq_packetCapacity :: int
  pq_dataCapacity :: int
  pq_queue :: "qpacket list"
  pq_dropper :: "dropper option"
  pq_numPulledPackets :: nat
  pq_numRemovedPackets :: nat
  pq_numDroppedPackets :: nat

definition pq_getNumPackets :: "packetq \<Rightarrow> int" where
  "pq_getNumPackets s = int (length (pq_queue s))"

definition pq_getTotalLength :: "packetq \<Rightarrow> int" where
  "pq_getTotalLength s = sum_list (map qk_dataLength (pq_queue s))"

definition pq_isOverloaded :: "packetq \<Rightarrow> bool" where
  "pq_isOverloaded s \<longleftrightarrow>
     (pq_packetCapacity s \<noteq> -1 \<and> pq_getNumPackets s > pq_packetCapacity s) \<or>
     (pq_dataCapacity s \<noteq> -1 \<and> pq_getTotalLength s > pq_dataCapacity s)"

definition pq_getPacket :: "packetq \<Rightarrow> int \<Rightarrow> qpacket option" where
  "pq_getPacket s index =
     do { ensure (\<not> (index < 0 \<or> index \<ge> pq_getNumPackets s)); Some (pq_queue s ! nat index) }"

definition queue_remove :: "qpacket \<Rightarrow> packetq \<Rightarrow> packetq option" where
  "queue_remove p s = do { ensure (p \<in> set (pq_queue s)); Some (s\<lparr>pq_queue := remove1 p (pq_queue s)\<rparr>) }"

text \<open>\<open>removePacket\<close> of the interface, and the removal and drop of the overload loop, which count differently.\<close>

definition pq_removePacket :: "qpacket \<Rightarrow> packetq \<Rightarrow> packetq option" where
  "pq_removePacket p s = map_option (pq_numRemovedPackets_update Suc) (queue_remove p s)"

definition pq_dropPacket :: "qpacket \<Rightarrow> packetq \<Rightarrow> packetq option" where
  "pq_dropPacket p s = map_option (pq_numDroppedPackets_update Suc) (queue_remove p s)"

text \<open>
  \<open>pushPacket\<close> of a queue without a buffer: the dropped packets, whether the collector is notified, and the state.
  All packets of a queue have the queue's module as owner.
\<close>

definition pq_drop_loop :: "int \<Rightarrow> packetq \<Rightarrow> (qpacket list \<times> packetq) option" where
  "pq_drop_loop moduleId s =
     (case pq_dropper s of None \<Rightarrow> Some ([], s)
      | Some d \<Rightarrow> drop_excess pq_isOverloaded (selectPacket d (\<lambda>_ _. moduleId) pq_getNumPackets pq_getPacket) pq_dropPacket s)"

definition pq_pushPacket ::
  "(qpacket \<Rightarrow> qpacket list \<Rightarrow> qpacket list) \<Rightarrow> int \<Rightarrow> qpacket \<Rightarrow> packetq \<Rightarrow> (qpacket list \<times> bool \<times> packetq) option" where
  "pq_pushPacket ins moduleId p s =
     do {
       (ds, s) \<leftarrow> pq_drop_loop moduleId (s\<lparr>pq_queue := ins p (pq_queue s)\<rparr>);
       ensure (\<not> pq_isOverloaded s);
       Some (ds, pq_getNumPackets s \<noteq> 0, s)
     }"

definition pq_pullPacket :: "packetq \<Rightarrow> (qpacket \<times> packetq) option" where
  "pq_pullPacket s =
     (case pq_queue s of [] \<Rightarrow> None
      | p # q \<Rightarrow> Some (p, s\<lparr>pq_queue := q, pq_numPulledPackets := pq_numPulledPackets s + 1\<rparr>))"

definition pq_canPullPacket :: "packetq \<Rightarrow> qpacket option" where
  "pq_canPullPacket s = (if pq_getNumPackets s \<noteq> 0 then pq_getPacket s 0 else None)"

definition pq_canPushSomePacket :: "packetq \<Rightarrow> bool" where
  "pq_canPushSomePacket s =
     (if pq_dropper s \<noteq> None then True
      else if pq_packetCapacity s \<noteq> -1 \<and> pq_getNumPackets s \<ge> pq_packetCapacity s then False
      else if pq_dataCapacity s \<noteq> -1 \<and> pq_getTotalLength s \<ge> pq_dataCapacity s then False
      else True)"

definition pq_canPushPacket :: "qpacket \<Rightarrow> packetq \<Rightarrow> bool" where
  "pq_canPushPacket p s =
     (if pq_dropper s \<noteq> None then True
      else if pq_packetCapacity s \<noteq> -1 \<and> pq_getNumPackets s \<ge> pq_packetCapacity s then False
      else if pq_dataCapacity s \<noteq> -1 \<and> pq_dataCapacity s - pq_getTotalLength s < qk_dataLength p then False
      else True)"

text \<open>\<open>removeAllPackets\<close> without a buffer: the loop compares its counter with the number of packets left.\<close>

function remove_loop :: "nat \<Rightarrow> packetq \<Rightarrow> qpacket list \<times> packetq" where
  "remove_loop i s =
     (if int i < pq_getNumPackets s
      then (let (ps, s') = remove_loop (i + 1) (s\<lparr>pq_queue := tl (pq_queue s)\<rparr>) in (hd (pq_queue s) # ps, s'))
      else ([], s))"
  by pat_completeness auto
termination by (relation "measure (\<lambda>(i, s). length (pq_queue s))") (auto simp: pq_getNumPackets_def)

declare remove_loop.simps [simp del]

definition pq_removeAllPackets :: "packetq \<Rightarrow> qpacket list \<times> packetq" where
  "pq_removeAllPackets s =
     (let (ps, s) = remove_loop 0 s in (ps, s\<lparr>pq_numRemovedPackets := pq_numRemovedPackets s + length ps\<rparr>))"

definition inprogress_canPushPacket :: "(qpacket \<Rightarrow> qpacket \<Rightarrow> int) \<Rightarrow> qpacket \<Rightarrow> packetq \<Rightarrow> bool" where
  "inprogress_canPushPacket cmp p s =
     (case pq_queue s of [] \<Rightarrow> True | q # _ \<Rightarrow> cmp p q > 0)"

text \<open>The documented insertion of \<open>cPacketQueue\<close>, and one function that has it.\<close>

definition storage_insert :: "(qpacket \<Rightarrow> qpacket \<Rightarrow> int) option \<Rightarrow> (qpacket \<Rightarrow> qpacket list \<Rightarrow> qpacket list) \<Rightarrow> bool" where
  "storage_insert cmp ins \<longleftrightarrow>
     (\<forall>p q. case cmp of None \<Rightarrow> ins p q = q @ [p]
        | Some c \<Rightarrow> \<exists>a b. q = a @ b \<and> ins p q = a @ p # b \<and> (\<forall>x \<in> set b. c p x < 0) \<and> (a \<noteq> [] \<longrightarrow> \<not> c p (last a) < 0))"

definition fifo_insert :: "qpacket \<Rightarrow> qpacket list \<Rightarrow> qpacket list" where
  "fifo_insert p q = q @ [p]"

text \<open>Removing from a list.\<close>

lemma remove1_last: "distinct xs \<Longrightarrow> xs \<noteq> [] \<Longrightarrow> remove1 (last xs) xs = butlast xs"
  by (induction xs) auto

lemma length_remove1_less: "x \<in> set xs \<Longrightarrow> length (remove1 x xs) < length xs"
  by (induction xs) auto

lemma drop_snoc_last: "n < length xs \<Longrightarrow> List.drop n xs = List.drop n (butlast xs) @ [last xs]"
  by (cases xs rule: rev_cases) auto

lemma subseq_remove1: "subseq (remove1 x xs) xs"
  by (induction xs) auto

lemma first_filter_upt:
  "filter P [0..<n] = k # ks \<Longrightarrow> k < n \<and> P k \<and> (\<forall>j < k. \<not> P j)"
proof -
  assume "filter P [0..<n] = k # ks"
  then obtain us vs where u: "[0..<n] = us @ k # vs" "\<forall>u \<in> set us. \<not> P u" "P k" by (auto simp: filter_eq_Cons_iff)
  from arg_cong[OF u(1), of length] have l: "length us < n" by simp
  have "k = [0..<n] ! length us" by (simp add: u(1))
  then have k: "k = length us" using l by simp
  have "us = take k [0..<n]" by (simp add: u(1) k)
  also have "\<dots> = [0..<k]" using l k by (simp add: take_upt)
  finally have "set us = set [0..<k]" by (rule arg_cong)
  with u(2,3) l k show ?thesis by auto
qed

section \<open>The collection interface\<close>

text \<open>What the clients of \<open>IPacketCollection\<close> rely on, for a collection with the given contents.\<close>

locale packet_collection =
  fixes num :: "'c \<Rightarrow> int" and get :: "'c \<Rightarrow> int \<Rightarrow> qpacket option" and remove :: "qpacket \<Rightarrow> 'c \<Rightarrow> 'c option"
    and contents :: "'c \<Rightarrow> qpacket list" and inv :: "'c \<Rightarrow> bool"
  assumes num: "inv c \<Longrightarrow> num c = int (length (contents c))"
    and get: "inv c \<Longrightarrow> 0 \<le> i \<Longrightarrow> i < num c \<Longrightarrow> get c i = Some (contents c ! nat i)"
    and remove: "inv c \<Longrightarrow> p \<in> set (contents c) \<Longrightarrow>
      \<exists>c'. remove p c = Some c' \<and> inv c' \<and> contents c' = remove1 p (contents c)"
begin

lemma at_end: "inv c \<Longrightarrow> contents c \<noteq> [] \<Longrightarrow> selectPacketAtEnd num get c = Some (last (contents c))"
  by (simp add: selectPacketAtEnd_def get num last_conv_nth nat_diff_distrib Suc_le_eq)

lemma at_begin: "inv c \<Longrightarrow> contents c \<noteq> [] \<Longrightarrow> selectPacketAtBegin num get c = Some (hd (contents c))"
  by (simp add: selectPacketAtBegin_def get num hd_conv_nth)

lemma all_packets: "inv c \<Longrightarrow> those (map (get c) [0..num c - 1]) = Some (contents c)"
proof -
  assume i: "inv c"
  have "map (get c) [0..num c - 1] = map Some (contents c)"
    by (rule nth_equalityI) (auto simp: num[OF i] get[OF i])
  moreover have "those (map Some xs) = Some xs" for xs :: "qpacket list" by (induction xs) simp_all
  ultimately show ?thesis by simp
qed

text \<open>The loop ends without an exception and what it drops and keeps are the contents.\<close>

lemma drop_excess_total:
  assumes "inv c"
    and select: "\<And>c. inv c \<Longrightarrow> overloaded c \<Longrightarrow> \<exists>p \<in> set (contents c). select c = Some p"
  shows "\<exists>ds c'. drop_excess overloaded select remove c = Some (ds, c') \<and> inv c' \<and> \<not> overloaded c' \<and>
    mset (contents c) = mset ds + mset (contents c')"
  using assms(1)
proof (induction "length (contents c)" arbitrary: c rule: less_induct)
  case less
  show ?case
  proof (cases "overloaded c")
    case False
    then have "drop_excess overloaded select remove c = Some ([], c)" by (subst drop_excess.simps) simp
    with False less.prems show ?thesis by simp
  next
    case True
    from select[OF less.prems True] obtain p where p: "p \<in> set (contents c)" "select c = Some p" by blast
    from remove[OF less.prems p(1)] obtain c1 where c1: "remove p c = Some c1" "inv c1" "contents c1 = remove1 p (contents c)"
      by blast
    have "length (contents c1) < length (contents c)"
      using p(1) c1(3) by (simp add: length_remove1_less)
    from less.hyps[OF this c1(2)] obtain ds c2 where
      c2: "drop_excess overloaded select remove c1 = Some (ds, c2)" "inv c2" "\<not> overloaded c2"
        "mset (contents c1) = mset ds + mset (contents c2)" by blast
    have "mset (contents c) = add_mset p (mset (contents c1))" by (simp add: c1(3) p(1))
    then have "mset (contents c) = mset (p # ds) + mset (contents c2)" by (simp add: c2(4))
    moreover have "drop_excess overloaded select remove c = Some (p # ds, c2)"
      by (subst drop_excess.simps) (simp add: True p(2) c1(1) c2(1))
    ultimately show ?thesis using c2(2,3) by blast
  qed
qed

text \<open>Every dropped packet was selected in an overloaded collection that still held all that is left in the end.\<close>

lemma drop_excess_selected:
  assumes "inv c" "drop_excess overloaded select remove c = Some (ds, c')"
    and select: "\<And>c p. inv c \<Longrightarrow> overloaded c \<Longrightarrow> select c = Some p \<Longrightarrow> p \<in> set (contents c)"
  shows "inv c' \<and> set (contents c') \<subseteq> set (contents c) \<and> (\<forall>d \<in> set ds. \<exists>c1. inv c1 \<and> select c1 = Some d \<and>
    d \<in> set (contents c1) \<and> set (contents c') \<subseteq> set (contents c1))"
  using assms(1,2)
proof (induction "length (contents c)" arbitrary: c ds rule: less_induct)
  case less
  show ?case
  proof (cases "overloaded c")
    case False
    then have "ds = []" "c' = c" using less.prems(2) by (subst (asm) drop_excess.simps, simp)+
    then show ?thesis using less.prems(1) by simp
  next
    case True
    with less.prems(2) obtain p c1 ds1 where
      p: "select c = Some p" "remove p c = Some c1" "drop_excess overloaded select remove c1 = Some (ds1, c')" "ds = p # ds1"
      by (subst (asm) drop_excess.simps) (auto split: Option.bind_splits)
    have m: "p \<in> set (contents c)" by (rule select[OF less.prems(1) True p(1)])
    from remove[OF less.prems(1) m] p(2) have c1: "inv c1" "contents c1 = remove1 p (contents c)" by auto
    have sub: "set (contents c1) \<subseteq> set (contents c)" by (simp add: c1(2) set_remove1_subset)
    have "length (contents c1) < length (contents c)" using length_remove1_less[OF m] c1(2) by simp
    note ih = less.hyps[OF this c1(1) p(3)]
    with sub p(1,4) m less.prems(1) show ?thesis by auto
  qed
qed

text \<open>Dropping at the end keeps the longest prefix that fits, dropping at the beginning the longest suffix.\<close>

lemma drop_at_end:
  assumes "inv c" "distinct (contents c)"
    and ov: "\<And>c. inv c \<Longrightarrow> overloaded c = ov (contents c)" and "\<not> ov []"
  shows "\<exists>ds c' n. drop_excess overloaded (selectPacketAtEnd num get) remove c = Some (ds, c') \<and> inv c' \<and>
    contents c' = take n (contents c) \<and> ds = rev (List.drop n (contents c)) \<and> n \<le> length (contents c) \<and>
    \<not> ov (take n (contents c)) \<and> (\<forall>k. n < k \<and> k \<le> length (contents c) \<longrightarrow> ov (take k (contents c)))"
  using assms(1,2)
proof (induction "length (contents c)" arbitrary: c rule: less_induct)
  case less
  show ?case
  proof (cases "overloaded c")
    case False
    then have "\<not> ov (contents c)" using ov[OF less.prems(1)] by simp
    moreover have "drop_excess overloaded (selectPacketAtEnd num get) remove c = Some ([], c)"
      using False by (subst drop_excess.simps) simp
    ultimately show ?thesis using less.prems
      by (intro exI[of _ "[]"] exI[of _ c] exI[of _ "length (contents c)"]) simp
  next
    case True
    then have o: "ov (contents c)" using ov[OF less.prems(1)] by simp
    with assms(4) have ne: "contents c \<noteq> []" by auto
    let ?p = "last (contents c)"
    from remove[OF less.prems(1), of ?p] ne obtain c1 where
      c1: "remove ?p c = Some c1" "inv c1" "contents c1 = remove1 ?p (contents c)" by auto
    have b: "contents c1 = butlast (contents c)"
      using c1(3) less.prems(2) ne by (simp add: remove1_last)
    have len: "length (contents c1) < length (contents c)" using ne b by simp
    have "distinct (contents c1)" using b less.prems(2) distinct_butlast by simp
    from less.hyps[OF len c1(2) this] obtain ds c2 n where
      c2: "drop_excess overloaded (selectPacketAtEnd num get) remove c1 = Some (ds, c2)" "inv c2"
        "contents c2 = take n (contents c1)" "ds = rev (List.drop n (contents c1))" "n \<le> length (contents c1)"
        "\<not> ov (take n (contents c1))" "\<forall>k. n < k \<and> k \<le> length (contents c1) \<longrightarrow> ov (take k (contents c1))" by blast
    have t: "take k (contents c1) = take k (contents c)" if "k < length (contents c)" for k
      using that b by (simp add: take_butlast)
    have n: "n < length (contents c)" using c2(5) len by simp
    have "?p # ds = rev (List.drop n (contents c))"
      using c2(4) b drop_snoc_last[OF n] by simp
    moreover have "ov (take k (contents c))" if "n < k" "k \<le> length (contents c)" for k
      using that o c2(7) t[of k] b by (cases "k = length (contents c)") auto
    moreover have "drop_excess overloaded (selectPacketAtEnd num get) remove c = Some (?p # ds, c2)"
      by (subst drop_excess.simps) (simp add: True at_end[OF less.prems(1) ne] c1(1) c2(1))
    moreover have "contents c2 = take n (contents c)" "\<not> ov (take n (contents c))"
      using c2(3,6) t[OF n] by simp_all
    ultimately show ?thesis using c2(2) n by (meson less_imp_le_nat)
  qed
qed


lemma drop_at_begin:
  assumes "inv c" "distinct (contents c)"
    and ov: "\<And>c. inv c \<Longrightarrow> overloaded c = ov (contents c)" and "\<not> ov []"
  shows "\<exists>ds c' n. drop_excess overloaded (selectPacketAtBegin num get) remove c = Some (ds, c') \<and> inv c' \<and>
    contents c' = List.drop n (contents c) \<and> ds = take n (contents c) \<and> n \<le> length (contents c) \<and>
    \<not> ov (List.drop n (contents c)) \<and> (\<forall>k < n. ov (List.drop k (contents c)))"
  using assms(1,2)
proof (induction "length (contents c)" arbitrary: c rule: less_induct)
  case less
  show ?case
  proof (cases "overloaded c")
    case False
    then have "\<not> ov (contents c)" using ov[OF less.prems(1)] by simp
    moreover have "drop_excess overloaded (selectPacketAtBegin num get) remove c = Some ([], c)"
      using False by (subst drop_excess.simps) simp
    ultimately show ?thesis using less.prems by (intro exI[of _ "[]"] exI[of _ c] exI[of _ 0]) simp
  next
    case True
    then have o: "ov (contents c)" using ov[OF less.prems(1)] by simp
    with assms(4) obtain p q where pq: "contents c = p # q" by (metis neq_Nil_conv)
    from remove[OF less.prems(1), of p] pq obtain c1 where
      c1: "remove p c = Some c1" "inv c1" "contents c1 = q" by auto
    have "length (contents c1) < length (contents c)" "distinct (contents c1)" using c1(3) pq less.prems(2) by simp_all
    from less.hyps[OF this(1) c1(2) this(2)] c1(3) obtain ds c2 n where
      c2: "drop_excess overloaded (selectPacketAtBegin num get) remove c1 = Some (ds, c2)" "inv c2"
        "contents c2 = List.drop n q" "ds = take n q" "n \<le> length q" "\<not> ov (List.drop n q)" "\<forall>k < n. ov (List.drop k q)" by auto
    have "selectPacketAtBegin num get c = Some p" using at_begin[OF less.prems(1)] pq by simp
    then have "drop_excess overloaded (selectPacketAtBegin num get) remove c = Some (p # ds, c2)"
      by (subst drop_excess.simps) (simp add: True c1(1) c2(1))
    moreover have "\<forall>k < Suc n. ov (List.drop k (contents c))" using o c2(7) pq by (simp add: All_less_Suc2)
    ultimately show ?thesis using c2 pq by (intro exI[of _ "p # ds"] exI[of _ c2] exI[of _ "Suc n"]) simp
  qed
qed

end

section \<open>Packet queues are collections\<close>

interpretation pq: packet_collection pq_getNumPackets pq_getPacket pq_dropPacket pq_queue "\<lambda>_. True"
  by unfold_locales (auto simp: pq_getNumPackets_def pq_getPacket_def pq_dropPacket_def queue_remove_def)

interpretation pq_removal: packet_collection pq_getNumPackets pq_getPacket pq_removePacket pq_queue "\<lambda>_. True"
  by unfold_locales (auto simp: pq_getNumPackets_def pq_getPacket_def pq_removePacket_def queue_remove_def)

definition queue_overloaded :: "int \<Rightarrow> int \<Rightarrow> qpacket list \<Rightarrow> bool" where
  "queue_overloaded packetCapacity dataCapacity q \<longleftrightarrow>
     (packetCapacity \<noteq> -1 \<and> int (length q) > packetCapacity) \<or>
     (dataCapacity \<noteq> -1 \<and> sum_list (map qk_dataLength q) > dataCapacity)"

lemma pq_isOverloaded_contents: "pq_isOverloaded s = queue_overloaded (pq_packetCapacity s) (pq_dataCapacity s) (pq_queue s)"
  by (simp add: pq_isOverloaded_def queue_overloaded_def pq_getNumPackets_def pq_getTotalLength_def)

lemma queue_overloaded_Nil: "-1 \<le> c \<Longrightarrow> -1 \<le> d \<Longrightarrow> \<not> queue_overloaded c d []"
  by (auto simp: queue_overloaded_def)

text \<open>The configuration does not change in the overload loop.\<close>

definition same_config :: "packetq \<Rightarrow> packetq \<Rightarrow> bool" where
  "same_config s s' \<longleftrightarrow> pq_packetCapacity s' = pq_packetCapacity s \<and> pq_dataCapacity s' = pq_dataCapacity s \<and>
     pq_dropper s' = pq_dropper s"

interpretation pq_fixed: packet_collection pq_getNumPackets pq_getPacket pq_dropPacket pq_queue "same_config s" for s
  by unfold_locales (auto simp: pq_getNumPackets_def pq_getPacket_def pq_dropPacket_def queue_remove_def same_config_def)

lemma storage_insert_mset: "storage_insert cmp ins \<Longrightarrow> mset (ins p q) = add_mset p (mset q)"
  unfolding storage_insert_def by (cases cmp) (auto, metis mset_append mset.simps(2) union_mset_add_mset_right)

lemma storage_insert_facts:
  assumes "storage_insert cmp ins"
  shows "length (ins p q) = Suc (length q)" "set (ins p q) = insert p (set q)"
    "sum_list (map qk_dataLength (ins p q)) = qk_dataLength p + sum_list (map qk_dataLength q)"
    "distinct (ins p q) \<longleftrightarrow> p \<notin> set q \<and> distinct q"
proof -
  note m = storage_insert_mset[OF assms, of p q]
  show "length (ins p q) = Suc (length q)" using m by (metis size_add_mset size_mset)
  show "set (ins p q) = insert p (set q)" using m by (metis set_mset_add_mset_insert set_mset_mset)
  have "mset (map qk_dataLength (ins p q)) = mset (map qk_dataLength (p # q))" using m by simp
  then show "sum_list (map qk_dataLength (ins p q)) = qk_dataLength p + sum_list (map qk_dataLength q)"
    by (metis sum_mset_sum_list list.simps(9) sum_list.Cons)
  show "distinct (ins p q) \<longleftrightarrow> p \<notin> set q \<and> distinct q"
    using m by (metis distinct.simps(2) mset.simps(2) mset_eq_imp_distinct_iff)
qed

text \<open>A sorted queue stays sorted, and what is inserted goes behind its equals.\<close>

lemma storage_insert_sorted:
  assumes "storage_insert (Some cmp) ins" "sorted_wrt (\<lambda>a b. cmp b a \<ge> 0) q"
    and anti: "\<And>a b. cmp a b < 0 \<Longrightarrow> cmp b a \<ge> 0" and trans: "\<And>a b c. cmp b a \<ge> 0 \<Longrightarrow> cmp c b \<ge> 0 \<Longrightarrow> cmp c a \<ge> 0"
  shows "sorted_wrt (\<lambda>a b. cmp b a \<ge> 0) (ins p q)"
proof -
  from assms(1) obtain a b where ab: "q = a @ b" "ins p q = a @ p # b" "\<forall>x \<in> set b. cmp p x < 0"
      "a \<noteq> [] \<longrightarrow> \<not> cmp p (last a) < 0"
    unfolding storage_insert_def option.case by blast
  have "cmp p x \<ge> 0" if "x \<in> set a" for x
  proof -
    from that have ne: "a \<noteq> []" by auto
    then obtain a' y where a: "a = a' @ [y]" by (metis rev_exhaust)
    then have "x = last a \<or> cmp (last a) x \<ge> 0"
      using assms(2) ab(1) that by (auto simp: sorted_wrt_append)
    then show ?thesis using ab(4) ne trans by fastforce
  qed
  then show ?thesis using assms(2) ab(1,2,3) anti by (auto simp: sorted_wrt_append)
qed

section \<open>What the queue promises\<close>

lemma push_succeeds_iff_canPush_base:
  assumes "storage_insert cmp ins" "pq_dropper s = None" "\<not> pq_isOverloaded s"
  shows "pq_pushPacket ins moduleId p s =
    (if pq_canPushPacket p s then Some ([], True, s\<lparr>pq_queue := ins p (pq_queue s)\<rparr>) else None)"
    "pq_canPushPacket p s \<Longrightarrow> \<not> pq_isOverloaded (s\<lparr>pq_queue := ins p (pq_queue s)\<rparr>)"
proof -
  have ne: "ins p (pq_queue s) \<noteq> []" using storage_insert_facts(1)[OF assms(1), of p "pq_queue s"] by auto
  have "\<not> pq_isOverloaded (s\<lparr>pq_queue := ins p (pq_queue s)\<rparr>) \<longleftrightarrow> pq_canPushPacket p s"
    using assms(2,3) unfolding pq_isOverloaded_def pq_canPushPacket_def pq_getNumPackets_def pq_getTotalLength_def
    by (auto simp: storage_insert_facts[OF assms(1)])
  then show "pq_pushPacket ins moduleId p s =
      (if pq_canPushPacket p s then Some ([], True, s\<lparr>pq_queue := ins p (pq_queue s)\<rparr>) else None)"
    "pq_canPushPacket p s \<Longrightarrow> \<not> pq_isOverloaded (s\<lparr>pq_queue := ins p (pq_queue s)\<rparr>)"
    using assms(2) ne by (auto simp: pq_pushPacket_def pq_drop_loop_def pq_getNumPackets_def)
qed

text \<open>
  A queue without a dropper and a buffer accepts a packet exactly when \<open>canPushPacket\<close> says so: then the packet
  is inserted, nothing is dropped, the queue is still within its limits and the collector is notified; otherwise the
  push ends with an exception. This holds for all capacities, the unlimited ones included, and for every order of
  the storage.
\<close>

theorem push_succeeds_iff_canPush:
  assumes "storage_insert cmp ins" "pq_dropper s = None" "\<not> pq_isOverloaded s"
  shows "let s' = s\<lparr>pq_queue := ins p (pq_queue s)\<rparr> in
    if pq_canPushPacket p s then pq_pushPacket ins moduleId p s = Some ([], True, s') \<and> \<not> pq_isOverloaded s'
    else pq_pushPacket ins moduleId p s = None"
  using push_succeeds_iff_canPush_base[OF assms] by (simp add: Let_def)

definition sample_packet :: "nat \<Rightarrow> int \<Rightarrow> qpacket" where
  "sample_packet i n = \<lparr>qk_id = i, qk_dataLength = n, qk_totalLength = n, qk_creationTime = int i, qk_bytes = [of_nat i],
     qk_userPriorityReq = Some (int i), qk_userPriorityInd = None, qk_labels = None\<rparr>"

definition sample_queue :: "int \<Rightarrow> dropper option \<Rightarrow> qpacket list \<Rightarrow> packetq" where
  "sample_queue capacity d q = \<lparr>pq_packetCapacity = capacity, pq_dataCapacity = -1, pq_queue = q, pq_dropper = d,
     pq_numPulledPackets = 0, pq_numRemovedPackets = 0, pq_numDroppedPackets = 0\<rparr>"

lemma storage_fifo: "storage_insert None fifo_insert"
  by (simp add: storage_insert_def fifo_insert_def)

theorem push_succeeds_iff_canPush_witness:
  "pq_pushPacket fifo_insert 7 (sample_packet 2 8) (sample_queue 1 None [sample_packet 1 8]) = None \<and>
   pq_pushPacket fifo_insert 7 (sample_packet 2 8) (sample_queue 2 None [sample_packet 1 8]) \<noteq> None"
  using push_succeeds_iff_canPush[OF storage_fifo, of "sample_queue 1 None [sample_packet 1 8]" "sample_packet 2 8" 7]
    push_succeeds_iff_canPush[OF storage_fifo, of "sample_queue 2 None [sample_packet 1 8]" "sample_packet 2 8" 7]
  by (simp add: sample_queue_def pq_isOverloaded_def pq_canPushPacket_def pq_getNumPackets_def)

text \<open>
  A queue with a dropper never refuses a packet and never fails, whatever the sizes: pushing ends, and what is left
  is the longest prefix (dropping at the end) or the longest suffix (dropping at the beginning) of the queue with the
  new packet that is within the packet and data capacity; the dropped packets are the others, in the order in which
  they are dropped. \<open>canPushPacket\<close> is true all along.
\<close>

theorem overflow_drops_excess:
  assumes "storage_insert cmp ins" "pq_dropper s = Some d" "d = AtCollectionEnd \<or> d = AtCollectionBegin"
    and "-1 \<le> pq_packetCapacity s" "-1 \<le> pq_dataCapacity s" "distinct (p # pq_queue s)"
  shows "\<exists>ds s' n. pq_pushPacket ins moduleId p s = Some (ds, pq_queue s' \<noteq> [], s') \<and>
    (let q = ins p (pq_queue s); over = queue_overloaded (pq_packetCapacity s) (pq_dataCapacity s) in
     \<not> over (pq_queue s') \<and> mset q = mset ds + mset (pq_queue s') \<and>
     (if d = AtCollectionEnd
      then pq_queue s' = take n q \<and> ds = rev (List.drop n q) \<and> (\<forall>k. n < k \<and> k \<le> length q \<longrightarrow> over (take k q))
      else pq_queue s' = List.drop n q \<and> ds = take n q \<and> (\<forall>k < n. over (List.drop k q))))"
proof -
  let ?c = "s\<lparr>pq_queue := ins p (pq_queue s)\<rparr>" and ?q = "ins p (pq_queue s)"
  let ?ov = "queue_overloaded (pq_packetCapacity s) (pq_dataCapacity s)"
  have i: "same_config s ?c" by (simp add: same_config_def)
  have dist: "distinct (pq_queue ?c)" using assms(6) by (simp add: storage_insert_facts[OF assms(1)])
  have ov: "pq_isOverloaded c = ?ov (pq_queue c)" if "same_config s c" for c
    using that by (simp add: pq_isOverloaded_contents same_config_def)
  note nil = queue_overloaded_Nil[OF assms(4,5)]
  have select: "selectPacket AtCollectionEnd o' = selectPacketAtEnd" "selectPacket AtCollectionBegin o' = selectPacketAtBegin"
    for o' :: "packetq \<Rightarrow> qpacket \<Rightarrow> int" by (simp_all add: fun_eq_iff)
  note defs = pq_pushPacket_def pq_drop_loop_def select
  from assms(3) show ?thesis
  proof
    assume d: "d = AtCollectionEnd"
    from pq_fixed.drop_at_end[OF i dist ov nil] obtain ds s' n where
      r: "drop_excess pq_isOverloaded (selectPacketAtEnd pq_getNumPackets pq_getPacket) pq_dropPacket ?c = Some (ds, s')"
        "same_config s s'" "pq_queue s' = take n ?q" "ds = rev (List.drop n ?q)" "\<not> ?ov (take n ?q)"
        "\<forall>k. n < k \<and> k \<le> length ?q \<longrightarrow> ?ov (take k ?q)" by auto
    have "mset ?q = mset ds + mset (pq_queue s')" by (simp add: r(3,4)) (metis append_take_drop_id mset_append add.commute)
    with r d assms(2) ov[OF r(2)] show ?thesis by (intro exI[of _ ds] exI[of _ s'] exI[of _ n]) (simp add: defs pq_getNumPackets_def[of s'] conj_commute)
  next
    assume d: "d = AtCollectionBegin"
    from pq_fixed.drop_at_begin[OF i dist ov nil] obtain ds s' n where
      r: "drop_excess pq_isOverloaded (selectPacketAtBegin pq_getNumPackets pq_getPacket) pq_dropPacket ?c = Some (ds, s')"
        "same_config s s'" "pq_queue s' = List.drop n ?q" "ds = take n ?q" "\<not> ?ov (List.drop n ?q)"
        "\<forall>k < n. ?ov (List.drop k ?q)" by auto
    have "mset ?q = mset ds + mset (pq_queue s')" by (simp add: r(3,4)) (metis append_take_drop_id mset_append)
    with r d assms(2) ov[OF r(2)] show ?thesis by (intro exI[of _ ds] exI[of _ s'] exI[of _ n]) (simp add: defs pq_getNumPackets_def[of s'] conj_commute)
  qed
qed

theorem overflow_drops_excess_witness:
  "\<exists>ds s'. pq_pushPacket fifo_insert 7 (sample_packet 2 8) (sample_queue 1 (Some AtCollectionBegin) [sample_packet 1 8]) =
     Some (ds, pq_queue s' \<noteq> [], s') \<and> \<not> queue_overloaded 1 (-1) (pq_queue s')"
  using overflow_drops_excess[OF storage_fifo, of "sample_queue 1 (Some AtCollectionBegin) [sample_packet 1 8]"
      AtCollectionBegin "sample_packet 2 8" 7]
  by (simp add: sample_queue_def sample_packet_def Let_def) blast

text \<open>
  \<open>removeAllPackets\<close> compares its counter with the shrinking length of the queue, so that only the first half of
  the packets is removed.
\<close>

lemma remove_loop_half:
  "i \<le> length (pq_queue s) \<Longrightarrow>
   remove_loop i s = (let k = (length (pq_queue s) - i + 1) div 2
     in (take k (pq_queue s), s\<lparr>pq_queue := List.drop k (pq_queue s)\<rparr>))"
proof (induction "length (pq_queue s)" arbitrary: i s rule: less_induct)
  case less
  show ?case
  proof (cases "i < length (pq_queue s)")
    case False
    with less.prems show ?thesis by (subst remove_loop.simps) (simp add: pq_getNumPackets_def)
  next
    case True
    then obtain p q where q: "pq_queue s = p # q" by (cases "pq_queue s") auto
    let ?s = "s\<lparr>pq_queue := q\<rparr>"
    show ?thesis
    proof (cases "i = length q")
      case t: True
      have "remove_loop (Suc i) ?s = ([], ?s)" by (subst remove_loop.simps) (simp add: pq_getNumPackets_def t)
      then show ?thesis using True q t by (subst remove_loop.simps) (simp add: pq_getNumPackets_def Let_def)
    next
      case False
      with True q have l: "Suc i \<le> length (pq_queue ?s)" by simp
      have k: "Suc (length q) - i = Suc (Suc (length q - Suc i))" using l by simp
      have "remove_loop i s = (p # take ((length q - Suc i + 1) div 2) q, s\<lparr>pq_queue := List.drop ((length q - Suc i + 1) div 2) q\<rparr>)"
        using less.hyps[OF _ l] q True by (subst remove_loop.simps) (simp add: pq_getNumPackets_def Let_def)
      then show ?thesis by (simp add: q k Let_def)
    qed
  qed
qed

lemma removeAllPackets_leaves_half:
  "pq_queue (snd (pq_removeAllPackets s)) = List.drop ((length (pq_queue s) + 1) div 2) (pq_queue s)"
  by (simp add: pq_removeAllPackets_def remove_loop_half Let_def)

end
