(* ===== verification/Packet_Buffer.thy ===== *)
theory Packet_Buffer
  imports Packet_Queue
begin

text \<open>
  Packet buffers shared by several queues (src/inet/src/inet/queueing/buffer/PacketBuffer.cc together with the
  buffer branches of queue/PacketQueue.cc): the queues keep the order, the buffer keeps all packets and the common
  limits, and tells a queue when it drops one of its packets.
\<close>

section \<open>State\<close>

record pbuffer =
  pb_packetCapacity :: int
  pb_dataCapacity :: int
  pb_packets :: "qpacket list"
  pb_dropper :: "dropper option"
  pb_numAddedPackets :: nat
  pb_numRemovedPackets :: nat
  pb_numDroppedPackets :: nat

text \<open>A buffer with the queues that name it as their buffer module, and the ids of the queue modules.\<close>

record buffered =
  bf_buffer :: pbuffer
  bf_queues :: "packetq list"
  bf_moduleIds :: "int list"

definition pb_getTotalLength :: "pbuffer \<Rightarrow> int" where
  "pb_getTotalLength b = sum_list (map qk_totalLength (pb_packets b))"

definition pb_isOverloaded :: "pbuffer \<Rightarrow> bool" where
  "pb_isOverloaded b \<longleftrightarrow>
     (pb_packetCapacity b \<noteq> -1 \<and> int (length (pb_packets b)) > pb_packetCapacity b) \<or>
     (pb_dataCapacity b \<noteq> -1 \<and> pb_getTotalLength b > pb_dataCapacity b)"

definition bf_getNumPackets :: "buffered \<Rightarrow> int" where
  "bf_getNumPackets s = int (length (pb_packets (bf_buffer s)))"

definition bf_getPacket :: "buffered \<Rightarrow> int \<Rightarrow> qpacket option" where
  "bf_getPacket s index =
     do { ensure (\<not> (index < 0 \<or> index \<ge> bf_getNumPackets s)); Some (pb_packets (bf_buffer s) ! nat index) }"

text \<open>The owner of a packet is the storage of the queue that holds it; a packet taken out of its queue has none.\<close>

definition owner_queue :: "buffered \<Rightarrow> qpacket \<Rightarrow> nat option" where
  "owner_queue s p =
     (case filter (\<lambda>i. p \<in> set (pq_queue (bf_queues s ! i))) [0..<length (bf_queues s)] of
        [] \<Rightarrow> None | i # _ \<Rightarrow> Some i)"

definition owner_id :: "buffered \<Rightarrow> qpacket \<Rightarrow> int" where
  "owner_id s p = (case owner_queue s p of None \<Rightarrow> 0 | Some i \<Rightarrow> bf_moduleIds s ! i)"

section \<open>Operations\<close>

definition handlePacketRemoved :: "qpacket \<Rightarrow> packetq \<Rightarrow> packetq" where
  "handlePacketRemoved p s =
     (if p \<in> set (pq_queue s)
      then s\<lparr>pq_queue := remove1 p (pq_queue s), pq_numRemovedPackets := pq_numRemovedPackets s + 1\<rparr> else s)"

definition removed_callback :: "qpacket \<Rightarrow> buffered \<Rightarrow> buffered" where
  "removed_callback p s =
     (case owner_queue s p of None \<Rightarrow> s
      | Some i \<Rightarrow> s\<lparr>bf_queues := (bf_queues s)[i := handlePacketRemoved p (bf_queues s ! i)]\<rparr>)"

text \<open>Erasing a packet that is not in the vector is undefined.\<close>

definition pb_erase :: "qpacket \<Rightarrow> buffered \<Rightarrow> buffered option" where
  "pb_erase p s = do { ensure (p \<in> set (pb_packets (bf_buffer s)));
     Some (s\<lparr>bf_buffer := (bf_buffer s)\<lparr>pb_packets := remove1 p (pb_packets (bf_buffer s))\<rparr>\<rparr>) }"

definition pb_dropPacket :: "qpacket \<Rightarrow> buffered \<Rightarrow> buffered option" where
  "pb_dropPacket p s =
     do {
       s \<leftarrow> pb_erase p s;
       let s = removed_callback p s;
       Some (s\<lparr>bf_buffer := pb_numDroppedPackets_update Suc (bf_buffer s)\<rparr>)
     }"

definition pb_addPacket :: "qpacket \<Rightarrow> buffered \<Rightarrow> (qpacket list \<times> buffered) option" where
  "pb_addPacket p s =
     (let b = bf_buffer s;
          s = s\<lparr>bf_buffer := b\<lparr>pb_packets := pb_packets b @ [p], pb_numAddedPackets := pb_numAddedPackets b + 1\<rparr>\<rparr>
      in if pb_isOverloaded (bf_buffer s)
         then (case pb_dropper (bf_buffer s) of None \<Rightarrow> None
               | Some d \<Rightarrow> drop_excess (\<lambda>s. pb_packets (bf_buffer s) \<noteq> [] \<and> pb_isOverloaded (bf_buffer s))
                            (selectPacket d owner_id bf_getNumPackets bf_getPacket) pb_dropPacket s)
         else Some ([], s))"

definition pb_removePacket :: "qpacket \<Rightarrow> buffered \<Rightarrow> buffered option" where
  "pb_removePacket p s =
     do {
       s \<leftarrow> pb_erase p s;
       Some (removed_callback p (s\<lparr>bf_buffer := pb_numRemovedPackets_update Suc (bf_buffer s)\<rparr>))
     }"

function pb_removeAllPackets :: "buffered \<Rightarrow> buffered" where
  "pb_removeAllPackets s =
     (case pb_packets (bf_buffer s) of [] \<Rightarrow> s
      | p # ps \<Rightarrow> pb_removeAllPackets (removed_callback p
          (s\<lparr>bf_buffer := (bf_buffer s)\<lparr>pb_packets := ps, pb_numRemovedPackets := pb_numRemovedPackets (bf_buffer s) + 1\<rparr>\<rparr>)))"
  by pat_completeness auto
termination
  by (relation "measure (\<lambda>s. length (pb_packets (bf_buffer s)))") (auto simp: removed_callback_def split: option.splits)

declare pb_removeAllPackets.simps [simp del]

text \<open>The operations of the queue with index \<open>i\<close>, in their buffer branches.\<close>

definition bq_pushPacket ::
  "(qpacket \<Rightarrow> qpacket list \<Rightarrow> qpacket list) \<Rightarrow> nat \<Rightarrow> qpacket \<Rightarrow> buffered \<Rightarrow> (qpacket list \<times> bool \<times> buffered) option" where
  "bq_pushPacket ins i p s =
     do {
       let q = bf_queues s ! i;
       (ds, s) \<leftarrow> pb_addPacket p (s\<lparr>bf_queues := (bf_queues s)[i := q\<lparr>pq_queue := ins p (pq_queue q)\<rparr>]\<rparr>);
       ensure (\<not> pq_isOverloaded (bf_queues s ! i));
       Some (ds, pq_getNumPackets (bf_queues s ! i) \<noteq> 0, s)
     }"

definition bq_pullPacket :: "nat \<Rightarrow> buffered \<Rightarrow> (qpacket \<times> buffered) option" where
  "bq_pullPacket i s =
     (case pq_queue (bf_queues s ! i) of [] \<Rightarrow> None
      | p # _ \<Rightarrow>
          do {
            q \<leftarrow> queue_remove p (bf_queues s ! i);
            s \<leftarrow> pb_removePacket p (s\<lparr>bf_queues := (bf_queues s)[i := q]\<rparr>);
            Some (p, s\<lparr>bf_queues := (bf_queues s)[i := pq_numPulledPackets_update Suc (bf_queues s ! i)]\<rparr>)
          })"

definition bq_removePacket :: "nat \<Rightarrow> qpacket \<Rightarrow> buffered \<Rightarrow> buffered option" where
  "bq_removePacket i p s =
     do {
       q \<leftarrow> queue_remove p (bf_queues s ! i);
       s \<leftarrow> pb_removePacket p (s\<lparr>bf_queues := (bf_queues s)[i := q]\<rparr>);
       Some (s\<lparr>bf_queues := (bf_queues s)[i := pq_numRemovedPackets_update Suc (bf_queues s ! i)]\<rparr>)
     }"

definition bq_removeAllPackets :: "nat \<Rightarrow> buffered \<Rightarrow> qpacket list \<times> buffered" where
  "bq_removeAllPackets i s =
     (let (ps, q) = remove_loop 0 (bf_queues s ! i);
          s = pb_removeAllPackets (s\<lparr>bf_queues := (bf_queues s)[i := q]\<rparr>);
          q = bf_queues s ! i
      in (ps, s\<lparr>bf_queues := (bf_queues s)[i := q\<lparr>pq_numRemovedPackets := pq_numRemovedPackets q + length ps\<rparr>]\<rparr>))"

section \<open>Buffer and queues agree\<close>

definition queued_packets :: "buffered \<Rightarrow> qpacket list" where
  "queued_packets s = concat (map pq_queue (bf_queues s))"

text \<open>The buffer holds exactly the packets of its queues, each once.\<close>

definition buffer_consistent :: "buffered \<Rightarrow> bool" where
  "buffer_consistent s \<longleftrightarrow> mset (pb_packets (bf_buffer s)) = mset (queued_packets s) \<and> distinct (queued_packets s)"

lemma mset_concat_update:
  "i < length xss \<Longrightarrow> mset (concat (xss[i := ys])) + mset (xss ! i) = mset (concat xss) + mset ys"
proof (induction xss arbitrary: i)
  case (Cons xs xss)
  then show ?case by (cases i) (simp_all add: ac_simps)
qed simp

lemma distinct_concat_nth:
  "distinct (concat xss) \<Longrightarrow> i < length xss \<Longrightarrow> j < length xss \<Longrightarrow> x \<in> set (xss ! i) \<Longrightarrow> x \<in> set (xss ! j) \<Longrightarrow> i = j"
proof (induction xss arbitrary: i j)
  case (Cons xs xss)
  then show ?case by (cases i; cases j) (fastforce simp: in_set_conv_nth)+
qed simp

lemma distinct_concat_member: "distinct (concat xss) \<Longrightarrow> i < length xss \<Longrightarrow> distinct (xss ! i)"
  by (simp add: distinct_concat_iff)

lemma filter_eq_upt: "filter (\<lambda>j. j = i) [0..<n] = (if i < n then [i] else [])"
  by (induction n) auto

lemma owner_queue_Some:
  assumes "buffer_consistent s" "i < length (bf_queues s)" "p \<in> set (pq_queue (bf_queues s ! i))"
  shows "owner_queue s p = Some i"
proof -
  have "filter (\<lambda>j. p \<in> set (pq_queue (bf_queues s ! j))) [0..<length (bf_queues s)] = filter (\<lambda>j. j = i) [0..<length (bf_queues s)]"
    using distinct_concat_nth[of "map pq_queue (bf_queues s)"] assms
    by (intro filter_cong) (auto simp: buffer_consistent_def queued_packets_def)
  also have "\<dots> = [i]"
    using assms(2) by (simp add: filter_eq_upt)
  finally show ?thesis by (simp add: owner_queue_def)
qed


lemma buffer_consistent_shape:
  "bf_queues s' = bf_queues s \<Longrightarrow> pb_packets (bf_buffer s') = pb_packets (bf_buffer s) \<Longrightarrow>
   buffer_consistent s' = buffer_consistent s"
  by (simp add: buffer_consistent_def queued_packets_def)

lemma queued_packet: "p \<in> set (queued_packets s) \<longleftrightarrow> (\<exists>i < length (bf_queues s). p \<in> set (pq_queue (bf_queues s ! i)))"
  by (auto simp: queued_packets_def in_set_conv_nth Bex_def)

lemma buffered_packet: "buffer_consistent s \<Longrightarrow> p \<in> set (pb_packets (bf_buffer s)) \<longleftrightarrow> p \<in> set (queued_packets s)"
  unfolding buffer_consistent_def by (metis set_mset_mset)

text \<open>Taking a packet out of its queue and the buffer, and putting one in.\<close>

lemma buffer_consistent_take:
  assumes "buffer_consistent s" "i < length (bf_queues s)" "p \<in> set (pq_queue (bf_queues s ! i))"
    and "bf_queues s' = (bf_queues s)[i := q']" "pq_queue q' = remove1 p (pq_queue (bf_queues s ! i))"
    and "pb_packets (bf_buffer s') = remove1 p (pb_packets (bf_buffer s))"
  shows "buffer_consistent s'"
proof -
  let ?xss = "map pq_queue (bf_queues s)"
  have upd: "queued_packets s' = concat (?xss[i := remove1 p (?xss ! i)])"
    using assms(2,4,5) by (simp add: queued_packets_def map_update)
  have "mset (concat (?xss[i := remove1 p (?xss ! i)])) + mset (?xss ! i) = mset (concat ?xss) + (mset (?xss ! i) - {#p#})"
    using mset_concat_update[of i ?xss "remove1 p (?xss ! i)"] assms(2) by simp
  moreover have "p \<in># mset (?xss ! i)" using assms(2,3) by simp
  then obtain ys where ys: "mset (?xss ! i) = add_mset p ys" by (metis multi_member_split)
  ultimately have "add_mset p (mset (queued_packets s')) = mset (queued_packets s)"
    unfolding upd by (simp add: queued_packets_def)
  then have m: "mset (queued_packets s') = mset (queued_packets s) - {#p#}"
    by (metis add_mset_remove_trivial)
  then have "mset (queued_packets s') = mset (remove1 p (queued_packets s))" by simp
  then have "distinct (queued_packets s')"
    using assms(1) by (metis buffer_consistent_def distinct_remove1 mset_eq_imp_distinct_iff)
  with m assms(1,6) show ?thesis by (simp add: buffer_consistent_def)
qed

lemma buffer_consistent_put:
  assumes "buffer_consistent s" "i < length (bf_queues s)" "p \<notin> set (queued_packets s)"
    and "bf_queues s' = (bf_queues s)[i := q']" "mset (pq_queue q') = add_mset p (mset (pq_queue (bf_queues s ! i)))"
    and "pb_packets (bf_buffer s') = pb_packets (bf_buffer s) @ [p]"
  shows "buffer_consistent s'" "mset (queued_packets s') = add_mset p (mset (queued_packets s))"
proof -
  let ?xss = "map pq_queue (bf_queues s)"
  have "queued_packets s' = concat (?xss[i := pq_queue q'])"
    using assms(2,4) by (simp add: queued_packets_def map_update)
  then show m: "mset (queued_packets s') = add_mset p (mset (queued_packets s))"
    using mset_concat_update[of i ?xss "pq_queue q'"] assms(2,5) by (simp add: queued_packets_def)
  then have "mset (queued_packets s') = mset (p # queued_packets s)" by simp
  then have "distinct (queued_packets s')"
    using assms(1,3) by (metis buffer_consistent_def distinct.simps(2) mset_eq_imp_distinct_iff)
  with m assms(1,6) show "buffer_consistent s'" by (simp add: buffer_consistent_def)
qed

text \<open>What the overload loop may change: packets disappear, the order and the configuration stay.\<close>

definition shrunk :: "buffered \<Rightarrow> buffered \<Rightarrow> bool" where
  "shrunk s s' \<longleftrightarrow> bf_moduleIds s' = bf_moduleIds s \<and> length (bf_queues s') = length (bf_queues s) \<and>
     pb_packetCapacity (bf_buffer s') = pb_packetCapacity (bf_buffer s) \<and>
     pb_dataCapacity (bf_buffer s') = pb_dataCapacity (bf_buffer s) \<and> pb_dropper (bf_buffer s') = pb_dropper (bf_buffer s) \<and>
     (\<forall>i < length (bf_queues s). same_config (bf_queues s ! i) (bf_queues s' ! i) \<and>
        subseq (pq_queue (bf_queues s' ! i)) (pq_queue (bf_queues s ! i)))"

lemma shrunk_refl: "shrunk s s" by (simp add: shrunk_def same_config_def)

lemma shrunk_trans: "shrunk s t \<Longrightarrow> shrunk t u \<Longrightarrow> shrunk s u"
  unfolding shrunk_def same_config_def by (metis subseq_order.order_trans)

lemma drop_from_buffer:
  assumes "buffer_consistent s" "p \<in> set (pb_packets (bf_buffer s))"
  obtains s' where "pb_dropPacket p s = Some s'" "buffer_consistent s'" "shrunk s s'"
    "pb_packets (bf_buffer s') = remove1 p (pb_packets (bf_buffer s))"
proof -
  from assms obtain i where i: "i < length (bf_queues s)" "p \<in> set (pq_queue (bf_queues s ! i))"
    by (auto simp: buffered_packet queued_packet)
  let ?b = "(bf_buffer s)\<lparr>pb_packets := remove1 p (pb_packets (bf_buffer s))\<rparr>"
  let ?q = "handlePacketRemoved p (bf_queues s ! i)"
  let ?s' = "s\<lparr>bf_buffer := pb_numDroppedPackets_update Suc ?b, bf_queues := (bf_queues s)[i := ?q]\<rparr>"
  have o: "owner_queue (s\<lparr>bf_buffer := ?b\<rparr>) p = Some i"
    using owner_queue_Some[OF assms(1) i] by (simp add: owner_queue_def)
  have "pb_dropPacket p s = Some ?s'"
    using assms(2) o by (simp add: pb_dropPacket_def pb_erase_def removed_callback_def)
  moreover have "buffer_consistent ?s'"
    by (rule buffer_consistent_take[OF assms(1) i, where q' = ?q]) (use i(2) in \<open>simp_all add: handlePacketRemoved_def\<close>)
  moreover have "shrunk s ?s'"
    using i by (auto simp: shrunk_def same_config_def handlePacketRemoved_def nth_list_update subseq_remove1)
  ultimately show ?thesis using that by simp
qed


interpretation bf: packet_collection bf_getNumPackets bf_getPacket pb_dropPacket "\<lambda>s. pb_packets (bf_buffer s)"
    "\<lambda>s. buffer_consistent s \<and> shrunk s0 s" for s0
proof
  fix s p assume s: "buffer_consistent s \<and> shrunk s0 s" and p: "p \<in> set (pb_packets (bf_buffer s))"
  from s p obtain s' where "pb_dropPacket p s = Some s'" "buffer_consistent s'" "shrunk s s'"
      "pb_packets (bf_buffer s') = remove1 p (pb_packets (bf_buffer s))"
    by (meson drop_from_buffer)
  with s show "\<exists>s'. pb_dropPacket p s = Some s' \<and> (buffer_consistent s' \<and> shrunk s0 s') \<and>
      pb_packets (bf_buffer s') = remove1 p (pb_packets (bf_buffer s))"
    using shrunk_trans by blast
qed (simp_all add: bf_getNumPackets_def bf_getPacket_def)

section \<open>Selection by owner\<close>

lemma lowest_fold:
  assumes "fold (\<lambda>p (low, r). if owner p < low then (owner p, Some p) else (low, r)) xs (m, r0) = (m' :: int, r)"
  shows "m' \<le> m \<and> (\<forall>x \<in> set xs. m' \<le> owner x) \<and> (m' = m \<and> r = r0 \<or> (\<exists>p \<in> set xs. r = Some p \<and> owner p = m'))"
  using assms by (induction xs arbitrary: m r0) (fastforce split: if_splits)+

lemma highest_fold:
  assumes "fold (\<lambda>p (high, r). if owner p > high then (owner p, Some p) else (high, r)) xs (m, r0) = (m' :: int, r)"
  shows "m \<le> m' \<and> (\<forall>x \<in> set xs. owner x \<le> m') \<and> (m' = m \<and> r = r0 \<or> (\<exists>p \<in> set xs. r = Some p \<and> owner p = m'))"
  using assms by (induction xs arbitrary: m r0) (fastforce split: if_splits)+

text \<open>Module ids are numbers between the two start values of the scans.\<close>

definition valid_ids :: "buffered \<Rightarrow> bool" where
  "valid_ids s \<longleftrightarrow> length (bf_moduleIds s) = length (bf_queues s) \<and>
     (\<forall>i < length (bf_moduleIds s). - (2 ^ 31) < bf_moduleIds s ! i \<and> bf_moduleIds s ! i < 2 ^ 31 - 1)"

lemma owner_id_queue:
  "buffer_consistent s \<Longrightarrow> i < length (bf_queues s) \<Longrightarrow> p \<in> set (pq_queue (bf_queues s ! i)) \<Longrightarrow> owner_id s p = bf_moduleIds s ! i"
  by (simp add: owner_id_def owner_queue_Some)

lemma owner_id_valid:
  assumes "buffer_consistent s" "valid_ids s" "p \<in> set (pb_packets (bf_buffer s))"
  shows "- (2 ^ 31) < owner_id s p \<and> owner_id s p < 2 ^ 31 - 1"
  using assms by (auto simp: buffered_packet queued_packet valid_ids_def owner_id_queue)

lemma selectLowest:
  assumes "buffer_consistent s" "valid_ids s" "pb_packets (bf_buffer s) \<noteq> []"
  shows "\<exists>p \<in> set (pb_packets (bf_buffer s)).
    selectPacket LowestOwnerModuleId owner_id bf_getNumPackets bf_getPacket s = Some p \<and>
    (\<forall>x \<in> set (pb_packets (bf_buffer s)). owner_id s p \<le> owner_id s x)"
proof -
  let ?f = "\<lambda>p (low, r). if owner_id s p < low then (owner_id s p, Some p) else (low, r)"
  obtain m r where f: "fold ?f (pb_packets (bf_buffer s)) (2 ^ 31 - 1, None) = (m, r)" by fastforce
  moreover from assms(3) obtain x where "x \<in> set (pb_packets (bf_buffer s))" by fastforce
  ultimately show ?thesis
    using lowest_fold[OF f] owner_id_valid[OF assms(1,2), of x] bf.all_packets[of s s] assms(1)
    by (fastforce simp: selectPacketWithLowestOwnerModuleId_def shrunk_refl)
qed

lemma selectHighest:
  assumes "buffer_consistent s" "valid_ids s" "pb_packets (bf_buffer s) \<noteq> []"
  shows "\<exists>p \<in> set (pb_packets (bf_buffer s)).
    selectPacket HighestOwnerModuleId owner_id bf_getNumPackets bf_getPacket s = Some p \<and>
    (\<forall>x \<in> set (pb_packets (bf_buffer s)). owner_id s x \<le> owner_id s p)"
proof -
  let ?f = "\<lambda>p (high, r). if owner_id s p > high then (owner_id s p, Some p) else (high, r)"
  obtain m r where f: "fold ?f (pb_packets (bf_buffer s)) (- (2 ^ 31), None) = (m, r)" by fastforce
  moreover from assms(3) obtain x where "x \<in> set (pb_packets (bf_buffer s))" by fastforce
  ultimately show ?thesis
    using highest_fold[OF f] owner_id_valid[OF assms(1,2), of x] bf.all_packets[of s s] assms(1)
    by (fastforce simp: selectPacketWithHighestOwnerModuleId_def shrunk_refl)
qed

lemma selectPacket_member:
  assumes "buffer_consistent s" "valid_ids s" "pb_packets (bf_buffer s) \<noteq> []"
  shows "\<exists>p \<in> set (pb_packets (bf_buffer s)). selectPacket d owner_id bf_getNumPackets bf_getPacket s = Some p"
proof (cases d)
  case AtCollectionEnd
  then show ?thesis using bf.at_end[of s s] assms by (simp add: shrunk_refl)
next
  case AtCollectionBegin
  then show ?thesis using bf.at_begin[of s s] assms by (simp add: shrunk_refl)
qed (use selectLowest[OF assms] selectHighest[OF assms] in blast)+


section \<open>Pushing into a shared buffer\<close>

abbreviation buffer_full :: "buffered \<Rightarrow> bool" where
  "buffer_full s \<equiv> pb_packets (bf_buffer s) \<noteq> [] \<and> pb_isOverloaded (bf_buffer s)"

lemma valid_ids_shrunk: "valid_ids s \<Longrightarrow> shrunk s s' \<Longrightarrow> valid_ids s'"
  by (simp add: valid_ids_def shrunk_def)

lemma pb_addPacket_drops:
  assumes "pb_dropper (bf_buffer s) = Some d"
  shows "pb_addPacket p s =
    drop_excess buffer_full (selectPacket d owner_id bf_getNumPackets bf_getPacket) pb_dropPacket
      (s\<lparr>bf_buffer := (bf_buffer s)\<lparr>pb_packets := pb_packets (bf_buffer s) @ [p],
         pb_numAddedPackets := pb_numAddedPackets (bf_buffer s) + 1\<rparr>\<rparr>)"
proof (cases "pb_isOverloaded ((bf_buffer s)\<lparr>pb_packets := pb_packets (bf_buffer s) @ [p],
    pb_numAddedPackets := pb_numAddedPackets (bf_buffer s) + 1\<rparr>)")
  case True
  then show ?thesis using assms by (simp add: pb_addPacket_def Let_def)
next
  case False
  then show ?thesis using assms by (subst drop_excess.simps) (simp add: pb_addPacket_def Let_def)
qed

lemma buffer_drops_excess:
  assumes "buffer_consistent s" "valid_ids s" "-1 \<le> pb_packetCapacity (bf_buffer s)" "-1 \<le> pb_dataCapacity (bf_buffer s)"
  shows "\<exists>ds s'. drop_excess buffer_full (selectPacket d owner_id bf_getNumPackets bf_getPacket) pb_dropPacket s = Some (ds, s') \<and>
    buffer_consistent s' \<and> shrunk s s' \<and> \<not> pb_isOverloaded (bf_buffer s') \<and>
    mset (queued_packets s) = mset ds + mset (queued_packets s')"
proof -
  have sel: "\<exists>p \<in> set (pb_packets (bf_buffer c)). selectPacket d owner_id bf_getNumPackets bf_getPacket c = Some p"
    if "buffer_consistent c \<and> shrunk s c" "buffer_full c" for c
    using that selectPacket_member valid_ids_shrunk[OF assms(2)] by blast
  have "\<exists>ds s'. drop_excess buffer_full (selectPacket d owner_id bf_getNumPackets bf_getPacket) pb_dropPacket s = Some (ds, s') \<and>
    (buffer_consistent s' \<and> shrunk s s') \<and> \<not> buffer_full s' \<and>
    mset (pb_packets (bf_buffer s)) = mset ds + mset (pb_packets (bf_buffer s'))"
    by (rule bf.drop_excess_total) (simp_all add: assms(1) shrunk_refl sel)
  then obtain ds s' where r:
    "drop_excess buffer_full (selectPacket d owner_id bf_getNumPackets bf_getPacket) pb_dropPacket s = Some (ds, s')"
    "buffer_consistent s'" "shrunk s s'" "\<not> buffer_full s'"
    "mset (pb_packets (bf_buffer s)) = mset ds + mset (pb_packets (bf_buffer s'))"
    by (elim exE conjE) (rule that)
  moreover have "\<not> pb_isOverloaded (bf_buffer s')"
    using r(3,4) assms(3,4) by (auto simp: shrunk_def pb_isOverloaded_def pb_getTotalLength_def)
  moreover have "mset (queued_packets s) = mset ds + mset (queued_packets s')"
    using r(2,5) assms(1) by (simp add: buffer_consistent_def)
  ultimately show ?thesis by blast
qed

text \<open>The state between the insertion into the queue and the overload loop.\<close>

definition inserted :: "(qpacket \<Rightarrow> qpacket list \<Rightarrow> qpacket list) \<Rightarrow> nat \<Rightarrow> qpacket \<Rightarrow> buffered \<Rightarrow> buffered" where
  "inserted ins i p s =
     s\<lparr>bf_queues := (bf_queues s)[i := (bf_queues s ! i)\<lparr>pq_queue := ins p (pq_queue (bf_queues s ! i))\<rparr>],
       bf_buffer := (bf_buffer s)\<lparr>pb_packets := pb_packets (bf_buffer s) @ [p],
         pb_numAddedPackets := pb_numAddedPackets (bf_buffer s) + 1\<rparr>\<rparr>"

lemma inserted_consistent:
  assumes "storage_insert cmp ins" "buffer_consistent s" "i < length (bf_queues s)" "p \<notin> set (queued_packets s)"
  shows "buffer_consistent (inserted ins i p s)" "mset (queued_packets (inserted ins i p s)) = add_mset p (mset (queued_packets s))"
  using buffer_consistent_put[OF assms(2-4), where s' = "inserted ins i p s" and
      q' = "(bf_queues s ! i)\<lparr>pq_queue := ins p (pq_queue (bf_queues s ! i))\<rparr>"] storage_insert_mset[OF assms(1)]
  by (simp_all add: inserted_def)

lemma bq_pushPacket_drops:
  assumes "pb_dropper (bf_buffer s) = Some d"
  shows "bq_pushPacket ins i p s =
     do {
       (ds, s) \<leftarrow> drop_excess buffer_full (selectPacket d owner_id bf_getNumPackets bf_getPacket) pb_dropPacket (inserted ins i p s);
       ensure (\<not> pq_isOverloaded (bf_queues s ! i));
       Some (ds, pq_getNumPackets (bf_queues s ! i) \<noteq> 0, s)
     }"
  using assms by (simp add: bq_pushPacket_def pb_addPacket_drops inserted_def Let_def)

text \<open>A buffer with its queues as they are configured: own limits of the queues are off.\<close>

definition shared_buffer :: "dropper \<Rightarrow> buffered \<Rightarrow> bool" where
  "shared_buffer d s \<longleftrightarrow> buffer_consistent s \<and> valid_ids s \<and> pb_dropper (bf_buffer s) = Some d \<and>
     -1 \<le> pb_packetCapacity (bf_buffer s) \<and> -1 \<le> pb_dataCapacity (bf_buffer s) \<and>
     (\<forall>q \<in> set (bf_queues s). pq_packetCapacity q = -1 \<and> pq_dataCapacity q = -1)"

lemma shared_buffer_inserted:
  assumes "storage_insert cmp ins" "shared_buffer d s" "i < length (bf_queues s)" "p \<notin> set (queued_packets s)"
  shows "shared_buffer d (inserted ins i p s)"
proof -
  have "set (bf_queues (inserted ins i p s)) \<subseteq>
      insert ((bf_queues s ! i)\<lparr>pq_queue := ins p (pq_queue (bf_queues s ! i))\<rparr>) (set (bf_queues s))"
    by (simp add: inserted_def set_update_subset_insert)
  moreover have "bf_queues s ! i \<in> set (bf_queues s)" using assms(3) by simp
  ultimately have "\<forall>q \<in> set (bf_queues (inserted ins i p s)). pq_packetCapacity q = -1 \<and> pq_dataCapacity q = -1"
    using assms(2) by (force simp: shared_buffer_def)
  moreover have "buffer_consistent (inserted ins i p s)"
    using inserted_consistent[OF assms(1) _ assms(3,4)] assms(2) by (simp add: shared_buffer_def)
  ultimately show ?thesis using assms(2) by (simp add: shared_buffer_def valid_ids_def inserted_def)
qed

lemma shared_buffer_shrunk: "shared_buffer d s \<Longrightarrow> shrunk s s' \<Longrightarrow> buffer_consistent s' \<Longrightarrow> shared_buffer d s'"
  unfolding shared_buffer_def
proof (intro conjI ballI)
  assume a: "buffer_consistent s \<and> valid_ids s \<and> pb_dropper (bf_buffer s) = Some d \<and>
    - 1 \<le> pb_packetCapacity (bf_buffer s) \<and> - 1 \<le> pb_dataCapacity (bf_buffer s) \<and>
    (\<forall>q \<in> set (bf_queues s). pq_packetCapacity q = -1 \<and> pq_dataCapacity q = -1)" and sh: "shrunk s s'"
  show "valid_ids s'" using a sh valid_ids_shrunk by blast
  fix q assume "q \<in> set (bf_queues s')"
  moreover have l: "length (bf_queues s') = length (bf_queues s)" using sh by (simp add: shrunk_def)
  ultimately obtain j where j: "j < length (bf_queues s)" "q = bf_queues s' ! j"
    by (auto simp: in_set_conv_nth)
  then have "same_config (bf_queues s ! j) q" "bf_queues s ! j \<in> set (bf_queues s)"
    using sh by (simp_all add: shrunk_def)
  with a show "pq_packetCapacity q = -1" "pq_dataCapacity q = -1" by (simp_all add: same_config_def)
qed (simp_all add: shrunk_def)

lemma unlimited_queue: "shared_buffer d s \<Longrightarrow> i < length (bf_queues s) \<Longrightarrow> \<not> pq_isOverloaded (bf_queues s ! i)"
  by (simp add: shared_buffer_def pq_isOverloaded_def)

lemma bq_push_total:
  assumes "storage_insert cmp ins" "shared_buffer d s" "i < length (bf_queues s)" "p \<notin> set (queued_packets s)"
  shows "\<exists>ds s'. bq_pushPacket ins i p s = Some (ds, pq_queue (bf_queues s' ! i) \<noteq> [], s') \<and> shared_buffer d s' \<and>
    shrunk (inserted ins i p s) s' \<and> \<not> pb_isOverloaded (bf_buffer s') \<and>
    add_mset p (mset (queued_packets s)) = mset ds + mset (queued_packets s') \<and>
    drop_excess buffer_full (selectPacket d owner_id bf_getNumPackets bf_getPacket) pb_dropPacket (inserted ins i p s) = Some (ds, s')"
proof -
  let ?t = "inserted ins i p s"
  note t = shared_buffer_inserted[OF assms]
  have c: "buffer_consistent ?t" "mset (queued_packets ?t) = add_mset p (mset (queued_packets s))"
    using inserted_consistent[OF assms(1) _ assms(3,4)] assms(2) by (simp_all add: shared_buffer_def)
  from buffer_drops_excess[of ?t d] t obtain ds s' where r:
    "drop_excess buffer_full (selectPacket d owner_id bf_getNumPackets bf_getPacket) pb_dropPacket ?t = Some (ds, s')"
    "buffer_consistent s'" "shrunk ?t s'" "\<not> pb_isOverloaded (bf_buffer s')"
    "mset (queued_packets ?t) = mset ds + mset (queued_packets s')"
    unfolding shared_buffer_def by blast
  have s': "shared_buffer d s'" by (rule shared_buffer_shrunk[OF t r(3,2)])
  have "length (bf_queues s') = length (bf_queues s)" using r(3) by (simp add: shrunk_def inserted_def)
  then have "\<not> pq_isOverloaded (bf_queues s' ! i)" using unlimited_queue[OF s'] assms(3) by simp
  then show ?thesis
    using r s' c(2) assms(2) by (simp add: bq_pushPacket_drops shared_buffer_def pq_getNumPackets_def)
qed


section \<open>Taking packets out\<close>

text \<open>The queue and the buffer after a packet left queue \<open>i\<close>; \<open>tally\<close> updates the counters of the queue.\<close>

definition taken :: "(packetq \<Rightarrow> packetq) \<Rightarrow> nat \<Rightarrow> qpacket \<Rightarrow> buffered \<Rightarrow> buffered" where
  "taken tally i p s =
     s\<lparr>bf_queues := (bf_queues s)[i := tally ((bf_queues s ! i)\<lparr>pq_queue := remove1 p (pq_queue (bf_queues s ! i))\<rparr>)],
       bf_buffer := (bf_buffer s)\<lparr>pb_packets := remove1 p (pb_packets (bf_buffer s)),
         pb_numRemovedPackets := Suc (pb_numRemovedPackets (bf_buffer s))\<rparr>\<rparr>"

lemma buffer_removes_taken:
  assumes "buffer_consistent s" "i < length (bf_queues s)" "p \<in> set (pq_queue (bf_queues s ! i))"
  shows "pb_removePacket p (s\<lparr>bf_queues := (bf_queues s)[i := (bf_queues s ! i)\<lparr>pq_queue := remove1 p (pq_queue (bf_queues s ! i))\<rparr>]\<rparr>) =
    Some (taken id i p s)"
proof -
  let ?t = "taken id i p s"
  have "p \<notin> set (pq_queue (bf_queues ?t ! j))" if "j < length (bf_queues s)" for j
  proof (cases "j = i")
    case True
    have "distinct (pq_queue (bf_queues s ! i))"
      using distinct_concat_member[of "map pq_queue (bf_queues s)" i] assms(1,2)
      by (simp add: buffer_consistent_def queued_packets_def)
    then show ?thesis using True assms(2) by (simp add: taken_def)
  next
    case False
    then show ?thesis
      using distinct_concat_nth[of "map pq_queue (bf_queues s)" i j p] assms that
      by (auto simp: taken_def buffer_consistent_def queued_packets_def)
  qed
  then have "filter (\<lambda>j. p \<in> set (pq_queue (bf_queues ?t ! j))) [0..<length (bf_queues s)] = []"
    by (simp add: filter_empty_conv)
  then have cb: "removed_callback p u = u" if "bf_queues u = bf_queues ?t" for u
    using that by (simp add: removed_callback_def owner_queue_def taken_def)
  have "p \<in> set (pb_packets (bf_buffer s))" using assms by (auto simp: buffered_packet queued_packet)
  then show ?thesis by (simp add: pb_removePacket_def pb_erase_def cb taken_def)
qed

lemma taken_consistent:
  assumes "shared_buffer d s" "i < length (bf_queues s)" "p \<in> set (pq_queue (bf_queues s ! i))"
    and "\<And>q. pq_queue (tally q) = pq_queue q" "\<And>q. pq_packetCapacity (tally q) = pq_packetCapacity q"
      "\<And>q. pq_dataCapacity (tally q) = pq_dataCapacity q"
  shows "shared_buffer d (taken tally i p s)" "mset (queued_packets s) = add_mset p (mset (queued_packets (taken tally i p s)))"
proof -
  let ?t = "taken tally i p s"
  have c: "buffer_consistent s" using assms(1) by (simp add: shared_buffer_def)
  have t: "buffer_consistent ?t"
    by (rule buffer_consistent_take[OF c assms(2,3), where
        q' = "tally ((bf_queues s ! i)\<lparr>pq_queue := remove1 p (pq_queue (bf_queues s ! i))\<rparr>)"]) (simp_all add: taken_def assms(4))
  have "set (bf_queues ?t) \<subseteq> insert (tally ((bf_queues s ! i)\<lparr>pq_queue := remove1 p (pq_queue (bf_queues s ! i))\<rparr>)) (set (bf_queues s))"
    by (simp add: taken_def set_update_subset_insert)
  moreover have "bf_queues s ! i \<in> set (bf_queues s)" using assms(2) by simp
  ultimately have "\<forall>q \<in> set (bf_queues ?t). pq_packetCapacity q = -1 \<and> pq_dataCapacity q = -1"
    using assms(1) by (force simp: shared_buffer_def assms(5,6))
  with t assms(1) show "shared_buffer d ?t" by (simp add: shared_buffer_def valid_ids_def taken_def)
  have "p \<in> set (pb_packets (bf_buffer s))" using c assms(2,3) by (auto simp: buffered_packet queued_packet)
  then have "mset (pb_packets (bf_buffer s)) = add_mset p (mset (pb_packets (bf_buffer ?t)))" by (simp add: taken_def)
  with c t show "mset (queued_packets s) = add_mset p (mset (queued_packets ?t))" by (simp add: buffer_consistent_def)
qed

lemma bq_pullPacket_taken:
  assumes "buffer_consistent s" "i < length (bf_queues s)" "pq_queue (bf_queues s ! i) = p # q"
  shows "bq_pullPacket i s = Some (p, taken (pq_numPulledPackets_update Suc) i p s)"
  using buffer_removes_taken[OF assms(1,2), of p] assms(2,3)
  by (simp add: bq_pullPacket_def queue_remove_def) (simp add: taken_def)

lemma bq_removePacket_taken:
  assumes "buffer_consistent s" "i < length (bf_queues s)" "p \<in> set (pq_queue (bf_queues s ! i))"
  shows "bq_removePacket i p s = Some (taken (pq_numRemovedPackets_update Suc) i p s)"
  using buffer_removes_taken[OF assms(1,2,3)] assms(2,3)
  by (simp add: bq_removePacket_def queue_remove_def) (simp add: taken_def)

lemma subseq_member: "subseq xs ys \<Longrightarrow> x \<in> set xs \<Longrightarrow> x \<in> set ys"
  by (meson subseq_order.order_trans subseq_singleton_left)

text \<open>A packet has the same owner in every state that the overload loop reaches.\<close>

lemma owner_in_shrunk:
  assumes "buffer_consistent s" "shrunk s c" "buffer_consistent c" "p \<in> set (pb_packets (bf_buffer c))"
    and "m < length (bf_queues s)" "p \<in> set (pq_queue (bf_queues s ! m))"
  shows "owner_id c p = bf_moduleIds s ! m"
proof -
  from assms(3,4) obtain l where l: "l < length (bf_queues c)" "p \<in> set (pq_queue (bf_queues c ! l))"
    by (auto simp: buffered_packet queued_packet)
  have sub: "l < length (bf_queues s)" "subseq (pq_queue (bf_queues c ! l)) (pq_queue (bf_queues s ! l))"
    using assms(2) l(1) by (simp_all add: shrunk_def)
  have "p \<in> set (pq_queue (bf_queues s ! l))" by (rule subseq_member[OF sub(2) l(2)])
  with sub(1) have "l = m"
    using distinct_concat_nth[of "map pq_queue (bf_queues s)" l m p] assms(1,5,6)
    by (simp add: buffer_consistent_def queued_packets_def)
  then show ?thesis using owner_id_queue[OF assms(3) l] assms(2) by (simp add: shrunk_def)
qed

section \<open>The shared buffer\<close>

definition sample_buffered :: buffered where
  "sample_buffered = \<lparr>bf_buffer = \<lparr>pb_packetCapacity = 1, pb_dataCapacity = -1, pb_packets = [sample_packet 1 8],
       pb_dropper = Some HighestOwnerModuleId, pb_numAddedPackets = 1, pb_numRemovedPackets = 0, pb_numDroppedPackets = 0\<rparr>,
     bf_queues = [sample_queue (-1) None [sample_packet 1 8], sample_queue (-1) None []], bf_moduleIds = [1, 2]\<rparr>"

lemma sample_buffered: "shared_buffer HighestOwnerModuleId sample_buffered"
  by (simp add: sample_buffered_def sample_queue_def shared_buffer_def buffer_consistent_def queued_packets_def valid_ids_def
      less_Suc_eq)

lemma shared_buffer_steps:
  assumes "storage_insert cmp ins" "shared_buffer d s" "i < length (bf_queues s)"
  shows "p \<notin> set (queued_packets s) \<Longrightarrow>
      \<exists>ds s'. bq_pushPacket ins i p s = Some (ds, pq_queue (bf_queues s' ! i) \<noteq> [], s') \<and> shared_buffer d s' \<and>
        \<not> pb_isOverloaded (bf_buffer s') \<and> add_mset p (mset (queued_packets s)) = mset ds + mset (queued_packets s') \<and>
        (\<forall>j < length (bf_queues s). subseq (pq_queue (bf_queues s' ! j))
           (if j = i then ins p (pq_queue (bf_queues s ! i)) else pq_queue (bf_queues s ! j)))"
    and "pq_queue (bf_queues s ! i) = p # q \<Longrightarrow>
      \<exists>s'. bq_pullPacket i s = Some (p, s') \<and> shared_buffer d s' \<and> pq_queue (bf_queues s' ! i) = q \<and>
        (\<forall>j. j \<noteq> i \<longrightarrow> bf_queues s' ! j = bf_queues s ! j) \<and>
        mset (queued_packets s) = add_mset p (mset (queued_packets s'))"
    and "p \<in> set (pq_queue (bf_queues s ! i)) \<Longrightarrow>
      \<exists>s'. bq_removePacket i p s = Some s' \<and> shared_buffer d s' \<and>
        pq_queue (bf_queues s' ! i) = remove1 p (pq_queue (bf_queues s ! i)) \<and>
        mset (queued_packets s) = add_mset p (mset (queued_packets s'))"
proof -
  have c: "buffer_consistent s" using assms(2) by (simp add: shared_buffer_def)
  {
    assume "p \<notin> set (queued_packets s)"
    from bq_push_total[OF assms(1,2,3) this] obtain ds s' where r:
      "bq_pushPacket ins i p s = Some (ds, pq_queue (bf_queues s' ! i) \<noteq> [], s')" "shared_buffer d s'"
      "shrunk (inserted ins i p s) s'" "\<not> pb_isOverloaded (bf_buffer s')"
      "add_mset p (mset (queued_packets s)) = mset ds + mset (queued_packets s')" by blast
    have "subseq (pq_queue (bf_queues s' ! j)) (if j = i then ins p (pq_queue (bf_queues s ! i)) else pq_queue (bf_queues s ! j))"
      if "j < length (bf_queues s)" for j
      using r(3) that assms(3) by (auto simp: shrunk_def inserted_def)
    with r show "\<exists>ds s'. bq_pushPacket ins i p s = Some (ds, pq_queue (bf_queues s' ! i) \<noteq> [], s') \<and> shared_buffer d s' \<and>
        \<not> pb_isOverloaded (bf_buffer s') \<and> add_mset p (mset (queued_packets s)) = mset ds + mset (queued_packets s') \<and>
        (\<forall>j < length (bf_queues s). subseq (pq_queue (bf_queues s' ! j))
           (if j = i then ins p (pq_queue (bf_queues s ! i)) else pq_queue (bf_queues s ! j)))" by blast
  next
    assume q: "pq_queue (bf_queues s ! i) = p # q"
    show "\<exists>s'. bq_pullPacket i s = Some (p, s') \<and> shared_buffer d s' \<and> pq_queue (bf_queues s' ! i) = q \<and>
        (\<forall>j. j \<noteq> i \<longrightarrow> bf_queues s' ! j = bf_queues s ! j) \<and>
        mset (queued_packets s) = add_mset p (mset (queued_packets s'))"
      using bq_pullPacket_taken[OF c assms(3) q] taken_consistent[OF assms(2,3), of p "pq_numPulledPackets_update Suc"] q assms(3)
      by (intro exI[of _ "taken (pq_numPulledPackets_update Suc) i p s"]) (simp add: taken_def)
  next
    assume p: "p \<in> set (pq_queue (bf_queues s ! i))"
    show "\<exists>s'. bq_removePacket i p s = Some s' \<and> shared_buffer d s' \<and>
        pq_queue (bf_queues s' ! i) = remove1 p (pq_queue (bf_queues s ! i)) \<and>
        mset (queued_packets s) = add_mset p (mset (queued_packets s'))"
      using bq_removePacket_taken[OF c assms(3) p] taken_consistent[OF assms(2,3) p, of "pq_numRemovedPackets_update Suc"] assms(3)
      by (intro exI[of _ "taken (pq_numRemovedPackets_update Suc) i p s"]) (simp add: taken_def)
  }
qed

text \<open>
  Queues and their shared buffer stay in step through every push, pull and removal: the buffer holds exactly the
  packets of the queues, no operation fails, a push into a full buffer drops packets until the limits hold again, the
  other packets keep their order in every queue, and every packet that came in is queued, dropped or handed out.
\<close>

theorem shared_buffer_invariant:
  assumes "storage_insert cmp ins" "shared_buffer d s" "i < length (bf_queues s)"
  shows "(p \<notin> set (queued_packets s) \<longrightarrow>
      (\<exists>ds s'. bq_pushPacket ins i p s = Some (ds, pq_queue (bf_queues s' ! i) \<noteq> [], s') \<and> shared_buffer d s' \<and>
        \<not> pb_isOverloaded (bf_buffer s') \<and> add_mset p (mset (queued_packets s)) = mset ds + mset (queued_packets s') \<and>
        (\<forall>j < length (bf_queues s). subseq (pq_queue (bf_queues s' ! j))
           (if j = i then ins p (pq_queue (bf_queues s ! i)) else pq_queue (bf_queues s ! j))))) \<and>
    (\<forall>q. pq_queue (bf_queues s ! i) = p # q \<longrightarrow>
      (\<exists>s'. bq_pullPacket i s = Some (p, s') \<and> shared_buffer d s' \<and> pq_queue (bf_queues s' ! i) = q \<and>
        (\<forall>j. j \<noteq> i \<longrightarrow> bf_queues s' ! j = bf_queues s ! j) \<and>
        mset (queued_packets s) = add_mset p (mset (queued_packets s')))) \<and>
    (p \<in> set (pq_queue (bf_queues s ! i)) \<longrightarrow>
      (\<exists>s'. bq_removePacket i p s = Some s' \<and> shared_buffer d s' \<and>
        pq_queue (bf_queues s' ! i) = remove1 p (pq_queue (bf_queues s ! i)) \<and>
        mset (queued_packets s) = add_mset p (mset (queued_packets s'))))"
  using shared_buffer_steps[OF assms] by (intro conjI allI impI)

theorem shared_buffer_invariant_witness:
  "(\<exists>ds s'. bq_pushPacket fifo_insert 1 (sample_packet 2 8) sample_buffered = Some (ds, pq_queue (bf_queues s' ! 1) \<noteq> [], s') \<and>
     \<not> pb_isOverloaded (bf_buffer s')) \<and>
   (\<exists>s'. bq_pullPacket 0 sample_buffered = Some (sample_packet 1 8, s') \<and> pq_queue (bf_queues s' ! 0) = [])"
proof
  show "\<exists>ds s'. bq_pushPacket fifo_insert 1 (sample_packet 2 8) sample_buffered = Some (ds, pq_queue (bf_queues s' ! 1) \<noteq> [], s') \<and>
     \<not> pb_isOverloaded (bf_buffer s')"
    using shared_buffer_invariant[OF storage_fifo sample_buffered, of 1 "sample_packet 2 8"]
    by (simp add: sample_buffered_def sample_queue_def sample_packet_def queued_packets_def) blast
  show "\<exists>s'. bq_pullPacket 0 sample_buffered = Some (sample_packet 1 8, s') \<and> pq_queue (bf_queues s' ! 0) = []"
    using shared_buffer_invariant[OF storage_fifo sample_buffered, of 0 "sample_packet 1 8"]
    by (simp add: sample_buffered_def sample_queue_def sample_packet_def queued_packets_def) blast
qed

lemma sample_push:
  "\<exists>n s'. bq_pushPacket fifo_insert 0 (sample_packet 2 8) sample_buffered = Some ([sample_packet 1 8], n, s')"
proof -
  have "map_option fst (bq_pushPacket fifo_insert 0 (sample_packet 2 8) sample_buffered) = Some [sample_packet 1 8]"
    by code_simp
  then show ?thesis by auto
qed

text \<open>
  With the dropper of the priority buffer (highest module id first) a packet of a queue is dropped only when all
  queues with a higher module id, which are those of lower priority, are left empty.
\<close>

theorem priority_buffer_protects:
  assumes "storage_insert cmp ins" "shared_buffer HighestOwnerModuleId s" "i < length (bf_queues s)" "p \<notin> set (queued_packets s)"
    and "bq_pushPacket ins i p s = Some (ds, n, s')" "x \<in> set ds"
    and "k < length (bf_queues s)" "x \<in> set (if k = i then p # pq_queue (bf_queues s ! i) else pq_queue (bf_queues s ! k))"
    and "j < length (bf_queues s)" "bf_moduleIds s ! k < bf_moduleIds s ! j"
  shows "pq_queue (bf_queues s' ! j) = []"
proof (rule ccontr)
  let ?t = "inserted ins i p s"
  assume "pq_queue (bf_queues s' ! j) \<noteq> []"
  then obtain y where y: "y \<in> set (pq_queue (bf_queues s' ! j))" by (meson last_in_set)
  from bq_push_total[OF assms(1-4)] assms(5) have r: "shared_buffer HighestOwnerModuleId s'" "shrunk ?t s'"
    "drop_excess buffer_full (selectPacket HighestOwnerModuleId owner_id bf_getNumPackets bf_getPacket) pb_dropPacket ?t = Some (ds, s')"
    by auto
  have t: "shared_buffer HighestOwnerModuleId ?t" by (rule shared_buffer_inserted[OF assms(1-4)])
  then have tc: "buffer_consistent ?t" "valid_ids ?t" by (simp_all add: shared_buffer_def)
  have len: "length (bf_queues ?t) = length (bf_queues s)" "bf_moduleIds ?t = bf_moduleIds s" by (simp_all add: inserted_def)
  have sel: "z \<in> set (pb_packets (bf_buffer c))"
    if "buffer_consistent c \<and> shrunk ?t c" "buffer_full c"
      "selectPacket HighestOwnerModuleId owner_id bf_getNumPackets bf_getPacket c = Some z" for c z
    using that selectHighest[of c] valid_ids_shrunk[OF tc(2)] by fastforce
  have "\<exists>c. (buffer_consistent c \<and> shrunk ?t c) \<and>
      selectPacket HighestOwnerModuleId owner_id bf_getNumPackets bf_getPacket c = Some x \<and>
      x \<in> set (pb_packets (bf_buffer c)) \<and> set (pb_packets (bf_buffer s')) \<subseteq> set (pb_packets (bf_buffer c))"
    using bf.drop_excess_selected[OF conjI[OF tc(1) shrunk_refl] r(3) sel] assms(6) by blast
  then obtain c where c: "buffer_consistent c" "shrunk ?t c"
    "selectPacket HighestOwnerModuleId owner_id bf_getNumPackets bf_getPacket c = Some x"
    "x \<in> set (pb_packets (bf_buffer c))" "set (pb_packets (bf_buffer s')) \<subseteq> set (pb_packets (bf_buffer c))" by blast
  have owner: "owner_id c z = bf_moduleIds s ! m"
    if "z \<in> set (pb_packets (bf_buffer c))" "m < length (bf_queues s)" "z \<in> set (pq_queue (bf_queues ?t ! m))" for z m
    using owner_in_shrunk[OF tc(1) c(2,1) that(1)] that(2,3) len by simp
  have "y \<in> set (pq_queue (bf_queues ?t ! j))" using y r(2) assms(9) len by (auto simp: shrunk_def dest: subseq_member)
  moreover have "y \<in> set (pb_packets (bf_buffer c))"
  proof -
    have "length (bf_queues s') = length (bf_queues s)" using r(2) len(1) by (simp add: shrunk_def)
    then have "y \<in> set (queued_packets s')" using y assms(9) by (auto simp: queued_packet)
    then show ?thesis using r(1) c(5) by (auto simp: shared_buffer_def buffered_packet)
  qed
  moreover have "x \<in> set (pq_queue (bf_queues ?t ! k))"
    using assms(3,8) by (cases "k = i") (simp_all add: inserted_def storage_insert_facts[OF assms(1)])
  ultimately have "owner_id c y = bf_moduleIds s ! j" "owner_id c x = bf_moduleIds s ! k"
    "y \<in> set (pb_packets (bf_buffer c))" using owner c(4) assms(7,9) by blast+
  with c(3,4) selectHighest[OF c(1) valid_ids_shrunk[OF tc(2) c(2)]] assms(10) show False by fastforce
qed

theorem priority_buffer_protects_witness:
  "\<exists>n s'. bq_pushPacket fifo_insert 0 (sample_packet 2 8) sample_buffered = Some ([sample_packet 1 8], n, s') \<and>
     pq_queue (bf_queues s' ! 1) = []"
proof -
  obtain n s' where r: "bq_pushPacket fifo_insert 0 (sample_packet 2 8) sample_buffered = Some ([sample_packet 1 8], n, s')"
    using sample_push by blast
  then have "pq_queue (bf_queues s' ! 1) = []"
    by (rule priority_buffer_protects[OF storage_fifo sample_buffered, of 0 "sample_packet 2 8" _ _ _ "sample_packet 1 8" 0 1, rotated 2])
      (simp_all add: sample_buffered_def sample_queue_def sample_packet_def queued_packets_def)
  with r show ?thesis by blast
qed

end
