(* ===== verification/Priority_Queue.thy ===== *)
theory Priority_Queue
  imports Packet_Queue
begin

text \<open>
  Priority queues (src/inet/src/inet/queueing/queue/PriorityQueue.ned with CompoundPacketQueueBase.cc): a classifier
  in front of several packet queues, and a priority scheduler (base/PacketSchedulerBase.cc,
  scheduler/PriorityScheduler.cc) behind them, which is also the packet collection the limits of the compound queue
  are applied to.
\<close>

section \<open>Schedulers\<close>

record scheduler =
  sch_reverseOrder :: bool
  sch_inProgressStreamId :: int
  sch_inProgressGateIndex :: int
  sch_numProcessedPackets :: nat
  sch_processedTotalLength :: int

definition getInputGateIndex :: "scheduler \<Rightarrow> nat \<Rightarrow> nat \<Rightarrow> nat" where
  "getInputGateIndex s n i = (if sch_reverseOrder s then n - i - 1 else i)"

text \<open>\<open>PriorityScheduler::schedulePacket\<close>; the argument tells for each provider whether it can be pulled.\<close>

definition priority_schedulePacket :: "scheduler \<Rightarrow> bool list \<Rightarrow> int" where
  "priority_schedulePacket s avail =
     (case filter (\<lambda>k. int k = sch_inProgressGateIndex s \<or> avail ! k)
             (map (getInputGateIndex s (length avail)) [0..<length avail]) of
        [] \<Rightarrow> -1 | k # _ \<Rightarrow> int k)"

definition callSchedulePacket :: "(scheduler \<Rightarrow> bool list \<Rightarrow> int) \<Rightarrow> scheduler \<Rightarrow> bool list \<Rightarrow> nat option" where
  "callSchedulePacket schedule s avail =
     (let index = schedule s avail
      in do { ensure (\<not> (index < 0 \<or> index \<ge> int (length avail))); Some (nat index) })"

definition sch_processed :: "qpacket \<Rightarrow> scheduler \<Rightarrow> scheduler" where
  "sch_processed p s = s\<lparr>sch_numProcessedPackets := sch_numProcessedPackets s + 1,
     sch_processedTotalLength := sch_processedTotalLength s + qk_dataLength p\<rparr>"

text \<open>\<open>pull\<close> is the operation of the provider; \<open>checkPacketStreaming(nullptr)\<close> throws during a stream.\<close>

definition sch_pullPacket ::
  "(scheduler \<Rightarrow> bool list \<Rightarrow> int) \<Rightarrow> ('q \<Rightarrow> bool) \<Rightarrow> ('q \<Rightarrow> (qpacket \<times> 'q) option) \<Rightarrow> scheduler \<Rightarrow> 'q list \<Rightarrow>
     (qpacket \<times> scheduler \<times> 'q list) option" where
  "sch_pullPacket schedule canPullSome pull s qs =
     do {
       ensure (sch_inProgressStreamId s = -1);
       k \<leftarrow> callSchedulePacket schedule s (map canPullSome qs);
       (p, q) \<leftarrow> pull (qs ! k);
       Some (p, sch_processed p s, qs[k := q])
     }"

definition sch_canPullPacket :: "('q \<Rightarrow> qpacket option) \<Rightarrow> 'q list \<Rightarrow> qpacket option" where
  "sch_canPullPacket canPull qs = (case List.map_filter canPull qs of [] \<Rightarrow> None | p # _ \<Rightarrow> Some p)"

definition sch_canPullSomePacket :: "('q \<Rightarrow> bool) \<Rightarrow> 'q list \<Rightarrow> bool" where
  "sch_canPullSomePacket canPullSome qs = list_ex canPullSome qs"

text \<open>Streaming: the gate is chosen at the start and kept until the end.\<close>

definition sch_pullPacketStart ::
  "(scheduler \<Rightarrow> bool list \<Rightarrow> int) \<Rightarrow> ('q \<Rightarrow> bool) \<Rightarrow> ('q \<Rightarrow> (qpacket \<times> 'q) option) \<Rightarrow> scheduler \<Rightarrow> 'q list \<Rightarrow>
     (qpacket \<times> scheduler \<times> 'q list) option" where
  "sch_pullPacketStart schedule canPullSome pullStart s qs =
     do {
       ensure (sch_inProgressStreamId s = -1);
       k \<leftarrow> callSchedulePacket schedule s (map canPullSome qs);
       (p, q) \<leftarrow> pullStart (qs ! k);
       Some (p, s\<lparr>sch_inProgressGateIndex := int k, sch_inProgressStreamId := int (qk_id p)\<rparr>, qs[k := q])
     }"

definition stream_gate ::
  "(scheduler \<Rightarrow> bool list \<Rightarrow> int) \<Rightarrow> ('q \<Rightarrow> bool) \<Rightarrow> scheduler \<Rightarrow> 'q list \<Rightarrow> nat option" where
  "stream_gate schedule canPullSome s qs =
     (if sch_inProgressStreamId s = -1 then callSchedulePacket schedule s (map canPullSome qs)
      else Some (nat (sch_inProgressGateIndex s)))"

definition sch_endPacketStreaming :: "qpacket \<Rightarrow> scheduler \<Rightarrow> scheduler" where
  "sch_endPacketStreaming p s = (sch_processed p s)\<lparr>sch_inProgressStreamId := -1, sch_inProgressGateIndex := -1\<rparr>"

definition sch_pullPacketEnd ::
  "(scheduler \<Rightarrow> bool list \<Rightarrow> int) \<Rightarrow> ('q \<Rightarrow> bool) \<Rightarrow> ('q \<Rightarrow> (qpacket \<times> 'q) option) \<Rightarrow> scheduler \<Rightarrow> 'q list \<Rightarrow>
     (qpacket \<times> scheduler \<times> 'q list) option" where
  "sch_pullPacketEnd schedule canPullSome pullEnd s qs =
     do {
       k \<leftarrow> stream_gate schedule canPullSome s qs;
       (p, q) \<leftarrow> pullEnd (qs ! k);
       ensure (\<not> (sch_inProgressStreamId s \<noteq> -1 \<and> int (qk_id p) \<noteq> sch_inProgressStreamId s));
       Some (p, sch_endPacketStreaming p s, qs[k := q])
     }"

text \<open>The progress call ends the stream when the packet is complete at the given position.\<close>

definition sch_pullPacketProgress ::
  "(scheduler \<Rightarrow> bool list \<Rightarrow> int) \<Rightarrow> ('q \<Rightarrow> bool) \<Rightarrow> ('q \<Rightarrow> (qpacket \<times> 'q) option) \<Rightarrow> int \<Rightarrow> int \<Rightarrow> scheduler \<Rightarrow> 'q list \<Rightarrow>
     (qpacket \<times> scheduler \<times> 'q list) option" where
  "sch_pullPacketProgress schedule canPullSome pullProgress position extra s qs =
     do {
       k \<leftarrow> stream_gate schedule canPullSome s qs;
       (p, q) \<leftarrow> pullProgress (qs ! k);
       ensure (\<not> (sch_inProgressStreamId s \<noteq> -1 \<and> int (qk_id p) \<noteq> sch_inProgressStreamId s));
       let s = s\<lparr>sch_inProgressGateIndex := int k, sch_inProgressStreamId := int (qk_id p)\<rparr>;
       Some (p, (if qk_totalLength p = position + extra then sch_endPacketStreaming p s else s), qs[k := q])
     }"

text \<open>Whether the collector is notified when a provider changes.\<close>

definition sch_handleCanPullPacketChanged :: "(scheduler \<Rightarrow> bool list \<Rightarrow> int) \<Rightarrow> scheduler \<Rightarrow> bool list \<Rightarrow> bool option" where
  "sch_handleCanPullPacketChanged schedule s avail =
     (if sch_inProgressStreamId s = -1 then Some True
      else do { k \<leftarrow> callSchedulePacket schedule s avail; Some (int k \<noteq> sch_inProgressGateIndex s) })"

section \<open>The collection of a priority scheduler\<close>

definition cq_getNumPackets :: "packetq list \<Rightarrow> int" where
  "cq_getNumPackets qs = sum_list (map pq_getNumPackets qs)"

definition cq_getTotalLength :: "packetq list \<Rightarrow> int" where
  "cq_getTotalLength qs = sum_list (map pq_getTotalLength qs)"

fun cq_getPacket :: "packetq list \<Rightarrow> int \<Rightarrow> qpacket option" where
  "cq_getPacket [] index = None"
| "cq_getPacket (q # qs) index =
     (if index < pq_getNumPackets q then pq_getPacket q index else cq_getPacket qs (index - pq_getNumPackets q))"

fun cq_removePacket :: "qpacket \<Rightarrow> packetq list \<Rightarrow> packetq list option" where
  "cq_removePacket p [] = None"
| "cq_removePacket p (q # qs) =
     (if p \<in> set (pq_queue q) then map_option (\<lambda>q'. q' # qs) (pq_removePacket p q)
      else map_option (\<lambda>qs'. q # qs') (cq_removePacket p qs))"

definition cq_removeAllPackets :: "packetq list \<Rightarrow> packetq list" where
  "cq_removeAllPackets qs = map (\<lambda>q. snd (pq_removeAllPackets q)) qs"

section \<open>The compound queue\<close>

record compoundq =
  cq_packetCapacity :: int
  cq_dataCapacity :: int
  cq_dropper :: "dropper option"
  cq_queues :: "packetq list"
  cq_moduleIds :: "int list"
  cq_scheduler :: scheduler
  cq_classifierReverse :: bool
  cq_numPulledPackets :: nat
  cq_numRemovedPackets :: nat
  cq_numDroppedPackets :: nat

definition compound_getNumPackets :: "compoundq \<Rightarrow> int" where
  "compound_getNumPackets s = cq_getNumPackets (cq_queues s)"

definition compound_getPacket :: "compoundq \<Rightarrow> int \<Rightarrow> qpacket option" where
  "compound_getPacket s index = cq_getPacket (cq_queues s) index"

definition compound_isOverloaded :: "compoundq \<Rightarrow> bool" where
  "compound_isOverloaded s \<longleftrightarrow>
     (cq_packetCapacity s \<noteq> -1 \<and> compound_getNumPackets s > cq_packetCapacity s) \<or>
     (cq_dataCapacity s \<noteq> -1 \<and> cq_getTotalLength (cq_queues s) > cq_dataCapacity s)"

definition compound_removePacket :: "qpacket \<Rightarrow> compoundq \<Rightarrow> compoundq option" where
  "compound_removePacket p s =
     do { qs \<leftarrow> cq_removePacket p (cq_queues s);
          Some (s\<lparr>cq_queues := qs, cq_numRemovedPackets := cq_numRemovedPackets s + 1\<rparr>) }"

text \<open>
  A drop of the compound queue is counted when it is emitted and again by its own subscription to the signal;
  drops inside the queues are counted by the subscription.
\<close>

definition compound_dropPacket :: "qpacket \<Rightarrow> compoundq \<Rightarrow> compoundq option" where
  "compound_dropPacket p s =
     do { s \<leftarrow> compound_removePacket p s; Some (s\<lparr>cq_numDroppedPackets := cq_numDroppedPackets s + 2\<rparr>) }"

definition compound_owner :: "compoundq \<Rightarrow> qpacket \<Rightarrow> int" where
  "compound_owner s p =
     (case filter (\<lambda>(q, m). p \<in> set (pq_queue q)) (zip (cq_queues s) (cq_moduleIds s)) of [] \<Rightarrow> 0 | (q, m) # _ \<Rightarrow> m)"

text \<open>\<open>PacketClassifier::classifyPacket\<close> and the range check of the base class; \<open>classify\<close> is the classifier function.\<close>

definition callClassifyPacket :: "(qpacket \<Rightarrow> int option) \<Rightarrow> bool \<Rightarrow> nat \<Rightarrow> qpacket \<Rightarrow> nat option" where
  "callClassifyPacket classify reverse n p =
     do {
       i \<leftarrow> classify p;
       let index = (if i = -1 then i else if reverse then int n - i - 1 else i);
       ensure (\<not> (index < 0 \<or> index \<ge> int n));
       Some (nat index)
     }"

definition compound_pushPacket ::
  "(qpacket \<Rightarrow> qpacket list \<Rightarrow> qpacket list) \<Rightarrow> (qpacket \<Rightarrow> int option) \<Rightarrow> qpacket \<Rightarrow> compoundq \<Rightarrow>
     (qpacket list \<times> compoundq) option" where
  "compound_pushPacket ins classify p s =
     do {
       i \<leftarrow> callClassifyPacket classify (cq_classifierReverse s) (length (cq_queues s)) p;
       (ds, n, q) \<leftarrow> pq_pushPacket ins (cq_moduleIds s ! i) p (cq_queues s ! i);
       let s = s\<lparr>cq_queues := (cq_queues s)[i := q], cq_numDroppedPackets := cq_numDroppedPackets s + length ds\<rparr>;
       (es, s) \<leftarrow> (case cq_dropper s of None \<Rightarrow> Some ([], s)
          | Some d \<Rightarrow> drop_excess compound_isOverloaded
              (selectPacket d compound_owner compound_getNumPackets compound_getPacket) compound_dropPacket s);
       ensure (\<not> compound_isOverloaded s);
       Some (ds @ es, s)
     }"

definition compound_pullPacket :: "compoundq \<Rightarrow> (qpacket \<times> compoundq) option" where
  "compound_pullPacket s =
     do {
       (p, sch, qs) \<leftarrow> sch_pullPacket priority_schedulePacket (\<lambda>q. pq_getNumPackets q \<noteq> 0) pq_pullPacket
          (cq_scheduler s) (cq_queues s);
       Some (p, s\<lparr>cq_scheduler := sch, cq_queues := qs, cq_numPulledPackets := cq_numPulledPackets s + 1\<rparr>)
     }"

definition compound_canPushSomePacket :: "compoundq \<Rightarrow> bool" where
  "compound_canPushSomePacket s =
     (if cq_dropper s \<noteq> None then True
      else if cq_packetCapacity s \<noteq> -1 \<and> compound_getNumPackets s \<ge> cq_packetCapacity s then False
      else if cq_dataCapacity s \<noteq> -1 \<and> cq_getTotalLength (cq_queues s) \<ge> cq_dataCapacity s then False
      else True)"

definition compound_canPushPacket :: "qpacket \<Rightarrow> compoundq \<Rightarrow> bool" where
  "compound_canPushPacket p s =
     (if cq_dropper s \<noteq> None then True
      else if cq_packetCapacity s \<noteq> -1 \<and> compound_getNumPackets s \<ge> cq_packetCapacity s then False
      else if cq_dataCapacity s \<noteq> -1 \<and> cq_dataCapacity s - cq_getTotalLength (cq_queues s) < qk_dataLength p then False
      else True)"


section \<open>The compound queue as one collection\<close>

definition queue_contents :: "packetq list \<Rightarrow> qpacket list" where
  "queue_contents qs = concat (map pq_queue qs)"

abbreviation compound_contents :: "compoundq \<Rightarrow> qpacket list" where
  "compound_contents s \<equiv> queue_contents (cq_queues s)"

lemma cq_getNumPackets_contents: "cq_getNumPackets qs = int (length (queue_contents qs))"
  by (induction qs) (simp_all add: cq_getNumPackets_def queue_contents_def pq_getNumPackets_def)

lemma cq_getTotalLength_contents: "cq_getTotalLength qs = sum_list (map qk_dataLength (queue_contents qs))"
  by (induction qs) (simp_all add: cq_getTotalLength_def queue_contents_def pq_getTotalLength_def)

lemma cq_getPacket_contents:
  "0 \<le> i \<Longrightarrow> i < int (length (queue_contents qs)) \<Longrightarrow> cq_getPacket qs i = Some (queue_contents qs ! nat i)"
proof (induction qs arbitrary: i)
  case Nil
  then show ?case by (simp add: queue_contents_def)
next
  case (Cons q qs)
  show ?case
  proof (cases "i < pq_getNumPackets q")
    case True
    then show ?thesis using Cons.prems by (simp add: pq_getPacket_def pq_getNumPackets_def queue_contents_def nth_append)
  next
    case False
    then have "cq_getPacket qs (i - pq_getNumPackets q) = Some (queue_contents qs ! nat (i - pq_getNumPackets q))"
      using Cons.prems by (intro Cons.IH) (simp_all add: pq_getNumPackets_def queue_contents_def)
    then show ?thesis using False Cons.prems
      by (simp add: pq_getNumPackets_def queue_contents_def nth_append nat_diff_distrib)
  qed
qed

text \<open>Removing a packet touches one queue and keeps all configurations.\<close>

definition queues_shrunk :: "packetq list \<Rightarrow> packetq list \<Rightarrow> bool" where
  "queues_shrunk qs qs' \<longleftrightarrow> list_all2 (\<lambda>q q'. same_config q q' \<and> subseq (pq_queue q') (pq_queue q)) qs qs'"

lemma queues_shrunk_refl: "queues_shrunk qs qs"
  by (simp add: queues_shrunk_def same_config_def list_all2_refl)

lemma queues_shrunk_trans: "queues_shrunk qs rs \<Longrightarrow> queues_shrunk rs ts \<Longrightarrow> queues_shrunk qs ts"
  unfolding queues_shrunk_def list_all2_conv_all_nth same_config_def
  by (auto, metis subseq_order.order_trans)

lemma cq_removePacket_contents:
  "p \<in> set (queue_contents qs) \<Longrightarrow>
   \<exists>qs'. cq_removePacket p qs = Some qs' \<and> queue_contents qs' = remove1 p (queue_contents qs) \<and> queues_shrunk qs qs'"
proof (induction qs)
  case Nil
  then show ?case by (simp add: queue_contents_def)
next
  case (Cons q qs)
  show ?case
  proof (cases "p \<in> set (pq_queue q)")
    case True
    then show ?thesis
      by (auto simp: pq_removePacket_def queue_remove_def queue_contents_def remove1_append queues_shrunk_def same_config_def
          subseq_remove1 list_all2_refl)
  next
    case False
    then have "p \<in> set (queue_contents qs)" using Cons.prems by (simp add: queue_contents_def)
    from Cons.IH[OF this] obtain qs' where qs': "cq_removePacket p qs = Some qs'"
      "queue_contents qs' = remove1 p (queue_contents qs)" "queues_shrunk qs qs'" by blast
    with False show ?thesis by (auto simp: queue_contents_def remove1_append queues_shrunk_def same_config_def)
  qed
qed

definition compound_shrunk :: "compoundq \<Rightarrow> compoundq \<Rightarrow> bool" where
  "compound_shrunk s s' \<longleftrightarrow> cq_packetCapacity s' = cq_packetCapacity s \<and> cq_dataCapacity s' = cq_dataCapacity s \<and>
     cq_dropper s' = cq_dropper s \<and> cq_moduleIds s' = cq_moduleIds s \<and> cq_scheduler s' = cq_scheduler s \<and>
     cq_classifierReverse s' = cq_classifierReverse s \<and> queues_shrunk (cq_queues s) (cq_queues s')"

interpretation cq: packet_collection compound_getNumPackets compound_getPacket compound_dropPacket
    "\<lambda>s. queue_contents (cq_queues s)" "compound_shrunk s0" for s0
proof
  fix s p assume s: "compound_shrunk s0 s" and p: "p \<in> set (compound_contents s)"
  from cq_removePacket_contents[OF p] obtain qs where
    "cq_removePacket p (cq_queues s) = Some qs" "queue_contents qs = remove1 p (compound_contents s)"
    "queues_shrunk (cq_queues s) qs" by blast
  with s show "\<exists>s'. compound_dropPacket p s = Some s' \<and> compound_shrunk s0 s' \<and>
      compound_contents s' = remove1 p (compound_contents s)"
    by (auto simp: compound_dropPacket_def compound_removePacket_def compound_shrunk_def intro: queues_shrunk_trans)
qed (simp_all add: compound_getNumPackets_def compound_getPacket_def cq_getNumPackets_contents cq_getPacket_contents)

lemma compound_isOverloaded_contents:
  "compound_isOverloaded s = queue_overloaded (cq_packetCapacity s) (cq_dataCapacity s) (compound_contents s)"
  by (simp add: compound_isOverloaded_def queue_overloaded_def compound_getNumPackets_def cq_getNumPackets_contents
      cq_getTotalLength_contents)

section \<open>Strict priority\<close>

text \<open>In its normal order an idle priority scheduler takes the first provider that has a packet.\<close>

lemma priority_schedule_first:
  assumes "\<not> sch_reverseOrder s" "sch_inProgressGateIndex s = -1"
  shows "priority_schedulePacket s avail = (if True \<in> set avail then int (length (takeWhile Not avail)) else -1)"
proof -
  let ?P = "\<lambda>k. int k = sch_inProgressGateIndex s \<or> avail ! k"
  have m: "map (getInputGateIndex s (length avail)) [0..<length avail] = [0..<length avail]"
    using assms(1) by (simp add: getInputGateIndex_def map_idI)
  show ?thesis
  proof (cases "filter ?P [0..<length avail]")
    case Nil
    then have "True \<notin> set avail" using assms(2) by (auto simp: filter_empty_conv in_set_conv_nth)
    with Nil m show ?thesis by (simp add: priority_schedulePacket_def)
  next
    case (Cons k ks)
    note f = first_filter_upt[OF Cons]
    then have k: "k < length avail" "avail ! k" "\<forall>j < k. \<not> avail ! j" using assms(2) by auto
    then have "takeWhile Not avail = take k avail" by (intro takeWhile_eq_take_P_nth) auto
    then have "length (takeWhile Not avail) = k" using k(1) by simp
    with Cons m k show ?thesis by (auto simp: priority_schedulePacket_def in_set_conv_nth)
  qed
qed


lemma first_true:
  "True \<in> set xs \<Longrightarrow> length (takeWhile Not xs) < length xs \<and> xs ! length (takeWhile Not xs) \<and>
   (\<forall>j < length (takeWhile Not xs). \<not> xs ! j)"
  by (induction xs) (auto simp: less_Suc_eq_0_disj)

lemma queue_contents_first:
  assumes "k < length qs" "\<forall>j < k. pq_queue (qs ! j) = []"
  shows "queue_contents (qs[k := q]) = pq_queue q @ queue_contents (List.drop (Suc k) qs)"
    "queue_contents qs = pq_queue (qs ! k) @ queue_contents (List.drop (Suc k) qs)"
proof -
  have e: "queue_contents (take k qs) = []" using assms by (auto simp: queue_contents_def in_set_conv_nth)
  have a: "queue_contents (xs @ ys) = queue_contents xs @ queue_contents ys" for xs ys by (simp add: queue_contents_def)
  have c: "queue_contents (x # xs) = pq_queue x @ queue_contents xs" for x xs by (simp add: queue_contents_def)
  show "queue_contents (qs[k := q]) = pq_queue q @ queue_contents (List.drop (Suc k) qs)"
    using assms(1) by (simp add: upd_conv_take_nth_drop a c e)
  show "queue_contents qs = pq_queue (qs ! k) @ queue_contents (List.drop (Suc k) qs)"
    using e by (subst id_take_nth_drop[OF assms(1)]) (simp add: a c)
qed

definition idle_scheduler :: "scheduler \<Rightarrow> bool" where
  "idle_scheduler s \<longleftrightarrow> \<not> sch_reverseOrder s \<and> sch_inProgressStreamId s = -1 \<and> sch_inProgressGateIndex s = -1"

definition sample_scheduler :: scheduler where
  "sample_scheduler = \<lparr>sch_reverseOrder = False, sch_inProgressStreamId = -1, sch_inProgressGateIndex = -1,
     sch_numProcessedPackets = 0, sch_processedTotalLength = 0\<rparr>"

definition sample_compound :: "int \<Rightarrow> qpacket list \<Rightarrow> qpacket list \<Rightarrow> compoundq" where
  "sample_compound capacity q r = \<lparr>cq_packetCapacity = capacity, cq_dataCapacity = -1, cq_dropper = Some AtCollectionEnd,
     cq_queues = [sample_queue (-1) None q, sample_queue (-1) None r], cq_moduleIds = [1, 2], cq_scheduler = sample_scheduler,
     cq_classifierReverse = False, cq_numPulledPackets = 0, cq_numRemovedPackets = 0, cq_numDroppedPackets = 0\<rparr>"

text \<open>
  A priority queue is one queue ordered by class: it hands out the head of its contents (the first non-empty
  queue, in class order), leaves every other packet where it is, and throws exactly when it is empty.
\<close>

theorem priority_queue_pull:
  assumes "idle_scheduler (cq_scheduler s)"
  shows "case compound_contents s of
      [] \<Rightarrow> compound_pullPacket s = None
    | p # rest \<Rightarrow> \<exists>k s'. compound_pullPacket s = Some (p, s') \<and> compound_contents s' = rest \<and>
        idle_scheduler (cq_scheduler s') \<and> k < length (cq_queues s) \<and> (\<forall>j < k. pq_queue (cq_queues s ! j) = []) \<and>
        pq_queue (cq_queues s ! k) = p # pq_queue (cq_queues s' ! k) \<and>
        (\<forall>j. j \<noteq> k \<longrightarrow> cq_queues s' ! j = cq_queues s ! j)"
proof -
  let ?qs = "cq_queues s" and ?avail = "map (\<lambda>q. pq_getNumPackets q \<noteq> 0) (cq_queues s)"
  have avail: "?avail = map (\<lambda>q. pq_queue q \<noteq> []) ?qs" by (simp add: pq_getNumPackets_def)
  note sch = priority_schedule_first[of "cq_scheduler s" ?avail]
  show ?thesis
  proof (cases "compound_contents s")
    case Nil
    then have "True \<notin> set ?avail" by (auto simp: queue_contents_def pq_getNumPackets_def)
    with Nil assms sch show ?thesis
      by (simp add: compound_pullPacket_def sch_pullPacket_def callSchedulePacket_def idle_scheduler_def)
  next
    case (Cons p rest)
    define k where "k = length (takeWhile Not ?avail)"
    have "p \<in> set (compound_contents s)" by (simp add: Cons)
    then obtain x where "x \<in> set ?qs" "p \<in> set (pq_queue x)" by (auto simp: queue_contents_def)
    then have "\<exists>x \<in> set ?qs. pq_queue x \<noteq> []" by (metis empty_iff list.set(1))
    then have t: "True \<in> set ?avail" by (auto simp: avail image_iff)
    have f: "k < length ?avail" "?avail ! k" "\<forall>j < k. \<not> ?avail ! j"
      using first_true[OF t] unfolding k_def[symmetric] by blast+
    have k: "k < length ?qs" using f(1) by simp
    have ne: "pq_queue (?qs ! k) \<noteq> []" "\<forall>j < k. pq_queue (?qs ! j) = []"
      using f k by (auto simp: pq_getNumPackets_def)
    obtain q where q: "pq_queue (?qs ! k) = p # q"
      using queue_contents_first(2)[OF k ne(2)] ne(1) Cons by (cases "pq_queue (?qs ! k)") auto
    let ?q = "(?qs ! k)\<lparr>pq_queue := q, pq_numPulledPackets := pq_numPulledPackets (?qs ! k) + 1\<rparr>"
    let ?s' = "s\<lparr>cq_scheduler := sch_processed p (cq_scheduler s), cq_queues := ?qs[k := ?q],
      cq_numPulledPackets := cq_numPulledPackets s + 1\<rparr>"
    have "callSchedulePacket priority_schedulePacket (cq_scheduler s) ?avail = Some k"
      using sch t assms k by (simp add: callSchedulePacket_def idle_scheduler_def k_def)
    then have "compound_pullPacket s = Some (p, ?s')"
      using assms q k by (simp add: compound_pullPacket_def sch_pullPacket_def idle_scheduler_def pq_pullPacket_def)
    moreover have "compound_contents ?s' = rest"
      using queue_contents_first[OF k ne(2)] q Cons by simp
    ultimately show ?thesis using Cons assms k ne(2) q
      by (intro exI[of _ k] exI[of _ ?s'] conjI | simp add: idle_scheduler_def sch_processed_def)+
  qed
qed


theorem priority_queue_pull_witness:
  "\<exists>s'. compound_pullPacket (sample_compound 3 [] [sample_packet 1 8]) = Some (sample_packet 1 8, s') \<and> compound_contents s' = []"
proof -
  have "idle_scheduler (cq_scheduler (sample_compound 3 [] [sample_packet 1 8]))"
    by (simp add: idle_scheduler_def sample_compound_def sample_scheduler_def)
  from priority_queue_pull[OF this] show ?thesis
    by (auto simp: queue_contents_def sample_compound_def sample_queue_def)
qed

lemma mset_queue_update:
  "i < length qs \<Longrightarrow> mset (queue_contents (qs[i := q])) + mset (pq_queue (qs ! i)) = mset (queue_contents qs) + mset (pq_queue q)"
proof (induction qs arbitrary: i)
  case (Cons x qs)
  then show ?case by (cases i) (simp_all add: queue_contents_def ac_simps)
qed simp

text \<open>
  A push into a priority queue that drops at the end never fails: the packet goes into the queue of its class, and
  what is left is the longest prefix of the contents in class order that fits, so that packets are lost from the
  lowest class first and from its end; the dropped packets are the rest.
\<close>

theorem priority_queue_push:
  assumes "storage_insert cmp ins" "callClassifyPacket classify (cq_classifierReverse s) (length (cq_queues s)) p = Some i"
    and "cq_dropper s = Some AtCollectionEnd" "-1 \<le> cq_packetCapacity s" "-1 \<le> cq_dataCapacity s"
    and "\<forall>q \<in> set (cq_queues s). pq_packetCapacity q = -1 \<and> pq_dataCapacity q = -1 \<and> pq_dropper q = None"
    and "distinct (p # compound_contents s)"
  shows "\<exists>ds s' n. compound_pushPacket ins classify p s = Some (ds, s') \<and>
    (let q = cq_queues s ! i; t = (cq_queues s)[i := q\<lparr>pq_queue := ins p (pq_queue q)\<rparr>];
         over = queue_overloaded (cq_packetCapacity s) (cq_dataCapacity s) in
     compound_contents s' = take n (queue_contents t) \<and> ds = rev (List.drop n (queue_contents t)) \<and>
     mset (queue_contents t) = add_mset p (mset (compound_contents s)) \<and> queues_shrunk t (cq_queues s') \<and>
     \<not> over (compound_contents s') \<and> (\<forall>k. n < k \<and> k \<le> length (queue_contents t) \<longrightarrow> over (take k (queue_contents t))))"
proof -
  let ?q = "cq_queues s ! i"
  let ?t = "(cq_queues s)[i := ?q\<lparr>pq_queue := ins p (pq_queue ?q)\<rparr>]" and ?s = "s\<lparr>cq_queues := (cq_queues s)
    [i := ?q\<lparr>pq_queue := ins p (pq_queue ?q)\<rparr>]\<rparr>"
  let ?ov = "queue_overloaded (cq_packetCapacity s) (cq_dataCapacity s)"
  from assms(2) have i: "i < length (cq_queues s)"
    by (auto simp: callClassifyPacket_def Let_def split: Option.bind_splits if_splits)
  then have q: "?q \<in> set (cq_queues s)" by simp
  have push: "pq_pushPacket ins (cq_moduleIds s ! i) p ?q = Some ([], True, ?q\<lparr>pq_queue := ins p (pq_queue ?q)\<rparr>)"
    using push_succeeds_iff_canPush_base[OF assms(1)] assms(6) q by (simp add: pq_isOverloaded_def pq_canPushPacket_def)
  have m: "mset (queue_contents ?t) = add_mset p (mset (compound_contents s))"
    using mset_queue_update[OF i, of "?q\<lparr>pq_queue := ins p (pq_queue ?q)\<rparr>"] storage_insert_mset[OF assms(1)] by simp
  then have "mset (queue_contents ?t) = mset (p # compound_contents s)" by simp
  then have dist: "distinct (queue_contents (cq_queues ?s))" using assms(7) by (metis mset_eq_imp_distinct_iff compoundq.select_convs(4)
      compoundq.surjective compoundq.update_convs(4))
  have same: "compound_shrunk ?s ?s" by (simp add: compound_shrunk_def queues_shrunk_refl)
  have ov: "compound_isOverloaded c = ?ov (compound_contents c)" if "compound_shrunk ?s c" for c
    using that by (simp add: compound_isOverloaded_contents compound_shrunk_def)
  from cq.drop_at_end[OF same dist ov queue_overloaded_Nil[OF assms(4,5)]] obtain ds s' n where r:
    "drop_excess compound_isOverloaded (selectPacketAtEnd compound_getNumPackets compound_getPacket) compound_dropPacket ?s = Some (ds, s')"
    "compound_shrunk ?s s'" "compound_contents s' = take n (queue_contents ?t)" "ds = rev (List.drop n (queue_contents ?t))"
    "\<not> ?ov (take n (queue_contents ?t))" "\<forall>k. n < k \<and> k \<le> length (queue_contents ?t) \<longrightarrow> ?ov (take k (queue_contents ?t))"
    by auto
  have "selectPacket AtCollectionEnd compound_owner = selectPacketAtEnd" by (simp add: fun_eq_iff)
  with r(1,3,5) ov[OF r(2)] assms(2,3) push have "compound_pushPacket ins classify p s = Some (ds, s')"
    by (simp add: compound_pushPacket_def)
  with r m show ?thesis by (intro exI[of _ ds] exI[of _ s'] exI[of _ n]) (simp add: Let_def compound_shrunk_def)
qed

theorem priority_queue_push_witness:
  "\<exists>ds s'. compound_pushPacket fifo_insert (\<lambda>_. Some 0) (sample_packet 2 8) (sample_compound 1 [] [sample_packet 1 8]) = Some (ds, s') \<and>
     \<not> queue_overloaded 1 (-1) (compound_contents s')"
  using priority_queue_push[OF storage_fifo, of "\<lambda>_. Some 0" "sample_compound 1 [] [sample_packet 1 8]" "sample_packet 2 8" 0]
  by (auto simp: callClassifyPacket_def sample_compound_def sample_queue_def sample_packet_def queue_contents_def Let_def)

text \<open>
  Preemption: during a stream the collector is told about a change only when a provider that comes before the
  streaming one can be pulled.
\<close>

lemma preemption_notice:
  assumes "\<not> sch_reverseOrder s" "sch_inProgressStreamId s \<noteq> -1" "sch_inProgressGateIndex s = int g" "g < length avail"
  shows "sch_handleCanPullPacketChanged priority_schedulePacket s avail = Some (\<exists>j < g. avail ! j)"
proof -
  let ?P = "\<lambda>k. int k = sch_inProgressGateIndex s \<or> avail ! k"
  have m: "map (getInputGateIndex s (length avail)) [0..<length avail] = [0..<length avail]"
    using assms(1) by (simp add: getInputGateIndex_def map_idI)
  have "filter ?P [0..<length avail] \<noteq> []" using assms(3,4) by (auto simp: filter_empty_conv intro!: bexI[of _ g])
  then obtain k ks where k: "filter ?P [0..<length avail] = k # ks" by (meson neq_Nil_conv)
  note f = first_filter_upt[OF k]
  have "(k \<noteq> g) = (\<exists>j < g. avail ! j)" using f assms(3) by (metis linorder_neqE_nat of_nat_eq_iff)
  then show ?thesis using assms(2,3) k m f
    by (simp add: sch_handleCanPullPacketChanged_def callSchedulePacket_def priority_schedulePacket_def)
qed

end
