(* ===== verification/Packet_Scheduler.thy ===== *)
theory Packet_Scheduler
  imports Packet_Queue
begin

text \<open>
  The schedulers and classifiers that choose by weight, content, label or a random state
  (src/inet/src/inet/queueing/scheduler/, classifier/ and function/PacketSchedulerFunction.cc). What a provider would
  hand out is an optional packet; whether a consumer accepts a packet is a boolean.
\<close>

section \<open>Weighted round robin\<close>

record wrr =
  wrr_weights :: "nat list"
  wrr_buckets :: "nat list"

text \<open>The parameter has one weight per provider, otherwise initialization throws.\<close>

definition wrr_initialize :: "nat \<Rightarrow> nat list \<Rightarrow> wrr option" where
  "wrr_initialize n ws =
     do { ensure (\<not> length ws < n); ensure (\<not> length ws > n); Some \<lparr>wrr_weights = ws, wrr_buckets = ws\<rparr> }"

text \<open>
  The scan stops at the first available provider with a token, and otherwise knows the first available provider
  with and without a weight.
\<close>

fun wrr_scan :: "nat \<Rightarrow> bool list \<Rightarrow> nat list \<Rightarrow> nat list \<Rightarrow> int \<Rightarrow> int \<Rightarrow> nat + int \<times> int" where
  "wrr_scan i (a # as) (w # ws) (b # bs) firstWeighted firstNonWeighted =
     (if a then
        (if b > 0 then Inl i
         else if firstWeighted = -1 \<and> w > 0 then wrr_scan (i + 1) as ws bs (int i) firstNonWeighted
         else if firstNonWeighted = -1 \<and> w = 0 then wrr_scan (i + 1) as ws bs firstWeighted (int i)
         else wrr_scan (i + 1) as ws bs firstWeighted firstNonWeighted)
      else wrr_scan (i + 1) as ws bs firstWeighted firstNonWeighted)"
| "wrr_scan i _ _ _ firstWeighted firstNonWeighted = Inr (firstWeighted, firstNonWeighted)"

definition wrr_schedulePacket :: "bool list \<Rightarrow> wrr \<Rightarrow> int \<times> wrr" where
  "wrr_schedulePacket avail s =
     (case wrr_scan 0 avail (wrr_weights s) (wrr_buckets s) (-1) (-1) of
        Inl i \<Rightarrow> (int i, s\<lparr>wrr_buckets := (wrr_buckets s)[i := wrr_buckets s ! i - 1]\<rparr>)
      | Inr (firstWeighted, firstNonWeighted) \<Rightarrow>
          if firstWeighted \<noteq> -1
          then (firstWeighted, s\<lparr>wrr_buckets := (wrr_weights s)[nat firstWeighted := wrr_weights s ! nat firstWeighted - 1]\<rparr>)
          else if firstNonWeighted \<noteq> -1 then (firstNonWeighted, s)
          else (-1, s))"

text \<open>\<open>WrrClassifier::classifyPacket\<close> with its two loops; the second one refills while it looks for the result.\<close>

definition wrr_classifyPacket :: "bool list \<Rightarrow> wrr \<Rightarrow> int \<times> wrr" where
  "wrr_classifyPacket accept s =
     (case filter (\<lambda>i. accept ! i \<and> wrr_buckets s ! i > 0) [0..<length accept] of
        i # _ \<Rightarrow> (int i, s\<lparr>wrr_buckets := (wrr_buckets s)[i := wrr_buckets s ! i - 1]\<rparr>)
      | [] \<Rightarrow>
          if True \<notin> set accept then (-1, s)
          else (case filter (\<lambda>i. wrr_weights s ! i > 0 \<and> accept ! i) [0..<length accept] of
                  [] \<Rightarrow> (-1, s\<lparr>wrr_buckets := wrr_weights s\<rparr>)
                | i # _ \<Rightarrow> (int i, s\<lparr>wrr_buckets := (wrr_weights s)[i := wrr_weights s ! i - 1]\<rparr>)))"

section \<open>Choice by content, label, priority and length\<close>

definition content_schedulePacket :: "(qpacket \<Rightarrow> bool) list \<Rightarrow> int \<Rightarrow> qpacket option list \<Rightarrow> int" where
  "content_schedulePacket filters defaultGateIndex heads =
     (case filter (\<lambda>(f, i). case heads ! i of None \<Rightarrow> False | Some p \<Rightarrow> f p)
             (List.product filters [0..<length heads]) of
        [] \<Rightarrow> defaultGateIndex | (f, i) # _ \<Rightarrow> int i)"

definition content_classifyPacket :: "(qpacket \<Rightarrow> bool) list \<Rightarrow> int \<Rightarrow> qpacket \<Rightarrow> int" where
  "content_classifyPacket filters defaultGateIndex p =
     (case filter (\<lambda>i. (filters ! i) p) [0..<length filters] of [] \<Rightarrow> defaultGateIndex | i # _ \<Rightarrow> int i)"

text \<open>\<open>LabelScheduler\<close> asks every provider for its packet without a check for null: \<open>None\<close> is that access.\<close>

fun label_scan :: "string \<Rightarrow> nat \<Rightarrow> qpacket option list \<Rightarrow> int option option" where
  "label_scan label i [] = Some None"
| "label_scan label i (None # heads) = None"
| "label_scan label i (Some p # heads) =
     (case qk_labels p of None \<Rightarrow> label_scan label (i + 1) heads
      | Some ls \<Rightarrow> if label \<in> set ls then Some (Some (int i)) else label_scan label (i + 1) heads)"

fun label_schedulePacket :: "string list \<Rightarrow> int \<Rightarrow> qpacket option list \<Rightarrow> int option" where
  "label_schedulePacket [] defaultGateIndex heads = Some defaultGateIndex"
| "label_schedulePacket (label # labels) defaultGateIndex heads =
     (case label_scan label 0 heads of None \<Rightarrow> None
      | Some (Some i) \<Rightarrow> Some i
      | Some None \<Rightarrow> label_schedulePacket labels defaultGateIndex heads)"

definition label_classifyPacket :: "(string \<rightharpoonup> int) \<Rightarrow> int \<Rightarrow> qpacket \<Rightarrow> int option" where
  "label_classifyPacket labelsToGateIndexMap defaultGateIndex p =
     do {
       labels \<leftarrow> qk_labels p;
       Some (case List.map_filter labelsToGateIndexMap labels of [] \<Rightarrow> defaultGateIndex | i # _ \<Rightarrow> i)
     }"

definition priority_classifyPacket :: "bool \<Rightarrow> bool list \<Rightarrow> int" where
  "priority_classifyPacket reverse accept =
     (let n = length accept in
      case filter (\<lambda>i. accept ! i) (map (\<lambda>i. if reverse then n - i - 1 else i) [0..<n]) of
        [] \<Rightarrow> -1 | i # _ \<Rightarrow> int i)"

text \<open>The scheduler functions keep the best provider so far; \<open>None\<close> is an exception or a null access.\<close>

fun byData_scan :: "nat \<Rightarrow> qpacket option list \<Rightarrow> int \<times> int \<Rightarrow> int option" where
  "byData_scan i [] (selectedIndex, selectedData) = Some selectedIndex"
| "byData_scan i (None # heads) sel = byData_scan (i + 1) heads sel"
| "byData_scan i (Some p # heads) (selectedIndex, selectedData) =
     (case first_byte p of None \<Rightarrow> None
      | Some b \<Rightarrow> byData_scan (i + 1) heads (if b > selectedData then (int i, b) else (selectedIndex, selectedData)))"

definition schedulePacketByData :: "qpacket option list \<Rightarrow> int option" where
  "schedulePacketByData heads = byData_scan 0 heads (-1, -1)"

fun byPriority_scan :: "nat \<Rightarrow> qpacket option list \<Rightarrow> int \<times> int \<Rightarrow> int option" where
  "byPriority_scan i [] (selectedIndex, selected) = Some selectedIndex"
| "byPriority_scan i (None # heads) sel = None"
| "byPriority_scan i (Some p # heads) (selectedIndex, selected) =
     (case qk_userPriorityReq p of None \<Rightarrow> None
      | Some n \<Rightarrow> byPriority_scan (i + 1) heads (if n > selected then (int i, n) else (selectedIndex, selected)))"

definition schedulePacketByUserPriority :: "qpacket option list \<Rightarrow> int option" where
  "schedulePacketByUserPriority heads = byPriority_scan 0 heads (-1, -1)"

fun byLength_scan :: "nat \<Rightarrow> qpacket option list \<Rightarrow> int \<times> int \<Rightarrow> int" where
  "byLength_scan i [] (selectedIndex, selected) = selectedIndex"
| "byLength_scan i (None # heads) sel = byLength_scan (i + 1) heads sel"
| "byLength_scan i (Some p # heads) (selectedIndex, selected) =
     byLength_scan (i + 1) heads (if qk_dataLength p > selected then (int i, qk_dataLength p) else (selectedIndex, selected))"

definition schedulePacketByPacketLength :: "qpacket option list \<Rightarrow> int" where
  "schedulePacketByPacketLength heads = byLength_scan 0 heads (-1, -1)"

section \<open>Markov chains\<close>

text \<open>
  The next state of \<open>MarkovScheduler\<close> and \<open>MarkovClassifier\<close> for a random number between 0 and 1; the number of
  states is the number of gates.
\<close>

fun markov_scan :: "real \<Rightarrow> real \<Rightarrow> nat \<Rightarrow> real list \<Rightarrow> nat \<Rightarrow> nat" where
  "markov_scan v acc i [] state = state"
| "markov_scan v acc i (p # ps) state =
     (if acc + p \<ge> v \<or> ps = [] then i else markov_scan v (acc + p) (i + 1) ps state)"

definition markov_next :: "real list list \<Rightarrow> real \<Rightarrow> nat \<Rightarrow> nat" where
  "markov_next transitionProbabilities v state = markov_scan v 0 0 (transitionProbabilities ! state) state"

section \<open>Weighted round robin serves\<close>

text \<open>What the scan finds: an available provider with a token, or the first ones without.\<close>

lemma wrr_scan_Inl:
  "length as = length ws \<Longrightarrow> length bs = length ws \<Longrightarrow> wrr_scan i as ws bs fw fn = Inl k \<Longrightarrow>
   i \<le> k \<and> k - i < length ws \<and> as ! (k - i) \<and> bs ! (k - i) > 0 \<and> (\<forall>j < k - i. \<not> (as ! j \<and> bs ! j > 0))"
proof (induction i as ws bs fw fn rule: wrr_scan.induct)
  case (1 i a as w ws b bs fw fn)
  have "i \<le> k \<and> k - i < Suc (length ws) \<and> (a # as) ! (k - i) \<and> (b # bs) ! (k - i) > 0 \<and>
    (\<forall>j < k - i. \<not> ((a # as) ! j \<and> (b # bs) ! j > 0))" if "\<not> (a \<and> b > 0)"
    and "i + 1 \<le> k \<and> k - (i + 1) < length ws \<and> as ! (k - (i + 1)) \<and> bs ! (k - (i + 1)) > 0 \<and>
      (\<forall>j < k - (i + 1). \<not> (as ! j \<and> bs ! j > 0))"
  proof -
    from that(2) obtain m where k: "k = i + Suc m" by (metis add_Suc_shift le_Suc_ex Suc_eq_plus1)
    with that show ?thesis by (auto simp: less_Suc_eq_0_disj)
  qed
  with 1 show ?case by (auto split: if_splits)
qed auto

lemma wrr_scan_Inr:
  "length as = length ws \<Longrightarrow> length bs = length ws \<Longrightarrow> wrr_scan i as ws bs fw fn = Inr (fw', fn') \<Longrightarrow>
   (\<forall>j < length ws. \<not> (as ! j \<and> bs ! j > 0)) \<and>
   fw' = (if fw \<noteq> -1 then fw else case filter (\<lambda>j. as ! j \<and> ws ! j > 0) [0..<length ws] of [] \<Rightarrow> -1 | j # _ \<Rightarrow> int (i + j)) \<and>
   fn' = (if fn \<noteq> -1 then fn else case filter (\<lambda>j. as ! j \<and> ws ! j = 0) [0..<length ws] of [] \<Rightarrow> -1 | j # _ \<Rightarrow> int (i + j))"
proof (induction i as ws bs fw fn rule: wrr_scan.induct)
  case (1 i a as w ws b bs fw fn)
  have m: "filter (\<lambda>j. (a # as) ! j \<and> Q ((w # ws) ! j)) [0..<length (w # ws)] =
    (if a \<and> Q w then [0] else []) @ map Suc (filter (\<lambda>j. as ! j \<and> Q (ws ! j)) [0..<length ws])" for Q
    by (simp add: upt_conv_Cons filter_map comp_def flip: map_Suc_upt del: upt_Suc)
  have c: "(case map Suc xs of [] \<Rightarrow> -1 | j # _ \<Rightarrow> int (i + j)) = (case xs of [] \<Rightarrow> -1 | j # _ \<Rightarrow> int (i + 1 + j))" for xs
    by (cases xs) simp_all
  show ?case using 1
    by (simp only: m[of "\<lambda>w. w > 0"] m[of "\<lambda>w. w = 0"]) (auto simp: c All_less_Suc2 split: if_splits)
qed auto

definition wrr_ok :: "wrr \<Rightarrow> bool" where
  "wrr_ok s \<longleftrightarrow> length (wrr_buckets s) = length (wrr_weights s)"

lemma wrr_schedule_serves:
  assumes "wrr_ok s" "length avail = length (wrr_weights s)" "wrr_schedulePacket avail s = (k, s')"
  shows "wrr_ok s'" "wrr_weights s' = wrr_weights s"
    "k = -1 \<longleftrightarrow> True \<notin> set avail" "k \<noteq> -1 \<Longrightarrow> 0 \<le> k \<and> nat k < length avail \<and> avail ! nat k"
proof -
  let ?ws = "wrr_weights s" and ?bs = "wrr_buckets s"
  have ok: "length ?bs = length ?ws" using assms(1) by (simp add: wrr_ok_def)
  have "wrr_ok s' \<and> wrr_weights s' = wrr_weights s \<and> (k = -1 \<longleftrightarrow> True \<notin> set avail) \<and>
      (k \<noteq> -1 \<longrightarrow> 0 \<le> k \<and> nat k < length avail \<and> avail ! nat k)"
  proof (cases "wrr_scan 0 avail ?ws ?bs (-1) (-1)")
    case (Inl i)
    with wrr_scan_Inl[OF assms(2) ok Inl] assms show ?thesis
      by (auto simp: wrr_schedulePacket_def wrr_ok_def) (metis nth_mem)
  next
    case (Inr r)
    obtain fw fn where r: "r = (fw, fn)" by fastforce
    note i = wrr_scan_Inr[OF assms(2) ok Inr[unfolded r]]
    show ?thesis
    proof (cases "True \<in> set avail")
      case True
      then obtain j where j: "j < length ?ws" "avail ! j" using assms(2) by (metis in_set_conv_nth)
      have w: "(\<exists>m < length ?ws. fw = int m \<and> avail ! m) \<or> fw = -1 \<and> \<not> ?ws ! j > 0"
      proof (cases "filter (\<lambda>j. avail ! j \<and> ?ws ! j > 0) [0..<length ?ws]")
        case Nil
        then show ?thesis using i j by (auto simp: filter_empty_conv)
      next
        case (Cons m ms)
        then show ?thesis using i first_filter_upt[OF Cons] by auto
      qed
      have n: "(\<exists>m < length ?ws. fn = int m \<and> avail ! m) \<or> fn = -1 \<and> \<not> ?ws ! j = 0"
      proof (cases "filter (\<lambda>j. avail ! j \<and> ?ws ! j = 0) [0..<length ?ws]")
        case Nil
        then show ?thesis using i j by (auto simp: filter_empty_conv)
      next
        case (Cons m ms)
        then show ?thesis using i first_filter_upt[OF Cons] by auto
      qed
      from w n show ?thesis using True assms Inr r by (auto simp: wrr_schedulePacket_def wrr_ok_def)
    next
      case False
      then have "\<not> avail ! j" if "j < length ?ws" for j using that assms(2) by (metis nth_mem)
      then have "fw = -1" "fn = -1" using i by (simp_all add: filter_False)
      then show ?thesis using False assms Inr r by (simp add: wrr_schedulePacket_def)
    qed
  qed
  then show "wrr_ok s'" "wrr_weights s' = wrr_weights s" "k = -1 \<longleftrightarrow> True \<notin> set avail"
    "k \<noteq> -1 \<Longrightarrow> 0 \<le> k \<and> nat k < length avail \<and> avail ! nat k" by blast+
qed

section \<open>Shares\<close>

fun wrr_run :: "bool list list \<Rightarrow> wrr \<Rightarrow> int list \<times> wrr" where
  "wrr_run [] s = ([], s)"
| "wrr_run (avail # avails) s =
     (let (k, s) = wrr_schedulePacket avail s; (ks, s) = wrr_run avails s in (k # ks, s))"

text \<open>One round: every provider as often as its weight, in the order of the providers.\<close>

fun wrr_round :: "nat \<Rightarrow> nat list \<Rightarrow> int list" where
  "wrr_round i [] = []"
| "wrr_round i (w # ws) = replicate w (int i) @ wrr_round (i + 1) ws"

lemma length_wrr_round: "length (wrr_round i ws) = sum_list ws"
  by (induction i ws rule: wrr_round.induct) simp_all

lemma wrr_round_count: "count_list (wrr_round i ws) (int k) = (if i \<le> k \<and> k < i + length ws then ws ! (k - i) else 0)"
proof (induction i ws rule: wrr_round.induct)
  case (2 i w ws)
  have "count_list (replicate w (int i)) (int k) = (if k = i then w else 0)" by (induction w) auto
  then show ?case using 2 by (auto simp: nth_Cons')
qed simp

text \<open>When all providers have packets the next one is the first of what is left of the round.\<close>

lemma wrr_scan_round:
  "length bs = length ws \<Longrightarrow> 0 < sum_list bs \<Longrightarrow>
   \<exists>k. wrr_scan i (replicate (length ws) True) ws bs fw fn = Inl (i + k) \<and> k < length bs \<and> bs ! k > 0 \<and>
     wrr_round i bs = int (i + k) # wrr_round i (bs[k := bs ! k - 1])"
proof (induction ws arbitrary: i bs fw fn)
  case (Cons w ws)
  then obtain b cs where bs: "bs = b # cs" by (cases bs) auto
  show ?case
  proof (cases "b > 0")
    case True
    then have "replicate b (int i) = int i # replicate (b - 1) (int i)" by (cases b) simp_all
    with True bs show ?thesis by (intro exI[of _ 0]) simp
  next
    case False
    then have cs: "length cs = length ws" "0 < sum_list cs" using Cons.prems bs by simp_all
    obtain fw' fn' where e: "wrr_scan i (replicate (length (w # ws)) True) (w # ws) bs fw fn =
        wrr_scan (i + 1) (replicate (length ws) True) ws cs fw' fn'"
      using False bs by (cases "fw = -1 \<and> w > 0"; cases "fn = -1 \<and> w = 0") auto
    from Cons.IH[OF cs, of "i + 1" fw' fn'] obtain k where
      "wrr_scan (i + 1) (replicate (length ws) True) ws cs fw' fn' = Inl (i + 1 + k)" "k < length cs" "cs ! k > 0"
      "wrr_round (i + 1) cs = int (i + 1 + k) # wrr_round (i + 1) (cs[k := cs ! k - 1])" by blast
    with False bs e show ?thesis by (intro exI[of _ "Suc k"]) simp
  qed
qed simp

lemma sum_list_decrement: "k < length bs \<Longrightarrow> 0 < bs ! k \<Longrightarrow> sum_list (bs[k := bs ! k - 1]) = sum_list bs - (1 :: nat)"
  by (simp add: sum_list_update)

lemma wrr_run_round:
  "length bs = length ws \<Longrightarrow>
   wrr_run (replicate (sum_list bs) (replicate (length ws) True)) \<lparr>wrr_weights = ws, wrr_buckets = bs\<rparr> =
     (wrr_round 0 bs, \<lparr>wrr_weights = ws, wrr_buckets = replicate (length ws) 0\<rparr>)"
proof (induction "sum_list bs" arbitrary: bs)
  case 0
  then have "bs = replicate (length ws) 0" by (metis replicate_length_same sum_list_eq_0_iff)
  moreover have "wrr_round i (replicate n 0) = []" for i n by (induction n arbitrary: i) simp_all
  ultimately show ?case using 0 by (simp add: sum_list_replicate)
next
  case (Suc n)
  from wrr_scan_round[OF Suc.prems, of 0 "-1" "-1"] Suc.hyps(2) obtain k where
    k: "wrr_scan 0 (replicate (length ws) True) ws bs (-1) (-1) = Inl k" "k < length bs" "bs ! k > 0"
      "wrr_round 0 bs = int k # wrr_round 0 (bs[k := bs ! k - 1])" by auto
  have n: "n = sum_list (bs[k := bs ! k - 1])" using sum_list_decrement[OF k(2,3)] Suc.hyps(2) by simp
  from Suc.hyps(1)[OF n] Suc.prems n have
    "wrr_run (replicate n (replicate (length ws) True)) \<lparr>wrr_weights = ws, wrr_buckets = bs[k := bs ! k - 1]\<rparr> =
      (wrr_round 0 (bs[k := bs ! k - 1]), \<lparr>wrr_weights = ws, wrr_buckets = replicate (length ws) 0\<rparr>)" by simp
  with k show ?case by (simp add: Suc.hyps(2)[symmetric] wrr_schedulePacket_def)
qed

text \<open>Empty buckets are refilled: the next choice is the one from full buckets.\<close>

lemma wrr_refill:
  assumes "0 < sum_list ws"
  shows "wrr_schedulePacket (replicate (length ws) True) \<lparr>wrr_weights = ws, wrr_buckets = replicate (length ws) 0\<rparr> =
    wrr_schedulePacket (replicate (length ws) True) \<lparr>wrr_weights = ws, wrr_buckets = ws\<rparr>"
proof -
  let ?all = "replicate (length ws) True" and ?zero = "replicate (length ws) (0 :: nat)"
  from wrr_scan_round[OF refl assms, of 0 "-1" "-1"] obtain k where
    k: "wrr_scan 0 ?all ws ws (-1) (-1) = Inl k" "k < length ws" "ws ! k > 0" by auto
  have kmin: "\<forall>j < k. \<not> ws ! j > 0" using wrr_scan_Inl[OF _ _ k(1)] k(2) by auto
  obtain fw fn where z: "wrr_scan 0 ?all ws ?zero (-1) (-1) = Inr (fw, fn)"
  proof (cases "wrr_scan 0 ?all ws ?zero (-1) (-1)")
    case (Inl m)
    from wrr_scan_Inl[OF _ _ Inl] show ?thesis by auto
  next
    case (Inr r)
    then show ?thesis using that by (cases r) simp
  qed
  have "filter (\<lambda>j. ?all ! j \<and> ws ! j > 0) [0..<length ws] \<noteq> []" using k(2,3) by (auto simp: filter_empty_conv)
  then obtain m ms where m: "filter (\<lambda>j. ?all ! j \<and> ws ! j > 0) [0..<length ws] = m # ms" by (meson neq_Nil_conv)
  have "m = k" using first_filter_upt[OF m] k(2,3) kmin by (metis linorder_neqE_nat nth_replicate)
  with wrr_scan_Inr[OF _ _ z] m have "fw = int k" by simp
  with k z show ?thesis by (simp add: wrr_schedulePacket_def)
qed

lemma wrr_run_append:
  "wrr_run (xs @ ys) s = (let (ks, s') = wrr_run xs s; (ls, s'') = wrr_run ys s' in (ks @ ls, s''))"
  by (induction xs arbitrary: s) (simp_all add: Let_def split: prod.splits)

lemma wrr_shares_parts:
  assumes "wrr_initialize n ws = Some s" "0 < sum_list ws"
  shows "fst (wrr_run (replicate (r * sum_list ws) (replicate n True)) s) = concat (replicate r (wrr_round 0 ws))"
    and "i < n \<Longrightarrow> count_list (fst (wrr_run (replicate (r * sum_list ws) (replicate n True)) s)) (int i) = r * ws ! i"
    and "length avail = n \<Longrightarrow> wrr_schedulePacket avail s = (k, s') \<Longrightarrow>
      (if True \<in> set avail then 0 \<le> k \<and> nat k < n \<and> avail ! nat k else k = -1)"
proof -
  have s: "s = \<lparr>wrr_weights = ws, wrr_buckets = ws\<rparr>" "length ws = n"
    using assms(1) by (auto simp: wrr_initialize_def)
  let ?all = "replicate n True" and ?W = "sum_list ws"
  have round: "wrr_run (replicate ?W ?all) u = (wrr_round 0 ws, \<lparr>wrr_weights = ws, wrr_buckets = replicate n 0\<rparr>)"
    if "u = s \<or> u = \<lparr>wrr_weights = ws, wrr_buckets = replicate n 0\<rparr>" for u
  proof -
    have "wrr_schedulePacket ?all u = wrr_schedulePacket ?all s" using that wrr_refill[OF assms(2)] s by auto
    moreover have "replicate ?W ?all = ?all # replicate (?W - 1) ?all" using assms(2) by (cases ?W) simp_all
    ultimately have "wrr_run (replicate ?W ?all) u = wrr_run (replicate ?W ?all) s" by simp
    also have "\<dots> = (wrr_round 0 ws, \<lparr>wrr_weights = ws, wrr_buckets = replicate n 0\<rparr>)"
      using wrr_run_round[of ws ws] s by simp
    finally show ?thesis .
  qed
  have rounds: "fst (wrr_run (replicate (r * ?W) ?all) u) = concat (replicate r (wrr_round 0 ws))"
    if "u = s \<or> u = \<lparr>wrr_weights = ws, wrr_buckets = replicate n 0\<rparr>" for u
    using that
  proof (induction r arbitrary: u)
    case (Suc r)
    have "replicate (Suc r * ?W) ?all = replicate ?W ?all @ replicate (r * ?W) ?all" by (simp add: replicate_add)
    then show ?case
      using round[OF Suc.prems] Suc.IH[of "\<lparr>wrr_weights = ws, wrr_buckets = replicate n 0\<rparr>"]
      by (cases "wrr_run (replicate (r * ?W) ?all) \<lparr>wrr_weights = ws, wrr_buckets = replicate n 0\<rparr>")
        (simp add: wrr_run_append)
  qed simp
  then show r: "fst (wrr_run (replicate (r * ?W) ?all) s) = concat (replicate r (wrr_round 0 ws))" by blast
  have "count_list (concat (replicate m (wrr_round 0 ws))) (int i) = m * ws ! i" if "i < n" for m
    using that s(2) by (induction m) (simp_all add: wrr_round_count)
  then show "i < n \<Longrightarrow> count_list (fst (wrr_run (replicate (r * ?W) ?all) s)) (int i) = r * ws ! i" by (simp add: r)
  show "length avail = n \<Longrightarrow> wrr_schedulePacket avail s = (k, s') \<Longrightarrow>
      (if True \<in> set avail then 0 \<le> k \<and> nat k < n \<and> avail ! nat k else k = -1)"
    using wrr_schedule_serves[of s avail k s'] s by (auto simp: wrr_ok_def)
qed

text \<open>
  Weighted round robin gives every provider its weight: while all providers have packets, each round of as many
  packets as the sum of the weights serves the providers in order, provider \<open>i\<close> exactly \<open>w i\<close> times, and the rounds
  repeat; and whatever is available, a packet is taken from an available provider, and from none only when no
  provider has one.
\<close>

theorem wrr_shares:
  assumes "wrr_initialize n ws = Some s" "0 < sum_list ws"
  shows "(\<forall>r. let served = fst (wrr_run (replicate (r * sum_list ws) (replicate n True)) s) in
        served = concat (replicate r (wrr_round 0 ws)) \<and> (\<forall>i < n. count_list served (int i) = r * ws ! i)) \<and>
    (\<forall>avail k s'. length avail = n \<longrightarrow> wrr_schedulePacket avail s = (k, s') \<longrightarrow>
      (if True \<in> set avail then 0 \<le> k \<and> nat k < n \<and> avail ! nat k else k = -1))"
  using wrr_shares_parts[OF assms] unfolding Let_def by blast

theorem wrr_shares_witness:
  "fst (wrr_run (replicate (5 * 3) (replicate 2 True)) \<lparr>wrr_weights = [2, 1], wrr_buckets = [2, 1]\<rparr>) =
   concat (replicate 5 [0, 0, 1])"
proof -
  let ?s = "\<lparr>wrr_weights = [2, 1], wrr_buckets = [2, 1]\<rparr> :: wrr"
  have i: "wrr_initialize 2 [2, 1] = Some ?s" by (simp add: wrr_initialize_def)
  show ?thesis using wrr_shares[OF i, THEN conjunct1, THEN spec, of 5] by (simp add: Let_def All_less_Suc numeral_2_eq_2)
qed

text \<open>
  The classifier is not work-conserving: when only consumers of weight zero accept a packet it finds none, and the
  base class throws.
\<close>

lemma wrr_classifier_refuses:
  assumes "length accept = length (wrr_weights s)" "\<forall>i < length accept. accept ! i \<longrightarrow> wrr_weights s ! i = 0"
    and "wrr_buckets s = wrr_weights s"
  shows "fst (wrr_classifyPacket accept s) = -1"
proof -
  have "filter (\<lambda>i. accept ! i \<and> wrr_buckets s ! i > 0) [0..<length accept] = []"
    "filter (\<lambda>i. wrr_weights s ! i > 0 \<and> accept ! i) [0..<length accept] = []"
    using assms by (auto simp: filter_empty_conv)
  then show ?thesis by (simp add: wrr_classifyPacket_def)
qed

section \<open>The other choices\<close>

lemma markov_scan_in_range:
  "ps \<noteq> [] \<Longrightarrow> i \<le> markov_scan v acc i ps state \<and> markov_scan v acc i ps state < i + length ps"
proof (induction v acc i ps state rule: markov_scan.induct)
  case (2 v acc i p ps state)
  then show ?case by (cases "acc + p \<ge> v \<or> ps = []") auto
qed simp

text \<open>A Markov chain stays within its states.\<close>

lemma markov_next_in_range:
  "state < length P \<Longrightarrow> (\<forall>row \<in> set P. length row = length P) \<Longrightarrow> markov_next P v state < length P"
  using markov_scan_in_range[of "P ! state" 0 v 0 state] by (force simp: markov_next_def)

end

