(* ===== verification/Clock.thy ===== *)
theory Clock
  imports Prelude "HOL-Library.Signed_Division"
begin

text \<open>
  Clocks and oscillators (src/inet/src/inet/clock/): the ideal and the drifting oscillator, the oscillator based
  clock with its events, and the settable clock.

  Times are raw ticks (integers; the 64-bit range is not modelled). Rates are real numbers: the rounding of
  \<open>double\<close> is not modelled, the conversions to integers are: \<open>trunc\<close> is the cast to \<open>int64_t\<close>, and the
  conversion of a \<open>double\<close> number of ticks to a \<open>SimTime\<close>, which the simulator does, is the parameter \<open>conv\<close>.
\<close>

section \<open>Oscillators\<close>

definition trunc :: "real \<Rightarrow> int" where
  "trunc x = (if x < 0 then \<lceil>x\<rceil> else \<lfloor>x\<rfloor>)"

record ideal_oscillator =
  io_origin :: simtime
  io_tickLength :: int

definition ideal_computeTicksForInterval :: "ideal_oscillator \<Rightarrow> simtime \<Rightarrow> int option" where
  "ideal_computeTicksForInterval osc timeInterval = Some (timeInterval sdiv io_tickLength osc)"

definition ideal_computeIntervalForTicks :: "ideal_oscillator \<Rightarrow> int \<Rightarrow> simtime" where
  "ideal_computeIntervalForTicks osc numTicks = io_tickLength osc * numTicks"

record oscillator =
  os_nominalTickLength :: int
  os_driftRate :: real
  os_inverseDriftRate :: real
  os_origin :: simtime
  os_nextTickFromOrigin :: int

definition invertDriftRate :: "real \<Rightarrow> real" where
  "invertDriftRate driftRate = 1 / (1 + driftRate) - 1"

definition increaseWithDriftRate :: "int \<Rightarrow> real \<Rightarrow> int" where
  "increaseWithDriftRate v driftRate = v + trunc (of_int v * driftRate)"

definition decreaseWithDriftRate :: "int \<Rightarrow> real \<Rightarrow> int" where
  "decreaseWithDriftRate v inverseDriftRate = v + trunc (of_int v * inverseDriftRate)"

definition getCurrentTickLength :: "oscillator \<Rightarrow> real" where
  "getCurrentTickLength osc = of_int (os_nominalTickLength osc) + of_int (os_nominalTickLength osc) * os_inverseDriftRate osc"

definition computeTicksForInterval :: "oscillator \<Rightarrow> simtime \<Rightarrow> int option" where
  "computeTicksForInterval osc timeInterval =
     do { ensure (timeInterval \<ge> 0);
          Some (increaseWithDriftRate (timeInterval + os_nextTickFromOrigin osc) (os_driftRate osc) sdiv os_nominalTickLength osc) }"

definition computeIntervalForTicks :: "oscillator \<Rightarrow> int \<Rightarrow> simtime" where
  "computeIntervalForTicks osc numTicks =
     (if numTicks = 0 then 0
      else if os_nextTickFromOrigin osc = 0
      then decreaseWithDriftRate (os_nominalTickLength osc * numTicks) (os_inverseDriftRate osc)
      else decreaseWithDriftRate (os_nominalTickLength osc * (numTicks - 1)) (os_inverseDriftRate osc) + os_nextTickFromOrigin osc)"

text \<open>Initialization, and the two changes of state; the signals around them are handled by the clock below.\<close>

definition oscillator_initialize :: "(real \<Rightarrow> int) \<Rightarrow> simtime \<Rightarrow> int \<Rightarrow> real \<Rightarrow> int \<Rightarrow> oscillator option" where
  "oscillator_initialize conv now nominal drift tickOffset =
     (let osc = \<lparr>os_nominalTickLength = (if nominal = 0 then 1 else nominal), os_driftRate = drift,
                os_inverseDriftRate = invertDriftRate drift, os_origin = now, os_nextTickFromOrigin = 0\<rparr>;
          currentTickLength = conv (getCurrentTickLength osc)
      in do {
        ensure (\<not> (tickOffset < 0 \<or> tickOffset \<ge> currentTickLength));
        Some (osc\<lparr>os_nextTickFromOrigin := (if tickOffset = 0 then 0 else currentTickLength - tickOffset)\<rparr>)
      })"

definition elapsed_in_tick :: "(real \<Rightarrow> int) \<Rightarrow> simtime \<Rightarrow> oscillator \<Rightarrow> int" where
  "elapsed_in_tick conv now osc =
     (let currentTickLength = conv (getCurrentTickLength osc);
          baseTickTime = os_origin osc + os_nextTickFromOrigin osc - currentTickLength
      in (now - baseTickTime) smod currentTickLength)"

definition setDriftRate :: "(real \<Rightarrow> int) \<Rightarrow> simtime \<Rightarrow> real \<Rightarrow> oscillator \<Rightarrow> oscillator" where
  "setDriftRate conv now newDriftRate osc =
     (if newDriftRate \<noteq> os_driftRate osc then
        (let elapsed = elapsed_in_tick conv now osc; newInverse = invertDriftRate newDriftRate
         in osc\<lparr>os_nextTickFromOrigin := (if elapsed = 0 then 0
                else decreaseWithDriftRate
                       (increaseWithDriftRate (conv (getCurrentTickLength osc) - elapsed) (os_driftRate osc)) newInverse),
              os_driftRate := newDriftRate, os_inverseDriftRate := newInverse, os_origin := now\<rparr>)
      else osc)"

definition setTickOffset :: "(real \<Rightarrow> int) \<Rightarrow> simtime \<Rightarrow> int \<Rightarrow> oscillator \<Rightarrow> oscillator" where
  "setTickOffset conv now newTickOffset osc =
     (if newTickOffset \<noteq> elapsed_in_tick conv now osc
      then osc\<lparr>os_origin := now, os_nextTickFromOrigin :=
             (if newTickOffset = 0 then 0 else conv (getCurrentTickLength osc) - newTickOffset)\<rparr>
      else osc)"

text \<open>The random walk of \<open>RandomDriftOscillator\<close>: the total change stays within its limits.\<close>

definition random_drift_total :: "real \<Rightarrow> real \<Rightarrow> real \<Rightarrow> real \<Rightarrow> real" where
  "random_drift_total lower upper change so_far = min (max (so_far + change) lower) upper"

section \<open>Rounding\<close>

definition roundUp :: "int \<Rightarrow> int \<Rightarrow> int" where
  "roundUp t l = (t + l - 1) sdiv l * l"

definition roundDown :: "int \<Rightarrow> int \<Rightarrow> int" where
  "roundDown t l = (t sdiv l) * l"

definition roundCloser :: "int \<Rightarrow> int \<Rightarrow> int" where
  "roundCloser t l = (t + l sdiv 2) sdiv l * l"

definition roundNone :: "int \<Rightarrow> int \<Rightarrow> int option" where
  "roundNone t l = (if t smod l \<noteq> 0 then None else Some (t sdiv l))"

datatype rounding = RoundUp | RoundDown | RoundCloser | RoundNone

fun roundingFunction :: "rounding \<Rightarrow> int \<Rightarrow> int \<Rightarrow> int option" where
  "roundingFunction RoundUp t l = Some (roundUp t l)"
| "roundingFunction RoundDown t l = Some (roundDown t l)"
| "roundingFunction RoundCloser t l = Some (roundCloser t l)"
| "roundingFunction RoundNone t l = roundNone t l"

section \<open>Clocks\<close>

text \<open>The interface \<open>IOscillator\<close>: what a clock calls of its oscillator.\<close>

record 'o ioscillator =
  io_getComputationOrigin :: "'o \<Rightarrow> simtime"
  io_getNominalTickLength :: "'o \<Rightarrow> int"
  io_ticks :: "'o \<Rightarrow> simtime \<Rightarrow> int option"
  io_interval :: "'o \<Rightarrow> int \<Rightarrow> simtime"

definition ideal_ops :: "ideal_oscillator ioscillator" where
  "ideal_ops = \<lparr>io_getComputationOrigin = io_origin, io_getNominalTickLength = io_tickLength,
     io_ticks = ideal_computeTicksForInterval, io_interval = ideal_computeIntervalForTicks\<rparr>"

definition drifting_ops :: "oscillator ioscillator" where
  "drifting_ops = \<lparr>io_getComputationOrigin = os_origin, io_getNominalTickLength = os_nominalTickLength,
     io_ticks = computeTicksForInterval, io_interval = computeIntervalForTicks\<rparr>"

datatype overdue_mode = UNSPECIFIED | EXECUTE | SKIP | ERROR

text \<open>An event of a clock: \<open>ce_arrivalSim\<close> is the time for which the simulator has it.\<close>

record clock_event =
  ce_id :: nat
  ce_relative :: bool
  ce_arrivalClock :: clocktime
  ce_arrivalSim :: simtime
  ce_mode :: overdue_mode

record 'o oclock =
  oc_oscillator :: 'o
  oc_rounding :: rounding
  oc_originSimulationTime :: simtime
  oc_originClockTime :: clocktime
  oc_clockEventTime :: clocktime
  oc_compensation :: real
  oc_events :: "clock_event list"
  oc_defaultMode :: overdue_mode

definition computeClockTimeFromSimTime ::
  "(real \<Rightarrow> int) \<Rightarrow> 'o ioscillator \<Rightarrow> simtime \<Rightarrow> simtime \<Rightarrow> 'o oclock \<Rightarrow> clocktime option" where
  "computeClockTimeFromSimTime conv ops now t c =
     do {
       ensure (t \<ge> now);
       let osc = oc_oscillator c;
       a \<leftarrow> io_ticks ops osc (t - io_getComputationOrigin ops osc);
       b \<leftarrow> io_ticks ops osc (oc_originSimulationTime c - io_getComputationOrigin ops osc);
       Some (oc_originClockTime c + conv (of_int ((a - b) * io_getNominalTickLength ops osc) * (1 + oc_compensation c)))
     }"

definition getClockTime :: "(real \<Rightarrow> int) \<Rightarrow> 'o ioscillator \<Rightarrow> simtime \<Rightarrow> 'o oclock \<Rightarrow> clocktime option" where
  "getClockTime conv ops now c =
     (if oc_clockEventTime c \<noteq> -1 then Some (oc_clockEventTime c) else computeClockTimeFromSimTime conv ops now now c)"

definition computeSimTimeFromClockTime ::
  "(real \<Rightarrow> int) \<Rightarrow> 'o ioscillator \<Rightarrow> simtime \<Rightarrow> clocktime \<Rightarrow> 'o oclock \<Rightarrow> simtime option" where
  "computeSimTimeFromClockTime conv ops now t c =
     do {
       n \<leftarrow> getClockTime conv ops now c;
       ensure (t \<ge> n);
       let osc = oc_oscillator c;
       b \<leftarrow> io_ticks ops osc (oc_originSimulationTime c - io_getComputationOrigin ops osc);
       Some (io_getComputationOrigin ops osc +
         io_interval ops osc (trunc (of_int (t - oc_originClockTime c) / of_int (io_getNominalTickLength ops osc)
                                     / (1 + oc_compensation c) + of_int b)))
     }"

text \<open>Scheduling into the past is an error of the simulator.\<close>

definition scheduleClockEventAt ::
  "(real \<Rightarrow> int) \<Rightarrow> 'o ioscillator \<Rightarrow> simtime \<Rightarrow> clocktime \<Rightarrow> clock_event \<Rightarrow> 'o oclock \<Rightarrow> 'o oclock option" where
  "scheduleClockEventAt conv ops now t e c =
     do {
       t \<leftarrow> roundingFunction (oc_rounding c) t (io_getNominalTickLength ops (oc_oscillator c));
       n \<leftarrow> getClockTime conv ops now c;
       ensure (\<not> t < n);
       s \<leftarrow> computeSimTimeFromClockTime conv ops now t c;
       ensure (s \<ge> now);
       Some (c\<lparr>oc_events := oc_events c @ [e\<lparr>ce_relative := False, ce_arrivalClock := t, ce_arrivalSim := s\<rparr>]\<rparr>)
     }"

definition scheduleClockEventAfter ::
  "(real \<Rightarrow> int) \<Rightarrow> 'o ioscillator \<Rightarrow> simtime \<Rightarrow> clocktime \<Rightarrow> clock_event \<Rightarrow> 'o oclock \<Rightarrow> 'o oclock option" where
  "scheduleClockEventAfter conv ops now delay e c =
     do {
       delay \<leftarrow> roundingFunction (oc_rounding c) delay (io_getNominalTickLength ops (oc_oscillator c));
       ensure (\<not> delay < 0);
       n \<leftarrow> getClockTime conv ops now c;
       let t = n + delay;
       s \<leftarrow> (if delay = 0 then Some now else computeSimTimeFromClockTime conv ops now t c);
       ensure (s \<ge> now);
       Some (c\<lparr>oc_events := oc_events c @ [e\<lparr>ce_relative := True, ce_arrivalClock := t, ce_arrivalSim := s\<rparr>]\<rparr>)
     }"

definition cancelClockEvent :: "nat \<Rightarrow> 'o oclock \<Rightarrow> 'o oclock" where
  "cancelClockEvent i c = c\<lparr>oc_events := filter (\<lambda>e. ce_id e \<noteq> i) (oc_events c)\<rparr>"

text \<open>While an event is handled the clock shows its arrival time; \<open>body\<close> is what the module does.\<close>

definition handleClockEvent :: "('o oclock \<Rightarrow> 'o oclock option) \<Rightarrow> clock_event \<Rightarrow> 'o oclock \<Rightarrow> 'o oclock option" where
  "handleClockEvent body e c =
     do {
       c \<leftarrow> body ((cancelClockEvent (ce_id e) c)\<lparr>oc_clockEventTime := ce_arrivalClock e\<rparr>);
       Some (c\<lparr>oc_clockEventTime := -1\<rparr>)
     }"

text \<open>\<open>receiveSignal\<close> before and after a change of the oscillator; all events are rescheduled the same way.\<close>

definition preOscillatorStateChanged :: "(real \<Rightarrow> int) \<Rightarrow> 'o ioscillator \<Rightarrow> simtime \<Rightarrow> 'o oclock \<Rightarrow> 'o oclock option" where
  "preOscillatorStateChanged conv ops now c =
     do { n \<leftarrow> getClockTime conv ops now c; Some (c\<lparr>oc_originClockTime := n, oc_originSimulationTime := now\<rparr>) }"

fun reschedule_all :: "(clock_event \<Rightarrow> simtime option) \<Rightarrow> simtime \<Rightarrow> clock_event list \<Rightarrow> clock_event list option" where
  "reschedule_all arrival now [] = Some []"
| "reschedule_all arrival now (e # es) =
     do { s \<leftarrow> arrival e; ensure (s \<ge> now); es \<leftarrow> reschedule_all arrival now es; Some (e\<lparr>ce_arrivalSim := s\<rparr> # es) }"

definition postOscillatorStateChanged :: "(real \<Rightarrow> int) \<Rightarrow> 'o ioscillator \<Rightarrow> simtime \<Rightarrow> 'o oclock \<Rightarrow> 'o oclock option" where
  "postOscillatorStateChanged conv ops now c =
     do {
       es \<leftarrow> reschedule_all (\<lambda>e. computeSimTimeFromClockTime conv ops now (ce_arrivalClock e) c) now (oc_events c);
       Some (c\<lparr>oc_events := es\<rparr>)
     }"

definition change_oscillator ::
  "(real \<Rightarrow> int) \<Rightarrow> 'o ioscillator \<Rightarrow> simtime \<Rightarrow> ('o \<Rightarrow> 'o) \<Rightarrow> 'o oclock \<Rightarrow> 'o oclock option" where
  "change_oscillator conv ops now f c =
     do {
       c \<leftarrow> preOscillatorStateChanged conv ops now c;
       postOscillatorStateChanged conv ops now (c\<lparr>oc_oscillator := f (oc_oscillator c)\<rparr>)
     }"

section \<open>Settable clocks\<close>

text \<open>
  \<open>None\<close> for an overdue event: \<open>ERROR\<close> throws, and \<open>SKIP\<close> erases the event from the vector the loop iterates
  over, which is undefined.
\<close>

definition handleOverdueClockEvent :: "overdue_mode \<Rightarrow> clock_event \<Rightarrow> simtime \<Rightarrow> simtime option" where
  "handleOverdueClockEvent defaultMode e t =
     (let mode = (if ce_mode e = UNSPECIFIED then defaultMode else ce_mode e)
      in if mode = EXECUTE then Some t else None)"

definition settle_event ::
  "(real \<Rightarrow> int) \<Rightarrow> 'o ioscillator \<Rightarrow> simtime \<Rightarrow> clocktime \<Rightarrow> clocktime \<Rightarrow> 'o oclock \<Rightarrow> clock_event \<Rightarrow> clock_event option" where
  "settle_event conv ops now newClockTime clockDelta c e =
     (if ce_relative e then Some (e\<lparr>ce_arrivalClock := ce_arrivalClock e + clockDelta\<rparr>)
      else do {
        s \<leftarrow> (if ce_arrivalClock e < newClockTime then Some (-1)
              else computeSimTimeFromClockTime conv ops now (ce_arrivalClock e) c);
        s \<leftarrow> (if ce_arrivalClock e < newClockTime \<or> s < now then handleOverdueClockEvent (oc_defaultMode c) e now else Some s);
        Some (e\<lparr>ce_arrivalSim := s\<rparr>)
      })"

text \<open>\<open>reset\<close> is the reset of the tick offset, which changes the oscillator and so comes back to the clock.\<close>

definition setClockTime ::
  "(real \<Rightarrow> int) \<Rightarrow> 'o ioscillator \<Rightarrow> ('o oclock \<Rightarrow> 'o oclock option) \<Rightarrow> simtime \<Rightarrow> clocktime \<Rightarrow> real \<Rightarrow> 'o oclock \<Rightarrow> 'o oclock option" where
  "setClockTime conv ops reset now newClockTime compensation c =
     do {
       oldClockTime \<leftarrow> getClockTime conv ops now c;
       (if newClockTime \<noteq> oldClockTime then
          do {
            c \<leftarrow> reset c;
            let c = c\<lparr>oc_originSimulationTime := now, oc_originClockTime := newClockTime, oc_compensation := compensation\<rparr>;
            n \<leftarrow> getClockTime conv ops now c;
            ensure (newClockTime = n);
            es \<leftarrow> those (map (settle_event conv ops now newClockTime (newClockTime - oldClockTime) c) (oc_events c));
            Some (c\<lparr>oc_events := es\<rparr>)
          }
        else Some c)
     }"

definition reset_tick_offset :: "(real \<Rightarrow> int) \<Rightarrow> bool \<Rightarrow> simtime \<Rightarrow> oscillator oclock \<Rightarrow> oscillator oclock option" where
  "reset_tick_offset conv resetOscillator now c =
     (if resetOscillator \<and> elapsed_in_tick conv now (oc_oscillator c) \<noteq> 0
      then change_oscillator conv drifting_ops now (setTickOffset conv now 0) c
      else Some c)"

section \<open>The contract of an oscillator\<close>

lemma trunc_of_int [simp]: "trunc (of_int n) = n"
  by (simp add: trunc_def)

lemma sdiv_nonneg: "0 \<le> a \<Longrightarrow> 0 < b \<Longrightarrow> a sdiv b = a div (b :: int)"
  by (simp add: signed_divide_int_def sgn_if)

text \<open>A clock between events and changes, without compensation; \<open>valid\<close> is what its oscillator satisfies.\<close>

definition clock_ok :: "'o ioscillator \<Rightarrow> ('o \<Rightarrow> bool) \<Rightarrow> simtime \<Rightarrow> 'o oclock \<Rightarrow> bool" where
  "clock_ok ops valid now c \<longleftrightarrow> valid (oc_oscillator c) \<and> oc_compensation c = 0 \<and> oc_clockEventTime c = -1 \<and>
     io_getComputationOrigin ops (oc_oscillator c) \<le> oc_originSimulationTime c \<and> oc_originSimulationTime c \<le> now"

locale oscillator_contract =
  fixes ops :: "'o ioscillator" and valid :: "'o \<Rightarrow> bool"
  assumes nominal: "valid osc \<Longrightarrow> 0 < io_getNominalTickLength ops osc"
    and interval: "valid osc \<Longrightarrow> 0 \<le> n \<Longrightarrow> 0 \<le> io_interval ops osc n \<and> io_ticks ops osc (io_interval ops osc n) = Some n"
    and ticks: "valid osc \<Longrightarrow> 0 \<le> x \<Longrightarrow> x \<le> y \<Longrightarrow>
      \<exists>a b. io_ticks ops osc x = Some a \<and> io_ticks ops osc y = Some b \<and> 0 \<le> a \<and> a \<le> b"
begin

lemma clock_reads:
  assumes "clock_ok ops valid now c" "now \<le> t" and conv: "\<And>k :: int. conv (of_int k) = k"
  shows "\<exists>a b. io_ticks ops (oc_oscillator c) (t - io_getComputationOrigin ops (oc_oscillator c)) = Some a \<and>
    io_ticks ops (oc_oscillator c) (oc_originSimulationTime c - io_getComputationOrigin ops (oc_oscillator c)) = Some b \<and>
    0 \<le> b \<and> b \<le> a \<and>
    computeClockTimeFromSimTime conv ops now t c =
      Some (oc_originClockTime c + (a - b) * io_getNominalTickLength ops (oc_oscillator c))"
proof -
  let ?o = "io_getComputationOrigin ops (oc_oscillator c)"
  have "0 \<le> oc_originSimulationTime c - ?o" "oc_originSimulationTime c - ?o \<le> t - ?o"
    using assms(1,2) by (simp_all add: clock_ok_def)
  with ticks[of "oc_oscillator c"] assms(1) obtain a b where
    "io_ticks ops (oc_oscillator c) (oc_originSimulationTime c - ?o) = Some b"
    "io_ticks ops (oc_oscillator c) (t - ?o) = Some a" "0 \<le> b" "b \<le> a" unfolding clock_ok_def by blast
  moreover have "conv (of_int ((a - b) * io_getNominalTickLength ops (oc_oscillator c)) * (1 + oc_compensation c)) =
      (a - b) * io_getNominalTickLength ops (oc_oscillator c)"
    using conv[of "(a - b) * io_getNominalTickLength ops (oc_oscillator c)"] assms(1) by (simp add: clock_ok_def)
  ultimately show ?thesis using assms(2) by (simp add: computeClockTimeFromSimTime_def)
qed

text \<open>Clocks do not run backwards.\<close>

lemma clock_monotone:
  assumes "clock_ok ops valid now c" "now \<le> t" "t \<le> u" and conv: "\<And>k :: int. conv (of_int k) = k"
  shows "\<exists>m n. computeClockTimeFromSimTime conv ops now t c = Some m \<and> computeClockTimeFromSimTime conv ops now u c = Some n \<and>
    oc_originClockTime c \<le> m \<and> m \<le> n"
proof -
  let ?o = "io_getComputationOrigin ops (oc_oscillator c)" and ?L = "io_getNominalTickLength ops (oc_oscillator c)"
  have v: "valid (oc_oscillator c)" and L: "0 < ?L" using assms(1) nominal by (simp_all add: clock_ok_def)
  from clock_reads[where conv = conv, OF assms(1,2) conv] obtain a b where
    r: "io_ticks ops (oc_oscillator c) (t - ?o) = Some a" "b \<le> a"
      "io_ticks ops (oc_oscillator c) (oc_originSimulationTime c - ?o) = Some b"
      "computeClockTimeFromSimTime conv ops now t c = Some (oc_originClockTime c + (a - b) * ?L)" by blast
  from clock_reads[where conv = conv, OF assms(1) _ conv, of u] assms(2,3) r(3) obtain a' where
    r': "io_ticks ops (oc_oscillator c) (u - ?o) = Some a'"
      "computeClockTimeFromSimTime conv ops now u c = Some (oc_originClockTime c + (a' - b) * ?L)" by fastforce
  have "0 \<le> t - ?o" "t - ?o \<le> u - ?o" using assms(1-3) by (simp_all add: clock_ok_def)
  from ticks[OF v this] r(1) r'(1) have "a \<le> a'" by auto
  then have "(a - b) * ?L \<le> (a' - b) * ?L" using L by (simp add: mult_right_mono)
  moreover have "0 \<le> (a - b) * ?L" using r(2) L by simp
  ultimately show ?thesis using r(4) r'(2) by simp
qed

text \<open>
  The simulation time computed for a later clock time on a tick is in the future, and the clock shows that time
  then.
\<close>

lemma clock_time_reached:
  assumes "clock_ok ops valid now c" and conv: "\<And>k :: int. conv (of_int k) = k"
    and "computeClockTimeFromSimTime conv ops now now c = Some n" "n < t"
    and "t = oc_originClockTime c + k * io_getNominalTickLength ops (oc_oscillator c)"
  shows "\<exists>s. computeSimTimeFromClockTime conv ops now t c = Some s \<and> now < s \<and>
    computeClockTimeFromSimTime conv ops now s c = Some t"
proof -
  let ?osc = "oc_oscillator c"
  let ?o = "io_getComputationOrigin ops ?osc" and ?L = "io_getNominalTickLength ops ?osc"
  have v: "valid ?osc" and L: "0 < ?L" and e: "oc_clockEventTime c = -1" and comp: "oc_compensation c = 0"
    using assms(1) nominal by (simp_all add: clock_ok_def)
  from clock_reads[where conv = conv, OF assms(1) order_refl conv] obtain a b where
    r: "io_ticks ops ?osc (now - ?o) = Some a" "io_ticks ops ?osc (oc_originSimulationTime c - ?o) = Some b" "0 \<le> b" "b \<le> a"
      "computeClockTimeFromSimTime conv ops now now c = Some (oc_originClockTime c + (a - b) * ?L)" by blast
  have n: "n = oc_originClockTime c + (a - b) * ?L" using r(5) assms(3) by simp
  have k: "a - b < k" using assms(4,5) n L by (simp add: mult_less_cancel_right)
  then have m: "0 \<le> k + b" using r(3,4) by simp
  define s where "s = ?o + io_interval ops ?osc (k + b)"
  have i: "0 \<le> io_interval ops ?osc (k + b)" "io_ticks ops ?osc (s - ?o) = Some (k + b)"
    using interval[OF v m] by (simp_all add: s_def)
  have "of_int (t - oc_originClockTime c) / of_int ?L / (1 + oc_compensation c) + of_int b = (of_int (k + b) :: real)"
    using assms(5) comp L by simp
  then have "trunc (of_int (t - oc_originClockTime c) / of_int ?L / (1 + oc_compensation c) + of_int b) = k + b"
    by (metis trunc_of_int)
  then have sim: "computeSimTimeFromClockTime conv ops now t c = Some s"
    using assms(3,4) e r(2) by (simp add: computeSimTimeFromClockTime_def getClockTime_def s_def Let_def)
  have now: "now < s"
  proof (rule ccontr)
    assume "\<not> now < s"
    then have "s - ?o \<le> now - ?o" by simp
    moreover have "0 \<le> s - ?o" using i(1) by (simp add: s_def)
    ultimately have "k + b \<le> a" using ticks[OF v, of "s - ?o" "now - ?o"] i(2) r(1) by auto
    with k show False by simp
  qed
  moreover have "computeClockTimeFromSimTime conv ops now s c = Some t"
    using clock_reads[where conv = conv, OF assms(1) _ conv, of s] now i(2) r(2) assms(5) by auto
  ultimately show ?thesis using sim by blast
qed

end

section \<open>The oscillators have the contract\<close>

interpretation ideal: oscillator_contract ideal_ops "\<lambda>osc. 0 < io_tickLength osc"
  by unfold_locales (auto simp: ideal_ops_def ideal_computeTicksForInterval_def ideal_computeIntervalForTicks_def
      sdiv_nonneg zdiv_mono1 pos_imp_zdiv_nonneg_iff)

text \<open>
  A drifting oscillator that ticks at its computation origin: positive tick length, a drift rate above -100% and, if
  it runs fast, at most twice as fast with a nominal tick of at least two raw ticks.
\<close>

definition steady :: "oscillator \<Rightarrow> bool" where
  "steady osc \<longleftrightarrow> os_nextTickFromOrigin osc = 0 \<and> -1 < os_driftRate osc \<and>
     os_inverseDriftRate osc = invertDriftRate (os_driftRate osc) \<and> 0 < os_nominalTickLength osc \<and>
     (os_driftRate osc \<le> 0 \<or> os_driftRate osc \<le> 1 \<and> 2 \<le> os_nominalTickLength osc)"

lemma increase_rounds:
  "0 \<le> x \<Longrightarrow> increaseWithDriftRate x d = (if d < 0 then \<lceil>of_int x * (1 + d)\<rceil> else \<lfloor>of_int x * (1 + d)\<rfloor>)"
proof -
  assume x: "0 \<le> x"
  have "of_int x * (1 + d) = of_int x * d + of_int x" by (simp add: algebra_simps)
  moreover have "of_int x * d < 0 \<longleftrightarrow> 0 < x \<and> d < 0" using x by (auto simp: mult_less_0_iff)
  ultimately show ?thesis using x by (cases "x = 0") (auto simp: increaseWithDriftRate_def trunc_def)
qed

lemma increase_mono:
  assumes "0 \<le> x" "x \<le> y" "-1 < d"
  shows "0 \<le> increaseWithDriftRate x d \<and> increaseWithDriftRate x d \<le> increaseWithDriftRate y d"
proof -
  have "of_int x * (1 + d) \<le> of_int y * (1 + d)" "0 \<le> of_int x * (1 + d)"
    using assms by (simp_all add: mult_right_mono)
  moreover from this have "-1 < of_int x * (1 + d)" by linarith
  ultimately show ?thesis using assms by (auto simp: increase_rounds ceiling_mono floor_mono)
qed

lemma decrease_rounds:
  assumes "0 < v" "-1 < d"
  shows "decreaseWithDriftRate v (invertDriftRate d) = (if 0 < d then \<lceil>of_int v / (1 + d)\<rceil> else \<lfloor>of_int v / (1 + d)\<rfloor>)"
proof -
  have e: "of_int v / (1 + d) = of_int v * invertDriftRate d + of_int v"
    using assms by (simp add: invertDriftRate_def field_simps)
  have "invertDriftRate d < 0 \<longleftrightarrow> 0 < d" using assms(2) by (auto simp: invertDriftRate_def field_simps)
  then have "of_int v * invertDriftRate d < 0 \<longleftrightarrow> 0 < d" using assms(1) by (simp add: mult_less_0_iff)
  then show ?thesis unfolding e by (simp add: decreaseWithDriftRate_def trunc_def)
qed

text \<open>Shrinking and growing an interval by the drift loses less than a tick.\<close>

lemma decrease_increase:
  assumes "0 < v" "-1 < d" "d \<le> 1"
  shows "0 \<le> decreaseWithDriftRate v (invertDriftRate d)"
    and "v \<le> increaseWithDriftRate (decreaseWithDriftRate v (invertDriftRate d)) d"
    and "increaseWithDriftRate (decreaseWithDriftRate v (invertDriftRate d)) d \<le> (if 0 < d then v + 1 else v)"
proof -
  let ?w = "decreaseWithDriftRate v (invertDriftRate d)"
  have r: "0 < of_int v / (1 + d)" using assms by simp
  have vd: "of_int v / (1 + d) * (1 + d) = of_int v" using assms by simp
  show w: "0 \<le> ?w" using r by (simp add: decrease_rounds[OF assms(1,2)] le_of_int_ceiling order_less_imp_le)
  show "v \<le> increaseWithDriftRate ?w d" "increaseWithDriftRate ?w d \<le> (if 0 < d then v + 1 else v)"
  proof -
    consider "0 < d" | "d \<le> 0" by linarith
    then have "v \<le> increaseWithDriftRate ?w d \<and> increaseWithDriftRate ?w d \<le> (if 0 < d then v + 1 else v)"
    proof cases
      case 1
      then have "of_int v / (1 + d) \<le> of_int ?w" "of_int ?w < of_int v / (1 + d) + 1"
        by (simp_all add: decrease_rounds[OF assms(1,2)]) (use ceiling_correct[of "of_int v / (1 + d)"] in linarith)
      then have "of_int v \<le> of_int ?w * (1 + d)" "of_int ?w * (1 + d) < of_int v + (1 + d)"
        using assms(2) vd mult_right_mono[of "of_int v / (1 + d)" "of_int ?w" "1 + d"]
          mult_strict_right_mono[of "of_int ?w" "of_int v / (1 + d) + 1" "1 + d"] by (simp_all add: distrib_right)
      then show ?thesis using 1 assms(3) w by (simp add: increase_rounds le_floor_iff floor_le_iff)
    next
      case 2
      then have "of_int ?w \<le> of_int v / (1 + d)" "of_int v / (1 + d) - 1 < of_int ?w"
        by (simp_all add: decrease_rounds[OF assms(1,2)])
      then have "of_int ?w * (1 + d) \<le> of_int v" "of_int v - (1 + d) < of_int ?w * (1 + d)"
        using assms(2) vd mult_right_mono[of "of_int ?w" "of_int v / (1 + d)" "1 + d"]
          mult_strict_right_mono[of "of_int v / (1 + d) - 1" "of_int ?w" "1 + d"] by (simp_all add: left_diff_distrib)
      moreover have "decreaseWithDriftRate v (invertDriftRate 0) = v"
        by (simp add: decreaseWithDriftRate_def invertDriftRate_def trunc_def)
      ultimately show ?thesis using 2 w by (auto simp: increase_rounds le_ceiling_iff ceiling_le_iff)
    qed
    then show "v \<le> increaseWithDriftRate ?w d" "increaseWithDriftRate ?w d \<le> (if 0 < d then v + 1 else v)" by blast+
  qed
qed

lemma div_int_pos_unique_bounds: "l * n \<le> x \<Longrightarrow> x < l * n + l \<Longrightarrow> x div l = (n :: int)"
  by (rule int_div_pos_eq[of _ _ _ "x - l * n"]) (simp_all add: mult.commute)

lemma steady_interval:
  assumes "steady osc" "0 \<le> n"
  shows "0 \<le> computeIntervalForTicks osc n \<and> computeTicksForInterval osc (computeIntervalForTicks osc n) = Some n"
proof (cases "n = 0")
  case True
  then show ?thesis using assms
    by (simp add: computeIntervalForTicks_def computeTicksForInterval_def steady_def increaseWithDriftRate_def trunc_def sdiv_nonneg)
next
  case False
  let ?L = "os_nominalTickLength osc" and ?d = "os_driftRate osc"
  let ?v = "?L * n" and ?w = "decreaseWithDriftRate (?L * n) (invertDriftRate ?d)"
  have L: "0 < ?L" and v: "0 < ?v" and d: "-1 < ?d" "?d \<le> 1" and two: "0 < ?d \<longrightarrow> 2 \<le> ?L"
    using assms False by (auto simp: steady_def)
  note r = decrease_increase[OF v d]
  have i: "computeIntervalForTicks osc n = ?w" using assms(1) False by (simp add: computeIntervalForTicks_def steady_def)
  have "increaseWithDriftRate ?w ?d div ?L = n"
  proof (rule div_int_pos_unique_bounds)
    show "?L * n \<le> increaseWithDriftRate ?w ?d" by (rule r(2))
    show "increaseWithDriftRate ?w ?d < ?L * n + ?L" using r(3) two L by (auto split: if_splits)
  qed
  moreover have "0 \<le> increaseWithDriftRate ?w ?d" using r(2) v by linarith
  ultimately show ?thesis using r(1) L assms(1)
    by (simp add: i computeTicksForInterval_def steady_def sdiv_nonneg)
qed

interpretation drifting: oscillator_contract drifting_ops steady
proof
  fix osc x y assume s: "steady osc" and "(0 :: int) \<le> x" "x \<le> y"
  then have "0 \<le> increaseWithDriftRate x (os_driftRate osc)"
    "increaseWithDriftRate x (os_driftRate osc) \<le> increaseWithDriftRate y (os_driftRate osc)"
    using increase_mono[of x y "os_driftRate osc"] by (simp_all add: steady_def)
  with s \<open>0 \<le> x\<close> \<open>x \<le> y\<close> show "\<exists>a b. io_ticks drifting_ops osc x = Some a \<and> io_ticks drifting_ops osc y = Some b \<and> 0 \<le> a \<and> a \<le> b"
    by (auto simp: drifting_ops_def computeTicksForInterval_def steady_def sdiv_nonneg zdiv_mono1 pos_imp_zdiv_nonneg_iff)
qed (simp_all add: drifting_ops_def steady_interval, simp add: steady_def)

section \<open>What clocks promise\<close>

definition sample_oscillator :: oscillator where
  "sample_oscillator = \<lparr>os_nominalTickLength = 10, os_driftRate = 1, os_inverseDriftRate = invertDriftRate 1, os_origin = 0,
     os_nextTickFromOrigin = 0\<rparr>"

definition sample_clock :: "clock_event list \<Rightarrow> oscillator oclock" where
  "sample_clock es = \<lparr>oc_oscillator = sample_oscillator, oc_rounding = RoundUp, oc_originSimulationTime = 0,
     oc_originClockTime = 0, oc_clockEventTime = -1, oc_compensation = 0, oc_events = es, oc_defaultMode = EXECUTE\<rparr>"

lemma sample_clock_ok: "clock_ok drifting_ops steady 0 (sample_clock es)"
  by (simp add: clock_ok_def sample_clock_def drifting_ops_def steady_def sample_oscillator_def)

text \<open>
  On a drifting clock that ticks with its oscillator, ticks and intervals are inverse: the simulation time that
  is computed for a clock time on a tick after the present lies in the future, and at that time the clock shows
  exactly this clock time, whatever the drift (rounding included); and the clock never runs backwards.
\<close>

theorem drifting_clock_roundtrip:
  fixes conv :: "real \<Rightarrow> int"
  assumes "clock_ok drifting_ops steady now c" "\<forall>k :: int. conv (of_int k) = k" "now \<le> u"
    and "getClockTime conv drifting_ops now c = Some n" "n < t"
    and "t = oc_originClockTime c + k * os_nominalTickLength (oc_oscillator c)"
  shows "(\<exists>s. computeSimTimeFromClockTime conv drifting_ops now t c = Some s \<and> now < s \<and>
      computeClockTimeFromSimTime conv drifting_ops now s c = Some t) \<and>
    (\<exists>m. computeClockTimeFromSimTime conv drifting_ops now u c = Some m \<and> n \<le> m)"
proof -
  have conv: "\<And>k :: int. conv (of_int k) = k" using assms(2) by blast
  have n: "computeClockTimeFromSimTime conv drifting_ops now now c = Some n"
    using assms(1,4) by (simp add: getClockTime_def clock_ok_def)
  have "t = oc_originClockTime c + k * io_getNominalTickLength drifting_ops (oc_oscillator c)"
    using assms(6) by (simp add: drifting_ops_def)
  from drifting.clock_time_reached[where conv = conv, OF assms(1) conv n assms(5) this]
    drifting.clock_monotone[where conv = conv, OF assms(1) order_refl assms(3) conv] n
  show ?thesis by auto
qed

theorem drifting_clock_roundtrip_witness:
  "\<exists>s. computeSimTimeFromClockTime floor drifting_ops 0 20 (sample_clock []) = Some s \<and> 0 < s \<and>
     computeClockTimeFromSimTime floor drifting_ops 0 s (sample_clock []) = Some 20"
proof -
  have n: "getClockTime floor drifting_ops 0 (sample_clock []) = Some 0"
    by (simp add: getClockTime_def sample_clock_def computeClockTimeFromSimTime_def drifting_ops_def sample_oscillator_def
        computeTicksForInterval_def)
  have f: "\<forall>k :: int. floor (of_int k :: real) = k" by simp
  have k: "20 = oc_originClockTime (sample_clock []) + 2 * os_nominalTickLength (oc_oscillator (sample_clock []))"
    by (simp add: sample_clock_def sample_oscillator_def)
  have l: "(0 :: int) < 20" by simp
  show ?thesis by (rule conjunct1[OF drifting_clock_roundtrip[OF sample_clock_ok f order_refl n l k]])
qed

section \<open>Setting a clock\<close>

definition effective_mode :: "overdue_mode \<Rightarrow> clock_event \<Rightarrow> overdue_mode" where
  "effective_mode defaultMode e = (if ce_mode e = UNSPECIFIED then defaultMode else ce_mode e)"

text \<open>What becomes of an event when the clock is set from \<open>old\<close> to \<open>new\<close>; \<open>shows\<close> is what the clock shows then.\<close>

definition event_settled ::
  "(simtime \<Rightarrow> clocktime option) \<Rightarrow> simtime \<Rightarrow> clocktime \<Rightarrow> clocktime \<Rightarrow> clock_event \<Rightarrow> clock_event \<Rightarrow> bool" where
  "event_settled shows now old new e e' \<longleftrightarrow>
     ce_id e' = ce_id e \<and> ce_relative e' = ce_relative e \<and>
     (if ce_relative e then ce_arrivalSim e' = ce_arrivalSim e \<and> ce_arrivalClock e' - new = ce_arrivalClock e - old
      else ce_arrivalClock e' = ce_arrivalClock e \<and>
        (if ce_arrivalClock e < new then ce_arrivalSim e' = now
         else now \<le> ce_arrivalSim e' \<and> shows (ce_arrivalSim e') = Some (ce_arrivalClock e)))"

lemma those_all2:
  "(\<And>x. x \<in> set xs \<Longrightarrow> \<exists>y. f x = Some y \<and> P x y) \<Longrightarrow> \<exists>ys. those (map f xs) = Some ys \<and> list_all2 P xs ys"
  by (induction xs) (fastforce)+

lemma drifting_clock_set:
  fixes conv :: "real \<Rightarrow> int"
  assumes ok: "clock_ok drifting_ops steady now c" and conv: "\<And>k :: int. conv (of_int k) = k"
    and "oc_originSimulationTime c = now" "oc_originClockTime c = new"
    and e: "\<not> ce_relative e \<longrightarrow> effective_mode (oc_defaultMode c) e = EXECUTE \<and>
      (\<exists>k. ce_arrivalClock e = new + k * os_nominalTickLength (oc_oscillator c))"
  shows "\<exists>e'. settle_event conv drifting_ops now new (new - old) c e = Some e' \<and>
    event_settled (\<lambda>s. computeClockTimeFromSimTime conv drifting_ops now s c) now old new e e'"
proof (cases "ce_relative e")
  case True
  then show ?thesis by (simp add: settle_event_def event_settled_def)
next
  case False
  with e obtain k where m: "effective_mode (oc_defaultMode c) e = EXECUTE"
    and k: "ce_arrivalClock e = new + k * os_nominalTickLength (oc_oscillator c)" by blast
  have h: "handleOverdueClockEvent (oc_defaultMode c) e now = Some now"
    using m by (simp add: handleOverdueClockEvent_def effective_mode_def)
  have n: "computeClockTimeFromSimTime conv drifting_ops now now c = Some new"
    using drifting.clock_reads[where conv = conv, OF ok order_refl conv] assms(3,4) by auto
  consider "ce_arrivalClock e < new" | "ce_arrivalClock e = new" | "new < ce_arrivalClock e" by linarith
  then show ?thesis
  proof cases
    case 1
    then show ?thesis using False h by (simp add: settle_event_def event_settled_def)
  next
    case 2
    obtain b where b: "io_ticks drifting_ops (oc_oscillator c) (now - os_origin (oc_oscillator c)) = Some b" "0 \<le> b"
      using drifting.clock_reads[where conv = conv, OF ok order_refl conv] by (auto simp: drifting_ops_def)
    let ?s = "os_origin (oc_oscillator c) + computeIntervalForTicks (oc_oscillator c) b"
    have s: "computeSimTimeFromClockTime conv drifting_ops now new c = Some ?s"
      using n b(1) assms(3,4) ok
      by (simp add: computeSimTimeFromClockTime_def getClockTime_def clock_ok_def Let_def)
        (simp add: drifting_ops_def)
    have v: "steady (oc_oscillator c)" using ok by (simp add: clock_ok_def)
    have "computeClockTimeFromSimTime conv drifting_ops now ?s c = Some new" if g: "\<not> ?s < now"
    proof -
      have "io_ticks drifting_ops (oc_oscillator c) (?s - os_origin (oc_oscillator c)) = Some b"
        using drifting.interval[OF v b(2)] by (simp add: drifting_ops_def)
      with drifting.clock_reads[where conv = conv, OF ok _ conv, of ?s] b(1) g assms(3,4) show ?thesis
        by (auto simp: drifting_ops_def)
    qed
    then show ?thesis using False h s n 2 by (auto simp: settle_event_def event_settled_def)
  next
    case 3
    have "ce_arrivalClock e = oc_originClockTime c + k * io_getNominalTickLength drifting_ops (oc_oscillator c)"
      using k assms(4) by (simp add: drifting_ops_def)
    from drifting.clock_time_reached[where conv = conv, OF ok conv n 3 this]
    show ?thesis using False 3 by (auto simp: settle_event_def event_settled_def)
  qed
qed


text \<open>
  Setting a clock to a new time: the clock then shows this time; events with a relative time stay where they are
  in simulation time and keep their distance on the clock; events at an absolute time that is still to come are
  scheduled for the moment the clock shows it; overdue ones run now (mode \<open>EXECUTE\<close>). No assertion fails.
  \<open>reset\<close> is the reset of the tick offset before.
\<close>

theorem setClockTime_settles:
  fixes conv :: "real \<Rightarrow> int"
  assumes "\<forall>k :: int. conv (of_int k) = k" "getClockTime conv drifting_ops now c = Some old" "new \<noteq> old"
    and "reset_tick_offset conv r now c = Some d" "clock_ok drifting_ops steady now d"
    and "\<forall>e \<in> set (oc_events d). \<not> ce_relative e \<longrightarrow> effective_mode (oc_defaultMode d) e = EXECUTE \<and>
      (\<exists>k. ce_arrivalClock e = new + k * os_nominalTickLength (oc_oscillator d))"
  shows "\<exists>c'. setClockTime conv drifting_ops (reset_tick_offset conv r now) now new 0 c = Some c' \<and>
    getClockTime conv drifting_ops now c' = Some new \<and> clock_ok drifting_ops steady now c' \<and>
    list_all2 (event_settled (\<lambda>s. computeClockTimeFromSimTime conv drifting_ops now s c') now old new) (oc_events d) (oc_events c')"
proof -
  have conv: "\<And>k :: int. conv (of_int k) = k" using assms(1) by blast
  let ?d = "d\<lparr>oc_originSimulationTime := now, oc_originClockTime := new, oc_compensation := 0\<rparr>"
  have ok: "clock_ok drifting_ops steady now ?d" using assms(5) by (auto simp: clock_ok_def)
  have n: "getClockTime conv drifting_ops now ?d = Some new"
    using drifting.clock_reads[where conv = conv, OF ok order_refl conv] assms(5) by (auto simp: getClockTime_def clock_ok_def)
  have "\<exists>es. those (map (settle_event conv drifting_ops now new (new - old) ?d) (oc_events d)) = Some es \<and>
      list_all2 (event_settled (\<lambda>s. computeClockTimeFromSimTime conv drifting_ops now s ?d) now old new) (oc_events d) es"
    by (rule those_all2, rule drifting_clock_set[OF ok conv]) (use assms(6) in \<open>simp_all\<close>)
  then obtain es where es: "those (map (settle_event conv drifting_ops now new (new - old) ?d) (oc_events d)) = Some es"
    "list_all2 (event_settled (\<lambda>s. computeClockTimeFromSimTime conv drifting_ops now s ?d) now old new) (oc_events d) es" by blast
  let ?c = "?d\<lparr>oc_events := es\<rparr>"
  have "setClockTime conv drifting_ops (reset_tick_offset conv r now) now new 0 c = Some ?c"
    using assms(2,3,4) n es(1) by (simp add: setClockTime_def Let_def)
  moreover have shows_same: "computeClockTimeFromSimTime conv drifting_ops now s ?c = computeClockTimeFromSimTime conv drifting_ops now s ?d" for s
    by (simp add: computeClockTimeFromSimTime_def)
  moreover have "getClockTime conv drifting_ops now ?c = Some new"
    using n assms(5) by (simp add: getClockTime_def shows_same clock_ok_def)
  moreover have "clock_ok drifting_ops steady now ?c" using ok by (simp add: clock_ok_def)
  ultimately show ?thesis using es(2) by (intro exI[of _ ?c]) simp
qed

definition sample_event :: clock_event where
  "sample_event = \<lparr>ce_id = 1, ce_relative = False, ce_arrivalClock = 100, ce_arrivalSim = 60, ce_mode = UNSPECIFIED\<rparr>"

theorem setClockTime_settles_witness:
  "\<exists>c'. setClockTime floor drifting_ops (reset_tick_offset floor False 0) 0 40 0 (sample_clock [sample_event]) = Some c' \<and>
     getClockTime floor drifting_ops 0 c' = Some 40"
proof -
  have f: "\<forall>k :: int. floor (of_int k :: real) = k" by simp
  have n: "getClockTime floor drifting_ops 0 (sample_clock [sample_event]) = Some 0"
    by (simp add: getClockTime_def sample_clock_def computeClockTimeFromSimTime_def drifting_ops_def sample_oscillator_def
        computeTicksForInterval_def)
  have r: "reset_tick_offset floor False 0 (sample_clock [sample_event]) = Some (sample_clock [sample_event])"
    by (simp add: reset_tick_offset_def)
  have "\<exists>k. (100 :: int) = 40 + k * 10" by (rule exI[of _ 6]) simp
  then have e: "\<forall>e \<in> set (oc_events (sample_clock [sample_event])). \<not> ce_relative e \<longrightarrow>
      effective_mode (oc_defaultMode (sample_clock [sample_event])) e = EXECUTE \<and>
      (\<exists>k. ce_arrivalClock e = 40 + k * os_nominalTickLength (oc_oscillator (sample_clock [sample_event])))"
    by (simp add: sample_clock_def sample_event_def sample_oscillator_def effective_mode_def)
  show ?thesis using setClockTime_settles[OF f n _ r sample_clock_ok e] by auto
qed

section \<open>Rounding\<close>

text \<open>For times that are not negative the three rounding modes give the multiples they promise.\<close>

lemma rounding_bounds:
  assumes "0 \<le> t" "0 < l"
  shows "l dvd roundUp t l" "t \<le> roundUp t l" "roundUp t l < t + l"
    and "l dvd roundDown t l" "roundDown t l \<le> t" "t < roundDown t l + l"
    and "l dvd roundCloser t l" "2 * \<bar>roundCloser t l - t\<bar> \<le> l"
proof -
  have d: "x - l < x div l * l \<and> x div l * l \<le> x" for x
    using assms(2) div_mult_mod_eq[of x l] pos_mod_bound[of l x] pos_mod_sign[of l x] by linarith
  show "l dvd roundUp t l" "l dvd roundDown t l" "l dvd roundCloser t l"
    by (simp_all add: roundUp_def roundDown_def roundCloser_def)
  show "t \<le> roundUp t l" "roundUp t l < t + l" "roundDown t l \<le> t" "t < roundDown t l + l"
    using assms d[of "t + l - 1"] d[of t] by (simp_all add: roundUp_def roundDown_def sdiv_nonneg)
  have h: "2 * (l div 2) \<le> l \<and> l \<le> 2 * (l div 2) + 1" by presburger
  show "2 * \<bar>roundCloser t l - t\<bar> \<le> l"
  proof -
    define r where "r = roundCloser t l"
    have "r = (t + l div 2) div l * l" using assms by (simp add: r_def roundCloser_def sdiv_nonneg)
    with d[of "t + l div 2"] have "t + l div 2 - l < r" "r \<le> t + l div 2" by simp_all
    moreover have "2 * (l div 2) \<le> l" "l \<le> 2 * (l div 2) + 1" using h by simp_all
    ultimately have "2 * (r - t) \<le> l \<and> 2 * (t - r) \<le> l" by presburger
    then show ?thesis unfolding r_def[symmetric] by (simp add: abs_if)
  qed
qed

text \<open>The mode without rounding returns the number of ticks, not the time.\<close>

lemma roundNone_divides: "0 \<le> n \<Longrightarrow> 0 < l \<Longrightarrow> roundNone (n * l) l = Some n"
  by (simp add: roundNone_def signed_modulo_int_def sdiv_nonneg)

text \<open>With a tick offset, the tick at the end of the first interval is not counted.\<close>

lemma tick_offset_not_inverse:
  "computeTicksForInterval (sample_oscillator\<lparr>os_driftRate := 0, os_inverseDriftRate := 0, os_nextTickFromOrigin := 3\<rparr>)
     (computeIntervalForTicks (sample_oscillator\<lparr>os_driftRate := 0, os_inverseDriftRate := 0, os_nextTickFromOrigin := 3\<rparr>) 1) = Some 0"
  by (simp add: computeTicksForInterval_def computeIntervalForTicks_def sample_oscillator_def increaseWithDriftRate_def
      decreaseWithDriftRate_def trunc_def sdiv_nonneg)

text \<open>Scheduling for the time a clock shows, in the middle of a tick, is scheduling into the past.\<close>

lemma schedule_now_fails:
  "scheduleClockEventAt floor ideal_ops 7 0 e
     \<lparr>oc_oscillator = \<lparr>io_origin = 0, io_tickLength = 10\<rparr>, oc_rounding = RoundDown, oc_originSimulationTime = 0,
      oc_originClockTime = 0, oc_clockEventTime = -1, oc_compensation = 0, oc_events = [], oc_defaultMode = EXECUTE\<rparr> = None"
  by (simp add: scheduleClockEventAt_def roundDown_def ideal_ops_def getClockTime_def computeClockTimeFromSimTime_def
      computeSimTimeFromClockTime_def ideal_computeTicksForInterval_def ideal_computeIntervalForTicks_def sdiv_nonneg Let_def
      trunc_def)

end

