(* ===== verification/Gptp.thy ===== *)
theory Gptp
  imports Message_Codec Clock
begin

text \<open>
  The time synchronization protocol (src/inet/src/inet/linklayer/ieee8021as/Gptp.cc): sync and follow-up messages
  from the master to the slave ports, the measurement of the peer delay, and the adjustment of the clock of
  \<open>Clock\<close>.

  Every handler gets the simulation time \<open>now\<close> and the conversion \<open>conv\<close> of a \<open>double\<close> to a time, and returns
  the node with the messages it sends, each with its port; \<open>None\<close> is a thrown error. Tags, MAC addresses and the
  registration of the protocol are left out. The time -1 of the code is the number -1. A clock event is named
  by a number: 0 is \<open>selfMsgSync\<close>, 1 is \<open>selfMsgDelayReq\<close>, all others are the \<open>GptpReqAnswerEvent\<close>s.
\<close>

section \<open>Messages and state\<close>

datatype gptp_msg =
    GptpSync (msg_base: gptp_base)
  | GptpFollowUp (msg_base: gptp_base) clocktime real
  | GptpPdelayReq (msg_base: gptp_base)
  | GptpPdelayResp (msg_base: gptp_base) clocktime port_identity
  | GptpPdelayRespFollowUp (msg_base: gptp_base) clocktime port_identity

definition new_base :: "16 word \<Rightarrow> 16 word \<Rightarrow> gptp_base" where
  "new_base len flags = \<lparr>gb_majorSdoId = 0, gb_minorVersionPTP = 1, gb_versionPTP = 2, gb_messageLengthField = len,
     gb_domainNumber = 0, gb_minorSdoId = 0, gb_flags = flags, gb_correctionField = 0, gb_messageTypeSpecific = 0,
     gb_sourcePortIdentity = \<lparr>pi_clockIdentity = 0, pi_portNumber = 0\<rparr>, gb_sequenceId = 0, gb_controlField = 0,
     gb_logMessageInterval = 0\<rparr>"

record gptp_packet =
  gk_msg :: gptp_msg
  gk_interface :: int
  gk_ingress :: "clocktime option"

datatype gptp_node_type = MASTER_NODE | BRIDGE_NODE | SLAVE_NODE

record gptp_answer =
  ans_event :: nat
  ans_portId :: int
  ans_ingressTimestamp :: clocktime
  ans_sourcePortIdentity :: port_identity
  ans_sequenceId :: "16 word"

record gptp =
  gn_nodeType :: gptp_node_type
  gn_domainNumber :: int
  gn_slavePortId :: int
  gn_masterPortIds :: "int list"
  gn_correctionField :: clocktime
  gn_clockIdentity :: "64 word"
  gn_gmRateRatio :: real
  gn_receivedRateRatio :: real
  gn_originTimestamp :: clocktime
  gn_receivedTimeSync :: clocktime
  gn_syncInterval :: clocktime
  gn_pdelayInterval :: clocktime
  gn_sequenceId :: "16 word"
  gn_lastSentPdelayReqSequenceId :: "16 word"
  gn_peerDelay :: clocktime
  gn_peerRequestReceiptTimestamp :: clocktime
  gn_peerResponseOriginTimestamp :: clocktime
  gn_pdelayRespEventIngressTimestamp :: clocktime
  gn_pdelayReqEventEgressTimestamp :: clocktime
  gn_pDelayReqProcessingTime :: clocktime
  gn_rcvdPdelayResp :: bool
  gn_sentTimeSyncSync :: clocktime
  gn_newLocalTimeAtTimeSync :: clocktime
  gn_oldLocalTimeAtTimeSync :: clocktime
  gn_peerSentTimeSync :: clocktime
  gn_oldPeerSentTimeSync :: clocktime
  gn_syncIngressTimestamp :: clocktime
  gn_rcvdGptpSync :: bool
  gn_lastReceivedGptpSyncSequenceId :: "16 word"
  gn_clock :: "oscillator oclock"
  gn_answers :: "gptp_answer list"

section \<open>Time\<close>

definition gptp_time :: "(real \<Rightarrow> int) \<Rightarrow> simtime \<Rightarrow> gptp \<Rightarrow> clocktime option" where
  "gptp_time conv now n = getClockTime conv drifting_ops now (gn_clock n)"

definition schedule_self :: "(real \<Rightarrow> int) \<Rightarrow> simtime \<Rightarrow> clocktime \<Rightarrow> nat \<Rightarrow> gptp \<Rightarrow> gptp option" where
  "schedule_self conv now delay i n =
     do {
       c \<leftarrow> scheduleClockEventAfter conv drifting_ops now delay
              \<lparr>ce_id = i, ce_relative = False, ce_arrivalClock = -1, ce_arrivalSim = 0, ce_mode = UNSPECIFIED\<rparr> (gn_clock n);
       Some (n\<lparr>gn_clock := c\<rparr>)
     }"

definition new_event_id :: "gptp \<Rightarrow> nat" where
  "new_event_id n = Suc (fold max (map ce_id (oc_events (gn_clock n)) @ map ans_event (gn_answers n)) 1)"

section \<open>Initialization\<close>

text \<open>
  \<open>slave\<close> is \<open>None\<close> if the parameter \<open>slavePort\<close> is empty; a port is \<open>None\<close> if no interface has the name.
\<close>

fun add_master_ports :: "int \<Rightarrow> int option list \<Rightarrow> int list \<Rightarrow> int list option" where
  "add_master_ports slaveId [] ids = Some ids"
| "add_master_ports slaveId (p # ps) ids =
     do { i \<leftarrow> p; ensure (i \<noteq> slaveId); add_master_ports slaveId ps (insort i (remove1 i ids)) }"

definition gptp_initialize ::
  "(real \<Rightarrow> int) \<Rightarrow> simtime \<Rightarrow> int option option \<Rightarrow> int option list \<Rightarrow> clocktime \<Rightarrow> clocktime \<Rightarrow> gptp \<Rightarrow> gptp option" where
  "gptp_initialize conv now slave masterPorts syncInitialOffset pdelayInitialOffset n =
     do {
       slaveId \<leftarrow> (case slave of
           Some nic \<Rightarrow> do { ensure (gn_nodeType n \<noteq> MASTER_NODE); nic }
         | None \<Rightarrow> do { ensure (gn_nodeType n = MASTER_NODE); Some (-1) });
       ensure (\<not> (masterPorts = [] \<and> gn_nodeType n \<noteq> SLAVE_NODE));
       ids \<leftarrow> add_master_ports slaveId masterPorts [];
       let n = n\<lparr>gn_slavePortId := slaveId, gn_masterPortIds := ids, gn_peerDelay := 0, gn_receivedTimeSync := 0,
                 gn_gmRateRatio := 1\<rparr>;
       n \<leftarrow> (if gn_nodeType n = MASTER_NODE then
               do {
                 t \<leftarrow> gptp_time conv now n;
                 schedule_self conv now syncInitialOffset 0 (n\<lparr>gn_originTimestamp := t + syncInitialOffset\<rparr>)
               }
             else Some n);
       (if gn_slavePortId n \<noteq> -1 then schedule_self conv now pdelayInitialOffset 1 n else Some n)
     }"

section \<open>Sending\<close>

definition sendSync :: "(real \<Rightarrow> int) \<Rightarrow> simtime \<Rightarrow> gptp \<Rightarrow> (gptp \<times> (int \<times> gptp_msg) list) option" where
  "sendSync conv now n =
     do {
       t \<leftarrow> gptp_time conv now n;
       let n = (if gn_nodeType n = MASTER_NODE then n\<lparr>gn_originTimestamp := t\<rparr> else n);
       let sync = GptpSync ((new_base 44 twoStepFlag)
             \<lparr>gb_domainNumber := word_of_int (gn_domainNumber n), gb_sequenceId := gn_sequenceId n\<rparr>);
       Some (n\<lparr>gn_sequenceId := gn_sequenceId n + 1, gn_sentTimeSyncSync := t\<rparr>, map (\<lambda>p. (p, sync)) (gn_masterPortIds n))
     }"

definition sendFollowUp :: "gptp_base \<Rightarrow> clocktime \<Rightarrow> gptp \<Rightarrow> gptp_msg" where
  "sendFollowUp sync syncTxEndTimestamp n =
     GptpFollowUp ((new_base 76 0)
         \<lparr>gb_domainNumber := word_of_int (gn_domainNumber n), gb_sequenceId := gb_sequenceId sync,
          gb_correctionField := (if gn_nodeType n = SLAVE_NODE then 0 else syncTxEndTimestamp - gn_originTimestamp n)\<rparr>)
       (gn_originTimestamp n) (gn_gmRateRatio n)"

definition sendPdelayResp :: "gptp_answer \<Rightarrow> gptp \<Rightarrow> int \<times> gptp_msg" where
  "sendPdelayResp req n =
     (ans_portId req,
      GptpPdelayResp ((new_base 54 0)\<lparr>gb_domainNumber := word_of_int (gn_domainNumber n), gb_sequenceId := ans_sequenceId req\<rparr>)
        (ans_ingressTimestamp req) (ans_sourcePortIdentity req))"

definition sendPdelayRespFollowUp :: "gptp_base \<Rightarrow> port_identity \<Rightarrow> clocktime \<Rightarrow> gptp \<Rightarrow> gptp_msg" where
  "sendPdelayRespFollowUp resp requestingPortIdentity t n =
     GptpPdelayRespFollowUp
       ((new_base 54 0)\<lparr>gb_domainNumber := word_of_int (gn_domainNumber n), gb_sequenceId := gb_sequenceId resp\<rparr>)
       t requestingPortIdentity"

definition sendPdelayReq :: "(real \<Rightarrow> int) \<Rightarrow> simtime \<Rightarrow> gptp \<Rightarrow> (gptp \<times> (int \<times> gptp_msg) list) option" where
  "sendPdelayReq conv now n =
     do {
       ensure (gn_slavePortId n \<noteq> -1);
       t \<leftarrow> gptp_time conv now n;
       let req = GptpPdelayReq ((new_base 54 0)
             \<lparr>gb_domainNumber := word_of_int (gn_domainNumber n), gb_sequenceId := gn_sequenceId n,
              gb_sourcePortIdentity := \<lparr>pi_clockIdentity = gn_clockIdentity n, pi_portNumber = word_of_int (gn_slavePortId n)\<rparr>\<rparr>);
       Some (n\<lparr>gn_lastSentPdelayReqSequenceId := gn_sequenceId n, gn_sequenceId := gn_sequenceId n + 1,
               gn_pdelayReqEventEgressTimestamp := t, gn_rcvdPdelayResp := False\<rparr>, [(gn_slavePortId n, req)])
     }"

section \<open>Timers\<close>

definition handleSelfMessage :: "(real \<Rightarrow> int) \<Rightarrow> simtime \<Rightarrow> nat \<Rightarrow> gptp \<Rightarrow> (gptp \<times> (int \<times> gptp_msg) list) option" where
  "handleSelfMessage conv now i n =
     (if i = 0 then do { (n, out) \<leftarrow> sendSync conv now n; n \<leftarrow> schedule_self conv now (gn_syncInterval n) 0 n; Some (n, out) }
      else if i = 1 then
        do { (n, out) \<leftarrow> sendPdelayReq conv now n; n \<leftarrow> schedule_self conv now (gn_pdelayInterval n) 1 n; Some (n, out) }
      else case find (\<lambda>a. ans_event a = i) (gn_answers n) of
          Some req \<Rightarrow> Some (n\<lparr>gn_answers := filter (\<lambda>a. ans_event a \<noteq> i) (gn_answers n)\<rparr>, [sendPdelayResp req n])
        | None \<Rightarrow> None)"

text \<open>The clock event \<open>e\<close> is executed: meanwhile the clock shows its arrival time.\<close>

definition gptp_timer :: "(real \<Rightarrow> int) \<Rightarrow> simtime \<Rightarrow> clock_event \<Rightarrow> gptp \<Rightarrow> (gptp \<times> (int \<times> gptp_msg) list) option" where
  "gptp_timer conv now e n =
     do {
       (n, out) \<leftarrow> handleSelfMessage conv now (ce_id e)
          (n\<lparr>gn_clock := (cancelClockEvent (ce_id e) (gn_clock n))\<lparr>oc_clockEventTime := ce_arrivalClock e\<rparr>\<rparr>);
       Some (n\<lparr>gn_clock := (gn_clock n)\<lparr>oc_clockEventTime := -1\<rparr>\<rparr>, out)
     }"

section \<open>Receiving\<close>

definition processSync :: "gptp_packet \<Rightarrow> gptp_base \<Rightarrow> gptp \<Rightarrow> gptp option" where
  "processSync packet sync n =
     do {
       t \<leftarrow> gk_ingress packet;
       Some (n\<lparr>gn_rcvdGptpSync := True, gn_lastReceivedGptpSyncSequenceId := gb_sequenceId sync, gn_syncIngressTimestamp := t\<rparr>)
     }"

text \<open>A rate ratio with a zero divisor is infinite or undefined; it is not modelled.\<close>

definition synchronize :: "(real \<Rightarrow> int) \<Rightarrow> simtime \<Rightarrow> gptp \<Rightarrow> gptp option" where
  "synchronize conv now n =
     do {
       origNow \<leftarrow> gptp_time conv now n;
       let residenceTime = origNow - gn_syncIngressTimestamp n;
       let newTime = gn_originTimestamp n + gn_correctionField n + gn_peerDelay n + residenceTime;
       ensure (gn_nodeType n \<noteq> MASTER_NODE);
       gmRateRatio \<leftarrow> (if gn_oldPeerSentTimeSync n = -1 then Some 1
          else do {
            ensure (gn_syncIngressTimestamp n \<noteq> gn_receivedTimeSync n);
            Some (of_int (gn_peerSentTimeSync n - gn_oldPeerSentTimeSync n) /
                  of_int (gn_syncIngressTimestamp n - gn_receivedTimeSync n))
          });
       c \<leftarrow> setClockTime conv drifting_ops (reset_tick_offset conv True now) now newTime
              (gmRateRatio * (1 + oc_compensation (gn_clock n)) - 1) (gn_clock n);
       newLocal \<leftarrow> getClockTime conv drifting_ops now c;
       Some (n\<lparr>gn_clock := c, gn_gmRateRatio := gmRateRatio, gn_oldLocalTimeAtTimeSync := origNow,
         gn_newLocalTimeAtTimeSync := newLocal,
         gn_pdelayRespEventIngressTimestamp := gn_pdelayRespEventIngressTimestamp n + (newLocal - origNow),
         gn_pdelayReqEventEgressTimestamp := gn_pdelayReqEventEgressTimestamp n + (newLocal - origNow),
         gn_receivedTimeSync := gn_syncIngressTimestamp n + (newLocal - origNow),
         gn_oldPeerSentTimeSync := gn_peerSentTimeSync n\<rparr>)
     }"

definition processFollowUp ::
  "(real \<Rightarrow> int) \<Rightarrow> simtime \<Rightarrow> gptp_base \<Rightarrow> clocktime \<Rightarrow> real \<Rightarrow> gptp \<Rightarrow> gptp option" where
  "processFollowUp conv now base preciseOriginTimestamp rateRatio n =
     (if \<not> gn_rcvdGptpSync n then Some n
      else if gb_sequenceId base \<noteq> gn_lastReceivedGptpSyncSequenceId n then Some n
      else do {
        n \<leftarrow> synchronize conv now (n\<lparr>gn_originTimestamp := preciseOriginTimestamp,
               gn_correctionField := gb_correctionField base,
               gn_peerSentTimeSync := preciseOriginTimestamp + gb_correctionField base,
               gn_receivedRateRatio := rateRatio\<rparr>);
        Some (n\<lparr>gn_rcvdGptpSync := False\<rparr>)
      })"

definition processPdelayReq :: "(real \<Rightarrow> int) \<Rightarrow> simtime \<Rightarrow> gptp_packet \<Rightarrow> gptp_base \<Rightarrow> gptp \<Rightarrow> gptp option" where
  "processPdelayReq conv now packet req n =
     do {
       t \<leftarrow> gk_ingress packet;
       let i = new_event_id n;
       schedule_self conv now (gn_pDelayReqProcessingTime n) i (n\<lparr>gn_answers := gn_answers n @
         [\<lparr>ans_event = i, ans_portId = gk_interface packet, ans_ingressTimestamp = t,
           ans_sourcePortIdentity = gb_sourcePortIdentity req, ans_sequenceId = gb_sequenceId req\<rparr>]\<rparr>)
     }"

definition own_identity :: "gptp \<Rightarrow> port_identity \<Rightarrow> bool" where
  "own_identity n p \<longleftrightarrow> \<not> (pi_clockIdentity p \<noteq> gn_clockIdentity n \<or> uint (pi_portNumber p) \<noteq> gn_slavePortId n)"

definition processPdelayResp :: "gptp_packet \<Rightarrow> gptp_base \<Rightarrow> clocktime \<Rightarrow> port_identity \<Rightarrow> gptp \<Rightarrow> gptp option" where
  "processPdelayResp packet base requestReceiptTimestamp requestingPortIdentity n =
     (if \<not> own_identity n requestingPortIdentity then Some n
      else if gb_sequenceId base \<noteq> gn_lastSentPdelayReqSequenceId n then Some n
      else do {
        t \<leftarrow> gk_ingress packet;
        Some (n\<lparr>gn_rcvdPdelayResp := True, gn_pdelayRespEventIngressTimestamp := t,
                gn_peerRequestReceiptTimestamp := requestReceiptTimestamp, gn_peerResponseOriginTimestamp := 0\<rparr>)
      })"

definition processPdelayRespFollowUp ::
  "(real \<Rightarrow> int) \<Rightarrow> gptp_base \<Rightarrow> clocktime \<Rightarrow> port_identity \<Rightarrow> gptp \<Rightarrow> gptp" where
  "processPdelayRespFollowUp conv base responseOriginTimestamp requestingPortIdentity n =
     (if \<not> gn_rcvdPdelayResp n then n
      else if \<not> own_identity n requestingPortIdentity then n
      else if gb_sequenceId base \<noteq> gn_lastSentPdelayReqSequenceId n then n
      else n\<lparr>gn_peerResponseOriginTimestamp := responseOriginTimestamp,
             gn_peerDelay := conv (of_int (conv (gn_gmRateRatio n *
                of_int (gn_pdelayRespEventIngressTimestamp n - gn_pdelayReqEventEgressTimestamp n)) -
                (responseOriginTimestamp - gn_peerRequestReceiptTimestamp n)) / 2)\<rparr>)"

definition gptp_handleMessage :: "(real \<Rightarrow> int) \<Rightarrow> simtime \<Rightarrow> gptp_packet \<Rightarrow> gptp \<Rightarrow> (gptp \<times> (int \<times> gptp_msg) list) option" where
  "gptp_handleMessage conv now packet n =
     (if uint (gb_domainNumber (msg_base (gk_msg packet))) \<noteq> gn_domainNumber n then Some (n, [])
      else if gk_interface packet = gn_slavePortId n then
        (case gk_msg packet of
           GptpSync base \<Rightarrow> do { n \<leftarrow> processSync packet base n; Some (n, []) }
         | GptpFollowUp base t r \<Rightarrow>
             do { n \<leftarrow> processFollowUp conv now base t r n; if gn_nodeType n = BRIDGE_NODE then sendSync conv now n else Some (n, []) }
         | GptpPdelayResp base t p \<Rightarrow> do { n \<leftarrow> processPdelayResp packet base t p n; Some (n, []) }
         | GptpPdelayRespFollowUp base t p \<Rightarrow> Some (processPdelayRespFollowUp conv base t p n, [])
         | GptpPdelayReq base \<Rightarrow> None)
      else if gk_interface packet \<in> set (gn_masterPortIds n) then
        (case gk_msg packet of GptpPdelayReq base \<Rightarrow> do { n \<leftarrow> processPdelayReq conv now packet base n; Some (n, []) }
         | _ \<Rightarrow> None)
      else Some (n, []))"

text \<open>\<open>receiveSignal\<close>: the end of a reception, and the end of the transmission of a message on a port.\<close>

definition receptionEnded :: "(real \<Rightarrow> int) \<Rightarrow> simtime \<Rightarrow> gptp_packet \<Rightarrow> gptp \<Rightarrow> gptp_packet option" where
  "receptionEnded conv now packet n =
     (if uint (gb_domainNumber (msg_base (gk_msg packet))) \<noteq> gn_domainNumber n then Some packet
      else do {
        t \<leftarrow> gptp_time conv now n;
        Some (packet\<lparr>gk_ingress := Some t\<rparr>)
      })"

definition handleDelayOrSendFollowUp ::
  "(real \<Rightarrow> int) \<Rightarrow> simtime \<Rightarrow> int \<Rightarrow> gptp_msg \<Rightarrow> gptp \<Rightarrow> (gptp \<times> (int \<times> gptp_msg) list) option" where
  "handleDelayOrSendFollowUp conv now portId msg n =
     (case msg of
        GptpPdelayResp base t p \<Rightarrow> do { t \<leftarrow> gptp_time conv now n; Some (n, [(portId, sendPdelayRespFollowUp base p t n)]) }
      | GptpSync base \<Rightarrow> do { t \<leftarrow> gptp_time conv now n; Some (n, [(portId, sendFollowUp base t n)]) }
      | GptpPdelayReq base \<Rightarrow>
          (if portId = gn_slavePortId n
           then do { t \<leftarrow> gptp_time conv now n; Some (n\<lparr>gn_pdelayReqEventEgressTimestamp := t\<rparr>, []) }
           else Some (n, []))
      | _ \<Rightarrow> Some (n, []))"

definition transmissionEnded ::
  "(real \<Rightarrow> int) \<Rightarrow> simtime \<Rightarrow> int \<Rightarrow> gptp_msg \<Rightarrow> gptp \<Rightarrow> (gptp \<times> (int \<times> gptp_msg) list) option" where
  "transmissionEnded conv now portId msg n =
     (if uint (gb_domainNumber (msg_base msg)) \<noteq> gn_domainNumber n then Some (n, [])
      else handleDelayOrSendFollowUp conv now portId msg n)"

section \<open>Clocks of the nominal rate\<close>

text \<open>
  A clock that advances one tick in one tick of simulation time and shows it with the offset \<open>off\<close>; its events
  are relative or executed when they are overdue.
\<close>

definition unit_clock :: "clocktime \<Rightarrow> simtime \<Rightarrow> oscillator oclock \<Rightarrow> bool" where
  "unit_clock off now c \<longleftrightarrow>
     os_nominalTickLength (oc_oscillator c) = 1 \<and> os_driftRate (oc_oscillator c) = 0 \<and>
     os_inverseDriftRate (oc_oscillator c) = 0 \<and> os_nextTickFromOrigin (oc_oscillator c) = 0 \<and>
     os_origin (oc_oscillator c) \<le> oc_originSimulationTime c \<and> oc_originSimulationTime c \<le> now \<and>
     oc_originClockTime c = oc_originSimulationTime c + off \<and> oc_compensation c = 0 \<and>
     (\<forall>e \<in> set (oc_events c). ce_relative e \<or> effective_mode (oc_defaultMode c) e = EXECUTE)"

definition exact_conv :: "(real \<Rightarrow> int) \<Rightarrow> bool" where
  "exact_conv conv \<longleftrightarrow> (\<forall>k :: int. conv (of_int k) = k)"

lemma exact_convD [simp]: "exact_conv conv \<Longrightarrow> conv (of_int k) = k"
  by (simp add: exact_conv_def)

lemma sdiv_1 [simp]: "(x :: int) sdiv 1 = x"
  by (cases "0 \<le> x") (simp_all add: signed_divide_int_def sgn_if)

lemma unit_clock_later: "unit_clock off now c \<Longrightarrow> now \<le> t \<Longrightarrow> unit_clock off t c"
  by (auto simp: unit_clock_def)

lemma unit_clock_computes:
  assumes "unit_clock off now c" "exact_conv conv" "now \<le> t"
  shows "computeClockTimeFromSimTime conv drifting_ops now t c = Some (t + off)"
proof -
  have "conv (of_int (t - oc_originSimulationTime c)) = t - oc_originSimulationTime c" by (rule exact_convD[OF assms(2)])
  then show ?thesis using assms(1,3)
    by (simp add: unit_clock_def computeClockTimeFromSimTime_def drifting_ops_def computeTicksForInterval_def
        increaseWithDriftRate_def trunc_def)
qed

lemma unit_clock_shows:
  assumes "unit_clock off now c" "exact_conv conv" "oc_clockEventTime c = -1 \<or> oc_clockEventTime c = now + off"
  shows "getClockTime conv drifting_ops now c = Some (now + off)"
  using assms unit_clock_computes[OF assms(1,2) order_refl] by (auto simp: getClockTime_def)

lemma unit_clock_sim:
  assumes "unit_clock off now c" "exact_conv conv" "oc_clockEventTime c = -1 \<or> oc_clockEventTime c = now + off" "now + off \<le> t"
  shows "computeSimTimeFromClockTime conv drifting_ops now t c = Some (t - off)"
proof -
  let ?osc = "oc_oscillator c"
  have b: "io_ticks drifting_ops ?osc (oc_originSimulationTime c - os_origin ?osc) = Some (oc_originSimulationTime c - os_origin ?osc)"
    using assms(1) by (simp add: unit_clock_def drifting_ops_def computeTicksForInterval_def increaseWithDriftRate_def trunc_def)
  have e: "of_int (t - oc_originClockTime c) / of_int (os_nominalTickLength ?osc) / (1 + oc_compensation c) +
      of_int (oc_originSimulationTime c - os_origin ?osc) = (of_int (t - off - os_origin ?osc) :: real)"
    using assms(1) by (simp add: unit_clock_def)
  have i: "io_interval drifting_ops ?osc k = k" for k
    using assms(1) by (simp add: unit_clock_def drifting_ops_def computeIntervalForTicks_def decreaseWithDriftRate_def trunc_def)
  have o: "io_getComputationOrigin drifting_ops ?osc = os_origin ?osc" "io_getNominalTickLength drifting_ops ?osc = os_nominalTickLength ?osc"
    by (simp_all add: drifting_ops_def)
  show ?thesis using assms(4) unit_clock_shows[OF assms(1-3)]
    by (simp add: computeSimTimeFromClockTime_def Let_def o b e i del: of_int_diff divide_divide_eq_left)
qed

lemma rounding_1 [simp]: "roundingFunction r t 1 = Some t"
  by (cases r) (simp_all add: roundUp_def roundDown_def roundCloser_def roundNone_def signed_modulo_int_def
      signed_divide_int_def[of 1 2])

lemma unit_clock_schedule_eq:
  assumes "unit_clock off now c" "exact_conv conv" "oc_clockEventTime c = -1 \<or> oc_clockEventTime c = now + off" "0 \<le> delay"
  shows "scheduleClockEventAfter conv drifting_ops now delay e c = Some (c\<lparr>oc_events := oc_events c @
    [e\<lparr>ce_relative := True, ce_arrivalClock := now + off + delay, ce_arrivalSim := now + delay\<rparr>]\<rparr>)"
proof -
  have "io_getNominalTickLength drifting_ops (oc_oscillator c) = 1" using assms(1) by (simp add: unit_clock_def drifting_ops_def)
  then show ?thesis
    using unit_clock_shows[OF assms(1-3)] unit_clock_sim[OF assms(1-3), of "now + off + delay"] assms(4)
    by (simp add: scheduleClockEventAfter_def Let_def add.assoc)
qed

lemma unit_clock_schedule:
  assumes "unit_clock off now c" "exact_conv conv" "oc_clockEventTime c = -1 \<or> oc_clockEventTime c = now + off" "0 \<le> delay"
  shows "\<exists>c'. scheduleClockEventAfter conv drifting_ops now delay e c = Some c' \<and> unit_clock off now c' \<and>
    oc_clockEventTime c' = oc_clockEventTime c"
  using assms(1) unit_clock_schedule_eq[OF assms] by (auto simp: unit_clock_def effective_mode_def)

lemma unit_clock_cancel: "unit_clock off now c \<Longrightarrow> unit_clock off now (cancelClockEvent i c)"
  by (auto simp: unit_clock_def cancelClockEvent_def)

lemma unit_clock_event_time [simp]: "unit_clock off now (c\<lparr>oc_clockEventTime := t\<rparr>) = unit_clock off now c"
  by (simp add: unit_clock_def)

lemma unit_clock_reset:
  assumes "unit_clock off now c" "exact_conv conv"
  shows "reset_tick_offset conv True now c = Some c"
proof -
  have "conv 1 = 1" using exact_convD[OF assms(2), of 1] by simp
  then have "elapsed_in_tick conv now (oc_oscillator c) = 0"
    using assms(1) by (simp add: unit_clock_def elapsed_in_tick_def getCurrentTickLength_def signed_modulo_int_def)
  then show ?thesis by (simp add: reset_tick_offset_def)
qed

lemma unit_clock_settle:
  assumes "unit_clock new now c" "exact_conv conv" "oc_clockEventTime c = -1"
    and "ce_relative e \<or> effective_mode (oc_defaultMode c) e = EXECUTE"
  shows "\<exists>e'. settle_event conv drifting_ops now (now + new) d c e = Some e' \<and>
    ce_relative e' = ce_relative e \<and> ce_mode e' = ce_mode e"
proof (cases "ce_relative e \<or> ce_arrivalClock e < now + new")
  case True
  then show ?thesis using assms(4) by (auto simp: settle_event_def handleOverdueClockEvent_def effective_mode_def Let_def)
next
  case False
  then show ?thesis using unit_clock_sim[OF assms(1,2), of "ce_arrivalClock e"] assms(3) by (auto simp: settle_event_def)
qed

lemma those_map_all2:
  assumes "\<And>x. x \<in> set xs \<Longrightarrow> \<exists>y. f x = Some y \<and> P x y"
  shows "\<exists>ys. those (map f xs) = Some ys \<and> list_all2 P xs ys"
  using assms by (induction xs) fastforce+

lemma list_all2_mem_right: "list_all2 P xs ys \<Longrightarrow> y \<in> set ys \<Longrightarrow> \<exists>x \<in> set xs. P x y"
  by (induction rule: list_all2_induct) auto

lemma unit_clock_set:
  assumes "unit_clock off now c" "exact_conv conv" "oc_clockEventTime c = -1"
  shows "\<exists>c'. setClockTime conv drifting_ops (reset_tick_offset conv True now) now new 0 c = Some c' \<and>
    unit_clock (new - now) now c' \<and> oc_clockEventTime c' = -1"
proof (cases "new = now + off")
  case True
  then have "setClockTime conv drifting_ops (reset_tick_offset conv True now) now new 0 c = Some c"
    using unit_clock_shows[OF assms(1,2)] assms(3) by (simp add: setClockTime_def)
  with True assms(1,3) show ?thesis by auto
next
  case False
  let ?c = "c\<lparr>oc_originSimulationTime := now, oc_originClockTime := new, oc_compensation := 0\<rparr>"
  have u: "unit_clock (new - now) now ?c" using assms(1) by (auto simp: unit_clock_def)
  have "\<exists>es. those (map (settle_event conv drifting_ops now (now + (new - now)) (new - (now + off)) ?c) (oc_events c)) = Some es \<and>
      list_all2 (\<lambda>e e'. ce_relative e' = ce_relative e \<and> ce_mode e' = ce_mode e) (oc_events c) es"
    by (rule those_map_all2, rule unit_clock_settle[OF u assms(2)]) (use assms(1,3) in \<open>auto simp: unit_clock_def\<close>)
  then obtain es where es: "those (map (settle_event conv drifting_ops now new (new - (now + off)) ?c) (oc_events c)) = Some es"
    "list_all2 (\<lambda>e e'. ce_relative e' = ce_relative e \<and> ce_mode e' = ce_mode e) (oc_events c) es" by auto
  have "ce_relative e \<or> effective_mode (oc_defaultMode c) e = EXECUTE" if "e \<in> set es" for e
  proof -
    from that obtain e0 where "e0 \<in> set (oc_events c)" "ce_relative e = ce_relative e0" "ce_mode e = ce_mode e0"
      using list_all2_mem_right[OF es(2)] by blast
    with assms(1) show ?thesis by (auto simp: unit_clock_def effective_mode_def)
  qed
  then have "unit_clock (new - now) now (?c\<lparr>oc_events := es\<rparr>)" using u by (auto simp: unit_clock_def effective_mode_def)
  moreover have "setClockTime conv drifting_ops (reset_tick_offset conv True now) now new 0 c = Some (?c\<lparr>oc_events := es\<rparr>)"
    using False unit_clock_shows[OF assms(1,2)] unit_clock_reset[OF assms(1,2)] unit_clock_shows[OF u assms(2)] assms(3) es(1)
    by (simp add: setClockTime_def Let_def)
  ultimately show ?thesis using assms(3) by (intro exI[of _ "?c\<lparr>oc_events := es\<rparr>"]) simp
qed


section \<open>Synchronization along a chain of bridges\<close>

text \<open>
  A hop from a port of the upstream node to an interface of the downstream node: the end of the transmission of
  the sync message, the propagation delay, and the times the downstream node handles the sync and the follow-up
  message.
\<close>

record sync_hop =
  hp_port :: int
  hp_interface :: int
  hp_delay :: simtime
  hp_sent :: simtime
  hp_sync :: simtime
  hp_followUp :: simtime

definition run_hop :: "(real \<Rightarrow> int) \<Rightarrow> sync_hop \<Rightarrow> gptp_msg \<Rightarrow> gptp \<Rightarrow> gptp \<Rightarrow> (gptp \<times> (int \<times> gptp_msg) list) option" where
  "run_hop conv h sync up down =
     do {
       (up, out) \<leftarrow> transmissionEnded conv (hp_sent h) (hp_port h) sync up;
       followUp \<leftarrow> map_of out (hp_port h);
       packet \<leftarrow> receptionEnded conv (hp_sent h + hp_delay h) \<lparr>gk_msg = sync, gk_interface = hp_interface h, gk_ingress = None\<rparr> down;
       (down, out) \<leftarrow> gptp_handleMessage conv (hp_sync h) packet down;
       gptp_handleMessage conv (hp_followUp h) \<lparr>gk_msg = followUp, gk_interface = hp_interface h, gk_ingress = None\<rparr> down
     }"

fun run_chain :: "(real \<Rightarrow> int) \<Rightarrow> gptp \<Rightarrow> (int \<times> gptp_msg) list \<Rightarrow> (sync_hop \<times> gptp) list \<Rightarrow> gptp list option" where
  "run_chain conv up out [] = Some []"
| "run_chain conv up out ((h, down) # hops) =
     do {
       sync \<leftarrow> map_of out (hp_port h);
       (down, out) \<leftarrow> run_hop conv h sync up down;
       rest \<leftarrow> run_chain conv down out hops;
       Some (down # rest)
     }"

text \<open>
  A node that can be synchronized over \<open>h\<close> to a clock of offset \<open>u\<close>: it has measured the delay of the link, and
  what it has kept of an earlier sync message fits to the rate of its clock.
\<close>

definition hop_ready :: "clocktime \<Rightarrow> sync_hop \<Rightarrow> gptp \<Rightarrow> bool" where
  "hop_ready u h n \<longleftrightarrow> gn_nodeType n \<noteq> MASTER_NODE \<and> gn_slavePortId n = hp_interface h \<and> gn_peerDelay n = hp_delay h \<and>
     oc_clockEventTime (gn_clock n) = -1 \<and>
     (\<exists>off. unit_clock off (hp_sent h + hp_delay h) (gn_clock n) \<and>
        (gn_oldPeerSentTimeSync n = -1 \<or> gn_oldPeerSentTimeSync n \<noteq> hp_sent h + u \<and>
           gn_receivedTimeSync n = gn_oldPeerSentTimeSync n + hp_delay h + (off - u)))"

fun chain_ready :: "int \<Rightarrow> clocktime \<Rightarrow> simtime \<Rightarrow> int list \<Rightarrow> (sync_hop \<times> gptp) list \<Rightarrow> bool" where
  "chain_ready d u t ports [] = True"
| "chain_ready d u t ports ((h, n) # hops) =
     (hp_port h \<in> set ports \<and> t \<le> hp_sent h \<and> 0 \<le> hp_delay h \<and> hp_sent h + hp_delay h \<le> hp_sync h \<and>
      hp_sync h \<le> hp_followUp h \<and> gn_domainNumber n = d \<and> (hops = [] \<or> gn_nodeType n = BRIDGE_NODE) \<and> hop_ready u h n \<and>
      chain_ready d u (hp_followUp h) (gn_masterPortIds n) hops)"

lemma synchronize_unit:
  assumes "unit_clock off now (gn_clock n)" "exact_conv conv" "oc_clockEventTime (gn_clock n) = -1" "gn_nodeType n \<noteq> MASTER_NODE"
    and "gn_oldPeerSentTimeSync n = -1 \<or> gn_syncIngressTimestamp n \<noteq> gn_receivedTimeSync n \<and>
      gn_peerSentTimeSync n - gn_oldPeerSentTimeSync n = gn_syncIngressTimestamp n - gn_receivedTimeSync n"
    and new: "new = gn_originTimestamp n + gn_correctionField n + gn_peerDelay n + (now + off - gn_syncIngressTimestamp n)"
  shows "\<exists>c. unit_clock (new - now) now c \<and> oc_clockEventTime c = -1 \<and> synchronize conv now n =
    Some (n\<lparr>gn_clock := c, gn_gmRateRatio := 1, gn_oldLocalTimeAtTimeSync := now + off, gn_newLocalTimeAtTimeSync := new,
      gn_pdelayRespEventIngressTimestamp := gn_pdelayRespEventIngressTimestamp n + (new - (now + off)),
      gn_pdelayReqEventEgressTimestamp := gn_pdelayReqEventEgressTimestamp n + (new - (now + off)),
      gn_receivedTimeSync := gn_syncIngressTimestamp n + (new - (now + off)),
      gn_oldPeerSentTimeSync := gn_peerSentTimeSync n\<rparr>)"
proof -
  let ?ratio = "if gn_oldPeerSentTimeSync n = -1 then Some 1
      else do {
        ensure (gn_syncIngressTimestamp n \<noteq> gn_receivedTimeSync n);
        Some (of_int (gn_peerSentTimeSync n - gn_oldPeerSentTimeSync n) /
              of_int (gn_syncIngressTimestamp n - gn_receivedTimeSync n))
      }"
  have r: "?ratio = Some (1 :: real)" using assms(5) by auto
  have comp: "1 * (1 + oc_compensation (gn_clock n)) - 1 = 0" using assms(1) by (simp add: unit_clock_def)
  obtain c where c: "setClockTime conv drifting_ops (reset_tick_offset conv True now) now new 0 (gn_clock n) = Some c"
    "unit_clock (new - now) now c" "oc_clockEventTime c = -1"
    using unit_clock_set[OF assms(1-3), of new] by blast
  have "getClockTime conv drifting_ops now c = Some new" using unit_clock_shows[OF c(2) assms(2)] c(3) by simp
  moreover have "gptp_time conv now n = Some (now + off)"
    using unit_clock_shows[OF assms(1,2)] assms(3) by (simp add: gptp_time_def)
  ultimately have "synchronize conv now n =
    Some (n\<lparr>gn_clock := c, gn_gmRateRatio := 1, gn_oldLocalTimeAtTimeSync := now + off, gn_newLocalTimeAtTimeSync := new,
      gn_pdelayRespEventIngressTimestamp := gn_pdelayRespEventIngressTimestamp n + (new - (now + off)),
      gn_pdelayReqEventEgressTimestamp := gn_pdelayReqEventEgressTimestamp n + (new - (now + off)),
      gn_receivedTimeSync := gn_syncIngressTimestamp n + (new - (now + off)),
      gn_oldPeerSentTimeSync := gn_peerSentTimeSync n\<rparr>)"
    using assms(4) c(1) by (simp only: synchronize_def Let_def r Option.bind.simps comp new[symmetric] ensure_simps simp_thms)
  with c show ?thesis by blast
qed

text \<open>What a hop leaves: the clock follows the upstream clock, the configuration is unchanged.\<close>

definition hop_synced :: "clocktime \<Rightarrow> sync_hop \<Rightarrow> gptp \<Rightarrow> gptp \<Rightarrow> bool" where
  "hop_synced u h n n' \<longleftrightarrow> unit_clock u (hp_followUp h) (gn_clock n') \<and> oc_clockEventTime (gn_clock n') = -1 \<and>
     gn_nodeType n' = gn_nodeType n \<and> gn_domainNumber n' = gn_domainNumber n \<and> gn_slavePortId n' = gn_slavePortId n \<and>
     gn_masterPortIds n' = gn_masterPortIds n \<and> gn_peerDelay n' = gn_peerDelay n \<and> gn_gmRateRatio n' = 1 \<and>
     gn_oldPeerSentTimeSync n' = hp_sent h + u \<and> gn_receivedTimeSync n' = hp_sent h + u + hp_delay h"

lemma map_of_same: "p \<in> set ps \<Longrightarrow> map_of (map (\<lambda>p. (p, x)) ps) p = Some x"
  by (induction ps) auto

definition keeps_config :: "gptp \<Rightarrow> gptp \<Rightarrow> bool" where
  "keeps_config n' n \<longleftrightarrow> gn_clock n' = gn_clock n \<and> gn_nodeType n' = gn_nodeType n \<and> gn_domainNumber n' = gn_domainNumber n \<and>
     gn_slavePortId n' = gn_slavePortId n \<and> gn_masterPortIds n' = gn_masterPortIds n \<and> gn_peerDelay n' = gn_peerDelay n \<and>
     gn_gmRateRatio n' = gn_gmRateRatio n \<and> gn_oldPeerSentTimeSync n' = gn_oldPeerSentTimeSync n \<and>
     gn_receivedTimeSync n' = gn_receivedTimeSync n \<and> gn_syncInterval n' = gn_syncInterval n"

lemma sendSync_unit:
  assumes "unit_clock u t (gn_clock n)" "exact_conv conv" "oc_clockEventTime (gn_clock n) = -1 \<or> oc_clockEventTime (gn_clock n) = t + u"
    and "0 \<le> gn_domainNumber n" "gn_domainNumber n < 256"
  shows "\<exists>n' b. sendSync conv t n = Some (n', map (\<lambda>p. (p, GptpSync b)) (gn_masterPortIds n)) \<and>
    uint (gb_domainNumber b) = gn_domainNumber n \<and> keeps_config n' n"
proof -
  have "gptp_time conv t n = Some (t + u)" using unit_clock_shows[OF assms(1-3)] by (simp add: gptp_time_def)
  moreover have "uint (word_of_int (gn_domainNumber n) :: 8 word) = gn_domainNumber n"
    using assms(4,5) by (simp add: uint_word_of_int take_bit_int_eq_self)
  ultimately show ?thesis
    by (intro exI[of _ "(if gn_nodeType n = MASTER_NODE then n\<lparr>gn_originTimestamp := t + u\<rparr> else n)
          \<lparr>gn_sequenceId := gn_sequenceId n + 1, gn_sentTimeSyncSync := t + u\<rparr>"] exI[of _ "new_base 44 twoStepFlag
          \<lparr>gb_domainNumber := word_of_int (gn_domainNumber n), gb_sequenceId := gn_sequenceId n\<rparr>"])
      (simp add: sendSync_def Let_def keeps_config_def)
qed

lemma run_hop_syncs:
  assumes "exact_conv conv" and up: "unit_clock u t (gn_clock up)" "t \<le> hp_sent h" "oc_clockEventTime (gn_clock up) = -1"
      "gn_nodeType up \<noteq> SLAVE_NODE" "gn_domainNumber up = uint (gb_domainNumber b)"
    and h: "0 \<le> hp_delay h" "hp_sent h + hp_delay h \<le> hp_sync h" "hp_sync h \<le> hp_followUp h"
    and down: "gn_domainNumber down = uint (gb_domainNumber b)" "hop_ready u h down"
  shows "\<exists>down' out. run_hop conv h (GptpSync b) up down = Some (down', out) \<and> hop_synced u h down down' \<and>
    (gn_nodeType down = BRIDGE_NODE \<longrightarrow>
      (\<exists>b'. uint (gb_domainNumber b') = uint (gb_domainNumber b) \<and> out = map (\<lambda>p. (p, GptpSync b')) (gn_masterPortIds down)))"
proof -
  let ?t = "hp_sent h + hp_delay h" and ?f = "hp_followUp h"
  obtain off where r: "unit_clock off ?t (gn_clock down)" "oc_clockEventTime (gn_clock down) = -1"
    "gn_oldPeerSentTimeSync down = -1 \<or> gn_oldPeerSentTimeSync down \<noteq> hp_sent h + u \<and>
       gn_receivedTimeSync down = gn_oldPeerSentTimeSync down + hp_delay h + (off - u)"
    and c: "gn_nodeType down \<noteq> MASTER_NODE" "gn_slavePortId down = hp_interface h" "gn_peerDelay down = hp_delay h"
    using down(2) unfolding hop_ready_def by blast
  let ?fu = "sendFollowUp b (hp_sent h + u) up"
  have "gptp_time conv (hp_sent h) up = Some (hp_sent h + u)"
    using unit_clock_shows[OF unit_clock_later[OF up(1,2)] assms(1)] up(3) by (simp add: gptp_time_def)
  then have 1: "transmissionEnded conv (hp_sent h) (hp_port h) (GptpSync b) up = Some (up, [(hp_port h, ?fu)])"
    using up(5) by (simp add: transmissionEnded_def handleDelayOrSendFollowUp_def)
  have "gptp_time conv ?t down = Some (?t + off)" using unit_clock_shows[OF r(1) assms(1)] r(2) by (simp add: gptp_time_def)
  then have 2: "receptionEnded conv ?t \<lparr>gk_msg = GptpSync b, gk_interface = hp_interface h, gk_ingress = None\<rparr> down =
      Some \<lparr>gk_msg = GptpSync b, gk_interface = hp_interface h, gk_ingress = Some (?t + off)\<rparr>"
    using down(1) by (simp add: receptionEnded_def)
  define n where "n = down\<lparr>gn_rcvdGptpSync := True, gn_lastReceivedGptpSyncSequenceId := gb_sequenceId b, gn_syncIngressTimestamp := ?t + off\<rparr>"
  have 3: "gptp_handleMessage conv (hp_sync h) \<lparr>gk_msg = GptpSync b, gk_interface = hp_interface h, gk_ingress = Some (?t + off)\<rparr> down =
      Some (n, [])"
    using down(1) c(2) by (simp add: gptp_handleMessage_def processSync_def n_def)
  define m where "m = n\<lparr>gn_originTimestamp := gn_originTimestamp up, gn_correctionField := hp_sent h + u - gn_originTimestamp up,
      gn_peerSentTimeSync := hp_sent h + u, gn_receivedRateRatio := gn_gmRateRatio up\<rparr>"
  have clk: "unit_clock off ?f (gn_clock m)" "oc_clockEventTime (gn_clock m) = -1" "gn_nodeType m \<noteq> MASTER_NODE"
    using unit_clock_later[OF r(1), of ?f] h r(2) c(1) by (simp_all add: m_def n_def)
  have rate: "gn_oldPeerSentTimeSync m = -1 \<or> gn_syncIngressTimestamp m \<noteq> gn_receivedTimeSync m \<and>
      gn_peerSentTimeSync m - gn_oldPeerSentTimeSync m = gn_syncIngressTimestamp m - gn_receivedTimeSync m"
    using r(3) by (auto simp: m_def n_def)
  have new: "?f + u = gn_originTimestamp m + gn_correctionField m + gn_peerDelay m + (?f + off - gn_syncIngressTimestamp m)"
    using c(3) by (simp add: m_def n_def)
  obtain cl where cl: "unit_clock u ?f cl" "oc_clockEventTime cl = -1" and s: "synchronize conv ?f m =
      Some (m\<lparr>gn_clock := cl, gn_gmRateRatio := 1, gn_oldLocalTimeAtTimeSync := ?f + off, gn_newLocalTimeAtTimeSync := ?f + u,
        gn_pdelayRespEventIngressTimestamp := gn_pdelayRespEventIngressTimestamp m + (?f + u - (?f + off)),
        gn_pdelayReqEventEgressTimestamp := gn_pdelayReqEventEgressTimestamp m + (?f + u - (?f + off)),
        gn_receivedTimeSync := gn_syncIngressTimestamp m + (?f + u - (?f + off)),
        gn_oldPeerSentTimeSync := gn_peerSentTimeSync m\<rparr>)"
    using synchronize_unit[OF clk(1) assms(1) clk(2,3) rate new] by (simp only: add_diff_cancel_left') (elim exE conjE, rule that)
  define n' where "n' = (the (synchronize conv ?f m))\<lparr>gn_rcvdGptpSync := False\<rparr>"
  have p: "processFollowUp conv ?f (new_base 76 0\<lparr>gb_domainNumber := word_of_int (gn_domainNumber up), gb_sequenceId := gb_sequenceId b,
          gb_correctionField := hp_sent h + u - gn_originTimestamp up\<rparr>) (gn_originTimestamp up) (gn_gmRateRatio up) n = Some n'"
    using s by (simp add: processFollowUp_def n'_def m_def n_def)
  have f: "hop_synced u h down n'" "gn_clock n' = cl" "gn_domainNumber n' = uint (gb_domainNumber b)" "gn_nodeType n' = gn_nodeType down"
      "gn_masterPortIds n' = gn_masterPortIds down"
    using s cl c(2,3) down(1) by (simp_all add: hop_synced_def n'_def m_def n_def)
  have dom: "uint (word_of_int (gn_domainNumber up) :: 8 word) = gn_domainNumber n" by (simp add: up(5) down(1) n_def)
  have 4: "gptp_handleMessage conv ?f \<lparr>gk_msg = ?fu, gk_interface = hp_interface h, gk_ingress = None\<rparr> n =
      (if gn_nodeType down = BRIDGE_NODE then sendSync conv ?f n' else Some (n', []))"
    using p dom c(2) up(4) f(4) by (simp add: gptp_handleMessage_def sendFollowUp_def n_def)
  obtain n2 b' where s2: "sendSync conv ?f n' = Some (n2, map (\<lambda>p. (p, GptpSync b')) (gn_masterPortIds n'))"
    "uint (gb_domainNumber b') = gn_domainNumber n'"
    "keeps_config n2 n'"
    using sendSync_unit[where conv = conv and t = ?f and n = n' and u = u] cl assms(1) f(2,3)
      uint_bounded[of "gb_domainNumber b"] by auto
  have "hop_synced u h down n2" using s2(3) f(1) by (simp add: hop_synced_def keeps_config_def)
  then show ?thesis using 1 2 3 4 s2(1,2) f by (cases "gn_nodeType down = BRIDGE_NODE") (auto simp: run_hop_def)
qed

lemma run_chain_syncs:
  assumes "exact_conv conv"
  shows "unit_clock u t (gn_clock up) \<Longrightarrow> oc_clockEventTime (gn_clock up) = -1 \<Longrightarrow> gn_nodeType up \<noteq> SLAVE_NODE \<Longrightarrow>
    gn_domainNumber up = d \<Longrightarrow> uint (gb_domainNumber b) = d \<Longrightarrow> chain_ready d u t ports hops \<Longrightarrow>
    \<exists>ns. run_chain conv up (map (\<lambda>p. (p, GptpSync b)) ports) hops = Some ns \<and>
      list_all2 (\<lambda>(h, n) n'. hop_synced u h n n') hops ns"
proof (induction hops arbitrary: up t ports b)
  case (Cons a hops)
  obtain h n where a: "a = (h, n)" by (cases a)
  note r = Cons.prems(6)[unfolded a chain_ready.simps]
  have "\<exists>n' out. run_hop conv h (GptpSync b) up n = Some (n', out) \<and> hop_synced u h n n' \<and>
    (gn_nodeType n = BRIDGE_NODE \<longrightarrow>
      (\<exists>b'. uint (gb_domainNumber b') = uint (gb_domainNumber b) \<and> out = map (\<lambda>p. (p, GptpSync b')) (gn_masterPortIds n)))"
    by (rule run_hop_syncs[OF assms Cons.prems(1) _ Cons.prems(2,3)]) (use Cons.prems(4,5) r in simp_all)
  then obtain n' out where h: "run_hop conv h (GptpSync b) up n = Some (n', out)" "hop_synced u h n n'"
    "gn_nodeType n = BRIDGE_NODE \<longrightarrow>
      (\<exists>b'. uint (gb_domainNumber b') = uint (gb_domainNumber b) \<and> out = map (\<lambda>p. (p, GptpSync b')) (gn_masterPortIds n))" by blast
  have "\<exists>ns. run_chain conv n' out hops = Some ns \<and> list_all2 (\<lambda>(h, n) n'. hop_synced u h n n') hops ns"
  proof (cases "hops = []")
    case False
    with r h(3) obtain b' where b: "uint (gb_domainNumber b') = d" "out = map (\<lambda>p. (p, GptpSync b')) (gn_masterPortIds n)"
      and t: "gn_nodeType n = BRIDGE_NODE" using Cons.prems(5) by auto
    show ?thesis unfolding b(2)
      by (rule Cons.IH[of "hp_followUp h"]) (use h(2) r t b(1) in \<open>auto simp: hop_synced_def\<close>)
  qed simp
  then show ?case using h(1,2) a r map_of_same[of "hp_port h" ports "GptpSync b"] by auto
qed simp

text \<open>After a hop a node is ready for the next sync message over the same link.\<close>

lemma hop_synced_ready:
  assumes "hop_synced u h n n'" "hop_ready u h n" "hp_delay h' = hp_delay h" "hp_interface h' = hp_interface h"
    and "hp_sent h < hp_sent h'" "hp_followUp h \<le> hp_sent h' + hp_delay h'"
  shows "hop_ready u h' n'"
proof -
  have "unit_clock u (hp_sent h' + hp_delay h') (gn_clock n')"
    using assms(1,6) unit_clock_later by (auto simp: hop_synced_def)
  then show ?thesis unfolding hop_ready_def
    using assms(1-5) by (intro conjI exI[of _ u]) (auto simp: hop_synced_def hop_ready_def)
qed

lemma chain_ready_all2:
  assumes "list_all2 (\<lambda>(h, n) n'. hop_synced u h n n') hops ns"
  shows "chain_ready d u t ports hops \<Longrightarrow>
    list_all2 (\<lambda>(h, n) n'. hop_ready u h n \<and> t \<le> hp_followUp h \<and> hop_synced u h n n') hops ns"
  using assms
proof (induction hops ns arbitrary: t ports rule: list_all2_induct)
  case (Cons a hops n' ns)
  obtain h n where a: "a = (h, n)" by (cases a)
  have "list_all2 (\<lambda>(h, n) n'. hop_ready u h n \<and> hp_followUp (fst a) \<le> hp_followUp h \<and> hop_synced u h n n') hops ns"
    using Cons.IH[of "hp_followUp h" "gn_masterPortIds n"] Cons.prems a by simp
  then have "list_all2 (\<lambda>(h, n) n'. hop_ready u h n \<and> t \<le> hp_followUp h \<and> hop_synced u h n n') hops ns"
    by (rule list_all2_mono) (use Cons.prems a in auto)
  then show ?case using Cons a by simp
qed simp

text \<open>
  C15. One round of the protocol over a chain of bridges (links of constant, measured delay, clocks of the nominal
  rate with any offsets): when the timer of the grandmaster has sent its sync messages and every node has handled
  the sync and the follow-up message of its predecessor, no handler has failed, every clock of the chain shows the
  time of the grandmaster from the moment its node has handled the follow-up message on, and every node is ready
  for the next round over the same link.
\<close>

theorem sync_reaches_all_clocks:
  assumes "exact_conv conv" "gn_nodeType master = MASTER_NODE" "gn_domainNumber master = d" "0 \<le> d" "d < 256"
    and "unit_clock u t (gn_clock master)" "ce_id e = 0" "ce_arrivalClock e = t + u" "0 \<le> gn_syncInterval master"
    and "chain_ready d u t (gn_masterPortIds master) hops"
  shows "\<exists>master' out ns. gptp_timer conv t e master = Some (master', out) \<and> run_chain conv master' out hops = Some ns \<and>
    list_all2 (\<lambda>(h, n) n'.
      (\<forall>s \<ge> hp_followUp h. gptp_time conv s n' = Some (s + u) \<and> gptp_time conv s master' = Some (s + u)) \<and>
      (\<forall>h'. hp_delay h' = hp_delay h \<and> hp_interface h' = hp_interface h \<and> hp_sent h < hp_sent h' \<and>
         hp_followUp h \<le> hp_sent h' + hp_delay h' \<longrightarrow> hop_ready u h' n')) hops ns"
proof -
  let ?c = "(cancelClockEvent 0 (gn_clock master))\<lparr>oc_clockEventTime := t + u\<rparr>"
  let ?m = "master\<lparr>gn_clock := ?c\<rparr>"
  have c: "unit_clock u t ?c" "oc_clockEventTime ?c = t + u" using unit_clock_cancel[OF assms(6)] by simp_all
  obtain m1 b where m1: "sendSync conv t ?m = Some (m1, map (\<lambda>p. (p, GptpSync b)) (gn_masterPortIds master))"
    "uint (gb_domainNumber b) = d" "keeps_config m1 ?m"
    using sendSync_unit[where conv = conv and t = t and n = ?m and u = u] c assms(1,3-5) by auto
  let ?e = "\<lparr>ce_id = 0, ce_relative = False, ce_arrivalClock = -1, ce_arrivalSim = 0, ce_mode = UNSPECIFIED\<rparr>"
  obtain c2 where c2: "scheduleClockEventAfter conv drifting_ops t (gn_syncInterval master) ?e ?c = Some c2" "unit_clock u t c2"
    using unit_clock_schedule[OF c(1) assms(1) disjI2[OF c(2)] assms(9), of ?e] by (elim exE conjE) (rule that)
  define m2 where "m2 = m1\<lparr>gn_clock := c2\<lparr>oc_clockEventTime := -1\<rparr>\<rparr>"
  have 1: "gptp_timer conv t e master = Some (m2, map (\<lambda>p. (p, GptpSync b)) (gn_masterPortIds master))"
    using m1(1,3) c2(1) assms(7,8)
    by (simp add: gptp_timer_def handleSelfMessage_def schedule_self_def m2_def keeps_config_def)
  have m2: "unit_clock u t (gn_clock m2)" "oc_clockEventTime (gn_clock m2) = -1" "gn_nodeType m2 \<noteq> SLAVE_NODE" "gn_domainNumber m2 = d"
    using c2(2) m1(3) assms(2,3) by (simp_all add: m2_def keeps_config_def)
  obtain ns where ns: "run_chain conv m2 (map (\<lambda>p. (p, GptpSync b)) (gn_masterPortIds master)) hops = Some ns"
    "list_all2 (\<lambda>(h, n) n'. hop_synced u h n n') hops ns"
    using run_chain_syncs[OF assms(1) m2 m1(2) assms(10)] by blast
  have shows_time: "gptp_time conv s n = Some (s + u)"
    if "unit_clock u r (gn_clock n)" "oc_clockEventTime (gn_clock n) = -1" "r \<le> s" for n r s
    using unit_clock_shows[OF unit_clock_later[OF that(1,3)] assms(1)] that(2) by (simp add: gptp_time_def)
  have "list_all2 (\<lambda>(h, n) n'. hop_ready u h n \<and> t \<le> hp_followUp h \<and> hop_synced u h n n') hops ns"
    by (rule chain_ready_all2[OF ns(2) assms(10)])
  then have "list_all2 (\<lambda>(h, n) n'.
      (\<forall>s \<ge> hp_followUp h. gptp_time conv s n' = Some (s + u) \<and> gptp_time conv s m2 = Some (s + u)) \<and>
      (\<forall>h'. hp_delay h' = hp_delay h \<and> hp_interface h' = hp_interface h \<and> hp_sent h < hp_sent h' \<and>
         hp_followUp h \<le> hp_sent h' + hp_delay h' \<longrightarrow> hop_ready u h' n')) hops ns"
    by (rule list_all2_mono) (auto simp: hop_synced_def intro!: shows_time m2(1,2) intro: hop_synced_ready[unfolded hop_synced_def])
  with 1 ns(1) show ?thesis by blast
qed

text \<open>A grandmaster, a bridge with an offset of 500 and a slave that is 40 behind; the links take 10 and 20.\<close>

definition sample_unit_clock :: "clocktime \<Rightarrow> oscillator oclock" where
  "sample_unit_clock off = \<lparr>oc_oscillator = \<lparr>os_nominalTickLength = 1, os_driftRate = 0, os_inverseDriftRate = 0,
       os_origin = 0, os_nextTickFromOrigin = 0\<rparr>,
     oc_rounding = RoundDown, oc_originSimulationTime = 0, oc_originClockTime = off, oc_clockEventTime = -1,
     oc_compensation = 0, oc_events = [], oc_defaultMode = EXECUTE\<rparr>"

definition sample_node :: "gptp_node_type \<Rightarrow> int \<Rightarrow> int list \<Rightarrow> clocktime \<Rightarrow> clocktime \<Rightarrow> gptp" where
  "sample_node type slave masters delay off = \<lparr>gn_nodeType = type, gn_domainNumber = 0, gn_slavePortId = slave,
     gn_masterPortIds = masters, gn_correctionField = 0, gn_clockIdentity = 7, gn_gmRateRatio = 1, gn_receivedRateRatio = 1,
     gn_originTimestamp = 0, gn_receivedTimeSync = 0, gn_syncInterval = 1000, gn_pdelayInterval = 1000, gn_sequenceId = 0,
     gn_lastSentPdelayReqSequenceId = 0, gn_peerDelay = delay, gn_peerRequestReceiptTimestamp = 0,
     gn_peerResponseOriginTimestamp = 0, gn_pdelayRespEventIngressTimestamp = 0, gn_pdelayReqEventEgressTimestamp = 0,
     gn_pDelayReqProcessingTime = 5, gn_rcvdPdelayResp = False, gn_sentTimeSyncSync = 0, gn_newLocalTimeAtTimeSync = 0,
     gn_oldLocalTimeAtTimeSync = 0, gn_peerSentTimeSync = 0, gn_oldPeerSentTimeSync = -1, gn_syncIngressTimestamp = 0,
     gn_rcvdGptpSync = False, gn_lastReceivedGptpSyncSequenceId = 0xFFFF, gn_clock = sample_unit_clock off, gn_answers = []\<rparr>"

definition sample_hops :: "(sync_hop \<times> gptp) list" where
  "sample_hops =
     [(\<lparr>hp_port = 101, hp_interface = 102, hp_delay = 10, hp_sent = 103, hp_sync = 113, hp_followUp = 120\<rparr>,
       sample_node BRIDGE_NODE 102 [103] 10 500),
      (\<lparr>hp_port = 103, hp_interface = 104, hp_delay = 20, hp_sent = 125, hp_sync = 145, hp_followUp = 150\<rparr>,
       sample_node SLAVE_NODE 104 [] 20 (-40))]"

lemma sample_unit_clock: "0 \<le> t \<Longrightarrow> unit_clock off t (sample_unit_clock off)"
  by (simp add: unit_clock_def sample_unit_clock_def)

lemma exact_floor: "exact_conv floor"
  by (simp add: exact_conv_def)

theorem sync_reaches_all_clocks_witness:
  "\<exists>master' out ns. gptp_timer floor 100 \<lparr>ce_id = 0, ce_relative = True, ce_arrivalClock = 100, ce_arrivalSim = 100, ce_mode = UNSPECIFIED\<rparr>
      (sample_node MASTER_NODE (-1) [101] 0 0) = Some (master', out) \<and>
     run_chain floor master' out sample_hops = Some ns \<and> gptp_time floor 200 (ns ! 1) = Some 200"
proof -
  have hop: "hop_ready 0 h (sample_node type slave masters (hp_delay h) off)"
    if "type \<noteq> MASTER_NODE" "slave = hp_interface h" "0 \<le> hp_sent h + hp_delay h" for h type slave masters off
    unfolding hop_ready_def using that sample_unit_clock[of "hp_sent h + hp_delay h" off]
    by (auto simp: sample_node_def) (simp add: sample_unit_clock_def)
  have r: "chain_ready 0 0 100 (gn_masterPortIds (sample_node MASTER_NODE (-1) [101] 0 0)) sample_hops"
    using hop[of BRIDGE_NODE 102 "fst (sample_hops ! 0)" "[103]" 500] hop[of SLAVE_NODE 104 "fst (sample_hops ! 1)" "[]" "-40"]
    by (simp add: sample_hops_def) (simp add: sample_node_def)
  let ?e = "\<lparr>ce_id = 0, ce_relative = True, ce_arrivalClock = 100, ce_arrivalSim = 100, ce_mode = UNSPECIFIED\<rparr>"
  let ?m = "sample_node MASTER_NODE (-1) [101] 0 0"
  have m: "gn_nodeType ?m = MASTER_NODE" "gn_domainNumber ?m = 0" "(0::int) < 256" "unit_clock 0 100 (gn_clock ?m)"
    "ce_id ?e = 0" "ce_arrivalClock ?e = 100 + 0" "0 \<le> gn_syncInterval ?m"
    using sample_unit_clock[of 100 0] by (simp_all add: sample_node_def)
  obtain master' out ns where 1: "gptp_timer floor 100 ?e ?m = Some (master', out)" "run_chain floor master' out sample_hops = Some ns"
    and a: "list_all2 (\<lambda>(h, n) n'.
      (\<forall>s \<ge> hp_followUp h. gptp_time floor s n' = Some (s + 0) \<and> gptp_time floor s master' = Some (s + 0)) \<and>
      (\<forall>h'. hp_delay h' = hp_delay h \<and> hp_interface h' = hp_interface h \<and> hp_sent h < hp_sent h' \<and>
         hp_followUp h \<le> hp_sent h' + hp_delay h' \<longrightarrow> hop_ready 0 h' n')) sample_hops ns"
    using sync_reaches_all_clocks[OF exact_floor m(1,2) order_refl m(3-7) r] by (elim exE conjE) (rule that)
  have "gptp_time floor 200 (ns ! 1) = Some 200"
    using list_all2_nthD[OF a, of 1] by (simp add: sample_hops_def)
  with 1 show ?thesis by blast
qed


section \<open>The measurement of the peer delay\<close>

text \<open>
  One exchange between the slave port of \<open>s\<close> and the port \<open>port\<close> of \<open>m\<close>: the timer \<open>e\<close> of \<open>s\<close> at \<open>t0\<close>, the end of the
  transmission of the request at \<open>t1\<close>, its handling at \<open>r\<close>, the answer after the processing time, the end of its
  transmission at \<open>t2\<close>, and the handling of the answer and of its follow-up at \<open>r2\<close> and \<open>r3\<close>.
\<close>

definition run_pdelay ::
  "(real \<Rightarrow> int) \<Rightarrow> int \<Rightarrow> simtime \<Rightarrow> clock_event \<Rightarrow> simtime \<Rightarrow> simtime \<Rightarrow> simtime \<Rightarrow> simtime \<Rightarrow> simtime \<Rightarrow> simtime \<Rightarrow> gptp \<Rightarrow> gptp \<Rightarrow>
   (gptp \<times> gptp) option" where
  "run_pdelay conv port delay e t0 t1 r t2 r2 r3 s m =
     do {
       (s, out) \<leftarrow> gptp_timer conv t0 e s;
       req \<leftarrow> map_of out (gn_slavePortId s);
       (s, out) \<leftarrow> transmissionEnded conv t1 (gn_slavePortId s) req s;
       packet \<leftarrow> receptionEnded conv (t1 + delay) \<lparr>gk_msg = req, gk_interface = port, gk_ingress = None\<rparr> m;
       (m, out) \<leftarrow> gptp_handleMessage conv r packet m;
       let answer = last (oc_events (gn_clock m));
       (m, out) \<leftarrow> gptp_timer conv (ce_arrivalSim answer) answer m;
       resp \<leftarrow> map_of out port;
       (m, out) \<leftarrow> transmissionEnded conv t2 port resp m;
       followUp \<leftarrow> map_of out port;
       packet \<leftarrow> receptionEnded conv (t2 + delay) \<lparr>gk_msg = resp, gk_interface = gn_slavePortId s, gk_ingress = None\<rparr> s;
       (s, out) \<leftarrow> gptp_handleMessage conv r2 packet s;
       (s, out) \<leftarrow> gptp_handleMessage conv r3 \<lparr>gk_msg = followUp, gk_interface = gn_slavePortId s, gk_ingress = None\<rparr> s;
       Some (s, m)
     }"

lemma fold_max_start: "a \<le> fold max xs (a :: nat)"
proof (induction xs arbitrary: a)
  case (Cons y ys)
  show ?case using Cons[of "max y a"] by simp
qed simp

lemma fold_max_mem: "x \<in> set xs \<Longrightarrow> x \<le> fold max xs (a :: nat)"
proof (induction xs arbitrary: a)
  case (Cons y ys)
  then show ?case using fold_max_start[of "max y a" ys] by (cases "x = y") simp_all
qed simp

lemma new_event_id_fresh: "a \<in> set (gn_answers n) \<Longrightarrow> ans_event a < new_event_id n" "1 < new_event_id n"
  using fold_max_mem[of "ans_event a" "map ce_id (oc_events (gn_clock n)) @ map ans_event (gn_answers n)" 1]
    fold_max_start[of 1 "map ce_id (oc_events (gn_clock n)) @ map ans_event (gn_answers n)"]
  by (simp_all add: new_event_id_def less_Suc_eq_le)

lemma find_last: "(\<And>a. a \<in> set as \<Longrightarrow> \<not> P a) \<Longrightarrow> P x \<Longrightarrow> find P (as @ [x]) = Some x"
  by (induction as) auto

text \<open>The request is kept for its answer, which the timer sends with the time of the reception of the request.\<close>

lemma pdelay_answer:
  assumes "exact_conv conv" "unit_clock off r (gn_clock m)" "oc_clockEventTime (gn_clock m) = -1"
    and "0 \<le> gn_pDelayReqProcessingTime m" "gk_ingress packet = Some t" "gk_msg packet = GptpPdelayReq base"
    and "gk_interface packet \<in> set (gn_masterPortIds m)" "gk_interface packet \<noteq> gn_slavePortId m"
    and "uint (gb_domainNumber base) = gn_domainNumber m"
  shows "\<exists>m' answer m''. gptp_handleMessage conv r packet m = Some (m', []) \<and> last (oc_events (gn_clock m')) = answer \<and>
    ce_arrivalSim answer = r + gn_pDelayReqProcessingTime m \<and>
    gptp_timer conv (ce_arrivalSim answer) answer m' = Some (m'', [(gk_interface packet,
      GptpPdelayResp ((new_base 54 0)\<lparr>gb_domainNumber := word_of_int (gn_domainNumber m), gb_sequenceId := gb_sequenceId base\<rparr>)
        t (gb_sourcePortIdentity base))]) \<and>
    gn_domainNumber m'' = gn_domainNumber m \<and> unit_clock off (r + gn_pDelayReqProcessingTime m) (gn_clock m'') \<and>
    oc_clockEventTime (gn_clock m'') = -1"
proof -
  let ?i = "new_event_id m" and ?p = "gn_pDelayReqProcessingTime m"
  let ?a = "\<lparr>ans_event = ?i, ans_portId = gk_interface packet, ans_ingressTimestamp = t,
      ans_sourcePortIdentity = gb_sourcePortIdentity base, ans_sequenceId = gb_sequenceId base\<rparr>"
  let ?ev = "\<lparr>ce_id = ?i, ce_relative = False, ce_arrivalClock = -1, ce_arrivalSim = 0, ce_mode = UNSPECIFIED\<rparr>"
  let ?e = "\<lparr>ce_id = ?i, ce_relative = True, ce_arrivalClock = r + off + ?p, ce_arrivalSim = r + ?p, ce_mode = UNSPECIFIED\<rparr>"
  let ?c = "(gn_clock m)\<lparr>oc_events := oc_events (gn_clock m) @ [?e]\<rparr>"
  define m' where "m' = m\<lparr>gn_clock := ?c, gn_answers := gn_answers m @ [?a]\<rparr>"
  have "scheduleClockEventAfter conv drifting_ops r ?p ?ev (gn_clock m) = Some ?c"
    using unit_clock_schedule_eq[OF assms(2,1) disjI1[OF assms(3)] assms(4), of ?ev] by simp
  then have 1: "gptp_handleMessage conv r packet m = Some (m', [])"
    using assms(5-9) by (simp add: gptp_handleMessage_def processPdelayReq_def schedule_self_def Let_def m'_def)
  have i: "?i \<noteq> 0" "?i \<noteq> 1" using new_event_id_fresh(2)[of m] by auto
  have f: "find (\<lambda>a. ans_event a = ?i) (gn_answers m @ [?a]) = Some ?a"
    by (rule find_last) (use new_event_id_fresh(1)[of _ m] in \<open>auto dest: less_imp_neq\<close>)
  let ?m = "m'\<lparr>gn_answers := filter (\<lambda>a. ans_event a \<noteq> ?i) (gn_answers m'),
      gn_clock := (cancelClockEvent ?i ?c)\<lparr>oc_clockEventTime := -1\<rparr>\<rparr>"
  have m': "gn_answers m' = gn_answers m @ [?a]" "gn_clock m' = ?c" "gn_domainNumber m' = gn_domainNumber m"
    by (simp_all add: m'_def)
  have 2: "gptp_timer conv (r + ?p) ?e m' = Some (?m, [sendPdelayResp ?a m])"
    using i f by (simp add: gptp_timer_def handleSelfMessage_def m' sendPdelayResp_def)
  have c: "unit_clock off (r + ?p) ?c"
    using assms(2,4) by (auto simp: unit_clock_def effective_mode_def)
  have l: "last (oc_events (gn_clock m')) = ?e" by (simp add: m')
  have f: "gn_domainNumber ?m = gn_domainNumber m" "unit_clock off (r + ?p) (gn_clock ?m)" "oc_clockEventTime (gn_clock ?m) = -1"
    using unit_clock_cancel[OF c] by (simp_all add: m')
  show ?thesis
    by (rule exI[of _ m'], rule exI[of _ ?e], rule exI[of _ ?m])
      (intro conjI, rule 1, rule l, simp, use 2 in \<open>simp add: sendPdelayResp_def\<close>, (rule f)+)
qed

text \<open>The request, with the time of its transmission kept.\<close>

lemma pdelay_request:
  assumes "exact_conv conv" "unit_clock off t0 (gn_clock s)" "ce_id e = 1" "ce_arrivalClock e = t0 + off" "t0 \<le> t1"
    and "gn_slavePortId s \<noteq> -1" "0 \<le> gn_pdelayInterval s" "uint (word_of_int (gn_domainNumber s) :: 8 word) = gn_domainNumber s"
  shows "\<exists>s1 s2 base. gptp_timer conv t0 e s = Some (s1, [(gn_slavePortId s, GptpPdelayReq base)]) \<and>
    gn_slavePortId s1 = gn_slavePortId s \<and>
    transmissionEnded conv t1 (gn_slavePortId s) (GptpPdelayReq base) s1 = Some (s2, []) \<and>
    gb_domainNumber base = word_of_int (gn_domainNumber s) \<and> gb_sequenceId base = gn_lastSentPdelayReqSequenceId s2 \<and>
    gb_sourcePortIdentity base = \<lparr>pi_clockIdentity = gn_clockIdentity s2, pi_portNumber = word_of_int (gn_slavePortId s)\<rparr> \<and>
    gn_slavePortId s2 = gn_slavePortId s \<and> gn_domainNumber s2 = gn_domainNumber s \<and> gn_gmRateRatio s2 = gn_gmRateRatio s \<and>
    gn_pdelayReqEventEgressTimestamp s2 = t1 + off \<and> unit_clock off t1 (gn_clock s2) \<and> oc_clockEventTime (gn_clock s2) = -1"
proof -
  let ?c = "(cancelClockEvent 1 (gn_clock s))\<lparr>oc_clockEventTime := t0 + off\<rparr>"
  have c: "unit_clock off t0 ?c" "oc_clockEventTime ?c = t0 + off" using unit_clock_cancel[OF assms(2)] by simp_all
  let ?ev = "\<lparr>ce_id = 1, ce_relative = False, ce_arrivalClock = -1, ce_arrivalSim = 0, ce_mode = UNSPECIFIED\<rparr>"
  obtain c1 where c1: "scheduleClockEventAfter conv drifting_ops t0 (gn_pdelayInterval s) ?ev ?c = Some c1" "unit_clock off t0 c1"
    using unit_clock_schedule[OF c(1) assms(1) disjI2[OF c(2)] assms(7), of ?ev] by (elim exE conjE) (rule that)
  define base where "base = (new_base 54 0)\<lparr>gb_domainNumber := word_of_int (gn_domainNumber s), gb_sequenceId := gn_sequenceId s,
      gb_sourcePortIdentity := \<lparr>pi_clockIdentity = gn_clockIdentity s, pi_portNumber = word_of_int (gn_slavePortId s)\<rparr>\<rparr>"
  define s1 where "s1 = s\<lparr>gn_clock := c1\<lparr>oc_clockEventTime := -1\<rparr>, gn_lastSentPdelayReqSequenceId := gn_sequenceId s,
      gn_sequenceId := gn_sequenceId s + 1, gn_pdelayReqEventEgressTimestamp := t0 + off, gn_rcvdPdelayResp := False\<rparr>"
  have "getClockTime conv drifting_ops t0 ?c = Some (t0 + off)" by (rule unit_clock_shows[OF c(1) assms(1) disjI2[OF c(2)]])
  then have 1: "gptp_timer conv t0 e s = Some (s1, [(gn_slavePortId s, GptpPdelayReq base)])"
    using c1(1) assms(3,4,6)
    by (simp add: gptp_timer_def handleSelfMessage_def sendPdelayReq_def schedule_self_def gptp_time_def s1_def base_def Let_def)
  have c1': "unit_clock off t1 (gn_clock s1)" "oc_clockEventTime (gn_clock s1) = -1"
    using unit_clock_later[OF c1(2) assms(5)] by (simp_all add: s1_def)
  have "gptp_time conv t1 s1 = Some (t1 + off)"
    using unit_clock_shows[OF c1'(1) assms(1)] c1'(2) by (simp add: gptp_time_def)
  then have 2: "transmissionEnded conv t1 (gn_slavePortId s) (GptpPdelayReq base) s1 = Some (s1\<lparr>gn_pdelayReqEventEgressTimestamp := t1 + off\<rparr>, [])"
    using assms(8) by (simp add: transmissionEnded_def handleDelayOrSendFollowUp_def base_def s1_def)
  have f: "gn_slavePortId s1 = gn_slavePortId s" "gn_domainNumber s1 = gn_domainNumber s" "gn_gmRateRatio s1 = gn_gmRateRatio s"
    "gn_lastSentPdelayReqSequenceId s1 = gn_sequenceId s" "gn_clockIdentity s1 = gn_clockIdentity s"
    by (simp_all add: s1_def)
  have b: "gb_domainNumber base = word_of_int (gn_domainNumber s)" "gb_sequenceId base = gn_sequenceId s"
    "gb_sourcePortIdentity base = \<lparr>pi_clockIdentity = gn_clockIdentity s, pi_portNumber = word_of_int (gn_slavePortId s)\<rparr>"
    by (simp_all add: base_def)
  show ?thesis
    by (rule exI[of _ s1], rule exI[of _ "s1\<lparr>gn_pdelayReqEventEgressTimestamp := t1 + off\<rparr>"], rule exI[of _ base])
      (use 1 2 c1' f b in simp)
qed

text \<open>The answer and its follow-up: half the round trip without the time the peer took.\<close>

lemma pdelay_computed:
  assumes "exact_conv conv" "gn_gmRateRatio s = 1" "gn_slavePortId s = port" "gn_domainNumber s = uint d"
    and "own_identity s p" "sq = gn_lastSentPdelayReqSequenceId s" "gb_sequenceId b1 = sq" "gb_sequenceId b2 = sq"
    and "gb_domainNumber b1 = d" "gb_domainNumber b2 = d"
    and "(tresp - gn_pdelayReqEventEgressTimestamp s) - (torigin - treceipt) = 2 * delay"
  shows "\<exists>s1 s2. gptp_handleMessage conv r2 \<lparr>gk_msg = GptpPdelayResp b1 treceipt p, gk_interface = port, gk_ingress = Some tresp\<rparr> s = Some (s1, []) \<and>
    gptp_handleMessage conv r3 \<lparr>gk_msg = GptpPdelayRespFollowUp b2 torigin p, gk_interface = port, gk_ingress = None\<rparr> s1 = Some (s2, []) \<and>
    gn_peerDelay s2 = delay \<and> gn_clock s2 = gn_clock s"
proof -
  define s1 where "s1 = s\<lparr>gn_rcvdPdelayResp := True, gn_pdelayRespEventIngressTimestamp := tresp,
      gn_peerRequestReceiptTimestamp := treceipt, gn_peerResponseOriginTimestamp := 0\<rparr>"
  have p: "own_identity s1 p" using assms(5) by (simp add: own_identity_def s1_def)
  have h: "conv (of_int (2 * delay) / 2) = delay" using exact_convD[OF assms(1), of delay] by simp
  have 1: "gptp_handleMessage conv r2 \<lparr>gk_msg = GptpPdelayResp b1 treceipt p, gk_interface = port, gk_ingress = Some tresp\<rparr> s = Some (s1, [])"
    using assms(3-9) by (simp add: gptp_handleMessage_def processPdelayResp_def s1_def)
  have f: "gn_gmRateRatio s1 = 1" "gn_pdelayRespEventIngressTimestamp s1 = tresp" "gn_peerRequestReceiptTimestamp s1 = treceipt"
    "gn_pdelayReqEventEgressTimestamp s1 = gn_pdelayReqEventEgressTimestamp s" "gn_rcvdPdelayResp s1"
    "gn_lastSentPdelayReqSequenceId s1 = sq" "gn_slavePortId s1 = port" "gn_domainNumber s1 = uint d"
    using assms(2,3,4,6) by (simp_all add: s1_def)
  have "conv (1 * of_int (tresp - gn_pdelayReqEventEgressTimestamp s)) = tresp - gn_pdelayReqEventEgressTimestamp s"
    using exact_convD[OF assms(1), of "tresp - gn_pdelayReqEventEgressTimestamp s"] by simp
  then have "processPdelayRespFollowUp conv b2 torigin p s1 = s1\<lparr>gn_peerResponseOriginTimestamp := torigin, gn_peerDelay := delay\<rparr>"
    using p f assms(8) by (simp only: processPdelayRespFollowUp_def assms(11) h if_not_P not_not if_cancel simp_thms)
  then have "gptp_handleMessage conv r3 \<lparr>gk_msg = GptpPdelayRespFollowUp b2 torigin p, gk_interface = port, gk_ingress = None\<rparr> s1 =
      Some (s1\<lparr>gn_peerResponseOriginTimestamp := torigin, gn_peerDelay := delay\<rparr>, [])"
    using assms(10) f by (simp add: gptp_handleMessage_def)
  with 1 show ?thesis by (simp add: s1_def)
qed


text \<open>What the peer does with a request that arrives at \<open>t\<close>, until its answer is sent at \<open>t2\<close>.\<close>

lemma pdelay_peer:
  assumes "exact_conv conv" "uint (word_of_int (gn_domainNumber m) :: 8 word) = gn_domainNumber m"
    and m: "unit_clock off t (gn_clock m)" "oc_clockEventTime (gn_clock m) = -1" "0 \<le> gn_pDelayReqProcessingTime m"
      "port \<in> set (gn_masterPortIds m)" "port \<noteq> gn_slavePortId m"
    and t: "t \<le> r" "r + gn_pDelayReqProcessingTime m \<le> t2"
    and base: "gb_domainNumber base = word_of_int (gn_domainNumber m)"
      "b = (new_base 54 0)\<lparr>gb_domainNumber := word_of_int (gn_domainNumber m), gb_sequenceId := gb_sequenceId base\<rparr>"
  shows "\<exists>packet m1 m2 a. receptionEnded conv t \<lparr>gk_msg = GptpPdelayReq base, gk_interface = port, gk_ingress = None\<rparr> m = Some packet \<and>
    gptp_handleMessage conv r packet m = Some (m1, []) \<and> last (oc_events (gn_clock m1)) = a \<and>
    gptp_timer conv (ce_arrivalSim a) a m1 = Some (m2, [(port, GptpPdelayResp b (t + off) (gb_sourcePortIdentity base))]) \<and>
    transmissionEnded conv t2 port (GptpPdelayResp b (t + off) (gb_sourcePortIdentity base)) m2 =
      Some (m2, [(port, GptpPdelayRespFollowUp b (t2 + off) (gb_sourcePortIdentity base))])"
proof -
  let ?req = "\<lparr>gk_msg = GptpPdelayReq base, gk_interface = port, gk_ingress = Some (t + off)\<rparr>"
  have "gptp_time conv t m = Some (t + off)" using unit_clock_shows[OF m(1) assms(1)] m(2) by (simp add: gptp_time_def)
  then have 2: "receptionEnded conv t \<lparr>gk_msg = GptpPdelayReq base, gk_interface = port, gk_ingress = None\<rparr> m = Some ?req"
    using base(1) assms(2) by (simp add: receptionEnded_def)
  have req: "gk_ingress ?req = Some (t + off)" "gk_msg ?req = GptpPdelayReq base" "gk_interface ?req \<in> set (gn_masterPortIds m)"
    "gk_interface ?req \<noteq> gn_slavePortId m" "uint (gb_domainNumber base) = gn_domainNumber m"
    using m(4,5) base(1) assms(2) by simp_all
  obtain m1 a m2 where 3: "gptp_handleMessage conv r ?req m = Some (m1, [])" "last (oc_events (gn_clock m1)) = a"
      "gptp_timer conv (ce_arrivalSim a) a m1 = Some (m2, [(gk_interface ?req, GptpPdelayResp
        ((new_base 54 0)\<lparr>gb_domainNumber := word_of_int (gn_domainNumber m), gb_sequenceId := gb_sequenceId base\<rparr>)
        (t + off) (gb_sourcePortIdentity base))])"
      "gn_domainNumber m2 = gn_domainNumber m" "unit_clock off (r + gn_pDelayReqProcessingTime m) (gn_clock m2)"
      "oc_clockEventTime (gn_clock m2) = -1"
    using pdelay_answer[OF assms(1) unit_clock_later[OF m(1) t(1)] m(2,3) req] by (elim exE conjE) (rule that)
  have "gptp_time conv t2 m2 = Some (t2 + off)"
    using unit_clock_shows[OF unit_clock_later[OF 3(5) t(2)] assms(1)] 3(6) by (simp add: gptp_time_def)
  then have 4: "transmissionEnded conv t2 port (GptpPdelayResp b (t + off) (gb_sourcePortIdentity base)) m2 =
      Some (m2, [(port, GptpPdelayRespFollowUp b (t2 + off) (gb_sourcePortIdentity base))])"
    using 3(4) assms(2) base(2)
    by (simp add: transmissionEnded_def handleDelayOrSendFollowUp_def sendPdelayRespFollowUp_def)
  show ?thesis using 2 3(1-3) 4 base(2)
    by (intro exI[of _ ?req] exI[of _ m1] exI[of _ m2] exI[of _ a]) simp
qed

text \<open>
  C16. One peer delay exchange over a link of constant delay, between clocks of the nominal rate with any offsets:
  no handler fails, and the slave port has measured exactly the delay of the link, whatever the processing time of
  the peer, the waiting times before the transmissions and the handling times are.
\<close>

theorem pdelay_exchange_exact:
  assumes "exact_conv conv" "gn_gmRateRatio s = 1" "gn_domainNumber s = d" "gn_domainNumber m = d" "0 \<le> d" "d < 256"
    and s: "unit_clock off t0 (gn_clock s)" "ce_id e = 1" "ce_arrivalClock e = t0 + off" "0 \<le> gn_pdelayInterval s"
      "0 \<le> gn_slavePortId s" "gn_slavePortId s < 65536"
    and m: "unit_clock off' (t1 + delay) (gn_clock m)" "oc_clockEventTime (gn_clock m) = -1" "0 \<le> gn_pDelayReqProcessingTime m"
      "port \<in> set (gn_masterPortIds m)" "port \<noteq> gn_slavePortId m"
    and t: "t0 \<le> t1" "0 \<le> delay" "t1 + delay \<le> r" "r + gn_pDelayReqProcessingTime m \<le> t2"
  shows "\<exists>s' m'. run_pdelay conv port delay e t0 t1 r t2 r2 r3 s m = Some (s', m') \<and> gn_peerDelay s' = delay \<and>
    unit_clock off t1 (gn_clock s')"
proof -
  have w: "uint (word_of_int (gn_domainNumber s) :: 8 word) = gn_domainNumber s" "uint (word_of_int (gn_domainNumber m) :: 8 word) = gn_domainNumber m"
    "uint (word_of_int (gn_slavePortId s) :: 16 word) = gn_slavePortId s" "gn_slavePortId s \<noteq> -1"
    using assms(3-6) s(5,6) by (simp_all add: uint_word_of_int take_bit_int_eq_self)
  obtain s1 s2 base where 1: "gptp_timer conv t0 e s = Some (s1, [(gn_slavePortId s, GptpPdelayReq base)])" "gn_slavePortId s1 = gn_slavePortId s"
      "transmissionEnded conv t1 (gn_slavePortId s) (GptpPdelayReq base) s1 = Some (s2, [])"
      "gb_domainNumber base = word_of_int (gn_domainNumber s)" "gb_sequenceId base = gn_lastSentPdelayReqSequenceId s2"
      "gb_sourcePortIdentity base = \<lparr>pi_clockIdentity = gn_clockIdentity s2, pi_portNumber = word_of_int (gn_slavePortId s)\<rparr>"
      "gn_slavePortId s2 = gn_slavePortId s" "gn_domainNumber s2 = gn_domainNumber s" "gn_gmRateRatio s2 = gn_gmRateRatio s"
      "gn_pdelayReqEventEgressTimestamp s2 = t1 + off" "unit_clock off t1 (gn_clock s2)" "oc_clockEventTime (gn_clock s2) = -1"
    using pdelay_request[OF assms(1) s(1-3) t(1) w(4) s(4) w(1)] by (elim exE conjE) (rule that)
  define b where "b = (new_base 54 0)\<lparr>gb_domainNumber := word_of_int (gn_domainNumber m), gb_sequenceId := gb_sequenceId base\<rparr>"
  let ?id = "gb_sourcePortIdentity base"
  have bd: "gb_domainNumber base = word_of_int (gn_domainNumber m)" using 1(4) assms(3,4) by simp
  obtain packet m1 m2 a where 2: "receptionEnded conv (t1 + delay) \<lparr>gk_msg = GptpPdelayReq base, gk_interface = port, gk_ingress = None\<rparr> m = Some packet"
      "gptp_handleMessage conv r packet m = Some (m1, [])" "last (oc_events (gn_clock m1)) = a"
      "gptp_timer conv (ce_arrivalSim a) a m1 = Some (m2, [(port, GptpPdelayResp b (t1 + delay + off') ?id)])"
      "transmissionEnded conv t2 port (GptpPdelayResp b (t1 + delay + off') ?id) m2 = Some (m2, [(port, GptpPdelayRespFollowUp b (t2 + off') ?id)])"
    using pdelay_peer[OF assms(1) w(2) m t(3,4) bd b_def] by (elim exE conjE) (rule that)
  have "t1 \<le> t2 + delay" using t m(3) by simp
  then have "gptp_time conv (t2 + delay) s2 = Some (t2 + delay + off)"
    using unit_clock_shows[OF unit_clock_later[OF 1(11)] assms(1)] 1(12) by (simp add: gptp_time_def)
  then have 3: "receptionEnded conv (t2 + delay) \<lparr>gk_msg = GptpPdelayResp b (t1 + delay + off') ?id, gk_interface = gn_slavePortId s, gk_ingress = None\<rparr> s2 =
      Some \<lparr>gk_msg = GptpPdelayResp b (t1 + delay + off') ?id, gk_interface = gn_slavePortId s, gk_ingress = Some (t2 + delay + off)\<rparr>"
    using 1(8) w assms(3,4) by (simp add: receptionEnded_def b_def)
  have own: "own_identity s2 ?id" using 1(6,7) w by (simp add: own_identity_def)
  have c: "gn_gmRateRatio s2 = 1" "gn_domainNumber s2 = uint (gb_domainNumber b)" "gb_sequenceId b = gb_sequenceId base"
    "t2 + delay + off - gn_pdelayReqEventEgressTimestamp s2 - (t2 + off' - (t1 + delay + off')) = 2 * delay"
    using 1(8-10) assms(2,3,4) w by (simp_all add: b_def)
  obtain s3 s4 where 4: "gptp_handleMessage conv r2 \<lparr>gk_msg = GptpPdelayResp b (t1 + delay + off') ?id,
        gk_interface = gn_slavePortId s, gk_ingress = Some (t2 + delay + off)\<rparr> s2 = Some (s3, [])"
      "gptp_handleMessage conv r3 \<lparr>gk_msg = GptpPdelayRespFollowUp b (t2 + off') ?id, gk_interface = gn_slavePortId s, gk_ingress = None\<rparr> s3 = Some (s4, [])"
      "gn_peerDelay s4 = delay" "gn_clock s4 = gn_clock s2"
    using pdelay_computed[where ?r2.0 = r2 and ?r3.0 = r3, OF assms(1) c(1) 1(7) c(2) own 1(5) c(3,3) refl refl c(4)] by (elim exE conjE) (rule that)
  have "gn_slavePortId s3 = gn_slavePortId s"
    using 4(1) 1(7) by (auto simp: gptp_handleMessage_def processPdelayResp_def split: if_splits)
  then have "run_pdelay conv port delay e t0 t1 r t2 r2 r3 s m = Some (s4, m2)"
    using 1(1,2,3,7) 2 3 4(1,2) by (simp add: run_pdelay_def)
  with 4(3,4) 1(11) show ?thesis by simp
qed

theorem pdelay_exchange_exact_witness:
  "\<exists>s' m'. run_pdelay floor 101 10 \<lparr>ce_id = 1, ce_relative = True, ce_arrivalClock = -40, ce_arrivalSim = 0, ce_mode = UNSPECIFIED\<rparr>
     0 3 15 30 42 55 (sample_node SLAVE_NODE 104 [] 0 (-40)) (sample_node MASTER_NODE (-1) [101] 0 0) = Some (s', m') \<and>
   gn_peerDelay s' = 10"
proof -
  let ?s = "sample_node SLAVE_NODE 104 [] 0 (-40)" and ?m = "sample_node MASTER_NODE (-1) [101] 0 0"
  let ?e = "\<lparr>ce_id = 1, ce_relative = True, ce_arrivalClock = -40, ce_arrivalSim = 0, ce_mode = UNSPECIFIED\<rparr>"
  have s: "gn_gmRateRatio ?s = 1" "gn_domainNumber ?s = 0" "gn_domainNumber ?m = 0" "unit_clock (-40) 0 (gn_clock ?s)" "ce_id ?e = 1"
    "ce_arrivalClock ?e = 0 + - 40" "0 \<le> gn_pdelayInterval ?s" "0 \<le> gn_slavePortId ?s" "gn_slavePortId ?s < 65536"
    using sample_unit_clock[of 0 "-40"] by (simp_all add: sample_node_def)
  have m: "unit_clock 0 (3 + 10) (gn_clock ?m)" "oc_clockEventTime (gn_clock ?m) = -1" "0 \<le> gn_pDelayReqProcessingTime ?m"
    "101 \<in> set (gn_masterPortIds ?m)" "101 \<noteq> gn_slavePortId ?m" "15 + gn_pDelayReqProcessingTime ?m \<le> 30"
    using sample_unit_clock[of 13 0] by (simp_all add: sample_node_def) (simp add: sample_unit_clock_def)
  show ?thesis
    using pdelay_exchange_exact[OF exact_floor s(1-3) order_refl _ s(4-9) m(1-5) _ _ _ m(6), of 42 55] by auto
qed

end
