(* ===== verification/Checksum.thy ===== *)
theory Checksum
  imports Header_Codec
begin

text \<open>
  The checksum of Ethernet frames (src/inet/src/inet/common/checksum/EthernetCRC.cc), the inserter and the checker
  of frame check sequences (protocolelement/checksum/base/) and those of the fragments of preempted frames
  (linklayer/ethernet/modular/EthernetFragmentFcsInserter.cc, EthernetFragmentFcsChecker.cc).
\<close>

section \<open>The checksum\<close>

unbundle bit_operations_syntax

type_synonym octet = "8 word"

definition crc32_tab :: "32 word list" where
  "crc32_tab =
    [0x00000000, 0x77073096, 0xee0e612c, 0x990951ba, 0x076dc419, 0x706af48f, 0xe963a535, 0x9e6495a3,
     0x0edb8832, 0x79dcb8a4, 0xe0d5e91e, 0x97d2d988, 0x09b64c2b, 0x7eb17cbd, 0xe7b82d07, 0x90bf1d91,
     0x1db71064, 0x6ab020f2, 0xf3b97148, 0x84be41de, 0x1adad47d, 0x6ddde4eb, 0xf4d4b551, 0x83d385c7,
     0x136c9856, 0x646ba8c0, 0xfd62f97a, 0x8a65c9ec, 0x14015c4f, 0x63066cd9, 0xfa0f3d63, 0x8d080df5,
     0x3b6e20c8, 0x4c69105e, 0xd56041e4, 0xa2677172, 0x3c03e4d1, 0x4b04d447, 0xd20d85fd, 0xa50ab56b,
     0x35b5a8fa, 0x42b2986c, 0xdbbbc9d6, 0xacbcf940, 0x32d86ce3, 0x45df5c75, 0xdcd60dcf, 0xabd13d59,
     0x26d930ac, 0x51de003a, 0xc8d75180, 0xbfd06116, 0x21b4f4b5, 0x56b3c423, 0xcfba9599, 0xb8bda50f,
     0x2802b89e, 0x5f058808, 0xc60cd9b2, 0xb10be924, 0x2f6f7c87, 0x58684c11, 0xc1611dab, 0xb6662d3d,
     0x76dc4190, 0x01db7106, 0x98d220bc, 0xefd5102a, 0x71b18589, 0x06b6b51f, 0x9fbfe4a5, 0xe8b8d433,
     0x7807c9a2, 0x0f00f934, 0x9609a88e, 0xe10e9818, 0x7f6a0dbb, 0x086d3d2d, 0x91646c97, 0xe6635c01,
     0x6b6b51f4, 0x1c6c6162, 0x856530d8, 0xf262004e, 0x6c0695ed, 0x1b01a57b, 0x8208f4c1, 0xf50fc457,
     0x65b0d9c6, 0x12b7e950, 0x8bbeb8ea, 0xfcb9887c, 0x62dd1ddf, 0x15da2d49, 0x8cd37cf3, 0xfbd44c65,
     0x4db26158, 0x3ab551ce, 0xa3bc0074, 0xd4bb30e2, 0x4adfa541, 0x3dd895d7, 0xa4d1c46d, 0xd3d6f4fb,
     0x4369e96a, 0x346ed9fc, 0xad678846, 0xda60b8d0, 0x44042d73, 0x33031de5, 0xaa0a4c5f, 0xdd0d7cc9,
     0x5005713c, 0x270241aa, 0xbe0b1010, 0xc90c2086, 0x5768b525, 0x206f85b3, 0xb966d409, 0xce61e49f,
     0x5edef90e, 0x29d9c998, 0xb0d09822, 0xc7d7a8b4, 0x59b33d17, 0x2eb40d81, 0xb7bd5c3b, 0xc0ba6cad,
     0xedb88320, 0x9abfb3b6, 0x03b6e20c, 0x74b1d29a, 0xead54739, 0x9dd277af, 0x04db2615, 0x73dc1683,
     0xe3630b12, 0x94643b84, 0x0d6d6a3e, 0x7a6a5aa8, 0xe40ecf0b, 0x9309ff9d, 0x0a00ae27, 0x7d079eb1,
     0xf00f9344, 0x8708a3d2, 0x1e01f268, 0x6906c2fe, 0xf762575d, 0x806567cb, 0x196c3671, 0x6e6b06e7,
     0xfed41b76, 0x89d32be0, 0x10da7a5a, 0x67dd4acc, 0xf9b9df6f, 0x8ebeeff9, 0x17b7be43, 0x60b08ed5,
     0xd6d6a3e8, 0xa1d1937e, 0x38d8c2c4, 0x4fdff252, 0xd1bb67f1, 0xa6bc5767, 0x3fb506dd, 0x48b2364b,
     0xd80d2bda, 0xaf0a1b4c, 0x36034af6, 0x41047a60, 0xdf60efc3, 0xa867df55, 0x316e8eef, 0x4669be79,
     0xcb61b38c, 0xbc66831a, 0x256fd2a0, 0x5268e236, 0xcc0c7795, 0xbb0b4703, 0x220216b9, 0x5505262f,
     0xc5ba3bbe, 0xb2bd0b28, 0x2bb45a92, 0x5cb36a04, 0xc2d7ffa7, 0xb5d0cf31, 0x2cd99e8b, 0x5bdeae1d,
     0x9b64c2b0, 0xec63f226, 0x756aa39c, 0x026d930a, 0x9c0906a9, 0xeb0e363f, 0x72076785, 0x05005713,
     0x95bf4a82, 0xe2b87a14, 0x7bb12bae, 0x0cb61b38, 0x92d28e9b, 0xe5d5be0d, 0x7cdcefb7, 0x0bdbdf21,
     0x86d3d2d4, 0xf1d4e242, 0x68ddb3f8, 0x1fda836e, 0x81be16cd, 0xf6b9265b, 0x6fb077e1, 0x18b74777,
     0x88085ae6, 0xff0f6a70, 0x66063bca, 0x11010b5c, 0x8f659eff, 0xf862ae69, 0x616bffd3, 0x166ccf45,
     0xa00ae278, 0xd70dd2ee, 0x4e048354, 0x3903b3c2, 0xa7672661, 0xd06016f7, 0x4969474d, 0x3e6e77db,
     0xaed16a4a, 0xd9d65adc, 0x40df0b66, 0x37d83bf0, 0xa9bcae53, 0xdebb9ec5, 0x47b2cf7f, 0x30b5ffe9,
     0xbdbdf21c, 0xcabac28a, 0x53b39330, 0x24b4a3a6, 0xbad03605, 0xcdd70693, 0x54de5729, 0x23d967bf,
     0xb3667a2e, 0xc4614ab8, 0x5d681b02, 0x2a6f2b94, 0xb40bbe37, 0xc30c8ea1, 0x5a05df1b, 0x2d02ef8d]"

definition swap_bytes :: "32 word \<Rightarrow> 32 word" where
  "swap_bytes crc = drop_bit 24 crc OR (drop_bit 8 crc AND 0x0000FF00) OR (push_bit 8 crc AND 0x00FF0000) OR push_bit 24 crc"

definition crc_step :: "32 word \<Rightarrow> octet \<Rightarrow> 32 word" where
  "crc_step crc p = crc32_tab ! unat ((crc XOR ucast p) AND 0xFF) XOR drop_bit 8 crc"

definition ethernetCRC :: "octet list \<Rightarrow> 32 word \<Rightarrow> 32 word" where
  "ethernetCRC buf crc = swap_bytes (foldl crc_step (swap_bytes crc XOR NOT 0) buf XOR NOT 0)"

section \<open>The reference: polynomial division bit by bit\<close>

definition crc_shift :: "32 word \<Rightarrow> 32 word" where
  "crc_shift c = (if bit c 0 then drop_bit 1 c XOR 0xEDB88320 else drop_bit 1 c)"

fun evens :: "'a list \<Rightarrow> 'a list" where
  "evens (x # y # xs) = x # evens xs"
| "evens xs = xs"

fun odds :: "'a list \<Rightarrow> 'a list" where
  "odds (x # y # xs) = y # odds xs"
| "odds xs = []"

lemma tab_length: "length crc32_tab = 256"
  unfolding crc32_tab_def by simp

lemma tab_evens: "map crc_shift (evens crc32_tab) = take 128 crc32_tab"
  unfolding crc32_tab_def by (simp add: crc_shift_def)

lemma tab_odds: "odds crc32_tab = map (\<lambda>x. x XOR 0x77073096) (evens crc32_tab)"
  unfolding crc32_tab_def by simp

lemma evens_nth: "2 * k < length xs \<Longrightarrow> evens xs ! k = xs ! (2 * k)"
  by (induction xs arbitrary: k rule: evens.induct) (auto simp: nth_Cons split: nat.splits)

lemma odds_nth: "Suc (2 * k) < length xs \<Longrightarrow> odds xs ! k = xs ! Suc (2 * k)"
  by (induction xs arbitrary: k rule: odds.induct) (auto simp: nth_Cons split: nat.splits)

lemma length_evens: "length (evens xs) = (length xs + 1) div 2"
  by (induction xs rule: evens.induct) auto

lemma crc_shift_xor: "crc_shift (a XOR b) = crc_shift a XOR crc_shift b"
  by (auto simp: crc_shift_def bit_xor_iff drop_bit_xor xor.assoc xor.commute xor.left_commute)

lemma crc_shift_0 [simp]: "crc_shift 0 = 0"
  by (simp add: crc_shift_def)

lemma crc_shift_eq_0: "crc_shift a = 0 \<Longrightarrow> a = 0"
proof (cases "bit a 0")
  case True
  assume "crc_shift a = 0"
  with True have "bit (drop_bit 1 a XOR 0xEDB88320) 31 = bit (0 :: 32 word) 31" by (simp add: crc_shift_def)
  then show ?thesis using bit_imp_le_length[of a 32] by (simp add: bit_xor_iff bit_drop_bit_eq)
next
  case False
  assume "crc_shift a = 0"
  with False have d: "drop_bit 1 a = 0" by (simp add: crc_shift_def)
  have "bit a n = bit (0 :: 32 word) n" for n
  proof (cases n)
    case (Suc m)
    then show ?thesis using d bit_drop_bit_eq[of 1 a] by (metis One_nat_def add.commute bit_0_eq bot_apply comp_apply plus_1_eq_Suc)
  qed (use False in simp)
  then show ?thesis by (simp add: bit_eq_iff)
qed

lemma crc_shift_inj: "crc_shift a = crc_shift b \<longleftrightarrow> a = b"
proof
  assume "crc_shift a = crc_shift b"
  then have "crc_shift (a XOR b) = 0" by (simp add: crc_shift_xor)
  then have "a XOR b = 0" by (rule crc_shift_eq_0)
  then have "(a XOR b) XOR b = b" by simp
  then show "a = b" by (simp add: xor.assoc)
qed simp

lemma shifts_xor: "(crc_shift ^^ n) (a XOR b) = (crc_shift ^^ n) a XOR (crc_shift ^^ n) b"
  by (induction n) (simp_all add: crc_shift_xor)

lemma shifts_0 [simp]: "(crc_shift ^^ n) 0 = 0"
  by (induction n) simp_all

lemma shifts_inj: "(crc_shift ^^ n) a = (crc_shift ^^ n) b \<longleftrightarrow> a = b"
  by (induction n) (simp_all add: crc_shift_inj)

lemma shifts_drop: "(\<And>i. i < n \<Longrightarrow> \<not> bit x i) \<Longrightarrow> (crc_shift ^^ n) x = drop_bit n x"
proof (induction n)
  case (Suc n)
  have "\<not> bit (drop_bit n x) 0" using Suc.prems[of n] by (simp add: bit_drop_bit_eq)
  then show ?case using Suc by (simp add: crc_shift_def drop_bit_drop_bit)
qed simp

lemma shifts_8_1: "(crc_shift ^^ 8) 1 = 0x77073096"
proof -
  have "crc_shift 1 = 0xEDB88320" by (simp add: crc_shift_def)
  moreover have "crc_shift 0xEDB88320 = 0x76DC4190"
    "crc_shift 0x76DC4190 = 0x3B6E20C8"
    "crc_shift 0x3B6E20C8 = 0x1DB71064"
    "crc_shift 0x1DB71064 = 0xEDB8832"
    "crc_shift 0xEDB8832 = 0x76DC419"
    "crc_shift 0x76DC419 = 0xEE0E612C"
    "crc_shift 0xEE0E612C = 0x77073096"
    by (simp_all add: crc_shift_def)
  moreover have "(8 :: nat) = Suc (Suc (Suc (Suc (Suc (Suc (Suc (Suc 0)))))))" by simp
  ultimately show ?thesis by (simp only: funpow.simps comp_def id_def)
qed

text \<open>The table holds eight steps of the division for every octet.\<close>

lemma tab_shifts: "i < 256 \<Longrightarrow> crc32_tab ! i = (crc_shift ^^ 8) (of_nat i)"
proof (induction i rule: less_induct)
  case (less i)
  have ev: "crc_shift (crc32_tab ! (2 * k)) = crc32_tab ! k" if "k < 128" for k
  proof -
    have "map crc_shift (evens crc32_tab) ! k = crc32_tab ! k" using that by (simp add: tab_evens)
    then show ?thesis using that by (simp add: length_evens tab_length evens_nth)
  qed
  have od: "crc32_tab ! Suc (2 * k) = crc32_tab ! (2 * k) XOR 0x77073096" if "k < 128" for k
  proof -
    have "crc32_tab ! Suc (2 * k) = odds crc32_tab ! k" using that by (simp add: odds_nth tab_length)
    also have "\<dots> = evens crc32_tab ! k XOR 0x77073096" using that by (simp add: tab_odds length_evens tab_length)
    finally show ?thesis using that by (simp add: evens_nth tab_length)
  qed
  have even: "crc32_tab ! (2 * k) = (crc_shift ^^ 8) (of_nat (2 * k))" if "2 * k \<le> i" for k
  proof (cases "k = 0")
    case True
    have "crc32_tab ! 0 = 0" by (simp add: crc32_tab_def)
    with True show ?thesis by simp
  next
    case False
    have "crc_shift (of_nat (2 * k)) = of_nat k"
    proof -
      have "drop_bit 1 (of_nat (2 * k) :: 32 word) = of_nat k"
        using that less.prems by (simp add: drop_bit_eq_div word_arith_nat_div unat_of_nat take_bit_nat_eq_self flip: of_nat_mult)
      then show ?thesis by (simp add: crc_shift_def bit_0)
    qed
    then have "crc_shift ((crc_shift ^^ 8) (of_nat (2 * k))) = (crc_shift ^^ 8) (of_nat k)"
      by (simp only: funpow_swap1)
    moreover have "crc_shift (crc32_tab ! (2 * k)) = (crc_shift ^^ 8) (of_nat k)"
      using ev[of k] less.IH[of k] that less.prems False by simp
    ultimately show ?thesis using crc_shift_inj by metis
  qed
  show ?case
  proof (cases "even i")
    case True
    then show ?thesis using even[of "i div 2"] by simp
  next
    case False
    then obtain k where k: "i = Suc (2 * k)" by (metis oddE Suc_eq_plus1)
    have "of_nat i = (of_nat (2 * k) :: 32 word) XOR 1" using k by (simp add: xor_one_eq)
    then show ?thesis using od[of k] even[of k] k less.prems by (simp add: shifts_xor shifts_8_1)
  qed
qed

lemma bit_FF: "bit (0xFF :: 32 word) n \<longleftrightarrow> n < 8"
proof -
  have e: "(0xFF :: 32 word) = mask 8" by (simp add: mask_eq_exp_minus_1)
  show ?thesis unfolding e bit_mask_iff by auto
qed

lemma split_mask: "x = (x AND m) XOR (x AND NOT m)" for x m :: "32 word"
  by (rule bit_word_eqI) (auto simp: bit_and_iff bit_xor_iff bit_not_iff)

lemma drop_octet [simp]: "drop_bit 8 (ucast (p :: octet) :: 32 word) = 0"
  by (rule bit_word_eqI) (simp add: bit_drop_bit_eq bit_ucast_iff impossible_bit)

text \<open>A step of the table is the addition of an octet and eight steps of the division.\<close>

lemma crc_step_shifts: "crc_step c p = (crc_shift ^^ 8) (c XOR ucast p)"
proof -
  let ?x = "c XOR ucast p"
  have "?x AND 0xFF \<le> 0xFF" by (rule word_and_le1)
  then have low: "unat (?x AND 0xFF) < 256" by (simp add: word_le_nat_alt)
  have high: "(crc_shift ^^ 8) (?x AND NOT 0xFF) = drop_bit 8 (?x AND NOT 0xFF)"
    by (rule shifts_drop) (simp only: bit_and_iff bit_not_iff bit_FF, simp)
  have "drop_bit 8 (?x AND NOT 0xFF) = drop_bit 8 c"
    by (rule bit_word_eqI, unfold bit_drop_bit_eq comp_def bit_and_iff bit_not_iff bit_xor_iff bit_FF bit_ucast_iff)
      (auto dest: bit_imp_le_length)
  moreover have "?x = (?x AND 0xFF) XOR (?x AND NOT 0xFF)"
    by (rule split_mask)
  then have "(crc_shift ^^ 8) ?x = (crc_shift ^^ 8) (?x AND 0xFF) XOR (crc_shift ^^ 8) (?x AND NOT 0xFF)"
    by (metis shifts_xor)
  ultimately show ?thesis using tab_shifts[OF low] high by (simp add: crc_step_def)
qed

text \<open>The reference takes the bits of an octet from the lowest to the highest.\<close>

definition crc_feed :: "32 word \<Rightarrow> bool \<Rightarrow> 32 word" where
  "crc_feed c b = (if bit c 0 \<noteq> b then drop_bit 1 c XOR 0xEDB88320 else drop_bit 1 c)"

definition octet_bits :: "octet \<Rightarrow> bool list" where
  "octet_bits p = map (bit p) [0..<8]"

definition crc32_reference :: "octet list \<Rightarrow> 32 word" where
  "crc32_reference buf = swap_bytes (NOT (foldl crc_feed (NOT 0) (concat (map octet_bits buf))))"

lemma crc_feed_shift: "crc_feed c b = crc_shift (c XOR of_bool b)"
  by (cases b) (simp_all add: crc_feed_def crc_shift_def bit_xor_iff drop_bit_xor)

lemma take_bit_Suc_xor: "take_bit (Suc n) (x :: 32 word) = take_bit n x XOR push_bit n (of_bool (bit x n))"
  by (rule bit_word_eqI) (auto simp: bit_take_bit_iff bit_xor_iff bit_push_bit_iff less_Suc_eq bit_1_iff)

lemma feed_bits: "n \<le> 32 \<Longrightarrow> foldl crc_feed c (map (bit x) [0..<n]) = (crc_shift ^^ n) (c XOR take_bit n x)" for x :: "32 word"
proof (induction n)
  case (Suc n)
  have "(crc_shift ^^ n) (push_bit n (of_bool (bit x n))) = drop_bit n (push_bit n (of_bool (bit x n)))"
    by (rule shifts_drop) (simp add: bit_push_bit_iff)
  also have "\<dots> = of_bool (bit x n)"
    using Suc.prems by (intro bit_word_eqI) (auto simp: bit_drop_bit_eq bit_push_bit_iff bit_1_iff)
  finally show ?case using Suc by (simp add: crc_feed_shift take_bit_Suc_xor shifts_xor xor.assoc)
qed simp

lemma feed_octet: "foldl crc_feed c (octet_bits p) = crc_step c p"
proof -
  have m: "map (bit p) [0..<8] = map (bit (ucast p :: 32 word)) [0..<8]"
    by (simp add: bit_ucast_iff)
  have t: "take_bit 8 (ucast p :: 32 word) = ucast p"
    by (rule bit_word_eqI) (auto simp: bit_take_bit_iff bit_ucast_iff dest: bit_imp_le_length)
  show ?thesis unfolding octet_bits_def m using feed_bits[of 8 c "ucast p"] by (simp only: t crc_step_shifts)
qed

lemma feed_octets: "foldl crc_feed c (concat (map octet_bits buf)) = foldl crc_step c buf"
  by (induction buf arbitrary: c) (simp_all add: feed_octet)

lemma bit_FF00: "bit (0xFF00 :: 32 word) n \<longleftrightarrow> 8 \<le> n \<and> n < 16"
proof -
  have e: "(0xFF00 :: 32 word) = push_bit 8 (mask 8)" by (simp add: mask_eq_exp_minus_1 push_bit_eq_mult)
  show ?thesis unfolding e bit_push_bit_iff bit_mask_iff by auto
qed

lemma bit_FF0000: "bit (0xFF0000 :: 32 word) n \<longleftrightarrow> 16 \<le> n \<and> n < 24"
proof -
  have e: "(0xFF0000 :: 32 word) = push_bit 16 (mask 8)" by (simp add: mask_eq_exp_minus_1 push_bit_eq_mult)
  show ?thesis unfolding e bit_push_bit_iff bit_mask_iff by auto
qed

lemma bit_swap_bytes:
  assumes "m < 8"
  shows "bit (swap_bytes c) m = bit c (m + 24)" "bit (swap_bytes c) (m + 8) = bit c (m + 16)"
    "bit (swap_bytes c) (m + 16) = bit c (m + 8)" "bit (swap_bytes c) (m + 24) = bit c m"
  unfolding swap_bytes_def bit_or_iff bit_and_iff bit_drop_bit_eq bit_push_bit_iff comp_def bit_FF00 bit_FF0000
  using assms bit_imp_le_length[of c "m + 32"] bit_imp_le_length[of c "m + 40"] bit_imp_le_length[of c "m + 48"]
  by (auto simp: ac_simps)

lemma swap_swap [simp]: "swap_bytes (swap_bytes c) = c"
proof (rule bit_word_eqI)
  fix n assume "n < LENGTH(32)"
  then have n: "n < 32" by simp
  then have "n = n mod 8 \<or> n = n mod 8 + 8 \<or> n = n mod 8 + 16 \<or> n = n mod 8 + 24" by presburger
  then consider m where "m < 8" "n = m" | m where "m < 8" "n = m + 8" | m where "m < 8" "n = m + 16" | m where "m < 8" "n = m + 24"
    by (metis mod_less_divisor zero_less_numeral)
  then show "bit (swap_bytes (swap_bytes c)) n = bit c n" by cases (simp_all only: bit_swap_bytes)
qed

lemma swap_inj: "swap_bytes a = swap_bytes b \<longleftrightarrow> a = b"
  by (metis swap_swap)

text \<open>
  C38. The table driven checksum is the CRC-32 of the standard, computed bit by bit, and it can be continued: with the
  checksum of the octets so far as its start value it gives the checksum of all octets.
\<close>

theorem crc_matches_reference: "ethernetCRC a 0 = crc32_reference a \<and> ethernetCRC b (ethernetCRC a c) = ethernetCRC (a @ b) c"
proof
  have "swap_bytes 0 = 0" by (simp add: swap_bytes_def)
  then show "ethernetCRC a 0 = crc32_reference a" by (simp add: ethernetCRC_def crc32_reference_def feed_octets)
  show "ethernetCRC b (ethernetCRC a c) = ethernetCRC (a @ b) c" by (simp add: ethernetCRC_def xor.assoc)
qed


section \<open>Frame check sequences\<close>

text \<open>\<open>None\<close> is a thrown error; \<open>intact\<close> is what the simulation knows about the data (no incorrect chunk, no bit error).\<close>

definition computeFcs :: "fcs_mode \<Rightarrow> octet list \<Rightarrow> 32 word option" where
  "computeFcs mode bytes =
     (case mode of FCS_DISABLED \<Rightarrow> Some 0 | FCS_DECLARED_CORRECT \<Rightarrow> Some 0xC00DC00D | FCS_DECLARED_INCORRECT \<Rightarrow> Some 0xBAADBAAD
      | FCS_COMPUTED \<Rightarrow> Some (ethernetCRC bytes 0) | FCS_MODE_UNDEFINED \<Rightarrow> None)"

definition checkFcs :: "bool \<Rightarrow> octet list \<Rightarrow> fcs_mode \<Rightarrow> 32 word \<Rightarrow> bool option" where
  "checkFcs intact bytes mode fcs =
     (case mode of FCS_DISABLED \<Rightarrow> do { ensure (fcs = 0); Some True }
      | FCS_DECLARED_CORRECT \<Rightarrow> do { ensure (fcs = 0xC00DC00D); Some intact }
      | FCS_DECLARED_INCORRECT \<Rightarrow> do { ensure (fcs = 0xBAADBAAD); Some False }
      | FCS_COMPUTED \<Rightarrow> Some (fcs = ethernetCRC bytes 0 \<and> intact)
      | FCS_MODE_UNDEFINED \<Rightarrow> None)"

subsection \<open>Fragments\<close>

text \<open>The checksums of the frame up to the last and up to the current fragment.\<close>

record fragment_fcs =
  ff_lastFragmentCompleteFcs :: "32 word"
  ff_currentFragmentCompleteFcs :: "32 word"

definition fragment_computeComputedFcs :: "bool \<Rightarrow> bool \<Rightarrow> octet list \<Rightarrow> fragment_fcs \<Rightarrow> 32 word \<times> fragment_fcs" where
  "fragment_computeComputedFcs firstFragment lastFragment bytes s =
     (let current = ethernetCRC bytes (if firstFragment then 0 else ff_lastFragmentCompleteFcs s);
          s = s\<lparr>ff_currentFragmentCompleteFcs := current\<rparr>
      in if lastFragment then (current, s) else (ethernetCRC bytes 0 XOR 0xFFFF0000, s))"

definition fragment_computeFcs :: "fcs_mode \<Rightarrow> bool \<Rightarrow> bool \<Rightarrow> octet list \<Rightarrow> fragment_fcs \<Rightarrow> (32 word \<times> fragment_fcs) option" where
  "fragment_computeFcs mode firstFragment lastFragment bytes s =
     (case mode of FCS_DECLARED_CORRECT \<Rightarrow> Some (0xC00DC00D, s) | FCS_DECLARED_INCORRECT \<Rightarrow> Some (0xBAADBAAD, s)
      | FCS_COMPUTED \<Rightarrow> Some (fragment_computeComputedFcs firstFragment lastFragment bytes s) | _ \<Rightarrow> None)"

text \<open>The trailer of a fragment is its checksum and the flag \<open>mCrc\<close>.\<close>

definition fragment_insert ::
  "fcs_mode \<Rightarrow> bool \<Rightarrow> bool \<Rightarrow> octet list \<Rightarrow> fragment_fcs \<Rightarrow> ((32 word \<times> bool) \<times> fragment_fcs) option" where
  "fragment_insert mode firstFragment lastFragment bytes s =
     do {
       (fcs, s) \<leftarrow> fragment_computeFcs mode firstFragment lastFragment bytes s;
       Some ((fcs, \<not> lastFragment), s\<lparr>ff_lastFragmentCompleteFcs := ff_currentFragmentCompleteFcs s\<rparr>)
     }"

definition fragment_checkComputedFcs :: "bool \<Rightarrow> octet list \<Rightarrow> 32 word \<Rightarrow> fragment_fcs \<Rightarrow> bool \<times> fragment_fcs" where
  "fragment_checkComputedFcs firstFragment bytes receivedFcs s =
     (let fragmentFcs = ethernetCRC bytes 0;
          current = ethernetCRC bytes (if firstFragment then 0 else ff_lastFragmentCompleteFcs s);
          lastFragment = (receivedFcs \<noteq> fragmentFcs XOR 0xFFFF0000)
      in (\<not> lastFragment \<or> receivedFcs = current, s\<lparr>ff_currentFragmentCompleteFcs := current\<rparr>))"

definition fragment_checkFcs ::
  "bool \<Rightarrow> bool \<Rightarrow> octet list \<Rightarrow> fcs_mode \<Rightarrow> 32 word \<Rightarrow> fragment_fcs \<Rightarrow> (bool \<times> fragment_fcs) option" where
  "fragment_checkFcs intact firstFragment bytes mode fcs s =
     (case mode of FCS_DECLARED_CORRECT \<Rightarrow> do { ensure (fcs = 0xC00DC00D); Some (intact, s) }
      | FCS_DECLARED_INCORRECT \<Rightarrow> do { ensure (fcs = 0xBAADBAAD); Some (False, s) }
      | FCS_COMPUTED \<Rightarrow> Some (fragment_checkComputedFcs firstFragment bytes fcs s)
      | _ \<Rightarrow> None)"

text \<open>A fragment that does not match is dropped; one that does is passed on with the tag \<open>lastFragment\<close>.\<close>

definition fragment_process :: "bool \<Rightarrow> fragment_fcs \<Rightarrow> bool \<times> fragment_fcs" where
  "fragment_process mCrc s = (\<not> mCrc, s\<lparr>ff_lastFragmentCompleteFcs := ff_currentFragmentCompleteFcs s\<rparr>)"

definition fragment_receive ::
  "bool \<Rightarrow> bool \<Rightarrow> octet list \<Rightarrow> fcs_mode \<Rightarrow> 32 word \<times> bool \<Rightarrow> fragment_fcs \<Rightarrow> (bool option \<times> fragment_fcs) option" where
  "fragment_receive intact firstFragment bytes mode trailer s =
     do {
       (ok, s) \<leftarrow> fragment_checkFcs intact firstFragment bytes mode (fst trailer) s;
       Some (if ok then (let (lastFragment, s) = fragment_process (snd trailer) s in (Some lastFragment, s)) else (None, s))
     }"

text \<open>All fragments of a frame, one after the other; the first argument tells whether the head is the first one.\<close>

fun insert_all :: "bool \<Rightarrow> octet list list \<Rightarrow> fragment_fcs \<Rightarrow> ((octet list \<times> 32 word \<times> bool) list \<times> fragment_fcs) option" where
  "insert_all firstFragment [] s = Some ([], s)"
| "insert_all firstFragment (bytes # fragments) s =
     do {
       (trailer, s) \<leftarrow> fragment_insert FCS_COMPUTED firstFragment (fragments = []) bytes s;
       (out, s) \<leftarrow> insert_all False fragments s;
       Some ((bytes, trailer) # out, s)
     }"

fun receive_all :: "bool \<Rightarrow> (octet list \<times> 32 word \<times> bool) list \<Rightarrow> fragment_fcs \<Rightarrow> ((octet list \<times> bool option) list \<times> fragment_fcs) option" where
  "receive_all firstFragment [] s = Some ([], s)"
| "receive_all firstFragment ((bytes, trailer) # fragments) s =
     do {
       (r, s) \<leftarrow> fragment_receive True firstFragment bytes FCS_COMPUTED trailer s;
       (out, s) \<leftarrow> receive_all False fragments s;
       Some ((bytes, r) # out, s)
     }"

section \<open>What the checks find\<close>

lemma crc_empty: "ethernetCRC [] c = c"
  by (simp add: ethernetCRC_def xor.assoc)

lemma crc_append: "ethernetCRC b (ethernetCRC a c) = ethernetCRC (a @ b) c"
  by (simp add: ethernetCRC_def xor.assoc)

lemma fragments_accepted:
  assumes "fragments \<noteq> []" "firstFragment \<longrightarrow> done = []"
    and "\<not> firstFragment \<longrightarrow> ff_lastFragmentCompleteFcs s = ethernetCRC done 0 \<and> ff_lastFragmentCompleteFcs t = ethernetCRC done 0"
  shows "\<exists>out s' t'. insert_all firstFragment fragments s = Some (out, s') \<and>
    receive_all firstFragment out t = Some (map (\<lambda>b. (b, Some False)) (butlast fragments) @ [(last fragments, Some True)], t') \<and>
    fst (snd (last out)) = ethernetCRC (done @ concat fragments) 0 \<and> out \<noteq> []"
  using assms
proof (induction fragments arbitrary: firstFragment "done" s t)
  case (Cons bytes fragments)
  let ?c = "ethernetCRC (done @ bytes) 0"
  have s: "ethernetCRC bytes (if firstFragment then 0 else ff_lastFragmentCompleteFcs s) = ?c"
    "ethernetCRC bytes (if firstFragment then 0 else ff_lastFragmentCompleteFcs t) = ?c"
    using Cons.prems(2,3) by (auto simp: crc_append)
  let ?s = "s\<lparr>ff_currentFragmentCompleteFcs := ?c, ff_lastFragmentCompleteFcs := ?c\<rparr>"
  let ?t = "t\<lparr>ff_currentFragmentCompleteFcs := ?c, ff_lastFragmentCompleteFcs := ?c\<rparr>"
  show ?case
  proof (cases "fragments = []")
    case True
    then show ?thesis
      by (simp add: fragment_insert_def fragment_computeFcs_def fragment_computeComputedFcs_def fragment_receive_def
          fragment_checkFcs_def fragment_checkComputedFcs_def fragment_process_def Let_def s)
  next
    case False
    obtain out s' t' where r: "insert_all False fragments ?s = Some (out, s')"
      "receive_all False out ?t = Some (map (\<lambda>b. (b, Some False)) (butlast fragments) @ [(last fragments, Some True)], t')"
      "fst (snd (last out)) = ethernetCRC ((done @ bytes) @ concat fragments) 0" "out \<noteq> []"
    proof -
      have "\<exists>out s' t'. insert_all False fragments ?s = Some (out, s') \<and>
          receive_all False out ?t = Some (map (\<lambda>b. (b, Some False)) (butlast fragments) @ [(last fragments, Some True)], t') \<and>
          fst (snd (last out)) = ethernetCRC ((done @ bytes) @ concat fragments) 0 \<and> out \<noteq> []"
        by (rule Cons.IH[OF False]) simp_all
      then show thesis by (elim exE conjE) (rule that)
    qed
    have "fragment_insert FCS_COMPUTED firstFragment (fragments = []) bytes s = Some ((ethernetCRC bytes 0 XOR 0xFFFF0000, True), ?s)"
      using False by (simp add: fragment_insert_def fragment_computeFcs_def fragment_computeComputedFcs_def Let_def s)
    moreover have "fragment_receive True firstFragment bytes FCS_COMPUTED (ethernetCRC bytes 0 XOR 0xFFFF0000, True) t = Some (Some False, ?t)"
      by (simp add: fragment_receive_def fragment_checkFcs_def fragment_checkComputedFcs_def fragment_process_def Let_def s)
    ultimately show ?thesis using r False by simp
  qed
qed simp

lemma xor_cancel_right: "a XOR c = b XOR c \<longleftrightarrow> a = b" for a b c :: "32 word"
proof
  assume "a XOR c = b XOR c"
  then have "(a XOR c) XOR c = (b XOR c) XOR c" by simp
  then show "a = b" by (simp add: xor.assoc)
qed simp

lemma xor_cancel_left: "c XOR a = c XOR b \<longleftrightarrow> a = b" for a b c :: "32 word"
  using xor_cancel_right[of a c b] by (simp add: xor.commute)

text \<open>Octets as they enter the division: the first one lowest.\<close>

fun octets_word :: "octet list \<Rightarrow> 32 word" where
  "octets_word [] = 0"
| "octets_word (p # ps) = ucast p XOR push_bit 8 (octets_word ps)"

lemma bit_octets_word: "bit (octets_word ps) n \<Longrightarrow> n < 8 * length ps"
proof (induction ps arbitrary: n)
  case (Cons p ps)
  then show ?case using bit_imp_le_length[of p n]
    by (cases "n < 8") (auto simp: bit_xor_iff bit_push_bit_iff bit_ucast_iff dest: Cons.IH)
qed simp

lemma drop_push_octets: "length ps < 4 \<Longrightarrow> drop_bit 8 (push_bit 8 (octets_word ps)) = octets_word ps"
  by (rule bit_word_eqI) (auto simp: bit_drop_bit_eq bit_push_bit_iff dest: bit_octets_word)

lemma crc_steps_word: "length u \<le> 4 \<Longrightarrow> foldl crc_step s u = (crc_shift ^^ (8 * length u)) (s XOR octets_word u)"
proof (induction u arbitrary: s)
  case (Cons p ps)
  have "(crc_shift ^^ 8) (push_bit 8 (octets_word ps)) = octets_word ps"
    using shifts_drop[of 8 "push_bit 8 (octets_word ps)"] drop_push_octets[of ps] Cons.prems by (simp add: bit_push_bit_iff)
  then have "crc_step s p XOR octets_word ps = (crc_shift ^^ 8) (s XOR octets_word (p # ps))"
    by (simp add: crc_step_shifts shifts_xor xor.assoc)
  moreover have "8 * length (p # ps) = 8 * length ps + 8" by simp
  ultimately show ?case using Cons by (simp only: funpow_add comp_def foldl.simps length_Cons)
qed simp

lemma octets_word_head:
  assumes "octets_word (p # u) = octets_word (q # v)"
  shows "p = q"
proof (rule bit_word_eqI)
  fix n assume "n < LENGTH(8)"
  moreover have "bit (octets_word (p # u)) n = bit (octets_word (q # v)) n" by (simp only: assms)
  ultimately show "bit p n = bit q n" by (simp add: bit_xor_iff bit_push_bit_iff bit_ucast_iff)
qed

lemma octets_word_inj: "length u = length v \<Longrightarrow> length u \<le> 4 \<Longrightarrow> octets_word u = octets_word v \<Longrightarrow> u = v"
proof (induction u v rule: list_induct2)
  case (Cons p u q v)
  have pq: "p = q" by (rule octets_word_head[OF Cons.prems(2)])
  have "push_bit 8 (octets_word u) = push_bit 8 (octets_word v)"
    using Cons.prems(2) by (simp only: pq octets_word.simps xor_cancel_left)
  then have d: "drop_bit 8 (push_bit 8 (octets_word u)) = drop_bit 8 (push_bit 8 (octets_word v))" by (simp only:)
  have l: "length u < 4" "length v < 4" using Cons.hyps Cons.prems(1) by simp_all
  have w: "octets_word u = octets_word v" using d unfolding drop_push_octets[OF l(1)] drop_push_octets[OF l(2)] .
  have "u = v" by (rule Cons.IH[OF less_imp_le[OF l(1)] w])
  with pq show ?case by blast
qed simp

lemma crc_steps_inj: "foldl crc_step s u = foldl crc_step t u \<longleftrightarrow> s = t"
proof (induction u arbitrary: s t)
  case (Cons p ps)
  have "crc_step s p = crc_step t p \<longleftrightarrow> s XOR ucast p = t XOR ucast p" by (simp add: crc_step_shifts shifts_inj)
  also have "\<dots> \<longleftrightarrow> s = t" by (rule xor_cancel_right)
  finally show ?case using Cons by simp
qed simp

text \<open>
  A burst of errors within four consecutive octets is detected: the check of a computed frame check sequence fails
  for any two frames of the same length that differ only there, whatever is known about the data.
\<close>

theorem fcs_detects_bursts:
  assumes "length u = length v" "length u \<le> 4" "u \<noteq> v" "computeFcs FCS_COMPUTED (before @ u @ after) = Some fcs"
  shows "checkFcs intact (before @ v @ after) FCS_COMPUTED fcs = Some False"
proof -
  let ?s = "foldl crc_step (swap_bytes 0 XOR NOT 0) before"
  have "octets_word u \<noteq> octets_word v" using octets_word_inj assms(1-3) by blast
  then have "?s XOR octets_word u \<noteq> ?s XOR octets_word v" by (simp add: xor_cancel_left)
  then have "foldl crc_step ?s u \<noteq> foldl crc_step ?s v"
    using assms(1,2) by (simp add: crc_steps_word shifts_inj)
  then have "foldl crc_step ?s (u @ after) \<noteq> foldl crc_step ?s (v @ after)" by (simp add: crc_steps_inj)
  then have "ethernetCRC (before @ u @ after) 0 \<noteq> ethernetCRC (before @ v @ after) 0"
    unfolding ethernetCRC_def swap_inj xor_cancel_right foldl_append .
  then show ?thesis using assms(4) by (simp add: computeFcs_def checkFcs_def)
qed

theorem fcs_detects_bursts_witness:
  "\<exists>fcs. computeFcs FCS_COMPUTED [1, 2, 3] = Some fcs \<and> checkFcs True [1, 7, 3] FCS_COMPUTED fcs = Some False"
  using fcs_detects_bursts[of "[2]" "[7]" "[1]" "[3]"] by (simp add: computeFcs_def)

text \<open>
  C37. The fragments of a frame pass the checker in their order, each is handed on with the right mark for the last one,
  and the check sequence of the last fragment is that of the whole frame.
\<close>

theorem fragment_fcs_roundtrip:
  assumes "fragments \<noteq> []"
  shows "\<exists>out s' t'. insert_all True fragments s = Some (out, s') \<and>
    receive_all True out t = Some (map (\<lambda>b. (b, Some False)) (butlast fragments) @ [(last fragments, Some True)], t') \<and>
    computeFcs FCS_COMPUTED (concat fragments) = Some (fst (snd (last out)))"
  using fragments_accepted[OF assms, of True "[]" s t] by (auto simp: computeFcs_def)

theorem fragment_fcs_roundtrip_witness:
  "\<exists>out s'. insert_all True [[1, 2], [3]] \<lparr>ff_lastFragmentCompleteFcs = 5, ff_currentFragmentCompleteFcs = 6\<rparr> = Some (out, s')"
  using fragment_fcs_roundtrip[of "[[1, 2], [3]]"] by blast

end
