(* ===== verification/Ethernet_Mac.thy ===== *)
theory Ethernet_Mac
  imports Checksum Packet_Queue
begin

text \<open>
  The full duplex MAC of Ethernet (src/inet/src/inet/linklayer/ethernet/basic/EthernetMac.cc and
  base/EthernetMacBase.cc): transmission, interframe gap, PAUSE flow control, reception, connection changes.

  The MAC pulls its frames from a queue given by its operations. Every handler gets the simulation time \<open>now\<close> and
  the conversion \<open>conv\<close> of a \<open>double\<close> number of seconds to a time; \<open>None\<close> is a thrown error. A self message that
  is scheduled has its time. Tags, statistics signals and the stop operation of the lifecycle are left out.
\<close>

section \<open>Constants and data\<close>

definition MAX_ETHERNET_FRAME_BYTES :: int where "MAX_ETHERNET_FRAME_BYTES = 1526"

definition MIN_ETHERNET_FRAME_BYTES :: int where "MIN_ETHERNET_FRAME_BYTES = 64"

definition INTERFRAME_GAP_BITS :: int where "INTERFRAME_GAP_BITS = 96"

definition PAUSE_UNIT_BITS :: int where "PAUSE_UNIT_BITS = 512"

definition ETHER_FCS_BYTES :: int where "ETHER_FCS_BYTES = 4"

definition ETHER_MAC_HEADER_BYTES :: int where "ETHER_MAC_HEADER_BYTES = 14"

definition ETHER_PHY_HEADER_BYTES :: int where "ETHER_PHY_HEADER_BYTES = 8"

definition ETHERTYPE_FLOW_CONTROL :: "16 word" where "ETHERTYPE_FLOW_CONTROL = 0x8808"

definition MULTICAST_PAUSE_ADDRESS :: mac_address where
  "MULTICAST_PAUSE_ADDRESS = MacAddress 0x0180C2000001"

definition txrates :: "real list" where
  "txrates = [10 ^ 7, 10 ^ 8, 10 ^ 9, 25 * 10 ^ 8, 5 * 10 ^ 9, 10 ^ 10, 25 * 10 ^ 9, 4 * 10 ^ 10, 10 ^ 11, 2 * 10 ^ 11, 4 * 10 ^ 11]"

text \<open>A frame: its header, all octets but the frame check sequence, and the control frame if its type says so.\<close>

record eframe =
  fr_header :: ethernet_header
  fr_octets :: "octet list"
  fr_fcs :: ethernet_fcs
  fr_control :: "control_frame option"

definition fr_length :: "eframe \<Rightarrow> int" where
  "fr_length f = int (length (fr_octets f)) + ETHER_FCS_BYTES"

datatype ether_signal =
    EthernetSignal eframe (sig_bitError: bool) (sig_fullDuplex: bool) (sig_duration: simtime)
  | EthernetJamSignal (sig_fullDuplex: bool) (sig_duration: simtime)
  | EthernetFilledIfgSignal (sig_fullDuplex: bool) (sig_duration: simtime)

record ether_channel =
  ch_datarate :: real
  ch_disabled :: bool

record ether_links =
  lk_connected :: bool
  lk_out :: "ether_channel option"
  lk_in :: "ether_channel option"

record ('q, 'p) txqueue_ops =
  tq_canPull :: "'q \<Rightarrow> bool"
  tq_pull :: "'q \<Rightarrow> ('p \<times> 'q) option"
  tq_push :: "'p \<Rightarrow> 'q \<Rightarrow> (bool \<times> 'q) option"
  tq_frame :: "'p \<Rightarrow> eframe"

datatype transmit_state = TX_IDLE_STATE | WAIT_IFG_STATE | TRANSMITTING_STATE | PAUSE_STATE

record 'q emac =
  em_address :: mac_address
  em_promiscuous :: bool
  em_fcsMode :: fcs_mode
  em_duplexMode :: bool
  em_connected :: bool
  em_channelsDiffer :: bool
  em_txrate :: real
  em_transmitState :: transmit_state
  em_lastTxFinishTime :: simtime
  em_pauseUnitsRequested :: int
  em_endTxTimer :: "simtime option"
  em_endIfgTimer :: "simtime option"
  em_endPauseTimer :: "simtime option"
  em_curTxSignal :: "simtime option"
  em_currentTxFrame :: "eframe option"
  em_txQueue :: 'q
  em_links :: ether_links
  em_numFramesSent :: nat
  em_numBytesSent :: int
  em_numFramesReceivedOK :: nat
  em_numBytesReceivedOK :: int
  em_numFramesFromHL :: nat
  em_numDroppedPkFromHLIfaceDown :: nat
  em_numDroppedIfaceDown :: nat
  em_numDroppedBitError :: nat
  em_numDroppedNotForUs :: nat
  em_numFramesPassedToHL :: nat
  em_numPauseFramesRcvd :: nat
  em_numPauseFramesSent :: nat
  em_totalSuccessfulRxTime :: simtime

text \<open>What the MAC does: it starts a transmission that ends at a time, it passes a frame up, it cuts a transmission.\<close>

datatype mac_output = Transmit eframe simtime | PassUp eframe | CutTransmission simtime

section \<open>Frames\<close>

definition addPaddingAndSetFcs :: "fcs_mode \<Rightarrow> int \<Rightarrow> eframe \<Rightarrow> eframe option" where
  "addPaddingAndSetFcs mode requiredMinBytes f =
     (let paddingLength = requiredMinBytes - ETHER_FCS_BYTES - int (length (fr_octets f));
          octets = fr_octets f @ (if paddingLength > 0 then replicate (nat paddingLength) 0 else [])
      in do {
        fcs \<leftarrow> (case mode of FCS_DECLARED_CORRECT \<Rightarrow> Some 0xC00DC00D | FCS_DECLARED_INCORRECT \<Rightarrow> Some 0xBAADBAAD
                | FCS_COMPUTED \<Rightarrow> Some (ethernetCRC octets 0) | _ \<Rightarrow> None);
        Some (f\<lparr>fr_octets := octets, fr_fcs := \<lparr>ef_fcs = fcs, ef_fcsMode = mode\<rparr>\<rparr>)
      })"

definition mac_isIeee8023Length :: "16 word \<Rightarrow> bool" where
  "mac_isIeee8023Length typeOrLength \<longleftrightarrow> typeOrLength > 0 \<and> typeOrLength < 0x600"

definition verifyCrcAndLength :: "eframe \<Rightarrow> bool option" where
  "verifyCrcAndLength f =
     do {
       ok \<leftarrow> (case ef_fcsMode (fr_fcs f) of FCS_DECLARED_CORRECT \<Rightarrow> Some True | FCS_DECLARED_INCORRECT \<Rightarrow> Some False
              | FCS_COMPUTED \<Rightarrow> Some (ethernetCRC (fr_octets f) 0 = ef_fcs (fr_fcs f)) | _ \<Rightarrow> None);
       Some (ok \<and> (mac_isIeee8023Length (eh_typeOrLength (fr_header f)) \<longrightarrow>
         uint (eh_typeOrLength (fr_header f)) \<le> fr_length f - (ETHER_MAC_HEADER_BYTES + ETHER_FCS_BYTES)))
     }"

definition frameForUs :: "'q emac \<Rightarrow> eframe \<Rightarrow> bool" where
  "frameForUs s f =
     (let dest = eh_dest (fr_header f); isPause = (eh_typeOrLength (fr_header f) = ETHERTYPE_FLOW_CONTROL)
      in if dest = em_address s then True
         else if isBroadcast dest then True
         else if \<not> isPause \<and> (em_promiscuous s \<or> isMulticast dest) then True
         else if isPause \<and> dest = MULTICAST_PAUSE_ADDRESS then True
         else False)"

section \<open>Transmission\<close>

definition startFrameTransmission :: "(real \<Rightarrow> int) \<Rightarrow> simtime \<Rightarrow> 'q emac \<Rightarrow> ('q emac \<times> mac_output list) option" where
  "startFrameTransmission conv now s =
     do {
       frame \<leftarrow> em_currentTxFrame s;
       ensure (\<not> isUnspecified (eh_src (fr_header frame)));
       ensure (em_curTxSignal s = None);
       let finish = now + conv (of_int (8 * (fr_length frame + ETHER_PHY_HEADER_BYTES)) / em_txrate s);
       ensure (em_endTxTimer s = None \<and> now \<le> finish);
       Some (s\<lparr>em_curTxSignal := Some now, em_endTxTimer := Some finish, em_transmitState := TRANSMITTING_STATE\<rparr>,
             [Transmit frame finish])
     }"

definition mac_handleUpperPacket :: "(real \<Rightarrow> int) \<Rightarrow> simtime \<Rightarrow> eframe \<Rightarrow> 'q emac \<Rightarrow> ('q emac \<times> mac_output list) option" where
  "mac_handleUpperPacket conv now frame s =
     (let s = s\<lparr>em_numFramesFromHL := em_numFramesFromHL s + 1\<rparr>
      in do {
        ensure (eh_dest (fr_header frame) \<noteq> em_address s);
        ensure (\<not> fr_length frame > MAX_ETHERNET_FRAME_BYTES);
        (if \<not> em_connected s
         then Some (s\<lparr>em_numDroppedPkFromHLIfaceDown := em_numDroppedPkFromHLIfaceDown s + 1\<rparr>, [])
         else do {
           ensure (em_transmitState s = TX_IDLE_STATE);
           ensure (em_currentTxFrame s = None);
           frame \<leftarrow> addPaddingAndSetFcs (em_fcsMode s) MIN_ETHERNET_FRAME_BYTES frame;
           startFrameTransmission conv now (s\<lparr>em_currentTxFrame := Some frame\<rparr>)
         })
      })"

text \<open>The next frame of the queue, if there is one.\<close>

definition pull_next :: "(real \<Rightarrow> int) \<Rightarrow> ('q, 'p) txqueue_ops \<Rightarrow> simtime \<Rightarrow> 'q emac \<Rightarrow> ('q emac \<times> mac_output list) option" where
  "pull_next conv ops now s =
     (if tq_canPull ops (em_txQueue s)
      then do { (p, q) \<leftarrow> tq_pull ops (em_txQueue s); mac_handleUpperPacket conv now (tq_frame ops p) (s\<lparr>em_txQueue := q\<rparr>) }
      else Some (s, []))"

definition scheduleEndIFGPeriod :: "(real \<Rightarrow> int) \<Rightarrow> simtime \<Rightarrow> 'q emac \<Rightarrow> 'q emac option" where
  "scheduleEndIFGPeriod conv now s =
     do {
       ensure (em_currentTxFrame s = None);
       let endIFGTime = now + conv (of_int INTERFRAME_GAP_BITS / em_txrate s);
       ensure (em_endIfgTimer s = None \<and> now \<le> endIFGTime);
       Some (s\<lparr>em_transmitState := WAIT_IFG_STATE, em_endIfgTimer := Some endIFGTime\<rparr>)
     }"

definition scheduleEndPausePeriod :: "(real \<Rightarrow> int) \<Rightarrow> simtime \<Rightarrow> int \<Rightarrow> 'q emac \<Rightarrow> 'q emac option" where
  "scheduleEndPausePeriod conv now pauseUnits s =
     do {
       ensure (em_currentTxFrame s = None);
       let pausePeriod = conv (of_int (pauseUnits * PAUSE_UNIT_BITS) / em_txrate s);
       ensure (em_endPauseTimer s = None \<and> 0 \<le> pausePeriod);
       Some (s\<lparr>em_endPauseTimer := Some (now + pausePeriod), em_transmitState := PAUSE_STATE\<rparr>)
     }"

text \<open>A PAUSE frame that was sent is counted.\<close>

definition pauseFrameSent :: "eframe \<Rightarrow> 'q emac \<Rightarrow> 'q emac option" where
  "pauseFrameSent frame s =
     (if eh_typeOrLength (fr_header frame) = ETHERTYPE_FLOW_CONTROL
      then (case fr_control frame of
          Some (PauseFrame opCode t) \<Rightarrow>
            Some (if opCode = ETHERNET_CONTROL_PAUSE then s\<lparr>em_numPauseFramesSent := em_numPauseFramesSent s + 1\<rparr> else s)
        | Some (OtherControl opCode) \<Rightarrow> if opCode = ETHERNET_CONTROL_PAUSE then None else Some s
        | None \<Rightarrow> None)
      else Some s)"

definition handleEndTxPeriod :: "(real \<Rightarrow> int) \<Rightarrow> simtime \<Rightarrow> 'q emac \<Rightarrow> 'q emac option" where
  "handleEndTxPeriod conv now s =
     do {
       ensure (em_transmitState s = TRANSMITTING_STATE);
       frame \<leftarrow> em_currentTxFrame s;
       ensure (em_curTxSignal s \<noteq> None);
       let s = s\<lparr>em_numFramesSent := em_numFramesSent s + 1, em_numBytesSent := em_numBytesSent s + fr_length frame,
                 em_curTxSignal := None\<rparr>;
       s \<leftarrow> pauseFrameSent frame s;
       let s = s\<lparr>em_currentTxFrame := None, em_lastTxFinishTime := now\<rparr>;
       (if em_pauseUnitsRequested s > 0
        then do {
          s \<leftarrow> scheduleEndPausePeriod conv now (em_pauseUnitsRequested s) s;
          Some (s\<lparr>em_pauseUnitsRequested := 0\<rparr>)
        }
        else scheduleEndIFGPeriod conv now s)
     }"

definition handleEndIFGPeriod :: "(real \<Rightarrow> int) \<Rightarrow> ('q, 'p) txqueue_ops \<Rightarrow> simtime \<Rightarrow> 'q emac \<Rightarrow> ('q emac \<times> mac_output list) option" where
  "handleEndIFGPeriod conv ops now s =
     do {
       ensure (em_currentTxFrame s = None);
       ensure (em_transmitState s = WAIT_IFG_STATE);
       pull_next conv ops now (s\<lparr>em_transmitState := TX_IDLE_STATE\<rparr>)
     }"

definition handleEndPausePeriod :: "(real \<Rightarrow> int) \<Rightarrow> ('q, 'p) txqueue_ops \<Rightarrow> simtime \<Rightarrow> 'q emac \<Rightarrow> ('q emac \<times> mac_output list) option" where
  "handleEndPausePeriod conv ops now s =
     do {
       ensure (em_currentTxFrame s = None);
       ensure (em_transmitState s = PAUSE_STATE);
       pull_next conv ops now (s\<lparr>em_transmitState := TX_IDLE_STATE\<rparr>)
     }"

definition beginSendFrames :: "(real \<Rightarrow> int) \<Rightarrow> simtime \<Rightarrow> 'q emac \<Rightarrow> ('q emac \<times> mac_output list) option" where
  "beginSendFrames conv now s =
     (if em_currentTxFrame s \<noteq> None then startFrameTransmission conv now s
      else Some (s\<lparr>em_transmitState := TX_IDLE_STATE\<rparr>, []))"

definition handleCanPullPacketChanged ::
  "(real \<Rightarrow> int) \<Rightarrow> ('q, 'p) txqueue_ops \<Rightarrow> simtime \<Rightarrow> 'q emac \<Rightarrow> ('q emac \<times> mac_output list) option" where
  "handleCanPullPacketChanged conv ops now s =
     (if em_currentTxFrame s = None \<and> em_transmitState s = TX_IDLE_STATE then pull_next conv ops now s else Some (s, []))"

section \<open>Reception\<close>

definition processPauseCommand :: "(real \<Rightarrow> int) \<Rightarrow> simtime \<Rightarrow> int \<Rightarrow> 'q emac \<Rightarrow> 'q emac option" where
  "processPauseCommand conv now pauseUnits s =
     (if em_transmitState s = TX_IDLE_STATE
      then (if pauseUnits > 0 then scheduleEndPausePeriod conv now pauseUnits s else Some s)
      else if em_transmitState s = PAUSE_STATE
      then scheduleEndPausePeriod conv now pauseUnits (s\<lparr>em_endPauseTimer := None\<rparr>)
      else Some (s\<lparr>em_pauseUnitsRequested := pauseUnits\<rparr>))"

definition processReceivedDataFrame :: "eframe \<Rightarrow> 'q emac \<Rightarrow> 'q emac \<times> mac_output list" where
  "processReceivedDataFrame frame s =
     (s\<lparr>em_numFramesReceivedOK := em_numFramesReceivedOK s + 1,
        em_numBytesReceivedOK := em_numBytesReceivedOK s + fr_length frame,
        em_numFramesPassedToHL := em_numFramesPassedToHL s + 1\<rparr>, [PassUp frame])"

definition processMsgFromNetwork ::
  "(real \<Rightarrow> int) \<Rightarrow> simtime \<Rightarrow> ether_signal \<Rightarrow> 'q emac \<Rightarrow> ('q emac \<times> mac_output list) option" where
  "processMsgFromNetwork conv now sig s =
     (if \<not> em_connected s
      then (case sig of
          EthernetSignal frame bitError fullDuplex duration \<Rightarrow>
            do { ensure (fr_length frame \<ge> MIN_ETHERNET_FRAME_BYTES);
                 Some (s\<lparr>em_numDroppedIfaceDown := em_numDroppedIfaceDown s + 1\<rparr>, []) }
        | _ \<Rightarrow> Some (s, []))
      else do {
        let s = s\<lparr>em_totalSuccessfulRxTime := em_totalSuccessfulRxTime s + sig_duration sig\<rparr>;
        ensure (\<not> sig_fullDuplex sig \<noteq> em_duplexMode s);
        (case sig of
           EthernetSignal frame hasBitError fullDuplex duration \<Rightarrow>
             do {
               ensure (fr_length frame \<ge> MIN_ETHERNET_FRAME_BYTES);
               ok \<leftarrow> (if hasBitError then Some False else verifyCrcAndLength frame);
               (if \<not> ok then Some (s\<lparr>em_numDroppedBitError := em_numDroppedBitError s + 1\<rparr>, [])
                else if \<not> frameForUs s frame then Some (s\<lparr>em_numDroppedNotForUs := em_numDroppedNotForUs s + 1\<rparr>, [])
                else if eh_typeOrLength (fr_header frame) = ETHERTYPE_FLOW_CONTROL
                then (case fr_control frame of
                    Some (PauseFrame opCode t) \<Rightarrow>
                      if opCode = ETHERNET_CONTROL_PAUSE
                      then do {
                        s \<leftarrow> processPauseCommand conv now (uint t) (s\<lparr>em_numPauseFramesRcvd := em_numPauseFramesRcvd s + 1\<rparr>);
                        Some (s, [])
                      }
                      else Some (s, [])
                  | Some (OtherControl opCode) \<Rightarrow> if opCode = ETHERNET_CONTROL_PAUSE then None else Some (s, [])
                  | None \<Rightarrow> None)
                else Some (processReceivedDataFrame frame s))
             }
         | _ \<Rightarrow> None)
      })"

section \<open>Connection\<close>

definition readChannelParameters :: "bool \<Rightarrow> 'q emac \<Rightarrow> 'q emac option" where
  "readChannelParameters errorWhenAsymmetric s =
     (let links = em_links s; outTrChannel = lk_out links; inTrChannel = lk_in links;
          txRate = (case outTrChannel of Some c \<Rightarrow> ch_datarate c | None \<Rightarrow> 0);
          rxRate = (case inTrChannel of Some c \<Rightarrow> ch_datarate c | None \<Rightarrow> 0);
          rxDisabled = (case inTrChannel of Some c \<Rightarrow> ch_disabled c | None \<Rightarrow> True);
          txDisabled = (case outTrChannel of Some c \<Rightarrow> ch_disabled c | None \<Rightarrow> True)
      in do {
        ensure (\<not> (lk_connected links \<and> (outTrChannel = None \<or> inTrChannel = None)));
        ensure (\<not> (errorWhenAsymmetric \<and> rxDisabled \<noteq> txDisabled));
        let connected = (lk_connected links \<and> \<not> txDisabled);
        let dataratesDiffer = (connected \<and> txRate \<noteq> rxRate);
        let s = s\<lparr>em_connected := connected, em_channelsDiffer := dataratesDiffer \<or> rxDisabled \<noteq> txDisabled,
                  em_txrate := (if connected then em_txrate s else 0)\<rparr>;
        ensure (\<not> (errorWhenAsymmetric \<and> dataratesDiffer));
        (if connected then do { ensure (txRate \<in> set txrates); Some (s\<lparr>em_txrate := txRate\<rparr>) } else Some s)
      })"

text \<open>The queue is emptied; the result counts the frames.\<close>

partial_function (option) drop_queue :: "('q, 'p) txqueue_ops \<Rightarrow> nat \<Rightarrow> 'q \<Rightarrow> (nat \<times> 'q) option" where
  [code]: "drop_queue ops n q =
     (if tq_canPull ops q then do { (p, q) \<leftarrow> tq_pull ops q; drop_queue ops (n + 1) q } else Some (n, q))"

definition processConnectDisconnect ::
  "(real \<Rightarrow> int) \<Rightarrow> ('q, 'p) txqueue_ops \<Rightarrow> simtime \<Rightarrow> 'q emac \<Rightarrow> ('q emac \<times> mac_output list) option" where
  "processConnectDisconnect conv ops now s =
     (if \<not> em_connected s then
        do {
          let s = s\<lparr>em_endIfgTimer := None, em_endPauseTimer := None\<rparr>;
          (s, out) \<leftarrow> (case em_curTxSignal s of
              Some t \<Rightarrow>
                if lk_connected (em_links s)
                then do { ensure (em_endTxTimer s \<noteq> None);
                          Some (s\<lparr>em_curTxSignal := None, em_endTxTimer := None\<rparr>, [CutTransmission now]) }
                else Some (s\<lparr>em_curTxSignal := None, em_endTxTimer := None\<rparr>, [])
            | None \<Rightarrow> Some (s, []));
          ensure (em_endTxTimer s = None);
          let s = (case em_currentTxFrame s of
              Some f \<Rightarrow> s\<lparr>em_numDroppedPkFromHLIfaceDown := em_numDroppedPkFromHLIfaceDown s + 1, em_currentTxFrame := None,
                         em_lastTxFinishTime := conv (-1)\<rparr>
            | None \<Rightarrow> s);
          (n, q) \<leftarrow> drop_queue ops 0 (em_txQueue s);
          Some (s\<lparr>em_txQueue := q, em_numDroppedPkFromHLIfaceDown := em_numDroppedPkFromHLIfaceDown s + n,
                  em_transmitState := TX_IDLE_STATE\<rparr>, out)
        }
      else Some (s, []))"

definition refreshConnection ::
  "(real \<Rightarrow> int) \<Rightarrow> ('q, 'p) txqueue_ops \<Rightarrow> simtime \<Rightarrow> 'q emac \<Rightarrow> ('q emac \<times> mac_output list) option" where
  "refreshConnection conv ops now s =
     (let oldConn = em_connected s
      in do {
        s \<leftarrow> readChannelParameters False s;
        if oldConn \<noteq> em_connected s then processConnectDisconnect conv ops now s else Some (s, [])
      })"

definition handleCrashOperation ::
  "(real \<Rightarrow> int) \<Rightarrow> ('q, 'p) txqueue_ops \<Rightarrow> simtime \<Rightarrow> 'q emac \<Rightarrow> ('q emac \<times> mac_output list) option" where
  "handleCrashOperation conv ops now s = processConnectDisconnect conv ops now (s\<lparr>em_connected := False\<rparr>)"

definition mac_handleStartOperation :: "'q emac \<Rightarrow> 'q emac option" where
  "mac_handleStartOperation s = readChannelParameters True (s\<lparr>em_connected := lk_connected (em_links s)\<rparr>)"

section \<open>Events\<close>

text \<open>
  A timer that fires is not scheduled any more when its handler runs. \<open>handleMessageWhenUp\<close> first reads the channel
  parameters again if the two directions differed. The notifications about a new or cut path and about parameters
  of the outgoing channel refresh the connection; a change of the incoming channel is not notified.
\<close>

datatype 'p mac_event =
    EndTx | EndIfg | EndPause | SignalArrived ether_signal | PacketEnqueued 'p
  | ConnectionChanged ether_links | InChannelChanged ether_channel

definition mac_handleSelfMessage ::
  "(real \<Rightarrow> int) \<Rightarrow> ('q, 'p) txqueue_ops \<Rightarrow> simtime \<Rightarrow> 'p mac_event \<Rightarrow> 'q emac \<Rightarrow> ('q emac \<times> mac_output list) option" where
  "mac_handleSelfMessage conv ops now msg s =
     (case msg of
        EndTx \<Rightarrow> map_option (\<lambda>s. (s, [])) (handleEndTxPeriod conv now (s\<lparr>em_endTxTimer := None\<rparr>))
      | EndIfg \<Rightarrow> handleEndIFGPeriod conv ops now (s\<lparr>em_endIfgTimer := None\<rparr>)
      | EndPause \<Rightarrow> handleEndPausePeriod conv ops now (s\<lparr>em_endPauseTimer := None\<rparr>)
      | _ \<Rightarrow> None)"

definition handleMessageWhenUp ::
  "(real \<Rightarrow> int) \<Rightarrow> ('q, 'p) txqueue_ops \<Rightarrow> simtime \<Rightarrow> 'p mac_event \<Rightarrow> 'q emac \<Rightarrow> ('q emac \<times> mac_output list) option" where
  "handleMessageWhenUp conv ops now msg s =
     do {
       s \<leftarrow> (if em_channelsDiffer s then readChannelParameters True s else Some s);
       (case msg of SignalArrived sig \<Rightarrow> processMsgFromNetwork conv now sig s | _ \<Rightarrow> mac_handleSelfMessage conv ops now msg s)
     }"

definition mac_step ::
  "(real \<Rightarrow> int) \<Rightarrow> ('q, 'p) txqueue_ops \<Rightarrow> simtime \<Rightarrow> 'p mac_event \<Rightarrow> 'q emac \<Rightarrow> ('q emac \<times> mac_output list) option" where
  "mac_step conv ops now ev s =
     (case ev of
        PacketEnqueued p \<Rightarrow>
          do { (notified, q) \<leftarrow> tq_push ops p (em_txQueue s);
               (if notified then handleCanPullPacketChanged conv ops now (s\<lparr>em_txQueue := q\<rparr>)
                else Some (s\<lparr>em_txQueue := q\<rparr>, [])) }
      | ConnectionChanged links \<Rightarrow> refreshConnection conv ops now (s\<lparr>em_links := links\<rparr>)
      | InChannelChanged c \<Rightarrow> Some (s\<lparr>em_links := (em_links s)\<lparr>lk_in := Some c\<rparr>\<rparr>, [])
      | _ \<Rightarrow> handleMessageWhenUp conv ops now ev s)"

text \<open>A run: the events with their times, the outputs with theirs.\<close>

fun mac_run ::
  "(real \<Rightarrow> int) \<Rightarrow> ('q, 'p) txqueue_ops \<Rightarrow> (simtime \<times> 'p mac_event) list \<Rightarrow> 'q emac \<Rightarrow> ((simtime \<times> mac_output) list \<times> 'q emac) option" where
  "mac_run conv ops [] s = Some ([], s)"
| "mac_run conv ops ((now, ev) # evs) s =
     do {
       (s, out) \<leftarrow> mac_step conv ops now ev s;
       (outs, s) \<leftarrow> mac_run conv ops evs s;
       Some (map (Pair now) out @ outs, s)
     }"


section \<open>The queue the MAC relies on\<close>

text \<open>What the MAC needs of its queue, for a queue with the given contents.\<close>

locale tx_queue =
  fixes ops :: "('q, 'p) txqueue_ops" and contents :: "'q \<Rightarrow> 'p list" and queue_ok :: "'q \<Rightarrow> bool"
  assumes can_pull: "queue_ok q \<Longrightarrow> tq_canPull ops q \<longleftrightarrow> contents q \<noteq> []"
    and pull: "queue_ok q \<Longrightarrow> contents q \<noteq> [] \<Longrightarrow>
      \<exists>p q'. tq_pull ops q = Some (p, q') \<and> queue_ok q' \<and> mset (contents q) = add_mset p (mset (contents q'))"
    and push: "queue_ok q \<Longrightarrow>
      \<exists>notified q'. tq_push ops p q = Some (notified, q') \<and> queue_ok q' \<and> notified = (contents q' \<noteq> []) \<and>
        set (contents q') \<subseteq> insert p (set (contents q)) \<and> length (contents q') \<le> Suc (length (contents q))"

section \<open>Invariant\<close>

definition link_up :: "ether_links \<Rightarrow> bool" where
  "link_up lk \<longleftrightarrow> lk_connected lk \<and> (case lk_out lk of Some c \<Rightarrow> \<not> ch_disabled c | None \<Rightarrow> False)"

definition links_ok :: "ether_links \<Rightarrow> bool" where
  "links_ok lk \<longleftrightarrow> (lk_connected lk \<longrightarrow> lk_out lk \<noteq> None \<and> lk_in lk \<noteq> None) \<and>
     (link_up lk \<longrightarrow> ch_datarate (the (lk_out lk)) \<in> set txrates)"

definition links_symmetric :: "ether_links \<Rightarrow> bool" where
  "links_symmetric lk \<longleftrightarrow>
     (case lk_in lk of Some c \<Rightarrow> ch_disabled c | None \<Rightarrow> True) = (case lk_out lk of Some c \<Rightarrow> ch_disabled c | None \<Rightarrow> True) \<and>
     (link_up lk \<longrightarrow> map_option ch_datarate (lk_in lk) = map_option ch_datarate (lk_out lk))"

definition control_ok :: "eframe \<Rightarrow> bool" where
  "control_ok f \<longleftrightarrow> (eh_typeOrLength (fr_header f) = ETHERTYPE_FLOW_CONTROL \<longrightarrow>
     (case fr_control f of Some (OtherControl op) \<Rightarrow> op \<noteq> ETHERNET_CONTROL_PAUSE | Some (PauseFrame op t) \<Rightarrow> True | None \<Rightarrow> False))"

text \<open>A frame the upper layer may send, a signal that may arrive.\<close>

definition frame_ok :: "mac_address \<Rightarrow> eframe \<Rightarrow> bool" where
  "frame_ok a f \<longleftrightarrow> eh_dest (fr_header f) \<noteq> a \<and> \<not> isUnspecified (eh_src (fr_header f)) \<and>
     fr_length f \<le> MAX_ETHERNET_FRAME_BYTES \<and> control_ok f"

definition fcs_supported :: "fcs_mode \<Rightarrow> bool" where
  "fcs_supported m \<longleftrightarrow> m \<in> {FCS_DECLARED_CORRECT, FCS_DECLARED_INCORRECT, FCS_COMPUTED}"

definition mac_base :: "('q, 'p) txqueue_ops \<Rightarrow> ('q \<Rightarrow> 'p list) \<Rightarrow> ('q \<Rightarrow> bool) \<Rightarrow> 'q emac \<Rightarrow> bool" where
  "mac_base ops contents queue_ok s \<longleftrightarrow>
     queue_ok (em_txQueue s) \<and> (\<forall>p \<in> set (contents (em_txQueue s)). frame_ok (em_address s) (tq_frame ops p)) \<and>
     fcs_supported (em_fcsMode s) \<and> em_duplexMode s \<and> links_ok (em_links s) \<and> link_up (em_links s) = em_connected s \<and>
     em_txrate s = (if em_connected s then ch_datarate (the (lk_out (em_links s))) else 0) \<and> 0 \<le> em_pauseUnitsRequested s"

text \<open>The timers, the signal and the frame that a state of the transmitter has.\<close>

definition mac_state_ok :: "('q \<Rightarrow> 'p list) \<Rightarrow> 'q emac \<Rightarrow> bool" where
  "mac_state_ok contents s \<longleftrightarrow>
     (em_endTxTimer s \<noteq> None \<longleftrightarrow> em_transmitState s = TRANSMITTING_STATE) \<and>
     (em_endIfgTimer s \<noteq> None \<longleftrightarrow> em_transmitState s = WAIT_IFG_STATE) \<and>
     (em_endPauseTimer s \<noteq> None \<longleftrightarrow> em_transmitState s = PAUSE_STATE) \<and>
     (em_curTxSignal s \<noteq> None \<longleftrightarrow> em_transmitState s = TRANSMITTING_STATE) \<and>
     (em_currentTxFrame s \<noteq> None \<longleftrightarrow> em_transmitState s = TRANSMITTING_STATE) \<and>
     (\<forall>f. em_currentTxFrame s = Some f \<longrightarrow> frame_ok (em_address s) f) \<and>
     (em_transmitState s \<noteq> TX_IDLE_STATE \<longrightarrow> em_connected s) \<and>
     (em_transmitState s = TX_IDLE_STATE \<longrightarrow> contents (em_txQueue s) = [])"

definition mac_ok :: "('q, 'p) txqueue_ops \<Rightarrow> ('q \<Rightarrow> 'p list) \<Rightarrow> ('q \<Rightarrow> bool) \<Rightarrow> 'q emac \<Rightarrow> bool" where
  "mac_ok ops contents queue_ok s \<longleftrightarrow> mac_base ops contents queue_ok s \<and> mac_state_ok contents s"

text \<open>
  The events that can occur: a timer fires when it is due and nothing overtakes it; a message arrives when the
  directions of the link agree again.
\<close>

definition signal_ok :: "ether_signal \<Rightarrow> bool" where
  "signal_ok sig \<longleftrightarrow> (case sig of
     EthernetSignal f hasBitError fullDuplex d \<Rightarrow> fullDuplex \<and> MIN_ETHERNET_FRAME_BYTES \<le> fr_length f \<and> fcs_supported (ef_fcsMode (fr_fcs f)) \<and> control_ok f
   | _ \<Rightarrow> False)"

definition mac_legal :: "('q, 'p) txqueue_ops \<Rightarrow> simtime \<Rightarrow> 'p mac_event \<Rightarrow> 'q emac \<Rightarrow> bool" where
  "mac_legal ops now ev s \<longleftrightarrow>
     (\<forall>t. em_endTxTimer s = Some t \<or> em_endIfgTimer s = Some t \<or> em_endPauseTimer s = Some t \<longrightarrow> now \<le> t) \<and>
     (case ev of
        EndTx \<Rightarrow> em_endTxTimer s = Some now | EndIfg \<Rightarrow> em_endIfgTimer s = Some now | EndPause \<Rightarrow> em_endPauseTimer s = Some now
      | SignalArrived sig \<Rightarrow> signal_ok sig | PacketEnqueued p \<Rightarrow> frame_ok (em_address s) (tq_frame ops p)
      | ConnectionChanged lk \<Rightarrow> links_ok lk | InChannelChanged c \<Rightarrow> lk_in (em_links s) \<noteq> None) \<and>
     (case ev of PacketEnqueued _ \<Rightarrow> True | ConnectionChanged _ \<Rightarrow> True | InChannelChanged _ \<Rightarrow> True
      | _ \<Rightarrow> em_channelsDiffer s \<longrightarrow> links_symmetric (em_links s))"

fun mac_schedule ::
  "(real \<Rightarrow> int) \<Rightarrow> ('q, 'p) txqueue_ops \<Rightarrow> simtime \<Rightarrow> (simtime \<times> 'p mac_event) list \<Rightarrow> 'q emac \<Rightarrow> bool" where
  "mac_schedule conv ops t [] s \<longleftrightarrow> True"
| "mac_schedule conv ops t ((now, ev) # evs) s \<longleftrightarrow> t \<le> now \<and> mac_legal ops now ev s \<and>
     (case mac_step conv ops now ev s of None \<Rightarrow> True | Some (s', _) \<Rightarrow> mac_schedule conv ops now evs s')"

text \<open>The conversion of seconds to a time.\<close>

definition time_conversion :: "(real \<Rightarrow> int) \<Rightarrow> bool" where
  "time_conversion conv \<longleftrightarrow> conv 0 = 0 \<and> mono conv"

lemma conv_nonneg: "time_conversion conv \<Longrightarrow> 0 \<le> x \<Longrightarrow> 0 \<le> conv x"
  by (metis time_conversion_def monoD)

lemma txrates_pos: "r \<in> set txrates \<Longrightarrow> 0 < r"
  by (auto simp: txrates_def)

lemma mac_rate_pos: "mac_base ops contents queue_ok s \<Longrightarrow> em_connected s \<Longrightarrow> 0 < em_txrate s"
  by (auto simp: mac_base_def links_ok_def txrates_pos)

section \<open>The handlers\<close>

lemma readChannelParameters_result:
  assumes "links_ok (em_links s)" "e \<longrightarrow> links_symmetric (em_links s)"
  shows "\<exists>d. readChannelParameters e s = Some (s\<lparr>em_connected := link_up (em_links s), em_channelsDiffer := d,
    em_txrate := (if link_up (em_links s) then ch_datarate (the (lk_out (em_links s))) else 0)\<rparr>) \<and> (e \<longrightarrow> \<not> d)"
proof -
  let ?lk = "em_links s"
  let ?tx = "case lk_out ?lk of Some c \<Rightarrow> ch_disabled c | None \<Rightarrow> True"
  let ?rx = "case lk_in ?lk of Some c \<Rightarrow> ch_disabled c | None \<Rightarrow> True"
  let ?txr = "case lk_out ?lk of Some c \<Rightarrow> ch_datarate c | None \<Rightarrow> 0"
  let ?rxr = "case lk_in ?lk of Some c \<Rightarrow> ch_datarate c | None \<Rightarrow> 0"
  have up: "(lk_connected ?lk \<and> \<not> ?tx) = link_up ?lk" by (auto simp: link_up_def split: option.splits)
  have c: "\<not> (lk_connected ?lk \<and> (lk_out ?lk = None \<or> lk_in ?lk = None))" using assms(1) by (auto simp: links_ok_def)
  have sym: "e \<longrightarrow> \<not> ?rx \<noteq> ?tx" "e \<and> link_up ?lk \<longrightarrow> ?txr = ?rxr"
    using assms(2) by (auto simp: links_symmetric_def link_up_def split: option.splits)
  have r: "link_up ?lk \<longrightarrow> ?txr = ch_datarate (the (lk_out ?lk))" "link_up ?lk \<longrightarrow> ch_datarate (the (lk_out ?lk)) \<in> set txrates"
    using assms(1) by (auto simp: links_ok_def link_up_def split: option.splits)
  have nums: "\<not> (e \<and> ?rx \<noteq> ?tx)" "\<not> (e \<and> link_up ?lk \<and> ?txr \<noteq> ?rxr)" using sym by blast+
  have "readChannelParameters e s = Some (s\<lparr>em_connected := link_up ?lk,
      em_channelsDiffer := link_up ?lk \<and> ?txr \<noteq> ?rxr \<or> ?rx \<noteq> ?tx,
      em_txrate := (if link_up ?lk then ch_datarate (the (lk_out ?lk)) else 0)\<rparr>)"
    unfolding readChannelParameters_def Let_def up using c nums r by (cases "link_up ?lk") (simp_all only: ensure_simps Option.bind.simps if_True if_False simp_thms emac.simps, simp_all)
  then show ?thesis using nums by blast
qed

lemma addPadding_frame:
  assumes "fcs_supported m"
  shows "\<exists>f'. addPaddingAndSetFcs m n f = Some f' \<and> fr_header f' = fr_header f \<and> fr_control f' = fr_control f \<and>
    fr_length f' = max n (fr_length f)"
  using assms by (auto simp: addPaddingAndSetFcs_def fcs_supported_def Let_def fr_length_def)


definition mac_quiet :: "'q emac \<Rightarrow> bool" where
  "mac_quiet s \<longleftrightarrow> em_endTxTimer s = None \<and> em_endIfgTimer s = None \<and> em_endPauseTimer s = None \<and> em_curTxSignal s = None \<and>
     em_currentTxFrame s = None \<and> em_transmitState s = TX_IDLE_STATE"

lemma handleUpperPacket_connected:
  assumes "time_conversion conv" "mac_quiet s" "frame_ok (em_address s) f" "fcs_supported (em_fcsMode s)"
    and "em_connected s" "0 < em_txrate s"
  shows "\<exists>f' e. now \<le> e \<and> frame_ok (em_address s) f' \<and> mac_handleUpperPacket conv now f s =
    Some (s\<lparr>em_numFramesFromHL := em_numFramesFromHL s + 1, em_currentTxFrame := Some f', em_curTxSignal := Some now,
      em_endTxTimer := Some e, em_transmitState := TRANSMITTING_STATE\<rparr>, [Transmit f' e])"
proof -
  obtain f' where f': "addPaddingAndSetFcs (em_fcsMode s) MIN_ETHERNET_FRAME_BYTES f = Some f'" "fr_header f' = fr_header f"
      "fr_control f' = fr_control f" "fr_length f' = max MIN_ETHERNET_FRAME_BYTES (fr_length f)"
    using addPadding_frame[OF assms(4)] by blast
  have ok: "frame_ok (em_address s) f'" using assms(3) f'(2-4)
    by (auto simp: frame_ok_def control_ok_def MIN_ETHERNET_FRAME_BYTES_def MAX_ETHERNET_FRAME_BYTES_def)
  let ?e = "now + conv (of_int (8 * (fr_length f' + ETHER_PHY_HEADER_BYTES)) / em_txrate s)"
  have "0 \<le> fr_length f' + ETHER_PHY_HEADER_BYTES" by (simp add: fr_length_def ETHER_FCS_BYTES_def ETHER_PHY_HEADER_BYTES_def)
  then have e: "now \<le> ?e" using assms(6) by (simp add: conv_nonneg[OF assms(1)])
  have "\<not> isUnspecified (eh_src (fr_header f'))" using ok by (simp add: frame_ok_def)
  moreover have "eh_dest (fr_header f) \<noteq> em_address s" "\<not> fr_length f > MAX_ETHERNET_FRAME_BYTES"
    using assms(3) by (simp_all add: frame_ok_def)
  ultimately show ?thesis using assms(2,5) f'(1) e ok
    by (intro exI[of _ f'] exI[of _ ?e]) (simp add: mac_handleUpperPacket_def startFrameTransmission_def mac_quiet_def Let_def)
qed

lemma handleUpperPacket_disconnected:
  assumes "frame_ok (em_address s) f" "\<not> em_connected s"
  shows "mac_handleUpperPacket conv now f s = Some (s\<lparr>em_numFramesFromHL := em_numFramesFromHL s + 1,
    em_numDroppedPkFromHLIfaceDown := em_numDroppedPkFromHLIfaceDown s + 1\<rparr>, [])"
  using assms by (simp add: mac_handleUpperPacket_def frame_ok_def Let_def)

text \<open>The earliest time at which the next transmission may start.\<close>

fun tx_end :: "simtime option \<Rightarrow> simtime \<Rightarrow> simtime" where
  "tx_end (Some t) lastFinish = t"
| "tx_end None lastFinish = lastFinish"

definition earliest_start :: "(real \<Rightarrow> int) \<Rightarrow> 'q emac \<Rightarrow> simtime" where
  "earliest_start conv s = tx_end (em_endTxTimer s) (em_lastTxFinishTime s) +
     conv (of_int INTERFRAME_GAP_BITS / em_txrate s)"

definition gap_ok :: "(real \<Rightarrow> int) \<Rightarrow> simtime \<Rightarrow> 'q emac \<Rightarrow> bool" where
  "gap_ok conv now s \<longleftrightarrow> em_connected s \<longrightarrow>
     (\<forall>t. em_endIfgTimer s = Some t \<or> em_endPauseTimer s = Some t \<or> (em_transmitState s = TX_IDLE_STATE \<and> t = now) \<longrightarrow>
       earliest_start conv s \<le> t)"

text \<open>What a step does to the transmission: nothing, or it starts one.\<close>

definition step_effect :: "(real \<Rightarrow> int) \<Rightarrow> simtime \<Rightarrow> 'q emac \<Rightarrow> 'q emac \<Rightarrow> mac_output list \<Rightarrow> bool" where
  "step_effect conv now s s' out \<longleftrightarrow> em_connected s' = em_connected s \<and> em_txrate s' = em_txrate s \<and>
     em_lastTxFinishTime s' \<in> {em_lastTxFinishTime s, now} \<and>
     ((\<forall>f e. Transmit f e \<notin> set out) \<and> earliest_start conv s' = earliest_start conv s \<or>
      (\<exists>f e. out = [Transmit f e] \<and> now \<le> e \<and>
        (em_transmitState s = TX_IDLE_STATE \<or> em_endIfgTimer s = Some now \<or> em_endPauseTimer s = Some now) \<and>
        earliest_start conv s' = e + conv (of_int INTERFRAME_GAP_BITS / em_txrate s)))"

definition zero_pause :: "ether_signal \<Rightarrow> bool" where
  "zero_pause sig \<longleftrightarrow> (case sig of EthernetSignal f _ _ _ \<Rightarrow> fr_control f = Some (PauseFrame ETHERNET_CONTROL_PAUSE 0) | _ \<Rightarrow> False)"

context tx_queue begin

lemma pull_next_ok:
  assumes conv: "time_conversion conv" and base: "mac_base ops contents queue_ok s" and quiet: "mac_quiet s"
    and len: "em_connected s \<or> length (contents (em_txQueue s)) \<le> 1"
  shows "\<exists>s' out. pull_next conv ops now s = Some (s', out) \<and> mac_ok ops contents queue_ok s' \<and>
    step_effect conv now s s' out \<and> (em_transmitState s' = TX_IDLE_STATE \<and> earliest_start conv s' = earliest_start conv s \<or>
      em_transmitState s' = TRANSMITTING_STATE)"
proof (cases "contents (em_txQueue s) = []")
  case True
  with base quiet can_pull show ?thesis
    by (auto simp: pull_next_def mac_base_def mac_ok_def mac_state_ok_def mac_quiet_def step_effect_def)
next
  case False
  have qok: "queue_ok (em_txQueue s)" using base by (simp add: mac_base_def)
  from pull[OF qok False] obtain p q' where p: "tq_pull ops (em_txQueue s) = Some (p, q')" "queue_ok q'"
    "mset (contents (em_txQueue s)) = add_mset p (mset (contents q'))" by blast
  from p(3) have set: "set (contents (em_txQueue s)) = insert p (set (contents q'))" by (metis set_mset_add_mset_insert set_mset_mset)
  from p(3) have lq: "length (contents (em_txQueue s)) = Suc (length (contents q'))" by (metis size_add_mset size_mset)
  let ?s = "s\<lparr>em_txQueue := q'\<rparr>"
  have nx: "pull_next conv ops now s = mac_handleUpperPacket conv now (tq_frame ops p) ?s"
    using qok False can_pull by (simp add: pull_next_def p(1))
  have f: "frame_ok (em_address ?s) (tq_frame ops p)" using base set by (simp add: mac_base_def)
  have b: "mac_base ops contents queue_ok ?s" using base set p(2) by (simp add: mac_base_def)
  show ?thesis
  proof (cases "em_connected s")
    case True
    have "mac_quiet ?s" "fcs_supported (em_fcsMode ?s)" "em_connected ?s" "0 < em_txrate ?s"
      using quiet base True mac_rate_pos[OF base True] by (simp_all add: mac_quiet_def mac_base_def)
    from handleUpperPacket_connected[OF conv this(1) f this(2-4), of now] obtain f' e where r: "now \<le> e" "frame_ok (em_address ?s) f'"
      "mac_handleUpperPacket conv now (tq_frame ops p) ?s = Some (?s\<lparr>em_numFramesFromHL := em_numFramesFromHL ?s + 1,
        em_currentTxFrame := Some f', em_curTxSignal := Some now, em_endTxTimer := Some e, em_transmitState := TRANSMITTING_STATE\<rparr>, [Transmit f' e])"
      by blast
    show ?thesis unfolding nx r(3) using b quiet True r(1,2)
      by (simp add: mac_ok_def mac_base_def mac_state_ok_def mac_quiet_def step_effect_def earliest_start_def)
  next
    case False
    then have "contents q' = []" using len lq by simp
    with False handleUpperPacket_disconnected[OF f, of conv now] show ?thesis unfolding nx using b quiet
      by (simp add: mac_ok_def mac_base_def mac_state_ok_def mac_quiet_def step_effect_def earliest_start_def)
  qed
qed

lemma drop_queue_empties:
  "queue_ok q \<Longrightarrow> \<exists>q'. drop_queue ops n q = Some (n + length (contents q), q') \<and> queue_ok q' \<and> contents q' = []"
proof (induction "length (contents q)" arbitrary: n q)
  case 0
  then show ?case by (subst drop_queue.simps) (simp add: can_pull)
next
  case (Suc m)
  from Suc.hyps(2) have ne: "contents q \<noteq> []" by auto
  from pull[OF Suc.prems ne] obtain p q' where p: "tq_pull ops q = Some (p, q')" "queue_ok q'"
    "mset (contents q) = add_mset p (mset (contents q'))" by blast
  from p(3) have "length (contents q) = Suc (length (contents q'))" by (metis size_add_mset size_mset)
  then have l: "m = length (contents q')" using Suc.hyps(2) by simp
  have "n + 1 + length (contents q') = n + length (contents q)" using Suc.hyps(2) l by simp
  then have "\<exists>q1. drop_queue ops (n + 1) q' = Some (n + length (contents q), q1) \<and> queue_ok q1 \<and> contents q1 = []"
    using Suc.hyps(1)[OF l p(2), of "n + 1"] by (simp only:)
  then show ?case
    by (subst drop_queue.simps) (simp add: can_pull[OF Suc.prems] ne p(1))
qed


lemma gap_conv_le:
  assumes "time_conversion conv" "0 < r" "1 \<le> n"
  shows "conv (of_int INTERFRAME_GAP_BITS / r) \<le> conv (of_int (n * PAUSE_UNIT_BITS) / r)"
proof -
  have "INTERFRAME_GAP_BITS \<le> n * PAUSE_UNIT_BITS" using assms(3) by (simp add: INTERFRAME_GAP_BITS_def PAUSE_UNIT_BITS_def)
  then have "of_int INTERFRAME_GAP_BITS / r \<le> of_int (n * PAUSE_UNIT_BITS) / r" using assms(2) by (intro divide_right_mono) (simp_all del: of_int_mult)
  then show ?thesis using assms(1) by (simp add: time_conversion_def monoD)
qed

lemma pause_period_nonneg: "time_conversion conv \<Longrightarrow> 0 < r \<Longrightarrow> 0 \<le> n \<Longrightarrow> 0 \<le> conv (of_int (n * PAUSE_UNIT_BITS) / r)"
  by (rule conv_nonneg) (simp_all add: PAUSE_UNIT_BITS_def)

lemma gap_nonneg: "time_conversion conv \<Longrightarrow> 0 < r \<Longrightarrow> 0 \<le> conv (of_int INTERFRAME_GAP_BITS / r)"
  by (rule conv_nonneg) (simp_all add: INTERFRAME_GAP_BITS_def)

lemma pauseFrameSent_ok: "control_ok f \<Longrightarrow> \<exists>k. pauseFrameSent f s = Some (s\<lparr>em_numPauseFramesSent := k\<rparr>)"
proof -
  assume ok: "control_ok f"
  have "s = s\<lparr>em_numPauseFramesSent := em_numPauseFramesSent s\<rparr>" by simp
  moreover have "pauseFrameSent f s = Some (s\<lparr>em_numPauseFramesSent := em_numPauseFramesSent s + 1\<rparr>) \<or> pauseFrameSent f s = Some s"
    using ok by (simp add: pauseFrameSent_def control_ok_def split: option.splits control_frame.splits) blast
  ultimately show ?thesis by metis
qed

lemma handleEndTxPeriod_ok:
  assumes conv: "time_conversion conv" and ok: "mac_ok ops contents queue_ok s" and t: "em_endTxTimer s = Some now"
  shows "\<exists>s'. handleEndTxPeriod conv now (s\<lparr>em_endTxTimer := None\<rparr>) = Some s' \<and> mac_ok ops contents queue_ok s' \<and>
    step_effect conv now s s' [] \<and> gap_ok conv now s'"
proof -
  have st: "em_transmitState s = TRANSMITTING_STATE" "em_connected s" "em_endIfgTimer s = None" "em_endPauseTimer s = None"
      "em_curTxSignal s \<noteq> None" and fr: "em_currentTxFrame s \<noteq> None"
    using ok t by (auto simp: mac_ok_def mac_state_ok_def)
  from fr obtain f where f: "em_currentTxFrame s = Some f" by blast
  have fok: "control_ok f" using ok f by (simp add: mac_ok_def mac_state_ok_def frame_ok_def)
  have b: "mac_base ops contents queue_ok s" using ok by (simp add: mac_ok_def)
  note r = mac_rate_pos[OF b st(2)]
  have pn: "0 \<le> em_pauseUnitsRequested s" using b by (simp add: mac_base_def)
  let ?s1 = "s\<lparr>em_endTxTimer := None, em_numFramesSent := em_numFramesSent s + 1,
    em_numBytesSent := em_numBytesSent s + fr_length f, em_curTxSignal := None\<rparr>"
  from pauseFrameSent_ok[OF fok, of ?s1] obtain k where k: "pauseFrameSent f ?s1 = Some (?s1\<lparr>em_numPauseFramesSent := k\<rparr>)" by blast
  let ?s2 = "?s1\<lparr>em_numPauseFramesSent := k, em_currentTxFrame := None, em_lastTxFinishTime := now\<rparr>"
  have h: "handleEndTxPeriod conv now (s\<lparr>em_endTxTimer := None\<rparr>) =
      (if em_pauseUnitsRequested s > 0
       then do { s \<leftarrow> scheduleEndPausePeriod conv now (em_pauseUnitsRequested s) ?s2; Some (s\<lparr>em_pauseUnitsRequested := 0\<rparr>) }
       else scheduleEndIFGPeriod conv now ?s2)"
    using st(1,5) f k by (simp add: handleEndTxPeriod_def Let_def)
  have b2: "mac_base ops contents queue_ok ?s2" using b by (simp add: mac_base_def)
  show ?thesis
  proof (cases "em_pauseUnitsRequested s > 0")
    case True
    let ?p = "conv (of_int (em_pauseUnitsRequested s * PAUSE_UNIT_BITS) / em_txrate s)"
    have "0 \<le> ?p" using pause_period_nonneg[OF conv r pn] .
    moreover have "conv (of_int INTERFRAME_GAP_BITS / em_txrate s) \<le> ?p" using gap_conv_le[OF conv r] True by simp
    ultimately show ?thesis unfolding h using True st t b2
      by (simp add: scheduleEndPausePeriod_def Let_def mac_ok_def mac_base_def mac_state_ok_def step_effect_def
          earliest_start_def gap_ok_def del: of_int_mult)
  next
    case False
    have "0 \<le> conv (of_int INTERFRAME_GAP_BITS / em_txrate s)" using gap_nonneg[OF conv r] .
    then show ?thesis unfolding h using False st t b2
      by (simp add: scheduleEndIFGPeriod_def Let_def mac_ok_def mac_base_def mac_state_ok_def step_effect_def
          earliest_start_def gap_ok_def)
  qed
qed

lemma channel_check:
  assumes "mac_base ops contents queue_ok s" "em_channelsDiffer s \<longrightarrow> links_symmetric (em_links s)"
  shows "\<exists>d. (if em_channelsDiffer s then readChannelParameters True s else Some s) = Some (s\<lparr>em_channelsDiffer := d\<rparr>)"
proof (cases "em_channelsDiffer s")
  case True
  have "links_ok (em_links s)" "link_up (em_links s) = em_connected s"
    "(if link_up (em_links s) then ch_datarate (the (lk_out (em_links s))) else 0) = em_txrate s"
    using assms(1) by (simp_all add: mac_base_def)
  with readChannelParameters_result[of s True] assms(2) True obtain d where
    "readChannelParameters True s = Some (s\<lparr>em_connected := em_connected s, em_channelsDiffer := d, em_txrate := em_txrate s\<rparr>)"
    by auto
  moreover have "s\<lparr>em_connected := em_connected s, em_channelsDiffer := d, em_txrate := em_txrate s\<rparr> = s\<lparr>em_channelsDiffer := d\<rparr>"
    by simp
  ultimately show ?thesis using True by auto
qed (simp add: exI[of _ "em_channelsDiffer s"])

lemma processPauseCommand_ok:
  assumes conv: "time_conversion conv" and ok: "mac_ok ops contents queue_ok s" and up: "em_connected s" and n: "0 \<le> n"
  shows "\<exists>s'. processPauseCommand conv now n s = Some s' \<and> mac_ok ops contents queue_ok s' \<and> step_effect conv now s s' [] \<and>
    (gap_ok conv now s \<longrightarrow> em_lastTxFinishTime s \<le> now \<longrightarrow> n = 0 \<longrightarrow> em_transmitState s = PAUSE_STATE \<or> gap_ok conv now s') \<and>
    (gap_ok conv now s \<longrightarrow> em_lastTxFinishTime s \<le> now \<longrightarrow> 0 < n \<longrightarrow> gap_ok conv now s')"
proof -
  have b: "mac_base ops contents queue_ok s" using ok by (simp add: mac_ok_def)
  note r = mac_rate_pos[OF b up]
  note p = pause_period_nonneg[OF conv r n]
  have g: "1 \<le> n \<Longrightarrow> conv (of_int INTERFRAME_GAP_BITS / em_txrate s) \<le> conv (of_int (n * PAUSE_UNIT_BITS) / em_txrate s)"
    by (rule gap_conv_le[OF conv r])
  note defs = mac_ok_def mac_base_def mac_state_ok_def step_effect_def earliest_start_def gap_ok_def
  show ?thesis
  proof (cases "em_transmitState s")
    case TX_IDLE_STATE
    have e: "em_endTxTimer s = None" "em_endPauseTimer s = None" "em_endIfgTimer s = None" "em_currentTxFrame s = None"
      "em_curTxSignal s = None" using ok TX_IDLE_STATE by (simp_all add: mac_ok_def mac_state_ok_def)
    show ?thesis
    proof (cases "n > 0")
      case True
      then have "conv (of_int INTERFRAME_GAP_BITS / em_txrate s) \<le> conv (of_int (n * PAUSE_UNIT_BITS) / em_txrate s)" by (intro g) simp
      then show ?thesis using TX_IDLE_STATE e True p ok up
        by (simp add: processPauseCommand_def scheduleEndPausePeriod_def Let_def defs del: of_int_mult)
    next
      case False
      then show ?thesis using TX_IDLE_STATE ok by (simp add: processPauseCommand_def defs)
    qed
  next
    case PAUSE_STATE
    have e: "em_endTxTimer s = None" "em_endIfgTimer s = None" "em_currentTxFrame s = None"
      "em_curTxSignal s = None" using ok PAUSE_STATE by (simp_all add: mac_ok_def mac_state_ok_def)
    have "0 < n \<longrightarrow> conv (of_int INTERFRAME_GAP_BITS / em_txrate s) \<le> conv (of_int (n * PAUSE_UNIT_BITS) / em_txrate s)"
      using g by simp
    then show ?thesis using PAUSE_STATE e p ok up
      by (simp add: processPauseCommand_def scheduleEndPausePeriod_def Let_def defs del: of_int_mult) linarith
  qed (use ok n in \<open>auto simp: processPauseCommand_def defs split: option.splits\<close>)
qed

lemma processMsgFromNetwork_ok:
  assumes conv: "time_conversion conv" and ok: "mac_ok ops contents queue_ok s" and sig: "signal_ok sig"
  shows "\<exists>s' out. processMsgFromNetwork conv now sig s = Some (s', out) \<and> mac_ok ops contents queue_ok s' \<and>
    step_effect conv now s s' out \<and>
    (gap_ok conv now s \<longrightarrow> em_lastTxFinishTime s \<le> now \<longrightarrow> \<not> zero_pause sig \<longrightarrow> gap_ok conv now s')"
proof -
  obtain f biterr d where sg: "sig = EthernetSignal f biterr True d" and l: "MIN_ETHERNET_FRAME_BYTES \<le> fr_length f"
    and fcs: "fcs_supported (ef_fcsMode (fr_fcs f))" and c: "control_ok f"
    using sig by (cases sig) (auto simp: signal_ok_def)
  have duplex: "em_duplexMode s" using ok by (simp add: mac_ok_def mac_base_def)
  note defs = mac_ok_def mac_base_def mac_state_ok_def step_effect_def earliest_start_def gap_ok_def
  show ?thesis
  proof (cases "em_connected s")
    case False
    then show ?thesis using l ok by (simp add: processMsgFromNetwork_def sg defs)
  next
    case up: True
    let ?s = "s\<lparr>em_totalSuccessfulRxTime := em_totalSuccessfulRxTime s + d\<rparr>"
    obtain v where v: "(if biterr then Some False else verifyCrcAndLength f) = Some v"
      using fcs by (cases biterr) (auto simp: fcs_supported_def verifyCrcAndLength_def)
    note msg = processMsgFromNetwork_def sg Let_def up duplex l v
    consider (bad) "\<not> v" | (notus) "v" "\<not> frameForUs ?s f" | (data) v "frameForUs ?s f" "eh_typeOrLength (fr_header f) \<noteq> ETHERTYPE_FLOW_CONTROL"
      | (pause) op t where v "frameForUs ?s f" "eh_typeOrLength (fr_header f) = ETHERTYPE_FLOW_CONTROL" "fr_control f = Some (PauseFrame op t)"
      | (other) op where v "frameForUs ?s f" "eh_typeOrLength (fr_header f) = ETHERTYPE_FLOW_CONTROL" "fr_control f = Some (OtherControl op)" "op \<noteq> ETHERNET_CONTROL_PAUSE"
      using c by (cases v; cases "frameForUs ?s f") (auto simp: control_ok_def split: option.splits control_frame.splits)
    then show ?thesis
    proof cases
      case bad
      then show ?thesis using ok by (simp add: msg defs)
    next
      case notus
      then show ?thesis using ok by (simp add: msg defs)
    next
      case data
      then show ?thesis using ok by (simp add: msg processReceivedDataFrame_def) (auto simp: defs)
    next
      case other
      then show ?thesis using ok by (simp add: msg) (auto simp: defs)
    next
      case pause
      show ?thesis
      proof (cases "op = ETHERNET_CONTROL_PAUSE")
        case False
        with pause show ?thesis using ok by (simp add: msg) (auto simp: defs)
      next
        case True
        let ?s1 = "?s\<lparr>em_numPauseFramesRcvd := em_numPauseFramesRcvd s + 1\<rparr>"
        have ok1: "mac_ok ops contents queue_ok ?s1" using ok by (simp add: defs)
        from processPauseCommand_ok[OF conv ok1, of "uint t" now] up obtain s' where s': "processPauseCommand conv now (uint t) ?s1 = Some s'"
          "mac_ok ops contents queue_ok s'" "step_effect conv now ?s1 s' []"
          "gap_ok conv now ?s1 \<longrightarrow> em_lastTxFinishTime ?s1 \<le> now \<longrightarrow> 0 < uint t \<longrightarrow> gap_ok conv now s'" by auto
        have "gap_ok conv now ?s1 = gap_ok conv now s" by (simp add: gap_ok_def earliest_start_def)
        moreover have "\<not> zero_pause sig \<longrightarrow> 0 < uint t"
          using pause(4) True by (simp add: zero_pause_def sg) (metis less_le uint_0_iff uint_ge_0)
        moreover have "step_effect conv now s s' []" using s'(3) by (auto simp: step_effect_def earliest_start_def)
        ultimately show ?thesis using s' pause True by (simp add: msg)
      qed
    qed
  qed
qed

text \<open>After the interframe gap or the pause the next frame is taken from the queue.\<close>

lemma resume_ok:
  assumes conv: "time_conversion conv" and ok: "mac_ok ops contents queue_ok s"
    and t: "em_endIfgTimer s = Some now \<or> em_endPauseTimer s = Some now"
  shows "\<exists>s' out. pull_next conv ops now (s\<lparr>em_endIfgTimer := None, em_endPauseTimer := None, em_transmitState := TX_IDLE_STATE\<rparr>) = Some (s', out) \<and>
    mac_ok ops contents queue_ok s' \<and> step_effect conv now s s' out \<and> (gap_ok conv now s \<longrightarrow> gap_ok conv now s')"
proof -
  let ?s = "s\<lparr>em_endIfgTimer := None, em_endPauseTimer := None, em_transmitState := TX_IDLE_STATE\<rparr>"
  have st: "em_endTxTimer s = None" "em_curTxSignal s = None" "em_currentTxFrame s = None" "em_connected s"
    using ok t by (auto simp: mac_ok_def mac_state_ok_def)
  have "mac_base ops contents queue_ok ?s" "mac_quiet ?s" using ok st by (simp_all add: mac_ok_def mac_base_def mac_quiet_def)
  moreover have "em_connected ?s \<or> length (contents (em_txQueue ?s)) \<le> 1" using st by simp
  ultimately obtain s' out where r: "pull_next conv ops now ?s = Some (s', out)" "mac_ok ops contents queue_ok s'"
    "step_effect conv now ?s s' out" "em_transmitState s' = TX_IDLE_STATE \<and> earliest_start conv s' = earliest_start conv ?s \<or>
      em_transmitState s' = TRANSMITTING_STATE"
    using pull_next_ok[OF conv, of ?s now] by blast
  have es: "earliest_start conv ?s = earliest_start conv s" by (simp add: earliest_start_def)
  have "step_effect conv now s s' out" using r(3) t unfolding step_effect_def es by auto
  moreover have "gap_ok conv now s'" if g: "gap_ok conv now s"
  proof -
    have e: "earliest_start conv s \<le> now" using g st(4) t by (auto simp: gap_ok_def)
    have n: "em_endIfgTimer s' = None" "em_endPauseTimer s' = None" using r(2,4) by (auto simp: mac_ok_def mac_state_ok_def)
    from r(4) show ?thesis unfolding gap_ok_def es n using e by auto
  qed
  ultimately show ?thesis using r(1,2) by blast
qed

lemma handleEndIFGPeriod_ok:
  assumes "time_conversion conv" "mac_ok ops contents queue_ok s" "em_endIfgTimer s = Some now"
  shows "\<exists>s' out. handleEndIFGPeriod conv ops now (s\<lparr>em_endIfgTimer := None\<rparr>) = Some (s', out) \<and>
    mac_ok ops contents queue_ok s' \<and> step_effect conv now s s' out \<and> (gap_ok conv now s \<longrightarrow> gap_ok conv now s')"
proof -
  have st: "em_currentTxFrame s = None" "em_transmitState s = WAIT_IFG_STATE" "em_endPauseTimer s = None"
    using assms by (auto simp: mac_ok_def mac_state_ok_def)
  then have "s\<lparr>em_endIfgTimer := None, em_endPauseTimer := None, em_transmitState := TX_IDLE_STATE\<rparr> =
      s\<lparr>em_endIfgTimer := None, em_transmitState := TX_IDLE_STATE\<rparr>" by simp
  with resume_ok[OF assms(1,2)] assms(3) st show ?thesis by (simp add: handleEndIFGPeriod_def)
qed

lemma handleEndPausePeriod_ok:
  assumes "time_conversion conv" "mac_ok ops contents queue_ok s" "em_endPauseTimer s = Some now"
  shows "\<exists>s' out. handleEndPausePeriod conv ops now (s\<lparr>em_endPauseTimer := None\<rparr>) = Some (s', out) \<and>
    mac_ok ops contents queue_ok s' \<and> step_effect conv now s s' out \<and> (gap_ok conv now s \<longrightarrow> gap_ok conv now s')"
proof -
  have st: "em_currentTxFrame s = None" "em_transmitState s = PAUSE_STATE" "em_endIfgTimer s = None"
    using assms by (auto simp: mac_ok_def mac_state_ok_def)
  then have "s\<lparr>em_endIfgTimer := None, em_endPauseTimer := None, em_transmitState := TX_IDLE_STATE\<rparr> =
      s\<lparr>em_endPauseTimer := None, em_transmitState := TX_IDLE_STATE\<rparr>" by simp
  with resume_ok[OF assms(1,2)] assms(3) st show ?thesis by (simp add: handleEndPausePeriod_def)
qed

lemma packet_enqueued_ok:
  assumes conv: "time_conversion conv" and ok: "mac_ok ops contents queue_ok s" and p: "frame_ok (em_address s) (tq_frame ops p)"
  shows "\<exists>s' out. mac_step conv ops now (PacketEnqueued p) s = Some (s', out) \<and> mac_ok ops contents queue_ok s' \<and>
    step_effect conv now s s' out \<and> (gap_ok conv now s \<longrightarrow> gap_ok conv now s')"
proof -
  have b: "mac_base ops contents queue_ok s" using ok by (simp add: mac_ok_def)
  have qok: "queue_ok (em_txQueue s)" using b by (simp add: mac_base_def)
  from push[OF qok, of p] obtain q' where q: "tq_push ops p (em_txQueue s) = Some (contents q' \<noteq> [], q')" "queue_ok q'"
    "set (contents q') \<subseteq> insert p (set (contents (em_txQueue s)))" "length (contents q') \<le> Suc (length (contents (em_txQueue s)))"
    by blast
  let ?s = "s\<lparr>em_txQueue := q'\<rparr>"
  have b': "mac_base ops contents queue_ok ?s" using b q(2,3) p by (auto simp: mac_base_def)
  have es: "earliest_start conv ?s = earliest_start conv s" "gap_ok conv now ?s = gap_ok conv now s"
    by (simp_all add: earliest_start_def gap_ok_def)
  show ?thesis
  proof (cases "contents q' \<noteq> [] \<and> em_transmitState s = TX_IDLE_STATE")
    case False
    have fr: "contents q' \<noteq> [] \<longrightarrow> em_currentTxFrame s \<noteq> None \<or> em_transmitState s \<noteq> TX_IDLE_STATE" using False by blast
    have "mac_state_ok contents ?s" using ok False by (auto simp: mac_ok_def mac_state_ok_def)
    moreover have "mac_step conv ops now (PacketEnqueued p) s = Some (?s, [])"
      using fr by (auto simp: mac_step_def q(1) handleCanPullPacketChanged_def)
    moreover have "step_effect conv now s ?s []" by (simp add: step_effect_def es)
    ultimately show ?thesis using b' es by (simp add: mac_ok_def)
  next
    case True
    have quiet: "mac_quiet ?s" and l: "contents (em_txQueue s) = []" using ok True by (auto simp: mac_ok_def mac_state_ok_def mac_quiet_def)
    have "em_connected ?s \<or> length (contents (em_txQueue ?s)) \<le> 1" using q(4) l by simp
    from pull_next_ok[OF conv b' quiet this, of now] obtain s' out where r: "pull_next conv ops now ?s = Some (s', out)"
      "mac_ok ops contents queue_ok s'" "step_effect conv now ?s s' out"
      "em_transmitState s' = TX_IDLE_STATE \<and> earliest_start conv s' = earliest_start conv ?s \<or> em_transmitState s' = TRANSMITTING_STATE"
      by blast
    have "mac_step conv ops now (PacketEnqueued p) s = Some (s', out)"
      using True quiet r(1) by (simp add: mac_step_def q(1) handleCanPullPacketChanged_def mac_quiet_def)
    moreover have "step_effect conv now s s' out" using r(3) unfolding step_effect_def es by auto
    moreover have "gap_ok conv now s'" if g: "gap_ok conv now s"
    proof -
      have n: "em_endIfgTimer s' = None" "em_endPauseTimer s' = None" using r(2,4) by (auto simp: mac_ok_def mac_state_ok_def)
      have "em_connected s' = em_connected s" using r(3) by (simp add: step_effect_def)
      then show ?thesis using r(4) g True unfolding gap_ok_def es n by auto
    qed
    ultimately show ?thesis using r(2) by blast
  qed
qed

lemma disconnect_ok:
  assumes b: "mac_base ops contents queue_ok s" and st: "mac_state_ok contents s0" and up: "\<not> em_connected s"
    and tm: "em_endTxTimer s = em_endTxTimer s0" "em_curTxSignal s = em_curTxSignal s0" "em_currentTxFrame s = em_currentTxFrame s0"
  shows "\<exists>s' out. processConnectDisconnect conv ops now s = Some (s', out) \<and> mac_ok ops contents queue_ok s' \<and>
    (\<forall>f e. Transmit f e \<notin> set out) \<and> em_transmitState s' = TX_IDLE_STATE"
proof -
  have qok: "queue_ok (em_txQueue s)" using b by (simp add: mac_base_def)
  from drop_queue_empties[OF qok, of 0] obtain q' where q': "drop_queue ops 0 (em_txQueue s) = Some (length (contents (em_txQueue s)), q')"
    "queue_ok q'" "contents q' = []" by auto
  have same: "em_endTxTimer s = None \<longleftrightarrow> em_curTxSignal s = None" using st tm by (auto simp: mac_state_ok_def)
  show ?thesis
  proof (cases "em_curTxSignal s")
    case None
    then show ?thesis using b up q' same
      by (cases "em_currentTxFrame s") (simp_all add: processConnectDisconnect_def mac_ok_def mac_base_def mac_state_ok_def)
  next
    case (Some t)
    then obtain e where "em_endTxTimer s = Some e" using same by (cases "em_endTxTimer s") simp_all
    with Some show ?thesis using b up q'
      by (cases "em_currentTxFrame s"; cases "lk_connected (em_links s)")
        (simp_all add: processConnectDisconnect_def mac_ok_def mac_base_def mac_state_ok_def)
  qed
qed

lemma refreshConnection_ok:
  assumes ok: "mac_ok ops contents queue_ok s" and lk: "links_ok lk"
  shows "\<exists>s' out. refreshConnection conv ops now (s\<lparr>em_links := lk\<rparr>) = Some (s', out) \<and> mac_ok ops contents queue_ok s'"
proof -
  have links: "em_links (s\<lparr>em_links := lk\<rparr>) = lk" by simp
  from readChannelParameters_result[of "s\<lparr>em_links := lk\<rparr>" False, unfolded links] lk obtain d where
    d: "readChannelParameters False (s\<lparr>em_links := lk\<rparr>) = Some (s\<lparr>em_links := lk, em_connected := link_up lk, em_channelsDiffer := d,
      em_txrate := (if link_up lk then ch_datarate (the (lk_out lk)) else 0)\<rparr>)" (is "_ = Some ?s")
    by blast
  have b: "mac_base ops contents queue_ok ?s" using ok lk by (simp add: mac_ok_def mac_base_def)
  show ?thesis
  proof (cases "em_connected s = link_up lk \<or> link_up lk")
    case True
    then have st: "mac_state_ok contents ?s" using ok by (auto simp: mac_ok_def mac_state_ok_def)
    have "refreshConnection conv ops now (s\<lparr>em_links := lk\<rparr>) = Some (?s, [])"
      using True by (cases "link_up lk") (simp_all add: refreshConnection_def d processConnectDisconnect_def)
    with b st show ?thesis unfolding mac_ok_def by blast
  next
    case False
    have st: "mac_state_ok contents s" using ok by (simp add: mac_ok_def)
    have "refreshConnection conv ops now (s\<lparr>em_links := lk\<rparr>) = processConnectDisconnect conv ops now ?s"
      using False by (simp add: refreshConnection_def d)
    with disconnect_ok[OF b st, of conv now] False show ?thesis by auto
  qed
qed

text \<open>The fields the check of the channels changes do not matter.\<close>

lemma channelsDiffer_irrelevant:
  "mac_ok ops contents queue_ok (s\<lparr>em_channelsDiffer := d\<rparr>) = mac_ok ops contents queue_ok s"
  "gap_ok conv now (s\<lparr>em_channelsDiffer := d\<rparr>) = gap_ok conv now s"
  "step_effect conv now (s\<lparr>em_channelsDiffer := d\<rparr>) s' out = step_effect conv now s s' out"
  by (simp_all add: mac_ok_def mac_base_def mac_state_ok_def gap_ok_def step_effect_def earliest_start_def)

lemma mac_step_ok:
  assumes conv: "time_conversion conv" and ok: "mac_ok ops contents queue_ok s" and legal: "mac_legal ops now ev s"
  shows "\<exists>s' out. mac_step conv ops now ev s = Some (s', out) \<and> mac_ok ops contents queue_ok s' \<and>
    ((\<forall>lk. ev \<noteq> ConnectionChanged lk) \<longrightarrow> step_effect conv now s s' out \<and>
      (gap_ok conv now s \<longrightarrow> em_lastTxFinishTime s \<le> now \<longrightarrow> (\<forall>sig. ev = SignalArrived sig \<longrightarrow> \<not> zero_pause sig) \<longrightarrow> gap_ok conv now s'))"
proof -
  have b: "mac_base ops contents queue_ok s" using ok by (simp add: mac_ok_def)
  have check: "\<exists>d. (if em_channelsDiffer s then readChannelParameters True s else Some s) = Some (s\<lparr>em_channelsDiffer := d\<rparr>)"
    if "em_channelsDiffer s \<longrightarrow> links_symmetric (em_links s)" using channel_check[OF b that] .
  note ok1 = channelsDiffer_irrelevant(1)[THEN iffD2, OF ok]
  note irr = channelsDiffer_irrelevant(2,3)
  show ?thesis
  proof (cases ev)
    case EndTx
    with legal check obtain d where d: "em_endTxTimer (s\<lparr>em_channelsDiffer := d\<rparr>) = Some now"
      "(if em_channelsDiffer s then readChannelParameters True s else Some s) = Some (s\<lparr>em_channelsDiffer := d\<rparr>)"
      by (auto simp: mac_legal_def)
    with handleEndTxPeriod_ok[OF conv ok1 d(1)] EndTx show ?thesis
      by (auto simp: mac_step_def handleMessageWhenUp_def mac_handleSelfMessage_def irr)
  next
    case EndIfg
    with legal check obtain d where d: "em_endIfgTimer (s\<lparr>em_channelsDiffer := d\<rparr>) = Some now"
      "(if em_channelsDiffer s then readChannelParameters True s else Some s) = Some (s\<lparr>em_channelsDiffer := d\<rparr>)"
      by (auto simp: mac_legal_def)
    with handleEndIFGPeriod_ok[OF conv ok1 d(1)] EndIfg show ?thesis
      by (auto simp: mac_step_def handleMessageWhenUp_def mac_handleSelfMessage_def irr)
  next
    case EndPause
    with legal check obtain d where d: "em_endPauseTimer (s\<lparr>em_channelsDiffer := d\<rparr>) = Some now"
      "(if em_channelsDiffer s then readChannelParameters True s else Some s) = Some (s\<lparr>em_channelsDiffer := d\<rparr>)"
      by (auto simp: mac_legal_def)
    with handleEndPausePeriod_ok[OF conv ok1 d(1)] EndPause show ?thesis
      by (auto simp: mac_step_def handleMessageWhenUp_def mac_handleSelfMessage_def irr)
  next
    case (SignalArrived sig)
    with legal check obtain d where d: "signal_ok sig"
      "(if em_channelsDiffer s then readChannelParameters True s else Some s) = Some (s\<lparr>em_channelsDiffer := d\<rparr>)"
      by (auto simp: mac_legal_def)
    with processMsgFromNetwork_ok[OF conv ok1[of d] d(1), of now] SignalArrived show ?thesis
      by (auto simp: mac_step_def handleMessageWhenUp_def irr)
  next
    case (PacketEnqueued p)
    with legal have "frame_ok (em_address s) (tq_frame ops p)" by (simp add: mac_legal_def)
    from packet_enqueued_ok[OF conv ok this, of now] show ?thesis unfolding PacketEnqueued by blast
  next
    case (ConnectionChanged lk)
    with legal have "links_ok lk" by (simp add: mac_legal_def)
    from refreshConnection_ok[OF ok this, of conv now] show ?thesis by (simp add: ConnectionChanged mac_step_def)
  next
    case (InChannelChanged c)
    with legal have "lk_in (em_links s) \<noteq> None" by (simp add: mac_legal_def)
    then have "mac_ok ops contents queue_ok (s\<lparr>em_links := (em_links s)\<lparr>lk_in := Some c\<rparr>\<rparr>)"
      using ok by (simp add: mac_ok_def mac_base_def mac_state_ok_def links_ok_def link_up_def)
    then show ?thesis by (simp add: InChannelChanged mac_step_def step_effect_def gap_ok_def earliest_start_def)
  qed
qed

lemma mac_run_ok:
  assumes "time_conversion conv" "mac_ok ops contents queue_ok s" "mac_schedule conv ops t evs s"
  shows "\<exists>outs s'. mac_run conv ops evs s = Some (outs, s') \<and> mac_ok ops contents queue_ok s'"
  using assms(2,3)
proof (induction evs arbitrary: s t)
  case (Cons e evs)
  obtain now ev where e: "e = (now, ev)" by (cases e)
  have legal: "mac_legal ops now ev s" using Cons.prems(2) by (simp add: e)
  from mac_step_ok[OF assms(1) Cons.prems(1) legal] obtain s1 out where
    s1: "mac_step conv ops now ev s = Some (s1, out)" "mac_ok ops contents queue_ok s1" by blast
  then have "mac_schedule conv ops now evs s1" using Cons.prems(2) by (simp add: e)
  from Cons.IH[OF s1(2) this] show ?case by (auto simp: e s1(1))
qed simp

end

lemma gap_ok_later: "gap_ok conv t s \<Longrightarrow> t \<le> now \<Longrightarrow> gap_ok conv now s"
  unfolding gap_ok_def by fastforce

text \<open>Events under which the connection stays and no pause is ended early.\<close>

fun undisturbed :: "'p mac_event \<Rightarrow> bool" where
  "undisturbed (ConnectionChanged lk) \<longleftrightarrow> False"
| "undisturbed (SignalArrived sig) \<longleftrightarrow> \<not> zero_pause sig"
| "undisturbed ev \<longleftrightarrow> True"

definition spaced :: "(real \<Rightarrow> int) \<Rightarrow> real \<Rightarrow> simtime \<times> mac_output \<Rightarrow> simtime \<times> mac_output \<Rightarrow> bool" where
  "spaced conv rate a b \<longleftrightarrow> (case (a, b) of ((_, Transmit _ finish), (start, Transmit _ _)) \<Rightarrow>
     finish + conv (of_int INTERFRAME_GAP_BITS / rate) \<le> start | _ \<Rightarrow> True)"

definition not_before :: "simtime \<Rightarrow> simtime \<times> mac_output \<Rightarrow> bool" where
  "not_before t a \<longleftrightarrow> (case a of (start, Transmit _ _) \<Rightarrow> t \<le> start | _ \<Rightarrow> True)"

lemma spaced_simps:
  "spaced conv r (t, Transmit f e) b \<longleftrightarrow> not_before (e + conv (of_int INTERFRAME_GAP_BITS / r)) b"
  "(\<forall>f e. out \<noteq> Transmit f e) \<Longrightarrow> spaced conv r (t, out) b"
  "(\<forall>f e. out \<noteq> Transmit f e) \<Longrightarrow> not_before t' (t, out)"
  by (auto simp: spaced_def not_before_def split: prod.splits mac_output.splits)

lemma not_before_mono: "not_before t a \<Longrightarrow> t' \<le> t \<Longrightarrow> not_before t' a"
  by (auto simp: not_before_def split: prod.splits mac_output.splits)

lemma silent_spaced:
  assumes "\<forall>f e. Transmit f e \<notin> set out"
  shows "sorted_wrt (spaced conv r) (map (Pair now) out @ outs) \<longleftrightarrow> sorted_wrt (spaced conv r) outs"
    "a \<in> set (map (Pair now) out) \<Longrightarrow> not_before t a"
proof -
  have n: "a \<in> set (map (Pair now) out) \<Longrightarrow> \<exists>ot. a = (now, ot) \<and> (\<forall>f e. ot \<noteq> Transmit f e)" for a using assms by fastforce
  have sp: "spaced conv r a b" if "a \<in> set (map (Pair now) out)" for a b using n[OF that] by (auto simp: spaced_simps)
  then have "sorted_wrt (spaced conv r) (map (Pair now) out)" by (induction out) simp_all
  then show "sorted_wrt (spaced conv r) (map (Pair now) out @ outs) \<longleftrightarrow> sorted_wrt (spaced conv r) outs"
    using sp by (auto simp: sorted_wrt_append)
  show "a \<in> set (map (Pair now) out) \<Longrightarrow> not_before t a" by (drule n) (auto simp: spaced_simps)
qed

context tx_queue begin

lemma mac_run_gap:
  assumes conv: "time_conversion conv"
    and "mac_ok ops contents queue_ok s" "mac_schedule conv ops t evs s" "em_connected s" "gap_ok conv t s"
      "em_lastTxFinishTime s \<le> t" "\<forall>(now, ev) \<in> set evs. undisturbed ev" "mac_run conv ops evs s = Some (outs, s')"
  shows "sorted_wrt (spaced conv (em_txrate s)) outs \<and> (\<forall>a \<in> set outs. not_before (earliest_start conv s) a)"
  using assms(2-)
proof (induction evs arbitrary: s t outs)
  case (Cons e evs)
  obtain now ev where e: "e = (now, ev)" by (cases e)
  have legal: "mac_legal ops now ev s" and t: "t \<le> now" using Cons.prems(2) by (simp_all add: e)
  have u: "undisturbed ev" using Cons.prems(6) by (auto simp: e)
  note g = gap_ok_later[OF Cons.prems(4) t]
  have last: "em_lastTxFinishTime s \<le> now" using Cons.prems(5) t by simp
  from mac_step_ok[OF conv Cons.prems(1) legal] u g last obtain s1 out where
    s1: "mac_step conv ops now ev s = Some (s1, out)" "mac_ok ops contents queue_ok s1" "step_effect conv now s s1 out" "gap_ok conv now s1"
    by (cases ev) auto
  have sched: "mac_schedule conv ops now evs s1" using Cons.prems(2) s1(1) by (simp add: e)
  have c1: "em_connected s1" "em_txrate s1 = em_txrate s" "em_lastTxFinishTime s1 \<le> now"
    using s1(3) Cons.prems(3) last by (auto simp: step_effect_def)
  from Cons.prems(7) obtain outs1 where outs1: "mac_run conv ops evs s1 = Some (outs1, s')" "outs = map (Pair now) out @ outs1"
    by (auto simp: e s1(1) split: Option.bind_splits)
  have u1: "\<forall>(now, ev) \<in> set evs. undisturbed ev" using Cons.prems(6) by simp
  from Cons.IH[OF s1(2) sched c1(1) s1(4) c1(3) u1 outs1(1)]
  have ih: "sorted_wrt (spaced conv (em_txrate s)) outs1" "\<And>a. a \<in> set outs1 \<Longrightarrow> not_before (earliest_start conv s1) a"
    unfolding c1(2) by blast+
  let ?g = "conv (of_int INTERFRAME_GAP_BITS / em_txrate s)"
  from s1(3) consider (silent) "\<forall>f e. Transmit f e \<notin> set out" "earliest_start conv s1 = earliest_start conv s"
    | (start) f e where "out = [Transmit f e]" "now \<le> e" "earliest_start conv s1 = e + ?g"
        "em_transmitState s = TX_IDLE_STATE \<or> em_endIfgTimer s = Some now \<or> em_endPauseTimer s = Some now"
    unfolding step_effect_def by blast
  then show ?case
  proof cases
    case silent
    have "not_before (earliest_start conv s) a" if "a \<in> set outs1" for a using ih(2)[OF that] silent(2) by simp
    then show ?thesis using ih(1) silent_spaced(2)[OF silent(1)]
      unfolding outs1(2) silent_spaced(1)[OF silent(1)] set_append ball_Un by blast
  next
    case start
    have le: "earliest_start conv s \<le> now" using start(4) g Cons.prems(3) by (auto simp: gap_ok_def)
    have "0 \<le> ?g" using Cons.prems(1,3) mac_rate_pos by (intro gap_nonneg[OF conv]) (auto simp: mac_ok_def)
    then have "earliest_start conv s \<le> earliest_start conv s1" using le start(2,3) by simp
    then have "\<forall>a \<in> set outs1. not_before (earliest_start conv s) a" using ih(2) not_before_mono by blast
    moreover have "not_before (earliest_start conv s) (now, Transmit f e)" using le by (simp add: not_before_def)
    ultimately show ?thesis unfolding outs1(2) using ih start(1,3) by (simp add: spaced_simps)
  qed
qed simp

end

section \<open>The packet queue as the queue of the MAC\<close>

definition queue_ops :: "int \<Rightarrow> (qpacket \<Rightarrow> eframe) \<Rightarrow> (packetq, qpacket) txqueue_ops" where
  "queue_ops moduleId frame = \<lparr>tq_canPull = \<lambda>q. pq_canPullPacket q \<noteq> None, tq_pull = pq_pullPacket,
     tq_push = \<lambda>p q. map_option snd (pq_pushPacket fifo_insert moduleId p q), tq_frame = frame\<rparr>"

text \<open>A queue that drops at one of its ends, or an unlimited one.\<close>

definition queue_config :: "packetq \<Rightarrow> bool" where
  "queue_config q \<longleftrightarrow> -1 \<le> pq_packetCapacity q \<and> -1 \<le> pq_dataCapacity q \<and>
     (pq_dropper q = Some AtCollectionEnd \<or> pq_dropper q = Some AtCollectionBegin \<or>
      (pq_dropper q = None \<and> pq_packetCapacity q = -1 \<and> pq_dataCapacity q = -1))"

lemma pq_push_dropping:
  assumes "queue_config q"
  shows "\<exists>ds q'. pq_pushPacket fifo_insert moduleId p q = Some (ds, pq_queue q' \<noteq> [], q') \<and> queue_config q' \<and>
    set (pq_queue q') \<subseteq> insert p (set (pq_queue q)) \<and> length (pq_queue q') \<le> Suc (length (pq_queue q))"
proof -
  let ?c = "q\<lparr>pq_queue := fifo_insert p (pq_queue q)\<rparr>"
  have ov: "pq_isOverloaded c \<Longrightarrow> same_config q c \<Longrightarrow> pq_queue c \<noteq> []" for c
    using assms by (auto simp: pq_isOverloaded_contents queue_overloaded_def same_config_def queue_config_def)
  have sel: "\<exists>p \<in> set (pq_queue c). selectPacket d (\<lambda>_ _. moduleId) pq_getNumPackets pq_getPacket c = Some p"
    if "same_config q c" "pq_isOverloaded c" "d = AtCollectionEnd \<or> d = AtCollectionBegin" for c d
    using that ov[OF that(2,1)] pq_fixed.at_end[OF that(1)] pq_fixed.at_begin[OF that(1)]
    by auto
  have "\<exists>ds c'. pq_drop_loop moduleId ?c = Some (ds, c') \<and> same_config q c' \<and> \<not> pq_isOverloaded c' \<and>
      mset (pq_queue ?c) = mset ds + mset (pq_queue c')"
  proof (cases "pq_dropper q")
    case None
    then have "\<not> pq_isOverloaded ?c" using assms by (auto simp: queue_config_def pq_isOverloaded_def)
    with None show ?thesis by (simp add: pq_drop_loop_def same_config_def)
  next
    case (Some d)
    then have d: "d = AtCollectionEnd \<or> d = AtCollectionBegin" using assms by (auto simp: queue_config_def)
    have "same_config q ?c" by (simp add: same_config_def)
    from pq_fixed.drop_excess_total[OF this sel[OF _ _ d]] Some show ?thesis by (simp add: pq_drop_loop_def)
  qed
  then obtain ds c' where c': "pq_drop_loop moduleId ?c = Some (ds, c')" "same_config q c'" "\<not> pq_isOverloaded c'"
    "mset (pq_queue ?c) = mset ds + mset (pq_queue c')" by blast
  have "set (pq_queue c') \<subseteq> set (pq_queue ?c)" using arg_cong[OF c'(4), of set_mset] by simp
  moreover have "length (pq_queue ?c) = length ds + length (pq_queue c')" using arg_cong[OF c'(4), of size] by simp
  moreover have "queue_config c'" using assms c'(2) by (simp add: queue_config_def same_config_def)
  ultimately show ?thesis using c'(1,3)
    by (intro exI[of _ ds] exI[of _ c']) (auto simp: pq_pushPacket_def fifo_insert_def pq_getNumPackets_def)
qed

interpretation mac_queue: tx_queue "queue_ops moduleId frame" pq_queue queue_config for moduleId frame
proof unfold_locales
  fix q p assume q: "queue_config q"
  show "tq_canPull (queue_ops moduleId frame) q \<longleftrightarrow> pq_queue q \<noteq> []"
    by (simp add: queue_ops_def pq_canPullPacket_def pq_getNumPackets_def pq_getPacket_def)
  show "pq_queue q \<noteq> [] \<Longrightarrow> \<exists>p q'. tq_pull (queue_ops moduleId frame) q = Some (p, q') \<and> queue_config q' \<and>
      mset (pq_queue q) = add_mset p (mset (pq_queue q'))"
    using q by (cases "pq_queue q") (simp_all add: queue_ops_def pq_pullPacket_def queue_config_def)
  show "\<exists>notified q'. tq_push (queue_ops moduleId frame) p q = Some (notified, q') \<and> queue_config q' \<and>
      notified = (pq_queue q' \<noteq> []) \<and> set (pq_queue q') \<subseteq> insert p (set (pq_queue q)) \<and>
      length (pq_queue q') \<le> Suc (length (pq_queue q))"
    using pq_push_dropping[OF q, of moduleId p] by (auto simp: queue_ops_def)
qed

section \<open>A concrete MAC\<close>

definition picoseconds :: "real \<Rightarrow> int" where
  "picoseconds x = \<lfloor>x * 10 ^ 12\<rfloor>"

lemma picoseconds_conversion: "time_conversion picoseconds"
  by (simp add: time_conversion_def picoseconds_def mono_def floor_mono mult_right_mono)

definition gigabit_link :: ether_links where
  "gigabit_link = \<lparr>lk_connected = True, lk_out = Some \<lparr>ch_datarate = 10 ^ 9, ch_disabled = False\<rparr>,
     lk_in = Some \<lparr>ch_datarate = 10 ^ 9, ch_disabled = False\<rparr>\<rparr>"

definition sample_mac :: "packetq emac" where
  "sample_mac = \<lparr>em_address = MacAddress 1, em_promiscuous = False, em_fcsMode = FCS_DECLARED_CORRECT, em_duplexMode = True,
     em_connected = True, em_channelsDiffer = False, em_txrate = 10 ^ 9, em_transmitState = TX_IDLE_STATE,
     em_lastTxFinishTime = - (10 ^ 12), em_pauseUnitsRequested = 0, em_endTxTimer = None, em_endIfgTimer = None,
     em_endPauseTimer = None, em_curTxSignal = None, em_currentTxFrame = None,
     em_txQueue = sample_queue 10 (Some AtCollectionEnd) [], em_links = gigabit_link, em_numFramesSent = 0, em_numBytesSent = 0,
     em_numFramesReceivedOK = 0, em_numBytesReceivedOK = 0, em_numFramesFromHL = 0, em_numDroppedPkFromHLIfaceDown = 0,
     em_numDroppedIfaceDown = 0, em_numDroppedBitError = 0, em_numDroppedNotForUs = 0, em_numFramesPassedToHL = 0,
     em_numPauseFramesRcvd = 0, em_numPauseFramesSent = 0, em_totalSuccessfulRxTime = 0\<rparr>"

definition sample_frame :: "qpacket \<Rightarrow> eframe" where
  "sample_frame p = \<lparr>fr_header = \<lparr>eh_dest = MacAddress 2, eh_src = MacAddress 1, eh_typeOrLength = 0x0800\<rparr>,
     fr_octets = replicate 60 0, fr_fcs = \<lparr>ef_fcs = 0, ef_fcsMode = FCS_DECLARED_CORRECT\<rparr>, fr_control = None\<rparr>"

lemma sample_frame_ok: "frame_ok (MacAddress 1) (sample_frame p)"
  by (simp add: frame_ok_def sample_frame_def isUnspecified_def fr_length_def ETHER_FCS_BYTES_def MAX_ETHERNET_FRAME_BYTES_def
      control_ok_def ETHERTYPE_FLOW_CONTROL_def)

lemma sample_mac_ok: "mac_ok (queue_ops 7 sample_frame) pq_queue queue_config sample_mac" "gap_ok picoseconds 0 sample_mac"
  by (simp_all add: mac_ok_def mac_base_def mac_state_ok_def sample_mac_def sample_queue_def queue_config_def fcs_supported_def
      links_ok_def gigabit_link_def link_up_def txrates_def gap_ok_def earliest_start_def picoseconds_def INTERFRAME_GAP_BITS_def)

section \<open>What the MAC guarantees\<close>

text \<open>
  C18. The MAC never fails: from a consistent state every run of legal events (transmissions and pauses that end, frames of
  the upper layer that are queued, signals that arrive, connection changes, in any order and number) goes through
  without an exception, and every state on the way has exactly the timer, signal and frame that belong to it.
\<close>

theorem mac_never_fails:
  assumes "time_conversion conv" "mac_ok (queue_ops moduleId frame) pq_queue queue_config s"
    and "mac_schedule conv (queue_ops moduleId frame) t evs s"
  shows "\<exists>outs s'. mac_run conv (queue_ops moduleId frame) evs s = Some (outs, s') \<and>
    mac_ok (queue_ops moduleId frame) pq_queue queue_config s'"
  by (rule mac_queue.mac_run_ok[OF assms])

lemmas mac_eval = mac_legal_def mac_step_def handleMessageWhenUp_def mac_handleSelfMessage_def handleCanPullPacketChanged_def
  pull_next_def mac_handleUpperPacket_def addPaddingAndSetFcs_def startFrameTransmission_def handleEndTxPeriod_def
  pauseFrameSent_def scheduleEndIFGPeriod_def handleEndIFGPeriod_def queue_ops_def pq_pushPacket_def pq_pullPacket_def
  pq_canPullPacket_def pq_getNumPackets_def pq_getPacket_def pq_drop_loop_def fifo_insert_def pq_isOverloaded_def
  sample_queue_def sample_frame_def fr_length_def ETHER_FCS_BYTES_def MAX_ETHERNET_FRAME_BYTES_def MIN_ETHERNET_FRAME_BYTES_def
  ETHER_PHY_HEADER_BYTES_def INTERFRAME_GAP_BITS_def ETHERTYPE_FLOW_CONTROL_def isUnspecified_def Let_def picoseconds_def
  drop_excess.simps

definition two_frames :: "(simtime \<times> qpacket mac_event) list" where
  "two_frames = [(0, PacketEnqueued (sample_packet 1 60)), (5, PacketEnqueued (sample_packet 2 60)), (576000, EndTx), (672000, EndIfg)]"

lemma two_frames_run:
  "mac_schedule picoseconds (queue_ops 7 sample_frame) 0 two_frames sample_mac \<and>
   map_option (map fst \<circ> fst) (mac_run picoseconds (queue_ops 7 sample_frame) two_frames sample_mac) = Some [0, 672000]"
  by (simp add: two_frames_def sample_mac_def mac_eval sample_frame_ok[unfolded sample_frame_def])


theorem mac_never_fails_witness:
  "\<exists>outs s'. mac_run picoseconds (queue_ops 7 sample_frame) two_frames sample_mac = Some (outs, s') \<and> map fst outs = [0, 672000]"
  using mac_never_fails[OF picoseconds_conversion sample_mac_ok(1) conjunct1[OF two_frames_run]] two_frames_run by auto

text \<open>
  C19. Between two transmissions of a MAC that stays connected there is the interframe gap, unless a PAUSE command of zero
  time revokes a pause: in every run without a change of the connection and without a zero PAUSE (\<open>undisturbed\<close>; frames,
  PAUSE commands of positive time and all timers may come in any order), from a connected state whose pending timers respect the
  gap, a transmission starts at least 96 bit times after the end of each transmission before it.
  \<open>revoked_pause_breaks_gap\<close> shows that a zero PAUSE lets the next frame start at once.
\<close>

theorem mac_interframe_gap:
  assumes "time_conversion conv" "mac_ok (queue_ops moduleId frame) pq_queue queue_config s"
    and "mac_schedule conv (queue_ops moduleId frame) t evs s" "em_connected s" "gap_ok conv t s" "em_lastTxFinishTime s \<le> t"
    and "\<forall>(now, ev) \<in> set evs. undisturbed ev" "mac_run conv (queue_ops moduleId frame) evs s = Some (outs, s')"
  shows "sorted_wrt (spaced conv (em_txrate s)) outs"
  using mac_queue.mac_run_gap[OF assms] by (rule conjunct1)

theorem mac_interframe_gap_witness:
  "\<exists>outs s'. mac_run picoseconds (queue_ops 7 sample_frame) two_frames sample_mac = Some (outs, s') \<and>
     sorted_wrt (spaced picoseconds (10 ^ 9)) outs \<and> length outs = 2"
proof -
  from two_frames_run obtain outs s' where r: "mac_run picoseconds (queue_ops 7 sample_frame) two_frames sample_mac = Some (outs, s')"
    "map fst outs = [0, 672000]" by auto
  have m: "em_connected sample_mac" "em_lastTxFinishTime sample_mac \<le> 0" "em_txrate sample_mac = 10 ^ 9"
    by (simp_all add: sample_mac_def)
  have u: "\<forall>(now, ev) \<in> set two_frames. undisturbed ev" by (simp add: two_frames_def)
  from mac_interframe_gap[OF picoseconds_conversion sample_mac_ok(1) conjunct1[OF two_frames_run] m(1) sample_mac_ok(2) m(2) u r(1)]
  have "sorted_wrt (spaced picoseconds (10 ^ 9)) outs" unfolding m(3) .
  moreover have "length outs = 2" using arg_cong[OF r(2), of length] by simp
  ultimately show ?thesis using r(1) by blast
qed

text \<open>A frame that was padded and got its check sequence passes the check.\<close>

lemma padded_frame_verifies:
  assumes "addPaddingAndSetFcs m MIN_ETHERNET_FRAME_BYTES f = Some f'" "m \<noteq> FCS_DECLARED_INCORRECT"
    and "mac_isIeee8023Length (eh_typeOrLength (fr_header f)) \<Longrightarrow>
      uint (eh_typeOrLength (fr_header f)) \<le> fr_length f - (ETHER_MAC_HEADER_BYTES + ETHER_FCS_BYTES)"
  shows "verifyCrcAndLength f' = Some True \<and> fr_header f' = fr_header f \<and> MIN_ETHERNET_FRAME_BYTES \<le> fr_length f'"
  using assms(1)
proof (cases m)
  case FCS_COMPUTED
  with assms(1,3) show ?thesis
    by (auto simp: addPaddingAndSetFcs_def verifyCrcAndLength_def Let_def fr_length_def ETHER_FCS_BYTES_def MIN_ETHERNET_FRAME_BYTES_def
        split: if_splits)
next
  case FCS_DECLARED_CORRECT
  with assms(1,3) show ?thesis
    by (auto simp: addPaddingAndSetFcs_def verifyCrcAndLength_def Let_def fr_length_def ETHER_FCS_BYTES_def MIN_ETHERNET_FRAME_BYTES_def
        split: if_splits)
qed (use assms in \<open>simp_all add: addPaddingAndSetFcs_def Let_def\<close>)

text \<open>
  C20. A frame that one MAC transmits and another one receives without bit errors is passed up there, padded to the
  minimum length and with its header unchanged, when it is for the receiver: any data frame, short or long, whatever the
  receiver is doing.
\<close>

theorem mac_delivers:
  assumes "mac_handleUpperPacket conv now f s = Some (s', [Transmit f' e])" "em_fcsMode s \<noteq> FCS_DECLARED_INCORRECT"
    and "mac_isIeee8023Length (eh_typeOrLength (fr_header f)) \<longrightarrow>
      uint (eh_typeOrLength (fr_header f)) \<le> fr_length f - (ETHER_MAC_HEADER_BYTES + ETHER_FCS_BYTES)"
    and "em_connected r" "em_duplexMode r" "frameForUs r f" "eh_typeOrLength (fr_header f) \<noteq> ETHERTYPE_FLOW_CONTROL"
  shows "\<exists>r'. processMsgFromNetwork conv t (EthernetSignal f' False True d) r = Some (r', [PassUp f']) \<and>
    fr_header f' = fr_header f \<and> take (length (fr_octets f)) (fr_octets f') = fr_octets f \<and>
    MIN_ETHERNET_FRAME_BYTES \<le> fr_length f' \<and> em_numFramesPassedToHL r' = em_numFramesPassedToHL r + 1"
proof -
  have p: "addPaddingAndSetFcs (em_fcsMode s) MIN_ETHERNET_FRAME_BYTES f = Some f'"
    using assms(1) by (auto simp: mac_handleUpperPacket_def startFrameTransmission_def Let_def split: if_splits Option.bind_splits)
  from padded_frame_verifies[OF p assms(2)] assms(3)
  have v: "verifyCrcAndLength f' = Some True" "fr_header f' = fr_header f" "MIN_ETHERNET_FRAME_BYTES \<le> fr_length f'" by blast+
  have "take (length (fr_octets f)) (fr_octets f') = fr_octets f"
    using p by (auto simp: addPaddingAndSetFcs_def Let_def split: Option.bind_splits)
  moreover have "frameForUs (r\<lparr>em_totalSuccessfulRxTime := x\<rparr>) f' = frameForUs r f" for x by (simp add: frameForUs_def v(2))
  ultimately show ?thesis using assms(4-7) v by (simp add: processMsgFromNetwork_def Let_def processReceivedDataFrame_def)
qed

definition short_frame :: eframe where
  "short_frame = \<lparr>fr_header = \<lparr>eh_dest = BROADCAST_ADDRESS, eh_src = MacAddress 1, eh_typeOrLength = 1\<rparr>,
     fr_octets = replicate 15 7, fr_fcs = \<lparr>ef_fcs = 0, ef_fcsMode = FCS_DECLARED_CORRECT\<rparr>, fr_control = None\<rparr>"

theorem mac_delivers_witness:
  "\<exists>s' f' e r'. mac_handleUpperPacket picoseconds 0 short_frame sample_mac = Some (s', [Transmit f' e]) \<and>
     processMsgFromNetwork picoseconds e (EthernetSignal f' False True 5) sample_mac = Some (r', [PassUp f']) \<and> fr_length f' \<ge> 64"
proof -
  have "mac_quiet sample_mac" "frame_ok (em_address sample_mac) short_frame" "fcs_supported (em_fcsMode sample_mac)"
    "em_connected sample_mac" "0 < em_txrate sample_mac"
    by (simp_all add: sample_mac_def mac_quiet_def frame_ok_def short_frame_def fcs_supported_def BROADCAST_ADDRESS_def
        isUnspecified_def fr_length_def ETHER_FCS_BYTES_def MAX_ETHERNET_FRAME_BYTES_def control_ok_def ETHERTYPE_FLOW_CONTROL_def)
  from handleUpperPacket_connected[OF picoseconds_conversion this, of 0] obtain s' f' e where
    h: "mac_handleUpperPacket picoseconds 0 short_frame sample_mac = Some (s', [Transmit f' e])" by blast
  have "em_fcsMode sample_mac \<noteq> FCS_DECLARED_INCORRECT"
    "mac_isIeee8023Length (eh_typeOrLength (fr_header short_frame)) \<longrightarrow> uint (eh_typeOrLength (fr_header short_frame)) \<le>
      fr_length short_frame - (ETHER_MAC_HEADER_BYTES + ETHER_FCS_BYTES)"
    "em_connected sample_mac" "em_duplexMode sample_mac" "frameForUs sample_mac short_frame"
    "eh_typeOrLength (fr_header short_frame) \<noteq> ETHERTYPE_FLOW_CONTROL"
    by (simp_all add: sample_mac_def short_frame_def fr_length_def ETHER_FCS_BYTES_def ETHER_MAC_HEADER_BYTES_def
        frameForUs_def isBroadcast_def BROADCAST_ADDRESS_def MAC_ADDRESS_MASK_def ETHERTYPE_FLOW_CONTROL_def)
  from mac_delivers[OF h this, of e 5] h show ?thesis unfolding MIN_ETHERNET_FRAME_BYTES_def by blast
qed

text \<open>
  C21. The errors of the reception are exactly these: a signal that is no frame, a half duplex sender, a frame below the
  minimum length, a frame without bit errors and with a check sequence mode that cannot be checked, and a flow
  control frame for this MAC that checks but has no proper control frame in it. Nothing else a connected MAC receives
  makes it fail, in whatever state it is, and an error changes nothing.
\<close>

theorem mac_reception_errors:
  assumes "time_conversion conv" "mac_ok (queue_ops moduleId frame) pq_queue queue_config s" "em_connected s"
  shows "processMsgFromNetwork conv now sig s = None \<longleftrightarrow>
    (case sig of
       EthernetSignal f hasBitError fullDuplex d \<Rightarrow> \<not> fullDuplex \<or> fr_length f < MIN_ETHERNET_FRAME_BYTES \<or>
         (\<not> hasBitError \<and> \<not> fcs_supported (ef_fcsMode (fr_fcs f))) \<or>
         (\<not> hasBitError \<and> verifyCrcAndLength f = Some True \<and> frameForUs s f \<and> \<not> control_ok f)
     | _ \<Rightarrow> True)"
proof (cases sig)
  case (EthernetSignal f hasBitError fullDuplex d)
  have duplex: "em_duplexMode s" using assms(2) by (simp add: mac_ok_def mac_base_def)
  let ?s = "s\<lparr>em_totalSuccessfulRxTime := em_totalSuccessfulRxTime s + d\<rparr>"
  have us: "frameForUs ?s f = frameForUs s f" by (simp add: frameForUs_def)
  have v: "verifyCrcAndLength f = None \<longleftrightarrow> \<not> fcs_supported (ef_fcsMode (fr_fcs f))"
    by (cases "ef_fcsMode (fr_fcs f)") (simp_all add: verifyCrcAndLength_def fcs_supported_def)
  have c: "control_ok f" if "eh_typeOrLength (fr_header f) \<noteq> ETHERTYPE_FLOW_CONTROL" using that by (simp add: control_ok_def)
  { assume "control_ok f" "fullDuplex" "MIN_ETHERNET_FRAME_BYTES \<le> fr_length f" "fcs_supported (ef_fcsMode (fr_fcs f))"
    then have "signal_ok sig" by (simp add: signal_ok_def EthernetSignal)
    from mac_queue.processMsgFromNetwork_ok[OF assms(1,2) this, of now] have "processMsgFromNetwork conv now sig s \<noteq> None" by auto }
  note fine = this
  show ?thesis
  proof (cases "fullDuplex \<and> MIN_ETHERNET_FRAME_BYTES \<le> fr_length f")
    case False
    then show ?thesis using assms(3) duplex by (auto simp: EthernetSignal processMsgFromNetwork_def Let_def)
  next
    case True
    have len: "\<not> fr_length f < MIN_ETHERNET_FRAME_BYTES" using True by simp
    note msg = EthernetSignal processMsgFromNetwork_def Let_def assms(3) duplex True us len
    consider "hasBitError" | "\<not> hasBitError" "verifyCrcAndLength f = None" | (chk) b where "\<not> hasBitError" "verifyCrcAndLength f = Some b"
      by (cases "verifyCrcAndLength f") auto
    then show ?thesis
    proof cases
      case chk
      have sup: "fcs_supported (ef_fcsMode (fr_fcs f))" using v chk(2) by auto
      show ?thesis
      proof (cases "control_ok f")
        case True
        then show ?thesis using fine sup \<open>fullDuplex \<and> _\<close> chk by (simp add: EthernetSignal)
      next
        case False
        then have "eh_typeOrLength (fr_header f) = ETHERTYPE_FLOW_CONTROL"
          "fr_control f = None \<or> fr_control f = Some (OtherControl ETHERNET_CONTROL_PAUSE)"
          by (auto simp: control_ok_def split: option.splits control_frame.splits)
        then show ?thesis using chk sup False by (cases b; cases "frameForUs s f") (auto simp: msg)
      qed
    qed (use v in \<open>simp_all add: msg\<close>)
  qed
qed (use assms in \<open>simp_all add: processMsgFromNetwork_def mac_ok_def mac_base_def Let_def\<close>)

theorem mac_reception_errors_witness:
  "processMsgFromNetwork picoseconds 0 (EthernetSignal (sample_frame (sample_packet 1 60)) False False 5) sample_mac = None \<and>
   processMsgFromNetwork picoseconds 0 (EthernetSignal (sample_frame (sample_packet 1 60)) True True 5) sample_mac \<noteq> None"
  using mac_reception_errors[OF picoseconds_conversion sample_mac_ok(1), of 0 "EthernetSignal (sample_frame (sample_packet 1 60)) False False 5"]
    mac_reception_errors[OF picoseconds_conversion sample_mac_ok(1), of 0 "EthernetSignal (sample_frame (sample_packet 1 60)) True True 5"]
  by (simp add: sample_mac_def sample_frame_def fr_length_def ETHER_FCS_BYTES_def MIN_ETHERNET_FRAME_BYTES_def)

section \<open>Flow control in detail\<close>

text \<open>
  A PAUSE that arrives during the interframe gap is only stored: the next frame is sent all the same, and the pause is
  taken after it.
\<close>

lemma pause_during_gap_is_late:
  assumes "time_conversion conv" "mac_ok (queue_ops moduleId frame) pq_queue queue_config s" "em_transmitState s = WAIT_IFG_STATE"
    and "em_endIfgTimer s = Some gap" "pq_queue (em_txQueue s) \<noteq> []"
  shows "\<exists>s' s'' f e. processPauseCommand conv now units s = Some s' \<and>
    handleEndIFGPeriod conv (queue_ops moduleId frame) gap (s'\<lparr>em_endIfgTimer := None\<rparr>) = Some (s'', [Transmit f e]) \<and>
    em_pauseUnitsRequested s'' = units"
proof -
  from assms(5) obtain p q where q: "pq_queue (em_txQueue s) = p # q" by (cases "pq_queue (em_txQueue s)") simp_all
  let ?q = "(em_txQueue s)\<lparr>pq_queue := q, pq_numPulledPackets := pq_numPulledPackets (em_txQueue s) + 1\<rparr>"
  let ?s = "s\<lparr>em_pauseUnitsRequested := units, em_endIfgTimer := None, em_transmitState := TX_IDLE_STATE, em_txQueue := ?q\<rparr>"
  have b: "mac_base (queue_ops moduleId frame) pq_queue queue_config s" and up: "em_connected s"
    using assms(2,3) by (auto simp: mac_ok_def mac_state_ok_def)
  have "mac_quiet ?s" using assms(2,3) by (simp add: mac_ok_def mac_state_ok_def mac_quiet_def)
  moreover have "frame_ok (em_address ?s) (frame p)" using b q by (simp add: mac_base_def queue_ops_def)
  moreover have "fcs_supported (em_fcsMode ?s)" using b by (simp add: mac_base_def)
  moreover have "em_connected ?s" "0 < em_txrate ?s" using up mac_rate_pos[OF b up] by simp_all
  ultimately obtain f e where "mac_handleUpperPacket conv gap (frame p) ?s = Some (?s\<lparr>em_numFramesFromHL := em_numFramesFromHL ?s + 1,
      em_currentTxFrame := Some f, em_curTxSignal := Some gap, em_endTxTimer := Some e, em_transmitState := TRANSMITTING_STATE\<rparr>, [Transmit f e])"
    using handleUpperPacket_connected[OF assms(1), of ?s "frame p" gap] by blast
  moreover have "em_currentTxFrame s = None" using assms(2,3) by (auto simp: mac_ok_def mac_state_ok_def)
  ultimately show ?thesis using assms(3) q
    by (simp add: processPauseCommand_def handleEndIFGPeriod_def pull_next_def queue_ops_def pq_canPullPacket_def pq_pullPacket_def
        pq_getNumPackets_def pq_getPacket_def)
qed

text \<open>
  A PAUSE of no time that revokes a pause lets the next frame start at once: the interframe gap after the last frame is
  not kept when the pause was entered right after it.
\<close>

lemma revoked_pause_breaks_gap:
  assumes "conv 0 = 0" "em_transmitState s = PAUSE_STATE" "em_currentTxFrame s = None"
  shows "processPauseCommand conv now 0 s = Some (s\<lparr>em_endPauseTimer := Some now\<rparr>)"
    "handleEndPausePeriod conv ops now (s\<lparr>em_endPauseTimer := None\<rparr>) =
      pull_next conv ops now (s\<lparr>em_endPauseTimer := None, em_transmitState := TX_IDLE_STATE\<rparr>)"
proof -
  have "s\<lparr>em_transmitState := PAUSE_STATE\<rparr> = s" using assms(2) by simp
  then show "processPauseCommand conv now 0 s = Some (s\<lparr>em_endPauseTimer := Some now\<rparr>)"
    using assms by (simp add: processPauseCommand_def scheduleEndPausePeriod_def)
  show "handleEndPausePeriod conv ops now (s\<lparr>em_endPauseTimer := None\<rparr>) =
      pull_next conv ops now (s\<lparr>em_endPauseTimer := None, em_transmitState := TX_IDLE_STATE\<rparr>)"
    using assms by (simp add: handleEndPausePeriod_def)
qed

text \<open>A pause that was stored survives the loss of the connection: it is taken after the first frame on the next link.\<close>

lemma stored_pause_survives_disconnect:
  assumes "processConnectDisconnect conv ops now s = Some (s', out)"
  shows "em_pauseUnitsRequested s' = em_pauseUnitsRequested s"
  using assms by (auto simp: processConnectDisconnect_def Let_def split: if_splits option.splits Option.bind_splits)

end
