(* ===== verification/Preemption.thy ===== *)
theory Preemption
  imports Fragmentation Packet_Queue
begin

text \<open>
  Streaming and frame preemption (src/inet/src/inet/protocolelement/common/PacketStreamer.cc, PacketDestreamer.cc,
  PreemptableStreamer.cc, src/inet/src/inet/queueing/server/PreemptingServer.cc and the streaming operations of
  queueing/base/PacketSchedulerBase.cc), and the sending side of the preempting MAC layer they make up
  (linklayer/ethernet/modular/EthernetPreemptingMacLayer.ned): an express and a preemptable queue, a streamer behind each,
  a priority scheduler and the preempting server.

  Packets are those of the fragmentation modules. \<open>conv\<close> converts a \<open>double\<close> number of seconds to a time; times are
  picoseconds. \<open>NaN\<close> as a data rate is \<open>None\<close>. What a module pushes to its consumer is a list of \<open>stream_push\<close>. \<open>None\<close>
  as a result is an exception, or an access to a packet that is not there.
\<close>

datatype stream_push = PushStart fpacket | PushEnd fpacket

section \<open>Streaming without preemption\<close>

record pstreamer =
  ts_datarate :: "real option"
  ts_streamDatarate :: "real option"
  ts_streamedPacket :: "fpacket option"
  ts_endStreamingTimer :: "simtime option"

definition ts_isStreaming :: "pstreamer \<Rightarrow> bool" where
  "ts_isStreaming s \<longleftrightarrow> ts_streamedPacket s \<noteq> None"

definition ts_endStreaming :: "pstreamer \<Rightarrow> (stream_push list \<times> pstreamer) option" where
  "ts_endStreaming s =
     do { p \<leftarrow> ts_streamedPacket s; Some ([PushEnd p], s\<lparr>ts_streamDatarate := None, ts_streamedPacket := None\<rparr>) }"

definition ts_handleTimer :: "pstreamer \<Rightarrow> (stream_push list \<times> pstreamer) option" where
  "ts_handleTimer s = ts_endStreaming (s\<lparr>ts_endStreamingTimer := None\<rparr>)"

definition ts_pushPacket :: "(real \<Rightarrow> int) \<Rightarrow> simtime \<Rightarrow> fpacket \<Rightarrow> pstreamer \<Rightarrow> (stream_push list \<times> pstreamer) option" where
  "ts_pushPacket conv now p s =
     do {
       ensure (\<not> ts_isStreaming s);
       let s = s\<lparr>ts_streamDatarate := ts_datarate s, ts_streamedPacket := Some p\<rparr>;
       (case ts_streamDatarate s of
          Some r \<Rightarrow> do {
            ensure (ts_endStreamingTimer s = None);
            Some ([PushStart p], s\<lparr>ts_endStreamingTimer := Some (now + conv (of_int (getTotalLength p) / r))\<rparr>)
          }
        | None \<Rightarrow> do { (out, s) \<leftarrow> ts_endStreaming s; Some (PushStart p # out, s) })
     }"

definition ts_canPullSomePacket :: "bool \<Rightarrow> pstreamer \<Rightarrow> bool" where
  "ts_canPullSomePacket provider_canPull s \<longleftrightarrow> \<not> ts_isStreaming s \<and> provider_canPull"

definition ts_pullPacketStart :: "('q \<Rightarrow> (fpacket \<times> 'q) option) \<Rightarrow> real \<Rightarrow> 'q \<times> pstreamer \<Rightarrow> (fpacket \<times> 'q \<times> pstreamer) option" where
  "ts_pullPacketStart pull r qs =
     do { (p, q) \<leftarrow> pull (fst qs); Some (p, q, (snd qs)\<lparr>ts_streamDatarate := Some r, ts_streamedPacket := Some p\<rparr>) }"

definition ts_pullPacketEnd :: "pstreamer \<Rightarrow> (fpacket \<times> pstreamer) option" where
  "ts_pullPacketEnd s =
     do { p \<leftarrow> ts_streamedPacket s; Some (p, s\<lparr>ts_streamDatarate := None, ts_streamedPacket := None\<rparr>) }"

text \<open>The progress of a packet under way leaves the streamer alone but for the data rate.\<close>

definition ts_pullPacketProgress :: "real \<Rightarrow> pstreamer \<Rightarrow> (fpacket \<times> pstreamer) option" where
  "ts_pullPacketProgress r s = do { p \<leftarrow> ts_streamedPacket s; Some (p, s\<lparr>ts_streamDatarate := Some r\<rparr>) }"

text \<open>The destreamer keeps the latest version of the packet and pushes the last one.\<close>

record destreamer =
  dt_datarate :: "real option"
  dt_streamDatarate :: "real option"
  dt_streamedPacket :: "fpacket option"

definition dt_isStreaming :: "destreamer \<Rightarrow> bool" where
  "dt_isStreaming s \<longleftrightarrow> dt_streamedPacket s \<noteq> None"

definition dt_canPushPacket :: "bool \<Rightarrow> destreamer \<Rightarrow> bool" where
  "dt_canPushPacket consumer_canPush s \<longleftrightarrow> \<not> dt_isStreaming s \<and> consumer_canPush"

definition dt_pushPacketStart :: "fpacket \<Rightarrow> real option \<Rightarrow> destreamer \<Rightarrow> destreamer" where
  "dt_pushPacketStart p r s = s\<lparr>dt_streamedPacket := Some p, dt_streamDatarate := r\<rparr>"

definition dt_pushPacketProgress :: "fpacket \<Rightarrow> real option \<Rightarrow> destreamer \<Rightarrow> destreamer" where
  "dt_pushPacketProgress p r s = s\<lparr>dt_streamedPacket := Some p, dt_streamDatarate := r\<rparr>"

definition dt_pushPacketEnd :: "fpacket \<Rightarrow> destreamer \<Rightarrow> fpacket \<times> destreamer" where
  "dt_pushPacketEnd p s = (p, s\<lparr>dt_streamedPacket := None, dt_streamDatarate := dt_datarate s\<rparr>)"

definition dt_pullPacket ::
  "(real option \<Rightarrow> 'q \<Rightarrow> (fpacket \<times> 'q) option) \<Rightarrow> ('q \<Rightarrow> (fpacket \<times> 'q) option) \<Rightarrow> 'q \<times> destreamer \<Rightarrow>
   (fpacket \<times> 'q \<times> destreamer) option" where
  "dt_pullPacket pullStart pullEnd qs =
     (case qs of (q, s) \<Rightarrow> do {
        ensure (\<not> dt_isStreaming s);
        let s = s\<lparr>dt_streamDatarate := dt_datarate s\<rparr>;
        (_, q) \<leftarrow> pullStart (dt_streamDatarate s) q;
        (p, q) \<leftarrow> pullEnd q;
        Some (p, q, s\<lparr>dt_streamedPacket := None\<rparr>)
      })"

section \<open>The preemptable streamer\<close>

record streamer =
  pt_datarate :: "real option"
  pt_minPacketLength :: int
  pt_roundingLength :: int
  pt_streamStart :: simtime
  pt_streamDatarate :: "real option"
  pt_streamedPacket :: "fpacket option"
  pt_remainingPacket :: "fpacket option"
  pt_endStreamingTimer :: "simtime option"

definition pt_isStreaming :: "streamer \<Rightarrow> bool" where
  "pt_isStreaming s \<longleftrightarrow> pt_streamedPacket s \<noteq> None"

definition pt_endStreaming :: "streamer \<Rightarrow> (stream_push list \<times> streamer) option" where
  "pt_endStreaming s =
     do { p \<leftarrow> pt_streamedPacket s; Some ([PushEnd p], s\<lparr>pt_streamDatarate := None, pt_streamedPacket := None\<rparr>) }"

definition pt_handleTimer :: "streamer \<Rightarrow> (stream_push list \<times> streamer) option" where
  "pt_handleTimer s = pt_endStreaming (s\<lparr>pt_endStreamingTimer := None\<rparr>)"

definition pt_pushPacket :: "(real \<Rightarrow> int) \<Rightarrow> simtime \<Rightarrow> fpacket \<Rightarrow> streamer \<Rightarrow> (stream_push list \<times> streamer) option" where
  "pt_pushPacket conv now p s =
     do {
       ensure (\<not> pt_isStreaming s);
       let s = s\<lparr>pt_streamDatarate := pt_datarate s, pt_streamedPacket := Some p\<rparr>;
       (case pt_streamDatarate s of
          None \<Rightarrow> do { (out, s) \<leftarrow> pt_endStreaming s; Some (PushStart p # out, s) }
        | Some r \<Rightarrow> do {
            ensure (pt_endStreamingTimer s = None);
            Some ([PushStart p], s\<lparr>pt_endStreamingTimer := Some (now + conv (of_int (int (length (fp_data p))) / r))\<rparr>)
          })
     }"

definition pt_canPullSomePacket :: "bool \<Rightarrow> streamer \<Rightarrow> bool" where
  "pt_canPullSomePacket provider_canPull s \<longleftrightarrow> \<not> pt_isStreaming s \<and> (pt_remainingPacket s \<noteq> None \<or> provider_canPull)"

definition pt_canPullPacket :: "fpacket option \<Rightarrow> streamer \<Rightarrow> fpacket option" where
  "pt_canPullPacket provider_packet s =
     (if pt_isStreaming s then None else if pt_remainingPacket s \<noteq> None then pt_remainingPacket s else provider_packet)"

definition whole_packet :: fragment_tag where
  "whole_packet = \<lparr>ft_firstFragment = True, ft_lastFragment = True, ft_fragmentNumber = 0, ft_numFragments = -1\<rparr>"

definition tagged :: "fpacket \<Rightarrow> fpacket" where
  "tagged p = (if fp_tag p = None then p\<lparr>fp_tag := Some whole_packet\<rparr> else p)"

definition pt_pullPacketStart ::
  "('q \<Rightarrow> (fpacket \<times> 'q) option) \<Rightarrow> real \<Rightarrow> simtime \<Rightarrow> 'q \<times> streamer \<Rightarrow> (fpacket \<times> 'q \<times> streamer) option" where
  "pt_pullPacketStart pull r now qs =
     (case qs of (q, s) \<Rightarrow> do {
        (p, q) \<leftarrow> (case pt_remainingPacket s of None \<Rightarrow> pull q | Some p \<Rightarrow> Some (p, q));
        Some (tagged p, q, s\<lparr>pt_streamDatarate := Some r, pt_streamedPacket := Some (tagged p), pt_remainingPacket := None,
          pt_streamStart := now\<rparr>)
      })"

text \<open>How much of the packet is sent when it is preempted, and the two parts.\<close>

definition pulled_length :: "real \<Rightarrow> simtime \<Rightarrow> int" where
  "pulled_length r duration = \<lfloor>r * (of_int duration / 10 ^ 12)\<rfloor>"

definition preempted_length :: "int \<Rightarrow> int \<Rightarrow> int \<Rightarrow> int" where
  "preempted_length minPacketLength roundingLength pulledLength =
     (let preemptedLength = roundingLength * ((pulledLength + roundingLength - 1) div roundingLength)
      in if preemptedLength < minPacketLength then minPacketLength else preemptedLength)"

definition base_name :: "int \<Rightarrow> string \<Rightarrow> string" where
  "base_name fragmentNumber name = (if fragmentNumber \<noteq> 0 then cut_frag name else name)"

definition sent_part :: "fpacket \<Rightarrow> fragment_tag \<Rightarrow> nat \<Rightarrow> fpacket" where
  "sent_part p t n =
     p\<lparr>fp_name := base_name (ft_fragmentNumber t) (fp_name p) @ ''-frag'' @ to_string (nat (ft_fragmentNumber t)),
       fp_data := take n (fp_data p), fp_tag := Some (t\<lparr>ft_lastFragment := False\<rparr>)\<rparr>"

definition remaining_part :: "fpacket \<Rightarrow> fragment_tag \<Rightarrow> nat \<Rightarrow> fpacket" where
  "remaining_part p t n =
     (new_packet (base_name (ft_fragmentNumber t) (fp_name p) @ ''-frag'' @ to_string (nat (ft_fragmentNumber t + 1))))
       \<lparr>fp_data := drop n (fp_data p),
        fp_tag := Some (t\<lparr>ft_firstFragment := False, ft_lastFragment := True, ft_fragmentNumber := ft_fragmentNumber t + 1\<rparr>)\<rparr>"

definition pt_pullPacketEnd :: "simtime \<Rightarrow> streamer \<Rightarrow> (fpacket \<times> streamer) option" where
  "pt_pullPacketEnd now s =
     do {
       p \<leftarrow> pt_streamedPacket s;
       r \<leftarrow> pt_streamDatarate s;
       let n = preempted_length (pt_minPacketLength s) (pt_roundingLength s) (pulled_length r (now - pt_streamStart s));
       (if n + pt_minPacketLength s \<le> int (length (fp_data p))
        then do {
          t \<leftarrow> fp_tag p;
          Some (sent_part p t (nat n), s\<lparr>pt_remainingPacket := Some (remaining_part p t (nat n)), pt_streamedPacket := None\<rparr>)
        }
        else Some (p, s\<lparr>pt_streamedPacket := None\<rparr>))
     }"

definition pt_pullPacketProgress :: "real \<Rightarrow> streamer \<Rightarrow> (fpacket \<times> streamer) option" where
  "pt_pullPacketProgress r s = do { p \<leftarrow> pt_streamedPacket s; Some (p, s\<lparr>pt_streamDatarate := Some r\<rparr>) }"

section \<open>The sending side of the preempting MAC layer\<close>

text \<open>
  The queues are behind the streamers; \<open>po_push\<close> also tells whether the queue notifies the streamer. Input 0 of the
  scheduler is the express one. The check sequence inserter behind the preemptable streamer adds \<open>xm_fragmentFcsLength\<close>
  bits to a fragment. \<open>xm_inProgressGateIndex\<close> is -1 while the scheduler is not streaming.
\<close>

record ('q, 'p) provider_ops =
  po_canPull :: "'q \<Rightarrow> bool"
  po_pull :: "'q \<Rightarrow> (fpacket \<times> 'q) option"
  po_push :: "'p \<Rightarrow> 'q \<Rightarrow> (bool \<times> 'q) option"
  po_frame :: "'p \<Rightarrow> fpacket"

record 'q preempting_mac =
  xm_expressQueue :: 'q
  xm_expressStreamer :: pstreamer
  xm_preemptableQueue :: 'q
  xm_preemptableStreamer :: streamer
  xm_inProgressGateIndex :: int
  xm_datarate :: real
  xm_fragmentFcsLength :: int
  xm_streamedPacket :: "fpacket option"
  xm_timer :: "simtime option"

definition xm_expressCanPull :: "('q, 'p) provider_ops \<Rightarrow> 'q preempting_mac \<Rightarrow> bool" where
  "xm_expressCanPull ops s = ts_canPullSomePacket (po_canPull ops (xm_expressQueue s)) (xm_expressStreamer s)"

definition xm_preemptableCanPull :: "('q, 'p) provider_ops \<Rightarrow> 'q preempting_mac \<Rightarrow> bool" where
  "xm_preemptableCanPull ops s = pt_canPullSomePacket (po_canPull ops (xm_preemptableQueue s)) (xm_preemptableStreamer s)"

text \<open>The priority scheduler.\<close>

definition xm_schedulePacket :: "('q, 'p) provider_ops \<Rightarrow> 'q preempting_mac \<Rightarrow> int" where
  "xm_schedulePacket ops s =
     (if xm_inProgressGateIndex s = 0 \<or> xm_expressCanPull ops s then 0
      else if xm_inProgressGateIndex s = 1 \<or> xm_preemptableCanPull ops s then 1 else -1)"

definition xm_callSchedulePacket :: "('q, 'p) provider_ops \<Rightarrow> 'q preempting_mac \<Rightarrow> int option" where
  "xm_callSchedulePacket ops s =
     (let index = xm_schedulePacket ops s in do { ensure (\<not> index < 0); Some index })"

definition xm_canPullSomePacket :: "('q, 'p) provider_ops \<Rightarrow> 'q preempting_mac \<Rightarrow> bool" where
  "xm_canPullSomePacket ops s \<longleftrightarrow> xm_expressCanPull ops s \<or> xm_preemptableCanPull ops s"

definition xm_pullPacketStart :: "('q, 'p) provider_ops \<Rightarrow> simtime \<Rightarrow> 'q preempting_mac \<Rightarrow> (fpacket \<times> 'q preempting_mac) option" where
  "xm_pullPacketStart ops now s =
     do {
       ensure (xm_inProgressGateIndex s = -1);
       index \<leftarrow> xm_callSchedulePacket ops s;
       (if index = 0
        then do {
          (p, q, t) \<leftarrow> ts_pullPacketStart (po_pull ops) (xm_datarate s) (xm_expressQueue s, xm_expressStreamer s);
          Some (p, s\<lparr>xm_inProgressGateIndex := 0, xm_expressQueue := q, xm_expressStreamer := t\<rparr>)
        }
        else do {
          (p, q, t) \<leftarrow> pt_pullPacketStart (po_pull ops) (xm_datarate s) now (xm_preemptableQueue s, xm_preemptableStreamer s);
          Some (p, s\<lparr>xm_inProgressGateIndex := 1, xm_preemptableQueue := q, xm_preemptableStreamer := t\<rparr>)
        })
     }"

definition xm_pullPacketEnd :: "('q, 'p) provider_ops \<Rightarrow> simtime \<Rightarrow> 'q preempting_mac \<Rightarrow> (fpacket \<times> 'q preempting_mac) option" where
  "xm_pullPacketEnd ops now s =
     do {
       index \<leftarrow> (if xm_inProgressGateIndex s = -1 then xm_callSchedulePacket ops s else Some (xm_inProgressGateIndex s));
       (if index = 0
        then do {
          (p, t) \<leftarrow> ts_pullPacketEnd (xm_expressStreamer s);
          Some (p, s\<lparr>xm_inProgressGateIndex := -1, xm_expressStreamer := t\<rparr>)
        }
        else do {
          (p, t) \<leftarrow> pt_pullPacketEnd now (xm_preemptableStreamer s);
          Some (p, s\<lparr>xm_inProgressGateIndex := -1, xm_preemptableStreamer := t\<rparr>)
        })
     }"

text \<open>The preempting server; \<open>ready\<close> is what \<open>canPushSomePacket\<close> of its consumer returns.\<close>

definition xm_isStreaming :: "'q preempting_mac \<Rightarrow> bool" where
  "xm_isStreaming s \<longleftrightarrow> xm_streamedPacket s \<noteq> None"

definition xm_canStartStreaming :: "('q, 'p) provider_ops \<Rightarrow> bool \<Rightarrow> 'q preempting_mac \<Rightarrow> bool" where
  "xm_canStartStreaming ops ready s \<longleftrightarrow> xm_canPullSomePacket ops s \<and> ready"

definition xm_totalLength :: "fpacket \<Rightarrow> 'q preempting_mac \<Rightarrow> int" where
  "xm_totalLength p s = getTotalLength p + (if xm_inProgressGateIndex s = 1 then xm_fragmentFcsLength s else 0)"

definition xm_startStreaming ::
  "(real \<Rightarrow> int) \<Rightarrow> ('q, 'p) provider_ops \<Rightarrow> simtime \<Rightarrow> 'q preempting_mac \<Rightarrow> (stream_push list \<times> 'q preempting_mac) option" where
  "xm_startStreaming conv ops now s =
     do {
       (p, s) \<leftarrow> xm_pullPacketStart ops now s;
       ensure (xm_timer s = None);
       Some ([PushStart p], s\<lparr>xm_streamedPacket := Some p,
         xm_timer := Some (now + conv (of_int (xm_totalLength p s) / xm_datarate s))\<rparr>)
     }"

definition xm_endStreaming ::
  "('q, 'p) provider_ops \<Rightarrow> simtime \<Rightarrow> 'q preempting_mac \<Rightarrow> (stream_push list \<times> 'q preempting_mac) option" where
  "xm_endStreaming ops now s =
     do { (p, s) \<leftarrow> xm_pullPacketEnd ops now s; Some ([PushEnd p], s\<lparr>xm_streamedPacket := None\<rparr>) }"

definition xm_handleTimer ::
  "('q, 'p) provider_ops \<Rightarrow> simtime \<Rightarrow> 'q preempting_mac \<Rightarrow> (stream_push list \<times> 'q preempting_mac) option" where
  "xm_handleTimer ops now s = xm_endStreaming ops now (s\<lparr>xm_timer := None\<rparr>)"

definition xm_handleCanPushPacketChanged ::
  "(real \<Rightarrow> int) \<Rightarrow> ('q, 'p) provider_ops \<Rightarrow> simtime \<Rightarrow> bool \<Rightarrow> 'q preempting_mac \<Rightarrow> (stream_push list \<times> 'q preempting_mac) option" where
  "xm_handleCanPushPacketChanged conv ops now ready s =
     (if \<not> xm_isStreaming s \<and> xm_canStartStreaming ops ready s then xm_startStreaming conv ops now s else Some ([], s))"

definition xm_handleCanPullPacketChanged ::
  "(real \<Rightarrow> int) \<Rightarrow> ('q, 'p) provider_ops \<Rightarrow> simtime \<Rightarrow> bool \<Rightarrow> 'q preempting_mac \<Rightarrow> (stream_push list \<times> 'q preempting_mac) option" where
  "xm_handleCanPullPacketChanged conv ops now ready s =
     (if xm_isStreaming s then do { (out, s) \<leftarrow> xm_endStreaming ops now s; Some (out, s\<lparr>xm_timer := None\<rparr>) }
      else if xm_canStartStreaming ops ready s then xm_startStreaming conv ops now s
      else Some ([], s))"

definition xm_handlePushPacketProcessed ::
  "('q, 'p) provider_ops \<Rightarrow> simtime \<Rightarrow> 'q preempting_mac \<Rightarrow> (stream_push list \<times> 'q preempting_mac) option" where
  "xm_handlePushPacketProcessed ops now s =
     (if xm_isStreaming s then do { (p, s) \<leftarrow> xm_pullPacketEnd ops now s; Some ([], s\<lparr>xm_streamedPacket := None\<rparr>) }
      else Some ([], s))"

text \<open>A streamer that is not streaming hands the notification of its queue to the scheduler, and that to the server.\<close>

definition xm_scheduler_notified ::
  "(real \<Rightarrow> int) \<Rightarrow> ('q, 'p) provider_ops \<Rightarrow> simtime \<Rightarrow> bool \<Rightarrow> 'q preempting_mac \<Rightarrow> (stream_push list \<times> 'q preempting_mac) option" where
  "xm_scheduler_notified conv ops now ready s =
     (if xm_inProgressGateIndex s = -1 then xm_handleCanPullPacketChanged conv ops now ready s
      else do {
        index \<leftarrow> xm_callSchedulePacket ops s;
        (if index \<noteq> xm_inProgressGateIndex s then xm_handleCanPullPacketChanged conv ops now ready s else Some ([], s))
      })"

datatype 'p xm_event = ExpressPacket 'p bool | PreemptablePacket 'p bool | ServerTimer | ConsumerChanged bool | ConsumerProcessed

fun xm_step ::
  "(real \<Rightarrow> int) \<Rightarrow> ('q, 'p) provider_ops \<Rightarrow> simtime \<Rightarrow> 'p xm_event \<Rightarrow> 'q preempting_mac \<Rightarrow> (stream_push list \<times> 'q preempting_mac) option" where
  "xm_step conv ops now (ExpressPacket p ready) s =
     do {
       (notified, q) \<leftarrow> po_push ops p (xm_expressQueue s);
       let s = s\<lparr>xm_expressQueue := q\<rparr>;
       (if notified \<and> \<not> ts_isStreaming (xm_expressStreamer s) then xm_scheduler_notified conv ops now ready s else Some ([], s))
     }"
| "xm_step conv ops now (PreemptablePacket p ready) s =
     do {
       (notified, q) \<leftarrow> po_push ops p (xm_preemptableQueue s);
       let s = s\<lparr>xm_preemptableQueue := q\<rparr>;
       (if notified \<and> \<not> pt_isStreaming (xm_preemptableStreamer s) then xm_scheduler_notified conv ops now ready s else Some ([], s))
     }"
| "xm_step conv ops now ServerTimer s = xm_handleTimer ops now s"
| "xm_step conv ops now (ConsumerChanged ready) s = xm_handleCanPushPacketChanged conv ops now ready s"
| "xm_step conv ops now ConsumerProcessed s = xm_handlePushPacketProcessed ops now s"

fun xm_run ::
  "(real \<Rightarrow> int) \<Rightarrow> ('q, 'p) provider_ops \<Rightarrow> (simtime \<times> 'p xm_event) list \<Rightarrow> 'q preempting_mac \<Rightarrow>
   ((simtime \<times> stream_push) list \<times> 'q preempting_mac) option" where
  "xm_run conv ops [] s = Some ([], s)"
| "xm_run conv ops ((now, e) # es) s =
     do {
       (out, s) \<leftarrow> xm_step conv ops now e s;
       (outs, s) \<leftarrow> xm_run conv ops es s;
       Some (map (Pair now) out @ outs, s)
     }"

text \<open>
  What the modules around promise: events come in time order and the timer when it is due; the consumer is not ready from
  the start of a packet until it has processed it, which is after the packet ended.
\<close>

definition consumer_busy :: "stream_push list \<Rightarrow> 'p xm_event \<Rightarrow> bool \<Rightarrow> bool" where
  "consumer_busy out e busy \<longleftrightarrow> (\<exists>p. PushStart p \<in> set out) \<or> busy \<and> e \<noteq> ConsumerProcessed"

fun xm_event_ok :: "bool \<Rightarrow> bool \<Rightarrow> 'p xm_event \<Rightarrow> bool" where
  "xm_event_ok busy streaming (ExpressPacket p ready) \<longleftrightarrow> (ready \<longrightarrow> \<not> busy)"
| "xm_event_ok busy streaming (PreemptablePacket p ready) \<longleftrightarrow> (ready \<longrightarrow> \<not> busy)"
| "xm_event_ok busy streaming ServerTimer \<longleftrightarrow> True"
| "xm_event_ok busy streaming (ConsumerChanged ready) \<longleftrightarrow> (ready \<longrightarrow> \<not> busy)"
| "xm_event_ok busy streaming ConsumerProcessed \<longleftrightarrow> busy \<and> \<not> streaming"

fun xm_schedule ::
  "(real \<Rightarrow> int) \<Rightarrow> ('q, 'p) provider_ops \<Rightarrow> simtime \<Rightarrow> bool \<Rightarrow> (simtime \<times> 'p xm_event) list \<Rightarrow> 'q preempting_mac \<Rightarrow> bool" where
  "xm_schedule conv ops t busy [] s \<longleftrightarrow> True"
| "xm_schedule conv ops t busy ((now, e) # es) s \<longleftrightarrow>
     t \<le> now \<and> (case xm_timer s of None \<Rightarrow> e \<noteq> ServerTimer | Some due \<Rightarrow> now \<le> due \<and> (e = ServerTimer \<longrightarrow> now = due)) \<and>
     xm_event_ok busy (xm_isStreaming s) e \<and>
     (case xm_step conv ops now e s of None \<Rightarrow> True
      | Some (out, s') \<Rightarrow> xm_schedule conv ops now (consumer_busy out e busy) es s')"

section \<open>What is sent of the preemptable frames\<close>

text \<open>
  The abstract course of preemptable frames: frames that arrived, fragments that were sent, the rest of the frame that is
  being sent, and frames that wait. A fragment has at least \<open>m\<close> bits, leaves at least \<open>m\<close> bits, and is as short as possible or a multiple of
  \<open>r\<close> bits.
\<close>

inductive preemptable_sent :: "int \<Rightarrow> int \<Rightarrow> fpacket list \<Rightarrow> fpacket list \<Rightarrow> fpacket option \<Rightarrow> fpacket list \<Rightarrow> bool" for m r where
  sent_nothing: "preemptable_sent m r [] [] None []"
| frame_arrives: "preemptable_sent m r arrived sent cur wait \<Longrightarrow> preemptable_sent m r (arrived @ [p]) sent cur (wait @ [p])"
| frame_starts: "preemptable_sent m r arrived sent None (p # wait) \<Longrightarrow> preemptable_sent m r arrived sent (Some (tagged p)) wait"
| fragment_sent: "preemptable_sent m r arrived sent (Some c) wait \<Longrightarrow> fp_tag c = Some t \<Longrightarrow>
    m \<le> int n \<Longrightarrow> int n + m \<le> int (length (fp_data c)) \<Longrightarrow> int n = m \<or> r dvd int n \<Longrightarrow>
    preemptable_sent m r arrived (sent @ [sent_part c t n]) (Some (remaining_part c t n)) wait"
| frame_sent: "preemptable_sent m r arrived sent (Some c) wait \<Longrightarrow> preemptable_sent m r arrived (sent @ [c]) None wait"

lemma tag_tagged: "fp_tag (tagged p) \<noteq> None"
  by (simp add: tagged_def)

lemma sent_current_tagged:
  "preemptable_sent m r arrived sent cur wait \<Longrightarrow> case cur of None \<Rightarrow> True | Some c \<Rightarrow> fp_tag c \<noteq> None"
  by (induction rule: preemptable_sent.induct) (simp_all add: tag_tagged remaining_part_def)

lemma sent_fragments_tagged:
  "preemptable_sent m r arrived sent cur wait \<Longrightarrow> \<forall>f \<in> set sent. fp_tag f \<noteq> None"
proof (induction rule: preemptable_sent.induct)
  case (frame_sent arrived sent c wait)
  then show ?case using sent_current_tagged[OF frame_sent(1)] by simp
qed (simp_all add: sent_part_def)

lemma preempted_length_bounds:
  assumes "0 < r" "0 \<le> pulled" "0 \<le> m"
  shows "m \<le> preempted_length m r pulled" "preempted_length m r pulled \<le> max m (pulled + r - 1)" "pulled \<le> preempted_length m r pulled"
    "preempted_length m r pulled = m \<or> r dvd preempted_length m r pulled"
proof -
  let ?n = "r * ((pulled + r - 1) div r)"
  have "?n = pulled + r - 1 - (pulled + r - 1) mod r" by (simp add: minus_mod_eq_mult_div)
  then have "?n \<le> pulled + r - 1" "pulled \<le> ?n" using assms(1) pos_mod_bound[of r "pulled + r - 1"] pos_mod_sign[of r "pulled + r - 1"] by linarith+
  then show "m \<le> preempted_length m r pulled" "preempted_length m r pulled \<le> max m (pulled + r - 1)" "pulled \<le> preempted_length m r pulled"
    "preempted_length m r pulled = m \<or> r dvd preempted_length m r pulled"
    by (simp_all add: preempted_length_def Let_def)
qed

section \<open>The contract of the queues\<close>

locale frame_provider =
  fixes ops :: "('q, 'p) provider_ops" and contents :: "'q \<Rightarrow> fpacket list" and queue_ok :: "'q \<Rightarrow> bool"
  assumes can_pull: "queue_ok q \<Longrightarrow> po_canPull ops q \<longleftrightarrow> contents q \<noteq> []"
    and pull: "queue_ok q \<Longrightarrow> contents q = p # ps \<Longrightarrow> \<exists>q'. po_pull ops q = Some (p, q') \<and> queue_ok q' \<and> contents q' = ps"
    and push: "queue_ok q \<Longrightarrow> \<exists>q'. po_push ops x q = Some (True, q') \<and> queue_ok q' \<and> contents q' = contents q @ [po_frame ops x]"

section \<open>The invariant of the sending side\<close>

definition current_packet :: "streamer \<Rightarrow> fpacket option" where
  "current_packet s = (case pt_streamedPacket s of None \<Rightarrow> pt_remainingPacket s | Some p \<Rightarrow> Some p)"

definition express_pending :: "('q \<Rightarrow> fpacket list) \<Rightarrow> 'q preempting_mac \<Rightarrow> fpacket list" where
  "express_pending contents s =
     (case ts_streamedPacket (xm_expressStreamer s) of None \<Rightarrow> [] | Some p \<Rightarrow> [p]) @ contents (xm_expressQueue s)"

definition xm_config :: "('q \<Rightarrow> bool) \<Rightarrow> 'q preempting_mac \<Rightarrow> bool" where
  "xm_config queue_ok s \<longleftrightarrow> queue_ok (xm_expressQueue s) \<and> queue_ok (xm_preemptableQueue s) \<and> 0 < xm_datarate s \<and>
     0 \<le> xm_fragmentFcsLength s \<and> 0 \<le> pt_minPacketLength (xm_preemptableStreamer s) \<and> 0 < pt_roundingLength (xm_preemptableStreamer s)"

text \<open>Either nothing is streamed, or one of the two streamers and the server with it.\<close>

definition xm_phase :: "simtime \<Rightarrow> 'q preempting_mac \<Rightarrow> bool" where
  "xm_phase now s \<longleftrightarrow>
     (xm_inProgressGateIndex s = -1 \<and> xm_streamedPacket s = None \<and> xm_timer s = None \<and>
        ts_streamedPacket (xm_expressStreamer s) = None \<and> pt_streamedPacket (xm_preemptableStreamer s) = None) \<or>
     (xm_inProgressGateIndex s = 0 \<and> xm_streamedPacket s \<noteq> None \<and> xm_timer s \<noteq> None \<and>
        ts_streamedPacket (xm_expressStreamer s) \<noteq> None \<and> pt_streamedPacket (xm_preemptableStreamer s) = None) \<or>
     (xm_inProgressGateIndex s = 1 \<and> xm_streamedPacket s \<noteq> None \<and> xm_timer s \<noteq> None \<and>
        ts_streamedPacket (xm_expressStreamer s) = None \<and> pt_streamedPacket (xm_preemptableStreamer s) \<noteq> None \<and>
        pt_streamDatarate (xm_preemptableStreamer s) = Some (xm_datarate s) \<and> pt_streamStart (xm_preemptableStreamer s) \<le> now \<and>
        pt_remainingPacket (xm_preemptableStreamer s) = None)"

text \<open>The packets that ended, by the streamer they came from.\<close>

definition ended_packets :: "stream_push list \<Rightarrow> fpacket list" where
  "ended_packets out = concat (map (\<lambda>e. case e of PushStart p \<Rightarrow> [] | PushEnd p \<Rightarrow> [p]) out)"

definition express_ended :: "stream_push list \<Rightarrow> fpacket list" where
  "express_ended out = filter (\<lambda>p. fp_tag p = None) (ended_packets out)"

definition fragments_ended :: "stream_push list \<Rightarrow> fpacket list" where
  "fragments_ended out = filter (\<lambda>p. fp_tag p \<noteq> None) (ended_packets out)"

fun express_arrived :: "('q, 'p) provider_ops \<Rightarrow> 'p xm_event \<Rightarrow> fpacket list" where
  "express_arrived ops (ExpressPacket p ready) = [po_frame ops p]"
| "express_arrived ops e = []"

fun preemptable_arrived :: "('q, 'p) provider_ops \<Rightarrow> 'p xm_event \<Rightarrow> fpacket list" where
  "preemptable_arrived ops (PreemptablePacket p ready) = [po_frame ops p]"
| "preemptable_arrived ops e = []"

text \<open>The invariant, with what arrived and what was sent so far.\<close>

definition xm_inv ::
  "('q \<Rightarrow> fpacket list) \<Rightarrow> ('q \<Rightarrow> bool) \<Rightarrow> int \<Rightarrow> int \<Rightarrow> simtime \<Rightarrow> 'q preempting_mac \<Rightarrow> fpacket list \<Rightarrow> fpacket list \<Rightarrow> fpacket list \<Rightarrow> fpacket list \<Rightarrow> bool" where
  "xm_inv contents queue_ok m r now s exp_arr exp_sent pre_arr pre_sent \<longleftrightarrow>
     xm_config queue_ok s \<and> xm_phase now s \<and> pt_minPacketLength (xm_preemptableStreamer s) = m \<and>
     pt_roundingLength (xm_preemptableStreamer s) = r \<and>
     exp_arr = exp_sent @ express_pending contents s \<and> (\<forall>p \<in> set exp_arr. fp_tag p = None) \<and>
     preemptable_sent m r pre_arr pre_sent (current_packet (xm_preemptableStreamer s)) (contents (xm_preemptableQueue s))"

lemma ended_simps [simp]:
  "express_ended [] = []" "fragments_ended [] = []"
  "express_ended [PushStart p] = []" "fragments_ended [PushStart p] = []"
  "express_ended [PushEnd p] = (if fp_tag p = None then [p] else [])"
  "fragments_ended [PushEnd p] = (if fp_tag p = None then [] else [p])"
  by (simp_all add: express_ended_def fragments_ended_def ended_packets_def)

context frame_provider
begin

lemma start_streaming:
  assumes inv: "xm_inv contents queue_ok m r now s ea ee pa ps" and idle: "\<not> xm_isStreaming s" and can: "xm_canPullSomePacket ops s"
  shows "\<exists>p s'. xm_startStreaming conv ops now s = Some ([PushStart p], s') \<and> xm_inv contents queue_ok m r now s' ea ee pa ps"
proof -
  note d = xm_startStreaming_def xm_pullPacketStart_def xm_callSchedulePacket_def xm_schedulePacket_def Let_def
  have ph: "xm_inProgressGateIndex s = -1" "xm_streamedPacket s = None" "xm_timer s = None"
    "ts_streamedPacket (xm_expressStreamer s) = None" "pt_streamedPacket (xm_preemptableStreamer s) = None"
    using inv idle by (auto simp: xm_inv_def xm_phase_def xm_isStreaming_def)
  have ok: "queue_ok (xm_expressQueue s)" "queue_ok (xm_preemptableQueue s)" and ea: "ea = ee @ contents (xm_expressQueue s)"
    and tags: "\<forall>p \<in> set ea. fp_tag p = None"
    and pre: "preemptable_sent m r pa ps (pt_remainingPacket (xm_preemptableStreamer s)) (contents (xm_preemptableQueue s))"
    using inv ph by (auto simp: xm_inv_def xm_config_def express_pending_def current_packet_def)
  show ?thesis
  proof (cases "contents (xm_expressQueue s)")
    case (Cons p l)
    then obtain q where q: "po_pull ops (xm_expressQueue s) = Some (p, q)" "queue_ok q" "contents q = l" using pull[OF ok(1)] by blast
    have e: "xm_expressCanPull ops s" using Cons can_pull[OF ok(1)] ph by (simp add: xm_expressCanPull_def ts_canPullSomePacket_def ts_isStreaming_def)
    show ?thesis using inv q Cons ph ea e
      by (simp add: d ts_pullPacketStart_def xm_inv_def xm_config_def xm_phase_def express_pending_def current_packet_def)
  next
    case Nil
    then have ne: "\<not> xm_expressCanPull ops s" using can_pull[OF ok(1)] by (simp add: xm_expressCanPull_def ts_canPullSomePacket_def)
    then have pc: "xm_preemptableCanPull ops s" using can by (simp add: xm_canPullSomePacket_def)
    show ?thesis
    proof (cases "pt_remainingPacket (xm_preemptableStreamer s)")
      case (Some c)
      have "fp_tag c \<noteq> None" using sent_current_tagged[OF pre] Some by simp
      then have "tagged c = c" by (simp add: tagged_def)
      then show ?thesis using inv Some ph ea ne pc Nil
        by (simp add: d pt_pullPacketStart_def xm_inv_def xm_config_def xm_phase_def express_pending_def current_packet_def)
    next
      case None
      then have "contents (xm_preemptableQueue s) \<noteq> []" using pc can_pull[OF ok(2)] by (simp add: xm_preemptableCanPull_def pt_canPullSomePacket_def)
      then obtain p l where c: "contents (xm_preemptableQueue s) = p # l" by (auto simp: neq_Nil_conv)
      then obtain q where q: "po_pull ops (xm_preemptableQueue s) = Some (p, q)" "queue_ok q" "contents q = l" using pull[OF ok(2)] by blast
      have "preemptable_sent m r pa ps (Some (tagged p)) l" using pre None c frame_starts by simp
      then show ?thesis using inv None ph ea ne pc Nil q
        by (simp add: d pt_pullPacketStart_def xm_inv_def xm_config_def xm_phase_def express_pending_def current_packet_def)
    qed
  qed
qed

text \<open>The end of a packet, whatever the timer is.\<close>

lemma end_streaming:
  assumes inv: "xm_inv contents queue_ok m r now s ea ee pa ps" and st: "xm_isStreaming s"
  shows "\<exists>p s'. xm_endStreaming ops now (s\<lparr>xm_timer := tm\<rparr>) = Some ([PushEnd p], s'\<lparr>xm_timer := tm\<rparr>) \<and>
    xm_inv contents queue_ok m r now (s'\<lparr>xm_timer := None\<rparr>) ea (ee @ express_ended [PushEnd p]) pa (ps @ fragments_ended [PushEnd p])"
proof -
  note d = xm_endStreaming_def xm_pullPacketEnd_def ts_pullPacketEnd_def pt_pullPacketEnd_def Let_def
  have ph: "xm_phase now s" and ea: "ea = ee @ express_pending contents s" "\<forall>p \<in> set ea. fp_tag p = None"
    and pre: "preemptable_sent m r pa ps (current_packet (xm_preemptableStreamer s)) (contents (xm_preemptableQueue s))"
    and m: "pt_minPacketLength (xm_preemptableStreamer s) = m" "pt_roundingLength (xm_preemptableStreamer s) = r" "0 \<le> m" "0 < r" "0 < xm_datarate s"
    using inv by (auto simp: xm_inv_def xm_config_def)
  from ph st consider (express) p where "xm_inProgressGateIndex s = 0" "ts_streamedPacket (xm_expressStreamer s) = Some p"
      "pt_streamedPacket (xm_preemptableStreamer s) = None"
    | (preemptable) c where "xm_inProgressGateIndex s = 1" "pt_streamedPacket (xm_preemptableStreamer s) = Some c"
      "ts_streamedPacket (xm_expressStreamer s) = None" "pt_streamDatarate (xm_preemptableStreamer s) = Some (xm_datarate s)"
      "pt_streamStart (xm_preemptableStreamer s) \<le> now" "pt_remainingPacket (xm_preemptableStreamer s) = None"
    by (auto simp: xm_phase_def xm_isStreaming_def)
  then show ?thesis
  proof cases
    case express
    let ?s = "s\<lparr>xm_inProgressGateIndex := -1, xm_streamedPacket := None,
      xm_expressStreamer := (xm_expressStreamer s)\<lparr>ts_streamDatarate := None, ts_streamedPacket := None\<rparr>\<rparr>"
    have "fp_tag p = None" using ea express by (simp add: express_pending_def)
    then have "xm_inv contents queue_ok m r now (?s\<lparr>xm_timer := None\<rparr>) ea (ee @ express_ended [PushEnd p]) pa (ps @ fragments_ended [PushEnd p])"
      using inv express by (simp add: xm_inv_def xm_config_def xm_phase_def express_pending_def)
    moreover have "xm_endStreaming ops now (s\<lparr>xm_timer := tm\<rparr>) = Some ([PushEnd p], ?s\<lparr>xm_timer := tm\<rparr>)" using express by (simp add: d)
    ultimately show ?thesis by blast
  next
    case preemptable
    have cur: "preemptable_sent m r pa ps (Some c) (contents (xm_preemptableQueue s))" using pre preemptable by (simp add: current_packet_def)
    then obtain t where t: "fp_tag c = Some t" using sent_current_tagged by fastforce
    define n where "n = preempted_length m r
      (pulled_length (xm_datarate s) (now - pt_streamStart (xm_preemptableStreamer s)))"
    let ?t = "\<lambda>rp. (xm_preemptableStreamer s)\<lparr>pt_remainingPacket := rp, pt_streamedPacket := None\<rparr>"
    let ?s = "\<lambda>rp. s\<lparr>xm_inProgressGateIndex := -1, xm_streamedPacket := None, xm_preemptableStreamer := ?t rp\<rparr>"
    have "0 \<le> pulled_length (xm_datarate s) (now - pt_streamStart (xm_preemptableStreamer s))"
      using preemptable m by (simp add: pulled_length_def)
    from preempted_length_bounds[OF m(4) this m(3)] have n: "m \<le> n" "n = m \<or> r dvd n" unfolding n_def by blast+
    have inv': "xm_inv contents queue_ok m r now ((?s rp)\<lparr>xm_timer := None\<rparr>) ea ee pa ps'"
      if "preemptable_sent m r pa ps' rp (contents (xm_preemptableQueue s))" for rp ps'
      using inv preemptable that by (simp add: xm_inv_def xm_config_def xm_phase_def express_pending_def current_packet_def)
    show ?thesis
    proof (cases "n + m \<le> int (length (fp_data c))")
      case True
      have "preemptable_sent m r pa (ps @ [sent_part c t (nat n)]) (Some (remaining_part c t (nat n))) (contents (xm_preemptableQueue s))"
        by (rule fragment_sent[OF cur t]) (use n m True in simp_all)
      from inv'[OF this] have "xm_inv contents queue_ok m r now ((?s (Some (remaining_part c t (nat n))))\<lparr>xm_timer := None\<rparr>) ea
          (ee @ express_ended [PushEnd (sent_part c t (nat n))]) pa (ps @ fragments_ended [PushEnd (sent_part c t (nat n))])"
        by (simp add: sent_part_def)
      moreover have "xm_endStreaming ops now (s\<lparr>xm_timer := tm\<rparr>) =
          Some ([PushEnd (sent_part c t (nat n))], (?s (Some (remaining_part c t (nat n))))\<lparr>xm_timer := tm\<rparr>)"
        using preemptable True t m by (simp add: d n_def)
      ultimately show ?thesis by blast
    next
      case False
      have "preemptable_sent m r pa (ps @ [c]) None (contents (xm_preemptableQueue s))" by (rule frame_sent[OF cur])
      from inv'[OF this] have "xm_inv contents queue_ok m r now ((?s None)\<lparr>xm_timer := None\<rparr>) ea
          (ee @ express_ended [PushEnd c]) pa (ps @ fragments_ended [PushEnd c])" using t by simp
      moreover have "xm_endStreaming ops now (s\<lparr>xm_timer := tm\<rparr>) = Some ([PushEnd c], (?s None)\<lparr>xm_timer := tm\<rparr>)"
        using preemptable False m by (simp add: d n_def)
      ultimately show ?thesis by blast
    qed
  qed
qed

end

lemma xm_inv_later: "xm_inv contents queue_ok m r t s ea ee pa ps \<Longrightarrow> t \<le> now \<Longrightarrow> xm_inv contents queue_ok m r now s ea ee pa ps"
  by (auto simp: xm_inv_def xm_phase_def)

context frame_provider
begin

lemma can_pull_changed:
  assumes inv: "xm_inv contents queue_ok m r now s ea ee pa ps"
  shows "\<exists>out s'. xm_handleCanPullPacketChanged conv ops now ready s = Some (out, s') \<and>
    xm_inv contents queue_ok m r now s' ea (ee @ express_ended out) pa (ps @ fragments_ended out)"
proof (cases "xm_isStreaming s")
  case True
  from end_streaming[OF inv True, of "xm_timer s"] obtain p s' where
    "xm_endStreaming ops now s = Some ([PushEnd p], s'\<lparr>xm_timer := xm_timer s\<rparr>)"
    "xm_inv contents queue_ok m r now (s'\<lparr>xm_timer := None\<rparr>) ea (ee @ express_ended [PushEnd p]) pa (ps @ fragments_ended [PushEnd p])" by auto
  then show ?thesis using True by (simp add: xm_handleCanPullPacketChanged_def)
next
  case idle: False
  show ?thesis
  proof (cases "xm_canStartStreaming ops ready s")
    case True
    from start_streaming[OF inv idle, of conv] True obtain p s' where "xm_startStreaming conv ops now s = Some ([PushStart p], s')"
      "xm_inv contents queue_ok m r now s' ea ee pa ps" by (auto simp: xm_canStartStreaming_def)
    then show ?thesis using idle True by (simp add: xm_handleCanPullPacketChanged_def)
  qed (use inv idle in \<open>simp add: xm_handleCanPullPacketChanged_def\<close>)
qed

lemma scheduler_notified:
  assumes inv: "xm_inv contents queue_ok m r now s ea ee pa ps"
  shows "\<exists>out s'. xm_scheduler_notified conv ops now ready s = Some (out, s') \<and>
    xm_inv contents queue_ok m r now s' ea (ee @ express_ended out) pa (ps @ fragments_ended out)"
proof (cases "xm_inProgressGateIndex s = -1")
  case False
  then have "xm_inProgressGateIndex s = 0 \<or> xm_inProgressGateIndex s = 1" using inv by (auto simp: xm_inv_def xm_phase_def)
  then obtain i where "xm_callSchedulePacket ops s = Some i" by (auto simp: xm_callSchedulePacket_def xm_schedulePacket_def Let_def)
  then show ?thesis using False inv can_pull_changed[OF inv, of conv ready] by (simp add: xm_scheduler_notified_def)
qed (use can_pull_changed[OF inv] in \<open>simp add: xm_scheduler_notified_def\<close>)

lemma step_inv:
  assumes inv: "xm_inv contents queue_ok m r now s ea ee pa ps" and ev: "xm_event_ok busy (xm_isStreaming s) e"
    and tm: "e = ServerTimer \<longrightarrow> xm_timer s \<noteq> None" and tags: "\<forall>p \<in> set (express_arrived ops e). fp_tag p = None"
  shows "\<exists>out s'. xm_step conv ops now e s = Some (out, s') \<and> xm_inv contents queue_ok m r now s' (ea @ express_arrived ops e)
    (ee @ express_ended out) (pa @ preemptable_arrived ops e) (ps @ fragments_ended out)"
proof (cases e)
  case (ExpressPacket p ready)
  have "queue_ok (xm_expressQueue s)" using inv by (simp add: xm_inv_def xm_config_def)
  then obtain q where q: "po_push ops p (xm_expressQueue s) = Some (True, q)" "queue_ok q"
    "contents q = contents (xm_expressQueue s) @ [po_frame ops p]" using push by blast
  have "xm_inv contents queue_ok m r now (s\<lparr>xm_expressQueue := q\<rparr>) (ea @ [po_frame ops p]) ee pa ps"
    using inv q tags ExpressPacket by (simp add: xm_inv_def xm_config_def xm_phase_def express_pending_def)
  from scheduler_notified[OF this, of conv ready] this show ?thesis using ExpressPacket q
    by (cases "ts_isStreaming (xm_expressStreamer s)") (auto simp: Let_def)
next
  case (PreemptablePacket p ready)
  have "queue_ok (xm_preemptableQueue s)" using inv by (simp add: xm_inv_def xm_config_def)
  then obtain q where q: "po_push ops p (xm_preemptableQueue s) = Some (True, q)" "queue_ok q"
    "contents q = contents (xm_preemptableQueue s) @ [po_frame ops p]" using push by blast
  have "xm_inv contents queue_ok m r now (s\<lparr>xm_preemptableQueue := q\<rparr>) ea ee (pa @ [po_frame ops p]) ps"
    using inv q frame_arrives by (simp add: xm_inv_def xm_config_def xm_phase_def express_pending_def)
  from scheduler_notified[OF this, of conv ready] this show ?thesis using PreemptablePacket q
    by (cases "pt_isStreaming (xm_preemptableStreamer s)") (auto simp: Let_def)
next
  case ServerTimer
  then have "xm_isStreaming s" using inv tm by (auto simp: xm_inv_def xm_phase_def xm_isStreaming_def)
  from end_streaming[OF inv this, of None] show ?thesis using ServerTimer by (auto simp: xm_handleTimer_def)
next
  case (ConsumerChanged ready)
  show ?thesis
  proof (cases "\<not> xm_isStreaming s \<and> xm_canStartStreaming ops ready s")
    case True
    from start_streaming[OF inv, of conv] True obtain p s' where "xm_startStreaming conv ops now s = Some ([PushStart p], s')"
      "xm_inv contents queue_ok m r now s' ea ee pa ps" by (auto simp: xm_canStartStreaming_def)
    then show ?thesis using ConsumerChanged True by (simp add: xm_handleCanPushPacketChanged_def)
  next
    case False
    then have "xm_step conv ops now e s = Some ([], s)" using ConsumerChanged by (auto simp: xm_handleCanPushPacketChanged_def)
    then show ?thesis using ConsumerChanged inv by simp
  qed
next
  case ConsumerProcessed
  then have "xm_step conv ops now e s = Some ([], s)" using ev by (simp add: xm_handlePushPacketProcessed_def)
  then show ?thesis using ConsumerProcessed inv by simp
qed

end

definition arrivals :: "('p xm_event \<Rightarrow> fpacket list) \<Rightarrow> (simtime \<times> 'p xm_event) list \<Rightarrow> fpacket list" where
  "arrivals f es = concat (map (\<lambda>(t, e). f e) es)"

lemma arrivals_simps [simp]: "arrivals f [] = []" "arrivals f ((t, e) # es) = f e @ arrivals f es"
  by (simp_all add: arrivals_def)

lemma ended_append [simp]:
  "express_ended (a @ b) = express_ended a @ express_ended b" "fragments_ended (a @ b) = fragments_ended a @ fragments_ended b"
  by (simp_all add: express_ended_def fragments_ended_def ended_packets_def)

context frame_provider
begin

lemma run_inv:
  assumes "xm_inv contents queue_ok m r t s ea ee pa ps" "xm_schedule conv ops t busy es s"
    and "\<forall>p \<in> set (arrivals (express_arrived ops) es). fp_tag p = None"
  shows "\<exists>outs s'. xm_run conv ops es s = Some (outs, s') \<and>
    xm_inv contents queue_ok m r (last (t # map fst es)) s' (ea @ arrivals (express_arrived ops) es) (ee @ express_ended (map snd outs))
      (pa @ arrivals (preemptable_arrived ops) es) (ps @ fragments_ended (map snd outs))"
  using assms
proof (induction es arbitrary: t busy s ea ee pa ps)
  case (Cons ev es)
  obtain now e where ev: "ev = (now, e)" by (cases ev)
  have l: "t \<le> now" "xm_event_ok busy (xm_isStreaming s) e" "e = ServerTimer \<longrightarrow> xm_timer s \<noteq> None"
    using Cons.prems(2) by (auto simp: ev split: option.splits)
  have tags: "\<forall>p \<in> set (express_arrived ops e). fp_tag p = None" "\<forall>p \<in> set (arrivals (express_arrived ops) es). fp_tag p = None"
    using Cons.prems(3) by (auto simp: ev)
  from step_inv[OF xm_inv_later[OF Cons.prems(1) l(1)] l(2,3) tags(1), of conv] obtain out s1 where
    s1: "xm_step conv ops now e s = Some (out, s1)" "xm_inv contents queue_ok m r now s1 (ea @ express_arrived ops e)
      (ee @ express_ended out) (pa @ preemptable_arrived ops e) (ps @ fragments_ended out)" by blast
  have "xm_schedule conv ops now (consumer_busy out e busy) es s1" using Cons.prems(2) s1(1) by (simp add: ev)
  from Cons.IH[OF s1(2) this tags(2)] s1(1) show ?case by (auto simp: ev o_def)
next
  case Nil
  then show ?case by auto
qed

end

text \<open>A packet queue without a comparator and without limits is such a provider.\<close>

definition frame_queue :: "int \<Rightarrow> (qpacket \<Rightarrow> fpacket) \<Rightarrow> (packetq, qpacket) provider_ops" where
  "frame_queue moduleId frame =
     \<lparr>po_canPull = (\<lambda>q. pq_canPullPacket q \<noteq> None),
      po_pull = (\<lambda>q. map_option (map_prod frame id) (pq_pullPacket q)),
      po_push = (\<lambda>p q. map_option snd (pq_pushPacket fifo_insert moduleId p q)),
      po_frame = frame\<rparr>"

definition unlimited :: "packetq \<Rightarrow> bool" where
  "unlimited q \<longleftrightarrow> pq_packetCapacity q = -1 \<and> pq_dataCapacity q = -1 \<and> pq_dropper q = None"

interpretation frames: frame_provider "frame_queue moduleId frame" "\<lambda>q. map frame (pq_queue q)" unlimited for moduleId frame
proof unfold_locales
  fix q x assume q: "unlimited q"
  show "po_canPull (frame_queue moduleId frame) q \<longleftrightarrow> map frame (pq_queue q) \<noteq> []"
    by (simp add: frame_queue_def pq_canPullPacket_def pq_getNumPackets_def pq_getPacket_def)
  show "\<exists>q'. po_push (frame_queue moduleId frame) x q = Some (True, q') \<and> unlimited q' \<and>
      map frame (pq_queue q') = map frame (pq_queue q) @ [po_frame (frame_queue moduleId frame) x]"
    using q by (simp add: frame_queue_def pq_pushPacket_def pq_drop_loop_def unlimited_def pq_isOverloaded_def fifo_insert_def pq_getNumPackets_def)
next
  fix q p ps assume "unlimited q" "map frame (pq_queue q) = p # ps"
  then show "\<exists>q'. po_pull (frame_queue moduleId frame) q = Some (p, q') \<and> unlimited q' \<and> map frame (pq_queue q') = ps"
    by (cases "pq_queue q") (simp_all add: frame_queue_def pq_pullPacket_def unlimited_def)
qed

text \<open>The state before the first packet.\<close>

definition xm_start :: "packetq preempting_mac \<Rightarrow> bool" where
  "xm_start s \<longleftrightarrow> xm_config unlimited s \<and> pq_queue (xm_expressQueue s) = [] \<and> pq_queue (xm_preemptableQueue s) = [] \<and>
     xm_inProgressGateIndex s = -1 \<and> xm_streamedPacket s = None \<and> xm_timer s = None \<and>
     ts_streamedPacket (xm_expressStreamer s) = None \<and> pt_streamedPacket (xm_preemptableStreamer s) = None \<and>
     pt_remainingPacket (xm_preemptableStreamer s) = None"

lemma xm_start_inv:
  "xm_start s \<Longrightarrow> xm_inv (\<lambda>q. map frame (pq_queue q)) unlimited (pt_minPacketLength (xm_preemptableStreamer s)) (pt_roundingLength (xm_preemptableStreamer s)) t s [] [] [] []"
  by (simp add: xm_start_def xm_inv_def xm_phase_def express_pending_def current_packet_def sent_nothing)

lemma sending_side_base:
  fixes frame moduleId
  defines "ops \<equiv> frame_queue moduleId frame"
  assumes "xm_start s" "xm_schedule conv ops t busy es s" "\<forall>p \<in> set (arrivals (express_arrived ops) es). fp_tag p = None"
  shows "\<exists>outs s'. xm_run conv ops es s = Some (outs, s') \<and>
    xm_inv (\<lambda>q. map frame (pq_queue q)) unlimited (pt_minPacketLength (xm_preemptableStreamer s)) (pt_roundingLength (xm_preemptableStreamer s)) (last (t # map fst es)) s'
      (arrivals (express_arrived ops) es) (express_ended (map snd outs))
      (arrivals (preemptable_arrived ops) es) (fragments_ended (map snd outs))"
  using frames.run_inv[OF xm_start_inv[OF assms(2)]] assms(3,4) unfolding ops_def by fastforce

lemma schedule_split:
  "xm_schedule conv ops t busy (es @ es') s \<Longrightarrow> xm_run conv ops es s = Some (outs, s') \<Longrightarrow>
   xm_schedule conv ops t busy es s \<and> (\<exists>busy'. xm_schedule conv ops (last (t # map fst es)) busy' es' s')"
proof (induction es arbitrary: t busy s outs)
  case (Cons ev es)
  obtain now e where ev: "ev = (now, e)" by (cases ev)
  obtain out s1 outs' where s1: "xm_step conv ops now e s = Some (out, s1)" "xm_run conv ops es s1 = Some (outs', s')"
    using Cons.prems(2) by (auto simp: ev bind_eq_Some_conv)
  from Cons.IH[OF _ s1(2), of now "consumer_busy out e busy"] Cons.prems(1) show ?case by (auto simp: ev s1)
qed auto

text \<open>
  C4. The sending side of the preempting MAC never fails: in every legal course of events, from the start, no handler throws
  or touches a packet that is not there; the express packets are sent whole and in the order of their arrival, and the
  fragments that are sent are those of the preemptable packets in the order of their arrival.
\<close>

theorem preempting_mac_conserves_frames:
  fixes frame moduleId
  defines "ops \<equiv> frame_queue moduleId frame"
  assumes "xm_start s" "xm_schedule conv ops t False es s" "\<forall>p \<in> set (arrivals (express_arrived ops) es). fp_tag p = None"
  shows "\<exists>outs s'. xm_run conv ops es s = Some (outs, s') \<and>
    arrivals (express_arrived ops) es = express_ended (map snd outs) @ express_pending (\<lambda>q. map frame (pq_queue q)) s' \<and>
    preemptable_sent (pt_minPacketLength (xm_preemptableStreamer s)) (pt_roundingLength (xm_preemptableStreamer s)) (arrivals (preemptable_arrived ops) es) (fragments_ended (map snd outs))
      (current_packet (xm_preemptableStreamer s')) (map frame (pq_queue (xm_preemptableQueue s')))"
  using sending_side_base[OF assms(2), of conv moduleId frame t False es] assms(3,4) unfolding ops_def xm_inv_def by blast

lemma preempted_packet_bound:
  assumes "pt_streamedPacket s = Some c" "pt_streamDatarate s = Some r" "fp_tag c = Some tag" "0 < pt_roundingLength s"
    "0 \<le> pulled_length r (now - pt_streamStart s)" "0 \<le> pt_minPacketLength s"
  shows "\<exists>f s'. pt_pullPacketEnd now s = Some (f, s') \<and> int (length (fp_data f)) \<le>
    max (pt_minPacketLength s) (pulled_length r (now - pt_streamStart s) + pt_roundingLength s - 1) + pt_minPacketLength s"
proof -
  let ?n = "preempted_length (pt_minPacketLength s) (pt_roundingLength s) (pulled_length r (now - pt_streamStart s))"
  show ?thesis using assms(1-3) preempted_length_bounds[OF assms(4-6)] assms(6)
    by (cases "?n + pt_minPacketLength s \<le> int (length (fp_data c))") (simp_all add: pt_pullPacketEnd_def sent_part_def Let_def)
qed

text \<open>
  C5. An express packet waits for one fragment at most: when it arrives while a preemptable packet is sent, the fragment ends
  with no more bits than those pulled so far, rounded up, or the minimum, and a rest too short for another fragment; and the
  express packet, or one that waited before it, is the next packet that starts.
\<close>

theorem express_waits_for_one_fragment:
  fixes frame moduleId
  defines "ops \<equiv> frame_queue moduleId frame"
  assumes "xm_start s0" "xm_schedule conv ops t False (es @ [(now, ExpressPacket p ready)]) s0"
    and "\<forall>p \<in> set (arrivals (express_arrived ops) es). fp_tag p = None"
    and "xm_run conv ops es s0 = Some (outs, s)" "xm_inProgressGateIndex s = 1"
  shows "\<exists>f s'. xm_step conv ops now (ExpressPacket p ready) s = Some ([PushEnd f], s') \<and>
    (let m = pt_minPacketLength (xm_preemptableStreamer s); r = pt_roundingLength (xm_preemptableStreamer s);
         pulled = pulled_length (xm_datarate s) (now - pt_streamStart (xm_preemptableStreamer s))
     in int (length (fp_data f)) \<le> max m (pulled + r - 1) + m) \<and>
    (\<forall>later. \<exists>s''. xm_step conv ops later (ConsumerChanged True) s' =
       Some ([PushStart (hd (map frame (pq_queue (xm_expressQueue s)) @ [frame p]))], s''))"
proof -
  obtain busy' where sch: "xm_schedule conv ops t False es s0" "xm_schedule conv ops (last (t # map fst es)) busy' [(now, ExpressPacket p ready)] s"
    using schedule_split[OF assms(3,5)] by blast
  have inv: "xm_inv (\<lambda>q. map frame (pq_queue q)) unlimited (pt_minPacketLength (xm_preemptableStreamer s0)) (pt_roundingLength (xm_preemptableStreamer s0)) now s
      (arrivals (express_arrived ops) es) (express_ended (map snd outs)) (arrivals (preemptable_arrived ops) es) (fragments_ended (map snd outs))"
    using sending_side_base[OF assms(2), of conv moduleId frame t False es] sch assms(4,5) xm_inv_later unfolding ops_def by fastforce
  define sp where "sp = xm_preemptableStreamer s"
  from inv assms(6) obtain c where c: "pt_streamedPacket sp = Some c" "pt_streamDatarate sp = Some (xm_datarate s)"
    "pt_streamStart sp \<le> now" "ts_streamedPacket (xm_expressStreamer s) = None" "xm_streamedPacket s \<noteq> None"
    by (auto simp: xm_inv_def xm_phase_def sp_def)
  have cfg: "unlimited (xm_expressQueue s)" "0 \<le> pt_minPacketLength sp" "0 < pt_roundingLength sp" "0 < xm_datarate s"
    using inv by (simp_all add: xm_inv_def xm_config_def sp_def)
  obtain tag where tag: "fp_tag c = Some tag"
    using inv c sent_current_tagged by (fastforce simp: xm_inv_def current_packet_def sp_def)
  obtain q where q: "po_push ops p (xm_expressQueue s) = Some (True, q)" "unlimited q" "map frame (pq_queue q) = map frame (pq_queue (xm_expressQueue s)) @ [frame p]"
    using frames.push[OF cfg(1), of moduleId frame p] by (auto simp: ops_def frame_queue_def)
  let ?pulled = "pulled_length (xm_datarate s) (now - pt_streamStart sp)"
  have pulled: "0 \<le> ?pulled" using c cfg by (simp add: pulled_length_def)
  have can: "ts_canPullSomePacket (po_canPull ops q) e" if "ts_streamedPacket e = None" for e
    using that frames.can_pull[OF q(2), of moduleId frame] q(3) by (simp add: ts_canPullSomePacket_def ts_isStreaming_def ops_def)
  define s1 where "s1 = s\<lparr>xm_expressQueue := q\<rparr>"
  from preempted_packet_bound[OF c(1,2) tag cfg(3) pulled cfg(2)] obtain f sp' where e: "pt_pullPacketEnd now sp = Some (f, sp')"
    "int (length (fp_data f)) \<le> max (pt_minPacketLength sp) (?pulled + pt_roundingLength sp - 1) + pt_minPacketLength sp" by blast
  define s' where "s' = s1\<lparr>xm_inProgressGateIndex := -1, xm_preemptableStreamer := sp', xm_streamedPacket := None, xm_timer := None\<rparr>"
  have step: "xm_step conv ops now (ExpressPacket p ready) s = Some ([PushEnd f], s')"
    using q(1) c(4,5) can assms(6) e(1)
    by (simp add: ts_isStreaming_def xm_scheduler_notified_def xm_callSchedulePacket_def xm_schedulePacket_def xm_expressCanPull_def
        xm_handleCanPullPacketChanged_def xm_isStreaming_def xm_endStreaming_def xm_pullPacketEnd_def Let_def sp_def s1_def s'_def)
  have "\<exists>s''. xm_step conv ops later (ConsumerChanged True) s' = Some ([PushStart (hd (map frame (pq_queue (xm_expressQueue s)) @ [frame p]))], s'')" for later
  proof -
    obtain p' l where l: "map frame (pq_queue (xm_expressQueue s)) @ [frame p] = p' # l" by (cases "map frame (pq_queue (xm_expressQueue s)) @ [frame p]") auto
    have "map frame (pq_queue q) = p' # l" using q(3) l by simp
    from frames.pull[OF q(2) this] obtain q' where "po_pull ops q = Some (p', q')" unfolding ops_def by blast
    then show ?thesis using can c(4) unfolding l
      by (simp add: xm_handleCanPushPacketChanged_def xm_isStreaming_def xm_canStartStreaming_def xm_canPullSomePacket_def xm_expressCanPull_def
          xm_startStreaming_def xm_pullPacketStart_def xm_callSchedulePacket_def xm_schedulePacket_def ts_pullPacketStart_def Let_def s'_def s1_def)
  qed
  with step e(2) show ?thesis by (auto simp: Let_def sp_def)
qed

section \<open>The fragments\<close>

text \<open>
  The fragments that were sent so far, by the frames they belong to: \<open>group k p parts rest\<close> holds when \<open>parts\<close> are the first
  \<open>k\<close> fragments of the frame \<open>p\<close> and \<open>rest\<close> is what is left of it.
\<close>

fun tags_from :: "nat \<Rightarrow> fpacket list \<Rightarrow> bool" where
  "tags_from k [] \<longleftrightarrow> True"
| "tags_from k (f # fs) \<longleftrightarrow> (\<exists>t. fp_tag f = Some t \<and> ft_fragmentNumber t = int k \<and> ft_firstFragment t = (k = 0) \<and>
     ft_lastFragment t = (fs = [])) \<and> tags_from (k + 1) fs"

fun open_tags :: "nat \<Rightarrow> fpacket list \<Rightarrow> bool" where
  "open_tags k [] \<longleftrightarrow> True"
| "open_tags k (f # fs) \<longleftrightarrow> (\<exists>t. fp_tag f = Some t \<and> ft_fragmentNumber t = int k \<and> ft_firstFragment t = (k = 0) \<and>
     \<not> ft_lastFragment t) \<and> open_tags (k + 1) fs"

lemma open_tags_append: "open_tags k (xs @ ys) \<longleftrightarrow> open_tags k xs \<and> open_tags (k + length xs) ys"
  by (induction xs arbitrary: k) auto

lemma open_tags_close:
  "open_tags k xs \<Longrightarrow> fp_tag c = Some t \<Longrightarrow> ft_fragmentNumber t = int (k + length xs) \<Longrightarrow>
   ft_firstFragment t = (k + length xs = 0) \<Longrightarrow> ft_lastFragment t \<Longrightarrow> tags_from k (xs @ [c])"
  by (induction xs arbitrary: k) auto

definition fragments_of :: "int \<Rightarrow> fpacket \<Rightarrow> fpacket list \<Rightarrow> bool" where
  "fragments_of m p fs \<longleftrightarrow> fs \<noteq> [] \<and> tags_from 0 fs \<and> concat (map fp_data fs) = fp_data p \<and>
     fp_name (hd fs) \<in> {fp_name p, fp_name p @ ''-frag'' @ to_string 0} \<and>
     (length fs = 1 \<or> (\<forall>f \<in> set fs. m \<le> int (length (fp_data f))))"

definition rest_of :: "int \<Rightarrow> fpacket \<Rightarrow> fpacket list \<Rightarrow> fpacket \<Rightarrow> bool" where
  "rest_of m p fs c \<longleftrightarrow> open_tags 0 fs \<and> concat (map fp_data fs) @ fp_data c = fp_data p \<and>
     fp_name (hd (fs @ [c])) = (if fs = [] then fp_name p else fp_name p @ ''-frag'' @ to_string 0) \<and>
     (\<exists>t. fp_tag c = Some t \<and> ft_fragmentNumber t = int (length fs) \<and> ft_firstFragment t = (fs = []) \<and> ft_lastFragment t) \<and>
     (\<forall>f \<in> set fs. m \<le> int (length (fp_data f))) \<and> (fs \<noteq> [] \<longrightarrow> m \<le> int (length (fp_data c)))"

lemma rest_of_start: "fp_tag p = None \<Longrightarrow> rest_of m p [] (tagged p)"
  by (simp add: rest_of_def tagged_def whole_packet_def)

lemma rest_of_cut:
  assumes "rest_of m p fs c" "fp_tag c = Some t" "m \<le> int n" "int n + m \<le> int (length (fp_data c))" "0 \<le> m"
  shows "rest_of m p (fs @ [sent_part c t n]) (remaining_part c t n)"
proof (cases "fs = []")
  case True
  then show ?thesis using assms by (auto simp: rest_of_def sent_part_def remaining_part_def new_packet_def base_name_def min_def)
next
  case False
  then show ?thesis using assms by (auto simp: rest_of_def open_tags_append sent_part_def remaining_part_def new_packet_def min_def)
qed

lemma rest_of_end: "rest_of m p fs c \<Longrightarrow> fragments_of m p (fs @ [c])"
  by (auto simp: rest_of_def fragments_of_def intro: open_tags_close split: if_splits)

text \<open>When frames and lengths are multiples of \<open>k\<close> bits, so are all fragments.\<close>

lemma sent_aligned:
  assumes "preemptable_sent m r arrived sent cur wait" "k dvd m" "k dvd r" "0 \<le> m" "\<forall>p \<in> set arrived. k dvd int (length (fp_data p))"
  shows "(\<forall>f \<in> set sent. k dvd int (length (fp_data f))) \<and> (\<forall>c. cur = Some c \<longrightarrow> k dvd int (length (fp_data c))) \<and>
    (\<forall>p \<in> set wait. k dvd int (length (fp_data p)))"
  using assms
proof (induction rule: preemptable_sent.induct)
  case (frame_starts arrived sent p wait)
  then show ?case by (auto simp: tagged_def)
next
  case (fragment_sent arrived sent c wait t n)
  then have n: "k dvd int n" "k dvd int (length (fp_data c))" "n \<le> length (fp_data c)" by (auto intro: dvd_trans)
  then have "k dvd int (length (fp_data c) - n)" by (simp add: of_nat_diff dvd_diff)
  then show ?case using fragment_sent n by (auto simp: sent_part_def remaining_part_def new_packet_def min_def)
qed auto

text \<open>Every course of preemptable frames: whole frames in order, then the fragments of the current one.\<close>

lemma sent_groups:
  assumes "preemptable_sent m r arrived sent cur wait" "0 \<le> m" "\<forall>p \<in> set arrived. fp_tag p = None"
  shows "\<exists>finished groups parts. list_all2 (fragments_of m) finished groups \<and> sent = concat groups @ parts \<and>
    (case cur of None \<Rightarrow> parts = [] \<and> arrived = finished @ wait
     | Some c \<Rightarrow> \<exists>p. rest_of m p parts c \<and> arrived = finished @ p # wait)"
  using assms
proof (induction rule: preemptable_sent.induct)
  case sent_nothing
  then show ?case by (intro exI[of _ "[]"]) simp
next
  case (frame_arrives arrived sent cur wait p)
  then show ?case by (cases cur) fastforce+
next
  case (frame_starts arrived sent p wait)
  then obtain fin groups where "list_all2 (fragments_of m) fin groups" "sent = concat groups" "arrived = fin @ p # wait" by auto
  moreover from this have "rest_of m p [] (tagged p)" using frame_starts.prems(2) by (intro rest_of_start) simp
  ultimately show ?case by (intro exI[of _ fin] exI[of _ groups] exI[of _ "[]"]) auto
next
  case (fragment_sent arrived sent c wait t n)
  then obtain fin groups parts p where "list_all2 (fragments_of m) fin groups" "sent = concat groups @ parts" "rest_of m p parts c"
    "arrived = fin @ p # wait" by auto
  then show ?case using rest_of_cut fragment_sent by (intro exI[of _ fin] exI[of _ groups] exI[of _ "parts @ [sent_part c t n]"]) auto
next
  case (frame_sent arrived sent c wait)
  then obtain fin groups parts p where "list_all2 (fragments_of m) fin groups" "sent = concat groups @ parts" "rest_of m p parts c"
    "arrived = fin @ p # wait" by auto
  then show ?case using rest_of_end by (intro exI[of _ "fin @ [p]"] exI[of _ "groups @ [parts @ [c]]"] exI[of _ "[]"]) (auto intro: list_all2_appendI)
qed

text \<open>
  C33. The fragments are well formed: for every legal course of events the fragments that were sent are, frame by frame in the
  order of arrival, numbered from 0, marked as the first and the last, of at least the minimum length unless the frame was
  sent whole, and made up of the bits of the frame; what was sent of the current frame and its rest make up that frame.
\<close>

theorem preempted_fragments_well_formed:
  fixes frame moduleId
  defines "ops \<equiv> frame_queue moduleId frame"
  assumes "xm_start s" "xm_schedule conv ops t False es s" "\<forall>p. fp_tag (po_frame ops p) = None"
    and "xm_run conv ops es s = Some (outs, s')"
  defines "m \<equiv> pt_minPacketLength (xm_preemptableStreamer s)"
  shows "\<exists>finished groups parts. list_all2 (fragments_of m) finished groups \<and>
    fragments_ended (map snd outs) = concat groups @ parts \<and>
    (case current_packet (xm_preemptableStreamer s') of
       None \<Rightarrow> parts = [] \<and> arrivals (preemptable_arrived ops) es = finished @ map frame (pq_queue (xm_preemptableQueue s'))
     | Some c \<Rightarrow> \<exists>p. rest_of m p parts c \<and>
         arrivals (preemptable_arrived ops) es = finished @ p # map frame (pq_queue (xm_preemptableQueue s')))"
proof -
  have ev: "\<forall>q \<in> set (express_arrived ops e) \<union> set (preemptable_arrived ops e). fp_tag q = None" for e
    using assms(4) by (cases e) simp_all
  then have un: "\<forall>q \<in> set (arrivals (express_arrived ops) es). fp_tag q = None" "\<forall>q \<in> set (arrivals (preemptable_arrived ops) es). fp_tag q = None"
    by (fastforce simp: arrivals_def)+
  have "preemptable_sent m (pt_roundingLength (xm_preemptableStreamer s)) (arrivals (preemptable_arrived ops) es) (fragments_ended (map snd outs))
      (current_packet (xm_preemptableStreamer s')) (map frame (pq_queue (xm_preemptableQueue s')))"
    using sending_side_base[OF assms(2), of conv moduleId frame t False es] assms(3,5) un(1) by (auto simp: xm_inv_def ops_def m_def)
  moreover have "0 \<le> m" using assms(2) by (simp add: xm_start_def xm_config_def m_def)
  ultimately show ?thesis using sent_groups un(2) by blast
qed

section \<open>Streaming and the server\<close>

text \<open>A packet that is streamed without a data rate comes out of a destreamer unchanged.\<close>

lemma stream_destream:
  assumes "ts_datarate s = None" "\<not> ts_isStreaming s"
  shows "\<exists>s'. ts_pushPacket conv now p s = Some ([PushStart p, PushEnd p], s') \<and> \<not> ts_isStreaming s' \<and>
    fst (dt_pushPacketEnd p (dt_pushPacketStart p r d)) = p \<and> \<not> dt_isStreaming (snd (dt_pushPacketEnd p (dt_pushPacketStart p r d)))"
  using assms by (simp add: ts_pushPacket_def ts_isStreaming_def ts_endStreaming_def dt_pushPacketEnd_def dt_isStreaming_def Let_def)

text \<open>
  A consumer that has processed the packet before the server's timer: the handler ends the stream but leaves the timer
  scheduled, and the next start throws.
\<close>

lemma processed_leaves_timer:
  assumes "xm_isStreaming s" "xm_timer s \<noteq> None" "xm_handlePushPacketProcessed ops now s = Some (out, s')"
  shows "xm_timer s' = xm_timer s \<and> xm_startStreaming conv ops later s' = None"
proof -
  have t: "xm_timer s' = xm_timer s"
    using assms by (auto simp: xm_handlePushPacketProcessed_def xm_pullPacketEnd_def bind_eq_Some_conv split: if_splits)
  have "xm_timer u = xm_timer s'" if "xm_pullPacketStart ops later s' = Some (p, u)" for p u
    using that by (auto simp: xm_pullPacketStart_def bind_eq_Some_conv split: if_splits)
  then show ?thesis using t assms(2) by (cases "xm_pullPacketStart ops later s'") (auto simp: xm_startStreaming_def)
qed

section \<open>A concrete course of events\<close>

definition bit_packet :: "nat \<Rightarrow> int \<Rightarrow> qpacket" where
  "bit_packet i len = \<lparr>qk_id = i, qk_dataLength = len, qk_totalLength = len, qk_creationTime = 0, qk_bytes = [],
     qk_userPriorityReq = None, qk_userPriorityInd = None, qk_labels = None\<rparr>"

definition bit_frame :: "qpacket \<Rightarrow> fpacket" where
  "bit_frame p = (new_packet ''p'')\<lparr>fp_data := replicate (nat (qk_dataLength p)) True\<rparr>"

definition empty_queue :: packetq where
  "empty_queue = \<lparr>pq_packetCapacity = -1, pq_dataCapacity = -1, pq_queue = [], pq_dropper = None,
     pq_numPulledPackets = 0, pq_numRemovedPackets = 0, pq_numDroppedPackets = 0\<rparr>"

definition example_mac :: "packetq preempting_mac" where
  "example_mac =
     \<lparr>xm_expressQueue = empty_queue,
      xm_expressStreamer = \<lparr>ts_datarate = None, ts_streamDatarate = None, ts_streamedPacket = None, ts_endStreamingTimer = None\<rparr>,
      xm_preemptableQueue = empty_queue,
      xm_preemptableStreamer = \<lparr>pt_datarate = None, pt_minPacketLength = 4, pt_roundingLength = 2, pt_streamStart = 0,
        pt_streamDatarate = None, pt_streamedPacket = None, pt_remainingPacket = None, pt_endStreamingTimer = None\<rparr>,
      xm_inProgressGateIndex = -1, xm_datarate = 10 ^ 12, xm_fragmentFcsLength = 2, xm_streamedPacket = None, xm_timer = None\<rparr>"

definition bit_times :: "real \<Rightarrow> int" where
  "bit_times x = \<lfloor>x * 10 ^ 12\<rfloor>"

definition example_events :: "(simtime \<times> qpacket xm_event) list" where
  "example_events =
     [(0, PreemptablePacket (bit_packet 1 12) True), (5, ExpressPacket (bit_packet 2 3) False), (8, ConsumerProcessed),
      (9, ConsumerChanged True), (12, ServerTimer), (13, ConsumerProcessed), (14, ConsumerChanged True), (22, ServerTimer)]"

lemmas preemption_eval = example_events_def example_mac_def empty_queue_def bit_packet_def bit_frame_def bit_times_def frame_queue_def
  pq_pushPacket_def pq_pullPacket_def pq_drop_loop_def pq_isOverloaded_def fifo_insert_def pq_getNumPackets_def pq_canPullPacket_def pq_getPacket_def
  xm_scheduler_notified_def xm_handleCanPullPacketChanged_def xm_handleCanPushPacketChanged_def xm_handlePushPacketProcessed_def xm_handleTimer_def
  xm_isStreaming_def xm_canStartStreaming_def xm_canPullSomePacket_def xm_expressCanPull_def xm_preemptableCanPull_def
  ts_canPullSomePacket_def pt_canPullSomePacket_def ts_isStreaming_def pt_isStreaming_def
  xm_startStreaming_def xm_endStreaming_def xm_pullPacketStart_def xm_pullPacketEnd_def xm_callSchedulePacket_def xm_schedulePacket_def xm_totalLength_def
  ts_pullPacketStart_def ts_pullPacketEnd_def pt_pullPacketStart_def pt_pullPacketEnd_def pulled_length_def preempted_length_def
  sent_part_def remaining_part_def base_name_def tagged_def whole_packet_def new_packet_def getTotalLength_def to_string.simps consumer_busy_def Let_def

lemma example_mac_start: "xm_start example_mac"
  by (simp add: xm_start_def xm_config_def unlimited_def example_mac_def empty_queue_def)

lemma example_legal: "xm_schedule bit_times (frame_queue 0 bit_frame) 0 False example_events example_mac"
  by (simp add: preemption_eval)

lemma example_run:
  "map_option (map (\<lambda>(t, e). (t, case e of PushStart p \<Rightarrow> (True, length (fp_data p)) | PushEnd p \<Rightarrow> (False, length (fp_data p)))) \<circ> fst)
     (xm_run bit_times (frame_queue 0 bit_frame) example_events example_mac) =
   Some [(0, True, 12), (5, False, 6), (9, True, 3), (12, False, 3), (14, True, 6), (22, False, 6)]"
  by (simp add: preemption_eval)

lemma bit_frames_untagged: "fp_tag (po_frame (frame_queue i bit_frame) p) = None"
  by (simp add: frame_queue_def bit_frame_def new_packet_def)

section \<open>Witnesses\<close>

lemma example_untagged:
  "\<forall>p \<in> set (arrivals (express_arrived (frame_queue 0 bit_frame)) es). fp_tag p = None"
proof -
  have "\<forall>q \<in> set (express_arrived (frame_queue 0 bit_frame) e). fp_tag q = None" for e
    using bit_frames_untagged[of 0] by (cases e) simp_all
  then show ?thesis by (auto simp: arrivals_def)
qed

theorem preempting_mac_conserves_frames_witness:
  "\<exists>outs s'. xm_run bit_times (frame_queue 0 bit_frame) example_events example_mac = Some (outs, s') \<and>
     arrivals (express_arrived (frame_queue 0 bit_frame)) example_events =
       express_ended (map snd outs) @ express_pending (\<lambda>q. map bit_frame (pq_queue q)) s'"
  using preempting_mac_conserves_frames[OF example_mac_start example_legal example_untagged] by blast

theorem express_waits_for_one_fragment_witness:
  "\<exists>f s'. xm_run bit_times (frame_queue 0 bit_frame) [(0, PreemptablePacket (bit_packet 1 12) True)] example_mac \<noteq> None \<and>
     xm_step bit_times (frame_queue 0 bit_frame) 5 (ExpressPacket (bit_packet 2 3) False)
       (snd (the (xm_run bit_times (frame_queue 0 bit_frame) [(0, PreemptablePacket (bit_packet 1 12) True)] example_mac))) =
       Some ([PushEnd f], s') \<and> length (fp_data f) \<le> 10"
proof -
  obtain outs s where r: "xm_run bit_times (frame_queue 0 bit_frame) [(0, PreemptablePacket (bit_packet 1 12) True)] example_mac = Some (outs, s)"
    "xm_inProgressGateIndex s = 1" "pt_minPacketLength (xm_preemptableStreamer s) = 4" "pt_roundingLength (xm_preemptableStreamer s) = 2"
    "xm_datarate s = 10 ^ 12" "pt_streamStart (xm_preemptableStreamer s) = 0"
    by (simp add: preemption_eval)
  have "xm_schedule bit_times (frame_queue 0 bit_frame) 0 False
      ([(0, PreemptablePacket (bit_packet 1 12) True)] @ [(5, ExpressPacket (bit_packet 2 3) False)]) example_mac"
    by (simp add: preemption_eval)
  from express_waits_for_one_fragment[OF example_mac_start this example_untagged r(1,2)] r show ?thesis
    by (fastforce simp: Let_def pulled_length_def)
qed

theorem preempted_fragments_well_formed_witness:
  "\<exists>groups parts outs s'. xm_run bit_times (frame_queue 0 bit_frame) example_events example_mac = Some (outs, s') \<and>
     fragments_ended (map snd outs) = concat groups @ parts"
proof -
  obtain outs s where r: "xm_run bit_times (frame_queue 0 bit_frame) example_events example_mac = Some (outs, s)"
    using example_run by (cases "xm_run bit_times (frame_queue 0 bit_frame) example_events example_mac") auto
  from preempted_fragments_well_formed[OF example_mac_start example_legal _ r] bit_frames_untagged[of 0] r show ?thesis by blast
qed

end
