(* ===== verification/Fragment_Phy.thy ===== *)
theory Fragment_Phy
  imports Preemption Checksum Header_Codec
begin

text \<open>
  The way of preemptable frames over the wire: the physical layer header of fragments
  (src/inet/src/inet/physicallayer/wired/ethernet/EthernetFragmentPhyHeaderInserter.cc, EthernetFragmentPhyHeaderChecker.cc),
  the serializers of the physical layer headers (EthernetPhyHeaderSerializer.cc), the classifiers
  (linklayer/ethernet/modular/EthernetClassifier.cc), and all of it together with the preempting MAC, the check sequences of
  fragments and the defragmenter, as EthernetFragmentingMacLayer.ned and EthernetPreemptingPhyLayer.ned connect them.

  A packet on the wire is its header, its data and its trailer, as the simulator transmits them. \<open>None\<close> is an exception.
\<close>

section \<open>The header\<close>

datatype preamble_type = SFD | SMD_Verify | SMD_Respond | SMD_Sx | SMD_Cx

record fragment_phy_header =
  fh_preambleType :: preamble_type
  fh_smdNumber :: "8 word"
  fh_fragmentNumber :: "8 word"

definition default_phy_header :: fragment_phy_header where
  "default_phy_header = \<lparr>fh_preambleType = SFD, fh_smdNumber = 0, fh_fragmentNumber = 0\<rparr>"

subsection \<open>Serializers\<close>

definition smdSxValues :: "8 word list" where
  "smdSxValues = [0xE6, 0x4C, 0x7F, 0xB3]"

definition smdCxValues :: "8 word list" where
  "smdCxValues = [0x61, 0x52, 0x9E, 0x2A]"

definition fragmentNumberValues :: "8 word list" where
  "fragmentNumberValues = [0xE6, 0x4C, 0x7F, 0xB3]"

definition PREAMBLE_BYTES :: nat where
  "PREAMBLE_BYTES = 7"

text \<open>The position of a value, 4 when it is not in the list; the numbers of a header are below 4.\<close>

definition find_value :: "8 word \<Rightarrow> 8 word list \<Rightarrow> 8 word" where
  "find_value v values = of_nat (length (takeWhile (\<lambda>x. x \<noteq> v) values))"

definition serialize_phy :: "ostream \<Rightarrow> ostream" where
  "serialize_phy s = writeByte 0xD5 (writeByteRepeatedly 0x55 PREAMBLE_BYTES s)"

text \<open>The result tells whether the header is correct.\<close>

definition deserialize_phy :: "(istream, bool) state" where
  "deserialize_phy = do {
     preambleReadSuccessfully \<leftarrow> readByteRepeatedly 0x55 PREAMBLE_BYTES;
     sfd \<leftarrow> readByte;
     State_Monad.return (\<not> (\<not> preambleReadSuccessfully \<or> sfd \<noteq> 0xD5)) }"

definition serialize_fragment_phy :: "fragment_phy_header \<Rightarrow> ostream \<Rightarrow> ostream" where
  "serialize_fragment_phy h s =
     (let s = writeByteRepeatedly 0x55 (PREAMBLE_BYTES - (if fh_preambleType h = SMD_Cx then 1 else 0)) s
      in case fh_preambleType h of
           SFD \<Rightarrow> writeByte 0xD5 s
         | SMD_Verify \<Rightarrow> writeByte 0x07 s
         | SMD_Respond \<Rightarrow> writeByte 0x19 s
         | SMD_Sx \<Rightarrow> writeByte (smdSxValues ! unat (fh_smdNumber h)) s
         | SMD_Cx \<Rightarrow> writeByte (fragmentNumberValues ! unat (fh_fragmentNumber h)) (writeByte (smdCxValues ! unat (fh_smdNumber h)) s))"

text \<open>In the branch of a continuation both numbers are looked up from the byte that is read second.\<close>

definition deserialize_fragment_phy :: "(istream, fragment_phy_header \<times> bool) state" where
  "deserialize_fragment_phy = do {
     preambleReadSuccessfully \<leftarrow> readByteRepeatedly 0x55 (PREAMBLE_BYTES - 1);
     v \<leftarrow> readByte;
     v2 \<leftarrow> readByte;
     State_Monad.return
       (if v = 0x55
        then (if v2 = 0xD5 then default_phy_header\<lparr>fh_preambleType := SFD\<rparr>
              else \<lparr>fh_preambleType = SMD_Sx, fh_smdNumber = find_value v2 smdSxValues, fh_fragmentNumber = 0\<rparr>)
        else \<lparr>fh_preambleType = SMD_Cx, fh_smdNumber = find_value v2 smdCxValues, fh_fragmentNumber = find_value v2 fragmentNumberValues\<rparr>,
        preambleReadSuccessfully) }"

text \<open>The base class looks at the byte after the preamble.\<close>

definition deserialize_phy_base :: "istream \<Rightarrow> (fragment_phy_header option \<times> bool) \<times> istream" where
  "deserialize_phy_base s =
     (if is_data s ! PREAMBLE_BYTES = 0xD5
      then (let (ok, s) = run_state deserialize_phy s in ((None, ok), s))
      else (let ((h, ok), s) = run_state deserialize_fragment_phy s in ((Some h, ok), s)))"

subsection \<open>Inserter and checker\<close>

record phy_inserter =
  pi_smdNumber :: "8 word"
  pi_fragmentNumber :: "8 word"

definition phy_insert :: "fragment_tag \<Rightarrow> phy_inserter \<Rightarrow> fragment_phy_header" where
  "phy_insert t s =
     \<lparr>fh_preambleType = (if ft_firstFragment t then SMD_Sx else SMD_Cx), fh_smdNumber = pi_smdNumber s,
      fh_fragmentNumber = pi_fragmentNumber s mod 4\<rparr>"

definition phy_packet_processed :: "fragment_tag \<Rightarrow> phy_inserter \<Rightarrow> phy_inserter" where
  "phy_packet_processed t s =
     (let s = (if \<not> ft_firstFragment t then s\<lparr>pi_fragmentNumber := pi_fragmentNumber s + 1\<rparr> else s)
      in if ft_lastFragment t then s\<lparr>pi_fragmentNumber := 0, pi_smdNumber := (pi_smdNumber s + 1) mod 4\<rparr> else s)"

record phy_checker =
  pc_smdNumber :: int
  pc_fragmentNumber :: int

definition phy_matches :: "bool \<Rightarrow> fragment_phy_header \<Rightarrow> phy_checker \<Rightarrow> bool" where
  "phy_matches intact h s \<longleftrightarrow>
     (if \<not> intact then False
      else if fh_preambleType h \<noteq> SMD_Sx \<and> fh_preambleType h \<noteq> SMD_Cx then False
      else if uint (fh_smdNumber h) = pc_smdNumber s then uint (fh_fragmentNumber h) = pc_fragmentNumber s mod 4
      else fh_fragmentNumber h = 0)"

text \<open>The tag of the fragment; whether it is the last one is not known yet.\<close>

definition phy_process :: "fragment_phy_header \<Rightarrow> phy_checker \<Rightarrow> (fragment_tag \<times> phy_checker) option" where
  "phy_process h s =
     (if uint (fh_smdNumber h) = pc_smdNumber s
      then do {
        ensure (uint (fh_fragmentNumber h) = pc_fragmentNumber s mod 4);
        Some (\<lparr>ft_firstFragment = False, ft_lastFragment = False, ft_fragmentNumber = pc_fragmentNumber s + 1, ft_numFragments = -1\<rparr>,
          s\<lparr>pc_fragmentNumber := pc_fragmentNumber s + 1\<rparr>)
      }
      else do {
        ensure (fh_fragmentNumber h = 0);
        Some (\<lparr>ft_firstFragment = True, ft_lastFragment = False, ft_fragmentNumber = 0, ft_numFragments = -1\<rparr>,
          s\<lparr>pc_smdNumber := uint (fh_smdNumber h), pc_fragmentNumber := 0\<rparr>)
      })"

section \<open>Over the wire\<close>

text \<open>\<open>peekDataAsBytes\<close> throws when the data does not end with an octet.\<close>

fun octets :: "bool list \<Rightarrow> octet list" where
  "octets bs = (if length bs < 8 then [] else horner_sum of_bool 2 (rev (take 8 bs)) # octets (drop 8 bs))"

declare octets.simps [simp del]

definition packet_octets :: "bool list \<Rightarrow> octet list option" where
  "packet_octets bs = (if 8 dvd length bs then Some (octets bs) else None)"

datatype wire = ExpressWire fpacket | FragmentWire string fragment_phy_header "bool list" "32 word \<times> bool"

definition classifyPacketByFragmentTag :: "fpacket \<Rightarrow> nat" where
  "classifyPacketByFragmentTag p = (if fp_tag p = None then 0 else 1)"

definition classifyPacketByEthernetPreambleType :: "wire \<Rightarrow> nat" where
  "classifyPacketByEthernetPreambleType w =
     (case w of FragmentWire n h d t \<Rightarrow> if fh_preambleType h = SFD then 0 else 1 | ExpressWire p \<Rightarrow> 0)"

record wire_sender =
  ws_fcs :: fragment_fcs
  ws_phy :: phy_inserter

definition wire_send :: "fcs_mode \<Rightarrow> fpacket \<Rightarrow> wire_sender \<Rightarrow> (wire \<times> wire_sender) option" where
  "wire_send mode p s =
     (if classifyPacketByFragmentTag p = 0 then Some (ExpressWire p, s)
      else do {
        t \<leftarrow> fp_tag p;
        bytes \<leftarrow> packet_octets (fp_data p);
        (trailer, fcs) \<leftarrow> fragment_insert mode (ft_firstFragment t) (ft_lastFragment t) bytes (ws_fcs s);
        Some (FragmentWire (fp_name p) (phy_insert t (ws_phy s)) (fp_data p) trailer,
          s\<lparr>ws_fcs := fcs, ws_phy := phy_packet_processed t (ws_phy s)\<rparr>)
      })"

record wire_receiver =
  wr_phy :: phy_checker
  wr_fcs :: fragment_fcs
  wr_defragmenter :: defragmenter

text \<open>What the express and what the preemptable MAC hands to the upper layer. A fragment header with an SFD is not sent.\<close>

definition wire_receive :: "fcs_mode \<Rightarrow> wire \<Rightarrow> wire_receiver \<Rightarrow> (fpacket list \<times> fpacket list \<times> wire_receiver) option" where
  "wire_receive mode w s =
     (case w of ExpressWire p \<Rightarrow> Some ([p], [], s)
      | FragmentWire name h data trailer \<Rightarrow>
          if classifyPacketByEthernetPreambleType w = 0 then None
          else if \<not> phy_matches True h (wr_phy s) then Some ([], [], s)
          else do {
            (t, phy) \<leftarrow> phy_process h (wr_phy s);
            bytes \<leftarrow> packet_octets data;
            (r, fcs) \<leftarrow> fragment_receive True (ft_firstFragment t) bytes mode trailer (wr_fcs s);
            (case r of None \<Rightarrow> Some ([], [], s\<lparr>wr_phy := phy, wr_fcs := fcs\<rparr>)
             | Some lastFragment \<Rightarrow> do {
                 (out, df) \<leftarrow> tag_defragmenter_pushPacket
                    ((new_packet name)\<lparr>fp_data := data, fp_tag := Some (t\<lparr>ft_lastFragment := lastFragment\<rparr>)\<rparr>) (wr_defragmenter s);
                 Some ([], out, s\<lparr>wr_phy := phy, wr_fcs := fcs, wr_defragmenter := df\<rparr>)
               })
          })"

fun over_the_wire ::
  "fcs_mode \<Rightarrow> fpacket list \<Rightarrow> wire_sender \<Rightarrow> wire_receiver \<Rightarrow> (fpacket list \<times> fpacket list \<times> wire_sender \<times> wire_receiver) option" where
  "over_the_wire mode [] s r = Some ([], [], s, r)"
| "over_the_wire mode (p # ps) s r =
     do {
       (w, s) \<leftarrow> wire_send mode p s;
       (ex, pre, r) \<leftarrow> wire_receive mode w r;
       (exs, pres, s, r) \<leftarrow> over_the_wire mode ps s r;
       Some (ex @ exs, pre @ pres, s, r)
     }"

section \<open>A frame over the wire\<close>

lemma octets_Nil [simp]: "octets [] = []"
  by (simp add: octets.simps)

lemma octets_append: "8 dvd length a \<Longrightarrow> octets (a @ b) = octets a @ octets b"
proof (induction a rule: octets.induct)
  case (1 a)
  show ?case
  proof (cases "length a < 8")
    case True
    with 1(2) have "a = []" by (auto elim: dvdE)
    then show ?thesis by simp
  next
    case False
    have "8 dvd length (drop 8 a)" using 1(2) False by (simp add: dvd_diff_nat)
    with 1(1) False have "octets (drop 8 a @ b) = octets (drop 8 a) @ octets b" by simp
    then show ?thesis using False by (subst (1 2) octets.simps) simp
  qed
qed

text \<open>
  Sender and receiver in the middle of a frame: \<open>k\<close> fragments have passed and \<open>d\<close> is their data.
\<close>

definition fcs_synced :: "fcs_mode \<Rightarrow> bool list \<Rightarrow> wire_sender \<Rightarrow> wire_receiver \<Rightarrow> bool" where
  "fcs_synced mode d s r \<longleftrightarrow> (mode = FCS_COMPUTED \<longrightarrow>
     ff_lastFragmentCompleteFcs (ws_fcs s) = ethernetCRC (octets d) 0 \<and> ff_lastFragmentCompleteFcs (wr_fcs r) = ethernetCRC (octets d) 0)"

definition link_between :: "wire_sender \<Rightarrow> wire_receiver \<Rightarrow> bool" where
  "link_between s r \<longleftrightarrow> pi_smdNumber (ws_phy s) < 4 \<and> pi_fragmentNumber (ws_phy s) = 0 \<and>
     uint (pi_smdNumber (ws_phy s)) \<noteq> pc_smdNumber (wr_phy r) \<and> wr_defragmenter r = idle_defragmenter"

definition link_within :: "fcs_mode \<Rightarrow> string \<Rightarrow> nat \<Rightarrow> bool list \<Rightarrow> wire_sender \<Rightarrow> wire_receiver \<Rightarrow> bool" where
  "link_within mode name k d s r \<longleftrightarrow> pi_smdNumber (ws_phy s) < 4 \<and> pi_fragmentNumber (ws_phy s) = of_nat (k - 1) \<and> 0 < k \<and>
     uint (pi_smdNumber (ws_phy s)) = pc_smdNumber (wr_phy r) \<and> pc_fragmentNumber (wr_phy r) = int (k - 1) \<and>
     fcs_synced mode d s r \<and> 8 dvd length d \<and>
     wr_defragmenter r = \<lparr>df_expectedFragmentNumber = int k, df_defragmentedPacket = Some ((new_packet name)\<lparr>fp_data := d\<rparr>)\<rparr>"

definition mode_checked :: "fcs_mode \<Rightarrow> bool" where
  "mode_checked mode \<longleftrightarrow> mode = FCS_COMPUTED \<or> mode = FCS_DECLARED_CORRECT"

lemma octet_mod_4: "uint ((of_nat n :: 8 word) mod 4) = int n mod 4"
proof -
  have "uint (of_nat n :: 8 word) = int n mod 256" by (simp add: unsigned_of_nat take_bit_eq_mod of_nat_mod)
  then have "uint ((of_nat n :: 8 word) mod 4) = int n mod 256 mod 4" by (simp add: uint_mod)
  also have "\<dots> = int n mod 4" by (rule mod_mod_cancel) simp
  finally show ?thesis .
qed

text \<open>The check sequence of a fragment, on both sides.\<close>

lemma fragment_fcs_step:
  assumes "mode_checked mode" "first \<longrightarrow> d = []" "\<not> first \<longrightarrow> fcs_synced mode d s r" "8 dvd length d" "8 dvd length x"
  shows "\<exists>trailer fs fr. fragment_insert mode first lst (octets x) (ws_fcs s) = Some (trailer, fs) \<and>
    fragment_receive True first (octets x) mode trailer (wr_fcs r) = Some (Some lst, fr) \<and>
    (\<forall>phy phy' df. fcs_synced mode (d @ x) \<lparr>ws_fcs = fs, ws_phy = phy\<rparr> \<lparr>wr_phy = phy', wr_fcs = fr, wr_defragmenter = df\<rparr>)"
proof (cases "mode = FCS_COMPUTED")
  case True
  have c: "ethernetCRC (octets x) (if first then 0 else ff_lastFragmentCompleteFcs (ws_fcs s)) = ethernetCRC (octets (d @ x)) 0"
    "ethernetCRC (octets x) (if first then 0 else ff_lastFragmentCompleteFcs (wr_fcs r)) = ethernetCRC (octets (d @ x)) 0"
    using assms(2,3) True by (auto simp: fcs_synced_def octets_append[OF assms(4)] crc_append)
  show ?thesis
    by (cases lst) (simp_all add: True fragment_insert_def fragment_computeFcs_def fragment_computeComputedFcs_def c
        fragment_receive_def fragment_checkFcs_def fragment_checkComputedFcs_def fragment_process_def fcs_synced_def Let_def)
next
  case False
  then have "mode = FCS_DECLARED_CORRECT" using assms(1) by (simp add: mode_checked_def)
  then show ?thesis
    by (simp add: fragment_insert_def fragment_computeFcs_def fragment_receive_def fragment_checkFcs_def fragment_process_def fcs_synced_def Let_def)
qed

lemma smd_next: "x < 4 \<Longrightarrow> (x + 1) mod 4 < 4 \<and> uint ((x + 1) mod 4) \<noteq> uint x" for x :: "8 word"
proof -
  assume "x < 4"
  then have "x = 0 \<or> x = 1 \<or> x = 2 \<or> x = 3" by uint_arith
  then show ?thesis by auto
qed

lemmas wire_defs = wire_send_def wire_receive_def classifyPacketByFragmentTag_def classifyPacketByEthernetPreambleType_def
  phy_insert_def phy_packet_processed_def phy_matches_def phy_process_def packet_octets_def
  tag_defragmenter_pushPacket_def defragmentPacket_def startDefragmentation_def continueDefragmentation_def endDefragmentation_def

lemma first_fragment_passes:
  assumes m: "mode_checked mode" and l: "link_between s r" and t: "fp_tag f = Some t" "ft_firstFragment t" "8 dvd length (fp_data f)"
  shows "\<exists>w s' out r'. wire_send mode f s = Some (w, s') \<and> wire_receive mode w r = Some ([], out, r') \<and>
    (if ft_lastFragment t then out = [(new_packet (cut_frag (fp_name f)))\<lparr>fp_data := fp_data f\<rparr>] \<and> link_between s' r'
     else out = [] \<and> link_within mode (cut_frag (fp_name f)) 1 (fp_data f) s' r')"
proof -
  obtain trailer fs fr where fcs: "fragment_insert mode True (ft_lastFragment t) (octets (fp_data f)) (ws_fcs s) = Some (trailer, fs)"
    "fragment_receive True True (octets (fp_data f)) mode trailer (wr_fcs r) = Some (Some (ft_lastFragment t), fr)"
    "\<And>phy phy' df. fcs_synced mode (fp_data f) \<lparr>ws_fcs = fs, ws_phy = phy\<rparr> \<lparr>wr_phy = phy', wr_fcs = fr, wr_defragmenter = df\<rparr>"
    using fragment_fcs_step[OF m, of True "[]" s r "fp_data f" "ft_lastFragment t"] t by auto
  have p: "pi_smdNumber (ws_phy s) < 4" "pi_fragmentNumber (ws_phy s) = 0" "uint (pi_smdNumber (ws_phy s)) \<noteq> pc_smdNumber (wr_phy r)"
    "wr_defragmenter r = idle_defragmenter"
    using l by (simp_all add: link_between_def)
  let ?w = "FragmentWire (fp_name f) (phy_insert t (ws_phy s)) (fp_data f) trailer"
  let ?s = "s\<lparr>ws_fcs := fs, ws_phy := phy_packet_processed t (ws_phy s)\<rparr>"
  let ?r = "r\<lparr>wr_phy := (wr_phy r)\<lparr>pc_smdNumber := uint (pi_smdNumber (ws_phy s)), pc_fragmentNumber := 0\<rparr>, wr_fcs := fr,
    wr_defragmenter := (if ft_lastFragment t then idle_defragmenter
      else \<lparr>df_expectedFragmentNumber = 1, df_defragmentedPacket = Some ((new_packet (cut_frag (fp_name f)))\<lparr>fp_data := fp_data f\<rparr>)\<rparr>)\<rparr>"
  let ?out = "if ft_lastFragment t then [(new_packet (cut_frag (fp_name f)))\<lparr>fp_data := fp_data f\<rparr>] else []"
  have s: "wire_send mode f s = Some (?w, ?s)" using t fcs(1) by (simp add: wire_send_def classifyPacketByFragmentTag_def packet_octets_def)
  have r: "wire_receive mode ?w r = Some ([], ?out, ?r)" using t p fcs(2)
    by (simp add: wire_defs idle_defragmenter_def new_packet_def)
  have f: "mode = FCS_COMPUTED \<longrightarrow> ff_lastFragmentCompleteFcs fs = ethernetCRC (octets (fp_data f)) 0 \<and>
      ff_lastFragmentCompleteFcs fr = ethernetCRC (octets (fp_data f)) 0" using fcs(3) by (simp add: fcs_synced_def)
  have "if ft_lastFragment t then ?out = [(new_packet (cut_frag (fp_name f)))\<lparr>fp_data := fp_data f\<rparr>] \<and> link_between ?s ?r
      else ?out = [] \<and> link_within mode (cut_frag (fp_name f)) 1 (fp_data f) ?s ?r"
    using t p f smd_next[OF p(1)]
    by (cases "ft_lastFragment t") (simp_all add: link_between_def link_within_def phy_packet_processed_def fcs_synced_def Let_def)
  with s r show ?thesis by blast
qed

lemma next_fragment_passes:
  assumes m: "mode_checked mode" and l: "link_within mode name k d s r"
    and t: "fp_tag f = Some t" "\<not> ft_firstFragment t" "ft_fragmentNumber t = int k" "8 dvd length (fp_data f)"
  shows "\<exists>w s' out r'. wire_send mode f s = Some (w, s') \<and> wire_receive mode w r = Some ([], out, r') \<and>
    (if ft_lastFragment t then out = [(new_packet name)\<lparr>fp_data := d @ fp_data f\<rparr>] \<and> link_between s' r'
     else out = [] \<and> link_within mode name (k + 1) (d @ fp_data f) s' r')"
proof -
  have p: "pi_smdNumber (ws_phy s) < 4" "pi_fragmentNumber (ws_phy s) = of_nat (k - 1)" "0 < k"
    "pc_smdNumber (wr_phy r) = uint (pi_smdNumber (ws_phy s))" "pc_fragmentNumber (wr_phy r) = int (k - 1)" "fcs_synced mode d s r" "8 dvd length d"
    "wr_defragmenter r = \<lparr>df_expectedFragmentNumber = int k, df_defragmentedPacket = Some ((new_packet name)\<lparr>fp_data := d\<rparr>)\<rparr>"
    using l by (simp_all add: link_within_def)
  obtain trailer fs fr where fcs: "fragment_insert mode False (ft_lastFragment t) (octets (fp_data f)) (ws_fcs s) = Some (trailer, fs)"
    "fragment_receive True False (octets (fp_data f)) mode trailer (wr_fcs r) = Some (Some (ft_lastFragment t), fr)"
    "\<And>phy phy' df. fcs_synced mode (d @ fp_data f) \<lparr>ws_fcs = fs, ws_phy = phy\<rparr> \<lparr>wr_phy = phy', wr_fcs = fr, wr_defragmenter = df\<rparr>"
    using fragment_fcs_step[OF m, of False d s r "fp_data f" "ft_lastFragment t"] t p by auto
  have k: "int (k - 1) + 1 = int k" "of_nat (k - 1) + 1 = (of_nat k :: 8 word)" using p(3) by (cases k; simp)+
  have frag: "uint ((of_nat (k - 1) :: 8 word) mod 4) = int (k - 1) mod 4" by (rule octet_mod_4)
  let ?w = "FragmentWire (fp_name f) (phy_insert t (ws_phy s)) (fp_data f) trailer"
  let ?s = "s\<lparr>ws_fcs := fs, ws_phy := phy_packet_processed t (ws_phy s)\<rparr>"
  let ?r = "r\<lparr>wr_phy := (wr_phy r)\<lparr>pc_fragmentNumber := int k\<rparr>, wr_fcs := fr,
    wr_defragmenter := (if ft_lastFragment t then idle_defragmenter
      else \<lparr>df_expectedFragmentNumber = int k + 1, df_defragmentedPacket = Some ((new_packet name)\<lparr>fp_data := d @ fp_data f\<rparr>)\<rparr>)\<rparr>"
  let ?out = "if ft_lastFragment t then [(new_packet name)\<lparr>fp_data := d @ fp_data f\<rparr>] else []"
  have s: "wire_send mode f s = Some (?w, ?s)" using t fcs(1) by (simp add: wire_send_def classifyPacketByFragmentTag_def packet_octets_def)
  have r: "wire_receive mode ?w r = Some ([], ?out, ?r)" using t p fcs(2) k frag
    by (simp add: wire_defs idle_defragmenter_def new_packet_def)
  have f: "mode = FCS_COMPUTED \<longrightarrow> ff_lastFragmentCompleteFcs fs = ethernetCRC (octets (d @ fp_data f)) 0 \<and>
      ff_lastFragmentCompleteFcs fr = ethernetCRC (octets (d @ fp_data f)) 0" using fcs(3) by (simp add: fcs_synced_def)
  have "if ft_lastFragment t then ?out = [(new_packet name)\<lparr>fp_data := d @ fp_data f\<rparr>] \<and> link_between ?s ?r
      else ?out = [] \<and> link_within mode name (k + 1) (d @ fp_data f) ?s ?r"
    using t p f k smd_next[OF p(1)]
    by (cases "ft_lastFragment t") (simp_all add: link_between_def link_within_def phy_packet_processed_def fcs_synced_def Let_def)
  with s r show ?thesis by blast
qed

section \<open>Any sequence of packets over the wire\<close>

text \<open>Putting fragments together without looking at headers: the name, the number and the data of the frame so far.\<close>

definition reassembled :: "string \<Rightarrow> bool list \<Rightarrow> fpacket" where
  "reassembled name d = (new_packet name)\<lparr>fp_data := d\<rparr>"

fun assemble :: "(string \<times> nat \<times> bool list) option \<Rightarrow> fpacket list \<Rightarrow> fpacket list option" where
  "assemble st [] = Some []"
| "assemble None (f # fs) =
     do {
       t \<leftarrow> fp_tag f;
       ensure (ft_firstFragment t \<and> ft_fragmentNumber t = 0);
       (if ft_lastFragment t then do { ps \<leftarrow> assemble None fs; Some (reassembled (cut_frag (fp_name f)) (fp_data f) # ps) }
        else assemble (Some (cut_frag (fp_name f), 1, fp_data f)) fs)
     }"
| "assemble (Some (name, k, d)) (f # fs) =
     do {
       t \<leftarrow> fp_tag f;
       ensure (\<not> ft_firstFragment t \<and> ft_fragmentNumber t = int k);
       (if ft_lastFragment t then do { ps \<leftarrow> assemble None fs; Some (reassembled name (d @ fp_data f) # ps) }
        else assemble (Some (name, k + 1, d @ fp_data f)) fs)
     }"

fun link_state :: "fcs_mode \<Rightarrow> (string \<times> nat \<times> bool list) option \<Rightarrow> wire_sender \<Rightarrow> wire_receiver \<Rightarrow> bool" where
  "link_state mode None s r \<longleftrightarrow> link_between s r"
| "link_state mode (Some (name, k, d)) s r \<longleftrightarrow> link_within mode name k d s r"

lemma fragment_assembles:
  assumes "mode_checked mode" "link_state mode st s r" "fp_tag p = Some t" "8 dvd length (fp_data p)" "assemble st (p # fs) = Some out"
  shows "\<exists>w s1 o1 r1 st1 os. wire_send mode p s = Some (w, s1) \<and> wire_receive mode w r = Some ([], o1, r1) \<and>
    link_state mode st1 s1 r1 \<and> assemble st1 fs = Some os \<and> out = o1 @ os"
proof (cases st)
  case None
  have l: "link_between s r" "ft_firstFragment t" "ft_fragmentNumber t = 0" using assms None by simp_all
  note f = first_fragment_passes[OF assms(1) l(1) assms(3) l(2) assms(4)]
  show ?thesis
  proof (cases "ft_lastFragment t")
    case True
    then obtain os where os: "assemble None fs = Some os" "out = reassembled (cut_frag (fp_name p)) (fp_data p) # os"
      using assms(3,5) None l by (auto simp: bind_eq_Some_conv)
    obtain w s1 o1 r1 where w: "wire_send mode p s = Some (w, s1)" "wire_receive mode w r = Some ([], o1, r1)"
      "o1 = [reassembled (cut_frag (fp_name p)) (fp_data p)]" "link_state mode None s1 r1"
      using f True by (auto simp: reassembled_def)
    have "out = o1 @ os" using os w by simp
    with w os show ?thesis by blast
  next
    case False
    then have os: "assemble (Some (cut_frag (fp_name p), 1, fp_data p)) fs = Some out" using assms(3,5) None l by simp
    obtain w s1 o1 r1 where w: "wire_send mode p s = Some (w, s1)" "wire_receive mode w r = Some ([], o1, r1)"
      "o1 = []" "link_state mode (Some (cut_frag (fp_name p), 1, fp_data p)) s1 r1"
      using f False by auto
    have "out = o1 @ out" using w by simp
    with w os show ?thesis by blast
  qed
next
  case (Some st')
  obtain name k d where st: "st = Some (name, k, d)" using Some by (cases st') auto
  have l: "link_within mode name k d s r" "\<not> ft_firstFragment t" "ft_fragmentNumber t = int k" using assms st by simp_all
  note f = next_fragment_passes[OF assms(1) l(1) assms(3) l(2,3) assms(4)]
  show ?thesis
  proof (cases "ft_lastFragment t")
    case True
    then obtain os where os: "assemble None fs = Some os" "out = reassembled name (d @ fp_data p) # os"
      using assms(3,5) st l by (auto simp: bind_eq_Some_conv)
    obtain w s1 o1 r1 where w: "wire_send mode p s = Some (w, s1)" "wire_receive mode w r = Some ([], o1, r1)"
      "o1 = [reassembled name (d @ fp_data p)]" "link_state mode None s1 r1"
      using f True by (auto simp: reassembled_def)
    have "out = o1 @ os" using os w by simp
    with w os show ?thesis by blast
  next
    case False
    then have os: "assemble (Some (name, k + 1, d @ fp_data p)) fs = Some out" using assms(3,5) st l by simp
    obtain w s1 o1 r1 where w: "wire_send mode p s = Some (w, s1)" "wire_receive mode w r = Some ([], o1, r1)"
      "o1 = []" "link_state mode (Some (name, k + 1, d @ fp_data p)) s1 r1"
      using f False by auto
    have "out = o1 @ out" using w by simp
    with w os show ?thesis by blast
  qed
qed

lemma wire_assembles:
  assumes "mode_checked mode" "link_state mode st s r" "\<forall>p \<in> set ps. 8 dvd length (fp_data p)"
    "assemble st (filter (\<lambda>p. fp_tag p \<noteq> None) ps) = Some out"
  shows "\<exists>s' r'. over_the_wire mode ps s r = Some (filter (\<lambda>p. fp_tag p = None) ps, out, s', r')"
  using assms(2-4)
proof (induction ps arbitrary: st s r out)
  case (Cons p ps)
  have al: "\<forall>p \<in> set ps. 8 dvd length (fp_data p)" "8 dvd length (fp_data p)" using Cons.prems(2) by simp_all
  show ?case
  proof (cases "fp_tag p")
    case None
    then have "wire_send mode p s = Some (ExpressWire p, s)" "wire_receive mode (ExpressWire p) r = Some ([p], [], r)"
      by (simp_all add: wire_send_def wire_receive_def classifyPacketByFragmentTag_def)
    moreover obtain s' r' where "over_the_wire mode ps s r = Some (filter (\<lambda>p. fp_tag p = None) ps, out, s', r')"
      using Cons.IH[OF Cons.prems(1) al(1)] Cons.prems(3) None by auto
    ultimately show ?thesis using None by simp
  next
    case (Some t)
    have "assemble st (p # filter (\<lambda>p. fp_tag p \<noteq> None) ps) = Some out" using Cons.prems(3) Some by simp
    from fragment_assembles[OF assms(1) Cons.prems(1) Some al(2) this] obtain w s1 o1 r1 st1 os where
      step: "wire_send mode p s = Some (w, s1)" "wire_receive mode w r = Some ([], o1, r1)"
        "link_state mode st1 s1 r1" "assemble st1 (filter (\<lambda>p. fp_tag p \<noteq> None) ps) = Some os" "out = o1 @ os" by blast
    from Cons.IH[OF step(3) al(1) step(4)] step Some show ?thesis by auto
  qed
qed simp

text \<open>The fragments of whole frames, and the first ones of another.\<close>

lemma assemble_open: "open_tags (Suc k) parts \<Longrightarrow> assemble (Some (name, Suc k, d)) parts = Some []"
proof (induction parts arbitrary: k d)
  case (Cons f fs)
  then obtain t where "fp_tag f = Some t" "ft_fragmentNumber t = int (Suc k)" "\<not> ft_firstFragment t" "\<not> ft_lastFragment t"
    "open_tags (Suc (Suc k)) fs" by auto
  with Cons.IH[of "Suc k"] show ?case by simp
qed simp

lemma assemble_open_frame: "open_tags 0 parts \<Longrightarrow> assemble None parts = Some []"
  using assemble_open[of 0] by (cases parts) auto

lemma assemble_rest:
  "tags_from (Suc k) fs \<Longrightarrow> fs \<noteq> [] \<Longrightarrow> assemble None fs2 = Some out \<Longrightarrow>
   assemble (Some (name, Suc k, d)) (fs @ fs2) = Some (reassembled name (d @ concat (map fp_data fs)) # out)"
proof (induction fs arbitrary: k d)
  case (Cons f fs)
  then obtain t where t: "fp_tag f = Some t" "ft_fragmentNumber t = int (Suc k)" "\<not> ft_firstFragment t" "ft_lastFragment t = (fs = [])"
    "tags_from (Suc (Suc k)) fs" by auto
  with Cons.IH[of "Suc k"] Cons.prems(3) show ?case by (cases "fs = []") simp_all
qed simp

lemma assemble_frame:
  assumes "fragments_of m p fs" "plain_name (fp_name p)" "assemble None fs2 = Some out"
  shows "assemble None (fs @ fs2) = Some (reassembled (fp_name p) (fp_data p) # out)"
proof -
  obtain f gs where fs: "fs = f # gs" using assms(1) by (cases fs) (auto simp: fragments_of_def)
  have "fp_name f \<in> {fp_name p, fp_name p @ ''-frag'' @ to_string 0}" using assms(1) by (simp add: fragments_of_def fs)
  then have name: "cut_frag (fp_name f) = fp_name p" using cut_frag_append[OF assms(2)] assms(2) by (auto simp: plain_name_def)
  obtain t where t: "fp_tag f = Some t" "ft_fragmentNumber t = 0" "ft_firstFragment t" "ft_lastFragment t = (gs = [])"
    "tags_from (Suc 0) gs" "fp_data p = fp_data f @ concat (map fp_data gs)"
    using assms(1) by (auto simp: fragments_of_def fs)
  show ?thesis using t name assms(3) assemble_rest[of 0 gs fs2 out] by (cases "gs = []") (simp_all add: fs)
qed

lemma assemble_frames:
  "list_all2 (fragments_of m) frames groups \<Longrightarrow> \<forall>p \<in> set frames. plain_name (fp_name p) \<Longrightarrow> open_tags 0 parts \<Longrightarrow>
   assemble None (concat groups @ parts) = Some (map (\<lambda>p. reassembled (fp_name p) (fp_data p)) frames)"
  by (induction rule: list_all2_induct) (simp_all add: assemble_open_frame assemble_frame)

section \<open>From the preempting MAC to the upper layer of its peer\<close>

definition frame_sendable :: "fpacket \<Rightarrow> bool" where
  "frame_sendable p \<longleftrightarrow> fp_tag p = None \<and> plain_name (fp_name p) \<and> 8 dvd length (fp_data p)"

lemma frames_assembled:
  assumes "preemptable_sent m r arrived sent cur wait" "0 \<le> m" "\<forall>p \<in> set arrived. frame_sendable p"
  shows "\<exists>finished unfinished. arrived = finished @ unfinished \<and>
    length unfinished = length wait + (if cur = None then 0 else 1) \<and>
    assemble None sent = Some (map (\<lambda>p. reassembled (fp_name p) (fp_data p)) finished)"
proof -
  have "\<forall>p \<in> set arrived. fp_tag p = None" using assms(3) by (simp add: frame_sendable_def)
  from sent_groups[OF assms(1,2) this] obtain finished groups parts where
    g: "list_all2 (fragments_of m) finished groups" "sent = concat groups @ parts"
    and c: "case cur of None \<Rightarrow> parts = [] \<and> arrived = finished @ wait | Some c \<Rightarrow> \<exists>p. rest_of m p parts c \<and> arrived = finished @ p # wait" by blast
  have o: "open_tags 0 parts" using c by (cases cur) (auto simp: rest_of_def)
  have "set finished \<subseteq> set arrived" using c by (cases cur) auto
  then have "\<forall>p \<in> set finished. plain_name (fp_name p)" using assms(3) by (auto simp: frame_sendable_def)
  from assemble_frames[OF g(1) this o] have a: "assemble None sent = Some (map (\<lambda>p. reassembled (fp_name p) (fp_data p)) finished)"
    by (simp add: g(2))
  show ?thesis
  proof (cases cur)
    case None
    then show ?thesis using c a by (intro exI[of _ finished] exI[of _ wait]) simp
  next
    case (Some c')
    then obtain p where "arrived = finished @ p # wait" using c by auto
    then show ?thesis using Some a by (intro exI[of _ finished] exI[of _ "p # wait"]) simp
  qed
qed

lemma ended_split:
  "express_ended out = filter (\<lambda>p. fp_tag p = None) (ended_packets out)"
  "fragments_ended out = filter (\<lambda>p. fp_tag p \<noteq> None) (ended_packets out)"
  by (simp_all add: express_ended_def fragments_ended_def)

lemma aligned_int: "8 dvd length xs \<longleftrightarrow> (8 :: int) dvd int (length xs)"
  by (metis int_dvd_int_iff of_nat_numeral)

text \<open>
  C3. Preemption is invisible above the MAC: whatever course of events the preempting MAC sees, what it sends over the wire,
  with check sequences and headers, reaches the other side without an exception; the receiver hands up exactly the express
  packets that ended, in order, and exactly the preemptable frames whose last fragment was sent, in the order in which they
  arrived at the sender, with their names and their data. Only frames that still wait or are being sent are missing.
\<close>

theorem preempted_frames_delivered:
  fixes frame moduleId
  defines "ops \<equiv> frame_queue moduleId frame"
  assumes "xm_start s" "xm_schedule conv ops t False es s" "\<forall>p \<in> set (arrivals (express_arrived ops) es) \<union> set (arrivals (preemptable_arrived ops) es). frame_sendable p"
    and "8 dvd pt_minPacketLength (xm_preemptableStreamer s)" "8 dvd pt_roundingLength (xm_preemptableStreamer s)"
    and "xm_run conv ops es s = Some (outs, s')" "mode_checked mode" "link_between sender receiver"
  shows "\<exists>finished unfinished exp_waiting sender' receiver'.
    over_the_wire mode (ended_packets (map snd outs)) sender receiver =
      Some (express_ended (map snd outs), map (\<lambda>p. reassembled (fp_name p) (fp_data p)) finished, sender', receiver') \<and>
    arrivals (express_arrived ops) es = express_ended (map snd outs) @ exp_waiting \<and>
    arrivals (preemptable_arrived ops) es = finished @ unfinished \<and>
    length exp_waiting = length (pq_queue (xm_expressQueue s')) + (if ts_isStreaming (xm_expressStreamer s') then 1 else 0) \<and>
    length unfinished = length (pq_queue (xm_preemptableQueue s')) + (if current_packet (xm_preemptableStreamer s') = None then 0 else 1)"
proof -
  let ?out = "map snd outs" and ?sp = "xm_preemptableStreamer s"
  have fs: "\<forall>q \<in> set (arrivals (express_arrived ops) es). frame_sendable q" "\<forall>q \<in> set (arrivals (preemptable_arrived ops) es). frame_sendable q"
    using assms(4) by simp_all
  then have un: "\<forall>q \<in> set (arrivals (express_arrived ops) es). fp_tag q = None" by (simp add: frame_sendable_def)
  have ex: "arrivals (express_arrived ops) es = express_ended ?out @ express_pending (\<lambda>q. map frame (pq_queue q)) s'"
    and pre: "preemptable_sent (pt_minPacketLength ?sp) (pt_roundingLength ?sp) (arrivals (preemptable_arrived ops) es) (fragments_ended ?out)
      (current_packet (xm_preemptableStreamer s')) (map frame (pq_queue (xm_preemptableQueue s')))"
    using sending_side_base[OF assms(2), of conv moduleId frame t False es] assms(3,7) un by (auto simp: xm_inv_def ops_def)
  have m: "0 \<le> pt_minPacketLength ?sp" using assms(2) by (simp add: xm_start_def xm_config_def)
  obtain fin unf where f: "arrivals (preemptable_arrived ops) es = fin @ unf"
    "length unf = length (map frame (pq_queue (xm_preemptableQueue s'))) + (if current_packet (xm_preemptableStreamer s') = None then 0 else 1)"
    "assemble None (fragments_ended ?out) = Some (map (\<lambda>p. reassembled (fp_name p) (fp_data p)) fin)"
    using frames_assembled[OF pre m fs(2)] by blast
  have "\<forall>p \<in> set (arrivals (preemptable_arrived ops) es). 8 dvd int (length (fp_data p))"
    using fs(2) by (simp add: frame_sendable_def aligned_int)
  from sent_aligned[OF pre assms(5,6) m this] have "\<forall>p \<in> set (fragments_ended ?out). 8 dvd length (fp_data p)" by (simp add: aligned_int)
  moreover have "\<forall>p \<in> set (express_ended ?out). 8 dvd length (fp_data p)" using fs(1) ex by (simp add: frame_sendable_def)
  ultimately have "\<forall>p \<in> set (ended_packets ?out). 8 dvd length (fp_data p)" by (auto simp: ended_split)
  from wire_assembles[OF assms(8) _ this, of None sender receiver] assms(9) f(3) obtain s2 r2 where
    "over_the_wire mode (ended_packets ?out) sender receiver =
      Some (express_ended ?out, map (\<lambda>p. reassembled (fp_name p) (fp_data p)) fin, s2, r2)" by (auto simp: ended_split)
  moreover have "length (express_pending (\<lambda>q. map frame (pq_queue q)) s') =
      length (pq_queue (xm_expressQueue s')) + (if ts_isStreaming (xm_expressStreamer s') then 1 else 0)"
    by (auto simp: express_pending_def ts_isStreaming_def)
  ultimately show ?thesis using ex f(1,2)
    by (intro exI[of _ fin] exI[of _ unf] exI[of _ "express_pending (\<lambda>q. map frame (pq_queue q)) s'"] exI[of _ s2] exI[of _ r2] conjI)
       (simp_all only: length_map)
qed

section \<open>The headers as octets\<close>

lemma preamble_55: "(0x55 :: 8 word) \<noteq> 0xD5"
  by simp

lemma reads_preamble:
  "reads (readByteRepeatedly 0x55 n) (concat (replicate n (byte_bits 0x55))) True"
  by (rule reads_byteRepeatedly)

definition phy_bits :: "bool list" where
  "phy_bits = concat (replicate 7 (byte_bits 0x55)) @ byte_bits 0xD5"

interpretation phy: codec "\<lambda>_. serialize_phy" deserialize_phy "\<lambda>ok. ok" "\<lambda>_. phy_bits"
proof
  fix ok :: bool assume ok: ok
  show "writes serialize_phy phy_bits"
    using writes_comp[OF writes_byteRepeatedly[of "0x55" 7] writes_byte[of "0xD5"]]
    by (simp add: serialize_phy_def[abs_def] phy_bits_def PREAMBLE_BYTES_def)
  have "reads deserialize_phy phy_bits (\<not> (\<not> True \<or> (0xD5 :: 8 word) \<noteq> 0xD5))"
    unfolding deserialize_phy_def phy_bits_def PREAMBLE_BYTES_def
    by (rule reads_bind[OF reads_preamble reads_bind_return[OF reads_byte]])
  then show "reads deserialize_phy phy_bits ok" using ok by simp
qed

text \<open>The octets of a fragment header: a start of a frame has one of them after the preamble, a continuation two.\<close>

definition fragment_phy_octets :: "fragment_phy_header \<Rightarrow> 8 word \<times> 8 word" where
  "fragment_phy_octets h =
     (case fh_preambleType h of
        SFD \<Rightarrow> (0x55, 0xD5) | SMD_Verify \<Rightarrow> (0x55, 0x07) | SMD_Respond \<Rightarrow> (0x55, 0x19)
      | SMD_Sx \<Rightarrow> (0x55, smdSxValues ! unat (fh_smdNumber h))
      | SMD_Cx \<Rightarrow> (smdCxValues ! unat (fh_smdNumber h), fragmentNumberValues ! unat (fh_fragmentNumber h)))"

definition fragment_phy_bits :: "fragment_phy_header \<Rightarrow> bool list" where
  "fragment_phy_bits h = concat (replicate 6 (byte_bits 0x55)) @ byte_bits (fst (fragment_phy_octets h)) @ byte_bits (snd (fragment_phy_octets h))"

lemma writes_fragment_phy: "writes (serialize_fragment_phy h) (fragment_phy_bits h)"
proof -
  have r: "concat (replicate 7 (byte_bits 0x55)) @ b = concat (replicate 6 (byte_bits 0x55)) @ byte_bits 0x55 @ b" for b :: "bool list"
    by (simp add: numeral_eq_Suc)
  have one: "writes (\<lambda>s. writeByte v (writeByteRepeatedly 0x55 7 s)) (concat (replicate 6 (byte_bits 0x55)) @ byte_bits 0x55 @ byte_bits v)" for v
    using writes_comp[OF writes_byteRepeatedly[of "0x55" 7] writes_byte[of v]] by (simp add: r)
  have two: "writes (\<lambda>s. writeByte v (writeByte u (writeByteRepeatedly 0x55 6 s))) (concat (replicate 6 (byte_bits 0x55)) @ byte_bits u @ byte_bits v)" for u v
    using writes_comp[OF writes_comp[OF writes_byteRepeatedly[of "0x55" 6] writes_byte[of u]] writes_byte[of v]] by simp
  show ?thesis
    by (cases "fh_preambleType h") (simp_all add: serialize_fragment_phy_def[abs_def] fragment_phy_bits_def fragment_phy_octets_def
        PREAMBLE_BYTES_def Let_def one two)
qed

lemma reads_two_bytes:
  assumes "reads m bs x"
  shows "reads (State_Monad.bind m (\<lambda>a. State_Monad.bind readByte (\<lambda>b. State_Monad.bind readByte (\<lambda>c. State_Monad.return (f a b c)))))
     (bs @ byte_bits u @ byte_bits v) (f x u v)"
proof -
  have "reads (State_Monad.bind readByte (\<lambda>b. State_Monad.bind readByte (\<lambda>c. State_Monad.return (f x b c)))) (byte_bits u @ byte_bits v) (f x u v)"
    by (rule reads_bind[OF reads_byte]) (rule reads_bind_return[OF reads_byte])
  then show ?thesis
    by (rule reads_bind[OF assms, where f = "\<lambda>a. State_Monad.bind readByte (\<lambda>b. State_Monad.bind readByte (\<lambda>c. State_Monad.return (f a b c)))"])
qed

lemma reads_fragment_phy:
  "reads deserialize_fragment_phy (fragment_phy_bits h)
     (if fst (fragment_phy_octets h) = 0x55
      then (if snd (fragment_phy_octets h) = 0xD5 then default_phy_header\<lparr>fh_preambleType := SFD\<rparr>
            else \<lparr>fh_preambleType = SMD_Sx, fh_smdNumber = find_value (snd (fragment_phy_octets h)) smdSxValues, fh_fragmentNumber = 0\<rparr>)
      else \<lparr>fh_preambleType = SMD_Cx, fh_smdNumber = find_value (snd (fragment_phy_octets h)) smdCxValues,
        fh_fragmentNumber = find_value (snd (fragment_phy_octets h)) fragmentNumberValues\<rparr>, True)"
proof -
  have "PREAMBLE_BYTES - 1 = 6" by (simp add: PREAMBLE_BYTES_def)
  then show ?thesis unfolding deserialize_fragment_phy_def fragment_phy_bits_def
    by (simp only:) (rule reads_two_bytes[OF reads_preamble])
qed

lemma below_4: "x < 4 \<longleftrightarrow> x = 0 \<or> x = 1 \<or> x = 2 \<or> x = (3 :: 8 word)"
  by uint_arith

lemma find_sx: "x < 4 \<Longrightarrow> smdSxValues ! unat x \<noteq> 0xD5 \<and> find_value (smdSxValues ! unat x) smdSxValues = x"
  by (auto simp: below_4 smdSxValues_def find_value_def)

lemma find_cx: "x < 4 \<Longrightarrow> smdCxValues ! unat x \<noteq> 0x55" for x :: "8 word"
  unfolding below_4 by (auto simp: smdCxValues_def)

lemma find_fragment_number:
  "x < 4 \<Longrightarrow> find_value (fragmentNumberValues ! unat x) fragmentNumberValues = x \<and> find_value (fragmentNumberValues ! unat x) smdCxValues = 4"
  by (auto simp: below_4 smdCxValues_def fragmentNumberValues_def find_value_def)

text \<open>The header of a frame's first fragment is read back.\<close>

definition start_header :: "fragment_phy_header \<Rightarrow> bool" where
  "start_header h \<longleftrightarrow> fh_preambleType h = SMD_Sx \<and> fh_smdNumber h < 4 \<and> fh_fragmentNumber h = 0"

interpretation fragment_phy: codec "\<lambda>(h, ok). serialize_fragment_phy h" deserialize_fragment_phy "\<lambda>(h, ok). start_header h \<and> ok" "\<lambda>(h, ok). fragment_phy_bits h"
proof
  fix a :: "fragment_phy_header \<times> bool" assume a: "case a of (h, ok) \<Rightarrow> start_header h \<and> ok"
  obtain h where h: "a = (h, True)" "start_header h" using a by (cases a) auto
  show "writes (case a of (h, ok) \<Rightarrow> serialize_fragment_phy h) (case a of (h, ok) \<Rightarrow> fragment_phy_bits h)" by (simp add: h writes_fragment_phy)
  have "reads deserialize_fragment_phy (fragment_phy_bits h) (h, True)"
    using reads_fragment_phy[of h] h(2) find_sx[of "fh_smdNumber h"] by (cases h) (simp add: start_header_def fragment_phy_octets_def)
  then show "reads deserialize_fragment_phy (case a of (h, ok) \<Rightarrow> fragment_phy_bits h) a" by (simp add: h)
qed

text \<open>
  The header of a fragment as octets: a first fragment's header is read back as it was written, but the header of a
  continuation comes back with frame number 4, which no sender uses, whatever its frame number was.
\<close>

theorem fragment_headers_read_back:
  assumes "fh_smdNumber h < 4" "fh_fragmentNumber h < 4" "fh_preambleType h = SMD_Cx \<or> fh_preambleType h = SMD_Sx \<and> fh_fragmentNumber h = 0"
  shows "\<exists>s. run_state deserialize_fragment_phy (reopen (serialize_fragment_phy h empty_ostream)) =
      ((if fh_preambleType h = SMD_Sx then h else h\<lparr>fh_smdNumber := 4\<rparr>, True), s) \<and> is_rest s = []"
proof -
  have "reads deserialize_fragment_phy (fragment_phy_bits h) (if fh_preambleType h = SMD_Sx then h else h\<lparr>fh_smdNumber := 4\<rparr>, True)"
    using reads_fragment_phy[of h] assms find_sx[of "fh_smdNumber h"] find_cx[of "fh_smdNumber h"] find_fragment_number[of "fh_fragmentNumber h"]
    by (cases h) (auto simp: fragment_phy_octets_def)
  from write_read[OF writes_fragment_phy this] show ?thesis by blast
qed

text \<open>Such a header does not continue the frame: it is dropped, or taken for the beginning of a frame.\<close>

lemma continuation_misread:
  assumes "pc_smdNumber s < 4"
  shows "phy_matches True (h\<lparr>fh_smdNumber := 4\<rparr>) s \<Longrightarrow> fh_preambleType h = SMD_Cx \<Longrightarrow>
    fh_fragmentNumber h = 0 \<and> map_option (\<lambda>(t, s). ft_firstFragment t) (phy_process (h\<lparr>fh_smdNumber := 4\<rparr>) s) = Some True"
  using assms by (auto simp: phy_matches_def phy_process_def)

text \<open>
  The checker tells frames apart by their number alone. When three frames are lost after one that was sent whole, the next
  frame has the number of the last one: its only fragment is taken for a continuation and the defragmenter drops it.
\<close>

lemma equal_frame_number_dropped:
  assumes "fh_preambleType h = SMD_Sx" "fh_fragmentNumber h = 0" "pc_smdNumber s = uint (fh_smdNumber h)" "pc_fragmentNumber s = 0"
  shows "phy_matches True h s \<and> (\<exists>t s'. phy_process h s = Some (t, s') \<and> ft_fragmentNumber t = 1 \<and>
    (\<forall>l p. tag_defragmenter_pushPacket (p\<lparr>fp_tag := Some (t\<lparr>ft_lastFragment := l\<rparr>)\<rparr>) idle_defragmenter = Some ([], idle_defragmenter)))"
  using assms by (simp add: phy_matches_def phy_process_def tag_defragmenter_pushPacket_def defragmentPacket_def idle_defragmenter_def)

section \<open>Witnesses\<close>

definition aligned_mac :: "packetq preempting_mac" where
  "aligned_mac = example_mac\<lparr>xm_preemptableStreamer := (xm_preemptableStreamer example_mac)\<lparr>pt_minPacketLength := 8, pt_roundingLength := 8\<rparr>\<rparr>"

definition aligned_events :: "(simtime \<times> qpacket xm_event) list" where
  "aligned_events =
     [(0, PreemptablePacket (bit_packet 1 24) True), (5, ExpressPacket (bit_packet 2 8) False), (8, ConsumerProcessed),
      (9, ConsumerChanged True), (17, ServerTimer), (18, ConsumerProcessed), (19, ConsumerChanged True), (37, ServerTimer)]"

definition idle_sender :: wire_sender where
  "idle_sender = \<lparr>ws_fcs = \<lparr>ff_lastFragmentCompleteFcs = 0, ff_currentFragmentCompleteFcs = 0\<rparr>,
     ws_phy = \<lparr>pi_smdNumber = 0, pi_fragmentNumber = 0\<rparr>\<rparr>"

definition idle_receiver :: wire_receiver where
  "idle_receiver = \<lparr>wr_phy = \<lparr>pc_smdNumber = -1, pc_fragmentNumber = 0\<rparr>,
     wr_fcs = \<lparr>ff_lastFragmentCompleteFcs = 0, ff_currentFragmentCompleteFcs = 0\<rparr>, wr_defragmenter = idle_defragmenter\<rparr>"

lemma aligned_run:
  "map_option (map (\<lambda>(t, e). (t, case e of PushStart p \<Rightarrow> (True, length (fp_data p)) | PushEnd p \<Rightarrow> (False, length (fp_data p)))) \<circ> fst)
     (xm_run bit_times (frame_queue 0 bit_frame) aligned_events aligned_mac) =
   Some [(0, True, 24), (5, False, 8), (9, True, 8), (17, False, 8), (19, True, 16), (37, False, 16)]"
  by (simp add: preemption_eval aligned_mac_def aligned_events_def)

lemma bit_frame_plain: "plain_name (fp_name (bit_frame p))"
  by (simp add: bit_frame_def new_packet_def plain_name_def)

theorem fragment_headers_read_back_witness:
  "\<exists>s. run_state deserialize_fragment_phy (reopen (serialize_fragment_phy
      \<lparr>fh_preambleType = SMD_Cx, fh_smdNumber = 2, fh_fragmentNumber = 1\<rparr> empty_ostream)) =
    ((\<lparr>fh_preambleType = SMD_Cx, fh_smdNumber = 4, fh_fragmentNumber = 1\<rparr>, True), s)"
  using fragment_headers_read_back[of "\<lparr>fh_preambleType = SMD_Cx, fh_smdNumber = 2, fh_fragmentNumber = 1\<rparr>"] by auto

theorem preempted_frames_delivered_witness:
  "\<exists>outs s' (finished :: fpacket list) sender receiver. xm_run bit_times (frame_queue 0 bit_frame) aligned_events aligned_mac = Some (outs, s') \<and>
     over_the_wire FCS_COMPUTED (ended_packets (map snd outs)) idle_sender idle_receiver =
       Some (express_ended (map snd outs), map (\<lambda>p. reassembled (fp_name p) (fp_data p)) finished, sender, receiver)"
proof -
  obtain outs s where r: "xm_run bit_times (frame_queue 0 bit_frame) aligned_events aligned_mac = Some (outs, s)"
    using aligned_run by (cases "xm_run bit_times (frame_queue 0 bit_frame) aligned_events aligned_mac") auto
  have a: "xm_start aligned_mac" using example_mac_start by (simp add: aligned_mac_def xm_start_def xm_config_def)
  have b: "xm_schedule bit_times (frame_queue 0 bit_frame) 0 False aligned_events aligned_mac"
    by (simp add: preemption_eval aligned_mac_def aligned_events_def)
  have c: "\<forall>p \<in> set (arrivals (express_arrived (frame_queue 0 bit_frame)) aligned_events) \<union>
      set (arrivals (preemptable_arrived (frame_queue 0 bit_frame)) aligned_events). frame_sendable p"
    by (simp add: aligned_events_def frame_sendable_def frame_queue_def bit_frame_def bit_packet_def new_packet_def plain_name_def)
  have d: "8 dvd pt_minPacketLength (xm_preemptableStreamer aligned_mac)" "8 dvd pt_roundingLength (xm_preemptableStreamer aligned_mac)"
    by (simp_all add: aligned_mac_def)
  have e: "mode_checked FCS_COMPUTED" "link_between idle_sender idle_receiver"
    by (simp_all add: mode_checked_def link_between_def idle_sender_def idle_receiver_def)
  from preempted_frames_delivered[OF a b c d r e] r show ?thesis by blast
qed

end
