(* ===== verification/Z3_Scheduling.thy ===== *)
theory Z3_Scheduling
  imports Gate_Scheduling Fragmentation "HOL-Library.List_Lexorder" "HOL-Library.Char_ord" "HOL-Library.Sublist"
begin

text \<open>
  The gate scheduler that asks a constraint solver (src/inet/src/inet/linklayer/configurator/gatescheduling/z3/
  Z3GateScheduleConfigurator.cc and .h): the constraints it generates, the schedule it reads from a solution, and what
  every solution guarantees.

  A variable is its name; the names are built from the paths of the modules and the names of the flows, and the
  variables of a port or gate are found by searching their names. The solver is a parameter: it gets the constraints and
  the expression to minimize, and returns values of the variables. \<open>special\<close> tells which characters make the solver quote a
  name when it prints it. Values are real numbers, \<open>conv\<close> converts a \<open>double\<close> number of seconds to a time.
\<close>

section \<open>Input\<close>

record z3_app =
  za_module :: string
  za_packetLength :: int
  za_packetInterval :: simtime
  za_maxLatency :: simtime
  za_maxJitter :: simtime

text \<open>\<open>zp_port\<close> stands for the pointer to the port.\<close>

record z3_port =
  zp_port :: iface
  zp_module :: string
  zp_numGates :: int
  zp_datarate :: real
  zp_propagationTime :: simtime
  zp_cutthroughSwitchingEnabled :: bool

record z3_path =
  pf_networkNodes :: "node list"
  pf_inputPorts :: "z3_port list"
  pf_outputPorts :: "z3_port list"

record z3_flow =
  zf_name :: string
  zf_gateIndex :: int
  zf_cutthroughSwitchingHeaderSize :: int
  zf_startApplication :: z3_app
  zf_pathFragments :: "z3_path list"

record z3_input =
  zi_applications :: "z3_app list"
  zi_ports :: "z3_port list"
  zi_flows :: "z3_flow list"

section \<open>Expressions\<close>

datatype zexpr = ZVar string | ZReal real | ZAdd zexpr zexpr | ZSub zexpr zexpr | ZMul zexpr zexpr | ZDiv zexpr zexpr

datatype zassert = ZEq zexpr zexpr | ZLe zexpr zexpr | ZLess zexpr zexpr | ZOr zassert zassert | ZIff zassert zassert

type_synonym zmodel = "string \<Rightarrow> real"

primrec zvalue :: "zmodel \<Rightarrow> zexpr \<Rightarrow> real" where
  "zvalue v (ZVar n) = v n"
| "zvalue v (ZReal r) = r"
| "zvalue v (ZAdd a b) = zvalue v a + zvalue v b"
| "zvalue v (ZSub a b) = zvalue v a - zvalue v b"
| "zvalue v (ZMul a b) = zvalue v a * zvalue v b"
| "zvalue v (ZDiv a b) = zvalue v a / zvalue v b"

primrec holds :: "zmodel \<Rightarrow> zassert \<Rightarrow> bool" where
  "holds v (ZEq a b) \<longleftrightarrow> zvalue v a = zvalue v b"
| "holds v (ZLe a b) \<longleftrightarrow> zvalue v a \<le> zvalue v b"
| "holds v (ZLess a b) \<longleftrightarrow> zvalue v a < zvalue v b"
| "holds v (ZOr p q) \<longleftrightarrow> holds v p \<or> holds v q"
| "holds v (ZIff p q) \<longleftrightarrow> holds v p = holds v q"

primrec zexpr_vars :: "zexpr \<Rightarrow> string list" where
  "zexpr_vars (ZVar n) = [n]"
| "zexpr_vars (ZReal r) = []"
| "zexpr_vars (ZAdd a b) = zexpr_vars a @ zexpr_vars b"
| "zexpr_vars (ZSub a b) = zexpr_vars a @ zexpr_vars b"
| "zexpr_vars (ZMul a b) = zexpr_vars a @ zexpr_vars b"
| "zexpr_vars (ZDiv a b) = zexpr_vars a @ zexpr_vars b"

primrec zassert_vars :: "zassert \<Rightarrow> string list" where
  "zassert_vars (ZEq a b) = zexpr_vars a @ zexpr_vars b"
| "zassert_vars (ZLe a b) = zexpr_vars a @ zexpr_vars b"
| "zassert_vars (ZLess a b) = zexpr_vars a @ zexpr_vars b"
| "zassert_vars (ZOr p q) = zassert_vars p @ zassert_vars q"
| "zassert_vars (ZIff p q) = zassert_vars p @ zassert_vars q"

text \<open>A time in decimal digits, as the solver reads it.\<close>

definition secs :: "simtime \<Rightarrow> real" where
  "secs t = of_int t / 10 ^ 12"

section \<open>Variables\<close>

definition int_to_string :: "int \<Rightarrow> string" where
  "int_to_string i = (if i < 0 then ''-'' @ to_string (nat (- i)) else to_string (nat i))"

text \<open>The name of the network is cut from the path of a module.\<close>

definition getFullPath :: "string \<Rightarrow> string" where
  "getFullPath p = (if CHR ''.'' \<in> set p then tl (dropWhile (\<lambda>c. c \<noteq> CHR ''.'') p) else p)"

definition getPacketCount :: "simtime \<Rightarrow> z3_flow \<Rightarrow> int option" where
  "getPacketCount gateCycleDuration flow =
     (let packetInterval = za_packetInterval (zf_startApplication flow);
          n = gateCycleDuration div packetInterval
      in if gateCycleDuration \<noteq> n * packetInterval then None else Some n)"

definition gateCycleDurationVariable :: zexpr where
  "gateCycleDurationVariable = ZVar ''gateCycleDuration''"

definition interframeGapVariable :: "z3_port \<Rightarrow> string" where
  "interframeGapVariable port = getFullPath (zp_module port) @ ''.interframeGap''"

definition applicationStartTimeVariable :: "z3_app \<Rightarrow> zexpr" where
  "applicationStartTimeVariable a = ZVar (getFullPath (za_module a) @ ''.startTime'')"

definition packetIntervalVariable :: "z3_app \<Rightarrow> zexpr" where
  "packetIntervalVariable a = ZVar (getFullPath (za_module a) @ ''.packetInterval'')"

definition propagationTimeVariable :: "z3_port \<Rightarrow> zexpr" where
  "propagationTimeVariable port = ZVar (getFullPath (zp_module port) @ ''.propagationTime'')"

definition transmissionDurationVariable :: "z3_flow \<Rightarrow> z3_port \<Rightarrow> zexpr" where
  "transmissionDurationVariable flow port = ZVar (zf_name flow @ ''.'' @ getFullPath (zp_module port) @ ''.transmissionDuration'')"

text \<open>What the names of the four times of a packet at a port have in common.\<close>

definition packet_port :: "z3_flow \<Rightarrow> nat \<Rightarrow> z3_port \<Rightarrow> string" where
  "packet_port flow packetIndex port =
     zf_name flow @ ''.packet'' @ to_string packetIndex @ ''.'' @ getFullPath (zp_module port) @ ''.gate'' @
     int_to_string (zf_gateIndex flow) @ ''.''"

definition transmissionStartTimeVariable :: "z3_flow \<Rightarrow> nat \<Rightarrow> z3_port \<Rightarrow> zexpr" where
  "transmissionStartTimeVariable flow k port = ZVar (packet_port flow k port @ ''transmissionStartTime'')"

definition transmissionEndTimeVariable :: "z3_flow \<Rightarrow> nat \<Rightarrow> z3_port \<Rightarrow> zexpr" where
  "transmissionEndTimeVariable flow k port = ZVar (packet_port flow k port @ ''transmissionEndTime'')"

definition receptionStartTimeVariable :: "z3_flow \<Rightarrow> nat \<Rightarrow> z3_port \<Rightarrow> zexpr" where
  "receptionStartTimeVariable flow k port = ZVar (packet_port flow k port @ ''receptionStartTime'')"

definition receptionEndTimeVariable :: "z3_flow \<Rightarrow> nat \<Rightarrow> z3_port \<Rightarrow> zexpr" where
  "receptionEndTimeVariable flow k port = ZVar (packet_port flow k port @ ''receptionEndTime'')"

definition maxEndToEndDelayVariable :: "z3_flow \<Rightarrow> zexpr" where
  "maxEndToEndDelayVariable flow = ZVar (zf_name flow @ ''.maxEndToEndDelay'')"

definition maxJitterVariable :: "z3_flow \<Rightarrow> zexpr" where
  "maxJitterVariable flow = ZVar (zf_name flow @ ''.maxJitter'')"

definition endToEndDelayVariable :: "z3_flow \<Rightarrow> nat \<Rightarrow> zexpr" where
  "endToEndDelayVariable flow k = ZVar (zf_name flow @ ''.packet'' @ to_string k @ ''.endToEndDelay'')"

definition totalEndToEndDelayVariable :: zexpr where
  "totalEndToEndDelayVariable = ZVar ''totalEndToEndDelay''"

definition averageEndToEndDelayVariable :: "z3_flow \<Rightarrow> zexpr" where
  "averageEndToEndDelayVariable flow = ZVar (zf_name flow @ ''.averageEndToEndDelay'')"

text \<open>
  The solver prints a name between bars when it has a special character. The variables of a port, and of a gate
  unless it is -1, are those whose names contain the strings; they are sorted as they are printed.
\<close>

definition z3_show :: "(char \<Rightarrow> bool) \<Rightarrow> string \<Rightarrow> string" where
  "z3_show special n = (if list_ex special n then ''|'' @ n @ ''|'' else n)"

definition time_variable :: "z3_port \<Rightarrow> int \<Rightarrow> string \<Rightarrow> string \<Rightarrow> bool" where
  "time_variable port gateIndex part n \<longleftrightarrow>
     sublist part n \<and> sublist (getFullPath (zp_module port)) n \<and>
     (gateIndex = -1 \<or> sublist (''gate'' @ int_to_string gateIndex) n)"

definition getTimeVariables :: "(char \<Rightarrow> bool) \<Rightarrow> string list \<Rightarrow> z3_port \<Rightarrow> int \<Rightarrow> string \<Rightarrow> string list" where
  "getTimeVariables special variables port gateIndex part =
     sort_key (z3_show special) (filter (time_variable port gateIndex part) (remdups variables))"

definition transmissionStartTimeVariables :: "(char \<Rightarrow> bool) \<Rightarrow> string list \<Rightarrow> z3_port \<Rightarrow> int \<Rightarrow> string list" where
  "transmissionStartTimeVariables special variables port gateIndex = getTimeVariables special variables port gateIndex ''transmissionStartTime''"

definition transmissionEndTimeVariables :: "(char \<Rightarrow> bool) \<Rightarrow> string list \<Rightarrow> z3_port \<Rightarrow> int \<Rightarrow> string list" where
  "transmissionEndTimeVariables special variables port gateIndex = getTimeVariables special variables port gateIndex ''transmissionEndTime''"

definition receptionEndTimeVariables :: "(char \<Rightarrow> bool) \<Rightarrow> string list \<Rightarrow> z3_port \<Rightarrow> int \<Rightarrow> string list" where
  "receptionEndTimeVariables special variables port gateIndex = getTimeVariables special variables port gateIndex ''receptionEndTime''"

section \<open>Constraints\<close>

text \<open>1. Application start times.\<close>

definition application_asserts :: "z3_app \<Rightarrow> zassert list" where
  "application_asserts a =
     [ZLe (ZReal 0) (applicationStartTimeVariable a), ZLess (applicationStartTimeVariable a) gateCycleDurationVariable]"

text \<open>The hops of a path fragment: the index of the node, the port that sends and the port that receives.\<close>

type_synonym hop = "nat \<times> z3_port \<times> z3_port"

definition path_hops :: "z3_path \<Rightarrow> hop list" where
  "path_hops p = map (\<lambda>nodeIndex. (nodeIndex, pf_outputPorts p ! nodeIndex, pf_inputPorts p ! nodeIndex)) [0..<length (pf_networkNodes p) - 1]"

definition flow_hops :: "z3_flow \<Rightarrow> hop list" where
  "flow_hops flow = concat (map path_hops (zf_pathFragments flow))"

definition packets_of :: "simtime \<Rightarrow> z3_flow \<Rightarrow> nat list" where
  "packets_of gateCycleDuration flow = (case getPacketCount gateCycleDuration flow of Some n \<Rightarrow> [0..<nat n] | None \<Rightarrow> [])"

text \<open>2. Start, end and duration of the transmission and reception of a packet on a hop.\<close>

definition transmission_asserts :: "(real \<Rightarrow> int) \<Rightarrow> z3_flow \<Rightarrow> nat \<Rightarrow> hop \<Rightarrow> zassert list" where
  "transmission_asserts conv flow k h =
     (case h of (nodeIndex, transmissionPort, receptionPort) \<Rightarrow>
       let transmissionDuration = conv (of_int (za_packetLength (zf_startApplication flow)) / zp_datarate transmissionPort)
       in [ZEq (transmissionDurationVariable flow transmissionPort) (ZReal (secs transmissionDuration)),
           ZEq (ZAdd (transmissionStartTimeVariable flow k transmissionPort) (transmissionDurationVariable flow transmissionPort))
               (transmissionEndTimeVariable flow k transmissionPort),
           ZLe (ZReal 0) (transmissionStartTimeVariable flow k transmissionPort),
           ZLess (transmissionStartTimeVariable flow k transmissionPort) gateCycleDurationVariable,
           ZEq (ZAdd (receptionStartTimeVariable flow k receptionPort) (transmissionDurationVariable flow transmissionPort))
               (receptionEndTimeVariable flow k receptionPort),
           ZEq (propagationTimeVariable transmissionPort) (ZReal (secs (zp_propagationTime transmissionPort))),
           ZEq (ZAdd (transmissionStartTimeVariable flow k transmissionPort) (propagationTimeVariable transmissionPort))
               (receptionStartTimeVariable flow k receptionPort)])"

definition flow_transmission_asserts :: "(real \<Rightarrow> int) \<Rightarrow> simtime \<Rightarrow> z3_flow \<Rightarrow> zassert list" where
  "flow_transmission_asserts conv gateCycleDuration flow =
     concat (map (\<lambda>k. concat (map (transmission_asserts conv flow k) (flow_hops flow))) (packets_of gateCycleDuration flow))"

text \<open>3. A hop starts after the one before it; the first hop of a fragment starts with the application.\<close>

definition hop_assert :: "(real \<Rightarrow> int) \<Rightarrow> z3_flow \<Rightarrow> nat \<Rightarrow> (zexpr \<times> zexpr) option \<Rightarrow> hop \<Rightarrow> zassert list" where
  "hop_assert conv flow k previous h =
     (case h of (nodeIndex, transmissionPort, receptionPort) \<Rightarrow>
        if nodeIndex = 0
        then [ZEq (ZAdd (applicationStartTimeVariable (zf_startApplication flow))
                        (ZMul (packetIntervalVariable (zf_startApplication flow)) (ZReal (of_nat k))))
                  (transmissionStartTimeVariable flow k transmissionPort)]
        else (case previous of None \<Rightarrow> []
          | Some (receptionStart, receptionEnd) \<Rightarrow>
              if zp_cutthroughSwitchingEnabled transmissionPort \<and> zp_cutthroughSwitchingEnabled receptionPort \<and>
                 zf_cutthroughSwitchingHeaderSize flow \<noteq> 0
              then [ZLe (ZAdd receptionStart (ZReal (secs (conv (of_int (zf_cutthroughSwitchingHeaderSize flow) / zp_datarate receptionPort)))))
                        (transmissionStartTimeVariable flow k transmissionPort)]
              else [ZLe receptionEnd (transmissionStartTimeVariable flow k transmissionPort)]))"

definition reception_times :: "z3_flow \<Rightarrow> nat \<Rightarrow> hop \<Rightarrow> zexpr \<times> zexpr" where
  "reception_times flow k h =
     (case h of (nodeIndex, transmissionPort, receptionPort) \<Rightarrow>
        (receptionStartTimeVariable flow k receptionPort, receptionEndTimeVariable flow k receptionPort))"

fun chain_asserts :: "(real \<Rightarrow> int) \<Rightarrow> z3_flow \<Rightarrow> nat \<Rightarrow> (zexpr \<times> zexpr) option \<Rightarrow> hop list \<Rightarrow> zassert list" where
  "chain_asserts conv flow k previous [] = []"
| "chain_asserts conv flow k previous (h # hs) =
     hop_assert conv flow k previous h @ chain_asserts conv flow k (Some (reception_times flow k h)) hs"

definition has_maxLatency :: "z3_flow \<Rightarrow> bool" where
  "has_maxLatency flow \<longleftrightarrow> za_maxLatency (zf_startApplication flow) > 0"

definition packet_asserts :: "(real \<Rightarrow> int) \<Rightarrow> z3_flow \<Rightarrow> nat \<Rightarrow> zassert list" where
  "packet_asserts conv flow k =
     chain_asserts conv flow k None (flow_hops flow) @
     [ZEq (endToEndDelayVariable flow k)
          (ZSub (snd (reception_times flow k (last (flow_hops flow))))
                (transmissionStartTimeVariable flow k (fst (snd (hd (flow_hops flow))))))] @
     (if has_maxLatency flow then [ZLe (endToEndDelayVariable flow k) (maxEndToEndDelayVariable flow)] else [])"

definition flow_delay_asserts :: "(real \<Rightarrow> int) \<Rightarrow> simtime \<Rightarrow> z3_flow \<Rightarrow> zassert list" where
  "flow_delay_asserts conv gateCycleDuration flow =
     [ZEq (packetIntervalVariable (zf_startApplication flow)) (ZReal (secs (za_packetInterval (zf_startApplication flow))))] @
     concat (map (packet_asserts conv flow) (packets_of gateCycleDuration flow)) @
     (if has_maxLatency flow
      then [ZEq (maxEndToEndDelayVariable flow) (ZReal (secs (za_maxLatency (zf_startApplication flow))))] else [])"

definition total_delay_assert :: "simtime \<Rightarrow> z3_flow list \<Rightarrow> zassert" where
  "total_delay_assert gateCycleDuration flows =
     ZEq totalEndToEndDelayVariable
       (foldl ZAdd (ZReal 0) (concat (map (\<lambda>flow. map (endToEndDelayVariable flow) (packets_of gateCycleDuration flow)) flows)))"

text \<open>4. Jitter.\<close>

definition jitter_asserts :: "simtime \<Rightarrow> z3_flow \<Rightarrow> zassert list" where
  "jitter_asserts gateCycleDuration flow =
     (let ks = packets_of gateCycleDuration flow
      in [ZEq (averageEndToEndDelayVariable flow)
              (ZDiv (foldl ZAdd (ZReal 0) (map (endToEndDelayVariable flow) ks)) (ZReal (of_nat (length ks))))] @
         map (\<lambda>k. ZLe (ZSub (averageEndToEndDelayVariable flow) (endToEndDelayVariable flow k)) (maxJitterVariable flow)) ks @
         [ZEq (maxJitterVariable flow) (ZReal 0)])"

definition timing_asserts :: "(real \<Rightarrow> int) \<Rightarrow> simtime \<Rightarrow> z3_input \<Rightarrow> zassert list" where
  "timing_asserts conv gateCycleDuration inp =
     [ZEq gateCycleDurationVariable (ZReal (secs gateCycleDuration))] @
     concat (map application_asserts (zi_applications inp)) @
     concat (map (flow_transmission_asserts conv gateCycleDuration) (zi_flows inp)) @
     concat (map (flow_delay_asserts conv gateCycleDuration) (zi_flows inp)) @
     [total_delay_assert gateCycleDuration (zi_flows inp)] @
     concat (map (jitter_asserts gateCycleDuration) (zi_flows inp))"

text \<open>5. One transmission at a time on a port; the variable of the gap is created before the search.\<close>

definition all_pairs :: "nat \<Rightarrow> (nat \<Rightarrow> nat \<Rightarrow> zassert list) \<Rightarrow> zassert list" where
  "all_pairs n f = concat (map (\<lambda>i. concat (map (f i) [Suc i..<n])) [0..<n])"

definition port_exclusive_asserts :: "(real \<Rightarrow> int) \<Rightarrow> (char \<Rightarrow> bool) \<Rightarrow> string list \<Rightarrow> z3_port \<Rightarrow> zassert list" where
  "port_exclusive_asserts conv special variables port =
     (let starts = transmissionStartTimeVariables special variables port (-1);
          ends = transmissionEndTimeVariables special variables port (-1);
          gap = ZVar (interframeGapVariable port)
      in ZEq gap (ZReal (secs (conv (96 / zp_datarate port)))) #
         all_pairs (length starts) (\<lambda>i j. [ZOr (ZLe (ZAdd (ZVar (ends ! i)) gap) (ZVar (starts ! j)))
                                           (ZLe (ZAdd (ZVar (ends ! j)) gap) (ZVar (starts ! i)))]))"

fun exclusive_asserts :: "(real \<Rightarrow> int) \<Rightarrow> (char \<Rightarrow> bool) \<Rightarrow> string list \<Rightarrow> z3_port list \<Rightarrow> zassert list" where
  "exclusive_asserts conv special variables [] = []"
| "exclusive_asserts conv special variables (port # ports) =
     (let variables = variables @ [interframeGapVariable port]
      in port_exclusive_asserts conv special variables port @ exclusive_asserts conv special variables ports)"

text \<open>6. Packets of a gate are sent in the order in which packets are received.\<close>

definition order_asserts :: "(char \<Rightarrow> bool) \<Rightarrow> string list \<Rightarrow> z3_port \<Rightarrow> int \<Rightarrow> zassert list" where
  "order_asserts special variables port gateIndex =
     (let ends = transmissionEndTimeVariables special variables port gateIndex;
          recs = receptionEndTimeVariables special variables port gateIndex
      in all_pairs (length ends) (\<lambda>i j. if i < length recs \<and> j < length recs
           then [ZIff (ZLess (ZVar (recs ! i)) (ZVar (recs ! j))) (ZLess (ZVar (ends ! i)) (ZVar (ends ! j)))] else []))"

text \<open>7. Traffic classes.\<close>

definition class_asserts :: "(char \<Rightarrow> bool) \<Rightarrow> string list \<Rightarrow> z3_port \<Rightarrow> int \<Rightarrow> int \<Rightarrow> zassert list" where
  "class_asserts special variables port gateIndexI gateIndexJ =
     (let startsI = transmissionStartTimeVariables special variables port gateIndexI;
          recsI = receptionEndTimeVariables special variables port gateIndexI;
          startsJ = transmissionStartTimeVariables special variables port gateIndexJ
      in concat (map (\<lambda>i. if i < length startsI
           then map (\<lambda>startJ. ZOr (ZLe (ZVar startJ) (ZVar (recsI ! i))) (ZLe (ZVar (startsI ! i)) (ZVar startJ))) startsJ
           else []) [0..<length recsI]))"

definition port_queue_asserts :: "(char \<Rightarrow> bool) \<Rightarrow> string list \<Rightarrow> z3_port \<Rightarrow> zassert list" where
  "port_queue_asserts special variables port =
     concat (map (order_asserts special variables port) [0..zp_numGates port - 1])"

definition port_class_asserts :: "(char \<Rightarrow> bool) \<Rightarrow> string list \<Rightarrow> z3_port \<Rightarrow> zassert list" where
  "port_class_asserts special variables port =
     concat (map (\<lambda>gateIndexI. concat (map (class_asserts special variables port gateIndexI) [gateIndexI + 1..zp_numGates port - 1]))
       [0..zp_numGates port - 1])"

definition z3_variables :: "(real \<Rightarrow> int) \<Rightarrow> simtime \<Rightarrow> z3_input \<Rightarrow> string list" where
  "z3_variables conv gateCycleDuration inp = concat (map zassert_vars (timing_asserts conv gateCycleDuration inp))"

definition all_variables :: "(real \<Rightarrow> int) \<Rightarrow> simtime \<Rightarrow> z3_input \<Rightarrow> string list" where
  "all_variables conv gateCycleDuration inp =
     z3_variables conv gateCycleDuration inp @ map interframeGapVariable (zi_ports inp)"

text \<open>A packet count that is no integer is an error, a flow without hops ends in a null pointer.\<close>

definition z3_asserts :: "(real \<Rightarrow> int) \<Rightarrow> (char \<Rightarrow> bool) \<Rightarrow> simtime \<Rightarrow> z3_input \<Rightarrow> zassert list option" where
  "z3_asserts conv special gateCycleDuration inp =
     do {
       ensure (\<forall>flow \<in> set (zi_flows inp). getPacketCount gateCycleDuration flow \<noteq> None \<and>
         (packets_of gateCycleDuration flow \<noteq> [] \<longrightarrow> flow_hops flow \<noteq> []));
       let variables = all_variables conv gateCycleDuration inp;
       Some (timing_asserts conv gateCycleDuration inp @
         exclusive_asserts conv special (z3_variables conv gateCycleDuration inp) (zi_ports inp) @
         concat (map (port_queue_asserts special variables) (zi_ports inp)) @
         concat (map (port_class_asserts special variables) (zi_ports inp)))
     }"

section \<open>The schedule of a solution\<close>

definition solution_slots :: "(real \<Rightarrow> int) \<Rightarrow> (char \<Rightarrow> bool) \<Rightarrow> string list \<Rightarrow> zmodel \<Rightarrow> z3_port \<Rightarrow> int \<Rightarrow> eslot list" where
  "solution_slots conv special variables v port gateIndex =
     (let starts = transmissionStartTimeVariables special variables port gateIndex;
          ends = transmissionEndTimeVariables special variables port gateIndex
      in map (\<lambda>i. \<lparr>gateOpenIndex = gateIndex, gateOpenTime = conv (v (starts ! i)), gateCloseTime = conv (v (ends ! i))\<rparr>)
           [0..<length starts])"

definition solution_schedule :: "(real \<Rightarrow> int) \<Rightarrow> (char \<Rightarrow> bool) \<Rightarrow> string list \<Rightarrow> zmodel \<Rightarrow> simtime \<Rightarrow> z3_port \<Rightarrow> int \<Rightarrow> gate_schedule" where
  "solution_schedule conv special variables v gateCycleDuration port gateIndex =
     gate_schedule_of gateCycleDuration (solution_slots conv special variables v port gateIndex) gateIndex"

text \<open>The output: the start times of the applications and the schedules of the gates of each port.\<close>

definition z3_computeGateScheduling ::
  "(real \<Rightarrow> int) \<Rightarrow> (char \<Rightarrow> bool) \<Rightarrow> (zassert list \<Rightarrow> zexpr option \<Rightarrow> zmodel option) \<Rightarrow> bool \<Rightarrow> simtime \<Rightarrow> z3_input \<Rightarrow>
   ((z3_app \<times> simtime) list \<times> (iface \<times> gate_schedule list) list) option" where
  "z3_computeGateScheduling conv special solve optimizeSchedule gateCycleDuration inp =
     do {
       asserts \<leftarrow> z3_asserts conv special gateCycleDuration inp;
       v \<leftarrow> solve asserts (if optimizeSchedule then Some totalEndToEndDelayVariable else None);
       let variables = all_variables conv gateCycleDuration inp;
       Some (map (\<lambda>a. (a, conv (zvalue v (applicationStartTimeVariable a)))) (zi_applications inp),
             map (\<lambda>port. (zp_port port, map (solution_schedule conv special variables v gateCycleDuration port) [0..zp_numGates port - 1]))
               (zi_ports inp))
     }"

section \<open>What every solution guarantees for a packet\<close>

definition z3_solution :: "(real \<Rightarrow> int) \<Rightarrow> (char \<Rightarrow> bool) \<Rightarrow> simtime \<Rightarrow> z3_input \<Rightarrow> zmodel \<Rightarrow> bool" where
  "z3_solution conv special c inp v \<longleftrightarrow>
     (case z3_asserts conv special c inp of Some asserts \<Rightarrow> \<forall>a \<in> set asserts. holds v a | None \<Rightarrow> False)"

definition tx_start :: "zmodel \<Rightarrow> z3_flow \<Rightarrow> nat \<Rightarrow> z3_port \<Rightarrow> real" where
  "tx_start v flow k port = v (packet_port flow k port @ ''transmissionStartTime'')"

definition tx_time :: "(real \<Rightarrow> int) \<Rightarrow> z3_flow \<Rightarrow> z3_port \<Rightarrow> real" where
  "tx_time conv flow port = secs (conv (of_int (za_packetLength (zf_startApplication flow)) / zp_datarate port))"

text \<open>When the packet that is sent on a port has arrived at the other end, and when its first bit has.\<close>

definition arrival_start :: "zmodel \<Rightarrow> z3_flow \<Rightarrow> nat \<Rightarrow> z3_port \<Rightarrow> real" where
  "arrival_start v flow k port = tx_start v flow k port + secs (zp_propagationTime port)"

definition arrival :: "(real \<Rightarrow> int) \<Rightarrow> zmodel \<Rightarrow> z3_flow \<Rightarrow> nat \<Rightarrow> z3_port \<Rightarrow> real" where
  "arrival conv v flow k port = arrival_start v flow k port + tx_time conv flow port"

lemma set_concat_map: "x \<in> set xs \<Longrightarrow> set (f x) \<subseteq> set (concat (map f xs))"
  by auto

lemma solution_timing: "z3_solution conv special c inp v \<Longrightarrow> a \<in> set (timing_asserts conv c inp) \<Longrightarrow> holds v a"
  by (auto simp: z3_solution_def z3_asserts_def ensure_def Let_def split: option.splits if_splits)

lemma solution_hops:
  "z3_solution conv special c inp v \<Longrightarrow> flow \<in> set (zi_flows inp) \<Longrightarrow> k \<in> set (packets_of c flow) \<Longrightarrow> flow_hops flow \<noteq> []"
  by (auto simp: z3_solution_def z3_asserts_def ensure_def Let_def split: option.splits if_splits)

lemma flow_asserts_timing:
  assumes "flow \<in> set (zi_flows inp)"
  shows "set (flow_transmission_asserts conv c flow) \<subseteq> set (timing_asserts conv c inp)"
    "set (flow_delay_asserts conv c flow) \<subseteq> set (timing_asserts conv c inp)"
    "set (jitter_asserts c flow) \<subseteq> set (timing_asserts conv c inp)"
  using assms by (auto simp: timing_asserts_def)

lemma cycle_variable: "z3_solution conv special c inp v \<Longrightarrow> zvalue v gateCycleDurationVariable = secs c"
  using solution_timing[of conv special c inp v "ZEq gateCycleDurationVariable (ZReal (secs c))"] by (simp add: timing_asserts_def)

lemma solution_transmission:
  assumes "z3_solution conv special c inp v" "flow \<in> set (zi_flows inp)" "k \<in> set (packets_of c flow)" "(i, tp, rp) \<in> set (flow_hops flow)"
  shows "v (packet_port flow k tp @ ''transmissionEndTime'') = tx_start v flow k tp + tx_time conv flow tp"
    "0 \<le> tx_start v flow k tp" "tx_start v flow k tp < secs c"
    "zvalue v (fst (reception_times flow k (i, tp, rp))) = arrival_start v flow k tp"
    "zvalue v (snd (reception_times flow k (i, tp, rp))) = arrival conv v flow k tp"
proof -
  have "set (transmission_asserts conv flow k (i, tp, rp)) \<subseteq> set (flow_transmission_asserts conv c flow)"
    unfolding flow_transmission_asserts_def
    by (rule subset_trans[OF set_concat_map[OF assms(4)] set_concat_map[where f = "\<lambda>k. concat (map (transmission_asserts conv flow k) (flow_hops flow))", OF assms(3)]])
  then have "\<forall>a \<in> set (transmission_asserts conv flow k (i, tp, rp)). holds v a"
    using solution_timing[OF assms(1)] flow_asserts_timing(1)[OF assms(2)] by blast
  then have h: "zvalue v (transmissionDurationVariable flow tp) = tx_time conv flow tp"
    "zvalue v (transmissionStartTimeVariable flow k tp) + zvalue v (transmissionDurationVariable flow tp) = zvalue v (transmissionEndTimeVariable flow k tp)"
    "0 \<le> zvalue v (transmissionStartTimeVariable flow k tp)" "zvalue v (transmissionStartTimeVariable flow k tp) < secs c"
    "zvalue v (receptionStartTimeVariable flow k rp) + zvalue v (transmissionDurationVariable flow tp) = zvalue v (receptionEndTimeVariable flow k rp)"
    "zvalue v (propagationTimeVariable tp) = secs (zp_propagationTime tp)"
    "zvalue v (transmissionStartTimeVariable flow k tp) + zvalue v (propagationTimeVariable tp) = zvalue v (receptionStartTimeVariable flow k rp)"
    using cycle_variable[OF assms(1)] by (simp_all add: transmission_asserts_def Let_def tx_time_def)
  then show "v (packet_port flow k tp @ ''transmissionEndTime'') = tx_start v flow k tp + tx_time conv flow tp"
    "0 \<le> tx_start v flow k tp" "tx_start v flow k tp < secs c"
    by (simp_all add: tx_start_def transmissionStartTimeVariable_def transmissionEndTimeVariable_def)
  have s: "tx_start v flow k tp = zvalue v (transmissionStartTimeVariable flow k tp)"
    by (simp add: tx_start_def transmissionStartTimeVariable_def)
  show "zvalue v (fst (reception_times flow k (i, tp, rp))) = arrival_start v flow k tp"
    using h(6,7) by (simp add: reception_times_def arrival_start_def s)
  show "zvalue v (snd (reception_times flow k (i, tp, rp))) = arrival conv v flow k tp"
    using h(1,5,6,7) by (simp add: reception_times_def arrival_def arrival_start_def s)
qed

lemma chain_first:
  "h \<in> set hs \<Longrightarrow> fst h = 0 \<Longrightarrow> set (hop_assert conv flow k None h) \<subseteq> set (chain_asserts conv flow k prev hs)"
  by (induction hs arbitrary: prev) (auto simp: hop_assert_def split: prod.splits)

lemma chain_next:
  "set (hop_assert conv flow k (Some (reception_times flow k h)) h') \<subseteq> set (chain_asserts conv flow k prev (us @ h # h' # vs))"
  by (induction us arbitrary: prev) auto

lemma path_hop: "i < length (pf_networkNodes p) - 1 \<Longrightarrow> path_hops p ! i = (i, pf_outputPorts p ! i, pf_inputPorts p ! i)"
  by (simp add: path_hops_def)

lemma flow_hops_next:
  assumes "p \<in> set (zf_pathFragments flow)" "Suc i < length (pf_networkNodes p) - 1"
  shows "\<exists>us vs. flow_hops flow = us @ path_hops p ! i # path_hops p ! Suc i # vs"
proof -
  obtain ps qs where f: "zf_pathFragments flow = ps @ p # qs" using assms(1) by (meson split_list)
  have l: "Suc i < length (path_hops p)" using assms(2) by (simp add: path_hops_def)
  then have "path_hops p = take i (path_hops p) @ path_hops p ! i # path_hops p ! Suc i # drop (Suc (Suc i)) (path_hops p)"
    by (metis Cons_nth_drop_Suc Suc_lessD append_take_drop_id)
  then show ?thesis unfolding flow_hops_def f by simp (metis append.assoc append_Cons)
qed

lemma flow_hop_in:
  "p \<in> set (zf_pathFragments flow) \<Longrightarrow> i < length (pf_networkNodes p) - 1 \<Longrightarrow> (i, pf_outputPorts p ! i, pf_inputPorts p ! i) \<in> set (flow_hops flow)"
  by (force simp: flow_hops_def path_hops_def)

lemma solution_packet:
  assumes "z3_solution conv special c inp v" "flow \<in> set (zi_flows inp)" "k \<in> set (packets_of c flow)" "a \<in> set (packet_asserts conv flow k)"
  shows "holds v a"
proof -
  have "set (packet_asserts conv flow k) \<subseteq> set (flow_delay_asserts conv c flow)" using assms(3) by (auto simp: flow_delay_asserts_def)
  then show ?thesis using solution_timing[OF assms(1)] flow_asserts_timing(2)[OF assms(2)] assms(4) by blast
qed

lemma solution_interval:
  assumes "z3_solution conv special c inp v" "flow \<in> set (zi_flows inp)"
  shows "zvalue v (packetIntervalVariable (zf_startApplication flow)) = secs (za_packetInterval (zf_startApplication flow))"
  using solution_timing[OF assms(1)] flow_asserts_timing(2)[OF assms(2), of conv c] by (force simp: flow_delay_asserts_def)

definition app_start :: "zmodel \<Rightarrow> z3_flow \<Rightarrow> real" where
  "app_start v flow = zvalue v (applicationStartTimeVariable (zf_startApplication flow))"

lemma solution_first_hop:
  assumes "z3_solution conv special c inp v" "flow \<in> set (zi_flows inp)" "k \<in> set (packets_of c flow)" "(0, tp, rp) \<in> set (flow_hops flow)"
  shows "tx_start v flow k tp = app_start v flow + of_nat k * secs (za_packetInterval (zf_startApplication flow))"
proof -
  have "set (hop_assert conv flow k None (0, tp, rp)) \<subseteq> set (packet_asserts conv flow k)"
    using chain_first[OF assms(4), of conv flow k None] by (auto simp: packet_asserts_def)
  then have "\<forall>a \<in> set (hop_assert conv flow k None (0, tp, rp)). holds v a" using solution_packet[OF assms(1-3)] by blast
  then show ?thesis using solution_interval[OF assms(1,2)]
    by (simp add: hop_assert_def app_start_def tx_start_def transmissionStartTimeVariable_def mult.commute)
qed

text \<open>When the next hop may start.\<close>

definition ready :: "(real \<Rightarrow> int) \<Rightarrow> zmodel \<Rightarrow> z3_flow \<Rightarrow> nat \<Rightarrow> z3_port \<Rightarrow> z3_port \<Rightarrow> z3_port \<Rightarrow> real" where
  "ready conv v flow k tp tp' rp' =
     (if zp_cutthroughSwitchingEnabled tp' \<and> zp_cutthroughSwitchingEnabled rp' \<and> zf_cutthroughSwitchingHeaderSize flow \<noteq> 0
      then arrival_start v flow k tp + secs (conv (of_int (zf_cutthroughSwitchingHeaderSize flow) / zp_datarate rp'))
      else arrival conv v flow k tp)"

lemma solution_next_hop:
  assumes "z3_solution conv special c inp v" "flow \<in> set (zi_flows inp)" "k \<in> set (packets_of c flow)"
    and "p \<in> set (zf_pathFragments flow)" "Suc i < length (pf_networkNodes p) - 1"
  shows "ready conv v flow k (pf_outputPorts p ! i) (pf_outputPorts p ! Suc i) (pf_inputPorts p ! Suc i) \<le> tx_start v flow k (pf_outputPorts p ! Suc i)"
proof -
  let ?h = "(i, pf_outputPorts p ! i, pf_inputPorts p ! i)" and ?h' = "(Suc i, pf_outputPorts p ! Suc i, pf_inputPorts p ! Suc i)"
  obtain us vs where "flow_hops flow = us @ ?h # ?h' # vs" using flow_hops_next[OF assms(4,5)] path_hop[of i p] path_hop[of "Suc i" p] assms(5) by auto
  then have "set (hop_assert conv flow k (Some (reception_times flow k ?h)) ?h') \<subseteq> set (packet_asserts conv flow k)"
    using chain_next[of conv flow k ?h ?h' None us vs] by (auto simp: packet_asserts_def)
  then have "\<forall>a \<in> set (hop_assert conv flow k (Some (reception_times flow k ?h)) ?h'). holds v a" using solution_packet[OF assms(1-3)] by blast
  moreover obtain rs re where r: "reception_times flow k ?h = (rs, re)" by fastforce
  moreover have "zvalue v rs = arrival_start v flow k (pf_outputPorts p ! i)" "zvalue v re = arrival conv v flow k (pf_outputPorts p ! i)"
    using solution_transmission(4,5)[OF assms(1-3) flow_hop_in[OF assms(4), of i]] assms(5) r by auto
  ultimately show ?thesis
    by (auto simp: hop_assert_def ready_def tx_start_def transmissionStartTimeVariable_def split: if_splits)
qed

lemma zvalue_foldl: "zvalue v (foldl ZAdd e es) = zvalue v e + sum_list (map (zvalue v) es)"
  by (induction es arbitrary: e) simp_all

lemma all_at_average:
  fixes ds :: "real list"
  assumes "\<forall>d \<in> set ds. sum_list ds / of_nat (length ds) \<le> d" "d \<in> set ds"
  shows "d = sum_list ds / of_nat (length ds)"
proof (rule ccontr)
  let ?a = "sum_list ds / of_nat (length ds)"
  assume ne: "d \<noteq> ?a"
  obtain us vs where ds: "ds = us @ d # vs" using assms(2) by (meson split_list)
  have le: "of_nat (length xs) * a \<le> sum_list xs" if "\<forall>d \<in> set xs. a \<le> d" for xs and a :: real
    using that by (induction xs) (auto simp: algebra_simps)
  define m where "m = ?a"
  have "of_nat (length (us @ vs)) * m + m < sum_list (us @ vs) + d"
    using le[of "us @ vs" m] assms ne ds unfolding m_def by force
  moreover have "of_nat (length (us @ vs)) * m + m = of_nat (length ds) * m" "sum_list (us @ vs) + d = sum_list ds"
    unfolding ds by (simp_all add: algebra_simps)
  ultimately have "of_nat (length ds) * m < sum_list ds" by simp
  moreover have "length ds \<noteq> 0" using ds by simp
  ultimately show False by (simp add: m_def)
qed

definition delay_of :: "zmodel \<Rightarrow> z3_flow \<Rightarrow> nat \<Rightarrow> real" where
  "delay_of v flow k = zvalue v (endToEndDelayVariable flow k)"

lemma solution_jitter:
  assumes "z3_solution conv special c inp v" "flow \<in> set (zi_flows inp)" "k \<in> set (packets_of c flow)" "k' \<in> set (packets_of c flow)"
  shows "delay_of v flow k = delay_of v flow k'"
proof -
  have h: "\<forall>a \<in> set (jitter_asserts c flow). holds v a"
    using solution_timing[OF assms(1)] flow_asserts_timing(3)[OF assms(2)] by blast
  let ?ks = "packets_of c flow"
  let ?ds = "map (delay_of v flow) ?ks"
  have "zvalue v (averageEndToEndDelayVariable flow) = sum_list ?ds / of_nat (length ?ds)"
    using h by (simp add: jitter_asserts_def Let_def zvalue_foldl delay_of_def[abs_def] comp_def)
  moreover have "zvalue v (maxJitterVariable flow) = 0" using h by (simp add: jitter_asserts_def Let_def)
  moreover have "\<forall>k \<in> set ?ks. zvalue v (averageEndToEndDelayVariable flow) - delay_of v flow k \<le> zvalue v (maxJitterVariable flow)"
    using h by (auto simp: jitter_asserts_def Let_def delay_of_def)
  ultimately have "\<forall>d \<in> set ?ds. sum_list ?ds / of_nat (length ?ds) \<le> d" by simp
  from all_at_average[OF this] show ?thesis using assms(3,4) by (metis (no_types, lifting) image_eqI set_map)
qed

lemma solution_delay:
  assumes "z3_solution conv special c inp v" "flow \<in> set (zi_flows inp)" "k \<in> set (packets_of c flow)"
  shows "delay_of v flow k = arrival conv v flow k (fst (snd (last (flow_hops flow)))) - tx_start v flow k (fst (snd (hd (flow_hops flow))))"
    "has_maxLatency flow \<Longrightarrow> delay_of v flow k \<le> secs (za_maxLatency (zf_startApplication flow))"
proof -
  have h: "\<forall>a \<in> set (packet_asserts conv flow k). holds v a" using solution_packet[OF assms] by blast
  have ne: "flow_hops flow \<noteq> []" by (rule solution_hops[OF assms])
  obtain i tp rp where l: "last (flow_hops flow) = (i, tp, rp)" by (metis prod_cases3)
  have "(i, tp, rp) \<in> set (flow_hops flow)" using ne l by (metis last_in_set)
  then have "zvalue v (snd (reception_times flow k (last (flow_hops flow)))) = arrival conv v flow k tp"
    using solution_transmission(5)[OF assms] l by simp
  then show "delay_of v flow k = arrival conv v flow k (fst (snd (last (flow_hops flow)))) - tx_start v flow k (fst (snd (hd (flow_hops flow))))"
    using h l by (auto simp: packet_asserts_def delay_of_def tx_start_def transmissionStartTimeVariable_def)
  assume m: "has_maxLatency flow"
  then have "ZEq (maxEndToEndDelayVariable flow) (ZReal (secs (za_maxLatency (zf_startApplication flow)))) \<in> set (flow_delay_asserts conv c flow)"
    by (simp add: flow_delay_asserts_def)
  then have "zvalue v (maxEndToEndDelayVariable flow) = secs (za_maxLatency (zf_startApplication flow))"
    using solution_timing[OF assms(1)] flow_asserts_timing(2)[OF assms(2), of conv c] by force
  then show "delay_of v flow k \<le> secs (za_maxLatency (zf_startApplication flow))"
    using h m by (auto simp: packet_asserts_def delay_of_def)
qed

section \<open>The transmissions of a port\<close>

definition transmissions :: "simtime \<Rightarrow> z3_input \<Rightarrow> (z3_flow \<times> nat \<times> z3_port) list" where
  "transmissions c inp =
     concat (map (\<lambda>flow. concat (map (\<lambda>k. map (\<lambda>(i, tp, rp). (flow, k, tp)) (flow_hops flow)) (packets_of c flow))) (zi_flows inp))"

definition tx_name :: "z3_flow \<times> nat \<times> z3_port \<Rightarrow> string" where
  "tx_name tx = (case tx of (flow, k, tp) \<Rightarrow> packet_port flow k tp)"

abbreviation start_name :: "string \<Rightarrow> string" where "start_name P \<equiv> P @ ''transmissionStartTime''"

abbreviation end_name :: "string \<Rightarrow> string" where "end_name P \<equiv> P @ ''transmissionEndTime''"

text \<open>The transmissions of a port and a gate, by their paths and indices.\<close>

definition tx_at :: "z3_port \<Rightarrow> int \<Rightarrow> z3_flow \<times> nat \<times> z3_port \<Rightarrow> bool" where
  "tx_at port g tx =
     (case tx of (flow, k, tp) \<Rightarrow> getFullPath (zp_module tp) = getFullPath (zp_module port) \<and> (g = -1 \<or> g = zf_gateIndex flow))"

text \<open>
  The names do not confuse the search: the names of times occur in no other name, no name of a transmission is the start of
  another, and the path of a port or the index of a gate occurs in the names that belong to it only. Letters are not quoted,
  the bar is.
\<close>

definition z3_quotes :: "(char \<Rightarrow> bool) \<Rightarrow> bool" where
  "z3_quotes special \<longleftrightarrow> special (CHR ''|'') \<and> \<not> list_ex special ''transmissionStartTime'' \<and> \<not> list_ex special ''transmissionEndTime''"

definition names_clear :: "(real \<Rightarrow> int) \<Rightarrow> simtime \<Rightarrow> z3_input \<Rightarrow> bool" where
  "names_clear conv c inp \<longleftrightarrow>
     (let txs = transmissions c inp; names = map tx_name txs; starts = map start_name names; ends = map end_name names
      in list_all (\<lambda>n. (sublist ''transmissionStartTime'' n \<longrightarrow> n \<in> set starts) \<and> (sublist ''transmissionEndTime'' n \<longrightarrow> n \<in> set ends))
           (all_variables conv c inp) \<and>
         list_all (\<lambda>P. list_all (\<lambda>Q. prefix P Q \<longrightarrow> P = Q) names) names \<and>
         list_all (\<lambda>port. list_all (\<lambda>g. list_all (\<lambda>tx.
             (time_variable port g ''transmissionStartTime'' (start_name (tx_name tx)) \<longleftrightarrow> tx_at port g tx) \<and>
             (time_variable port g ''transmissionEndTime'' (end_name (tx_name tx)) \<longleftrightarrow> tx_at port g tx)) txs)
           [-1..zp_numGates port - 1]) (zi_ports inp))"

lemma append_le_append:
  fixes P Q :: "'a::linorder list"
  shows "\<not> prefix P Q \<Longrightarrow> \<not> prefix Q P \<Longrightarrow> P @ a \<le> Q @ b \<longleftrightarrow> P @ c \<le> Q @ d"
proof (induction P arbitrary: Q)
  case (Cons x P)
  then show ?case by (cases Q) auto
qed simp

lemma z3_show_le:
  assumes "z3_quotes special" "\<not> prefix P Q" "\<not> prefix Q P"
  shows "z3_show special (start_name P) \<le> z3_show special (start_name Q) \<longleftrightarrow> z3_show special (end_name P) \<le> z3_show special (end_name Q)"
proof -
  have q: "list_ex special (start_name R) = list_ex special R" "list_ex special (end_name R) = list_ex special R" for R
    using assms(1) unfolding z3_quotes_def list_ex_append by blast+
  have app: "P @ a \<le> Q @ a \<longleftrightarrow> P @ b \<le> Q @ b" for a b by (rule append_le_append[OF assms(2,3)])
  obtain x P' where P: "P = x # P'" using assms(2) by (cases P) auto
  obtain y Q' where Q: "Q = y # Q'" using assms(3) by (cases Q) auto
  have bar: "\<not> list_ex special R \<Longrightarrow> CHR ''|'' \<notin> set R" for R using assms(1) by (auto simp: z3_quotes_def list_ex_iff)
  consider "list_ex special P" "list_ex special Q" | "\<not> list_ex special P" "\<not> list_ex special Q"
    | "list_ex special P" "\<not> list_ex special Q" | "\<not> list_ex special P" "list_ex special Q" by blast
  then show ?thesis
  proof cases
    case 1
    then have "z3_show special (start_name P) = CHR ''|'' # P @ ''transmissionStartTime|''" "z3_show special (start_name Q) = CHR ''|'' # Q @ ''transmissionStartTime|''"
      "z3_show special (end_name P) = CHR ''|'' # P @ ''transmissionEndTime|''" "z3_show special (end_name Q) = CHR ''|'' # Q @ ''transmissionEndTime|''"
      unfolding z3_show_def q by simp_all
    then show ?thesis using app[of "''transmissionStartTime|''" "''transmissionEndTime|''"] by simp
  next
    case 2
    then show ?thesis unfolding z3_show_def q using app by simp
  next
    case 3
    then have "y \<noteq> CHR ''|''" using bar[of Q] by (auto simp: Q)
    then show ?thesis using 3 unfolding z3_show_def q by (auto simp: Q)
  next
    case 4
    then have "x \<noteq> CHR ''|''" using bar[of P] by (auto simp: P)
    then show ?thesis using 4 unfolding z3_show_def q by (auto simp: P)
  qed
qed

lemma z3_show_inj: "z3_quotes special \<Longrightarrow> inj (z3_show special)"
proof (rule injI)
  fix m n
  assume q: "z3_quotes special" and e: "z3_show special m = z3_show special n"
  have bar: "list_ex special R" if "CHR ''|'' \<in> set R" for R using q that by (auto simp: z3_quotes_def list_ex_iff)
  have "list_ex special m = list_ex special n"
  proof (rule ccontr)
    assume "list_ex special m \<noteq> list_ex special n"
    then consider "list_ex special m" "\<not> list_ex special n" | "\<not> list_ex special m" "list_ex special n" by blast
    then show False using e bar[of n] bar[of m] by cases (auto simp: z3_show_def)
  qed
  then show "m = n" using e by (auto simp: z3_show_def split: if_splits)
qed

lemma sort_key_unique:
  assumes "distinct xs" "distinct ys" "set xs = set ys" "sorted (map k ys)" "inj_on k (set ys)"
  shows "sort_key k xs = ys"
proof -
  have d: "distinct (map k ys)" "distinct (map k (sort_key k xs))" using assms by (simp_all add: distinct_map)
  have "map k (sort_key k xs) = map k ys"
    by (rule sorted_distinct_set_unique) (use assms d in auto)
  then show ?thesis using assms(3,5) by (auto intro: inj_on_map_eq_map[THEN iffD1, of k "sort_key k xs" ys])
qed

text \<open>The names of the transmissions of a port and gate, in the order in which their variables are found.\<close>

definition tx_order :: "(char \<Rightarrow> bool) \<Rightarrow> simtime \<Rightarrow> z3_input \<Rightarrow> z3_port \<Rightarrow> int \<Rightarrow> string list" where
  "tx_order special c inp port g =
     sort_key (\<lambda>P. z3_show special (start_name P)) (remdups (map tx_name (filter (tx_at port g) (transmissions c inp))))"

lemma tx_order_facts:
  "set (tx_order special c inp port g) = tx_name ` {tx \<in> set (transmissions c inp). tx_at port g tx}"
  "distinct (tx_order special c inp port g)"
  by (auto simp: tx_order_def)

lemma transmission_variables:
  assumes "tx \<in> set (transmissions c inp)"
  shows "start_name (tx_name tx) \<in> set (z3_variables conv c inp)" "end_name (tx_name tx) \<in> set (z3_variables conv c inp)"
proof -
  obtain flow k i tp rp where tx: "tx = (flow, k, tp)" "flow \<in> set (zi_flows inp)" "k \<in> set (packets_of c flow)" "(i, tp, rp) \<in> set (flow_hops flow)"
    using assms unfolding transmissions_def by fastforce
  have "set (transmission_asserts conv flow k (i, tp, rp)) \<subseteq> set (flow_transmission_asserts conv c flow)"
    unfolding flow_transmission_asserts_def
    by (rule subset_trans[OF set_concat_map[OF tx(4)] set_concat_map[where f = "\<lambda>k. concat (map (transmission_asserts conv flow k) (flow_hops flow))", OF tx(3)]])
  then have "set (transmission_asserts conv flow k (i, tp, rp)) \<subseteq> set (timing_asserts conv c inp)" using flow_asserts_timing(1)[OF tx(2)] by blast
  moreover have "ZEq (ZAdd (transmissionStartTimeVariable flow k tp) (transmissionDurationVariable flow tp)) (transmissionEndTimeVariable flow k tp)
      \<in> set (transmission_asserts conv flow k (i, tp, rp))"
    by (simp add: transmission_asserts_def Let_def)
  ultimately have "set (zassert_vars (ZEq (ZAdd (transmissionStartTimeVariable flow k tp) (transmissionDurationVariable flow tp)) (transmissionEndTimeVariable flow k tp)))
      \<subseteq> set (z3_variables conv c inp)"
    unfolding z3_variables_def by (intro set_concat_map) blast
  then show "start_name (tx_name tx) \<in> set (z3_variables conv c inp)" "end_name (tx_name tx) \<in> set (z3_variables conv c inp)"
    by (simp_all add: tx tx_name_def transmissionStartTimeVariable_def transmissionEndTimeVariable_def)
qed

lemma names_clear_search:
  assumes "names_clear conv c inp" "port \<in> set (zi_ports inp)" "g \<in> set [-1..zp_numGates port - 1]"
    and "set (z3_variables conv c inp) \<subseteq> set V" "set V \<subseteq> set (all_variables conv c inp)"
  shows "{n \<in> set V. time_variable port g ''transmissionStartTime'' n} = start_name ` set (tx_order special c inp port g)"
    "{n \<in> set V. time_variable port g ''transmissionEndTime'' n} = end_name ` set (tx_order special c inp port g)"
proof -
  have s: "n \<in> start_name ` tx_name ` set (transmissions c inp)" if "sublist ''transmissionStartTime'' n" "n \<in> set (all_variables conv c inp)" for n
    using assms(1) that by (auto simp: names_clear_def Let_def list_all_iff)
  have e: "n \<in> end_name ` tx_name ` set (transmissions c inp)" if "sublist ''transmissionEndTime'' n" "n \<in> set (all_variables conv c inp)" for n
    using assms(1) that by (auto simp: names_clear_def Let_def list_all_iff)
  have at: "time_variable port g ''transmissionStartTime'' (start_name (tx_name tx)) = tx_at port g tx"
    "time_variable port g ''transmissionEndTime'' (end_name (tx_name tx)) = tx_at port g tx" if "tx \<in> set (transmissions c inp)" for tx
    using assms(1-3) that unfolding names_clear_def Let_def list_all_iff by blast+
  have sub: "time_variable port g S n \<Longrightarrow> sublist S n" for S n by (simp add: time_variable_def)
  show "{n \<in> set V. time_variable port g ''transmissionStartTime'' n} = start_name ` set (tx_order special c inp port g)"
  proof (intro equalityI subsetI)
    fix n
    assume n: "n \<in> {n \<in> set V. time_variable port g ''transmissionStartTime'' n}"
    then obtain tx where tx: "tx \<in> set (transmissions c inp)" "n = start_name (tx_name tx)" using s[of n] sub assms(5) by blast
    then show "n \<in> start_name ` set (tx_order special c inp port g)" using n at(1)[OF tx(1)] by (auto simp: tx_order_facts)
  next
    fix n
    assume "n \<in> start_name ` set (tx_order special c inp port g)"
    then obtain tx where tx: "tx \<in> set (transmissions c inp)" "tx_at port g tx" "n = start_name (tx_name tx)" by (auto simp: tx_order_facts)
    then show "n \<in> {n \<in> set V. time_variable port g ''transmissionStartTime'' n}"
      using at(1)[OF tx(1)] transmission_variables(1)[OF tx(1), of conv] assms(4) by auto
  qed
  show "{n \<in> set V. time_variable port g ''transmissionEndTime'' n} = end_name ` set (tx_order special c inp port g)"
  proof (intro equalityI subsetI)
    fix n
    assume n: "n \<in> {n \<in> set V. time_variable port g ''transmissionEndTime'' n}"
    then obtain tx where tx: "tx \<in> set (transmissions c inp)" "n = end_name (tx_name tx)" using e[of n] sub assms(5) by blast
    then show "n \<in> end_name ` set (tx_order special c inp port g)" using n at(2)[OF tx(1)] by (auto simp: tx_order_facts)
  next
    fix n
    assume "n \<in> end_name ` set (tx_order special c inp port g)"
    then obtain tx where tx: "tx \<in> set (transmissions c inp)" "tx_at port g tx" "n = end_name (tx_name tx)" by (auto simp: tx_order_facts)
    then show "n \<in> {n \<in> set V. time_variable port g ''transmissionEndTime'' n}"
      using at(2)[OF tx(1)] transmission_variables(2)[OF tx(1), of conv] assms(4) by auto
  qed
qed

lemma time_variables_listed:
  assumes "z3_quotes special" "names_clear conv c inp" "port \<in> set (zi_ports inp)" "g \<in> set [-1..zp_numGates port - 1]"
    and "set (z3_variables conv c inp) \<subseteq> set V" "set V \<subseteq> set (all_variables conv c inp)"
  shows "transmissionStartTimeVariables special V port g = map start_name (tx_order special c inp port g)"
    "transmissionEndTimeVariables special V port g = map end_name (tx_order special c inp port g)"
proof -
  let ?Ps = "tx_order special c inp port g"
  have inj: "inj_on (z3_show special) A" for A using z3_show_inj[OF assms(1)] by (auto intro: inj_on_subset)
  have sorted: "sorted (map (z3_show special) (map start_name ?Ps))" by (simp add: tx_order_def comp_def)
  then show "transmissionStartTimeVariables special V port g = map start_name ?Ps"
    unfolding transmissionStartTimeVariables_def getTimeVariables_def
    using names_clear_search(1)[OF assms(2-6), of special] tx_order_facts(2)[of special c inp port g] inj
    by (intro sort_key_unique) (auto simp: distinct_map inj_on_def)
  have np: "\<not> prefix P Q" if "P \<in> set ?Ps" "Q \<in> set ?Ps" "P \<noteq> Q" for P Q
  proof -
    have "P \<in> set (map tx_name (transmissions c inp))" "Q \<in> set (map tx_name (transmissions c inp))"
      using that(1,2) by (auto simp: tx_order_facts)
    then show ?thesis using assms(2) that(3) unfolding names_clear_def Let_def list_all_iff by blast
  qed
  have "sorted_wrt (\<lambda>P Q. z3_show special (start_name P) \<le> z3_show special (start_name Q)) ?Ps"
    using sorted by (simp add: sorted_map)
  then have "sorted_wrt (\<lambda>P Q. z3_show special (end_name P) \<le> z3_show special (end_name Q)) ?Ps"
  proof (rule sorted_wrt_mono_rel[rotated])
    fix P Q
    assume pq: "P \<in> set ?Ps" "Q \<in> set ?Ps" "z3_show special (start_name P) \<le> z3_show special (start_name Q)"
    show "z3_show special (end_name P) \<le> z3_show special (end_name Q)"
    proof (cases "P = Q")
      case False
      then show ?thesis using z3_show_le[OF assms(1) np[OF pq(1,2)] np[OF pq(2,1)]] pq(3) by blast
    qed simp
  qed
  then have "sorted (map (z3_show special) (map end_name ?Ps))" by (simp add: sorted_map)
  then show "transmissionEndTimeVariables special V port g = map end_name ?Ps"
    unfolding transmissionEndTimeVariables_def getTimeVariables_def
    using names_clear_search(2)[OF assms(2-6), of special] tx_order_facts(2)[of special c inp port g] inj
    by (intro sort_key_unique) (auto simp: distinct_map inj_on_def)
qed

section \<open>One transmission at a time\<close>

lemma exclusive_asserts_port:
  "port \<in> set ports \<Longrightarrow> \<exists>V. set variables \<subseteq> set V \<and> set V \<subseteq> set variables \<union> interframeGapVariable ` set ports \<and>
     set (port_exclusive_asserts conv special V port) \<subseteq> set (exclusive_asserts conv special variables ports)"
proof (induction ports arbitrary: variables)
  case (Cons p ports)
  let ?V = "variables @ [interframeGapVariable p]"
  show ?case
  proof (cases "port = p")
    case True
    then show ?thesis by (intro exI[of _ ?V]) (auto simp: Let_def)
  next
    case False
    then have "port \<in> set ports" using Cons.prems by simp
    from Cons.IH[OF this, of ?V] show ?thesis by (auto simp: Let_def)
  qed
qed simp

lemma all_pairs_mem: "i < j \<Longrightarrow> j < n \<Longrightarrow> set (f i j) \<subseteq> set (all_pairs n f)"
proof -
  assume a: "i < j" "j < n"
  have "set (f i j) \<subseteq> set (concat (map (f i) [Suc i..<n]))" by (rule set_concat_map) (use a in simp)
  also have "\<dots> \<subseteq> set (all_pairs n f)" unfolding all_pairs_def
    by (rule set_concat_map[where f = "\<lambda>i. concat (map (f i) [Suc i..<n])"]) (use a in simp)
  finally show ?thesis .
qed

definition port_gap :: "(real \<Rightarrow> int) \<Rightarrow> z3_port \<Rightarrow> simtime" where
  "port_gap conv port = conv (96 / zp_datarate port)"

lemma solution_apart:
  assumes "z3_solution conv special c inp v" "z3_quotes special" "names_clear conv c inp"
    and "port \<in> set (zi_ports inp)" "0 \<le> zp_numGates port" "i < j" "j < length (tx_order special c inp port (-1))"
  shows "v (end_name (tx_order special c inp port (-1) ! i)) + secs (port_gap conv port) \<le> v (start_name (tx_order special c inp port (-1) ! j)) \<or>
    v (end_name (tx_order special c inp port (-1) ! j)) + secs (port_gap conv port) \<le> v (start_name (tx_order special c inp port (-1) ! i))"
proof -
  let ?Ps = "tx_order special c inp port (-1)"
  obtain V where V: "set (z3_variables conv c inp) \<subseteq> set V" "set V \<subseteq> set (all_variables conv c inp)"
      "set (port_exclusive_asserts conv special V port) \<subseteq> set (exclusive_asserts conv special (z3_variables conv c inp) (zi_ports inp))"
    using exclusive_asserts_port[OF assms(4), of "z3_variables conv c inp" conv special] by (auto simp: all_variables_def)
  have h: "holds v a" if "a \<in> set (port_exclusive_asserts conv special V port)" for a
    using assms(1) subsetD[OF V(3) that] by (auto simp: z3_solution_def z3_asserts_def ensure_def Let_def split: option.splits if_splits)
  have g: "(-1::int) \<in> set [-1..zp_numGates port - 1]" using assms(5) by simp
  note l = time_variables_listed[OF assms(2,3,4) g V(1,2)]
  let ?f = "\<lambda>i j. [ZOr (ZLe (ZAdd (ZVar (map end_name ?Ps ! i)) (ZVar (interframeGapVariable port))) (ZVar (map start_name ?Ps ! j)))
                     (ZLe (ZAdd (ZVar (map end_name ?Ps ! j)) (ZVar (interframeGapVariable port))) (ZVar (map start_name ?Ps ! i)))]"
  have eq: "set (port_exclusive_asserts conv special V port) =
      insert (ZEq (ZVar (interframeGapVariable port)) (ZReal (secs (port_gap conv port)))) (set (all_pairs (length ?Ps) ?f))"
    by (simp add: port_exclusive_asserts_def Let_def l port_gap_def)
  have "v (interframeGapVariable port) = secs (port_gap conv port)" using h[unfolded eq] by force
  moreover have "\<forall>a \<in> set (?f i j). holds v a" using all_pairs_mem[OF assms(6,7), of ?f] h[unfolded eq] by blast
  ultimately show ?thesis using assms(6,7) by simp
qed

lemma tx_all_gates:
  "set (tx_order special c inp port g) \<subseteq> set (tx_order special c inp port (-1))"
  unfolding tx_order_facts by (auto simp: tx_at_def)

lemma solution_apart_names:
  assumes "z3_solution conv special c inp v" "z3_quotes special" "names_clear conv c inp"
    and "port \<in> set (zi_ports inp)" "0 \<le> zp_numGates port" "P \<in> set (tx_order special c inp port g)" "Q \<in> set (tx_order special c inp port g')" "P \<noteq> Q"
  shows "v (end_name P) + secs (port_gap conv port) \<le> v (start_name Q) \<or> v (end_name Q) + secs (port_gap conv port) \<le> v (start_name P)"
proof -
  let ?Ps = "tx_order special c inp port (-1)"
  obtain i j where ij: "i < length ?Ps" "P = ?Ps ! i" "j < length ?Ps" "Q = ?Ps ! j"
    using subsetD[OF tx_all_gates assms(6)] subsetD[OF tx_all_gates assms(7)] by (metis in_set_conv_nth)
  then have "i < j \<or> j < i" using assms(8) by (metis linorder_neqE_nat)
  then show ?thesis using solution_apart[OF assms(1-5), of i j] solution_apart[OF assms(1-5), of j i] ij by auto
qed

section \<open>The gates of a solution\<close>

text \<open>The times of a solution are whole ticks, and every transmission takes time and ends in the cycle.\<close>

definition solution_in_ticks :: "(real \<Rightarrow> int) \<Rightarrow> simtime \<Rightarrow> z3_input \<Rightarrow> zmodel \<Rightarrow> bool" where
  "solution_in_ticks conv c inp v \<longleftrightarrow>
     (\<forall>(flow, k, tp) \<in> set (transmissions c inp). tx_start v flow k tp = secs (conv (tx_start v flow k tp)) \<and>
        0 < conv (of_int (za_packetLength (zf_startApplication flow)) / zp_datarate tp) \<and>
        tx_start v flow k tp + tx_time conv flow tp \<le> secs c)"

lemma secs_simps [simp]: "secs a + secs b = secs (a + b)" "secs a \<le> secs b \<longleftrightarrow> a \<le> b" "secs a < secs b \<longleftrightarrow> a < b" "0 \<le> secs a \<longleftrightarrow> 0 \<le> a"
  by (simp_all add: secs_def add_divide_distrib divide_le_cancel divide_less_cancel zero_le_divide_iff)

text \<open>When a transmission starts and ends, in ticks.\<close>

definition tx_from :: "(real \<Rightarrow> int) \<Rightarrow> zmodel \<Rightarrow> z3_flow \<times> nat \<times> z3_port \<Rightarrow> simtime" where
  "tx_from conv v tx = (case tx of (flow, k, tp) \<Rightarrow> conv (tx_start v flow k tp))"

definition tx_until :: "(real \<Rightarrow> int) \<Rightarrow> zmodel \<Rightarrow> z3_flow \<times> nat \<times> z3_port \<Rightarrow> simtime" where
  "tx_until conv v tx =
     (case tx of (flow, k, tp) \<Rightarrow> conv (tx_start v flow k tp) + conv (of_int (za_packetLength (zf_startApplication flow)) / zp_datarate tp))"

lemma solution_ticks:
  assumes "z3_solution conv special c inp v" "solution_in_ticks conv c inp v" "tx \<in> set (transmissions c inp)"
  shows "v (start_name (tx_name tx)) = secs (tx_from conv v tx)" "v (end_name (tx_name tx)) = secs (tx_until conv v tx)"
    "0 \<le> tx_from conv v tx" "tx_from conv v tx < tx_until conv v tx" "tx_until conv v tx \<le> c"
proof -
  obtain flow k i tp rp where tx: "tx = (flow, k, tp)" "flow \<in> set (zi_flows inp)" "k \<in> set (packets_of c flow)" "(i, tp, rp) \<in> set (flow_hops flow)"
    using assms(3) unfolding transmissions_def by fastforce
  have t: "tx_start v flow k tp = secs (tx_from conv v tx)" "tx_from conv v tx < tx_until conv v tx"
    "tx_start v flow k tp + tx_time conv flow tp \<le> secs c"
    using assms(2,3) by (auto simp: solution_in_ticks_def tx tx_from_def tx_until_def)
  have u: "tx_start v flow k tp + tx_time conv flow tp = secs (tx_until conv v tx)"
    unfolding t(1) tx_time_def by (simp add: tx tx_from_def tx_until_def)
  show "v (start_name (tx_name tx)) = secs (tx_from conv v tx)" using t(1) by (simp add: tx_name_def tx tx_start_def)
  show "v (end_name (tx_name tx)) = secs (tx_until conv v tx)"
    using solution_transmission(1)[OF assms(1) tx(2-4)] u by (simp add: tx_name_def tx)
  show "0 \<le> tx_from conv v tx" using solution_transmission(2)[OF assms(1) tx(2-4)] t(1) by simp
  show "tx_from conv v tx < tx_until conv v tx" by (rule t(2))
  show "tx_until conv v tx \<le> c" using t(3) u by simp
qed

lemma solution_slots_listed:
  assumes "z3_quotes special" "names_clear conv c inp" "port \<in> set (zi_ports inp)" "g \<in> set [-1..zp_numGates port - 1]"
  shows "solution_slots conv special (all_variables conv c inp) v port g =
    map (\<lambda>P. \<lparr>gateOpenIndex = g, gateOpenTime = conv (v (start_name P)), gateCloseTime = conv (v (end_name P))\<rparr>) (tx_order special c inp port g)"
proof -
  have V: "set (z3_variables conv c inp) \<subseteq> set (all_variables conv c inp)" by (simp add: all_variables_def)
  show ?thesis unfolding solution_slots_def time_variables_listed[OF assms V subset_refl] Let_def by (rule nth_equalityI) simp_all
qed

lemma solution_gate_slots:
  assumes "z3_solution conv special c inp v" "solution_in_ticks conv c inp v" "z3_quotes special" "names_clear conv c inp" "\<forall>m. conv (secs m) = m"
    and "port \<in> set (zi_ports inp)" "0 \<le> g" "g < zp_numGates port" "0 < port_gap conv port"
  shows "inside_cycle c (solution_slots conv special (all_variables conv c inp) v port g)"
    "sorted_wrt (apart (port_gap conv port)) (solution_slots conv special (all_variables conv c inp) v port g)"
    "(\<exists>s \<in> set (solution_slots conv special (all_variables conv c inp) v port g). gateOpenIndex s = g \<and> gateOpenTime s \<le> u \<and> u < gateCloseTime s) \<longleftrightarrow>
      (\<exists>tx \<in> set (transmissions c inp). tx_at port g tx \<and> tx_from conv v tx \<le> u \<and> u < tx_until conv v tx)"
proof -
  have g: "g \<in> set [-1..zp_numGates port - 1]" using assms(7,8) by simp
  note l = solution_slots_listed[OF assms(3,4,6) g, of v]
  note t = solution_ticks[OF assms(1,2)]
  let ?Ps = "tx_order special c inp port g"
  let ?slot = "\<lambda>P. \<lparr>gateOpenIndex = g, gateOpenTime = conv (v (start_name P)), gateCloseTime = conv (v (end_name P))\<rparr>"
  have slot: "?slot (tx_name tx) = \<lparr>gateOpenIndex = g, gateOpenTime = tx_from conv v tx, gateCloseTime = tx_until conv v tx\<rparr>"
    if "tx \<in> set (transmissions c inp)" for tx using t[OF that] assms(5) by simp
  have set_slots: "set (solution_slots conv special (all_variables conv c inp) v port g) =
      (\<lambda>tx. \<lparr>gateOpenIndex = g, gateOpenTime = tx_from conv v tx, gateCloseTime = tx_until conv v tx\<rparr>) ` {tx \<in> set (transmissions c inp). tx_at port g tx}"
    unfolding l set_map tx_order_facts(1) image_image by (rule image_cong[OF refl]) (use slot in blast)
  show "inside_cycle c (solution_slots conv special (all_variables conv c inp) v port g)"
    unfolding inside_cycle_def set_slots using t by auto
  show "(\<exists>s \<in> set (solution_slots conv special (all_variables conv c inp) v port g). gateOpenIndex s = g \<and> gateOpenTime s \<le> u \<and> u < gateCloseTime s) \<longleftrightarrow>
      (\<exists>tx \<in> set (transmissions c inp). tx_at port g tx \<and> tx_from conv v tx \<le> u \<and> u < tx_until conv v tx)"
    unfolding set_slots by auto
  have ap: "apart (port_gap conv port) (?slot P) (?slot Q)" if pq: "P \<in> set ?Ps" "Q \<in> set ?Ps" "P \<noteq> Q" for P Q
  proof -
    obtain a b where ab: "P = tx_name a" "a \<in> set (transmissions c inp)" "Q = tx_name b" "b \<in> set (transmissions c inp)"
      using pq(1,2) by (auto simp: tx_order_facts)
    have "0 \<le> zp_numGates port" using assms(7,8) by simp
    from solution_apart_names[OF assms(1,3,4,6) this pq] have "tx_until conv v a + port_gap conv port \<le> tx_from conv v b \<or>
        tx_until conv v b + port_gap conv port \<le> tx_from conv v a"
      using t(1,2)[OF ab(2)] t(1,2)[OF ab(4)] unfolding ab(1,3) by simp
    then show ?thesis using slot[OF ab(2)] slot[OF ab(4)] by (simp add: apart_def ab(1,3))
  qed
  show "sorted_wrt (apart (port_gap conv port)) (solution_slots conv special (all_variables conv c inp) v port g)"
    unfolding l sorted_wrt_map sorted_wrt_iff_nth_less
    using ap tx_order_facts(2)[of special c inp port g] by (auto simp: distinct_conv_nth)
qed

lemma solution_one_gate:
  assumes "z3_solution conv special c inp v" "solution_in_ticks conv c inp v" "z3_quotes special" "names_clear conv c inp"
    and "port \<in> set (zi_ports inp)" "0 < port_gap conv port" "i \<noteq> j" "int i < zp_numGates port" "int j < zp_numGates port"
    and "a \<in> set (transmissions c inp)" "tx_at port (int i) a" "tx_from conv v a \<le> u" "u < tx_until conv v a"
    and "b \<in> set (transmissions c inp)" "tx_at port (int j) b" "tx_from conv v b \<le> u" "u < tx_until conv v b"
  shows False
proof (cases "tx_name a = tx_name b")
  case True
  have "tx_at port (int i) tx = time_variable port (int i) ''transmissionStartTime'' (start_name (tx_name tx))"
    if "tx \<in> set (transmissions c inp)" for tx
    using assms(4,5,8) that unfolding names_clear_def Let_def list_all_iff by force
  then have "tx_at port (int i) b" using assms(10,11,14) True by metis
  then show False using assms(7,15) by (cases b) (simp add: tx_at_def)
next
  case False
  have "tx_name a \<in> set (tx_order special c inp port (int i))" "tx_name b \<in> set (tx_order special c inp port (int j))" "0 \<le> zp_numGates port"
    using assms(8-11,14,15) by (auto simp: tx_order_facts)
  from solution_apart_names[OF assms(1,3,4,5) this(3,1,2) False]
  have "tx_until conv v a + port_gap conv port \<le> tx_from conv v b \<or> tx_until conv v b + port_gap conv port \<le> tx_from conv v a"
    using solution_ticks(1,2)[OF assms(1,2,10)] solution_ticks(1,2)[OF assms(1,2,14)] by simp
  then show False using assms(6,12,13,16,17) by linarith
qed

definition solver_sound :: "(zassert list \<Rightarrow> zexpr option \<Rightarrow> zmodel option) \<Rightarrow> bool" where
  "solver_sound solve \<longleftrightarrow> (\<forall>asserts goal v. solve asserts goal = Some v \<longrightarrow> (\<forall>a \<in> set asserts. holds v a))"

text \<open>The values the solver returns for the constraints of an input.\<close>

definition solver_values ::
  "(real \<Rightarrow> int) \<Rightarrow> (char \<Rightarrow> bool) \<Rightarrow> (zassert list \<Rightarrow> zexpr option \<Rightarrow> zmodel option) \<Rightarrow> bool \<Rightarrow> simtime \<Rightarrow> z3_input \<Rightarrow> zmodel option" where
  "solver_values conv special solve opt c inp =
     Option.bind (z3_asserts conv special c inp) (\<lambda>as. solve as (if opt then Some totalEndToEndDelayVariable else None))"

lemma solver_values_solution: "solver_sound solve \<Longrightarrow> solver_values conv special solve opt c inp = Some v \<Longrightarrow> z3_solution conv special c inp v"
  by (auto simp: solver_values_def solver_sound_def z3_solution_def bind_eq_Some_conv)

lemma z3_output:
  "solver_values conv special solve opt c inp = Some v \<Longrightarrow>
   z3_computeGateScheduling conv special solve opt c inp =
     Some (map (\<lambda>a. (a, conv (zvalue v (applicationStartTimeVariable a)))) (zi_applications inp),
       map (\<lambda>port. (zp_port port, map (solution_schedule conv special (all_variables conv c inp) v c port) [0..zp_numGates port - 1])) (zi_ports inp))"
  by (auto simp: solver_values_def z3_computeGateScheduling_def bind_eq_Some_conv Let_def)

text \<open>
  C8. In a network whose names do not confuse the configurator's search for variables (\<open>names_clear\<close>: no name of a
  transmission is the start of another one, and the path of a port and the index of a gate occur only in the names that belong
  to them; \<open>z3_quotes\<close>: the solver's printer quotes the bar and no letter), the gates of the solver's schedule carry its
  packets. \<open>variables_confused\<close> shows names for which the search finds the variables of other gates. For such names,
  whatever values a sound solver returns, when its times are whole ticks and no transmission runs past the end of the cycle, the gates
  of every port are configured without an error; a gate, run to any time, is open exactly while a packet of its class is to be
  sent on the port, and two gates are never open together.
\<close>

theorem solved_gates_carry_packets:
  assumes "solver_sound solve" "solver_values conv special solve opt c inp = Some v"
    and "z3_quotes special" "names_clear conv c inp" "\<forall>m. conv (secs m) = m" "solution_in_ticks conv c inp v"
    and "distinct (map zp_port (zi_ports inp))" "port \<in> set (zi_ports inp)" "0 < c" "0 < port_gap conv port"
    and "i \<noteq> j" "int i < zp_numGates port" "int j < zp_numGates port" "T0 \<le> t" "nat (t - T0) + 1 < fuel"
  shows "\<exists>starts schedules h h'. z3_computeGateScheduling conv special solve opt c inp = Some (starts, schedules) \<and>
    gate_at c schedules (zp_port port) i g0 T0 fuel offered t = Some h \<and> gate_at c schedules (zp_port port) j g0' T0 fuel offered' t = Some h' \<and>
    (pg_isOpen h \<longleftrightarrow> (\<exists>tx \<in> set (transmissions c inp). tx_at port (int i) tx \<and>
       tx_from conv v tx \<le> (t - T0) mod c \<and> (t - T0) mod c < tx_until conv v tx)) \<and>
    \<not> (pg_isOpen h \<and> pg_isOpen h')"
proof -
  note sol = solver_values_solution[OF assms(1,2)]
  let ?schedules = "map (\<lambda>port. (zp_port port, map (solution_schedule conv special (all_variables conv c inp) v c port) [0..zp_numGates port - 1])) (zi_ports inp)"
  let ?ss = "map (solution_schedule conv special (all_variables conv c inp) v c port) [0..zp_numGates port - 1]"
  have m: "map_of ?schedules (zp_port port) = Some ?ss"
    using assms(7,8) by (intro map_of_is_SomeI) (auto simp: comp_def)
  let ?u = "(t - T0) mod c"
  have gate: "\<exists>h. gate_at c ?schedules (zp_port port) k g T0 fuel off t = Some h \<and>
      pg_isOpen h = (\<exists>tx \<in> set (transmissions c inp). tx_at port (int k) tx \<and> tx_from conv v tx \<le> ?u \<and> ?u < tx_until conv v tx)"
    if k: "int k < zp_numGates port" for k g off
  proof -
    note f = solution_gate_slots[OF sol assms(6,3,4,5,8) of_nat_0_le_iff k assms(10)]
    have nth: "k < length ?ss" "?ss ! k = gate_schedule_of c (solution_slots conv special (all_variables conv c inp) v port (int k)) (int k)"
      using k by (simp_all add: solution_schedule_def)
    show ?thesis
      using scheduled_gate_base[OF _ _ assms(9) gate_slots_ordered[OF f(1,2) assms(10)] m nth assms(14,15), of g off]
      unfolding gate_slots_in[OF f(1)] f(3) by (simp add: gate_schedule_of_def)
  qed
  have "\<not> ((\<exists>tx \<in> set (transmissions c inp). tx_at port (int i) tx \<and> tx_from conv v tx \<le> ?u \<and> ?u < tx_until conv v tx) \<and>
      (\<exists>tx \<in> set (transmissions c inp). tx_at port (int j) tx \<and> tx_from conv v tx \<le> ?u \<and> ?u < tx_until conv v tx))"
    (is "\<not> ((\<exists>a \<in> ?A. ?P a) \<and> (\<exists>b \<in> ?A. ?Q b))")
  proof
    assume "(\<exists>a \<in> ?A. ?P a) \<and> (\<exists>b \<in> ?A. ?Q b)"
    then have e: "\<exists>a \<in> ?A. ?P a" "\<exists>b \<in> ?A. ?Q b" by (rule conjunct1, rule conjunct2)
    obtain a where "a \<in> ?A" "?P a" using e(1) by (rule bexE)
    moreover obtain b where "b \<in> ?A" "?Q b" using e(2) by (rule bexE)
    ultimately show False using solution_one_gate[OF sol assms(6,3,4,8,10,11,12,13), where u = ?u and a = a and b = b] by simp
  qed
  moreover obtain h where h: "gate_at c ?schedules (zp_port port) i g0 T0 fuel offered t = Some h"
      "pg_isOpen h = (\<exists>tx \<in> set (transmissions c inp). tx_at port (int i) tx \<and> tx_from conv v tx \<le> ?u \<and> ?u < tx_until conv v tx)"
    using gate[OF assms(12), of g0 offered] by (elim exE conjE)
  moreover obtain h' where h': "gate_at c ?schedules (zp_port port) j g0' T0 fuel offered' t = Some h'"
      "pg_isOpen h' = (\<exists>tx \<in> set (transmissions c inp). tx_at port (int j) tx \<and> tx_from conv v tx \<le> ?u \<and> ?u < tx_until conv v tx)"
    using gate[OF assms(13), of g0' offered'] by (elim exE conjE)
  ultimately have "pg_isOpen h = (\<exists>tx \<in> set (transmissions c inp). tx_at port (int i) tx \<and> tx_from conv v tx \<le> ?u \<and> ?u < tx_until conv v tx)"
    "\<not> (pg_isOpen h \<and> pg_isOpen h')" by (simp_all only: simp_thms)
  then show ?thesis using z3_output[OF assms(2)] h(1) h'(1) by (intro exI conjI)
qed

text \<open>
  C9. What every schedule of the solver guarantees for a packet: on every path fragment its first hop starts with the
  application, its other hops start after it has arrived, or after its header has with cut-through switching, and within the
  cycle; its delay from the first to the last hop does not exceed the maximum latency, if there is one; and all packets of a
  flow have the same delay, for the jitter that is allowed is 0.
\<close>

theorem solved_packets_in_time:
  assumes "solver_sound solve" "solver_values conv special solve opt c inp = Some v"
    and "flow \<in> set (zi_flows inp)" "getPacketCount c flow = Some n" "int k < n" "int k' < n"
  shows "(\<forall>p \<in> set (zf_pathFragments flow). \<forall>i < length (pf_networkNodes p) - 1.
      0 \<le> tx_start v flow k (pf_outputPorts p ! i) \<and> tx_start v flow k (pf_outputPorts p ! i) < secs c \<and>
      (i = 0 \<longrightarrow> tx_start v flow k (pf_outputPorts p ! i) = app_start v flow + of_nat k * secs (za_packetInterval (zf_startApplication flow))) \<and>
      (\<forall>j. i = Suc j \<longrightarrow> ready conv v flow k (pf_outputPorts p ! j) (pf_outputPorts p ! i) (pf_inputPorts p ! i) \<le> tx_start v flow k (pf_outputPorts p ! i))) \<and>
    delay_of v flow k = arrival conv v flow k (fst (snd (last (flow_hops flow)))) - tx_start v flow k (fst (snd (hd (flow_hops flow)))) \<and>
    (za_maxLatency (zf_startApplication flow) > 0 \<longrightarrow> delay_of v flow k \<le> secs (za_maxLatency (zf_startApplication flow))) \<and>
    delay_of v flow k = delay_of v flow k'"
proof (intro conjI)
  note sol = solver_values_solution[OF assms(1,2)]
  have k: "k \<in> set (packets_of c flow)" "k' \<in> set (packets_of c flow)" using assms(4-6) by (auto simp: packets_of_def)
  show "\<forall>p \<in> set (zf_pathFragments flow). \<forall>i < length (pf_networkNodes p) - 1.
      0 \<le> tx_start v flow k (pf_outputPorts p ! i) \<and> tx_start v flow k (pf_outputPorts p ! i) < secs c \<and>
      (i = 0 \<longrightarrow> tx_start v flow k (pf_outputPorts p ! i) = app_start v flow + of_nat k * secs (za_packetInterval (zf_startApplication flow))) \<and>
      (\<forall>j. i = Suc j \<longrightarrow> ready conv v flow k (pf_outputPorts p ! j) (pf_outputPorts p ! i) (pf_inputPorts p ! i) \<le> tx_start v flow k (pf_outputPorts p ! i))"
  proof (intro ballI allI impI)
    fix p i
    assume p: "p \<in> set (zf_pathFragments flow)" and i: "i < length (pf_networkNodes p) - 1"
    note hop = flow_hop_in[OF p i]
    have "i = 0 \<Longrightarrow> tx_start v flow k (pf_outputPorts p ! i) = app_start v flow + of_nat k * secs (za_packetInterval (zf_startApplication flow))"
      using solution_first_hop[OF sol assms(3) k(1)] hop by simp
    moreover have "ready conv v flow k (pf_outputPorts p ! j) (pf_outputPorts p ! i) (pf_inputPorts p ! i) \<le> tx_start v flow k (pf_outputPorts p ! i)"
      if "i = Suc j" for j using solution_next_hop[OF sol assms(3) k(1) p] i that by simp
    ultimately show "0 \<le> tx_start v flow k (pf_outputPorts p ! i) \<and> tx_start v flow k (pf_outputPorts p ! i) < secs c \<and>
      (i = 0 \<longrightarrow> tx_start v flow k (pf_outputPorts p ! i) = app_start v flow + of_nat k * secs (za_packetInterval (zf_startApplication flow))) \<and>
      (\<forall>j. i = Suc j \<longrightarrow> ready conv v flow k (pf_outputPorts p ! j) (pf_outputPorts p ! i) (pf_inputPorts p ! i) \<le> tx_start v flow k (pf_outputPorts p ! i))"
      using solution_transmission(2,3)[OF sol assms(3) k(1) hop] by blast
  qed
  show "delay_of v flow k = arrival conv v flow k (fst (snd (last (flow_hops flow)))) - tx_start v flow k (fst (snd (hd (flow_hops flow))))"
    by (rule solution_delay(1)[OF sol assms(3) k(1)])
  show "za_maxLatency (zf_startApplication flow) > 0 \<longrightarrow> delay_of v flow k \<le> secs (za_maxLatency (zf_startApplication flow))"
    using solution_delay(2)[OF sol assms(3) k(1)] by (simp add: has_maxLatency_def)
  show "delay_of v flow k = delay_of v flow k'" by (rule solution_jitter[OF sol assms(3) k])
qed

section \<open>Examples\<close>

text \<open>Two stations with a link of 5 ticks; two flows from the one to the other, with gates 0 and 1.\<close>

definition picoseconds_of :: "real \<Rightarrow> int" where
  "picoseconds_of x = \<lfloor>x * 10 ^ 12\<rfloor>"

lemma picoseconds_secs: "picoseconds_of (secs m) = m"
  by (simp add: picoseconds_of_def secs_def)

definition quoted_char :: "char \<Rightarrow> bool" where
  "quoted_char ch \<longleftrightarrow> ch \<in> set ''|[]''"

definition sample_port :: "iface \<Rightarrow> string \<Rightarrow> z3_port" where
  "sample_port p m = \<lparr>zp_port = p, zp_module = m, zp_numGates = 2, zp_datarate = 10 ^ 12, zp_propagationTime = 5, zp_cutthroughSwitchingEnabled = True\<rparr>"

definition sample_app :: "string \<Rightarrow> simtime \<Rightarrow> z3_app" where
  "sample_app m lat = \<lparr>za_module = m, za_packetLength = 100, za_packetInterval = 1000, za_maxLatency = lat, za_maxJitter = 0\<rparr>"

definition sample_zflow :: "string \<Rightarrow> int \<Rightarrow> z3_app \<Rightarrow> z3_flow" where
  "sample_zflow n g a = \<lparr>zf_name = n, zf_gateIndex = g, zf_cutthroughSwitchingHeaderSize = 0, zf_startApplication = a,
     zf_pathFragments = [\<lparr>pf_networkNodes = [''s'', ''d''], pf_inputPorts = [sample_port 8 ''n.B''], pf_outputPorts = [sample_port 7 ''n.A'']\<rparr>]\<rparr>"

definition sample_input :: z3_input where
  "sample_input = \<lparr>zi_applications = [sample_app ''n.X'' 150, sample_app ''n.Y'' (-1)],
     zi_ports = [sample_port 7 ''n.A'', sample_port 8 ''n.B''],
     zi_flows = [sample_zflow ''f'' 0 (sample_app ''n.X'' 150), sample_zflow ''g'' 1 (sample_app ''n.Y'' (-1))]\<rparr>"

definition sample_values :: "(string \<times> int) list" where
  "sample_values = [(''gateCycleDuration'', 1000), (''totalEndToEndDelay'', 210), (''X.startTime'', 0), (''Y.startTime'', 200),
     (''X.packetInterval'', 1000), (''Y.packetInterval'', 1000), (''A.propagationTime'', 5),
     (''f.A.transmissionDuration'', 100), (''g.A.transmissionDuration'', 100),
     (''f.packet0.A.gate0.transmissionStartTime'', 0), (''f.packet0.A.gate0.transmissionEndTime'', 100),
     (''f.packet0.B.gate0.receptionStartTime'', 5), (''f.packet0.B.gate0.receptionEndTime'', 105),
     (''g.packet0.A.gate1.transmissionStartTime'', 200), (''g.packet0.A.gate1.transmissionEndTime'', 300),
     (''g.packet0.B.gate1.receptionStartTime'', 205), (''g.packet0.B.gate1.receptionEndTime'', 305),
     (''f.packet0.endToEndDelay'', 105), (''g.packet0.endToEndDelay'', 105), (''f.maxEndToEndDelay'', 150),
     (''f.averageEndToEndDelay'', 105), (''g.averageEndToEndDelay'', 105), (''f.maxJitter'', 0), (''g.maxJitter'', 0),
     (''A.interframeGap'', 96), (''B.interframeGap'', 96)]"

definition sample_solution :: zmodel where
  "sample_solution n = (case map_of sample_values n of Some m \<Rightarrow> secs m | None \<Rightarrow> 0)"

definition sample_solver :: "zassert list \<Rightarrow> zexpr option \<Rightarrow> zmodel option" where
  "sample_solver asserts goal = (if list_all (holds sample_solution) asserts then Some sample_solution else None)"

lemma sample_solver_sound: "solver_sound sample_solver"
  by (auto simp: solver_sound_def sample_solver_def list_all_iff split: if_splits)

lemma sample_names: "names_clear picoseconds_of 1000 sample_input"
  by code_simp

lemma sample_quotes: "z3_quotes quoted_char"
  by (simp add: z3_quotes_def quoted_char_def)

text \<open>The names of the transmissions of port A; the other port sends nothing, and port A receives nothing.\<close>

abbreviation sample_A :: z3_port where "sample_A \<equiv> sample_port 7 ''n.A''"

abbreviation sample_B :: z3_port where "sample_B \<equiv> sample_port 8 ''n.B''"

lemma sample_orders:
  "map (tx_order quoted_char 1000 sample_input sample_A) [-1, 0, 1] =
     [[''f.packet0.A.gate0.'', ''g.packet0.A.gate1.''], [''f.packet0.A.gate0.''], [''g.packet0.A.gate1.'']]"
  "map (tx_order quoted_char 1000 sample_input sample_B) [-1, 0, 1] = [[], [], []]"
  by code_simp+

lemma sample_receptions:
  "map (receptionEndTimeVariables quoted_char (all_variables picoseconds_of 1000 sample_input) sample_A) [0, 1] = [[], []]"
  by code_simp

lemma sample_lists:
  assumes "set (z3_variables picoseconds_of 1000 sample_input) \<subseteq> set V" "set V \<subseteq> set (all_variables picoseconds_of 1000 sample_input)"
    and "p \<in> {sample_A, sample_B}" "g \<in> {-1, 0, 1}"
  shows "transmissionStartTimeVariables quoted_char V p g = map start_name (tx_order quoted_char 1000 sample_input p g)"
    "transmissionEndTimeVariables quoted_char V p g = map end_name (tx_order quoted_char 1000 sample_input p g)"
proof -
  have p: "p \<in> set (zi_ports sample_input)" "g \<in> set [-1..zp_numGates p - 1]" using assms(3,4) by (auto simp: sample_input_def sample_port_def)
  show "transmissionStartTimeVariables quoted_char V p g = map start_name (tx_order quoted_char 1000 sample_input p g)"
    "transmissionEndTimeVariables quoted_char V p g = map end_name (tx_order quoted_char 1000 sample_input p g)"
    by (rule time_variables_listed[OF sample_quotes sample_names p assms(1,2)])+
qed

lemma sample_asserts:
  "z3_asserts picoseconds_of quoted_char 1000 sample_input = Some (timing_asserts picoseconds_of 1000 sample_input @
     [ZEq (ZVar ''A.interframeGap'') (ZReal (secs 96)),
      ZOr (ZLe (ZAdd (ZVar ''f.packet0.A.gate0.transmissionEndTime'') (ZVar ''A.interframeGap'')) (ZVar ''g.packet0.A.gate1.transmissionStartTime''))
          (ZLe (ZAdd (ZVar ''g.packet0.A.gate1.transmissionEndTime'') (ZVar ''A.interframeGap'')) (ZVar ''f.packet0.A.gate0.transmissionStartTime'')),
      ZEq (ZVar ''B.interframeGap'') (ZReal (secs 96))])"
proof -
  let ?z = "z3_variables picoseconds_of 1000 sample_input" and ?all = "all_variables picoseconds_of 1000 sample_input"
  have gaps: "interframeGapVariable sample_A = ''A.interframeGap''" "interframeGapVariable sample_B = ''B.interframeGap''"
    by (simp_all add: interframeGapVariable_def getFullPath_def sample_port_def)
  have all: "?all = ?z @ [''A.interframeGap'', ''B.interframeGap'']" by (simp add: all_variables_def sample_input_def gaps)
  have gap: "picoseconds_of (96 / zp_datarate p) = 96" if "p \<in> {sample_A, sample_B}" for p
    using that by (auto simp: picoseconds_of_def sample_port_def)
  have V: "set ?z \<subseteq> set (?z @ [''A.interframeGap''])" "set (?z @ [''A.interframeGap'']) \<subseteq> set ?all" "set ?z \<subseteq> set ?all" by (auto simp: all)
  note l1 = sample_lists[OF V(1,2), of sample_A "-1", simplified] and l2 = sample_lists[OF V(3) subset_refl, simplified]
  note o = sample_orders[simplified]
  have ports: "zi_ports sample_input = [sample_A, sample_B]" by (simp add: sample_input_def)
  have ex: "exclusive_asserts picoseconds_of quoted_char ?z [sample_A, sample_B] =
     [ZEq (ZVar ''A.interframeGap'') (ZReal (secs 96)),
      ZOr (ZLe (ZAdd (ZVar ''f.packet0.A.gate0.transmissionEndTime'') (ZVar ''A.interframeGap'')) (ZVar ''g.packet0.A.gate1.transmissionStartTime''))
          (ZLe (ZAdd (ZVar ''g.packet0.A.gate1.transmissionEndTime'') (ZVar ''A.interframeGap'')) (ZVar ''f.packet0.A.gate0.transmissionStartTime'')),
      ZEq (ZVar ''B.interframeGap'') (ZReal (secs 96))]"
    using l1 l2[of sample_B "-1"] o gap by (simp add: port_exclusive_asserts_def gaps Let_def all all_pairs_def upt_rec)
  have r: "[0..zp_numGates p - 1] = [0, 1]" if "p \<in> {sample_A, sample_B}" for p
    using that by (auto simp: sample_port_def upto.simps)
  have A: "receptionEndTimeVariables quoted_char ?all sample_A g = []" if "g \<in> {0, 1}" for g using that sample_receptions by auto
  have B: "transmissionEndTimeVariables quoted_char ?all sample_B g = []" "transmissionStartTimeVariables quoted_char ?all sample_B g = []"
    if "g \<in> {0, 1}" for g using that l2(1,2)[of sample_B g] o by auto
  have q: "order_asserts quoted_char ?all p g = []" "class_asserts quoted_char ?all p g g' = []" if "p \<in> {sample_A, sample_B}" "g \<in> {0, 1}" for p g g'
    using that A[OF that(2)] B[OF that(2)] by (auto simp: order_asserts_def class_asserts_def all_pairs_def Let_def)
  have q: "port_queue_asserts quoted_char ?all p = []" "port_class_asserts quoted_char ?all p = []" if "p \<in> {sample_A, sample_B}" for p
    using q[OF that] by (simp_all add: port_queue_asserts_def port_class_asserts_def r[OF that])
  have flows: "\<forall>flow \<in> set (zi_flows sample_input). getPacketCount 1000 flow \<noteq> None \<and> (packets_of 1000 flow \<noteq> [] \<longrightarrow> flow_hops flow \<noteq> [])"
    by (simp add: sample_input_def sample_zflow_def sample_app_def getPacketCount_def flow_hops_def path_hops_def)
  then show ?thesis unfolding z3_asserts_def ports ex by (simp add: ensure_def q Let_def)
qed

lemmas timing_eval = timing_asserts_def application_asserts_def flow_transmission_asserts_def transmission_asserts_def flow_delay_asserts_def
  packet_asserts_def hop_assert_def reception_times_def has_maxLatency_def total_delay_assert_def jitter_asserts_def packets_of_def getPacketCount_def
  flow_hops_def path_hops_def gateCycleDurationVariable_def applicationStartTimeVariable_def packetIntervalVariable_def propagationTimeVariable_def
  transmissionDurationVariable_def packet_port_def transmissionStartTimeVariable_def transmissionEndTimeVariable_def receptionStartTimeVariable_def
  receptionEndTimeVariable_def maxEndToEndDelayVariable_def maxJitterVariable_def endToEndDelayVariable_def totalEndToEndDelayVariable_def
  averageEndToEndDelayVariable_def getFullPath_def int_to_string_def to_string.simps Let_def sample_input_def sample_zflow_def sample_app_def sample_port_def

lemma secs_eq [simp]: "secs a = secs b \<longleftrightarrow> a = b" "secs 0 = 0" "secs a - secs b = secs (a - b)" "0 < secs a \<longleftrightarrow> 0 < a"
  by (simp_all add: secs_def diff_divide_distrib)

lemma digit_chars: "char_of (48 :: nat) = CHR ''0''" "char_of (49 :: nat) = CHR ''1''"
  by code_simp+

lemma sample_tx: "picoseconds_of (100 / 10 ^ 12) = 100" "picoseconds_of (1 / 10000000000) = 100"
  by (simp_all add: picoseconds_of_def)

lemma sample_solution_table: "list_all (\<lambda>(n, m). sample_solution n = secs m) sample_values"
  by (simp add: sample_solution_def sample_values_def)

lemmas sample_solution_at = sample_solution_table[unfolded sample_values_def, simplified]

lemma sample_solution_holds: "z3_solution picoseconds_of quoted_char 1000 sample_input sample_solution"
proof -
  have "\<forall>a \<in> set (timing_asserts picoseconds_of 1000 sample_input). holds sample_solution a"
    by (simp add: timing_eval sample_tx digit_chars sample_solution_at)
  then show ?thesis by (simp add: z3_solution_def sample_asserts sample_solution_at)
qed

lemma sample_solved: "solver_values picoseconds_of quoted_char sample_solver True 1000 sample_input = Some sample_solution"
  using sample_solution_holds by (auto simp: solver_values_def sample_solver_def z3_solution_def list_all_iff split: option.splits)

lemma sample_flow_in: "sample_zflow ''f'' 0 (sample_app ''n.X'' 150) \<in> set (zi_flows sample_input)"
  by (simp add: sample_input_def)

lemma sample_transmissions:
  "transmissions 1000 sample_input =
     [(sample_zflow ''f'' 0 (sample_app ''n.X'' 150), 0, sample_port 7 ''n.A''), (sample_zflow ''g'' 1 (sample_app ''n.Y'' (-1)), 0, sample_port 7 ''n.A'')]"
  by (simp add: transmissions_def sample_input_def sample_zflow_def sample_app_def packets_of_def getPacketCount_def flow_hops_def path_hops_def)

lemma sample_starts:
  "tx_start sample_solution (sample_zflow ''f'' 0 (sample_app ''n.X'' 150)) 0 sample_A = secs 0"
  "tx_start sample_solution (sample_zflow ''g'' 1 (sample_app ''n.Y'' (-1))) 0 sample_A = secs 200"
  by (simp_all add: tx_start_def timing_eval digit_chars sample_solution_at)

lemma sample_lengths: "picoseconds_of (of_int (za_packetLength (sample_app m lat)) / zp_datarate (sample_port p n)) = 100"
  by (simp add: sample_app_def sample_port_def sample_tx)

lemma sample_ticks: "solution_in_ticks picoseconds_of 1000 sample_input sample_solution"
  unfolding solution_in_ticks_def sample_transmissions
  using sample_lengths by (simp add: sample_starts picoseconds_secs picoseconds_secs[of 0, simplified] tx_time_def) (simp add: sample_zflow_def)

text \<open>At time 50 of the second cycle the gate of the first flow is open and the other is closed.\<close>

theorem solved_gates_carry_packets_witness:
  "\<exists>starts schedules h h'. z3_computeGateScheduling picoseconds_of quoted_char sample_solver True 1000 sample_input = Some (starts, schedules) \<and>
    gate_at 1000 schedules 7 0 example_gate 0 2000 (\<lambda>_. None) 1050 = Some h \<and> gate_at 1000 schedules 7 1 example_gate 0 2000 (\<lambda>_. None) 1050 = Some h' \<and>
    pg_isOpen h \<and> \<not> pg_isOpen h'"
proof -
  have open0: "\<exists>tx \<in> set (transmissions 1000 sample_input). tx_at (sample_port 7 ''n.A'') (int 0) tx \<and>
      tx_from picoseconds_of sample_solution tx \<le> (1050 - 0) mod 1000 \<and> (1050 - 0) mod 1000 < tx_until picoseconds_of sample_solution tx"
    unfolding sample_transmissions by code_simp
  have "0 < port_gap picoseconds_of (sample_port 7 ''n.A'')" by code_simp
  then show ?thesis
    using solved_gates_carry_packets[OF sample_solver_sound sample_solved _ sample_names _ sample_ticks, of "sample_port 7 ''n.A''" 0 1 0 1050 2000
        example_gate "\<lambda>_. None" example_gate "\<lambda>_. None"] open0 picoseconds_secs
    by (simp add: z3_quotes_def quoted_char_def sample_input_def sample_port_def) blast
qed

theorem solved_packets_in_time_witness:
  "0 \<le> tx_start sample_solution (sample_zflow ''f'' 0 (sample_app ''n.X'' 150)) 0 (sample_port 7 ''n.A'') \<and>
   delay_of sample_solution (sample_zflow ''f'' 0 (sample_app ''n.X'' 150)) 0 \<le> secs 150 \<and>
   delay_of sample_solution (sample_zflow ''f'' 0 (sample_app ''n.X'' 150)) 0 = secs 105"
proof -
  have c: "getPacketCount 1000 (sample_zflow ''f'' 0 (sample_app ''n.X'' 150)) = Some 1" by (simp add: getPacketCount_def sample_zflow_def sample_app_def)
  have k: "int 0 < 1" by simp
  have a: "arrival picoseconds_of sample_solution (sample_zflow ''f'' 0 (sample_app ''n.X'' 150)) 0 (sample_port 7 ''n.A'') -
      tx_start sample_solution (sample_zflow ''f'' 0 (sample_app ''n.X'' 150)) 0 (sample_port 7 ''n.A'') = secs 105" by code_simp
  note p = solved_packets_in_time[OF sample_solver_sound sample_solved sample_flow_in c k k, THEN conjunct1]
    solved_packets_in_time[OF sample_solver_sound sample_solved sample_flow_in c k k, THEN conjunct2, THEN conjunct1]
    solved_packets_in_time[OF sample_solver_sound sample_solved sample_flow_in c k k, THEN conjunct2, THEN conjunct2, THEN conjunct1]
  have h: "fst (snd (last (flow_hops (sample_zflow ''f'' 0 (sample_app ''n.X'' 150))))) = sample_port 7 ''n.A''"
    "fst (snd (hd (flow_hops (sample_zflow ''f'' 0 (sample_app ''n.X'' 150))))) = sample_port 7 ''n.A''"
    by (simp_all add: flow_hops_def path_hops_def sample_zflow_def)
  have "0 \<le> tx_start sample_solution (sample_zflow ''f'' 0 (sample_app ''n.X'' 150)) 0 (sample_port 7 ''n.A'')"
    using p(1) by (simp add: sample_zflow_def)
  moreover have "delay_of sample_solution (sample_zflow ''f'' 0 (sample_app ''n.X'' 150)) 0 \<le> secs 150"
    using p(3) by (simp add: sample_zflow_def sample_app_def)
  ultimately show ?thesis using p(2) a unfolding h by simp
qed

text \<open>
  The search for the variables of a gate also finds those of another gate whose number starts with the same digits, and the
  search for those of a port also those of a port whose path contains the path.
\<close>

lemma variables_confused:
  "transmissionStartTimeVariables quoted_char [''f.packet0.s1.eth.gate10.transmissionStartTime''] (sample_port 7 ''n.s1.eth'') 1 =
     [''f.packet0.s1.eth.gate10.transmissionStartTime'']"
  "transmissionStartTimeVariables quoted_char [''f.packet0.es1.eth.gate1.transmissionStartTime''] (sample_port 7 ''n.s1.eth'') 1 =
     [''f.packet0.es1.eth.gate1.transmissionStartTime'']"
  by code_simp+

text \<open>
  Transmissions are kept apart on the unbounded time axis only: a solution may let one run past the end of the cycle into
  another one at its start. Here both gates are open at time 10 of the cycle.
\<close>

definition wrapped_values :: "(string \<times> int) list" where
  "wrapped_values = [(''Y.startTime'', 950), (''g.packet0.A.gate1.transmissionStartTime'', 950), (''g.packet0.A.gate1.transmissionEndTime'', 1050),
     (''g.packet0.B.gate1.receptionStartTime'', 955), (''g.packet0.B.gate1.receptionEndTime'', 1055)]"

definition wrapped_solution :: zmodel where
  "wrapped_solution n = (case map_of wrapped_values n of Some m \<Rightarrow> secs m | None \<Rightarrow> sample_solution n)"

lemma solved_slots_overlap:
  "z3_solution picoseconds_of quoted_char 1000 sample_input wrapped_solution"
  "concat (map (cycle_slots 1000) (solution_slots picoseconds_of quoted_char (all_variables picoseconds_of 1000 sample_input) wrapped_solution sample_A 0)) =
     [(0, 100)]"
  "concat (map (cycle_slots 1000) (solution_slots picoseconds_of quoted_char (all_variables picoseconds_of 1000 sample_input) wrapped_solution sample_A 1)) =
     [(950, 50), (0, 50)]"
proof -
  have "\<forall>a \<in> set (timing_asserts picoseconds_of 1000 sample_input). holds wrapped_solution a"
    by (simp add: timing_eval sample_tx digit_chars wrapped_solution_def wrapped_values_def sample_solution_at)
  then show "z3_solution picoseconds_of quoted_char 1000 sample_input wrapped_solution"
    by (simp add: z3_solution_def sample_asserts wrapped_solution_def wrapped_values_def sample_solution_at)
  have p: "sample_A \<in> set (zi_ports sample_input)" "0 \<in> set [-1..zp_numGates sample_A - 1]" "1 \<in> set [-1..zp_numGates sample_A - 1]"
    by (simp_all add: sample_input_def sample_port_def)
  note l = solution_slots_listed[OF sample_quotes sample_names p(1,2)] solution_slots_listed[OF sample_quotes sample_names p(1,3)]
  have t: "wrapped_solution ''f.packet0.A.gate0.transmissionStartTime'' = secs 0" "wrapped_solution ''f.packet0.A.gate0.transmissionEndTime'' = secs 100"
    "wrapped_solution ''g.packet0.A.gate1.transmissionStartTime'' = secs 950" "wrapped_solution ''g.packet0.A.gate1.transmissionEndTime'' = secs 1050"
    by (simp_all add: wrapped_solution_def wrapped_values_def sample_solution_at)
  note o = sample_orders(1)[simplified]
  show "concat (map (cycle_slots 1000) (solution_slots picoseconds_of quoted_char (all_variables picoseconds_of 1000 sample_input) wrapped_solution sample_A 0)) =
     [(0, 100)]"
    unfolding l using o by (simp add: t[simplified] picoseconds_secs picoseconds_secs[of 0, simplified] cycle_slots_def raw_rem_def)
  show "concat (map (cycle_slots 1000) (solution_slots picoseconds_of quoted_char (all_variables picoseconds_of 1000 sample_input) wrapped_solution sample_A 1)) =
     [(950, 50), (0, 50)]"
    unfolding l using o by (simp add: t[simplified] picoseconds_secs cycle_slots_def raw_rem_def)
qed
end
