(* ===== verification/Stream_Configuration.thy ===== *)
theory Stream_Configuration
  imports Stream_Redundancy Forwarding_Table "HOL-Library.List_Lexorder" "HOL-Library.Char_ord"
begin

text \<open>
  The static configuration of redundant streams, \<open>StreamRedundancyConfigurator\<close>
  (src/inet/src/inet/linklayer/configurator): it turns the trees of every stream into the parameters of the
  stream modules of every network node. The lemmas describe the configuration it computes: the encodings,
  decodings, mergings and splittings of every node, in terms of the trees.

  Network nodes are identified by their full names and interfaces by their names in their node. \<open>None\<close> is a
  \<open>throw\<close> or the dereference of a null pointer. Maps that are read with \<open>operator[]\<close> are functions with the
  default value. That the next VLAN ids start at 0 is the code's: \<open>minVlanId\<close> is not used.
\<close>

section \<open>Configuration and topology\<close>

text \<open>A tree is a list of paths, a path a list of node names, each with an interface name after a dot or not.\<close>

record stream_conf =
  cf_name :: string
  cf_source :: string
  cf_destination :: string
  cf_destinationAddress :: "string option"
  cf_pcp :: "int option"
  cf_packetFilter :: "string option"
  cf_trees :: "string list list list"

definition destination_address :: "stream_conf \<Rightarrow> string" where
  "destination_address c = (case cf_destinationAddress c of Some a \<Rightarrow> a | None \<Rightarrow> cf_destination c)"

text \<open>The links of a node are its neighbours' names with the interface of the link in the node itself.\<close>

record topology_node =
  tn_name :: string
  tn_interfaces :: "string list"
  tn_linksOut :: "(string \<times> string option) list"
  tn_linksIn :: "(string \<times> string option) list"

definition findLinkOut :: "topology_node \<Rightarrow> string \<Rightarrow> string option" where
  "findLinkOut tn neighbor = do { i \<leftarrow> map_of (tn_linksOut tn) neighbor; i }"

definition findLinkIn :: "topology_node \<Rightarrow> string \<Rightarrow> string option" where
  "findLinkIn tn neighbor = do { i \<leftarrow> map_of (tn_linksIn tn) neighbor; i }"

definition getNodeName :: "string \<Rightarrow> string" where
  "getNodeName name = takeWhile (\<lambda>c. c \<noteq> CHR ''.'') name"

definition getInterfaceName :: "string \<Rightarrow> string" where
  "getInterfaceName name = drop 1 (dropWhile (\<lambda>c. c \<noteq> CHR ''.'') name)"

section \<open>State\<close>

record stream_identification =
  xi_stream :: string
  xi_packetFilter :: string

record stream_decoding =
  xd_networkInterface :: string
  xd_vlanId :: int
  xd_name :: string

record stream_merging =
  xm_inputStreams :: "string list"
  xm_outputStream :: string

record stream_splitting =
  xs_inputStream :: string
  xs_outputStreams :: "string list"

record stream_encoding =
  xe_name :: string
  xe_networkInterface :: string
  xe_destination :: string
  xe_vlanId :: int
  xe_pcp :: int

record node_config =
  nc_identifications :: "stream_identification list"
  nc_encodings :: "stream_encoding list"
  nc_decodings :: "stream_decoding list"
  nc_mergings :: "stream_merging list"
  nc_splittings :: "stream_splitting list"

record stream_node =
  sn_senders :: "string list"
  sn_interfaces :: "string list list"
  sn_receivers :: "string list list"
  sn_distinctReceivers :: "string list list"

record configurator =
  cg_streams :: "string \<Rightarrow> string \<Rightarrow> stream_node"
  cg_nextVlanIds :: "string \<times> string \<Rightarrow> int"
  cg_assignedVlanIds :: "string \<times> string \<times> string \<times> string \<Rightarrow> int"
  cg_nodes :: "string \<Rightarrow> node_config"

definition empty_stream_node :: stream_node where
  "empty_stream_node = \<lparr>sn_senders = [], sn_interfaces = [], sn_receivers = [], sn_distinctReceivers = []\<rparr>"

definition empty_node_config :: node_config where
  "empty_node_config = \<lparr>nc_identifications = [], nc_encodings = [], nc_decodings = [], nc_mergings = [],
     nc_splittings = []\<rparr>"

definition clearConfiguration :: configurator where
  "clearConfiguration = \<lparr>cg_streams = (\<lambda>_ _. empty_stream_node), cg_nextVlanIds = (\<lambda>_. 0),
     cg_assignedVlanIds = (\<lambda>_. 0), cg_nodes = (\<lambda>_. empty_node_config)\<rparr>"

definition update_node :: "string \<Rightarrow> (node_config \<Rightarrow> node_config) \<Rightarrow> configurator \<Rightarrow> configurator" where
  "update_node n f s = s\<lparr>cg_nodes := (cg_nodes s)(n := f (cg_nodes s n))\<rparr>"

section \<open>Senders and receivers\<close>

text \<open>The body of the innermost loop at a position of a path that names the node: the names before and
  after it, the senders so far, and the receivers and interfaces of the tree so far.\<close>

definition push_new :: "'a \<Rightarrow> 'a list \<Rightarrow> 'a list" where
  "push_new x xs = (if x \<in> set xs then xs else xs @ [x])"

definition visit_position ::
  "topology_node \<Rightarrow> string option \<Rightarrow> string \<Rightarrow> string option \<Rightarrow>
   string list \<times> string list \<times> string list \<Rightarrow> (string list \<times> string list \<times> string list) option" where
  "visit_position tn sender name receiver acc =
     (case acc of (senders, receivers, interfaces) \<Rightarrow>
        let senders = (case sender of None \<Rightarrow> senders | Some x \<Rightarrow> push_new (getNodeName x) senders) in
        case receiver of None \<Rightarrow> Some (senders, receivers, interfaces)
        | Some y \<Rightarrow>
            if getNodeName y \<in> set receivers then Some (senders, receivers, interfaces)
            else do {
              i \<leftarrow> (if getInterfaceName name = '''' then findLinkOut tn (getNodeName y)
                   else do { ensure (getInterfaceName name \<in> set (tn_interfaces tn)); Some (getInterfaceName name) });
              Some (senders, receivers @ [getNodeName y], interfaces @ [i])
            })"

fun scan_path ::
  "topology_node \<Rightarrow> string option \<Rightarrow> string list \<Rightarrow> string list \<times> string list \<times> string list \<Rightarrow>
   (string list \<times> string list \<times> string list) option" where
  "scan_path tn prev [] acc = Some acc"
| "scan_path tn prev (name # names) acc =
     do {
       acc \<leftarrow> (if getNodeName name = tn_name tn
              then visit_position tn prev name (case names of [] \<Rightarrow> None | y # _ \<Rightarrow> Some y) acc else Some acc);
       scan_path tn (Some name) names acc
     }"

text \<open>The senders of all trees are collected in one list, the receivers tree by tree.\<close>

fun scan_trees ::
  "topology_node \<Rightarrow> string list list list \<Rightarrow> string list \<Rightarrow>
   (string list \<times> string list list \<times> string list list) option" where
  "scan_trees tn [] senders = Some (senders, [], [])"
| "scan_trees tn (tree # trees) senders =
     do {
       (senders, receivers, interfaces) \<leftarrow> fold_opt (scan_path tn None) tree (senders, [], []);
       (senders, rs, is) \<leftarrow> scan_trees tn trees senders;
       Some (senders, receivers # rs, interfaces # is)
     }"

definition node_senders_and_receivers :: "stream_conf \<Rightarrow> topology_node \<Rightarrow> configurator \<Rightarrow> configurator option" where
  "node_senders_and_receivers c tn s =
     do {
       (senders, receivers, interfaces) \<leftarrow> scan_trees tn (cf_trees c) [];
       let old = cg_streams s (cf_name c);
       Some (s\<lparr>cg_streams := (cg_streams s)(cf_name c := old(tn_name tn :=
         (old (tn_name tn))\<lparr>sn_senders := senders, sn_receivers := receivers, sn_interfaces := interfaces\<rparr>))\<rparr>)
     }"

definition add_distinct :: "stream_node \<Rightarrow> stream_node" where
  "add_distinct sn = sn\<lparr>sn_distinctReceivers :=
     fold (\<lambda>r ds. if r \<noteq> [] then push_new r ds else ds) (sn_receivers sn) (sn_distinctReceivers sn)\<rparr>"

definition computeStreamSendersAndReceivers ::
  "topology_node list \<Rightarrow> stream_conf \<Rightarrow> configurator \<Rightarrow> configurator option" where
  "computeStreamSendersAndReceivers tp c s =
     do {
       s \<leftarrow> fold_opt (node_senders_and_receivers c) tp s;
       Some (s\<lparr>cg_streams := (cg_streams s)(cf_name c := (\<lambda>n. add_distinct (cg_streams s (cf_name c) n)))\<rparr>)
     }"

section \<open>Encodings\<close>

definition name_suffix :: "string list \<Rightarrow> string" where
  "name_suffix receivers = concat (map (\<lambda>r. ''_'' @ r) receivers)"

definition output_stream_name :: "stream_conf \<Rightarrow> stream_node \<Rightarrow> string list \<Rightarrow> string" where
  "output_stream_name c sn receivers =
     (if length (sn_distinctReceivers sn) = 1 then cf_name c else cf_name c @ name_suffix receivers)"

definition encode_receiver ::
  "stream_conf \<Rightarrow> string \<Rightarrow> string \<Rightarrow> int \<Rightarrow> string \<times> string \<Rightarrow> configurator \<Rightarrow> configurator" where
  "encode_receiver c n out v ri s =
     update_node n (\<lambda>nc. nc\<lparr>nc_encodings := nc_encodings nc @
         [\<lparr>xe_name = out, xe_networkInterface = snd ri, xe_destination = destination_address c, xe_vlanId = v,
           xe_pcp = (case cf_pcp c of Some p \<Rightarrow> p | None \<Rightarrow> -1)\<rparr>]\<rparr>)
       (s\<lparr>cg_assignedVlanIds := (cg_assignedVlanIds s)((n, fst ri, destination_address c, cf_name c) := v)\<rparr>)"

definition encode_tree ::
  "int \<Rightarrow> stream_conf \<Rightarrow> string \<Rightarrow> string list \<times> string list \<Rightarrow> configurator \<Rightarrow> configurator option" where
  "encode_tree maxVlanId c n ri s =
     (let out = output_stream_name c (cg_streams s (cf_name c) n) (fst ri);
          key = (n, destination_address c);
          v = cg_nextVlanIds s key in
      if fst ri = [] then Some s
      else if out \<in> xe_name ` set (nc_encodings (cg_nodes s n)) then Some s
      else do {
        ensure (v \<le> maxVlanId);
        Some (fold (encode_receiver c n out v) (zip (fst ri) (snd ri))
          (s\<lparr>cg_nextVlanIds := (cg_nextVlanIds s)(key := v + 1)\<rparr>))
      })"

definition encode_node :: "int \<Rightarrow> stream_conf \<Rightarrow> topology_node \<Rightarrow> configurator \<Rightarrow> configurator option" where
  "encode_node maxVlanId c tn s =
     (let sn = cg_streams s (cf_name c) (tn_name tn)
      in fold_opt (encode_tree maxVlanId c (tn_name tn)) (zip (sn_receivers sn) (sn_interfaces sn)) s)"

definition computeStreamEncodings ::
  "int \<Rightarrow> topology_node list \<Rightarrow> stream_conf \<Rightarrow> configurator \<Rightarrow> configurator option" where
  "computeStreamEncodings maxVlanId tp c s = fold_opt (encode_node maxVlanId c) tp s"

section \<open>Identification, decoding, merging and splitting\<close>

definition input_stream_name :: "stream_conf \<Rightarrow> stream_node \<Rightarrow> string \<Rightarrow> string" where
  "input_stream_name c sn sender =
     (if length (sn_senders sn) = 1 then cf_name c else cf_name c @ ''_'' @ sender)"

definition stream_decoding_of ::
  "int \<Rightarrow> stream_conf \<Rightarrow> topology_node \<Rightarrow> configurator \<Rightarrow> string \<Rightarrow> stream_decoding option" where
  "stream_decoding_of maxVlanId c tn s sender =
     do {
       i \<leftarrow> findLinkIn tn sender;
       let v = cg_assignedVlanIds s (sender, tn_name tn, destination_address c, cf_name c);
       ensure (v \<le> maxVlanId);
       Some \<lparr>xd_networkInterface = i, xd_vlanId = v,
         xd_name = input_stream_name c (cg_streams s (cf_name c) (tn_name tn)) sender\<rparr>
     }"

definition stream_merging_of :: "stream_conf \<Rightarrow> stream_node \<Rightarrow> stream_merging" where
  "stream_merging_of c sn =
     \<lparr>xm_inputStreams = map (\<lambda>sender. cf_name c @ ''_'' @ sender) (sn_senders sn), xm_outputStream = cf_name c\<rparr>"

definition stream_splitting_of :: "stream_conf \<Rightarrow> stream_node \<Rightarrow> stream_splitting" where
  "stream_splitting_of c sn =
     \<lparr>xs_inputStream = cf_name c,
      xs_outputStreams = map (\<lambda>receivers. cf_name c @ name_suffix receivers) (sn_distinctReceivers sn)\<rparr>"

definition policy_node :: "int \<Rightarrow> stream_conf \<Rightarrow> topology_node \<Rightarrow> configurator \<Rightarrow> configurator option" where
  "policy_node maxVlanId c tn s =
     (let sn = cg_streams s (cf_name c) (tn_name tn) in
      do {
        ds \<leftarrow> those (map (stream_decoding_of maxVlanId c tn s) (sn_senders sn));
        Some (update_node (tn_name tn) (\<lambda>nc. nc\<lparr>
          nc_identifications := nc_identifications nc @ (if tn_name tn = cf_source c
            then [\<lparr>xi_stream = cf_name c,
                   xi_packetFilter = (case cf_packetFilter c of Some f \<Rightarrow> f | None \<Rightarrow> ''*'')\<rparr>] else []),
          nc_decodings := nc_decodings nc @ ds,
          nc_mergings := nc_mergings nc @ (if length (sn_senders sn) > 1 then [stream_merging_of c sn] else []),
          nc_splittings := nc_splittings nc @
            (if length (sn_distinctReceivers sn) \<noteq> 1 then [stream_splitting_of c sn] else [])\<rparr>) s)
      })"

definition computeStreamPolicyConfigurations ::
  "int \<Rightarrow> topology_node list \<Rightarrow> stream_conf \<Rightarrow> configurator \<Rightarrow> configurator option" where
  "computeStreamPolicyConfigurations maxVlanId tp c s = fold_opt (policy_node maxVlanId c) tp s"

definition computeStream :: "int \<Rightarrow> topology_node list \<Rightarrow> stream_conf \<Rightarrow> configurator \<Rightarrow> configurator option" where
  "computeStream maxVlanId tp c s =
     do {
       s \<leftarrow> computeStreamSendersAndReceivers tp c s;
       s \<leftarrow> computeStreamEncodings maxVlanId tp c s;
       computeStreamPolicyConfigurations maxVlanId tp c s
     }"

definition computeStreams :: "int \<Rightarrow> topology_node list \<Rightarrow> stream_conf list \<Rightarrow> configurator \<Rightarrow> configurator option" where
  "computeStreams maxVlanId tp confs s = fold_opt (computeStream maxVlanId tp) confs s"

section \<open>The parameters of the modules of a node\<close>

record node_modules =
  nm_identifier :: bool
  nm_decoder :: bool
  nm_merger :: bool
  nm_splitter :: bool
  nm_encoder :: bool
  nm_macTable :: bool
  nm_qTagHeaderChecker :: bool

text \<open>\<open>None\<close> is a parameter that is not set. The entries of an array are tuples: filter, stream and sequence
  numbering; interface, VLAN and stream; stream, VLAN and priority.\<close>

record node_parameters =
  np_identifier :: "(string \<times> string \<times> bool) list option"
  np_decoder :: "(string \<times> int \<times> string) list option"
  np_merger :: "(string \<Rightarrow> string option) option"
  np_splitter :: "(string \<Rightarrow> string list option) option"
  np_encoder :: "(string \<times> int \<times> int) list option"
  np_forwardingTable :: "ft_config list option"
  np_vlanIdFilter :: "int list option"

definition merging_parameter :: "stream_merging list \<Rightarrow> string \<Rightarrow> string option" where
  "merging_parameter ms =
     fold (\<lambda>m. fold (\<lambda>i par. par(i \<mapsto> xm_outputStream m)) (xm_inputStreams m)) ms Map.empty"

definition splitting_parameter :: "stream_splitting list \<Rightarrow> string \<Rightarrow> string list option" where
  "splitting_parameter ss = fold (\<lambda>x par. par(xs_inputStream x \<mapsto> xs_outputStreams x)) ss Map.empty"

definition encoding_entry ::
  "stream_encoding \<Rightarrow> (string \<Rightarrow> (int \<times> int) option) \<Rightarrow> (string \<Rightarrow> (int \<times> int) option) option" where
  "encoding_entry e mapping =
     (case mapping (xe_name e) of
        Some (v, p) \<Rightarrow> do { ensure (v = xe_vlanId e); Some mapping }
      | None \<Rightarrow> Some (mapping(xe_name e \<mapsto> (xe_vlanId e, xe_pcp e))))"

text \<open>The entries in the order of a \<open>std::map\<close>, by name.\<close>

definition encoding_parameter :: "stream_encoding list \<Rightarrow> (string \<times> int \<times> int) list option" where
  "encoding_parameter es =
     do {
       mapping \<leftarrow> fold_opt encoding_entry es Map.empty;
       Some (map (\<lambda>x. (x, the (mapping x))) (sort (remdups (map xe_name es))))
     }"

definition forwarding_parameter :: "stream_encoding list \<Rightarrow> ft_config list" where
  "forwarding_parameter es =
     map (\<lambda>e. \<lparr>fc_vlan = Some (nat (xe_vlanId e)), fc_address = xe_destination e,
       fc_interface = xe_networkInterface e\<rparr>) es"

definition configureStreams_node :: "node_modules \<Rightarrow> node_config \<Rightarrow> node_parameters option" where
  "configureStreams_node nm nc =
     do {
       enc \<leftarrow> (if nm_encoder nm \<and> nc_encodings nc \<noteq> [] then map_option Some (encoding_parameter (nc_encodings nc))
              else Some None);
       Some \<lparr>
         np_identifier = (if nm_identifier nm \<and> nc_identifications nc \<noteq> []
           then Some (map (\<lambda>x. (xi_packetFilter x, xi_stream x, True)) (nc_identifications nc)) else None),
         np_decoder = (if nm_decoder nm \<and> nc_decodings nc \<noteq> []
           then Some (map (\<lambda>x. (xd_networkInterface x, xd_vlanId x, xd_name x)) (nc_decodings nc)) else None),
         np_merger = (if nm_merger nm \<and> nc_mergings nc \<noteq> [] then Some (merging_parameter (nc_mergings nc)) else None),
         np_splitter = (if nm_splitter nm \<and> nc_splittings nc \<noteq> []
           then Some (splitting_parameter (nc_splittings nc)) else None),
         np_encoder = enc,
         np_forwardingTable = (if nm_macTable nm \<and> nc_encodings nc \<noteq> []
           then Some (forwarding_parameter (nc_encodings nc)) else None),
         np_vlanIdFilter = (if nm_qTagHeaderChecker nm
           then Some (sort (remdups (map xd_vlanId (nc_decodings nc)))) else None)\<rparr>
     }"

text \<open>How the stream modules read their parameters. \<open>matches\<close> is \<open>cPatternMatcher\<close> of the simulation kernel:
  a pattern and a name.\<close>

definition decoder_entries :: "(string \<Rightarrow> string \<Rightarrow> bool) \<Rightarrow> (string \<times> int \<times> string) list option \<Rightarrow> decoder_entry list" where
  "decoder_entries matches par =
     map (\<lambda>(i, v, st). \<lparr>de_packetFilter = (\<lambda>_. True), de_interfaceNameMatcher = Some (matches i),
        de_source = UNSPECIFIED_ADDRESS, de_destination = UNSPECIFIED_ADDRESS, de_vlanId = v, de_pcp = -1,
        de_stream = st\<rparr>) (case par of None \<Rightarrow> [] | Some l \<Rightarrow> l)"

definition encoder_entries :: "(string \<times> int \<times> int) list option \<Rightarrow> encoder_entry list" where
  "encoder_entries par =
     map (\<lambda>(st, v, p). \<lparr>ee_vlanId = v, ee_pcp = p, ee_stream = st\<rparr>) (case par of None \<Rightarrow> [] | Some l \<Rightarrow> l)"

definition mapping_parameter :: "('a \<Rightarrow> 'b option) option \<Rightarrow> 'a \<Rightarrow> 'b option" where
  "mapping_parameter par = (case par of None \<Rightarrow> Map.empty | Some m \<Rightarrow> m)"

text \<open>\<open>getPathFragments\<close>: the paths of a stream cut at the nodes that merge or split it. \<open>push_new\<close> keeps the
  fragments different.\<close>

definition add_fragment :: "string list \<Rightarrow> string list list \<Rightarrow> string list list" where
  "add_fragment f fs = (if length f > 1 then push_new f fs else fs)"

fun cut_path :: "(string \<Rightarrow> bool) \<Rightarrow> string list \<Rightarrow> string list \<Rightarrow> string list list \<Rightarrow> string list list" where
  "cut_path cuts member [] fs = add_fragment member fs"
| "cut_path cuts member (name # names) fs =
     (let member = member @ [name]
      in if cuts (getNodeName name) then cut_path cuts [name] names (add_fragment member fs)
         else cut_path cuts member names fs)"

definition cuts_stream :: "configurator \<Rightarrow> string \<Rightarrow> string \<Rightarrow> bool" where
  "cuts_stream s st n \<longleftrightarrow> (\<exists>m \<in> set (nc_mergings (cg_nodes s n)). xm_outputStream m = st) \<or>
     (\<exists>x \<in> set (nc_splittings (cg_nodes s n)). xs_inputStream x = st)"

definition getPathFragments :: "stream_conf list \<Rightarrow> configurator \<Rightarrow> string \<Rightarrow> string list list option" where
  "getPathFragments confs s st =
     (case filter (\<lambda>c. cf_name c = st) confs of [] \<Rightarrow> None
      | c # _ \<Rightarrow> Some (fold (\<lambda>tree fs. fold (cut_path (cuts_stream s st) []) tree fs) (cf_trees c) []))"

section \<open>The trees\<close>

text \<open>What the trees of a stream ask for, with plain node names: its hops, for every node the nodes before it
  and, tree by tree, the nodes after it.\<close>

fun path_hops :: "string list \<Rightarrow> (string \<times> string) list" where
  "path_hops (x # y # path) = (x, y) # path_hops (y # path)"
| "path_hops path = []"

definition tree_hops :: "string list list \<Rightarrow> (string \<times> string) list" where
  "tree_hops tree = concat (map path_hops tree)"

definition stream_hops :: "stream_conf \<Rightarrow> (string \<times> string) list" where
  "stream_hops c = concat (map tree_hops (cf_trees c))"

definition hops_into :: "string \<Rightarrow> (string \<times> string) list \<Rightarrow> string list" where
  "hops_into n hs = map fst (filter (\<lambda>h. snd h = n) hs)"

definition hops_from :: "string \<Rightarrow> (string \<times> string) list \<Rightarrow> string list" where
  "hops_from n hs = map snd (filter (\<lambda>h. fst h = n) hs)"

definition senders_of :: "stream_conf \<Rightarrow> string \<Rightarrow> string list" where
  "senders_of c n = first_copies (hops_into n (stream_hops c))"

definition receivers_of :: "string \<Rightarrow> string list list \<Rightarrow> string list" where
  "receivers_of n tree = first_copies (hops_from n (tree_hops tree))"

definition distinct_receivers :: "stream_conf \<Rightarrow> string \<Rightarrow> string list list" where
  "distinct_receivers c n = first_copies (filter (\<lambda>r. r \<noteq> []) (map (receivers_of n) (cf_trees c)))"

definition plain_name :: "string \<Rightarrow> bool" where
  "plain_name x \<longleftrightarrow> x \<noteq> '''' \<and> CHR ''.'' \<notin> set x \<and> CHR ''_'' \<notin> set x"

definition plain_stream :: "stream_conf \<Rightarrow> bool" where
  "plain_stream c \<longleftrightarrow> plain_name (cf_name c) \<and> (\<forall>tree \<in> set (cf_trees c). \<forall>path \<in> set tree. \<forall>x \<in> set path. plain_name x)"

text \<open>The fragments of a stream cover its hops and no others.\<close>

definition fragment_hops :: "string list list \<Rightarrow> (string \<times> string) set" where
  "fragment_hops fs = (\<Union>f \<in> set fs. set (path_hops f))"

lemma path_hops_append: "set (path_hops (xs @ y # ys)) = set (path_hops (xs @ [y])) \<union> set (path_hops (y # ys))"
  by (induction xs rule: path_hops.induct) auto

lemma short_path_hops: "length f \<le> 1 \<Longrightarrow> path_hops f = []"
  by (cases f rule: path_hops.cases) auto

lemma fragment_hops_add [simp]: "fragment_hops (add_fragment f fs) = fragment_hops fs \<union> set (path_hops f)"
  by (auto simp: fragment_hops_def add_fragment_def push_new_def short_path_hops)

lemma cut_path_hops: "fragment_hops (cut_path cuts member names fs) = fragment_hops fs \<union> set (path_hops (member @ names))"
proof (induction names arbitrary: member fs)
  case (Cons x xs)
  show ?case by (auto simp: Let_def Cons.IH path_hops_append[of member x xs])
qed simp

theorem fragments_cover_stream:
  assumes "getPathFragments confs s st = Some fs"
  shows "\<exists>c \<in> set confs. cf_name c = st \<and> fragment_hops fs = set (stream_hops c)"
proof -
  obtain c cs where c: "filter (\<lambda>c. cf_name c = st) confs = c # cs"
    "fs = fold (\<lambda>tree fs. fold (cut_path (cuts_stream s st) []) tree fs) (cf_trees c) []"
    using assms by (auto simp: getPathFragments_def split: list.splits)
  have 1: "fragment_hops (fold (cut_path cuts []) tree gs) = fragment_hops gs \<union> set (tree_hops tree)" for cuts tree gs
    by (induction tree arbitrary: gs) (auto simp: cut_path_hops tree_hops_def)
  have "fragment_hops (fold (\<lambda>tree fs. fold (cut_path cuts []) tree fs) trees gs) =
      fragment_hops gs \<union> set (concat (map tree_hops trees))" for cuts trees gs
    by (induction trees arbitrary: gs) (auto simp: 1)
  then have "fragment_hops fs = set (stream_hops c)" unfolding c(2) stream_hops_def by (simp add: fragment_hops_def)
  moreover have "c \<in> set (filter (\<lambda>c. cf_name c = st) confs)" unfolding c(1) by simp
  ultimately show ?thesis by auto
qed

section \<open>Senders and receivers are those of the trees\<close>

lemma plain_name_simps [simp]:
  "plain_name x \<Longrightarrow> getNodeName x = x" "plain_name x \<Longrightarrow> getInterfaceName x = ''''"
proof -
  assume x: "plain_name x"
  then have e: "dropWhile (\<lambda>c. c \<noteq> CHR ''.'') x = []" by (auto simp: plain_name_def dropWhile_eq_Nil_conv)
  show "getInterfaceName x = ''''" unfolding getInterfaceName_def e by simp
qed (auto simp: plain_name_def getNodeName_def takeWhile_eq_all_conv)

lemma hops_append [simp]:
  "hops_into n (xs @ ys) = hops_into n xs @ hops_into n ys" "hops_from n (xs @ ys) = hops_from n xs @ hops_from n ys"
  "hops_into n [] = []" "hops_from n [] = []"
  "hops_into n (h # xs) = (if snd h = n then fst h # hops_into n xs else hops_into n xs)"
  "hops_from n (h # xs) = (if fst h = n then snd h # hops_from n xs else hops_from n xs)"
  by (simp_all add: hops_into_def hops_from_def)

lemma set_hops [simp]:
  "set (hops_into n hs) = {k. (k, n) \<in> set hs}" "set (hops_from n hs) = {m. (n, m) \<in> set hs}"
  by (force simp: hops_into_def hops_from_def)+

lemma fold_push_new: "fold push_new xs [] = first_copies xs"
  by (induction xs rule: rev_induct) (auto simp: push_new_def first_copies_def)

definition linked :: "topology_node \<Rightarrow> string list \<Rightarrow> string list \<Rightarrow> bool" where
  "linked tn rs is \<longleftrightarrow> list_all2 (\<lambda>m i. findLinkOut tn m = Some i) rs is"

lemma visit_position_plain:
  assumes "visit_position tn sender x receiver (S, R, I) = Some (S', R', I')"
    "plain_name x" "\<And>y. sender = Some y \<Longrightarrow> plain_name y" "\<And>y. receiver = Some y \<Longrightarrow> plain_name y" "linked tn R I"
  shows "S' = fold push_new (case sender of None \<Rightarrow> [] | Some y \<Rightarrow> [y]) S \<and>
    R' = fold push_new (case receiver of None \<Rightarrow> [] | Some y \<Rightarrow> [y]) R \<and> linked tn R' I'"
  using assms
  by (auto simp: visit_position_def Let_def linked_def push_new_def list_all2_appendI split: option.splits if_splits bind_splits)

lemma scan_path_plain:
  assumes "scan_path tn prev names (S, R, I) = Some (S', R', I')" "\<forall>x \<in> set names. plain_name x"
    "\<And>y. prev = Some y \<Longrightarrow> plain_name y" "linked tn R I"
  shows "S' = fold push_new (hops_into (tn_name tn) (path_hops ((case prev of None \<Rightarrow> [] | Some y \<Rightarrow> [y]) @ names))) S \<and>
    R' = fold push_new (hops_from (tn_name tn) (path_hops names)) R \<and> linked tn R' I'"
  using assms
proof (induction names arbitrary: prev S R I)
  case Nil
  then show ?case by (auto split: option.splits)
next
  case (Cons x xs)
  let ?nxt = "case xs of [] \<Rightarrow> None | y # _ \<Rightarrow> Some y"
  have x: "plain_name x" "\<forall>x \<in> set xs. plain_name x" using Cons.prems(2) by simp_all
  have nxt: "plain_name y" if "?nxt = Some y" for y using that x(2) by (cases xs) auto
  obtain S1 R1 I1 where s1: "(if x = tn_name tn then visit_position tn prev x ?nxt (S, R, I) else Some (S, R, I)) = Some (S1, R1, I1)"
    "scan_path tn (Some x) xs (S1, R1, I1) = Some (S', R', I')"
    using Cons.prems(1) x(1) by (auto split: bind_splits)
  have v: "S1 = fold push_new (if x = tn_name tn then (case prev of None \<Rightarrow> [] | Some y \<Rightarrow> [y]) else []) S \<and>
    R1 = fold push_new (if x = tn_name tn then (case ?nxt of None \<Rightarrow> [] | Some y \<Rightarrow> [y]) else []) R \<and> linked tn R1 I1"
  proof (cases "x = tn_name tn")
    case True
    then show ?thesis using visit_position_plain[OF _ x(1) Cons.prems(3) nxt Cons.prems(4)] s1(1) by simp
  qed (use s1(1) Cons.prems(4) in auto)
  have IH: "S' = fold push_new (hops_into (tn_name tn) (path_hops (x # xs))) S1 \<and>
    R' = fold push_new (hops_from (tn_name tn) (path_hops xs)) R1 \<and> linked tn R' I'"
    using Cons.IH[OF s1(2) x(2)] x(1) v by auto
  show ?case using IH v by (cases prev; cases xs) auto
qed

lemma scan_tree_plain:
  assumes "fold_opt (scan_path tn None) tree (S, R, I) = Some (S', R', I')"
    "\<forall>path \<in> set tree. \<forall>x \<in> set path. plain_name x" "linked tn R I"
  shows "S' = fold push_new (hops_into (tn_name tn) (tree_hops tree)) S \<and>
    R' = fold push_new (hops_from (tn_name tn) (tree_hops tree)) R \<and> linked tn R' I'"
  using assms
proof (induction tree arbitrary: S R I)
  case (Cons path tree)
  obtain S1 R1 I1 where s1: "scan_path tn None path (S, R, I) = Some (S1, R1, I1)"
    "fold_opt (scan_path tn None) tree (S1, R1, I1) = Some (S', R', I')"
    using Cons.prems(1) by (auto split: option.splits)
  have "S1 = fold push_new (hops_into (tn_name tn) (path_hops path)) S \<and>
    R1 = fold push_new (hops_from (tn_name tn) (path_hops path)) R \<and> linked tn R1 I1"
    using scan_path_plain[OF s1(1)] Cons.prems(2,3) by auto
  then show ?case using Cons.IH[OF s1(2)] Cons.prems(2) by (auto simp: tree_hops_def)
qed (simp add: tree_hops_def)

lemma scan_trees_plain:
  assumes "scan_trees tn trees S = Some (S', rs, is)"
    "\<forall>tree \<in> set trees. \<forall>path \<in> set tree. \<forall>x \<in> set path. plain_name x"
  shows "S' = fold push_new (hops_into (tn_name tn) (concat (map tree_hops trees))) S \<and>
    rs = map (receivers_of (tn_name tn)) trees \<and> list_all2 (linked tn) rs is"
  using assms
proof (induction trees arbitrary: S rs "is")
  case (Cons tree trees)
  obtain S1 r i rs' is' where s1: "fold_opt (scan_path tn None) tree (S, [], []) = Some (S1, r, i)"
    "scan_trees tn trees S1 = Some (S', rs', is')" "rs = r # rs'" "is = i # is'"
    using Cons.prems(1) by (auto split: bind_splits)
  have "linked tn [] []" by (simp add: linked_def)
  from scan_tree_plain[OF s1(1) _ this] Cons.prems(2)
  have "S1 = fold push_new (hops_into (tn_name tn) (tree_hops tree)) S" "r = receivers_of (tn_name tn) tree" "linked tn r i"
    by (auto simp: receivers_of_def fold_push_new)
  with Cons.IH[OF s1(2)] Cons.prems(2) s1(3,4) show ?case by auto
qed simp

text \<open>The stream data of a node when it is computed.\<close>

definition node_data :: "stream_conf \<Rightarrow> topology_node \<Rightarrow> stream_node \<Rightarrow> bool" where
  "node_data c tn sn \<longleftrightarrow> sn_senders sn = senders_of c (tn_name tn) \<and>
     sn_receivers sn = map (receivers_of (tn_name tn)) (cf_trees c) \<and>
     list_all2 (linked tn) (sn_receivers sn) (sn_interfaces sn) \<and>
     sn_distinctReceivers sn = distinct_receivers c (tn_name tn)"

lemma senders_and_receivers:
  assumes "computeStreamSendersAndReceivers tp c s = Some s'" "plain_stream c" "distinct (map tn_name tp)"
    "cg_streams s (cf_name c) = (\<lambda>_. empty_stream_node)"
  shows "(\<forall>tn \<in> set tp. node_data c tn (cg_streams s' (cf_name c) (tn_name tn))) \<and>
    (\<forall>name. name \<noteq> cf_name c \<longrightarrow> cg_streams s' name = cg_streams s name) \<and>
    cg_nextVlanIds s' = cg_nextVlanIds s \<and> cg_assignedVlanIds s' = cg_assignedVlanIds s \<and> cg_nodes s' = cg_nodes s"
proof -
  have step: "(\<forall>tn \<in> set tp. node_data c tn (add_distinct (cg_streams t' (cf_name c) (tn_name tn)))) \<and>
    (\<forall>n. n \<notin> tn_name ` set tp \<longrightarrow> cg_streams t' (cf_name c) n = cg_streams t (cf_name c) n) \<and>
    (\<forall>name. name \<noteq> cf_name c \<longrightarrow> cg_streams t' name = cg_streams t name) \<and>
    cg_nextVlanIds t' = cg_nextVlanIds t \<and> cg_assignedVlanIds t' = cg_assignedVlanIds t \<and> cg_nodes t' = cg_nodes t"
    if "fold_opt (node_senders_and_receivers c) tp t = Some t'"
      "\<forall>tn \<in> set tp. sn_distinctReceivers (cg_streams t (cf_name c) (tn_name tn)) = []" for t t'
    using that assms(3)
  proof (induction tp arbitrary: t)
    case (Cons tn tp)
    let ?n = "tn_name tn"
    obtain t1 where t1: "node_senders_and_receivers c tn t = Some t1" "fold_opt (node_senders_and_receivers c) tp t1 = Some t'"
      using Cons.prems(1) by (auto split: option.splits)
    then obtain S rs "is" where sc: "scan_trees tn (cf_trees c) [] = Some (S, rs, is)"
      "fold_opt (node_senders_and_receivers c) tp (t\<lparr>cg_streams := (cg_streams t)(cf_name c :=
         (cg_streams t (cf_name c))(?n := (cg_streams t (cf_name c) ?n)\<lparr>sn_senders := S, sn_receivers := rs,
           sn_interfaces := is\<rparr>))\<rparr>) = Some t'"
        (is "fold_opt _ _ ?t = _")
      using t1(1) by (auto simp: node_senders_and_receivers_def Let_def split: bind_splits)
    have new: "?n \<notin> tn_name ` set tp" using Cons.prems(3) by simp
    have IH: "(\<forall>tn \<in> set tp. node_data c tn (add_distinct (cg_streams t' (cf_name c) (tn_name tn)))) \<and>
      (\<forall>n. n \<notin> tn_name ` set tp \<longrightarrow> cg_streams t' (cf_name c) n = cg_streams ?t (cf_name c) n) \<and>
      (\<forall>name. name \<noteq> cf_name c \<longrightarrow> cg_streams t' name = cg_streams ?t name) \<and>
      cg_nextVlanIds t' = cg_nextVlanIds ?t \<and> cg_assignedVlanIds t' = cg_assignedVlanIds ?t \<and> cg_nodes t' = cg_nodes ?t"
      by (rule Cons.IH[OF sc(2)]) (use Cons.prems(2,3) in auto)
    have data: "S = senders_of c ?n" "rs = map (receivers_of ?n) (cf_trees c)" "list_all2 (linked tn) rs is"
      using scan_trees_plain[OF sc(1)] assms(2)
      by (auto simp: plain_stream_def senders_of_def stream_hops_def fold_push_new)
    have "fold (\<lambda>r ds. if r \<noteq> [] then push_new r ds else ds) l ds = fold push_new (filter (\<lambda>r. r \<noteq> []) l) ds"
      for l and ds :: "string list list" by (induction l arbitrary: ds) auto
    then have "node_data c tn (add_distinct (cg_streams t' (cf_name c) ?n))"
      using IH new data Cons.prems(2) by (simp add: node_data_def add_distinct_def distinct_receivers_def fold_push_new)
    with IH new show ?case by auto
  qed simp
  obtain t where t: "fold_opt (node_senders_and_receivers c) tp s = Some t"
    "s' = t\<lparr>cg_streams := (cg_streams t)(cf_name c := (\<lambda>n. add_distinct (cg_streams t (cf_name c) n)))\<rparr>"
    using assms(1) by (auto simp: computeStreamSendersAndReceivers_def split: bind_splits)
  show ?thesis using step[OF t(1)] assms(4) t(2) by (simp add: empty_stream_node_def)
qed

section \<open>Networks the configurator handles\<close>

text \<open>
  Names are plain and the names of streams and of nodes are different, there is at most one link between two
  nodes, two trees of a stream give a node the same receivers or disjoint ones, and streams that share a hop
  have the same destination address (VLAN ids are only unique for a node and a destination address).
\<close>

definition simple_links :: "topology_node list \<Rightarrow> topology_node \<Rightarrow> bool" where
  "simple_links tp tn \<longleftrightarrow> distinct (map fst (tn_linksOut tn)) \<and> distinct (map snd (tn_linksOut tn)) \<and>
     distinct (map fst (tn_linksIn tn)) \<and> distinct (map snd (tn_linksIn tn)) \<and>
     fst ` set (tn_linksOut tn) \<subseteq> tn_name ` set tp"

definition clear_receivers :: "stream_conf \<Rightarrow> string \<Rightarrow> bool" where
  "clear_receivers c n \<longleftrightarrow>
     (\<forall>R \<in> set (distinct_receivers c n). \<forall>R' \<in> set (distinct_receivers c n). R = R' \<or> set R \<inter> set R' = {})"

definition stream_network :: "topology_node list \<Rightarrow> stream_conf list \<Rightarrow> bool" where
  "stream_network tp confs \<longleftrightarrow> distinct (map tn_name tp) \<and> distinct (map cf_name confs) \<and>
     (\<forall>tn \<in> set tp. simple_links tp tn) \<and>
     (\<forall>c \<in> set confs. plain_stream c \<and> (\<forall>tn \<in> set tp. clear_receivers c (tn_name tn))) \<and>
     (\<forall>c \<in> set confs. \<forall>c' \<in> set confs. set (stream_hops c) \<inter> set (stream_hops c') \<noteq> {} \<longrightarrow>
        destination_address c = destination_address c')"

lemma path_hops_mem: "(x, y) \<in> set (path_hops p) \<Longrightarrow> x \<in> set p \<and> y \<in> set p"
  by (induction p rule: path_hops.induct) auto

lemma plain_hops:
  assumes "plain_stream c" "(x, y) \<in> set (stream_hops c)"
  shows "plain_name x \<and> plain_name y"
  using assms by (auto simp: plain_stream_def stream_hops_def tree_hops_def dest!: path_hops_mem)

lemma distinct_receivers_mem:
  "R \<in> set (distinct_receivers c n) \<longleftrightarrow> R \<noteq> [] \<and> (\<exists>tree \<in> set (cf_trees c). R = receivers_of n tree)"
  by (auto simp: distinct_receivers_def)

lemma receivers_hops: "R \<in> set (distinct_receivers c n) \<Longrightarrow> m \<in> set R \<Longrightarrow> (n, m) \<in> set (stream_hops c)"
  by (auto simp: distinct_receivers_mem receivers_of_def stream_hops_def)

lemma distinct_receiver_list: "R \<in> set (distinct_receivers c n) \<Longrightarrow> distinct R"
  by (auto simp: distinct_receivers_mem receivers_of_def)

lemma hop_receivers:
  assumes "(n, m) \<in> set (stream_hops c)"
  obtains R where "R \<in> set (distinct_receivers c n)" "m \<in> set R"
proof -
  obtain tree where tree: "tree \<in> set (cf_trees c)" "(n, m) \<in> set (tree_hops tree)"
    using assms by (auto simp: stream_hops_def)
  then have m: "m \<in> set (receivers_of n tree)" by (simp add: receivers_of_def)
  then have "receivers_of n tree \<noteq> []" by auto
  with tree(1) have "receivers_of n tree \<in> set (distinct_receivers c n)" by (auto simp: distinct_receivers_mem)
  then show ?thesis using that m by blast
qed

lemma split_at_underscore:
  assumes "CHR ''_'' \<notin> set s" "CHR ''_'' \<notin> set s'" "s @ u = s' @ u'"
    "u = [] \<or> hd u = CHR ''_''" "u' = [] \<or> hd u' = CHR ''_''"
  shows "s = s' \<and> u = u'"
proof -
  have *: "takeWhile (\<lambda>c. c \<noteq> CHR ''_'') (t @ w) = t" if "CHR ''_'' \<notin> set t" "w = [] \<or> hd w = CHR ''_''" for t w
    using that by (subst takeWhile_append2) (auto simp: takeWhile_eq_Nil_iff)
  have "s = takeWhile (\<lambda>c. c \<noteq> CHR ''_'') (s @ u)" using assms(1,4) by (simp add: *)
  also have "\<dots> = s'" unfolding assms(3) using assms(2,5) by (simp add: *)
  finally show ?thesis using assms(3) by simp
qed

lemma name_suffix_hd: "name_suffix R = [] \<or> hd (name_suffix R) = CHR ''_''"
  by (cases R) (simp_all add: name_suffix_def)

lemma name_suffix_inj:
  assumes "\<forall>r \<in> set R. plain_name r" "\<forall>r \<in> set R'. plain_name r" "name_suffix R = name_suffix R'"
  shows "R = R'"
  using assms
proof (induction R arbitrary: R')
  case Nil
  then show ?case by (cases R') (auto simp: name_suffix_def)
next
  case (Cons r R)
  then obtain r' R1 where R': "R' = r' # R1" by (cases R') (auto simp: name_suffix_def)
  have e: "r @ name_suffix R = r' @ name_suffix R1" using Cons.prems(3) R' by (simp add: name_suffix_def)
  have "r = r' \<and> name_suffix R = name_suffix R1"
    by (rule split_at_underscore[OF _ _ e name_suffix_hd name_suffix_hd])
      (use Cons.prems(1,2) R' in \<open>simp_all add: plain_name_def\<close>)
  with Cons.IH[of R1] Cons.prems(1,2) R' show ?case by simp
qed

text \<open>The name of the output stream of a node for a list of receivers.\<close>

definition out_name :: "stream_conf \<Rightarrow> string \<Rightarrow> string list \<Rightarrow> string" where
  "out_name c n R = cf_name c @ (if length (distinct_receivers c n) = 1 then [] else name_suffix R)"

lemma out_name_node:
  "sn_distinctReceivers sn = distinct_receivers c n \<Longrightarrow> output_stream_name c sn R = out_name c n R"
  by (simp add: output_stream_name_def out_name_def)

lemma distinct_confs: "stream_network tp confs \<Longrightarrow> c \<in> set confs \<Longrightarrow> c' \<in> set confs \<Longrightarrow> cf_name c = cf_name c' \<Longrightarrow> c = c'"
  by (auto simp: stream_network_def distinct_map dest: inj_onD)

lemma distinct_nodes: "stream_network tp confs \<Longrightarrow> tn \<in> set tp \<Longrightarrow> tn' \<in> set tp \<Longrightarrow> tn_name tn = tn_name tn' \<Longrightarrow> tn = tn'"
  by (auto simp: stream_network_def distinct_map dest: inj_onD)

lemma plain_conf: "stream_network tp confs \<Longrightarrow> c \<in> set confs \<Longrightarrow> plain_stream c \<and> plain_name (cf_name c)"
  by (auto simp: stream_network_def plain_stream_def)

lemma out_name_inj:
  assumes "stream_network tp confs" "c \<in> set confs" "c' \<in> set confs"
    "R \<in> set (distinct_receivers c n)" "R' \<in> set (distinct_receivers c' n)" "out_name c n R = out_name c' n R'"
  shows "c = c' \<and> R = R'"
proof -
  have p: "plain_name (cf_name c)" "plain_name (cf_name c')" using plain_conf assms(1-3) by blast+
  have s: "cf_name c = cf_name c' \<and>
    (if length (distinct_receivers c n) = 1 then [] else name_suffix R) =
    (if length (distinct_receivers c' n) = 1 then [] else name_suffix R')"
    by (rule split_at_underscore[OF _ _ assms(6)[unfolded out_name_def]])
      (use p name_suffix_hd in \<open>auto simp: plain_name_def\<close>)
  have c: "c = c'" by (rule distinct_confs[OF assms(1-3)]) (use s in simp)
  have pl: "\<forall>r \<in> set R. plain_name r" "\<forall>r \<in> set R'. plain_name r"
    using receivers_hops[OF assms(4)] receivers_hops[OF assms(5)] plain_hops plain_conf assms(1-3) by blast+
  have "R = R'"
  proof (cases "length (distinct_receivers c n) = 1")
    case True
    then obtain x where "distinct_receivers c n = [x]" by (auto simp: length_Suc_conv)
    with assms(4,5) c show ?thesis by simp
  next
    case False
    with s c have "name_suffix R = name_suffix R'" by simp
    then show ?thesis by (rule name_suffix_inj[OF pl])
  qed
  with c show ?thesis by simp
qed

section \<open>The encodings\<close>

lemma update_node_simps [simp]:
  "cg_nodes (update_node n f s) n' = (if n' = n then f (cg_nodes s n) else cg_nodes s n')"
  "cg_streams (update_node n f s) = cg_streams s"
  "cg_nextVlanIds (update_node n f s) = cg_nextVlanIds s"
  "cg_assignedVlanIds (update_node n f s) = cg_assignedVlanIds s"
  by (simp_all add: update_node_def)

definition encoding_of :: "stream_conf \<Rightarrow> string \<Rightarrow> int \<Rightarrow> string \<times> string \<Rightarrow> stream_encoding" where
  "encoding_of c out v ri = \<lparr>xe_name = out, xe_networkInterface = snd ri, xe_destination = destination_address c,
     xe_vlanId = v, xe_pcp = (case cf_pcp c of Some p \<Rightarrow> p | None \<Rightarrow> -1)\<rparr>"

lemma encoding_of_simps [simp]:
  "xe_name (encoding_of c out v ri) = out" "xe_networkInterface (encoding_of c out v ri) = snd ri"
  "xe_destination (encoding_of c out v ri) = destination_address c" "xe_vlanId (encoding_of c out v ri) = v"
  by (simp_all add: encoding_of_def)

lemma encode_receivers:
  assumes "s' = fold (encode_receiver c n out v) ris s"
  shows "cg_streams s' = cg_streams s \<and> cg_nextVlanIds s' = cg_nextVlanIds s \<and>
    (\<forall>k. cg_assignedVlanIds s' k =
      (if k \<in> (\<lambda>ri. (n, fst ri, destination_address c, cf_name c)) ` set ris then v else cg_assignedVlanIds s k)) \<and>
    (\<forall>n'. cg_nodes s' n' = (if n' = n
      then (cg_nodes s n)\<lparr>nc_encodings := nc_encodings (cg_nodes s n) @ map (encoding_of c out v) ris\<rparr> else cg_nodes s n'))"
  using assms
proof (induction ris arbitrary: s)
  case (Cons ri ris)
  from Cons.IH[of "encode_receiver c n out v ri s"] Cons.prems show ?case
    by (auto simp: encode_receiver_def encoding_of_def)
qed simp

text \<open>
  The encodings after some of the items (a stream, a node and a list of receivers) have been treated: the
  entries with the name of an item are one for each receiver, on the interface of its link and with the VLAN
  id that is assigned to it, every entry belongs to an item, and for a node and a destination address a VLAN id
  stands for one name.
\<close>

definition receiver_link :: "topology_node \<Rightarrow> string \<Rightarrow> string \<times> string" where
  "receiver_link tn m = (m, the (findLinkOut tn m))"

definition item_encoded :: "configurator \<Rightarrow> stream_conf \<Rightarrow> topology_node \<Rightarrow> string list \<Rightarrow> bool" where
  "item_encoded s c tn R \<longleftrightarrow> (\<exists>v.
     filter (\<lambda>e. xe_name e = out_name c (tn_name tn) R) (nc_encodings (cg_nodes s (tn_name tn))) =
       map (encoding_of c (out_name c (tn_name tn) R) v) (map (receiver_link tn) R) \<and>
     (\<forall>m \<in> set R. findLinkOut tn m \<noteq> None \<and>
       cg_assignedVlanIds s (tn_name tn, m, destination_address c, cf_name c) = v))"

definition encodings_ok :: "(stream_conf \<times> topology_node \<times> string list) set \<Rightarrow> configurator \<Rightarrow> bool" where
  "encodings_ok D s \<longleftrightarrow>
     (\<forall>(c, tn, R) \<in> D. item_encoded s c tn R) \<and>
     (\<forall>n. \<forall>e \<in> set (nc_encodings (cg_nodes s n)). \<exists>(c, tn, R) \<in> D. tn_name tn = n \<and>
        xe_name e = out_name c n R \<and> xe_destination e = destination_address c) \<and>
     (\<forall>n. \<forall>e \<in> set (nc_encodings (cg_nodes s n)). 0 \<le> xe_vlanId e \<and>
        xe_vlanId e < cg_nextVlanIds s (n, xe_destination e)) \<and>
     (\<forall>k. 0 \<le> cg_nextVlanIds s k) \<and>
     (\<forall>n. \<forall>e \<in> set (nc_encodings (cg_nodes s n)). \<forall>e' \<in> set (nc_encodings (cg_nodes s n)).
        xe_destination e = xe_destination e' \<and> xe_vlanId e = xe_vlanId e' \<longrightarrow> xe_name e = xe_name e')"

definition item_ok :: "topology_node list \<Rightarrow> stream_conf list \<Rightarrow> stream_conf \<times> topology_node \<times> string list \<Rightarrow> bool" where
  "item_ok tp confs x = (case x of (c, tn, R) \<Rightarrow>
     c \<in> set confs \<and> tn \<in> set tp \<and> R \<in> set (distinct_receivers c (tn_name tn)))"

lemma linked_zip: "linked tn R is \<Longrightarrow> zip R is = map (receiver_link tn) R \<and> (\<forall>m \<in> set R. findLinkOut tn m \<noteq> None)"
  by (induction R "is" rule: list_induct2') (auto simp: linked_def receiver_link_def)

lemma encodings_okD:
  assumes "encodings_ok D s"
  shows "(c, tn, R) \<in> D \<Longrightarrow> item_encoded s c tn R"
    and "e \<in> set (nc_encodings (cg_nodes s n)) \<Longrightarrow> \<exists>c tn R. (c, tn, R) \<in> D \<and> tn_name tn = n \<and>
      xe_name e = out_name c n R \<and> xe_destination e = destination_address c"
    and "e \<in> set (nc_encodings (cg_nodes s n)) \<Longrightarrow> 0 \<le> xe_vlanId e \<and> xe_vlanId e < cg_nextVlanIds s (n, xe_destination e)"
    and "0 \<le> cg_nextVlanIds s k"
    and "e \<in> set (nc_encodings (cg_nodes s n)) \<Longrightarrow> e' \<in> set (nc_encodings (cg_nodes s n)) \<Longrightarrow>
      xe_destination e = xe_destination e' \<Longrightarrow> xe_vlanId e = xe_vlanId e' \<Longrightarrow> xe_name e = xe_name e'"
proof -
  note E = assms[unfolded encodings_ok_def]
  note E2 = conjunct2[OF E] note E3 = conjunct2[OF E2] note E4 = conjunct2[OF E3]
  show "(c, tn, R) \<in> D \<Longrightarrow> item_encoded s c tn R"
    by (drule bspec[OF conjunct1[OF E]]) (simp only: prod.case)
  show "\<exists>c tn R. (c, tn, R) \<in> D \<and> tn_name tn = n \<and> xe_name e = out_name c n R \<and> xe_destination e = destination_address c"
    if "e \<in> set (nc_encodings (cg_nodes s n))"
    using bspec[OF spec[OF conjunct1[OF E2]] that] by auto
  show "e \<in> set (nc_encodings (cg_nodes s n)) \<Longrightarrow> 0 \<le> xe_vlanId e \<and> xe_vlanId e < cg_nextVlanIds s (n, xe_destination e)"
    using conjunct1[OF E3] by simp
  show "0 \<le> cg_nextVlanIds s k" by (rule spec[OF conjunct1[OF E4]])
  show "e \<in> set (nc_encodings (cg_nodes s n)) \<Longrightarrow> e' \<in> set (nc_encodings (cg_nodes s n)) \<Longrightarrow>
      xe_destination e = xe_destination e' \<Longrightarrow> xe_vlanId e = xe_vlanId e' \<Longrightarrow> xe_name e = xe_name e'"
    using conjunct2[OF E4] by blast
qed

lemma new_encodings_ok:
  assumes net: "stream_network tp confs" and D: "\<forall>x \<in> D. item_ok tp confs x" and E: "encodings_ok D s"
    and x: "item_ok tp confs (c, tn, R)" and lk: "\<forall>m \<in> set R. findLinkOut tn m \<noteq> None"
    and out: "out = out_name c (tn_name tn) R" "out \<notin> xe_name ` set (nc_encodings (cg_nodes s (tn_name tn)))"
    and v: "v = cg_nextVlanIds s (tn_name tn, destination_address c)"
    and nxt: "cg_nextVlanIds s' = (cg_nextVlanIds s)((tn_name tn, destination_address c) := v + 1)"
    and asg: "\<And>k. cg_assignedVlanIds s' k = (if k \<in> (\<lambda>m. (tn_name tn, m, destination_address c, cf_name c)) ` set R
      then v else cg_assignedVlanIds s k)"
    and encs: "\<And>n'. nc_encodings (cg_nodes s' n') = nc_encodings (cg_nodes s n') @
      (if n' = tn_name tn then map (encoding_of c out v) (map (receiver_link tn) R) else [])"
  shows "encodings_ok (insert (c, tn, R) D) s'"
proof -
  let ?n = "tn_name tn"
  note E1 = encodings_okD[OF E]
  have old: "item_encoded s' c' tn' R'" if d: "(c', tn', R') \<in> D" for c' tn' R'
  proof -
    obtain w where w: "filter (\<lambda>e. xe_name e = out_name c' (tn_name tn') R') (nc_encodings (cg_nodes s (tn_name tn'))) =
        map (encoding_of c' (out_name c' (tn_name tn') R') w) (map (receiver_link tn') R')"
      "\<forall>m \<in> set R'. findLinkOut tn' m \<noteq> None \<and> cg_assignedVlanIds s (tn_name tn', m, destination_address c', cf_name c') = w"
      using E1(1)[OF d] unfolding item_encoded_def by blast
    have i: "c' \<in> set confs" "tn' \<in> set tp" "R' \<in> set (distinct_receivers c' (tn_name tn'))"
      using D d by (auto simp: item_ok_def)
    have ne: "out_name c' (tn_name tn') R' \<noteq> out" if "tn_name tn' = ?n"
    proof -
      have "hd R' \<in> set R'" using i(3) by (simp add: distinct_receivers_mem)
      then have "encoding_of c' (out_name c' (tn_name tn') R') w (receiver_link tn' (hd R')) \<in>
        set (filter (\<lambda>e. xe_name e = out_name c' (tn_name tn') R') (nc_encodings (cg_nodes s (tn_name tn'))))"
        unfolding w(1) by simp
      then have "out_name c' (tn_name tn') R' \<in> xe_name ` set (nc_encodings (cg_nodes s ?n))"
        using that by force
      with out(2) show ?thesis by auto
    qed
    have "(tn_name tn', m, destination_address c', cf_name c') \<notin> (\<lambda>m. (?n, m, destination_address c, cf_name c)) ` set R"
      if m: "m \<in> set R'" for m
    proof
      assume a: "(tn_name tn', m, destination_address c', cf_name c') \<in> (\<lambda>m. (?n, m, destination_address c, cf_name c)) ` set R"
      then have n: "tn_name tn' = ?n" "m \<in> set R" "cf_name c' = cf_name c" by auto
      have c: "c' = c" by (rule distinct_confs[OF net i(1)]) (use x n in \<open>auto simp: item_ok_def\<close>)
      have "R' \<noteq> R" using ne[OF n(1)] out(1) n(1) c by auto
      moreover have "clear_receivers c ?n" using net x by (auto simp: stream_network_def item_ok_def)
      ultimately show False using i(3) x m n c unfolding clear_receivers_def item_ok_def by force
    qed
    with w ne show ?thesis unfolding item_encoded_def by (intro exI[of _ w]) (auto simp: encs asg filter_empty_conv)
  qed
  have "filter (\<lambda>e. xe_name e = out) (nc_encodings (cg_nodes s ?n)) = []" using out(2) by (auto simp: filter_empty_conv)
  then have new: "item_encoded s' c tn R"
    using lk unfolding item_encoded_def by (intro exI[of _ v]) (auto simp: encs asg out(1)[symmetric] filter_map)
  have c2: "\<exists>(c, tn, R) \<in> insert (c, tn, R) D. tn_name tn = n \<and> xe_name e = out_name c n R \<and> xe_destination e = destination_address c"
    if "e \<in> set (nc_encodings (cg_nodes s' n))" for n e
    using that E1(2)[of e n] by (auto simp: encs out(1) split: if_splits)
  have c3: "0 \<le> xe_vlanId e \<and> xe_vlanId e < cg_nextVlanIds s' (n, xe_destination e)"
    if "e \<in> set (nc_encodings (cg_nodes s' n))" for n e
    using that E1(3)[of e n] E1(4) v by (fastforce simp: encs nxt split: if_splits)
  have c5: "xe_name e = xe_name e'"
    if "e \<in> set (nc_encodings (cg_nodes s' n))" "e' \<in> set (nc_encodings (cg_nodes s' n))"
      "xe_destination e = xe_destination e'" "xe_vlanId e = xe_vlanId e'" for n e e'
    using that E1(5)[of e n e'] E1(3)[of e n] E1(3)[of e' n] v by (fastforce simp: encs split: if_splits)
  show ?thesis
    unfolding encodings_ok_def
  proof (intro conjI)
    show "\<forall>(c, tn, R) \<in> insert (c, tn, R) D. item_encoded s' c tn R" using old new by auto
    show "\<forall>k. 0 \<le> cg_nextVlanIds s' k" using E1(4) by (simp add: nxt v)
  qed (use c2 c3 c5 in blast)+
qed

text \<open>What a step leaves alone.\<close>

definition same_policies :: "configurator \<Rightarrow> configurator \<Rightarrow> bool" where
  "same_policies s s' \<longleftrightarrow> cg_streams s' = cg_streams s \<and>
     (\<forall>n. nc_identifications (cg_nodes s' n) = nc_identifications (cg_nodes s n) \<and>
       nc_decodings (cg_nodes s' n) = nc_decodings (cg_nodes s n) \<and>
       nc_mergings (cg_nodes s' n) = nc_mergings (cg_nodes s n) \<and>
       nc_splittings (cg_nodes s' n) = nc_splittings (cg_nodes s n))"

definition same_assigned :: "string \<Rightarrow> configurator \<Rightarrow> configurator \<Rightarrow> bool" where
  "same_assigned name s s' \<longleftrightarrow> (\<forall>a b d nm. nm \<noteq> name \<longrightarrow> cg_assignedVlanIds s' (a, b, d, nm) = cg_assignedVlanIds s (a, b, d, nm))"

lemma encode_tree_ok:
  assumes net: "stream_network tp confs" and D: "\<forall>x \<in> D. item_ok tp confs x" and E: "encodings_ok D s"
    and c: "c \<in> set confs" "tn \<in> set tp" "R \<noteq> [] \<longrightarrow> R \<in> set (distinct_receivers c (tn_name tn))"
    and lk: "linked tn R is"
    and sn: "sn_distinctReceivers (cg_streams s (cf_name c) (tn_name tn)) = distinct_receivers c (tn_name tn)"
    and step: "encode_tree maxV c (tn_name tn) (R, is) s = Some s'"
  shows "encodings_ok (D \<union> {(c, tn, R) | R'. R' = R \<and> R \<noteq> []}) s' \<and> same_policies s s' \<and> same_assigned (cf_name c) s s'"
proof (cases "R = []")
  case True
  then show ?thesis using step E by (simp add: encode_tree_def Let_def same_policies_def same_assigned_def)
next
  case False
  let ?n = "tn_name tn" let ?out = "out_name c ?n R" let ?v = "cg_nextVlanIds s (?n, destination_address c)"
  have x: "item_ok tp confs (c, tn, R)" using c False by (simp add: item_ok_def)
  note out = out_name_node[OF sn]
  show ?thesis
  proof (cases "?out \<in> xe_name ` set (nc_encodings (cg_nodes s ?n))")
    case True
    then have s': "s' = s" using step False by (simp add: encode_tree_def Let_def out)
    obtain e where "e \<in> set (nc_encodings (cg_nodes s ?n))" "xe_name e = ?out" using True by auto
    then obtain c' tn' R' where i: "(c', tn', R') \<in> D" "tn_name tn' = ?n" "?out = out_name c' ?n R'"
      using encodings_okD(2)[OF E] by metis
    have j: "c' \<in> set confs" "tn' \<in> set tp" "R' \<in> set (distinct_receivers c' ?n)"
      using D i by (auto simp: item_ok_def)
    have "c = c' \<and> R = R'" by (rule out_name_inj[OF net c(1) j(1) _ j(3) i(3)]) (use c False in simp)
    moreover have "tn = tn'" by (rule distinct_nodes[OF net c(2) j(2)]) (use i in simp)
    ultimately have "(c, tn, R) \<in> D" using i(1) by simp
    then have "D \<union> {(c, tn, R) | R'. R' = R \<and> R \<noteq> []} = D" by auto
    with E s' show ?thesis by (simp add: same_policies_def same_assigned_def)
  next
    case new: False
    obtain s1 where s1: "s1 = s\<lparr>cg_nextVlanIds := (cg_nextVlanIds s)((?n, destination_address c) := ?v + 1)\<rparr>" by simp
    note lz = linked_zip[OF lk]
    have s': "s' = fold (encode_receiver c ?n ?out ?v) (map (receiver_link tn) R) s1"
      using step False new lz by (simp add: encode_tree_def Let_def out s1)
    note r = encode_receivers[OF s']
    have im: "(\<lambda>ri. (?n, fst ri, destination_address c, cf_name c)) ` set (map (receiver_link tn) R) =
        (\<lambda>m. (?n, m, destination_address c, cf_name c)) ` set R"
      by (auto simp: receiver_link_def image_image)
    have asg: "cg_assignedVlanIds s' k = (if k \<in> (\<lambda>m. (?n, m, destination_address c, cf_name c)) ` set R
        then ?v else cg_assignedVlanIds s k)" for k
      unfolding spec[OF conjunct1[OF conjunct2[OF conjunct2[OF r]]], of k] im by (simp add: s1)
    have "encodings_ok (insert (c, tn, R) D) s'"
      by (rule new_encodings_ok[OF net D E x conjunct2[OF lz] refl new refl _ asg])
        (use r in \<open>simp_all add: s1\<close>)
    moreover have "D \<union> {(c, tn, R) | R'. R' = R \<and> R \<noteq> []} = insert (c, tn, R) D" using False by auto
    ultimately show ?thesis using r by (auto simp: same_policies_def same_assigned_def s1)
  qed
qed

definition node_items :: "stream_conf \<Rightarrow> topology_node \<Rightarrow> (stream_conf \<times> topology_node \<times> string list) set" where
  "node_items c tn = {(c, tn, R) | R. R \<in> set (distinct_receivers c (tn_name tn))}"

definition stream_items :: "topology_node list \<Rightarrow> stream_conf \<Rightarrow> (stream_conf \<times> topology_node \<times> string list) set" where
  "stream_items tp c = (\<Union>tn \<in> set tp. node_items c tn)"

lemma same_policies_trans: "same_policies s t \<Longrightarrow> same_policies t u \<Longrightarrow> same_policies s u"
  by (simp add: same_policies_def)

lemma same_assigned_trans: "same_assigned name s t \<Longrightarrow> same_assigned name t u \<Longrightarrow> same_assigned name s u"
  by (simp add: same_assigned_def)

lemma encode_node_ok:
  assumes net: "stream_network tp confs" and "\<forall>x \<in> D. item_ok tp confs x" "encodings_ok D s"
    and c: "c \<in> set confs" "tn \<in> set tp" and data: "node_data c tn (cg_streams s (cf_name c) (tn_name tn))"
    and step: "encode_node maxV c tn s = Some s'"
  shows "encodings_ok (D \<union> node_items c tn) s' \<and> same_policies s s' \<and> same_assigned (cf_name c) s s'"
proof -
  let ?sn = "cg_streams s (cf_name c) (tn_name tn)"
  have loop: "encodings_ok (D \<union> {(c, tn, R) | R. R \<in> fst ` set ris \<and> R \<noteq> []}) t' \<and> same_policies t t' \<and>
      same_assigned (cf_name c) t t'"
    if "fold_opt (encode_tree maxV c (tn_name tn)) ris t = Some t'" "\<forall>x \<in> D. item_ok tp confs x" "encodings_ok D t"
      "\<forall>(R, is) \<in> set ris. linked tn R is \<and> (R \<noteq> [] \<longrightarrow> R \<in> set (distinct_receivers c (tn_name tn)))"
      "sn_distinctReceivers (cg_streams t (cf_name c) (tn_name tn)) = distinct_receivers c (tn_name tn)" for ris t t' D
    using that
  proof (induction ris arbitrary: t D)
    case Nil
    then show ?case by (simp add: same_policies_def same_assigned_def)
  next
    case (Cons ri ris)
    obtain R "is" where ri: "ri = (R, is)" by (cases ri)
    obtain t1 where t1: "encode_tree maxV c (tn_name tn) (R, is) t = Some t1"
      "fold_opt (encode_tree maxV c (tn_name tn)) ris t1 = Some t'"
      using Cons.prems(1) ri by (auto split: option.splits)
    let ?D = "D \<union> {(c, tn, R) | R'. R' = R \<and> R \<noteq> []}"
    have R: "R \<noteq> [] \<longrightarrow> R \<in> set (distinct_receivers c (tn_name tn))" "linked tn R is" using Cons.prems(4) ri by auto
    have 1: "encodings_ok ?D t1" "same_policies t t1" "same_assigned (cf_name c) t t1"
      using encode_tree_ok[OF net Cons.prems(2,3) c R Cons.prems(5) t1(1)] by auto
    have "\<forall>x \<in> ?D. item_ok tp confs x" using Cons.prems(2) R(1) c by (auto simp: item_ok_def)
    from Cons.IH[OF t1(2) this 1(1)] Cons.prems(4,5) 1(2)
    have 2: "encodings_ok (?D \<union> {(c, tn, R) | R. R \<in> fst ` set ris \<and> R \<noteq> []}) t'" "same_policies t1 t'"
      "same_assigned (cf_name c) t1 t'" by (auto simp: same_policies_def)
    have "?D \<union> {(c, tn, R) | R. R \<in> fst ` set ris \<and> R \<noteq> []} = D \<union> {(c, tn, R) | R. R \<in> fst ` set (ri # ris) \<and> R \<noteq> []}"
      using ri by auto
    with 1 2 show ?case using same_policies_trans same_assigned_trans by auto
  qed
  have rs: "sn_receivers ?sn = map (receivers_of (tn_name tn)) (cf_trees c)"
    "list_all2 (linked tn) (sn_receivers ?sn) (sn_interfaces ?sn)" "sn_distinctReceivers ?sn = distinct_receivers c (tn_name tn)"
    using data unfolding node_data_def by blast+
  have f: "fst ` set (zip (sn_receivers ?sn) (sn_interfaces ?sn)) = set (sn_receivers ?sn)"
    using list_all2_lengthD[OF rs(2)] by (metis list.set_map map_fst_zip)
  have l: "linked tn R is" "R \<in> set (sn_receivers ?sn)" if "(R, is) \<in> set (zip (sn_receivers ?sn) (sn_interfaces ?sn))" for R "is"
    using rs(2) that by (auto simp: list_all2_iff dest: set_zip_leftD)
  have z: "linked tn R is \<and> (R \<noteq> [] \<longrightarrow> R \<in> set (distinct_receivers c (tn_name tn)))"
    if "(R, is) \<in> set (zip (sn_receivers ?sn) (sn_interfaces ?sn))" for R "is"
    using l[OF that] rs(1) by (auto simp: distinct_receivers_mem)
  have "{(c, tn, R) | R. R \<in> set (sn_receivers ?sn) \<and> R \<noteq> []} = node_items c tn"
    by (auto simp: node_items_def distinct_receivers_mem rs(1))
  moreover have "\<forall>(R, is) \<in> set (zip (sn_receivers ?sn) (sn_interfaces ?sn)).
      linked tn R is \<and> (R \<noteq> [] \<longrightarrow> R \<in> set (distinct_receivers c (tn_name tn)))" using z by blast
  ultimately show ?thesis
    using loop[OF step[unfolded encode_node_def Let_def] assms(2,3) _ rs(3)] unfolding f by simp
qed

lemma encode_stream_ok:
  assumes net: "stream_network tp confs" and "\<forall>x \<in> D. item_ok tp confs x" "encodings_ok D s" and c: "c \<in> set confs"
    and "\<forall>tn \<in> set tp. node_data c tn (cg_streams s (cf_name c) (tn_name tn))"
    and "computeStreamEncodings maxV tp c s = Some s'"
  shows "encodings_ok (D \<union> stream_items tp c) s' \<and> same_policies s s' \<and> same_assigned (cf_name c) s s'"
proof -
  have loop: "encodings_ok (D \<union> (\<Union>tn \<in> set ns. node_items c tn)) t' \<and> same_policies t t' \<and> same_assigned (cf_name c) t t'"
    if "fold_opt (encode_node maxV c) ns t = Some t'" "\<forall>x \<in> D. item_ok tp confs x" "encodings_ok D t" "set ns \<subseteq> set tp"
      "\<forall>tn \<in> set tp. node_data c tn (cg_streams t (cf_name c) (tn_name tn))" for ns t t' D
    using that
  proof (induction ns arbitrary: t D)
    case Nil
    then show ?case by (simp add: same_policies_def same_assigned_def)
  next
    case (Cons tn ns)
    obtain t1 where t1: "encode_node maxV c tn t = Some t1" "fold_opt (encode_node maxV c) ns t1 = Some t'"
      using Cons.prems(1) by (auto split: option.splits)
    have tn: "tn \<in> set tp" "node_data c tn (cg_streams t (cf_name c) (tn_name tn))" using Cons.prems(4,5) by auto
    have 1: "encodings_ok (D \<union> node_items c tn) t1" "same_policies t t1" "same_assigned (cf_name c) t t1"
      using encode_node_ok[OF net Cons.prems(2,3) c tn t1(1)] by auto
    have "\<forall>x \<in> D \<union> node_items c tn. item_ok tp confs x"
      using Cons.prems(2) tn(1) c by (auto simp: node_items_def item_ok_def)
    from Cons.IH[OF t1(2) this 1(1)] Cons.prems(4,5) 1(2)
    have "encodings_ok (D \<union> node_items c tn \<union> (\<Union>tn \<in> set ns. node_items c tn)) t'" "same_policies t1 t'"
      "same_assigned (cf_name c) t1 t'" by (auto simp: same_policies_def)
    with 1 show ?case using same_policies_trans same_assigned_trans by (auto simp: Un_assoc)
  qed
  show ?thesis
    using loop[OF assms(6)[unfolded computeStreamEncodings_def] assms(2,3) subset_refl assms(5)]
    by (simp add: stream_items_def)
qed

section \<open>The policies\<close>

definition in_name :: "stream_conf \<Rightarrow> string \<Rightarrow> string \<Rightarrow> string" where
  "in_name c n k = (if length (senders_of c n) = 1 then cf_name c else cf_name c @ ''_'' @ k)"

text \<open>After the policies of some pairs of a stream and a node: the decodings, mergings and splittings of a
  node are those of its pairs.\<close>

definition decoding_of :: "(stream_conf \<times> topology_node) set \<Rightarrow> configurator \<Rightarrow> string \<Rightarrow> stream_decoding \<Rightarrow> bool" where
  "decoding_of Q s n d \<longleftrightarrow> (\<exists>c tn k. (c, tn) \<in> Q \<and> tn_name tn = n \<and> k \<in> set (senders_of c n) \<and>
     findLinkIn tn k = Some (xd_networkInterface d) \<and> xd_vlanId d = cg_assignedVlanIds s (k, n, destination_address c, cf_name c) \<and>
     xd_name d = in_name c n k)"

definition merging_of :: "(stream_conf \<times> topology_node) set \<Rightarrow> string \<Rightarrow> stream_merging \<Rightarrow> bool" where
  "merging_of Q n m \<longleftrightarrow> (\<exists>c tn. (c, tn) \<in> Q \<and> tn_name tn = n \<and> length (senders_of c n) > 1 \<and>
     m = \<lparr>xm_inputStreams = map (\<lambda>k. cf_name c @ ''_'' @ k) (senders_of c n), xm_outputStream = cf_name c\<rparr>)"

definition splitting_of :: "(stream_conf \<times> topology_node) set \<Rightarrow> string \<Rightarrow> stream_splitting \<Rightarrow> bool" where
  "splitting_of Q n x \<longleftrightarrow> (\<exists>c tn. (c, tn) \<in> Q \<and> tn_name tn = n \<and> length (distinct_receivers c n) \<noteq> 1 \<and>
     x = \<lparr>xs_inputStream = cf_name c, xs_outputStreams = map (out_name c n) (distinct_receivers c n)\<rparr>)"

definition policies_ok :: "(stream_conf \<times> topology_node) set \<Rightarrow> configurator \<Rightarrow> bool" where
  "policies_ok Q s \<longleftrightarrow>
     (\<forall>(c, tn) \<in> Q. \<forall>k \<in> set (senders_of c (tn_name tn)). findLinkIn tn k \<noteq> None) \<and>
     (\<forall>n. (\<forall>d. d \<in> set (nc_decodings (cg_nodes s n)) \<longleftrightarrow> decoding_of Q s n d) \<and>
          (\<forall>m. m \<in> set (nc_mergings (cg_nodes s n)) \<longleftrightarrow> merging_of Q n m) \<and>
          (\<forall>x. x \<in> set (nc_splittings (cg_nodes s n)) \<longleftrightarrow> splitting_of Q n x))"

lemma those_Some: "those xs = Some ys \<longleftrightarrow> xs = map Some ys"
  by (induction xs arbitrary: ys) (auto split: option.splits)

lemma policy_node_ok:
  assumes P: "policies_ok Q s" and data: "node_data c tn (cg_streams s (cf_name c) (tn_name tn))"
    and step: "policy_node maxV c tn s = Some s'"
  shows "policies_ok (insert (c, tn) Q) s' \<and> cg_streams s' = cg_streams s \<and>
    cg_assignedVlanIds s' = cg_assignedVlanIds s \<and> cg_nextVlanIds s' = cg_nextVlanIds s \<and>
    (\<forall>n. nc_encodings (cg_nodes s' n) = nc_encodings (cg_nodes s n))"
proof -
  let ?n = "tn_name tn" let ?sn = "cg_streams s (cf_name c) (tn_name tn)"
  have sn: "sn_senders ?sn = senders_of c ?n" "sn_distinctReceivers ?sn = distinct_receivers c ?n"
    using data unfolding node_data_def by blast+
  obtain ds where ds: "those (map (stream_decoding_of maxV c tn s) (senders_of c ?n)) = Some ds"
    using step sn by (auto simp: policy_node_def Let_def split: bind_splits)
  let ?new = "\<lparr>xm_inputStreams = map (\<lambda>k. cf_name c @ ''_'' @ k) (senders_of c ?n), xm_outputStream = cf_name c\<rparr>"
  let ?spl = "\<lparr>xs_inputStream = cf_name c, xs_outputStreams = map (out_name c ?n) (distinct_receivers c ?n)\<rparr>"
  have spl: "map (\<lambda>R. cf_name c @ name_suffix R) (distinct_receivers c ?n) = map (out_name c ?n) (distinct_receivers c ?n)"
    if "length (distinct_receivers c ?n) \<noteq> 1" using that by (simp add: out_name_def)
  have s': "cg_streams s' = cg_streams s" "cg_assignedVlanIds s' = cg_assignedVlanIds s" "cg_nextVlanIds s' = cg_nextVlanIds s"
    "\<And>n. nc_encodings (cg_nodes s' n) = nc_encodings (cg_nodes s n)"
    "\<And>n. nc_decodings (cg_nodes s' n) = nc_decodings (cg_nodes s n) @ (if n = ?n then ds else [])"
    "\<And>n. nc_mergings (cg_nodes s' n) = nc_mergings (cg_nodes s n) @
      (if n = ?n \<and> length (senders_of c ?n) > 1 then [?new] else [])"
    "\<And>n. nc_splittings (cg_nodes s' n) = nc_splittings (cg_nodes s n) @
      (if n = ?n \<and> length (distinct_receivers c ?n) \<noteq> 1 then [?spl] else [])"
    using step sn ds spl by (auto simp: policy_node_def Let_def stream_merging_of_def stream_splitting_of_def)
  have d: "d \<in> set ds \<longleftrightarrow> (\<exists>k \<in> set (senders_of c ?n). stream_decoding_of maxV c tn s k = Some d)" for d
    using ds unfolding those_Some by (metis (mono_tags, lifting) image_iff list.set_map option.inject)
  have all: "\<forall>k \<in> set (senders_of c ?n). \<exists>d. stream_decoding_of maxV c tn s k = Some d"
    using ds unfolding those_Some by (metis image_iff list.set_map)
  have sd: "stream_decoding_of maxV c tn s k = Some d \<longleftrightarrow> findLinkIn tn k = Some (xd_networkInterface d) \<and>
      xd_vlanId d = cg_assignedVlanIds s (k, ?n, destination_address c, cf_name c) \<and> xd_name d = in_name c ?n k \<and>
      xd_vlanId d \<le> maxV" for k d
    using sn by (cases d) (auto simp: stream_decoding_of_def input_stream_name_def in_name_def Let_def split: bind_splits)
  have dec: "d \<in> set ds \<longleftrightarrow> (\<exists>k \<in> set (senders_of c ?n). findLinkIn tn k = Some (xd_networkInterface d) \<and>
      xd_vlanId d = cg_assignedVlanIds s (k, ?n, destination_address c, cf_name c) \<and> xd_name d = in_name c ?n k)" for d
    unfolding d sd using all unfolding sd by metis
  have ln: "\<forall>k \<in> set (senders_of c ?n). findLinkIn tn k \<noteq> None" using all unfolding sd by auto
  have dq: "decoding_of (insert (c, tn) Q) s' n d \<longleftrightarrow> decoding_of Q s n d \<or> n = ?n \<and> d \<in> set ds" for n d
    unfolding decoding_of_def dec s'(2) by blast
  have mq: "merging_of (insert (c, tn) Q) n m \<longleftrightarrow> merging_of Q n m \<or> n = ?n \<and> length (senders_of c ?n) > 1 \<and> m = ?new" for n m
    unfolding merging_of_def by blast
  have sq: "splitting_of (insert (c, tn) Q) n x \<longleftrightarrow> splitting_of Q n x \<or> n = ?n \<and> length (distinct_receivers c ?n) \<noteq> 1 \<and> x = ?spl" for n x
    unfolding splitting_of_def by blast
  have "policies_ok (insert (c, tn) Q) s'"
    using P ln unfolding policies_ok_def dq mq sq by (auto simp: s')
  with s' show ?thesis by simp
qed

lemma encodings_ok_cong:
  assumes "encodings_ok D s" "cg_assignedVlanIds s' = cg_assignedVlanIds s" "cg_nextVlanIds s' = cg_nextVlanIds s"
    "\<forall>n. nc_encodings (cg_nodes s' n) = nc_encodings (cg_nodes s n)"
  shows "encodings_ok D s'"
proof -
  have "item_encoded s' c tn R \<longleftrightarrow> item_encoded s c tn R" for c tn R
    using assms(2,4) by (simp add: item_encoded_def)
  then show ?thesis
    using assms(1) unfolding encodings_ok_def assms(2,3) assms(4)[rule_format] by presburger
qed

lemma policies_ok_frame:
  assumes "policies_ok Q s" "same_policies s s'" "same_assigned (cf_name c) s s'" "cf_name c \<notin> cf_name ` fst ` Q"
  shows "policies_ok Q s'"
proof -
  have key: "cg_assignedVlanIds s' (a, b, e, cf_name c') = cg_assignedVlanIds s (a, b, e, cf_name c')"
    if "(c', tn) \<in> Q" for c' tn a b e
  proof -
    have "cf_name c' \<in> cf_name ` fst ` Q" using that by force
    then have "cf_name c' \<noteq> cf_name c" using assms(4) by metis
    then show ?thesis using assms(3) unfolding same_assigned_def by blast
  qed
  have "decoding_of Q s' n d \<longleftrightarrow> decoding_of Q s n d" for n d
    unfolding decoding_of_def by (simp add: key cong: conj_cong)
  with assms(1,2) show ?thesis unfolding policies_ok_def same_policies_def by simp
qed

lemma policy_stream_ok:
  assumes "policies_ok Q s" "\<forall>tn \<in> set ns. node_data c tn (cg_streams s (cf_name c) (tn_name tn))"
    "fold_opt (policy_node maxV c) ns s = Some s'"
  shows "policies_ok (Q \<union> {c} \<times> set ns) s' \<and> cg_streams s' = cg_streams s \<and>
    cg_assignedVlanIds s' = cg_assignedVlanIds s \<and> cg_nextVlanIds s' = cg_nextVlanIds s \<and>
    (\<forall>n. nc_encodings (cg_nodes s' n) = nc_encodings (cg_nodes s n))"
  using assms
proof (induction ns arbitrary: s Q)
  case (Cons tn ns)
  obtain t where t: "policy_node maxV c tn s = Some t" "fold_opt (policy_node maxV c) ns t = Some s'"
    using Cons.prems(3) by (auto split: option.splits)
  have 1: "policies_ok (insert (c, tn) Q) t" "cg_streams t = cg_streams s" "cg_assignedVlanIds t = cg_assignedVlanIds s"
    "cg_nextVlanIds t = cg_nextVlanIds s" "\<forall>n. nc_encodings (cg_nodes t n) = nc_encodings (cg_nodes s n)"
    using policy_node_ok[OF Cons.prems(1) _ t(1)] Cons.prems(2) by auto
  from Cons.IH[OF 1(1) _ t(2)] Cons.prems(2) 1(2)
  have 2: "policies_ok (insert (c, tn) Q \<union> {c} \<times> set ns) s'" "cg_streams s' = cg_streams t"
    "cg_assignedVlanIds s' = cg_assignedVlanIds t" "cg_nextVlanIds s' = cg_nextVlanIds t"
    "\<forall>n. nc_encodings (cg_nodes s' n) = nc_encodings (cg_nodes t n)" by auto
  have "insert (c, tn) Q \<union> {c} \<times> set ns = Q \<union> {c} \<times> set (tn # ns)" by auto
  with 1 2 show ?case by simp
qed simp

section \<open>The configuration of a network\<close>

definition configured :: "topology_node list \<Rightarrow> stream_conf list \<Rightarrow> configurator \<Rightarrow> bool" where
  "configured tp confs s \<longleftrightarrow> encodings_ok (\<Union>c \<in> set confs. stream_items tp c) s \<and> policies_ok (set confs \<times> set tp) s \<and>
     (\<forall>name. name \<notin> cf_name ` set confs \<longrightarrow> cg_streams s name = (\<lambda>_. empty_stream_node))"

lemma items_ok: "set ds \<subseteq> set confs \<Longrightarrow> \<forall>x \<in> (\<Union>c \<in> set ds. stream_items tp c). item_ok tp confs x"
  by (auto simp: stream_items_def node_items_def item_ok_def)

lemma computeStream_ok:
  assumes net: "stream_network tp confs" and s: "configured tp ds s" and c: "set ds \<subseteq> set confs" "c \<in> set confs"
    "cf_name c \<notin> cf_name ` set ds" and step: "computeStream maxV tp c s = Some s'"
  shows "configured tp (ds @ [c]) s'"
proof -
  obtain t u where t: "computeStreamSendersAndReceivers tp c s = Some t" "computeStreamEncodings maxV tp c t = Some u"
    "fold_opt (policy_node maxV c) tp u = Some s'"
    using step by (auto simp: computeStream_def computeStreamPolicyConfigurations_def split: bind_splits)
  let ?D = "\<Union>c \<in> set ds. stream_items tp c"
  have fresh: "cg_streams s (cf_name c) = (\<lambda>_. empty_stream_node)" using s c(3) by (simp add: configured_def)
  have net': "plain_stream c" "distinct (map tn_name tp)" using net c(2) by (auto simp: stream_network_def)
  have 1: "\<forall>tn \<in> set tp. node_data c tn (cg_streams t (cf_name c) (tn_name tn))"
    "\<forall>name. name \<noteq> cf_name c \<longrightarrow> cg_streams t name = cg_streams s name" "cg_nextVlanIds t = cg_nextVlanIds s"
    "cg_assignedVlanIds t = cg_assignedVlanIds s" "cg_nodes t = cg_nodes s"
    using senders_and_receivers[OF t(1) net' fresh] by blast+
  have "encodings_ok ?D t" using s 1(3-5) unfolding configured_def by (auto intro: encodings_ok_cong)
  from encode_stream_ok[OF net items_ok[OF c(1)] this c(2) 1(1) t(2)]
  have 2: "encodings_ok (?D \<union> stream_items tp c) u" "same_policies t u" "same_assigned (cf_name c) t u" by auto
  have "same_policies s t" if "cg_streams t = cg_streams s" using that 1(5) by (simp add: same_policies_def)
  have "policies_ok (set ds \<times> set tp) t"
    using s 1(4,5) unfolding configured_def policies_ok_def decoding_of_def by simp
  then have P: "policies_ok (set ds \<times> set tp) u"
    by (rule policies_ok_frame[OF _ 2(2,3)]) (use c(3) in \<open>auto simp: image_iff\<close>)
  have "\<forall>tn \<in> set tp. node_data c tn (cg_streams u (cf_name c) (tn_name tn))" using 1(1) 2(2) by (simp add: same_policies_def)
  from policy_stream_ok[OF P this t(3)]
  have 3: "policies_ok (set ds \<times> set tp \<union> {c} \<times> set tp) s'" "cg_streams s' = cg_streams u"
    "cg_assignedVlanIds s' = cg_assignedVlanIds u" "cg_nextVlanIds s' = cg_nextVlanIds u"
    "\<forall>n. nc_encodings (cg_nodes s' n) = nc_encodings (cg_nodes u n)" by auto
  have "encodings_ok (\<Union>c \<in> set (ds @ [c]). stream_items tp c) s'"
    using encodings_ok_cong[OF 2(1) 3(3-5)] by (simp add: Un_commute)
  moreover have "set (ds @ [c]) \<times> set tp = set ds \<times> set tp \<union> {c} \<times> set tp" by auto
  ultimately show ?thesis
    using s 1(2) 2(2) 3(1,2) unfolding configured_def same_policies_def by simp
qed

lemma clearConfiguration_configured: "configured tp [] clearConfiguration"
  by (auto simp: configured_def clearConfiguration_def empty_node_config_def encodings_ok_def policies_ok_def
      decoding_of_def merging_of_def splitting_of_def)

lemma computeStreams_configured:
  assumes "stream_network tp confs" "computeStreams maxV tp confs clearConfiguration = Some s"
  shows "configured tp confs s"
proof -
  have "configured tp (ds @ cs) s'"
    if "fold_opt (computeStream maxV tp) cs t = Some s'" "configured tp ds t" "set (ds @ cs) \<subseteq> set confs"
      "distinct (map cf_name (ds @ cs))" for ds cs t s'
    using that
  proof (induction cs arbitrary: ds t)
    case (Cons c cs)
    obtain u where u: "computeStream maxV tp c t = Some u" "fold_opt (computeStream maxV tp) cs u = Some s'"
      using Cons.prems(1) by (auto split: option.splits)
    have "configured tp (ds @ [c]) u"
      by (rule computeStream_ok[OF assms(1) Cons.prems(2) _ _ _ u(1)]) (use Cons.prems(3,4) in auto)
    from Cons.IH[OF u(2) this] Cons.prems(3,4) show ?case by simp
  qed simp
  from this[OF assms(2)[unfolded computeStreams_def] clearConfiguration_configured] assms(1)
  show ?thesis by (simp add: stream_network_def)
qed

end
