(* ===== verification/Stream_Network.thy ===== *)
theory Stream_Network
  imports Stream_Configuration
begin

text \<open>
  The modules of a bridge that act on a packet between the stream coder and the interfaces,
  \<open>PacketDirectionReverser\<close> and \<open>RelayInterfaceSelector\<close> (src/inet/src/inet/linklayer/ethernet/common), and
  the network of nodes that the stream redundancy configurator has configured: a stream follows its trees.
\<close>

section \<open>The bridge\<close>

datatype direction = DIRECTION_UNDEFINED | DIRECTION_INBOUND | DIRECTION_OUTBOUND

text \<open>A packet in a bridge, with the tags the two modules read besides those of \<open>packet_tags\<close>: the addresses
  are source and destination.\<close>

record bridge_packet =
  bp_tags :: packet_tags
  bp_direction :: "direction option"
  bp_cutthroughPosition :: "int option"
  bp_eligibilityTime :: "clocktime option"
  bp_macReq :: "(mac_address \<times> mac_address) option"
  bp_interfaceReq :: "int option"

definition clear_packet_tags :: "packet_tags \<Rightarrow> packet_tags" where
  "clear_packet_tags p = p\<lparr>tg_streamReq := None, tg_streamInd := None, tg_seqReq := None, tg_seqInd := None,
     tg_userPriorityReq := None, tg_userPriorityInd := None, tg_pcpReq := None, tg_pcpInd := None,
     tg_vlanReq := None, tg_vlanInd := None, tg_deiReq := None, tg_deiInd := None, tg_macInd := None,
     tg_interfaceInd := None, tg_encapReq := None, tg_encapInd := None, tg_dispatch := None, tg_protocol := None\<rparr>"

record direction_reverser =
  dr_forwardVlan :: bool
  dr_forwardPcp :: bool
  dr_excludeEncapsulationProtocols :: "protocol list"

text \<open>The indications become requests; the encapsulation protocols are asked for in the reverse order.\<close>

definition reverse_packet :: "direction_reverser \<Rightarrow> bridge_packet \<Rightarrow> bridge_packet option" where
  "reverse_packet d b =
     (let p = bp_tags b in
      do {
        ensure (bp_direction b = None \<or> bp_direction b = Some DIRECTION_INBOUND);
        Some \<lparr>
          bp_tags = (clear_packet_tags p)\<lparr>
            tg_protocol := tg_protocol p,
            tg_interfaceInd := tg_interfaceInd p,
            tg_deiReq := tg_deiInd p,
            tg_vlanReq := (if dr_forwardVlan d then tg_vlanInd p else None),
            tg_pcpReq := (if dr_forwardPcp d then tg_pcpInd p else None),
            tg_userPriorityReq := tg_userPriorityInd p,
            tg_streamReq := tg_streamInd p,
            tg_seqReq := tg_seqInd p,
            tg_encapReq := map_option
              (\<lambda>l. rev (filter (\<lambda>pr. pr \<notin> set (dr_excludeEncapsulationProtocols d)) l)) (tg_encapInd p)\<rparr>,
          bp_direction = (if bp_direction b = None then None else Some DIRECTION_OUTBOUND),
          bp_cutthroughPosition = bp_cutthroughPosition b,
          bp_eligibilityTime = bp_eligibilityTime b,
          bp_macReq = tg_macInd p,
          bp_interfaceReq = None\<rparr>
      })"

record relay_interface =
  ri_id :: int
  ri_loopback :: bool
  ri_broadcast :: bool
  ri_protocol :: "protocol option"

record interface_selector =
  is_interfaceTable :: "relay_interface list"
  is_macTable :: mac_table
  is_numProcessedFrames :: nat
  is_numDroppedFrames :: nat

definition interface_by_id :: "interface_selector \<Rightarrow> int \<Rightarrow> relay_interface option" where
  "interface_by_id s i = find (\<lambda>ri. ri_id ri = i) (is_interfaceTable s)"

definition send_to_interface :: "bridge_packet \<Rightarrow> relay_interface \<Rightarrow> bridge_packet option" where
  "send_to_interface b ri =
     do {
       p \<leftarrow> setDispatchProtocol None (case ri_protocol ri of
           Some pr \<Rightarrow> ensureEncapsulationProtocolReq pr True False (bp_tags b) | None \<Rightarrow> bp_tags b);
       Some (b\<lparr>bp_tags := p, bp_direction := Some DIRECTION_OUTBOUND, bp_interfaceReq := Some (ri_id ri)\<rparr>)
     }"

definition broadcast_to_interfaces ::
  "interface_selector \<Rightarrow> bridge_packet \<Rightarrow> relay_interface option \<Rightarrow> bridge_packet list option" where
  "broadcast_to_interfaces s b incoming =
     those (map (send_to_interface b) (filter (\<lambda>ri. incoming \<noteq> Some ri \<and> \<not> ri_loopback ri \<and> ri_broadcast ri)
       (is_interfaceTable s)))"

definition send_to_id :: "interface_selector \<Rightarrow> bridge_packet \<Rightarrow> int \<Rightarrow> bridge_packet option" where
  "send_to_id s b i = do { ri \<leftarrow> interface_by_id s i; send_to_interface b ri }"

text \<open>The packets that are sent, with the number of packets dropped.\<close>

definition selected_packets ::
  "simtime \<Rightarrow> interface_selector \<Rightarrow> bridge_packet \<Rightarrow> (nat \<times> bridge_packet list) option" where
  "selected_packets now s b =
     do {
       (_, dest) \<leftarrow> bp_macReq b;
       let interfaceInd = tg_interfaceInd (bp_tags b);
       let incoming = (case interfaceInd of None \<Rightarrow> None | Some i \<Rightarrow> interface_by_id s i);
       let vlanId = nat (case tg_vlanReq (bp_tags b) of None \<Rightarrow> 0 | Some v \<Rightarrow> v);
       (case bp_interfaceReq b of
          Some i \<Rightarrow> do { q \<leftarrow> send_to_id s b i; Some (0, [q]) }
        | None \<Rightarrow>
            if isBroadcast dest then map_option (Pair 0) (broadcast_to_interfaces s b incoming)
            else if isMulticast dest then
              do {
                ids \<leftarrow> getMulticastAddressForwardingInterfaces (is_macTable s) dest vlanId;
                map_option (Pair 0)
                  (if ids = [] then broadcast_to_interfaces s b incoming
                   else those (map (send_to_id s b) (filter (\<lambda>i. interfaceInd \<noteq> Some i) ids)))
              }
            else
              do {
                i \<leftarrow> getUnicastAddressForwardingInterface now (is_macTable s) dest vlanId;
                if interfaceInd = Some i then Some (1, [])
                else if i \<noteq> -1 then do { q \<leftarrow> send_to_id s b i; Some (0, [q]) }
                else map_option (Pair 0) (broadcast_to_interfaces s b incoming)
              })
     }"

definition select_interfaces ::
  "simtime \<Rightarrow> interface_selector \<Rightarrow> bridge_packet \<Rightarrow> (interface_selector \<times> bridge_packet list) option" where
  "select_interfaces now s b =
     do {
       (dropped, outs) \<leftarrow> selected_packets now s b;
       Some (s\<lparr>is_numProcessedFrames := is_numProcessedFrames s + 1,
               is_numDroppedFrames := is_numDroppedFrames s + dropped\<rparr>, outs)
     }"

text \<open>\<open>RelayInterfaceLearner\<close>, on the way up.\<close>

definition learn_incoming :: "simtime \<Rightarrow> interface_selector \<Rightarrow> bridge_packet \<Rightarrow> interface_selector option" where
  "learn_incoming now s b =
     (let vid = nat (case tg_vlanInd (bp_tags b) of None \<Rightarrow> 0 | Some v \<Rightarrow> v) in
      do {
        i \<leftarrow> tg_interfaceInd (bp_tags b);
        (src, _) \<leftarrow> tg_macInd (bp_tags b);
        (if \<not> isMulticast src then
           do {
             ri \<leftarrow> interface_by_id s i;
             tab \<leftarrow> learnUnicastAddressForwardingInterface now (ri_id ri) src vid (is_macTable s);
             Some (s\<lparr>is_macTable := tab\<rparr>)
           }
         else Some s)
      })"

section \<open>The path of a stream through a bridge\<close>

text \<open>
  A packet of a stream, after the direction reverser, is split, every copy is encoded and sent to its
  interfaces. A packet that arrives is decoded, and renamed by the merger (which of the copies the merger
  lets pass is the subject of \<open>merger_forwards_first_copies\<close>).
\<close>

fun select_all ::
  "simtime \<Rightarrow> interface_selector \<Rightarrow> bridge_packet list \<Rightarrow> (interface_selector \<times> bridge_packet list) option" where
  "select_all now s [] = Some (s, [])"
| "select_all now s (b # bs) =
     do { (s, outs) \<leftarrow> select_interfaces now s b; (s, outs') \<leftarrow> select_all now s bs; Some (s, outs @ outs') }"

definition bridge_send ::
  "simtime \<Rightarrow> node_parameters \<Rightarrow> interface_selector \<Rightarrow> bridge_packet \<Rightarrow>
   (interface_selector \<times> bridge_packet list) option" where
  "bridge_send now ps s b =
     do {
       copies \<leftarrow> those (map (encode_packet (encoder_entries (np_encoder ps)))
         (split_packet (mapping_parameter (np_splitter ps)) (bp_tags b)));
       select_all now s (map (\<lambda>p. b\<lparr>bp_tags := p\<rparr>) copies)
     }"

definition bridge_receive ::
  "(string \<Rightarrow> string \<Rightarrow> bool) \<Rightarrow> (int \<Rightarrow> string) \<Rightarrow> node_parameters \<Rightarrow> stream_merger \<Rightarrow> packet_tags \<Rightarrow>
   (stream_merger \<times> packet_tags) option" where
  "bridge_receive matches ifname ps m p =
     do {
       p \<leftarrow> decode_packet ifname (decoder_entries matches (np_decoder ps)) p;
       merger_process (m\<lparr>sm_mapping := mapping_parameter (np_merger ps)\<rparr>) p
     }"

section \<open>The encoder and the forwarding table of a configured node\<close>

lemma encoding_mapping:
  assumes "fold_opt encoding_entry es m = Some m'"
  shows "m' x = (case m x of Some y \<Rightarrow> Some y | None \<Rightarrow> (case filter (\<lambda>e. xe_name e = x) es of
     [] \<Rightarrow> None | e # _ \<Rightarrow> Some (xe_vlanId e, xe_pcp e)))"
  using assms
proof (induction es arbitrary: m)
  case (Cons e es)
  obtain m1 where m1: "encoding_entry e m = Some m1" "fold_opt encoding_entry es m1 = Some m'"
    using Cons.prems by (auto split: option.splits)
  show ?case
  proof (cases "m (xe_name e)")
    case None
    then have "m1 = m(xe_name e \<mapsto> (xe_vlanId e, xe_pcp e))" using m1(1) by (simp add: encoding_entry_def)
    then show ?thesis using Cons.IH[OF m1(2)] None by (simp split: option.splits)
  next
    case (Some vp)
    then have "m1 = m" using m1(1) by (auto simp: encoding_entry_def split: prod.splits)
    then show ?thesis using Cons.IH[OF m1(2)] Some by (auto split: option.splits)
  qed
qed (simp split: option.splits)

lemma filter_sorted_names:
  "filter (\<lambda>x. x = y) (sort (remdups xs)) = (if y \<in> set xs then [y] else [])" for xs :: "string list"
proof -
  have *: "filter (\<lambda>x. x = y) zs = (if y \<in> set zs then [y] else [])" if "distinct zs" for zs :: "string list"
    using that by (induction zs) (auto simp: filter_empty_conv)
  show ?thesis by (subst *) simp_all
qed

lemma encoder_of_parameter:
  assumes "encoding_parameter es = Some par" "filter (\<lambda>e. xe_name e = out) es = e # rest"
  shows "filter (\<lambda>x. ee_stream x = out) (encoder_entries (Some par)) =
    [\<lparr>ee_vlanId = xe_vlanId e, ee_pcp = xe_pcp e, ee_stream = out\<rparr>]"
proof -
  obtain m where m: "fold_opt encoding_entry es Map.empty = Some m"
    "par = map (\<lambda>x. (x, the (m x))) (sort (remdups (map xe_name es)))"
    using assms(1) by (auto simp: encoding_parameter_def split: bind_splits)
  have "out \<in> set (map xe_name es)" using assms(2) by (metis (mono_tags) filter_eq_ConsD in_set_conv_decomp list.set_map image_eqI)
  moreover have "m out = Some (xe_vlanId e, xe_pcp e)" using encoding_mapping[OF m(1), of out] assms(2) by simp
  moreover have "filter (\<lambda>x. ee_stream x = out) (encoder_entries (Some par)) =
    map (\<lambda>x. case the (m x) of (v, p) \<Rightarrow> \<lparr>ee_vlanId = v, ee_pcp = p, ee_stream = x\<rparr>)
      (filter (\<lambda>x. x = out) (sort (remdups (map xe_name es))))"
    unfolding encoder_entries_def m(2) by (simp add: filter_map o_def split_beta)
  ultimately show ?thesis by (simp add: filter_sorted_names)
qed

lemma tag_list_simps: "tag_list (Some l) = l" "tag_list None = []"
  by (simp_all add: tag_list_def)

lemma encode_vlan:
  assumes "tg_streamReq p = Some st" "filter (\<lambda>x. ee_stream x = st) maps = e # es" "ee_vlanId e \<noteq> -1"
  shows "\<exists>q. encode_packet maps p = Some q \<and> tg_vlanReq q = Some (ee_vlanId e) \<and> tg_interfaceInd q = tg_interfaceInd p \<and>
    (\<exists>x xs. tg_encapReq q = Some (x # xs))"
  using assms
  by (cases "tag_list (tg_encapReq p)")
    (auto simp: encode_packet_def Let_def ensureEncapsulationProtocolReq_def hasEncapsulationProtocolReq_def
      prependEncapsulationProtocolReq_def setDispatchProtocol_def peekEncapsulationProtocolReq_def tag_list_simps)

text \<open>The interfaces that a list of entries gives an address and a VLAN.\<close>

definition entry_interfaces ::
  "(string \<Rightarrow> mac_address option) \<Rightarrow> (string \<Rightarrow> int) \<Rightarrow> ft_config list \<Rightarrow> mac_address \<Rightarrow> vlan \<Rightarrow> int list" where
  "entry_interfaces resolve idOf es a v =
     map (\<lambda>e. idOf (fc_interface e)) (filter (\<lambda>e. fc_vlan e = Some v \<and> resolve (fc_address e) = Some a) es)"

definition multicast_ids :: "mac_table \<Rightarrow> mac_address \<Rightarrow> vlan \<Rightarrow> int list" where
  "multicast_ids tab a v = (case multicastForwardingTable tab (v, a) of None \<Rightarrow> [] | Some ids \<Rightarrow> ids)"

lemma parse_multicast:
  assumes "parseForwardingTableParameter resolve (\<lambda>i. Some (idOf i)) es tab = Some tab'" "isMulticast a"
    "\<forall>e \<in> set es. fc_vlan e \<noteq> None"
  shows "multicast_ids tab' a v = multicast_ids tab a v @ entry_interfaces resolve idOf es a v"
  using assms unfolding parseForwardingTableParameter_def
proof (induction es arbitrary: tab)
  case Nil
  then show ?case by (simp add: entry_interfaces_def)
next
  case (Cons e es)
  obtain t where t: "parse_entry resolve (\<lambda>i. Some (idOf i)) e tab = Some t"
    "fold_opt (parse_entry resolve (\<lambda>i. Some (idOf i))) es t = Some tab'"
    using Cons.prems(1) by (auto split: option.splits)
  obtain w where w: "fc_vlan e = Some w" using Cons.prems(3) by auto
  have "multicast_ids t a v = multicast_ids tab a v @
      (if fc_vlan e = Some v \<and> resolve (fc_address e) = Some a then [idOf (fc_interface e)] else [])"
    using t(1) w Cons.prems(2)
    by (auto simp: parse_entry_def multicast_ids_def addMulticastAddressForwardingInterface_def
        setUnicastAddressForwardingInterface_def Let_def split: bind_splits option.splits if_splits)
  with Cons.IH[OF t(2)] Cons.prems(2,3) show ?case by (simp add: entry_interfaces_def)
qed

lemma parse_unicast:
  assumes "parseForwardingTableParameter resolve (\<lambda>i. Some (idOf i)) es tab = Some tab'" "\<not> isMulticast a"
    "\<forall>e \<in> set es. fc_vlan e \<noteq> None"
  shows "(entry_interfaces resolve idOf es a v = [] \<and> forwardingTable tab' (v, a) = forwardingTable tab (v, a)) \<or>
    (\<exists>i. entry_interfaces resolve idOf es a v = [i] \<and> forwardingTable tab (v, a) = None \<and>
      forwardingTable tab' (v, a) = Some (address_entry i (- SECOND)))"
  using assms unfolding parseForwardingTableParameter_def
proof (induction es arbitrary: tab)
  case Nil
  then show ?case by (simp add: entry_interfaces_def)
next
  case (Cons e es)
  obtain t where t: "parse_entry resolve (\<lambda>i. Some (idOf i)) e tab = Some t"
    "fold_opt (parse_entry resolve (\<lambda>i. Some (idOf i))) es t = Some tab'"
    using Cons.prems(1) by (auto split: option.splits)
  obtain w where w: "fc_vlan e = Some w" using Cons.prems(3) by auto
  have step: "if fc_vlan e = Some v \<and> resolve (fc_address e) = Some a
    then forwardingTable tab (v, a) = None \<and> forwardingTable t (v, a) = Some (address_entry (idOf (fc_interface e)) (- SECOND))
    else forwardingTable t (v, a) = forwardingTable tab (v, a)"
    using t(1) w Cons.prems(2)
    by (auto simp: parse_entry_def addMulticastAddressForwardingInterface_def
        setUnicastAddressForwardingInterface_def Let_def split: bind_splits option.splits if_splits)
  show ?case
    using Cons.IH[OF t(2) Cons.prems(2)] Cons.prems(3) step
    by (cases "fc_vlan e = Some v \<and> resolve (fc_address e) = Some a") (auto simp: entry_interfaces_def)
qed

lemma aging_parse:
  assumes "parseForwardingTableParameter resolve ifb es tab = Some tab'"
  shows "agingTime tab' = agingTime tab"
  using assms unfolding parseForwardingTableParameter_def
  by (rule fold_opt_inv)
    (auto simp: parse_entry_def addMulticastAddressForwardingInterface_def setUnicastAddressForwardingInterface_def
      Let_def split: bind_splits option.splits if_splits)

lemma send_to_id_ok:
  assumes "interface_by_id s i \<noteq> None" "tg_encapReq (bp_tags b) = Some (x # xs)"
  shows "\<exists>q. send_to_id s b i = Some q \<and> bp_interfaceReq q = Some i \<and> tg_vlanReq (bp_tags q) = tg_vlanReq (bp_tags b)"
proof -
  obtain ri where ri: "interface_by_id s i = Some ri" using assms(1) by auto
  have "ri_id ri = i" using ri by (auto simp: interface_by_id_def find_Some_iff)
  with ri assms(2) show ?thesis
    by (auto simp: send_to_id_def send_to_interface_def setDispatchProtocol_def peekEncapsulationProtocolReq_def
        ensureEncapsulationProtocolReq_def hasEncapsulationProtocolReq_def appendEncapsulationProtocolReq_def
        tag_list_simps Let_def split: option.splits)
qed

text \<open>Until the entry is too old, a packet for a station whose frame was seen with the same VLAN goes back to the
  interface the frame came from.\<close>

lemma learned_interface_selected:
  assumes "learn_incoming now s b = Some t" "tg_macInd (bp_tags b) = Some (src, dst)" "\<not> isMulticast src"
    "tg_interfaceInd (bp_tags b) = Some i" "i \<noteq> -1" "tg_vlanInd (bp_tags b) = Some v"
    "\<not> is_static (is_macTable s) (nat v, src)" "now \<le> later" "later < now + agingTime (is_macTable s)"
    "bp_macReq c = Some (x, src)" "bp_interfaceReq c = None" "tg_vlanReq (bp_tags c) = Some v"
    "tg_interfaceInd (bp_tags c) \<noteq> Some i" "tg_encapReq (bp_tags c) = Some (y # ys)"
  shows "\<exists>q. selected_packets later t c = Some (0, [q]) \<and> bp_interfaceReq q = Some i"
proof -
  obtain ri where ri: "interface_by_id s i = Some ri"
    using assms(1-4) by (auto simp: learn_incoming_def Let_def split: bind_splits)
  then have id: "ri_id ri = i" by (auto simp: interface_by_id_def find_Some_iff)
  have t: "t = s\<lparr>is_macTable := learn_entry now i (nat v, src) (is_macTable s)\<rparr>"
    using assms(1-4,6) ri id by (simp add: learn_incoming_def learnUnicastAddressForwardingInterface_def)
  have "find_interface later (is_macTable t) (nat v, src) = i"
    using find_learn[OF assms(7,8)] assms(9) t by simp
  then have u: "getUnicastAddressForwardingInterface later (is_macTable t) src (nat v) = Some i"
    using assms(3) by (simp add: getUnicastAddressForwardingInterface_def)
  have "interface_by_id t i \<noteq> None" using ri t by (simp add: interface_by_id_def)
  then obtain q where q: "send_to_id t c i = Some q" "bp_interfaceReq q = Some i"
    using send_to_id_ok[of t i c y ys] assms(14) by auto
  have nb: "\<not> isBroadcast src" using assms(3) isMulticast_broadcast by blast
  show ?thesis
    using u q assms(3,5,10-13) nb by (simp add: selected_packets_def Let_def)
qed

lemma those_total: "\<forall>x \<in> set xs. \<exists>y. f x = Some y \<Longrightarrow> those (map f xs) = Some (map (\<lambda>x. the (f x)) xs)"
  by (induction xs) auto

text \<open>A packet for an address and a VLAN that a configured table knows is sent to the interfaces of the
  entries, in their order.\<close>

lemma select_configured:
  assumes table: "parseForwardingTableParameter resolve (\<lambda>i. Some (idOf i)) es (init_table aging) = Some (is_macTable s)"
    "\<forall>e \<in> set es. fc_vlan e \<noteq> None" and now: "now + SECOND < aging"
    and ids: "entry_interfaces resolve idOf es dst (nat v) = ids" "ids \<noteq> []" "\<forall>i \<in> set ids. interface_by_id s i \<noteq> None \<and> 0 \<le> i"
    and b: "bp_macReq b = Some (src, dst)" "\<not> isBroadcast dst" "bp_interfaceReq b = None" "tg_vlanReq (bp_tags b) = Some v"
    "tg_encapReq (bp_tags b) = Some (x # xs)" "\<forall>i \<in> set ids. tg_interfaceInd (bp_tags b) \<noteq> Some i"
  shows "\<exists>outs. selected_packets now s b = Some (0, outs) \<and> map bp_interfaceReq outs = map Some ids \<and>
    (\<forall>q \<in> set outs. tg_vlanReq (bp_tags q) = Some v)"
proof -
  have send: "\<exists>q. send_to_id s b i = Some q \<and> bp_interfaceReq q = Some i \<and> tg_vlanReq (bp_tags q) = Some v"
    if "i \<in> set ids" for i using send_to_id_ok[of s i b] ids(3) that b(4,5) by auto
  let ?outs = "map (\<lambda>i. the (send_to_id s b i)) ids"
  have outs: "those (map (send_to_id s b) ids) = Some ?outs" using send by (intro those_total) blast
  have res: "map bp_interfaceReq ?outs = map Some ids \<and> (\<forall>q \<in> set ?outs. tg_vlanReq (bp_tags q) = Some v)"
    using send by fastforce
  have "selected_packets now s b = Some (0, ?outs)"
  proof (cases "isMulticast dst")
    case True
    have "multicast_ids (is_macTable s) dst (nat v) = ids"
      using parse_multicast[OF table(1) True table(2), of "nat v"] ids(1) by (simp add: multicast_ids_def init_table_def)
    then have "getMulticastAddressForwardingInterfaces (is_macTable s) dst (nat v) = Some ids"
      using True by (simp add: getMulticastAddressForwardingInterfaces_def multicast_ids_def)
    moreover have "filter (\<lambda>i. tg_interfaceInd (bp_tags b) \<noteq> Some i) ids = ids" using b(6) by (simp add: filter_id_conv)
    ultimately show ?thesis using True b outs ids(2) by (simp add: selected_packets_def Let_def)
  next
    case False
    obtain i where i: "ids = [i]" "forwardingTable (is_macTable s) (nat v, dst) = Some (address_entry i (- SECOND))"
      using parse_unicast[OF table(1) False table(2), of "nat v"] ids(1,2) by auto
    have "agingTime (is_macTable s) = aging" using aging_parse[OF table(1)] by (simp add: init_table_def)
    then have "getUnicastAddressForwardingInterface now (is_macTable s) dst (nat v) = Some i"
      using False i(2) now by (simp add: getUnicastAddressForwardingInterface_def find_interface_def)
    moreover obtain q where "send_to_id s b i = Some q" using send i(1) by force
    moreover have "i \<noteq> -1" "tg_interfaceInd (bp_tags b) \<noteq> Some i" using ids(3) b(6) i(1) by auto
    ultimately show ?thesis using False b i(1) by (simp add: selected_packets_def Let_def)
  qed
  with res show ?thesis by blast
qed

lemma selected_packets_counters:
  "selected_packets now (s\<lparr>is_numProcessedFrames := k, is_numDroppedFrames := d\<rparr>) b = selected_packets now s b"
proof -
  let ?s = "s\<lparr>is_numProcessedFrames := k, is_numDroppedFrames := d\<rparr>"
  have "interface_by_id ?s = interface_by_id s" "is_macTable ?s = is_macTable s"
    "broadcast_to_interfaces ?s b = broadcast_to_interfaces s b" "send_to_id ?s b = send_to_id s b"
    by (simp_all add: interface_by_id_def broadcast_to_interfaces_def send_to_id_def fun_eq_iff)
  note e = this
  show ?thesis unfolding selected_packets_def e by (rule refl)
qed

lemma select_all_concat:
  assumes "\<forall>b \<in> set bs. selected_packets now s b = Some (0, f b)"
  shows "\<exists>t. select_all now s bs = Some (t, concat (map f bs))"
  using assms
proof (induction bs arbitrary: s)
  case (Cons b bs)
  let ?s = "s\<lparr>is_numProcessedFrames := is_numProcessedFrames s + 1, is_numDroppedFrames := is_numDroppedFrames s + 0\<rparr>"
  have "\<forall>b \<in> set bs. selected_packets now ?s b = Some (0, f b)"
    using Cons.prems unfolding selected_packets_counters by simp
  from Cons.IH[OF this] Cons.prems show ?case by (auto simp: select_interfaces_def)
qed simp

section \<open>The maps of the splitter and of the merger\<close>

lemma fold_update_Some:
  assumes "\<exists>x \<in> set xs. k x = y" "\<forall>x \<in> set xs. k x = y \<longrightarrow> f x = z"
  shows "fold (\<lambda>x par. par(k x \<mapsto> f x)) xs par y = Some z"
  using assms by (induction xs arbitrary: par rule: rev_induct) auto

lemma fold_update_None:
  "\<forall>x \<in> set xs. k x \<noteq> y \<Longrightarrow> fold (\<lambda>x par. par(k x \<mapsto> f x)) xs par y = par y"
  by (induction xs arbitrary: par) auto

definition merging_pairs :: "stream_merging list \<Rightarrow> (string \<times> string) list" where
  "merging_pairs ms = concat (map (\<lambda>m. map (\<lambda>i. (i, xm_outputStream m)) (xm_inputStreams m)) ms)"

lemma merging_parameter_pairs: "merging_parameter ms = fold (\<lambda>x par. par(fst x \<mapsto> snd x)) (merging_pairs ms) Map.empty"
proof -
  have "fold (\<lambda>m. fold (\<lambda>i par. par(i \<mapsto> xm_outputStream m)) (xm_inputStreams m)) ms par =
      fold (\<lambda>x par. par(fst x \<mapsto> snd x)) (merging_pairs ms) par" for par :: "string \<Rightarrow> string option"
    by (induction ms arbitrary: par) (simp_all add: merging_pairs_def fold_map o_def)
  then show ?thesis by (simp add: merging_parameter_def)
qed

text \<open>The nodes have all the modules.\<close>

definition all_modules :: node_modules where
  "all_modules = \<lparr>nm_identifier = True, nm_decoder = True, nm_merger = True, nm_splitter = True, nm_encoder = True,
     nm_macTable = True, nm_qTagHeaderChecker = True\<rparr>"

lemma parameter_maps:
  assumes "configureStreams_node all_modules nc = Some ps"
  shows "mapping_parameter (np_splitter ps) = splitting_parameter (nc_splittings nc)"
    "mapping_parameter (np_merger ps) = merging_parameter (nc_mergings nc)"
    "(case np_forwardingTable ps of None \<Rightarrow> [] | Some l \<Rightarrow> l) = forwarding_parameter (nc_encodings nc)"
    "decoder_entries matches (np_decoder ps) =
      decoder_entries matches (Some (map (\<lambda>x. (xd_networkInterface x, xd_vlanId x, xd_name x)) (nc_decodings nc)))"
    "nc_encodings nc \<noteq> [] \<Longrightarrow> \<exists>par. encoding_parameter (nc_encodings nc) = Some par \<and> np_encoder ps = Some par"
  using assms
  by (auto simp: configureStreams_node_def all_modules_def mapping_parameter_def splitting_parameter_def
      merging_parameter_def forwarding_parameter_def decoder_entries_def split: if_splits bind_splits)

section \<open>Configured nodes\<close>

lemma configured_item:
  assumes "configured tp confs s" "c \<in> set confs" "tn \<in> set tp" "R \<in> set (distinct_receivers c (tn_name tn))"
  obtains v where "filter (\<lambda>e. xe_name e = out_name c (tn_name tn) R) (nc_encodings (cg_nodes s (tn_name tn))) =
      map (encoding_of c (out_name c (tn_name tn) R) v) (map (receiver_link tn) R)" "0 \<le> v"
    "\<forall>m \<in> set R. findLinkOut tn m \<noteq> None \<and> cg_assignedVlanIds s (tn_name tn, m, destination_address c, cf_name c) = v"
proof -
  have E: "encodings_ok (\<Union>c \<in> set confs. stream_items tp c) s" using assms(1) by (simp add: configured_def)
  have "(c, tn, R) \<in> (\<Union>c \<in> set confs. stream_items tp c)"
    using assms(2-4) by (auto simp: stream_items_def node_items_def)
  then obtain v where v: "filter (\<lambda>e. xe_name e = out_name c (tn_name tn) R) (nc_encodings (cg_nodes s (tn_name tn))) =
      map (encoding_of c (out_name c (tn_name tn) R) v) (map (receiver_link tn) R)"
    "\<forall>m \<in> set R. findLinkOut tn m \<noteq> None \<and> cg_assignedVlanIds s (tn_name tn, m, destination_address c, cf_name c) = v"
    using encodings_okD(1)[OF E] unfolding item_encoded_def by blast
  have "hd R \<in> set R" using assms(4) by (simp add: distinct_receivers_mem)
  then have "encoding_of c (out_name c (tn_name tn) R) v (receiver_link tn (hd R)) \<in>
    set (filter (\<lambda>e. xe_name e = out_name c (tn_name tn) R) (nc_encodings (cg_nodes s (tn_name tn))))"
    unfolding v(1) by simp
  then have "encoding_of c (out_name c (tn_name tn) R) v (receiver_link tn (hd R)) \<in> set (nc_encodings (cg_nodes s (tn_name tn)))"
    by simp
  from encodings_okD(3)[OF E this] have "0 \<le> v" by simp
  with v that show ?thesis by blast
qed

text \<open>The VLAN ids of a node tell the output streams for a destination address apart.\<close>

lemma same_vlan_same_name:
  assumes net: "stream_network tp confs" and s: "configured tp confs s" and tn: "tn \<in> set tp"
    and c: "c \<in> set confs" "R \<in> set (distinct_receivers c (tn_name tn))" "m \<in> set R"
    and e: "e \<in> set (nc_encodings (cg_nodes s (tn_name tn)))" "xe_destination e = destination_address c"
      "xe_vlanId e = cg_assignedVlanIds s (tn_name tn, m, destination_address c, cf_name c)"
  shows "xe_name e = out_name c (tn_name tn) R"
proof -
  have E: "encodings_ok (\<Union>c \<in> set confs. stream_items tp c) s" using s by (simp add: configured_def)
  obtain v where v: "filter (\<lambda>e. xe_name e = out_name c (tn_name tn) R) (nc_encodings (cg_nodes s (tn_name tn))) =
      map (encoding_of c (out_name c (tn_name tn) R) v) (map (receiver_link tn) R)"
    "\<forall>m \<in> set R. findLinkOut tn m \<noteq> None \<and> cg_assignedVlanIds s (tn_name tn, m, destination_address c, cf_name c) = v"
    by (rule configured_item[OF s c(1) tn c(2)])
  let ?x = "encoding_of c (out_name c (tn_name tn) R) v (receiver_link tn m)"
  have "?x \<in> set (filter (\<lambda>e. xe_name e = out_name c (tn_name tn) R) (nc_encodings (cg_nodes s (tn_name tn))))"
    unfolding v(1) using c(3) by simp
  then have "?x \<in> set (nc_encodings (cg_nodes s (tn_name tn)))" by simp
  from encodings_okD(5)[OF E e(1) this] e(2,3) v(2) c(3) show ?thesis by simp
qed

lemma configured_entries:
  assumes net: "stream_network tp confs" and s: "configured tp confs s" and c: "c \<in> set confs" "tn \<in> set tp"
    "R \<in> set (distinct_receivers c (tn_name tn))" "m \<in> set R"
    and v: "v = cg_assignedVlanIds s (tn_name tn, m, destination_address c, cf_name c)"
    and res: "resolve (destination_address c) = Some dst"
      "\<forall>c' \<in> set confs. resolve (destination_address c') = Some dst \<longrightarrow> destination_address c' = destination_address c"
  shows "entry_interfaces resolve idOf (forwarding_parameter (nc_encodings (cg_nodes s (tn_name tn)))) dst (nat v) =
    map (\<lambda>m. idOf (the (findLinkOut tn m))) R"
proof -
  let ?es = "nc_encodings (cg_nodes s (tn_name tn))" and ?out = "out_name c (tn_name tn) R"
  have E: "encodings_ok (\<Union>c \<in> set confs. stream_items tp c) s" using s by (simp add: configured_def)
  obtain w where w: "filter (\<lambda>e. xe_name e = ?out) ?es = map (encoding_of c ?out w) (map (receiver_link tn) R)" "0 \<le> w"
    "\<forall>m \<in> set R. findLinkOut tn m \<noteq> None \<and> cg_assignedVlanIds s (tn_name tn, m, destination_address c, cf_name c) = w"
    by (rule configured_item[OF s c(1-3)])
  have wv: "w = v" using w(3) c(4) v by simp
  have "(nat (xe_vlanId e) = nat v \<and> resolve (xe_destination e) = Some dst) \<longleftrightarrow> xe_name e = ?out" if e: "e \<in> set ?es" for e
  proof
    assume a: "nat (xe_vlanId e) = nat v \<and> resolve (xe_destination e) = Some dst"
    obtain c' where "c' \<in> set confs" "xe_destination e = destination_address c'"
      using encodings_okD(2)[OF E e] by (auto simp: stream_items_def node_items_def)
    then have d: "xe_destination e = destination_address c" using a res(2) by simp
    have "xe_vlanId e = v"
      using conjunct1[OF a] conjunct1[OF encodings_okD(3)[OF E e]] w(2) wv by (simp add: eq_nat_nat_iff)
    then show "xe_name e = ?out" using same_vlan_same_name[OF net s c(2,1,3,4) e d] v by simp
  next
    assume "xe_name e = ?out"
    then have "e \<in> set (filter (\<lambda>e. xe_name e = ?out) ?es)" using e by simp
    then show "nat (xe_vlanId e) = nat v \<and> resolve (xe_destination e) = Some dst"
      unfolding w(1) using wv res(1) by auto
  qed
  then have "filter (\<lambda>e. nat (xe_vlanId e) = nat v \<and> resolve (xe_destination e) = Some dst) ?es = filter (\<lambda>e. xe_name e = ?out) ?es"
    by (rule filter_cong[OF refl])
  then show ?thesis
    using w(1) by (simp add: entry_interfaces_def forwarding_parameter_def filter_map o_def receiver_link_def)
qed

lemma splitter_of_node:
  assumes net: "stream_network tp confs" and s: "configured tp confs s" and c: "c \<in> set confs" "tn \<in> set tp"
    and ps: "configureStreams_node all_modules (cg_nodes s (tn_name tn)) = Some ps"
    and p: "tg_streamReq p = Some (cf_name c)"
  shows "split_packet (mapping_parameter (np_splitter ps)) p =
    map (\<lambda>R. p\<lparr>tg_streamReq := Some (out_name c (tn_name tn) R)\<rparr>) (distinct_receivers c (tn_name tn))"
proof -
  let ?n = "tn_name tn" and ?ss = "nc_splittings (cg_nodes s (tn_name tn))"
  have ss: "x \<in> set ?ss \<longleftrightarrow> splitting_of (set confs \<times> set tp) ?n x" for x
    using s unfolding configured_def policies_ok_def by blast
  have own: "c' = c" if "c' \<in> set confs" "cf_name c' = cf_name c" for c'
    using distinct_confs[OF net that(1) c(1) that(2)] .
  show ?thesis
  proof (cases "length (distinct_receivers c ?n) = 1")
    case True
    then obtain R where R: "distinct_receivers c ?n = [R]" by (auto simp: length_Suc_conv)
    have "\<forall>x \<in> set ?ss. xs_inputStream x \<noteq> cf_name c"
    proof
      fix x assume "x \<in> set ?ss"
      then obtain c' tn' where x: "c' \<in> set confs" "length (distinct_receivers c' ?n) \<noteq> 1" "xs_inputStream x = cf_name c'"
        unfolding ss splitting_of_def by auto
      show "xs_inputStream x \<noteq> cf_name c" using own[OF x(1)] x(2,3) True by auto
    qed
    then have "splitting_parameter ?ss (cf_name c) = None" by (simp add: splitting_parameter_def fold_update_None)
    then show ?thesis using p R by (simp add: split_packet_def parameter_maps(1)[OF ps] out_name_def)
  next
    case False
    let ?x = "\<lparr>xs_inputStream = cf_name c, xs_outputStreams = map (out_name c ?n) (distinct_receivers c ?n)\<rparr>"
    have "?x \<in> set ?ss" unfolding ss splitting_of_def using c False by auto
    moreover have "xs_outputStreams x = map (out_name c ?n) (distinct_receivers c ?n)"
      if m: "x \<in> set ?ss" "xs_inputStream x = cf_name c" for x
    proof -
      obtain c' where x: "c' \<in> set confs" "x = \<lparr>xs_inputStream = cf_name c',
          xs_outputStreams = map (out_name c' ?n) (distinct_receivers c' ?n)\<rparr>"
        using m(1) unfolding ss splitting_of_def by auto
      have "c' = c" by (rule own[OF x(1)]) (use m(2) x(2) in simp)
      with x(2) show ?thesis by simp
    qed
    ultimately have "splitting_parameter ?ss (cf_name c) = Some (map (out_name c ?n) (distinct_receivers c ?n))"
      unfolding splitting_parameter_def by (intro fold_update_Some) force+
    then show ?thesis using p by (simp add: split_packet_def parameter_maps(1)[OF ps] o_def)
  qed
qed

lemma encoder_of_node:
  assumes s: "configured tp confs s" and c: "c \<in> set confs" "tn \<in> set tp"
    "R \<in> set (distinct_receivers c (tn_name tn))" "m \<in> set R"
    and ps: "configureStreams_node all_modules (cg_nodes s (tn_name tn)) = Some ps"
    and p: "tg_streamReq p = Some (out_name c (tn_name tn) R)"
    and v: "v = cg_assignedVlanIds s (tn_name tn, m, destination_address c, cf_name c)"
  shows "0 \<le> v \<and> (\<exists>q. encode_packet (encoder_entries (np_encoder ps)) p = Some q \<and> tg_vlanReq q = Some v \<and>
    tg_interfaceInd q = tg_interfaceInd p \<and> (\<exists>x xs. tg_encapReq q = Some (x # xs)))"
proof -
  let ?es = "nc_encodings (cg_nodes s (tn_name tn))" and ?out = "out_name c (tn_name tn) R"
  obtain w where w: "filter (\<lambda>e. xe_name e = ?out) ?es = map (encoding_of c ?out w) (map (receiver_link tn) R)" "0 \<le> w"
    "\<forall>m \<in> set R. findLinkOut tn m \<noteq> None \<and> cg_assignedVlanIds s (tn_name tn, m, destination_address c, cf_name c) = w"
    by (rule configured_item[OF s c(1-3)])
  have wv: "w = v" using w(3) c(4) v by simp
  obtain r R' where "R = r # R'" using c(4) by (cases R) auto
  then have f: "filter (\<lambda>e. xe_name e = ?out) ?es =
      encoding_of c ?out v (receiver_link tn r) # map (encoding_of c ?out v) (map (receiver_link tn) R')"
    using w(1) wv by simp
  then have "?es \<noteq> []" by auto
  then obtain par where par: "encoding_parameter ?es = Some par" "np_encoder ps = Some par"
    using parameter_maps(5)[OF ps] by blast
  have "v \<noteq> -1" using w(2) wv by simp
  then show ?thesis
    using encode_vlan[OF p encoder_of_parameter[OF par(1) f]] w(2) wv par(2) by simp
qed

section \<open>Arrival\<close>

lemma decoder_matches_entry:
  "decoder_matches ifname q \<lparr>de_packetFilter = (\<lambda>_. True), de_interfaceNameMatcher = Some f,
      de_source = UNSPECIFIED_ADDRESS, de_destination = UNSPECIFIED_ADDRESS, de_vlanId = v, de_pcp = -1, de_stream = st\<rparr> \<longleftrightarrow>
    (\<exists>i. tg_interfaceInd q = Some i \<and> f (ifname i)) \<and> (v = -1 \<or> tg_vlanInd q = Some v)"
  by (auto simp: decoder_matches_def isUnspecified_def UNSPECIFIED_ADDRESS_def split: option.splits)

lemma decode_first:
  assumes "d \<in> set ds" "decoder_matches ifname q d" "\<forall>d \<in> set ds. decoder_matches ifname q d \<longrightarrow> de_stream d = st"
    "tg_streamInd q = None"
  shows "decode_packet ifname ds q = Some (q\<lparr>tg_streamInd := Some st\<rparr>)"
proof -
  obtain x xs where x: "filter (decoder_matches ifname q) ds = x # xs" using assms(1,2) by (cases "filter (decoder_matches ifname q) ds") (auto simp: filter_empty_conv)
  then have "x \<in> set (filter (decoder_matches ifname q) ds)" by simp
  then have "de_stream x = st" using assms(3) by simp
  with x assms(4) show ?thesis by (simp add: decode_packet_def)
qed

lemma merger_renames:
  assumes "sm_mapping m st = None \<and> st = out \<or> sm_mapping m st = Some out" "out \<noteq> ''''" "tg_streamInd q = Some st" "tg_seqInd q \<noteq> None"
  shows "\<exists>m' q'. merger_process m q = Some (m', q') \<and> tg_streamInd q' = Some out"
  using assms by (auto simp: merger_process_def Let_def)

lemma hop_senders: "(n, m) \<in> set (stream_hops c) \<longleftrightarrow> n \<in> set (senders_of c m)"
  by (simp add: senders_of_def)

lemma input_name_inj:
  assumes "stream_network tp confs" "c \<in> set confs" "c' \<in> set confs"
    "cf_name c @ ''_'' @ k = cf_name c' @ ''_'' @ k'"
  shows "c = c'"
proof -
  have p: "plain_name (cf_name c)" "plain_name (cf_name c')" using plain_conf assms(1-3) by blast+
  have "cf_name c = cf_name c' \<and> ''_'' @ k = ''_'' @ k'"
    by (rule split_at_underscore[OF _ _ assms(4)]) (use p in \<open>auto simp: plain_name_def\<close>)
  then show ?thesis using distinct_confs[OF assms(1-3)] by simp
qed

text \<open>The merger of a node maps the name a decoder gives the packets of a hop to the stream, or does not know it
  when it is the name of the stream already.\<close>

lemma merger_of_node:
  assumes net: "stream_network tp confs" and s: "configured tp confs s" and c: "c \<in> set confs" "tm \<in> set tp"
    and ps: "configureStreams_node all_modules (cg_nodes s (tn_name tm)) = Some ps"
    and hop: "(n, tn_name tm) \<in> set (stream_hops c)"
  shows "(mapping_parameter (np_merger ps) (in_name c (tn_name tm) n) = None \<and> in_name c (tn_name tm) n = cf_name c) \<or>
    mapping_parameter (np_merger ps) (in_name c (tn_name tm) n) = Some (cf_name c)"
proof -
  let ?m = "tn_name tm" and ?ms = "nc_mergings (cg_nodes s (tn_name tm))"
  have ms: "x \<in> set ?ms \<longleftrightarrow> merging_of (set confs \<times> set tp) ?m x" for x
    using s unfolding configured_def policies_ok_def by blast
  have pairs: "(k, out) \<in> set (merging_pairs ?ms) \<longleftrightarrow>
      (\<exists>c' \<in> set confs. \<exists>k' \<in> set (senders_of c' ?m). length (senders_of c' ?m) > 1 \<and> k = cf_name c' @ ''_'' @ k' \<and> out = cf_name c')"
    for k out
  proof -
    have "(k, out) \<in> set (merging_pairs ?ms) \<longleftrightarrow> (\<exists>x. merging_of (set confs \<times> set tp) ?m x \<and> k \<in> set (xm_inputStreams x) \<and> out = xm_outputStream x)"
      unfolding ms[symmetric] by (auto simp: merging_pairs_def)
    then show ?thesis using c(2) unfolding merging_of_def by fastforce
  qed
  have n: "n \<in> set (senders_of c ?m)" using hop by (simp add: hop_senders)
  show ?thesis
  proof (cases "length (senders_of c ?m) = 1")
    case True
    have "\<forall>x \<in> set (merging_pairs ?ms). fst x \<noteq> cf_name c"
    proof
      fix x assume "x \<in> set (merging_pairs ?ms)"
      then have "CHR ''_'' \<in> set (fst x)" using pairs[of "fst x" "snd x"] by auto
      then show "fst x \<noteq> cf_name c" using plain_conf[OF net c(1)] by (auto simp: plain_name_def)
    qed
    then have "merging_parameter ?ms (cf_name c) = None" unfolding merging_parameter_pairs by (simp add: fold_update_None)
    then show ?thesis using True by (simp add: parameter_maps(2)[OF ps] in_name_def)
  next
    case False
    have nm: "in_name c ?m n = cf_name c @ ''_'' @ n" using False by (simp add: in_name_def)
    have "length (senders_of c ?m) > 1" using False n by (cases "senders_of c ?m") auto
    then have "(in_name c ?m n, cf_name c) \<in> set (merging_pairs ?ms)" unfolding pairs nm using c(1) n by blast
    moreover have "snd x = cf_name c" if x: "x \<in> set (merging_pairs ?ms)" "fst x = in_name c ?m n" for x
    proof -
      obtain c' k' where "c' \<in> set confs" "fst x = cf_name c' @ ''_'' @ k'" "snd x = cf_name c'"
        using x(1) pairs[of "fst x" "snd x"] by auto
      with input_name_inj[OF net c(1), of c' n k'] x(2) nm show ?thesis by simp
    qed
    ultimately have "merging_parameter ?ms (in_name c ?m n) = Some (cf_name c)"
      unfolding merging_parameter_pairs by (intro fold_update_Some) force+
    then show ?thesis by (simp add: parameter_maps(2)[OF ps])
  qed
qed

text \<open>Interfaces of links are known by their ids, and match themselves only.\<close>

definition network_interfaces ::
  "topology_node list \<Rightarrow> (string \<Rightarrow> string \<Rightarrow> int) \<Rightarrow> (string \<Rightarrow> int \<Rightarrow> string) \<Rightarrow> (string \<Rightarrow> string \<Rightarrow> bool) \<Rightarrow> bool" where
  "network_interfaces tp idOf nameOf matches \<longleftrightarrow>
     (\<forall>tn \<in> set tp. \<forall>x \<in> snd ` set (tn_linksOut tn @ tn_linksIn tn). case x of None \<Rightarrow> True
        | Some i \<Rightarrow> 0 \<le> idOf (tn_name tn) i \<and> nameOf (tn_name tn) (idOf (tn_name tn) i) = i) \<and>
     (\<forall>i x. matches i x \<longleftrightarrow> x = i)"

lemma link_out_mem: "findLinkOut tn m = Some i \<Longrightarrow> (m, Some i) \<in> set (tn_linksOut tn)"
  by (auto simp: findLinkOut_def dest: map_of_SomeD split: bind_splits)

lemma link_in_mem: "findLinkIn tn m = Some i \<Longrightarrow> (m, Some i) \<in> set (tn_linksIn tn)"
  by (auto simp: findLinkIn_def dest: map_of_SomeD split: bind_splits)

lemma distinct_snd: "distinct (map snd l) \<Longrightarrow> (a, x) \<in> set l \<Longrightarrow> (b, x) \<in> set l \<Longrightarrow> a = b"
  by (metis distinct_map inj_onD prod.inject snd_conv)

text \<open>A packet that arrives on the interface of a hop with the VLAN id of the hop belongs to the stream again.\<close>

lemma arrival:
  assumes net: "stream_network tp confs" and s: "configured tp confs s"
    and ids: "network_interfaces tp idOf nameOf matches" and c: "c \<in> set confs" "tn \<in> set tp" "tm \<in> set tp"
    and hop: "(tn_name tn, tn_name tm) \<in> set (stream_hops c)"
    and ps: "configureStreams_node all_modules (cg_nodes s (tn_name tm)) = Some ps"
    and i: "findLinkIn tm (tn_name tn) = Some i"
    and q: "tg_interfaceInd q = Some (idOf (tn_name tm) i)"
      "tg_vlanInd q = Some (cg_assignedVlanIds s (tn_name tn, tn_name tm, destination_address c, cf_name c))"
      "tg_streamInd q = None" "tg_seqInd q \<noteq> None"
  shows "\<exists>m' q'. bridge_receive matches (nameOf (tn_name tm)) ps mg q = Some (m', q') \<and> tg_streamInd q' = Some (cf_name c)"
proof -
  let ?n = "tn_name tn" and ?m = "tn_name tm" and ?ds = "nc_decodings (cg_nodes s (tn_name tm))"
  let ?v = "cg_assignedVlanIds s (?n, ?m, destination_address c, cf_name c)"
  let ?entry = "\<lambda>d. \<lparr>de_packetFilter = (\<lambda>_. True), de_interfaceNameMatcher = Some (matches (xd_networkInterface d)),
        de_source = UNSPECIFIED_ADDRESS, de_destination = UNSPECIFIED_ADDRESS, de_vlanId = xd_vlanId d, de_pcp = -1,
        de_stream = xd_name d\<rparr>"
  have es: "decoder_entries matches (np_decoder ps) = map ?entry ?ds"
    unfolding parameter_maps(4)[OF ps] by (simp add: decoder_entries_def o_def)
  have ds: "d \<in> set ?ds \<longleftrightarrow> decoding_of (set confs \<times> set tp) s ?m d" for d
    using s unfolding configured_def policies_ok_def by blast
  have links: "simple_links tp tm" using net c(3) by (auto simp: stream_network_def)
  have name: "nameOf ?m (idOf ?m j) = j" if "(k, Some j) \<in> set (tn_linksIn tm)" for k j
    using ids c(3) that unfolding network_interfaces_def by force
  have mt: "decoder_matches (nameOf ?m) q (?entry d) \<longleftrightarrow> xd_networkInterface d = i \<and> (xd_vlanId d = -1 \<or> xd_vlanId d = ?v)" for d
    unfolding decoder_matches_entry using q(1,2) name[OF link_in_mem[OF i]] ids by (auto simp: network_interfaces_def)
  have own: "\<lparr>xd_networkInterface = i, xd_vlanId = ?v, xd_name = in_name c ?m ?n\<rparr> \<in> set ?ds" (is "?d \<in> _")
    unfolding ds decoding_of_def using c hop i by (auto simp: hop_senders)
  have others: "xd_name d = in_name c ?m ?n" if d: "d \<in> set ?ds" "decoder_matches (nameOf ?m) q (?entry d)" for d
  proof -
    obtain c' k where k: "c' \<in> set confs" "k \<in> set (senders_of c' ?m)" "findLinkIn tm k = Some (xd_networkInterface d)"
      "xd_vlanId d = cg_assignedVlanIds s (k, ?m, destination_address c', cf_name c')" "xd_name d = in_name c' ?m k"
      using d(1) distinct_nodes[OF net _ c(3)] unfolding ds decoding_of_def by auto
    have di: "xd_networkInterface d = i" "xd_vlanId d = -1 \<or> xd_vlanId d = ?v" using d(2) mt by auto
    have kn: "k = ?n"
      using distinct_snd[of "tn_linksIn tm" k "Some i" ?n] links link_in_mem[OF k(3)] link_in_mem[OF i] di(1)
      by (simp add: simple_links_def)
    have hop': "(?n, ?m) \<in> set (stream_hops c')" using k(2) kn by (simp add: hop_senders)
    have dest: "destination_address c' = destination_address c"
      using net k(1) c(1) hop hop' unfolding stream_network_def by blast
    obtain R where R: "R \<in> set (distinct_receivers c ?n)" "?m \<in> set R" by (rule hop_receivers[OF hop])
    obtain R' where R': "R' \<in> set (distinct_receivers c' ?n)" "?m \<in> set R'" by (rule hop_receivers[OF hop'])
    obtain w where w: "filter (\<lambda>e. xe_name e = out_name c' ?n R') (nc_encodings (cg_nodes s ?n)) =
        map (encoding_of c' (out_name c' ?n R') w) (map (receiver_link tn) R')" "0 \<le> w"
      "\<forall>m \<in> set R'. findLinkOut tn m \<noteq> None \<and> cg_assignedVlanIds s (?n, m, destination_address c', cf_name c') = w"
      by (rule configured_item[OF s k(1) c(2) R'(1)])
    have wv: "w = ?v" using w(2,3) R'(2) di(2) k(4) kn by auto
    let ?x = "encoding_of c' (out_name c' ?n R') w (receiver_link tn ?m)"
    have "?x \<in> set (filter (\<lambda>e. xe_name e = out_name c' ?n R') (nc_encodings (cg_nodes s ?n)))"
      unfolding w(1) using R'(2) by simp
    then have "?x \<in> set (nc_encodings (cg_nodes s ?n))" by simp
    from same_vlan_same_name[OF net s c(2,1) R this] dest wv have "out_name c' ?n R' = out_name c ?n R" by simp
    then have "c' = c" using out_name_inj[OF net k(1) c(1) R'(1) R(1)] by simp
    with k(5) kn show ?thesis by simp
  qed
  have "decode_packet (nameOf ?m) (decoder_entries matches (np_decoder ps)) q = Some (q\<lparr>tg_streamInd := Some (in_name c ?m ?n)\<rparr>)"
    unfolding es
  proof (rule decode_first[OF _ _ _ q(3)])
    show "?entry ?d \<in> set (map ?entry ?ds)" using own by force
    show "decoder_matches (nameOf ?m) q (?entry ?d)" unfolding mt by simp
    show "\<forall>e \<in> set (map ?entry ?ds). decoder_matches (nameOf ?m) q e \<longrightarrow> de_stream e = in_name c ?m ?n"
      using others by auto
  qed
  moreover have "cf_name c \<noteq> ''''" using plain_conf[OF net c(1)] by (simp add: plain_name_def)
  ultimately show ?thesis
    using merger_renames[of "mg\<lparr>sm_mapping := mapping_parameter (np_merger ps)\<rparr>" "in_name c ?m ?n" "cf_name c"
        "q\<lparr>tg_streamInd := Some (in_name c ?m ?n)\<rparr>"] merger_of_node[OF net s c(1,3) ps hop] q(4)
    by (simp add: bridge_receive_def)
qed

section \<open>Streams follow their trees\<close>

text \<open>A packet sent by a node goes over the link of its interface to the neighbour, and arrives on the interface
  of the link there.\<close>

definition carried :: "topology_node list \<Rightarrow> (string \<Rightarrow> string \<Rightarrow> int) \<Rightarrow> string \<Rightarrow> bridge_packet \<Rightarrow> string \<Rightarrow> string \<Rightarrow> bool" where
  "carried tp idOf n q m j \<longleftrightarrow> (\<exists>tn \<in> set tp. \<exists>tm \<in> set tp. \<exists>i. tn_name tn = n \<and> tn_name tm = m \<and>
     bp_interfaceReq q = Some (idOf n i) \<and> (m, Some i) \<in> set (tn_linksOut tn) \<and> (n, Some j) \<in> set (tn_linksIn tm))"

text \<open>The relay interface selector of a node that has read its forwarding table, while its entries are not too
  old, and a packet of a stream in the node that did not come from one of the next nodes.\<close>

definition selector_ready ::
  "(string \<Rightarrow> mac_address option) \<Rightarrow> (string \<Rightarrow> string \<Rightarrow> int) \<Rightarrow> topology_node \<Rightarrow> node_parameters \<Rightarrow> simtime \<Rightarrow>
   interface_selector \<Rightarrow> bool" where
  "selector_ready resolve idOf tn ps now s \<longleftrightarrow>
     parseForwardingTableParameter resolve (\<lambda>i. Some (idOf (tn_name tn) i))
       (case np_forwardingTable ps of None \<Rightarrow> [] | Some l \<Rightarrow> l) (init_table (agingTime (is_macTable s))) = Some (is_macTable s) \<and>
     now + SECOND < agingTime (is_macTable s) \<and>
     (\<forall>x \<in> snd ` set (tn_linksOut tn). case x of None \<Rightarrow> True | Some i \<Rightarrow> interface_by_id s (idOf (tn_name tn) i) \<noteq> None)"

definition stream_packet ::
  "(string \<Rightarrow> mac_address option) \<Rightarrow> (string \<Rightarrow> string \<Rightarrow> int) \<Rightarrow> topology_node \<Rightarrow> stream_conf \<Rightarrow> bridge_packet \<Rightarrow> bool" where
  "stream_packet resolve idOf tn c b \<longleftrightarrow>
     tg_streamReq (bp_tags b) = Some (cf_name c) \<and> bp_interfaceReq b = None \<and>
     (\<exists>src dst. bp_macReq b = Some (src, dst) \<and> resolve (destination_address c) = Some dst \<and> \<not> isBroadcast dst) \<and>
     (\<forall>m \<in> set (hops_from (tn_name tn) (stream_hops c)). case findLinkOut tn m of None \<Rightarrow> True
        | Some i \<Rightarrow> tg_interfaceInd (bp_tags b) \<noteq> Some (idOf (tn_name tn) i))"

definition different_addresses :: "(string \<Rightarrow> mac_address option) \<Rightarrow> stream_conf list \<Rightarrow> bool" where
  "different_addresses resolve confs \<longleftrightarrow> (\<forall>c \<in> set confs. \<forall>c' \<in> set confs.
     resolve (destination_address c) = resolve (destination_address c') \<longrightarrow> destination_address c = destination_address c')"

lemma copy_selected:
  assumes net: "stream_network tp confs" and s: "configured tp confs s"
    and ids: "network_interfaces tp idOf nameOf matches" and res: "different_addresses resolve confs"
    and c: "c \<in> set confs" "tn \<in> set tp" "R \<in> set (distinct_receivers c (tn_name tn))"
    and ps: "configureStreams_node all_modules (cg_nodes s (tn_name tn)) = Some ps"
    and sel: "selector_ready resolve idOf tn ps now sel" and b: "stream_packet resolve idOf tn c b"
  shows "\<exists>q outs. encode_packet (encoder_entries (np_encoder ps))
      ((bp_tags b)\<lparr>tg_streamReq := Some (out_name c (tn_name tn) R)\<rparr>) = Some q \<and>
    selected_packets now sel (b\<lparr>bp_tags := q\<rparr>) = Some (0, outs) \<and>
    map bp_interfaceReq outs = map (\<lambda>m. Some (idOf (tn_name tn) (the (findLinkOut tn m)))) R \<and>
    (\<forall>x \<in> set outs. \<forall>m \<in> set R. tg_vlanReq (bp_tags x) =
      Some (cg_assignedVlanIds s (tn_name tn, m, destination_address c, cf_name c)))"
proof -
  let ?n = "tn_name tn" and ?p = "(bp_tags b)\<lparr>tg_streamReq := Some (out_name c (tn_name tn) R)\<rparr>"
  let ?es = "forwarding_parameter (nc_encodings (cg_nodes s (tn_name tn)))"
  let ?v = "cg_assignedVlanIds s (?n, hd R, destination_address c, cf_name c)"
  let ?ids = "map (\<lambda>m. idOf ?n (the (findLinkOut tn m))) R"
  have hd: "hd R \<in> set R" using c(3) by (simp add: distinct_receivers_mem)
  obtain w where w: "\<forall>m \<in> set R. findLinkOut tn m \<noteq> None \<and> cg_assignedVlanIds s (?n, m, destination_address c, cf_name c) = w"
    using configured_item[OF s c] by metis
  obtain src dst where d: "bp_macReq b = Some (src, dst)" "resolve (destination_address c) = Some dst" "\<not> isBroadcast dst"
    using b unfolding stream_packet_def by blast
  obtain q x xs where q: "encode_packet (encoder_entries (np_encoder ps)) ?p = Some q" "tg_vlanReq q = Some ?v"
    "tg_interfaceInd q = tg_interfaceInd (bp_tags b)" "tg_encapReq q = Some (x # xs)" and v: "0 \<le> ?v"
    using encoder_of_node[OF s c hd ps _ refl, of ?p] by auto
  have link: "(m, Some (the (findLinkOut tn m))) \<in> set (tn_linksOut tn)" if "m \<in> set R" for m
    using w that link_out_mem by fastforce
  have inj: "\<forall>c' \<in> set confs. resolve (destination_address c') = Some dst \<longrightarrow> destination_address c' = destination_address c"
    using res c(1) d(2) unfolding different_addresses_def by metis
  have entries: "entry_interfaces resolve (idOf ?n) ?es dst (nat ?v) = ?ids"
    by (rule configured_entries[where resolve = resolve and dst = dst, OF net s c hd refl d(2) inj])
  have known: "interface_by_id sel i \<noteq> None \<and> 0 \<le> i" if i: "i \<in> set ?ids" for i
  proof -
    obtain m where m: "m \<in> set R" "i = idOf ?n (the (findLinkOut tn m))" using i by auto
    let ?i = "the (findLinkOut tn m)"
    have l: "Some ?i \<in> snd ` set (tn_linksOut tn @ tn_linksIn tn)" "Some ?i \<in> snd ` set (tn_linksOut tn)"
      using link[OF m(1)] by force+
    have "0 \<le> idOf ?n ?i"
      using ids[unfolded network_interfaces_def, THEN conjunct1, rule_format, OF c(2) l(1)] by simp
    moreover have "interface_by_id sel (idOf ?n ?i) \<noteq> None"
      using sel[unfolded selector_ready_def, THEN conjunct2, THEN conjunct2, rule_format, OF l(2)] by simp
    ultimately show ?thesis using m(2) by blast
  qed
  have fresh: "tg_interfaceInd (bp_tags b) \<noteq> Some i" if i: "i \<in> set ?ids" for i
  proof -
    obtain m where m: "m \<in> set R" "i = idOf ?n (the (findLinkOut tn m))" using i by auto
    have "m \<in> set (hops_from ?n (stream_hops c))" using receivers_hops[OF c(3) m(1)] by simp
    then show ?thesis using b w m unfolding stream_packet_def by (auto split: option.splits)
  qed
  have table: "parseForwardingTableParameter resolve (\<lambda>i. Some (idOf ?n i)) ?es (init_table (agingTime (is_macTable sel))) =
      Some (is_macTable sel)" "now + SECOND < agingTime (is_macTable sel)"
    using sel unfolding selector_ready_def parameter_maps(3)[OF ps] by blast+
  have "\<exists>outs. selected_packets now sel (b\<lparr>bp_tags := q\<rparr>) = Some (0, outs) \<and> map bp_interfaceReq outs = map Some ?ids \<and>
    (\<forall>y \<in> set outs. tg_vlanReq (bp_tags y) = Some ?v)"
  proof (rule select_configured[OF table(1) _ table(2) entries])
    show "\<forall>e \<in> set ?es. fc_vlan e \<noteq> None" by (simp add: forwarding_parameter_def)
    show "?ids \<noteq> []" using hd by auto
    show "\<forall>i \<in> set ?ids. interface_by_id sel i \<noteq> None \<and> 0 \<le> i" using known by blast
    show "\<forall>i \<in> set ?ids. tg_interfaceInd (bp_tags (b\<lparr>bp_tags := q\<rparr>)) \<noteq> Some i" using fresh q(3) by simp
  qed (use d q b in \<open>simp_all add: stream_packet_def\<close>)
  then show ?thesis using q(1) w hd by (auto simp: o_def)
qed

lemma set_concat_receivers: "set (concat (distinct_receivers c n)) = {m. (n, m) \<in> set (stream_hops c)}"
proof (intro set_eqI iffI)
  show "m \<in> {m. (n, m) \<in> set (stream_hops c)}" if m: "m \<in> set (concat (distinct_receivers c n))" for m
  proof -
    obtain R where "R \<in> set (distinct_receivers c n)" "m \<in> set R" using m by (auto simp only: set_concat UN_iff)
    then show ?thesis using receivers_hops by blast
  qed
  show "m \<in> set (concat (distinct_receivers c n))" if m: "m \<in> {m. (n, m) \<in> set (stream_hops c)}" for m
  proof -
    have "(n, m) \<in> set (stream_hops c)" using m by simp
    then obtain R where "R \<in> set (distinct_receivers c n)" "m \<in> set R" by (rule hop_receivers)
    then show ?thesis by (simp only: set_concat) blast
  qed
qed

lemma distinct_concat_receivers:
  assumes "stream_network tp confs" "c \<in> set confs" "tn \<in> set tp"
  shows "distinct (concat (distinct_receivers c (tn_name tn)))"
proof (rule distinct_concat)
  have clear: "clear_receivers c (tn_name tn)" using assms by (auto simp: stream_network_def)
  show "distinct (distinct_receivers c (tn_name tn))" by (simp add: distinct_receivers_def)
  show "set R \<inter> set R' = {}" if "R \<in> set (distinct_receivers c (tn_name tn))"
    "R' \<in> set (distinct_receivers c (tn_name tn))" "R \<noteq> R'" for R R'
    using clear that unfolding clear_receivers_def by blast
qed (rule distinct_receiver_list)

text \<open>The packets a node sends: one for every next node, on the interface and with the VLAN id of the hop.\<close>

lemma node_sends:
  assumes net: "stream_network tp confs" and s: "configured tp confs s"
    and ids: "network_interfaces tp idOf nameOf matches" and res: "different_addresses resolve confs"
    and c: "c \<in> set confs" "tn \<in> set tp"
    and ps: "configureStreams_node all_modules (cg_nodes s (tn_name tn)) = Some ps"
    and sel: "selector_ready resolve idOf tn ps now sel" and b: "stream_packet resolve idOf tn c b"
  shows "\<exists>sel' outs. bridge_send now ps sel b = Some (sel', outs) \<and>
    map bp_interfaceReq outs = map (\<lambda>m. Some (idOf (tn_name tn) (the (findLinkOut tn m)))) (concat (distinct_receivers c (tn_name tn))) \<and>
    (\<forall>q \<in> set outs. \<exists>m \<in> set (concat (distinct_receivers c (tn_name tn))).
      bp_interfaceReq q = Some (idOf (tn_name tn) (the (findLinkOut tn m))) \<and>
      tg_vlanReq (bp_tags q) = Some (cg_assignedVlanIds s (tn_name tn, m, destination_address c, cf_name c)))"
proof -
  let ?n = "tn_name tn" and ?Rs = "distinct_receivers c (tn_name tn)"
  let ?link = "\<lambda>m. idOf (tn_name tn) (the (findLinkOut tn m))"
  note copy = copy_selected[OF net s ids res c _ ps sel b]
  define enc where "enc R = encode_packet (encoder_entries (np_encoder ps))
    ((bp_tags b)\<lparr>tg_streamReq := Some (out_name c ?n R)\<rparr>)" for R
  define f where "f x = snd (the (selected_packets now sel x))" for x
  let ?b = "\<lambda>R. b\<lparr>bp_tags := the (enc R)\<rparr>"
  have enc: "enc R = Some (the (enc R))" and f: "selected_packets now sel (?b R) = Some (0, f (?b R))"
    "map bp_interfaceReq (f (?b R)) = map (\<lambda>m. Some (?link m)) R"
    "\<forall>x \<in> set (f (?b R)). \<forall>m \<in> set R. tg_vlanReq (bp_tags x) =
      Some (cg_assignedVlanIds s (?n, m, destination_address c, cf_name c))" if "R \<in> set ?Rs" for R
    using copy[OF that] by (auto simp: enc_def f_def)
  have p: "tg_streamReq (bp_tags b) = Some (cf_name c)" using b by (simp add: stream_packet_def)
  have split: "map (encode_packet (encoder_entries (np_encoder ps)))
      (split_packet (mapping_parameter (np_splitter ps)) (bp_tags b)) = map enc ?Rs"
    unfolding splitter_of_node[OF net s c ps p] by (simp add: enc_def)
  have copies: "those (map enc ?Rs) = Some (map (\<lambda>R. the (enc R)) ?Rs)" using enc by (intro those_total) blast
  have "\<forall>x \<in> set (map ?b ?Rs). selected_packets now sel x = Some (0, f x)" using f(1) by auto
  then obtain sel' where all: "select_all now sel (map ?b ?Rs) = Some (sel', concat (map f (map ?b ?Rs)))"
    using select_all_concat by blast
  let ?outs = "concat (map f (map ?b ?Rs))"
  have "bridge_send now ps sel b = Some (sel', ?outs)" using all by (simp add: bridge_send_def split copies o_def)
  moreover have "map bp_interfaceReq ?outs = map (\<lambda>m. Some (?link m)) (concat ?Rs)"
    unfolding map_concat map_map using f(2) by (intro arg_cong[of _ _ concat] map_cong) auto
  moreover have "\<exists>m \<in> set (concat ?Rs). bp_interfaceReq q = Some (?link m) \<and> tg_vlanReq (bp_tags q) =
      Some (cg_assignedVlanIds s (?n, m, destination_address c, cf_name c))" if q: "q \<in> set ?outs" for q
  proof -
    obtain R where R: "R \<in> set ?Rs" "q \<in> set (f (?b R))" using q by auto
    have "bp_interfaceReq q \<in> set (map (\<lambda>m. Some (?link m)) R)" unfolding f(2)[OF R(1), symmetric] using R(2) by simp
    then obtain m where m: "m \<in> set R" "bp_interfaceReq q = Some (?link m)" by auto
    then have "m \<in> set (concat ?Rs)" using R(1) by (simp only: set_concat) blast
    with m f(3)[OF R(1)] R(2) show ?thesis by blast
  qed
  ultimately show ?thesis by blast
qed

text \<open>The link of a hop carries the packets that are sent on its interface, and nothing else does.\<close>

lemma hop_carried:
  assumes net: "stream_network tp confs" and s: "configured tp confs s"
    and ids: "network_interfaces tp idOf nameOf matches" and c: "c \<in> set confs" "tn \<in> set tp"
    and hop: "(tn_name tn, m) \<in> set (stream_hops c)"
    and q: "bp_interfaceReq q = Some (idOf (tn_name tn) (the (findLinkOut tn m)))"
  shows "(\<exists>j. carried tp idOf (tn_name tn) q m j) \<and>
    (\<forall>m' j. carried tp idOf (tn_name tn) q m' j \<longrightarrow>
       m' = m \<and> (\<exists>tm \<in> set tp. tn_name tm = m \<and> findLinkIn tm (tn_name tn) = Some j))"
proof -
  let ?n = "tn_name tn"
  obtain R where R: "R \<in> set (distinct_receivers c ?n)" "m \<in> set R" by (rule hop_receivers[OF hop])
  obtain i where i: "findLinkOut tn m = Some i" using configured_item[OF s c R(1)] R(2) by (metis option.exhaust)
  note mem = link_out_mem[OF i]
  have links: "simple_links tp x" if "x \<in> set tp" for x using net that by (auto simp: stream_network_def)
  have "m \<in> tn_name ` set tp" using links[OF c(2)] mem by (force simp: simple_links_def)
  then obtain tm where tm: "tm \<in> set tp" "tn_name tm = m" by auto
  have "?n \<in> set (senders_of c (tn_name tm))" using hop tm(2) by (simp add: hop_senders)
  then have "findLinkIn tm ?n \<noteq> None"
    using s c(1) tm(1) unfolding configured_def policies_ok_def by blast
  then obtain j where j: "findLinkIn tm ?n = Some j" by auto
  have name: "nameOf ?n (idOf ?n k) = k" if "(x, Some k) \<in> set (tn_linksOut tn)" for x k
    using ids c(2) that unfolding network_interfaces_def by force
  have "carried tp idOf ?n q m j"
    unfolding carried_def using c(2) tm mem link_in_mem[OF j] q i by auto
  moreover have "m' = m \<and> (\<exists>tm \<in> set tp. tn_name tm = m \<and> findLinkIn tm ?n = Some j')"
    if m': "carried tp idOf ?n q m' j'" for m' j'
  proof -
    obtain tn' tm' k where k: "tn' \<in> set tp" "tm' \<in> set tp" "tn_name tn' = ?n" "tn_name tm' = m'" "idOf ?n i = idOf ?n k"
      "(m', Some k) \<in> set (tn_linksOut tn')" "(?n, Some j') \<in> set (tn_linksIn tm')"
      using m' q i unfolding carried_def by auto
    have "tn' = tn" by (rule distinct_nodes[OF net k(1) c(2) k(3)])
    then have "k = i" using name[OF mem] name[of m' k] k(5,6) by simp
    then have "m' = m"
      using distinct_snd[OF _ k(6)] mem links[OF c(2)] \<open>tn' = tn\<close> by (auto simp: simple_links_def)
    moreover have "findLinkIn tm' ?n = Some j'"
      using k(7) links[OF k(2)] by (simp add: findLinkIn_def simple_links_def)
    ultimately show ?thesis using k(2,4) by blast
  qed
  ultimately show ?thesis by blast
qed

text \<open>
  C12. Streams follow their trees, in a network that the redundancy configurator can handle (\<open>stream_network\<close>): names
  of nodes and streams are plain and different, there is at most one link between two nodes, two trees of a stream
  give a node the same receivers or disjoint ones, and streams that share a hop have the same destination address.
  Different destination addresses resolve to different MAC addresses. Consider a node configured from the result whose interface
  selector has read its forwarding table and whose entries have not aged (the time is more than a second below the
  ageing time), and a packet of a stream in it for the resolved destination of the stream (not the broadcast
  address), which did not come from one of the next nodes. The packet is split, encoded and sent to every node that comes next in one of the trees of the
  stream and to no other, one copy for each, and what arrives there on the interface of the link with the VLAN id of the copy
  is decoded and merged to a packet of the same stream. Outside these conditions it can fail:
  streams to different destinations that share a hop collide (\<open>different_destinations_collide\<close>), and a tree that
  branches towards a unicast address gives a forwarding table that is refused (\<open>unicast_branch_refused\<close>).
\<close>

theorem configured_streams_follow_trees:
  assumes net: "stream_network tp confs" and run: "computeStreams maxV tp confs clearConfiguration = Some s"
    and params: "\<forall>tn \<in> set tp. configureStreams_node all_modules (cg_nodes s (tn_name tn)) = Some (params (tn_name tn))"
    and ids: "network_interfaces tp idOf nameOf matches" and res: "different_addresses resolve confs"
    and c: "c \<in> set confs" "tn \<in> set tp"
    and sel: "selector_ready resolve idOf tn (params (tn_name tn)) now sel" and b: "stream_packet resolve idOf tn c b"
  shows "\<exists>sel' outs. bridge_send now (params (tn_name tn)) sel b = Some (sel', outs) \<and>
    {m. \<exists>q \<in> set outs. \<exists>j. carried tp idOf (tn_name tn) q m j} = {m. (tn_name tn, m) \<in> set (stream_hops c)} \<and>
    length outs = card {m. (tn_name tn, m) \<in> set (stream_hops c)} \<and>
    (\<forall>q \<in> set outs. \<forall>m j p mg. carried tp idOf (tn_name tn) q m j \<and> tg_interfaceInd p = Some (idOf m j) \<and>
       tg_vlanInd p = tg_vlanReq (bp_tags q) \<and> tg_streamInd p = None \<and> tg_seqInd p \<noteq> None \<longrightarrow>
       (\<exists>mg' p'. bridge_receive matches (nameOf m) (params m) mg p = Some (mg', p') \<and> tg_streamInd p' = Some (cf_name c)))"
proof -
  let ?n = "tn_name tn" and ?hops = "{m. (tn_name tn, m) \<in> set (stream_hops c)}"
  let ?link = "\<lambda>m. idOf (tn_name tn) (the (findLinkOut tn m))"
  have s: "configured tp confs s" by (rule computeStreams_configured[OF net run])
  have ps: "configureStreams_node all_modules (cg_nodes s ?n) = Some (params ?n)" using params c(2) by blast
  obtain sel' outs where outs: "bridge_send now (params ?n) sel b = Some (sel', outs)"
    "map bp_interfaceReq outs = map (\<lambda>m. Some (?link m)) (concat (distinct_receivers c ?n))"
    "\<forall>q \<in> set outs. \<exists>m \<in> ?hops. bp_interfaceReq q = Some (?link m) \<and>
      tg_vlanReq (bp_tags q) = Some (cg_assignedVlanIds s (?n, m, destination_address c, cf_name c))"
    using node_sends[OF net s ids res c ps sel b] unfolding set_concat_receivers by blast
  have "length outs = length (concat (distinct_receivers c ?n))" using outs(2) by (metis length_map)
  then have len: "length outs = card ?hops"
    using distinct_card[OF distinct_concat_receivers[OF net c]] by (simp add: set_concat_receivers del: set_concat)
  have to: "\<exists>q \<in> set outs. bp_interfaceReq q = Some (?link m)" if "m \<in> ?hops" for m
  proof -
    have "Some (?link m) \<in> set (map bp_interfaceReq outs)" unfolding outs(2) using that set_concat_receivers by auto
    then show ?thesis by (auto simp: image_iff dest: sym)
  qed
  note wire = hop_carried[OF net s ids c]
  have "{m. \<exists>q \<in> set outs. \<exists>j. carried tp idOf ?n q m j} = ?hops"
  proof (intro set_eqI iffI)
    fix m assume "m \<in> ?hops"
    then show "m \<in> {m. \<exists>q \<in> set outs. \<exists>j. carried tp idOf ?n q m j}" using to wire by blast
  next
    fix m assume "m \<in> {m. \<exists>q \<in> set outs. \<exists>j. carried tp idOf ?n q m j}"
    then show "m \<in> ?hops" using outs(3) wire by blast
  qed
  moreover have "\<exists>mg' p'. bridge_receive matches (nameOf m) (params m) mg p = Some (mg', p') \<and> tg_streamInd p' = Some (cf_name c)"
    if q: "q \<in> set outs" "carried tp idOf ?n q m j" "tg_interfaceInd p = Some (idOf m j)" "tg_vlanInd p = tg_vlanReq (bp_tags q)"
      "tg_streamInd p = None" "tg_seqInd p \<noteq> None" for q m j p mg
  proof -
    obtain m' where m': "m' \<in> ?hops" "bp_interfaceReq q = Some (?link m')"
      "tg_vlanReq (bp_tags q) = Some (cg_assignedVlanIds s (?n, m', destination_address c, cf_name c))"
      using outs(3) q(1) by blast
    obtain tm where tm: "m = m'" "tm \<in> set tp" "tn_name tm = m" "findLinkIn tm ?n = Some j"
      using wire[of m' q] m'(1,2) q(2) by auto
    have hop: "(?n, tn_name tm) \<in> set (stream_hops c)" using m'(1) tm(1,3) by simp
    have "configureStreams_node all_modules (cg_nodes s (tn_name tm)) = Some (params (tn_name tm))" using params tm(2) by blast
    from arrival[OF net s ids c tm(2) hop this tm(4)] show ?thesis using q(3-6) m'(3) tm(1,3) by simp
  qed
  ultimately show ?thesis using outs(1) len by blast
qed

section \<open>Witness\<close>

text \<open>A stream from \<open>a\<close> to \<open>d\<close> over \<open>b\<close> and over \<open>c\<close>.\<close>

definition square_node :: "string \<Rightarrow> string \<Rightarrow> string \<Rightarrow> topology_node" where
  "square_node n x y = \<lparr>tn_name = n, tn_interfaces = [''e0'', ''e1''],
     tn_linksOut = [(x, Some ''e0''), (y, Some ''e1'')], tn_linksIn = [(x, Some ''e0''), (y, Some ''e1'')]\<rparr>"

definition square :: "topology_node list" where
  "square = [square_node ''a'' ''b'' ''c'', square_node ''b'' ''a'' ''d'', square_node ''c'' ''a'' ''d'', square_node ''d'' ''b'' ''c'']"

definition square_stream :: stream_conf where
  "square_stream = \<lparr>cf_name = ''S'', cf_source = ''a'', cf_destination = ''d'', cf_destinationAddress = None, cf_pcp = Some 4,
     cf_packetFilter = None, cf_trees = [[[''a'', ''b'', ''d'']], [[''a'', ''c'', ''d'']]]\<rparr>"

definition square_id :: "string \<Rightarrow> string \<Rightarrow> int" where
  "square_id n i = (if i = ''e0'' then 0 else 1)"

definition square_name :: "string \<Rightarrow> int \<Rightarrow> string" where
  "square_name n k = (if k = 0 then ''e0'' else ''e1'')"

definition square_resolve :: "string \<Rightarrow> mac_address option" where
  "square_resolve x = (if x = ''d'' then Some (MacAddress 10) else None)"

definition square_packet :: bridge_packet where
  "square_packet = \<lparr>bp_tags = plain_packet\<lparr>tg_streamReq := Some ''S'', tg_seqReq := Some 0\<rparr>, bp_direction = Some DIRECTION_OUTBOUND,
     bp_cutthroughPosition = None, bp_eligibilityTime = None, bp_macReq = Some (MacAddress 8, MacAddress 10), bp_interfaceReq = None\<rparr>"

definition square_selector :: "mac_table \<Rightarrow> interface_selector" where
  "square_selector tab = \<lparr>is_interfaceTable = map (\<lambda>i. \<lparr>ri_id = i, ri_loopback = False, ri_broadcast = True,
     ri_protocol = Some P_ethernetMac\<rparr>) [0, 1], is_macTable = tab, is_numProcessedFrames = 0, is_numDroppedFrames = 0\<rparr>"

definition square_params :: "configurator \<Rightarrow> string \<Rightarrow> node_parameters" where
  "square_params s n = the (configureStreams_node all_modules (cg_nodes s n))"

definition square_table :: "configurator \<Rightarrow> mac_table option" where
  "square_table s = parseForwardingTableParameter square_resolve (\<lambda>i. Some (square_id ''a'' i))
     (case np_forwardingTable (square_params s ''a'') of None \<Rightarrow> [] | Some l \<Rightarrow> l) (init_table (2 * SECOND))"

lemma square_runs:
  "case computeStreams 4095 square [square_stream] clearConfiguration of None \<Rightarrow> False
   | Some s \<Rightarrow> list_all (\<lambda>n. \<not> Option.is_none (configureStreams_node all_modules (cg_nodes s n))) [''a'', ''b'', ''c'', ''d''] \<and>
      \<not> Option.is_none (square_table s)"
  by code_simp

lemma square_network: "stream_network square [square_stream]"
  by code_simp

lemma configured_streams_follow_trees_witness:
  "\<exists>s tab sel outs. computeStreams 4095 square [square_stream] clearConfiguration = Some s \<and>
    bridge_send 0 (square_params s ''a'') (square_selector tab) square_packet = Some (sel, outs) \<and>
    {m. \<exists>q \<in> set outs. \<exists>j. carried square square_id ''a'' q m j} = {''b'', ''c''} \<and> length outs = 2"
proof -
  obtain s where s: "computeStreams 4095 square [square_stream] clearConfiguration = Some s"
    "list_all (\<lambda>n. \<not> Option.is_none (configureStreams_node all_modules (cg_nodes s n))) [''a'', ''b'', ''c'', ''d'']"
    "\<not> Option.is_none (square_table s)" using square_runs by (auto split: option.splits)
  obtain tab where tab: "square_table s = Some tab" using s(3) by (auto simp: Option.is_none_def)
  let ?a = "square_node ''a'' ''b'' ''c''"
  have names: "tn_name (square_node n x y) = n" for n x y by (simp add: square_node_def)
  have params: "\<forall>tn \<in> set square. configureStreams_node all_modules (cg_nodes s (tn_name tn)) = Some (square_params s (tn_name tn))"
    using s(2) by (auto simp: square_def names square_params_def Option.is_none_def)
  have ids: "network_interfaces square square_id square_name (\<lambda>i x. x = i)"
    by (auto simp: network_interfaces_def square_def square_node_def square_id_def square_name_def)
  have res: "different_addresses square_resolve [square_stream]" by (simp add: different_addresses_def)
  have ag: "agingTime tab = 2 * SECOND"
    using aging_parse[OF tab[unfolded square_table_def]] by (simp add: init_table_def)
  have sel: "selector_ready square_resolve square_id ?a (square_params s (tn_name ?a)) 0 (square_selector tab)"
    using tab ag by (auto simp: selector_ready_def square_selector_def names square_table_def square_node_def
        interface_by_id_def square_id_def SECOND_def)
  have b: "stream_packet square_resolve square_id ?a square_stream square_packet"
    by (auto simp: stream_packet_def square_packet_def square_stream_def square_resolve_def destination_address_def
        plain_packet_def isBroadcast_def MAC_ADDRESS_MASK_def split: option.splits)
  have hops: "{m. (''a'', m) \<in> set (stream_hops square_stream)} = {''b'', ''c''}"
    by (auto simp: square_stream_def stream_hops_def tree_hops_def)
  have mem: "square_stream \<in> set [square_stream]" "?a \<in> set square" by (simp_all add: square_def)
  from configured_streams_follow_trees[OF square_network s(1) params ids res mem sel b] show ?thesis
    unfolding names hops
  proof (elim exE conjE)
    fix sel' outs
    assume "bridge_send 0 (square_params s ''a'') (square_selector tab) square_packet = Some (sel', outs)"
      "{m. \<exists>q \<in> set outs. \<exists>j. carried square square_id ''a'' q m j} = {''b'', ''c''}" "length outs = card {''b'', ''c''}"
    with s(1) show ?thesis by (intro exI conjI) (simp_all add: numeral_2_eq_2)
  qed
qed

text \<open>Without the condition on the destination addresses it is not so: the node \<open>b\<close> cannot tell a stream to \<open>d\<close>
  from a stream to itself, the first entry of its decoder matches the frames of both.\<close>

lemma different_destinations_collide:
  "case computeStreams 4095 square
      [square_stream\<lparr>cf_name := ''S1'', cf_trees := [[[''a'', ''b'', ''d'']]]\<rparr>,
       square_stream\<lparr>cf_name := ''S2'', cf_destination := ''b'', cf_trees := [[[''a'', ''b'']]]\<rparr>] clearConfiguration of
     None \<Rightarrow> False
   | Some s \<Rightarrow> map (\<lambda>d. (xd_networkInterface d, xd_vlanId d, xd_name d)) (nc_decodings (cg_nodes s ''b'')) =
       [(''e0'', 0, ''S1''), (''e0'', 0, ''S2'')]"
  by code_simp

text \<open>A unicast destination with two receivers in one tree gets two entries for one address and VLAN, and the
  forwarding table refuses them.\<close>

lemma unicast_branch_refused:
  "case computeStreams 4095 square
      [square_stream\<lparr>cf_trees := [[[''a'', ''b'', ''d''], [''a'', ''c'', ''d'']]]\<rparr>] clearConfiguration of
     None \<Rightarrow> False | Some s \<Rightarrow> Option.is_none (square_table s)"
  by code_simp

end
