(* ===== verification/Spec2Isabelle.thy ===== *)
theory Spec2Isabelle
  imports Rstp_Steps Stp Relay Gate_Scheduling Goose_Source Credit_Gate Token_Bucket Stream_Redundancy Message_Codec
    Fragmentation Ordering Ats_Shaper Packet_Buffer Priority_Queue Packet_Scheduler Gptp Ethernet_Mac Fragment_Phy Z3_Scheduling
    Stream_Network
begin

text \<open>
  A verification library for the bridge and the time-sensitive networking part of the INET framework, as the substation
  simulation uses it. All file names are relative to src/inet/src/inet unless they start with src/.

  \<^bold>\<open>The program.\<close> The simulation is a network of bridges and stations. A frame of the GOOSE traffic source enters the
  queueing layer of an Ethernet interface: it is classified, metered, possibly dropped, queued, and leaves through the
  transmission gates, which the gate control lists open and close, and the credit-based or the asynchronous shaper. The
  MAC takes it from the queue and sends it. A bridge receives it, learns the sender, and relays it to the ports that the
  spanning tree protocol has made forwarding. Stream modules tag frames, replicate them over redundant paths and
  eliminate the copies; fragmentation and ordering modules split and restore them; the time synchronization protocol
  keeps the clocks of the gates together. Headers and messages have serializers.

  \<^bold>\<open>Theories and code.\<close>
  \<^item> \<open>Prelude\<close>: times (raw ticks as integers), errors as options (\<open>ensure\<close> is an \<open>ASSERT\<close> or a conditional \<open>throw\<close>), maps,
    lists and words.
  \<^item> \<open>Mac_Address\<close> (linklayer/common/MacAddress), \<open>Forwarding_Table\<close> (linklayer/ethernet/common/MacForwardingTable): the
    address as a 64-bit word, the filtering database as maps with ageing.
  \<^item> \<open>Bridge_Data\<close>, \<open>Rstp\<close>, \<open>Rstp_Invariant\<close>, \<open>Rstp_Steps\<close> (linklayer/ieee8021d/rstp), \<open>Stp\<close> (linklayer/ieee8021d/stp), \<open>Relay\<close>
    (linklayer/ieee8021d/relay): a module is a record of its fields, a handler a function on it that returns the new
    state and what is sent, a run an inductive relation over the events.
  \<^item> \<open>Periodic_Gate\<close>, \<open>Gate_Control_List\<close>, \<open>Credit_Gate\<close> (queueing/gate), \<open>Token_Bucket\<close> (queueing/common, meter, classifier),
    \<open>Goose_Source\<close> (queueing/source/ActivePacketSource.cc).
  \<^item> \<open>Gate_Scheduling\<close> (linklayer/configurator/gatescheduling): the eager scheduler reserves slots along the paths of the
    flows, and the slots become the parameters of the periodic gates. \<open>Z3_Scheduling\<close> (the same directory, z3): the
    constraints that are given to a solver, and the schedule of a solution.
  \<^item> \<open>Packet_Queue\<close>, \<open>Packet_Buffer\<close>, \<open>Priority_Queue\<close>, \<open>Packet_Scheduler\<close>, \<open>Packet_Filter\<close> (queueing/queue, buffer, scheduler,
    classifier, base): collections behind the locale \<open>packet_collection\<close>, filters behind the locale \<open>packet_filter\<close>.
  \<^item> \<open>Protocol_Tags\<close> (common/ProtocolUtils.cc, linklayer/ieee8021q, ieee8021r), \<open>Stream_Redundancy\<close> (protocolelement/
    redundancy), \<open>Fragmentation\<close>, \<open>Ordering\<close>, \<open>Ats_Shaper\<close> (protocolelement/fragmentation, ordering, shaper).
  \<^item> \<open>Stream_Configuration\<close> (linklayer/configurator/StreamRedundancyConfigurator), \<open>Stream_Network\<close> (linklayer/ethernet/common:
    the direction reverser, the interface selector and the learner): from the trees of the streams to the parameters of the
    stream modules, and the network of bridges configured so.
  \<^item> \<open>Memory_Stream\<close> (common/MemoryOutputStream.h, MemoryInputStream.h), \<open>Header_Codec\<close>, \<open>Message_Codec\<close> (the serializers of
    linklayer and protocolelement): every pair of a writer and a reader interprets the locale \<open>codec\<close>.
  \<^item> \<open>Clock\<close> (clock), \<open>Gptp\<close> (linklayer/ieee8021as/Gptp.cc): oscillators and clocks as records, the protocol on top of the
    settable clock.
  \<^item> \<open>Checksum\<close> (common/checksum/EthernetCRC.cc, protocolelement/checksum), \<open>Ethernet_Mac\<close> (linklayer/ethernet/basic, base):
    frame check sequences and the full duplex MAC, which relies on its queue through the locale \<open>tx_queue\<close>.
  \<^item> \<open>Preemption\<close> (protocolelement/common/PacketStreamer, PacketDestreamer, PreemptableStreamer, queueing/server/
    PreemptingServer, queueing/scheduler/PriorityScheduler): the frame preemption of the layered Ethernet interface, which
    relies on the queues through the locale \<open>frame_provider\<close>. \<open>Fragment_Phy\<close> (physicallayer/wired/ethernet,
    linklayer/ethernet/modular/EthernetClassifier.cc): the headers of fragments, their serializers, and the chain from the
    preempting MAC over the wire to the reassembled frame.

  \<^bold>\<open>What the lemmas show.\<close> For each stateful component an invariant and that every handler keeps it, and with it that no
  exception is thrown in any legal run: the roles, states and timers of RSTP and STP, the credit of the shaper, the
  levels of token buckets, the timers of the MAC, the packets of shared buffers. Refinements: a periodic gate is open
  exactly when its schedule says so, a compiled gate control list is the list, the gates of an interface follow the eager
  schedule, or any solution of the constraints, and never two are open, a compound priority queue is one queue
  sorted by priority, a preempting MAC is the unpreempted sequence of the frames of its two queues and its fragments are
  reassembled to these frames at the other end of the wire, a configured network forwards the packets of a stream along the
  trees of the stream, time synchronization brings every clock of a line of bridges to the master's time. Round trips:
  streams, headers, messages, fragments, frame check sequences, reordering, drifting clocks. Bounds and
  liveness: metered traffic conforms to its rate and burst, a transmission ends within the open window of its gate and keeps
  the interframe gap, a gaining credit gate reopens within a tick of the moment its credit reaches the limit unless that moment
  is less than a tick away (then it has no timer), weighted round robin serves every provider in its share. Equivalences with
  reference definitions: the table driven checksum and the CRC-32 of the standard. Lemmas that show where the code does
  not do what it says stand beside the definitions; their texts say so.

  \<^bold>\<open>Bounds, fuel and numbers.\<close> Simulation times are unbounded integers (the 64-bit range of \<open>SimTime\<close> is not modelled); header
  fields, checksums, addresses and sequence numbers are machine words. Amounts that the code keeps in \<open>double\<close> are exact
  rationals or reals, whose own rounding is not modelled. Where the code converts such an amount to a time, which rounds it to
  ticks, the conversion is a parameter of the definitions: \<open>Credit_Gate\<close> and \<open>Ats_Shaper\<close> assume only that it is off by at
  most a tick, the other theories state what they assume of it. The 16 bits of a sequence number on the wire are the hypothesis
  of \<open>replication_delivers_once\<close>. Loops are
  structural, have a termination proof, or are partial functions whose termination is proved where it holds
  (\<open>fragmentation_terminates\<close>, \<open>eager_first_packet\<close>, the overload loops of the queues, emptying the queue of the MAC). Only the run of a gate up to a
  time takes fuel: every change moves time on, so the distance in ticks is enough, and the theorems say so.

  \<^bold>\<open>Parameters.\<close> The simulator (OMNeT++) is not part of the repository. Its event queue appears as the hypothesis that events
  come in the order of their times, its queue container as an insertion function with the documented order
  (\<open>storage_insert\<close>), the conversion of a \<open>double\<close> to its time type as a function (\<open>conv\<close>), packet expressions, name patterns, random numbers and the contents of packets as arguments. The constraint solver is a
  function whose values satisfy the constraints it is given (\<open>solver_sound\<close>).

  \<^bold>\<open>Not modelled.\<close> The layers above and beside the bridge are other subsystems with no logic of this one: network layer,
  transport, routing, applications, wireless link and physical layers, mobility, power, visualizers and the user
  interface. Files generated from message definitions are field access. Of the subsystem itself: the half duplex
  MAC with collisions, the cut-through transmitters of the streaming modules, servers and token generators, the
  configurators that find redundant paths in the topology of the network or read XML, the scheduler that calls an external program, the readers of tables and parameters, statistics, display and tags that only carry
  information for statistics.
\<close>

end
